(* ===== verification/Prelude.thy ===== *)
theory Prelude
  imports Main "HOL-Library.Word" "HOL-Library.Sublist" "HOL-Library.Code_Target_Nat"
begin

text \<open>
  The vocabulary every component shares: Rust's \<open>str\<close> as a list of Unicode scalar values
  with its UTF-8 byte view, the string operations the sources call (\<open>split_once\<close>,
  \<open>lines\<close>, \<open>trim_end\<close>, \<open>parse::<usize>\<close> and so on), and saturating and checked arithmetic at
  64 bits. The lemmas are the generic facts the component theories rewrite with; the named
  collections \<open>str_simps\<close> (string operations) and \<open>sat_simps\<close> (saturating arithmetic)
  gather them.
\<close>

named_theorems str_simps
named_theorems sat_simps

section \<open>Strings\<close>

type_synonym uchar = nat
type_synonym rstr = "uchar list"
type_synonym byte = nat

text \<open>A source literal: its characters as code points.\<close>

definition lit :: "string \<Rightarrow> rstr" where
  "lit s = map of_char s"

abbreviation (input) NL :: uchar where "NL \<equiv> 10"
abbreviation (input) CR :: uchar where "CR \<equiv> 13"

lemma length_lit [simp]: "length (lit s) = length s"
  by (simp add: lit_def)

lemma lit_Nil [simp]: "lit [] = []"
  by (simp add: lit_def)

lemma lit_eq_Nil [simp]: "lit s = [] \<longleftrightarrow> s = []"
  by (simp add: lit_def)

lemma lit_append: "lit (s @ t) = lit s @ lit t"
  by (simp add: lit_def)

lemma lit_inject [simp]: "lit s = lit t \<longleftrightarrow> s = t"
  by (auto simp: lit_def inj_map_eq_map inj_def of_char_eq_iff)

text \<open>Unicode scalar values, and the width of their UTF-8 encoding (\<open>char::len_utf8\<close>).\<close>

definition is_scalar :: "uchar \<Rightarrow> bool" where
  "is_scalar c \<longleftrightarrow> c < 0xD800 \<or> (0xE000 \<le> c \<and> c < 0x110000)"

definition valid_str :: "rstr \<Rightarrow> bool" where
  "valid_str s \<longleftrightarrow> list_all is_scalar s"

definition len_utf8 :: "uchar \<Rightarrow> nat" where
  "len_utf8 c = (if c < 0x80 then 1 else if c < 0x800 then 2 else if c < 0x10000 then 3 else 4)"

definition utf8_char :: "uchar \<Rightarrow> byte list" where
  "utf8_char c =
     (if c < 0x80 then [c]
      else if c < 0x800 then [0xC0 + c div 64, 0x80 + c mod 64]
      else if c < 0x10000 then
        [0xE0 + c div 4096, 0x80 + c div 64 mod 64, 0x80 + c mod 64]
      else
        [0xF0 + c div 262144, 0x80 + c div 4096 mod 64, 0x80 + c div 64 mod 64, 0x80 + c mod 64])"

text \<open>\<open>str::as_bytes\<close>.\<close>

definition as_bytes :: "rstr \<Rightarrow> byte list" where
  "as_bytes s = concat (map utf8_char s)"

text \<open>\<open>str::len\<close>: the number of bytes.\<close>

definition blen :: "rstr \<Rightarrow> nat" where
  "blen s = sum_list (map len_utf8 s)"

lemma blen_Nil [simp]: "blen [] = 0"
  and blen_Cons [simp]: "blen (c # s) = len_utf8 c + blen s"
  and blen_append [simp]: "blen (s @ t) = blen s + blen t"
  by (simp_all add: blen_def)

lemma len_utf8_pos [simp]: "0 < len_utf8 c"
  and len_utf8_ge1 [simp]: "Suc 0 \<le> len_utf8 c"
  by (simp_all add: len_utf8_def)

lemma len_utf8_ascii [simp]: "c < 128 \<Longrightarrow> len_utf8 c = 1"
  by (simp add: len_utf8_def)

lemma length_utf8_char [simp]: "length (utf8_char c) = len_utf8 c"
  by (simp add: utf8_char_def len_utf8_def)

lemma length_as_bytes: "length (as_bytes s) = blen s"
  by (induction s) (simp_all add: as_bytes_def)

lemma as_bytes_Nil [simp]: "as_bytes [] = []"
  and as_bytes_Cons: "as_bytes (c # s) = utf8_char c @ as_bytes s"
  and as_bytes_append: "as_bytes (s @ t) = as_bytes s @ as_bytes t"
  by (simp_all add: as_bytes_def)

lemma blen_eq_0 [simp]: "blen s = 0 \<longleftrightarrow> s = []"
  by (cases s) auto

text \<open>
  Slicing at byte offsets. \<open>split_bytes n s\<close> is \<open>(&s[..n], &s[n..])\<close>; \<open>None\<close> is the panic of
  an offset that is past the end or inside a character.
\<close>

fun split_bytes :: "nat \<Rightarrow> rstr \<Rightarrow> (rstr \<times> rstr) option" where
  "split_bytes n [] = (if n = 0 then Some ([], []) else None)"
| "split_bytes n (c # s) =
     (if n = 0 then Some ([], c # s)
      else if len_utf8 c \<le> n then
        map_option (\<lambda>(a, b). (c # a, b)) (split_bytes (n - len_utf8 c) s)
      else None)"

definition is_char_boundary :: "rstr \<Rightarrow> nat \<Rightarrow> bool" where
  "is_char_boundary s n \<longleftrightarrow> split_bytes n s \<noteq> None"

lemma split_bytes_Some:
  "split_bytes n s = Some (a, b) \<Longrightarrow> s = a @ b \<and> blen a = n"
proof (induction n s arbitrary: a b rule: split_bytes.induct)
  case (2 n c s)
  then show ?case by (force split: if_splits)
qed (simp split: if_splits)

lemma split_bytes_blen [simp]: "split_bytes (blen a) (a @ b) = Some (a, b)"
proof (induction a)
  case Nil
  then show ?case by (cases b) auto
next
  case (Cons c a)
  have "len_utf8 c + blen a \<noteq> 0" using len_utf8_pos [of c] by linarith
  with Cons show ?case by simp
qed

lemma split_bytes_iff: "split_bytes n s = Some (a, b) \<longleftrightarrow> s = a @ b \<and> blen a = n"
  using split_bytes_Some split_bytes_blen by blast

text \<open>\<open>str::get(start..end)\<close>.\<close>

definition byte_slice :: "rstr \<Rightarrow> nat \<Rightarrow> nat \<Rightarrow> rstr option" where
  "byte_slice s start stop =
     (if stop < start then None
      else case split_bytes start s of
        None \<Rightarrow> None
      | Some (_, rest) \<Rightarrow> map_option fst (split_bytes (stop - start) rest))"

lemma byte_slice_iff:
  "byte_slice s i j = Some m \<longleftrightarrow>
     i \<le> j \<and> (\<exists>a b. s = a @ m @ b \<and> blen a = i \<and> blen a + blen m = j)"
proof
  assume "byte_slice s i j = Some m"
  then have ij: "i \<le> j"
    and sl: "(case split_bytes i s of None \<Rightarrow> None
       | Some (_, rest) \<Rightarrow> map_option fst (split_bytes (j - i) rest)) = Some m"
    by (auto simp: byte_slice_def split: if_splits)
  from sl obtain a rest where a: "split_bytes i s = Some (a, rest)"
    and m: "map_option fst (split_bytes (j - i) rest) = Some m"
    by (auto split: option.splits)
  from m obtain b where b: "split_bytes (j - i) rest = Some (m, b)" by auto
  from split_bytes_Some [OF a] split_bytes_Some [OF b] ij
  have "s = a @ m @ b \<and> blen a = i \<and> blen a + blen m = j" by auto
  with ij show "i \<le> j \<and> (\<exists>a b. s = a @ m @ b \<and> blen a = i \<and> blen a + blen m = j)" by blast
next
  assume "i \<le> j \<and> (\<exists>a b. s = a @ m @ b \<and> blen a = i \<and> blen a + blen m = j)"
  then obtain a b where "i \<le> j" "s = a @ m @ b" "i = blen a" "j = blen a + blen m" by auto
  then show "byte_slice s i j = Some m" by (simp add: byte_slice_def)
qed

subsection \<open>Searching and stripping\<close>

definition starts_with :: "rstr \<Rightarrow> rstr \<Rightarrow> bool" where
  "starts_with h n \<longleftrightarrow> take (length n) h = n"

definition ends_with :: "rstr \<Rightarrow> rstr \<Rightarrow> bool" where
  "ends_with h n \<longleftrightarrow> length n \<le> length h \<and> drop (length h - length n) h = n"

definition strip_prefix :: "rstr \<Rightarrow> rstr \<Rightarrow> rstr option" where
  "strip_prefix p s = (if starts_with s p then Some (drop (length p) s) else None)"

definition strip_suffix :: "rstr \<Rightarrow> rstr \<Rightarrow> rstr option" where
  "strip_suffix p s = (if ends_with s p then Some (take (length s - length p) s) else None)"

fun str_contains :: "rstr \<Rightarrow> rstr \<Rightarrow> bool" where
  "str_contains [] n = (n = [])"
| "str_contains (c # h) n = (starts_with (c # h) n \<or> str_contains h n)"

text \<open>Index, in characters, of the first match (\<open>str::find\<close> up to the byte/char offset).\<close>

fun str_find :: "rstr \<Rightarrow> rstr \<Rightarrow> nat option" where
  "str_find [] n = (if n = [] then Some 0 else None)"
| "str_find (c # h) n = (if starts_with (c # h) n then Some 0 else map_option Suc (str_find h n))"

fun split_once :: "uchar \<Rightarrow> rstr \<Rightarrow> (rstr \<times> rstr) option" where
  "split_once d [] = None"
| "split_once d (c # s) =
     (if c = d then Some ([], s) else map_option (\<lambda>(a, b). (c # a, b)) (split_once d s))"

fun split_on :: "(uchar \<Rightarrow> bool) \<Rightarrow> rstr \<Rightarrow> rstr list" where
  "split_on p [] = [[]]"
| "split_on p (c # s) =
     (if p c then [] # split_on p s
      else case split_on p s of [] \<Rightarrow> [[c]] | w # ws \<Rightarrow> (c # w) # ws)"

lemma starts_with_iff: "starts_with h n \<longleftrightarrow> (\<exists>t. h = n @ t)"
  unfolding starts_with_def by (metis append_take_drop_id append_eq_conv_conj)

lemma starts_with_append [simp]: "starts_with (n @ t) n"
  by (auto simp: starts_with_iff)

lemma ends_with_iff: "ends_with h n \<longleftrightarrow> (\<exists>t. h = t @ n)"
proof
  assume "ends_with h n"
  then have "h = take (length h - length n) h @ n"
    unfolding ends_with_def by (metis append_take_drop_id)
  then show "\<exists>t. h = t @ n" by blast
qed (auto simp: ends_with_def)

lemma strip_prefix_iff: "strip_prefix p s = Some t \<longleftrightarrow> s = p @ t"
  by (auto simp: strip_prefix_def starts_with_iff)

lemma strip_prefix_append [simp]: "strip_prefix p (p @ t) = Some t"
  by (simp add: strip_prefix_iff)

lemma str_contains_iff: "str_contains h n \<longleftrightarrow> (\<exists>a b. h = a @ n @ b)"
proof (induction h)
  case Nil
  then show ?case by auto
next
  case (Cons c h)
  have "(\<exists>a b. c # h = a @ n @ b) \<longleftrightarrow> (\<exists>b. c # h = n @ b) \<or> (\<exists>a b. h = a @ n @ b)"
    by (metis append_Cons append_Nil list.inject neq_Nil_conv)
  with Cons show ?case by (simp add: starts_with_iff)
qed

lemma str_contains_append1 [simp]: "str_contains (n @ b) n"
  and str_contains_append2 [simp]: "str_contains (a @ n) n"
  and str_contains_append3 [simp]: "str_contains (a @ n @ b) n"
  and str_contains_refl [simp]: "str_contains n n"
  and str_contains_empty [simp]: "str_contains h []"
  by (auto simp: str_contains_iff) (metis append_Nil append_Nil2 append.assoc)+

lemma str_contains_left: "str_contains a n \<Longrightarrow> str_contains (a @ b) n"
  and str_contains_right: "str_contains b n \<Longrightarrow> str_contains (a @ b) n"
  by (auto simp: str_contains_iff) (metis append.assoc)+

lemma str_contains_trans: "str_contains a b \<Longrightarrow> str_contains b c \<Longrightarrow> str_contains a c"
  by (auto simp: str_contains_iff) (metis append.assoc)

lemma str_find_Some: "str_find h n = Some i \<Longrightarrow> i \<le> length h \<and> starts_with (drop i h) n"
proof (induction h arbitrary: i)
  case (Cons c h)
  then show ?case by (auto split: if_splits)
qed (auto split: if_splits simp: starts_with_def)

lemma str_find_None: "str_find h n = None \<longleftrightarrow> \<not> str_contains h n"
  by (induction h) (auto split: if_splits)

lemma split_once_None [simp]: "split_once d s = None \<longleftrightarrow> d \<notin> set s"
  by (induction s) auto

lemma split_once_iff: "split_once d s = Some (a, b) \<longleftrightarrow> s = a @ d # b \<and> d \<notin> set a"
  by (induction s arbitrary: a b) (force simp: Cons_eq_append_conv)+

lemma split_once_append [simp]: "d \<notin> set a \<Longrightarrow> split_once d (a @ d # b) = Some (a, b)"
  by (simp add: split_once_iff)

lemma split_on_not_Nil [simp]: "split_on p s \<noteq> []"
  by (induction s) (auto split: list.splits)

subsection \<open>Character classes, case and trimming\<close>

definition is_ascii_digit :: "uchar \<Rightarrow> bool" where
  "is_ascii_digit c \<longleftrightarrow> 48 \<le> c \<and> c \<le> 57"

definition is_ascii_alphanumeric :: "uchar \<Rightarrow> bool" where
  "is_ascii_alphanumeric c \<longleftrightarrow> is_ascii_digit c \<or> (65 \<le> c \<and> c \<le> 90) \<or> (97 \<le> c \<and> c \<le> 122)"

definition is_ascii_hexdigit :: "uchar \<Rightarrow> bool" where
  "is_ascii_hexdigit c \<longleftrightarrow> is_ascii_digit c \<or> (65 \<le> c \<and> c \<le> 70) \<or> (97 \<le> c \<and> c \<le> 102)"

text \<open>\<open>char::is_whitespace\<close>: the Unicode property White\_Space.\<close>

definition is_whitespace :: "uchar \<Rightarrow> bool" where
  "is_whitespace c \<longleftrightarrow>
     (9 \<le> c \<and> c \<le> 13) \<or> c = 32 \<or> c = 0x85 \<or> c = 0xA0 \<or> c = 0x1680 \<or>
     (0x2000 \<le> c \<and> c \<le> 0x200A) \<or> c = 0x2028 \<or> c = 0x2029 \<or> c = 0x202F \<or> c = 0x205F \<or>
     c = 0x3000"

definition ascii_lower :: "uchar \<Rightarrow> uchar" where
  "ascii_lower c = (if 65 \<le> c \<and> c \<le> 90 then c + 32 else c)"

definition ascii_upper :: "uchar \<Rightarrow> uchar" where
  "ascii_upper c = (if 97 \<le> c \<and> c \<le> 122 then c - 32 else c)"

definition to_ascii_lowercase :: "rstr \<Rightarrow> rstr" where
  "to_ascii_lowercase s = map ascii_lower s"

definition eq_ignore_ascii_case :: "rstr \<Rightarrow> rstr \<Rightarrow> bool" where
  "eq_ignore_ascii_case a b \<longleftrightarrow> to_ascii_lowercase a = to_ascii_lowercase b"

definition trim_start :: "rstr \<Rightarrow> rstr" where
  "trim_start s = dropWhile is_whitespace s"

definition trim_end :: "rstr \<Rightarrow> rstr" where
  "trim_end s = rev (dropWhile is_whitespace (rev s))"

definition trim :: "rstr \<Rightarrow> rstr" where
  "trim s = trim_end (trim_start s)"

definition trim_start_matches :: "uchar \<Rightarrow> rstr \<Rightarrow> rstr" where
  "trim_start_matches c s = dropWhile (\<lambda>x. x = c) s"

lemma trim_end_prefix: "\<exists>w. s = trim_end s @ w \<and> list_all is_whitespace w"
proof -
  have "rev s = takeWhile is_whitespace (rev s) @ dropWhile is_whitespace (rev s)" by simp
  then have "s = rev (dropWhile is_whitespace (rev s)) @ rev (takeWhile is_whitespace (rev s))"
    by (metis rev_append rev_rev_ident)
  moreover have "list_all is_whitespace (rev (takeWhile is_whitespace (rev s)))"
    by (auto simp: list_all_iff dest: set_takeWhileD)
  ultimately show ?thesis unfolding trim_end_def by blast
qed

lemma trim_end_idem [simp]: "trim_end (trim_end s) = trim_end s"
  by (simp add: trim_end_def)

lemma split_whitespace_termination: "dropWhile (\<lambda>x. \<not> p x) s = c # t \<Longrightarrow> length t < length s"
  by (metis length_Cons length_dropWhile_le lessI order_less_le_trans)

definition split_whitespace :: "rstr \<Rightarrow> rstr list" where
  "split_whitespace s = filter (\<lambda>w. w \<noteq> []) (split_on is_whitespace s)"

subsection \<open>Lines\<close>

text \<open>
  \<open>str::split_inclusive('\n')\<close>: each piece keeps its terminator, and there is no empty last
  piece (so the empty string has no pieces at all).
\<close>

fun split_inclusive :: "rstr \<Rightarrow> rstr list" where
  "split_inclusive [] = []"
| "split_inclusive (c # s) =
     (if c = NL then [NL] # split_inclusive s
      else case split_inclusive s of [] \<Rightarrow> [[c]] | l # ls \<Rightarrow> (c # l) # ls)"

lemma concat_split_inclusive [simp]: "concat (split_inclusive s) = s"
proof (induction s)
  case (Cons c s)
  then show ?case by (cases "split_inclusive s") (auto split: if_splits)
qed simp

lemma split_inclusive_eq_Nil [simp]: "split_inclusive s = [] \<longleftrightarrow> s = []"
  by (cases s) (auto split: list.splits)

text \<open>\<open>str::lines\<close>: the pieces without their \<open>\n\<close> or \<open>\r\n\<close> terminator.\<close>

definition strip_line_end :: "rstr \<Rightarrow> rstr" where
  "strip_line_end l =
     (case strip_suffix [NL] l of
        None \<Rightarrow> l
      | Some l' \<Rightarrow> (case strip_suffix [CR] l' of None \<Rightarrow> l' | Some l'' \<Rightarrow> l''))"

definition str_lines :: "rstr \<Rightarrow> rstr list" where
  "str_lines s = map strip_line_end (split_inclusive s)"

text \<open>\<open>[..].join(sep)\<close>.\<close>

fun join :: "rstr \<Rightarrow> rstr list \<Rightarrow> rstr" where
  "join sep [] = []"
| "join sep [x] = x"
| "join sep (x # y # ys) = x @ sep @ join sep (y # ys)"

lemma join_Cons: "join sep (x # xs) = (if xs = [] then x else x @ sep @ join sep xs)"
  by (cases xs) auto

lemma length_str_lines [simp]: "length (str_lines s) = length (split_inclusive s)"
  by (simp add: str_lines_def)

section \<open>Decimal numbers\<close>

text \<open>\<open>usize\<close> is 64 bits wide, as \<open>u64\<close>.\<close>

definition u64_max :: nat where "u64_max = 18446744073709551615"

abbreviation (input) usize_max :: nat where "usize_max \<equiv> u64_max"

function show_nat :: "nat \<Rightarrow> rstr" where
  "show_nat n = (if n < 10 then [48 + n] else show_nat (n div 10) @ [48 + n mod 10])"
  by pat_completeness auto
termination by (relation "measure id") auto

declare show_nat.simps [simp del]

text \<open>
  \<open>parse::<usize>()\<close>: an optional \<open>+\<close>, then at least one decimal digit, and a value that
  fits 64 bits.
\<close>

fun digits_value :: "nat \<Rightarrow> rstr \<Rightarrow> nat option" where
  "digits_value acc [] = Some acc"
| "digits_value acc (c # s) =
     (if is_ascii_digit c \<and> 10 * acc + (c - 48) \<le> u64_max
      then digits_value (10 * acc + (c - 48)) s else None)"

definition parse_usize :: "rstr \<Rightarrow> nat option" where
  "parse_usize s =
     (let t = (case s of [] \<Rightarrow> [] | c # r \<Rightarrow> if c = 43 then r else s)
      in if t = [] then None else digits_value 0 t)"

lemma digits_value_append:
  "digits_value acc (s @ t) = (case digits_value acc s of None \<Rightarrow> None | Some v \<Rightarrow> digits_value v t)"
  by (induction s arbitrary: acc) auto

lemma digits_value_show_nat: "n \<le> u64_max \<Longrightarrow> digits_value 0 (show_nat n) = Some n"
proof (induction n rule: show_nat.induct)
  case (1 n)
  show ?case
  proof (cases "n < 10")
    case True
    with 1 show ?thesis by (simp add: show_nat.simps [of n] is_ascii_digit_def u64_max_def)
  next
    case False
    with 1 have "digits_value 0 (show_nat (n div 10)) = Some (n div 10)" by simp
    moreover have "n mod 10 \<le> 9" by simp
    ultimately show ?thesis using False 1
      by (simp add: show_nat.simps [of n] digits_value_append is_ascii_digit_def)
  qed
qed

lemma show_nat_digits: "c \<in> set (show_nat n) \<Longrightarrow> is_ascii_digit c"
proof (induction n rule: show_nat.induct)
  case (1 n)
  then show ?case
    by (cases "n < 10") (auto simp: show_nat.simps [of n] is_ascii_digit_def)
qed

lemma show_nat_not_Nil [simp]: "show_nat n \<noteq> []"
  by (subst show_nat.simps) simp

lemma parse_show_nat [simp]: "n \<le> u64_max \<Longrightarrow> parse_usize (show_nat n) = Some n"
proof -
  assume n: "n \<le> u64_max"
  obtain c r where s: "show_nat n = c # r" by (cases "show_nat n") auto
  then have "c \<noteq> 43" using show_nat_digits [of c n] by (auto simp: is_ascii_digit_def)
  with s digits_value_show_nat [OF n] show ?thesis by (simp add: parse_usize_def)
qed

lemma digits_value_bound: "digits_value acc s = Some n \<Longrightarrow> acc \<le> u64_max \<Longrightarrow> n \<le> u64_max"
  by (induction s arbitrary: acc) (auto split: if_splits)

lemma parse_usize_bound: "parse_usize s = Some n \<Longrightarrow> n \<le> u64_max"
  by (auto simp: parse_usize_def Let_def intro: digits_value_bound split: if_splits list.splits)

section \<open>Saturating and checked arithmetic at 64 bits\<close>

definition sat_add :: "nat \<Rightarrow> nat \<Rightarrow> nat" where
  "sat_add a b = min (a + b) u64_max"

definition sat_mul :: "nat \<Rightarrow> nat \<Rightarrow> nat" where
  "sat_mul a b = min (a * b) u64_max"

text \<open>\<open>saturating_sub\<close> on unsigned values is the truncated subtraction of \<open>nat\<close>.\<close>

abbreviation (input) sat_sub :: "nat \<Rightarrow> nat \<Rightarrow> nat" where "sat_sub a b \<equiv> a - b"

definition checked_add :: "nat \<Rightarrow> nat \<Rightarrow> nat option" where
  "checked_add a b = (if a + b \<le> u64_max then Some (a + b) else None)"

definition checked_sub :: "nat \<Rightarrow> nat \<Rightarrow> nat option" where
  "checked_sub a b = (if b \<le> a then Some (a - b) else None)"

lemma sat_add_le [sat_simps]: "sat_add a b \<le> u64_max"
  and sat_mul_le [sat_simps]: "sat_mul a b \<le> u64_max"
  by (simp_all add: sat_add_def sat_mul_def)

lemma sat_add_exact [sat_simps]: "a + b \<le> u64_max \<Longrightarrow> sat_add a b = a + b"
  by (simp add: sat_add_def)

lemma sat_add_0 [simp]: "a \<le> u64_max \<Longrightarrow> sat_add a 0 = a"
  by (simp add: sat_add_def)

lemma sat_add_mono: "a \<le> c \<Longrightarrow> b \<le> d \<Longrightarrow> sat_add a b \<le> sat_add c d"
  by (simp add: sat_add_def)

section \<open>Results\<close>

abbreviation Err :: "'e \<Rightarrow> 'e + 'a" where "Err \<equiv> Inl"
abbreviation Ok :: "'a \<Rightarrow> 'e + 'a" where "Ok \<equiv> Inr"

end
