(* ===== verification/Tokens.thy ===== *)
theory Tokens
  imports Prelude
begin

text \<open>
  Token measurement (\<open>tokenzero-core/src/tokens.rs\<close>): the tokenizer-id honesty preflight, the
  lexical counter with its ASCII fast path, the per-family estimates, packing a prefix to a
  token boundary, and the visible-budget enforcement with its JSON elision. The model selected
  by the environment is the argument \<open>active\<close> of the definitions that read it, and
  \<open>serde_json\<close> is the record \<open>serde\<close> of the functions the code calls on it.
\<close>

section \<open>Tokenizer identities\<close>

definition HEX_CHARS :: rstr where
  "HEX_CHARS = lit ''0123456789abcdef''"

definition push_hex_byte :: "rstr \<Rightarrow> byte \<Rightarrow> rstr" where
  "push_hex_byte out b = out @ [HEX_CHARS ! (b div 16)] @ [HEX_CHARS ! (b mod 16)]"

definition UNLABELED_ESTIMATE_TOKENIZER_PREFIX :: rstr where
  "UNLABELED_ESTIMATE_TOKENIZER_PREFIX = lit ''estimate:''"

definition LEXICAL_ESTIMATOR_ID :: rstr where
  "LEXICAL_ESTIMATOR_ID = lit ''estimator:tokenzero-lexical''"

definition BYTES_ESTIMATOR_ID :: rstr where
  "BYTES_ESTIMATOR_ID = lit ''estimator:tokenzero-bytes''"

definition is_forbidden_mcp_tokenizer_identity :: "rstr \<Rightarrow> bool" where
  "is_forbidden_mcp_tokenizer_identity tid \<longleftrightarrow>
     str_contains tid (lit ''EngineIdentity::TokenZero'') \<or>
     str_contains tid (lit ''RegistryEngine::TokenZero'')"

datatype TokenizerIdPreflightError =
  Empty | UnlabeledEstimateAlias | Q99IsNotExact | ExactLabelIsNotATokenizerId | McpRegistryIdentity

definition last_component :: "(uchar \<Rightarrow> bool) \<Rightarrow> rstr \<Rightarrow> rstr" where
  "last_component sep s = last (split_on sep s)"

definition tokenizer_id_last_component :: "rstr \<Rightarrow> rstr" where
  "tokenizer_id_last_component tid = last_component (\<lambda>c. c \<in> set (lit '':/@'')) tid"

definition preflight_tokenizer_id :: "rstr \<Rightarrow> TokenizerIdPreflightError + unit" where
  "preflight_tokenizer_id tid0 =
     (let tid = trim tid0 in
      if tid = [] then Err Empty
      else if is_forbidden_mcp_tokenizer_identity tid then Err McpRegistryIdentity
      else if starts_with tid UNLABELED_ESTIMATE_TOKENIZER_PREFIX then Err UnlabeledEstimateAlias
      else let leaf = tokenizer_id_last_component tid in
      if eq_ignore_ascii_case leaf (lit ''q99'') \<or> eq_ignore_ascii_case leaf (lit ''q99-input'')
      then Err Q99IsNotExact
      else if eq_ignore_ascii_case tid (lit ''exact'') then Err ExactLabelIsNotATokenizerId
      else Ok ())"

section \<open>Tokenizer families\<close>

datatype TokenizerFamily = Cl100k | O200k | SentencePiece

fun family_name :: "TokenizerFamily \<Rightarrow> rstr" where
  "family_name Cl100k = lit ''cl100k''"
| "family_name O200k = lit ''o200k''"
| "family_name SentencePiece = lit ''sentencepiece''"

record TokenizerMetadata =
  family :: TokenizerFamily
  chars_per_token_milli :: nat
  approximate :: bool

definition tokenizer :: "TokenizerFamily \<Rightarrow> nat \<Rightarrow> TokenizerMetadata" where
  "tokenizer f n = \<lparr>family = f, chars_per_token_milli = n, approximate = True\<rparr>"

definition CL100K :: TokenizerMetadata where "CL100K = tokenizer Cl100k 4000"
definition O200K :: TokenizerMetadata where "O200K = tokenizer O200k 4000"
definition SENTENCEPIECE :: TokenizerMetadata where "SENTENCEPIECE = tokenizer SentencePiece 3500"

definition starts_with_ignore_ascii_case :: "rstr \<Rightarrow> rstr \<Rightarrow> bool" where
  "starts_with_ignore_ascii_case value pfx =
     (case byte_slice value 0 (blen pfx) of
        None \<Rightarrow> False | Some head \<Rightarrow> eq_ignore_ascii_case head pfx)"

definition contains_ignore_ascii_case :: "rstr \<Rightarrow> rstr \<Rightarrow> bool" where
  "contains_ignore_ascii_case value needle =
     str_contains (map ascii_lower (as_bytes value)) (map ascii_lower (as_bytes needle))"

definition RULES :: "(TokenizerMetadata \<times> rstr list) list" where
  "RULES =
     [(O200K, map lit [''gpt-4o'', ''gpt-4.1'', ''gpt-5'', ''o1'', ''o3'', ''o4'']),
      (CL100K, map lit [''gpt-4'', ''gpt-3.5'']),
      (SENTENCEPIECE, map lit [''llama'', ''mistral'', ''mixtral'', ''gemma''])]"

definition tokenizer_metadata :: "rstr \<Rightarrow> TokenizerMetadata option" where
  "tokenizer_metadata model_id =
     (let model = last_component (\<lambda>c. c = 47) model_id in
      if contains_ignore_ascii_case model (lit ''codex'') then Some O200K
      else map_option fst
        (find (\<lambda>(m, prefixes). list_ex (starts_with_ignore_ascii_case model) prefixes) RULES))"

text \<open>The model the process selects from its environment, once.\<close>

definition active_model_id :: "(rstr \<Rightarrow> rstr option) \<Rightarrow> rstr option" where
  "active_model_id env =
     (case List.find (\<lambda>v. v \<noteq> None \<and> v \<noteq> Some [])
        (map (\<lambda>n. env (lit n)) [''TOKENZERO_MODEL'', ''OMP_MODEL'', ''OPENAI_MODEL'']) of
        None \<Rightarrow> None | Some v \<Rightarrow> v)"

definition active_tokenizer_metadata :: "rstr option \<Rightarrow> TokenizerMetadata option" where
  "active_tokenizer_metadata active = Option.bind active tokenizer_metadata"

section \<open>Counting\<close>

definition is_word :: "uchar \<Rightarrow> bool" where
  "is_word c \<longleftrightarrow> is_ascii_alphanumeric c \<or> c = 95"

text \<open>The 256-entry class table: 1 in-token, 2 whitespace, 0 separator.\<close>

definition ASCII_TOKEN_CLASS :: "byte \<Rightarrow> nat" where
  "ASCII_TOKEN_CLASS b =
     (if is_ascii_alphanumeric b \<or> b = 95 then 1
      else if b \<in> {32, 9, 10, 13, 11, 12} then 2 else 0)"

fun count_ascii_loop :: "bool \<Rightarrow> nat \<Rightarrow> bool \<Rightarrow> nat \<Rightarrow> byte list \<Rightarrow> nat \<times> nat" where
  "count_ascii_loop stop tokens in_token index [] = (tokens, index)"
| "count_ascii_loop stop tokens in_token index (b # bs) =
     (if stop \<and> \<not> b < 128 then (tokens, index)
      else let cls = ASCII_TOKEN_CLASS b in
        count_ascii_loop stop
          (tokens + (if cls = 0 \<or> cls = 1 \<and> \<not> in_token then 1 else 0)) (cls = 1) (Suc index) bs)"

definition count_ascii :: "byte list \<Rightarrow> bool \<Rightarrow> nat \<times> nat" where
  "count_ascii bytes stop = count_ascii_loop stop 0 False 0 bytes"

fun tail_loop :: "nat \<Rightarrow> bool \<Rightarrow> rstr \<Rightarrow> nat" where
  "tail_loop tokens in_token [] = tokens"
| "tail_loop tokens in_token (c # s) =
     tail_loop (tokens + (if \<not> is_whitespace c \<and> (\<not> is_word c \<or> \<not> in_token) then 1 else 0))
       (is_word c) s"

text \<open>\<open>None\<close> is the panic of slicing inside a character.\<close>

definition count_tokens_tail :: "rstr \<Rightarrow> nat \<Rightarrow> nat option" where
  "count_tokens_tail text start =
     (case split_bytes start text of
        None \<Rightarrow> None
      | Some (_, rest) \<Rightarrow>
          Some (tail_loop (fst (count_ascii (take start (as_bytes text)) False)) False rest))"

definition count_tokens_lexical_checked :: "rstr \<Rightarrow> nat option" where
  "count_tokens_lexical_checked text =
     (let (tokens, ascii_end) = count_ascii (as_bytes text) True in
      if ascii_end = blen text then Some tokens else count_tokens_tail text ascii_end)"

text \<open>The counter itself; \<open>count_tokens_lexical_checked_Some\<close> shows that the panic branch is never taken.\<close>

definition count_tokens_lexical :: "rstr \<Rightarrow> nat" where
  "count_tokens_lexical text = (case count_tokens_lexical_checked text of Some n \<Rightarrow> n | None \<Rightarrow> 0)"

definition div_ceil :: "nat \<Rightarrow> nat \<Rightarrow> nat" where
  "div_ceil a b = (if a mod b = 0 then a div b else a div b + 1)"

definition approximate_token_count :: "rstr \<Rightarrow> TokenizerMetadata \<Rightarrow> nat" where
  "approximate_token_count text m =
     div_ceil (sat_mul (length text) 1000) (chars_per_token_milli m)"

definition count_tokens_for_model :: "rstr \<Rightarrow> rstr option \<Rightarrow> nat" where
  "count_tokens_for_model text model_id =
     (case Option.bind model_id tokenizer_metadata of
        Some m \<Rightarrow> approximate_token_count text m
      | None \<Rightarrow> count_tokens_lexical text)"

definition count_tokens :: "rstr option \<Rightarrow> rstr \<Rightarrow> nat" where
  "count_tokens active text =
     (case active_tokenizer_metadata active of
        None \<Rightarrow> count_tokens_lexical text
      | Some m \<Rightarrow> approximate_token_count text m)"

definition count_tokens_tokenizer_id :: "rstr option \<Rightarrow> rstr" where
  "count_tokens_tokenizer_id active =
     (case active_tokenizer_metadata active of
        Some m \<Rightarrow> lit ''estimator:tokenzero-'' @ family_name (family m)
      | None \<Rightarrow> LEXICAL_ESTIMATOR_ID)"

section \<open>Packing to a token boundary\<close>

definition char_prefix :: "rstr \<Rightarrow> nat \<Rightarrow> rstr" where
  "char_prefix text n = (if n < length text then take n text else text)"

text \<open>
  The loop of \<open>lexical_boundary_prefix\<close>. \<open>boundary\<close> is an offset in characters: the code adds
  whole \<open>len_utf8\<close> widths, so its byte offset is the boundary after as many characters.
\<close>

fun lexical_loop :: "nat \<Rightarrow> nat \<Rightarrow> nat \<Rightarrow> nat \<Rightarrow> bool \<Rightarrow> nat \<Rightarrow> rstr \<Rightarrow> nat \<times> bool" where
  "lexical_loop max_tokens max_chars seen tokens in_word boundary [] = (boundary, True)"
| "lexical_loop max_tokens max_chars seen tokens in_word boundary (ch # rest) =
     (if seen = max_chars then (boundary, False)
      else if is_word ch then
        (if \<not> in_word then
           (if tokens = max_tokens then (boundary, False)
            else lexical_loop max_tokens max_chars (Suc seen) (tokens + 1) True boundary rest)
         else lexical_loop max_tokens max_chars (Suc seen) tokens True boundary rest)
      else if is_whitespace ch then
        lexical_loop max_tokens max_chars (Suc seen) tokens False (Suc seen) rest
      else if tokens = max_tokens then (boundary, False)
      else lexical_loop max_tokens max_chars (Suc seen) (tokens + 1) False (Suc seen) rest)"

definition lexical_boundary_prefix :: "rstr \<Rightarrow> nat \<Rightarrow> nat \<Rightarrow> rstr" where
  "lexical_boundary_prefix text max_tokens max_chars =
     (let (boundary, completed) = lexical_loop max_tokens max_chars 0 0 False 0 text
      in if completed then text else take boundary text)"

definition pack_to_token_boundary_for_model_with_char_limit ::
    "rstr \<Rightarrow> nat \<Rightarrow> nat \<Rightarrow> rstr option \<Rightarrow> rstr" where
  "pack_to_token_boundary_for_model_with_char_limit text max_tokens max_chars model_id =
     (if text = [] \<or> max_tokens = 0 \<or> max_chars = 0 then []
      else case Option.bind model_id tokenizer_metadata of
        None \<Rightarrow> lexical_boundary_prefix text max_tokens max_chars
      | Some m \<Rightarrow>
          let text_chars = length text;
              budget_chars = sat_mul max_tokens (chars_per_token_milli m) div 1000
          in if text_chars \<le> budget_chars \<and> text_chars \<le> max_chars then text
             else char_prefix text
               (min max_chars (sat_mul max_tokens (chars_per_token_milli m) div 1000)))"

definition pack_to_token_boundary_with_char_limit :: "rstr option \<Rightarrow> rstr \<Rightarrow> nat \<Rightarrow> nat \<Rightarrow> rstr" where
  "pack_to_token_boundary_with_char_limit active text max_tokens max_chars =
     pack_to_token_boundary_for_model_with_char_limit text max_tokens max_chars active"

definition pack_to_token_boundary :: "rstr option \<Rightarrow> rstr \<Rightarrow> nat \<Rightarrow> rstr" where
  "pack_to_token_boundary active text max_tokens =
     pack_to_token_boundary_with_char_limit active text max_tokens usize_max"

definition pack_to_token_boundary_for_model :: "rstr \<Rightarrow> nat \<Rightarrow> rstr option \<Rightarrow> rstr" where
  "pack_to_token_boundary_for_model text max_tokens model_id =
     pack_to_token_boundary_for_model_with_char_limit text max_tokens usize_max model_id"

section \<open>Enforcing the visible budget\<close>

text \<open>What the code uses of \<open>serde_json\<close>: parsing to a top-level view, and printing.\<close>

datatype 'j json_view = JObject "(rstr \<times> 'j) list" | JArray "'j list" | JOther 'j

record 'j serde =
  from_str :: "rstr \<Rightarrow> 'j json_view option"
  value_to_string :: "'j \<Rightarrow> rstr"
  string_to_string :: "rstr \<Rightarrow> rstr"

definition VISIBLE_BUDGET_LOSSY_DECLARATION :: rstr where
  "VISIBLE_BUDGET_LOSSY_DECLARATION = lit (''[mode=lossy lossy_policy_id=tokenzero.visible-compression.v1 '' @
     ''lossy_spans=[{description=omitted-bytes reason=visible-budget recovery_may_be_needed=true}]]'')"

definition visible_budget_marker :: "rstr option \<Rightarrow> rstr" where
  "visible_budget_marker recovery_ref =
     (case recovery_ref of
        None \<Rightarrow> VISIBLE_BUDGET_LOSSY_DECLARATION
      | Some r \<Rightarrow> VISIBLE_BUDGET_LOSSY_DECLARATION @ lit '' recovery_ref='' @ r @
          lit '';                  expand '' @ r @ lit '' for the full output'')"

definition INLINE_ELISION_SENTINEL_KEY :: rstr where
  "INLINE_ELISION_SENTINEL_KEY = lit ''__tokenzero_elision__''"

definition elision_sentinel :: "'j serde \<Rightarrow> rstr option \<Rightarrow> rstr" where
  "elision_sentinel J recovery_ref =
     lit ''{\"lossy\":true,\"reason\":\"visible-budget\",\"recovery_ref\":'' @
     (case recovery_ref of None \<Rightarrow> lit ''null'' | Some r \<Rightarrow> string_to_string J r) @ lit ''}''"

text \<open>Both loops append pieces while the closed candidate fits, and stop at the first that does not.\<close>

fun elide_loop :: "rstr option \<Rightarrow> nat \<Rightarrow> rstr \<Rightarrow> rstr \<Rightarrow> rstr list \<Rightarrow> rstr" where
  "elide_loop active max_tokens closer out [] = out @ closer"
| "elide_loop active max_tokens closer out (p # ps) =
     (if count_tokens active (out @ lit '','' @ p @ closer) > max_tokens then out @ closer
      else elide_loop active max_tokens closer (out @ lit '','' @ p) ps)"

definition elide_top_level_json ::
    "'j serde \<Rightarrow> rstr option \<Rightarrow> rstr \<Rightarrow> nat \<Rightarrow> rstr option \<Rightarrow> rstr option" where
  "elide_top_level_json J active text max_visible_tokens recovery_ref =
     (case from_str J text of
        None \<Rightarrow> None
      | Some v \<Rightarrow>
          let sentinel = elision_sentinel J recovery_ref;
              key = string_to_string J INLINE_ELISION_SENTINEL_KEY
          in case v of
            JObject entries \<Rightarrow>
              (if INLINE_ELISION_SENTINEL_KEY \<in> fst ` set entries then None
               else let out = lit ''{'' @ key @ lit '':'' @ sentinel in
                 if count_tokens active (out @ lit ''}'') > max_visible_tokens then None
                 else Some (elide_loop active max_visible_tokens (lit ''}'') out
                   (map (\<lambda>(k, w). string_to_string J k @ lit '':'' @ value_to_string J w)
                     (take (length entries - 1) entries))))
          | JArray items \<Rightarrow>
              (let out = lit ''[{'' @ key @ lit '':'' @ sentinel @ lit ''}'' in
               if count_tokens active (out @ lit '']'') > max_visible_tokens then None
               else Some (elide_loop active max_visible_tokens (lit '']'') out
                 (map (value_to_string J) (take (length items - 1) items))))
          | JOther _ \<Rightarrow> None)"

fun retain_loop :: "rstr option \<Rightarrow> nat \<Rightarrow> rstr \<Rightarrow> rstr list \<Rightarrow> rstr" where
  "retain_loop active max_tokens out [] = out"
| "retain_loop active max_tokens out (line # ls) =
     (let candidate = out @ [NL] @ line in
      if count_tokens active candidate > max_tokens then out
      else retain_loop active max_tokens candidate ls)"

definition retain_plain_lines_after_marker :: "rstr option \<Rightarrow> rstr \<Rightarrow> nat \<Rightarrow> rstr \<Rightarrow> rstr" where
  "retain_plain_lines_after_marker active text max_visible_tokens marker =
     retain_loop active max_visible_tokens marker (split_inclusive text)"

definition is_structured :: "'j serde \<Rightarrow> rstr \<Rightarrow> bool" where
  "is_structured J text =
     (case from_str J text of Some (JObject _) \<Rightarrow> True | Some (JArray _) \<Rightarrow> True | _ \<Rightarrow> False)"

definition enforce_token_budget_with_ref ::
    "'j serde \<Rightarrow> rstr option \<Rightarrow> rstr \<Rightarrow> nat \<Rightarrow> rstr option \<Rightarrow> rstr" where
  "enforce_token_budget_with_ref J active text max_visible_tokens recovery_ref =
     (if count_tokens active text \<le> max_visible_tokens then text
      else
        let marker = visible_budget_marker recovery_ref;
            marker_tokens = count_tokens active marker
        in case elide_top_level_json J active text max_visible_tokens recovery_ref of
          Some json \<Rightarrow> json
        | None \<Rightarrow>
            if is_structured J text then marker
            else if marker_tokens > max_visible_tokens then marker
            else retain_plain_lines_after_marker active text max_visible_tokens marker)"

definition enforce_token_budget :: "'j serde \<Rightarrow> rstr option \<Rightarrow> rstr \<Rightarrow> nat \<Rightarrow> rstr" where
  "enforce_token_budget J active text max_visible_tokens =
     enforce_token_budget_with_ref J active text max_visible_tokens None"

text \<open>The byte offset at which the first \<open>kept_lines\<close> lines end.\<close>

fun nth_newline :: "nat \<Rightarrow> nat \<Rightarrow> rstr \<Rightarrow> nat option" where
  "nth_newline off n [] = None"
| "nth_newline off n (c # s) =
     (if c = NL then (case n of 0 \<Rightarrow> Some off | Suc m \<Rightarrow> nth_newline (off + len_utf8 c) m s)
      else nth_newline (off + len_utf8 c) n s)"

definition prefix_end_for_kept_lines :: "rstr \<Rightarrow> nat \<Rightarrow> nat" where
  "prefix_end_for_kept_lines text kept_lines =
     (if kept_lines = 0 then 0
      else case nth_newline 0 (kept_lines - 1) text of None \<Rightarrow> blen text | Some i \<Rightarrow> i)"

section \<open>The lexical counter is one scan over characters\<close>

text \<open>
  The reference: a token is a maximal run of word characters, or one character that is neither
  a word character nor white space.
\<close>

fun lexical_tokens :: "bool \<Rightarrow> rstr \<Rightarrow> nat" where
  "lexical_tokens in_word [] = 0"
| "lexical_tokens in_word (c # s) =
     (if is_word c then (if in_word then 0 else 1) + lexical_tokens True s
      else if is_whitespace c then lexical_tokens False s
      else 1 + lexical_tokens False s)"

lemma word_not_whitespace: "is_word c \<Longrightarrow> \<not> is_whitespace c"
  by (auto simp: is_word_def is_whitespace_def is_ascii_alphanumeric_def is_ascii_digit_def)

lemma is_word_ascii: "is_word c \<Longrightarrow> c < 128"
  by (auto simp: is_word_def is_ascii_alphanumeric_def is_ascii_digit_def)

lemma tail_loop_eq: "tail_loop t w s = t + lexical_tokens w s"
  by (induction s arbitrary: t w) (auto dest: word_not_whitespace)

lemma ascii_class:
  assumes "c < 128"
  shows "ASCII_TOKEN_CLASS c = (if is_word c then 1 else if is_whitespace c then 2 else 0)"
  using assms by (auto simp: ASCII_TOKEN_CLASS_def is_word_def is_whitespace_def)

lemma utf8_char_ascii: "c < 128 \<Longrightarrow> utf8_char c = [c]"
  by (simp add: utf8_char_def)

lemma utf8_char_non_ascii: "\<not> c < 128 \<Longrightarrow> \<exists>b bs. utf8_char c = b # bs \<and> 128 \<le> b"
  by (simp add: utf8_char_def)

lemma count_ascii_loop_ascii:
  "list_all (\<lambda>c. c < 128) s \<Longrightarrow>
   count_ascii_loop stop t w i (as_bytes s @ bs) =
     count_ascii_loop stop (t + lexical_tokens w s)
       (if s = [] then w else is_word (last s)) (i + length s) bs"
  by (induction s arbitrary: t w i) (auto simp: as_bytes_Cons utf8_char_ascii ascii_class Let_def)

lemma lexical_tokens_append:
  "lexical_tokens w (s @ t) = lexical_tokens w s + lexical_tokens (if s = [] then w else is_word (last s)) t"
  by (induction s arbitrary: w) auto

lemma blen_ascii: "list_all (\<lambda>c. c < 128) s \<Longrightarrow> blen s = length s"
  by (induction s) auto

lemma lexical_tokens_non_word_start: "\<not> is_word c \<Longrightarrow> lexical_tokens w (c # s) = lexical_tokens w' (c # s)"
  by simp

lemma count_tokens_lexical_checked_Some:
  "count_tokens_lexical_checked text = Some (lexical_tokens False text)"
proof -
  define a where "a = takeWhile (\<lambda>c. c < 128) text"
  define r where "r = dropWhile (\<lambda>c. c < 128) text"
  have tx: "text = a @ r" by (simp add: a_def r_def)
  have asc: "list_all (\<lambda>c. c < 128) a" by (auto simp: a_def list_all_iff dest: set_takeWhileD)
  have scan: "count_ascii_loop stop 0 False 0 (as_bytes a @ bs) =
     count_ascii_loop stop (lexical_tokens False a) (if a = [] then False else is_word (last a)) (length a) bs"
    for stop bs using count_ascii_loop_ascii [OF asc, of stop 0 False 0 bs] by simp
  show ?thesis
  proof (cases r)
    case Nil
    then have "text = a" by (simp add: tx)
    with scan [of True "[]"] show ?thesis
      by (simp add: count_tokens_lexical_checked_def count_ascii_def blen_ascii [OF asc])
  next
    case (Cons c s)
    then have c: "\<not> c < 128" unfolding r_def by (metis dropWhile_eq_Cons_conv)
    then have nw: "\<not> is_word c" using is_word_ascii by blast
    obtain b bs where b: "utf8_char c = b # bs" "128 \<le> b" using utf8_char_non_ascii [OF c] by blast
    have bytes: "as_bytes text = as_bytes a @ b # bs @ as_bytes s"
      by (simp add: tx Cons as_bytes_append as_bytes_Cons b)
    have fast: "count_ascii (as_bytes text) True = (lexical_tokens False a, length a)"
      using scan [of True "b # bs @ as_bytes s"] b(2) by (simp add: count_ascii_def bytes)
    have len: "blen text \<noteq> length a" by (simp add: tx Cons blen_ascii [OF asc])
    have sp: "split_bytes (length a) text = Some (a, r)"
      using split_bytes_blen [of a r] by (simp add: tx blen_ascii [OF asc])
    have tk: "take (length a) (as_bytes text) = as_bytes a"
      by (simp add: bytes length_as_bytes blen_ascii [OF asc])
    have slow: "fst (count_ascii (as_bytes a) False) = lexical_tokens False a"
      using scan [of False "[]"] by (simp add: count_ascii_def)
    have "count_tokens_tail text (length a) = Some (lexical_tokens False a + lexical_tokens False r)"
      by (simp add: count_tokens_tail_def sp tk slow tail_loop_eq)
    also have "lexical_tokens False a + lexical_tokens False r = lexical_tokens False text"
      using nw by (simp add: tx Cons lexical_tokens_append)
    finally have "count_tokens_tail text (length a) = Some (lexical_tokens False text)" .
    with fast len show ?thesis by (simp add: count_tokens_lexical_checked_def)
  qed
qed

lemma count_tokens_lexical_eq: "count_tokens_lexical text = lexical_tokens False text"
  by (simp add: count_tokens_lexical_def count_tokens_lexical_checked_Some)

lemma lexical_tokens_le_length: "lexical_tokens w s \<le> length s"
  by (induction s arbitrary: w) (auto intro: le_SucI)

section \<open>Packing stays inside both limits\<close>

lemma div_ceil_le: "0 < b \<Longrightarrow> a \<le> n * b \<Longrightarrow> div_ceil a b \<le> n"
proof -
  assume b: "0 < b" and le: "a \<le> n * b"
  show ?thesis
  proof (cases "a mod b = 0")
    case True
    with b le show ?thesis by (auto simp: div_ceil_def less_mult_imp_div_less mult.commute
      intro: div_le_mono [of a "n * b" b, simplified])
  next
    case False
    have "a \<noteq> n * b" using False by auto
    with le have "a < n * b" by simp
    then have "a div b < n" by (simp add: less_mult_imp_div_less)
    then show ?thesis using False by (simp add: div_ceil_def)
  qed
qed

lemma approximate_token_count_le:
  assumes "0 < chars_per_token_milli m"
    and "length s \<le> sat_mul n (chars_per_token_milli m) div 1000"
  shows "approximate_token_count s m \<le> n"
proof -
  have "length s * 1000 \<le> sat_mul n (chars_per_token_milli m)"
    using assms(2) by (metis div_times_less_eq_dividend le_trans mult_le_mono1)
  then have "sat_mul (length s) 1000 \<le> n * chars_per_token_milli m"
    by (auto simp: sat_mul_def)
  with assms(1) show ?thesis by (simp add: approximate_token_count_def div_ceil_le)
qed

lemma tokenizer_metadata_milli:
  "tokenizer_metadata model = Some m \<Longrightarrow> chars_per_token_milli m \<in> {3500, 4000}"
  by (auto simp: tokenizer_metadata_def RULES_def O200K_def CL100K_def SENTENCEPIECE_def
      tokenizer_def Let_def split: if_splits)

lemma lexical_loop_bounds:
  assumes "lexical_loop mt mc seen t w bnd s = (b, fin)" and "t \<le> mt" and "seen \<le> mc"
  shows "(fin \<longrightarrow> t + lexical_tokens w s \<le> mt \<and> seen + length s \<le> mc) \<and>
    (\<not> fin \<longrightarrow> b = bnd \<or>
      (seen < b \<and> b \<le> mc \<and> b \<le> seen + length s \<and>
       t + lexical_tokens w (take (b - seen) s) \<le> mt))"
  using assms
proof (induction s arbitrary: seen t w bnd)
  case Nil
  then show ?case by simp
next
  case (Cons c s)
  let ?t = "t + (if is_word c then (if w then 0 else 1) else if is_whitespace c then 0 else 1)"
  let ?bnd = "if is_word c then bnd else Suc seen"
  show ?case
  proof (cases "lexical_loop mt mc seen t w bnd (c # s) = (bnd, False)")
    case True
    with Cons.prems show ?thesis by simp
  next
    case False
    then have step: "lexical_loop mt mc (Suc seen) ?t (is_word c) ?bnd s = (b, fin)"
      and seen: "Suc seen \<le> mc" and t: "?t \<le> mt"
      using Cons.prems by (auto split: if_splits)
    have tk: "take (b - seen) (c # s) = c # take (b - Suc seen) s" if "Suc seen \<le> b"
      using that by (metis Suc_diff_Suc Suc_le_lessD take_Suc_Cons)
    from Cons.IH [OF step t seen] tk t seen show ?thesis
      by (cases "b = Suc seen") (auto split: if_splits)
  qed
qed

lemma lexical_boundary_prefix_bounds:
  "lexical_tokens False (lexical_boundary_prefix s mt mc) \<le> mt \<and>
   length (lexical_boundary_prefix s mt mc) \<le> mc"
proof -
  obtain b fin where l: "lexical_loop mt mc 0 0 False 0 s = (b, fin)" by fastforce
  from lexical_loop_bounds [OF l] show ?thesis
    by (cases fin) (auto simp: lexical_boundary_prefix_def l)
qed

lemma lexical_loop_boundary:
  assumes "lexical_loop mt mc seen t w bnd s = (b, False)" and "b \<noteq> bnd"
  shows "seen < b \<and> b \<le> seen + length s \<and> \<not> is_word (s ! (b - Suc seen))"
  using assms
proof (induction s arbitrary: seen t w bnd)
  case Nil
  then show ?case by simp
next
  case (Cons c s)
  let ?t = "t + (if is_word c then (if w then 0 else 1) else if is_whitespace c then 0 else 1)"
  let ?bnd = "if is_word c then bnd else Suc seen"
  from Cons.prems have step: "lexical_loop mt mc (Suc seen) ?t (is_word c) ?bnd s = (b, False)"
    by (auto split: if_splits)
  show ?case
  proof (cases "b = ?bnd")
    case True
    with Cons.prems(2) show ?thesis by (auto split: if_splits)
  next
    case False
    from Cons.IH [OF step False] show ?thesis
      by (auto simp: nth_Cons' Suc_diff_Suc less_diff_conv)
  qed
qed

section \<open>The budget bounds what is shown\<close>

lemma elide_loop_le:
  "count_tokens a (out @ closer) \<le> n \<Longrightarrow> count_tokens a (elide_loop a n closer out ps) \<le> n"
  by (induction ps arbitrary: out) auto

lemma elide_top_level_json_le:
  "elide_top_level_json J a text n r = Some out \<Longrightarrow> count_tokens a out \<le> n"
  by (auto simp: elide_top_level_json_def Let_def intro!: elide_loop_le
      split: option.splits json_view.splits if_splits)

lemma retain_loop_le:
  "count_tokens a out \<le> n \<Longrightarrow> count_tokens a (retain_loop a n out ls) \<le> n"
  by (induction ls arbitrary: out) (auto simp: Let_def)

lemma retain_loop_shape:
  "\<exists>k. retain_loop a n out ls = out @ concat (map (\<lambda>l. NL # l) (take k ls))"
proof (induction ls arbitrary: out)
  case (Cons l ls)
  show ?case
  proof (cases "count_tokens a (out @ [NL] @ l) > n")
    case True
    then show ?thesis by (auto simp: Let_def intro: exI [of _ 0])
  next
    case False
    obtain k where "retain_loop a n (out @ [NL] @ l) ls =
      (out @ [NL] @ l) @ concat (map (\<lambda>l. NL # l) (take k ls))" using Cons.IH by blast
    with False show ?thesis by (auto simp: Let_def intro: exI [of _ "Suc k"])
  qed
qed simp

lemma enforce_cases:
  obtains "enforce_token_budget_with_ref J a tx n r = tx" "count_tokens a tx \<le> n"
  | out where "count_tokens a tx > n" "elide_top_level_json J a tx n r = Some out"
      "enforce_token_budget_with_ref J a tx n r = out"
  | "count_tokens a tx > n"
      "enforce_token_budget_with_ref J a tx n r = visible_budget_marker r"
      "is_structured J tx \<or> n < count_tokens a (visible_budget_marker r)"
  | "count_tokens a tx > n" "count_tokens a (visible_budget_marker r) \<le> n"
      "enforce_token_budget_with_ref J a tx n r =
         retain_plain_lines_after_marker a tx n (visible_budget_marker r)"
proof (cases "count_tokens a tx \<le> n")
  case True
  then show thesis using that(1) by (simp add: enforce_token_budget_with_ref_def)
next
  case False
  show thesis
  proof (cases "elide_top_level_json J a tx n r")
    case (Some out)
    with False show thesis using that(2) by (simp add: enforce_token_budget_with_ref_def)
  next
    case None
    show thesis
    proof (cases "is_structured J tx \<or> n < count_tokens a (visible_budget_marker r)")
      case True
      with False None show thesis using that(3) by (auto simp: enforce_token_budget_with_ref_def Let_def)
    next
      case sm: False
      with False None show thesis using that(4) by (simp add: enforce_token_budget_with_ref_def)
    qed
  qed
qed

lemma enforce_le_or_marker:
  "count_tokens a (enforce_token_budget_with_ref J a tx n r) \<le> n \<or>
   enforce_token_budget_with_ref J a tx n r = visible_budget_marker r"
  by (rule enforce_cases [of J a tx n r])
    (auto simp: elide_top_level_json_le retain_plain_lines_after_marker_def retain_loop_le)

section \<open>Properties\<close>

text \<open>C11: The ASCII fast path and its Unicode continuation count exactly the tokens of one scan over
  the characters, for every string, and the byte offset at which the fast path hands over is
  always a character boundary.\<close>

theorem count_tokens_lexical_reference:
  "count_tokens_lexical_checked t = Some (lexical_tokens False t) \<and>
   count_tokens_lexical t = lexical_tokens False t"
  by (simp add: count_tokens_lexical_checked_Some count_tokens_lexical_eq)

text \<open>C10: Whatever the budget, the enforced text fits it, or it is exactly the canonical lossy
  declaration; text that already fits is returned unchanged.\<close>

theorem enforce_token_budget_bound:
  "(count_tokens a (enforce_token_budget_with_ref J a t n r) \<le> n \<or>
    enforce_token_budget_with_ref J a t n r = visible_budget_marker r) \<and>
   (count_tokens a t \<le> n \<longrightarrow> enforce_token_budget_with_ref J a t n r = t)"
  by (simp add: enforce_le_or_marker) (simp add: enforce_token_budget_with_ref_def)

definition no_json :: "unit serde" where
  "no_json = \<lparr>from_str = (\<lambda>_. None), value_to_string = (\<lambda>_. []), string_to_string = (\<lambda>s. s)\<rparr>"

theorem enforce_token_budget_bound_witness:
  "count_tokens None (lit ''ab cd'') \<le> 2 \<and>
   enforce_token_budget_with_ref no_json None (lit ''ab cd'') 2 None = lit ''ab cd''"
proof -
  have le: "count_tokens None (lit ''ab cd'') \<le> 2" by code_simp
  show ?thesis using le enforce_token_budget_bound [of None no_json "lit ''ab cd''" 2 None] by simp
qed

lemma pack_prefix: "\<exists>k. pack_to_token_boundary_for_model_with_char_limit t n c m = take k t"
proof -
  have all: "\<exists>k. t = take k t" by (rule exI [of _ "length t"]) simp
  have nil: "\<exists>k. [] = take k t" by (rule exI [of _ 0]) simp
  show ?thesis using all nil
    by (auto simp: pack_to_token_boundary_for_model_with_char_limit_def Let_def char_prefix_def
        lexical_boundary_prefix_def split: option.split prod.split)
qed

lemma pack_limits:
  "count_tokens_for_model (pack_to_token_boundary_for_model_with_char_limit t n c m) m \<le> n \<and>
   length (pack_to_token_boundary_for_model_with_char_limit t n c m) \<le> c"
proof (cases "t = [] \<or> n = 0 \<or> c = 0")
  case True
  have "sat_mul 0 1000 = 0" by (simp add: sat_mul_def)
  then show ?thesis using True
    by (auto simp: pack_to_token_boundary_for_model_with_char_limit_def count_tokens_for_model_def
        approximate_token_count_def div_ceil_def count_tokens_lexical_eq split: option.split)
next
  case False
  show ?thesis
  proof (cases "Option.bind m tokenizer_metadata")
    case None
    with False lexical_boundary_prefix_bounds [of t n c] show ?thesis
      by (auto simp: pack_to_token_boundary_for_model_with_char_limit_def count_tokens_for_model_def
          count_tokens_lexical_eq)
  next
    case (Some meta)
    then obtain name where "tokenizer_metadata name = Some meta" by (cases m) auto
    then have milli: "0 < chars_per_token_milli meta" using tokenizer_metadata_milli by fastforce
    let ?b = "sat_mul n (chars_per_token_milli meta) div 1000"
    have "length (pack_to_token_boundary_for_model_with_char_limit t n c m) \<le> min c ?b"
      using False Some
      by (auto simp: pack_to_token_boundary_for_model_with_char_limit_def Let_def char_prefix_def)
    with Some approximate_token_count_le [OF milli] show ?thesis
      by (simp add: count_tokens_for_model_def)
  qed
qed

text \<open>Packing returns a prefix of the text that stays within both the token limit, counted with
  the selected model's own counter, and the character limit.\<close>

theorem pack_to_token_boundary_fits:
  "prefix (pack_to_token_boundary_for_model_with_char_limit t n c m) t \<and>
   count_tokens_for_model (pack_to_token_boundary_for_model_with_char_limit t n c m) m \<le> n \<and>
   length (pack_to_token_boundary_for_model_with_char_limit t n c m) \<le> c"
  using pack_prefix [of t n c m] pack_limits [of t n c m] by (metis take_is_prefix)

text \<open>The lexical fallback never cuts a word: unless it returns the whole text, it returns the
  empty string or a prefix whose last character is not a word character.\<close>

theorem lexical_boundary_prefix_keeps_words:
  assumes "lexical_boundary_prefix t n c \<noteq> t" and "lexical_boundary_prefix t n c \<noteq> []"
  shows "\<not> is_word (last (lexical_boundary_prefix t n c))"
proof -
  obtain b fin where l: "lexical_loop n c 0 0 False 0 t = (b, fin)" by fastforce
  with assms have fin: "\<not> fin" and b: "b \<noteq> 0" by (auto simp: lexical_boundary_prefix_def split: if_splits)
  with l have "lexical_loop n c 0 0 False 0 t = (b, False)" by simp
  from lexical_loop_boundary [OF this b]
  have "0 < b" "b \<le> length t" "\<not> is_word (t ! (b - 1))" by auto
  then have "last (take b t) = t ! (b - 1)" by (subst last_conv_nth) (auto simp: min_def)
  with \<open>\<not> is_word (t ! (b - 1))\<close> show ?thesis using l fin by (simp add: lexical_boundary_prefix_def)
qed

theorem lexical_boundary_prefix_keeps_words_witness:
  "lexical_boundary_prefix (lit ''ab cd'') 1 9 = lit ''ab '' \<and>
   \<not> is_word (last (lexical_boundary_prefix (lit ''ab cd'') 1 9))"
proof -
  have v: "lexical_boundary_prefix (lit ''ab cd'') 1 9 = lit ''ab ''" by code_simp
  have "lit ''ab '' \<noteq> lit ''ab cd''" and "lit ''ab '' \<noteq> []" by (simp, simp add: lit_def)
  with v lexical_boundary_prefix_keeps_words [of "lit ''ab cd''" 1 9] show ?thesis by simp
qed

lemma lexical_loop_word:
  "list_all is_word w \<Longrightarrow> seen + length w \<le> mc \<Longrightarrow>
   lexical_loop n mc seen t True b (w @ s) = lexical_loop n mc (seen + length w) t True b s"
  by (induction w arbitrary: seen) auto

lemma lexical_tokens_word: "list_all is_word w \<Longrightarrow> lexical_tokens True w = 0"
  by (induction w) auto

text \<open>A budget that ends exactly at the end of a word does not keep the word: when one word is
  followed by a punctuation character, a one-token budget returns the empty string, although the
  word alone is one token and ends at a token boundary.\<close>

theorem pack_drops_complete_word:
  assumes "w \<noteq> []" and "list_all is_word w" and "\<not> is_word p" and "\<not> is_whitespace p"
    and "length w < c"
  shows "pack_to_token_boundary_for_model_with_char_limit (w @ p # rest) 1 c None = [] \<and>
    count_tokens_for_model w None = 1"
proof -
  obtain x v where w: "w = x # v" using assms(1) by (cases w) auto
  have "lexical_loop 1 c 0 0 False 0 (w @ p # rest) = lexical_loop 1 c 1 1 True 0 (v @ p # rest)"
    using assms by (simp add: w)
  also have "\<dots> = lexical_loop 1 c (1 + length v) 1 True 0 (p # rest)"
    using assms by (intro lexical_loop_word) (auto simp: w)
  also have "\<dots> = (0, False)" using assms by (simp add: w)
  finally have "lexical_boundary_prefix (w @ p # rest) 1 c = []"
    by (simp add: lexical_boundary_prefix_def)
  then show ?thesis using assms
    by (simp add: pack_to_token_boundary_for_model_with_char_limit_def count_tokens_for_model_def
        count_tokens_lexical_eq w lexical_tokens_word)
qed

theorem pack_drops_complete_word_witness:
  "pack_to_token_boundary_for_model_with_char_limit (lit ''abc'' @ 40 # lit ''x'') 1 9 None = [] \<and>
   count_tokens_for_model (lit ''abc'') None = 1"
  by (rule pack_drops_complete_word) code_simp+

text \<open>The identity stamped on measured counts always passes the honesty preflight, for every
  model the environment may select.\<close>

theorem count_tokens_tokenizer_id_preflight:
  "preflight_tokenizer_id (count_tokens_tokenizer_id active) = Ok ()"
proof -
  have "preflight_tokenizer_id (lit ''estimator:tokenzero-'' @ family_name f) = Ok ()" for f
    by (cases f; simp only: family_name.simps; code_simp)
  moreover have "preflight_tokenizer_id LEXICAL_ESTIMATOR_ID = Ok ()" by code_simp
  ultimately show ?thesis by (simp add: count_tokens_tokenizer_id_def split: option.split)
qed

end
