(* ===== verification/Views.thy ===== *)
theory Views
  imports Tokens
begin

text \<open>
  The text views of \<open>tokenzero-core/src/lib.rs\<close>: the summaries a capsule is built from
  (\<open>summarize_lines\<close>, \<open>summarize_code\<close>, \<open>summarize_logs\<close>, \<open>summarize_json\<close>,
  \<open>summarize_tokens\<close>), the keyword windows, deduplication, the diff view, the symbol and line
  selections that recovery shares, content-type detection, and the masking of secrets. A slice
  the source takes is \<open>take\<close>/\<open>drop\<close> here, at indices whose bounds the guards establish;
  \<open>compact_json\<close> truncates at a byte offset and so returns an option. The lemmas show what each
  view keeps.
\<close>

section \<open>Needles\<close>

definition pipe_split :: "rstr \<Rightarrow> rstr list" where
  "pipe_split p = split_on (\<lambda>c. c = 124) p"

definition starts_with_any :: "rstr \<Rightarrow> rstr \<Rightarrow> bool" where
  "starts_with_any h p \<longleftrightarrow> list_ex (starts_with h) (pipe_split p)"

definition ends_with_any :: "rstr \<Rightarrow> rstr \<Rightarrow> bool" where
  "ends_with_any h p \<longleftrightarrow> list_ex (ends_with h) (pipe_split p)"

definition contains_any :: "rstr \<Rightarrow> rstr \<Rightarrow> bool" where
  "contains_any h p \<longleftrightarrow> list_ex (str_contains h) (pipe_split p)"

definition contains_any_ws :: "rstr \<Rightarrow> rstr \<Rightarrow> bool" where
  "contains_any_ws h n \<longleftrightarrow> list_ex (str_contains h) (split_whitespace n)"

definition is_one_of :: "rstr \<Rightarrow> rstr \<Rightarrow> bool" where
  "is_one_of v choices \<longleftrightarrow> list_ex (\<lambda>c. v = c) (split_whitespace choices)"

definition DIAG_KEYWORDS :: rstr where
  "DIAG_KEYWORDS = lit ''error|warning|failed|failure|panic|traceback|exception|assertion|expected|actual|not ok|prompt|enter ''"

definition looks_critical_line :: "rstr \<Rightarrow> bool" where
  "looks_critical_line line \<longleftrightarrow> contains_any (to_ascii_lowercase line) DIAG_KEYWORDS"

definition looks_diagnostic :: "rstr \<Rightarrow> bool" where
  "looks_diagnostic s \<longleftrightarrow> list_ex looks_critical_line (str_lines s)"

definition ERROR_NEEDLES :: rstr where
  "ERROR_NEEDLES = lit ''error exception traceback failed assertion panic expected actual''"

definition regex_like_error :: "rstr \<Rightarrow> bool" where
  "regex_like_error line \<longleftrightarrow> contains_any_ws (to_ascii_lowercase line) ERROR_NEEDLES"

fun repeated_line_loop :: "rstr \<Rightarrow> nat \<Rightarrow> rstr list \<Rightarrow> nat" where
  "repeated_line_loop prev repeats [] = repeats"
| "repeated_line_loop prev repeats (line # ls) =
     repeated_line_loop line (if line = prev \<and> trim line \<noteq> [] then repeats + 1 else repeats) ls"

definition repeated_line_count :: "rstr \<Rightarrow> nat" where
  "repeated_line_count s = repeated_line_loop [] 0 (str_lines s)"

definition looks_status_table :: "rstr \<Rightarrow> bool" where
  "looks_status_table s \<longleftrightarrow> list_ex (\<lambda>line. let u = map ascii_upper line in
     str_contains u (lit ''STATUS'') \<and>
     (str_contains u (lit ''NAME'') \<or> str_contains u (lit ''READY''))) (str_lines s)"

section \<open>Words of a shell command\<close>

fun shell_words_loop :: "rstr list \<Rightarrow> rstr \<Rightarrow> uchar option \<Rightarrow> rstr \<Rightarrow> rstr list" where
  "shell_words_loop ws cur quot [] = (if cur \<noteq> [] then ws @ [cur] else ws)"
| "shell_words_loop ws cur quot (ch # s) =
     (if quot = Some ch then shell_words_loop ws cur None s
      else if quot = None \<and> (ch = 39 \<or> ch = 34) then shell_words_loop ws cur (Some ch) s
      else if quot = None \<and> is_whitespace ch then
        (if cur \<noteq> [] then shell_words_loop (ws @ [cur]) [] quot s else shell_words_loop ws cur quot s)
      else shell_words_loop ws (cur @ [ch]) quot s)"

definition split_shell_words :: "rstr \<Rightarrow> rstr list" where
  "split_shell_words command = shell_words_loop [] [] None command"

section \<open>Summaries\<close>

definition omitted_lines_marker :: "nat \<Rightarrow> rstr" where
  "omitted_lines_marker n = lit ''... omitted '' @ show_nat n @ lit '' lines; exact ref available ...''"

definition summarize_lines :: "rstr \<Rightarrow> nat \<Rightarrow> nat \<Rightarrow> rstr \<Rightarrow> rstr" where
  "summarize_lines s head tail pre =
     (let lines = str_lines s in
      if length lines \<le> sat_add (sat_add head tail) 3 then pre @ trim_end s
      else pre @ join [NL] (take head lines) @ [NL, NL] @ lit ''... omitted '' @
        show_nat (sat_sub (length lines) (sat_add head tail)) @
        lit '' lines; exact ref available ...'' @ [NL, NL] @
        join [NL] (drop (length lines - tail) lines))"

definition CODE_SIG_PREFIXES :: rstr where
  "CODE_SIG_PREFIXES = lit ''pub |fn |struct |enum |impl |trait |class |def |function |export |import |use |#[''"

definition push_labeled_lines :: "rstr \<Rightarrow> rstr \<Rightarrow> rstr list \<Rightarrow> nat \<Rightarrow> rstr" where
  "push_labeled_lines out label lines limit =
     (if lines = [] then out else out @ label @ concat (map (\<lambda>l. l @ [NL]) (take limit lines)))"

definition summarize_code :: "rstr \<Rightarrow> nat \<Rightarrow> rstr \<Rightarrow> rstr" where
  "summarize_code s budget_tokens pre =
     (let lines = str_lines s; total = length lines in
      if total \<le> 30 then pre @ trim_end s
      else let sigs = filter (\<lambda>l. starts_with_any (trim l) CODE_SIG_PREFIXES) (take (min total 80) lines);
               head = min 8 total;
               tail = min 6 (total - head);
               out = pre @ join [NL] (take head lines);
               out = push_labeled_lines out ([NL, NL] @ lit ''# declarations/signatures:'' @ [NL]) sigs
                       (budget_tokens div 8);
               out = out @ omitted_lines_marker (total - (head + tail))
           in out @ join [NL] (drop (total - tail) lines))"

definition LOG_ERROR_NEEDLES :: rstr where
  "LOG_ERROR_NEEDLES = lit ''error fatal panic failed traceback''"

fun split_log_lines :: "rstr list \<Rightarrow> rstr list \<times> rstr list" where
  "split_log_lines [] = ([], [])"
| "split_log_lines (l # ls) =
     (let low = to_ascii_lowercase l; (errs, warns) = split_log_lines ls in
      if contains_any_ws low LOG_ERROR_NEEDLES then (l # errs, warns)
      else if str_contains low (lit ''warn'') then (errs, l # warns)
      else (errs, warns))"

definition summarize_logs :: "rstr \<Rightarrow> nat \<Rightarrow> rstr \<Rightarrow> rstr" where
  "summarize_logs s budget_tokens pre =
     (let lines = str_lines s;
          (errs, warns) = split_log_lines lines;
          limit = budget_tokens div 6;
          out = push_labeled_lines pre (lit ''# '' @ show_nat (length errs) @ lit '' error(s):'' @ [NL]) errs limit;
          out = push_labeled_lines out (lit ''# '' @ show_nat (length warns) @ lit '' warning(s):'' @ [NL]) warns (limit div 2)
      in if errs = [] \<and> warns = [] then
           let head = min 6 (length lines);
               tail = min 4 (length lines - head);
               out = out @ join [NL] (take head lines);
               out = (if length lines > head + tail
                      then out @ [NL] @ lit ''... omitted '' @ show_nat (length lines - (head + tail)) @
                        lit '' lines ...'' @ [NL]
                      else out)
           in (if tail > 0 then out @ join [NL] (drop (length lines - tail) lines) else out)
         else out @ lit ''# '' @ show_nat (length lines) @ lit '' total lines; exact ref available'')"

text \<open>The shape of a JSON member: \<open>serde_json::Value\<close> up to what the summary prints.\<close>

datatype value_shape = VNull | VBool | VNumber | VString rstr | VArray nat | VObject nat

fun json_kind :: "value_shape \<Rightarrow> rstr" where
  "json_kind VNull = lit ''null''"
| "json_kind VBool = lit ''bool''"
| "json_kind VNumber = lit ''number''"
| "json_kind (VString _) = lit ''string''"
| "json_kind (VArray _) = lit ''array''"
| "json_kind (VObject _) = lit ''object''"

definition summary_kind :: "value_shape \<Rightarrow> rstr" where
  "summary_kind v =
     (case v of
        VString s \<Rightarrow> if blen s > 100 then lit ''string(long)'' else json_kind v
      | VArray n \<Rightarrow> if n = 0 then lit ''array(0)'' else json_kind v
      | VObject n \<Rightarrow> if n = 0 then lit ''object(0)'' else json_kind v
      | _ \<Rightarrow> json_kind v)"

definition summarize_json :: "'j serde \<Rightarrow> ('j \<Rightarrow> value_shape) \<Rightarrow> rstr \<Rightarrow> nat \<Rightarrow> rstr \<Rightarrow> rstr" where
  "summarize_json J K s budget_tokens pre =
     (case from_str J (trim s) of
        Some (JObject entries) \<Rightarrow>
          pre @ lit ''json_object: '' @ show_nat (length entries) @ lit '' keys'' @ [NL] @
          concat (map (\<lambda>(k, v). lit ''  '' @ k @ lit '': '' @ summary_kind (K v) @ [NL]) (take 25 entries)) @
          lit ''# exact ref available for full content''
      | Some (JArray items) \<Rightarrow>
          pre @ lit ''json_array: '' @ show_nat (length items) @ lit '' items'' @ [NL] @
          (case items of [] \<Rightarrow> []
           | first # _ \<Rightarrow> lit ''  sample: '' @ take 200 (value_to_string J first) @ [NL]) @
          lit ''# exact ref available for full content''
      | _ \<Rightarrow> summarize_lines s 12 8 pre)"

text \<open>\<open>String::truncate\<close> panics (\<open>None\<close>) when the new length is inside a character.\<close>

definition compact_json :: "'j serde \<Rightarrow> 'j \<Rightarrow> rstr option" where
  "compact_json J v =
     (let s = value_to_string J v in
      if blen s > 240 then map_option (\<lambda>(a, _). a @ lit ''...'') (split_bytes 240 s)
      else Some s)"

definition is_abnormal_json :: "'j serde \<Rightarrow> 'j \<Rightarrow> bool" where
  "is_abnormal_json J v \<longleftrightarrow>
     contains_any_ws (to_ascii_lowercase (value_to_string J v))
       (lit ''error failed unhealthy pending crash warning'')"

section \<open>The token-budgeted summary\<close>

definition line_information_density :: "rstr \<Rightarrow> bool" where
  "line_information_density line \<longleftrightarrow>
     (let (digits, paths) = foldl (\<lambda>(d, p) c.
            (d + (if is_ascii_digit c then 1 else 0), p + (if c = 47 \<or> c = 92 then 1 else 0 :: nat)))
            (0 :: nat, 0) line
      in digits \<ge> 3 \<or> paths \<ge> 2 \<or> str_contains line (lit ''.rs:'') \<or> str_contains line (lit ''.py:''))"

definition line_score :: "nat \<Rightarrow> nat \<Rightarrow> rstr \<Rightarrow> nat" where
  "line_score n idx line =
     (if looks_critical_line line then 100
      else if trim line = [] then 0
      else let s = (if idx < 3 \<or> idx + 3 \<ge> n then 60 else 0);
               s = (if line_information_density line then s + 30 else s)
           in max s 1)"

definition push_summary_line :: "rstr \<Rightarrow> rstr \<Rightarrow> rstr" where
  "push_summary_line out line =
     (if out \<noteq> [] \<and> \<not> ends_with out [NL] then out @ [NL] @ line else out @ line)"

fun select_loop :: "nat list \<Rightarrow> nat list \<Rightarrow> nat \<Rightarrow> nat \<Rightarrow> bool list \<Rightarrow> nat list \<Rightarrow> bool list" where
  "select_loop scores costs max_tokens spent sel [] = sel"
| "select_loop scores costs max_tokens spent sel (i # is) =
     (if scores ! i \<ge> 100 \<or> (scores ! i \<noteq> 0 \<and> spent + costs ! i + 13 \<le> max_tokens)
      then select_loop scores costs max_tokens
             (if scores ! i \<ge> 100 then sat_add spent (costs ! i) else spent + costs ! i)
             (sel[i := True]) is
      else select_loop scores costs max_tokens spent sel is)"

fun bridge_loop :: "nat list \<Rightarrow> bool list \<Rightarrow> nat list \<Rightarrow> bool list" where
  "bridge_loop costs sel [] = sel"
| "bridge_loop costs sel (i # is) =
     bridge_loop costs
       (if \<not> sel ! i \<and> sel ! (i - 1) \<and> sel ! (i + 1) \<and> costs ! i \<le> 13 then sel[i := True] else sel) is"

definition gap_line :: "nat \<Rightarrow> rstr" where
  "gap_line omitted = lit ''... +'' @ show_nat omitted @ lit '' lines; exact ref available ...''"

fun emit_loop :: "rstr \<Rightarrow> nat \<Rightarrow> (rstr \<times> bool) list \<Rightarrow> rstr" where
  "emit_loop out omitted [] = (if omitted > 0 then push_summary_line out (gap_line omitted) else out)"
| "emit_loop out omitted ((line, keep) # ls) =
     (if \<not> keep then emit_loop out (omitted + 1) ls
      else let out = (if omitted > 0 then push_summary_line out (gap_line omitted) else out)
           in emit_loop (push_summary_line out line) 0 ls)"

text \<open>
  The order of the source sorts by descending score and then by ascending index; \<open>sort_key\<close> is
  stable on the ascending list of indices.
\<close>

definition summarize_tokens :: "rstr option \<Rightarrow> rstr \<Rightarrow> nat \<Rightarrow> rstr \<Rightarrow> rstr" where
  "summarize_tokens active s max_tokens pre =
     (if max_tokens = 0 then pre @ trim_end s
      else let lines = str_lines s in
        if count_tokens active s \<le> max_tokens \<or> length lines \<le> 4 then pre @ trim_end s
        else let n = length lines;
                 costs = map (count_tokens active) lines;
                 scores = map (\<lambda>i. line_score n i (lines ! i)) [0..<n];
                 order = sort_key (\<lambda>i. - int (scores ! i)) [0..<n];
                 sel = select_loop scores costs max_tokens 0 (replicate n False) order;
                 sel = bridge_loop costs sel [1..<n - 1]
             in if \<not> list_ex id sel then summarize_lines s 8 6 pre
                else emit_loop pre 0 (zip lines sel))"

section \<open>Deduplication and diffs\<close>

fun normalize_loop :: "rstr \<Rightarrow> bool \<Rightarrow> rstr \<Rightarrow> rstr" where
  "normalize_loop out in_d [] = out"
| "normalize_loop out in_d (c # s) =
     (if is_ascii_digit c then
        (if \<not> in_d then normalize_loop (out @ [35]) True s else normalize_loop out in_d s)
      else normalize_loop (out @ [c]) False s)"

definition normalize_digit_runs :: "rstr \<Rightarrow> rstr" where
  "normalize_digit_runs line = normalize_loop [] False line"

definition compact_head_tail :: "rstr list \<Rightarrow> nat \<Rightarrow> rstr" where
  "compact_head_tail out context_n =
     (if length out \<le> sat_add (sat_mul context_n 2) 20 then join [NL] out
      else join [NL] (take context_n out) @ [NL] @ lit ''... omitted '' @
        show_nat (length out - sat_mul context_n 2) @ lit '' lines; exact ref available ...'' @ [NL] @
        join [NL] (drop (length out - context_n) out))"

definition repeated_marker :: "nat \<Rightarrow> rstr" where
  "repeated_marker n = lit ''... repeated '' @ show_nat n @ lit '' more times ...''"

definition similar_marker :: "nat \<Rightarrow> rstr" where
  "similar_marker n =
     lit ''... '' @ show_nat n @ lit '' similar lines collapsed (digits vary); exact ref available ...''"

text \<open>
  The loop of \<open>dedupe_lines_impl\<close> over the remaining lines, \<open>ls\<close> being \<open>lines[idx..]\<close>.
\<close>

function dedupe_loop :: "bool \<Rightarrow> rstr list \<Rightarrow> rstr list" where
  "dedupe_loop structural [] = []"
| "dedupe_loop structural (line # ls) =
     (if structural \<and> looks_critical_line line then line # dedupe_loop structural ls
      else let exact = length (takeWhile (\<lambda>c. c = line) (line # ls)) in
        if exact \<ge> 3 then
          line # repeated_marker (exact - 1) # dedupe_loop structural (drop exact (line # ls))
        else let similar = length (takeWhile (\<lambda>l. \<not> looks_critical_line l \<and>
               normalize_digit_runs l = normalize_digit_runs line) (line # ls)) in
          if structural \<and> similar \<ge> 4 then
            line # similar_marker (similar - 1) # dedupe_loop structural (drop similar (line # ls))
          else take exact (line # ls) @ dedupe_loop structural (drop exact (line # ls)))"
  by pat_completeness auto
termination by (relation "measure (\<lambda>(s, ls). length ls)") (auto simp: Let_def)

definition dedupe_lines_impl :: "rstr \<Rightarrow> nat \<Rightarrow> bool \<Rightarrow> rstr" where
  "dedupe_lines_impl s context_n structural =
     (let lines = str_lines s in
      if lines = [] then [] else compact_head_tail (dedupe_loop structural lines) context_n)"

definition dedupe_lines :: "rstr \<Rightarrow> nat \<Rightarrow> rstr" where
  "dedupe_lines s context_n = dedupe_lines_impl s context_n False"

definition DIFF_LINE_PREFIXES :: rstr where
  "DIFF_LINE_PREFIXES = lit ''diff --git|index |--- |+++ |@@|rename |deleted file|new file|+|-''"

definition diff_summary :: "rstr \<Rightarrow> nat \<Rightarrow> rstr" where
  "diff_summary s max_lines =
     (let out = take (max max_lines 1) (filter (\<lambda>l. starts_with_any l DIFF_LINE_PREFIXES) (str_lines s))
      in if out = [] then summarize_lines s 18 12 [] else join [NL] out)"

section \<open>Secrets\<close>

definition SECRET_MARKERS :: rstr where
  "SECRET_MARKERS = lit ''aws_secret_access_key=|aws_access_key_id=|token=|password=|secret=|api_key=|apikey=|x-api-key:|api-key:|authorization:|bearer ''"

definition SECRET_TOKEN_PREFIXES :: rstr where
  "SECRET_TOKEN_PREFIXES = lit ''sk-|sk-proj-|ghp_|github_pat_|AKIA|glpat-|xoxb-|xoxp-''"

definition has_visible_secret_marker :: "rstr \<Rightarrow> bool" where
  "has_visible_secret_marker s \<longleftrightarrow>
     contains_any (to_ascii_lowercase s) SECRET_MARKERS \<or>
     list_ex (\<lambda>w. starts_with_any w SECRET_TOKEN_PREFIXES) (split_whitespace s)"

definition mask_keys :: "rstr list" where
  "mask_keys = map lit [''aws_secret_access_key='', ''aws_access_key_id='', ''token='', ''password='',
     ''secret='', ''api_key='', ''apikey='', ''x-api-key:'', ''api-key:'', ''authorization:'', ''bearer '']"

text \<open>
  \<open>str::find\<close> and the slice \<open>&line[..pos + key.len()]\<close> are in bytes in the source; ASCII
  lowering keeps every character's width, so the character offset names the same place.
\<close>

fun find_key :: "rstr \<Rightarrow> rstr list \<Rightarrow> (rstr \<times> nat) option" where
  "find_key low [] = None"
| "find_key low (key # ks) =
     (case str_find low key of Some pos \<Rightarrow> Some (key, pos) | None \<Rightarrow> find_key low ks)"

definition mask_word :: "rstr \<Rightarrow> rstr" where
  "mask_word w = (if starts_with_any w SECRET_TOKEN_PREFIXES then lit ''[masked]'' else w)"

definition mask_secret_line :: "rstr \<Rightarrow> rstr" where
  "mask_secret_line line =
     (case find_key (to_ascii_lowercase line) mask_keys of
        Some (key, pos) \<Rightarrow> take (pos + length key) line @ lit ''[masked]''
      | None \<Rightarrow> join (lit '' '') (map mask_word (split_whitespace line)))"

definition mask_visible_secrets :: "rstr \<Rightarrow> rstr" where
  "mask_visible_secrets s = join [NL] (map mask_secret_line (str_lines s))"

definition has_protected_failure_context :: "rstr \<Rightarrow> bool" where
  "has_protected_failure_context s \<longleftrightarrow>
     (let low = to_ascii_lowercase s in
      contains_any low (lit ''assertion failed|traceback'') \<or>
      (str_contains low (lit ''left:'') \<and> str_contains low (lit ''right:'')) \<or>
      (str_contains low (lit ''test '') \<and> str_contains low (lit ''failed'') \<and> str_contains low (lit ''.rs:'')))"

section \<open>Windows and selections\<close>

definition mark_hit :: "nat \<Rightarrow> nat \<Rightarrow> nat \<Rightarrow> bool list \<Rightarrow> bool list" where
  "mark_hit radius n idx keep =
     (let start = idx - radius; stop = min (sat_add (sat_add idx radius) 1) n
      in take start keep @ replicate (stop - start) True @ drop stop keep)"

fun hit_loop :: "(rstr \<Rightarrow> bool) \<Rightarrow> nat \<Rightarrow> nat \<Rightarrow> nat \<Rightarrow> rstr list \<Rightarrow> bool list \<Rightarrow> bool list" where
  "hit_loop is_hit radius n idx [] keep = keep"
| "hit_loop is_hit radius n idx (line # ls) keep =
     hit_loop is_hit radius n (idx + 1) ls (if is_hit line then mark_hit radius n idx keep else keep)"

function window_loop :: "(rstr \<times> bool) list \<Rightarrow> rstr list" where
  "window_loop [] = []"
| "window_loop ((line, keep) # ls) =
     (if keep then line # window_loop ls
      else let gap = length (takeWhile (\<lambda>(_, k). \<not> k) ((line, keep) # ls))
           in omitted_lines_marker gap # window_loop (drop gap ((line, keep) # ls)))"
  by pat_completeness auto
termination by (relation "measure length") (auto simp: Let_def)

definition keyword_window_view :: "rstr \<Rightarrow> nat \<Rightarrow> (rstr \<Rightarrow> bool) \<Rightarrow> rstr" where
  "keyword_window_view s radius is_hit =
     (let lines = str_lines s;
          keep = hit_loop is_hit radius (length lines) 0 lines (replicate (length lines) False)
      in if \<not> list_ex id keep then [] else join [NL] (window_loop (zip lines keep)))"

definition critical_lines :: "rstr \<Rightarrow> nat \<Rightarrow> rstr" where
  "critical_lines s radius = keyword_window_view s radius looks_critical_line"

definition error_block :: "rstr \<Rightarrow> nat \<Rightarrow> rstr" where
  "error_block s radius = keyword_window_view s radius regex_like_error"

definition line_range :: "rstr \<Rightarrow> nat \<Rightarrow> nat \<Rightarrow> rstr" where
  "line_range s start stop =
     (let start = max start 1; stop = max stop start
      in join [NL] (take (stop - start + 1) (drop (start - 1) (str_lines s))))"

definition contains_word :: "rstr \<Rightarrow> rstr \<Rightarrow> bool" where
  "contains_word line symbol \<longleftrightarrow>
     symbol \<in> set (split_on (\<lambda>c. \<not> is_ascii_alphanumeric c \<and> c \<noteq> 95) line)"

definition leading_ws :: "rstr \<Rightarrow> nat" where
  "leading_ws line = length (takeWhile (\<lambda>c. c = 32 \<or> c = 9) line)"

definition starts_with_blank :: "rstr \<Rightarrow> bool" where
  "starts_with_blank line = (case line of [] \<Rightarrow> False | c # _ \<Rightarrow> c = 32 \<or> c = 9)"

fun block_start :: "rstr list \<Rightarrow> nat \<Rightarrow> nat" where
  "block_start lines 0 = 0"
| "block_start lines (Suc k) = (if starts_with_blank (lines ! k) then block_start lines k else Suc k)"

fun block_end :: "nat \<Rightarrow> nat \<Rightarrow> nat \<Rightarrow> rstr list \<Rightarrow> nat" where
  "block_end hit indent stop [] = stop"
| "block_end hit indent stop (line # ls) =
     (if trim line \<noteq> [] \<and> leading_ws line \<le> indent \<and> stop > hit + 1 then stop
      else block_end hit indent (stop + 1) ls)"

fun position :: "('a \<Rightarrow> bool) \<Rightarrow> 'a list \<Rightarrow> nat option" where
  "position p [] = None"
| "position p (x # xs) = (if p x then Some 0 else map_option Suc (position p xs))"

definition symbol_block :: "rstr \<Rightarrow> rstr \<Rightarrow> rstr" where
  "symbol_block s symbol =
     (let lines = str_lines s in
      case position (\<lambda>l. contains_word l symbol) lines of
        None \<Rightarrow> []
      | Some hit \<Rightarrow>
          let start = block_start lines hit;
              indent = leading_ws (lines ! hit);
              stop = block_end hit indent (hit + 1) (drop (hit + 1) lines)
          in join [NL] (take (stop - start) (drop start lines)))"

section \<open>Content types\<close>

datatype ContentType = Code | ShellOutput | SearchResult | Tree | Diff | JsonConfig | Markdown | Logs | Unknown

fun content_type_str :: "ContentType \<Rightarrow> rstr" where
  "content_type_str Code = lit ''code''"
| "content_type_str ShellOutput = lit ''shell_output''"
| "content_type_str SearchResult = lit ''search_result''"
| "content_type_str Tree = lit ''tree''"
| "content_type_str Diff = lit ''diff''"
| "content_type_str JsonConfig = lit ''json_config''"
| "content_type_str Markdown = lit ''markdown''"
| "content_type_str Logs = lit ''logs''"
| "content_type_str Unknown = lit ''unknown''"

definition looks_like_logs :: "rstr \<Rightarrow> bool" where
  "looks_like_logs s \<longleftrightarrow>
     (let ls = take 20 (str_lines s) in
      length ls \<ge> 5 \<and>
      length (filter (\<lambda>l. contains_any_ws (map ascii_upper l) (lit ''DEBUG INFO WARN ERROR FATAL TRACE'')) ls)
        > length ls div 3)"

definition CODE_EXTENSIONS :: "rstr list" where
  "CODE_EXTENSIONS = map lit [''rs'', ''py'', ''js'', ''jsx'', ''ts'', ''tsx'', ''go'', ''java'', ''c'',
     ''cc'', ''cpp'', ''h'', ''hpp'']"

text \<open>The argument \<open>ext\<close> is \<open>path.extension()\<close> as UTF-8, when there is one.\<close>

definition detect_content_type :: "rstr \<Rightarrow> rstr option \<Rightarrow> ContentType" where
  "detect_content_type s ext =
     (let by_text =
        (let trimmed = trim_start s in
         if starts_with trimmed (lit ''{'') \<or> starts_with trimmed (lit ''['') then JsonConfig
         else if starts_with trimmed (lit ''diff --git'') \<or> starts_with trimmed (lit ''@@'') then Diff
         else if str_contains s (lit ''Traceback'') \<or> str_contains s (lit ''FAILED'') \<or> str_contains s (lit ''error:'')
         then ShellOutput
         else if looks_like_logs s then Logs
         else Unknown)
      in case ext of
        None \<Rightarrow> by_text
      | Some e \<Rightarrow>
          if e \<in> set CODE_EXTENSIONS then Code
          else if e = lit ''json'' then JsonConfig
          else if e = lit ''md'' \<or> e = lit ''markdown'' then Markdown
          else if e = lit ''diff'' \<or> e = lit ''patch'' then Diff
          else if e = lit ''log'' then Logs
          else by_text)"

section \<open>What the views keep\<close>

lemma join_contains: "l \<in> set ls \<Longrightarrow> str_contains (join sep ls) l"
proof (induction ls)
  case (Cons x xs)
  show ?case
  proof (cases "l = x")
    case True
    then show ?thesis by (cases xs) auto
  next
    case False
    with Cons have "str_contains (join sep xs) l" "xs \<noteq> []" by auto
    then show ?thesis by (simp add: join_Cons str_contains_right)
  qed
qed simp

lemma split_inclusive_contains: "l \<in> set (split_inclusive s) \<Longrightarrow> str_contains s l"
  using join_contains [of l "split_inclusive s" "[]"]
proof -
  assume l: "l \<in> set (split_inclusive s)"
  have "join [] ls = concat ls" for ls :: "rstr list" by (induction ls) (auto simp: join_Cons)
  with join_contains [OF l, of "[]"] show ?thesis by simp
qed

lemma strip_suffix_iff: "strip_suffix p s = Some t \<longleftrightarrow> s = t @ p"
  by (auto simp: strip_suffix_def ends_with_iff)

lemma strip_line_end_contains: "str_contains l (strip_line_end l)"
proof (cases "strip_suffix [NL] l")
  case (Some l')
  then have l: "l = l' @ [NL]" by (simp add: strip_suffix_iff)
  show ?thesis
  proof (cases "strip_suffix [CR] l'")
    case None
    with Some l show ?thesis by (simp add: strip_line_end_def)
  next
    case (Some l'')
    then have "strip_line_end l = l''" using \<open>strip_suffix [NL] l = Some l'\<close> by (simp add: strip_line_end_def)
    moreover have "l = l'' @ [CR, NL]" using l Some by (simp add: strip_suffix_iff)
    ultimately show ?thesis by simp
  qed
qed (simp add: strip_line_end_def)

lemma str_lines_contains: "l \<in> set (str_lines s) \<Longrightarrow> str_contains s l"
  by (auto simp: str_lines_def intro: str_contains_trans [OF split_inclusive_contains strip_line_end_contains])

lemma trim_end_snoc: "\<not> is_whitespace c \<Longrightarrow> trim_end (s @ [c]) = s @ [c]"
  by (simp add: trim_end_def)

lemma trim_end_append_ws: "trim_end t \<noteq> [] \<Longrightarrow> trim_end (s @ t) = s @ trim_end t"
  by (auto simp: trim_end_def dropWhile_append)

lemma trim_end_last: "trim_end s \<noteq> [] \<Longrightarrow> \<not> is_whitespace (last (trim_end s))"
  by (simp add: trim_end_def last_rev hd_dropWhile)

lemma trim_end_keeps: "u \<noteq> [] \<Longrightarrow> \<not> is_whitespace (last u) \<Longrightarrow> \<exists>v. trim_end (u @ w) = u @ v"
proof -
  assume u: "u \<noteq> []" "\<not> is_whitespace (last u)"
  then have tu: "trim_end u = u" by (metis append_butlast_last_id trim_end_snoc)
  show ?thesis
  proof (cases "trim_end w = []")
    case True
    then have "list_all is_whitespace w" using trim_end_prefix [of w] by simp
    then have "dropWhile is_whitespace (rev w @ rev u) = dropWhile is_whitespace (rev u)"
      by (simp add: dropWhile_append list_all_iff)
    then have "trim_end (u @ w) = u" using tu by (simp add: trim_end_def)
    then show ?thesis by simp
  qed (auto simp: trim_end_append_ws)
qed

lemma trim_end_contains: "str_contains s l \<Longrightarrow> str_contains (trim_end s) (trim_end l)"
proof (cases "trim_end l = []")
  case False
  assume "str_contains s l"
  then obtain a b where s: "s = a @ l @ b" by (auto simp: str_contains_iff)
  obtain w where l: "l = trim_end l @ w" using trim_end_prefix by blast
  have "\<exists>v. trim_end ((a @ trim_end l) @ w @ b) = (a @ trim_end l) @ v"
    using False trim_end_last [OF False] by (intro trim_end_keeps) auto
  then obtain v where "trim_end ((a @ trim_end l) @ w @ b) = (a @ trim_end l) @ v" ..
  moreover have "s = (a @ trim_end l) @ w @ b" using s l by (metis append.assoc)
  ultimately show ?thesis by simp
qed simp

lemma trim_end_of_contained: "str_contains s l \<Longrightarrow> str_contains s (trim_end l)"
proof -
  obtain w where "l = trim_end l @ w" using trim_end_prefix by blast
  then have "str_contains l (trim_end l)" by (metis str_contains_append1)
  then show "str_contains s l \<Longrightarrow> str_contains s (trim_end l)" by (rule str_contains_trans [rotated])
qed

subsection \<open>Keyword windows\<close>

lemma mark_hit_bounds:
  "idx < n \<Longrightarrow> n \<le> u64_max \<Longrightarrow>
   idx - radius \<le> idx \<and> idx < min (sat_add (sat_add idx radius) 1) n"
  by (auto simp: sat_add_def)

lemma mark_hit_nth:
  assumes "length keep = n" and "idx < n" and "n \<le> u64_max"
  shows "length (mark_hit radius n idx keep) = n"
    and "i < n \<Longrightarrow> keep ! i \<Longrightarrow> mark_hit radius n idx keep ! i"
    and "mark_hit radius n idx keep ! idx"
proof -
  obtain a where a: "a = idx - radius" by simp
  obtain b where b: "b = min (sat_add (sat_add idx radius) 1) n" by simp
  have ab: "a \<le> idx" "idx < b" "b \<le> n" using mark_hit_bounds [OF assms(2,3), of radius] a b by auto
  have m: "mark_hit radius n idx keep = take a keep @ replicate (b - a) True @ drop b keep"
    by (simp add: mark_hit_def Let_def a b)
  show "length (mark_hit radius n idx keep) = n" using ab assms(1) by (simp add: m)
  show "i < n \<Longrightarrow> keep ! i \<Longrightarrow> mark_hit radius n idx keep ! i"
    using ab assms(1) by (auto simp: m nth_append not_less)
  show "mark_hit radius n idx keep ! idx" using ab assms(1) by (auto simp: m nth_append)
qed

lemma hit_loop_keeps:
  "length keep = n \<Longrightarrow> idx + length ls = n \<Longrightarrow> n \<le> u64_max \<Longrightarrow>
   length (hit_loop h radius n idx ls keep) = n \<and>
   (\<forall>i < n. keep ! i \<longrightarrow> hit_loop h radius n idx ls keep ! i) \<and>
   (\<forall>j < length ls. h (ls ! j) \<longrightarrow> hit_loop h radius n idx ls keep ! (idx + j))"
proof (induction ls arbitrary: idx keep)
  case (Cons l ls)
  let ?keep = "if h l then mark_hit radius n idx keep else keep"
  have len: "length ?keep = n" using Cons.prems by (simp add: mark_hit_nth)
  note IH = Cons.IH [OF len, of "idx + 1"]
  have mono: "\<forall>i < n. keep ! i \<longrightarrow> ?keep ! i" using Cons.prems by (auto simp: mark_hit_nth)
  have self: "h l \<Longrightarrow> ?keep ! idx" using Cons.prems by (auto simp: mark_hit_nth)
  have "h ((l # ls) ! j) \<Longrightarrow> j < length (l # ls) \<Longrightarrow>
      hit_loop h radius n idx (l # ls) keep ! (idx + j)" for j
    using IH self Cons.prems by (cases j) auto
  then show ?case using IH mono Cons.prems by auto
qed simp

lemma window_loop_keeps: "(l, True) \<in> set ps \<Longrightarrow> l \<in> set (window_loop ps)"
proof (induction ps rule: window_loop.induct)
  case (2 line keep ls)
  show ?case
  proof (cases keep)
    case False
    let ?gap = "length (takeWhile (\<lambda>(_, k). \<not> k) ((line, keep) # ls))"
    have "drop ?gap ((line, keep) # ls) = dropWhile (\<lambda>(_, k). \<not> k) ((line, keep) # ls)"
      by (simp only: dropWhile_eq_drop)
    moreover have "(l, True) \<in> set (dropWhile (\<lambda>(_, k). \<not> k) ((line, keep) # ls))"
      using "2.prems" set_takeWhileD [of "(l, True)" "\<lambda>(_, k). \<not> k" "(line, keep) # ls"]
      by (metis (mono_tags, lifting) Un_iff case_prod_conv set_append takeWhile_dropWhile_id)
    ultimately show ?thesis using "2.IH"(2) [OF False refl] False by (auto simp: Let_def)
  qed (use 2 in auto)
qed simp

lemma keyword_window_view_keeps:
  assumes "l \<in> set (str_lines s)" and "h l" and "length (str_lines s) \<le> u64_max"
  shows "str_contains (keyword_window_view s radius h) l"
proof -
  let ?ls = "str_lines s"
  let ?keep = "hit_loop h radius (length ?ls) 0 ?ls (replicate (length ?ls) False)"
  obtain i where i: "i < length ?ls" "?ls ! i = l" using assms(1) by (auto simp: in_set_conv_nth)
  have k: "length ?keep = length ?ls" "?keep ! i"
    using hit_loop_keeps [of "replicate (length ?ls) False" "length ?ls" 0 ?ls h radius] i assms by auto
  then have "(l, True) \<in> set (zip ?ls ?keep)" using i by (force simp: set_zip)
  then have "l \<in> set (window_loop (zip ?ls ?keep))" by (rule window_loop_keeps)
  moreover have "list_ex id ?keep" using k i by (auto simp: list_ex_length)
  ultimately show ?thesis by (simp add: keyword_window_view_def Let_def join_contains)
qed

subsection \<open>The token-budgeted summary\<close>

lemma nth_update_True: "i < length sel \<Longrightarrow> sel ! i \<Longrightarrow> sel[j := True] ! i"
  by (cases "j = i") auto

lemma select_loop_mono:
  "sel ! i \<Longrightarrow> i < length sel \<Longrightarrow> select_loop sc cs n sp sel is ! i"
  by (induction sc cs n sp sel "is" rule: select_loop.induct) (simp_all add: nth_update_True)

lemma length_select_loop [simp]: "length (select_loop sc cs n sp sel is) = length sel"
  by (induction sc cs n sp sel "is" rule: select_loop.induct) auto

lemma select_loop_critical:
  "i \<in> set is \<Longrightarrow> sc ! i \<ge> 100 \<Longrightarrow> i < length sel \<Longrightarrow> select_loop sc cs n sp sel is ! i"
  by (induction sc cs n sp sel "is" rule: select_loop.induct) (auto simp: select_loop_mono)

lemma length_bridge_loop [simp]: "length (bridge_loop cs sel is) = length sel"
  by (induction cs sel "is" rule: bridge_loop.induct) auto

lemma bridge_loop_mono: "sel ! i \<Longrightarrow> i < length sel \<Longrightarrow> bridge_loop cs sel is ! i"
  by (induction cs sel "is" rule: bridge_loop.induct) (simp_all add: nth_update_True)

lemma push_summary_line_contains:
  "str_contains (push_summary_line out l) out" "str_contains (push_summary_line out l) l"
  by (auto simp: push_summary_line_def str_contains_right)

lemma emit_loop_out: "str_contains (emit_loop out k ps) out"
proof (induction out k ps rule: emit_loop.induct)
  case (2 out k l keep ls)
  show ?case
  proof (cases keep)
    case True
    let ?out = "if k > 0 then push_summary_line out (gap_line k) else out"
    have "str_contains (push_summary_line ?out l) out"
      using push_summary_line_contains(1) [of ?out l] push_summary_line_contains(1) [of out "gap_line k"]
      by (auto intro: str_contains_trans)
    moreover have "str_contains (emit_loop (push_summary_line ?out l) 0 ls) (push_summary_line ?out l)"
      using "2.IH"(2) [of ?out] True by (simp add: Let_def)
    ultimately show ?thesis using True by (auto simp: Let_def intro: str_contains_trans)
  next
    case False
    then show ?thesis using "2.IH"(1) by simp
  qed
qed (simp add: push_summary_line_contains)

lemma emit_loop_keeps: "(l, True) \<in> set ps \<Longrightarrow> str_contains (emit_loop out k ps) l"
proof (induction out k ps rule: emit_loop.induct)
  case (2 out k x keep ls)
  show ?case
  proof (cases "keep \<and> x = l")
    case True
    let ?out = "if k > 0 then push_summary_line out (gap_line k) else out"
    have "str_contains (emit_loop (push_summary_line ?out l) 0 ls) l"
      by (rule str_contains_trans [OF emit_loop_out push_summary_line_contains(2)])
    with True show ?thesis by (auto simp: Let_def)
  next
    case False
    with "2.prems" have "(l, True) \<in> set ls" by auto
    with "2.IH" show ?thesis by (cases keep) (auto simp: Let_def)
  qed
qed simp

lemma summarize_tokens_contains_critical:
  assumes l: "l \<in> set (str_lines s)" and crit: "looks_critical_line l"
  shows "str_contains (summarize_tokens a s n pre) (trim_end l)"
proof (cases "n = 0 \<or> count_tokens a s \<le> n \<or> length (str_lines s) \<le> 4")
  case True
  then have "summarize_tokens a s n pre = pre @ trim_end s" by (auto simp: summarize_tokens_def Let_def)
  then show ?thesis using trim_end_contains [OF str_lines_contains [OF l]] by (simp add: str_contains_right)
next
  case False
  let ?ls = "str_lines s" let ?n = "length (str_lines s)"
  let ?costs = "map (count_tokens a) ?ls" let ?sc = "map (\<lambda>i. line_score ?n i (?ls ! i)) [0..<?n]"
  let ?order = "sort_key (\<lambda>i. - int (?sc ! i)) [0..<?n]"
  let ?sel = "bridge_loop ?costs (select_loop ?sc ?costs n 0 (replicate ?n False) ?order) [1..<?n - 1]"
  obtain i where i: "i < ?n" "?ls ! i = l" using l by (auto simp: in_set_conv_nth)
  then have "?sc ! i \<ge> 100" using crit by (simp add: line_score_def)
  then have "select_loop ?sc ?costs n 0 (replicate ?n False) ?order ! i"
    using i by (intro select_loop_critical) auto
  then have sel: "?sel ! i" using i by (simp add: bridge_loop_mono)
  then have "(l, True) \<in> set (zip ?ls ?sel)" using i by (force simp: set_zip)
  then have "str_contains (emit_loop pre 0 (zip ?ls ?sel)) l" by (rule emit_loop_keeps)
  moreover have "list_ex id ?sel" using sel i by (auto simp: list_ex_length)
  ultimately show ?thesis using False by (simp add: summarize_tokens_def Let_def trim_end_of_contained)
qed

subsection \<open>Deduplication\<close>

lemma critical_not_in_run:
  assumes "l \<in> set xs" and "looks_critical_line l" and "\<And>x. P x \<Longrightarrow> \<not> looks_critical_line x"
  shows "l \<in> set (drop (length (takeWhile P xs)) xs)"
proof -
  have "l \<notin> set (takeWhile P xs)" using assms(2,3) by (auto dest: set_takeWhileD)
  then have "l \<in> set (dropWhile P xs)" using assms(1) by (metis Un_iff set_append takeWhile_dropWhile_id)
  then show ?thesis by (simp add: dropWhile_eq_drop)
qed

lemma dedupe_loop_keeps_critical:
  "l \<in> set ls \<Longrightarrow> looks_critical_line l \<Longrightarrow> l \<in> set (dedupe_loop True ls)"
proof (induction ls rule: length_induct)
  case (1 ls)
  show ?case
  proof (cases ls)
    case (Cons x xs)
    let ?e = "length (takeWhile (\<lambda>c. c = x) (x # xs))"
    let ?P = "\<lambda>l. \<not> looks_critical_line l \<and> normalize_digit_runs l = normalize_digit_runs x"
    let ?m = "length (takeWhile ?P (x # xs))"
    have IH: "l \<in> set ys \<Longrightarrow> length ys < length ls \<Longrightarrow> l \<in> set (dedupe_loop True ys)" for ys using 1 by blast
    show ?thesis
    proof (cases "looks_critical_line x")
      case True
      with Cons 1 IH [of xs] show ?thesis by auto
    next
      case False
      have e: "l \<in> set (drop ?e (x # xs))" using 1(2,3) False Cons by (intro critical_not_in_run) auto
      have m: "l \<in> set (drop ?m (x # xs))" using 1(2,3) Cons by (intro critical_not_in_run) auto
      have "length (drop ?e (x # xs)) < length ls" "length (drop ?m (x # xs)) < length ls"
        using Cons False by auto
      with IH [OF e] IH [OF m] False show ?thesis unfolding Cons
        by (subst dedupe_loop.simps) (auto simp only: Let_def if_True if_False set_append list.set split: if_splits)
    qed
  qed (use 1 in simp)
qed

subsection \<open>Masking\<close>

lemma find_key_Some:
  "find_key low ks = Some (key, pos) \<Longrightarrow> key \<in> set ks \<and> str_find low key = Some pos"
  by (induction low ks rule: find_key.induct) (auto split: option.splits)

lemma find_key_None: "find_key low ks = None \<longleftrightarrow> (\<forall>key \<in> set ks. \<not> str_contains low key)"
proof (induction low ks rule: find_key.induct)
  case (2 low key ks)
  then show ?case using str_find_None [of low key] by (cases "str_find low key") auto
qed simp

lemma split_on_word: "list_all (\<lambda>c. \<not> p c) w \<Longrightarrow> split_on p w = [w]"
  by (induction w) auto

lemma split_on_word_append:
  "list_all (\<lambda>c. \<not> p c) w \<Longrightarrow> p d \<Longrightarrow> split_on p (w @ d # s) = w # split_on p s"
  by (induction w) auto

lemma split_on_pieces: "w \<in> set (split_on p s) \<Longrightarrow> list_all (\<lambda>c. \<not> p c) w"
  by (induction p s arbitrary: w rule: split_on.induct) (auto split: if_splits list.splits)

lemma split_whitespace_join:
  "\<forall>w \<in> set ws. w \<noteq> [] \<and> list_all (\<lambda>c. \<not> is_whitespace c) w \<Longrightarrow>
   split_whitespace (join (lit '' '') ws) = ws"
proof (induction ws)
  case (Cons w ws)
  have sp: "is_whitespace 32" "lit '' '' = [32]" by (simp_all add: is_whitespace_def lit_def)
  show ?case
  proof (cases "ws = []")
    case True
    with Cons show ?thesis by (simp add: split_whitespace_def split_on_word)
  next
    case False
    with Cons sp show ?thesis
      by (simp add: join_Cons split_whitespace_def split_on_word_append)
  qed
qed (simp add: split_whitespace_def)

lemma masked_not_secret: "\<not> starts_with_any (lit ''[masked]'') SECRET_TOKEN_PREFIXES"
  by code_simp

lemma mask_word_shape:
  "w \<noteq> [] \<Longrightarrow> list_all (\<lambda>c. \<not> is_whitespace c) w \<Longrightarrow>
   mask_word w \<noteq> [] \<and> list_all (\<lambda>c. \<not> is_whitespace c) (mask_word w) \<and>
   \<not> starts_with_any (mask_word w) SECRET_TOKEN_PREFIXES"
proof -
  have "list_all (\<lambda>c. \<not> is_whitespace c) (lit ''[masked]'')" by code_simp
  moreover have "lit ''[masked]'' \<noteq> []" by code_simp
  ultimately show "w \<noteq> [] \<Longrightarrow> list_all (\<lambda>c. \<not> is_whitespace c) w \<Longrightarrow> ?thesis"
    by (simp add: mask_word_def masked_not_secret)
qed

section \<open>Properties\<close>

text \<open>The error view keeps every line that names an error, whatever the radius and whatever else
  the text holds.\<close>

theorem error_block_keeps_errors:
  assumes "l \<in> set (str_lines s)" and "regex_like_error l" and "length (str_lines s) \<le> u64_max"
  shows "str_contains (error_block s radius) l"
  using keyword_window_view_keeps [of l s regex_like_error radius] assms by (simp add: error_block_def)

theorem error_block_keeps_errors_witness:
  "lit ''an error'' \<in> set (str_lines (lit ''an error'')) \<and> regex_like_error (lit ''an error'') \<and>
   str_contains (error_block (lit ''an error'') 0) (lit ''an error'')"
proof -
  have a: "lit ''an error'' \<in> set (str_lines (lit ''an error''))" by code_simp
  have b: "regex_like_error (lit ''an error'')" by code_simp
  have c: "length (str_lines (lit ''an error'')) \<le> u64_max" by code_simp
  show ?thesis using a b error_block_keeps_errors [OF a b c, of 0] by blast
qed

text \<open>C14: The token-budgeted summary never drops a critical line, however small the budget: each one
  is in the output, up to trailing white space.\<close>

theorem summarize_tokens_keeps_critical:
  assumes "l \<in> set (str_lines s)" and "looks_critical_line l"
  shows "str_contains (summarize_tokens a s n pre) (trim_end l)"
  using assms by (rule summarize_tokens_contains_critical)

theorem summarize_tokens_keeps_critical_witness:
  "lit ''panic!'' \<in> set (str_lines (lit ''panic!'')) \<and> looks_critical_line (lit ''panic!'') \<and>
   str_contains (summarize_tokens None (lit ''panic!'') 1 []) (trim_end (lit ''panic!''))"
proof -
  have a: "lit ''panic!'' \<in> set (str_lines (lit ''panic!''))" by code_simp
  have b: "looks_critical_line (lit ''panic!'')" by code_simp
  show ?thesis using a b summarize_tokens_keeps_critical [OF a b, of None 1 "[]"] by blast
qed

text \<open>On a line with no secret marker, no word of the masked line starts with a token prefix; on a
  line with one, the output is the line up to the end of a marker, followed by the mask.\<close>

theorem mask_secret_line_masks:
  "(if list_ex (str_contains (to_ascii_lowercase line)) mask_keys
    then \<exists>key pos. key \<in> set mask_keys \<and> str_find (to_ascii_lowercase line) key = Some pos \<and>
           mask_secret_line line = take (pos + length key) line @ lit ''[masked]''
    else list_all (\<lambda>w. \<not> starts_with_any w SECRET_TOKEN_PREFIXES) (split_whitespace (mask_secret_line line)))"
proof (cases "find_key (to_ascii_lowercase line) mask_keys")
  case (Some kp)
  obtain key pos where kp: "kp = (key, pos)" by (cases kp)
  with Some find_key_Some [of "to_ascii_lowercase line" mask_keys key pos]
  have k: "key \<in> set mask_keys" "str_find (to_ascii_lowercase line) key = Some pos" by auto
  have "\<not> (find_key (to_ascii_lowercase line) mask_keys = None)" using Some by simp
  then have "list_ex (str_contains (to_ascii_lowercase line)) mask_keys" by (auto simp: find_key_None list_ex_iff)
  moreover have "mask_secret_line line = take (pos + length key) line @ lit ''[masked]''"
    using Some kp by (simp add: mask_secret_line_def)
  ultimately show ?thesis using k by auto
next
  case None
  have words: "w \<noteq> [] \<and> list_all (\<lambda>c. \<not> is_whitespace c) w" if "w \<in> set (split_whitespace line)" for w
    using that split_on_pieces [of w is_whitespace line] by (auto simp: split_whitespace_def)
  have "split_whitespace (mask_secret_line line) = map mask_word (split_whitespace line)"
    using None words by (simp add: mask_secret_line_def split_whitespace_join mask_word_shape)
  then have "list_all (\<lambda>w. \<not> starts_with_any w SECRET_TOKEN_PREFIXES) (split_whitespace (mask_secret_line line))"
    using words by (simp add: list_all_iff mask_word_shape)
  moreover have "\<not> list_ex (str_contains (to_ascii_lowercase line)) mask_keys"
    using None by (auto simp: find_key_None list_ex_iff)
  ultimately show ?thesis by simp
qed

text \<open>The marker is chosen in the order of the list, not by position: a line with a password before
  a token keeps the password visible.\<close>

theorem mask_secret_line_leaks_earlier_secret:
  "mask_secret_line (lit ''password=hunter2 token=abc'') = lit ''password=hunter2 token=[masked]''"
  by code_simp

text \<open>Compacting a JSON value whose rendering has a multi-byte character across byte 240 does not
  return: the truncation panics.\<close>

theorem compact_json_panics:
  assumes "value_to_string J v = a @ c # b" and "blen a < 240" and "240 < blen a + len_utf8 c"
  shows "compact_json J v = None"
proof -
  have "split_bytes 240 (a @ c # b) = None"
  proof (cases "split_bytes 240 (a @ c # b)")
    case (Some uv)
    obtain u w where "uv = (u, w)" by (cases uv)
    with Some have uw: "a @ c # b = u @ w" "blen u = 240" by (auto simp: split_bytes_iff)
    consider t where "a = u @ t" | t where "u = a @ c # t"
      using uw(1) by (auto simp: append_eq_append_conv2 Cons_eq_append_conv)
    then show ?thesis using assms(2,3) uw(2) by cases auto
  qed
  with assms show ?thesis by (simp add: compact_json_def Let_def)
qed

theorem compact_json_panics_witness:
  "compact_json \<lparr>from_str = (\<lambda>_. None), value_to_string = (\<lambda>n. replicate n 97 @ [233]), string_to_string = id\<rparr>
     239 = None"
proof -
  let ?J = "\<lparr>from_str = (\<lambda>_. None), value_to_string = (\<lambda>n. replicate n 97 @ [233]), string_to_string = id\<rparr>"
  have "blen (replicate n 97) = n" for n by (induction n) (auto simp: len_utf8_def)
  then show ?thesis using compact_json_panics [of ?J 239 "replicate 239 97" 233 "[]"] by (simp add: len_utf8_def)
qed

end
