(* ===== verification/Capsule.thy ===== *)
theory Capsule
  imports Views
begin

text \<open>
  Capsules (\<open>tokenzero-core/src/lib.rs\<close>): the modes and their effective policies, the
  accounting block, the omission rule, and the construction of a capsule from a payload, its
  views and an optional recovery reference. The active model, \<open>serde_json\<close> and the shape of a
  JSON member are the arguments \<open>active\<close>, \<open>J\<close> and \<open>K\<close>. The lemmas show that a capsule never
  costs more than the payload it stands for, that it always satisfies the omission rule, and for
  which inputs construction succeeds.
\<close>

section \<open>Modes and channels\<close>

datatype Mode = Auto | Passthrough | Diagnostic | Structured | Dedupe | DiffAware | Exact | Lossy
  | Hybrid | Critical | Fidelity

fun mode_str :: "Mode \<Rightarrow> rstr" where
  "mode_str Auto = lit ''auto''"
| "mode_str Passthrough = lit ''passthrough''"
| "mode_str Diagnostic = lit ''diagnostic''"
| "mode_str Structured = lit ''structured''"
| "mode_str Dedupe = lit ''dedupe''"
| "mode_str DiffAware = lit ''diff-aware''"
| "mode_str Exact = lit ''exact''"
| "mode_str Lossy = lit ''lossy''"
| "mode_str Hybrid = lit ''hybrid''"
| "mode_str Critical = lit ''critical''"
| "mode_str Fidelity = lit ''fidelity''"

definition mode_aliases :: "(rstr list \<times> Mode) list" where
  "mode_aliases =
     [(map lit [''auto'', ''hybrid''], Auto), (map lit [''passthrough''], Passthrough),
      (map lit [''diagnostic'', ''critical''], Diagnostic), (map lit [''structured'', ''fidelity''], Structured),
      (map lit [''dedupe''], Dedupe), (map lit [''diff-aware'', ''diff_aware'', ''diffaware''], DiffAware),
      (map lit [''exact''], Exact), (map lit [''lossy''], Lossy)]"

definition mode_from_str :: "rstr \<Rightarrow> rstr + Mode" where
  "mode_from_str s =
     (case List.find (\<lambda>(as, _). s \<in> set as) mode_aliases of
        Some (_, m) \<Rightarrow> Ok m
      | None \<Rightarrow> Err (lit ''unsupported mode: '' @ s))"

fun effective_policy :: "Mode \<Rightarrow> Mode" where
  "effective_policy Hybrid = Auto"
| "effective_policy Critical = Diagnostic"
| "effective_policy Fidelity = Structured"
| "effective_policy Lossy = Structured"
| "effective_policy m = m"

datatype McpToolSurface = Classic | CodeMode

definition surface_from_str :: "rstr \<Rightarrow> rstr + McpToolSurface" where
  "surface_from_str s =
     (let v = map (\<lambda>c. if c = 95 \<or> c = 32 then 45 else c) (to_ascii_lowercase (trim s)) in
      if v \<in> set (map lit ['''', ''mcp'', ''classic'', ''aliases'', ''full'']) then Ok Classic
      else if v \<in> set (map lit [''codemode'', ''code-mode'']) then Ok CodeMode
      else Err (lit ''unsupported MCP launch mode '' @ [39] @ v @ [39] @ lit ''; use mcp or codemode''))"

datatype ChannelMode = Off | Action | Terminal

definition channel_from_env_value :: "rstr \<Rightarrow> ChannelMode" where
  "channel_from_env_value raw =
     (let v = to_ascii_lowercase (trim raw) in
      if v \<in> set (map lit [''1'', ''on'', ''true'', ''yes'', ''action'']) then Action
      else if v \<in> set (map lit [''terminal'', ''final'']) then Terminal
      else Off)"

definition channel_enabled :: "ChannelMode \<Rightarrow> bool" where
  "channel_enabled m \<longleftrightarrow> m \<noteq> Off"

definition emits_user_message :: "ChannelMode \<Rightarrow> bool" where
  "emits_user_message m \<longleftrightarrow> m = Terminal"

section \<open>Accounting\<close>

record Accounting =
  acc_raw_tokens :: nat
  acc_visible_tokens :: nat
  recovery_tokens :: nat
  billed_tokens :: nat
  cached_tokens :: nat
  exact_ref_tokens :: "nat option"
  tokenizer_id :: rstr
  certified :: bool

definition stamp_tokenizer :: "rstr option \<Rightarrow> Accounting \<Rightarrow> Accounting" where
  "stamp_tokenizer active a =
     (let tid = trim (tokenizer_id a) in
      if is_forbidden_mcp_tokenizer_identity tid then a\<lparr>certified := False\<rparr>
      else
        let labeled = starts_with tid (lit ''estimator:'') \<or> starts_with tid (lit ''tiktoken:'') \<or>
              (47 \<in> set tid \<and> 64 \<in> set tid);
            a = (if tid = [] \<or> \<not> labeled \<or> isl (preflight_tokenizer_id tid)
                 then a\<lparr>tokenizer_id := count_tokens_tokenizer_id active\<rparr> else a)
        in if starts_with (tokenizer_id a) (lit ''estimator:'') \<or> starts_with (tokenizer_id a) (lit ''tiktoken:'')
           then a\<lparr>certified := False\<rparr> else a)"

definition measured :: "rstr option \<Rightarrow> nat \<Rightarrow> nat \<Rightarrow> nat \<Rightarrow> nat \<Rightarrow> nat \<Rightarrow> nat option \<Rightarrow> Accounting" where
  "measured active raw visible recovery billed cached exact_ref =
     stamp_tokenizer active \<lparr>acc_raw_tokens = raw, acc_visible_tokens = visible, recovery_tokens = recovery,
       billed_tokens = billed, cached_tokens = cached, exact_ref_tokens = exact_ref,
       tokenizer_id = count_tokens_tokenizer_id active, certified = False\<rparr>"

definition spent_tokens :: "Accounting \<Rightarrow> nat" where
  "spent_tokens a = sat_add (acc_visible_tokens a) (recovery_tokens a)"

section \<open>Capsules\<close>

record LossySpan =
  description :: rstr
  span_reason :: rstr
  recovery_may_be_needed :: bool

record Capsule =
  capsule_text :: rstr
  raw_tokens :: nat
  visible_tokens :: nat
  omitted_lines :: nat
  capsule_mode :: Mode
  protected_anchors :: "rstr list"
  exact_refs :: "rstr list"
  lossy_spans :: "LossySpan list"
  lossy_policy_id :: "rstr option"

definition exact_recovery_scheme :: "rstr \<Rightarrow> bool" where
  "exact_recovery_scheme reference \<longleftrightarrow>
     (let base = (case split_once 35 reference of None \<Rightarrow> reference | Some (b, _) \<Rightarrow> b) in
      starts_with base (lit ''z://blob/'') \<or> starts_with base (lit ''tz://'') \<or>
      starts_with base (lit ''fz://blob/'') \<or> starts_with base (lit ''gz://blob/''))"

definition parses_usize :: "rstr \<Rightarrow> bool" where
  "parses_usize s \<longleftrightarrow> parse_usize s \<noteq> None"

definition exact_ref_has_selector :: "rstr \<Rightarrow> bool" where
  "exact_ref_has_selector reference =
     (case split_once 35 reference of
        None \<Rightarrow> False
      | Some (base, selector) \<Rightarrow>
          if \<not> exact_recovery_scheme base \<or> selector = [] then False
          else case strip_prefix (lit ''B'') selector of
            Some bytes \<Rightarrow>
              (case split_once 45 bytes of
                 Some (start, stop) \<Rightarrow> parses_usize start \<and> parses_usize stop
               | None \<Rightarrow>
                   (case split_once 43 bytes of
                      Some (start, len) \<Rightarrow> parses_usize start \<and> parses_usize len
                    | None \<Rightarrow> parses_usize bytes))
          | None \<Rightarrow>
              (case strip_prefix (lit ''L'') selector of
                 Some lines \<Rightarrow>
                   (case split_once 45 lines of
                      Some (start, stop) \<Rightarrow> parses_usize start \<and> parses_usize (trim_start_matches 76 stop)
                    | None \<Rightarrow> parses_usize lines)
               | None \<Rightarrow>
                   (case strip_prefix (lit ''symbol='') selector of
                      Some symbol \<Rightarrow> symbol \<noteq> []
                    | None \<Rightarrow> False)))"

definition OMISSION_ERROR :: rstr where
  "OMISSION_ERROR = lit ''capsule omitted bytes without a protected anchor, exact tz:// selector, or explicit lossy declaration''"

definition lossy_declared :: "Capsule \<Rightarrow> bool" where
  "lossy_declared c \<longleftrightarrow>
     capsule_mode c = Lossy \<and>
     (case lossy_policy_id c of None \<Rightarrow> False | Some p \<Rightarrow> p \<noteq> []) \<and>
     lossy_spans c \<noteq> [] \<and>
     list_all (\<lambda>s. description s \<noteq> [] \<and> span_reason s \<noteq> [] \<and> recovery_may_be_needed s) (lossy_spans c) \<and>
     str_contains (capsule_text c) (lit ''mode=lossy'') \<and>
     str_contains (capsule_text c) (lit ''lossy_policy_id='')"

definition validate_omission_rule :: "Capsule \<Rightarrow> rstr \<Rightarrow> rstr + unit" where
  "validate_omission_rule c original =
     (let original = trim_end original in
      if original = [] \<or> str_contains (capsule_text c) original then Ok ()
      else if list_ex (\<lambda>anchor. anchor \<noteq> [] \<and>
          str_contains (capsule_text c) (lit ''[[anchor:'' @ anchor @ lit '']]'')) (protected_anchors c) then Ok ()
      else if list_ex (\<lambda>r. exact_ref_has_selector r \<and> str_contains (capsule_text c) r) (exact_refs c) then Ok ()
      else if lossy_declared c then Ok ()
      else Err OMISSION_ERROR)"

definition exact_recovery_ref :: "rstr \<Rightarrow> nat \<Rightarrow> rstr option" where
  "exact_recovery_ref reference byte_len =
     (if exact_recovery_scheme reference then
        Some (if 35 \<in> set reference then reference
              else reference @ lit ''#B0-'' @ show_nat byte_len)
      else None)"

definition validated_capsule :: "Capsule \<Rightarrow> rstr \<Rightarrow> rstr + Capsule" where
  "validated_capsule c original =
     (case validate_omission_rule c original of Inl e \<Rightarrow> Err e | Inr _ \<Rightarrow> Ok c)"

definition apply_never_worse_passthrough :: "rstr option \<Rightarrow> Capsule \<Rightarrow> rstr \<Rightarrow> Capsule" where
  "apply_never_worse_passthrough active c original =
     (let raw_text = trim_end original; raw_count = count_tokens active raw_text in
      if raw_count < visible_tokens c then
        c\<lparr>capsule_text := raw_text, visible_tokens := raw_count, omitted_lines := 0, exact_refs := [],
          lossy_spans := [], lossy_policy_id := None, capsule_mode := Passthrough\<rparr>
      else c)"

definition declare_lossy :: "rstr \<Rightarrow> rstr" where
  "declare_lossy t =
     (if \<not> str_contains t (lit ''mode=lossy'') then t @ [NL] @ VISIBLE_BUDGET_LOSSY_DECLARATION else t)"

definition omission_notice :: "rstr \<Rightarrow> rstr" where
  "omission_notice reference =
     lit ''... omitted by visible budget; expand '' @ reference @ lit '' for the full output ...''"

definition finalize_capsule_omission ::
    "'j serde \<Rightarrow> rstr option \<Rightarrow> Capsule \<Rightarrow> rstr \<Rightarrow> nat \<Rightarrow> rstr option \<Rightarrow> rstr + Capsule" where
  "finalize_capsule_omission J active c original max_visible_tokens exact_ref =
     (let original_trimmed = trim_end original;
          omitted = (original_trimmed \<noteq> [] \<and> \<not> str_contains (capsule_text c) original_trimmed);
          c' = (if \<not> omitted then c
            else case (case exact_ref of None \<Rightarrow> None
                       | Some r \<Rightarrow> if exact_ref_has_selector r then Some r else None) of
              Some reference \<Rightarrow>
                (let c = (if \<not> str_contains (capsule_text c) reference then
                            let t = capsule_text c @ [NL] @ omission_notice reference
                            in c\<lparr>capsule_text := t, visible_tokens := count_tokens active t\<rparr>
                          else c)
                 in c\<lparr>exact_refs := exact_refs c @ [reference]\<rparr>)
            | None \<Rightarrow>
                (let declared = declare_lossy (capsule_text c);
                     declared_tokens = count_tokens active declared;
                     raw_full_tokens = count_tokens active original_trimmed
                 in if declared_tokens \<ge> raw_full_tokens then
                      c\<lparr>capsule_text := original_trimmed, visible_tokens := raw_full_tokens, omitted_lines := 0\<rparr>
                    else
                      let t = enforce_token_budget_with_ref J active declared max_visible_tokens None
                      in c\<lparr>capsule_mode := Lossy,
                           lossy_policy_id := Some (lit ''tokenzero.visible-compression.v1''),
                           lossy_spans := lossy_spans c @
                             [\<lparr>description = lit ''bytes omitted from the visible capsule'',
                               span_reason = lit ''visible token budget or selected compression policy'',
                               recovery_may_be_needed = True\<rparr>],
                           capsule_text := t, visible_tokens := count_tokens active t\<rparr>))
      in validated_capsule (apply_never_worse_passthrough active c' original) original)"

subsection \<open>Labels\<close>

text \<open>\<open>Path::new(p).file_name()\<close> on Unix.\<close>

definition path_file_name :: "rstr \<Rightarrow> rstr option" where
  "path_file_name p =
     (let parts = filter (\<lambda>c. c \<noteq> [] \<and> c \<noteq> lit ''.'') (split_on (\<lambda>c. c = 47) p) in
      if parts = [] \<or> last parts = lit ''..'' then None else Some (last parts))"

definition compact_label :: "rstr \<Rightarrow> rstr" where
  "compact_label label =
     (case (if 92 \<in> set label \<or> 47 \<in> set label then path_file_name label else None) of
        Some name \<Rightarrow> lit ''.../'' @ name
      | None \<Rightarrow> if length label \<le> 48 then label else take 48 label @ lit ''...'')"

definition capsule_prefix :: "rstr option \<Rightarrow> rstr option \<Rightarrow> nat \<Rightarrow> nat \<Rightarrow> rstr" where
  "capsule_prefix active label max_visible_tokens raw =
     (case label of
        None \<Rightarrow> []
      | Some label \<Rightarrow>
          let full = lit ''# '' @ label @ [NL] in
          if max_visible_tokens = 0 then full
          else let budget = max (max_visible_tokens - raw) 4 in
            if count_tokens active full \<le> budget then full
            else let compact = lit ''# '' @ compact_label label @ [NL] in
              if count_tokens active compact \<le> budget \<or> count_tokens active compact < count_tokens active full
              then compact
              else lit ''# source'' @ [NL])"

subsection \<open>Construction\<close>

definition EXACT_STUB :: rstr where
  "EXACT_STUB = lit ''[exact payload stored; use expand for raw bytes]''"

definition policy_view :: "Mode \<Rightarrow> rstr \<Rightarrow> nat \<Rightarrow> nat \<Rightarrow> rstr \<Rightarrow> rstr" where
  "policy_view mode s raw max_tokens pre =
     (case effective_policy mode of
        Exact \<Rightarrow> pre @ EXACT_STUB
      | Passthrough \<Rightarrow> pre @ trim_end s
      | Diagnostic \<Rightarrow>
          (let b = error_block s 3 in
           if trim b = [] then summarize_lines s 8 6 pre else pre @ trim_end b)
      | Structured \<Rightarrow> summarize_lines s 24 16 pre
      | Dedupe \<Rightarrow> pre @ trim_end (dedupe_lines s 8)
      | DiffAware \<Rightarrow> pre @ trim_end (diff_summary s 120)
      | _ \<Rightarrow> if max_tokens = 0 \<or> raw \<le> max_tokens then pre @ trim_end s
             else summarize_lines s 18 12 pre)"

definition fresh_capsule :: "rstr \<Rightarrow> rstr \<Rightarrow> nat \<Rightarrow> nat \<Rightarrow> Mode \<Rightarrow> Capsule" where
  "fresh_capsule s visible raw visible_n mode =
     \<lparr>capsule_text = visible, raw_tokens = raw, visible_tokens = visible_n,
      omitted_lines = length (str_lines s) - length (str_lines visible), capsule_mode = mode,
      protected_anchors = [], exact_refs = [], lossy_spans = [], lossy_policy_id = None\<rparr>"

definition make_capsule_with_recovery_ref ::
    "'j serde \<Rightarrow> rstr option \<Rightarrow> rstr \<Rightarrow> nat \<Rightarrow> Mode \<Rightarrow> nat \<Rightarrow> rstr option \<Rightarrow> rstr option \<Rightarrow> rstr + Capsule" where
  "make_capsule_with_recovery_ref J active s raw mode max_tokens label recovery_ref =
     (let pre = capsule_prefix active label max_tokens raw;
          exact_ref = Option.bind recovery_ref (\<lambda>r. exact_recovery_ref r (blen s));
          visible = policy_view mode s raw max_tokens pre;
          visible = (if effective_policy mode \<noteq> Passthrough
                     then enforce_token_budget_with_ref J active visible max_tokens exact_ref else visible);
          visible_n = count_tokens active visible;
          fallback = trim_end s;
          fallback_n = count_tokens active fallback;
          (visible, visible_n, mode) =
            (if visible_n > raw \<and> fallback_n < visible_n then (fallback, fallback_n, Passthrough)
             else (visible, visible_n, mode))
      in finalize_capsule_omission J active (fresh_capsule s visible raw visible_n mode) s max_tokens exact_ref)"

definition make_capsule_with_raw_tokens ::
    "'j serde \<Rightarrow> rstr option \<Rightarrow> rstr \<Rightarrow> nat \<Rightarrow> Mode \<Rightarrow> nat \<Rightarrow> rstr option \<Rightarrow> rstr + Capsule" where
  "make_capsule_with_raw_tokens J active s raw mode max_tokens label =
     make_capsule_with_recovery_ref J active s raw mode max_tokens label None"

definition make_capsule ::
    "'j serde \<Rightarrow> rstr option \<Rightarrow> rstr \<Rightarrow> Mode \<Rightarrow> nat \<Rightarrow> rstr option \<Rightarrow> rstr + Capsule" where
  "make_capsule J active s mode max_tokens label =
     make_capsule_with_raw_tokens J active s (count_tokens active s) mode max_tokens label"

definition make_capsule_content_aware ::
    "'j serde \<Rightarrow> ('j \<Rightarrow> value_shape) \<Rightarrow> rstr option \<Rightarrow> rstr \<Rightarrow> nat \<Rightarrow> ContentType \<Rightarrow> nat \<Rightarrow> rstr option \<Rightarrow>
     rstr option \<Rightarrow> bool \<Rightarrow> rstr + Capsule" where
  "make_capsule_content_aware J K active s raw content_type max_tokens label recovery_ref aggressive =
     (if \<not> aggressive \<and> (max_tokens = 0 \<or> raw \<le> max_tokens)
      then make_capsule_with_recovery_ref J active s raw Auto max_tokens label recovery_ref
      else
        let pre = capsule_prefix active label max_tokens raw;
            exact_ref = Option.bind recovery_ref (\<lambda>r. exact_recovery_ref r (blen s));
            budget = (if aggressive then max_tokens div 3 else max_tokens);
            visible = (case content_type of
                Code \<Rightarrow> summarize_code s budget pre
              | Logs \<Rightarrow> summarize_logs s budget pre
              | ShellOutput \<Rightarrow> summarize_logs s budget pre
              | JsonConfig \<Rightarrow> summarize_json J K s budget pre
              | Diff \<Rightarrow> summarize_lines s 12 8 pre
              | SearchResult \<Rightarrow> summarize_lines s 20 5 pre
              | _ \<Rightarrow> summarize_lines s 18 12 pre);
            visible = enforce_token_budget_with_ref J active visible max_tokens exact_ref
        in finalize_capsule_omission J active
             (fresh_capsule s visible raw (count_tokens active visible) (if aggressive then Exact else Auto))
             s max_tokens exact_ref)"

section \<open>Recovery references\<close>

lemma scheme_base: "35 \<notin> set r \<Longrightarrow> exact_recovery_scheme (r @ 35 # t) = exact_recovery_scheme r"
  by (simp add: exact_recovery_scheme_def split_once_None [THEN iffD2])

lemma show_nat_no_sep: "c \<in> set (show_nat n) \<Longrightarrow> 48 \<le> c \<and> c \<le> 57"
  using show_nat_digits [of c n] by (simp add: is_ascii_digit_def)

lemma byte_selector_parses:
  "i \<le> u64_max \<Longrightarrow> j \<le> u64_max \<Longrightarrow> 35 \<notin> set r \<Longrightarrow> exact_recovery_scheme r \<Longrightarrow>
   exact_ref_has_selector (r @ lit ''#B'' @ show_nat i @ lit ''-'' @ show_nat j)"
proof -
  assume b: "i \<le> u64_max" "j \<le> u64_max" "35 \<notin> set r" "exact_recovery_scheme r"
  have sep: "45 \<notin> set (show_nat i)" using show_nat_no_sep [of 45 i] by auto
  have l: "lit ''#B'' = [35, 66]" "lit ''B'' = [66]" "lit ''-'' = [45]" by (simp_all add: lit_def)
  have "split_once 35 (r @ lit ''#B'' @ show_nat i @ lit ''-'' @ show_nat j) =
      Some (r, 66 # show_nat i @ 45 # show_nat j)" using b(3) l by simp
  moreover have "strip_prefix [66] (66 # show_nat i @ 45 # show_nat j) = Some (show_nat i @ 45 # show_nat j)"
    by (simp add: strip_prefix_def starts_with_def)
  moreover have "split_once 45 (show_nat i @ 45 # show_nat j) = Some (show_nat i, show_nat j)" using sep by simp
  ultimately show ?thesis using b l by (simp add: exact_ref_has_selector_def parses_usize_def)
qed

lemma bare_ref_selector:
  "exact_recovery_scheme r \<Longrightarrow> 35 \<notin> set r \<Longrightarrow> n \<le> u64_max \<Longrightarrow>
   \<exists>r'. exact_recovery_ref r n = Some r' \<and> exact_ref_has_selector r'"
proof -
  assume r: "exact_recovery_scheme r" "35 \<notin> set r" "n \<le> u64_max"
  have "show_nat 0 = [48]" by (simp add: show_nat.simps)
  moreover have "lit ''#B0-'' = lit ''#B'' @ [48] @ lit ''-''" by (simp add: lit_def)
  ultimately have "exact_ref_has_selector (r @ lit ''#B0-'' @ show_nat n)"
    using byte_selector_parses [of 0 n r] r by (simp add: u64_max_def)
  then show ?thesis using r by (simp add: exact_recovery_ref_def)
qed

section \<open>The omission rule\<close>

definition accountable :: "rstr \<Rightarrow> Capsule \<Rightarrow> bool" where
  "accountable original c \<longleftrightarrow>
     trim_end original = [] \<or> str_contains (capsule_text c) (trim_end original) \<or>
     (\<exists>r \<in> set (exact_refs c). exact_ref_has_selector r \<and> str_contains (capsule_text c) r) \<or>
     lossy_declared c"

lemma validate_accountable:
  "protected_anchors c = [] \<Longrightarrow>
   validate_omission_rule c original = (if accountable original c then Ok () else Err OMISSION_ERROR)"
  by (auto simp: validate_omission_rule_def accountable_def Let_def list_ex_iff)

text \<open>The capsule \<open>finalize_capsule_omission\<close> validates, before the never-worse rule.\<close>

definition usable :: "rstr option \<Rightarrow> rstr option" where
  "usable exact_ref = Option.bind exact_ref (\<lambda>r. if exact_ref_has_selector r then Some r else None)"

lemma never_worse_cases:
  obtains "apply_never_worse_passthrough a c s = c" "visible_tokens c \<le> count_tokens a (trim_end s)"
  | "capsule_text (apply_never_worse_passthrough a c s) = trim_end s"
    "visible_tokens (apply_never_worse_passthrough a c s) = count_tokens a (trim_end s)"
  by (cases "count_tokens a (trim_end s) < visible_tokens c") (auto simp: apply_never_worse_passthrough_def Let_def)

lemma validated_iff:
  "protected_anchors c = [] \<Longrightarrow> validated_capsule c s = (if accountable s c then Ok c else Err OMISSION_ERROR)"
  by (simp add: validated_capsule_def validate_accountable)

lemma never_worse_anchors [simp]: "protected_anchors (apply_never_worse_passthrough a c s) = protected_anchors c"
  by (simp add: apply_never_worse_passthrough_def Let_def)

lemma accountable_shown [simp]: "capsule_text c = trim_end s \<Longrightarrow> accountable s c"
  by (simp add: accountable_def)

lemma never_worse_accountable: "accountable s c \<Longrightarrow> accountable s (apply_never_worse_passthrough a c s)"
  by (rule never_worse_cases [of a c s]) (auto intro: accountable_shown)

definition with_reference :: "rstr option \<Rightarrow> Capsule \<Rightarrow> rstr \<Rightarrow> Capsule" where
  "with_reference active c reference =
     (let c = (if \<not> str_contains (capsule_text c) reference then
                 let t = capsule_text c @ [NL] @ omission_notice reference
                 in c\<lparr>capsule_text := t, visible_tokens := count_tokens active t\<rparr>
               else c)
      in c\<lparr>exact_refs := exact_refs c @ [reference]\<rparr>)"

definition with_declaration :: "'j serde \<Rightarrow> rstr option \<Rightarrow> Capsule \<Rightarrow> nat \<Rightarrow> Capsule" where
  "with_declaration J active c n =
     (let t = enforce_token_budget_with_ref J active (declare_lossy (capsule_text c)) n None
      in c\<lparr>capsule_mode := Lossy, lossy_policy_id := Some (lit ''tokenzero.visible-compression.v1''),
           lossy_spans := lossy_spans c @
             [\<lparr>description = lit ''bytes omitted from the visible capsule'',
               span_reason = lit ''visible token budget or selected compression policy'',
               recovery_may_be_needed = True\<rparr>],
           capsule_text := t, visible_tokens := count_tokens active t\<rparr>)"

definition repaired :: "'j serde \<Rightarrow> rstr option \<Rightarrow> Capsule \<Rightarrow> rstr \<Rightarrow> nat \<Rightarrow> rstr option \<Rightarrow> Capsule" where
  "repaired J a c s n exact_ref =
     (if trim_end s = [] \<or> str_contains (capsule_text c) (trim_end s) then c
      else case usable exact_ref of
        Some r \<Rightarrow> with_reference a c r
      | None \<Rightarrow>
          if count_tokens a (declare_lossy (capsule_text c)) \<ge> count_tokens a (trim_end s)
          then c\<lparr>capsule_text := trim_end s, visible_tokens := count_tokens a (trim_end s), omitted_lines := 0\<rparr>
          else with_declaration J a c n)"

lemma finalize_eq:
  "finalize_capsule_omission J a c s n exact_ref =
     validated_capsule (apply_never_worse_passthrough a (repaired J a c s n exact_ref) s) s"
  by (auto simp: finalize_capsule_omission_def with_reference_def with_declaration_def usable_def Let_def
      repaired_def split: option.splits)

lemma with_reference_facts:
  "visible_tokens c = count_tokens a (capsule_text c) \<Longrightarrow>
   visible_tokens (with_reference a c r) = count_tokens a (capsule_text (with_reference a c r))"
  "protected_anchors (with_reference a c r) = protected_anchors c"
  "exact_ref_has_selector r \<Longrightarrow> accountable s (with_reference a c r)"
proof -
  have "str_contains (capsule_text (with_reference a c r)) r"
    by (simp add: with_reference_def Let_def omission_notice_def str_contains_right str_contains_left)
  moreover have "r \<in> set (exact_refs (with_reference a c r))" by (simp add: with_reference_def Let_def)
  ultimately show "exact_ref_has_selector r \<Longrightarrow> accountable s (with_reference a c r)"
    unfolding accountable_def by blast
qed (simp_all add: with_reference_def Let_def)

lemma with_declaration_facts:
  "visible_tokens (with_declaration J a c n) = count_tokens a (capsule_text (with_declaration J a c n))"
  "protected_anchors (with_declaration J a c n) = protected_anchors c"
  by (simp_all add: with_declaration_def Let_def)

lemma usable_SomeD: "usable x = Some r \<Longrightarrow> exact_ref_has_selector r"
  by (auto simp: usable_def bind_eq_Some_conv split: if_splits)

lemma repaired_facts:
  "visible_tokens c = count_tokens a (capsule_text c) \<Longrightarrow>
   visible_tokens (repaired J a c s n r) = count_tokens a (capsule_text (repaired J a c s n r))"
  "protected_anchors (repaired J a c s n r) = protected_anchors c"
  by (auto simp: repaired_def with_reference_facts with_declaration_facts split: option.splits)

lemma finalize_iff:
  "protected_anchors c = [] \<Longrightarrow>
   finalize_capsule_omission J a c s n r =
     (let d = apply_never_worse_passthrough a (repaired J a c s n r) s
      in if accountable s d then Ok d else Err OMISSION_ERROR)"
  by (simp add: finalize_eq validated_iff repaired_facts Let_def)

text \<open>What every successful construction guarantees.\<close>

lemma finalize_ok:
  assumes "finalize_capsule_omission J a c s n r = Ok c'"
    and "visible_tokens c = count_tokens a (capsule_text c)" and "protected_anchors c = []"
  shows "visible_tokens c' = count_tokens a (capsule_text c') \<and>
    visible_tokens c' \<le> count_tokens a (trim_end s) \<and> accountable s c'"
proof -
  have "c' = apply_never_worse_passthrough a (repaired J a c s n r) s" "accountable s c'"
    using assms by (auto simp: finalize_iff Let_def split: if_splits)
  then show ?thesis using repaired_facts(1) [OF assms(2), of J s n r]
    by (auto intro: never_worse_cases [of a "repaired J a c s n r" s])
qed

lemma finalize_total:
  "protected_anchors c = [] \<Longrightarrow> accountable s (repaired J a c s n r) \<Longrightarrow>
   \<exists>c'. finalize_capsule_omission J a c s n r = Ok c'"
  by (simp add: finalize_iff Let_def never_worse_accountable)

lemma finalize_with_ref_total:
  assumes "usable r = Some r'" and "protected_anchors c = []"
  shows "\<exists>c'. finalize_capsule_omission J a c s n r = Ok c'"
proof -
  have "accountable s (with_reference a c r')" using assms(1) usable_SomeD with_reference_facts(3) by blast
  then have "accountable s (repaired J a c s n r)" using assms(1) by (auto simp: repaired_def accountable_def)
  with assms(2) show ?thesis by (rule finalize_total)
qed

text \<open>
  \<open>serde_json\<close> rejects trailing characters: a text that ends in the lossy declaration is not a
  JSON document.
\<close>

definition rejects_declaration :: "'j serde \<Rightarrow> bool" where
  "rejects_declaration J \<longleftrightarrow> (\<forall>t. from_str J (t @ [NL] @ VISIBLE_BUDGET_LOSSY_DECLARATION) = None)"

lemma declaration_contents:
  "str_contains VISIBLE_BUDGET_LOSSY_DECLARATION (lit ''mode=lossy'')"
  "str_contains VISIBLE_BUDGET_LOSSY_DECLARATION (lit ''lossy_policy_id='')"
  by code_simp+

lemma retain_marker: "str_contains (retain_plain_lines_after_marker a t n m) m"
  using retain_loop_shape [of a n m "split_inclusive t"] by (auto simp: retain_plain_lines_after_marker_def)

lemma enforced_declaration:
  assumes "rejects_declaration J" and "\<not> str_contains t (lit ''mode=lossy'')"
  shows "str_contains (enforce_token_budget_with_ref J a (declare_lossy t) n None) VISIBLE_BUDGET_LOSSY_DECLARATION"
proof -
  have d: "declare_lossy t = t @ [NL] @ VISIBLE_BUDGET_LOSSY_DECLARATION" using assms(2) by (simp add: declare_lossy_def)
  with assms(1) have "from_str J (declare_lossy t) = None" by (simp add: rejects_declaration_def)
  then have "elide_top_level_json J a (declare_lossy t) n None = None" by (simp add: elide_top_level_json_def)
  then show ?thesis
    by (rule_tac enforce_cases [of J a "declare_lossy t" n None])
      (auto simp: d visible_budget_marker_def retain_marker str_contains_right)
qed

lemma with_declaration_accountable:
  assumes "rejects_declaration J" and "\<not> str_contains (capsule_text c) (lit ''mode=lossy'')"
    and "lossy_spans c = []"
  shows "accountable s (with_declaration J a c n)"
proof -
  have "lossy_declared (with_declaration J a c n)"
    using enforced_declaration [OF assms(1,2), of a n] declaration_contents assms(3)
    by (auto simp: lossy_declared_def with_declaration_def Let_def intro: str_contains_trans)
  then show ?thesis by (simp add: accountable_def)
qed

lemma finalize_without_ref_total:
  assumes "rejects_declaration J" and "\<not> str_contains (capsule_text c) (lit ''mode=lossy'')"
    and "lossy_spans c = []" and "protected_anchors c = []"
  shows "\<exists>c'. finalize_capsule_omission J a c s n None = Ok c'"
proof -
  have "accountable s (repaired J a c s n None)"
    using with_declaration_accountable [OF assms(1-3), of s a n]
    by (auto simp: repaired_def usable_def intro: accountable_shown) (auto simp: accountable_def)
  with assms(4) show ?thesis by (rule finalize_total)
qed

section \<open>Properties\<close>

lemma fresh_capsule_facts [simp]:
  "protected_anchors (fresh_capsule s v r n m) = []" "lossy_spans (fresh_capsule s v r n m) = []"
  "capsule_text (fresh_capsule s v r n m) = v" "visible_tokens (fresh_capsule s v r n m) = n"
  by (simp_all add: fresh_capsule_def)

lemma make_capsule_cases:
  "\<exists>v m. make_capsule_with_recovery_ref J a s raw mode n label ref =
    finalize_capsule_omission J a (fresh_capsule s v raw (count_tokens a v) m) s n
      (Option.bind ref (\<lambda>r. exact_recovery_ref r (blen s)))"
  by (auto simp: make_capsule_with_recovery_ref_def Let_def split: if_splits prod.splits)

lemma content_aware_cases:
  "\<exists>v m. make_capsule_content_aware J K a s raw ct n label ref aggr =
    finalize_capsule_omission J a (fresh_capsule s v raw (count_tokens a v) m) s n
      (Option.bind ref (\<lambda>r. exact_recovery_ref r (blen s)))"
proof (cases "\<not> aggr \<and> (n = 0 \<or> raw \<le> n)")
  case True
  then show ?thesis using make_capsule_cases [of J a s raw Auto n label ref]
    by (simp add: make_capsule_content_aware_def)
qed (auto simp: make_capsule_content_aware_def Let_def)

text \<open>C4: A capsule never costs more than its payload: whatever the mode, budget, label and reference,
  the visible count is the count of the visible text and is at most the count of the payload
  itself, and the omitted bytes are accounted for by an exact reference the reader can see or by
  an explicit lossy declaration.\<close>

theorem capsule_never_worse:
  assumes "make_capsule_with_recovery_ref J a s raw mode n label ref = Ok c"
  shows "visible_tokens c = count_tokens a (capsule_text c) \<and>
    visible_tokens c \<le> count_tokens a (trim_end s) \<and>
    (trim_end s = [] \<or> str_contains (capsule_text c) (trim_end s) \<or>
     (\<exists>r. r \<in> set (exact_refs c) \<and> exact_ref_has_selector r \<and> str_contains (capsule_text c) r) \<or>
     lossy_declared c)"
proof -
  obtain v m where "finalize_capsule_omission J a (fresh_capsule s v raw (count_tokens a v) m) s n
      (Option.bind ref (\<lambda>r. exact_recovery_ref r (blen s))) = Ok c"
    using assms make_capsule_cases [of J a s raw mode n label ref] by metis
  from finalize_ok [OF this] show ?thesis by (auto simp: accountable_def)
qed

text \<open>The content-aware summaries obey the same rule, in both the ordinary and the aggressive
  variant.\<close>

theorem content_aware_never_worse:
  assumes "make_capsule_content_aware J K a s raw ct n label ref aggr = Ok c"
  shows "visible_tokens c = count_tokens a (capsule_text c) \<and>
    visible_tokens c \<le> count_tokens a (trim_end s) \<and>
    (trim_end s = [] \<or> str_contains (capsule_text c) (trim_end s) \<or>
     (\<exists>r. r \<in> set (exact_refs c) \<and> exact_ref_has_selector r \<and> str_contains (capsule_text c) r) \<or>
     lossy_declared c)"
proof -
  obtain v m where "finalize_capsule_omission J a (fresh_capsule s v raw (count_tokens a v) m) s n
      (Option.bind ref (\<lambda>r. exact_recovery_ref r (blen s))) = Ok c"
    using assms content_aware_cases [of J K a s raw ct n label ref aggr] by metis
  from finalize_ok [OF this] show ?thesis by (auto simp: accountable_def)
qed

text \<open>With a recovery reference of a scheme expand accepts and no fragment of its own, every
  construction succeeds, in every mode and at every budget.\<close>

theorem capsule_with_ref_succeeds:
  assumes "exact_recovery_scheme r" and "35 \<notin> set r" and "blen s \<le> u64_max"
  shows "(\<exists>c. make_capsule_with_recovery_ref J a s raw mode n label (Some r) = Ok c) \<and>
    (\<exists>c. make_capsule_content_aware J K a s raw ct n label (Some r) aggr = Ok c)"
proof -
  obtain r' where r': "exact_recovery_ref r (blen s) = Some r'" "exact_ref_has_selector r'"
    using bare_ref_selector [OF assms] by blast
  have tot: "\<exists>c. finalize_capsule_omission J a (fresh_capsule s v raw (count_tokens a v) m) s n
      (Option.bind (Some r) (\<lambda>r. exact_recovery_ref r (blen s))) = Ok c" for v m
    using r' by (intro finalize_with_ref_total) (auto simp: usable_def)
  show ?thesis
    using tot make_capsule_cases [of J a s raw mode n label "Some r"]
      content_aware_cases [of J K a s raw ct n label "Some r" aggr] by metis
qed

theorem capsule_with_ref_succeeds_witness:
  "exact_recovery_scheme (lit ''tz://blob/ab'') \<and>
   (\<exists>c. make_capsule_with_recovery_ref no_json None (lit ''hi'') 1 Exact 0 None (Some (lit ''tz://blob/ab'')) = Ok c)"
proof -
  have a: "exact_recovery_scheme (lit ''tz://blob/ab'')" by code_simp
  have b: "35 \<notin> set (lit ''tz://blob/ab'')" by code_simp
  have c: "blen (lit ''hi'') \<le> u64_max" by code_simp
  show ?thesis using a capsule_with_ref_succeeds [OF a b c, of no_json None 1 Exact 0 None] by blast
qed

theorem capsule_never_worse_witness:
  "\<exists>c. make_capsule_with_recovery_ref no_json None (lit ''hi'') 1 Exact 64 None None = Ok c \<and>
     visible_tokens c \<le> count_tokens None (trim_end (lit ''hi''))"
proof -
  have "\<not> isl (make_capsule_with_recovery_ref no_json None (lit ''hi'') 1 Exact 64 None None)" by code_simp
  then obtain c where c: "make_capsule_with_recovery_ref no_json None (lit ''hi'') 1 Exact 64 None None = Ok c"
    by (cases "make_capsule_with_recovery_ref no_json None (lit ''hi'') 1 Exact 64 None None") auto
  show ?thesis using c capsule_never_worse [OF c] by blast
qed

theorem content_aware_never_worse_witness:
  "\<exists>c. make_capsule_content_aware no_json (\<lambda>_. VNull) None (lit ''hi'') 1 Code 64 None None True = Ok c \<and>
     visible_tokens c \<le> count_tokens None (trim_end (lit ''hi''))"
proof -
  let ?m = "make_capsule_content_aware no_json (\<lambda>_. VNull) None (lit ''hi'') 1 Code 64 None None True"
  have "\<not> isl ?m" by code_simp
  then obtain c where c: "?m = Ok c" by (cases ?m) auto
  show ?thesis using c content_aware_never_worse [OF c] by blast
qed

text \<open>Without a recovery reference, construction fails when the visible text already holds the
  words of the declaration: the label of a payload is enough. A payload of more than fifteen
  tokens that is longer than the stub, stored in exact mode under the label \<open>mode=lossy\<close>, is
  refused, because the declaration is not added a second time.\<close>

theorem label_defeats_declaration:
  assumes "15 < count_tokens None (trim_end s)" and "61 < length (trim_end s)"
  shows "make_capsule J None s Exact 64 (Some (lit ''mode=lossy'')) = Err OMISSION_ERROR"
proof -
  define v where "v = lit ''# mode=lossy'' @ [NL] @ EXACT_STUB"
  define c where "c = fresh_capsule s v (count_tokens None s) 15 Exact"
  have full: "count_tokens None (lit ''# '' @ lit ''mode=lossy'' @ [NL]) = 4"
    and v: "count_tokens None v = 15" "length v = 61"
    and cont: "str_contains v (lit ''mode=lossy'')" "\<not> str_contains v (lit ''lossy_policy_id='')"
    unfolding v_def by code_simp+
  have "capsule_prefix None (Some (lit ''mode=lossy'')) 64 (count_tokens None s) = lit ''# mode=lossy'' @ [NL]"
    using full by (simp add: capsule_prefix_def Let_def) (simp add: lit_def)
  moreover have enf: "enforce_token_budget_with_ref J None v 64 None = v"
    using v by (simp add: enforce_token_budget_with_ref_def)
  ultimately have mk: "make_capsule J None s Exact 64 (Some (lit ''mode=lossy'')) =
      finalize_capsule_omission J None c s 64 None"
    using assms(1) v
    by (simp add: make_capsule_def make_capsule_with_raw_tokens_def make_capsule_with_recovery_ref_def Let_def
        policy_view_def c_def v_def)
  have absent: "\<not> str_contains v (trim_end s)"
    using assms(2) v(2) by (auto simp: str_contains_iff dest!: arg_cong [of _ _ length])
  have decl: "declare_lossy v = v" using cont(1) by (simp add: declare_lossy_def)
  have rep: "repaired J None c s 64 None = with_declaration J None c 64"
    using absent assms v decl by (auto simp: repaired_def usable_def c_def)
  have wd: "capsule_text (with_declaration J None c 64) = v" "exact_refs (with_declaration J None c 64) = []"
    "visible_tokens (with_declaration J None c 64) = 15"
    using decl enf v by (simp_all add: with_declaration_def Let_def fresh_capsule_def c_def)
  then have "apply_never_worse_passthrough None (with_declaration J None c 64) s = with_declaration J None c 64"
    using assms(1) by (simp add: apply_never_worse_passthrough_def Let_def)
  moreover have "\<not> accountable s (with_declaration J None c 64)"
    using wd absent assms(2) cont(2) by (auto simp: accountable_def lossy_declared_def)
  moreover have "protected_anchors c = []" by (simp add: c_def)
  ultimately show ?thesis by (simp add: mk finalize_iff Let_def rep)
qed

theorem label_defeats_declaration_witness:
  "15 < count_tokens None (trim_end (concat (replicate 40 (lit ''a '')))) \<and>
   make_capsule no_json None (concat (replicate 40 (lit ''a ''))) Exact 64 (Some (lit ''mode=lossy'')) = Err OMISSION_ERROR"
proof -
  have a: "15 < count_tokens None (trim_end (concat (replicate 40 (lit ''a ''))))" by code_simp
  have b: "61 < length (trim_end (concat (replicate 40 (lit ''a ''))))" by code_simp
  show ?thesis using a label_defeats_declaration [OF a b, of no_json] by blast
qed

end
