(* ===== verification/Transparency.thy ===== *)
theory Transparency
  imports Prelude
begin

text \<open>
  The append-only Merkle Mountain Range of recovery mutations
  (\<open>tokenzero-recovery/src/transparency.rs\<close>). SHA-256 is the parameter \<open>sha\<close>, from bytes to
  bytes. The lemmas show that the proofs the log issues are accepted, that an accepted proof of
  the same shape binds its leaf up to a hash collision, and what the verifier does not bind.
\<close>

section \<open>Hashing\<close>

type_synonym Hash = rstr
type_synonym sha = "byte list \<Rightarrow> byte list"

definition hex :: "byte list \<Rightarrow> rstr" where
  "hex bytes = concat (map (\<lambda>b. [lit ''0123456789abcdef'' ! (b div 16), lit ''0123456789abcdef'' ! (b mod 16)]) bytes)"

definition hash_tagged :: "sha \<Rightarrow> byte \<Rightarrow> byte list list \<Rightarrow> Hash" where
  "hash_tagged sha tag parts = hex (sha (tag # concat parts))"

definition hash_leaf :: "sha \<Rightarrow> byte list \<Rightarrow> Hash" where
  "hash_leaf sha event = hash_tagged sha 0 [event]"

definition hash_node :: "sha \<Rightarrow> Hash \<Rightarrow> Hash \<Rightarrow> Hash" where
  "hash_node sha l r = hash_tagged sha 1 [as_bytes l, as_bytes r]"

fun bag :: "sha \<Rightarrow> Hash list \<Rightarrow> Hash" where
  "bag sha [] = hash_tagged sha 3 []"
| "bag sha (p # ps) = foldl (\<lambda>acc peak. hash_tagged sha 2 [as_bytes acc, as_bytes peak]) p ps"

section \<open>Mountain geometry\<close>

text \<open>\<open>usize::BITS - 1 - size.leading_zeros()\<close>: the exponent of the highest set bit.\<close>

fun ilog2 :: "nat \<Rightarrow> nat" where
  "ilog2 n = (if n < 2 then 0 else Suc (ilog2 (n div 2)))"

declare ilog2.simps [simp del]

lemma ilog2_bounds: "0 < n \<Longrightarrow> 2 ^ ilog2 n \<le> n \<and> n < 2 * 2 ^ ilog2 n"
proof (induction n rule: ilog2.induct)
  case (1 n)
  show ?case
  proof (cases "n < 2")
    case True
    with 1 show ?thesis by (simp add: ilog2.simps [of n])
  next
    case False
    with 1 have "2 ^ ilog2 (n div 2) \<le> n div 2 \<and> n div 2 < 2 * 2 ^ ilog2 (n div 2)" by simp
    with False show ?thesis by (simp add: ilog2.simps [of n]) linarith
  qed
qed

function peak_heights :: "nat \<Rightarrow> nat list" where
  "peak_heights n = (if n > 0 then ilog2 n # peak_heights (n - 2 ^ ilog2 n) else [])"
  by pat_completeness auto
termination by (relation "measure id") auto

declare peak_heights.simps [simp del]

fun ranges_from :: "nat \<Rightarrow> nat list \<Rightarrow> (nat \<times> nat) list" where
  "ranges_from start [] = []"
| "ranges_from start (h # hs) = (start, 2 ^ h) # ranges_from (start + 2 ^ h) hs"

definition peak_ranges :: "nat \<Rightarrow> (nat \<times> nat) list" where
  "peak_ranges n = ranges_from 0 (peak_heights n)"

section \<open>Subtrees and paths\<close>

record ProofSibling =
  sibling_hash :: Hash
  is_left :: bool

text \<open>
  On an empty slice the recursion of the source would not end; every slice the log passes is a
  non-empty mountain (\<open>ranges_from_in_range\<close>), so the equation for it is never used.
\<close>

function subtree_root :: "sha \<Rightarrow> Hash list \<Rightarrow> Hash" where
  "subtree_root sha leaves =
     (if length leaves < 2 then (case leaves of [] \<Rightarrow> [] | l # _ \<Rightarrow> l)
      else let mid = length leaves div 2 in
        hash_node sha (subtree_root sha (take mid leaves)) (subtree_root sha (drop mid leaves)))"
  by pat_completeness auto
termination by (relation "measure (\<lambda>(sha, leaves). length leaves)") auto

declare subtree_root.simps [simp del]

function inclusion_path :: "sha \<Rightarrow> Hash list \<Rightarrow> nat \<Rightarrow> ProofSibling list \<times> Hash" where
  "inclusion_path sha leaves index =
     (if length leaves < 2 then ([], case leaves of [] \<Rightarrow> [] | l # _ \<Rightarrow> l)
      else let mid = length leaves div 2 in
        if index < mid then
          let (out, node) = inclusion_path sha (take mid leaves) index;
              sib = subtree_root sha (drop mid leaves)
          in (out @ [\<lparr>sibling_hash = sib, is_left = False\<rparr>], hash_node sha node sib)
        else
          let (out, node) = inclusion_path sha (drop mid leaves) (index - mid);
              sib = subtree_root sha (take mid leaves)
          in (out @ [\<lparr>sibling_hash = sib, is_left = True\<rparr>], hash_node sha sib node))"
  by pat_completeness auto
termination by (relation "measure (\<lambda>(sha, leaves, index). length leaves)") auto

declare inclusion_path.simps [simp del]

section \<open>The log\<close>

record MmrLog =
  leaves :: "Hash list"

record InclusionProof =
  proof_size :: nat
  leaf_index :: nat
  leaf_hash :: Hash
  peak_index :: nat
  siblings :: "ProofSibling list"
  peaks :: "Hash list"

record ConsistencyProof =
  old_size :: nat
  new_size :: nat
  old_peaks :: "Hash list"
  appended_leaf_hashes :: "Hash list"

definition log_len :: "MmrLog \<Rightarrow> nat" where
  "log_len l = length (leaves l)"

definition log_peaks :: "sha \<Rightarrow> MmrLog \<Rightarrow> Hash list" where
  "log_peaks sha l =
     map (\<lambda>(start, n). subtree_root sha (take n (drop start (leaves l)))) (peak_ranges (log_len l))"

definition root :: "sha \<Rightarrow> MmrLog \<Rightarrow> Hash" where
  "root sha l = bag sha (log_peaks sha l)"

definition append_hash :: "MmrLog \<Rightarrow> Hash \<Rightarrow> MmrLog \<times> nat" where
  "append_hash l h = (l\<lparr>leaves := leaves l @ [h]\<rparr>, length (leaves l))"

definition log_append :: "sha \<Rightarrow> MmrLog \<Rightarrow> byte list \<Rightarrow> MmrLog \<times> nat" where
  "log_append sha l event = append_hash l (hash_leaf sha event)"

definition inclusion_proof :: "sha \<Rightarrow> MmrLog \<Rightarrow> nat \<Rightarrow> InclusionProof option" where
  "inclusion_proof sha l index =
     (if index \<ge> log_len l then None
      else let ranges = peak_ranges (log_len l) in
        case List.find (\<lambda>(_, (start, n)). index \<ge> start \<and> index < start + n)
          (List.enumerate 0 ranges) of
          None \<Rightarrow> None
        | Some (pk, (start, n)) \<Rightarrow>
            Some \<lparr>proof_size = log_len l, leaf_index = index, leaf_hash = leaves l ! index,
              peak_index = pk,
              siblings = fst (inclusion_path sha (take n (drop start (leaves l))) (index - start)),
              peaks = log_peaks sha l\<rparr>)"

definition consistency_proof :: "sha \<Rightarrow> MmrLog \<Rightarrow> nat \<Rightarrow> ConsistencyProof option" where
  "consistency_proof sha l n =
     (if n > log_len l then None
      else Some \<lparr>old_size = n, new_size = log_len l,
        old_peaks = log_peaks sha \<lparr>leaves = take n (leaves l)\<rparr>,
        appended_leaf_hashes = drop n (leaves l)\<rparr>)"

fun common_prefix :: "'a list \<Rightarrow> 'a list \<Rightarrow> nat" where
  "common_prefix (a # as) (b # bs) = (if a = b then Suc (common_prefix as bs) else 0)"
| "common_prefix _ _ = 0"

definition merge_concurrent :: "MmrLog \<Rightarrow> MmrLog \<Rightarrow> MmrLog" where
  "merge_concurrent l other =
     l\<lparr>leaves := leaves l @ drop (common_prefix (leaves l) (leaves other)) (leaves other)\<rparr>"

section \<open>Verification\<close>

definition climb :: "sha \<Rightarrow> Hash \<Rightarrow> ProofSibling \<Rightarrow> Hash" where
  "climb sha node s =
     (if is_left s then hash_node sha (sibling_hash s) node else hash_node sha node (sibling_hash s))"

definition verify_inclusion :: "sha \<Rightarrow> InclusionProof \<Rightarrow> Hash \<Rightarrow> bool" where
  "verify_inclusion sha p expected_root =
     (if proof_size p = 0 \<or> leaf_index p \<ge> proof_size p \<or> peak_index p \<ge> length (peaks p) then False
      else let node = foldl (climb sha) (leaf_hash p) (siblings p)
        in bag sha ((peaks p)[peak_index p := node]) = expected_root)"

function add_leaf :: "sha \<Rightarrow> (nat \<times> Hash) list \<Rightarrow> nat \<times> Hash \<Rightarrow> (nat \<times> Hash) list" where
  "add_leaf sha pks current =
     (if pks \<noteq> [] \<and> fst (last pks) = fst current
      then add_leaf sha (butlast pks) (fst current + 1, hash_node sha (snd (last pks)) (snd current))
      else pks @ [current])"
  by pat_completeness auto
termination by (relation "measure (\<lambda>(sha, pks, c). length pks)") auto

declare add_leaf.simps [simp del]

definition verify_consistency :: "sha \<Rightarrow> ConsistencyProof \<Rightarrow> Hash \<Rightarrow> Hash \<Rightarrow> bool" where
  "verify_consistency sha p old_root new_root =
     (if new_size p < old_size p
         \<or> length (appended_leaf_hashes p) \<noteq> new_size p - old_size p
         \<or> bag sha (old_peaks p) \<noteq> old_root then False
      else let heights = peak_heights (old_size p) in
        if length heights \<noteq> length (old_peaks p) then False
        else let pks = foldl (\<lambda>pks leaf. add_leaf sha pks (0, leaf))
               (zip heights (old_peaks p)) (appended_leaf_hashes p)
          in bag sha (map snd pks) = new_root)"

section \<open>Inclusion\<close>

lemma climb_left [simp]: "climb sha n \<lparr>sibling_hash = s, is_left = True\<rparr> = hash_node sha s n"
  and climb_right [simp]: "climb sha n \<lparr>sibling_hash = s, is_left = False\<rparr> = hash_node sha n s"
  by (simp_all add: climb_def)

lemma inclusion_path_root:
  "xs \<noteq> [] \<Longrightarrow> i < length xs \<Longrightarrow>
   snd (inclusion_path sha xs i) = subtree_root sha xs \<and>
   foldl (climb sha) (xs ! i) (fst (inclusion_path sha xs i)) = subtree_root sha xs"
proof (induction sha xs i rule: inclusion_path.induct)
  case (1 sha xs i)
  show ?case
  proof (cases "length xs < 2")
    case True
    with "1.prems" obtain x where "xs = [x]" "i = 0" by (cases xs) auto
    then show ?thesis by (simp add: inclusion_path.simps subtree_root.simps)
  next
    case False
    define m where "m = length xs div 2"
    have m: "0 < m" "m < length xs" using False by (auto simp: m_def)
    note root = subtree_root.simps [of sha xs]
    show ?thesis
    proof (cases "i < m")
      case True
      have "take m xs \<noteq> []" and "i < length (take m xs)" using m True by auto
      with 1(1) [OF False m_def True [unfolded m_def, folded m_def]]
      have IH: "snd (inclusion_path sha (take m xs) i) = subtree_root sha (take m xs)"
        "foldl (climb sha) (take m xs ! i) (fst (inclusion_path sha (take m xs) i)) = subtree_root sha (take m xs)"
        by auto
      then show ?thesis using False True m
        by (simp add: inclusion_path.simps [of sha xs] root Let_def m_def [symmetric] case_prod_unfold)
    next
      case ge: False
      have "drop m xs \<noteq> []" and "i - m < length (drop m xs)" using m ge "1.prems" by auto
      with 1(2) [OF False m_def ge]
      have IH: "snd (inclusion_path sha (drop m xs) (i - m)) = subtree_root sha (drop m xs)"
        "foldl (climb sha) (drop m xs ! (i - m)) (fst (inclusion_path sha (drop m xs) (i - m))) = subtree_root sha (drop m xs)"
        by auto
      have "drop m xs ! (i - m) = xs ! i" using ge "1.prems" m by simp
      with IH show ?thesis using False ge m
        by (simp add: inclusion_path.simps [of sha xs] root Let_def m_def [symmetric] case_prod_unfold)
    qed
  qed
qed

lemma peak_heights_sum: "sum_list (map (\<lambda>h. 2 ^ h) (peak_heights n)) = n"
proof (induction n rule: peak_heights.induct)
  case (1 n)
  then show ?case using ilog2_bounds [of n] by (simp add: peak_heights.simps [of n])
qed

lemma ranges_from_in_range:
  "(a, n) \<in> set (ranges_from start hs) \<Longrightarrow>
   0 < n \<and> start \<le> a \<and> a + n \<le> start + sum_list (map (\<lambda>h. 2 ^ h) hs)"
  by (induction hs arbitrary: start) force+

lemma ranges_from_cover:
  "start \<le> i \<Longrightarrow> i < start + sum_list (map (\<lambda>h. 2 ^ h) hs) \<Longrightarrow>
   \<exists>a n. (a, n) \<in> set (ranges_from start hs) \<and> a \<le> i \<and> i < a + n"
proof (induction hs arbitrary: start)
  case (Cons h hs)
  show ?case
  proof (cases "i < start + 2 ^ h")
    case True
    with Cons.prems show ?thesis by force
  next
    case False
    with Cons.IH [of "start + 2 ^ h"] Cons.prems show ?thesis by fastforce
  qed
qed simp

lemma find_enumerate:
  assumes "x \<in> set xs" and "P x"
  shows "\<exists>k. List.find (\<lambda>(_, y). P y) (List.enumerate n xs) = Some (n + k, xs ! k) \<and> k < length xs \<and> P (xs ! k)"
  using assms
proof (induction xs arbitrary: n)
  case (Cons y ys)
  show ?case
  proof (cases "P y")
    case True
    then show ?thesis by (auto intro!: exI [of _ 0])
  next
    case False
    with Cons.prems Cons.IH [of "Suc n"] obtain k where
      "List.find (\<lambda>(_, y). P y) (List.enumerate (Suc n) ys) = Some (Suc n + k, ys ! k)"
      "k < length ys" "P (ys ! k)" by auto
    with False show ?thesis by (auto intro!: exI [of _ "Suc k"])
  qed
qed simp

lemma inclusion_proof_verifies:
  assumes i: "i < log_len l"
  shows "\<exists>p. inclusion_proof sha l i = Some p \<and> leaf_index p = i \<and>
    leaf_hash p = leaves l ! i \<and> verify_inclusion sha p (root sha l)"
proof -
  let ?n = "log_len l" and ?rs = "peak_ranges (log_len l)"
  let ?P = "\<lambda>(start, n). i \<ge> start \<and> i < start + n"
  obtain a m where "(a, m) \<in> set ?rs" "a \<le> i" "i < a + m"
    using ranges_from_cover [of 0 i "peak_heights ?n"] i by (auto simp: peak_ranges_def peak_heights_sum)
  then obtain k where k: "List.find (\<lambda>(_, y). ?P y) (List.enumerate 0 ?rs) = Some (k, ?rs ! k)"
    "k < length ?rs" "?P (?rs ! k)"
    using find_enumerate [of "(a, m)" ?rs ?P 0] by auto
  obtain start c where r: "?rs ! k = (start, c)" by fastforce
  with k(2) have "(start, c) \<in> set ?rs" by (metis nth_mem)
  from ranges_from_in_range [OF this [unfolded peak_ranges_def]]
  have in_rng: "0 < c" "start + c \<le> ?n" by (auto simp: peak_heights_sum)
  let ?sl = "take c (drop start (leaves l))"
  have len: "length ?sl = c" using in_rng by (simp add: log_len_def)
  have ik: "start \<le> i" "i < start + c" using k(3) r by auto
  have pth: "foldl (climb sha) (?sl ! (i - start)) (fst (inclusion_path sha ?sl (i - start))) = subtree_root sha ?sl"
  proof -
    have "?sl \<noteq> []" and "i - start < length ?sl" using len in_rng ik by (metis less_numeral_extra(3) list.size(3), linarith)
    from inclusion_path_root [OF this, of sha] show ?thesis by blast
  qed
  have leaf: "?sl ! (i - start) = leaves l ! i" using ik in_rng by (simp add: log_len_def)
  have pk: "log_peaks sha l ! k = subtree_root sha ?sl" and lk: "k < length (log_peaks sha l)"
    using k(2) r by (simp_all add: log_peaks_def)
  let ?p = "\<lparr>proof_size = ?n, leaf_index = i, leaf_hash = leaves l ! i, peak_index = k,
    siblings = fst (inclusion_path sha ?sl (i - start)), peaks = log_peaks sha l\<rparr>"
  have "inclusion_proof sha l i = Some ?p"
    using i k(1) r by (auto simp: inclusion_proof_def Let_def case_prod_unfold)
  moreover have "verify_inclusion sha ?p (root sha l)"
    using i pth leaf lk by (simp add: verify_inclusion_def Let_def root_def pk [symmetric])
  ultimately show ?thesis by auto
qed

section \<open>Consistency\<close>

text \<open>\<open>covers\<close>: the peaks describe consecutive mountains that make up the leaves.\<close>

fun covers :: "sha \<Rightarrow> (nat \<times> Hash) list \<Rightarrow> Hash list \<Rightarrow> bool" where
  "covers sha [] xs \<longleftrightarrow> xs = []"
| "covers sha ((h, r) # pks) xs \<longleftrightarrow>
     2 ^ h \<le> length xs \<and> r = subtree_root sha (take (2 ^ h) xs) \<and> covers sha pks (drop (2 ^ h) xs)"

lemma covers_append:
  "covers sha (p @ q) xs \<longleftrightarrow> (\<exists>ys zs. xs = ys @ zs \<and> covers sha p ys \<and> covers sha q zs)"
proof (induction p arbitrary: xs)
  case (Cons a p)
  obtain h r where a: "a = (h, r)" by fastforce
  show ?case
  proof
    assume "covers sha ((a # p) @ q) xs"
    then obtain ys zs where "2 ^ h \<le> length xs" "r = subtree_root sha (take (2 ^ h) xs)"
      "drop (2 ^ h) xs = ys @ zs" "covers sha p ys" "covers sha q zs" by (auto simp: a Cons.IH)
    then have "xs = (take (2 ^ h) xs @ ys) @ zs \<and> covers sha (a # p) (take (2 ^ h) xs @ ys) \<and> covers sha q zs"
      by (simp add: a) (metis append_take_drop_id)
    then show "\<exists>ys zs. xs = ys @ zs \<and> covers sha (a # p) ys \<and> covers sha q zs" by blast
  next
    assume "\<exists>ys zs. xs = ys @ zs \<and> covers sha (a # p) ys \<and> covers sha q zs"
    then obtain ys zs where "xs = ys @ zs" "covers sha (a # p) ys" "covers sha q zs" by blast
    moreover from this have "drop (2 ^ h) xs = drop (2 ^ h) ys @ zs" by (simp add: a)
    ultimately show "covers sha ((a # p) @ q) xs" using Cons.IH [of "drop (2 ^ h) xs"]
      by (auto simp: a)
  qed
qed auto

lemma covers_singleton: "length ys = 2 ^ h \<Longrightarrow> covers sha [(h, r)] ys \<longleftrightarrow> r = subtree_root sha ys"
  by simp

lemma subtree_root_double:
  "length a = 2 ^ h \<Longrightarrow> length b = 2 ^ h \<Longrightarrow>
   subtree_root sha (a @ b) = hash_node sha (subtree_root sha a) (subtree_root sha b)"
proof -
  assume len: "length a = 2 ^ h" "length b = 2 ^ h"
  have "\<not> length (a @ b) < 2" using len one_le_power [of "2 :: nat" h] unfolding length_append by linarith
  with len show ?thesis by (subst subtree_root.simps) (simp add: Let_def)
qed

lemma covers_add_leaf:
  "covers sha pks xs \<Longrightarrow> length ys = 2 ^ fst c \<Longrightarrow> snd c = subtree_root sha ys \<Longrightarrow>
   covers sha (add_leaf sha pks c) (xs @ ys)"
proof (induction sha pks c arbitrary: xs ys rule: add_leaf.induct)
  case (1 sha pks c)
  show ?case
  proof (cases "pks \<noteq> [] \<and> fst (last pks) = fst c")
    case True
    then have pks: "pks = butlast pks @ [(fst c, snd (last pks))]" by (metis append_butlast_last_id prod.collapse)
    with "1.prems"(1) obtain us vs where xs: "xs = us @ vs" "covers sha (butlast pks) us"
      "covers sha [(fst c, snd (last pks))] vs" by (metis covers_append)
    then have vs: "length vs = 2 ^ fst c" "snd (last pks) = subtree_root sha vs" by auto
    let ?c = "(fst c + 1, hash_node sha (snd (last pks)) (snd c))"
    have "covers sha (add_leaf sha (butlast pks) ?c) (us @ vs @ ys)"
      using "1.IH" [OF True xs(2), of "vs @ ys"] vs "1.prems"
      by (simp add: subtree_root_double [OF vs(1) "1.prems"(2)])
    with True xs(1) show ?thesis by (simp add: add_leaf.simps [of sha pks c])
  next
    case False
    then have "add_leaf sha pks c = pks @ [(fst c, snd c)]" by (auto simp: add_leaf.simps [of sha pks c])
    moreover have "covers sha [(fst c, snd c)] ys" using "1.prems"(2,3) by simp
    ultimately show ?thesis using "1.prems"(1) covers_append [of sha pks "[(fst c, snd c)]" "xs @ ys"] by auto
  qed
qed

lemma heights_add_leaf:
  "sorted_wrt (>) (map fst pks) \<Longrightarrow> (pks \<noteq> [] \<Longrightarrow> fst c \<le> fst (last pks)) \<Longrightarrow>
   sorted_wrt (>) (map fst (add_leaf sha pks c))"
proof (induction sha pks c rule: add_leaf.induct)
  case (1 sha pks c)
  show ?case
  proof (cases "pks \<noteq> [] \<and> fst (last pks) = fst c")
    case True
    have so: "sorted_wrt (>) (map fst (butlast pks) @ [fst (last pks)])"
      using "1.prems"(1) True by (metis append_butlast_last_id list.simps(8,9) map_append)
    then have "fst c + 1 \<le> fst (last (butlast pks))" if "butlast pks \<noteq> []"
      using that True last_in_set [OF that] by (auto simp: sorted_wrt_append Suc_le_eq)
    with "1.IH" [OF True] so True show ?thesis by (simp add: add_leaf.simps [of sha pks c] sorted_wrt_append)
  next
    case False
    have "\<forall>h \<in> set (map fst pks). fst c < h"
    proof (cases "pks = []")
      case ne: False
      then have eq: "pks = butlast pks @ [last pks]" by simp
      then have "sorted_wrt (>) (map fst (butlast pks) @ [fst (last pks)])"
        using "1.prems"(1) by (metis list.simps(8,9) map_append)
      then have "\<forall>h \<in> set (map fst (butlast pks)). fst (last pks) < h" by (auto simp: sorted_wrt_append)
      moreover have "fst c < fst (last pks)" using "1.prems"(2) [OF ne] False ne by auto
      ultimately show ?thesis by (subst eq) auto
    qed simp
    with False "1.prems"(1) show ?thesis by (auto simp: add_leaf.simps [of sha pks c] sorted_wrt_append)
  qed
qed

lemma heights_sum_less:
  "sorted_wrt (>) (h # hs) \<Longrightarrow> sum_list (map (\<lambda>h. 2 ^ h) hs) < (2 :: nat) ^ h"
proof (induction hs arbitrary: h)
  case (Cons g gs)
  then have "sum_list (map (\<lambda>h. 2 ^ h) gs) < (2 :: nat) ^ g" by simp
  moreover have "(2 :: nat) ^ Suc g \<le> 2 ^ h" using Cons.prems by (intro power_increasing) auto
  ultimately show ?case by simp
qed simp

lemma ilog2_unique: "2 ^ h \<le> n \<Longrightarrow> n < 2 * 2 ^ h \<Longrightarrow> ilog2 n = h"
proof -
  assume n: "2 ^ h \<le> n" "n < 2 * 2 ^ h"
  have "0 < n" using n(1) by (metis le_zero_eq neq0_conv power_not_zero zero_neq_numeral)
  note b = ilog2_bounds [OF this]
  have "(2 :: nat) ^ h < 2 ^ Suc (ilog2 n)" "(2 :: nat) ^ ilog2 n < 2 ^ Suc h"
    using n b unfolding power_Suc by linarith+
  then have "h < Suc (ilog2 n)" "ilog2 n < Suc h" using power_less_imp_less_exp by (metis one_less_numeral_iff semiring_norm(76))+
  then show ?thesis by simp
qed

lemma peak_heights_unique:
  "sorted_wrt (>) hs \<Longrightarrow> peak_heights (sum_list (map (\<lambda>h. 2 ^ h) hs)) = hs"
proof (induction hs)
  case Nil
  then show ?case by (simp add: peak_heights.simps)
next
  case (Cons h hs)
  let ?r = "sum_list (map (\<lambda>h. 2 ^ h) hs) :: nat"
  have "ilog2 (2 ^ h + ?r) = h" using heights_sum_less [OF Cons.prems] by (intro ilog2_unique) auto
  then show ?case using Cons by (subst peak_heights.simps) simp
qed

lemma peak_heights_sorted: "sorted_wrt (>) (peak_heights n) \<and> (\<forall>h \<in> set (peak_heights n). 2 ^ h \<le> n)"
proof (induction n rule: peak_heights.induct)
  case (1 n)
  show ?case
  proof (cases "n > 0")
    case True
    let ?m = "n - 2 ^ ilog2 n"
    note b = ilog2_bounds [OF True]
    from 1 [OF True] have IH: "sorted_wrt (>) (peak_heights ?m)" "\<forall>h \<in> set (peak_heights ?m). 2 ^ h \<le> ?m" by auto
    have "h < ilog2 n" if "h \<in> set (peak_heights ?m)" for h
    proof -
      have "2 ^ h \<le> n - 2 ^ ilog2 n" using IH(2) that by blast
      then have "(2 :: nat) ^ h < 2 ^ ilog2 n" using b True by linarith
      then show ?thesis by (metis one_less_numeral_iff power_less_imp_less_exp semiring_norm(76))
    qed
    with IH True b show ?thesis by (fastforce simp: peak_heights.simps [of n])
  qed (simp add: peak_heights.simps)
qed

lemma covers_length: "covers sha pks xs \<Longrightarrow> length xs = sum_list (map (\<lambda>h. 2 ^ h) (map fst pks))"
proof (induction pks arbitrary: xs)
  case (Cons a pks)
  obtain h r where a: "a = (h, r)" by fastforce
  from Cons.prems have "2 ^ h \<le> length xs" "covers sha pks (drop (2 ^ h) xs)" by (auto simp: a)
  from Cons.IH [OF this(2)] this(1) show ?case by (simp add: a)
qed simp

lemma covers_ranges:
  "covers sha pks (drop s xs) \<Longrightarrow>
   map snd pks = map (\<lambda>(start, n). subtree_root sha (take n (drop start xs))) (ranges_from s (map fst pks))"
proof (induction pks arbitrary: s)
  case (Cons a pks)
  obtain h r where a: "a = (h, r)" by fastforce
  with Cons.prems Cons.IH [of "s + 2 ^ h"] show ?case by (simp add: add.commute)
qed simp

lemma covers_peaks:
  "sum_list (map (\<lambda>h. 2 ^ h) hs) = length (drop s xs) \<Longrightarrow>
   covers sha (zip hs (map (\<lambda>(start, n). subtree_root sha (take n (drop start xs))) (ranges_from s hs))) (drop s xs)"
proof (induction hs arbitrary: s)
  case (Cons h hs)
  from Cons.prems Cons.IH [of "s + 2 ^ h"] show ?case by (simp add: add.commute)
qed simp

lemma length_ranges_from [simp]: "length (ranges_from s hs) = length hs"
  by (induction hs arbitrary: s) auto

lemma covers_log_peaks: "covers sha (zip (peak_heights (log_len l)) (log_peaks sha l)) (leaves l)"
  using covers_peaks [of "peak_heights (log_len l)" 0 "leaves l" sha]
  by (simp add: peak_heights_sum log_len_def log_peaks_def peak_ranges_def)

lemma covers_unique:
  assumes "covers sha pks xs" and "sorted_wrt (>) (map fst pks)"
  shows "map snd pks = log_peaks sha \<lparr>leaves = xs\<rparr>"
proof -
  have "map fst pks = peak_heights (length xs)"
    using peak_heights_unique [OF assms(2)] covers_length [OF assms(1)] by simp
  with covers_ranges [of sha pks 0 xs] assms(1) show ?thesis
    by (simp add: log_peaks_def log_len_def peak_ranges_def)
qed

lemma covers_foldl_add_leaf:
  "covers sha pks xs \<Longrightarrow> sorted_wrt (>) (map fst pks) \<Longrightarrow>
   covers sha (foldl (\<lambda>pks leaf. add_leaf sha pks (0, leaf)) pks ys) (xs @ ys) \<and>
   sorted_wrt (>) (map fst (foldl (\<lambda>pks leaf. add_leaf sha pks (0, leaf)) pks ys))"
proof (induction ys arbitrary: pks xs)
  case (Cons y ys)
  have "subtree_root sha [y] = y" by (simp add: subtree_root.simps)
  then have "covers sha (add_leaf sha pks (0, y)) (xs @ [y])"
    using covers_add_leaf [OF Cons.prems(1), of "[y]" "(0, y)"] by simp
  moreover have "sorted_wrt (>) (map fst (add_leaf sha pks (0, y)))"
    using heights_add_leaf [OF Cons.prems(2), of "(0, y)" sha] by simp
  ultimately show ?case using Cons.IH [of "add_leaf sha pks (0, y)" "xs @ [y]"] by simp
qed simp

lemma consistency_proof_verifies:
  assumes "n \<le> log_len l"
  shows "\<exists>p. consistency_proof sha l n = Some p \<and>
    verify_consistency sha p (root sha \<lparr>leaves = take n (leaves l)\<rparr>) (root sha l)"
proof -
  let ?old = "\<lparr>leaves = take n (leaves l)\<rparr>"
  let ?hs = "peak_heights n" and ?ps = "log_peaks sha ?old"
  have len: "log_len ?old = n" using assms by (simp add: log_len_def)
  have lp: "length ?hs = length ?ps" by (simp add: log_peaks_def len peak_ranges_def)
  have c: "covers sha (zip ?hs ?ps) (take n (leaves l))" using covers_log_peaks [of sha ?old] len by simp
  have so: "sorted_wrt (>) (map fst (zip ?hs ?ps))" using lp peak_heights_sorted [of n] by simp
  let ?new = "foldl (\<lambda>pks leaf. add_leaf sha pks (0, leaf)) (zip ?hs ?ps) (drop n (leaves l))"
  from covers_foldl_add_leaf [OF c so, of "drop n (leaves l)"]
  have "covers sha ?new (leaves l)" "sorted_wrt (>) (map fst ?new)" by auto
  from covers_unique [OF this] have "map snd ?new = log_peaks sha l" by (cases l) simp
  then have "bag sha (map snd ?new) = root sha l" by (simp add: root_def)
  with assms lp show ?thesis
    by (simp add: consistency_proof_def verify_consistency_def root_def Let_def log_len_def)
qed

section \<open>What a proof binds\<close>

definition sha_ok :: "sha \<Rightarrow> bool" where
  "sha_ok sha \<longleftrightarrow> (\<forall>x. length (sha x) = 32 \<and> list_all (\<lambda>b. b < 256) (sha x))"

definition wf_hash :: "Hash \<Rightarrow> bool" where
  "wf_hash h \<longleftrightarrow> length h = 64 \<and> list_all (\<lambda>c. c < 128) h"

definition wf_proof :: "InclusionProof \<Rightarrow> bool" where
  "wf_proof p \<longleftrightarrow> wf_hash (leaf_hash p) \<and> list_all (\<lambda>s. wf_hash (sibling_hash s)) (siblings p) \<and>
     list_all wf_hash (peaks p)"

definition collision :: "sha \<Rightarrow> bool" where
  "collision sha \<longleftrightarrow> (\<exists>x y. x \<noteq> y \<and> hex (sha x) = hex (sha y))"

lemma as_bytes_ascii: "list_all (\<lambda>c. c < 128) s \<Longrightarrow> as_bytes s = s"
  by (induction s) (auto simp: as_bytes_Cons utf8_char_def)

lemma hex_digit_ascii: "n < 16 \<Longrightarrow> lit ''0123456789abcdef'' ! n < 128"
proof -
  assume n: "n < 16"
  have "list_all (\<lambda>c. c < 128) (lit ''0123456789abcdef'')" by code_simp
  moreover have "length (lit ''0123456789abcdef'') = 16" by code_simp
  ultimately show ?thesis using n by (simp add: list_all_length)
qed

lemma wf_hash_hex: "length bs = 32 \<Longrightarrow> list_all (\<lambda>b. b < 256) bs \<Longrightarrow> wf_hash (hex bs)"
proof -
  assume len: "length bs = 32" and b: "list_all (\<lambda>b. b < 256) bs"
  have "length (hex bs) = 2 * length bs" by (induction bs) (simp_all add: hex_def)
  moreover have "list_all (\<lambda>c. c < 128) (hex bs)" using b
    by (induction bs) (auto simp: hex_def intro!: hex_digit_ascii)
  ultimately show ?thesis using len by (simp add: wf_hash_def)
qed

lemma wf_hash_tagged: "sha_ok sha \<Longrightarrow> wf_hash (hash_tagged sha t ps)"
  by (simp add: hash_tagged_def wf_hash_hex sha_ok_def)

lemma hash_tagged_inj:
  assumes "wf_hash a" "wf_hash b" "wf_hash a'" "wf_hash b'"
    and "hash_tagged sha t [as_bytes a, as_bytes b] = hash_tagged sha t [as_bytes a', as_bytes b']"
  shows "(a = a' \<and> b = b') \<or> collision sha"
proof (cases "a @ b = a' @ b'")
  case True
  with assms show ?thesis by (simp add: wf_hash_def)
next
  case False
  then have "t # a @ b \<noteq> t # a' @ b'" by simp
  moreover have "hex (sha (t # a @ b)) = hex (sha (t # a' @ b'))"
    using assms by (simp add: hash_tagged_def wf_hash_def as_bytes_ascii)
  ultimately show ?thesis unfolding collision_def by blast
qed

lemma climb_inj:
  assumes "wf_hash n" "wf_hash n'" "wf_hash (sibling_hash s)" "wf_hash (sibling_hash s')"
    and "is_left s = is_left s'" and "climb sha n s = climb sha n' s'"
  shows "n = n' \<or> collision sha"
  using hash_tagged_inj [of n "sibling_hash s" n' "sibling_hash s'" sha 1]
    hash_tagged_inj [of "sibling_hash s" n "sibling_hash s'" n' sha 1] assms
  by (auto simp: climb_def hash_node_def split: if_splits)

lemma wf_climb: "sha_ok sha \<Longrightarrow> wf_hash (climb sha n s)"
  by (simp add: climb_def hash_node_def wf_hash_tagged)

lemma wf_climbs: "sha_ok sha \<Longrightarrow> wf_hash n \<Longrightarrow> wf_hash (foldl (climb sha) n ss)"
  by (induction ss arbitrary: n) (auto simp: wf_climb)

lemma climbs_inj:
  "sha_ok sha \<Longrightarrow> map is_left ss = map is_left ss' \<Longrightarrow> wf_hash n \<Longrightarrow> wf_hash n' \<Longrightarrow>
   list_all (\<lambda>s. wf_hash (sibling_hash s)) ss \<Longrightarrow> list_all (\<lambda>s. wf_hash (sibling_hash s)) ss' \<Longrightarrow>
   foldl (climb sha) n ss = foldl (climb sha) n' ss' \<Longrightarrow> n = n' \<or> collision sha"
proof (induction ss arbitrary: n n' ss')
  case (Cons s ss)
  then obtain s' rest where ss': "ss' = s' # rest" by auto
  with Cons have "climb sha n s = climb sha n' s' \<or> collision sha" by (simp add: wf_climb)
  with Cons.prems ss' climb_inj [of n n' s s' sha] show ?case by auto
qed simp

lemma bag_snoc: "ps \<noteq> [] \<Longrightarrow> bag sha (ps @ [q]) = hash_tagged sha 2 [as_bytes (bag sha ps), as_bytes q]"
  by (cases ps) auto

lemma wf_bag: "sha_ok sha \<Longrightarrow> list_all wf_hash ps \<Longrightarrow> wf_hash (bag sha ps)"
proof (cases ps rule: rev_cases)
  case (snoc qs q)
  moreover assume "sha_ok sha" "list_all wf_hash ps"
  ultimately show ?thesis by (cases "qs = []") (auto simp: bag_snoc wf_hash_tagged)
qed (simp add: wf_hash_tagged)

lemma bag_inj:
  "sha_ok sha \<Longrightarrow> length ps = length qs \<Longrightarrow> list_all wf_hash ps \<Longrightarrow> list_all wf_hash qs \<Longrightarrow>
   bag sha ps = bag sha qs \<Longrightarrow> ps = qs \<or> collision sha"
proof (induction ps arbitrary: qs rule: rev_induct)
  case (snoc p ps)
  then obtain q qs' where qs: "qs = qs' @ [q]" by (cases qs rule: rev_cases) auto
  show ?case
  proof (cases "ps = []")
    case True
    with snoc.prems qs show ?thesis by auto
  next
    case False
    with snoc.prems qs have "qs' \<noteq> []" by auto
    with False snoc.prems qs
    have "hash_tagged sha 2 [as_bytes (bag sha ps), as_bytes p] =
          hash_tagged sha 2 [as_bytes (bag sha qs'), as_bytes q]" by (simp add: bag_snoc)
    then have "(bag sha ps = bag sha qs' \<and> p = q) \<or> collision sha"
      using snoc.prems qs by (intro hash_tagged_inj) (auto simp: wf_bag)
    with snoc.IH [of qs'] snoc.prems qs show ?thesis by auto
  qed
qed simp

lemma common_prefix_prefix: "prefix xs ys \<Longrightarrow> common_prefix xs ys = length xs"
  by (induction xs ys rule: common_prefix.induct) auto

lemma common_prefix_prefix': "prefix ys xs \<Longrightarrow> common_prefix xs ys = length ys"
  by (induction xs ys rule: common_prefix.induct) auto

section \<open>A sample hash function and proof\<close>

definition sample_sha :: sha where
  "sample_sha bytes = replicate 31 0 @ [sum_list bytes mod 256]"

definition sample_proof :: "nat \<Rightarrow> InclusionProof" where
  "sample_proof i = \<lparr>proof_size = 2, leaf_index = i, leaf_hash = replicate 64 48, peak_index = 0,
     siblings = [\<lparr>sibling_hash = replicate 64 49, is_left = False\<rparr>],
     peaks = [replicate 64 50]\<rparr>"

lemma sample_sha_ok: "sha_ok sample_sha"
  by (simp add: sha_ok_def sample_sha_def list_all_iff)

lemma wf_sample_proof: "wf_proof (sample_proof i)"
  by (simp add: wf_proof_def sample_proof_def wf_hash_def list_all_iff)

lemma verify_sample_proof:
  "i < 2 \<Longrightarrow>
   verify_inclusion sample_sha (sample_proof i) (hash_node sample_sha (replicate 64 48) (replicate 64 49))"
  by (simp add: verify_inclusion_def sample_proof_def)

section \<open>Properties\<close>

text \<open>Every leaf of the log has an inclusion proof, and the verifier accepts it against the
  log's root, for logs of every size.\<close>

theorem inclusion_proof_complete:
  assumes "i < log_len l"
  shows "\<exists>p. inclusion_proof sha l i = Some p \<and> leaf_index p = i \<and>
    leaf_hash p = leaves l ! i \<and> verify_inclusion sha p (root sha l)"
  using assms by (rule inclusion_proof_verifies)

theorem inclusion_proof_complete_witness:
  "1 < log_len \<lparr>leaves = [[1], [2], [3]]\<rparr> \<and>
   (\<exists>p. inclusion_proof sample_sha \<lparr>leaves = [[1], [2], [3]]\<rparr> 1 = Some p \<and> leaf_index p = 1 \<and>
      leaf_hash p = [2] \<and> verify_inclusion sample_sha p (root sample_sha \<lparr>leaves = [[1], [2], [3]]\<rparr>))"
  using inclusion_proof_complete [of 1 "\<lparr>leaves = [[1], [2], [3]]\<rparr>" sample_sha] by (simp add: log_len_def)

text \<open>C5: For every earlier size, the log issues a consistency proof that takes the root at that
  size to the current root, and the verifier accepts it.\<close>

theorem consistency_proof_complete:
  assumes "n \<le> log_len l"
  shows "\<exists>p. consistency_proof sha l n = Some p \<and>
    verify_consistency sha p (root sha \<lparr>leaves = take n (leaves l)\<rparr>) (root sha l)"
  using assms by (rule consistency_proof_verifies)

theorem consistency_proof_complete_witness:
  "2 \<le> log_len \<lparr>leaves = [[1], [2], [3]]\<rparr> \<and>
   (\<exists>p. consistency_proof sample_sha \<lparr>leaves = [[1], [2], [3]]\<rparr> 2 = Some p \<and>
      verify_consistency sample_sha p (root sample_sha \<lparr>leaves = [[1], [2]]\<rparr>)
        (root sample_sha \<lparr>leaves = [[1], [2], [3]]\<rparr>))"
  using consistency_proof_complete [of 2 "\<lparr>leaves = [[1], [2], [3]]\<rparr>" sample_sha] by (simp add: log_len_def)

text \<open>Two accepted inclusion proofs of the same shape against the same root prove the same
  leaf, unless SHA-256 collides.\<close>

theorem inclusion_binds_leaf:
  assumes "sha_ok sha" and "wf_proof p" and "wf_proof q"
    and "verify_inclusion sha p r" and "verify_inclusion sha q r"
    and "peak_index p = peak_index q" and "length (peaks p) = length (peaks q)"
    and "map is_left (siblings p) = map is_left (siblings q)"
  shows "leaf_hash p = leaf_hash q \<or> collision sha"
proof -
  let ?n = "\<lambda>p. foldl (climb sha) (leaf_hash p) (siblings p)"
  let ?pk = "\<lambda>p. (peaks p)[peak_index p := ?n p]"
  have wf: "wf_hash (?n p)" "wf_hash (?n q)" using assms by (auto simp: wf_proof_def intro!: wf_climbs)
  have lt: "peak_index p < length (peaks p)" and eq: "bag sha (?pk p) = bag sha (?pk q)"
    using assms by (auto simp: verify_inclusion_def Let_def split: if_splits)
  have "list_all wf_hash (?pk p)" "list_all wf_hash (?pk q)"
    using assms wf by (auto simp: wf_proof_def list_all_iff dest!: set_update_subset_insert [THEN subsetD])
  with bag_inj [OF assms(1) _ _ _ eq] assms(7) have "?pk p = ?pk q \<or> collision sha" by simp
  then have "?n p = ?n q \<or> collision sha" using lt assms(6,7) by (metis nth_list_update_eq)
  with climbs_inj [OF assms(1,8)] assms(2,3) show ?thesis by (auto simp: wf_proof_def)
qed

theorem inclusion_binds_leaf_witness:
  "wf_proof (sample_proof 0) \<and>
   verify_inclusion sample_sha (sample_proof 0) (hash_node sample_sha (replicate 64 48) (replicate 64 49)) \<and>
   verify_inclusion sample_sha (sample_proof 1) (hash_node sample_sha (replicate 64 48) (replicate 64 49)) \<and>
   (leaf_hash (sample_proof 0) = leaf_hash (sample_proof 1) \<or> collision sample_sha)"
  using inclusion_binds_leaf [of sample_sha "sample_proof 0" "sample_proof 1"
      "hash_node sample_sha (replicate 64 48) (replicate 64 49)", OF sample_sha_ok wf_sample_proof wf_sample_proof]
    wf_sample_proof [of 0]
  by (simp add: verify_sample_proof) (simp add: sample_proof_def)

text \<open>The verifier does not bind the position: an accepted proof stays accepted when its leaf
  index is replaced by any other index of the log, and the hash of a whole mountain is accepted as
  a leaf by a proof with no siblings.\<close>

theorem inclusion_does_not_bind_position:
  assumes "verify_inclusion sha p r"
  shows "(j < proof_size p \<longrightarrow> verify_inclusion sha (p\<lparr>leaf_index := j\<rparr>) r) \<and>
    verify_inclusion sha
      (p\<lparr>leaf_hash := foldl (climb sha) (leaf_hash p) (siblings p), siblings := []\<rparr>) r"
  using assms by (auto simp: verify_inclusion_def Let_def split: if_splits)

theorem inclusion_does_not_bind_position_witness:
  "verify_inclusion sample_sha (sample_proof 0) (hash_node sample_sha (replicate 64 48) (replicate 64 49)) \<and>
   verify_inclusion sample_sha ((sample_proof 0)\<lparr>leaf_index := 1\<rparr>)
     (hash_node sample_sha (replicate 64 48) (replicate 64 49))"
  using inclusion_does_not_bind_position [OF verify_sample_proof [of 0], of 1] verify_sample_proof [of 0]
  by (simp add: sample_proof_def)

text \<open>Merging a concurrent log never rewrites: the result extends the receiving log, equals the
  longer log when one extends the other, and its consistency proof from the old size is accepted
  for the old root.\<close>

theorem merge_concurrent_append_only:
  "prefix (leaves l) (leaves (merge_concurrent l k)) \<and>
   (prefix (leaves l) (leaves k) \<longrightarrow> leaves (merge_concurrent l k) = leaves k) \<and>
   (prefix (leaves k) (leaves l) \<longrightarrow> leaves (merge_concurrent l k) = leaves l) \<and>
   (\<exists>p. consistency_proof sha (merge_concurrent l k) (log_len l) = Some p \<and>
      verify_consistency sha p (root sha l) (root sha (merge_concurrent l k)))"
proof -
  let ?m = "merge_concurrent l k"
  have ext: "prefix (leaves l) (leaves ?m)" by (simp add: merge_concurrent_def)
  moreover have "leaves ?m = leaves k" if "prefix (leaves l) (leaves k)"
    using that common_prefix_prefix [OF that] by (auto simp: merge_concurrent_def prefix_def)
  moreover have "leaves ?m = leaves l" if "prefix (leaves k) (leaves l)"
    using common_prefix_prefix' [OF that] by (simp add: merge_concurrent_def)
  moreover have "\<exists>p. consistency_proof sha ?m (log_len l) = Some p \<and>
      verify_consistency sha p (root sha l) (root sha ?m)"
  proof -
    have le: "log_len l \<le> log_len ?m" using prefix_length_le [OF ext] by (simp add: log_len_def)
    have "take (log_len l) (leaves ?m) = leaves l" by (simp add: merge_concurrent_def log_len_def)
    then have old: "\<lparr>leaves = take (log_len l) (leaves ?m)\<rparr> = l" by (cases l) simp
    show ?thesis using consistency_proof_verifies [OF le, of sha, unfolded old] .
  qed
  ultimately show ?thesis by blast
qed

theorem merge_concurrent_append_only_witness:
  "prefix (leaves \<lparr>leaves = [[1]]\<rparr>) (leaves \<lparr>leaves = [[1], [2 :: nat]]\<rparr>) \<and>
   leaves (merge_concurrent \<lparr>leaves = [[1]]\<rparr> \<lparr>leaves = [[1], [2]]\<rparr>) = [[1], [2]]"
  using merge_concurrent_append_only [of "\<lparr>leaves = [[1]]\<rparr>" "\<lparr>leaves = [[1], [2]]\<rparr>" sample_sha] by simp

end
