(* ===== verification/SessionAliases.thy ===== *)
theory SessionAliases
  imports Transparency
begin

text \<open>
  Session-scoped short references (\<open>tokenzero-recovery/src/session_aliases.rs\<close>): the keyed
  alias of a full-hash blob reference, generation-qualified ordinals, and the rewriting of
  references inside text. Offsets in the source are bytes at character boundaries; here the scan
  is over the remaining characters, and \<open>None\<close> is the panic of a slice inside a character.
  SHA-256 is the parameter \<open>sha\<close>.
\<close>

unbundle bit_operations_syntax

definition ALIAS_KEY_BYTES :: nat where "ALIAS_KEY_BYTES = 32"
definition SESSION_ALIAS_HEX_LEN :: nat where "SESSION_ALIAS_HEX_LEN = 16"
definition SESSION_ALIAS_PREFIX :: rstr where "SESSION_ALIAS_PREFIX = lit ''tz://s/''"
definition SESSION_ORDINAL_PREFIX :: rstr where "SESSION_ORDINAL_PREFIX = lit ''tz://o/''"

definition hmac_pad :: "nat \<Rightarrow> byte list \<Rightarrow> byte list" where
  "hmac_pad p key =
     map (\<lambda>i. if i < ALIAS_KEY_BYTES then p XOR key ! i else p) [0..<64]"

definition hmac_sha256 :: "sha \<Rightarrow> byte list \<Rightarrow> byte list \<Rightarrow> byte list" where
  "hmac_sha256 sha key msg = sha (hmac_pad 0x5c key @ sha (hmac_pad 0x36 key @ msg))"

definition session_alias_hex_keyed :: "sha \<Rightarrow> byte list \<Rightarrow> rstr \<Rightarrow> rstr" where
  "session_alias_hex_keyed sha key hash =
     hex (take (SESSION_ALIAS_HEX_LEN div 2) (hmac_sha256 sha key (as_bytes hash)))"

definition session_ordinal_ref :: "nat \<Rightarrow> nat \<Rightarrow> rstr" where
  "session_ordinal_ref generation ordinal =
     SESSION_ORDINAL_PREFIX @ show_nat generation @ lit ''/'' @ show_nat ordinal"

definition parse_session_ordinal_bare :: "rstr \<Rightarrow> (nat \<times> nat) option" where
  "parse_session_ordinal_bare bare =
     (case strip_prefix SESSION_ORDINAL_PREFIX bare of
        None \<Rightarrow> None
      | Some rest \<Rightarrow>
          (case split_once 47 rest of
             None \<Rightarrow> None
           | Some (g, n) \<Rightarrow>
               (case (parse_usize g, parse_usize n) of
                  (Some generation, Some ordinal) \<Rightarrow>
                    if generation > 0 \<and> ordinal > 0 then Some (generation, ordinal) else None
                | _ \<Rightarrow> None)))"

definition is_session_ordinal_bare :: "rstr \<Rightarrow> bool" where
  "is_session_ordinal_bare bare \<longleftrightarrow> parse_session_ordinal_bare bare \<noteq> None"

definition split_ref_fragment :: "rstr \<Rightarrow> rstr \<times> rstr option" where
  "split_ref_fragment ref_id =
     (case split_once 35 ref_id of None \<Rightarrow> (ref_id, None) | Some (bare, frag) \<Rightarrow> (bare, Some frag))"

definition is_lower_hex :: "rstr \<Rightarrow> bool" where
  "is_lower_hex s \<longleftrightarrow> s \<noteq> [] \<and> list_all (\<lambda>b. is_ascii_digit b \<or> (97 \<le> b \<and> b \<le> 102)) s"

definition blob_prefixes :: "rstr list" where
  "blob_prefixes = map lit [''tz://blob/'', ''fz://blob/'', ''gz://blob/'']"

fun full_hash_loop :: "rstr \<Rightarrow> rstr list \<Rightarrow> rstr option" where
  "full_hash_loop bare [] = None"
| "full_hash_loop bare (p # ps) =
     (case strip_prefix p bare of
        Some hash \<Rightarrow> if blen hash = 64 \<and> is_lower_hex hash then Some hash else full_hash_loop bare ps
      | None \<Rightarrow> full_hash_loop bare ps)"

definition full_hash_blob_parts :: "rstr \<Rightarrow> rstr option" where
  "full_hash_blob_parts bare = full_hash_loop bare blob_prefixes"

definition is_full_hash_blob_bare :: "rstr \<Rightarrow> bool" where
  "is_full_hash_blob_bare bare \<longleftrightarrow> full_hash_blob_parts bare \<noteq> None"

definition canonical_full_blob_ref :: "rstr \<Rightarrow> rstr option" where
  "canonical_full_blob_ref bare = map_option (\<lambda>h. lit ''tz://blob/'' @ h) (full_hash_blob_parts bare)"

definition with_fragment :: "rstr \<Rightarrow> rstr option \<Rightarrow> rstr" where
  "with_fragment short frag = (case frag of Some f \<Rightarrow> short @ lit ''#'' @ f | None \<Rightarrow> short)"

definition session_visible_blob_alias_keyed :: "sha \<Rightarrow> byte list \<Rightarrow> rstr \<Rightarrow> rstr option" where
  "session_visible_blob_alias_keyed sha key ref_id =
     (let (bare, frag) = split_ref_fragment ref_id in
      map_option (\<lambda>hash. with_fragment (SESSION_ALIAS_PREFIX @ session_alias_hex_keyed sha key hash) frag)
        (full_hash_blob_parts bare))"

definition session_visible_blob_alias :: "rstr \<Rightarrow> rstr option" where
  "session_visible_blob_alias ref_id =
     (let (bare, frag) = split_ref_fragment ref_id in
      map_option (\<lambda>hash. with_fragment (SESSION_ALIAS_PREFIX @ take SESSION_ALIAS_HEX_LEN hash) frag)
        (full_hash_blob_parts bare))"

definition is_session_alias_bare :: "rstr \<Rightarrow> bool" where
  "is_session_alias_bare bare =
     (case strip_prefix SESSION_ALIAS_PREFIX bare of
        Some i \<Rightarrow> i \<noteq> [] \<and> blen i \<le> 64 \<and> is_lower_hex i
      | None \<Rightarrow> False)"

section \<open>Rewriting references in text\<close>

definition fragment_len :: "rstr \<Rightarrow> nat option" where
  "fragment_len s =
     (case s of
        [] \<Rightarrow> None
      | kind # r \<Rightarrow>
          if kind \<noteq> 66 \<and> kind \<noteq> 76 then None
          else let d = length (takeWhile is_ascii_digit r); t = drop d r in
            if d = 0 then None
            else case t of
              [] \<Rightarrow> Some (1 + d)
            | c # t' \<Rightarrow>
                if c \<noteq> 45 then Some (1 + d)
                else let l = (if kind = 76 \<and> t' \<noteq> [] \<and> hd t' = 76 then 1 else 0);
                         e = length (takeWhile is_ascii_digit (drop l t'))
                     in if e = 0 then None else Some (1 + d + 1 + l + e))"

text \<open>
  \<open>match_full_hash_blob_at\<close> on the characters from the offset on: the outer option is the panic
  of \<open>&after[..64]\<close>, the inner one the verdict; the count of consumed characters is the count of
  bytes, since all of them are ASCII.
\<close>

definition match_after_prefix :: "rstr \<Rightarrow> rstr \<Rightarrow> (nat \<times> rstr) option option" where
  "match_after_prefix pre after =
     (if blen after < 64 then Some None
      else case split_bytes 64 after of
        None \<Rightarrow> None
      | Some (hash, tail) \<Rightarrow>
          if \<not> is_lower_hex hash then Some None
          else
            let frag = (case strip_prefix (lit ''#'') tail of
                          None \<Rightarrow> None
                        | Some stripped \<Rightarrow> map_option (\<lambda>n. take (n + 1) tail) (fragment_len stripped));
                short = SESSION_ALIAS_PREFIX @ take SESSION_ALIAS_HEX_LEN hash
            in case frag of
                 Some f \<Rightarrow> Some (Some (length pre + 64 + length f, short @ f))
               | None \<Rightarrow> Some (Some (length pre + 64, short)))"

fun match_full_hash_loop :: "rstr \<Rightarrow> rstr list \<Rightarrow> (nat \<times> rstr) option option" where
  "match_full_hash_loop rest [] = Some None"
| "match_full_hash_loop rest (p # ps) =
     (if \<not> starts_with rest p then match_full_hash_loop rest ps
      else match_after_prefix p (drop (length p) rest))"

definition match_full_hash_blob_at :: "rstr \<Rightarrow> (nat \<times> rstr) option option" where
  "match_full_hash_blob_at rest = match_full_hash_loop rest blob_prefixes"

text \<open>Each step consumes at least one character; \<open>max 1\<close> only makes this visible to the kernel.\<close>

function rewrite_loop :: "rstr \<Rightarrow> rstr \<Rightarrow> rstr option" where
  "rewrite_loop out [] = Some out"
| "rewrite_loop out (c # s) =
     (case match_full_hash_blob_at (c # s) of
        None \<Rightarrow> None
      | Some (Some (consumed, replacement)) \<Rightarrow> rewrite_loop (out @ replacement) (drop (max 1 consumed) (c # s))
      | Some None \<Rightarrow> rewrite_loop (out @ [c]) s)"
  by pat_completeness auto
termination by (relation "measure (\<lambda>(out, s). length s)") auto

definition rewrite_full_hash_blob_refs_in_text :: "rstr \<Rightarrow> rstr option" where
  "rewrite_full_hash_blob_refs_in_text s = rewrite_loop [] s"

definition take_full_hash_blob_at :: "rstr \<Rightarrow> (nat \<times> rstr) option option" where
  "take_full_hash_blob_at rest =
     map_option (map_option (\<lambda>(consumed, _). (consumed, take consumed rest))) (match_full_hash_blob_at rest)"

section \<open>Lemmas\<close>

lemma match_consumed_pos: "match_full_hash_blob_at s = Some (Some (n, r)) \<Longrightarrow> 64 \<le> n"
proof -
  have "match_after_prefix p a = Some (Some (n, r)) \<Longrightarrow> 64 \<le> n" for p a
    by (auto simp: match_after_prefix_def Let_def split: if_splits option.splits prod.splits)
  then have "match_full_hash_loop s ps = Some (Some (n, r)) \<Longrightarrow> 64 \<le> n" for ps
    by (induction ps) (auto split: if_splits)
  then show "match_full_hash_blob_at s = Some (Some (n, r)) \<Longrightarrow> 64 \<le> n"
    by (auto simp: match_full_hash_blob_at_def)
qed

lemma split_bytes_ascii: "list_all (\<lambda>c. c < 128) s \<Longrightarrow> n \<le> length s \<Longrightarrow> split_bytes n s \<noteq> None"
proof -
  assume s: "list_all (\<lambda>c. c < 128) s" "n \<le> length s"
  have b: "list_all (\<lambda>c. c < 128) t \<Longrightarrow> blen t = length t" for t by (induction t) auto
  have "list_all (\<lambda>c. c < 128) (take n s)" using s(1) by (auto simp: list_all_iff dest: in_set_takeD)
  then have "blen (take n s) = n" using s(2) b by simp
  then have "split_bytes n s = Some (take n s, drop n s)" by (simp add: split_bytes_iff)
  then show ?thesis by simp
qed

lemma match_ascii: "list_all (\<lambda>c. c < 128) s \<Longrightarrow> match_full_hash_blob_at s \<noteq> None"
proof -
  assume s: "list_all (\<lambda>c. c < 128) s"
  have "match_after_prefix p (drop k s) \<noteq> None" for p k
  proof -
    have d: "list_all (\<lambda>c. c < 128) (drop k s)" using s by (auto simp: list_all_iff dest: in_set_dropD)
    have "blen t = length t" if "list_all (\<lambda>c. c < 128) t" for t using that by (induction t) auto
    then have "split_bytes 64 (drop k s) \<noteq> None" if "\<not> blen (drop k s) < 64"
      using that d by (intro split_bytes_ascii) auto
    then show ?thesis by (cases "blen (drop k s) < 64") (auto simp: match_after_prefix_def Let_def split: option.splits)
  qed
  then have "match_full_hash_loop s ps \<noteq> None" for ps by (induction ps) auto
  then show ?thesis by (simp add: match_full_hash_blob_at_def)
qed

lemma rewrite_loop_ascii: "list_all (\<lambda>c. c < 128) s \<Longrightarrow> rewrite_loop out s \<noteq> None"
proof (induction out s rule: rewrite_loop.induct)
  case (2 out c s)
  obtain v where v: "match_full_hash_blob_at (c # s) = Some v" using match_ascii [OF "2.prems"] by blast
  have d: "list_all (\<lambda>c. c < 128) (drop k (c # s))" for k
    using "2.prems" by (auto simp only: list_all_iff dest: in_set_dropD)
  show ?case
  proof (cases v)
    case None
    then show ?thesis using v "2.IH" "2.prems" by auto
  next
    case (Some nr)
    then show ?thesis using v "2.IH" d by (cases nr) auto
  qed
qed simp

lemma rewrite_loop_no_scheme:
  "\<not> str_contains s (lit ''://blob/'') \<Longrightarrow> rewrite_loop out s = Some (out @ s)"
proof (induction s arbitrary: out)
  case (Cons c s)
  have pre: "p \<in> set blob_prefixes \<Longrightarrow> \<exists>x. p = x # lit ''z://blob/''" for p
    by (auto simp: blob_prefixes_def lit_def)
  have "\<not> starts_with (c # s) p" if p: "p \<in> set blob_prefixes" for p
  proof
    assume "starts_with (c # s) p"
    then obtain t where "c # s = p @ t" by (auto simp: starts_with_iff)
    moreover obtain x where "p = x # lit ''z://blob/''" using pre [OF p] by blast
    ultimately have "c # s = [x, 122] @ lit ''://blob/'' @ t" by (simp add: lit_def)
    then show False using Cons.prems str_contains_append3 by metis
  qed
  then have "match_full_hash_blob_at (c # s) = Some None"
    by (simp add: match_full_hash_blob_at_def blob_prefixes_def)
  moreover have "\<not> str_contains s (lit ''://blob/'')" using Cons.prems by simp
  ultimately show ?case using Cons.IH by simp
qed simp

lemma ordinal_parse:
  assumes "0 < g" and "g \<le> u64_max" and "0 < n" and "n \<le> u64_max"
  shows "parse_session_ordinal_bare (session_ordinal_ref g n) = Some (g, n)"
proof -
  have "47 \<notin> set (show_nat g)" using show_nat_digits [of 47 g] by (auto simp: is_ascii_digit_def)
  moreover have "lit ''/'' = [47]" by (simp add: lit_def)
  ultimately show ?thesis using assms by (simp add: parse_session_ordinal_bare_def session_ordinal_ref_def)
qed

section \<open>Properties\<close>

text \<open>Ordinal references round-trip: formatting a positive generation and ordinal of 64 bits and
  parsing the result gives them back, so distinct ordinals never share a reference.\<close>

theorem session_ordinal_roundtrip:
  assumes "0 < g" and "g \<le> u64_max" and "0 < n" and "n \<le> u64_max"
  shows "parse_session_ordinal_bare (session_ordinal_ref g n) = Some (g, n)"
  using assms by (rule ordinal_parse)

theorem session_ordinal_roundtrip_witness:
  "parse_session_ordinal_bare (session_ordinal_ref 1 7) = Some (1, 7)"
  using session_ordinal_roundtrip [of 1 7] by (simp add: u64_max_def)

text \<open>Rewriting never panics on ASCII text, and text with no blob reference in it is returned
  unchanged.\<close>

theorem rewrite_refs_safe:
  "(list_all (\<lambda>c. c < 128) s \<longrightarrow> rewrite_full_hash_blob_refs_in_text s \<noteq> None) \<and>
   (\<not> str_contains s (lit ''://blob/'') \<longrightarrow> rewrite_full_hash_blob_refs_in_text s = Some s)"
  by (simp add: rewrite_full_hash_blob_refs_in_text_def rewrite_loop_ascii rewrite_loop_no_scheme
      del: rewrite_loop.simps)

theorem rewrite_refs_safe_witness:
  "rewrite_full_hash_blob_refs_in_text (lit ''see tz://s/ab'') = Some (lit ''see tz://s/ab'')"
proof -
  have "\<not> str_contains (lit ''see tz://s/ab'') (lit ''://blob/'')" by code_simp
  then show ?thesis using rewrite_refs_safe [of "lit ''see tz://s/ab''"] by blast
qed

text \<open>A blob prefix followed by 63 one-byte characters and a multi-byte character makes the
  rewriting panic, wherever it stands after text without references.\<close>

theorem rewrite_refs_panics:
  assumes "\<not> 116 \<in> set u \<and> \<not> 102 \<in> set u \<and> \<not> 103 \<in> set u"
    and "blen h = 63" and "1 < len_utf8 c"
  shows "rewrite_full_hash_blob_refs_in_text (u @ lit ''tz://blob/'' @ h @ c # rest) = None"
proof -
  let ?t = "lit ''tz://blob/'' @ h @ c # rest"
  have "split_bytes 64 (h @ c # rest) = None"
  proof (cases "split_bytes 64 (h @ c # rest)")
    case (Some uv)
    obtain a b where "uv = (a, b)" by (cases uv)
    with Some have "h @ c # rest = a @ b" "blen a = 64" by (auto simp: split_bytes_iff)
    then show ?thesis using assms(2,3) by (auto simp: append_eq_append_conv2 Cons_eq_append_conv)
  qed
  then have "match_full_hash_blob_at ?t = None"
    using assms(2,3) by (simp add: match_full_hash_blob_at_def blob_prefixes_def match_after_prefix_def)
  moreover have "\<exists>x xs. ?t = x # xs" by (simp add: lit_def)
  ultimately have base: "rewrite_loop out ?t = None" for out by auto
  have "rewrite_loop out (u @ ?t) = None" for out using assms(1)
  proof (induction u arbitrary: out)
    case (Cons x u)
    have "match_full_hash_blob_at ((x # u) @ ?t) = Some None"
      using Cons.prems by (auto simp: match_full_hash_blob_at_def blob_prefixes_def starts_with_def lit_def)
    then show ?case using Cons by simp
  qed (simp only: append_Nil base)
  then show ?thesis by (simp only: rewrite_full_hash_blob_refs_in_text_def)
qed

theorem rewrite_refs_panics_witness:
  "rewrite_full_hash_blob_refs_in_text (lit ''tz://blob/'' @ replicate 63 97 @ [233]) = None"
proof -
  have "blen (replicate 63 97) = 63" by code_simp
  then show ?thesis using rewrite_refs_panics [of "[]" "replicate 63 97" 233 "[]"] by (simp add: len_utf8_def)
qed

end
