(* ===== verification/RefGrammar.thy ===== *)
theory RefGrammar
  imports Capsule SessionAliases
begin

text \<open>
  The reference grammar and the selection of content in \<open>tokenzero-recovery/src/lib.rs\<close>: blob
  schemes, fragments, portable references, logical references, line windows and selectors. The
  crate \<open>zero-ref\<close> is outside the repository: its hash check and its strict parser are the
  fields of the record \<open>zero_ref\<close>. The lemmas show that fragments round-trip, that the two
  fragment parsers agree where they overlap, and that line and byte selections are exact.
\<close>

section \<open>Blob references\<close>

definition EXPAND_REF_SCHEMES :: "rstr list" where
  "EXPAND_REF_SCHEMES = map lit [''tz://'', ''fz://'', ''gz://'']"

definition BLOB_REF_PREFIXES :: "(rstr \<times> rstr) list" where
  "BLOB_REF_PREFIXES =
     [(lit ''tz'', lit ''tz://blob/''), (lit ''fz'', lit ''fz://blob/''), (lit ''gz'', lit ''gz://blob/'')]"

fun scheme_hash_loop :: "rstr \<Rightarrow> (rstr \<times> rstr) list \<Rightarrow> (rstr \<times> rstr) option" where
  "scheme_hash_loop bare [] = None"
| "scheme_hash_loop bare ((scheme, p) # ps) =
     (case strip_prefix p bare of Some hash \<Rightarrow> Some (scheme, hash) | None \<Rightarrow> scheme_hash_loop bare ps)"

definition blob_ref_scheme_hash :: "rstr \<Rightarrow> (rstr \<times> rstr) option" where
  "blob_ref_scheme_hash bare = scheme_hash_loop bare BLOB_REF_PREFIXES"

definition blob_ref_hash :: "rstr \<Rightarrow> rstr option" where
  "blob_ref_hash bare = map_option snd (blob_ref_scheme_hash bare)"

definition is_foreign_blob_ref :: "rstr \<Rightarrow> bool" where
  "is_foreign_blob_ref r \<longleftrightarrow> starts_with r (lit ''fz://blob/'') \<or> starts_with r (lit ''gz://blob/'')"

definition is_foreign_non_blob_ref :: "rstr \<Rightarrow> bool" where
  "is_foreign_non_blob_ref r \<longleftrightarrow>
     (starts_with r (lit ''fz://'') \<or> starts_with r (lit ''gz://'')) \<and> blob_ref_hash r = None"

definition is_expandable_ref :: "rstr \<Rightarrow> bool" where
  "is_expandable_ref r \<longleftrightarrow> list_ex (starts_with r) EXPAND_REF_SCHEMES"

definition canonicalize_expand_ref :: "rstr \<Rightarrow> rstr option" where
  "canonicalize_expand_ref r =
     (if starts_with r (lit ''tz://'') then Some r
      else map_option (\<lambda>h. lit ''tz://blob/'' @ h) (blob_ref_hash r))"

definition bare_of :: "rstr \<Rightarrow> rstr" where
  "bare_of r = fst (split_ref_fragment r)"

definition is_legacy_same_store_blob_ref :: "rstr \<Rightarrow> bool" where
  "is_legacy_same_store_blob_ref r =
     (case blob_ref_hash (bare_of r) of
        None \<Rightarrow> False
      | Some hash \<Rightarrow>
          blen hash = 17 \<and> starts_with hash (lit ''b'') \<and>
          list_all (\<lambda>b. is_ascii_digit b \<or> (97 \<le> b \<and> b \<le> 102)) (tl hash))"

section \<open>Fragments\<close>

datatype ZeroRefError = ZMalformed | ZUnsupported | ZMissing | ZIo | ZCorruption | ZPolicy
  | ZIncompatibleVersion | ZLegacyAmbiguity

fun zero_ref_error_label :: "ZeroRefError \<Rightarrow> rstr" where
  "zero_ref_error_label ZMalformed = lit ''malformed''"
| "zero_ref_error_label ZUnsupported = lit ''unsupported''"
| "zero_ref_error_label ZMissing = lit ''missing''"
| "zero_ref_error_label ZIo = lit ''io''"
| "zero_ref_error_label ZCorruption = lit ''corruption''"
| "zero_ref_error_label ZPolicy = lit ''policy''"
| "zero_ref_error_label ZIncompatibleVersion = lit ''incompatible_version''"
| "zero_ref_error_label ZLegacyAmbiguity = lit ''legacy_ambiguity''"

datatype FragmentError = FMalformed | FReversed | FOutOfRange | FNonUtf8Line | FUnknownKind | FDuplicateFragment

fun fragment_error_reason :: "FragmentError \<Rightarrow> rstr" where
  "fragment_error_reason FMalformed = lit ''fragment-malformed''"
| "fragment_error_reason FReversed = lit ''fragment-reversed''"
| "fragment_error_reason FOutOfRange = lit ''fragment-out-of-range''"
| "fragment_error_reason FNonUtf8Line = lit ''non_utf8_line_fragment''"
| "fragment_error_reason FUnknownKind = lit ''fragment-unknown-kind''"
| "fragment_error_reason FDuplicateFragment = lit ''fragment-duplicate''"

text \<open>\<open>FragmentSpec\<close> and \<open>ZeroRefFragment\<close> have the same two constructors.\<close>

datatype FragmentSpec = Byte nat nat | Line nat nat

definition parse_fragment_bounds_core :: "rstr \<Rightarrow> uchar \<Rightarrow> bool \<Rightarrow> bool \<Rightarrow> bool + (nat \<times> nat)" where
  "parse_fragment_bounds_core v repeated_kind allow_single require_nonzero_start =
     (if starts_with v [repeated_kind] then Err False
      else
        let separated = (case split_once 44 v of Some p \<Rightarrow> Some p | None \<Rightarrow> split_once 45 v)
        in case (case separated of Some p \<Rightarrow> Some p | None \<Rightarrow> if allow_single then Some (v, v) else None) of
          None \<Rightarrow> Err False
        | Some (start, stop) \<Rightarrow>
            (case (parse_usize (trim_start_matches repeated_kind start),
                   parse_usize (trim_start_matches repeated_kind stop)) of
               (Some start, Some stop) \<Rightarrow>
                 if require_nonzero_start \<and> start = 0 then Err False
                 else if start > stop then Err True
                 else if allow_single \<and> separated = None \<and> repeated_kind = 66 then
                   (case checked_add start 1 of None \<Rightarrow> Err False | Some e \<Rightarrow> Ok (start, e))
                 else Ok (start, stop)
             | _ \<Rightarrow> Err False))"

definition fragment_map_err :: "bool \<Rightarrow> FragmentError" where
  "fragment_map_err reversed = (if reversed then FReversed else FMalformed)"

definition parse_fragment_spec :: "rstr \<Rightarrow> FragmentError + FragmentSpec" where
  "parse_fragment_spec fragment =
     (case fragment of
        [] \<Rightarrow> Err FMalformed
      | kind # rest \<Rightarrow>
          if 35 \<in> set fragment then Err FDuplicateFragment
          else if \<not> kind < 128 then Err FUnknownKind
          else case (if kind = 66 then split_once 43 rest else None) of
            Some (start, len) \<Rightarrow>
              (case (parse_usize start, parse_usize len) of
                 (Some start, Some len) \<Rightarrow>
                   (case checked_add start len of None \<Rightarrow> Err FMalformed | Some e \<Rightarrow> Ok (Byte start e))
               | _ \<Rightarrow> Err FMalformed)
          | None \<Rightarrow>
              (case parse_fragment_bounds_core rest kind True (kind = 76) of
                 Inl reversed \<Rightarrow> Err (fragment_map_err reversed)
               | Inr (start, stop) \<Rightarrow>
                   if kind = 66 then Ok (Byte start stop)
                   else if kind = 76 then Ok (Line start stop)
                   else Err FUnknownKind))"

section \<open>Portable references\<close>

datatype ZeroFragment = ZBytes nat nat | ZLines nat nat | ZNone

record zero_ref =
  is_full_lower_hex :: "rstr \<Rightarrow> bool"
  zero_ref_parse :: "rstr \<Rightarrow> ZeroFragment option"

definition usize_try_from :: "nat \<Rightarrow> nat option" where
  "usize_try_from n = (if n \<le> usize_max then Some n else None)"

definition parse_portable_or_lenient_fragment ::
    "zero_ref \<Rightarrow> rstr \<Rightarrow> rstr \<Rightarrow> ZeroRefError + FragmentSpec" where
  "parse_portable_or_lenient_fragment Z ref_id fragment =
     (case zero_ref_parse Z ref_id of
        Some (ZBytes i j) \<Rightarrow>
          (case (usize_try_from i, usize_try_from j) of
             (Some i, Some j) \<Rightarrow> Ok (Byte i j) | _ \<Rightarrow> Err ZMalformed)
      | Some (ZLines i j) \<Rightarrow>
          (case (usize_try_from i, usize_try_from j) of
             (Some i, Some j) \<Rightarrow> Ok (Line i j) | _ \<Rightarrow> Err ZMalformed)
      | Some ZNone \<Rightarrow> Err ZMalformed
      | None \<Rightarrow>
          (case fragment of
             [] \<Rightarrow> Err ZMalformed
           | kind # v \<Rightarrow>
               if kind \<noteq> 66 \<and> kind \<noteq> 76 then Err ZMalformed
               else case parse_fragment_bounds_core v kind True (kind = 76) of
                 Inl _ \<Rightarrow> Err ZMalformed
               | Inr (i, j) \<Rightarrow> if kind = 66 then Ok (Byte i j) else Ok (Line i j)))"

record ZeroRefBlob =
  zr_scheme :: rstr
  zr_hash :: rstr
  zr_fragment :: "FragmentSpec option"

definition parse_zeroref_v1_blob :: "zero_ref \<Rightarrow> rstr \<Rightarrow> nat option \<Rightarrow> ZeroRefError + ZeroRefBlob" where
  "parse_zeroref_v1_blob Z ref_id byte_length =
     (let (bare, fragment) = split_ref_fragment ref_id in
      case blob_ref_scheme_hash bare of
        None \<Rightarrow> Err ZUnsupported
      | Some (scheme, hash) \<Rightarrow>
          if hash = [] \<or> 47 \<in> set hash then Err ZMalformed
          else if blen hash \<noteq> 64 then Err ZLegacyAmbiguity
          else if \<not> is_full_lower_hex Z hash then Err ZMalformed
          else case (case fragment of None \<Rightarrow> Ok None
                     | Some f \<Rightarrow> map_sum id Some (parse_portable_or_lenient_fragment Z ref_id f)) of
            Inl e \<Rightarrow> Err e
          | Inr frag \<Rightarrow>
              (case (frag, byte_length) of
                 (Some (Byte _ j), Some len) \<Rightarrow>
                   if j > len then Err ZMalformed
                   else Ok \<lparr>zr_scheme = scheme, zr_hash = hash, zr_fragment = frag\<rparr>
               | _ \<Rightarrow> Ok \<lparr>zr_scheme = scheme, zr_hash = hash, zr_fragment = frag\<rparr>))"

definition parse_expand_portable :: "zero_ref \<Rightarrow> rstr \<Rightarrow> rstr + ZeroRefBlob option" where
  "parse_expand_portable Z ref_id =
     (case parse_zeroref_v1_blob Z ref_id None of
        Inr parsed \<Rightarrow> Ok (Some parsed)
      | Inl ZUnsupported \<Rightarrow> Ok None
      | Inl e \<Rightarrow>
          if e = ZLegacyAmbiguity \<and> is_legacy_same_store_blob_ref ref_id then Ok None
          else Err (lit ''zeroref-'' @ zero_ref_error_label e))"

section \<open>Logical references\<close>

record ParsedRef =
  ref_kind :: rstr
  ref_bare :: rstr
  ref_fragment :: "rstr option"

definition is_codemode_id :: "rstr \<Rightarrow> bool" where
  "is_codemode_id i =
     (case split_on (\<lambda>c. c = 47) i of
        [a, _, c] \<Rightarrow> a = lit ''execution'' \<and>
          c \<in> set (map lit [''code'', ''steps'', ''telemetry'', ''result'', ''error''])
      | _ \<Rightarrow> False)"

definition parse_ref :: "rstr \<Rightarrow> ParsedRef option" where
  "parse_ref ref_id =
     (let (bare, fragment) = split_ref_fragment ref_id in
      case strip_prefix (lit ''tz://'') bare of
        None \<Rightarrow> None
      | Some rest \<Rightarrow>
          (case split_once 47 rest of
             None \<Rightarrow> None
           | Some (kind, i) \<Rightarrow>
               if i = [] \<or> kind \<notin> set (map lit [''blob'', ''file'', ''unit'', ''search'', ''codemode'', ''s''])
               then None
               else if kind = lit ''codemode'' \<and> \<not> is_codemode_id i then None
               else if kind = lit ''s'' \<and> \<not> list_all is_ascii_hexdigit i then None
               else Some \<lparr>ref_kind = kind, ref_bare = bare, ref_fragment = fragment\<rparr>))"

datatype ContentClass = SourceFile | DiffClass | ShellOutputClass | SearchHits | Doc | BinaryPreview | UnknownClass

definition classify_ref :: "rstr \<Rightarrow> ContentType option \<Rightarrow> ContentClass" where
  "classify_ref ref_id ct =
     (case parse_ref ref_id of
        None \<Rightarrow> UnknownClass
      | Some p \<Rightarrow>
          if ref_kind p = lit ''file'' then SourceFile
          else if ref_kind p = lit ''search'' then SearchHits
          else if ref_kind p = lit ''unit'' then
            (case ct of Some Diff \<Rightarrow> DiffClass | Some ShellOutput \<Rightarrow> ShellOutputClass | _ \<Rightarrow> UnknownClass)
          else if ref_kind p = lit ''blob'' then
            (case ct of
               Some Code \<Rightarrow> SourceFile | Some Diff \<Rightarrow> DiffClass | Some ShellOutput \<Rightarrow> ShellOutputClass
             | Some Markdown \<Rightarrow> Doc | Some Logs \<Rightarrow> Doc | Some Tree \<Rightarrow> Doc | Some JsonConfig \<Rightarrow> Doc
             | Some SearchResult \<Rightarrow> SearchHits
             | _ \<Rightarrow> BinaryPreview)
          else UnknownClass)"

section \<open>Line windows and selectors\<close>

definition parse_line_fragment :: "rstr \<Rightarrow> nat option \<times> nat option" where
  "parse_line_fragment fragment =
     (let v = trim_start_matches 76 (trim fragment);
          (start, stop) = (case split_once 45 v of Some p \<Rightarrow> p | None \<Rightarrow> (v, v));
          start = parse_usize (trim_start_matches 76 start);
          stop = parse_usize (trim_start_matches 76 stop)
      in if start = Some 0 \<or> stop = Some 0 then (None, None) else (start, stop))"

definition parse_around_selector :: "rstr \<Rightarrow> nat option \<times> nat option" where
  "parse_around_selector v =
     (let (line_text, radius_text) =
        (case split_once 58 v of Some p \<Rightarrow> p
         | None \<Rightarrow> (case split_once 44 v of Some p \<Rightarrow> p | None \<Rightarrow> (v, lit ''3'')))
      in case parse_usize (trim_start_matches 76 (trim line_text)) of
           None \<Rightarrow> (None, None)
         | Some line \<Rightarrow>
             if line = 0 then (None, None)
             else case parse_usize (trim radius_text) of
               None \<Rightarrow> (None, None)
             | Some radius \<Rightarrow> (Some (max (line - radius) 1), Some (sat_add line radius)))"

definition content_line_count :: "rstr \<Rightarrow> nat" where
  "content_line_count s = (if s = [] then 0 else length (split_inclusive s))"

definition line_slice_exact :: "rstr \<Rightarrow> nat \<Rightarrow> nat \<Rightarrow> rstr" where
  "line_slice_exact s start stop =
     (let start = max start 1
      in concat (take (max stop start - start + 1) (drop (start - 1) (split_inclusive s))))"

fun find_window :: "rstr \<Rightarrow> rstr list \<Rightarrow> (nat option \<times> nat option) option" where
  "find_window selector [] = None"
| "find_window selector (p # ps) =
     (case strip_prefix p selector of
        Some v \<Rightarrow> Some (parse_line_fragment v) | None \<Rightarrow> find_window selector ps)"

definition resolve_selector_line_window ::
    "rstr option \<Rightarrow> nat option \<Rightarrow> nat option \<Rightarrow> nat option \<times> nat option" where
  "resolve_selector_line_window selector start stop =
     (case selector of
        None \<Rightarrow> (start, stop)
      | Some sel \<Rightarrow>
          let window = (case find_window sel (map lit [''range:'', ''lines:'', ''line:'']) of
                          Some w \<Rightarrow> Some w
                        | None \<Rightarrow> map_option parse_around_selector (strip_prefix (lit ''around:'') sel))
          in case window of Some (Some i, j) \<Rightarrow> (Some i, j) | _ \<Rightarrow> (start, stop))"

definition ANCHOR_PREFIXES :: "rstr list" where
  "ANCHOR_PREFIXES = map lit [''fn '', ''def '', ''class '', ''struct '', ''impl '', ''use '', ''import '']"

definition select_content ::
    "rstr \<Rightarrow> rstr option \<Rightarrow> nat option \<Rightarrow> nat option \<Rightarrow> rstr option \<Rightarrow> rstr option \<Rightarrow> rstr" where
  "select_content content selector start_line end_line anchor_kind symbol =
     (if selector = Some (lit ''error_block'') then error_block content 3
      else if selector = Some (lit ''summary'') then summarize_lines content 12 8 []
      else
        let (start, stop) = resolve_selector_line_window selector start_line end_line in
        case (case start of Some i \<Rightarrow> if i > 0 then Some i else None | None \<Rightarrow> None) of
          Some i \<Rightarrow> line_slice_exact content i (case stop of Some j \<Rightarrow> j | None \<Rightarrow> i)
        | None \<Rightarrow>
            (case (case Option.bind selector (strip_prefix (lit ''symbol:'')) of Some y \<Rightarrow> Some y | None \<Rightarrow> symbol) of
               Some y \<Rightarrow> symbol_block content y
             | None \<Rightarrow>
                 if anchor_kind \<noteq> None \<or>
                    (case selector of Some sel \<Rightarrow> starts_with sel (lit ''anchor:'') | None \<Rightarrow> False)
                 then join [NL] (filter (\<lambda>l. list_ex (starts_with (trim_start l)) ANCHOR_PREFIXES) (str_lines content))
                 else content))"

definition expand_selected_content ::
    "rstr \<Rightarrow> (FragmentError + FragmentSpec) option \<Rightarrow> rstr option \<Rightarrow> nat option \<Rightarrow> nat option \<Rightarrow> rstr option \<Rightarrow>
     rstr option \<Rightarrow> rstr + rstr" where
  "expand_selected_content content fragment_spec selector start stop anchor_kind symbol =
     (case fragment_spec of
        Some (Inr (Byte i j)) \<Rightarrow>
          if j > blen content then
            Err (lit ''fragment-out-of-range; start='' @ show_nat i @ lit '' end='' @ show_nat j @ lit '' len='' @
              show_nat (blen content))
          else if i = j then Ok []
          else (case byte_slice content i j of
              Some t \<Rightarrow> Ok t
            | None \<Rightarrow>
                Err (lit ''fragment-not-utf8-boundary; start='' @ show_nat i @ lit '' end='' @ show_nat j @
                  lit '' len='' @ show_nat (blen content)))
      | _ \<Rightarrow> Ok (select_content content selector start stop anchor_kind symbol))"

definition clamp_line_window ::
    "rstr \<Rightarrow> nat option \<Rightarrow> nat option \<Rightarrow> rstr + ((bool \<times> nat \<times> nat \<times> nat) option \<times> nat option)" where
  "clamp_line_window content start stop =
     (case start of
        None \<Rightarrow> Ok (None, stop)
      | Some i \<Rightarrow>
          let requested_end = (case stop of Some j \<Rightarrow> j | None \<Rightarrow> i);
              line_count = content_line_count content
          in if i = 0 \<or> i > requested_end \<or> i > line_count then
               Err (lit ''window-out-of-range; start='' @ show_nat i @ lit '' end='' @ show_nat requested_end @
                 lit '' line_count='' @ show_nat line_count)
             else let returned_end = min requested_end line_count
                  in Ok (Some (returned_end \<noteq> requested_end, i, returned_end, line_count), Some returned_end))"

definition line_range_out_of_bounds :: "nat \<Rightarrow> nat \<Rightarrow> nat \<Rightarrow> bool" where
  "line_range_out_of_bounds start stop line_count \<longleftrightarrow> start = 0 \<or> start > stop \<or> stop > line_count"

definition ref_not_found_reason :: "rstr \<Rightarrow> rstr" where
  "ref_not_found_reason kind =
     (if kind = lit ''blob''
      then lit ''ref-not-found; tiers tried: explicit/env cache, current-root store, shared CAS''
      else lit ''ref-not-found; tiers tried: explicit/env cache, current-root store'')"

section \<open>Fragments round-trip\<close>

lemma show_nat_not: "\<not> is_ascii_digit c \<Longrightarrow> c \<notin> set (show_nat n)"
  using show_nat_digits by blast

lemma show_nat_sep:
  "35 \<notin> set (show_nat n)" "43 \<notin> set (show_nat n)" "44 \<notin> set (show_nat n)" "45 \<notin> set (show_nat n)"
  "66 \<notin> set (show_nat n)" "76 \<notin> set (show_nat n)"
  by (simp_all add: show_nat_not is_ascii_digit_def)

lemma trim_matches_show [simp]:
  "trim_start_matches 66 (show_nat n) = show_nat n" "trim_start_matches 76 (show_nat n) = show_nat n"
  using show_nat_sep(5,6) [of n] by (cases "show_nat n"; auto simp: trim_start_matches_def)+

lemma not_starts_show:
  "\<not> starts_with (show_nat n @ r) [66]" "\<not> starts_with (show_nat n @ r) [76]"
  "\<not> starts_with (show_nat n) [66]" "\<not> starts_with (show_nat n) [76]"
  using show_nat_sep(5,6) [of n] by (cases "show_nat n"; auto simp: starts_with_def)+

lemma split_once_absent: "d \<notin> set a \<Longrightarrow> split_once d a = None"
  by simp

lemma bounds_core_show:
  assumes "i \<le> j" and "j \<le> u64_max" and "k = 66 \<or> k = 76" and "z \<longrightarrow> 0 < i"
  shows "parse_fragment_bounds_core (show_nat i @ 45 # show_nat j) k True z = Ok (i, j)"
proof -
  have "44 \<notin> set (show_nat i @ 45 # show_nat j)" by (simp add: show_nat_sep)
  then show ?thesis
    using assms by (auto simp: parse_fragment_bounds_core_def Let_def not_starts_show split_once_absent show_nat_sep)
qed

lemma spec_of_bounds:
  "k = 66 \<or> k = 76 \<Longrightarrow> 35 \<notin> set v \<Longrightarrow> 43 \<notin> set v \<Longrightarrow>
   parse_fragment_spec (k # v) =
     (case parse_fragment_bounds_core v k True (k = 76) of
        Inl b \<Rightarrow> Err (fragment_map_err b)
      | Inr (i, j) \<Rightarrow> Ok (if k = 66 then Byte i j else Line i j))"
  by (auto simp: parse_fragment_spec_def split_once_absent split: sum.splits)

lemma single_core_show:
  assumes "n < u64_max"
  shows "parse_fragment_bounds_core (show_nat n) 66 True False = Ok (n, n + 1)"
  using assms
  by (simp add: parse_fragment_bounds_core_def Let_def not_starts_show checked_add_def split_once_absent show_nat_sep)

section \<open>Exact selection\<close>

lemma concat_take_drop: "concat (take n xs) @ concat (drop n xs) = concat xs"
  by (metis append_take_drop_id concat_append)

lemma take_add_split: "take (m + n) (drop k xs) = take m (drop k xs) @ take n (drop (k + m) xs)"
  by (simp add: take_add add.commute)

lemma line_slice_pieces:
  "0 < i \<Longrightarrow> i \<le> j \<Longrightarrow>
   line_slice_exact s i j = concat (take (j - (i - 1)) (drop (i - 1) (split_inclusive s)))"
  by (cases i) (auto simp: line_slice_exact_def Let_def Suc_diff_Suc max_absorb1 max_absorb2)

lemma line_slice_split:
  assumes "0 < i" and "i \<le> j" and "j < k"
  shows "line_slice_exact s i j @ line_slice_exact s (j + 1) k = line_slice_exact s i k"
proof -
  obtain h where i: "i = Suc h" using assms(1) by (cases i) auto
  have "take (k - h) (drop h (split_inclusive s)) =
      take (j - h) (drop h (split_inclusive s)) @ take (k - j) (drop j (split_inclusive s))"
    using take_add_split [of "j - h" "k - j" h "split_inclusive s"] assms i by simp
  then show ?thesis using assms i by (simp add: line_slice_pieces)
qed

lemma byte_slice_bytes:
  assumes "byte_slice s i j = Some t"
  shows "as_bytes t = take (j - i) (drop i (as_bytes s))"
proof -
  obtain a b where "s = a @ t @ b" "blen a = i" "blen a + blen t = j"
    using assms by (auto simp: byte_slice_iff)
  then show ?thesis by (simp add: as_bytes_append length_as_bytes)
qed

section \<open>Properties\<close>

text \<open>The fragments the program prints are read back exactly: a byte range, a byte range with a
  length, a single byte, and a line range.\<close>

theorem fragment_roundtrip:
  assumes "i \<le> j" and "j < u64_max"
  shows "parse_fragment_spec (lit ''B'' @ show_nat i @ lit ''-'' @ show_nat j) = Ok (Byte i j) \<and>
    parse_fragment_spec (lit ''B'' @ show_nat i @ lit ''+'' @ show_nat (j - i)) = Ok (Byte i j) \<and>
    parse_fragment_spec (lit ''B'' @ show_nat i) = Ok (Byte i (i + 1)) \<and>
    (0 < i \<longrightarrow> parse_fragment_spec (lit ''L'' @ show_nat i @ lit ''-'' @ show_nat j) = Ok (Line i j))"
proof -
  have l: "lit ''B'' = [66]" "lit ''L'' = [76]" "lit ''-'' = [45]" "lit ''+'' = [43]" by (simp_all add: lit_def)
  note sep = show_nat_sep split_once_absent
  have "parse_fragment_spec (lit ''B'' @ show_nat i @ lit ''-'' @ show_nat j) = Ok (Byte i j)"
    using assms by (simp add: l spec_of_bounds sep bounds_core_show)
  moreover have "parse_fragment_spec (lit ''B'' @ show_nat i @ lit ''+'' @ show_nat (j - i)) = Ok (Byte i j)"
    using assms by (simp add: l parse_fragment_spec_def sep checked_add_def)
  moreover have "parse_fragment_spec (lit ''B'' @ show_nat i) = Ok (Byte i (i + 1))"
    using assms by (simp add: l spec_of_bounds sep single_core_show)
  moreover have "0 < i \<longrightarrow> parse_fragment_spec (lit ''L'' @ show_nat i @ lit ''-'' @ show_nat j) = Ok (Line i j)"
    using assms by (simp add: l spec_of_bounds sep bounds_core_show)
  ultimately show ?thesis by blast
qed

theorem fragment_roundtrip_witness:
  "parse_fragment_spec (lit ''L'' @ show_nat 2 @ lit ''-'' @ show_nat 5) = Ok (Line 2 5)"
  using fragment_roundtrip [of 2 5] by (simp add: u64_max_def)

text \<open>The portable parser and the shared fragment parser cannot diverge: on a fragment without a
  second \<open>#\<close> or a \<open>+\<close> that the strict grammar does not take, they accept the same fragments with
  the same bounds.\<close>

theorem fragment_parsers_agree:
  assumes "zero_ref_parse Z r = None" and "35 \<notin> set f" and "43 \<notin> set f"
  shows "parse_portable_or_lenient_fragment Z r f = Ok fs \<longleftrightarrow> parse_fragment_spec f = Ok fs"
proof (cases f)
  case (Cons k v)
  show ?thesis
  proof (cases "k = 66 \<or> k = 76")
    case True
    with Cons assms show ?thesis
      by (auto simp: parse_portable_or_lenient_fragment_def spec_of_bounds split: sum.splits prod.splits if_splits)
  next
    case False
    with Cons assms show ?thesis
      by (auto simp: parse_portable_or_lenient_fragment_def parse_fragment_spec_def
          split: sum.splits prod.splits option.splits)
  qed
qed (use assms in \<open>simp add: parse_portable_or_lenient_fragment_def parse_fragment_spec_def\<close>)

definition no_zero_ref :: zero_ref where
  "no_zero_ref = \<lparr>is_full_lower_hex = is_lower_hex, zero_ref_parse = (\<lambda>_. None)\<rparr>"

theorem fragment_parsers_agree_witness:
  "zero_ref_parse no_zero_ref (lit ''tz://blob/a#L2'') = None \<and>
   (parse_portable_or_lenient_fragment no_zero_ref (lit ''tz://blob/a#L2'') (lit ''L2'') = Ok (Line 2 2) \<longleftrightarrow>
    parse_fragment_spec (lit ''L2'') = Ok (Line 2 2))"
proof -
  have "35 \<notin> set (lit ''L2'')" "43 \<notin> set (lit ''L2'')" by code_simp+
  then show ?thesis using fragment_parsers_agree [of no_zero_ref "lit ''tz://blob/a#L2''" "lit ''L2''" "Line 2 2"]
    by (simp add: no_zero_ref_def)
qed

text \<open>The core accepts recovery selectors that the expander cannot parse: a symbol selector, a
  reversed byte range and line zero all count as exact references in the omission rule, and every
  one of them is an error of the fragment parser.\<close>

theorem selectors_the_expander_rejects:
  "exact_ref_has_selector (lit ''tz://blob/ab#symbol=main'') \<and>
   parse_fragment_spec (lit ''symbol=main'') = Err FMalformed \<and>
   exact_ref_has_selector (lit ''tz://blob/ab#B5-3'') \<and> parse_fragment_spec (lit ''B5-3'') = Err FReversed \<and>
   exact_ref_has_selector (lit ''tz://blob/ab#L0'') \<and> parse_fragment_spec (lit ''L0'') = Err FMalformed"
proof -
  have "exact_ref_has_selector (lit ''tz://blob/ab#symbol=main'')" by code_simp
  moreover have "parse_fragment_spec (lit ''symbol=main'') = Err FMalformed" by code_simp
  moreover have "exact_ref_has_selector (lit ''tz://blob/ab#B5-3'')" by code_simp
  moreover have "parse_fragment_spec (lit ''B5-3'') = Err FReversed" by code_simp
  moreover have "exact_ref_has_selector (lit ''tz://blob/ab#L0'')" by code_simp
  moreover have "parse_fragment_spec (lit ''L0'') = Err FMalformed" by code_simp
  ultimately show ?thesis by blast
qed

text \<open>Line slices are exact: the slice of all lines is the content byte for byte, and two adjacent
  slices join to the slice of the whole range, terminators included.\<close>

theorem line_slices_partition:
  "line_slice_exact s 1 (content_line_count s) = s \<and>
   (0 < i \<and> i \<le> j \<and> j < k \<longrightarrow>
     line_slice_exact s i j @ line_slice_exact s (j + 1) k = line_slice_exact s i k)"
proof -
  have "line_slice_exact s 1 (content_line_count s) = s"
    by (cases "s = []") (auto simp: line_slice_exact_def content_line_count_def Let_def max_def)
  then show ?thesis using line_slice_split by blast
qed

theorem line_slices_partition_witness:
  "line_slice_exact [97, 10, 98, 10] 1 1 @ line_slice_exact [97, 10, 98, 10] 2 2 = line_slice_exact [97, 10, 98, 10] 1 2"
  using line_slices_partition [of "[97, 10, 98, 10]" 1 1 2] by (simp add: numeral_2_eq_2)

text \<open>A byte fragment returns exactly the bytes of its half-open range, or an error; it never
  returns other bytes.\<close>

theorem byte_fragment_exact:
  assumes "expand_selected_content content (Some (Ok (Byte i j))) sel st en an sy = Ok t" and "i \<le> j"
  shows "as_bytes t = take (j - i) (drop i (as_bytes content)) \<and> length (as_bytes t) = j - i"
proof -
  have j: "j \<le> blen content" and t: "i = j \<and> t = [] \<or> byte_slice content i j = Some t"
    using assms(1) by (auto simp: expand_selected_content_def split: if_splits option.splits)
  from t have "as_bytes t = take (j - i) (drop i (as_bytes content))" by (auto simp: byte_slice_bytes)
  with j assms(2) show ?thesis by (simp add: length_as_bytes)
qed

theorem byte_fragment_exact_witness:
  "expand_selected_content (lit ''abc'') (Some (Ok (Byte 1 3))) None None None None None = Ok (lit ''bc'') \<and>
   as_bytes (lit ''bc'') = take 2 (drop 1 (as_bytes (lit ''abc'')))"
proof -
  have e: "expand_selected_content (lit ''abc'') (Some (Ok (Byte 1 3))) None None None None None = Ok (lit ''bc'')"
    by code_simp
  show ?thesis using e byte_fragment_exact [OF e] by simp
qed

end
