(* ===== verification/SourceFiles.thy ===== *)
theory SourceFiles
  imports RefGrammar
begin

text \<open>
  Reading source files back (\<open>tokenzero-recovery/src/lib.rs\<close>): the chunked readers that hash
  while they read, the line-range reader that never holds the file, fingerprints, and the
  identity of a path. A file is what the operating system shows of it: the chunks successive
  reads return, the length and modification time of its metadata. Paths are UTF-8 strings on
  a Unix platform. The digest of a \<open>Sha256\<close> fed in pieces is the digest of their concatenation.
\<close>

section \<open>UTF-8 decoding\<close>

text \<open>\<open>String::from_utf8\<close>: the bytes are the encoding of scalar values, or an error.\<close>

definition utf8_width :: "byte \<Rightarrow> nat" where
  "utf8_width b = (if b < 0x80 then 1 else if b < 0xE0 then 2 else if b < 0xF0 then 3 else 4)"

definition utf8_value :: "byte list \<Rightarrow> uchar" where
  "utf8_value bs =
     (case bs of
        [a] \<Rightarrow> a
      | [a, b] \<Rightarrow> (a - 0xC0) * 64 + (b - 0x80)
      | [a, b, c] \<Rightarrow> (a - 0xE0) * 4096 + (b - 0x80) * 64 + (c - 0x80)
      | [a, b, c, d] \<Rightarrow> (a - 0xF0) * 262144 + (b - 0x80) * 4096 + (c - 0x80) * 64 + (d - 0x80)
      | _ \<Rightarrow> 0)"

function from_utf8 :: "byte list \<Rightarrow> rstr option" where
  "from_utf8 [] = Some []"
| "from_utf8 (b # bs) =
     (if is_scalar (utf8_value (take (utf8_width b) (b # bs))) \<and>
         utf8_char (utf8_value (take (utf8_width b) (b # bs))) = take (utf8_width b) (b # bs)
      then map_option ((#) (utf8_value (take (utf8_width b) (b # bs)))) (from_utf8 (drop (utf8_width b) (b # bs)))
      else None)"
  by pat_completeness auto
termination by (relation "measure length") (auto simp: utf8_width_def)

lemma utf8_char_width: "is_scalar c \<Longrightarrow> utf8_width (hd (utf8_char c)) = len_utf8 c"
proof -
  assume "is_scalar c"
  then have "c < 0x110000" by (auto simp: is_scalar_def)
  then show ?thesis by (auto simp: utf8_width_def utf8_char_def len_utf8_def)
qed

lemma utf8_char_value: "is_scalar c \<Longrightarrow> utf8_value (utf8_char c) = c"
proof -
  have two: "c div 64 * 64 + c mod 64 = c" by simp
  have m: "c div 4096 = c div 64 div 64" "c div 262144 = c div 4096 div 64" by (simp_all flip: div_mult2_eq)
  have three: "c div 4096 * 4096 + c div 64 mod 64 * 64 + c mod 64 = c"
    using div_mult_mod_eq [of c 64] div_mult_mod_eq [of "c div 64" 64] m by linarith
  have four: "c div 262144 * 262144 + c div 4096 mod 64 * 4096 + c div 64 mod 64 * 64 + c mod 64 = c"
    using three div_mult_mod_eq [of "c div 4096" 64] m by linarith
  show ?thesis using two three four by (simp add: utf8_value_def utf8_char_def)
qed

lemma from_utf8_Cons:
  assumes "is_scalar c"
  shows "from_utf8 (utf8_char c @ bs) = map_option ((#) c) (from_utf8 bs)"
proof -
  have "utf8_char c \<noteq> []" by (simp add: utf8_char_def)
  then obtain x xs where x: "utf8_char c = x # xs" by (cases "utf8_char c") auto
  then have w: "utf8_width x = length (x # xs)" using utf8_char_width [OF assms] length_utf8_char [of c] by simp
  then have "take (utf8_width x) (x # xs @ bs) = x # xs" "drop (utf8_width x) (x # xs @ bs) = bs" by simp_all
  then show ?thesis using assms x utf8_char_value [OF assms] by simp
qed

lemma from_utf8_as_bytes [simp]: "valid_str t \<Longrightarrow> from_utf8 (as_bytes t) = Some t"
  by (induction t) (simp_all add: valid_str_def as_bytes_Cons from_utf8_Cons)

lemma from_utf8_sound: "from_utf8 bs = Some t \<Longrightarrow> as_bytes t = bs \<and> valid_str t"
proof (induction bs arbitrary: t rule: from_utf8.induct)
  case (2 b bs)
  let ?n = "utf8_width b"
  define p where "p = take ?n (b # bs)"
  from "2.prems" obtain t' where t: "t = utf8_value p # t'" "is_scalar (utf8_value p)" "utf8_char (utf8_value p) = p"
    "from_utf8 (drop ?n (b # bs)) = Some t'"
    by (auto simp: p_def split: if_splits)
  then have "as_bytes t' = drop ?n (b # bs) \<and> valid_str t'" using "2.IH" by (simp add: p_def)
  then have "as_bytes t = p @ drop ?n (b # bs)" "valid_str t" using t by (simp_all add: as_bytes_Cons valid_str_def)
  then show ?case by (simp add: p_def)
qed (simp add: valid_str_def)

declare from_utf8.simps [simp del]

section \<open>Files\<close>

record source_file =
  file_chunks :: "byte list list"
  meta_len :: nat
  meta_mtime_ns :: nat

type_synonym fs = "rstr \<Rightarrow> source_file option"

definition file_bytes :: "source_file \<Rightarrow> byte list" where
  "file_bytes f = concat (takeWhile (\<lambda>c. c \<noteq> []) (file_chunks f))"

fun read_file_chunks :: "('s \<Rightarrow> byte list \<Rightarrow> 's option) \<Rightarrow> byte list list \<Rightarrow> 's \<Rightarrow> 's option" where
  "read_file_chunks on_chunk [] s = Some s"
| "read_file_chunks on_chunk (c # cs) s =
     (if c = [] then Some s
      else case on_chunk s c of None \<Rightarrow> None | Some s' \<Rightarrow> read_file_chunks on_chunk cs s')"

definition finalize_utf8_digest :: "sha \<Rightarrow> byte list \<Rightarrow> byte list \<Rightarrow> (rstr \<times> rstr) option" where
  "finalize_utf8_digest sha bytes hashed = map_option (\<lambda>t. (t, hex (sha hashed))) (from_utf8 bytes)"

definition exceeds :: "nat option \<Rightarrow> nat \<Rightarrow> bool" where
  "exceeds expected n = (case expected of Some len \<Rightarrow> n > len | None \<Rightarrow> False)"

fun on_whole_chunk :: "nat option \<Rightarrow> byte list \<times> byte list \<Rightarrow> byte list \<Rightarrow> (byte list \<times> byte list) option" where
  "on_whole_chunk expected (bytes, hashed) c =
     (if exceeds expected (sat_add (length bytes) (length c)) then None else Some (bytes @ c, hashed @ c))"

definition read_utf8_hashed :: "sha \<Rightarrow> fs \<Rightarrow> rstr \<Rightarrow> nat option \<Rightarrow> (rstr \<times> rstr) option" where
  "read_utf8_hashed sha fs path expected =
     (case fs path of
        None \<Rightarrow> None
      | Some f \<Rightarrow>
          (case read_file_chunks (on_whole_chunk expected) (file_chunks f) ([], []) of
             None \<Rightarrow> None
           | Some (bytes, hashed) \<Rightarrow>
               if (case expected of Some len \<Rightarrow> length bytes \<noteq> len | None \<Rightarrow> False) then None
               else finalize_utf8_digest sha bytes hashed))"

section \<open>The line-range reader\<close>

record line_scan =
  selected :: "byte list"
  scan_hashed :: "byte list"
  scan_line :: nat
  bytes_seen :: nat
  newline_count :: nat
  last_byte :: "byte option"

definition flush_from :: "byte list \<Rightarrow> line_scan \<Rightarrow> line_scan" where
  "flush_from piece s = s\<lparr>selected := selected s @ piece, scan_hashed := scan_hashed s @ piece\<rparr>"

definition scan_byte ::
    "nat \<Rightarrow> nat \<Rightarrow> byte list \<Rightarrow> nat \<Rightarrow> byte \<Rightarrow> line_scan \<Rightarrow> nat option \<Rightarrow> line_scan \<times> nat option" where
  "scan_byte start stop chunk index b s src =
     (let src = (if scan_line s \<ge> start \<and> scan_line s \<le> stop \<and> src = None then Some index else src) in
      if b = NL then
        let s = s\<lparr>newline_count := newline_count s + 1\<rparr>;
            (s, src) =
              (case src of
                 Some i \<Rightarrow> if scan_line s = stop then (flush_from (drop i (take (index + 1) chunk)) s, None) else (s, src)
               | None \<Rightarrow> (s, None))
        in (s\<lparr>scan_line := scan_line s + 1\<rparr>, src)
      else (s, src))"

fun scan_chunk ::
    "nat \<Rightarrow> nat \<Rightarrow> byte list \<Rightarrow> nat \<Rightarrow> byte list \<Rightarrow> line_scan \<Rightarrow> nat option \<Rightarrow> line_scan \<times> nat option" where
  "scan_chunk start stop chunk index [] s src = (s, src)"
| "scan_chunk start stop chunk index (b # bs) s src =
     (let (s, src) = scan_byte start stop chunk index b s src
      in scan_chunk start stop chunk (index + 1) bs (s\<lparr>last_byte := Some b\<rparr>) src)"

definition on_line_chunk :: "nat \<Rightarrow> nat \<Rightarrow> line_scan \<Rightarrow> byte list \<Rightarrow> line_scan option" where
  "on_line_chunk start stop s chunk =
     (let s = s\<lparr>bytes_seen := bytes_seen s + length chunk\<rparr>;
          (s, src) = scan_chunk start stop chunk 0 chunk s None
      in Some (case src of Some i \<Rightarrow> flush_from (drop i chunk) s | None \<Rightarrow> s))"

definition scan_start :: line_scan where
  "scan_start = \<lparr>selected = [], scan_hashed = [], scan_line = 1, bytes_seen = 0, newline_count = 0, last_byte = None\<rparr>"

definition scan_line_count :: "line_scan \<Rightarrow> nat" where
  "scan_line_count s =
     (if bytes_seen s = 0 then 0 else newline_count s + (if last_byte s \<noteq> Some NL then 1 else 0))"

definition read_utf8_line_range_hashed :: "sha \<Rightarrow> fs \<Rightarrow> rstr \<Rightarrow> nat \<Rightarrow> nat \<Rightarrow> (rstr \<times> rstr) option" where
  "read_utf8_line_range_hashed sha fs path start stop =
     (case fs path of
        None \<Rightarrow> None
      | Some f \<Rightarrow>
          (case read_file_chunks (on_line_chunk start stop) (file_chunks f) scan_start of
             None \<Rightarrow> None
           | Some s \<Rightarrow>
               if line_range_out_of_bounds start stop (scan_line_count s) then None
               else finalize_utf8_digest sha (selected s) (scan_hashed s)))"

section \<open>Fingerprints and path identity\<close>

record SourceFingerprint =
  fp_size :: nat
  mtime_ns :: nat
  fp_sha256 :: rstr

definition fingerprint_from_meta :: "source_file \<Rightarrow> rstr \<Rightarrow> SourceFingerprint" where
  "fingerprint_from_meta f h = \<lparr>fp_size = meta_len f, mtime_ns = meta_mtime_ns f, fp_sha256 = h\<rparr>"

definition source_fingerprint_from_sha256 :: "fs \<Rightarrow> rstr \<Rightarrow> rstr \<Rightarrow> SourceFingerprint option" where
  "source_fingerprint_from_sha256 fs path h = map_option (\<lambda>f. fingerprint_from_meta f h) (fs path)"

definition hash_file_sha256 :: "sha \<Rightarrow> fs \<Rightarrow> rstr \<Rightarrow> (source_file \<times> rstr) option" where
  "hash_file_sha256 sha fs path =
     (case fs path of
        None \<Rightarrow> None
      | Some f \<Rightarrow>
          map_option (\<lambda>hashed. (f, hex (sha hashed)))
            (read_file_chunks (\<lambda>hashed c. Some (hashed @ c)) (file_chunks f) []))"

definition source_fingerprint_of :: "sha \<Rightarrow> fs \<Rightarrow> rstr \<Rightarrow> SourceFingerprint option" where
  "source_fingerprint_of sha fs path =
     map_option (\<lambda>(f, h). fingerprint_from_meta f h) (hash_file_sha256 sha fs path)"

fun hex_value :: "byte \<Rightarrow> nat option" where
  "hex_value b =
     (if 48 \<le> b \<and> b \<le> 57 then Some (b - 48)
      else if 97 \<le> b \<and> b \<le> 102 then Some (b - 97 + 10)
      else if 65 \<le> b \<and> b \<le> 70 then Some (b - 65 + 10)
      else None)"

fun decode_hex_bytes :: "rstr \<Rightarrow> byte list option" where
  "decode_hex_bytes [] = Some []"
| "decode_hex_bytes [_] = None"
| "decode_hex_bytes (h # l # r) =
     (case (hex_value h, hex_value l) of
        (Some hi, Some lo) \<Rightarrow> map_option (\<lambda>bs. (16 * hi + lo) # bs) (decode_hex_bytes r)
      | _ \<Rightarrow> None)"

definition path_identity_text :: "rstr \<Rightarrow> rstr" where
  "path_identity_text path = lit ''unix:'' @ hex (as_bytes path)"

text \<open>A path that is not UTF-8 is not a value of the model and reads as \<open>None\<close> here.\<close>

definition path_from_identity_text :: "rstr \<Rightarrow> rstr option" where
  "path_from_identity_text identity =
     Option.bind (Option.bind (strip_prefix (lit ''unix:'') identity) decode_hex_bytes) from_utf8"

text \<open>The first component of the path is a plain \<open>~\<close>.\<close>

definition unexpanded_tilde_path :: "rstr \<Rightarrow> bool" where
  "unexpanded_tilde_path path \<longleftrightarrow> path = lit ''~'' \<or> starts_with path (lit ''~/'')"

section \<open>The readers are exact\<close>

lemma read_chunks_total:
  assumes "\<And>s c. on_chunk s c = Some (f s c)"
  shows "read_file_chunks on_chunk cs s = Some (foldl f s (takeWhile (\<lambda>c. c \<noteq> []) cs))"
  by (induction cs arbitrary: s) (auto simp: assms)

text \<open>The bytes on the lines \<open>start..=stop\<close>, reading from line \<open>ln\<close>.\<close>

fun line_bytes :: "nat \<Rightarrow> nat \<Rightarrow> nat \<Rightarrow> byte list \<Rightarrow> byte list" where
  "line_bytes start stop ln [] = []"
| "line_bytes start stop ln (b # bs) =
     (if start \<le> ln \<and> ln \<le> stop then [b] else []) @ line_bytes start stop (if b = NL then ln + 1 else ln) bs"

abbreviation newlines :: "byte list \<Rightarrow> nat" where
  "newlines bs \<equiv> count_list bs NL"

lemma line_bytes_append:
  "line_bytes i j ln (xs @ ys) = line_bytes i j ln xs @ line_bytes i j (ln + newlines xs) ys"
  by (induction xs arbitrary: ln) auto

definition pending :: "nat option \<Rightarrow> byte list \<Rightarrow> byte list" where
  "pending src seen = (case src of None \<Rightarrow> [] | Some k \<Rightarrow> drop k seen)"

definition pending_ok :: "nat \<Rightarrow> nat \<Rightarrow> nat option \<Rightarrow> byte list \<Rightarrow> line_scan \<Rightarrow> bool" where
  "pending_ok i j src seen s \<longleftrightarrow>
     (case src of None \<Rightarrow> True | Some k \<Rightarrow> k \<le> length seen \<and> i \<le> scan_line s \<and> scan_line s \<le> j)"

lemma scan_byte_exact:
  assumes "scan_byte i j (pre @ b # bs) (length pre) b s src = (s', src')" and "pending_ok i j src pre s"
    and "scan_hashed s = selected s"
  shows "selected s' @ pending src' (pre @ [b]) =
      selected s @ pending src pre @ (if i \<le> scan_line s \<and> scan_line s \<le> j then [b] else [])"
    "scan_hashed s' = selected s'" "pending_ok i j src' (pre @ [b]) s'"
    "scan_line s' = (if b = NL then scan_line s + 1 else scan_line s)"
    "newline_count s' = (if b = NL then newline_count s + 1 else newline_count s)" "bytes_seen s' = bytes_seen s"
  using assms
  by (auto simp: scan_byte_def Let_def flush_from_def pending_def pending_ok_def split: if_splits option.splits)

lemma scan_chunk_exact:
  assumes "scan_chunk i j (pre @ bs) (length pre) bs s src = (s', src')" and "pending_ok i j src pre s"
    and "scan_hashed s = selected s"
  shows "selected s' @ pending src' (pre @ bs) = selected s @ pending src pre @ line_bytes i j (scan_line s) bs \<and>
    scan_hashed s' = selected s' \<and> scan_line s' = scan_line s + newlines bs \<and>
    newline_count s' = newline_count s + newlines bs \<and> bytes_seen s' = bytes_seen s \<and>
    last_byte s' = (if bs = [] then last_byte s else Some (last bs))"
  using assms
proof (induction bs arbitrary: pre s src)
  case (Cons b bs)
  obtain s1 src1 where b: "scan_byte i j (pre @ b # bs) (length pre) b s src = (s1, src1)" by fastforce
  note B = scan_byte_exact [OF b Cons.prems(2,3)]
  let ?s1 = "s1\<lparr>last_byte := Some b\<rparr>"
  have 1: "scan_chunk i j ((pre @ [b]) @ bs) (length (pre @ [b])) bs ?s1 src1 = (s', src')"
    using Cons.prems(1) b by simp
  have 2: "pending_ok i j src1 (pre @ [b]) ?s1" using B(3) by (simp add: pending_ok_def split: option.splits)
  have 3: "scan_hashed ?s1 = selected ?s1" using B(2) by simp
  have "selected s' @ pending src' (pre @ b # bs) = (selected s1 @ pending src1 (pre @ [b])) @ line_bytes i j (scan_line s1) bs"
    using conjunct1 [OF Cons.IH [OF 1 2 3]] by simp
  also have "\<dots> = selected s @ pending src pre @ line_bytes i j (scan_line s) (b # bs)"
    unfolding B(1) B(4) by simp
  finally show ?case using Cons.IH [OF 1 2 3] B(4-6) by simp
qed simp

lemma on_line_chunk_exact:
  assumes "on_line_chunk i j s chunk = Some s'" and "scan_hashed s = selected s"
  shows "selected s' = selected s @ line_bytes i j (scan_line s) chunk \<and> scan_hashed s' = selected s' \<and>
    scan_line s' = scan_line s + newlines chunk \<and> newline_count s' = newline_count s + newlines chunk \<and>
    bytes_seen s' = bytes_seen s + length chunk \<and> last_byte s' = (if chunk = [] then last_byte s else Some (last chunk))"
proof -
  let ?s = "s\<lparr>bytes_seen := bytes_seen s + length chunk\<rparr>"
  obtain s1 src where c: "scan_chunk i j ([] @ chunk) (length ([] :: byte list)) chunk ?s None = (s1, src)" by fastforce
  have "pending_ok i j None [] ?s" "scan_hashed ?s = selected ?s" using assms(2) by (simp_all add: pending_ok_def)
  note S = scan_chunk_exact [OF c this]
  have "s' = (case src of Some k \<Rightarrow> flush_from (drop k chunk) s1 | None \<Rightarrow> s1)"
    using assms(1) c by (simp add: on_line_chunk_def)
  then show ?thesis using S by (cases src) (simp_all add: pending_def flush_from_def)
qed

lemma scan_file_exact:
  assumes "read_file_chunks (on_line_chunk i j) cs s = Some s'" and "scan_hashed s = selected s"
  shows "selected s' = selected s @ line_bytes i j (scan_line s) (concat (takeWhile (\<lambda>c. c \<noteq> []) cs)) \<and>
    scan_hashed s' = selected s' \<and>
    newline_count s' = newline_count s + newlines (concat (takeWhile (\<lambda>c. c \<noteq> []) cs)) \<and>
    bytes_seen s' = bytes_seen s + length (concat (takeWhile (\<lambda>c. c \<noteq> []) cs)) \<and>
    last_byte s' = (if concat (takeWhile (\<lambda>c. c \<noteq> []) cs) = [] then last_byte s
      else Some (last (concat (takeWhile (\<lambda>c. c \<noteq> []) cs))))"
  using assms
proof (induction cs arbitrary: s)
  case (Cons c cs)
  show ?case
  proof (cases "c = []")
    case False
    then obtain s1 where s1: "on_line_chunk i j s c = Some s1" "read_file_chunks (on_line_chunk i j) cs s1 = Some s'"
      using Cons.prems(1) by (auto split: option.splits)
    note C = on_line_chunk_exact [OF s1(1) Cons.prems(2)]
    then have "scan_hashed s1 = selected s1" by simp
    note R = Cons.IH [OF s1(2) this]
    show ?thesis using C R False by (simp add: line_bytes_append)
  qed (use Cons.prems in simp)
qed simp

lemma scan_total: "\<exists>s'. read_file_chunks (on_line_chunk i j) cs s = Some s'"
proof -
  have "on_line_chunk i j s c = Some (the (on_line_chunk i j s c))" for s c
    by (simp add: on_line_chunk_def Let_def split_beta)
  from read_chunks_total [of "on_line_chunk i j", OF this] show ?thesis by blast
qed

lemma line_bytes_slice:
  "line_bytes i j ln bs = concat (take (j + 1 - max i ln) (drop (i - ln) (split_inclusive bs)))"
proof (induction bs arbitrary: ln)
  case (Cons b bs)
  consider (early) "ln < i" | (within) "i \<le> ln" "ln \<le> j" | (late) "i \<le> ln" "j < ln" by linarith
  then show ?case
  proof cases
    case early
    then obtain d where d: "i - ln = Suc d" "i - (ln + 1) = d" by (metis Suc_diff_Suc diff_Suc_eq_diff_pred diff_Suc_1 Suc_eq_plus1)
    have "max i ln = i" "max i (ln + 1) = i" using early by simp_all
    then show ?thesis using early d Cons.IH [of ln] Cons.IH [of "ln + 1"]
      by (cases "split_inclusive bs") auto
  next
    case within
    then obtain k where k: "j + 1 - ln = Suc k" "j + 1 - (ln + 1) = k" by (metis Suc_diff_le Suc_eq_plus1 diff_Suc_Suc)
    show ?thesis using within k Cons.IH [of ln] Cons.IH [of "ln + 1"]
      by (cases "split_inclusive bs") (auto simp: max_def)
  next
    case late
    then show ?thesis using Cons.IH [of ln] Cons.IH [of "ln + 1"] by (auto simp: max_def)
  qed
qed simp

lemma split_inclusive_run:
  "NL \<notin> set xs \<Longrightarrow> xs \<noteq> [] \<Longrightarrow>
   split_inclusive (xs @ s) = (case split_inclusive s of [] \<Rightarrow> [xs] | l # ls \<Rightarrow> (xs @ l) # ls)"
proof (induction xs)
  case (Cons x xs)
  then show ?case by (cases "xs = []") (auto split: list.splits)
qed simp

lemma utf8_char_NL: "utf8_char NL = [NL]" "c \<noteq> NL \<Longrightarrow> NL \<notin> set (utf8_char c)" "utf8_char c \<noteq> []"
  by (auto simp: utf8_char_def split: if_splits)

lemma split_inclusive_as_bytes: "split_inclusive (as_bytes t) = map as_bytes (split_inclusive t)"
proof (induction t)
  case (Cons c t)
  show ?case
  proof (cases "c = NL")
    case False
    then show ?thesis using Cons split_inclusive_run [OF utf8_char_NL(2) utf8_char_NL(3), of c "as_bytes t"]
      by (simp add: as_bytes_Cons split: list.splits)
  qed (use Cons utf8_char_NL(1) in \<open>simp add: as_bytes_Cons\<close>)
qed simp

lemma as_bytes_concat: "as_bytes (concat ls) = concat (map as_bytes ls)"
  by (induction ls) (simp_all add: as_bytes_append)

lemma as_bytes_slice:
  assumes "1 \<le> i" and "i \<le> j"
  shows "line_bytes i j 1 (as_bytes t) = as_bytes (line_slice_exact t i j)"
proof -
  have "j + 1 - max i 1 = max j i - i + 1" using assms by simp
  then show ?thesis using assms
    by (simp add: line_bytes_slice line_slice_exact_def split_inclusive_as_bytes as_bytes_concat take_map drop_map Let_def max_def)
qed

lemma length_split_inclusive:
  "length (split_inclusive bs) = (if bs = [] then 0 else newlines bs + (if last bs \<noteq> NL then 1 else 0))"
proof (induction bs)
  case (Cons b bs)
  then show ?case by (cases "split_inclusive bs") (auto split: if_splits list.splits)
qed simp

lemma valid_slice: "valid_str t \<Longrightarrow> valid_str (line_slice_exact t i j)"
proof -
  assume v: "valid_str t"
  have "set (line_slice_exact t i j) \<subseteq> set (concat (split_inclusive t))"
    by (auto simp: line_slice_exact_def Let_def simp del: concat_split_inclusive dest!: in_set_takeD in_set_dropD)
  then show ?thesis using v by (auto simp: valid_str_def list_all_iff)
qed

lemma scan_file:
  assumes "read_file_chunks (on_line_chunk i j) (file_chunks f) scan_start = Some s"
  shows "selected s = line_bytes i j 1 (file_bytes f)" "scan_hashed s = selected s"
    "scan_line_count s = length (split_inclusive (file_bytes f))"
  using scan_file_exact [OF assms]
  by (simp_all add: scan_start_def file_bytes_def scan_line_count_def length_split_inclusive)

lemma line_range_digest:
  "read_utf8_line_range_hashed sha fs path i j = Some (t, h) \<Longrightarrow> h = hex (sha (as_bytes t))"
  by (auto simp: read_utf8_line_range_hashed_def finalize_utf8_digest_def scan_file(2) dest: from_utf8_sound
      split: option.splits if_splits)

lemma read_whole_chunks:
  "read_file_chunks (on_whole_chunk e) cs (xs, xs) = r \<Longrightarrow>
   (case r of Some (bytes, hashed) \<Rightarrow> bytes = xs @ concat (takeWhile (\<lambda>c. c \<noteq> []) cs) \<and> hashed = bytes
    | None \<Rightarrow> exceeds e (length xs + length (concat (takeWhile (\<lambda>c. c \<noteq> []) cs))))"
proof (induction cs arbitrary: xs)
  case (Cons c cs)
  show ?case
  proof (cases "c = [] \<or> exceeds e (sat_add (length xs) (length c))")
    case True
    then show ?thesis using Cons.prems by (auto simp: exceeds_def sat_add_def split: option.splits)
  next
    case False
    then show ?thesis using Cons.IH [of "xs @ c"] Cons.prems by (auto simp: add.assoc split: option.splits)
  qed
qed auto

lemma read_utf8_hashed_exact:
  assumes "fs path = Some f" and "file_bytes f = as_bytes t" and "valid_str t"
  shows "read_utf8_hashed sha fs path (Some n) = (if blen t = n then Some (t, hex (sha (as_bytes t))) else None)"
proof -
  obtain r where r: "read_file_chunks (on_whole_chunk (Some n)) (file_chunks f) ([], []) = r" by simp
  have "case r of Some (bytes, hashed) \<Rightarrow> bytes = as_bytes t \<and> hashed = bytes | None \<Rightarrow> n < blen t"
    using read_whole_chunks [OF r] assms(2) by (cases r) (simp_all add: file_bytes_def exceeds_def length_as_bytes)
  then show ?thesis using assms r
    by (cases r) (auto simp: read_utf8_hashed_def finalize_utf8_digest_def length_as_bytes)
qed

lemma decode_hex: "list_all (\<lambda>b. b < 256) bs \<Longrightarrow> decode_hex_bytes (hex bs) = Some bs"
proof (induction bs)
  case (Cons b bs)
  have d: "hex_value (lit ''0123456789abcdef'' ! n) = Some n" if "n < 16" for n
  proof -
    have "\<forall>n < 16. hex_value (lit ''0123456789abcdef'' ! n) = Some n" by code_simp
    with that show ?thesis by blast
  qed
  have "b div 16 < 16" using Cons.prems by (simp add: less_mult_imp_div_less)
  then show ?case using Cons d [of "b div 16"] d [of "b mod 16"] by (simp add: hex_def)
qed (simp add: hex_def)

lemma as_bytes_range: "valid_str t \<Longrightarrow> list_all (\<lambda>b. b < 256) (as_bytes t)"
proof (induction t)
  case (Cons c t)
  have "c < 0x110000" using Cons.prems by (auto simp: valid_str_def is_scalar_def)
  then have "list_all (\<lambda>b. b < 256) (utf8_char c)" by (auto simp: utf8_char_def)
  then show ?case using Cons by (simp add: as_bytes_Cons valid_str_def)
qed simp

lemma path_identity_roundtrip: "valid_str p \<Longrightarrow> path_from_identity_text (path_identity_text p) = Some p"
  by (simp add: path_from_identity_text_def path_identity_text_def decode_hex as_bytes_range)

lemma read_line_range_slice:
  assumes "fs path = Some f" and "file_bytes f = as_bytes t" and "valid_str t"
  shows "read_utf8_line_range_hashed sha fs path start stop =
    (if line_range_out_of_bounds start stop (content_line_count t) then None
     else Some (line_slice_exact t start stop, hex (sha (as_bytes (line_slice_exact t start stop)))))"
proof -
  obtain s where s: "read_file_chunks (on_line_chunk start stop) (file_chunks f) scan_start = Some s"
    using scan_total by blast
  have "scan_line_count s = content_line_count t"
    using scan_file(3) [OF s] assms(2) by (simp add: split_inclusive_as_bytes content_line_count_def)
  moreover have "selected s = as_bytes (line_slice_exact t start stop)" if "\<not> line_range_out_of_bounds start stop n" for n
    using that scan_file(1) [OF s] assms(2) as_bytes_slice [of start stop t] by (simp add: line_range_out_of_bounds_def)
  ultimately show ?thesis using s assms(1,3) scan_file(2) [OF s] valid_slice [OF assms(3)]
    by (simp add: read_utf8_line_range_hashed_def finalize_utf8_digest_def)
qed

section \<open>Properties\<close>

text \<open>C9: The streaming reader returns exactly the requested lines: however the operating system cuts the
  file into chunks, reading lines \<open>start..=stop\<close> of a UTF-8 file fails exactly when the range is
  out of bounds, and otherwise returns the exact slice of the content with the digest of that
  slice, although the reader never holds the file.\<close>

theorem line_range_reader_exact:
  assumes "fs path = Some f" and "file_bytes f = as_bytes t" and "valid_str t"
  shows "read_utf8_line_range_hashed sha fs path start stop =
    (if line_range_out_of_bounds start stop (content_line_count t) then None
     else Some (line_slice_exact t start stop, hex (sha (as_bytes (line_slice_exact t start stop)))))"
  using assms by (rule read_line_range_slice)

theorem line_range_reader_exact_witness:
  "read_utf8_line_range_hashed (\<lambda>_. []) (\<lambda>_. Some \<lparr>file_chunks = [[97, 10, 98], [195], [169, 10, 99]], meta_len = 7, meta_mtime_ns = 0\<rparr>)
     (lit ''f'') 2 2 = Some ([98, 233, 10], [])"
proof -
  let ?f = "\<lparr>file_chunks = [[97, 10, 98], [195], [169, 10, 99]], meta_len = 7, meta_mtime_ns = 0\<rparr>"
  have "file_bytes ?f = as_bytes [97, 10, 98, 233, 10, 99]" "valid_str [97, 10, 98, 233, 10, 99]"
    "line_slice_exact [97, 10, 98, 233, 10, 99] 2 2 = [98, 233, 10]"
    "\<not> line_range_out_of_bounds 2 2 (content_line_count [97, 10, 98, 233, 10, 99])"
    by code_simp+
  then show ?thesis using line_range_reader_exact [of "\<lambda>_. Some ?f" "lit ''f''" ?f "[97, 10, 98, 233, 10, 99]" "\<lambda>_. []" 2 2]
    by (simp add: hex_def)
qed

end
