(* ===== verification/OrdMap.thy ===== *)
theory OrdMap
  imports Prelude "HOL-Library.List_Lexorder"
begin

text \<open>
  \<open>BTreeMap\<close> as an association list in key order: strings compare by their UTF-8 bytes, which
  is the lexicographic order of their code points. The locale \<open>finite_map\<close> is the interface the
  stores rely on, and its interpretation on these operations discharges the laws.
\<close>

section \<open>Operations\<close>

type_synonym ('k, 'v) btree = "('k \<times> 'v) list"

definition bt_get :: "('k, 'v) btree \<Rightarrow> 'k \<Rightarrow> 'v option" where
  "bt_get m k = map_of m k"

fun bt_insert :: "'k :: linorder \<Rightarrow> 'v \<Rightarrow> ('k, 'v) btree \<Rightarrow> ('k, 'v) btree" where
  "bt_insert k v [] = [(k, v)]"
| "bt_insert k v ((k', v') # m) =
     (if k < k' then (k, v) # (k', v') # m
      else if k = k' then (k, v) # m
      else (k', v') # bt_insert k v m)"

definition bt_remove :: "'k \<Rightarrow> ('k, 'v) btree \<Rightarrow> ('k, 'v) btree" where
  "bt_remove k m = filter (\<lambda>(k', _). k' \<noteq> k) m"

definition bt_contains :: "('k, 'v) btree \<Rightarrow> 'k \<Rightarrow> bool" where
  "bt_contains m k \<longleftrightarrow> bt_get m k \<noteq> None"

definition bt_keys :: "('k, 'v) btree \<Rightarrow> 'k list" where
  "bt_keys m = map fst m"

definition bt_retain :: "('k \<Rightarrow> bool) \<Rightarrow> ('k, 'v) btree \<Rightarrow> ('k, 'v) btree" where
  "bt_retain p m = filter (\<lambda>(k, _). p k) m"

definition bt_wf :: "('k :: linorder, 'v) btree \<Rightarrow> bool" where
  "bt_wf m \<longleftrightarrow> sorted_wrt (<) (map fst m)"

section \<open>The interface\<close>

locale finite_map =
  fixes get :: "'m \<Rightarrow> 'k \<Rightarrow> 'v option"
    and insert :: "'k \<Rightarrow> 'v \<Rightarrow> 'm \<Rightarrow> 'm"
    and remove :: "'k \<Rightarrow> 'm \<Rightarrow> 'm"
    and empty :: 'm
  assumes get_empty: "get empty k = None"
    and get_insert: "get (insert k v m) = (get m)(k \<mapsto> v)"
    and get_remove: "get (remove k m) = (get m)(k := None)"
begin

lemma get_insert_same: "get (insert k v m) k = Some v"
  by (simp add: get_insert)

lemma get_insert_other: "j \<noteq> k \<Longrightarrow> get (insert k v m) j = get m j"
  by (simp add: get_insert)

lemma get_remove_same: "get (remove k m) k = None"
  by (simp add: get_remove)

lemma get_remove_other: "j \<noteq> k \<Longrightarrow> get (remove k m) j = get m j"
  by (simp add: get_remove)

lemma insert_mono: "get m j = Some w \<Longrightarrow> j \<noteq> k \<or> w = v \<Longrightarrow> get (insert k v m) j = Some w"
  by (auto simp: get_insert)

text \<open>Folding insertions of the entries of another map overwrites exactly its keys.\<close>

lemma get_fold_insert:
  "get (fold (\<lambda>(k, v). insert k v) es m) j =
     (case map_of (rev es) j of Some v \<Rightarrow> Some v | None \<Rightarrow> get m j)"
  by (induction es arbitrary: m) (auto simp: get_insert map_add_def split: option.splits)

lemma get_fold_remove: "get (fold remove ks m) j = (if j \<in> set ks then None else get m j)"
  by (induction ks arbitrary: m) (auto simp: get_remove)

end

lemma bt_get_insert: "bt_get (bt_insert k v m) = (bt_get m)(k \<mapsto> v)"
  by (rule ext, induction k v m rule: bt_insert.induct) (auto simp: bt_get_def)

lemma bt_get_remove: "bt_get (bt_remove k m) = (bt_get m)(k := None)"
proof
  show "bt_get (bt_remove k m) j = ((bt_get m)(k := None)) j" for j
    by (induction m) (auto simp: bt_get_def bt_remove_def)
qed

interpretation bt: finite_map bt_get bt_insert bt_remove "[]"
  by unfold_locales (simp_all add: bt_get_insert bt_get_remove, simp add: bt_get_def)

declare bt.get_empty [simp] bt.get_insert [simp] bt.get_remove [simp]

section \<open>Keys and size\<close>

lemma bt_contains_iff: "bt_contains m k \<longleftrightarrow> k \<in> set (bt_keys m)"
  by (auto simp: bt_contains_def bt_get_def bt_keys_def map_of_eq_None_iff)

lemma bt_get_Some_key: "bt_get m k = Some v \<Longrightarrow> k \<in> set (bt_keys m)"
  by (metis bt_contains_def bt_contains_iff option.discI)

lemma bt_keys_insert [simp]: "set (bt_keys (bt_insert k v m)) = Set.insert k (set (bt_keys m))"
  by (induction k v m rule: bt_insert.induct) (auto simp: bt_keys_def)

lemma bt_keys_remove [simp]: "set (bt_keys (bt_remove k m)) = set (bt_keys m) - {k}"
  by (auto simp: bt_keys_def bt_remove_def)

lemma bt_keys_retain [simp]: "set (bt_keys (bt_retain p m)) = {k \<in> set (bt_keys m). p k}"
  by (auto simp: bt_keys_def bt_retain_def)

lemma bt_get_retain: "bt_get (bt_retain p m) k = (if p k then bt_get m k else None)"
  by (induction m) (auto simp: bt_retain_def bt_get_def)

lemma length_bt_remove: "k \<in> set (bt_keys m) \<Longrightarrow> length (bt_remove k m) < length m"
proof -
  assume "k \<in> set (bt_keys m)"
  then obtain v where "(k, v) \<in> set m" by (auto simp: bt_keys_def)
  then show ?thesis unfolding bt_remove_def by (rule length_filter_less) simp
qed

lemma length_bt_remove_le: "length (bt_remove k m) \<le> length m"
  by (simp add: bt_remove_def)

lemma bt_wf_insert: "bt_wf m \<Longrightarrow> bt_wf (bt_insert k v m)"
proof (induction k v m rule: bt_insert.induct)
  case (2 k v k' v' m)
  have "fst ` set (bt_insert k v m) = Set.insert k (fst ` set m)"
    using bt_keys_insert [of k v m] by (simp add: bt_keys_def)
  with 2 show ?case by (auto simp: bt_wf_def)
qed (simp add: bt_wf_def)

lemma bt_wf_filter: "bt_wf m \<Longrightarrow> bt_wf (filter p m)"
proof (induction m)
  case (Cons e m)
  then show ?case by (auto simp: bt_wf_def)
qed (simp add: bt_wf_def)

lemma bt_wf_remove: "bt_wf m \<Longrightarrow> bt_wf (bt_remove k m)"
  and bt_wf_retain: "bt_wf m \<Longrightarrow> bt_wf (bt_retain p m)"
  by (simp_all add: bt_remove_def bt_retain_def bt_wf_filter)

lemma bt_wf_Nil [simp]: "bt_wf []"
  by (simp add: bt_wf_def)

lemma sorted_lt_distinct: "sorted_wrt (<) (xs :: 'a :: linorder list) \<Longrightarrow> distinct xs"
  by (induction xs) auto

lemma bt_wf_distinct: "bt_wf m \<Longrightarrow> distinct (bt_keys m)"
  by (simp add: bt_wf_def bt_keys_def sorted_lt_distinct)

lemma length_bt_keys [simp]: "length (bt_keys m) = length m"
  by (simp add: bt_keys_def)

section \<open>Order of first occurrence\<close>

text \<open>\<open>retain(|x| seen.insert(x))\<close>.\<close>

fun nub_loop :: "'a list \<Rightarrow> 'a list \<Rightarrow> 'a list" where
  "nub_loop seen [] = []"
| "nub_loop seen (x # xs) = (if x \<in> set seen then nub_loop seen xs else x # nub_loop (x # seen) xs)"

definition nub :: "'a list \<Rightarrow> 'a list" where
  "nub xs = nub_loop [] xs"

lemma set_nub_loop: "set (nub_loop seen xs) = set xs - set seen"
  by (induction seen xs rule: nub_loop.induct) auto

lemma set_nub [simp]: "set (nub xs) = set xs"
  by (simp add: nub_def set_nub_loop)

lemma distinct_nub_loop: "distinct (nub_loop seen xs)"
  by (induction seen xs rule: nub_loop.induct) (auto simp: set_nub_loop)

lemma distinct_nub [simp]: "distinct (nub xs)"
  by (simp add: nub_def distinct_nub_loop)

end
