(* ===== verification/RecoveryStore.thy ===== *)
theory RecoveryStore
  imports Complex_Main SourceFiles OrdMap
begin

text \<open>
  The recovery store (\<open>tokenzero-recovery/src/lib.rs\<close>, \<open>frecency.rs\<close>) without a persistence
  path: \<open>persistence_path\<close> and \<open>shared_cas\<close> are \<open>None\<close>, so the state is the whole truth and
  persisting is eviction. \<open>BTreeMap\<close>s are \<open>btree\<close>s. The record \<open>io\<close> holds what the store calls
  outside the repository or reads from the world: SHA-256, the \<open>zero-ref\<close> crate, the search
  regex, the file system and the width of an enum. Also modelled are
  the pure functions the persistent store merges states with (\<open>session_delta\<close>,
  \<open>merge_states\<close>, \<open>apply_deletions\<close>).
\<close>

section \<open>State\<close>

record RecoveryConfig =
  max_blobs :: nat
  max_files :: nat
  max_units :: nat
  max_search_hits :: nat
  max_bytes :: nat
  max_load_bytes :: nat
  legacy_compat :: bool
  legacy_compat_deadline :: "nat option"

definition default_config :: RecoveryConfig where
  "default_config = \<lparr>max_blobs = 128, max_files = 256, max_units = 2048, max_search_hits = 1024,
     max_bytes = 8000000, max_load_bytes = 16000000, legacy_compat = True, legacy_compat_deadline = None\<rparr>"

record StoredFile =
  file_ref_id :: rstr
  file_path :: "rstr option"
  path_identity :: "rstr option"
  source_backed :: bool
  file_text :: rstr
  file_content_type :: rstr
  source_fingerprint :: "SourceFingerprint option"
  source_start_line :: "nat option"
  source_end_line :: "nat option"

record StoredUnit =
  unit_ref_id :: rstr
  unit_text :: rstr
  unit_content_type :: rstr
  source_ref :: "rstr option"
  start_line :: "nat option"
  end_line :: "nat option"

datatype BlobEntry = Inline rstr | FileRef rstr nat nat

record ShellOutcome =
  combined_sha :: rstr
  exit_code :: "int option"
  seen :: nat
  seq :: nat
  epoch :: nat

record RecoveryState =
  version :: nat
  st_max_blobs :: nat
  st_max_files :: nat
  st_max_units :: nat
  st_max_search_hits :: nat
  st_max_bytes :: nat
  blobs :: "(rstr, BlobEntry) btree"
  files :: "(rstr, StoredFile) btree"
  units :: "(rstr, StoredUnit) btree"
  search_hits :: "(rstr, StoredUnit) btree"
  aliases :: "(rstr, rstr) btree"
  ordinal_generation :: nat
  next_ordinal :: nat
  ref_order :: "rstr list"
  shell_outcomes :: "(rstr, ShellOutcome) btree"
  shell_outcome_seq :: nat
  shell_outcome_epoch :: nat
  ambiguous_aliases :: "rstr set"
  transparency :: MmrLog
  alias_key :: "rstr option"

definition empty_state :: "RecoveryConfig \<Rightarrow> RecoveryState" where
  "empty_state config = \<lparr>version = 1, st_max_blobs = max_blobs config, st_max_files = max_files config,
     st_max_units = max_units config, st_max_search_hits = max_search_hits config,
     st_max_bytes = max_bytes config, blobs = [], files = [], units = [], search_hits = [], aliases = [],
     ordinal_generation = 1, next_ordinal = 1, ref_order = [], shell_outcomes = [],
     shell_outcome_seq = 0, shell_outcome_epoch = 0, ambiguous_aliases = {},
     transparency = \<lparr>leaves = []\<rparr>, alias_key = None\<rparr>"

definition configure :: "RecoveryConfig \<Rightarrow> RecoveryState \<Rightarrow> RecoveryState" where
  "configure config st = st\<lparr>st_max_blobs := max_blobs config, st_max_files := max_files config,
     st_max_units := max_units config, st_max_search_hits := max_search_hits config,
     st_max_bytes := max_bytes config\<rparr>"

record StoredPayload =
  blob_ref :: rstr
  file_ref :: rstr
  unit_refs :: "rstr list"
  payload_raw_tokens :: nat
  payload_start_line :: "nat option"
  payload_end_line :: "nat option"

record PayloadMemo =
  memo_text :: rstr
  memo_content_type :: ContentType
  memo_path :: "rstr option"
  memo_start_line :: "nat option"
  memo_end_line :: "nat option"
  memo_source_backed :: bool
  memo_stored :: StoredPayload

definition memo_matches ::
    "PayloadMemo \<Rightarrow> rstr \<Rightarrow> ContentType \<Rightarrow> rstr option \<Rightarrow> nat option \<Rightarrow> nat option \<Rightarrow> bool \<Rightarrow> bool" where
  "memo_matches m t ct path sl el backed \<longleftrightarrow>
     memo_text m = t \<and> memo_content_type m = ct \<and> memo_path m = path \<and> memo_start_line m = sl \<and>
     memo_end_line m = el \<and> memo_source_backed m = backed"

record RecoveryStore =
  config :: RecoveryConfig
  state :: RecoveryState
  session_refs :: "rstr list"
  ref_classes :: "(rstr, ContentClass) btree"
  recovery_count :: nat
  store_recovery_tokens :: nat
  legacy_read_count :: nat
  pending_blob_deletions :: "rstr set"
  pending_alias_deletions :: "rstr set"
  payload_memo :: "PayloadMemo option"
  skip_empty_persist :: bool
  unreadable_snapshot :: bool

definition with_config :: "RecoveryConfig \<Rightarrow> RecoveryStore" where
  "with_config cfg = \<lparr>config = cfg, state = empty_state cfg, session_refs = [], ref_classes = [],
     recovery_count = 0, store_recovery_tokens = 0, legacy_read_count = 0, pending_blob_deletions = {},
     pending_alias_deletions = {}, payload_memo = None, skip_empty_persist = False,
     unreadable_snapshot = False\<rparr>"

record io =
  sha256 :: sha
  zref :: zero_ref
  active_model :: "rstr option"
  disk :: fs
  search_path_line :: "rstr \<Rightarrow> bool"
  blob_entry_size :: nat

abbreviation upd_state :: "(RecoveryState \<Rightarrow> RecoveryState) \<Rightarrow> RecoveryStore \<Rightarrow> RecoveryStore" where
  "upd_state f s \<equiv> s\<lparr>state := f (state s)\<rparr>"

section \<open>Hashes and markers\<close>

definition sha256_hex :: "io \<Rightarrow> rstr \<Rightarrow> rstr" where
  "sha256_hex E t = hex (sha256 E (as_bytes t))"

definition id_for :: "io \<Rightarrow> uchar \<Rightarrow> rstr \<Rightarrow> rstr" where
  "id_for E p t = p # hex (take 8 (sha256 E (as_bytes t)))"

definition BLOB_MARKER_PREFIX :: rstr where
  "BLOB_MARKER_PREFIX = 0 # lit ''tzx:v1:''"

definition blob_cas_marker :: "rstr \<Rightarrow> nat \<Rightarrow> rstr" where
  "blob_cas_marker hash len = BLOB_MARKER_PREFIX @ hash @ lit '':'' @ show_nat len @ lit '':''"

definition parse_blob_marker :: "io \<Rightarrow> rstr \<Rightarrow> (rstr \<times> nat) option" where
  "parse_blob_marker E v =
     (case strip_prefix BLOB_MARKER_PREFIX v of
        None \<Rightarrow> None
      | Some rest \<Rightarrow>
          (case split_bytes 64 rest of
             None \<Rightarrow> None
           | Some (hash, rest) \<Rightarrow>
               if \<not> is_full_lower_hex (zref E) hash then None
               else case Option.bind (strip_prefix (lit '':'') rest) (strip_suffix (lit '':'')) of
                 None \<Rightarrow> None
               | Some d \<Rightarrow> map_option (\<lambda>n. (hash, n)) (parse_usize d)))"

definition blob_value_len :: "io \<Rightarrow> BlobEntry \<Rightarrow> nat" where
  "blob_value_len E v =
     (case v of
        Inline t \<Rightarrow> (case parse_blob_marker E t of Some (_, len) \<Rightarrow> len | None \<Rightarrow> blen t)
      | FileRef path _ _ \<Rightarrow> blob_entry_size E + blen path)"

definition recovery_file_ref :: "io \<Rightarrow> rstr \<Rightarrow> rstr option \<Rightarrow> rstr" where
  "recovery_file_ref E t path =
     lit ''tz://file/f'' @ take 16 (hex (sha256 E
       (as_bytes (case path of Some p \<Rightarrow> path_identity_text p | None \<Rightarrow> []) @ as_bytes (lit '':'') @ as_bytes t)))"

definition expected_refs :: "io \<Rightarrow> rstr \<Rightarrow> rstr option \<Rightarrow> rstr \<times> rstr" where
  "expected_refs E t path = (lit ''tz://blob/'' @ sha256_hex E t, recovery_file_ref E t path)"

section \<open>Frecency\<close>

text \<open>The scores are 64-bit floats in the source and real numbers here; no rounding is modelled.\<close>

definition HALF_LIFE_SECS :: nat where
  "HALF_LIFE_SECS = 3 * 24 * 60 * 60"

definition burst_compress :: "nat \<Rightarrow> real" where
  "burst_compress count = (if count = 0 then 0 else log 2 (real count))"

definition decay :: "nat \<Rightarrow> real" where
  "decay age_secs = (1 / 2) powr (real age_secs / real HALF_LIFE_SECS)"

definition score :: "nat \<Rightarrow> nat \<Rightarrow> real" where
  "score count age_secs = burst_compress count * decay age_secs"

fun last_seen :: "rstr \<Rightarrow> nat \<Rightarrow> nat \<Rightarrow> nat option \<Rightarrow> rstr list \<Rightarrow> nat \<times> nat option" where
  "last_seen ref_id idx count lst [] = (count, lst)"
| "last_seen ref_id idx count lst (i # is) =
     (if i = ref_id then last_seen ref_id (idx + 1) (count + 1) (Some idx) is
      else last_seen ref_id (idx + 1) count lst is)"

definition score_from_order :: "rstr list \<Rightarrow> rstr \<Rightarrow> real" where
  "score_from_order order ref_id =
     (case last_seen ref_id 0 0 None order of
        (_, None) \<Rightarrow> 0
      | (count, Some lst) \<Rightarrow> score count (length order - (lst + 1)))"

fun coldest_loop ::
    "(rstr \<Rightarrow> real) \<Rightarrow> (rstr \<Rightarrow> bool) \<Rightarrow> nat \<Rightarrow> (rstr \<times> real \<times> nat) option \<Rightarrow> rstr list \<Rightarrow> (rstr \<times> real \<times> nat) option" where
  "coldest_loop value_of is_live idx best [] = best"
| "coldest_loop value_of is_live idx best (i # is) =
     (if \<not> is_live i then coldest_loop value_of is_live (idx + 1) best is
      else
        let v = value_of i;
            replace = (case best of None \<Rightarrow> True | Some (_, b, bi) \<Rightarrow> v < b \<or> (v = b \<and> idx < bi))
        in coldest_loop value_of is_live (idx + 1) (if replace then Some (i, v, idx) else best) is)"

definition coldest :: "rstr list \<Rightarrow> (rstr \<Rightarrow> bool) \<Rightarrow> rstr option" where
  "coldest order is_live = map_option fst (coldest_loop (score_from_order order) is_live 0 None order)"

section \<open>Eviction\<close>

definition state_entry_present :: "RecoveryState \<Rightarrow> rstr \<Rightarrow> bool" where
  "state_entry_present st r \<longleftrightarrow>
     bt_contains (blobs st) r \<or> bt_contains (files st) r \<or> bt_contains (units st) r \<or> bt_contains (search_hits st) r"

definition state_keys :: "RecoveryState \<Rightarrow> rstr list" where
  "state_keys st = bt_keys (blobs st) @ bt_keys (files st) @ bt_keys (units st) @ bt_keys (search_hits st)"

definition remove_entry :: "rstr \<Rightarrow> RecoveryState \<Rightarrow> RecoveryState" where
  "remove_entry r st = st\<lparr>blobs := bt_remove r (blobs st), files := bt_remove r (files st),
     units := bt_remove r (units st), search_hits := bt_remove r (search_hits st)\<rparr>"

definition evict_victims :: "(rstr, 'v) btree \<Rightarrow> rstr list \<Rightarrow> rstr \<Rightarrow> nat \<Rightarrow> rstr list" where
  "evict_victims items order pre limit =
     (let excess = length items - limit in
      if excess = 0 then []
      else let victims = take excess (nub (filter (\<lambda>r. starts_with r pre \<and> bt_contains items r) order))
           in if length victims < excess then take excess (nub (victims @ bt_keys items)) else victims)"

definition evict_prefix ::
    "(rstr, 'v) btree \<Rightarrow> rstr list \<Rightarrow> rstr \<Rightarrow> nat \<Rightarrow> (rstr, 'v) btree \<times> rstr list" where
  "evict_prefix items order pre limit =
     (let victims = evict_victims items order pre limit
      in (bt_retain (\<lambda>r. r \<notin> set victims) items, filter (\<lambda>r. r \<notin> set victims) order))"

definition saturating_usize_sum :: "nat list \<Rightarrow> nat" where
  "saturating_usize_sum ns = foldl sat_add 0 ns"

definition approx_bytes :: "io \<Rightarrow> RecoveryState \<Rightarrow> nat" where
  "approx_bytes E st =
     sat_add (sat_add
       (saturating_usize_sum (map (blob_value_len E \<circ> snd) (blobs st)))
       (saturating_usize_sum (map (\<lambda>(_, f). sat_add (blen (file_text f))
          (blen (case file_path f of Some p \<Rightarrow> p | None \<Rightarrow> []))) (files st))))
       (saturating_usize_sum (map (\<lambda>(_, u). blen (unit_text u)) (units st @ search_hits st)))"

definition evict_prefixes :: "RecoveryConfig \<Rightarrow> RecoveryState \<Rightarrow> RecoveryState" where
  "evict_prefixes cfg st =
     (let (b, ord) = evict_prefix (blobs st) (ref_order st) (lit ''tz://blob/'') (max_blobs cfg);
          (f, ord) = evict_prefix (files st) ord (lit ''tz://file/'') (max_files cfg);
          (u, ord) = evict_prefix (units st) ord (lit ''tz://unit/'') (max_units cfg);
          (h, ord) = evict_prefix (search_hits st) ord (lit ''tz://search/'') (max_search_hits cfg)
      in st\<lparr>blobs := b, files := f, units := u, search_hits := h, ref_order := ord\<rparr>)"

definition entry_count :: "RecoveryState \<Rightarrow> nat" where
  "entry_count st = length (blobs st) + length (files st) + length (units st) + length (search_hits st)"

lemma coldest_loop_live:
  "coldest_loop f live idx best is = Some (r, v, i) \<Longrightarrow>
   (case best of None \<Rightarrow> True | Some (r, _, _) \<Rightarrow> live r \<and> r \<in> S) \<Longrightarrow> set is \<subseteq> S \<Longrightarrow> live r \<and> r \<in> S"
proof (induction "is" arbitrary: idx best)
  case (Cons j js)
  let ?best = "if live j \<and> (case best of None \<Rightarrow> True | Some (_, b, bi) \<Rightarrow> f j < b \<or> (f j = b \<and> idx < bi))
    then Some (j, f j, idx) else best"
  have "coldest_loop f live (idx + 1) ?best js = Some (r, v, i)" using Cons.prems(1) by (simp add: Let_def split: if_splits)
  moreover have "case ?best of None \<Rightarrow> True | Some (r, _, _) \<Rightarrow> live r \<and> r \<in> S" using Cons.prems(2,3) by simp
  ultimately show ?case using Cons.IH Cons.prems(3) by simp
qed simp

lemma coldest_live: "coldest ord live = Some r \<Longrightarrow> live r \<and> r \<in> set ord"
proof -
  assume "coldest ord live = Some r"
  then obtain v i where "coldest_loop (score_from_order ord) live 0 None ord = Some (r, v, i)"
    by (auto simp: coldest_def)
  then show ?thesis by (rule coldest_loop_live) auto
qed

lemma entry_count_remove: "state_entry_present st r \<Longrightarrow> entry_count (remove_entry r st) < entry_count st"
proof -
  have le: "length (bt_remove r m) \<le> length m" for m :: "(rstr, 'a) btree" by (rule length_bt_remove_le)
  assume "state_entry_present st r"
  then show ?thesis unfolding state_entry_present_def bt_contains_iff entry_count_def remove_entry_def
    using length_bt_remove [of r "blobs st"] length_bt_remove [of r "files st"] length_bt_remove [of r "units st"]
      length_bt_remove [of r "search_hits st"] length_bt_remove_le [of r "blobs st"]
      length_bt_remove_le [of r "files st"] length_bt_remove_le [of r "units st"]
      length_bt_remove_le [of r "search_hits st"]
    by auto
qed

function evict_bytes :: "io \<Rightarrow> nat \<Rightarrow> RecoveryState \<Rightarrow> RecoveryState" where
  "evict_bytes E limit st =
     (if approx_bytes E st > limit then
        (case coldest (ref_order st) (state_entry_present st) of
           None \<Rightarrow> st
         | Some victim \<Rightarrow> evict_bytes E limit (remove_entry victim st))
      else st)"
  by pat_completeness auto
termination
  by (relation "measure (\<lambda>(E, limit, st). entry_count st)") (auto dest!: coldest_live intro: entry_count_remove)

declare evict_bytes.simps [simp del]

definition compact_order :: "RecoveryState \<Rightarrow> RecoveryState" where
  "compact_order st = st\<lparr>ref_order := nub (filter (\<lambda>r. r \<in> set (state_keys st)) (ref_order st))\<rparr>"

text \<open>
  \<open>drop_ref\<close> also clears the \<open>skip_empty_persist\<close> flag; the loop runs it at least once exactly
  when the state needs it.
\<close>

definition evict :: "io \<Rightarrow> RecoveryStore \<Rightarrow> RecoveryStore" where
  "evict E s =
     (let st = evict_prefixes (config s) (state s);
          st' = evict_bytes E (max_bytes (config s)) st;
          dropped = (approx_bytes E st > max_bytes (config s) \<and>
                     coldest (ref_order st) (state_entry_present st) \<noteq> None)
      in s\<lparr>state := compact_order st', skip_empty_persist := skip_empty_persist s \<and> \<not> dropped\<rparr>)"

definition persist_skip_empty :: "RecoveryStore \<Rightarrow> bool" where
  "persist_skip_empty s \<longleftrightarrow>
     skip_empty_persist s \<and> session_refs s = [] \<and> pending_blob_deletions s = {} \<and> pending_alias_deletions s = {}"

definition persist :: "io \<Rightarrow> RecoveryStore \<Rightarrow> RecoveryStore" where
  "persist E s =
     (if persist_skip_empty s then s\<lparr>skip_empty_persist := False\<rparr>
      else evict E (s\<lparr>skip_empty_persist := False\<rparr>))"

section \<open>Aliases\<close>

definition log_event :: "io \<Rightarrow> rstr \<Rightarrow> RecoveryState \<Rightarrow> RecoveryState" where
  "log_event E event st = st\<lparr>transparency := fst (log_append (sha256 E) (transparency st) (as_bytes event))\<rparr>"

definition alias_event :: "rstr \<Rightarrow> rstr \<Rightarrow> rstr" where
  "alias_event alias target = lit ''alias-cas'' @ [0] @ alias @ [0] @ target"

definition mint_event :: "rstr \<Rightarrow> rstr" where
  "mint_event r = lit ''mint'' @ [0] @ r"

definition store_alias_deferred :: "io \<Rightarrow> RecoveryStore \<Rightarrow> rstr \<Rightarrow> rstr \<Rightarrow> RecoveryStore" where
  "store_alias_deferred E s alias target =
     (if alias = [] \<or> target = [] then s
      else let s = s\<lparr>skip_empty_persist := False\<rparr> in
        case bt_get (aliases (state s)) alias of
          Some current \<Rightarrow>
            if current = target then s
            else upd_state (\<lambda>st. st\<lparr>ambiguous_aliases := ambiguous_aliases st \<union> {alias}\<rparr>) s
        | None \<Rightarrow>
            upd_state (\<lambda>st. (log_event E (alias_event alias target) st)\<lparr>aliases := bt_insert alias target (aliases st)\<rparr>) s)"

datatype StoreError = AliasEmpty | OrdinalRangeEmpty | OrdinalOverflow | OrdinalOffset | OrdinalTarget | OrdinalTaken
  | SourcePath | SourceUnreadable | SourceRange

definition store_alias :: "io \<Rightarrow> RecoveryStore \<Rightarrow> rstr \<Rightarrow> rstr \<Rightarrow> StoreError + RecoveryStore" where
  "store_alias E s alias target =
     (if alias = [] \<or> target = [] then Err AliasEmpty
      else Ok (persist E (store_alias_deferred E s alias target)))"

definition remove_alias :: "RecoveryStore \<Rightarrow> rstr \<Rightarrow> RecoveryStore" where
  "remove_alias s alias =
     s\<lparr>skip_empty_persist := False,
       state := (state s)\<lparr>aliases := bt_remove alias (aliases (state s)),
                          ambiguous_aliases := ambiguous_aliases (state s) - {alias}\<rparr>,
       pending_alias_deletions := pending_alias_deletions s \<union> {alias}\<rparr>"

definition remove_blob :: "RecoveryStore \<Rightarrow> rstr \<Rightarrow> RecoveryStore" where
  "remove_blob s r =
     s\<lparr>skip_empty_persist := False, state := (state s)\<lparr>blobs := bt_remove r (blobs (state s))\<rparr>,
       pending_blob_deletions := pending_blob_deletions s \<union> {r}\<rparr>"

definition mark_ambiguous :: "RecoveryStore \<Rightarrow> rstr \<Rightarrow> RecoveryStore" where
  "mark_ambiguous s r =
     s\<lparr>skip_empty_persist := False,
       state := (state s)\<lparr>ambiguous_aliases := ambiguous_aliases (state s) \<union> {r}\<rparr>\<rparr>"

definition is_alias_ambiguous :: "RecoveryStore \<Rightarrow> rstr \<Rightarrow> bool" where
  "is_alias_ambiguous s r \<longleftrightarrow> r \<in> ambiguous_aliases (state s)"

definition alias_target :: "RecoveryStore \<Rightarrow> rstr \<Rightarrow> rstr option" where
  "alias_target s alias = bt_get (aliases (state s)) alias"

text \<open>At most eight steps are followed; a longer chain, and so any cycle, resolves to nothing.\<close>

fun alias_chain_loop :: "(rstr, rstr) btree \<Rightarrow> nat \<Rightarrow> bool \<Rightarrow> rstr \<Rightarrow> rstr option" where
  "alias_chain_loop m 0 advanced current = None"
| "alias_chain_loop m (Suc k) advanced current =
     (case bt_get m current of
        None \<Rightarrow> if \<not> advanced then None else Some current
      | Some nxt \<Rightarrow> alias_chain_loop m k True nxt)"

definition resolve_alias_chain :: "RecoveryState \<Rightarrow> rstr \<Rightarrow> rstr option" where
  "resolve_alias_chain st ref_id =
     (let (bare, frag) = split_ref_fragment ref_id
      in map_option (\<lambda>current. with_fragment current frag) (alias_chain_loop (aliases st) 8 False bare))"

section \<open>Ordinals\<close>

record OrdinalRange =
  generation :: nat
  range_start :: nat
  end_exclusive :: nat

definition range_len :: "OrdinalRange \<Rightarrow> nat" where
  "range_len r = end_exclusive r - range_start r"

definition range_is_empty :: "OrdinalRange \<Rightarrow> bool" where
  "range_is_empty r \<longleftrightarrow> range_start r = end_exclusive r"

definition ref_for :: "OrdinalRange \<Rightarrow> nat \<Rightarrow> rstr option" where
  "ref_for r offset =
     (if offset < range_len r then Some (session_ordinal_ref (generation r) (range_start r + offset)) else None)"

definition reserve_ordinal_range :: "RecoveryStore \<Rightarrow> nat \<Rightarrow> StoreError + (OrdinalRange \<times> RecoveryStore)" where
  "reserve_ordinal_range s count =
     (if count = 0 then Err OrdinalRangeEmpty
      else let start = next_ordinal (state s) in
        case checked_add start count of
          None \<Rightarrow> Err OrdinalOverflow
        | Some e \<Rightarrow>
            Ok (\<lparr>generation = ordinal_generation (state s), range_start = start, end_exclusive = e\<rparr>,
                upd_state (\<lambda>st. st\<lparr>next_ordinal := e\<rparr>) s))"

definition store_ordinal_alias_deferred ::
    "io \<Rightarrow> RecoveryStore \<Rightarrow> OrdinalRange \<Rightarrow> nat \<Rightarrow> rstr \<Rightarrow> StoreError + (rstr \<times> RecoveryStore)" where
  "store_ordinal_alias_deferred E s rng offset target_ref =
     (case ref_for rng offset of
        None \<Rightarrow> Err OrdinalOffset
      | Some alias \<Rightarrow>
          (case canonical_full_blob_ref (fst (split_ref_fragment target_ref)) of
             None \<Rightarrow> Err OrdinalTarget
           | Some target \<Rightarrow>
               if (case bt_get (aliases (state s)) alias of Some existing \<Rightarrow> existing \<noteq> target | None \<Rightarrow> False)
               then Err OrdinalTaken
               else Ok (alias, store_alias_deferred E s alias target)))"

section \<open>Storing\<close>

definition remember_ref :: "rstr \<Rightarrow> RecoveryStore \<Rightarrow> RecoveryStore" where
  "remember_ref r s =
     s\<lparr>skip_empty_persist := False, state := (state s)\<lparr>ref_order := ref_order (state s) @ [r]\<rparr>,
       session_refs := session_refs s @ [r]\<rparr>"

definition track_ref_class :: "rstr \<Rightarrow> ContentType \<Rightarrow> RecoveryStore \<Rightarrow> RecoveryStore" where
  "track_ref_class r ct s = s\<lparr>ref_classes := bt_insert r (classify_ref r (Some ct)) (ref_classes s)\<rparr>"

definition register_blob ::
    "io \<Rightarrow> RecoveryStore \<Rightarrow> rstr \<Rightarrow> rstr \<Rightarrow> ContentType \<Rightarrow> BlobEntry option \<Rightarrow> rstr \<times> RecoveryStore" where
  "register_blob E s full_hash legacy_ref ct entry =
     (let r = lit ''tz://blob/'' @ full_hash;
          s = track_ref_class r ct s;
          s = (if legacy_ref \<noteq> r then store_alias_deferred E s legacy_ref r else s);
          s = (case entry of Some v \<Rightarrow> upd_state (\<lambda>st. st\<lparr>blobs := bt_insert r v (blobs st)\<rparr>) s | None \<Rightarrow> s)
      in (r, remember_ref r s))"

definition put_blob :: "io \<Rightarrow> RecoveryStore \<Rightarrow> rstr \<Rightarrow> ContentType \<Rightarrow> rstr \<times> RecoveryStore" where
  "put_blob E s t ct =
     (let full_hash = sha256_hex E t;
          canonical_ref = lit ''tz://blob/'' @ full_hash;
          s = (if \<not> bt_contains (blobs (state s)) canonical_ref
               then upd_state (log_event E (mint_event canonical_ref)) s else s)
      in register_blob E s full_hash (lit ''tz://blob/'' @ id_for E 98 t) ct (Some (Inline t)))"

definition put_file_backed_blob_hashed ::
    "io \<Rightarrow> RecoveryStore \<Rightarrow> rstr \<Rightarrow> nat \<Rightarrow> nat \<Rightarrow> ContentType \<Rightarrow> rstr \<Rightarrow> rstr \<times> RecoveryStore" where
  "put_file_backed_blob_hashed E s path sl el ct full_hash =
     register_blob E s full_hash (lit ''tz://blob/b'' @ take 16 full_hash) ct (Some (FileRef path sl el))"

definition store_blob_deferred :: "io \<Rightarrow> RecoveryStore \<Rightarrow> rstr \<Rightarrow> ContentType \<Rightarrow> rstr \<times> RecoveryStore" where
  "store_blob_deferred E s t ct = put_blob E s t ct"

definition persist_evicted :: "io \<Rightarrow> RecoveryStore \<Rightarrow> RecoveryStore" where
  "persist_evicted E s = persist E (evict E s)"

definition store_blob :: "io \<Rightarrow> RecoveryStore \<Rightarrow> rstr \<Rightarrow> ContentType \<Rightarrow> rstr \<times> RecoveryStore" where
  "store_blob E s t ct = (let (r, s) = put_blob E s t ct in (r, persist_evicted E s))"

definition put_file_backed_blob ::
    "io \<Rightarrow> RecoveryStore \<Rightarrow> rstr \<Rightarrow> rstr \<Rightarrow> nat \<Rightarrow> nat \<Rightarrow> ContentType \<Rightarrow> rstr \<times> RecoveryStore" where
  "put_file_backed_blob E s t path sl el ct = put_file_backed_blob_hashed E s path sl el ct (sha256_hex E t)"

definition read_to_string :: "io \<Rightarrow> rstr \<Rightarrow> rstr option" where
  "read_to_string E path = Option.bind (disk E path) (\<lambda>f. from_utf8 (file_bytes f))"

definition store_file_backed_blob ::
    "io \<Rightarrow> RecoveryStore \<Rightarrow> rstr \<Rightarrow> nat \<Rightarrow> nat \<Rightarrow> ContentType \<Rightarrow> StoreError + (rstr \<times> RecoveryStore)" where
  "store_file_backed_blob E s path sl el ct =
     (if unexpanded_tilde_path path then Err SourcePath
      else case read_to_string E path of
        None \<Rightarrow> Err SourceUnreadable
      | Some source \<Rightarrow>
          if line_range_out_of_bounds sl el (content_line_count source) then Err SourceRange
          else let (r, s) = put_file_backed_blob E s (line_slice_exact source sl el) path sl el ct
               in Ok (r, persist_evicted E s))"

definition is_ephemeral_source_path :: "rstr \<Rightarrow> bool" where
  "is_ephemeral_source_path p \<longleftrightarrow> starts_with p (lit ''shell:'') \<or> starts_with p (lit ''search:'')"

definition fingerprint_for_stored_payload ::
    "io \<Rightarrow> rstr option \<Rightarrow> nat option \<Rightarrow> nat option \<Rightarrow> SourceFingerprint option" where
  "fingerprint_for_stored_payload E path sl el =
     (if sl \<noteq> None \<or> el \<noteq> None then None
      else case path of None \<Rightarrow> None
        | Some p \<Rightarrow> if is_ephemeral_source_path p then None else source_fingerprint_of (sha256 E) (disk E) p)"

definition put_file_entry ::
    "io \<Rightarrow> RecoveryStore \<Rightarrow> rstr \<Rightarrow> ContentType \<Rightarrow> rstr option \<Rightarrow> bool \<Rightarrow> SourceFingerprint option \<Rightarrow>
     nat option \<Rightarrow> nat option \<Rightarrow> rstr \<times> RecoveryStore" where
  "put_file_entry E s t ct path backed fp sl el =
     (let r = recovery_file_ref E t path;
          s = track_ref_class r ct s;
          f = \<lparr>file_ref_id = r, file_path = path, path_identity = map_option (path_identity_text) path,
               source_backed = backed, file_text = (if backed then [] else t),
               file_content_type = content_type_str ct, source_fingerprint = fp,
               source_start_line = sl, source_end_line = el\<rparr>;
          s = upd_state (\<lambda>st. st\<lparr>files := bt_insert r f (files st)\<rparr>) s
      in (r, remember_ref r s))"

definition put_file ::
    "io \<Rightarrow> RecoveryStore \<Rightarrow> rstr \<Rightarrow> ContentType \<Rightarrow> rstr option \<Rightarrow> nat option \<Rightarrow> nat option \<Rightarrow> rstr \<times> RecoveryStore" where
  "put_file E s t ct path sl el =
     put_file_entry E s t ct path False (fingerprint_for_stored_payload E path sl el) sl el"

definition put_source_backed_file ::
    "io \<Rightarrow> RecoveryStore \<Rightarrow> rstr \<Rightarrow> ContentType \<Rightarrow> rstr \<Rightarrow> rstr \<Rightarrow> rstr \<times> RecoveryStore" where
  "put_source_backed_file E s t ct path sha =
     put_file_entry E s t ct (Some path) True (source_fingerprint_from_sha256 (disk E) path sha) None None"

definition insert_stored_unit ::
    "RecoveryStore \<Rightarrow> bool \<Rightarrow> rstr \<Rightarrow> rstr \<Rightarrow> ContentType \<Rightarrow> rstr option \<Rightarrow> nat option \<Rightarrow> nat option \<Rightarrow> RecoveryStore" where
  "insert_stored_unit s search_hit r t ct src sl el =
     (let s = track_ref_class r ct s;
          u = \<lparr>unit_ref_id = r, unit_text = t, unit_content_type = content_type_str ct, source_ref = src,
               start_line = sl, end_line = el\<rparr>;
          s = (if search_hit then upd_state (\<lambda>st. st\<lparr>search_hits := bt_insert r u (search_hits st)\<rparr>) s
               else upd_state (\<lambda>st. if bt_contains (units st) r then st else st\<lparr>units := bt_insert r u (units st)\<rparr>) s)
      in remember_ref r s)"

definition put_unit ::
    "io \<Rightarrow> RecoveryStore \<Rightarrow> rstr \<Rightarrow> ContentType \<Rightarrow> rstr option \<Rightarrow> nat option \<Rightarrow> nat option \<Rightarrow> rstr \<times> RecoveryStore" where
  "put_unit E s t ct src sl el =
     (let r = lit ''tz://unit/'' @ id_for E 117 t in (r, insert_stored_unit s False r t ct src sl el))"

fun index_units_loop ::
    "io \<Rightarrow> ContentType \<Rightarrow> rstr \<Rightarrow> nat \<Rightarrow> rstr list \<Rightarrow> RecoveryStore \<Rightarrow> rstr list \<Rightarrow> rstr list \<times> RecoveryStore" where
  "index_units_loop E ct src idx refs s [] = (refs, s)"
| "index_units_loop E ct src idx refs s (line # ls) =
     (let stripped = trim line;
          (refs, s) = (if blen stripped \<ge> 12 then
              let (r, s) = put_unit E s stripped ct (Some src) (Some (idx + 1)) (Some (idx + 1)) in (refs @ [r], s)
            else (refs, s))
      in if length refs \<ge> 64 then (refs, s) else index_units_loop E ct src (idx + 1) refs s ls)"

definition index_units :: "io \<Rightarrow> RecoveryStore \<Rightarrow> rstr \<Rightarrow> ContentType \<Rightarrow> rstr \<Rightarrow> rstr list \<times> RecoveryStore" where
  "index_units E s t ct src = index_units_loop E ct src 0 [] s (str_lines t)"

definition finish_payload ::
    "io \<Rightarrow> RecoveryStore \<Rightarrow> rstr \<Rightarrow> rstr \<Rightarrow> rstr \<Rightarrow> ContentType \<Rightarrow> nat option \<Rightarrow> nat option \<Rightarrow> StoredPayload \<times> RecoveryStore" where
  "finish_payload E s b f t ct sl el =
     (let (us, s) = index_units E s t ct f
      in (\<lparr>blob_ref = b, file_ref = f, unit_refs = us, payload_raw_tokens = count_tokens (active_model E) t,
           payload_start_line = sl, payload_end_line = el\<rparr>, s))"

section \<open>Lookups\<close>

definition has_ref :: "RecoveryStore \<Rightarrow> rstr \<Rightarrow> bool" where
  "has_ref s ref_id =
     (case canonicalize_expand_ref ref_id of
        None \<Rightarrow> False
      | Some lookup \<Rightarrow>
          let lookup = (case resolve_alias_chain (state s) lookup of Some r \<Rightarrow> r | None \<Rightarrow> lookup) in
          case parse_ref lookup of
            None \<Rightarrow> False
          | Some p \<Rightarrow>
              if ref_kind p = lit ''blob'' then bt_contains (blobs (state s)) (ref_bare p)
              else if ref_kind p = lit ''file'' then bt_contains (files (state s)) (ref_bare p)
              else if ref_kind p = lit ''unit'' then bt_contains (units (state s)) (ref_bare p)
              else if ref_kind p = lit ''search'' then bt_contains (search_hits (state s)) (ref_bare p)
              else False)"

datatype RefResolve = Found rstr | FoundVerified rstr rstr | NotFound | Stale | DecodeFailed

fun verified_sha256 :: "RefResolve \<Rightarrow> rstr option" where
  "verified_sha256 (FoundVerified _ h) = Some h"
| "verified_sha256 _ = None"

definition blob_ref_digest_matches :: "io \<Rightarrow> rstr \<Rightarrow> rstr \<Rightarrow> rstr \<Rightarrow> bool" where
  "blob_ref_digest_matches E ref_id t h =
     (case strip_prefix (lit ''tz://blob/'') ref_id of
        None \<Rightarrow> False
      | Some hash \<Rightarrow> if blen hash = 64 then h = hash else id_for E 98 t = hash)"

definition stored_source_path :: "io \<Rightarrow> StoredFile \<Rightarrow> rstr option" where
  "stored_source_path E f =
     (case file_path f of
        None \<Rightarrow> None
      | Some p \<Rightarrow> Some (case Option.bind (path_identity f) (path_from_identity_text) of Some q \<Rightarrow> q | None \<Rightarrow> p))"

definition resolve_file_value :: "io \<Rightarrow> StoredFile \<Rightarrow> RefResolve" where
  "resolve_file_value E f =
     (if \<not> source_backed f then Found (file_text f)
      else case stored_source_path E f of
        None \<Rightarrow> DecodeFailed
      | Some path \<Rightarrow>
          (case source_fingerprint f of
             None \<Rightarrow> DecodeFailed
           | Some fp \<Rightarrow>
               if \<not> fp_size fp \<le> usize_max then Stale
               else case read_utf8_hashed (sha256 E) (disk E) path (Some (fp_size fp)) of
                 None \<Rightarrow> Stale
               | Some (t, h) \<Rightarrow> if source_fingerprint_from_sha256 (disk E) path h = Some fp then Found t else Stale))"

text \<open>Without a cache path an externalised blob cannot be read back.\<close>

definition resolve_blob_value :: "io \<Rightarrow> rstr \<Rightarrow> BlobEntry \<Rightarrow> RefResolve" where
  "resolve_blob_value E ref_id entry =
     (case entry of
        Inline v \<Rightarrow> if starts_with v BLOB_MARKER_PREFIX then DecodeFailed else Found v
      | FileRef path sl el \<Rightarrow>
          (case read_utf8_line_range_hashed (sha256 E) (disk E) path sl el of
             None \<Rightarrow> Stale
           | Some (t, h) \<Rightarrow> if blob_ref_digest_matches E ref_id t h then FoundVerified t h else Stale))"

definition resolve_ref :: "io \<Rightarrow> RecoveryState \<Rightarrow> rstr \<Rightarrow> rstr \<Rightarrow> RefResolve" where
  "resolve_ref E st kind bare =
     (if kind = lit ''blob'' then
        (case bt_get (blobs st) bare of None \<Rightarrow> NotFound | Some v \<Rightarrow> resolve_blob_value E bare v)
      else if kind = lit ''file'' then
        (case bt_get (files st) bare of None \<Rightarrow> NotFound | Some f \<Rightarrow> resolve_file_value E f)
      else if kind = lit ''unit'' then
        (case bt_get (units st) bare of None \<Rightarrow> NotFound | Some u \<Rightarrow> Found (unit_text u))
      else if kind = lit ''search'' then
        (case bt_get (search_hits st) bare of None \<Rightarrow> NotFound | Some u \<Rightarrow> Found (unit_text u))
      else NotFound)"

definition resolve_blob_content :: "io \<Rightarrow> RecoveryStore \<Rightarrow> rstr \<Rightarrow> rstr option" where
  "resolve_blob_content E s ref_id =
     (case bt_get (blobs (state s)) ref_id of
        None \<Rightarrow> None
      | Some v \<Rightarrow> (case resolve_blob_value E ref_id v of Found t \<Rightarrow> Some t | FoundVerified t _ \<Rightarrow> Some t | _ \<Rightarrow> None))"

definition file_ref_is_stale :: "io \<Rightarrow> RecoveryState \<Rightarrow> rstr \<Rightarrow> bool" where
  "file_ref_is_stale E st bare =
     (case bt_get (files st) bare of
        None \<Rightarrow> False
      | Some f \<Rightarrow>
          if is_ephemeral_source_path (case file_path f of Some p \<Rightarrow> p | None \<Rightarrow> []) then False
          else case (source_fingerprint f, stored_source_path E f) of
            (Some fp, Some path) \<Rightarrow> source_fingerprint_of (sha256 E) (disk E) path \<noteq> Some fp
          | _ \<Rightarrow> False)"

definition resolve_to_expand_content :: "RefResolve \<Rightarrow> rstr \<Rightarrow> rstr \<Rightarrow> rstr + rstr" where
  "resolve_to_expand_content resolve requested_ref kind =
     (case resolve of
        Found c \<Rightarrow> Ok c
      | FoundVerified c _ \<Rightarrow> Ok c
      | Stale \<Rightarrow> Err (lit ''stale-ref'')
      | DecodeFailed \<Rightarrow> Err (lit ''decode-failed'')
      | NotFound \<Rightarrow>
          if is_foreign_blob_ref requested_ref then Err (lit ''ref-not-found'') else Err (ref_not_found_reason kind))"

section \<open>Payloads and search output\<close>

definition memoized_payload ::
    "RecoveryStore \<Rightarrow> rstr \<Rightarrow> ContentType \<Rightarrow> rstr option \<Rightarrow> nat option \<Rightarrow> nat option \<Rightarrow> bool \<Rightarrow> StoredPayload option" where
  "memoized_payload s t ct path sl el backed =
     (case payload_memo s of
        None \<Rightarrow> None
      | Some memo \<Rightarrow>
          if memo_matches memo t ct path sl el backed \<and>
             bt_contains (files (state s)) (file_ref (memo_stored memo)) \<and>
             list_all (bt_contains (units (state s))) (unit_refs (memo_stored memo)) \<and>
             has_ref s (blob_ref (memo_stored memo))
          then Some (memo_stored memo) else None)"

definition admit_memoized_payload ::
    "RecoveryStore \<Rightarrow> rstr \<Rightarrow> ContentType \<Rightarrow> rstr option \<Rightarrow> nat option \<Rightarrow> nat option \<Rightarrow> bool \<Rightarrow>
     (StoredPayload \<times> RecoveryStore) option" where
  "admit_memoized_payload s t ct path sl el backed =
     map_option (\<lambda>p. (p, s\<lparr>skip_empty_persist := True\<rparr>)) (memoized_payload s t ct path sl el backed)"

definition memoize_payload ::
    "rstr \<Rightarrow> ContentType \<Rightarrow> rstr option \<Rightarrow> nat option \<Rightarrow> nat option \<Rightarrow> bool \<Rightarrow> StoredPayload \<Rightarrow> RecoveryStore \<Rightarrow> RecoveryStore" where
  "memoize_payload t ct path sl el backed stored s =
     s\<lparr>payload_memo := Some \<lparr>memo_text = t, memo_content_type = ct, memo_path = path, memo_start_line = sl,
        memo_end_line = el, memo_source_backed = backed, memo_stored = stored\<rparr>\<rparr>"

definition store_payload_deferred_batch ::
    "io \<Rightarrow> RecoveryStore \<Rightarrow> rstr \<Rightarrow> ContentType \<Rightarrow> rstr option \<Rightarrow> nat option \<Rightarrow> nat option \<Rightarrow> StoredPayload \<times> RecoveryStore" where
  "store_payload_deferred_batch E s t ct path sl el =
     (case admit_memoized_payload s t ct path sl el False of
        Some r \<Rightarrow> r
      | None \<Rightarrow>
          let (b, s) = put_blob E s t ct;
              (f, s) = put_file E s t ct path sl el;
              (stored, s) = finish_payload E s b f t ct sl el
          in (stored, memoize_payload t ct path sl el False stored s))"

definition store_payload_deferred ::
    "io \<Rightarrow> RecoveryStore \<Rightarrow> rstr \<Rightarrow> ContentType \<Rightarrow> rstr option \<Rightarrow> nat option \<Rightarrow> nat option \<Rightarrow> StoredPayload \<times> RecoveryStore" where
  "store_payload_deferred E s t ct path sl el =
     (let (stored, s) = store_payload_deferred_batch E s t ct path sl el
      in (stored, if \<not> skip_empty_persist s then evict E s else s))"

definition store_payload ::
    "io \<Rightarrow> RecoveryStore \<Rightarrow> rstr \<Rightarrow> ContentType \<Rightarrow> rstr option \<Rightarrow> nat option \<Rightarrow> nat option \<Rightarrow> StoredPayload \<times> RecoveryStore" where
  "store_payload E s t ct path sl el =
     (let (stored, s) = store_payload_deferred E s t ct path sl el in (stored, persist E s))"

definition store_source_backed_payload_deferred_batch ::
    "io \<Rightarrow> RecoveryStore \<Rightarrow> rstr \<Rightarrow> ContentType \<Rightarrow> rstr \<Rightarrow> StoredPayload \<times> RecoveryStore" where
  "store_source_backed_payload_deferred_batch E s t ct path =
     (case admit_memoized_payload s t ct (Some path) None None True of
        Some r \<Rightarrow> r
      | None \<Rightarrow>
          let h = sha256_hex E t;
              (b, s) = put_file_backed_blob_hashed E s path 1 (content_line_count t) ct h;
              (f, s) = put_source_backed_file E s t ct path h;
              (stored, s) = finish_payload E s b f t ct None None
          in (stored, memoize_payload t ct (Some path) None None True stored s))"

fun search_loop ::
    "io \<Rightarrow> rstr option \<Rightarrow> nat \<Rightarrow> rstr list \<Rightarrow> RecoveryStore \<Rightarrow> rstr list \<Rightarrow> rstr list \<times> RecoveryStore" where
  "search_loop E query idx refs s [] = (refs, s)"
| "search_loop E query idx refs s (line # ls) =
     (if trim line = [] then search_loop E query (idx + 1) refs s ls
      else if (case query of Some q \<Rightarrow> \<not> str_contains line q | None \<Rightarrow> False) \<and> \<not> search_path_line E line
      then search_loop E query (idx + 1) refs s ls
      else let r = lit ''tz://search/'' @ id_for E 104 (lit ''search:'' @ show_nat idx @ lit '':'' @ line)
           in search_loop E query (idx + 1) (refs @ [r])
                (insert_stored_unit s True r line SearchResult None (Some (idx + 1)) (Some (idx + 1))) ls)"

definition store_search_output_deferred :: "io \<Rightarrow> RecoveryStore \<Rightarrow> rstr \<Rightarrow> rstr option \<Rightarrow> rstr list \<times> RecoveryStore" where
  "store_search_output_deferred E s output query =
     (let (refs, s) = search_loop E query 0 [] s (str_lines output) in (refs, evict E s))"

section \<open>Expansion\<close>

record ExpansionResult =
  er_ref :: rstr
  er_selector :: "rstr option"
  content :: rstr
  tokens :: nat
  found :: bool
  reason :: rstr
  clamped :: bool
  returned_start_line :: "nat option"
  returned_end_line :: "nat option"
  line_count :: "nat option"

definition ok_with_tokens :: "rstr \<Rightarrow> rstr option \<Rightarrow> rstr \<Rightarrow> nat \<Rightarrow> ExpansionResult" where
  "ok_with_tokens r sel c n = \<lparr>er_ref = r, er_selector = sel, content = c, tokens = n, found = True,
     reason = lit ''ok'', clamped = False, returned_start_line = None, returned_end_line = None, line_count = None\<rparr>"

definition missing :: "rstr \<Rightarrow> rstr option \<Rightarrow> rstr \<Rightarrow> ExpansionResult" where
  "missing r sel why = \<lparr>er_ref = r, er_selector = sel, content = [], tokens = 0, found = False,
     reason = why, clamped = False, returned_start_line = None, returned_end_line = None, line_count = None\<rparr>"

definition note_legacy_expand :: "RecoveryStore \<Rightarrow> rstr \<Rightarrow> rstr option \<times> RecoveryStore" where
  "note_legacy_expand s lookup =
     (if \<not> is_legacy_same_store_blob_ref lookup then (None, s)
      else if \<not> legacy_compat (config s) then (Some (lit ''legacy-ref-disabled''), s)
      else if bare_of lookup \<in> ambiguous_aliases (state s) then (Some (lit ''legacy-ambiguous''), s)
      else (None, s\<lparr>legacy_read_count := legacy_read_count s + 1\<rparr>))"

definition replacen_once :: "rstr \<Rightarrow> rstr \<Rightarrow> rstr \<Rightarrow> rstr" where
  "replacen_once s from to =
     (case str_find s from of None \<Rightarrow> s | Some i \<Rightarrow> take i s @ to @ drop (i + length from) s)"

text \<open>
  The content stage of \<open>expand\<close>: resolution of the parsed reference, the integrity check of
  portable references and the staleness check of file references.
\<close>

definition expand_content ::
    "io \<Rightarrow> RecoveryState \<Rightarrow> rstr \<Rightarrow> ZeroRefBlob option \<Rightarrow> bool \<Rightarrow> ParsedRef \<Rightarrow> rstr + rstr" where
  "expand_content E st requested portable requested_alias p =
     (let resolved = resolve_ref E st (ref_kind p) (ref_bare p) in
      case resolve_to_expand_content resolved requested (ref_kind p) of
        Inl why \<Rightarrow>
          if requested_alias \<and> starts_with why (lit ''ref-not-found'') then Err (lit ''dangling-ref'') else Err why
      | Inr c \<Rightarrow>
          if (case portable of None \<Rightarrow> False
              | Some z \<Rightarrow> verified_sha256 resolved \<noteq> Some (zr_hash z) \<and> sha256_hex E c \<noteq> zr_hash z)
          then Err (lit ''zeroref-corruption'')
          else if ref_kind p = lit ''file'' \<and> file_ref_is_stale E st (ref_bare p) then Err (lit ''stale-ref'')
          else Ok c)"

definition is_byte_spec :: "(FragmentError + FragmentSpec) option \<Rightarrow> bool" where
  "is_byte_spec f = (case f of Some (Inr (Byte _ _)) \<Rightarrow> True | _ \<Rightarrow> False)"

definition is_line_spec :: "(FragmentError + FragmentSpec) option \<Rightarrow> bool" where
  "is_line_spec f = (case f of Some (Inr (Line _ _)) \<Rightarrow> True | _ \<Rightarrow> False)"

text \<open>The selection stage: line window, fragment, selector.\<close>

definition expand_select ::
    "rstr \<Rightarrow> (FragmentError + FragmentSpec) option \<Rightarrow> rstr option \<Rightarrow> nat option \<Rightarrow> nat option \<Rightarrow> rstr option \<Rightarrow> rstr option \<Rightarrow>
     rstr + (rstr \<times> (bool \<times> nat \<times> nat \<times> nat) option)" where
  "expand_select c fspec selector start stop anchor_kind symbol =
     (let (start, stop) = (case fspec of Some (Inr (Line i j)) \<Rightarrow> (Some i, Some j) | _ \<Rightarrow> (start, stop));
          (start, stop) = resolve_selector_line_window selector start stop
      in case (if is_byte_spec fspec then Ok (None, stop) else clamp_line_window c start stop) of
           Inl why \<Rightarrow>
             Err (if is_line_spec fspec
                  then replacen_once why (lit ''window-out-of-range'') (fragment_error_reason FOutOfRange) else why)
         | Inr (window, stop) \<Rightarrow>
             (case expand_selected_content c fspec selector start stop anchor_kind symbol of
                Inl why \<Rightarrow> Err why
              | Inr t \<Rightarrow> Ok (t, window)))"

text \<open>
  The routing stage: the fragment, the portable and the canonical form, legacy and ordinal
  aliases, and the alias chain, in the order of the source. A result is the portable form,
  whether an alias was requested, and the parsed reference with its fragment.
\<close>

definition alias_miss :: "RecoveryState \<Rightarrow> rstr \<Rightarrow> rstr option" where
  "alias_miss st bare =
     (if bare \<in> ambiguous_aliases st then Some (lit ''ambiguous-alias'')
      else case parse_session_ordinal_bare bare of
        None \<Rightarrow> None
      | Some (g, _) \<Rightarrow>
          if g \<noteq> ordinal_generation st then Some (lit ''stale-ref'')
          else if \<not> bt_contains (aliases st) bare then Some (lit ''dangling-ref'') else None)"

definition resolved_spec :: "rstr option \<Rightarrow> ParsedRef \<Rightarrow> (FragmentError + FragmentSpec) option" where
  "resolved_spec early p =
     (case ref_fragment p of
        None \<Rightarrow> None
      | Some pf \<Rightarrow>
          (case early of
             Some e \<Rightarrow> if e = pf then Some (parse_fragment_spec e) else Some (parse_fragment_spec pf)
           | None \<Rightarrow> Some (parse_fragment_spec pf)))"

definition route_resolved ::
    "RecoveryState \<Rightarrow> rstr option \<Rightarrow> rstr \<Rightarrow> rstr + (bool \<times> ParsedRef \<times> (FragmentError + FragmentSpec) option)" where
  "route_resolved st early lookup =
     (case alias_miss st (bare_of lookup) of
        Some why \<Rightarrow> Err why
      | None \<Rightarrow>
          let resolved = (case resolve_alias_chain st lookup of Some r \<Rightarrow> r | None \<Rightarrow> lookup) in
          case parse_ref resolved of
            None \<Rightarrow> Err (lit ''invalid-ref'')
          | Some p \<Rightarrow>
              (case resolved_spec early p of
                 Some (Inl e) \<Rightarrow> Err (fragment_error_reason e)
               | fspec \<Rightarrow> Ok (bt_contains (aliases st) (bare_of lookup), p, fspec)))"

definition expand_route ::
    "io \<Rightarrow> RecoveryStore \<Rightarrow> rstr \<Rightarrow>
     (rstr + (ZeroRefBlob option \<times> bool \<times> ParsedRef \<times> (FragmentError + FragmentSpec) option)) \<times> RecoveryStore" where
  "expand_route E s ref_id =
     (let early = snd (split_ref_fragment ref_id) in
      case map_option parse_fragment_spec early of
        Some (Inl e) \<Rightarrow> (Err (fragment_error_reason e), s)
      | _ \<Rightarrow>
      (case parse_expand_portable (zref E) ref_id of
        Inl why \<Rightarrow> (Err why, s)
      | Inr portable \<Rightarrow>
      if portable = None \<and> is_foreign_non_blob_ref ref_id then (Err (lit ''unsupported-ref-kind''), s)
      else case canonicalize_expand_ref ref_id of
        None \<Rightarrow> (Err (lit ''invalid-ref''), s)
      | Some lookup \<Rightarrow>
      (case note_legacy_expand s lookup of
        (Some why, s) \<Rightarrow> (Err why, s)
      | (None, s) \<Rightarrow> (map_sum id (Pair portable) (route_resolved (state s) early lookup), s))))"

definition expand ::
    "io \<Rightarrow> RecoveryStore \<Rightarrow> rstr \<Rightarrow> rstr option \<Rightarrow> nat option \<Rightarrow> nat option \<Rightarrow> rstr option \<Rightarrow> rstr option \<Rightarrow>
     ExpansionResult \<times> RecoveryStore" where
  "expand E s ref_id selector start stop anchor_kind symbol =
     (let s = s\<lparr>recovery_count := recovery_count s + 1\<rparr>;
          miss = missing ref_id selector
      in if unreadable_snapshot s then (miss (lit ''unreadable-snapshot''), s)
      else case expand_route E s ref_id of
        (Inl why, s) \<Rightarrow> (miss why, s)
      | (Inr (portable, requested_alias, p, fspec), s) \<Rightarrow>
        (case expand_content E (state s) ref_id portable requested_alias p of
          Inl why \<Rightarrow> (miss why, s)
        | Inr c \<Rightarrow>
        (case expand_select c fspec selector start stop anchor_kind symbol of
          Inl why \<Rightarrow> (miss why, s)
        | Inr (t, window) \<Rightarrow>
          let n = count_tokens (active_model E) t;
              r = ok_with_tokens ref_id selector t n;
              r = (case window of
                     None \<Rightarrow> r
                   | Some (cl, i, j, lc) \<Rightarrow> r\<lparr>clamped := cl, returned_start_line := Some i,
                       returned_end_line := Some j, line_count := Some lc\<rparr>)
          in (r, s\<lparr>store_recovery_tokens := store_recovery_tokens s + n\<rparr>))))"

definition prune_stale :: "io \<Rightarrow> RecoveryStore \<Rightarrow> bool \<Rightarrow> rstr list \<times> nat \<times> RecoveryStore" where
  "prune_stale E s dry_run =
     (let stale = filter (file_ref_is_stale E (state s)) (bt_keys (files (state s))) in
      if dry_run then (stale, 0, s)
      else (stale, length stale,
        persist E (foldl (\<lambda>s r. (upd_state (remove_entry r) s)\<lparr>skip_empty_persist := False\<rparr>) s stale)))"

section \<open>Session-visible aliases\<close>

text \<open>
  \<open>rnd\<close> is what the operating system's entropy source would return; it is drawn only when the
  state holds no valid key.
\<close>

definition store_alias_key :: "byte list \<Rightarrow> RecoveryStore \<Rightarrow> byte list \<times> RecoveryStore" where
  "store_alias_key rnd s =
     (case alias_key (state s) of
        Some hk \<Rightarrow>
          if blen hk = 64 \<and> list_all (\<lambda>b. is_ascii_digit b \<or> (97 \<le> b \<and> b \<le> 102)) hk
          then (case decode_hex_bytes hk of Some k \<Rightarrow> (k, s) | None \<Rightarrow> ([], s))
          else (rnd, upd_state (\<lambda>st. st\<lparr>alias_key := Some (hex rnd)\<rparr>) s)
      | None \<Rightarrow> (rnd, upd_state (\<lambda>st. st\<lparr>alias_key := Some (hex rnd)\<rparr>) s))"

definition register_session_visible_alias :: "io \<Rightarrow> byte list \<Rightarrow> RecoveryStore \<Rightarrow> rstr \<Rightarrow> rstr \<times> RecoveryStore" where
  "register_session_visible_alias E rnd s ref_id =
     (let (key, s) = store_alias_key rnd s in
      case session_visible_blob_alias_keyed (sha256 E) key ref_id of
        None \<Rightarrow> (ref_id, s)
      | Some short \<Rightarrow>
          let short_bare = bare_of short;
              s = (case canonical_full_blob_ref (bare_of ref_id) of
                     Some full \<Rightarrow>
                       if alias_target s short_bare \<noteq> Some full then store_alias_deferred E s short_bare full else s
                   | None \<Rightarrow> s)
          in if is_alias_ambiguous s short_bare then (ref_id, s) else (short, s))"

definition ensure_session_visible_alias :: "io \<Rightarrow> byte list \<Rightarrow> RecoveryStore \<Rightarrow> rstr \<Rightarrow> rstr \<times> RecoveryStore" where
  "ensure_session_visible_alias E rnd s ref_id =
     (let (short, s) = register_session_visible_alias E rnd s ref_id in (short, persist E s))"

function apply_aliases_loop :: "io \<Rightarrow> byte list \<Rightarrow> RecoveryStore \<Rightarrow> rstr \<Rightarrow> rstr \<Rightarrow> (rstr \<times> RecoveryStore) option" where
  "apply_aliases_loop E rnd s out [] = Some (out, s)"
| "apply_aliases_loop E rnd s out (c # t) =
     (case take_full_hash_blob_at (c # t) of
        None \<Rightarrow> None
      | Some (Some (consumed, full)) \<Rightarrow>
          let (short, s) = register_session_visible_alias E rnd s full
          in apply_aliases_loop E rnd s (out @ short) (drop (max 1 consumed) (c # t))
      | Some None \<Rightarrow> apply_aliases_loop E rnd s (out @ [c]) t)"
  by pat_completeness auto
termination by (relation "measure (\<lambda>(E, rnd, s, out, t). length t)") auto

definition apply_session_visible_aliases_in_text ::
    "io \<Rightarrow> byte list \<Rightarrow> RecoveryStore \<Rightarrow> rstr \<Rightarrow> (rstr \<times> RecoveryStore) option" where
  "apply_session_visible_aliases_in_text E rnd s t =
     (if \<not> str_contains t (lit ''tz://blob/'') \<and> \<not> str_contains t (lit ''fz://blob/'') \<and>
         \<not> str_contains t (lit ''gz://blob/'')
      then Some (t, s)
      else apply_aliases_loop E rnd s [] t)"

section \<open>Shell outcomes\<close>

definition MAX_SHELL_OUTCOMES :: nat where "MAX_SHELL_OUTCOMES = 256"

record ShellRepeat =
  unchanged :: bool
  repeat_seen :: nat

definition shell_outcome_rank :: "ShellOutcome \<Rightarrow> nat \<times> nat" where
  "shell_outcome_rank out = (epoch out, seq out)"

definition rank_less :: "nat \<times> nat \<Rightarrow> nat \<times> nat \<Rightarrow> bool" where
  "rank_less a b \<longleftrightarrow> fst a < fst b \<or> (fst a = fst b \<and> snd a < snd b)"

text \<open>The sort is by epoch, sequence number and key; the keys are visited in their own order.\<close>

definition rebase_shell_outcomes_dense :: "RecoveryState \<Rightarrow> RecoveryState" where
  "rebase_shell_outcomes_dense st =
     (let ranked = sort_key (\<lambda>(k, out). epoch out) (sort_key (\<lambda>(k, out). seq out) (shell_outcomes st));
          keys = map fst ranked;
          renumber = (\<lambda>m (i, k). case bt_get m k of
             Some out \<Rightarrow> bt_insert k (out\<lparr>epoch := shell_outcome_epoch st, seq := sat_add i 1\<rparr>) m | None \<Rightarrow> m)
      in st\<lparr>shell_outcomes := foldl renumber (shell_outcomes st) (List.enumerate 0 keys),
            shell_outcome_seq := length keys\<rparr>)"

definition next_shell_outcome_clock :: "RecoveryState \<Rightarrow> (nat \<times> nat) \<times> RecoveryState" where
  "next_shell_outcome_clock st =
     (case checked_add (shell_outcome_seq st) 1 of
        Some q \<Rightarrow> ((shell_outcome_epoch st, q), st\<lparr>shell_outcome_seq := q\<rparr>)
      | None \<Rightarrow>
          (case checked_add (shell_outcome_epoch st) 1 of
             Some e \<Rightarrow> ((e, 1), st\<lparr>shell_outcome_epoch := e, shell_outcome_seq := 1\<rparr>)
           | None \<Rightarrow>
               let st = rebase_shell_outcomes_dense st in
               case checked_add (shell_outcome_seq st) 1 of
                 Some q \<Rightarrow> ((shell_outcome_epoch st, q), st\<lparr>shell_outcome_seq := q\<rparr>)
               | None \<Rightarrow>
                   let q = sat_add (length (shell_outcomes st)) 1
                   in ((shell_outcome_epoch st, q), st\<lparr>shell_outcome_seq := q\<rparr>)))"

text \<open>\<open>min_by_key\<close>: the first entry of least rank in key order.\<close>

fun min_outcome :: "(rstr \<times> ShellOutcome) option \<Rightarrow> (rstr, ShellOutcome) btree \<Rightarrow> (rstr \<times> ShellOutcome) option" where
  "min_outcome best [] = best"
| "min_outcome best ((k, out) # m) =
     min_outcome (case best of
         None \<Rightarrow> Some (k, out)
       | Some (_, b) \<Rightarrow> if rank_less (shell_outcome_rank out) (shell_outcome_rank b) then Some (k, out) else best) m"

lemma min_outcome_mem:
  "min_outcome best m = Some (k, out) \<Longrightarrow> (k, out) \<in> set m \<or> best = Some (k, out)"
  by (induction best m rule: min_outcome.induct) (auto split: option.splits if_splits)

function trim_shell_outcomes :: "(rstr, ShellOutcome) btree \<Rightarrow> (rstr, ShellOutcome) btree" where
  "trim_shell_outcomes m =
     (if length m > MAX_SHELL_OUTCOMES then
        (case min_outcome None m of None \<Rightarrow> m | Some (victim, _) \<Rightarrow> trim_shell_outcomes (bt_remove victim m))
      else m)"
  by pat_completeness auto
termination
  by (relation "measure length") (auto dest!: min_outcome_mem intro!: length_bt_remove simp: bt_keys_def rev_image_eqI)

declare trim_shell_outcomes.simps [simp del]

definition record_shell_outcome_deferred ::
    "io \<Rightarrow> RecoveryStore \<Rightarrow> rstr option \<Rightarrow> rstr \<Rightarrow> rstr \<Rightarrow> int option \<Rightarrow> ShellRepeat \<times> RecoveryStore" where
  "record_shell_outcome_deferred E s scope command combined code =
     (let s = s\<lparr>skip_empty_persist := False\<rparr>;
          key = id_for E 115 ((case scope of Some x \<Rightarrow> x | None \<Rightarrow> []) @ [0] @ command);
          h = sha256_hex E combined;
          ((e, q), st) = next_shell_outcome_clock (state s);
          (same, n) = (case bt_get (shell_outcomes st) key of
              Some prev \<Rightarrow>
                if combined_sha prev = h \<and> exit_code prev = code then (True, min (seen prev + 1) 4294967295) else (False, 1)
            | None \<Rightarrow> (False, 1));
          out = \<lparr>combined_sha = h, exit_code = code, seen = n, seq = q, epoch = e\<rparr>
      in (\<lparr>unchanged = same, repeat_seen = n\<rparr>,
          s\<lparr>state := st\<lparr>shell_outcomes := trim_shell_outcomes (bt_insert key out (shell_outcomes st))\<rparr>\<rparr>))"

section \<open>Merging states\<close>

definition copy_map_entry :: "('k :: linorder, 'v) btree \<Rightarrow> ('k, 'v) btree \<Rightarrow> 'k \<Rightarrow> ('k, 'v) btree" where
  "copy_map_entry dst src r = (case bt_get src r of Some v \<Rightarrow> bt_insert r v dst | None \<Rightarrow> dst)"

definition session_delta :: "RecoveryState \<Rightarrow> rstr list \<Rightarrow> RecoveryConfig \<Rightarrow> RecoveryState" where
  "session_delta st refs cfg =
     (let d = (empty_state cfg)\<lparr>
            blobs := foldl (\<lambda>m r. copy_map_entry m (blobs st) r) [] refs,
            files := foldl (\<lambda>m r. copy_map_entry m (files st) r) [] refs,
            units := foldl (\<lambda>m r. copy_map_entry m (units st) r) [] refs,
            search_hits := foldl (\<lambda>m r. copy_map_entry m (search_hits st) r) [] refs,
            aliases := aliases st, shell_outcomes := shell_outcomes st,
            shell_outcome_seq := shell_outcome_seq st, shell_outcome_epoch := shell_outcome_epoch st,
            ambiguous_aliases := ambiguous_aliases st, transparency := transparency st,
            alias_key := alias_key st\<rparr>
      in d\<lparr>ref_order := filter (state_entry_present d) refs\<rparr>)"

definition apply_deletions :: "RecoveryState \<Rightarrow> rstr list \<Rightarrow> rstr list \<Rightarrow> RecoveryState" where
  "apply_deletions st blob_refs alias_list =
     st\<lparr>aliases := fold bt_remove alias_list (aliases st),
        ambiguous_aliases := ambiguous_aliases st - set alias_list,
        blobs := fold bt_remove blob_refs (blobs st)\<rparr>"

definition merge_shell_outcome_clock :: "RecoveryState \<Rightarrow> RecoveryState \<Rightarrow> RecoveryState" where
  "merge_shell_outcome_clock merged current =
     (if shell_outcome_epoch current > shell_outcome_epoch merged then
        merged\<lparr>shell_outcome_epoch := shell_outcome_epoch current, shell_outcome_seq := shell_outcome_seq current\<rparr>
      else if shell_outcome_epoch current = shell_outcome_epoch merged then
        merged\<lparr>shell_outcome_seq := max (shell_outcome_seq merged) (shell_outcome_seq current)\<rparr>
      else merged)"

definition merge_map_entries :: "rstr list \<Rightarrow> (rstr, 'v) btree \<Rightarrow> (rstr, 'v) btree \<Rightarrow> (rstr, 'v) btree" where
  "merge_map_entries session dst src =
     foldl (\<lambda>m (r, v). if r \<in> set session \<or> bt_contains m r then bt_insert r v m else m) dst src"

fun merge_aliases ::
    "(rstr, rstr) btree \<Rightarrow> rstr set \<Rightarrow> (rstr, rstr) btree \<Rightarrow> (rstr, rstr) btree \<times> rstr set" where
  "merge_aliases m amb [] = (m, amb)"
| "merge_aliases m amb ((alias, target) # src) =
     (if (case bt_get m alias of Some existing \<Rightarrow> existing \<noteq> target | None \<Rightarrow> False)
      then merge_aliases m (amb \<union> {alias}) src
      else merge_aliases (bt_insert alias target m) amb src)"

definition merge_outcomes :: "(rstr, ShellOutcome) btree \<Rightarrow> (rstr, ShellOutcome) btree \<Rightarrow> (rstr, ShellOutcome) btree" where
  "merge_outcomes dst src =
     foldl (\<lambda>m (k, inc). case bt_get m k of
         Some existing \<Rightarrow>
           if rank_less (shell_outcome_rank inc) (shell_outcome_rank existing) then m else bt_insert k inc m
       | None \<Rightarrow> bt_insert k inc m) dst src"

definition merge_states :: "RecoveryState \<Rightarrow> RecoveryState \<Rightarrow> rstr list \<Rightarrow> RecoveryConfig \<Rightarrow> RecoveryState" where
  "merge_states existing current refs cfg =
     (let m = merge_shell_outcome_clock existing current;
          m = m\<lparr>blobs := merge_map_entries refs (blobs m) (blobs current),
                files := merge_map_entries refs (files m) (files current),
                units := merge_map_entries refs (units m) (units current),
                search_hits := merge_map_entries refs (search_hits m) (search_hits current)\<rparr>;
          (al, amb) = merge_aliases (aliases m) (ambiguous_aliases m) (aliases current);
          m = m\<lparr>aliases := al, ambiguous_aliases := amb\<rparr>;
          m = (if ordinal_generation current > ordinal_generation m then
                 m\<lparr>ordinal_generation := ordinal_generation current, next_ordinal := next_ordinal current\<rparr>
               else if ordinal_generation current = ordinal_generation m then
                 m\<lparr>next_ordinal := max (next_ordinal m) (next_ordinal current)\<rparr>
               else m);
          m = m\<lparr>ref_order := nub (ref_order m @ refs),
                shell_outcomes := trim_shell_outcomes (merge_outcomes (shell_outcomes m) (shell_outcomes current)),
                ambiguous_aliases := ambiguous_aliases m \<union> ambiguous_aliases current,
                transparency := merge_concurrent (transparency m) (transparency current),
                alias_key := (case alias_key m of Some k \<Rightarrow> Some k | None \<Rightarrow> alias_key current)\<rparr>
      in configure cfg m)"

end
