(* ===== verification/StoreProps.thy ===== *)
theory StoreProps
  imports RecoveryStore
begin

text \<open>
  Correctness of the recovery store of theory \<open>RecoveryStore\<close>: references of stored content
  resolve to the same text, eviction keeps every bound, the audit log only grows, aliases are
  never redirected, and merging loses nothing. The step relation \<open>store_step\<close> has one rule per
  operation that changes the store; invariants are proved by rule induction on it.
\<close>

section \<open>Content hashes\<close>

text \<open>
  What the store relies on of SHA-256 and of \<open>zero_ref::is_full_lower_hex\<close>: digests have 32
  bytes, and 64 lower-case hexadecimal digits are a full hash.
\<close>

definition io_ok :: "io \<Rightarrow> bool" where
  "io_ok E \<longleftrightarrow> sha_ok (sha256 E) \<and>
     (\<forall>h. length h = 64 \<and> is_lower_hex h \<longrightarrow> is_full_lower_hex (zref E) h)"

lemma hex_digit_lower: "n < 16 \<Longrightarrow> is_lower_hex [lit ''0123456789abcdef'' ! n]"
proof -
  assume n: "n < 16"
  have "list_all (\<lambda>c. is_lower_hex [c]) (lit ''0123456789abcdef'')" by code_simp
  moreover have "length (lit ''0123456789abcdef'') = 16" by code_simp
  ultimately show ?thesis using n by (simp add: list_all_length)
qed

lemma hex_lower: "list_all (\<lambda>b. b < 256) bs \<Longrightarrow> bs \<noteq> [] \<Longrightarrow> is_lower_hex (hex bs)"
proof (induction bs)
  case (Cons b bs)
  have "is_lower_hex [lit ''0123456789abcdef'' ! (b div 16)]" "is_lower_hex [lit ''0123456789abcdef'' ! (b mod 16)]"
    using Cons.prems by (auto intro!: hex_digit_lower)
  then show ?case using Cons by (cases "bs = []") (auto simp: hex_def is_lower_hex_def)
qed simp

lemma length_hex: "length (hex bs) = 2 * length bs"
  by (induction bs) (simp_all add: hex_def)

lemma sha256_hex_shape: "io_ok E \<Longrightarrow> length (sha256_hex E t) = 64 \<and> is_lower_hex (sha256_hex E t)"
proof -
  assume ok: "io_ok E"
  then have l: "length (sha256 E (as_bytes t)) = 32" "list_all (\<lambda>b. b < 256) (sha256 E (as_bytes t))"
    by (auto simp: io_ok_def sha_ok_def)
  then have "sha256 E (as_bytes t) \<noteq> []" by auto
  with l show ?thesis by (simp add: sha256_hex_def length_hex hex_lower)
qed

lemma lower_hex_chars:
  "is_lower_hex h \<Longrightarrow> c \<in> set h \<Longrightarrow> 48 \<le> c \<and> c \<le> 102 \<and> c \<noteq> 58"
  by (auto simp: is_lower_hex_def list_all_iff is_ascii_digit_def)

lemma lower_hex_blen: "is_lower_hex h \<Longrightarrow> blen h = length h"
proof -
  assume h: "is_lower_hex h"
  have "list_all (\<lambda>c. c < 128) h" using lower_hex_chars [OF h] by (force simp: list_all_iff)
  then show ?thesis by (induction h) auto
qed

section \<open>The reference of a blob\<close>

definition blob_ref_of :: "rstr \<Rightarrow> rstr" where
  "blob_ref_of h = lit ''tz://blob/'' @ h"

lemma blob_lits:
  "lit ''tz://blob/'' = [116, 122, 58, 47, 47, 98, 108, 111, 98, 47]"
  "lit ''fz://blob/'' = [102, 122, 58, 47, 47, 98, 108, 111, 98, 47]"
  "lit ''gz://blob/'' = [103, 122, 58, 47, 47, 98, 108, 111, 98, 47]"
  "lit ''tz://'' = [116, 122, 58, 47, 47]" "lit ''tz://o/'' = [116, 122, 58, 47, 47, 111, 47]"
  "lit ''fz://'' = [102, 122, 58, 47, 47]" "lit ''gz://'' = [103, 122, 58, 47, 47]"
  "lit ''tz://s/'' = [116, 122, 58, 47, 47, 115, 47]"
  "lit ''blob'' = [98, 108, 111, 98]" "lit ''s'' = [115]" "lit ''codemode'' = [99, 111, 100, 101, 109, 111, 100, 101]"
  by (simp_all add: lit_def)

definition full_hash :: "rstr \<Rightarrow> bool" where
  "full_hash h \<longleftrightarrow> is_lower_hex h \<and> length h = 64"

lemma hash_facts:
  assumes "full_hash h"
  shows "35 \<notin> set h" "47 \<notin> set h" "h \<noteq> []" "blen h = 64"
  using assms lower_hex_chars [of h 35] lower_hex_chars [of h 47] lower_hex_blen [of h]
  by (auto simp: is_lower_hex_def full_hash_def)

lemma sha256_hex_full: "io_ok E \<Longrightarrow> full_hash (sha256_hex E t)"
  by (simp add: full_hash_def sha256_hex_shape)

lemma scheme_hash_blob [simp]: "blob_ref_scheme_hash (blob_ref_of h) = Some (lit ''tz'', h)"
  by (simp add: blob_ref_scheme_hash_def BLOB_REF_PREFIXES_def blob_ref_of_def)

lemma blob_split: "full_hash h \<Longrightarrow> split_ref_fragment (blob_ref_of h) = (blob_ref_of h, None)"
proof -
  assume "full_hash h"
  then have "35 \<notin> set (blob_ref_of h)" using hash_facts by (simp add: blob_ref_of_def blob_lits)
  then show ?thesis by (simp add: split_ref_fragment_def split_once_absent)
qed

lemma blob_bare: "full_hash h \<Longrightarrow> bare_of (blob_ref_of h) = blob_ref_of h"
  by (simp add: bare_of_def blob_split)

lemma blob_portable:
  "full_hash h \<Longrightarrow> is_full_lower_hex Z h \<Longrightarrow>
   parse_expand_portable Z (blob_ref_of h) = Ok (Some \<lparr>zr_scheme = lit ''tz'', zr_hash = h, zr_fragment = None\<rparr>)"
  using hash_facts [of h] by (simp add: parse_expand_portable_def parse_zeroref_v1_blob_def blob_split)

lemma blob_canonical: "canonicalize_expand_ref (blob_ref_of h) = Some (blob_ref_of h)"
  by (simp add: canonicalize_expand_ref_def blob_ref_of_def blob_lits starts_with_def)

lemma blob_not_legacy: "full_hash h \<Longrightarrow> \<not> is_legacy_same_store_blob_ref (blob_ref_of h)"
  using hash_facts [of h] by (simp add: is_legacy_same_store_blob_ref_def blob_bare blob_ref_hash_def)

lemma blob_not_ordinal: "parse_session_ordinal_bare (blob_ref_of h) = None"
  by (simp add: parse_session_ordinal_bare_def blob_ref_of_def blob_lits SESSION_ORDINAL_PREFIX_def strip_prefix_def
      starts_with_def)

lemma blob_parse_ref:
  assumes "full_hash h"
  shows "parse_ref (blob_ref_of h) = Some \<lparr>ref_kind = lit ''blob'', ref_bare = blob_ref_of h, ref_fragment = None\<rparr>"
proof -
  have "strip_prefix (lit ''tz://'') (blob_ref_of h) = Some (lit ''blob'' @ 47 # h)"
    by (simp add: strip_prefix_def starts_with_def blob_ref_of_def blob_lits)
  moreover have "split_once 47 (lit ''blob'' @ 47 # h) = Some (lit ''blob'', h)" by (simp add: blob_lits)
  ultimately show ?thesis using hash_facts [OF assms] assms by (simp add: parse_ref_def blob_split)
qed

section \<open>Expanding a blob\<close>

lemma alias_chain_none: "bt_get m b = None \<Longrightarrow> alias_chain_loop m 8 False b = None"
  by (simp add: numeral_eq_Suc)

lemma alias_chain_one: "bt_get m b = Some t \<Longrightarrow> bt_get m t = None \<Longrightarrow> alias_chain_loop m 8 False b = Some t"
  by (simp add: numeral_eq_Suc)

definition expansion_of ::
    "io \<Rightarrow> rstr \<Rightarrow> rstr option \<Rightarrow> rstr + (rstr \<times> (bool \<times> nat \<times> nat \<times> nat) option) \<Rightarrow> ExpansionResult" where
  "expansion_of E r sel res =
     (case res of
        Inl why \<Rightarrow> missing r sel why
      | Inr (t, None) \<Rightarrow> ok_with_tokens r sel t (count_tokens (active_model E) t)
      | Inr (t, Some (cl, i, j, lc)) \<Rightarrow>
          (ok_with_tokens r sel t (count_tokens (active_model E) t))\<lparr>clamped := cl, returned_start_line := Some i,
            returned_end_line := Some j, line_count := Some lc\<rparr>)"

definition plain_store :: "RecoveryStore \<Rightarrow> rstr \<Rightarrow> bool" where
  "plain_store s r \<longleftrightarrow> \<not> unreadable_snapshot s \<and> bt_get (aliases (state s)) r = None \<and>
     r \<notin> ambiguous_aliases (state s)"

lemma expand_blob_route:
  assumes "io_ok E" and "plain_store s (blob_ref_of (sha256_hex E t))"
  shows "expand_route E (s\<lparr>recovery_count := n\<rparr>) (blob_ref_of (sha256_hex E t)) =
    (Ok (Some \<lparr>zr_scheme = lit ''tz'', zr_hash = sha256_hex E t, zr_fragment = None\<rparr>, False,
      \<lparr>ref_kind = lit ''blob'', ref_bare = blob_ref_of (sha256_hex E t), ref_fragment = None\<rparr>, None),
     s\<lparr>recovery_count := n\<rparr>)"
proof -
  let ?h = "sha256_hex E t"
  have h: "full_hash ?h" using assms(1) by (rule sha256_hex_full)
  then have z: "is_full_lower_hex (zref E) ?h" using assms(1) by (simp add: io_ok_def full_hash_def)
  note facts = blob_split [OF h] blob_bare [OF h] blob_portable [OF h z] blob_not_legacy [OF h] blob_parse_ref [OF h]
    blob_canonical blob_not_ordinal
  have al: "resolve_alias_chain (state s) (blob_ref_of ?h) = None" "bt_contains (aliases (state s)) (blob_ref_of ?h) = False"
    using assms(2) by (auto simp: resolve_alias_chain_def blob_split [OF h] alias_chain_none plain_store_def bt_contains_def)
  have "route_resolved (state s) None (blob_ref_of ?h) =
      Ok (False, \<lparr>ref_kind = lit ''blob'', ref_bare = blob_ref_of ?h, ref_fragment = None\<rparr>, None)"
    using assms(2) al by (simp add: route_resolved_def alias_miss_def facts plain_store_def resolved_spec_def)
  then show ?thesis by (simp add: expand_route_def facts note_legacy_expand_def)
qed

text \<open>What a plain blob reference expands to is decided by the content it resolves to.\<close>

lemma expand_blob_by_content:
  assumes "io_ok E" and "plain_store s (blob_ref_of (sha256_hex E t))"
    and "expand_content E (state s) (blob_ref_of (sha256_hex E t))
      (Some \<lparr>zr_scheme = lit ''tz'', zr_hash = sha256_hex E t, zr_fragment = None\<rparr>) False
      \<lparr>ref_kind = lit ''blob'', ref_bare = blob_ref_of (sha256_hex E t), ref_fragment = None\<rparr> = c"
  shows "fst (expand E s (blob_ref_of (sha256_hex E t)) sel st en an sy) =
    (case c of Inl why \<Rightarrow> missing (blob_ref_of (sha256_hex E t)) sel why
     | Inr x \<Rightarrow> expansion_of E (blob_ref_of (sha256_hex E t)) sel (expand_select x None sel st en an sy))"
  using assms(2,3) expand_blob_route [OF assms(1,2)]
  by (auto simp: expand_def Let_def plain_store_def expansion_of_def split: sum.splits option.splits prod.splits)

lemmas blob_content_defs = expand_content_def resolve_ref_def resolve_blob_value_def resolve_to_expand_content_def

lemma decode_failed_not_missing: "\<not> starts_with (lit ''decode-failed'') (lit ''ref-not-found'')"
  by (simp add: lit_def starts_with_def)

lemma expand_blob:
  assumes "io_ok E" and "plain_store s (blob_ref_of (sha256_hex E t))"
    and "bt_get (blobs (state s)) (blob_ref_of (sha256_hex E t)) = Some (Inline t)"
  shows "\<not> starts_with t BLOB_MARKER_PREFIX \<Longrightarrow> fst (expand E s (blob_ref_of (sha256_hex E t)) sel st en an sy) =
      expansion_of E (blob_ref_of (sha256_hex E t)) sel (expand_select t None sel st en an sy)"
    and "starts_with t BLOB_MARKER_PREFIX \<Longrightarrow> fst (expand E s (blob_ref_of (sha256_hex E t)) sel st en an sy) =
      missing (blob_ref_of (sha256_hex E t)) sel (lit ''decode-failed'')"
  using assms(3) by (simp_all add: expand_blob_by_content [OF assms(1,2) refl] blob_content_defs decode_failed_not_missing)

lemma expand_absent_blob:
  assumes "io_ok E" and "plain_store s (blob_ref_of (sha256_hex E t))"
    and "bt_get (blobs (state s)) (blob_ref_of (sha256_hex E t)) = None"
  shows "\<exists>why. fst (expand E s (blob_ref_of (sha256_hex E t)) sel st en an sy) = missing (blob_ref_of (sha256_hex E t)) sel why"
  using assms(3) by (auto simp: expand_blob_by_content [OF assms(1,2) refl] blob_content_defs)

section \<open>The invariant\<close>

definition keyed :: "rstr \<Rightarrow> (rstr, 'v) btree \<Rightarrow> bool" where
  "keyed pre m \<longleftrightarrow> bt_wf m \<and> (\<forall>k \<in> set (bt_keys m). starts_with k pre)"

definition state_inv :: "RecoveryState \<Rightarrow> bool" where
  "state_inv st \<longleftrightarrow>
     keyed (lit ''tz://blob/'') (blobs st) \<and> keyed (lit ''tz://file/'') (files st) \<and>
     keyed (lit ''tz://unit/'') (units st) \<and> keyed (lit ''tz://search/'') (search_hits st) \<and>
     set (state_keys st) \<subseteq> set (ref_order st)"

definition same_maps :: "RecoveryState \<Rightarrow> RecoveryState \<Rightarrow> bool" where
  "same_maps st st' \<longleftrightarrow> blobs st' = blobs st \<and> files st' = files st \<and> units st' = units st \<and>
     search_hits st' = search_hits st \<and> ref_order st' = ref_order st"

definition log_grows :: "RecoveryState \<Rightarrow> RecoveryState \<Rightarrow> bool" where
  "log_grows st st' \<longleftrightarrow> prefix (leaves (transparency st)) (leaves (transparency st'))"

lemma same_maps_inv: "same_maps st st' \<Longrightarrow> state_inv st \<Longrightarrow> state_inv st'"
  by (simp add: same_maps_def state_inv_def state_keys_def)

lemma log_grows_refl [simp]: "log_grows st st"
  by (simp add: log_grows_def)

lemma log_grows_trans: "log_grows a b \<Longrightarrow> log_grows b c \<Longrightarrow> log_grows a c"
  by (auto simp: log_grows_def)

lemma keyed_insert: "keyed pre m \<Longrightarrow> starts_with k pre \<Longrightarrow> keyed pre (bt_insert k v m)"
  by (auto simp: keyed_def bt_wf_insert)

lemma keyed_remove: "keyed pre m \<Longrightarrow> keyed pre (bt_remove k m)"
  by (auto simp: keyed_def bt_wf_remove)

lemma keyed_retain: "keyed pre m \<Longrightarrow> keyed pre (bt_retain p m)"
  by (auto simp: keyed_def bt_wf_retain)

lemma keyed_Nil [simp]: "keyed pre []"
  by (simp add: keyed_def bt_keys_def)

subsection \<open>Eviction by count\<close>

lemma victims_subset: "set (evict_victims m ord pre n) \<subseteq> set (bt_keys m)"
  by (auto simp: evict_victims_def Let_def bt_contains_iff dest!: in_set_takeD split: if_splits)

lemma victims_distinct: "distinct (evict_victims m ord pre n)"
  by (auto simp: evict_victims_def Let_def distinct_take)

lemma victims_length:
  assumes "bt_wf m"
  shows "length (evict_victims m ord pre n) = length m - n"
proof -
  define e where "e = length m - n"
  define v where "v = take e (nub (filter (\<lambda>r. starts_with r pre \<and> bt_contains m r) ord))"
  have "set (bt_keys m) \<subseteq> set (nub (v @ bt_keys m))" by simp
  then have "card (set (bt_keys m)) \<le> card (set (nub (v @ bt_keys m)))" by (intro card_mono) simp_all
  then have "length m \<le> length (nub (v @ bt_keys m))"
    using distinct_card [OF bt_wf_distinct [OF assms]] distinct_card [OF distinct_nub [of "v @ bt_keys m"]]
    by (simp del: set_nub)
  then have "length (take e (nub (v @ bt_keys m))) = e" by (simp add: e_def)
  moreover have "length v \<le> e" by (simp add: v_def)
  moreover have "evict_victims m ord pre n =
      (if e = 0 then [] else if length v < e then take e (nub (v @ bt_keys m)) else v)"
    by (simp only: evict_victims_def Let_def e_def v_def)
  ultimately show ?thesis by (simp add: e_def split: if_splits)
qed

lemma length_retain:
  assumes "bt_wf m" and "set vs \<subseteq> set (bt_keys m)" and "distinct vs"
  shows "length (bt_retain (\<lambda>r. r \<notin> set vs) m) = length m - length vs"
proof -
  let ?m = "bt_retain (\<lambda>r. r \<notin> set vs) m"
  have "length ?m = card (set (bt_keys ?m))"
    using distinct_card [OF bt_wf_distinct [OF bt_wf_retain [OF assms(1), of "\<lambda>r. r \<notin> set vs"]]] by simp
  also have "set (bt_keys ?m) = set (bt_keys m) - set vs" by auto
  also have "card \<dots> = card (set (bt_keys m)) - card (set vs)" using assms(2) by (intro card_Diff_subset) auto
  also have "\<dots> = length m - length vs"
    using distinct_card [OF bt_wf_distinct [OF assms(1)]] distinct_card [OF assms(3)] by simp
  finally show ?thesis .
qed

lemma evict_prefix_facts:
  assumes "evict_prefix m ord pre n = (m', ord')" and "keyed pre m"
  shows "keyed pre m'" "length m' \<le> n" "set (bt_keys m') \<subseteq> set (bt_keys m)"
    "\<And>k. k \<in> set ord \<Longrightarrow> k \<in> set (bt_keys m') \<or> \<not> starts_with k pre \<Longrightarrow> k \<in> set ord'"
    "\<And>k. bt_get m' k = None \<or> bt_get m' k = bt_get m k"
proof -
  let ?vs = "evict_victims m ord pre n"
  have eq: "m' = bt_retain (\<lambda>r. r \<notin> set ?vs) m" "ord' = filter (\<lambda>r. r \<notin> set ?vs) ord"
    using assms(1) by (auto simp: evict_prefix_def Let_def)
  have wf: "bt_wf m" using assms(2) by (simp add: keyed_def)
  show "keyed pre m'" using assms(2) by (simp add: eq keyed_retain)
  have "length m' = length m - length ?vs"
    unfolding eq(1) by (rule length_retain [OF wf victims_subset victims_distinct])
  then show "length m' \<le> n" using victims_length [OF wf, of ord pre n] by simp
  show "set (bt_keys m') \<subseteq> set (bt_keys m)" by (auto simp: eq)
  show "k \<in> set ord'" if "k \<in> set ord" "k \<in> set (bt_keys m') \<or> \<not> starts_with k pre" for k
    using that victims_subset [of m ord pre n] assms(2) by (auto simp: eq keyed_def)
  show "bt_get m' k = None \<or> bt_get m' k = bt_get m k" for k by (simp add: eq bt_get_retain)
qed

lemma kinds_disjoint:
  assumes "starts_with k p" and "starts_with k q" and
    "p \<in> {lit ''tz://blob/'', lit ''tz://file/'', lit ''tz://unit/'', lit ''tz://search/''}"
    "q \<in> {lit ''tz://blob/'', lit ''tz://file/'', lit ''tz://unit/'', lit ''tz://search/''}"
  shows "p = q"
  using assms by (auto simp: starts_with_iff lit_def)

lemma evict_prefixes_facts:
  assumes "state_inv st"
  shows "state_inv (evict_prefixes cfg st)"
    "length (blobs (evict_prefixes cfg st)) \<le> max_blobs cfg" "length (files (evict_prefixes cfg st)) \<le> max_files cfg"
    "length (units (evict_prefixes cfg st)) \<le> max_units cfg"
    "length (search_hits (evict_prefixes cfg st)) \<le> max_search_hits cfg"
    "transparency (evict_prefixes cfg st) = transparency st"
    "bt_get (blobs (evict_prefixes cfg st)) k = None \<or> bt_get (blobs (evict_prefixes cfg st)) k = bt_get (blobs st) k"
    "k \<in> set (ref_order st) \<Longrightarrow> bt_contains (blobs (evict_prefixes cfg st)) k \<Longrightarrow> k \<in> set (ref_order (evict_prefixes cfg st))"
proof -
  let ?B = "lit ''tz://blob/''" let ?F = "lit ''tz://file/''" let ?U = "lit ''tz://unit/''" let ?S = "lit ''tz://search/''"
  obtain b o1 where b: "evict_prefix (blobs st) (ref_order st) ?B (max_blobs cfg) = (b, o1)" by fastforce
  obtain f o2 where f: "evict_prefix (files st) o1 ?F (max_files cfg) = (f, o2)" by fastforce
  obtain u o3 where u: "evict_prefix (units st) o2 ?U (max_units cfg) = (u, o3)" by fastforce
  obtain h o4 where h: "evict_prefix (search_hits st) o3 ?S (max_search_hits cfg) = (h, o4)" by fastforce
  have st': "evict_prefixes cfg st = st\<lparr>blobs := b, files := f, units := u, search_hits := h, ref_order := o4\<rparr>"
    by (simp add: evict_prefixes_def b f u h)
  have k: "keyed ?B (blobs st)" "keyed ?F (files st)" "keyed ?U (units st)" "keyed ?S (search_hits st)"
    and cov: "set (state_keys st) \<subseteq> set (ref_order st)" using assms by (auto simp: state_inv_def)
  note B = evict_prefix_facts [OF b k(1)] note F = evict_prefix_facts [OF f k(2)]
  note U = evict_prefix_facts [OF u k(3)] note H = evict_prefix_facts [OF h k(4)]
  have other: "starts_with x p \<Longrightarrow> p \<noteq> q \<Longrightarrow> p \<in> {?B, ?F, ?U, ?S} \<Longrightarrow> q \<in> {?B, ?F, ?U, ?S} \<Longrightarrow> \<not> starts_with x q" for x p q
    using kinds_disjoint by blast
  have pre: "x \<in> set (bt_keys b) \<Longrightarrow> starts_with x ?B" "x \<in> set (bt_keys f) \<Longrightarrow> starts_with x ?F"
    "x \<in> set (bt_keys u) \<Longrightarrow> starts_with x ?U" "x \<in> set (bt_keys h) \<Longrightarrow> starts_with x ?S" for x
    using B(1) F(1) U(1) H(1) by (auto simp: keyed_def)
  have keep: "x \<in> set o4" if "x \<in> set (ref_order st)" "x \<in> set (bt_keys b) \<or> \<not> starts_with x ?B"
      "x \<in> set (bt_keys f) \<or> \<not> starts_with x ?F" "x \<in> set (bt_keys u) \<or> \<not> starts_with x ?U"
      "x \<in> set (bt_keys h) \<or> \<not> starts_with x ?S" for x
    using that B(4) F(4) U(4) H(4) by blast
  have bo: "x \<in> set o4" if "x \<in> set (bt_keys b)" "x \<in> set (ref_order st)" for x
    using keep [OF that(2)] that(1) other [OF pre(1) [OF that(1)]] by auto
  have fo: "x \<in> set o4" if "x \<in> set (bt_keys f)" "x \<in> set (ref_order st)" for x
    using keep [OF that(2)] that(1) other [OF pre(2) [OF that(1)]] by auto
  have uo: "x \<in> set o4" if "x \<in> set (bt_keys u)" "x \<in> set (ref_order st)" for x
    using keep [OF that(2)] that(1) other [OF pre(3) [OF that(1)]] by auto
  have ho: "x \<in> set o4" if "x \<in> set (bt_keys h)" "x \<in> set (ref_order st)" for x
    using keep [OF that(2)] that(1) other [OF pre(4) [OF that(1)]] by auto
  have "set (bt_keys b) \<union> set (bt_keys f) \<union> set (bt_keys u) \<union> set (bt_keys h) \<subseteq> set o4"
    using bo fo uo ho B(3) F(3) U(3) H(3) cov unfolding state_keys_def by auto
  then show "state_inv (evict_prefixes cfg st)"
    using B(1) F(1) U(1) H(1) by (simp add: st' state_inv_def state_keys_def)
  show "length (blobs (evict_prefixes cfg st)) \<le> max_blobs cfg" "length (files (evict_prefixes cfg st)) \<le> max_files cfg"
    "length (units (evict_prefixes cfg st)) \<le> max_units cfg"
    "length (search_hits (evict_prefixes cfg st)) \<le> max_search_hits cfg"
    "transparency (evict_prefixes cfg st) = transparency st"
    using B(2) F(2) U(2) H(2) by (simp_all add: st')
  show "bt_get (blobs (evict_prefixes cfg st)) k = None \<or> bt_get (blobs (evict_prefixes cfg st)) k = bt_get (blobs st) k"
    using B(5) by (simp add: st')
  show "k \<in> set (ref_order st) \<Longrightarrow> bt_contains (blobs (evict_prefixes cfg st)) k \<Longrightarrow> k \<in> set (ref_order (evict_prefixes cfg st))"
    using bo by (simp add: st' bt_contains_iff)
qed

subsection \<open>Eviction by bytes\<close>

lemma remove_entry_inv: "state_inv st \<Longrightarrow> state_inv (remove_entry r st)"
  by (auto simp: state_inv_def remove_entry_def keyed_remove state_keys_def)

lemma remove_entry_le:
  "length (blobs (remove_entry r st)) \<le> length (blobs st)" "length (files (remove_entry r st)) \<le> length (files st)"
  "length (units (remove_entry r st)) \<le> length (units st)"
  "length (search_hits (remove_entry r st)) \<le> length (search_hits st)"
  by (simp_all add: remove_entry_def length_bt_remove_le)

lemma coldest_loop_Some: "best \<noteq> None \<Longrightarrow> coldest_loop f live idx best is \<noteq> None"
  by (induction f live idx best "is" rule: coldest_loop.induct) (auto simp: Let_def)

lemma coldest_loop_None:
  "coldest_loop f live idx best is = None \<Longrightarrow> list_all (\<lambda>r. \<not> live r) is"
proof (induction "is" arbitrary: idx best)
  case (Cons j js)
  show ?case
  proof (cases "live j")
    case True
    let ?best = "if (case best of None \<Rightarrow> True | Some (_, b, bi) \<Rightarrow> f j < b \<or> (f j = b \<and> idx < bi))
      then Some (j, f j, idx) else best"
    have "?best \<noteq> None" by (cases best) auto
    then have "coldest_loop f live (idx + 1) ?best js \<noteq> None" by (rule coldest_loop_Some)
    then show ?thesis using Cons.prems True by (simp add: Let_def)
  next
    case False
    then show ?thesis using Cons by simp
  qed
qed simp

lemma coldest_None: "coldest ord live = None \<Longrightarrow> r \<in> set ord \<Longrightarrow> \<not> live r"
  using coldest_loop_None [of "score_from_order ord" live 0 None ord] by (auto simp: coldest_def list_all_iff)

lemma state_entry_keys: "state_entry_present st r \<longleftrightarrow> r \<in> set (state_keys st)"
  by (auto simp: state_entry_present_def state_keys_def bt_contains_iff)

lemma approx_bytes_empty: "state_keys st = [] \<Longrightarrow> approx_bytes E st = 0"
  by (auto simp: state_keys_def approx_bytes_def bt_keys_def saturating_usize_sum_def sat_add_def)

lemma evict_bytes_facts:
  "state_inv st \<Longrightarrow>
   state_inv (evict_bytes E n st) \<and> approx_bytes E (evict_bytes E n st) \<le> n \<and>
   ref_order (evict_bytes E n st) = ref_order st \<and> transparency (evict_bytes E n st) = transparency st \<and>
   length (blobs (evict_bytes E n st)) \<le> length (blobs st) \<and> length (files (evict_bytes E n st)) \<le> length (files st) \<and>
   length (units (evict_bytes E n st)) \<le> length (units st) \<and>
   length (search_hits (evict_bytes E n st)) \<le> length (search_hits st) \<and>
   (bt_get (blobs (evict_bytes E n st)) k = None \<or> bt_get (blobs (evict_bytes E n st)) k = bt_get (blobs st) k)"
proof (induction E n st rule: evict_bytes.induct)
  case (1 E n st)
  show ?case
  proof (cases "approx_bytes E st > n")
    case True
    show ?thesis
    proof (cases "coldest (ref_order st) (state_entry_present st)")
      case None
      have "r \<notin> set (state_keys st)" for r
        using coldest_None [OF None, of r] 1(2) state_entry_keys [of st r] by (auto simp: state_inv_def)
      then have "state_keys st = []" by (cases "state_keys st") auto
      then show ?thesis using 1(2) True approx_bytes_empty [of st E] by simp
    next
      case (Some r)
      note IH = 1(1) [OF True Some remove_entry_inv [OF 1(2)]]
      have "evict_bytes E n st = evict_bytes E n (remove_entry r st)"
        using True Some by (simp add: evict_bytes.simps [of E n st])
      then show ?thesis
        using IH remove_entry_le [of r st] by (auto simp: remove_entry_def split: if_splits)
    qed
  next
    case False
    then show ?thesis using 1(2) by (simp add: evict_bytes.simps [of E n st])
  qed
qed

subsection \<open>Eviction of the store\<close>

lemma compact_order_facts:
  "state_inv st \<Longrightarrow> state_inv (compact_order st)" "approx_bytes E (compact_order st) = approx_bytes E st"
  "blobs (compact_order st) = blobs st" "files (compact_order st) = files st" "units (compact_order st) = units st"
  "search_hits (compact_order st) = search_hits st" "transparency (compact_order st) = transparency st"
  "distinct (ref_order (compact_order st))"
  by (auto simp: compact_order_def state_inv_def state_keys_def approx_bytes_def)

definition within_limits :: "io \<Rightarrow> RecoveryStore \<Rightarrow> bool" where
  "within_limits E s \<longleftrightarrow>
     approx_bytes E (state s) \<le> max_bytes (config s) \<and> length (blobs (state s)) \<le> max_blobs (config s) \<and>
     length (files (state s)) \<le> max_files (config s) \<and> length (units (state s)) \<le> max_units (config s) \<and>
     length (search_hits (state s)) \<le> max_search_hits (config s)"

lemma evict_facts:
  assumes "state_inv (state s)"
  shows "state_inv (state (evict E s))" "within_limits E (evict E s)"
    "transparency (state (evict E s)) = transparency (state s)" "distinct (ref_order (state (evict E s)))"
    "config (evict E s) = config s"
    "bt_get (blobs (state (evict E s))) k = None \<or> bt_get (blobs (state (evict E s))) k = bt_get (blobs (state s)) k"
proof -
  let ?p = "evict_prefixes (config s) (state s)"
  let ?b = "evict_bytes E (max_bytes (config s)) ?p"
  have st: "state (evict E s) = compact_order ?b" "config (evict E s) = config s" by (simp_all add: evict_def Let_def)
  note P = evict_prefixes_facts [OF assms, where cfg = "config s"]
  have B: "state_inv ?b" "approx_bytes E ?b \<le> max_bytes (config s)" "transparency ?b = transparency ?p"
    "length (blobs ?b) \<le> length (blobs ?p)" "length (files ?b) \<le> length (files ?p)"
    "length (units ?b) \<le> length (units ?p)" "length (search_hits ?b) \<le> length (search_hits ?p)"
    "\<And>k. bt_get (blobs ?b) k = None \<or> bt_get (blobs ?b) k = bt_get (blobs ?p) k"
    using evict_bytes_facts [OF P(1), of E "max_bytes (config s)"] by blast+
  show "state_inv (state (evict E s))" "config (evict E s) = config s"
    "transparency (state (evict E s)) = transparency (state s)" "distinct (ref_order (state (evict E s)))"
    using B P by (simp_all add: st compact_order_facts)
  show "within_limits E (evict E s)" using B P by (simp add: within_limits_def st compact_order_facts)
  show "bt_get (blobs (state (evict E s))) k = None \<or> bt_get (blobs (state (evict E s))) k = bt_get (blobs (state s)) k"
    using B(8) [of k] P(7) [of k] by (auto simp: st compact_order_facts)
qed

lemma persist_facts:
  assumes "state_inv (state s)"
  shows "state_inv (state (persist E s))" "transparency (state (persist E s)) = transparency (state s)"
    "config (persist E s) = config s" "\<not> persist_skip_empty s \<Longrightarrow> within_limits E (persist E s)"
    "bt_get (blobs (state (persist E s))) k = None \<or> bt_get (blobs (state (persist E s))) k = bt_get (blobs (state s)) k"
  using evict_facts [of "s\<lparr>skip_empty_persist := False\<rparr>"] assms by (simp_all add: persist_def)

section \<open>Frames\<close>

named_theorems frame

lemma log_event_frame [frame]:
  "same_maps st (log_event E ev st)" "log_grows st (log_event E ev st)"
  by (simp_all add: log_event_def same_maps_def log_grows_def log_append_def append_hash_def)

lemma log_event_fields [simp]:
  "blobs (log_event E ev st) = blobs st" "files (log_event E ev st) = files st" "units (log_event E ev st) = units st"
  "search_hits (log_event E ev st) = search_hits st" "ref_order (log_event E ev st) = ref_order st"
  "aliases (log_event E ev st) = aliases st" "ambiguous_aliases (log_event E ev st) = ambiguous_aliases st"
  by (simp_all add: log_event_def)

lemma store_alias_frame [frame]:
  "same_maps (state s) (state (store_alias_deferred E s a t))" "log_grows (state s) (state (store_alias_deferred E s a t))"
  using log_event_frame(2) [of "state s" E "alias_event a t"]
  by (auto simp: store_alias_deferred_def Let_def same_maps_def log_grows_def split: option.splits)

lemma store_alias_fields [simp]:
  "blobs (state (store_alias_deferred E s a t)) = blobs (state s)"
  "ref_order (state (store_alias_deferred E s a t)) = ref_order (state s)"
  "config (store_alias_deferred E s a t) = config s"
  "unreadable_snapshot (store_alias_deferred E s a t) = unreadable_snapshot s"
  by (auto simp: store_alias_deferred_def Let_def split: option.splits)

lemma store_alias_get:
  "b \<noteq> a \<Longrightarrow> bt_get (aliases (state (store_alias_deferred E s a t))) b = bt_get (aliases (state s)) b"
  "b \<noteq> a \<Longrightarrow> b \<in> ambiguous_aliases (state (store_alias_deferred E s a t)) \<longleftrightarrow> b \<in> ambiguous_aliases (state s)"
  by (auto simp: store_alias_deferred_def Let_def split: option.splits)

lemma remember_inv:
  assumes "state_inv st" and "keyed (lit ''tz://blob/'') b" "keyed (lit ''tz://file/'') f"
    "keyed (lit ''tz://unit/'') u" "keyed (lit ''tz://search/'') h"
    and "set (bt_keys b) \<subseteq> insert r (set (bt_keys (blobs st)))" "set (bt_keys f) \<subseteq> insert r (set (bt_keys (files st)))"
    "set (bt_keys u) \<subseteq> insert r (set (bt_keys (units st)))" "set (bt_keys h) \<subseteq> insert r (set (bt_keys (search_hits st)))"
    and "blobs st' = b" "files st' = f" "units st' = u" "search_hits st' = h" "ref_order st' = ref_order st @ [r]"
  shows "state_inv st'"
  using assms unfolding state_inv_def state_keys_def by auto

text \<open>What every storing operation keeps: the invariant, and the growth of the log.\<close>

definition keeps :: "RecoveryStore \<Rightarrow> RecoveryStore \<Rightarrow> bool" where
  "keeps s s' \<longleftrightarrow> (state_inv (state s) \<longrightarrow> state_inv (state s')) \<and> log_grows (state s) (state s') \<and>
     config s' = config s \<and> unreadable_snapshot s' = unreadable_snapshot s"

lemma keeps_refl [simp]: "keeps s s"
  by (simp add: keeps_def)

lemma keeps_trans: "keeps a b \<Longrightarrow> keeps b c \<Longrightarrow> keeps a c"
  by (auto simp: keeps_def intro: log_grows_trans)

lemma keeps_maps:
  "same_maps (state s) (state s') \<Longrightarrow> log_grows (state s) (state s') \<Longrightarrow> config s' = config s \<Longrightarrow>
   unreadable_snapshot s' = unreadable_snapshot s \<Longrightarrow> keeps s s'"
  by (auto simp: keeps_def same_maps_inv)

lemma track_ref_class_fields [simp]:
  "state (track_ref_class r ct s) = state s" "config (track_ref_class r ct s) = config s"
  "unreadable_snapshot (track_ref_class r ct s) = unreadable_snapshot s"
  by (simp_all add: track_ref_class_def)

lemma keeps_alias: "keeps s (store_alias_deferred E s a t)"
  by (rule keeps_maps) (simp_all add: frame)

lemma keeps_track: "keeps s (track_ref_class r ct s)"
  by (simp add: keeps_def)

lemma keeps_mint: "keeps s (upd_state (log_event E ev) s)"
  by (rule keeps_maps) (simp_all add: frame)

text \<open>Inserting an entry under its own kind and remembering it.\<close>

lemma keeps_insert:
  "starts_with r (lit ''tz://blob/'') \<Longrightarrow> keeps s (remember_ref r (upd_state (\<lambda>st. st\<lparr>blobs := bt_insert r v (blobs st)\<rparr>) s))"
  "starts_with r (lit ''tz://file/'') \<Longrightarrow> keeps s (remember_ref r (upd_state (\<lambda>st. st\<lparr>files := bt_insert r w (files st)\<rparr>) s))"
  "starts_with r (lit ''tz://unit/'') \<Longrightarrow> keeps s (remember_ref r (upd_state (\<lambda>st. if bt_contains (units st) r then st
     else st\<lparr>units := bt_insert r u (units st)\<rparr>) s))"
  "starts_with r (lit ''tz://search/'') \<Longrightarrow> keeps s (remember_ref r (upd_state (\<lambda>st. st\<lparr>search_hits := bt_insert r u (search_hits st)\<rparr>) s))"
  by (auto simp: keeps_def remember_ref_def log_grows_def state_inv_def state_keys_def keyed_insert)

lemma keeps_register_blob: "keeps s (snd (register_blob E s h legacy ct (Some v)))"
proof -
  let ?r = "lit ''tz://blob/'' @ h"
  let ?s = "if legacy \<noteq> ?r then store_alias_deferred E (track_ref_class ?r ct s) legacy ?r else track_ref_class ?r ct s"
  have "keeps s ?s" using keeps_trans [OF keeps_track keeps_alias] keeps_track by simp
  moreover have "keeps ?s (remember_ref ?r (upd_state (\<lambda>st. st\<lparr>blobs := bt_insert ?r v (blobs st)\<rparr>) ?s))"
    by (rule keeps_insert) simp
  ultimately show ?thesis unfolding register_blob_def by (auto simp: Let_def intro: keeps_trans)
qed

lemma keeps_put_blob: "keeps s (snd (put_blob E s t ct))"
proof -
  let ?r = "lit ''tz://blob/'' @ sha256_hex E t"
  let ?s = "if \<not> bt_contains (blobs (state s)) ?r then upd_state (log_event E (mint_event ?r)) s else s"
  have "keeps s ?s" by (simp add: keeps_mint)
  then show ?thesis using keeps_trans [OF _ keeps_register_blob] by (simp add: put_blob_def Let_def)
qed

lemma keeps_put_file_entry: "keeps s (snd (put_file_entry E s t ct path backed fp sl el))"
proof -
  let ?r = "recovery_file_ref E t path"
  have "starts_with ?r (lit ''tz://file/'')" by (simp add: recovery_file_ref_def starts_with_def lit_def)
  then show ?thesis
    using keeps_trans [OF keeps_track [of s ?r ct] keeps_insert(2)] by (simp add: put_file_entry_def Let_def)
qed

lemma keeps_insert_unit:
  "starts_with r (lit ''tz://unit/'') \<Longrightarrow> keeps s (insert_stored_unit s False r t ct src sl el)"
  "starts_with r (lit ''tz://search/'') \<Longrightarrow> keeps s (insert_stored_unit s True r t ct src sl el)"
  using keeps_trans [OF keeps_track [of s r ct] keeps_insert(3)] keeps_trans [OF keeps_track [of s r ct] keeps_insert(4)]
  by (simp_all add: insert_stored_unit_def Let_def)

lemma keeps_put_unit: "keeps s (snd (put_unit E s t ct src sl el))"
  by (simp add: put_unit_def Let_def keeps_insert_unit)

lemma keeps_index_units: "keeps s (snd (index_units_loop E ct src idx refs s ls))"
proof (induction ls arbitrary: idx refs s)
  case (Cons l ls)
  obtain refs' s' where step: "(if blen (trim l) \<ge> 12 then
      let (r, s) = put_unit E s (trim l) ct (Some src) (Some (idx + 1)) (Some (idx + 1)) in (refs @ [r], s)
      else (refs, s)) = (refs', s')" by fastforce
  then have "keeps s s'" using keeps_put_unit [of s E "trim l" ct "Some src" "Some (idx + 1)" "Some (idx + 1)"]
    by (auto simp: split_beta split: if_splits)
  moreover have "index_units_loop E ct src idx refs s (l # ls) =
      (if length refs' \<ge> 64 then (refs', s') else index_units_loop E ct src (idx + 1) refs' s' ls)"
    using step by (simp add: Let_def)
  ultimately show ?case using keeps_trans [OF _ Cons.IH] by simp
qed simp

lemma keeps_search_loop: "keeps s (snd (search_loop E q idx refs s ls))"
proof (induction ls arbitrary: idx refs s)
  case (Cons l ls)
  have "keeps s (insert_stored_unit s True (lit ''tz://search/'' @ x) l SearchResult None a b)" for x a b
    by (simp add: keeps_insert_unit)
  then show ?case using Cons.IH by (auto simp: Let_def intro: keeps_trans [OF _ Cons.IH])
qed simp

lemma evict_bytes_frame:
  "transparency (evict_bytes E n st) = transparency st \<and> aliases (evict_bytes E n st) = aliases st \<and>
   ambiguous_aliases (evict_bytes E n st) = ambiguous_aliases st \<and> ordinal_generation (evict_bytes E n st) = ordinal_generation st"
proof (induction E n st rule: evict_bytes.induct)
  case (1 E n st)
  then show ?case
    by (cases "coldest (ref_order st) (state_entry_present st)"; subst (1 2 3 4) evict_bytes.simps)
      (auto simp: remove_entry_def)
qed

lemma evict_frame [simp]:
  "transparency (state (evict E s)) = transparency (state s)" "aliases (state (evict E s)) = aliases (state s)"
  "ambiguous_aliases (state (evict E s)) = ambiguous_aliases (state s)" "config (evict E s) = config s"
  "unreadable_snapshot (evict E s) = unreadable_snapshot s"
  by (simp_all add: evict_def Let_def compact_order_def evict_bytes_frame evict_prefixes_def split_beta)

lemma persist_frame [simp]:
  "transparency (state (persist E s)) = transparency (state s)" "aliases (state (persist E s)) = aliases (state s)"
  "ambiguous_aliases (state (persist E s)) = ambiguous_aliases (state s)" "config (persist E s) = config s"
  "unreadable_snapshot (persist E s) = unreadable_snapshot s"
  by (simp_all add: persist_def)

lemma keeps_evict: "keeps s (evict E s)"
  using evict_facts(1) [of s E] by (simp add: keeps_def log_grows_def)

lemma keeps_persist: "keeps s (persist E s)"
  using persist_facts(1) [of s E] by (simp add: keeps_def log_grows_def)

lemma keeps_finish: "keeps s (snd (finish_payload E s b f t ct sl el))"
  using keeps_index_units [of s E ct f 0 "[]" "str_lines t"]
  by (simp add: finish_payload_def index_units_def split_beta)

lemma keeps_payload_batch: "keeps s (snd (store_payload_deferred_batch E s t ct path sl el))"
proof (cases "admit_memoized_payload s t ct path sl el False")
  case None
  obtain b s1 where b: "put_blob E s t ct = (b, s1)" by fastforce
  obtain f s2 where f: "put_file E s1 t ct path sl el = (f, s2)" by fastforce
  obtain p s3 where p: "finish_payload E s2 b f t ct sl el = (p, s3)" by fastforce
  have "keeps s s1" using keeps_put_blob [of s E t ct] b by simp
  moreover have "keeps s1 s2" using keeps_put_file_entry [of s1 E t ct path False] f by (simp add: put_file_def) (metis snd_conv)
  moreover have "keeps s2 s3" using keeps_finish [of s2 E b f t ct sl el] p by simp
  moreover have "keeps s3 (memoize_payload t ct path sl el False p s3)" by (simp add: memoize_payload_def keeps_def)
  ultimately show ?thesis using None b f p by (auto simp: store_payload_deferred_batch_def intro: keeps_trans)
next
  case (Some r)
  then show ?thesis by (auto simp: store_payload_deferred_batch_def admit_memoized_payload_def keeps_def)
qed

lemma keeps_source_backed: "keeps s (snd (store_source_backed_payload_deferred_batch E s t ct path))"
proof (cases "admit_memoized_payload s t ct (Some path) None None True")
  case None
  obtain b s1 where b: "put_file_backed_blob_hashed E s path 1 (content_line_count t) ct (sha256_hex E t) = (b, s1)"
    by fastforce
  obtain f s2 where f: "put_source_backed_file E s1 t ct path (sha256_hex E t) = (f, s2)" by fastforce
  obtain p s3 where p: "finish_payload E s2 b f t ct None None = (p, s3)" by fastforce
  have "keeps s s1" using keeps_register_blob b by (simp add: put_file_backed_blob_hashed_def) (metis snd_conv)
  moreover have "keeps s1 s2" using keeps_put_file_entry f by (simp add: put_source_backed_file_def) (metis snd_conv)
  moreover have "keeps s2 s3" using keeps_finish [of s2 E b f t ct None None] p by simp
  moreover have "keeps s3 (memoize_payload t ct (Some path) None None True p s3)"
    by (simp add: memoize_payload_def keeps_def)
  ultimately show ?thesis using None b f p
    by (auto simp: store_source_backed_payload_deferred_batch_def Let_def intro: keeps_trans)
next
  case (Some r)
  then show ?thesis by (auto simp: store_source_backed_payload_deferred_batch_def admit_memoized_payload_def keeps_def)
qed

lemma keeps_alias_key: "keeps s (snd (store_alias_key rnd s))"
  by (auto simp: store_alias_key_def same_maps_def log_grows_def intro!: keeps_maps split: option.splits)

lemma keeps_register_alias: "keeps s (snd (register_session_visible_alias E rnd s r))"
  using keeps_alias_key [of s rnd] keeps_trans [OF keeps_alias_key keeps_alias]
  by (auto simp: register_session_visible_alias_def Let_def split_beta split: option.splits)

lemma keeps_apply_aliases: "apply_aliases_loop E rnd s out t = Some (out', s') \<Longrightarrow> keeps s s'"
proof (induction E rnd s out t rule: apply_aliases_loop.induct)
  case (2 E rnd s out c t)
  show ?case
  proof (cases "\<exists>n full. take_full_hash_blob_at (c # t) = Some (Some (n, full))")
    case True
    then obtain n full where m: "take_full_hash_blob_at (c # t) = Some (Some (n, full))" by blast
    obtain short s1 where r: "register_session_visible_alias E rnd s full = (short, s1)" by fastforce
    have "keeps s1 s'" using "2.IH"(2) [OF m refl refl] "2.prems" m r by (simp add: Let_def)
    moreover have "keeps s s1" using keeps_register_alias [of s E rnd full] r by simp
    ultimately show ?thesis by (rule keeps_trans [rotated])
  next
    case False
    then show ?thesis using "2.IH"(1) "2.prems" by (auto split: option.splits)
  qed
qed simp

lemma clock_maps: "same_maps st (snd (next_shell_outcome_clock st))" "log_grows st (snd (next_shell_outcome_clock st))"
  by (auto simp: next_shell_outcome_clock_def same_maps_def log_grows_def Let_def rebase_shell_outcomes_dense_def
      split: option.splits)

lemma keeps_shell_outcome: "keeps s (snd (record_shell_outcome_deferred E s scope cmd comb code))"
  using clock_maps [of "state s"]
  by (auto simp: record_shell_outcome_deferred_def Let_def same_maps_def log_grows_def split_beta intro!: keeps_maps)

lemma keeps_drop: "keeps s ((upd_state (remove_entry r) s)\<lparr>skip_empty_persist := False\<rparr>)"
  by (simp add: keeps_def remove_entry_inv log_grows_def) (simp add: remove_entry_def)

lemma keeps_drops: "keeps s (foldl (\<lambda>s r. (upd_state (remove_entry r) s)\<lparr>skip_empty_persist := False\<rparr>) s rs)"
proof (induction rs arbitrary: s)
  case (Cons r rs)
  show ?case using keeps_trans [OF keeps_drop Cons.IH, of s r] by simp
qed simp

lemma keeps_prune: "keeps s (snd (snd (prune_stale E s dry)))"
  by (auto simp: prune_stale_def Let_def intro: keeps_trans [OF keeps_drops keeps_persist])

lemma expand_route_state:
  "state (snd (expand_route E s r)) = state s" "config (snd (expand_route E s r)) = config s"
  "unreadable_snapshot (snd (expand_route E s r)) = unreadable_snapshot s"
  by (auto simp: expand_route_def note_legacy_expand_def Let_def split: option.splits sum.splits)

lemma expand_state: "state (snd (expand E s r sel st en an sy)) = state s \<and>
  config (snd (expand E s r sel st en an sy)) = config s \<and>
  unreadable_snapshot (snd (expand E s r sel st en an sy)) = unreadable_snapshot s"
  using expand_route_state [of E "s\<lparr>recovery_count := recovery_count s + 1\<rparr>" r]
  by (auto simp: expand_def Let_def split: sum.splits prod.splits)

lemma keeps_expand: "keeps s (snd (expand E s r sel st en an sy))"
  using expand_state [of E s r sel st en an sy] by (auto simp: keeps_def)

section \<open>Steps\<close>

inductive store_step :: "io \<Rightarrow> RecoveryStore \<Rightarrow> RecoveryStore \<Rightarrow> bool" for E where
  blob: "store_step E s (snd (store_blob E s t ct))"
| blob_deferred: "store_step E s (snd (store_blob_deferred E s t ct))"
| file_backed: "store_file_backed_blob E s path sl el ct = Ok (r, s') \<Longrightarrow> store_step E s s'"
| payload: "store_step E s (snd (store_payload E s t ct path sl el))"
| payload_deferred: "store_step E s (snd (store_payload_deferred E s t ct path sl el))"
| source_payload: "store_step E s (snd (store_source_backed_payload_deferred_batch E s t ct path))"
| search: "store_step E s (snd (store_search_output_deferred E s outp query))"
| new_alias: "store_alias E s a t = Ok s' \<Longrightarrow> store_step E s s'"
| alias_deferred: "store_step E s (store_alias_deferred E s a t)"
| alias_removed: "store_step E s (remove_alias s a)"
| blob_removed: "store_step E s (remove_blob s r)"
| ambiguous: "store_step E s (mark_ambiguous s r)"
| ordinal_range: "reserve_ordinal_range s n = Ok (rng, s') \<Longrightarrow> store_step E s s'"
| ordinal_alias: "store_ordinal_alias_deferred E s rng off t = Ok (a, s') \<Longrightarrow> store_step E s s'"
| visible_alias: "store_step E s (snd (ensure_session_visible_alias E rnd s r))"
| visible_text: "apply_session_visible_aliases_in_text E rnd s t = Some (t', s') \<Longrightarrow> store_step E s s'"
| shell: "store_step E s (snd (record_shell_outcome_deferred E s scope cmd comb code))"
| expand: "store_step E s (snd (expand E s r sel st en an sy))"
| prune: "store_step E s (snd (snd (prune_stale E s dry)))"
| persist: "store_step E s (persist E s)"

inductive_cases store_step_cases: "store_step E s s'"

lemma keeps_remove_blob: "keeps s (remove_blob s r)"
  by (auto simp: keeps_def remove_blob_def state_inv_def state_keys_def keyed_remove log_grows_def)

lemma store_step_keeps: "store_step E s s' \<Longrightarrow> keeps s s'"
proof (induction rule: store_step.induct)
  case (blob s t ct)
  then show ?case
    using keeps_trans [OF keeps_put_blob keeps_trans [OF keeps_evict keeps_persist]]
    by (simp add: store_blob_def split_beta persist_evicted_def)
next
  case (file_backed s path sl el ct r s')
  then obtain h where "s' = persist_evicted E (snd (put_file_backed_blob_hashed E s path sl el ct h))"
    by (auto simp: store_file_backed_blob_def put_file_backed_blob_def split_beta Let_def split: if_splits option.splits)
  then show ?case using keeps_trans [OF keeps_register_blob keeps_trans [OF keeps_evict keeps_persist]]
    by (simp add: persist_evicted_def put_file_backed_blob_hashed_def)
next
  case (payload_deferred s t ct path sl el)
  then show ?case using keeps_payload_batch [of s E t ct path sl el] keeps_trans [OF keeps_payload_batch keeps_evict]
    by (simp add: store_payload_deferred_def split_beta)
next
  case (payload s t ct path sl el)
  then show ?case
    using keeps_trans [OF keeps_payload_batch keeps_persist] keeps_trans [OF keeps_payload_batch keeps_trans [OF keeps_evict keeps_persist]]
    by (simp add: store_payload_def store_payload_deferred_def split_beta)
next
  case (search s outp query)
  then show ?case using keeps_trans [OF keeps_search_loop keeps_evict] by (simp add: store_search_output_deferred_def split_beta)
next
  case (new_alias s a t s')
  then show ?case using keeps_trans [OF keeps_alias keeps_persist] by (auto simp: store_alias_def split: if_splits)
next
  case (ordinal_alias s rng off t a s')
  then show ?case by (auto simp: store_ordinal_alias_deferred_def keeps_alias split: option.splits if_splits)
next
  case (visible_alias s rnd r)
  then show ?case using keeps_trans [OF keeps_register_alias keeps_persist]
    by (simp add: ensure_session_visible_alias_def split_beta)
next
  case (visible_text rnd s t t' s')
  then show ?case by (auto simp: apply_session_visible_aliases_in_text_def dest: keeps_apply_aliases split: if_splits)
next
  case (ordinal_range s n rng s')
  then show ?case
    by (auto simp: reserve_ordinal_range_def Let_def same_maps_def log_grows_def intro!: keeps_maps split: if_splits option.splits)
qed (simp_all add: store_blob_deferred_def keeps_put_blob keeps_source_backed keeps_alias keeps_remove_blob keeps_shell_outcome
     keeps_expand keeps_prune keeps_persist remove_alias_def mark_ambiguous_def keeps_maps same_maps_def log_grows_def)

inductive reachable :: "io \<Rightarrow> RecoveryConfig \<Rightarrow> RecoveryStore \<Rightarrow> bool" for E cfg where
  start: "reachable E cfg (with_config cfg)"
| step: "reachable E cfg s \<Longrightarrow> store_step E s s' \<Longrightarrow> reachable E cfg s'"

inductive steps :: "io \<Rightarrow> RecoveryStore \<Rightarrow> RecoveryStore \<Rightarrow> bool" for E where
  none: "steps E s s"
| more: "steps E s s' \<Longrightarrow> store_step E s' s'' \<Longrightarrow> steps E s s''"

lemma steps_keep: "steps E s s' \<Longrightarrow> keeps s s'"
  by (induction rule: steps.induct) (auto intro: keeps_trans store_step_keeps)

lemma reachable_inv: "reachable E cfg s \<Longrightarrow> state_inv (state s) \<and> config s = cfg \<and> \<not> unreadable_snapshot s"
proof (induction rule: reachable.induct)
  case start
  then show ?case by (simp add: with_config_def empty_state_def state_inv_def state_keys_def bt_keys_def)
next
  case (step s s')
  then show ?case using store_step_keeps [of E s s'] by (auto simp: keeps_def)
qed

section \<open>Storing and expanding\<close>

lemma legacy_differs: "io_ok E \<Longrightarrow> lit ''tz://blob/'' @ id_for E 98 t \<noteq> blob_ref_of (sha256_hex E t)"
proof
  assume ok: "io_ok E" and eq: "lit ''tz://blob/'' @ id_for E 98 t = blob_ref_of (sha256_hex E t)"
  then have "length (id_for E 98 t) = length (sha256_hex E t)" by (simp add: blob_ref_of_def)
  moreover have "length (id_for E 98 t) = 17" using ok by (simp add: id_for_def length_hex io_ok_def sha_ok_def)
  ultimately show False using sha256_hex_shape [OF ok, of t] by simp
qed

lemma put_blob_fields:
  assumes "io_ok E"
  shows "fst (put_blob E s t ct) = blob_ref_of (sha256_hex E t)"
    "blobs (state (snd (put_blob E s t ct))) = bt_insert (blob_ref_of (sha256_hex E t)) (Inline t) (blobs (state s))"
    "unreadable_snapshot (snd (put_blob E s t ct)) = unreadable_snapshot s"
    "config (snd (put_blob E s t ct)) = config s"
    "plain_store s (blob_ref_of (sha256_hex E t)) \<Longrightarrow> plain_store (snd (put_blob E s t ct)) (blob_ref_of (sha256_hex E t))"
    "\<not> skip_empty_persist (snd (put_blob E s t ct))"
proof -
  let ?r = "blob_ref_of (sha256_hex E t)" let ?l = "lit ''tz://blob/'' @ id_for E 98 t"
  let ?s1 = "if \<not> bt_contains (blobs (state s)) ?r then upd_state (log_event E (mint_event ?r)) s else s"
  let ?s2 = "store_alias_deferred E (track_ref_class ?r ct ?s1) ?l ?r"
  have eq: "put_blob E s t ct = (?r, remember_ref ?r (upd_state (\<lambda>st. st\<lparr>blobs := bt_insert ?r (Inline t) (blobs st)\<rparr>) ?s2))"
    using legacy_differs [OF assms, of t] by (simp add: put_blob_def register_blob_def Let_def blob_ref_of_def)
  show "fst (put_blob E s t ct) = ?r" "blobs (state (snd (put_blob E s t ct))) = bt_insert ?r (Inline t) (blobs (state s))"
    "unreadable_snapshot (snd (put_blob E s t ct)) = unreadable_snapshot s"
    "config (snd (put_blob E s t ct)) = config s" "\<not> skip_empty_persist (snd (put_blob E s t ct))"
    by (simp_all add: eq remember_ref_def)
  show "plain_store s ?r \<Longrightarrow> plain_store (snd (put_blob E s t ct)) ?r"
    using legacy_differs [OF assms, of t] by (auto simp: eq remember_ref_def plain_store_def store_alias_get)
qed

lemma expand_select_whole: "expand_select t None None None None None None = Ok (t, None)"
  by (simp add: expand_select_def is_byte_spec_def resolve_selector_line_window_def clamp_line_window_def
      expand_selected_content_def select_content_def)

lemma sum_ge: "x \<in> set ns \<Longrightarrow> min x u64_max \<le> saturating_usize_sum ns"
proof -
  have mono: "a \<le> b \<Longrightarrow> foldl sat_add a ns \<le> foldl sat_add b ns" for a b ns
    by (induction ns arbitrary: a b) (auto simp: sat_add_def)
  have ge: "min a u64_max \<le> foldl sat_add (min a u64_max) ns" for a ns
  proof (induction ns arbitrary: a)
    case (Cons n ns)
    have eq: "min (sat_add (min a u64_max) n) u64_max = sat_add (min a u64_max) n" by (simp add: sat_add_def)
    have "min a u64_max \<le> sat_add (min a u64_max) n" by (simp add: sat_add_def)
    also have "\<dots> \<le> foldl sat_add (sat_add (min a u64_max) n) ns" using Cons.IH [of "sat_add (min a u64_max) n"] eq by simp
    finally show ?case by simp
  qed simp
  show "x \<in> set ns \<Longrightarrow> ?thesis"
  proof -
    assume "x \<in> set ns"
    then obtain xs ys where ns: "ns = xs @ x # ys" by (auto simp: in_set_conv_decomp)
    have "min x u64_max \<le> sat_add (foldl sat_add 0 xs) x" by (simp add: sat_add_def)
    then have "foldl sat_add (min x u64_max) ys \<le> saturating_usize_sum ns"
      using mono by (simp add: ns saturating_usize_sum_def)
    with ge [of x ys] show ?thesis by linarith
  qed
qed

lemma approx_ge_blob: "bt_get (blobs st) k = Some v \<Longrightarrow> min (blob_value_len E v) u64_max \<le> approx_bytes E st"
proof -
  assume "bt_get (blobs st) k = Some v"
  then have "(k, v) \<in> set (blobs st)" by (simp add: bt_get_def map_of_SomeD)
  then have "blob_value_len E v \<in> set (map (blob_value_len E \<circ> snd) (blobs st))" by force
  then have "min (blob_value_len E v) u64_max \<le> saturating_usize_sum (map (blob_value_len E \<circ> snd) (blobs st))"
    by (rule sum_ge)
  then show ?thesis by (simp add: approx_bytes_def sat_add_def)
qed

lemma store_blob_fields:
  assumes "io_ok E" and "state_inv (state s)"
  shows "fst (store_blob E s t ct) = blob_ref_of (sha256_hex E t)"
    "within_limits E (snd (store_blob E s t ct))"
    "plain_store s (blob_ref_of (sha256_hex E t)) \<Longrightarrow> plain_store (snd (store_blob E s t ct)) (blob_ref_of (sha256_hex E t))"
    "bt_get (blobs (state (snd (store_blob E s t ct)))) (blob_ref_of (sha256_hex E t)) \<in> {None, Some (Inline t)}"
    "config (snd (store_blob E s t ct)) = config s"
proof -
  let ?r = "blob_ref_of (sha256_hex E t)" let ?p = "snd (put_blob E s t ct)"
  note P = put_blob_fields [OF assms(1), of s t ct]
  have s': "snd (store_blob E s t ct) = persist E (evict E ?p)"
    by (simp add: store_blob_def split_beta persist_evicted_def)
  show "fst (store_blob E s t ct) = ?r" using P(1) by (simp add: store_blob_def split_beta)
  have inv: "state_inv (state ?p)" using keeps_put_blob [of s E t ct] assms(2) by (simp add: keeps_def)
  then have inv': "state_inv (state (evict E ?p))" by (rule evict_facts(1))
  have "\<not> persist_skip_empty (evict E ?p)" using P(6) by (simp add: persist_skip_empty_def evict_def Let_def)
  then show "within_limits E (snd (store_blob E s t ct))" unfolding s' by (rule persist_facts(4) [OF inv'])
  show "plain_store s ?r \<Longrightarrow> plain_store (snd (store_blob E s t ct)) ?r" using P(5) by (simp add: s' plain_store_def)
  have "bt_get (blobs (state ?p)) ?r = Some (Inline t)" using P(2) by simp
  then show "bt_get (blobs (state (snd (store_blob E s t ct)))) ?r \<in> {None, Some (Inline t)}"
    using persist_facts(5) [OF inv', of E ?r] evict_facts(6) [OF inv, of E ?r] by (auto simp: s')
  show "config (snd (store_blob E s t ct)) = config s" using P(4) by (simp add: s')
qed

lemma blob_len_plain: "\<not> starts_with t BLOB_MARKER_PREFIX \<Longrightarrow> blob_value_len E (Inline t) = blen t"
  by (simp add: blob_value_len_def parse_blob_marker_def strip_prefix_def)

section \<open>A sample environment\<close>

definition sample_io :: io where
  "sample_io = \<lparr>sha256 = sample_sha, zref = no_zero_ref, active_model = None, disk = (\<lambda>_. None),
     search_path_line = (\<lambda>_. False), blob_entry_size = 40\<rparr>"

lemma sample_io_ok: "io_ok sample_io"
  by (simp add: io_ok_def sample_io_def sample_sha_ok no_zero_ref_def)

lemma plain_start: "plain_store (with_config cfg) r"
  by (simp add: plain_store_def with_config_def empty_state_def)

lemma abc_plain: "\<not> starts_with (lit ''abc'') BLOB_MARKER_PREFIX"
  by code_simp

text \<open>The expansion of a reference that was just put.\<close>

lemma stored_blob_outcome:
  assumes "io_ok E" and "plain_store s (fst (put_blob E s t ct))"
  shows "fst (expand E (snd (put_blob E s t ct)) (fst (put_blob E s t ct)) None None None None None) =
    (if starts_with t BLOB_MARKER_PREFIX then missing (fst (put_blob E s t ct)) None (lit ''decode-failed'')
     else ok_with_tokens (fst (put_blob E s t ct)) None t (count_tokens (active_model E) t))"
proof -
  note P = put_blob_fields [OF assms(1), of s t ct]
  have "bt_get (blobs (state (snd (put_blob E s t ct)))) (blob_ref_of (sha256_hex E t)) = Some (Inline t)"
    using P(2) by simp
  then show ?thesis
    using expand_blob [OF assms(1), of "snd (put_blob E s t ct)" t None None None None None] P(1,5) assms(2)
    by (simp add: expansion_of_def expand_select_whole)
qed

section \<open>Properties\<close>

text \<open>C1: In a readable store in which the returned reference is neither an alias nor ambiguous, storing a blob
  and expanding the reference gives back the stored text byte for byte, with its token count. The one
  exception is a text that begins with the store's own externalisation marker, which is refused as undecodable.\<close>

theorem stored_blob_expands:
  assumes "io_ok E" and "plain_store s (fst (store_blob_deferred E s t ct))"
  shows "fst (expand E (snd (store_blob_deferred E s t ct)) (fst (store_blob_deferred E s t ct)) None None None None None) =
    (if starts_with t BLOB_MARKER_PREFIX then missing (fst (store_blob_deferred E s t ct)) None (lit ''decode-failed'')
     else ok_with_tokens (fst (store_blob_deferred E s t ct)) None t (count_tokens (active_model E) t))"
  using stored_blob_outcome [OF assms(1), of s t ct] assms(2) by (simp add: store_blob_deferred_def)

theorem stored_blob_expands_witness:
  "content (fst (expand sample_io (snd (store_blob_deferred sample_io (with_config default_config) (lit ''abc'') Code))
     (fst (store_blob_deferred sample_io (with_config default_config) (lit ''abc'') Code)) None None None None None)) = lit ''abc''"
  using stored_blob_expands [OF sample_io_ok plain_start, of default_config "lit ''abc''" Code] abc_plain by (simp add: ok_with_tokens_def)

text \<open>C3: A committed store respects every limit: after \<open>store_blob\<close> of any text on any reachable store, the payload
  bytes and the number of entries of each kind are within the configuration. If moreover the store does not alias the
  returned reference and the text does not begin with the externalisation marker, the reference
  expands to the stored text exactly when the blob was not evicted by that very call, and to nothing otherwise.\<close>

theorem store_blob_within_limits:
  assumes "io_ok E" and "reachable E cfg s"
  shows "within_limits E (snd (store_blob E s t ct)) \<and>
    (plain_store s (fst (store_blob E s t ct)) \<and> \<not> starts_with t BLOB_MARKER_PREFIX \<longrightarrow>
      (if bt_contains (blobs (state (snd (store_blob E s t ct)))) (fst (store_blob E s t ct))
       then fst (expand E (snd (store_blob E s t ct)) (fst (store_blob E s t ct)) None None None None None) =
         ok_with_tokens (fst (store_blob E s t ct)) None t (count_tokens (active_model E) t)
       else \<not> found (fst (expand E (snd (store_blob E s t ct)) (fst (store_blob E s t ct)) None None None None None))))"
proof -
  have inv: "state_inv (state s)" using reachable_inv [OF assms(2)] by simp
  note S = store_blob_fields [OF assms(1) inv, of t ct]
  let ?s = "snd (store_blob E s t ct)"
  have "if bt_contains (blobs (state ?s)) (fst (store_blob E s t ct))
      then fst (expand E ?s (fst (store_blob E s t ct)) None None None None None) =
        ok_with_tokens (fst (store_blob E s t ct)) None t (count_tokens (active_model E) t)
      else \<not> found (fst (expand E ?s (fst (store_blob E s t ct)) None None None None None))"
    if plain: "plain_store s (fst (store_blob E s t ct))" and text_ok: "\<not> starts_with t BLOB_MARKER_PREFIX"
  proof -
    have "plain_store ?s (blob_ref_of (sha256_hex E t))" using S(1,3) plain by simp
    with text_ok show ?thesis
      using S(1,4) expand_blob(1) [OF assms(1), of ?s t None None None None None]
        expand_absent_blob [OF assms(1), of ?s t None None None None None]
      by (auto simp: bt_contains_def expansion_of_def expand_select_whole missing_def)
  qed
  with S(2) show ?thesis by blast
qed

theorem store_blob_within_limits_witness:
  "within_limits sample_io (snd (store_blob sample_io (with_config default_config) (lit ''abc'') Code)) \<and>
   (bt_contains (blobs (state (snd (store_blob sample_io (with_config default_config) (lit ''abc'') Code))))
       (fst (store_blob sample_io (with_config default_config) (lit ''abc'') Code)) \<longleftrightarrow>
     found (fst (expand sample_io (snd (store_blob sample_io (with_config default_config) (lit ''abc'') Code))
       (fst (store_blob sample_io (with_config default_config) (lit ''abc'') Code)) None None None None None)))"
  using store_blob_within_limits [OF sample_io_ok reachable.start, of default_config "lit ''abc''" Code] abc_plain plain_start
  by (auto simp: ok_with_tokens_def split: if_splits)

text \<open>A blob larger than the byte budget is gone when \<open>store_blob\<close> returns its reference: the call
  succeeds, and nothing is stored under the reference.\<close>

theorem oversized_blob_vanishes:
  assumes "io_ok E" and "reachable E cfg s" and "\<not> starts_with t BLOB_MARKER_PREFIX"
    and "max_bytes cfg < blen t" and "max_bytes cfg < u64_max"
  shows "bt_get (blobs (state (snd (store_blob E s t ct)))) (fst (store_blob E s t ct)) = None"
proof -
  have inv: "state_inv (state s)" and cfg: "config s = cfg" using reachable_inv [OF assms(2)] by simp_all
  let ?s = "snd (store_blob E s t ct)" let ?r = "blob_ref_of (sha256_hex E t)"
  note S = store_blob_fields [OF assms(1) inv, of t ct]
  have "bt_get (blobs (state ?s)) ?r \<noteq> Some (Inline t)"
  proof
    assume "bt_get (blobs (state ?s)) ?r = Some (Inline t)"
    from approx_ge_blob [OF this, of E] have "min (blen t) u64_max \<le> approx_bytes E (state ?s)"
      using blob_len_plain [OF assms(3)] by simp
    moreover have "approx_bytes E (state ?s) \<le> max_bytes cfg" using S(2,5) cfg by (simp add: within_limits_def)
    ultimately show False using assms(4,5) by linarith
  qed
  then show ?thesis using S(1,4) by auto
qed

theorem oversized_blob_vanishes_witness:
  "bt_get (blobs (state (snd (store_blob sample_io (with_config (default_config\<lparr>max_bytes := 2\<rparr>)) (lit ''abc'') Code))))
     (fst (store_blob sample_io (with_config (default_config\<lparr>max_bytes := 2\<rparr>)) (lit ''abc'') Code)) = None"
proof -
  have "blen (lit ''abc'') = 3" by code_simp
  then show ?thesis
    using oversized_blob_vanishes [OF sample_io_ok reachable.start abc_plain, of "default_config\<lparr>max_bytes := 2\<rparr>" Code]
    by (simp add: u64_max_def)
qed

text \<open>A text that begins with the store's own externalisation marker cannot be recovered: it is stored
  under a reference whose expansion fails.\<close>

theorem marker_payload_unrecoverable:
  assumes "io_ok E" and "plain_store s (fst (store_blob_deferred E s t ct))" and "starts_with t BLOB_MARKER_PREFIX"
  shows "fst (expand E (snd (store_blob_deferred E s t ct)) (fst (store_blob_deferred E s t ct)) None None None None None) =
    missing (fst (store_blob_deferred E s t ct)) None (lit ''decode-failed'')"
  using stored_blob_outcome [OF assms(1), of s t ct] assms(2,3) by (simp add: store_blob_deferred_def)

theorem marker_payload_unrecoverable_witness:
  "found (fst (expand sample_io (snd (store_blob_deferred sample_io (with_config default_config) BLOB_MARKER_PREFIX Code))
     (fst (store_blob_deferred sample_io (with_config default_config) BLOB_MARKER_PREFIX Code)) None None None None None)) = False"
proof -
  have "starts_with BLOB_MARKER_PREFIX BLOB_MARKER_PREFIX" by code_simp
  then show ?thesis
    using marker_payload_unrecoverable [OF sample_io_ok plain_start, of BLOB_MARKER_PREFIX default_config Code]
    by (simp add: missing_def)
qed

text \<open>C6: The audit log of the store is append-only: for any run of operations, the log issues a
  consistency proof from the root before the run to the root after it, and the verifier accepts
  the proof.\<close>

theorem audit_log_consistent:
  assumes "steps E s s'"
  shows "\<exists>p. consistency_proof sha (transparency (state s')) (log_len (transparency (state s))) = Some p \<and>
    verify_consistency sha p (root sha (transparency (state s))) (root sha (transparency (state s')))"
proof -
  let ?l = "transparency (state s)" let ?l' = "transparency (state s')"
  have pre: "prefix (leaves ?l) (leaves ?l')" using steps_keep [OF assms] by (simp add: keeps_def log_grows_def)
  then have le: "log_len ?l \<le> log_len ?l'" by (simp add: log_len_def prefix_length_le)
  have "take (log_len ?l) (leaves ?l') = leaves ?l" using pre by (auto simp: log_len_def prefix_def)
  then have old: "\<lparr>leaves = take (log_len ?l) (leaves ?l')\<rparr> = ?l" by (cases ?l) simp
  show ?thesis using consistency_proof_verifies [OF le, of sha, unfolded old] .
qed

theorem audit_log_consistent_witness:
  "\<exists>p. consistency_proof sample_sha
      (transparency (state (snd (store_blob sample_io (with_config default_config) (lit ''abc'') Code)))) 0 = Some p \<and>
    verify_consistency sample_sha p (root sample_sha \<lparr>leaves = []\<rparr>)
      (root sample_sha (transparency (state (snd (store_blob sample_io (with_config default_config) (lit ''abc'') Code)))))"
proof -
  have "steps sample_io (with_config default_config) (snd (store_blob sample_io (with_config default_config) (lit ''abc'') Code))"
    by (rule steps.more [OF steps.none store_step.blob])
  from audit_log_consistent [OF this, of sample_sha] show ?thesis
    by (simp add: with_config_def empty_state_def log_len_def)
qed

end
