(* ===== verification/AliasProps.thy ===== *)
theory AliasProps
  imports StoreProps
begin

text \<open>
  Aliases, integrity, merging and the eviction order of the recovery store: what an expansion may
  return in any state, when an alias is refused, that the short reference shown to a session
  expands to the stored text, that ordinals are never reused, what merging two states keeps, and
  which reference byte pressure evicts.
\<close>

section \<open>Integrity\<close>

lemma resolve_verified:
  assumes "resolve_ref E st kind bare = FoundVerified c h"
  shows "h = sha256_hex E c"
  using assms
  by (auto simp: line_range_digest sha256_hex_def resolve_ref_def resolve_blob_value_def resolve_file_value_def
      split: if_splits option.splits BlobEntry.splits)

lemma expand_content_integrity:
  assumes "expand_content E st r (Some z) al p = Ok c"
  shows "sha256_hex E c = zr_hash z"
proof -
  obtain res where res: "resolve_ref E st (ref_kind p) (ref_bare p) = res" by simp
  then have ok: "resolve_to_expand_content res r (ref_kind p) = Ok c"
    and chk: "verified_sha256 res = Some (zr_hash z) \<or> sha256_hex E c = zr_hash z"
    using assms by (auto simp: expand_content_def Let_def split: sum.splits if_splits)
  show ?thesis
  proof (cases res)
    case (FoundVerified c' h)
    then have "c' = c" using ok by (simp add: resolve_to_expand_content_def)
    then show ?thesis using chk FoundVerified resolve_verified res by auto
  qed (use ok chk in \<open>auto simp: resolve_to_expand_content_def\<close>)
qed

lemma expand_found:
  assumes "found (fst (expand E s r sel st en an sy))"
  obtains z al p fs s' c w where "expand_route E (s\<lparr>recovery_count := recovery_count s + 1\<rparr>) r = (Ok (z, al, p, fs), s')"
    "expand_content E (state s') r z al p = Ok c"
    "expand_select c fs sel st en an sy = Ok (content (fst (expand E s r sel st en an sy)), w)"
proof -
  let ?s = "s\<lparr>recovery_count := recovery_count s + 1\<rparr>"
  have ur: "\<not> unreadable_snapshot s" using assms by (auto simp: expand_def Let_def missing_def)
  obtain res s' where route: "expand_route E ?s r = (res, s')" by fastforce
  obtain z al p fs where res: "res = Ok (z, al, p, fs)"
    using assms ur route by (cases res) (auto simp: expand_def Let_def missing_def)
  obtain c where c: "expand_content E (state s') r z al p = Ok c"
    using assms ur route res by (cases "expand_content E (state s') r z al p") (auto simp: expand_def Let_def missing_def)
  obtain t w where t: "expand_select c fs sel st en an sy = Ok (t, w)"
    using assms ur route res c
    by (cases "expand_select c fs sel st en an sy") (auto simp: expand_def Let_def missing_def)
  have "content (fst (expand E s r sel st en an sy)) = t"
    using ur route res c t by (auto simp: expand_def Let_def ok_with_tokens_def split: option.splits)
  then show thesis using that [of z al p fs s' c w] route res c t by simp
qed

lemma route_portable:
  "expand_route E s r = (Ok (z, al, p, fs), s') \<Longrightarrow> parse_expand_portable (zref E) r = Ok z"
  by (auto simp: expand_route_def Let_def map_sum_def split: option.splits sum.splits if_splits prod.splits)

section \<open>File-backed blobs\<close>

lemma blob_digest:
  assumes "full_hash h"
  shows "blob_ref_digest_matches E (blob_ref_of h) t d \<longleftrightarrow> d = h"
  using hash_facts [OF assms] assms lower_hex_blen [of h]
  by (simp add: blob_ref_digest_matches_def blob_ref_of_def full_hash_def)

lemma file_ref_resolves:
  assumes "full_hash h" and "disk E path = Some f" and "file_bytes f = as_bytes u" and "valid_str u"
  shows "resolve_blob_value E (blob_ref_of h) (FileRef path i j) =
    (if \<not> line_range_out_of_bounds i j (content_line_count u) \<and> sha256_hex E (line_slice_exact u i j) = h
     then FoundVerified (line_slice_exact u i j) h else Stale)"
  by (simp add: resolve_blob_value_def read_line_range_slice [where fs = "disk E", OF assms(2-4)] blob_digest [OF assms(1)] sha256_hex_def)

lemma expand_file_backed:
  assumes "io_ok E" and "plain_store s (blob_ref_of (sha256_hex E t))"
    and "bt_get (blobs (state s)) (blob_ref_of (sha256_hex E t)) = Some (FileRef path i j)"
    and "disk E path = Some f" and "file_bytes f = as_bytes u" and "valid_str u"
  shows "fst (expand E s (blob_ref_of (sha256_hex E t)) sel st en an sy) =
    (if \<not> line_range_out_of_bounds i j (content_line_count u) \<and> sha256_hex E (line_slice_exact u i j) = sha256_hex E t
     then expansion_of E (blob_ref_of (sha256_hex E t)) sel (expand_select (line_slice_exact u i j) None sel st en an sy)
     else missing (blob_ref_of (sha256_hex E t)) sel (lit ''stale-ref''))"
proof -
  let ?h = "sha256_hex E t"
  let ?ok = "\<not> line_range_out_of_bounds i j (content_line_count u) \<and> sha256_hex E (line_slice_exact u i j) = ?h"
  have "\<not> starts_with (lit ''stale-ref'') (lit ''ref-not-found'')" by code_simp
  then have "expand_content E (state s) (blob_ref_of ?h)
      (Some \<lparr>zr_scheme = lit ''tz'', zr_hash = ?h, zr_fragment = None\<rparr>) False
      \<lparr>ref_kind = lit ''blob'', ref_bare = blob_ref_of ?h, ref_fragment = None\<rparr> =
      (if ?ok then Ok (line_slice_exact u i j) else Err (lit ''stale-ref''))"
    using assms(3) file_ref_resolves [OF sha256_hex_full [OF assms(1), of t] assms(4-6), of i j]
    by (simp add: expand_content_def resolve_ref_def resolve_to_expand_content_def)
  then show ?thesis
    using assms(2) expand_blob_route [OF assms(1,2)]
    by (auto simp: expand_def Let_def plain_store_def expansion_of_def split: sum.splits option.splits prod.splits)
qed

lemma register_blob_plain:
  assumes "plain_store s (lit ''tz://blob/'' @ h)" and "l \<noteq> lit ''tz://blob/'' @ h"
  shows "plain_store (snd (register_blob E s h l ct (Some v))) (lit ''tz://blob/'' @ h)"
    "bt_get (blobs (state (snd (register_blob E s h l ct (Some v))))) (lit ''tz://blob/'' @ h) = Some v"
    "fst (register_blob E s h l ct (Some v)) = lit ''tz://blob/'' @ h"
  using assms
  by (auto simp: register_blob_def Let_def remember_ref_def track_ref_class_def plain_store_def store_alias_get)

section \<open>Conflicting aliases\<close>

lemma ambiguous_not_found:
  assumes "r \<in> ambiguous_aliases (state s)" and "starts_with r (lit ''tz://'')" and "35 \<notin> set r"
  shows "\<not> found (fst (expand E s r sel st en an sy))"
proof
  assume "found (fst (expand E s r sel st en an sy))"
  then obtain z al p fs s' where route: "expand_route E (s\<lparr>recovery_count := recovery_count s + 1\<rparr>) r = (Ok (z, al, p, fs), s')"
    by (rule expand_found)
  have "bare_of r = r" using assms(3) by (simp add: bare_of_def split_ref_fragment_def split_once_absent)
  moreover have "canonicalize_expand_ref r = Some r" using assms(2) by (simp add: canonicalize_expand_ref_def)
  ultimately show False using route assms(1)
    by (auto simp: expand_route_def Let_def note_legacy_expand_def route_resolved_def alias_miss_def
        split: option.splits sum.splits if_splits)
qed

section \<open>The visible alias of a blob\<close>

lemma alias_hex_shape:
  assumes "io_ok E"
  shows "length (session_alias_hex_keyed (sha256 E) key h) = 16 \<and> is_lower_hex (session_alias_hex_keyed (sha256 E) key h)"
proof -
  have l: "length (sha256 E x) = 32" "list_all (\<lambda>b. b < 256) (sha256 E x)" for x
    using assms by (auto simp: io_ok_def sha_ok_def)
  have eight: "length (take 8 (hmac_sha256 (sha256 E) key (as_bytes h))) = 8"
    "list_all (\<lambda>b. b < 256) (take 8 (hmac_sha256 (sha256 E) key (as_bytes h)))"
    using l by (auto simp: hmac_sha256_def list_all_iff dest: in_set_takeD)
  then have "take 8 (hmac_sha256 (sha256 E) key (as_bytes h)) \<noteq> []" by auto
  then show ?thesis
    using eight by (simp add: session_alias_hex_keyed_def SESSION_ALIAS_HEX_LEN_def length_hex hex_lower)
qed

definition short_ref :: "rstr \<Rightarrow> rstr" where
  "short_ref x = lit ''tz://s/'' @ x"

lemma short_ref_facts:
  assumes "is_lower_hex x"
  shows "split_ref_fragment (short_ref x) = (short_ref x, None)" "bare_of (short_ref x) = short_ref x"
    "parse_expand_portable Z (short_ref x) = Ok None" "\<not> is_foreign_non_blob_ref (short_ref x)"
    "canonicalize_expand_ref (short_ref x) = Some (short_ref x)" "\<not> is_legacy_same_store_blob_ref (short_ref x)"
    "parse_session_ordinal_bare (short_ref x) = None"
proof -
  have "35 \<notin> set (short_ref x)" using lower_hex_chars [OF assms, of 35] by (auto simp: short_ref_def blob_lits)
  then show sp: "split_ref_fragment (short_ref x) = (short_ref x, None)"
    by (simp add: split_ref_fragment_def split_once_absent)
  then show b: "bare_of (short_ref x) = short_ref x" by (simp add: bare_of_def)
  have sh: "blob_ref_scheme_hash (short_ref x) = None"
    by (simp add: blob_ref_scheme_hash_def BLOB_REF_PREFIXES_def strip_prefix_def starts_with_def short_ref_def blob_lits)
  then show "parse_expand_portable Z (short_ref x) = Ok None"
    by (simp add: parse_expand_portable_def parse_zeroref_v1_blob_def sp)
  show "\<not> is_foreign_non_blob_ref (short_ref x)"
    by (simp add: is_foreign_non_blob_ref_def starts_with_def short_ref_def blob_lits)
  show "canonicalize_expand_ref (short_ref x) = Some (short_ref x)"
    by (simp add: canonicalize_expand_ref_def starts_with_def short_ref_def blob_lits)
  show "\<not> is_legacy_same_store_blob_ref (short_ref x)"
    by (simp add: is_legacy_same_store_blob_ref_def b blob_ref_hash_def sh)
  show "parse_session_ordinal_bare (short_ref x) = None"
    by (simp add: parse_session_ordinal_bare_def strip_prefix_def starts_with_def SESSION_ORDINAL_PREFIX_def short_ref_def
        blob_lits)
qed

lemma full_hash_parts: "full_hash h \<Longrightarrow> full_hash_blob_parts (blob_ref_of h) = Some h"
  using hash_facts [of h] by (simp add: full_hash_blob_parts_def blob_prefixes_def blob_ref_of_def full_hash_def)

lemma expand_short:
  assumes "io_ok E" and "is_lower_hex x" and "\<not> unreadable_snapshot s"
    and "bt_get (aliases (state s)) (short_ref x) = Some (blob_ref_of (sha256_hex E t))"
    and "short_ref x \<notin> ambiguous_aliases (state s)"
    and "bt_get (aliases (state s)) (blob_ref_of (sha256_hex E t)) = None"
    and "bt_get (blobs (state s)) (blob_ref_of (sha256_hex E t)) = Some (Inline t)"
  shows "fst (expand E s (short_ref x) sel st en an sy) =
    (if starts_with t BLOB_MARKER_PREFIX then missing (short_ref x) sel (lit ''decode-failed'')
     else expansion_of E (short_ref x) sel (expand_select t None sel st en an sy))"
proof -
  let ?h = "sha256_hex E t"
  have h: "full_hash ?h" using assms(1) by (rule sha256_hex_full)
  note F = short_ref_facts [OF assms(2)]
  have "resolve_alias_chain (state s) (short_ref x) = Some (blob_ref_of ?h)"
    using alias_chain_one [OF assms(4,6)] by (simp add: resolve_alias_chain_def F with_fragment_def)
  then have "route_resolved (state s) None (short_ref x) =
      Ok (True, \<lparr>ref_kind = lit ''blob'', ref_bare = blob_ref_of ?h, ref_fragment = None\<rparr>, None)"
    using assms(4,5)
    by (simp add: route_resolved_def alias_miss_def F resolved_spec_def blob_parse_ref [OF h] bt_contains_def)
  then have route: "expand_route E (s\<lparr>recovery_count := recovery_count s + 1\<rparr>) (short_ref x) =
      (Ok (None, True, \<lparr>ref_kind = lit ''blob'', ref_bare = blob_ref_of ?h, ref_fragment = None\<rparr>, None),
       s\<lparr>recovery_count := recovery_count s + 1\<rparr>)"
    by (simp add: expand_route_def F note_legacy_expand_def)
  have "expand_content E (state s) (short_ref x) None True
      \<lparr>ref_kind = lit ''blob'', ref_bare = blob_ref_of ?h, ref_fragment = None\<rparr> =
      (if starts_with t BLOB_MARKER_PREFIX then Err (lit ''decode-failed'') else Ok t)"
    using assms(7) by (simp add: blob_content_defs decode_failed_not_missing)
  then show ?thesis using assms(3) route
    by (auto simp: expand_def Let_def expansion_of_def split: sum.splits option.splits prod.splits)
qed

lemma alias_key_frame:
  "aliases (state (snd (store_alias_key rnd s))) = aliases (state s)" "blobs (state (snd (store_alias_key rnd s))) = blobs (state s)"
  "ambiguous_aliases (state (snd (store_alias_key rnd s))) = ambiguous_aliases (state s)"
  "unreadable_snapshot (snd (store_alias_key rnd s)) = unreadable_snapshot s"
  by (auto simp: store_alias_key_def split: option.splits)

lemma store_alias_outcome:
  assumes "a \<noteq> []" and "t \<noteq> []" and "a \<notin> ambiguous_aliases (state (store_alias_deferred E s a t))"
  shows "bt_get (aliases (state (store_alias_deferred E s a t))) a = Some t"
  using assms by (auto simp: store_alias_deferred_def Let_def split: option.splits if_splits)

lemma register_alias_eq:
  assumes "io_ok E" and "full_hash h"
  obtains x where "is_lower_hex x" and
    "register_session_visible_alias E rnd s (blob_ref_of h) =
      (let s1 = snd (store_alias_key rnd s);
           s2 = if alias_target s1 (short_ref x) \<noteq> Some (blob_ref_of h)
                then store_alias_deferred E s1 (short_ref x) (blob_ref_of h) else s1
       in (if is_alias_ambiguous s2 (short_ref x) then blob_ref_of h else short_ref x, s2))"
proof -
  obtain key s1 where k: "store_alias_key rnd s = (key, s1)" by fastforce
  define x where "x = session_alias_hex_keyed (sha256 E) key h"
  have x: "is_lower_hex x" using alias_hex_shape [OF assms(1)] by (simp add: x_def)
  have al: "session_visible_blob_alias_keyed (sha256 E) key (blob_ref_of h) = Some (short_ref x)"
    by (simp add: session_visible_blob_alias_keyed_def blob_split [OF assms(2)] full_hash_parts [OF assms(2)] with_fragment_def
        short_ref_def x_def SESSION_ALIAS_PREFIX_def)
  have can: "canonical_full_blob_ref (bare_of (blob_ref_of h)) = Some (blob_ref_of h)"
    using assms(2) by (simp add: canonical_full_blob_ref_def blob_bare full_hash_parts) (simp add: blob_ref_of_def)
  show thesis
    by (rule that [OF x]) (simp add: register_session_visible_alias_def k al can short_ref_facts [OF x] Let_def)
qed

lemma short_ref_ne: "short_ref x \<noteq> []" "blob_ref_of h \<noteq> []" "blob_ref_of h \<noteq> short_ref x" "short_ref x \<noteq> blob_ref_of h"
  by (simp_all add: short_ref_def blob_ref_of_def blob_lits)

lemma register_alias_outcome:
  assumes "io_ok E" and "full_hash h" and "register_session_visible_alias E rnd s (blob_ref_of h) = (short, s')"
    and "short \<noteq> blob_ref_of h"
  shows "\<exists>x. is_lower_hex x \<and> short = short_ref x \<and> bt_get (aliases (state s')) short = Some (blob_ref_of h) \<and>
    short \<notin> ambiguous_aliases (state s') \<and> blobs (state s') = blobs (state s) \<and>
    unreadable_snapshot s' = unreadable_snapshot s \<and>
    bt_get (aliases (state s')) (blob_ref_of h) = bt_get (aliases (state s)) (blob_ref_of h)"
proof -
  obtain x where x: "is_lower_hex x" and eq: "register_session_visible_alias E rnd s (blob_ref_of h) =
      (let s1 = snd (store_alias_key rnd s);
           s2 = if alias_target s1 (short_ref x) \<noteq> Some (blob_ref_of h)
                then store_alias_deferred E s1 (short_ref x) (blob_ref_of h) else s1
       in (if is_alias_ambiguous s2 (short_ref x) then blob_ref_of h else short_ref x, s2))"
    using register_alias_eq [OF assms(1,2)] by metis
  define s1 where "s1 = snd (store_alias_key rnd s)"
  let ?s2 = "if alias_target s1 (short_ref x) \<noteq> Some (blob_ref_of h)
    then store_alias_deferred E s1 (short_ref x) (blob_ref_of h) else s1"
  have s': "short = short_ref x" "s' = ?s2" "short_ref x \<notin> ambiguous_aliases (state ?s2)"
    using assms(3,4) eq by (auto simp: is_alias_ambiguous_def Let_def s1_def split: if_splits)
  have "bt_get (aliases (state ?s2)) (short_ref x) = Some (blob_ref_of h)"
    using store_alias_outcome [OF short_ref_ne(1,2), where E = E and s = s1] s'(3) by (auto simp: alias_target_def)
  then show ?thesis using x s' short_ref_ne alias_key_frame [of rnd s] by (auto simp: store_alias_get s1_def)
qed

lemma put_blob_short:
  assumes "io_ok E"
  shows "bt_get (aliases (state (snd (put_blob E s t ct)))) (short_ref x) = bt_get (aliases (state s)) (short_ref x)"
    "short_ref x \<in> ambiguous_aliases (state (snd (put_blob E s t ct))) \<longleftrightarrow> short_ref x \<in> ambiguous_aliases (state s)"
proof -
  have ne: "short_ref x \<noteq> lit ''tz://blob/'' @ y" for y by (simp add: short_ref_def blob_lits)
  show "bt_get (aliases (state (snd (put_blob E s t ct)))) (short_ref x) = bt_get (aliases (state s)) (short_ref x)"
    "short_ref x \<in> ambiguous_aliases (state (snd (put_blob E s t ct))) \<longleftrightarrow> short_ref x \<in> ambiguous_aliases (state s)"
    by (simp_all add: put_blob_def register_blob_def Let_def remember_ref_def track_ref_class_def log_event_def
        store_alias_get [OF ne])
qed

lemma register_fresh:
  assumes "io_ok E" and "full_hash h" and "\<forall>x. bt_get (aliases (state s)) (short_ref x) = None"
    and "\<forall>x. short_ref x \<notin> ambiguous_aliases (state s)"
  shows "fst (register_session_visible_alias E rnd s (blob_ref_of h)) \<noteq> blob_ref_of h"
proof -
  obtain x where "is_lower_hex x" and eq: "register_session_visible_alias E rnd s (blob_ref_of h) =
      (let s1 = snd (store_alias_key rnd s);
           s2 = if alias_target s1 (short_ref x) \<noteq> Some (blob_ref_of h)
                then store_alias_deferred E s1 (short_ref x) (blob_ref_of h) else s1
       in (if is_alias_ambiguous s2 (short_ref x) then blob_ref_of h else short_ref x, s2))"
    using register_alias_eq [OF assms(1,2)] by metis
  then show ?thesis using assms(3,4) alias_key_frame [of rnd s] short_ref_ne
    by (simp add: Let_def is_alias_ambiguous_def alias_target_def store_alias_deferred_def log_event_def)
qed

section \<open>Merging\<close>

lemma merge_aliases_facts:
  "merge_aliases m amb src = (m', amb') \<Longrightarrow>
   amb \<subseteq> amb' \<and> (\<forall>a t. bt_get m a = Some t \<longrightarrow> bt_get m' a = Some t) \<and>
   (\<forall>a t. (a, t) \<in> set src \<longrightarrow> bt_get m' a = Some t \<or> a \<in> amb')"
proof (induction m amb src rule: merge_aliases.induct)
  case (2 m amb a t src)
  show ?case
  proof (cases "case bt_get m a of Some existing \<Rightarrow> existing \<noteq> t | None \<Rightarrow> False")
    case True
    then show ?thesis using 2 by auto
  next
    case False
    then have "merge_aliases (bt_insert a t m) amb src = (m', amb')" using "2.prems" by simp
    note IH = "2.IH"(2) [OF False this]
    have "bt_get m b = Some u \<Longrightarrow> bt_get (bt_insert a t m) b = Some u" for b u
      using False by (auto split: option.splits)
    then show ?thesis using IH by auto
  qed
qed simp

text \<open>The entry a merged map has: the session's, where the session owns the reference or the stored map already
  had it, and the stored one otherwise.\<close>

definition merged_entry :: "rstr list \<Rightarrow> (rstr, 'v) btree \<Rightarrow> (rstr, 'v) btree \<Rightarrow> rstr \<Rightarrow> 'v option" where
  "merged_entry refs stored session r =
     (case bt_get session r of
        None \<Rightarrow> bt_get stored r
      | Some v \<Rightarrow> if r \<in> set refs \<or> bt_get stored r \<noteq> None then Some v else None)"

lemma merge_fold_get:
  assumes "distinct (map fst es)"
  shows "bt_get (foldl (\<lambda>m (r, v). if r \<in> set refs \<or> bt_contains m r then bt_insert r v m else m) m es) r =
    merged_entry refs m es r"
  using assms
proof (induction es arbitrary: m)
  case Nil
  then show ?case by (simp add: merged_entry_def bt_get_def)
next
  case (Cons e es)
  obtain k v where e: "e = (k, v)" by fastforce
  have fresh: "bt_get es k = None" using Cons.prems by (simp add: e bt_get_def map_of_eq_None_iff)
  show ?case
    using Cons.IH [of "if k \<in> set refs \<or> bt_contains m k then bt_insert k v m else m"] Cons.prems fresh
    by (auto simp: e merged_entry_def bt_contains_def bt_get_def [of "(k, v) # es"] bt_get_def [of es, symmetric] split: option.split)
qed

lemma merge_map_get: "bt_wf src \<Longrightarrow> bt_get (merge_map_entries refs dst src) r = merged_entry refs dst src r"
  unfolding merge_map_entries_def by (rule merge_fold_get) (use bt_wf_distinct [of src] in \<open>simp add: bt_keys_def\<close>)

lemma merge_states_fields:
  assumes "merge_states existing current refs cfg = m"
  shows "aliases m = fst (merge_aliases (aliases existing) (ambiguous_aliases existing) (aliases current))"
    "ambiguous_aliases m = snd (merge_aliases (aliases existing) (ambiguous_aliases existing) (aliases current)) \<union> ambiguous_aliases current"
    "blobs m = merge_map_entries refs (blobs existing) (blobs current)"
    "files m = merge_map_entries refs (files existing) (files current)"
    "units m = merge_map_entries refs (units existing) (units current)"
    "search_hits m = merge_map_entries refs (search_hits existing) (search_hits current)"
    "transparency m = merge_concurrent (transparency existing) (transparency current)"
    "alias_key existing \<noteq> None \<Longrightarrow> alias_key m = alias_key existing"
    "ordinal_generation existing \<le> ordinal_generation m"
    "ordinal_generation existing = ordinal_generation m \<Longrightarrow> next_ordinal existing \<le> next_ordinal m"
proof -
  let ?c = "merge_shell_outcome_clock existing current"
  have "aliases ?c = aliases existing" "ambiguous_aliases ?c = ambiguous_aliases existing" "blobs ?c = blobs existing"
    "files ?c = files existing" "units ?c = units existing" "search_hits ?c = search_hits existing"
    "ordinal_generation ?c = ordinal_generation existing" "next_ordinal ?c = next_ordinal existing"
    "transparency ?c = transparency existing" "alias_key ?c = alias_key existing"
    by (simp_all add: merge_shell_outcome_clock_def)
  note frame = this
  obtain al amb where a: "merge_aliases (aliases existing) (ambiguous_aliases existing) (aliases current) = (al, amb)"
    by fastforce
  note simps = merge_states_def Let_def frame a configure_def
  show "aliases m = fst (merge_aliases (aliases existing) (ambiguous_aliases existing) (aliases current))"
    "ambiguous_aliases m = snd (merge_aliases (aliases existing) (ambiguous_aliases existing) (aliases current)) \<union> ambiguous_aliases current"
    "blobs m = merge_map_entries refs (blobs existing) (blobs current)"
    "files m = merge_map_entries refs (files existing) (files current)"
    "units m = merge_map_entries refs (units existing) (units current)"
    "search_hits m = merge_map_entries refs (search_hits existing) (search_hits current)"
    "transparency m = merge_concurrent (transparency existing) (transparency current)"
    "ordinal_generation existing \<le> ordinal_generation m"
    unfolding assms [symmetric] by (simp_all add: simps)
  show "alias_key existing \<noteq> None \<Longrightarrow> alias_key m = alias_key existing"
    unfolding assms [symmetric] by (cases "alias_key existing") (simp_all add: simps)
  have "ordinal_generation existing < ordinal_generation current \<Longrightarrow> ordinal_generation m = ordinal_generation current"
    "\<not> ordinal_generation existing < ordinal_generation current \<Longrightarrow> next_ordinal existing \<le> next_ordinal m"
    unfolding assms [symmetric] by (simp_all add: simps)
  then show "ordinal_generation existing = ordinal_generation m \<Longrightarrow> next_ordinal existing \<le> next_ordinal m"
    by fastforce
qed

section \<open>The order of eviction\<close>

lemma last_seen_absent: "r \<notin> set rs \<Longrightarrow> last_seen r idx c l rs = (c, l)"
  by (induction rs arbitrary: idx) auto

lemma last_seen_once: "distinct rs \<Longrightarrow> r \<in> set rs \<Longrightarrow> \<exists>i. last_seen r idx 0 None rs = (1, Some i)"
proof (induction rs arbitrary: idx)
  case (Cons x rs)
  then show ?case by (cases "x = r") (auto simp: last_seen_absent)
qed simp

lemma score_distinct:
  assumes "distinct ord" and "r \<in> set ord"
  shows "score_from_order ord r = 0"
  using last_seen_once [OF assms, of 0] by (auto simp: score_from_order_def score_def burst_compress_def)

lemma coldest_loop_keeps_zero:
  "(\<forall>r \<in> set is. f r = 0) \<Longrightarrow> i < idx \<Longrightarrow> coldest_loop f live idx (Some (r, 0, i)) is = Some (r, 0, i)"
  by (induction "is" arbitrary: idx) (auto simp: Let_def)

lemma coldest_loop_first:
  "(\<forall>r \<in> set is. f r = 0) \<Longrightarrow> map_option fst (coldest_loop f live idx None is) = List.find live is"
proof (induction "is" arbitrary: idx)
  case (Cons j js)
  then show ?case using coldest_loop_keeps_zero [of js f idx "idx + 1" live j] by (auto simp: Let_def)
qed simp

section \<open>Properties\<close>

lemma sample_hash: "full_hash (sha256_hex sample_io t)"
  by (rule sha256_hex_full [OF sample_io_ok])

text \<open>C2: An expansion of a full-hash reference never selects from other bytes: whatever the state of the
  store, its aliases and the arguments, a found result is a selection of a text whose SHA-256 is
  the hash of the reference.\<close>

theorem expand_integrity:
  assumes "io_ok E" and "full_hash h"
    and "found (fst (expand E s (blob_ref_of h) sel st en an sy))"
  shows "\<exists>c fs w. sha256_hex E c = h \<and>
    expand_select c fs sel st en an sy = Ok (content (fst (expand E s (blob_ref_of h) sel st en an sy)), w)"
proof -
  have z: "is_full_lower_hex (zref E) h" using assms(1,2) by (simp add: io_ok_def full_hash_def)
  obtain z al p fs s' c w where
    route: "expand_route E (s\<lparr>recovery_count := recovery_count s + 1\<rparr>) (blob_ref_of h) = (Ok (z, al, p, fs), s')"
    and c: "expand_content E (state s') (blob_ref_of h) z al p = Ok c"
    and sel: "expand_select c fs sel st en an sy = Ok (content (fst (expand E s (blob_ref_of h) sel st en an sy)), w)"
    using assms(3) by (rule expand_found)
  have "z = Some \<lparr>zr_scheme = lit ''tz'', zr_hash = h, zr_fragment = None\<rparr>"
    using route_portable [OF route] blob_portable [OF assms(2) z] by simp
  then have "sha256_hex E c = h" using expand_content_integrity c by fastforce
  with sel show ?thesis by blast
qed

theorem expand_integrity_witness:
  "\<exists>c fs w. sha256_hex sample_io c = sha256_hex sample_io (lit ''abc'') \<and>
    expand_select c fs None None None None None = Ok (content (fst (expand sample_io
      (snd (store_blob_deferred sample_io (with_config default_config) (lit ''abc'') Code))
      (blob_ref_of (sha256_hex sample_io (lit ''abc''))) None None None None None)), w)"
proof -
  let ?s = "snd (store_blob_deferred sample_io (with_config default_config) (lit ''abc'') Code)"
  let ?r = "blob_ref_of (sha256_hex sample_io (lit ''abc''))"
  have "bt_get (blobs (state ?s)) ?r = Some (Inline (lit ''abc''))" "plain_store ?s ?r"
    using put_blob_fields [OF sample_io_ok, of "with_config default_config" "lit ''abc''" Code] plain_start
    by (simp_all add: store_blob_deferred_def)
  then have "found (fst (expand sample_io ?s ?r None None None None None))"
    using expand_blob [OF sample_io_ok, of ?s "lit ''abc''" None None None None None] abc_plain
    by (simp add: expansion_of_def expand_select_whole ok_with_tokens_def)
  from expand_integrity [OF sample_io_ok sample_hash this] show ?thesis .
qed

text \<open>C8: A blob that points at a range of lines of a source file never returns other bytes: its
  expansion selects from the lines the file holds now exactly when their digest is still the
  one of the reference, and is reported stale in every other case, the shortened file included.\<close>

theorem file_backed_blob_expands:
  assumes "io_ok E" and "plain_store s (blob_ref_of (sha256_hex E t))" and "disk E path = Some f"
    and "file_bytes f = as_bytes u" and "valid_str u"
    and "put_file_backed_blob E s t path i j ct = (r, s')"
  shows "fst (expand E s' r sel st en an sy) =
    (if \<not> line_range_out_of_bounds i j (content_line_count u) \<and> sha256_hex E (line_slice_exact u i j) = sha256_hex E t
     then expansion_of E r sel (expand_select (line_slice_exact u i j) None sel st en an sy)
     else missing r sel (lit ''stale-ref''))"
proof -
  let ?r = "blob_ref_of (sha256_hex E t)"
  have "lit ''tz://blob/b'' @ take 16 (sha256_hex E t) \<noteq> lit ''tz://blob/'' @ sha256_hex E t"
    using sha256_hex_shape [OF assms(1), of t] by (auto dest!: arg_cong [of _ _ length] simp: lit_def)
  note R = register_blob_plain [OF _ this, of s E ct "FileRef path i j"]
  have "plain_store s' ?r" "bt_get (blobs (state s')) ?r = Some (FileRef path i j)" "r = ?r"
    using R assms(2,6) by (simp_all add: put_file_backed_blob_def put_file_backed_blob_hashed_def blob_ref_of_def)
  then show ?thesis using expand_file_backed [OF assms(1) _ _ assms(3-5), of s' t i j] by simp
qed

theorem file_backed_blob_expands_witness:
  "content (fst (expand (sample_io\<lparr>disk := \<lambda>_. Some \<lparr>file_chunks = [lit ''abc''], meta_len = 3, meta_mtime_ns = 0\<rparr>\<rparr>)
     (snd (put_file_backed_blob (sample_io\<lparr>disk := \<lambda>_. Some \<lparr>file_chunks = [lit ''abc''], meta_len = 3, meta_mtime_ns = 0\<rparr>\<rparr>)
       (with_config default_config) (lit ''abc'') (lit ''f'') 1 1 Code))
     (fst (put_file_backed_blob (sample_io\<lparr>disk := \<lambda>_. Some \<lparr>file_chunks = [lit ''abc''], meta_len = 3, meta_mtime_ns = 0\<rparr>\<rparr>)
       (with_config default_config) (lit ''abc'') (lit ''f'') 1 1 Code)) None None None None None)) = lit ''abc''"
proof -
  let ?f = "\<lparr>file_chunks = [lit ''abc''], meta_len = 3, meta_mtime_ns = 0\<rparr>"
  let ?E = "sample_io\<lparr>disk := \<lambda>_. Some ?f\<rparr>"
  have E: "io_ok ?E" using sample_io_ok by (simp add: io_ok_def)
  have "file_bytes ?f = as_bytes (lit ''abc'')" "valid_str (lit ''abc'')" "line_slice_exact (lit ''abc'') 1 1 = lit ''abc''"
    "\<not> line_range_out_of_bounds 1 1 (content_line_count (lit ''abc''))"
    by code_simp+
  then show ?thesis
    using file_backed_blob_expands [OF E plain_start, of "lit ''f''" ?f "lit ''abc''" default_config "lit ''abc''" 1 1 Code
        "fst (put_file_backed_blob ?E (with_config default_config) (lit ''abc'') (lit ''f'') 1 1 Code)"
        "snd (put_file_backed_blob ?E (with_config default_config) (lit ''abc'') (lit ''f'') 1 1 Code)" None None None None None]
    by (simp add: expansion_of_def expand_select_whole ok_with_tokens_def)
qed

text \<open>C13: An alias is never redirected: a second, different target leaves the first mapping in place and
  marks the alias ambiguous, and from then on every expansion of the alias is refused.\<close>

theorem alias_conflict_refused:
  assumes "bt_get (aliases (state s)) a = Some t" and "t' \<noteq> t" and "t' \<noteq> []"
    and "starts_with a (lit ''tz://'')" and "35 \<notin> set a"
  shows "alias_target (store_alias_deferred E s a t') a = Some t \<and>
    is_alias_ambiguous (store_alias_deferred E s a t') a \<and>
    \<not> found (fst (expand E (store_alias_deferred E s a t') a sel st en an sy))"
proof -
  have "a \<noteq> []" using assms(4) by (auto simp: starts_with_def lit_def)
  then have s': "store_alias_deferred E s a t' =
      upd_state (\<lambda>st. st\<lparr>ambiguous_aliases := ambiguous_aliases st \<union> {a}\<rparr>) (s\<lparr>skip_empty_persist := False\<rparr>)"
    using assms(1-3) by (simp add: store_alias_deferred_def Let_def)
  then have "a \<in> ambiguous_aliases (state (store_alias_deferred E s a t'))" by simp
  from ambiguous_not_found [OF this assms(4,5)] show ?thesis
    using assms(1) by (simp add: s' alias_target_def is_alias_ambiguous_def)
qed

theorem alias_conflict_refused_witness:
  "\<not> found (fst (expand sample_io (store_alias_deferred sample_io
     (store_alias_deferred sample_io (with_config default_config) (lit ''tz://s/ab'') (lit ''x'')) (lit ''tz://s/ab'') (lit ''y''))
     (lit ''tz://s/ab'') None None None None None))"
proof -
  have "bt_get (aliases (state (store_alias_deferred sample_io (with_config default_config) (lit ''tz://s/ab'') (lit ''x''))))
      (lit ''tz://s/ab'') = Some (lit ''x'')"
    by (simp add: store_alias_deferred_def with_config_def empty_state_def Let_def bt_get_def)
  moreover have "starts_with (lit ''tz://s/ab'') (lit ''tz://'')" "35 \<notin> set (lit ''tz://s/ab'')" by code_simp+
  ultimately show ?thesis
    using alias_conflict_refused [of _ "lit ''tz://s/ab''" "lit ''x''" "lit ''y''"] by simp
qed

text \<open>C7: The short reference a session sees stands for the stored text. In a readable store that holds the text and does
  not alias its full reference, when registration of the full reference returns a short one, expanding the
  short reference gives the selection of that text; only a text that begins with the externalisation marker
  is refused as undecodable, as it is under its full reference.\<close>

theorem visible_alias_expands:
  assumes "io_ok E" and "\<not> unreadable_snapshot s"
    and "bt_get (blobs (state s)) (blob_ref_of (sha256_hex E t)) = Some (Inline t)"
    and "bt_get (aliases (state s)) (blob_ref_of (sha256_hex E t)) = None"
    and "register_session_visible_alias E rnd s (blob_ref_of (sha256_hex E t)) = (short, s')"
    and "short \<noteq> blob_ref_of (sha256_hex E t)"
  shows "fst (expand E s' short sel st en an sy) =
    (if starts_with t BLOB_MARKER_PREFIX then missing short sel (lit ''decode-failed'')
     else expansion_of E short sel (expand_select t None sel st en an sy))"
proof -
  have h: "full_hash (sha256_hex E t)" using assms(1) by (rule sha256_hex_full)
  obtain x where "is_lower_hex x" "short = short_ref x"
    "bt_get (aliases (state s')) short = Some (blob_ref_of (sha256_hex E t))"
    "short \<notin> ambiguous_aliases (state s')" "blobs (state s') = blobs (state s)"
    "unreadable_snapshot s' = unreadable_snapshot s"
    "bt_get (aliases (state s')) (blob_ref_of (sha256_hex E t)) = bt_get (aliases (state s)) (blob_ref_of (sha256_hex E t))"
    using register_alias_outcome [OF assms(1) h assms(5,6)] by blast
  then show ?thesis using expand_short [OF assms(1), of x s' t] assms(2-4) by simp
qed

theorem visible_alias_expands_witness:
  "content (fst (expand sample_io
      (snd (register_session_visible_alias sample_io (replicate 32 7)
        (snd (store_blob_deferred sample_io (with_config default_config) (lit ''abc'') Code))
        (blob_ref_of (sha256_hex sample_io (lit ''abc'')))))
      (fst (register_session_visible_alias sample_io (replicate 32 7)
        (snd (store_blob_deferred sample_io (with_config default_config) (lit ''abc'') Code))
        (blob_ref_of (sha256_hex sample_io (lit ''abc'')))))
      None None None None None)) = lit ''abc''"
proof -
  let ?s = "snd (store_blob_deferred sample_io (with_config default_config) (lit ''abc'') Code)"
  let ?r = "blob_ref_of (sha256_hex sample_io (lit ''abc''))"
  obtain short s' where r: "register_session_visible_alias sample_io (replicate 32 7) ?s ?r = (short, s')" by fastforce
  have "bt_get (blobs (state ?s)) ?r = Some (Inline (lit ''abc''))" "plain_store ?s ?r"
    using put_blob_fields [OF sample_io_ok, of "with_config default_config" "lit ''abc''" Code] plain_start
    by (simp_all add: store_blob_deferred_def)
  moreover have "short \<noteq> ?r"
    using register_fresh [OF sample_io_ok sample_hash, of ?s "replicate 32 7" "lit ''abc''"] r
    by (simp add: store_blob_deferred_def put_blob_short [OF sample_io_ok]) (simp add: with_config_def empty_state_def bt_get_def)
  ultimately have "fst (expand sample_io s' short None None None None None) =
      expansion_of sample_io short None (expand_select (lit ''abc'') None None None None None None)"
    using visible_alias_expands [OF sample_io_ok, of ?s "lit ''abc''"] r abc_plain by (simp add: plain_store_def)
  then show ?thesis by (simp add: r expansion_of_def expand_select_whole ok_with_tokens_def)
qed

text \<open>Reserved ordinals are never reused: the references of two successive reservations are pairwise
  distinct and every one parses back to its generation and number.\<close>

theorem ordinal_ranges_disjoint:
  assumes "reserve_ordinal_range s m = Ok (r1, s1)" and "reserve_ordinal_range s1 n = Ok (r2, s2)"
    and "i < m" and "j < n" and "0 < next_ordinal (state s)" and "0 < ordinal_generation (state s)"
    and "ordinal_generation (state s) \<le> u64_max"
  shows "\<exists>a b. ref_for r1 i = Some a \<and> ref_for r2 j = Some b \<and> a \<noteq> b \<and>
    parse_session_ordinal_bare a = Some (ordinal_generation (state s), next_ordinal (state s) + i) \<and>
    parse_session_ordinal_bare b = Some (ordinal_generation (state s), next_ordinal (state s) + m + j)"
proof -
  let ?g = "ordinal_generation (state s)" let ?k = "next_ordinal (state s)"
  have r1: "r1 = \<lparr>generation = ?g, range_start = ?k, end_exclusive = ?k + m\<rparr>" "next_ordinal (state s1) = ?k + m"
    "ordinal_generation (state s1) = ?g" "?k + m \<le> u64_max"
    using assms(1) by (auto simp: reserve_ordinal_range_def Let_def checked_add_def split: if_splits)
  have r2: "r2 = \<lparr>generation = ?g, range_start = ?k + m, end_exclusive = ?k + m + n\<rparr>" "?k + m + n \<le> u64_max"
    using assms(2) r1 by (auto simp: reserve_ordinal_range_def Let_def checked_add_def split: if_splits)
  have "ref_for r1 i = Some (session_ordinal_ref ?g (?k + i))" "ref_for r2 j = Some (session_ordinal_ref ?g (?k + m + j))"
    using assms(3,4) by (simp_all add: r1 r2 ref_for_def range_len_def add.assoc)
  moreover have "parse_session_ordinal_bare (session_ordinal_ref ?g (?k + i)) = Some (?g, ?k + i)"
    using assms r1 by (intro ordinal_parse) auto
  moreover have "parse_session_ordinal_bare (session_ordinal_ref ?g (?k + m + j)) = Some (?g, ?k + m + j)"
    using assms r2 by (intro ordinal_parse) auto
  moreover have "?k + i \<noteq> ?k + m + j" using assms(3) by simp
  ultimately show ?thesis by (metis option.inject prod.inject)
qed

theorem ordinal_ranges_disjoint_witness:
  "\<exists>r1 s1 r2 s2 a b. reserve_ordinal_range (with_config default_config) 2 = Ok (r1, s1) \<and>
     reserve_ordinal_range s1 3 = Ok (r2, s2) \<and> ref_for r1 1 = Some a \<and> ref_for r2 2 = Some b \<and> a \<noteq> b"
proof -
  obtain r1 s1 where 1: "reserve_ordinal_range (with_config default_config) 2 = Ok (r1, s1)"
    "next_ordinal (state s1) = 3" "ordinal_generation (state s1) = 1"
    by (auto simp: reserve_ordinal_range_def with_config_def empty_state_def checked_add_def u64_max_def Let_def)
  obtain r2 s2 where 2: "reserve_ordinal_range s1 3 = Ok (r2, s2)"
    using 1(2,3) by (auto simp: reserve_ordinal_range_def checked_add_def u64_max_def Let_def)
  show ?thesis
    using ordinal_ranges_disjoint [OF 1(1) 2, of 1 2] 1(1) 2
    by (auto simp: with_config_def empty_state_def u64_max_def)
qed

text \<open>C12: Merging a session's state into a stored one keeps what the stored one committed: no alias is
  redirected, every alias of the session is kept or marked ambiguous, no ambiguity is forgotten, the ordinal counter never
  goes back within a generation, the audit log is extended, and a stored alias key stays. In all four maps, blobs, files,
  units and search hits, the entry is the session's where the session owns the reference or the store had it, and the stored one otherwise.\<close>

theorem merge_states_keeps:
  assumes "state_inv current" and "merge_states existing current refs cfg = m"
  shows "(\<forall>a t. bt_get (aliases existing) a = Some t \<longrightarrow> bt_get (aliases m) a = Some t) \<and>
    (\<forall>a t. bt_get (aliases current) a = Some t \<longrightarrow> bt_get (aliases m) a = Some t \<or> a \<in> ambiguous_aliases m) \<and>
    ambiguous_aliases existing \<union> ambiguous_aliases current \<subseteq> ambiguous_aliases m \<and>
    (ordinal_generation existing < ordinal_generation m \<or>
     ordinal_generation existing = ordinal_generation m \<and> next_ordinal existing \<le> next_ordinal m) \<and>
    prefix (leaves (transparency existing)) (leaves (transparency m)) \<and>
    (alias_key existing \<noteq> None \<longrightarrow> alias_key m = alias_key existing) \<and>
    (\<forall>r. bt_get (blobs m) r = merged_entry refs (blobs existing) (blobs current) r \<and>
         bt_get (files m) r = merged_entry refs (files existing) (files current) r \<and>
         bt_get (units m) r = merged_entry refs (units existing) (units current) r \<and>
         bt_get (search_hits m) r = merged_entry refs (search_hits existing) (search_hits current) r)"
proof -
  note f = merge_states_fields [OF assms(2)]
  obtain al amb where a: "merge_aliases (aliases existing) (ambiguous_aliases existing) (aliases current) = (al, amb)"
    by fastforce
  note A = merge_aliases_facts [OF a]
  have al: "aliases m = al" "ambiguous_aliases m = amb \<union> ambiguous_aliases current" using f(1,2) a by simp_all
  have wf: "bt_wf (blobs current)" "bt_wf (files current)" "bt_wf (units current)" "bt_wf (search_hits current)"
    using assms(1) by (simp_all add: state_inv_def keyed_def)
  have "\<forall>x t. bt_get (aliases current) x = Some t \<longrightarrow> bt_get (aliases m) x = Some t \<or> x \<in> ambiguous_aliases m"
    using A by (auto simp: al bt_get_def) (metis map_of_SomeD)
  moreover have "\<forall>x t. bt_get (aliases existing) x = Some t \<longrightarrow> bt_get (aliases m) x = Some t"
    using A by (simp add: al)
  moreover have "ambiguous_aliases existing \<union> ambiguous_aliases current \<subseteq> ambiguous_aliases m"
    using A by (auto simp: al)
  moreover have "prefix (leaves (transparency existing)) (leaves (transparency m))" by (simp add: f merge_concurrent_def)
  ultimately show ?thesis using f(8-10) by (simp add: f(3-6) merge_map_get wf) linarith
qed

definition stored_sample :: RecoveryState where
  "stored_sample = (empty_state default_config)\<lparr>aliases := [(lit ''a'', lit ''x'')],
     blobs := [(lit ''tz://blob/1'', Inline (lit ''old'')), (lit ''tz://blob/2'', Inline (lit ''kept''))], transparency := \<lparr>leaves = [[1]]\<rparr>\<rparr>"

definition session_sample :: RecoveryState where
  "session_sample = (empty_state default_config)\<lparr>aliases := [(lit ''a'', lit ''y'')],
     blobs := [(lit ''tz://blob/1'', Inline (lit ''new'')), (lit ''tz://blob/3'', Inline (lit ''own''))],
     ref_order := [lit ''tz://blob/1'', lit ''tz://blob/3''], transparency := \<lparr>leaves = [[2]]\<rparr>\<rparr>"

theorem merge_states_keeps_witness:
  "\<exists>m. merge_states stored_sample session_sample [lit ''tz://blob/3''] default_config = m \<and>
     bt_get (aliases m) (lit ''a'') = Some (lit ''x'') \<and> lit ''a'' \<in> ambiguous_aliases m \<and>
     bt_get (blobs m) (lit ''tz://blob/1'') = Some (Inline (lit ''new'')) \<and>
     bt_get (blobs m) (lit ''tz://blob/2'') = Some (Inline (lit ''kept'')) \<and>
     bt_get (blobs m) (lit ''tz://blob/3'') = Some (Inline (lit ''own'')) \<and> prefix [[1]] (leaves (transparency m))"
proof -
  let ?m = "merge_states stored_sample session_sample [lit ''tz://blob/3''] default_config"
  have "state_inv session_sample" by code_simp
  note M = merge_states_keeps [OF this refl, of stored_sample "[lit ''tz://blob/3'']" default_config]
  note keep = M [THEN conjunct1] and own = M [THEN conjunct2, THEN conjunct1]
    and log = M [THEN conjunct2, THEN conjunct2, THEN conjunct2, THEN conjunct2, THEN conjunct1]
    and maps = M [THEN conjunct2, THEN conjunct2, THEN conjunct2, THEN conjunct2, THEN conjunct2, THEN conjunct2]
  have samples: "bt_get (aliases stored_sample) (lit ''a'') = Some (lit ''x'')" "bt_get (aliases session_sample) (lit ''a'') = Some (lit ''y'')"
    "lit ''x'' \<noteq> lit ''y''" "leaves (transparency stored_sample) = [[1]]"
    by (simp_all add: stored_sample_def session_sample_def bt_get_def lit_def)
  have entries: "merged_entry [lit ''tz://blob/3''] (blobs stored_sample) (blobs session_sample) (lit ''tz://blob/1'') = Some (Inline (lit ''new''))"
    "merged_entry [lit ''tz://blob/3''] (blobs stored_sample) (blobs session_sample) (lit ''tz://blob/2'') = Some (Inline (lit ''kept''))"
    "merged_entry [lit ''tz://blob/3''] (blobs stored_sample) (blobs session_sample) (lit ''tz://blob/3'') = Some (Inline (lit ''own''))"
    by (simp_all add: stored_sample_def session_sample_def merged_entry_def bt_get_def lit_def)
  have kept: "bt_get (aliases ?m) (lit ''a'') = Some (lit ''x'')" using keep samples(1) by blast
  then have "bt_get (aliases ?m) (lit ''a'') \<noteq> Some (lit ''y'')" using samples(3) by simp
  then have "lit ''a'' \<in> ambiguous_aliases ?m" using own samples(2) by blast
  moreover have "prefix [[1]] (leaves (transparency ?m))" using log by (simp only: samples(4))
  moreover have "bt_get (blobs ?m) r = merged_entry [lit ''tz://blob/3''] (blobs stored_sample) (blobs session_sample) r" for r
    using maps by blast
  ultimately show ?thesis using kept entries by simp
qed

text \<open>Eviction forgets frequency: it collapses the order log to first occurrences, after which every
  reference has a count of one and so a score of zero, whatever its age, and the coldest
  reference is simply the oldest live one. Only references put again since the last eviction
  are treated as warmer.\<close>

theorem eviction_forgets_frequency:
  assumes "state_inv (state s)"
  shows "coldest (ref_order (state (evict E s))) live = List.find live (ref_order (state (evict E s)))"
proof -
  have "distinct (ref_order (state (evict E s)))" using assms by (rule evict_facts(4))
  then have "\<forall>r \<in> set (ref_order (state (evict E s))). score_from_order (ref_order (state (evict E s))) r = 0"
    using score_distinct by blast
  from coldest_loop_first [OF this] show ?thesis by (simp add: coldest_def)
qed

theorem eviction_forgets_frequency_witness:
  "coldest (ref_order (state (evict sample_io (with_config default_config)))) (\<lambda>_. True) =
   List.find (\<lambda>_. True) (ref_order (state (evict sample_io (with_config default_config))))"
  using eviction_forgets_frequency [of "with_config default_config" sample_io] reachable_inv [of sample_io default_config, OF reachable.start]
  by simp

end
