(* ===== verification/BlobSource.thy ===== *)
theory BlobSource
  imports AliasProps
begin

text \<open>
  The contract the session layers rely on: a text put into the store can be fetched by the
  reference that was returned. The locale states the laws, proves what a client that keeps a
  list of references gets from them, and is interpreted on the recovery store, where a
  reference holds a text while the blob is inline, unaliased and not evicted.
\<close>

section \<open>The interface\<close>

text \<open>Fetching a list of references in order, stopping at the first that is not available.\<close>

fun fetch_each :: "('s \<Rightarrow> rstr \<Rightarrow> rstr option \<times> 's) \<Rightarrow> 's \<Rightarrow> rstr list \<Rightarrow> (rstr + rstr list) \<times> 's" where
  "fetch_each fetch s [] = (Ok [], s)"
| "fetch_each fetch s (r # rs) =
     (case fetch s r of
        (None, s') \<Rightarrow> (Err r, s')
      | (Some t, s') \<Rightarrow>
          (case fetch_each fetch s' rs of
             (Inl e, s'') \<Rightarrow> (Err e, s'')
           | (Inr ts, s'') \<Rightarrow> (Ok (t # ts), s'')))"

locale blob_source =
  fixes put :: "'s \<Rightarrow> rstr \<Rightarrow> rstr \<times> 's"
    and fetch :: "'s \<Rightarrow> rstr \<Rightarrow> rstr option \<times> 's"
    and holds :: "'s \<Rightarrow> rstr \<Rightarrow> rstr \<Rightarrow> bool"
    and storable :: "'s \<Rightarrow> rstr \<Rightarrow> bool"
  assumes put_holds: "storable s t \<Longrightarrow> holds (snd (put s t)) (fst (put s t)) t"
    and put_keeps: "holds s r u \<Longrightarrow> fst (put s t) = r \<longrightarrow> t = u \<Longrightarrow> holds (snd (put s t)) r u"
    and fetch_held: "holds s r t \<Longrightarrow> fst (fetch s r) = Some t"
    and fetch_keeps: "holds (snd (fetch s q)) r t = holds s r t"
begin

lemma fetch_each_held:
  assumes "list_all2 (holds s) rs ts"
  shows "\<exists>s'. fetch_each fetch s rs = (Ok ts, s') \<and> (\<forall>r t. holds s' r t = holds s r t)"
  using assms
proof (induction rs arbitrary: s ts)
  case (Cons r rs)
  then obtain t us where ts: "ts = t # us" "holds s r t" "list_all2 (holds s) rs us" by (auto simp: list_all2_Cons1)
  obtain s1 where s1: "fetch s r = (Some t, s1)" using fetch_held [OF ts(2)] by (cases "fetch s r") auto
  have same: "holds s1 q u = holds s q u" for q u using fetch_keeps [of s r q u] s1 by simp
  then have "holds s1 = holds s" by (intro ext)
  then have "list_all2 (holds s1) rs us" using ts(3) by simp
  from Cons.IH [OF this] obtain s2 where "fetch_each fetch s1 rs = (Ok us, s2)" "\<forall>q u. holds s2 q u = holds s1 q u" by blast
  then show ?case using s1 ts(1) same by auto
qed simp

lemma put_then_fetch: "storable s t \<Longrightarrow> fst (fetch (snd (put s t)) (fst (put s t))) = Some t"
  by (rule fetch_held [OF put_holds])

end

section \<open>The recovery store provides it\<close>

definition blob_held :: "io \<Rightarrow> RecoveryStore \<Rightarrow> rstr \<Rightarrow> rstr \<Rightarrow> bool" where
  "blob_held E s r t \<longleftrightarrow> io_ok E \<and> r = blob_ref_of (sha256_hex E t) \<and> plain_store s r \<and>
     bt_get (blobs (state s)) r = Some (Inline t) \<and> \<not> starts_with t BLOB_MARKER_PREFIX"

definition blob_storable :: "io \<Rightarrow> RecoveryStore \<Rightarrow> rstr \<Rightarrow> bool" where
  "blob_storable E s t \<longleftrightarrow> io_ok E \<and> plain_store s (blob_ref_of (sha256_hex E t)) \<and> \<not> starts_with t BLOB_MARKER_PREFIX"

text \<open>\<open>expand\<close> with the selector \<open>raw\<close>, as the session layers call it.\<close>

definition expand_raw :: "io \<Rightarrow> RecoveryStore \<Rightarrow> rstr \<Rightarrow> rstr option \<times> RecoveryStore" where
  "expand_raw E s r =
     (let (res, s') = expand E s r (Some (lit ''raw'')) None None None None
      in (if found res then Some (content res) else None, s'))"

lemma raw_lits:
  "Some (lit ''raw'') \<noteq> Some (lit ''error_block'')" "Some (lit ''raw'') \<noteq> Some (lit ''summary'')"
  "strip_prefix (lit ''symbol:'') (lit ''raw'') = None" "starts_with (lit ''raw'') (lit ''anchor:'') = False"
  by code_simp+

lemma raw_window: "resolve_selector_line_window (Some (lit ''raw'')) i j = (i, j)"
proof -
  have "find_window (lit ''raw'') (map lit [''range:'', ''lines:'', ''line:'']) = None"
    "strip_prefix (lit ''around:'') (lit ''raw'') = None" by code_simp+
  then show ?thesis by (simp add: resolve_selector_line_window_def)
qed

lemma expand_select_raw: "expand_select t None (Some (lit ''raw'')) None None None None = Ok (t, None)"
  using raw_lits
  by (simp add: expand_select_def is_byte_spec_def raw_window clamp_line_window_def expand_selected_content_def select_content_def)

lemma plain_store_cong:
  "state s' = state s \<Longrightarrow> unreadable_snapshot s' = unreadable_snapshot s \<Longrightarrow> plain_store s' r = plain_store s r"
  by (simp add: plain_store_def)

lemma put_blob_plain:
  assumes "io_ok E" and "plain_store s (blob_ref_of h)" and "full_hash h"
  shows "plain_store (snd (put_blob E s t ct)) (blob_ref_of h)"
proof -
  have len: "length (id_for E 98 t) = 17" using assms(1) by (simp add: id_for_def length_hex io_ok_def sha_ok_def)
  have ne: "blob_ref_of h \<noteq> lit ''tz://blob/'' @ id_for E 98 t"
    using assms(3) len by (auto simp: blob_ref_of_def full_hash_def)
  show ?thesis using assms(2)
    by (auto simp: put_blob_def register_blob_def Let_def remember_ref_def track_ref_class_def log_event_def
        plain_store_def store_alias_get [OF ne])
qed

lemma blob_put_keeps:
  assumes "blob_held E s r u" and "fst (put_blob E s t ct) = r \<longrightarrow> t = u"
  shows "blob_held E (snd (put_blob E s t ct)) r u"
proof -
  have ok: "io_ok E" and r: "r = blob_ref_of (sha256_hex E u)" using assms(1) by (simp_all add: blob_held_def)
  note F = put_blob_fields [OF ok, of s t ct]
  have "bt_get (blobs (state (snd (put_blob E s t ct)))) r = Some (Inline u)"
    using assms F(1,2) by (auto simp: blob_held_def)
  then show ?thesis
    using assms(1) put_blob_plain [OF ok _ sha256_hex_full [OF ok, of u], of s t ct] r by (simp add: blob_held_def)
qed

lemma raw_held:
  assumes "blob_held E s r t"
  shows "fst (expand_raw E s r) = Some t"
proof -
  have "fst (expand E s r (Some (lit ''raw'')) None None None None) = expansion_of E r (Some (lit ''raw'')) (Ok (t, None))"
    using assms expand_blob [of E s t "Some (lit ''raw'')" None None None None] expand_select_raw [of t]
    by (auto simp: blob_held_def)
  then show ?thesis by (simp add: expand_raw_def split_beta expansion_of_def ok_with_tokens_def)
qed

lemma raw_keeps: "blob_held E (snd (expand_raw E s q)) r t = blob_held E s r t"
  using expand_state [of E s q "Some (lit ''raw'')" None None None None]
  by (simp add: expand_raw_def split_beta blob_held_def plain_store_def)

interpretation rs: blob_source
  "\<lambda>s t. store_blob_deferred E s t ct" "expand_raw E" "blob_held E" "blob_storable E" for E ct
proof
  show "blob_storable E s t \<Longrightarrow>
      blob_held E (snd (store_blob_deferred E s t ct)) (fst (store_blob_deferred E s t ct)) t" for s t
    using put_blob_fields [of E s t ct] by (simp add: blob_storable_def blob_held_def store_blob_deferred_def)
  show "blob_held E s r u \<Longrightarrow> fst (store_blob_deferred E s t ct) = r \<longrightarrow> t = u \<Longrightarrow>
      blob_held E (snd (store_blob_deferred E s t ct)) r u" for s r u t
    unfolding store_blob_deferred_def by (rule blob_put_keeps)
  show "blob_held E s r t \<Longrightarrow> fst (expand_raw E s r) = Some t" for s r t by (rule raw_held)
  show "blob_held E (snd (expand_raw E s q)) r t = blob_held E s r t" for s q r t by (rule raw_keeps)
qed

section \<open>Committing keeps what fits\<close>

lemma evict_order_frame:
  "aliases (state (evict E s)) = aliases (state s)" "ambiguous_aliases (state (evict E s)) = ambiguous_aliases (state s)"
  "unreadable_snapshot (evict E s) = unreadable_snapshot s"
proof -
  have b: "aliases (evict_bytes E n st) = aliases st \<and> ambiguous_aliases (evict_bytes E n st) = ambiguous_aliases st" for n st
  proof (induction E n st rule: evict_bytes.induct)
    case (1 E n st)
    then show ?case unfolding evict_bytes.simps [of E n st] by (auto simp: remove_entry_def split: option.split)
  qed
  show "aliases (state (evict E s)) = aliases (state s)" "ambiguous_aliases (state (evict E s)) = ambiguous_aliases (state s)"
    "unreadable_snapshot (evict E s) = unreadable_snapshot s"
    using b by (simp_all add: evict_def Let_def compact_order_def evict_prefixes_def split_beta)
qed

lemma evict_prefix_fits:
  "length items \<le> limit \<Longrightarrow> evict_prefix items ord pre limit = (items, ord)"
  by (simp add: evict_prefix_def evict_victims_def bt_retain_def split_beta)

lemma evict_fits:
  assumes "within_limits E s"
  shows "blobs (state (evict E s)) = blobs (state s)"
proof -
  have p: "evict_prefixes (config s) (state s) = state s"
    using assms by (simp add: evict_prefixes_def within_limits_def evict_prefix_fits)
  have "evict_bytes E (max_bytes (config s)) (state s) = state s"
    using assms by (subst evict_bytes.simps) (simp add: within_limits_def)
  then show ?thesis by (simp add: evict_def p Let_def compact_order_def)
qed

lemma persist_fits:
  assumes "within_limits E s" and "blob_held E s r t"
  shows "blob_held E (persist E s) r t"
proof -
  have w: "within_limits E (s\<lparr>skip_empty_persist := False\<rparr>)" using assms(1) by (simp add: within_limits_def)
  show ?thesis using assms(2) evict_fits [OF w] evict_order_frame [of E "s\<lparr>skip_empty_persist := False\<rparr>"]
    by (auto simp: persist_def blob_held_def plain_store_def)
qed

end
