(* ===== verification/ContextViews.thy ===== *)
theory ContextViews
  imports AliasProps
begin

text \<open>
  Materialised context views (\<open>tokenzero-recovery/src/context_view.rs\<close>) and the guard they run
  their prefix and their renders through (\<open>prefix_stability.rs\<close>). A view keeps a timeline of
  records, each stored as a blob before it is visible; a projection renders the fixed prefix,
  the resident records and the newest records, within a token budget. The guard is a
  \<open>RefCell\<close> in the source and an explicit part of the state here. Sets of identifiers are
  ascending lists, as \<open>BTreeSet\<close> iterates them.
\<close>

section \<open>Prefix stability\<close>

definition MAX_CACHE_BLOCKS_PER_TURN :: nat where "MAX_CACHE_BLOCKS_PER_TURN = 15"
definition ESTIMATOR_FLOOR_SAFETY_NUMERATOR :: nat where "ESTIMATOR_FLOOR_SAFETY_NUMERATOR = 5"
definition ESTIMATOR_FLOOR_SAFETY_DENOMINATOR :: nat where "ESTIMATOR_FLOOR_SAFETY_DENOMINATOR = 4"

datatype CacheModelTier = Opus | FableOrSonnet46 | OlderSonnet

fun min_cacheable_tokens :: "CacheModelTier \<Rightarrow> nat" where
  "min_cacheable_tokens Opus = 4096"
| "min_cacheable_tokens FableOrSonnet46 = 2048"
| "min_cacheable_tokens OlderSonnet = 1024"

definition min_cacheable_estimator_tokens :: "CacheModelTier \<Rightarrow> nat" where
  "min_cacheable_estimator_tokens tier =
     div_ceil (sat_mul (min_cacheable_tokens tier) ESTIMATOR_FLOOR_SAFETY_NUMERATOR) ESTIMATOR_FLOOR_SAFETY_DENOMINATOR"

record RenderObservation =
  obs_content :: rstr
  obs_rendered :: rstr
  obs_level :: rstr
  obs_tokenizer_id :: rstr

record CacheablePrefix =
  prefix_bytes :: rstr
  prefix_breakpoint :: bool
  blocks_per_turn :: "(nat, nat) btree"

datatype PrefixStabilityAlert = BelowCacheableFloor nat nat CacheModelTier

datatype PrefixStabilityViolation =
  NonMonotonePrefix | NonDeterministicRender rstr | BlockBudgetExceeded nat nat nat

record PrefixStabilityGuard =
  last_prefix :: "rstr option"
  renders :: "((rstr \<times> rstr \<times> rstr) \<times> rstr) list"
  prefix_observations :: nat

definition default_guard :: PrefixStabilityGuard where
  "default_guard = \<lparr>last_prefix = None, renders = [], prefix_observations = 0\<rparr>"

definition observe_prefix ::
    "rstr option \<Rightarrow> PrefixStabilityGuard \<Rightarrow> CacheablePrefix \<Rightarrow> CacheModelTier \<Rightarrow>
     (PrefixStabilityViolation + PrefixStabilityAlert option) \<times> PrefixStabilityGuard" where
  "observe_prefix active g p tier =
     (if \<not> prefix_breakpoint p \<and>
         (case last_prefix g of Some previous \<Rightarrow> \<not> starts_with (prefix_bytes p) previous | None \<Rightarrow> False)
      then (Err NonMonotonePrefix, g)
      else case List.find (\<lambda>(_, blocks). blocks > MAX_CACHE_BLOCKS_PER_TURN) (blocks_per_turn p) of
        Some (turn, blocks) \<Rightarrow> (Err (BlockBudgetExceeded turn blocks MAX_CACHE_BLOCKS_PER_TURN), g)
      | None \<Rightarrow>
          let g = g\<lparr>last_prefix := Some (prefix_bytes p), prefix_observations := sat_add (prefix_observations g) 1\<rparr>;
              observed = count_tokens active (prefix_bytes p);
              required = min_cacheable_estimator_tokens tier
          in (Ok (if observed < required then Some (BelowCacheableFloor observed required tier) else None), g))"

definition observe_render ::
    "io \<Rightarrow> PrefixStabilityGuard \<Rightarrow> RenderObservation \<Rightarrow> (PrefixStabilityViolation + rstr) \<times> PrefixStabilityGuard" where
  "observe_render E g ob =
     (let key = (sha256_hex E (obs_content ob), obs_level ob, obs_tokenizer_id ob) in
      case map_of (renders g) key of
        Some prior \<Rightarrow>
          if prior \<noteq> obs_rendered ob then (Err (NonDeterministicRender (obs_tokenizer_id ob)), g)
          else (Ok (sha256_hex E (obs_rendered ob)), g)
      | None \<Rightarrow> (Ok (sha256_hex E (obs_rendered ob)), g\<lparr>renders := (key, obs_rendered ob) # renders g\<rparr>))"

definition observation_counts :: "PrefixStabilityGuard \<Rightarrow> nat \<times> nat" where
  "observation_counts g = (prefix_observations g, length (renders g))"

section \<open>The view\<close>

datatype AsOf = Turn nat | TimestampMillis nat

record ContextRecord =
  rec_id :: nat
  rec_turn :: nat
  rec_timestamp :: nat
  rec_ref :: rstr
  rec_text :: rstr

record ContextViewConfig =
  cfg_working_set_tokens :: nat
  cfg_hot_tail_tokens :: nat

datatype ContextViewConfigError = HotTailExceedsWorkingSet nat nat

record ContextProjection =
  rendered :: rstr
  stable_prefix :: rstr
  stable_prefix_sha256 :: rstr
  stable_prefix_tokens :: nat
  input_tokens :: nat
  working_set_tokens :: nat
  working_set_ids :: "nat list"
  hot_tail_ids :: "nat list"
  evicted_ids :: "nat list"
  as_of :: "AsOf option"
  cache_breakpoint :: bool

record ContextView =
  view_prefix :: rstr
  view_config :: ContextViewConfig
  records :: "ContextRecord list"
  next_id :: nat
  resident_ids :: "nat list"
  prefix_guard :: PrefixStabilityGuard
  cache_model_tier :: CacheModelTier
  tokenizer_id :: rstr

definition new_with_cache_contract ::
    "rstr \<Rightarrow> ContextViewConfig \<Rightarrow> CacheModelTier \<Rightarrow> rstr \<Rightarrow> ContextViewConfigError + ContextView" where
  "new_with_cache_contract pre cfg tier tid =
     (if cfg_hot_tail_tokens cfg > cfg_working_set_tokens cfg
      then Err (HotTailExceedsWorkingSet (cfg_hot_tail_tokens cfg) (cfg_working_set_tokens cfg))
      else Ok \<lparr>view_prefix = pre, view_config = cfg, records = [], next_id = 1, resident_ids = [],
               prefix_guard = default_guard, cache_model_tier = tier, tokenizer_id = tid\<rparr>)"

definition new_view :: "rstr \<Rightarrow> ContextViewConfig \<Rightarrow> ContextViewConfigError + ContextView" where
  "new_view pre cfg = new_with_cache_contract pre cfg OlderSonnet (lit ''estimator:tokenzero-core'')"

definition view_append :: "io \<Rightarrow> ContextView \<Rightarrow> RecoveryStore \<Rightarrow> nat \<Rightarrow> nat \<Rightarrow> rstr \<Rightarrow> nat \<times> ContextView \<times> RecoveryStore" where
  "view_append E v s turn ts t =
     (let (r, s) = store_blob E s t Unknown;
          i = next_id v
      in (i, v\<lparr>next_id := sat_add i 1,
               records := records v @ [\<lparr>rec_id = i, rec_turn = turn, rec_timestamp = ts, rec_ref = r, rec_text = t\<rparr>]\<rparr>, s))"

definition eligible :: "ContextView \<Rightarrow> AsOf option \<Rightarrow> ContextRecord list" where
  "eligible v a =
     filter (\<lambda>r. case a of None \<Rightarrow> True | Some (Turn n) \<Rightarrow> rec_turn r \<le> n | Some (TimestampMillis n) \<Rightarrow> rec_timestamp r \<le> n)
       (records v)"

definition render_record :: "ContextRecord \<Rightarrow> rstr" where
  "render_record r =
     [NL] @ lit ''TZ-VIEW/1 id='' @ show_nat (rec_id r) @ lit '' turn='' @ show_nat (rec_turn r) @
     lit '' t='' @ show_nat (rec_timestamp r) @ lit '' ref='' @ rec_ref r @ [NL] @ rec_text r @ [NL]"

definition rendered_tokens :: "rstr option \<Rightarrow> ContextRecord list \<Rightarrow> nat" where
  "rendered_tokens active rs = sum_list (map (\<lambda>r. count_tokens active (render_record r)) rs)"

text \<open>The loop runs over the records newest first; consing reverses the selection back.\<close>

fun newest_loop :: "rstr option \<Rightarrow> nat \<Rightarrow> nat \<Rightarrow> ContextRecord list \<Rightarrow> ContextRecord list \<Rightarrow> ContextRecord list" where
  "newest_loop active budget used sel [] = sel"
| "newest_loop active budget used sel (r # rs) =
     (let n = count_tokens active (render_record r) in
      if sat_add used n \<le> budget then newest_loop active budget (used + n) (r # sel) rs
      else newest_loop active budget used sel rs)"

definition select_newest :: "rstr option \<Rightarrow> ContextRecord list \<Rightarrow> nat \<Rightarrow> ContextRecord list" where
  "select_newest active rs budget = newest_loop active budget 0 [] (rev rs)"

definition hot_tail :: "io \<Rightarrow> ContextView \<Rightarrow> AsOf option \<Rightarrow> ContextRecord list" where
  "hot_tail E v a = select_newest (active_model E) (eligible v a) (cfg_hot_tail_tokens (view_config v))"

definition remaining_budget :: "io \<Rightarrow> ContextView \<Rightarrow> AsOf option \<Rightarrow> nat" where
  "remaining_budget E v a = cfg_working_set_tokens (view_config v) - rendered_tokens (active_model E) (hot_tail E v a)"

definition resident_records :: "io \<Rightarrow> ContextView \<Rightarrow> AsOf option \<Rightarrow> nat list \<Rightarrow> ContextRecord list" where
  "resident_records E v a resident =
     select_newest (active_model E)
       (filter (\<lambda>r. rec_id r \<in> set resident \<and> rec_id r \<notin> rec_id ` set (hot_tail E v a)) (eligible v a))
       (remaining_budget E v a)"

text \<open>
  \<open>render\<close> returns the projection, what the two debug assertions test, and the view with the
  guard it updated.
\<close>

definition render ::
    "io \<Rightarrow> ContextView \<Rightarrow> AsOf option \<Rightarrow> bool \<Rightarrow> nat list \<Rightarrow> nat list \<Rightarrow>
     ContextProjection \<times> (PrefixStabilityViolation + PrefixStabilityAlert option) \<times>
     (PrefixStabilityViolation + rstr) \<times> ContextView" where
  "render E v a breakpoint resident evicted =
     (let hot = hot_tail E v a;
          working = resident_records E v a resident;
          out = view_prefix v @ concat (map render_record (working @ hot));
          prefix_tokens = count_tokens (active_model E) (view_prefix v);
          total = count_tokens (active_model E) out;
          identity = join [NL] (map rec_ref (working @ hot));
          (prefix_result, g) = observe_prefix (active_model E) (prefix_guard v)
             \<lparr>prefix_bytes = view_prefix v, prefix_breakpoint = breakpoint, blocks_per_turn = []\<rparr> (cache_model_tier v);
          (render_result, g) = observe_render E g
             \<lparr>obs_content = identity, obs_rendered = out, obs_level = lit ''context_projection'',
              obs_tokenizer_id = tokenizer_id v\<rparr>
      in (\<lparr>rendered = out, stable_prefix = view_prefix v, stable_prefix_sha256 = sha256_hex E (view_prefix v),
           stable_prefix_tokens = prefix_tokens, input_tokens = total, working_set_tokens = total - prefix_tokens,
           working_set_ids = map rec_id working, hot_tail_ids = map rec_id hot, evicted_ids = evicted,
           as_of = a, cache_breakpoint = breakpoint\<rparr>,
          prefix_result, render_result, v\<lparr>prefix_guard := g\<rparr>))"

definition project ::
    "io \<Rightarrow> ContextView \<Rightarrow> AsOf option \<Rightarrow> ContextProjection \<times> (PrefixStabilityViolation + PrefixStabilityAlert option) \<times>
     (PrefixStabilityViolation + rstr) \<times> ContextView" where
  "project E v a = render E v a False (resident_ids v) []"

definition reproject_at_cache_breakpoint ::
    "io \<Rightarrow> ContextView \<Rightarrow> AsOf option \<Rightarrow> ContextProjection \<times> (PrefixStabilityViolation + PrefixStabilityAlert option) \<times>
     (PrefixStabilityViolation + rstr) \<times> ContextView" where
  "reproject_at_cache_breakpoint E v a =
     (let chosen = select_newest (active_model E)
            (filter (\<lambda>r. rec_id r \<notin> rec_id ` set (hot_tail E v a)) (eligible v a)) (remaining_budget E v a);
          nxt = sort (remdups (map rec_id chosen));
          evicted = filter (\<lambda>i. i \<notin> set nxt) (resident_ids v);
          v = v\<lparr>resident_ids := nxt\<rparr>
      in render E v a True (resident_ids v) evicted)"

section \<open>Counting is subadditive\<close>

lemma lexical_tokens_in_word: "lexical_tokens w s \<le> lexical_tokens False s"
  by (cases s) auto

lemma div_ceil_mult: "0 < b \<Longrightarrow> a \<le> div_ceil a b * b"
proof -
  assume "0 < b"
  then have "a \<le> a div b * b + b" using div_mult_mod_eq [of a b] mod_less_divisor [of b a] by linarith
  then show ?thesis using div_mult_mod_eq [of a b] by (auto simp: div_ceil_def)
qed

lemma div_ceil_add: "x \<le> y + z \<Longrightarrow> div_ceil x b \<le> div_ceil y b + div_ceil z b"
proof (cases "b = 0")
  case False
  assume "x \<le> y + z"
  also have "\<dots> \<le> (div_ceil y b + div_ceil z b) * b"
    using div_ceil_mult [of b y] div_ceil_mult [of b z] False by (simp add: add_mult_distrib)
  finally show ?thesis using div_ceil_le False by blast
qed (auto simp: div_ceil_def)

lemma approximate_token_count_append:
  "approximate_token_count (s @ t) m \<le> approximate_token_count s m + approximate_token_count t m"
  unfolding approximate_token_count_def by (rule div_ceil_add) (simp add: sat_mul_def)

lemma count_tokens_append: "count_tokens active (s @ t) \<le> count_tokens active s + count_tokens active t"
  using lexical_tokens_in_word approximate_token_count_append
  by (auto simp: count_tokens_def count_tokens_lexical_eq lexical_tokens_append split: option.splits)

lemma count_tokens_concat:
  "count_tokens active (s @ concat ls) \<le> count_tokens active s + sum_list (map (count_tokens active) ls)"
proof (induction ls arbitrary: s)
  case (Cons l ls)
  show ?case using Cons.IH [of "s @ l"] count_tokens_append [of active s l] by simp
qed simp

section \<open>Selection stays inside its budget\<close>

lemma rendered_tokens_simps [simp]:
  "rendered_tokens active [] = 0"
  "rendered_tokens active (r # rs) = count_tokens active (render_record r) + rendered_tokens active rs"
  "rendered_tokens active (rs @ rs') = rendered_tokens active rs + rendered_tokens active rs'"
  by (simp_all add: rendered_tokens_def)

lemma newest_loop_bound:
  assumes "budget < u64_max" and "rendered_tokens active sel \<le> budget"
  shows "rendered_tokens active (newest_loop active budget (rendered_tokens active sel) sel rs) \<le> budget"
  using assms(2)
proof (induction rs arbitrary: sel)
  case (Cons r rs)
  show ?case
  proof (cases "sat_add (rendered_tokens active sel) (count_tokens active (render_record r)) \<le> budget")
    case True
    then have "rendered_tokens active (r # sel) \<le> budget" using assms(1) by (auto simp: sat_add_def min_def split: if_splits)
    from Cons.IH [OF this] True show ?thesis by (simp add: Let_def add.commute)
  qed (use Cons in \<open>simp add: Let_def\<close>)
qed simp

lemma select_newest_bound: "budget < u64_max \<Longrightarrow> rendered_tokens active (select_newest active rs budget) \<le> budget"
  using newest_loop_bound [of budget active "[]" "rev rs"] by (simp add: select_newest_def)

definition view_ok :: "ContextView \<Rightarrow> bool" where
  "view_ok v \<longleftrightarrow> cfg_hot_tail_tokens (view_config v) \<le> cfg_working_set_tokens (view_config v) \<and>
     cfg_working_set_tokens (view_config v) < u64_max \<and>
     last_prefix (prefix_guard v) \<in> {None, Some (view_prefix v)}"

lemma window_bound:
  assumes "view_ok v"
  shows "rendered_tokens (active_model E) (resident_records E v a resident @ hot_tail E v a) \<le> cfg_working_set_tokens (view_config v)"
proof -
  let ?w = "cfg_working_set_tokens (view_config v)"
  have "rendered_tokens (active_model E) (hot_tail E v a) \<le> ?w"
    using select_newest_bound [of "cfg_hot_tail_tokens (view_config v)"] assms
    by (fastforce simp: hot_tail_def view_ok_def intro: order_trans)
  moreover have "remaining_budget E v a < u64_max" using assms by (auto simp: view_ok_def remaining_budget_def intro: le_less_trans [OF diff_le_self])
  then have "rendered_tokens (active_model E) (resident_records E v a resident) \<le> remaining_budget E v a"
    unfolding resident_records_def by (rule select_newest_bound)
  ultimately show ?thesis by (simp add: remaining_budget_def)
qed

lemma observe_prefix_fixed:
  assumes "last_prefix g \<in> {None, Some p}"
  shows "\<exists>al n. observe_prefix active g \<lparr>prefix_bytes = p, prefix_breakpoint = b, blocks_per_turn = []\<rparr> tier =
    (Ok al, g\<lparr>last_prefix := Some p, prefix_observations := n\<rparr>)"
  using assms by (auto simp: observe_prefix_def Let_def starts_with_def)

lemma observe_render_last_prefix [simp]: "last_prefix (snd (observe_render E g ob)) = last_prefix g"
  by (simp add: observe_render_def Let_def split: option.split)

lemma render_facts:
  assumes "view_ok v" and "render E v a b resident evicted = (p, pr, rr, v')"
  shows "rendered p = view_prefix v @ concat (map render_record (resident_records E v a resident @ hot_tail E v a))"
    "input_tokens p = count_tokens (active_model E) (rendered p)"
    "stable_prefix_tokens p = count_tokens (active_model E) (view_prefix v)"
    "\<exists>al. pr = Ok al" "view_ok v'" "view_prefix v' = view_prefix v" "resident_ids v' = resident_ids v" "records v' = records v"
    "view_config v' = view_config v"
proof -
  obtain al n where pre: "observe_prefix (active_model E) (prefix_guard v)
      \<lparr>prefix_bytes = view_prefix v, prefix_breakpoint = b, blocks_per_turn = []\<rparr> (cache_model_tier v) =
      (Ok al, (prefix_guard v)\<lparr>last_prefix := Some (view_prefix v), prefix_observations := n\<rparr>)"
    using observe_prefix_fixed assms(1) unfolding view_ok_def by blast
  let ?out = "view_prefix v @ concat (map render_record (resident_records E v a resident @ hot_tail E v a))"
  have R: "rendered p = ?out" "input_tokens p = count_tokens (active_model E) ?out"
    "stable_prefix_tokens p = count_tokens (active_model E) (view_prefix v)" "pr = Ok al"
    "\<exists>ob. v' = v\<lparr>prefix_guard := snd (observe_render E
       ((prefix_guard v)\<lparr>last_prefix := Some (view_prefix v), prefix_observations := n\<rparr>) ob)\<rparr>"
    using assms(2) by (auto simp: render_def Let_def pre split_beta)
  then show "rendered p = ?out" "input_tokens p = count_tokens (active_model E) (rendered p)"
    "stable_prefix_tokens p = count_tokens (active_model E) (view_prefix v)" "\<exists>al. pr = Ok al" by simp_all
  from R(5) obtain g where v': "v' = v\<lparr>prefix_guard := g\<rparr>" "last_prefix g = Some (view_prefix v)" by auto
  then show "view_ok v'" "view_prefix v' = view_prefix v" "resident_ids v' = resident_ids v" "records v' = records v"
    "view_config v' = view_config v"
    using assms(1) by (simp_all add: view_ok_def)
qed

lemma render_budget:
  assumes "view_ok v" and "render E v a b resident evicted = (p, pr, rr, v')"
  shows "input_tokens p \<le> stable_prefix_tokens p + cfg_working_set_tokens (view_config v)"
proof -
  let ?rs = "resident_records E v a resident @ hot_tail E v a"
  have "input_tokens p \<le> stable_prefix_tokens p + rendered_tokens (active_model E) ?rs"
    using render_facts(1-3) [OF assms] count_tokens_concat [of "active_model E" "view_prefix v" "map render_record ?rs"]
    by (simp add: rendered_tokens_def o_def)
  then show ?thesis using window_bound [OF assms(1), of E a resident] by linarith
qed

section \<open>Runs of a view\<close>

inductive view_run :: "io \<Rightarrow> ContextView \<Rightarrow> ContextView \<Rightarrow> bool" for E v0 where
  start: "view_run E v0 v0"
| append: "view_run E v0 v \<Longrightarrow> view_append E v s turn ts t = (i, v', s') \<Longrightarrow> view_run E v0 v'"
| project: "view_run E v0 v \<Longrightarrow> project E v a = (p, pr, rr, v') \<Longrightarrow> view_run E v0 v'"
| reproject: "view_run E v0 v \<Longrightarrow> reproject_at_cache_breakpoint E v a = (p, pr, rr, v') \<Longrightarrow> view_run E v0 v'"

lemma reproject_render:
  assumes "reproject_at_cache_breakpoint E v a = out"
  obtains nxt evicted where "out = render E (v\<lparr>resident_ids := nxt\<rparr>) a True nxt evicted"
  using assms by (auto simp: reproject_at_cache_breakpoint_def Let_def)

lemma view_ok_resident [simp]: "view_ok (v\<lparr>resident_ids := x\<rparr>) = view_ok v"
  by (simp add: view_ok_def)

lemma view_run_ok: "view_run E v0 v \<Longrightarrow> view_ok v0 \<Longrightarrow>
  view_ok v \<and> view_prefix v = view_prefix v0 \<and> view_config v = view_config v0"
proof (induction rule: view_run.induct)
  case (append v s turn ts t i v' s')
  then show ?case by (auto simp: view_append_def Let_def view_ok_def split_beta)
next
  case (project v a p pr rr v')
  then show ?case using render_facts(5,6,9) [of v E a False "resident_ids v" "[]" p pr rr v'] by (simp add: project_def)
next
  case (reproject v a p pr rr v')
  obtain nxt evicted where "render E (v\<lparr>resident_ids := nxt\<rparr>) a True nxt evicted = (p, pr, rr, v')"
    using reproject_render [OF reproject.hyps(2)] by metis
  then show ?case using reproject render_facts(5,6,9) [of "v\<lparr>resident_ids := nxt\<rparr>" E a True nxt evicted p pr rr v'] by simp
qed simp

lemma new_view_ok:
  "new_with_cache_contract pre cfg tier tid = Ok v \<Longrightarrow> cfg_working_set_tokens cfg < u64_max \<Longrightarrow>
   view_ok v \<and> view_prefix v = pre \<and> view_config v = cfg"
  by (auto simp: new_with_cache_contract_def view_ok_def default_guard_def split: if_splits)

section \<open>Two records with the same text\<close>

lemma store_blob_ref: "fst (store_blob E s t ct) = lit ''tz://blob/'' @ sha256_hex E t"
  by (simp add: store_blob_def put_blob_def register_blob_def Let_def split_beta)

lemma lexical_word_swap:
  "is_word c \<Longrightarrow> is_word d \<Longrightarrow> lexical_tokens w (xs @ c # ys) = lexical_tokens w (xs @ d # ys)"
  by (simp add: lexical_tokens_append)

lemma count_word_swap:
  "is_word c \<Longrightarrow> is_word d \<Longrightarrow> count_tokens active (xs @ c # ys) = count_tokens active (xs @ d # ys)"
  using lexical_word_swap [of c d False xs ys]
  by (simp add: count_tokens_def count_tokens_lexical_eq approximate_token_count_def split: option.split)

lemma render_record_id:
  "\<exists>ys. \<forall>n < 10. render_record (r\<lparr>rec_id := n\<rparr>) = (NL # lit ''TZ-VIEW/1 id='') @ (48 + n) # ys"
proof -
  have "show_nat n = [48 + n]" if "n < 10" for n using that by (subst show_nat.simps) simp
  then show ?thesis by (auto simp: render_record_def)
qed

lemma render_count_id: "count_tokens active (render_record (r\<lparr>rec_id := 2\<rparr>)) = count_tokens active (render_record (r\<lparr>rec_id := 1\<rparr>))"
proof -
  obtain ys where y: "\<forall>n < 10. render_record (r\<lparr>rec_id := n\<rparr>) = (NL # lit ''TZ-VIEW/1 id='') @ (48 + n) # ys"
    using render_record_id [of r] by auto
  have "is_word 49" "is_word 50" by code_simp+
  then show ?thesis using y count_word_swap [of 50 49 active "NL # lit ''TZ-VIEW/1 id=''" ys] by simp
qed

lemma render_differs_id: "render_record (r\<lparr>rec_id := 2\<rparr>) \<noteq> render_record (r\<lparr>rec_id := 1\<rparr>)"
proof -
  obtain ys where "\<forall>n < 10. render_record (r\<lparr>rec_id := n\<rparr>) = (NL # lit ''TZ-VIEW/1 id='') @ (48 + n) # ys"
    using render_record_id [of r] by auto
  then have "render_record (r\<lparr>rec_id := 2\<rparr>) = (NL # lit ''TZ-VIEW/1 id='') @ 50 # ys"
    "render_record (r\<lparr>rec_id := 1\<rparr>) = (NL # lit ''TZ-VIEW/1 id='') @ 49 # ys" by simp_all
  then show ?thesis by simp
qed

lemma div_ceil_pos: "0 < x \<Longrightarrow> 0 < div_ceil x b"
  using div_ceil_mult [of b x] by (cases "b = 0") (auto simp: div_ceil_def intro: ccontr)

lemma render_count_pos: "0 < count_tokens active (render_record r)"
proof -
  obtain zs where z: "render_record r = NL # 84 # zs" by (simp add: render_record_def lit_def)
  have "is_word 84" "\<not> is_word NL" "is_whitespace NL" by code_simp+
  then have "0 < lexical_tokens False (render_record r)" by (simp add: z)
  moreover have "0 < approximate_token_count (render_record r) m" for m
    unfolding approximate_token_count_def by (rule div_ceil_pos) (simp add: z sat_mul_def u64_max_def)
  ultimately show ?thesis by (simp add: count_tokens_def count_tokens_lexical_eq split: option.split)
qed

lemma newest_only:
  assumes "n = count_tokens active (render_record r1)" and "n = count_tokens active (render_record r2)" and "n < u64_max"
  shows "select_newest active [r1, r2] n = [r2]" "select_newest active [r1] n = [r1]"
  using assms render_count_pos [of active r1] by (auto simp: select_newest_def Let_def sat_add_def)

section \<open>Properties\<close>

text \<open>C15: In every run of a view, a projection costs at most the configured working set beyond the fixed
  prefix, ordinary or at a breakpoint, for any point in time; its text starts with the prefix
  the view was made with; and the guard never reports a prefix violation.\<close>

theorem projection_within_budget:
  assumes "new_with_cache_contract pre cfg tier tid = Ok v0" and "cfg_working_set_tokens cfg < u64_max"
    and "view_run E v0 v"
    and "project E v a = (p, pr, rr, v') \<or> reproject_at_cache_breakpoint E v a = (p, pr, rr, v')"
  shows "input_tokens p \<le> stable_prefix_tokens p + cfg_working_set_tokens cfg \<and> starts_with (rendered p) pre \<and>
    stable_prefix_tokens p = count_tokens (active_model E) pre \<and> (\<exists>al. pr = Ok al)"
proof -
  have v: "view_ok v" "view_prefix v = pre" "view_config v = cfg"
    using view_run_ok [OF assms(3)] new_view_ok [OF assms(1,2)] by auto
  obtain v1 b resident evicted where r: "render E v1 a b resident evicted = (p, pr, rr, v')"
    and v1: "view_ok v1" "view_prefix v1 = pre" "view_config v1 = cfg"
  proof (cases "project E v a = (p, pr, rr, v')")
    case True
    then show ?thesis using that v by (simp add: project_def)
  next
    case False
    then obtain nxt evicted where "render E (v\<lparr>resident_ids := nxt\<rparr>) a True nxt evicted = (p, pr, rr, v')"
      using assms(4) reproject_render by metis
    then show ?thesis using that [of "v\<lparr>resident_ids := nxt\<rparr>"] v by simp
  qed
  then show ?thesis using render_budget [OF v1(1) r] render_facts [OF v1(1) r] by (simp add: starts_with_def)
qed

theorem projection_within_budget_witness:
  "\<exists>v0 p pr rr v'. new_view (lit ''abc'') \<lparr>cfg_working_set_tokens = 100, cfg_hot_tail_tokens = 40\<rparr> = Ok v0 \<and>
     project sample_io v0 None = (p, pr, rr, v') \<and> input_tokens p \<le> stable_prefix_tokens p + 100"
proof -
  let ?cfg = "\<lparr>cfg_working_set_tokens = 100, cfg_hot_tail_tokens = 40\<rparr>"
  obtain v0 where v0: "new_with_cache_contract (lit ''abc'') ?cfg OlderSonnet (lit ''estimator:tokenzero-core'') = Ok v0"
    by (simp add: new_with_cache_contract_def)
  obtain p pr rr v' where p: "project sample_io v0 None = (p, pr, rr, v')" by (metis prod_cases4)
  show ?thesis
    using projection_within_budget [OF v0 _ view_run.start, of sample_io None p pr rr v'] v0 p
    by (auto simp: new_view_def u64_max_def)
qed

text \<open>Appending the same text twice breaks the deterministic-render contract the view asserts of
  itself: the identity under which a render is remembered is the list of references, which does
  not tell the two records apart, while the rendered text names their identifiers. With a
  window for one record, the projection after the second append is reported as a violation,
  which is a panic in builds with debug assertions.\<close>

theorem repeated_text_breaks_render_contract:
  assumes "r = \<lparr>rec_id = 1, rec_turn = turn, rec_timestamp = ts, rec_ref = fst (store_blob E s t Unknown), rec_text = t\<rparr>"
    and "n = count_tokens (active_model E) (render_record r)" and "n < u64_max"
    and "new_view pre \<lparr>cfg_working_set_tokens = n, cfg_hot_tail_tokens = n\<rparr> = Ok v0"
    and "view_append E v0 s turn ts t = (i1, v1, s1)" and "project E v1 None = (p1, pr1, rr1, v2)"
    and "view_append E v2 s1 turn ts t = (i2, v3, s2)"
  shows "\<exists>p2 pr2 v4. project E v3 None = (p2, pr2, Err (NonDeterministicRender (lit ''estimator:tokenzero-core'')), v4)"
proof -
  let ?tid = "lit ''estimator:tokenzero-core''" let ?cfg = "\<lparr>cfg_working_set_tokens = n, cfg_hot_tail_tokens = n\<rparr>"
  let ?r1 = "r\<lparr>rec_id := 1\<rparr>" let ?r2 = "r\<lparr>rec_id := 2\<rparr>"
  let ?key = "(sha256_hex E (rec_ref r), lit ''context_projection'', ?tid)"
  have r1: "?r1 = r" by (simp add: assms(1))
  have ref: "fst (store_blob E s' t Unknown) = rec_ref r" for s' by (simp add: assms(1) store_blob_ref)
  have upd: "\<lparr>rec_id = i, rec_turn = turn, rec_timestamp = ts, rec_ref = rec_ref r, rec_text = t\<rparr> = r\<lparr>rec_id := i\<rparr>" for i
    by (simp add: assms(1))
  have v0: "v0 = \<lparr>view_prefix = pre, view_config = ?cfg, records = [], next_id = 1, resident_ids = [],
      prefix_guard = default_guard, cache_model_tier = OlderSonnet, tokenizer_id = ?tid\<rparr>"
    using assms(4) by (simp add: new_view_def new_with_cache_contract_def)
  then have v1: "v1 = v0\<lparr>next_id := 2, records := [?r1]\<rparr>"
    using assms(5) by (auto simp: view_append_def Let_def split_beta sat_add_def u64_max_def ref upd)
  have sel: "select_newest (active_model E) [?r1, ?r2] n = [?r2]" "select_newest (active_model E) [?r1] n = [?r1]"
    using newest_only [of n "active_model E" ?r1 ?r2] assms(2,3) render_count_id [of "active_model E" r] r1 by simp_all
  have hot1: "hot_tail E v1 None = [?r1]" "resident_records E v1 None (resident_ids v1) = []"
    using sel by (simp_all add: hot_tail_def resident_records_def eligible_def v1 v0 select_newest_def)
  then have v2: "resident_ids v2 = []" "records v2 = [?r1]" "view_config v2 = ?cfg" "tokenizer_id v2 = ?tid" "next_id v2 = 2"
    "view_prefix v2 = pre" "map_of (renders (prefix_guard v2)) ?key = Some (pre @ render_record ?r1)"
    using assms(6) by (auto simp: project_def render_def Let_def split_beta observe_prefix_def observe_render_def v1 v0 default_guard_def)
  have v3: "records v3 = [?r1, ?r2]" "resident_ids v3 = []" "view_config v3 = ?cfg" "tokenizer_id v3 = ?tid" "view_prefix v3 = pre"
    "prefix_guard v3 = prefix_guard v2"
    using assms(7) v2 by (auto simp: view_append_def Let_def split_beta ref upd)
  have hot3: "hot_tail E v3 None = [?r2]" "resident_records E v3 None [] = []"
    using sel by (simp_all add: hot_tail_def resident_records_def eligible_def v3 select_newest_def)
  obtain pr g where pr: "observe_prefix (active_model E) (prefix_guard v2)
      \<lparr>prefix_bytes = pre, prefix_breakpoint = False, blocks_per_turn = []\<rparr> (cache_model_tier v3) = (pr, g)" by fastforce
  then have "renders g = renders (prefix_guard v2)" by (auto simp: observe_prefix_def Let_def split: if_splits)
  then show ?thesis using hot3 pr v2(7) render_differs_id [of r]
    by (simp add: project_def render_def v3 Let_def split_beta observe_render_def)
qed

theorem repeated_text_breaks_render_contract_witness:
  "\<exists>n v0 i1 v1 s1 p1 pr1 rr1 v2 i2 v3 s2 p2 pr2 v4.
     new_view [] \<lparr>cfg_working_set_tokens = n, cfg_hot_tail_tokens = n\<rparr> = Ok v0 \<and>
     view_append sample_io v0 (with_config default_config) 1 0 (lit ''x'') = (i1, v1, s1) \<and>
     project sample_io v1 None = (p1, pr1, rr1, v2) \<and> view_append sample_io v2 s1 1 0 (lit ''x'') = (i2, v3, s2) \<and>
     project sample_io v3 None = (p2, pr2, Err (NonDeterministicRender (lit ''estimator:tokenzero-core'')), v4)"
proof -
  define r where "r = \<lparr>rec_id = 1, rec_turn = 1, rec_timestamp = 0,
    rec_ref = fst (store_blob sample_io (with_config default_config) (lit ''x'') Unknown), rec_text = lit ''x''\<rparr>"
  define n where "n = count_tokens (active_model sample_io) (render_record r)"
  have "length (rec_ref r) = 74"
    using sha256_hex_shape [OF sample_io_ok, of "lit ''x''"] by (simp add: r_def store_blob_ref lit_def)
  then have "length (render_record r) \<le> 200"
    by (simp add: render_record_def r_def lit_def show_nat.simps)
  then have n: "n < u64_max"
    using lexical_tokens_le_length [of False "render_record r"]
    by (simp add: n_def sample_io_def count_tokens_def active_tokenizer_metadata_def count_tokens_lexical_eq u64_max_def)
  obtain v0 where v0: "new_view [] \<lparr>cfg_working_set_tokens = n, cfg_hot_tail_tokens = n\<rparr> = Ok v0"
    by (simp add: new_view_def new_with_cache_contract_def)
  obtain i1 v1 s1 where 1: "view_append sample_io v0 (with_config default_config) 1 0 (lit ''x'') = (i1, v1, s1)"
    by (metis prod_cases3)
  obtain p1 pr1 rr1 v2 where 2: "project sample_io v1 None = (p1, pr1, rr1, v2)" by (metis prod_cases4)
  obtain i2 v3 s2 where 3: "view_append sample_io v2 s1 1 0 (lit ''x'') = (i2, v3, s2)" by (metis prod_cases3)
  show ?thesis using repeated_text_breaks_render_contract [OF r_def n_def n v0 1 2 3] v0 1 2 3 by blast
qed

end
