(* ===== verification/CowFork.thy ===== *)
theory CowFork
  imports BlobSource ContextViews
begin

text \<open>
  Copy-on-write session forks (\<open>tokenzero-recovery/src/cow_fork.rs\<close>). A session owns its
  novelty and shares a sealed prefix; every change is recorded as a ledger blob. The prefix is
  shared by reference count in the source and by value here, so \<open>shares_prefix_with\<close> has no
  counterpart. \<open>to_json\<close> is \<open>serde_json::to_string\<close> of a ledger entry. In a store without a
  persistence path, neither storing nor persisting can fail, so the only errors left are the
  session's own.
\<close>

section \<open>Sessions\<close>

datatype CowForkError = NotAtCacheBreakpoint | WrongBranch rstr rstr | MissingRecovery rstr

record BranchRecord =
  recovery_ref :: rstr
  record_bytes :: nat

datatype BranchLedgerAction = ForkAction | AppendAction | CheckpointAction | DiscardAction | RestoreAction

record BranchLedgerEntry =
  entry_branch_id :: rstr
  entry_parent :: "rstr option"
  entry_action :: BranchLedgerAction
  entry_breakpoint :: rstr
  record_refs :: "rstr list"

type_synonym to_json = "BranchLedgerEntry \<Rightarrow> rstr"

record BranchRestorePoint =
  restore_branch_id :: rstr
  restore_records :: "BranchRecord list"
  discard_ledger_ref :: rstr

record ForkCost =
  novelty_bytes :: nat
  shared_prefix_bytes :: nat
  full_replay_bytes :: nat

record CowSession =
  branch_id :: rstr
  parent_branch_id :: "rstr option"
  shared_prefix :: rstr
  breakpoint_sha256 :: rstr
  novelty :: "(BranchRecord \<times> rstr) list"
  ledger_refs :: "rstr list"
  at_breakpoint :: bool

definition from_breakpoint :: "io \<Rightarrow> rstr \<Rightarrow> ContextProjection \<Rightarrow> CowForkError + CowSession" where
  "from_breakpoint E branch p =
     (if \<not> cache_breakpoint p then Err NotAtCacheBreakpoint
      else Ok \<lparr>branch_id = branch, parent_branch_id = None, shared_prefix = rendered p,
               breakpoint_sha256 = sha256_hex E (rendered p), novelty = [], ledger_refs = [], at_breakpoint = True\<rparr>)"

definition persist_ledger ::
    "io \<Rightarrow> to_json \<Rightarrow> CowSession \<Rightarrow> RecoveryStore \<Rightarrow> BranchLedgerAction \<Rightarrow> rstr list \<Rightarrow> rstr \<times> CowSession \<times> RecoveryStore" where
  "persist_ledger E to_json c s action refs =
     (let entry = \<lparr>entry_branch_id = branch_id c, entry_parent = parent_branch_id c, entry_action = action,
                   entry_breakpoint = breakpoint_sha256 c, record_refs = refs\<rparr>;
          (r, s) = store_blob_deferred E s (to_json entry) JsonConfig
      in (r, c\<lparr>ledger_refs := ledger_refs c @ [r]\<rparr>, s))"

definition cow_fork ::
    "io \<Rightarrow> to_json \<Rightarrow> CowSession \<Rightarrow> RecoveryStore \<Rightarrow> rstr \<Rightarrow> (CowForkError + CowSession) \<times> RecoveryStore" where
  "cow_fork E to_json c s child =
     (if \<not> at_breakpoint c then (Err NotAtCacheBreakpoint, s)
      else let k = \<lparr>branch_id = child, parent_branch_id = Some (branch_id c), shared_prefix = shared_prefix c,
                    breakpoint_sha256 = breakpoint_sha256 c, novelty = [], ledger_refs = [], at_breakpoint = True\<rparr>;
               (_, k, s) = persist_ledger E to_json k s ForkAction []
           in (Ok k, s))"

definition cow_append :: "io \<Rightarrow> to_json \<Rightarrow> CowSession \<Rightarrow> RecoveryStore \<Rightarrow> rstr \<Rightarrow> rstr \<times> CowSession \<times> RecoveryStore" where
  "cow_append E to_json c s t =
     (let (r, s) = store_blob_deferred E s t Unknown;
          c = c\<lparr>novelty := novelty c @ [(\<lparr>recovery_ref = r, record_bytes = blen t\<rparr>, t)], at_breakpoint := False\<rparr>;
          (_, c, s) = persist_ledger E to_json c s AppendAction [r]
      in (r, c, persist E s))"

definition cow_rendered :: "CowSession \<Rightarrow> rstr" where
  "cow_rendered c = shared_prefix c @ concat (map snd (novelty c))"

definition checkpoint :: "io \<Rightarrow> to_json \<Rightarrow> CowSession \<Rightarrow> RecoveryStore \<Rightarrow> CowSession \<times> RecoveryStore" where
  "checkpoint E to_json c s =
     (let refs = map (recovery_ref \<circ> fst) (novelty c);
          out = cow_rendered c;
          c = c\<lparr>shared_prefix := out, breakpoint_sha256 := sha256_hex E out, novelty := [], at_breakpoint := True\<rparr>;
          (_, c, s) = persist_ledger E to_json c s CheckpointAction refs
      in (c, persist E s))"

definition discard :: "io \<Rightarrow> to_json \<Rightarrow> CowSession \<Rightarrow> RecoveryStore \<Rightarrow> BranchRestorePoint \<times> CowSession \<times> RecoveryStore" where
  "discard E to_json c s =
     (let recs = map fst (novelty c);
          (l, c, s) = persist_ledger E to_json c s DiscardAction (map recovery_ref recs);
          s = persist E s;
          c = c\<lparr>novelty := [], at_breakpoint := True\<rparr>
      in (\<lparr>restore_branch_id = branch_id c, restore_records = recs, discard_ledger_ref = l\<rparr>, c, s))"

definition restore ::
    "io \<Rightarrow> to_json \<Rightarrow> CowSession \<Rightarrow> RecoveryStore \<Rightarrow> BranchRestorePoint \<Rightarrow> (CowForkError + unit) \<times> CowSession \<times> RecoveryStore" where
  "restore E to_json c s p =
     (if restore_branch_id p \<noteq> branch_id c then (Err (WrongBranch (branch_id c) (restore_branch_id p)), c, s)
      else case fetch_each (expand_raw E) s (map recovery_ref (restore_records p)) of
        (Inl r, s) \<Rightarrow> (Err (MissingRecovery r), c, s)
      | (Inr ts, s) \<Rightarrow>
          let recovered = zip (restore_records p) ts;
              c = c\<lparr>novelty := recovered, at_breakpoint := (recovered = [])\<rparr>;
              (_, c, s) = persist_ledger E to_json c s RestoreAction (map (recovery_ref \<circ> fst) recovered)
          in (Ok (), c, persist E s))"

definition cow_cost :: "CowSession \<Rightarrow> ForkCost" where
  "cow_cost c =
     (let n = sum_list (map (blen \<circ> snd) (novelty c))
      in \<lparr>novelty_bytes = n, shared_prefix_bytes = blen (shared_prefix c),
          full_replay_bytes = sat_add (blen (shared_prefix c)) n\<rparr>)"

section \<open>Runs of a session\<close>

definition cow_inv :: "io \<Rightarrow> CowSession \<Rightarrow> bool" where
  "cow_inv E c \<longleftrightarrow> (at_breakpoint c \<longleftrightarrow> novelty c = []) \<and> breakpoint_sha256 c = sha256_hex E (shared_prefix c)"

inductive cow_run :: "io \<Rightarrow> to_json \<Rightarrow> CowSession \<Rightarrow> bool" for E j where
  start: "from_breakpoint E b p = Ok c \<Longrightarrow> cow_run E j c"
| fork: "cow_run E j c \<Longrightarrow> cow_fork E j c s child = (Ok k, s') \<Longrightarrow> cow_run E j k"
| append: "cow_run E j c \<Longrightarrow> cow_append E j c s t = (r, c', s') \<Longrightarrow> cow_run E j c'"
| checkpoint: "cow_run E j c \<Longrightarrow> checkpoint E j c s = (c', s') \<Longrightarrow> cow_run E j c'"
| discard: "cow_run E j c \<Longrightarrow> discard E j c s = (p, c', s') \<Longrightarrow> cow_run E j c'"
| restore: "cow_run E j c \<Longrightarrow> restore E j c s p = (res, c', s') \<Longrightarrow> cow_run E j c'"

lemma persist_ledger_session:
  "fst (snd (persist_ledger E j c s a refs)) = c\<lparr>ledger_refs := ledger_refs c @ [fst (persist_ledger E j c s a refs)]\<rparr>"
  by (simp add: persist_ledger_def Let_def split_beta)

lemmas cow_defs = cow_fork_def cow_append_def checkpoint_def discard_def restore_def Let_def split_beta persist_ledger_session

lemma cow_run_inv: "cow_run E j c \<Longrightarrow> cow_inv E c"
proof (induction rule: cow_run.induct)
  case (restore c s p res c' s')
  then show ?case by (auto simp: cow_defs cow_inv_def split: if_splits sum.splits)
qed (auto simp: from_breakpoint_def cow_defs cow_inv_def split: if_splits)

text \<open>The store holds the whole novelty of the session.\<close>

definition session_held :: "io \<Rightarrow> CowSession \<Rightarrow> RecoveryStore \<Rightarrow> bool" where
  "session_held E c s \<longleftrightarrow> (\<forall>(rec, t) \<in> set (novelty c). blob_held E s (recovery_ref rec) t)"

lemma held_pairs:
  "session_held E c s \<Longrightarrow> list_all2 (blob_held E s) (map (recovery_ref \<circ> fst) (novelty c)) (map snd (novelty c))"
  by (auto simp: session_held_def list_all2_conv_all_nth)

text \<open>The put of a text that does not collide with the novelty keeps the novelty.\<close>

definition no_clash :: "io \<Rightarrow> CowSession \<Rightarrow> rstr \<Rightarrow> bool" where
  "no_clash E c t \<longleftrightarrow> (\<forall>(rec, u) \<in> set (novelty c). sha256_hex E t = sha256_hex E u \<longrightarrow> t = u)"

lemma put_ref: "fst (store_blob_deferred E s t ct) = blob_ref_of (sha256_hex E t)"
  by (simp add: store_blob_deferred_def put_blob_def register_blob_def Let_def blob_ref_of_def)

lemma session_put:
  assumes "session_held E c s" and "no_clash E c t"
  shows "session_held E c (snd (store_blob_deferred E s t ct))"
  unfolding session_held_def
proof (clarify)
  fix rec u assume "(rec, u) \<in> set (novelty c)"
  then have h: "blob_held E s (recovery_ref rec) u" and n: "sha256_hex E t = sha256_hex E u \<longrightarrow> t = u"
    using assms by (auto simp: session_held_def no_clash_def)
  then have "fst (store_blob_deferred E s t ct) = recovery_ref rec \<longrightarrow> t = u"
    by (auto simp: put_ref blob_held_def blob_ref_of_def)
  from rs.put_keeps [OF h this] show "blob_held E (snd (store_blob_deferred E s t ct)) (recovery_ref rec) u" .
qed

lemma session_persist: "session_held E c s \<Longrightarrow> within_limits E s \<Longrightarrow> session_held E c (persist E s)"
  by (auto simp: session_held_def intro: persist_fits)

lemma persist_ledger_store:
  "snd (snd (persist_ledger E j c s a refs)) = snd (store_blob_deferred E s
     (j \<lparr>entry_branch_id = branch_id c, entry_parent = parent_branch_id c, entry_action = a,
         entry_breakpoint = breakpoint_sha256 c, record_refs = refs\<rparr>) JsonConfig)"
  by (simp add: persist_ledger_def Let_def split_beta)

lemma zip_fst_snd: "zip (map fst xs) (map snd xs) = xs"
  by (induction xs) auto

lemma fetch_each_state: "state (snd (fetch_each (expand_raw E) s rs)) = state s"
proof (induction rs arbitrary: s)
  case (Cons r rs)
  have "state (snd (expand_raw E s r)) = state s"
    using expand_state [of E s r "Some (lit ''raw'')" None None None None] by (simp add: expand_raw_def split_beta)
  then show ?case using Cons.IH [of "snd (expand_raw E s r)"]
    by (auto split: prod.splits option.splits sum.splits)
qed simp

lemma fetch_each_missing: "fst (fetch_each f s rs) = Err r \<Longrightarrow> r \<in> set rs"
  by (induction f s rs rule: fetch_each.induct) (auto split: prod.splits option.splits sum.splits)

lemma put_blob_rest:
  "files (state (snd (put_blob E s t ct))) = files (state s)" "units (state (snd (put_blob E s t ct))) = units (state s)"
  "search_hits (state (snd (put_blob E s t ct))) = search_hits (state s)"
  by (simp_all add: put_blob_def register_blob_def Let_def remember_ref_def track_ref_class_def log_event_def
      store_alias_deferred_def split: option.split)

text \<open>A small store on which the properties are exercised: one text, put twice.\<close>

definition one_blob :: "ContentType \<Rightarrow> RecoveryStore" where
  "one_blob ct = snd (store_blob_deferred sample_io (snd (store_blob_deferred sample_io (with_config default_config) (lit ''abc'') Unknown))
     (lit ''abc'') ct)"

lemma one_blob_fits: "within_limits sample_io (one_blob ct)"
proof -
  let ?r = "blob_ref_of (sha256_hex sample_io (lit ''abc''))"
  have b: "blobs (state (one_blob ct)) = [(?r, Inline (lit ''abc''))]"
    by (simp add: one_blob_def store_blob_deferred_def put_blob_fields(2) [OF sample_io_ok])
      (simp add: with_config_def empty_state_def)
  have f: "files (state (one_blob ct)) = []" "units (state (one_blob ct)) = []" "search_hits (state (one_blob ct)) = []"
    by (simp_all add: one_blob_def store_blob_deferred_def put_blob_rest) (simp_all add: with_config_def empty_state_def)
  have c: "config (one_blob ct) = default_config"
    by (simp add: one_blob_def store_blob_deferred_def put_blob_fields(4) [OF sample_io_ok]) (simp add: with_config_def)
  have "blen (lit ''abc'') = 3" by code_simp
  moreover have "strip_prefix BLOB_MARKER_PREFIX (lit ''abc'') = None" by code_simp
  ultimately show ?thesis
    by (simp add: within_limits_def b f c default_config_def approx_bytes_def saturating_usize_sum_def sat_add_def
        blob_value_len_def parse_blob_marker_def u64_max_def)
qed

lemma one_blob_held: "blob_held sample_io (one_blob ct) (blob_ref_of (sha256_hex sample_io (lit ''abc''))) (lit ''abc'')"
proof -
  have st: "blob_storable sample_io (with_config default_config) (lit ''abc'')"
    using sample_io_ok plain_start abc_plain by (simp add: blob_storable_def)
  have "blob_held sample_io (snd (store_blob_deferred sample_io (with_config default_config) (lit ''abc'') Unknown))
      (blob_ref_of (sha256_hex sample_io (lit ''abc''))) (lit ''abc'')"
    using rs.put_holds [OF st, of Unknown] by (simp add: put_ref)
  then show ?thesis unfolding one_blob_def by (rule rs.put_keeps) simp
qed

section \<open>Properties\<close>

text \<open>A session can be forked exactly when it has no unsealed novelty, whatever operations led to it;
  the child then renders byte for byte what its parent renders, and its breakpoint hash is the
  hash of that text.\<close>

theorem fork_exactly_at_breakpoint:
  assumes "cow_run E j c"
  shows "(case fst (cow_fork E j c s child) of
      Inl e \<Rightarrow> e = NotAtCacheBreakpoint \<and> novelty c \<noteq> []
    | Inr k \<Rightarrow> novelty c = [] \<and> cow_rendered k = cow_rendered c \<and>
        breakpoint_sha256 k = sha256_hex E (cow_rendered c) \<and> parent_branch_id k = Some (branch_id c))"
  using cow_run_inv [OF assms] by (auto simp: cow_defs cow_inv_def cow_rendered_def)

theorem fork_exactly_at_breakpoint_witness:
  "\<exists>c k. from_breakpoint sample_io (lit ''main'')
       (fst (reproject_at_cache_breakpoint sample_io \<lparr>view_prefix = lit ''abc'', view_config = \<lparr>cfg_working_set_tokens = 0, cfg_hot_tail_tokens = 0\<rparr>,
          records = [], next_id = 1, resident_ids = [], prefix_guard = default_guard, cache_model_tier = Opus, tokenizer_id = []\<rparr> None)) = Ok c \<and>
     fst (cow_fork sample_io (\<lambda>_. lit ''{}'') c (with_config default_config) (lit ''child'')) = Ok k \<and> cow_rendered k = cow_rendered c"
proof -
  let ?v = "\<lparr>view_prefix = lit ''abc'', view_config = \<lparr>cfg_working_set_tokens = 0, cfg_hot_tail_tokens = 0\<rparr>,
    records = [], next_id = 1, resident_ids = [], prefix_guard = default_guard, cache_model_tier = Opus, tokenizer_id = []\<rparr>"
  let ?p = "fst (reproject_at_cache_breakpoint sample_io ?v None)"
  have "cache_breakpoint ?p" by (simp add: reproject_at_cache_breakpoint_def render_def Let_def split_beta)
  then obtain c where c: "from_breakpoint sample_io (lit ''main'') ?p = Ok c" "at_breakpoint c" by (simp add: from_breakpoint_def)
  then obtain k where k: "fst (cow_fork sample_io (\<lambda>_. lit ''{}'') c (with_config default_config) (lit ''child'')) = Ok k"
    by (simp add: cow_defs)
  from fork_exactly_at_breakpoint [OF cow_run.start [OF c(1)], of "\<lambda>_. lit ''{}''" "with_config default_config" "lit ''child''"] k c(1)
  show ?thesis by auto
qed

text \<open>C16: Discarding and restoring is the identity on what the session shows: after a discard the session
  shows its shared prefix alone, and restoring from the store, never from caller bytes, brings
  back the same records with the same texts, as long as the store still holds them.\<close>

theorem discard_restore_roundtrip:
  assumes "discard E j c s = (p, c', s')" and "session_held E c s'"
  shows "cow_rendered c' = shared_prefix c \<and>
    (\<exists>c'' s''. restore E j c' s' p = (Ok (), c'', s'') \<and> novelty c'' = novelty c \<and> cow_rendered c'' = cow_rendered c)"
proof -
  have p: "restore_records p = map fst (novelty c)" "restore_branch_id p = branch_id c"
    and c': "novelty c' = []" "branch_id c' = branch_id c" "shared_prefix c' = shared_prefix c"
    using assms(1) by (auto simp: cow_defs)
  obtain s1 where f: "fetch_each (expand_raw E) s' (map (recovery_ref \<circ> fst) (novelty c)) = (Ok (map snd (novelty c)), s1)"
    using rs.fetch_each_held [OF held_pairs [OF assms(2)]] by blast
  then have "\<exists>c'' s''. restore E j c' s' p = (Ok (), c'', s'') \<and> novelty c'' = novelty c \<and> shared_prefix c'' = shared_prefix c"
    using p c' by (simp add: restore_def Let_def split_beta persist_ledger_session zip_fst_snd)
  then show ?thesis using c' by (auto simp: cow_rendered_def)
qed

theorem discard_restore_roundtrip_witness:
  "\<exists>p c' s' c'' s''. discard sample_io (\<lambda>_. lit ''abc'')
       \<lparr>branch_id = lit ''a'', parent_branch_id = None, shared_prefix = [], breakpoint_sha256 = [],
        novelty = [(\<lparr>recovery_ref = blob_ref_of (sha256_hex sample_io (lit ''abc'')), record_bytes = 3\<rparr>, lit ''abc'')],
        ledger_refs = [], at_breakpoint = False\<rparr>
       (snd (store_blob_deferred sample_io (with_config default_config) (lit ''abc'') Unknown)) = (p, c', s') \<and>
     restore sample_io (\<lambda>_. lit ''abc'') c' s' p = (Ok (), c'', s'') \<and> cow_rendered c' = [] \<and> cow_rendered c'' = lit ''abc''"
proof -
  let ?r = "blob_ref_of (sha256_hex sample_io (lit ''abc''))"
  let ?c = "\<lparr>branch_id = lit ''a'', parent_branch_id = None, shared_prefix = [], breakpoint_sha256 = [],
    novelty = [(\<lparr>recovery_ref = ?r, record_bytes = 3\<rparr>, lit ''abc'')], ledger_refs = [], at_breakpoint = False\<rparr>"
  let ?s = "snd (store_blob_deferred sample_io (with_config default_config) (lit ''abc'') Unknown)"
  obtain p c' s' where d: "discard sample_io (\<lambda>_. lit ''abc'') ?c ?s = (p, c', s')" by (metis prod_cases3)
  then have "s' = persist sample_io (one_blob JsonConfig)"
    by (auto simp: discard_def Let_def split_beta persist_ledger_store one_blob_def)
  then have "session_held sample_io ?c s'"
    using persist_fits [OF one_blob_fits one_blob_held] by (simp add: session_held_def)
  from discard_restore_roundtrip [OF d this] d show ?thesis by (fastforce simp: cow_rendered_def)
qed

text \<open>Appending keeps the session recoverable: when the text and its ledger entry can be stored, clash
  with no earlier text and fit the store, the session shows its old text followed by the new
  one, the store holds its whole novelty, and the returned reference expands to the new text.\<close>

theorem append_recoverable:
  assumes "session_held E c s" and "blob_storable E s t" and "no_clash E c t"
    and "cow_append E j c s t = (r, c', s')"
    and "e = \<lparr>entry_branch_id = branch_id c, entry_parent = parent_branch_id c, entry_action = AppendAction,
      entry_breakpoint = breakpoint_sha256 c, record_refs = [r]\<rparr>"
    and "no_clash E c (j e)" and "sha256_hex E (j e) = sha256_hex E t \<longrightarrow> j e = t"
    and "within_limits E (snd (store_blob_deferred E (snd (store_blob_deferred E s t Unknown)) (j e) JsonConfig))"
  shows "session_held E c' s' \<and> cow_rendered c' = cow_rendered c @ t \<and> fst (expand_raw E s' r) = Some t"
proof -
  let ?s1 = "snd (store_blob_deferred E s t Unknown)" let ?s2 = "snd (store_blob_deferred E ?s1 (j e) JsonConfig)"
  have r: "r = fst (store_blob_deferred E s t Unknown)"
    and c': "novelty c' = novelty c @ [(\<lparr>recovery_ref = r, record_bytes = blen t\<rparr>, t)]" "shared_prefix c' = shared_prefix c"
    and s': "s' = persist E ?s2"
    using assms(4,5) by (auto simp: cow_append_def Let_def split_beta persist_ledger_session persist_ledger_store)
  have old: "session_held E c ?s2" using session_put [OF session_put [OF assms(1,3)] assms(6)] .
  have "blob_held E ?s1 r t" unfolding r by (rule rs.put_holds [OF assms(2)])
  moreover have "fst (store_blob_deferred E ?s1 (j e) JsonConfig) = r \<longrightarrow> j e = t"
    using assms(7) by (auto simp: r put_ref blob_ref_of_def)
  ultimately have "blob_held E ?s2 r t" by (rule rs.put_keeps)
  then have "session_held E c' ?s2" using old by (auto simp: session_held_def c')
  then have held: "session_held E c' s'" unfolding s' using assms(8) by (rule session_persist)
  then have "blob_held E s' r t" by (auto simp: session_held_def c')
  from rs.fetch_held [OF this] held show ?thesis by (simp add: cow_rendered_def c')
qed

theorem append_recoverable_witness:
  "\<exists>r c' s'. cow_append sample_io (\<lambda>_. lit ''abc'')
       \<lparr>branch_id = lit ''a'', parent_branch_id = None, shared_prefix = lit ''p'', breakpoint_sha256 = [], novelty = [], ledger_refs = [],
        at_breakpoint = True\<rparr> (with_config default_config) (lit ''abc'') = (r, c', s') \<and>
     cow_rendered c' = lit ''pabc'' \<and> fst (expand_raw sample_io s' r) = Some (lit ''abc'')"
proof -
  let ?c = "\<lparr>branch_id = lit ''a'', parent_branch_id = None, shared_prefix = lit ''p'', breakpoint_sha256 = [], novelty = [], ledger_refs = [],
    at_breakpoint = True\<rparr>"
  obtain r c' s' where a: "cow_append sample_io (\<lambda>_. lit ''abc'') ?c (with_config default_config) (lit ''abc'') = (r, c', s')"
    by (metis prod_cases3)
  have "session_held sample_io ?c (with_config default_config)" "no_clash sample_io ?c (lit ''abc'')"
    "blob_storable sample_io (with_config default_config) (lit ''abc'')"
    using sample_io_ok plain_start abc_plain by (simp_all add: session_held_def no_clash_def blob_storable_def)
  from append_recoverable [OF this(1,3,2) a refl this(2)] one_blob_fits [of JsonConfig]
  have "cow_rendered c' = cow_rendered ?c @ lit ''abc''" "fst (expand_raw sample_io s' r) = Some (lit ''abc'')"
    by (simp_all add: one_blob_def)
  then show ?thesis using a by (fastforce simp: cow_rendered_def simp flip: lit_append)
qed

text \<open>A restore that fails changes nothing: a restore point of another branch and a record the store
  cannot recover are reported as such, the session is left as it was, and so is the store's
  state.\<close>

theorem restore_failure_is_harmless:
  assumes "restore E j c s p = (Err e, c', s')"
  shows "c' = c \<and> state s' = state s \<and>
    (e = WrongBranch (branch_id c) (restore_branch_id p) \<and> restore_branch_id p \<noteq> branch_id c \<or>
     (\<exists>rec \<in> set (restore_records p). e = MissingRecovery (recovery_ref rec)))"
proof (cases "restore_branch_id p = branch_id c")
  case True
  obtain f s1 where f: "fetch_each (expand_raw E) s (map recovery_ref (restore_records p)) = (f, s1)" by fastforce
  then have "state s1 = state s" using fetch_each_state [of E s "map recovery_ref (restore_records p)"] by simp
  moreover obtain r where "f = Err r" "c' = c" "s' = s1" "e = MissingRecovery r"
    using assms True f by (cases f) (auto simp: restore_def Let_def split_beta)
  moreover from this have "r \<in> set (map recovery_ref (restore_records p))"
    using fetch_each_missing f by (metis fst_conv)
  ultimately show ?thesis by auto
qed (use assms in \<open>auto simp: restore_def\<close>)

theorem restore_failure_is_harmless_witness:
  "fst (snd (restore sample_io (\<lambda>_. [])
     \<lparr>branch_id = lit ''a'', parent_branch_id = None, shared_prefix = [], breakpoint_sha256 = [], novelty = [], ledger_refs = [], at_breakpoint = True\<rparr>
     (with_config default_config) \<lparr>restore_branch_id = lit ''b'', restore_records = [], discard_ledger_ref = []\<rparr>)) =
   \<lparr>branch_id = lit ''a'', parent_branch_id = None, shared_prefix = [], breakpoint_sha256 = [], novelty = [], ledger_refs = [], at_breakpoint = True\<rparr>"
proof -
  let ?c = "\<lparr>branch_id = lit ''a'', parent_branch_id = None, shared_prefix = [], breakpoint_sha256 = [], novelty = [], ledger_refs = [], at_breakpoint = True\<rparr>"
  let ?p = "\<lparr>restore_branch_id = lit ''b'', restore_records = [], discard_ledger_ref = []\<rparr>"
  have "restore sample_io (\<lambda>_. []) ?c (with_config default_config) ?p =
      (Err (WrongBranch (lit ''a'') (lit ''b'')), ?c, with_config default_config)"
    by (simp add: restore_def)
  from restore_failure_is_harmless [OF this] this show ?thesis by simp
qed

end
