(* ===== verification/WorkingSet.thy ===== *)
theory WorkingSet
  imports BlobSource
begin

text \<open>
  The prompt-resident working set (\<open>working_set.rs\<close>): spans of text a session shows, paged out
  to the recovery store behind a one-line reference when the token budget is exceeded, and
  paged in again on demand. Panics of the source (\<open>expect\<close>, \<open>panic!\<close>, \<open>unreachable!\<close>) are the
  value \<open>None\<close>. Rates and means are real numbers where the code has 64-bit floats. The
  quoting of JSON strings and the elapsed time of a fault are arguments. The hash map of
  evicted references is only looked up by key, so an ordered association list stands for it.
\<close>

section \<open>Anchors and telemetry\<close>

definition DEFAULT_WORKING_SET_TOKENS :: nat where "DEFAULT_WORKING_SET_TOKENS = 8192"
definition EVICTION_REF_LINE_PREFIX :: rstr where "EVICTION_REF_LINE_PREFIX = lit ''TZ-EVICT/1''"
definition ALREADY_RESIDENT_ATOM :: rstr where "ALREADY_RESIDENT_ATOM = lit ''0''"
definition THRASH_ALARM_FAULT_RATE :: real where "THRASH_ALARM_FAULT_RATE = 1 / 2"
definition MAX_PREFETCH_HINTS_PER_FAULT :: nat where "MAX_PREFETCH_HINTS_PER_FAULT = 1"
definition MAX_QUEUED_PREFETCH_HINTS :: nat where "MAX_QUEUED_PREFETCH_HINTS = 32"

record SpanAnchor =
  anchor_path :: rstr
  anchor_symbol :: "rstr option"
  anchor_start :: nat
  anchor_end :: nat

text \<open>Paths compare by their components: repeated separators and inner \<open>.\<close> components do not count.\<close>

definition path_components :: "rstr \<Rightarrow> bool \<times> rstr list" where
  "path_components p =
     (starts_with p [47],
      case split_on (\<lambda>c. c = 47) p of
        [] \<Rightarrow> []
      | x # xs \<Rightarrow> (if x = [] then [] else [x]) @ filter (\<lambda>y. y \<noteq> [] \<and> y \<noteq> [46]) xs)"

definition path_eq :: "rstr \<Rightarrow> rstr \<Rightarrow> bool" where
  "path_eq p q \<longleftrightarrow> path_components p = path_components q"

definition anchor_eq :: "SpanAnchor \<Rightarrow> SpanAnchor \<Rightarrow> bool" where
  "anchor_eq a b \<longleftrightarrow> path_eq (anchor_path a) (anchor_path b) \<and> anchor_symbol a = anchor_symbol b \<and>
     anchor_start a = anchor_start b \<and> anchor_end a = anchor_end b"

record RehydrationLatencyTelemetry =
  samples :: nat
  min_us :: nat
  mean_us :: real
  max_us :: nat

record EvictionAccounting =
  p_fault :: real
  expected_rehydration_tokens :: real
  amortized_tokens_per_access :: real
  actual_rehydration_tokens :: nat
  thrash_worst_case_tokens :: nat
  alarm :: bool

record WorkingSetTelemetry =
  admissions :: nat
  evictions :: nat
  bytes_evicted :: nat
  refs_created :: nat
  lookups :: nat
  faults :: nat
  fault_rate :: real
  rehydrations :: nat
  resident_hits :: nat
  delta_renders :: nat
  dedup_tokens_saved :: nat
  churn :: nat
  render_rewrites :: nat
  fault_hook_calls :: nat
  context_edits :: nat
  eviction_accounting :: EvictionAccounting
  rehydration_latency :: RehydrationLatencyTelemetry
  rehydration_latency_total_us :: nat

definition default_telemetry :: WorkingSetTelemetry where
  "default_telemetry = \<lparr>admissions = 0, evictions = 0, bytes_evicted = 0, refs_created = 0, lookups = 0, faults = 0,
     fault_rate = 0, rehydrations = 0, resident_hits = 0, delta_renders = 0, dedup_tokens_saved = 0, churn = 0,
     render_rewrites = 0, fault_hook_calls = 0, context_edits = 0,
     eviction_accounting = \<lparr>p_fault = 0, expected_rehydration_tokens = 0, amortized_tokens_per_access = 0,
       actual_rehydration_tokens = 0, thrash_worst_case_tokens = 0, alarm = False\<rparr>,
     rehydration_latency = \<lparr>samples = 0, min_us = 0, mean_us = 0, max_us = 0\<rparr>,
     rehydration_latency_total_us = 0\<rparr>"

record EvictedSpan =
  ev_id :: nat
  ev_ref :: rstr
  ev_replacement :: rstr
  ev_bytes :: nat

section \<open>Deltas\<close>

record WorkingSetDelta =
  delta_start :: nat
  delta_removed :: "rstr list"
  delta_inserted :: "rstr list"

definition signed_line :: "uchar \<Rightarrow> rstr \<Rightarrow> rstr" where
  "signed_line sign line = [sign] @ line @ (if ends_with line [10] then [] else [10])"

definition acknowledgement :: "WorkingSetDelta \<Rightarrow> rstr" where
  "acknowledgement d =
     lit ''@@ -'' @ show_nat (delta_start d) @ lit '','' @ show_nat (length (delta_removed d)) @ lit '' +'' @
     show_nat (delta_start d) @ lit '','' @ show_nat (length (delta_inserted d)) @ lit '' @@'' @ [10] @
     concat (map (signed_line 45) (delta_removed d)) @ concat (map (signed_line 43) (delta_inserted d))"

definition split_exact_lines :: "rstr \<Rightarrow> rstr list" where
  "split_exact_lines t = (if t = [] then [] else split_inclusive t)"

definition delta_between :: "rstr \<Rightarrow> rstr \<Rightarrow> WorkingSetDelta" where
  "delta_between old new =
     (let old_lines = split_exact_lines old;
          new_lines = split_exact_lines new;
          pre = length (takeWhile (\<lambda>(l, r). l = r) (zip old_lines new_lines));
          suf = length (takeWhile (\<lambda>(l, r). l = r) (zip (rev (drop pre old_lines)) (rev (drop pre new_lines))))
      in \<lparr>delta_start = pre + 1,
          delta_removed = drop pre (take (length old_lines - suf) old_lines),
          delta_inserted = drop pre (take (length new_lines - suf) new_lines)\<rparr>)"

definition integrate_delta :: "rstr \<Rightarrow> WorkingSetDelta \<Rightarrow> rstr option" where
  "integrate_delta base d =
     (let ls = split_exact_lines base in
      case checked_sub (delta_start d) 1 of
        None \<Rightarrow> None
      | Some start \<Rightarrow>
        (case checked_add start (length (delta_removed d)) of
           None \<Rightarrow> None
         | Some stop \<Rightarrow>
             if length ls < stop \<or> drop start (take stop ls) \<noteq> delta_removed d then None
             else Some (concat (take start ls @ delta_inserted d @ drop stop ls))))"

datatype WorkingSetResponse = Full | AlreadyResident | Delta rstr WorkingSetDelta

fun response_visible_text :: "WorkingSetResponse \<Rightarrow> rstr option" where
  "response_visible_text Full = None"
| "response_visible_text AlreadyResident = Some ALREADY_RESIDENT_ATOM"
| "response_visible_text (Delta ack d) = Some ack"

record Admission =
  adm_id :: nat
  adm_replacement :: "rstr option"
  adm_evicted :: "EvictedSpan list"
  adm_response :: WorkingSetResponse

record Rehydration =
  rh_id :: nat
  rh_anchor :: SpanAnchor
  rh_partial :: bool
  rh_evicted :: "EvictedSpan list"

datatype WorkingSetError = InvalidSpanWindow nat nat | RehydrateFailed rstr rstr | WorkingSetStore StoreError

section \<open>Prefetch hooks\<close>

record PrefetchCandidate =
  cand_id :: nat
  cand_ref :: rstr
  cand_anchor :: SpanAnchor

record PrefetchHint =
  hint_ref :: rstr
  hint_anchor :: SpanAnchor

type_synonym prefetch_fn = "SpanAnchor \<Rightarrow> PrefetchCandidate list \<Rightarrow> PrefetchHint list"

text \<open>\<open>min_by\<close> and \<open>min_by_key\<close>: the first of the least elements.\<close>

fun first_min :: "('a \<Rightarrow> 'a \<Rightarrow> bool) \<Rightarrow> 'a list \<Rightarrow> 'a option" where
  "first_min lt [] = None"
| "first_min lt (x # xs) = Some (fold (\<lambda>y m. if lt y m then y else m) xs x)"

definition NoopPrefetchHook :: prefetch_fn where
  "NoopPrefetchHook fault candidates = []"

definition span_distance :: "SpanAnchor \<Rightarrow> PrefetchCandidate \<Rightarrow> nat" where
  "span_distance fault c =
     max (sat_sub (anchor_start (cand_anchor c)) (anchor_end fault))
         (sat_sub (anchor_start fault) (anchor_end (cand_anchor c)))"

definition SameFileNeighborPrefetch :: prefetch_fn where
  "SameFileNeighborPrefetch fault candidates =
     (case first_min (\<lambda>a b. span_distance fault a < span_distance fault b \<or>
               span_distance fault a = span_distance fault b \<and> cand_id a < cand_id b)
             (filter (\<lambda>c. path_eq (anchor_path (cand_anchor c)) (anchor_path fault)) candidates) of
        None \<Rightarrow> []
      | Some c \<Rightarrow> [\<lparr>hint_ref = cand_ref c, hint_anchor = cand_anchor c\<rparr>])"

section \<open>State\<close>

datatype SpanBody = Resident rstr | Evicted rstr rstr

record ResidentSpan =
  span_id :: nat
  last_touched :: nat
  span_anchor :: SpanAnchor
  span_body :: SpanBody

definition visible_text :: "ResidentSpan \<Rightarrow> rstr" where
  "visible_text p = (case span_body p of Resident t \<Rightarrow> t | Evicted r replacement \<Rightarrow> replacement)"

definition visible_tokens :: "rstr option \<Rightarrow> ResidentSpan \<Rightarrow> nat" where
  "visible_tokens active p = count_tokens active (visible_text p)"

record WorkingSet =
  budget_tokens :: nat
  sequence :: nat
  spans :: "ResidentSpan list"
  evicted_refs :: "(rstr, nat list) btree"
  telemetry :: WorkingSetTelemetry
  prefetch_hook :: prefetch_fn
  prefetch_hints :: "PrefetchHint list"
  evicted_tokens_total :: nat
  max_evicted_tokens :: nat

definition new_working_set :: "nat \<Rightarrow> WorkingSet" where
  "new_working_set n = \<lparr>budget_tokens = n, sequence = 0, spans = [], evicted_refs = [], telemetry = default_telemetry,
     prefetch_hook = NoopPrefetchHook, prefetch_hints = [], evicted_tokens_total = 0, max_evicted_tokens = 0\<rparr>"

abbreviation upd_tel :: "(WorkingSetTelemetry \<Rightarrow> WorkingSetTelemetry) \<Rightarrow> WorkingSet \<Rightarrow> WorkingSet" where
  "upd_tel f w \<equiv> w\<lparr>telemetry := f (telemetry w)\<rparr>"

definition register_prefetch_hook :: "WorkingSet \<Rightarrow> prefetch_fn \<Rightarrow> WorkingSet" where
  "register_prefetch_hook w hook = w\<lparr>prefetch_hook := hook\<rparr>"

definition enable_same_file_neighbor_prefetch :: "WorkingSet \<Rightarrow> bool \<Rightarrow> WorkingSet" where
  "enable_same_file_neighbor_prefetch w enabled =
     w\<lparr>prefetch_hook := if enabled then SameFileNeighborPrefetch else NoopPrefetchHook\<rparr>"

definition take_prefetch_hints :: "WorkingSet \<Rightarrow> PrefetchHint list \<times> WorkingSet" where
  "take_prefetch_hints w = (prefetch_hints w, w\<lparr>prefetch_hints := []\<rparr>)"

definition used_tokens :: "rstr option \<Rightarrow> WorkingSet \<Rightarrow> nat" where
  "used_tokens active w = sum_list (map (visible_tokens active) (spans w))"

definition visible_lines :: "WorkingSet \<Rightarrow> rstr list" where
  "visible_lines w = map visible_text (spans w)"

definition find_span :: "nat \<Rightarrow> WorkingSet \<Rightarrow> ResidentSpan option" where
  "find_span i w = find (\<lambda>p. span_id p = i) (spans w)"

definition anchor_for_path :: "WorkingSet \<Rightarrow> rstr \<Rightarrow> SpanAnchor option" where
  "anchor_for_path w path = map_option span_anchor (find (\<lambda>p. path_eq (anchor_path (span_anchor p)) path) (spans w))"

text \<open>\<open>iter_mut().find(...)\<close> and an assignment through it: the first match is changed.\<close>

fun update_first :: "('a \<Rightarrow> bool) \<Rightarrow> ('a \<Rightarrow> 'a) \<Rightarrow> 'a list \<Rightarrow> 'a list" where
  "update_first P f [] = []"
| "update_first P f (x # xs) = (if P x then f x # xs else x # update_first P f xs)"

fun find_index :: "('a \<Rightarrow> bool) \<Rightarrow> 'a list \<Rightarrow> nat option" where
  "find_index P [] = None"
| "find_index P (x # xs) = (if P x then Some 0 else map_option Suc (find_index P xs))"

section \<open>Bookkeeping\<close>

definition note_admission :: "WorkingSet \<Rightarrow> WorkingSet" where
  "note_admission = upd_tel (\<lambda>t. t\<lparr>admissions := sat_add (admissions t) 1, churn := sat_add (churn t) 1\<rparr>)"

definition push_resident :: "WorkingSet \<Rightarrow> rstr \<Rightarrow> SpanAnchor \<Rightarrow> nat \<times> WorkingSet" where
  "push_resident w t a =
     (let n = sat_add (sequence w) 1;
          w = w\<lparr>sequence := n, spans := spans w @ [\<lparr>span_id = n, last_touched = n, span_anchor = a, span_body = Resident t\<rparr>]\<rparr>
      in (n, note_admission w))"

definition record_rehydration_latency :: "nat \<Rightarrow> WorkingSet \<Rightarrow> WorkingSet" where
  "record_rehydration_latency elapsed = upd_tel (\<lambda>t.
     let l = rehydration_latency t;
         n = sat_add (samples l) 1;
         total = sat_add (rehydration_latency_total_us t) elapsed
     in t\<lparr>rehydration_latency := \<lparr>samples = n, min_us = (if n = 1 then elapsed else min (min_us l) elapsed),
            mean_us = real total / real n, max_us = max (max_us l) elapsed\<rparr>,
          rehydration_latency_total_us := total\<rparr>)"

definition refresh_rates :: "WorkingSet \<Rightarrow> WorkingSet" where
  "refresh_rates w = upd_tel (\<lambda>t.
     let rate = (if lookups t \<noteq> 0 then real (faults t) / real (lookups t) else 0);
         expected = (if evictions t = 0 then 0 else real (evicted_tokens_total w) / real (evictions t));
         amortized = rate * expected
     in t\<lparr>fault_rate := rate,
          eviction_accounting := (eviction_accounting t)
            \<lparr>p_fault := rate, expected_rehydration_tokens := expected, amortized_tokens_per_access := amortized,
             thrash_worst_case_tokens := max_evicted_tokens w,
             alarm := (THRASH_ALARM_FAULT_RATE \<le> rate \<and> 1 \<le> amortized)\<rparr>\<rparr>) w"

definition evicted_candidate :: "nat \<Rightarrow> rstr \<Rightarrow> ResidentSpan \<Rightarrow> PrefetchCandidate option" where
  "evicted_candidate fault_id fault_ref p =
     (case span_body p of
        Evicted r replacement \<Rightarrow>
          if span_id p \<noteq> fault_id \<and> r \<noteq> fault_ref
          then Some \<lparr>cand_id = span_id p, cand_ref = r, cand_anchor = span_anchor p\<rparr> else None
      | Resident t \<Rightarrow> None)"

definition queue_prefetch_hints :: "WorkingSet \<Rightarrow> SpanAnchor \<Rightarrow> nat \<Rightarrow> rstr \<Rightarrow> WorkingSet" where
  "queue_prefetch_hints w fault fault_id fault_ref =
     (let candidates = List.map_filter (evicted_candidate fault_id fault_ref) (spans w);
          hints = prefetch_hints w @ take MAX_PREFETCH_HINTS_PER_FAULT (prefetch_hook w fault candidates)
      in w\<lparr>prefetch_hints := drop (length hints - MAX_QUEUED_PREFETCH_HINTS) hints\<rparr>)"

definition drop_alias :: "RecoveryStore \<Rightarrow> rstr \<Rightarrow> RecoveryStore" where
  "drop_alias s key = (if alias_target s key \<noteq> None then remove_alias s key else s)"

definition remove_evicted_ref :: "WorkingSet \<Rightarrow> RecoveryStore \<Rightarrow> nat \<Rightarrow> WorkingSet \<times> RecoveryStore" where
  "remove_evicted_ref w s i =
     (let retained = map (\<lambda>(k, ids). (k, filter (\<lambda>j. j \<noteq> i) ids)) (evicted_refs w);
          empty_keys = map fst (filter (\<lambda>(k, ids). ids = []) retained)
      in (w\<lparr>evicted_refs := filter (\<lambda>(k, ids). ids \<noteq> []) retained\<rparr>, foldl drop_alias s empty_keys))"

section \<open>Paging out\<close>

definition normalize_path :: "rstr \<Rightarrow> rstr" where
  "normalize_path p = map (\<lambda>c. if c = 92 then 47 else c) p"

type_synonym quote_fn = "rstr \<Rightarrow> rstr"

definition format_ref_line :: "quote_fn \<Rightarrow> rstr \<Rightarrow> SpanAnchor \<Rightarrow> rstr" where
  "format_ref_line q r a =
     EVICTION_REF_LINE_PREFIX @ lit '' ref='' @ r @ lit '' path='' @ q (normalize_path (anchor_path a)) @
     (case anchor_symbol a of None \<Rightarrow> [] | Some sm \<Rightarrow> lit '' symbol='' @ q sm) @
     lit '' lines='' @ show_nat (anchor_start a) @ lit ''-'' @ show_nat (anchor_end a)"

text \<open>\<open>entry(r).or_default()\<close>.\<close>

definition ids_at :: "(rstr, nat list) btree \<Rightarrow> rstr \<Rightarrow> nat list" where
  "ids_at m r = (case bt_get m r of None \<Rightarrow> [] | Some ids \<Rightarrow> ids)"

definition page_out_at ::
    "io \<Rightarrow> quote_fn \<Rightarrow> WorkingSet \<Rightarrow> RecoveryStore \<Rightarrow> nat \<Rightarrow> (EvictedSpan \<times> WorkingSet \<times> RecoveryStore) option" where
  "page_out_at E q w s victim =
     (if length (spans w) \<le> victim then None else
      let p = spans w ! victim in
      case span_body p of
        Evicted r replacement \<Rightarrow> None
      | Resident bytes \<Rightarrow>
        let (r, s) = store_blob E s bytes Unknown;
            replacement = format_ref_line q r (span_anchor p);
            n = count_tokens (active_model E) bytes;
            old = ids_at (evicted_refs w) r;
            w = w\<lparr>evicted_tokens_total := sat_add (evicted_tokens_total w) n,
                  max_evicted_tokens := max (max_evicted_tokens w) n,
                  spans := (spans w)[victim := p\<lparr>span_body := Evicted r replacement\<rparr>],
                  evicted_refs := bt_insert r (old @ [span_id p]) (evicted_refs w)\<rparr>;
            w = upd_tel (\<lambda>t. t\<lparr>evictions := sat_add (evictions t) 1, churn := sat_add (churn t) 1,
                  bytes_evicted := sat_add (bytes_evicted t) (blen bytes), refs_created := sat_add (refs_created t) 1\<rparr>) w
        in Some (\<lparr>ev_id = span_id p, ev_ref = r, ev_replacement = replacement, ev_bytes = blen bytes\<rparr>, refresh_rates w, s))"

text \<open>The cheapest marker a span can be reduced to, and the spans above it.\<close>

definition marker_floor :: "io \<Rightarrow> quote_fn \<Rightarrow> ResidentSpan \<Rightarrow> nat" where
  "marker_floor E q p =
     count_tokens (active_model E) (format_ref_line q (lit ''tz://blob/'' @ replicate 64 48) (span_anchor p))"

definition victim_candidate :: "io \<Rightarrow> quote_fn \<Rightarrow> nat \<times> ResidentSpan \<Rightarrow> (nat \<times> nat \<times> nat \<times> nat) option" where
  "victim_candidate E q = (\<lambda>(index, p).
     case span_body p of
       Resident t \<Rightarrow>
         let n = count_tokens (active_model E) t
         in if marker_floor E q p < n then Some (index, last_touched p, n, span_id p) else None
     | Evicted r replacement \<Rightarrow> None)"

text \<open>Least recently touched first, then the largest, then the oldest.\<close>

fun victim_less :: "nat \<times> nat \<times> nat \<times> nat \<Rightarrow> nat \<times> nat \<times> nat \<times> nat \<Rightarrow> bool" where
  "victim_less (i, touched, n, k) (i', touched', n', k') \<longleftrightarrow>
     touched < touched' \<or> touched = touched' \<and> (n' < n \<or> n = n' \<and> k < k')"

definition choose_victim :: "io \<Rightarrow> quote_fn \<Rightarrow> WorkingSet \<Rightarrow> nat option" where
  "choose_victim E q w =
     map_option fst (first_min victim_less (List.map_filter (victim_candidate E q) (enumerate 0 (spans w))))"

definition is_resident :: "ResidentSpan \<Rightarrow> bool" where
  "is_resident p \<longleftrightarrow> (case span_body p of Resident t \<Rightarrow> True | Evicted r replacement \<Rightarrow> False)"

definition resident_count :: "WorkingSet \<Rightarrow> nat" where
  "resident_count w = length (filter is_resident (spans w))"

lemma refresh_rates_frame [simp]:
  "spans (refresh_rates w) = spans w" "evicted_refs (refresh_rates w) = evicted_refs w" "sequence (refresh_rates w) = sequence w"
  "prefetch_hints (refresh_rates w) = prefetch_hints w" "budget_tokens (refresh_rates w) = budget_tokens w"
  "lookups (telemetry (refresh_rates w)) = lookups (telemetry w)" "faults (telemetry (refresh_rates w)) = faults (telemetry w)"
  by (simp_all add: refresh_rates_def Let_def)

lemma page_out_Some:
  assumes "page_out_at E q w s v = Some (e, w', s')"
  obtains bytes r where "v < length (spans w)" "span_body (spans w ! v) = Resident bytes"
    "store_blob E s bytes Unknown = (r, s')" "ev_id e = span_id (spans w ! v)" "ev_ref e = r"
    "spans w' = (spans w)[v := (spans w ! v)\<lparr>span_body := Evicted r (format_ref_line q r (span_anchor (spans w ! v)))\<rparr>]"
    "evicted_refs w' = bt_insert r (ids_at (evicted_refs w) r @ [span_id (spans w ! v)]) (evicted_refs w)"
    "sequence w' = sequence w" "prefetch_hints w' = prefetch_hints w" "budget_tokens w' = budget_tokens w"
    "lookups (telemetry w') = lookups (telemetry w)" "faults (telemetry w') = faults (telemetry w)"
proof -
  have v: "v < length (spans w)" using assms by (auto simp: page_out_at_def split: if_splits)
  obtain bytes where b: "span_body (spans w ! v) = Resident bytes"
    using assms v by (cases "span_body (spans w ! v)") (simp_all add: page_out_at_def)
  obtain r s1 where st: "store_blob E s bytes Unknown = (r, s1)" by fastforce
  show thesis using assms v b st by (intro that [OF v b]) (auto simp: page_out_at_def Let_def)
qed

lemma filter_list_update_less:
  assumes "v < length xs" and "P (xs ! v)" and "\<not> P y"
  shows "length (filter P (xs[v := y])) < length (filter P xs)"
proof -
  have "xs = take v xs @ xs ! v # drop (Suc v) xs" using assms(1) by (rule id_take_nth_drop)
  then have "filter P xs = filter P (take v xs) @ xs ! v # filter P (drop (Suc v) xs)"
    using assms(2) by (metis filter.simps(2) filter_append)
  then show ?thesis using assms(1,3) by (simp add: upd_conv_take_nth_drop)
qed

lemma page_out_resident_count:
  assumes "page_out_at E q w s v = Some (e, w', s')"
  shows "resident_count w' < resident_count w"
  by (rule page_out_Some [OF assms])
    (simp add: resident_count_def is_resident_def filter_list_update_less)

function enforce_budget ::
    "io \<Rightarrow> quote_fn \<Rightarrow> WorkingSet \<Rightarrow> RecoveryStore \<Rightarrow> (EvictedSpan list \<times> WorkingSet \<times> RecoveryStore) option" where
  "enforce_budget E q w s =
     (if used_tokens (active_model E) w \<le> budget_tokens w then Some ([], w, s)
      else case choose_victim E q w of
        None \<Rightarrow> Some ([], w, s)
      | Some v \<Rightarrow>
        (case page_out_at E q w s v of
           None \<Rightarrow> None
         | Some (e, w', s') \<Rightarrow> map_option (\<lambda>(es, r). (e # es, r)) (enforce_budget E q w' s')))"
  by pat_completeness auto
termination
  by (relation "measure (\<lambda>(E, q, w, s). resident_count w)") (auto dest: page_out_resident_count)

declare enforce_budget.simps [simp del]

section \<open>Operations\<close>

definition touch :: "WorkingSet \<Rightarrow> nat \<Rightarrow> bool \<times> WorkingSet" where
  "touch w i =
     (if find_span i w = None then (False, w)
      else let n = sat_add (sequence w) 1
           in (True, w\<lparr>sequence := n, spans := update_first (\<lambda>p. span_id p = i) (\<lambda>p. p\<lparr>last_touched := n\<rparr>) (spans w)\<rparr>))"

definition evict_span ::
    "io \<Rightarrow> quote_fn \<Rightarrow> WorkingSet \<Rightarrow> RecoveryStore \<Rightarrow> nat \<Rightarrow> (EvictedSpan option \<times> WorkingSet \<times> RecoveryStore) option" where
  "evict_span E q w s i =
     (case find_index (\<lambda>p. span_id p = i \<and> is_resident p) (spans w) of
        None \<Rightarrow> Some (None, w, s)
      | Some v \<Rightarrow> map_option (\<lambda>(e, r). (Some e, r)) (page_out_at E q w s v))"

definition link_refs ::
    "io \<Rightarrow> WorkingSet \<Rightarrow> RecoveryStore \<Rightarrow> rstr \<Rightarrow> rstr \<Rightarrow> (WorkingSetError + bool) \<times> WorkingSet \<times> RecoveryStore" where
  "link_refs E w s src al =
     (if src = [] \<or> al = [] \<or> src = al then (Ok False, w, s)
      else case bt_get (evicted_refs w) src of
        None \<Rightarrow> (Ok False, w, s)
      | Some ids \<Rightarrow>
        if ids = [] then (Ok False, w, s)
        else if (case bt_get (evicted_refs w) al of None \<Rightarrow> False | Some known \<Rightarrow> set ids \<subseteq> set known) then (Ok False, w, s)
        else
        (case store_alias E s al src of
           Inl e \<Rightarrow> (Err (WorkingSetStore e), w, s)
         | Inr s' \<Rightarrow>
             let known = foldl (\<lambda>known i. if i \<in> set known then known else known @ [i]) (ids_at (evicted_refs w) al) ids
             in (Ok True, w\<lparr>evicted_refs := bt_insert al known (evicted_refs w)\<rparr>, s')))"

definition touch_at :: "nat \<Rightarrow> WorkingSet \<Rightarrow> WorkingSet" where
  "touch_at index w =
     (let n = sat_add (sequence w) 1
      in w\<lparr>sequence := n, spans := (spans w)[index := (spans w ! index)\<lparr>last_touched := n\<rparr>]\<rparr>)"

text \<open>The tail of \<open>admit\<close>: a new resident span, paged out again when the budget asks for it.\<close>

definition admit_full ::
    "io \<Rightarrow> quote_fn \<Rightarrow> WorkingSet \<Rightarrow> RecoveryStore \<Rightarrow> rstr \<Rightarrow> SpanAnchor \<Rightarrow>
     ((WorkingSetError + Admission) \<times> WorkingSet \<times> RecoveryStore) option" where
  "admit_full E q w s t a =
     (let (i, w) = push_resident w t a in
      case enforce_budget E q w s of
        None \<Rightarrow> None
      | Some (es, w, s) \<Rightarrow>
          Some (Ok \<lparr>adm_id = i,
            adm_replacement = Option.bind (find_span i w)
              (\<lambda>p. case span_body p of Evicted r replacement \<Rightarrow> Some replacement | Resident u \<Rightarrow> None),
            adm_evicted = es, adm_response = Full\<rparr>, w, s))"

text \<open>A span of the same anchor that is evicted, or whose delta is no gain, is dropped first.\<close>

definition drop_stale :: "WorkingSet \<Rightarrow> RecoveryStore \<Rightarrow> nat \<Rightarrow> WorkingSet \<times> RecoveryStore" where
  "drop_stale w s index =
     (let stale = spans w ! index;
          w = w\<lparr>spans := take index (spans w) @ drop (Suc index) (spans w)\<rparr>
      in if is_resident stale then (w, s) else remove_evicted_ref w s (span_id stale))"

definition admit ::
    "io \<Rightarrow> quote_fn \<Rightarrow> WorkingSet \<Rightarrow> RecoveryStore \<Rightarrow> rstr \<Rightarrow> SpanAnchor \<Rightarrow>
     ((WorkingSetError + Admission) \<times> WorkingSet \<times> RecoveryStore) option" where
  "admit E q w s t a =
     (let count = count_tokens (active_model E) in
      if anchor_start a = 0 \<or> anchor_end a < anchor_start a
      then Some (Err (InvalidSpanWindow (anchor_start a) (anchor_end a)), w, s)
      else case find_index (\<lambda>p. anchor_eq (span_anchor p) a) (spans w) of
        None \<Rightarrow> admit_full E q w s t a
      | Some index \<Rightarrow>
        (case span_body (spans w ! index) of
           Evicted r replacement \<Rightarrow> (let (w, s) = drop_stale w s index in admit_full E q w s t a)
         | Resident previous \<Rightarrow>
           if previous = t then
             let w = touch_at index w;
                 w = upd_tel (\<lambda>l. l\<lparr>resident_hits := sat_add (resident_hits l) 1,
                   dedup_tokens_saved := sat_add (dedup_tokens_saved l) (count t - count ALREADY_RESIDENT_ATOM)\<rparr>) w
             in Some (Ok \<lparr>adm_id = span_id (spans w ! index), adm_replacement = None, adm_evicted = [],
                  adm_response = AlreadyResident\<rparr>, w, s)
           else
             let d = delta_between previous t; ack = acknowledgement d in
             if count ack < count t then
               let i = span_id (spans w ! index);
                   w = touch_at index w;
                   w = w\<lparr>spans := (spans w)[index := (spans w ! index)\<lparr>span_body := Resident t\<rparr>]\<rparr>;
                   w = upd_tel (\<lambda>l. l\<lparr>delta_renders := sat_add (delta_renders l) 1,
                     dedup_tokens_saved := sat_add (dedup_tokens_saved l) (count t - count ack)\<rparr>) w
               in map_option (\<lambda>(es, w, s). (Ok \<lparr>adm_id = i, adm_replacement = None, adm_evicted = es,
                    adm_response = Delta ack d\<rparr>, w, s)) (enforce_budget E q w s)
             else (let (w, s) = drop_stale w s index in admit_full E q w s t a)))"

definition rewrite_render ::
    "io \<Rightarrow> quote_fn \<Rightarrow> WorkingSet \<Rightarrow> RecoveryStore \<Rightarrow> rstr \<Rightarrow> SpanAnchor \<Rightarrow>
     ((WorkingSetError + Admission) \<times> WorkingSet \<times> RecoveryStore) option" where
  "rewrite_render E q w s t a =
     admit E q (upd_tel (\<lambda>l. l\<lparr>render_rewrites := sat_add (render_rewrites l) 1\<rparr>) w) s t a"

definition apply_context_edit ::
    "io \<Rightarrow> quote_fn \<Rightarrow> WorkingSet \<Rightarrow> RecoveryStore \<Rightarrow> rstr \<Rightarrow> SpanAnchor \<Rightarrow>
     ((WorkingSetError + Admission) \<times> WorkingSet \<times> RecoveryStore) option" where
  "apply_context_edit E q w s t a =
     admit E q (upd_tel (\<lambda>l. l\<lparr>context_edits := sat_add (context_edits l) 1\<rparr>) w) s t a"

section \<open>Paging in\<close>

definition parse_line_fragment :: "rstr \<Rightarrow> (nat \<times> nat) option" where
  "parse_line_fragment fragment =
     Option.bind (strip_prefix (lit ''L'') fragment) (\<lambda>line_range.
       Option.bind
         (case split_once 45 line_range of
            Some (i, j) \<Rightarrow> Option.bind (parse_usize i) (\<lambda>i. map_option (Pair i) (parse_usize j))
          | None \<Rightarrow> map_option (\<lambda>i. (i, i)) (parse_usize line_range))
         (\<lambda>(i, j). if 0 < i \<and> i \<le> j then Some (i, j) else None))"

text \<open>The reference to look up and the line window of its fragment; \<open>None\<close> when the fragment is not a window.\<close>

definition lookup_of :: "rstr \<Rightarrow> (rstr \<times> (nat \<times> nat) option) option" where
  "lookup_of ref_id =
     (case split_once 35 ref_id of
        Some (base, fragment) \<Rightarrow> map_option (\<lambda>window. (base, Some window)) (parse_line_fragment fragment)
      | None \<Rightarrow> Some (ref_id, None))"

fun list_min :: "nat list \<Rightarrow> nat option" where
  "list_min [] = None"
| "list_min (i # is) = Some (fold min is i)"

text \<open>The window a partial rehydration advertises, in lines of the file.\<close>

definition narrowed_anchor :: "SpanAnchor \<Rightarrow> nat option \<Rightarrow> nat option \<Rightarrow> rstr \<Rightarrow> SpanAnchor" where
  "narrowed_anchor a start stop t =
     (let relative_start = max (case start of None \<Rightarrow> 1 | Some i \<Rightarrow> i) 1;
          returned_lines = max (length (str_lines t)) 1;
          requested_end = (case stop of None \<Rightarrow> sat_add relative_start (returned_lines - 1) | Some j \<Rightarrow> j);
          relative_end = max requested_end relative_start
      in a\<lparr>anchor_start := sat_add (anchor_start a) (relative_start - 1),
           anchor_end := min (sat_add (anchor_start a) (relative_end - 1)) (anchor_end a)\<rparr>)"

text \<open>What a successful expansion does to the set: a partial one adds a span, a full one makes the span resident again.\<close>

definition page_in :: "WorkingSet \<Rightarrow> RecoveryStore \<Rightarrow> nat \<Rightarrow> SpanAnchor \<Rightarrow> bool \<Rightarrow> nat option \<Rightarrow> nat option \<Rightarrow> rstr \<Rightarrow>
     nat \<times> SpanAnchor \<times> WorkingSet \<times> RecoveryStore" where
  "page_in w s i a partial start stop t =
     (if partial then
        let narrowed = narrowed_anchor a start stop t;
            (k, w) = push_resident w t narrowed
        in (k, narrowed, w, s)
      else
        let n = sat_add (sequence w) 1;
            w = w\<lparr>sequence := n, spans := update_first (\<lambda>p. span_id p = i)
                    (\<lambda>p. p\<lparr>span_body := Resident t, last_touched := n\<rparr>) (spans w)\<rparr>;
            (w, s) = remove_evicted_ref w s i
        in (i, a, note_admission w, s))"

definition note_rehydration :: "nat \<Rightarrow> WorkingSet \<Rightarrow> WorkingSet" where
  "note_rehydration n w = refresh_rates (upd_tel (\<lambda>l. l\<lparr>rehydrations := sat_add (rehydrations l) 1,
     eviction_accounting := (eviction_accounting l)
       \<lparr>actual_rehydration_tokens := sat_add (actual_rehydration_tokens (eviction_accounting l)) n\<rparr>\<rparr>) w)"

definition finish_rehydration ::
    "io \<Rightarrow> quote_fn \<Rightarrow> WorkingSet \<Rightarrow> RecoveryStore \<Rightarrow> nat \<Rightarrow> SpanAnchor \<Rightarrow> bool \<Rightarrow> rstr \<Rightarrow> nat \<Rightarrow>
     ((WorkingSetError + Rehydration option) \<times> WorkingSet \<times> RecoveryStore) option" where
  "finish_rehydration E q w s k a partial canonical n =
     (let w = queue_prefetch_hints (note_rehydration n w) a k canonical
      in map_option (\<lambda>(es, w, s). (Ok (Some \<lparr>rh_id = k, rh_anchor = a, rh_partial = partial, rh_evicted = es\<rparr>), w, s))
           (enforce_budget E q w s))"

text \<open>A fault on an indexed span: the canonical reference is expanded with the fragment of the request.\<close>

definition serve_fault ::
    "io \<Rightarrow> quote_fn \<Rightarrow> nat \<Rightarrow> WorkingSet \<Rightarrow> RecoveryStore \<Rightarrow> rstr \<Rightarrow> nat \<Rightarrow> nat option \<Rightarrow> nat option \<Rightarrow>
     ((WorkingSetError + Rehydration option) \<times> WorkingSet \<times> RecoveryStore) option" where
  "serve_fault E q elapsed w s ref_id i start stop =
     (case find_span i w of
        None \<Rightarrow> None
      | Some p \<Rightarrow>
        (case span_body p of
           Resident t \<Rightarrow> None
         | Evicted canonical replacement \<Rightarrow>
           let partial = (start \<noteq> None \<or> stop \<noteq> None);
               expand_ref = (case split_once 35 ref_id of
                 Some (base, fragment) \<Rightarrow> canonical @ [35] @ fragment | None \<Rightarrow> canonical);
               (res, s) = expand E s expand_ref (Some (lit ''raw'')) start stop None None;
               w = refresh_rates (record_rehydration_latency elapsed w)
           in if \<not> found res then Some (Err (RehydrateFailed ref_id (reason res)), w, s)
              else let (k, a, w, s) = page_in w s i (span_anchor p) partial start stop (content res)
                   in finish_rehydration E q w s k a partial canonical (count_tokens (active_model E) (content res))))"

definition rehydrate_ref ::
    "io \<Rightarrow> quote_fn \<Rightarrow> nat \<Rightarrow> WorkingSet \<Rightarrow> RecoveryStore \<Rightarrow> rstr \<Rightarrow> nat option \<Rightarrow> nat option \<Rightarrow>
     ((WorkingSetError + Rehydration option) \<times> WorkingSet \<times> RecoveryStore) option" where
  "rehydrate_ref E q elapsed w s ref_id start stop =
     (let w = refresh_rates (upd_tel (\<lambda>l. l\<lparr>lookups := sat_add (lookups l) 1\<rparr>) w) in
      case lookup_of ref_id of
        None \<Rightarrow> Some (Ok None, w, s)
      | Some (lookup_ref, window) \<Rightarrow>
        (case Option.bind (bt_get (evicted_refs w) lookup_ref) list_min of
           None \<Rightarrow> Some (Ok None, w, s)
         | Some i \<Rightarrow>
             serve_fault E q elapsed (upd_tel (\<lambda>l. l\<lparr>faults := sat_add (faults l) 1\<rparr>) w) s ref_id i
               (case window of Some (i, j) \<Rightarrow> Some i | None \<Rightarrow> start)
               (case window of Some (i, j) \<Rightarrow> Some j | None \<Rightarrow> stop)))"

definition handle_fault_hook ::
    "io \<Rightarrow> quote_fn \<Rightarrow> nat \<Rightarrow> WorkingSet \<Rightarrow> RecoveryStore \<Rightarrow> rstr \<Rightarrow> nat option \<Rightarrow> nat option \<Rightarrow>
     ((WorkingSetError + Rehydration option) \<times> WorkingSet \<times> RecoveryStore) option" where
  "handle_fault_hook E q elapsed w s ref_id start stop =
     rehydrate_ref E q elapsed (upd_tel (\<lambda>l. l\<lparr>fault_hook_calls := sat_add (fault_hook_calls l) 1\<rparr>) w) s ref_id start stop"

end
