(* ===== verification/WorkingSetProps.thy ===== *)
theory WorkingSetProps
  imports WorkingSet
begin

text \<open>
  Properties of the working set: deltas integrate exactly, the index of evicted references is
  always consistent with the spans (so the panics of the paging code are unreachable), the
  budget is enforced down to the floor of the markers, and a span that was paged out comes
  back byte for byte.
\<close>

section \<open>Deltas\<close>

lemma concat_split_exact [simp]: "concat (split_exact_lines t) = t"
  by (simp add: split_exact_lines_def)

lemma split_exact_length: "length (split_exact_lines t) \<le> length t"
proof -
  have "length (split_inclusive t) \<le> length t" by (induction t rule: split_inclusive.induct) (auto split: list.splits)
  then show ?thesis by (simp add: split_exact_lines_def)
qed

lemma common_prefix:
  assumes "n = length (takeWhile (\<lambda>(l, r). l = r) (zip xs ys))"
  shows "take n xs = take n ys \<and> n \<le> length xs \<and> n \<le> length ys"
  using assms
proof (induction xs arbitrary: ys n)
  case (Cons x xs)
  then show ?case by (cases ys) auto
qed simp

lemma common_suffix:
  assumes "n = length (takeWhile (\<lambda>(l, r). l = r) (zip (rev xs) (rev ys)))"
  shows "drop (length xs - n) xs = drop (length ys - n) ys \<and> n \<le> length xs \<and> n \<le> length ys"
proof -
  have "take n (rev xs) = take n (rev ys)" "n \<le> length xs" "n \<le> length ys" using common_prefix [OF assms] by auto
  then show ?thesis by (metis rev_take rev_rev_ident length_rev)
qed

lemma splice_join:
  assumes "pre \<le> stop" "stop \<le> length xs"
  shows "take pre xs @ drop pre (take stop xs) @ drop stop xs = xs"
  using assms by (metis append_assoc append_take_drop_id min.absorb1 take_take)

section \<open>The index of evicted references\<close>

definition evicted_pairs :: "ResidentSpan list \<Rightarrow> (nat \<times> rstr) set" where
  "evicted_pairs xs = (\<Union>p\<in>set xs. case span_body p of Resident t \<Rightarrow> {} | Evicted r m \<Rightarrow> {(span_id p, r)})"

lemma evicted_pairs_simps [simp]:
  "evicted_pairs [] = {}" "evicted_pairs (xs @ ys) = evicted_pairs xs \<union> evicted_pairs ys"
  "evicted_pairs (p # xs) = (case span_body p of Resident t \<Rightarrow> {} | Evicted r m \<Rightarrow> {(span_id p, r)}) \<union> evicted_pairs xs"
  by (simp_all add: evicted_pairs_def)

definition index_ok :: "(rstr, nat list) btree \<Rightarrow> (nat \<times> rstr) set \<Rightarrow> bool" where
  "index_ok refs ev \<longleftrightarrow> bt_wf refs \<and> (\<forall>k. bt_get refs k \<noteq> Some []) \<and>
     (\<forall>k i. i \<in> set (ids_at refs k) \<longrightarrow> i \<in> fst ` ev) \<and> (\<forall>i r. (i, r) \<in> ev \<longrightarrow> i \<in> set (ids_at refs r))"

definition ws_inv :: "WorkingSet \<Rightarrow> bool" where
  "ws_inv w \<longleftrightarrow> distinct (map span_id (spans w)) \<and> (\<forall>p\<in>set (spans w). span_id p \<le> sequence w) \<and>
     sequence w \<le> u64_max \<and> index_ok (evicted_refs w) (evicted_pairs (spans w)) \<and>
     length (prefetch_hints w) \<le> MAX_QUEUED_PREFETCH_HINTS \<and> faults (telemetry w) \<le> lookups (telemetry w) \<and>
     lookups (telemetry w) \<le> u64_max"

lemma ids_at_insert: "ids_at (bt_insert k ids m) j = (if j = k then ids else ids_at m j)"
  by (simp add: ids_at_def bt_get_insert)

lemma index_insert:
  "index_ok refs ev \<Longrightarrow> index_ok (bt_insert r (ids_at refs r @ [i]) refs) (insert (i, r) ev)"
  by (auto simp: index_ok_def bt_wf_insert bt_get_insert ids_at_insert)

lemma index_link:
  assumes "index_ok refs ev" and "set known = set (ids_at refs al) \<union> set (ids_at refs src)" and "known \<noteq> []"
  shows "index_ok (bt_insert al known refs) ev"
  using assms by (auto simp: index_ok_def bt_wf_insert bt_get_insert ids_at_insert)

definition without_id :: "nat \<Rightarrow> (rstr, nat list) btree \<Rightarrow> (rstr, nat list) btree" where
  "without_id i refs = filter (\<lambda>(k, ids). ids \<noteq> []) (map (\<lambda>(k, ids). (k, filter (\<lambda>j. j \<noteq> i) ids)) refs)"

lemma ids_at_without: "distinct (bt_keys refs) \<Longrightarrow> ids_at (without_id i refs) k = filter (\<lambda>j. j \<noteq> i) (ids_at refs k)"
proof (induction refs)
  case (Cons e refs)
  have "k \<notin> set (bt_keys refs) \<Longrightarrow> bt_get (without_id i refs) k = None"
    by (force simp: bt_get_def bt_keys_def without_id_def map_of_eq_None_iff)
  moreover obtain k' ids where e: "e = (k', ids)" by fastforce
  moreover have "ids_at (without_id i ((k', ids) # refs)) k =
      (if k = k' \<and> filter (\<lambda>j. j \<noteq> i) ids \<noteq> [] then filter (\<lambda>j. j \<noteq> i) ids else ids_at (without_id i refs) k)"
    by (simp add: ids_at_def without_id_def bt_get_def)
  moreover have "ids_at ((k', ids) # refs) k = (if k = k' then ids else ids_at refs k)" by (simp add: ids_at_def bt_get_def)
  ultimately show ?case using Cons by (auto simp: bt_keys_def ids_at_def)
qed (simp add: without_id_def ids_at_def bt_get_def)

lemma without_wf:
  assumes "bt_wf refs"
  shows "bt_wf (without_id i refs)"
proof -
  have "bt_wf (map (\<lambda>(k, ids). (k, filter (\<lambda>j. j \<noteq> i) ids)) refs)"
    using assms by (simp add: bt_wf_def comp_def split_beta)
  then show ?thesis unfolding without_id_def by (rule bt_wf_filter)
qed

lemma without_nonempty: "bt_get (without_id i refs) k \<noteq> Some []"
  by (auto simp: bt_get_def without_id_def dest!: map_of_SomeD)

lemma index_remove:
  assumes "index_ok refs ev"
  shows "index_ok (without_id i refs) {(j, r) \<in> ev. j \<noteq> i}"
proof -
  have d: "distinct (bt_keys refs)" using assms by (simp add: index_ok_def bt_wf_distinct)
  have a: "j \<in> fst ` {(j, r) \<in> ev. j \<noteq> i}" if "j \<in> set (ids_at (without_id i refs) k)" for j k
  proof -
    have "j \<in> set (ids_at refs k)" "j \<noteq> i" using that ids_at_without [OF d, of i k] by auto
    then obtain r where "(j, r) \<in> ev" using assms by (fastforce simp: index_ok_def)
    then show ?thesis using \<open>j \<noteq> i\<close> by force
  qed
  have "bt_wf (without_id i refs)" using assms by (simp add: index_ok_def without_wf)
  moreover have "j \<in> set (ids_at (without_id i refs) r)" if "(j, r) \<in> ev" "j \<noteq> i" for j r
    using that assms ids_at_without [OF d, of i r] by (simp add: index_ok_def)
  ultimately show ?thesis using a without_nonempty by (auto simp: index_ok_def)
qed

lemma remove_evicted_frame:
  assumes "remove_evicted_ref w s i = (w', s')"
  shows "w' = w\<lparr>evicted_refs := without_id i (evicted_refs w)\<rparr>"
  using assms by (auto simp: remove_evicted_ref_def without_id_def Let_def)

section \<open>Changing one span\<close>

lemma split_at:
  assumes "v < length xs"
  obtains a p b where "xs = a @ p # b" "v = length a"
  using assms id_take_nth_drop [of v xs] by (metis length_take less_imp_le_nat min.absorb2)

lemma pairs_evict:
  assumes "v < length xs" and "is_resident (xs ! v)" and "span_body y = Evicted r m" and "span_id y = span_id (xs ! v)"
  shows "evicted_pairs (xs[v := y]) = insert (span_id y, r) (evicted_pairs xs)"
    and "map span_id (xs[v := y]) = map span_id xs"
proof -
  obtain a p b where x: "xs = a @ p # b" "v = length a" using split_at [OF assms(1)] .
  show "evicted_pairs (xs[v := y]) = insert (span_id y, r) (evicted_pairs xs)"
    using assms(2,3) by (auto simp: x is_resident_def split: SpanBody.splits)
  show "map span_id (xs[v := y]) = map span_id xs" using assms(4) by (simp add: x)
qed

lemma first_min_in: "first_min lt xs = Some x \<Longrightarrow> x \<in> set xs"
proof (cases xs)
  case (Cons y ys)
  have "fold (\<lambda>y m. if lt y m then y else m) zs m \<in> insert m (set zs)" for zs and m :: 'a
  proof (induction zs arbitrary: m)
    case (Cons z zs)
    from Cons.IH [of "if lt z m then z else m"] show ?case by (auto split: if_splits)
  qed simp
  then show "first_min lt xs = Some x \<Longrightarrow> ?thesis" using Cons by auto
qed simp

lemma first_min_None: "first_min lt xs = None \<longleftrightarrow> xs = []"
  by (cases xs) auto

lemma in_map_filter: "y \<in> set (List.map_filter f xs) \<longleftrightarrow> (\<exists>x\<in>set xs. f x = Some y)"
  by (force simp: List.map_filter_def)

text \<open>A span above the floor of its marker.\<close>

definition shrinkable :: "io \<Rightarrow> quote_fn \<Rightarrow> ResidentSpan \<Rightarrow> bool" where
  "shrinkable E q p \<longleftrightarrow> is_resident p \<and> marker_floor E q p < visible_tokens (active_model E) p"

lemma victim_candidate_iff:
  "(\<exists>y. victim_candidate E q (v, p) = Some y) \<longleftrightarrow> shrinkable E q p"
  by (auto simp: victim_candidate_def shrinkable_def is_resident_def visible_tokens_def visible_text_def Let_def
      split: SpanBody.split)

lemma choose_victim_Some:
  assumes "choose_victim E q w = Some v"
  shows "v < length (spans w) \<and> shrinkable E q (spans w ! v)"
proof -
  obtain y where y: "first_min victim_less (List.map_filter (victim_candidate E q) (enumerate 0 (spans w))) = Some y" "v = fst y"
    using assms by (auto simp: choose_victim_def)
  from first_min_in [OF y(1)] obtain i p where p: "(i, p) \<in> set (enumerate 0 (spans w))" "victim_candidate E q (i, p) = Some y"
    by (auto simp: in_map_filter)
  then have "i = v" using y(2) by (auto simp: victim_candidate_def Let_def split: SpanBody.splits if_splits)
  moreover have "i < length (spans w)" "p = spans w ! i" using p(1) by (auto simp: in_set_enumerate_eq)
  ultimately show ?thesis using p(2) victim_candidate_iff by blast
qed

lemma choose_victim_None:
  assumes "choose_victim E q w = None" and "p \<in> set (spans w)"
  shows "\<not> shrinkable E q p"
proof -
  obtain i where "i < length (spans w)" "p = spans w ! i" using assms(2) by (auto simp: in_set_conv_nth)
  then have "(i, p) \<in> set (enumerate 0 (spans w))" by (simp add: in_set_enumerate_eq)
  moreover have "List.map_filter (victim_candidate E q) (enumerate 0 (spans w)) = []"
    using assms(1) by (simp add: choose_victim_def first_min_None)
  ultimately have "victim_candidate E q (i, p) = None"
    using in_map_filter [of _ "victim_candidate E q" "enumerate 0 (spans w)"] by (cases "victim_candidate E q (i, p)") auto
  then show ?thesis using victim_candidate_iff [of E q i p] by simp
qed

lemma page_out_total:
  assumes "v < length (spans w)" and "is_resident (spans w ! v)"
  shows "\<exists>r. page_out_at E q w s v = Some r"
  using assms by (auto simp: page_out_at_def is_resident_def Let_def split_beta split: SpanBody.splits)

lemma page_out_inv:
  assumes "page_out_at E q w s v = Some (e, w', s')" and "ws_inv w"
  shows "ws_inv w'"
proof (rule page_out_Some [OF assms(1)])
  fix bytes r
  assume v: "v < length (spans w)" "span_body (spans w ! v) = Resident bytes"
    and w': "spans w' = (spans w)[v := (spans w ! v)\<lparr>span_body := Evicted r (format_ref_line q r (span_anchor (spans w ! v)))\<rparr>]"
      "evicted_refs w' = bt_insert r (ids_at (evicted_refs w) r @ [span_id (spans w ! v)]) (evicted_refs w)"
      "sequence w' = sequence w" "prefetch_hints w' = prefetch_hints w"
      "lookups (telemetry w') = lookups (telemetry w)" "faults (telemetry w') = faults (telemetry w)"
  let ?y = "(spans w ! v)\<lparr>span_body := Evicted r (format_ref_line q r (span_anchor (spans w ! v)))\<rparr>"
  have y: "is_resident (spans w ! v)" "span_body ?y = Evicted r (format_ref_line q r (span_anchor (spans w ! v)))"
    "span_id ?y = span_id (spans w ! v)"
    using v by (simp_all add: is_resident_def)
  note P = pairs_evict [OF v(1) y]
  have "span_id ` set (spans w') = span_id ` set (spans w)" using P(2) by (metis w'(1) set_map)
  then have "\<forall>p\<in>set (spans w'). span_id p \<le> sequence w'"
    using assms(2) by (metis (no_types, lifting) image_iff w'(3) ws_inv_def)
  then show ?thesis using assms(2) P index_insert [of "evicted_refs w" _ r] by (simp add: ws_inv_def w')
qed

section \<open>Enforcing the budget\<close>

text \<open>What paging out does to one span.\<close>

definition paged :: "io \<Rightarrow> ResidentSpan \<Rightarrow> ResidentSpan \<Rightarrow> bool" where
  "paged E p p' \<longleftrightarrow> span_id p' = span_id p \<and> span_anchor p' = span_anchor p \<and> last_touched p' = last_touched p \<and>
     (span_body p' = span_body p \<or> (\<exists>t m. span_body p = Resident t \<and> span_body p' = Evicted (blob_ref_of (sha256_hex E t)) m))"

lemma paged_refl [simp]: "paged E p p" by (simp add: paged_def)

lemma paged_trans: "paged E p p' \<Longrightarrow> paged E p' p'' \<Longrightarrow> paged E p p''"
  unfolding paged_def by (cases "span_body p = span_body p'") (force, metis SpanBody.distinct(1))

lemma paged_list_trans:
  "list_all2 (paged E) xs ys \<Longrightarrow> list_all2 (paged E) ys zs \<Longrightarrow> list_all2 (paged E) xs zs"
  using paged_trans by (fastforce simp: list_all2_conv_all_nth)

lemma store_blob_blob_ref: "fst (store_blob E s t ct) = blob_ref_of (sha256_hex E t)"
  by (simp add: store_blob_def put_blob_def register_blob_def Let_def split_beta blob_ref_of_def)

lemma page_out_paged:
  assumes "page_out_at E q w s v = Some (e, w', s')"
  shows "list_all2 (paged E) (spans w) (spans w') \<and> budget_tokens w' = budget_tokens w \<and> sequence w' = sequence w"
proof (rule page_out_Some [OF assms])
  fix bytes r
  assume "v < length (spans w)" "span_body (spans w ! v) = Resident bytes" "store_blob E s bytes Unknown = (r, s')"
    "spans w' = (spans w)[v := (spans w ! v)\<lparr>span_body := Evicted r (format_ref_line q r (span_anchor (spans w ! v)))\<rparr>]"
    "budget_tokens w' = budget_tokens w" "sequence w' = sequence w"
  then show ?thesis using store_blob_blob_ref [of E s bytes Unknown]
    by (auto simp: list_all2_conv_all_nth nth_list_update paged_def)
qed

text \<open>Enforcement never panics, keeps the invariant, pages spans out only, and ends within the budget or with nothing left to shrink.\<close>

lemma enforce_budget_total:
  "\<exists>es w' s'. enforce_budget E q w s = Some (es, w', s') \<and> (ws_inv w \<longrightarrow> ws_inv w') \<and>
     list_all2 (paged E) (spans w) (spans w') \<and> budget_tokens w' = budget_tokens w \<and> sequence w' = sequence w \<and>
     (used_tokens (active_model E) w' \<le> budget_tokens w' \<or> (\<forall>p\<in>set (spans w'). \<not> shrinkable E q p))"
proof (induction E q w s rule: enforce_budget.induct)
  case (1 E q w s)
  show ?case
  proof (cases "used_tokens (active_model E) w \<le> budget_tokens w")
    case True
    then show ?thesis unfolding enforce_budget.simps [of E q w s] by (simp add: list_all2_refl)
  next
    case over: False
    show ?thesis
    proof (cases "choose_victim E q w")
      case None
      then show ?thesis unfolding enforce_budget.simps [of E q w s] using over choose_victim_None [OF None]
        by (simp add: list_all2_refl)
    next
      case (Some v)
      from choose_victim_Some [OF Some] obtain e w1 s1 where p: "page_out_at E q w s v = Some (e, w1, s1)"
        using page_out_total unfolding shrinkable_def by (metis prod_cases3)
      from "1" [OF over Some p refl refl] obtain es w' s' where IH: "enforce_budget E q w1 s1 = Some (es, w', s')"
        "ws_inv w1 \<longrightarrow> ws_inv w'" "list_all2 (paged E) (spans w1) (spans w')" "budget_tokens w' = budget_tokens w1"
        "sequence w' = sequence w1"
        "used_tokens (active_model E) w' \<le> budget_tokens w' \<or> (\<forall>p\<in>set (spans w'). \<not> shrinkable E q p)" by blast
      have "enforce_budget E q w s = Some (e # es, w', s')"
        unfolding enforce_budget.simps [of E q w s] using over Some p IH(1) by simp
      moreover have "list_all2 (paged E) (spans w) (spans w')"
        using paged_list_trans IH(3) page_out_paged [OF p] by blast
      moreover have "ws_inv w \<longrightarrow> ws_inv w'" using IH(2) page_out_inv [OF p] by blast
      moreover have "budget_tokens w' = budget_tokens w" "sequence w' = sequence w" using IH(4,5) page_out_paged [OF p] by simp_all
      ultimately show ?thesis using IH(6) by blast
    qed
  qed
qed

section \<open>Every operation keeps the invariant\<close>

lemma ws_inv_change:
  assumes "ws_inv w" and "map span_id (spans w') = map span_id (spans w)" and "evicted_pairs (spans w') = evicted_pairs (spans w)"
    and "evicted_refs w' = evicted_refs w" and "sequence w \<le> sequence w'" and "sequence w' \<le> u64_max" and "prefetch_hints w' = prefetch_hints w"
    and "faults (telemetry w') \<le> lookups (telemetry w')" and "lookups (telemetry w') \<le> u64_max"
  shows "ws_inv w'"
proof -
  have "span_id ` set (spans w') = span_id ` set (spans w)" using assms(2) by (metis set_map)
  then have "\<forall>p\<in>set (spans w'). span_id p \<le> sequence w'"
    using assms(1,5) unfolding ws_inv_def by (metis (no_types, lifting) image_iff order_trans)
  then show ?thesis using assms by (simp add: ws_inv_def)
qed

lemma touch_pairs:
  "evicted_pairs (update_first P (\<lambda>p. p\<lparr>last_touched := n\<rparr>) xs) = evicted_pairs xs"
  "map span_id (update_first P (\<lambda>p. p\<lparr>last_touched := n\<rparr>) xs) = map span_id xs"
  by (induction xs) (auto split: SpanBody.splits)

lemma update_pairs:
  assumes "v < length xs" and "span_id y = span_id (xs ! v)" and "is_resident (xs ! v)" and "is_resident y"
  shows "evicted_pairs (xs[v := y]) = evicted_pairs xs" "map span_id (xs[v := y]) = map span_id xs"
proof -
  obtain a p b where x: "xs = a @ p # b" "v = length a" using split_at [OF assms(1)] .
  show "evicted_pairs (xs[v := y]) = evicted_pairs xs"
    using assms(3,4) by (auto simp: x is_resident_def split: SpanBody.splits)
  show "map span_id (xs[v := y]) = map span_id xs" using assms(2) by (simp add: x)
qed

lemma sat_succ: "n < u64_max \<Longrightarrow> sat_add n (Suc 0) = Suc n"
  by (simp add: sat_add_def)

lemma note_admission_frame [simp]:
  "spans (note_admission w) = spans w" "evicted_refs (note_admission w) = evicted_refs w" "sequence (note_admission w) = sequence w"
  "prefetch_hints (note_admission w) = prefetch_hints w" "budget_tokens (note_admission w) = budget_tokens w"
  "lookups (telemetry (note_admission w)) = lookups (telemetry w)" "faults (telemetry (note_admission w)) = faults (telemetry w)"
  by (simp_all add: note_admission_def)

lemma push_inv:
  assumes "ws_inv w" and "sequence w < u64_max" and "push_resident w t a = (i, w')"
  shows "ws_inv w'" "spans w' = spans w @ [\<lparr>span_id = i, last_touched = i, span_anchor = a, span_body = Resident t\<rparr>]"
    "i = Suc (sequence w)" "sequence w' = i" "budget_tokens w' = budget_tokens w" "prefetch_hook w' = prefetch_hook w"
proof -
  show i: "i = Suc (sequence w)" "sequence w' = i" "budget_tokens w' = budget_tokens w" "prefetch_hook w' = prefetch_hook w"
    and sp: "spans w' = spans w @ [\<lparr>span_id = i, last_touched = i, span_anchor = a, span_body = Resident t\<rparr>]"
    using assms(2,3) by (auto simp: push_resident_def Let_def sat_succ note_admission_def)
  have "evicted_refs w' = evicted_refs w" "prefetch_hints w' = prefetch_hints w" "faults (telemetry w') \<le> lookups (telemetry w')"
    "lookups (telemetry w') \<le> u64_max"
    using assms(1,3) by (auto simp: push_resident_def Let_def ws_inv_def)
  moreover have "Suc (sequence w) \<notin> span_id ` set (spans w)" using assms(1) by (auto simp: ws_inv_def)
  ultimately show "ws_inv w'" using assms(1,2) i sp by (auto simp: ws_inv_def)
qed

lemma touch_inv:
  assumes "ws_inv w"
  shows "ws_inv (snd (touch w i))"
proof (cases "find_span i w = None")
  case False
  have "sequence w \<le> sat_add (sequence w) 1" "faults (telemetry w) \<le> lookups (telemetry w)"
    "lookups (telemetry w) \<le> u64_max" "sequence w \<le> u64_max"
    using assms by (simp_all add: sat_add_def ws_inv_def)
  then show ?thesis using False
    by (intro ws_inv_change [OF assms]) (auto simp: touch_def Let_def touch_pairs sat_add_le)
qed (use assms in \<open>simp add: touch_def\<close>)

lemma find_index_Some: "find_index P xs = Some v \<Longrightarrow> v < length xs \<and> P (xs ! v)"
  by (induction xs arbitrary: v) (auto split: if_splits)

lemma evict_span_total:
  "\<exists>e w' s'. evict_span E q w s i = Some (e, w', s') \<and> (ws_inv w \<longrightarrow> ws_inv w')"
proof (cases "find_index (\<lambda>p. span_id p = i \<and> is_resident p) (spans w)")
  case (Some v)
  with find_index_Some [OF Some] obtain e w' s' where p: "page_out_at E q w s v = Some (e, w', s')"
    using page_out_total by (metis prod_cases3)
  then show ?thesis using Some page_out_inv [OF p] by (simp add: evict_span_def)
qed (simp add: evict_span_def)

lemma link_known:
  "set (foldl (\<lambda>known i. if i \<in> set known then known else known @ [i]) known ids) = set known \<union> set ids"
  by (induction ids arbitrary: known) auto

lemma link_inv:
  assumes "ws_inv w" and "link_refs E w s src al = (b, w', s')"
  shows "ws_inv w'"
proof (cases "w' = w")
  case False
  then obtain ids where ids: "bt_get (evicted_refs w) src = Some ids" "ids \<noteq> []"
    and w': "w' = w\<lparr>evicted_refs := bt_insert al (foldl (\<lambda>known i. if i \<in> set known then known else known @ [i])
        (ids_at (evicted_refs w) al) ids) (evicted_refs w)\<rparr>"
    using assms(2) by (auto simp: link_refs_def Let_def split: if_splits option.splits sum.splits)
  have "set (ids_at (evicted_refs w) src) = set ids" using ids by (simp add: ids_at_def)
  then have "index_ok (evicted_refs w') (evicted_pairs (spans w))"
    using assms(1) ids(2) unfolding w'
    by (simp add: ws_inv_def) (rule index_link [where src = src], auto simp: link_known simp flip: set_empty)
  then show ?thesis using assms(1) by (simp add: ws_inv_def w')
qed (use assms(1) in simp)

lemma ws_inv_telemetry:
  assumes "ws_inv w" and "faults (f (telemetry w)) \<le> lookups (f (telemetry w))" and "lookups (f (telemetry w)) \<le> u64_max"
  shows "ws_inv (upd_tel f w)"
  using assms by (simp add: ws_inv_def)

lemma ws_inv_counters:
  "ws_inv w \<Longrightarrow> faults (telemetry w) \<le> lookups (telemetry w)" "ws_inv w \<Longrightarrow> lookups (telemetry w) \<le> u64_max"
  by (simp_all add: ws_inv_def)

lemma touch_at_inv:
  assumes "ws_inv w" and "v < length (spans w)"
  shows "ws_inv (touch_at v w)"
proof -
  have "map span_id ((spans w)[v := (spans w ! v)\<lparr>last_touched := n\<rparr>]) = map span_id (spans w)"
    "evicted_pairs ((spans w)[v := (spans w ! v)\<lparr>last_touched := n\<rparr>]) = evicted_pairs (spans w)" for n
  proof -
    obtain a p b where x: "spans w = a @ p # b" "v = length a" using split_at [OF assms(2)] .
    show "map span_id ((spans w)[v := (spans w ! v)\<lparr>last_touched := n\<rparr>]) = map span_id (spans w)"
      "evicted_pairs ((spans w)[v := (spans w ! v)\<lparr>last_touched := n\<rparr>]) = evicted_pairs (spans w)"
      by (simp_all add: x split: SpanBody.split)
  qed
  moreover have "sequence w \<le> sat_add (sequence w) 1" using assms(1) by (simp add: sat_add_def ws_inv_def)
  ultimately show ?thesis using ws_inv_counters [OF assms(1)]
    by (intro ws_inv_change [OF assms(1)]) (simp_all add: touch_at_def Let_def sat_add_le)
qed

lemma pairs_without_id:
  assumes "distinct (map span_id (a @ p # b))"
  shows "{(j, r) \<in> evicted_pairs (a @ p # b). j \<noteq> span_id p} = evicted_pairs (a @ b)"
proof -
  have "fst ` evicted_pairs xs \<subseteq> span_id ` set xs" for xs
    by (auto simp: evicted_pairs_def image_iff split: SpanBody.splits)
  from this [of a] this [of b] have "span_id p \<notin> fst ` evicted_pairs a" "span_id p \<notin> fst ` evicted_pairs b"
    using assms by auto
  then show ?thesis by (cases "span_body p") (auto simp: image_iff)
qed

lemma drop_stale_inv:
  assumes "ws_inv w" and "v < length (spans w)" and "drop_stale w s v = (w', s')"
  shows "ws_inv w'" "sequence w' = sequence w" "budget_tokens w' = budget_tokens w"
proof -
  obtain a p b where x: "spans w = a @ p # b" "v = length a" using split_at [OF assms(2)] .
  let ?w = "w\<lparr>spans := a @ b\<rparr>"
  have d: "distinct (map span_id (a @ p # b))" using assms(1) x(1) by (simp add: ws_inv_def)
  have w': "w' = (if is_resident p then ?w else ?w\<lparr>evicted_refs := without_id (span_id p) (evicted_refs w)\<rparr>)"
    using assms(3) remove_evicted_frame [of ?w s "span_id p" w' s'] by (auto simp: drop_stale_def Let_def x split: if_splits)
  have old: "index_ok (evicted_refs w) (evicted_pairs (a @ p # b))" using assms(1) x(1) by (simp add: ws_inv_def)
  have "index_ok (evicted_refs w') (evicted_pairs (a @ b))"
  proof (cases "is_resident p")
    case True
    then have "evicted_pairs (a @ b) = evicted_pairs (a @ p # b)" by (auto simp: is_resident_def split: SpanBody.splits)
    then show ?thesis using old True by (simp add: w')
  next
    case False
    then show ?thesis using index_remove [OF old, of "span_id p"] unfolding pairs_without_id [OF d] by (simp add: w')
  qed
  then show "ws_inv w'" using assms(1) d by (auto simp: w' ws_inv_def x(1))
  show "sequence w' = sequence w" "budget_tokens w' = budget_tokens w" by (simp_all add: w')
qed

text \<open>A set within its budget, or with nothing left that a marker could shrink.\<close>

definition settled :: "io \<Rightarrow> quote_fn \<Rightarrow> WorkingSet \<Rightarrow> bool" where
  "settled E q w \<longleftrightarrow> used_tokens (active_model E) w \<le> budget_tokens w \<or> (\<forall>p\<in>set (spans w). \<not> shrinkable E q p)"

text \<open>The set shows a text at an anchor, or a marker whose reference names it.\<close>

definition serves :: "io \<Rightarrow> WorkingSet \<Rightarrow> nat \<Rightarrow> SpanAnchor \<Rightarrow> rstr \<Rightarrow> bool" where
  "serves E w i a t \<longleftrightarrow> (\<exists>p\<in>set (spans w). span_id p = i \<and> anchor_eq (span_anchor p) a \<and>
     (span_body p = Resident t \<or> (\<exists>m. span_body p = Evicted (blob_ref_of (sha256_hex E t)) m)))"

lemma anchor_eq_refl [simp]: "anchor_eq a a"
  by (simp add: anchor_eq_def path_eq_def)

lemma enforce_serves:
  assumes "list_all2 (paged E) (spans w) (spans w')" and "serves E w i a t"
  shows "serves E w' i a t"
proof -
  obtain p where p: "p \<in> set (spans w)" "span_id p = i" "anchor_eq (span_anchor p) a"
    "span_body p = Resident t \<or> (\<exists>m. span_body p = Evicted (blob_ref_of (sha256_hex E t)) m)"
    using assms(2) by (auto simp: serves_def)
  then obtain p' where "p' \<in> set (spans w')" "paged E p p'"
    using assms(1) by (metis in_set_conv_nth list_all2_conv_all_nth)
  then show ?thesis using p unfolding serves_def by (intro bexI [of _ p']) (auto simp: paged_def)
qed

lemma enforce_ok:
  assumes "ws_inv w"
  obtains es w' s' where "enforce_budget E q w s = Some (es, w', s')" "ws_inv w'" "settled E q w'"
    "list_all2 (paged E) (spans w) (spans w')" "budget_tokens w' = budget_tokens w" "sequence w' = sequence w"
  using assms enforce_budget_total [of E q w s] unfolding settled_def by blast

text \<open>What a successful admission guarantees.\<close>

definition admitted :: "io \<Rightarrow> quote_fn \<Rightarrow> WorkingSet \<Rightarrow> rstr \<Rightarrow> SpanAnchor \<Rightarrow> Admission \<Rightarrow> WorkingSet \<Rightarrow> bool" where
  "admitted E q w t a adm w' \<longleftrightarrow> serves E w' (adm_id adm) a t \<and> budget_tokens w' = budget_tokens w \<and>
     (case adm_response adm of
        Full \<Rightarrow> settled E q w'
      | AlreadyResident \<Rightarrow> spans w \<noteq> [] \<and> visible_lines w' = visible_lines w
      | Delta ack d \<Rightarrow> settled E q w' \<and> count_tokens (active_model E) ack < count_tokens (active_model E) t \<and>
          (\<exists>p previous. p \<in> set (spans w) \<and> span_id p = adm_id adm \<and> span_body p = Resident previous \<and>
             d = delta_between previous t \<and> ack = acknowledgement d))"

lemma admit_full_ok:
  assumes "ws_inv w" and "sequence w < u64_max"
  shows "\<exists>adm w' s'. admit_full E q w s t a = Some (Ok adm, w', s') \<and> ws_inv w' \<and> adm_response adm = Full \<and>
    settled E q w' \<and> serves E w' (adm_id adm) a t \<and> budget_tokens w' = budget_tokens w"
proof -
  obtain i w1 where p: "push_resident w t a = (i, w1)" by fastforce
  note P = push_inv [OF assms p]
  obtain es w' s' where e: "enforce_budget E q w1 s = Some (es, w', s')" "ws_inv w'" "settled E q w'"
    "list_all2 (paged E) (spans w1) (spans w')" "budget_tokens w' = budget_tokens w1"
    using enforce_ok [OF P(1)] by metis
  have "serves E w1 i a t" by (simp add: serves_def P(2))
  from enforce_serves [OF e(4) this] show ?thesis using e P(5) by (simp add: admit_full_def p)
qed

lemma admit_stale_ok:
  assumes "ws_inv w" and "sequence w < u64_max" and "v < length (spans w)"
  shows "\<exists>adm w' s'. (let (w, s) = drop_stale w s v in admit_full E q w s t a) = Some (Ok adm, w', s') \<and> ws_inv w' \<and>
    admitted E q w t a adm w'"
proof -
  obtain w1 s1 where d: "drop_stale w s v = (w1, s1)" by fastforce
  note D = drop_stale_inv [OF assms(1,3) d]
  obtain adm w' s' where "admit_full E q w1 s1 t a = Some (Ok adm, w', s')" "ws_inv w'" "adm_response adm = Full"
    "settled E q w'" "serves E w' (adm_id adm) a t" "budget_tokens w' = budget_tokens w1"
    using admit_full_ok [OF D(1)] D(2) assms(2) by metis
  then show ?thesis using D(3) d by (simp add: admitted_def)
qed

lemma touch_at_spans:
  assumes "v < length (spans w)"
  shows "length (spans (touch_at v w)) = length (spans w)" "span_id (spans (touch_at v w) ! v) = span_id (spans w ! v)"
    "span_body (spans (touch_at v w) ! v) = span_body (spans w ! v)"
    "span_anchor (spans (touch_at v w) ! v) = span_anchor (spans w ! v)" "visible_lines (touch_at v w) = visible_lines w"
    "budget_tokens (touch_at v w) = budget_tokens w"
proof -
  obtain a p b where "spans w = a @ p # b" "v = length a" using split_at [OF assms] .
  then show "visible_lines (touch_at v w) = visible_lines w"
    by (simp add: visible_lines_def touch_at_def Let_def visible_text_def)
qed (use assms in \<open>simp_all add: touch_at_def Let_def\<close>)

lemma admit_hit_ok:
  assumes "ws_inv w" and "v < length (spans w)" and "span_body (spans w ! v) = Resident t" and "anchor_eq (span_anchor (spans w ! v)) a"
    and "w' = upd_tel (\<lambda>l. l\<lparr>resident_hits := h, dedup_tokens_saved := d\<rparr>) (touch_at v w)"
    and "adm = \<lparr>adm_id = span_id (spans w' ! v), adm_replacement = None, adm_evicted = [], adm_response = AlreadyResident\<rparr>"
  shows "ws_inv w' \<and> admitted E q w t a adm w'"
proof -
  note T = touch_at_spans [OF assms(2)]
  have "ws_inv w'" unfolding assms(5)
    using touch_at_inv [OF assms(1,2)] by (rule ws_inv_telemetry) (use touch_at_inv [OF assms(1,2)] in \<open>simp_all add: ws_inv_def\<close>)
  moreover have "spans (touch_at v w) ! v \<in> set (spans (touch_at v w))" using T(1) assms(2) by simp
  then have "serves E w' (adm_id adm) a t" unfolding serves_def using T(3,4) assms(3,4)
    by (intro bexI [of _ "spans (touch_at v w) ! v"]) (simp_all add: assms(5,6))
  moreover have "spans w \<noteq> []" using assms(2) by auto
  ultimately show ?thesis using T(5,6) by (simp add: admitted_def assms(5,6) visible_lines_def)
qed

lemma admit_delta_ok:
  assumes "ws_inv w" and "v < length (spans w)" and "span_body (spans w ! v) = Resident previous" and "anchor_eq (span_anchor (spans w ! v)) a"
    and "d = delta_between previous t" and "ack = acknowledgement d" and "count_tokens (active_model E) ack < count_tokens (active_model E) t"
    and "w1 = touch_at v w"
    and "w2 = upd_tel (\<lambda>l. l\<lparr>delta_renders := h, dedup_tokens_saved := n\<rparr>) (w1\<lparr>spans := (spans w1)[v := (spans w1 ! v)\<lparr>span_body := Resident t\<rparr>]\<rparr>)"
    and "adm = (\<lambda>es. \<lparr>adm_id = span_id (spans w ! v), adm_replacement = None, adm_evicted = es, adm_response = Delta ack d\<rparr>)"
  shows "\<exists>es w' s'. enforce_budget E q w2 s = Some (es, w', s') \<and> ws_inv w' \<and> admitted E q w t a (adm es) w'"
proof -
  note T = touch_at_spans [OF assms(2)]
  let ?p = "(spans w1 ! v)\<lparr>span_body := Resident t\<rparr>"
  have w1: "ws_inv w1" "v < length (spans w1)" using touch_at_inv [OF assms(1,2)] T(1) assms(2) by (simp_all add: assms(8))
  have "is_resident (spans w1 ! v)" "is_resident ?p" using T(3) assms(3) by (simp_all add: assms(8) is_resident_def)
  note U = update_pairs [OF w1(2) _ this]
  have "ws_inv w2" using w1(1) ws_inv_counters [OF w1(1)] U
    by (intro ws_inv_change [OF w1(1)]) (simp_all add: assms(9), simp add: ws_inv_def)
  then obtain es w' s' where e: "enforce_budget E q w2 s = Some (es, w', s')" "ws_inv w'" "settled E q w'"
    "list_all2 (paged E) (spans w2) (spans w')" "budget_tokens w' = budget_tokens w2"
    using enforce_ok by metis
  have "?p \<in> set (spans w2)" using w1(2) by (simp add: assms(9) set_update_memI)
  then have "serves E w2 (span_id (spans w ! v)) a t" unfolding serves_def using T(2,4) assms(4)
    by (intro bexI [of _ ?p]) (simp_all add: assms(8))
  from enforce_serves [OF e(4) this] have "serves E w' (span_id (spans w ! v)) a t" .
  moreover have "spans w ! v \<in> set (spans w)" using assms(2) by simp
  ultimately have "admitted E q w t a (adm es) w'" unfolding admitted_def
    using e(3,5) assms(3,5,6,7) T(6) by (auto simp: assms(8,9,10))
  then show ?thesis using e by blast
qed

lemma admit_ok:
  assumes "ws_inv w" and "sequence w < u64_max"
  shows "\<exists>res w' s'. admit E q w s t a = Some (res, w', s') \<and> ws_inv w' \<and>
    (case res of
       Inl e \<Rightarrow> e = InvalidSpanWindow (anchor_start a) (anchor_end a) \<and> (anchor_start a = 0 \<or> anchor_end a < anchor_start a) \<and> w' = w \<and> s' = s
     | Inr adm \<Rightarrow> 0 < anchor_start a \<and> anchor_start a \<le> anchor_end a \<and> admitted E q w t a adm w')"
proof (cases "anchor_start a = 0 \<or> anchor_end a < anchor_start a")
  case False
  show ?thesis
  proof (cases "find_index (\<lambda>p. anchor_eq (span_anchor p) a) (spans w)")
    case None
    obtain adm w' s' where "admit_full E q w s t a = Some (Ok adm, w', s')" "ws_inv w'" "admitted E q w t a adm w'"
      using admit_full_ok [OF assms, of E q s t a] by (auto simp: admitted_def)
    then show ?thesis using False None by (simp add: admit_def)
  next
    case (Some v)
    note v = find_index_Some [OF Some]
    from v admit_stale_ok [OF assms, of v s E q t a] have stale:
      "\<exists>adm w' s'. (let (w, s) = drop_stale w s v in admit_full E q w s t a) = Some (Ok adm, w', s') \<and> ws_inv w' \<and> admitted E q w t a adm w'"
      by blast
    show ?thesis
    proof (cases "span_body (spans w ! v)")
      case (Resident previous)
      consider "previous = t" | "previous \<noteq> t" "count_tokens (active_model E) (acknowledgement (delta_between previous t)) < count_tokens (active_model E) t"
        | "previous \<noteq> t" "\<not> count_tokens (active_model E) (acknowledgement (delta_between previous t)) < count_tokens (active_model E) t" by blast
      then show ?thesis
      proof cases
        case 1
        with Resident have "span_body (spans w ! v) = Resident t" by simp
        from admit_hit_ok [OF assms(1) _ this _ refl refl, of a] show ?thesis
          using False Some Resident 1 v by (simp add: admit_def Let_def)
      next
        case 2
        from admit_delta_ok [OF assms(1) _ Resident _ refl refl 2(2) refl refl refl, where a = a and q = q and s = s] v
        obtain es w' s' where e: "enforce_budget E q (upd_tel (\<lambda>l. l
              \<lparr>delta_renders := sat_add (delta_renders (telemetry (touch_at v w))) 1,
               dedup_tokens_saved := sat_add (dedup_tokens_saved (telemetry (touch_at v w))) (count_tokens (active_model E) t -
                 count_tokens (active_model E) (acknowledgement (delta_between previous t)))\<rparr>)
              ((touch_at v w)\<lparr>spans := (spans (touch_at v w))[v := (spans (touch_at v w) ! v)\<lparr>span_body := Resident t\<rparr>]\<rparr>)) s
            = Some (es, w', s')" and inv: "ws_inv w'" "admitted E q w t a \<lparr>adm_id = span_id (spans w ! v), adm_replacement = None, adm_evicted = es,
              adm_response = Delta (acknowledgement (delta_between previous t)) (delta_between previous t)\<rparr> w'" by blast
        have "admit E q w s t a = Some (Ok \<lparr>adm_id = span_id (spans w ! v), adm_replacement = None, adm_evicted = es,
            adm_response = Delta (acknowledgement (delta_between previous t)) (delta_between previous t)\<rparr>, w', s')"
          using False Some Resident 2 e by (simp add: admit_def Let_def)
        then show ?thesis using inv False by simp
      next
        case 3
        then have "admit E q w s t a = (let (w, s) = drop_stale w s v in admit_full E q w s t a)"
          using False Some Resident by (simp add: admit_def Let_def)
        then show ?thesis using stale False by auto
      qed
    next
      case (Evicted r m)
      then have "admit E q w s t a = (let (w, s) = drop_stale w s v in admit_full E q w s t a)"
        using False Some by (simp add: admit_def Let_def)
      then show ?thesis using stale False by auto
    qed
  qed
qed (use assms in \<open>simp add: admit_def\<close>)

section \<open>Paging in\<close>

lemma update_first_ids:
  assumes "\<And>p. span_id (f p) = span_id p"
  shows "map span_id (update_first P f xs) = map span_id xs"
  by (induction xs) (simp_all add: assms)

lemma update_first_pairs:
  assumes "distinct (map span_id xs)" and "\<And>p. is_resident (f p)"
  shows "evicted_pairs (update_first (\<lambda>p. span_id p = i) f xs) = {(j, r) \<in> evicted_pairs xs. j \<noteq> i}"
  using assms(1)
proof (induction xs)
  case (Cons p xs)
  have f: "evicted_pairs (f p # xs) = evicted_pairs xs" for xs
    using assms(2) [of p] by (auto simp: is_resident_def split: SpanBody.splits)
  show ?case
  proof (cases "span_id p = i")
    case True
    then show ?thesis using f [of xs] pairs_without_id [of "[]" p xs] Cons.prems by auto
  next
    case False
    then show ?thesis using Cons by (cases "span_body p") auto
  qed
qed simp

lemma list_min_in: "list_min is = Some i \<Longrightarrow> i \<in> set is"
proof (cases "is")
  case (Cons j js)
  have "fold min ks m \<in> insert m (set ks)" for ks and m :: nat
  proof (induction ks arbitrary: m)
    case (Cons k ks)
    from Cons.IH [of "min k m"] show ?case by (auto simp: min_def split: if_splits)
  qed simp
  then show "list_min is = Some i \<Longrightarrow> ?thesis" using Cons by auto
qed simp

lemma indexed_span:
  assumes "ws_inv w" and "Option.bind (bt_get (evicted_refs w) r) list_min = Some i"
  shows "\<exists>p c m. find_span i w = Some p \<and> p \<in> set (spans w) \<and> span_id p = i \<and> span_body p = Evicted c m"
proof -
  obtain ids where "bt_get (evicted_refs w) r = Some ids" "i \<in> set ids"
    using assms(2) list_min_in by (auto simp: bind_eq_Some_conv)
  then have "i \<in> set (ids_at (evicted_refs w) r)" by (simp add: ids_at_def)
  then have "i \<in> fst ` evicted_pairs (spans w)" using assms(1) by (simp add: ws_inv_def index_ok_def)
  then obtain p c m where p: "p \<in> set (spans w)" "span_id p = i" "span_body p = Evicted c m"
    by (auto simp: evicted_pairs_def split: SpanBody.splits)
  then obtain p' where f: "find_span i w = Some p'" unfolding find_span_def by (cases "find (\<lambda>p. span_id p = i) (spans w)") (auto simp: find_None_iff)
  then have "p' \<in> set (spans w)" "span_id p' = i" by (auto simp: find_span_def find_Some_iff)
  then have "p' = p" using assms(1) p by (auto simp: ws_inv_def distinct_map dest: inj_onD)
  then show ?thesis using f p by auto
qed

lemma page_in_inv:
  assumes "ws_inv w" and "sequence w < u64_max" and "page_in w s i a partial start stop t = (k, b, w', s')"
  shows "ws_inv w'"
proof (cases partial)
  case True
  then have "push_resident w t (narrowed_anchor a start stop t) = (k, w')"
    using assms(3) by (cases "push_resident w t (narrowed_anchor a start stop t)") (auto simp: page_in_def Let_def)
  then show ?thesis by (rule push_inv(1) [OF assms(1,2)])
next
  case False
  let ?n = "sat_add (sequence w) 1"
  let ?f = "\<lambda>p. p\<lparr>span_body := Resident t, last_touched := ?n\<rparr>"
  let ?w = "w\<lparr>sequence := ?n, spans := update_first (\<lambda>p. span_id p = i) ?f (spans w)\<rparr>"
  obtain w1 s1 where r: "remove_evicted_ref ?w s i = (w1, s1)" by fastforce
  then have w': "w' = note_admission (?w\<lparr>evicted_refs := without_id i (evicted_refs w)\<rparr>)"
    using assms(3) False remove_evicted_frame [OF r] by (auto simp: page_in_def Let_def)
  have d: "distinct (map span_id (spans w))" using assms(1) by (simp add: ws_inv_def)
  have U: "evicted_pairs (update_first (\<lambda>p. span_id p = i) ?f (spans w)) = {(j, r) \<in> evicted_pairs (spans w). j \<noteq> i}"
    "map span_id (update_first (\<lambda>p. span_id p = i) ?f (spans w)) = map span_id (spans w)"
    using update_first_pairs [OF d, of ?f] update_first_ids [of ?f] by (simp_all add: is_resident_def)
  have "index_ok (evicted_refs w') (evicted_pairs (spans w'))"
    using index_remove [of "evicted_refs w" "evicted_pairs (spans w)" i] assms(1) U(1) by (simp add: w' ws_inv_def)
  moreover have "span_id ` set (spans w') = span_id ` set (spans w)" using U(2) by (simp add: w' flip: set_map)
  then have "\<forall>p\<in>set (spans w'). span_id p \<le> Suc (sequence w)"
    using assms(1) by (metis (no_types, lifting) image_iff le_SucI ws_inv_def)
  ultimately show ?thesis using assms(1,2) d U(2) by (simp add: w' ws_inv_def sat_succ)
qed

lemma queue_inv: "ws_inv w \<Longrightarrow> ws_inv (queue_prefetch_hints w a k r)"
  by (simp add: ws_inv_def queue_prefetch_hints_def Let_def)

lemma note_rehydration_inv: "ws_inv w \<Longrightarrow> ws_inv (note_rehydration n w)"
  by (simp add: ws_inv_def note_rehydration_def)

lemma serve_fault_ok:
  assumes "ws_inv w" and "sequence w < u64_max" and "find_span i w = Some p" and "span_body p = Evicted c m"
  shows "\<exists>res w' s'. serve_fault E q elapsed w s ref_id i start stop = Some (res, w', s') \<and> ws_inv w' \<and>
    (case res of
       Inl e \<Rightarrow> (\<exists>why. e = RehydrateFailed ref_id why) \<and> spans w' = spans w \<and> evicted_refs w' = evicted_refs w
     | Inr None \<Rightarrow> False
     | Inr (Some rh) \<Rightarrow> settled E q w')"
proof -
  obtain res s1 where x: "expand E s (case split_once 35 ref_id of Some (base, fragment) \<Rightarrow> c @ [35] @ fragment | None \<Rightarrow> c)
      (Some (lit ''raw'')) start stop None None = (res, s1)" by fastforce
  define w2 where "w2 = refresh_rates (record_rehydration_latency elapsed w)"
  have w2: "ws_inv w2" "spans w2 = spans w" "evicted_refs w2 = evicted_refs w" "sequence w2 = sequence w"
    using assms(1) by (simp_all add: w2_def ws_inv_def record_rehydration_latency_def Let_def)
  show ?thesis
  proof (cases "found res")
    case False
    then have "serve_fault E q elapsed w s ref_id i start stop = Some (Err (RehydrateFailed ref_id (reason res)), w2, s1)"
      unfolding serve_fault_def Let_def w2_def [symmetric] using assms(3,4) x by simp
    then show ?thesis using w2 by simp
  next
    case True
    obtain k a w3 s2 where pi: "page_in w2 s1 i (span_anchor p) (start \<noteq> None \<or> stop \<noteq> None) start stop (content res) = (k, a, w3, s2)"
      by (metis prod_cases4)
    have "ws_inv w3" using page_in_inv [OF w2(1) _ pi] w2(4) assms(2) by simp
    then have "ws_inv (queue_prefetch_hints (note_rehydration (count_tokens (active_model E) (content res)) w3) a k c)"
      by (intro queue_inv note_rehydration_inv)
    then obtain es w' s' where "enforce_budget E q (queue_prefetch_hints (note_rehydration
        (count_tokens (active_model E) (content res)) w3) a k c) s2 = Some (es, w', s')" "ws_inv w'" "settled E q w'"
      using enforce_ok by metis
    moreover from this have "serve_fault E q elapsed w s ref_id i start stop = Some (Ok (Some \<lparr>rh_id = k, rh_anchor = a,
        rh_partial = (start \<noteq> None \<or> stop \<noteq> None), rh_evicted = es\<rparr>), w', s')"
      unfolding serve_fault_def Let_def w2_def [symmetric] using assms(3,4) x True pi by (simp add: finish_rehydration_def)
    ultimately show ?thesis by simp
  qed
qed

lemma rehydrate_counters:
  assumes "ws_inv w" and "w0 = refresh_rates (upd_tel (\<lambda>l. l\<lparr>lookups := sat_add (lookups l) 1\<rparr>) w)"
    and "w1 = upd_tel (\<lambda>l. l\<lparr>faults := sat_add (faults l) 1\<rparr>) w0"
  shows "ws_inv w0" "spans w0 = spans w" "evicted_refs w0 = evicted_refs w"
    "ws_inv w1" "spans w1 = spans w" "evicted_refs w1 = evicted_refs w" "sequence w1 = sequence w"
proof -
  have c: "faults (telemetry w) \<le> sat_add (lookups (telemetry w)) 1" "sat_add (faults (telemetry w)) 1 \<le> sat_add (lookups (telemetry w)) 1"
    using ws_inv_counters [OF assms(1)] by (simp_all add: sat_add_def)
  then show "ws_inv w0" "spans w0 = spans w" "evicted_refs w0 = evicted_refs w"
    "ws_inv w1" "spans w1 = spans w" "evicted_refs w1 = evicted_refs w" "sequence w1 = sequence w"
    using assms(1) by (simp_all add: assms(2,3) ws_inv_def sat_add_le)
qed

lemma rehydrate_ok:
  assumes "ws_inv w" and "sequence w < u64_max"
  shows "\<exists>res w' s'. rehydrate_ref E q elapsed w s ref_id start stop = Some (res, w', s') \<and> ws_inv w' \<and>
    (case res of
       Inl e \<Rightarrow> (\<exists>why. e = RehydrateFailed ref_id why) \<and> spans w' = spans w \<and> evicted_refs w' = evicted_refs w
     | Inr None \<Rightarrow> spans w' = spans w \<and> evicted_refs w' = evicted_refs w \<and> s' = s
     | Inr (Some rh) \<Rightarrow> settled E q w')"
proof -
  define w0 where "w0 = refresh_rates (upd_tel (\<lambda>l. l\<lparr>lookups := sat_add (lookups l) 1\<rparr>) w)"
  define w1 where "w1 = upd_tel (\<lambda>l. l\<lparr>faults := sat_add (faults l) 1\<rparr>) w0"
  note W = rehydrate_counters [OF assms(1) w0_def w1_def]
  note unf = rehydrate_ref_def Let_def w0_def [symmetric] w1_def [symmetric]
  show ?thesis
  proof (cases "Option.bind (lookup_of ref_id) (\<lambda>(r, window). Option.bind (bt_get (evicted_refs w) r) list_min)")
    case None
    then have "rehydrate_ref E q elapsed w s ref_id start stop = Some (Ok None, w0, s)"
      unfolding unf W(3) by (cases "lookup_of ref_id") auto
    then show ?thesis using W by simp
  next
    case (Some i)
    then obtain r window where lw: "lookup_of ref_id = Some (r, window)" "Option.bind (bt_get (evicted_refs w) r) list_min = Some i"
      by (cases "lookup_of ref_id") auto
    obtain p c m where p: "find_span i w1 = Some p" "span_body p = Evicted c m"
      using indexed_span [OF W(4), of r i] lw(2) W(6) by auto
    define i1 where "i1 = (case window of Some (i, j) \<Rightarrow> Some i | None \<Rightarrow> start)"
    define j1 where "j1 = (case window of Some (i, j) \<Rightarrow> Some j | None \<Rightarrow> stop)"
    have r: "rehydrate_ref E q elapsed w s ref_id start stop = serve_fault E q elapsed w1 s ref_id i i1 j1"
      unfolding unf W(3) i1_def j1_def using lw by simp
    have "sequence w1 < u64_max" using assms(2) W(7) by simp
    from serve_fault_ok [OF W(4) this p, of E q elapsed s ref_id i1 j1] show ?thesis unfolding r W(5,6)
      by (elim exE conjE) (rule exI, rule exI, rule exI, intro conjI, assumption, assumption, auto split: sum.splits option.splits)
  qed
qed

section \<open>Runs\<close>

inductive ws_run :: "io \<Rightarrow> quote_fn \<Rightarrow> WorkingSet \<Rightarrow> bool" for E q where
  start: "ws_run E q (new_working_set n)"
| hook: "ws_run E q w \<Longrightarrow> ws_run E q (register_prefetch_hook w h)"
| neighbor: "ws_run E q w \<Longrightarrow> ws_run E q (enable_same_file_neighbor_prefetch w b)"
| hints: "ws_run E q w \<Longrightarrow> take_prefetch_hints w = (hs, w') \<Longrightarrow> ws_run E q w'"
| touch: "ws_run E q w \<Longrightarrow> touch w i = (b, w') \<Longrightarrow> ws_run E q w'"
| evict: "ws_run E q w \<Longrightarrow> evict_span E q w s i = Some (e, w', s') \<Longrightarrow> ws_run E q w'"
| link: "ws_run E q w \<Longrightarrow> link_refs E w s src al = (b, w', s') \<Longrightarrow> ws_run E q w'"
| admit: "ws_run E q w \<Longrightarrow> sequence w < u64_max \<Longrightarrow> admit E q w s t a = Some (r, w', s') \<Longrightarrow> ws_run E q w'"
| rewrite: "ws_run E q w \<Longrightarrow> sequence w < u64_max \<Longrightarrow> rewrite_render E q w s t a = Some (r, w', s') \<Longrightarrow> ws_run E q w'"
| edit: "ws_run E q w \<Longrightarrow> sequence w < u64_max \<Longrightarrow> apply_context_edit E q w s t a = Some (r, w', s') \<Longrightarrow> ws_run E q w'"
| rehydrate: "ws_run E q w \<Longrightarrow> sequence w < u64_max \<Longrightarrow>
    rehydrate_ref E q elapsed w s ref_id i j = Some (o1, w', s') \<Longrightarrow> ws_run E q w'"
| fault: "ws_run E q w \<Longrightarrow> sequence w < u64_max \<Longrightarrow>
    handle_fault_hook E q elapsed w s ref_id i j = Some (o1, w', s') \<Longrightarrow> ws_run E q w'"

lemma ws_inv_upd:
  assumes "ws_inv w" and "faults (f (telemetry w)) = faults (telemetry w)" and "lookups (f (telemetry w)) = lookups (telemetry w)"
  shows "ws_inv (upd_tel f w)"
  using assms by (simp add: ws_inv_def)

lemma new_working_set_inv: "ws_inv (new_working_set n)"
  by (simp add: ws_inv_def new_working_set_def index_ok_def ids_at_def bt_get_def default_telemetry_def u64_max_def)

lemma ws_run_inv: "ws_run E q w \<Longrightarrow> ws_inv w"
proof (induction rule: ws_run.induct)
  case (start n)
  show ?case by (rule new_working_set_inv)
next
  case (touch w i b w')
  then show ?case using touch_inv [of w i] by simp
next
  case (evict w s i e w' s')
  then show ?case using evict_span_total [of E q w s i] by auto
next
  case (link w s src al b w' s')
  then show ?case using link_inv by blast
next
  case (admit w s t a r w' s')
  then show ?case using admit_ok [of w E q s t a] by auto
next
  case (rewrite w s t a r w' s')
  then show ?case using admit_ok [OF ws_inv_upd [OF rewrite.IH, of "\<lambda>l. l\<lparr>render_rewrites := sat_add (render_rewrites l) 1\<rparr>"], of E q s t a]
    by (auto simp: rewrite_render_def)
next
  case (edit w s t a r w' s')
  then show ?case using admit_ok [OF ws_inv_upd [OF edit.IH, of "\<lambda>l. l\<lparr>context_edits := sat_add (context_edits l) 1\<rparr>"], of E q s t a]
    by (auto simp: apply_context_edit_def)
next
  case (rehydrate w elapsed s ref_id i j o1 w' s')
  then show ?case using rehydrate_ok [of w E q elapsed s ref_id i j] by auto
next
  case (fault w elapsed s ref_id i j o1 w' s')
  then show ?case using rehydrate_ok [OF ws_inv_upd [OF fault.IH, of "\<lambda>l. l\<lparr>fault_hook_calls := sat_add (fault_hook_calls l) 1\<rparr>"],
      of E q elapsed s ref_id i j] by (auto simp: handle_fault_hook_def)
qed (auto simp: ws_inv_def register_prefetch_hook_def enable_same_file_neighbor_prefetch_def take_prefetch_hints_def)

section \<open>A paged-out text comes back\<close>

lemma update_first_mem: "find P xs = Some p \<Longrightarrow> f p \<in> set (update_first P f xs)"
  by (induction xs) (auto split: if_splits)

lemma serve_fault_exact:
  assumes "ws_inv w" and "sequence w < u64_max" and "find_span i w = Some p" and "span_body p = Evicted c m"
    and "blob_held E s c t" and "35 \<notin> set ref_id"
  shows "\<exists>es w' s'. serve_fault E q elapsed w s ref_id i None None =
      Some (Ok (Some \<lparr>rh_id = i, rh_anchor = span_anchor p, rh_partial = False, rh_evicted = es\<rparr>), w', s') \<and>
    serves E w' i (span_anchor p) t"
proof -
  obtain res s1 where x: "expand E s c (Some (lit ''raw'')) None None None None = (res, s1)" by fastforce
  have res: "found res" "content res = t"
    using raw_held [OF assms(5)] by (auto simp: expand_raw_def x split: if_splits)
  define w2 where "w2 = refresh_rates (record_rehydration_latency elapsed w)"
  have w2: "ws_inv w2" "spans w2 = spans w" "sequence w2 = sequence w"
    using assms(1) by (simp_all add: w2_def ws_inv_def record_rehydration_latency_def Let_def)
  obtain k a w3 s2 where pi: "page_in w2 s1 i (span_anchor p) False None None t = (k, a, w3, s2)" by (metis prod_cases4)
  have "k = i" "a = span_anchor p" and w3: "spans w3 = update_first (\<lambda>p. span_id p = i)
      (\<lambda>p. p\<lparr>span_body := Resident t, last_touched := sat_add (sequence w) 1\<rparr>) (spans w)"
    using pi w2(2,3) by (simp_all add: page_in_def Let_def split_beta remove_evicted_ref_def) auto
  have p: "find (\<lambda>p. span_id p = i) (spans w) = Some p" "span_id p = i"
    using assms(3) by (auto simp: find_span_def find_Some_iff)
  have w3_inv: "ws_inv w3" using page_in_inv [OF w2(1) _ pi] w2(3) assms(2) by simp
  let ?w4 = "queue_prefetch_hints (note_rehydration (count_tokens (active_model E) t) w3) (span_anchor p) i c"
  have "spans ?w4 = spans w3" by (simp add: queue_prefetch_hints_def note_rehydration_def Let_def)
  then have "serves E ?w4 i (span_anchor p) t"
    using update_first_mem [OF p(1), of "\<lambda>p. p\<lparr>span_body := Resident t, last_touched := sat_add (sequence w) 1\<rparr>"] p(2)
    unfolding serves_def by (intro bexI [of _ "p\<lparr>span_body := Resident t, last_touched := sat_add (sequence w) 1\<rparr>"]) (simp_all add: w3)
  moreover obtain es w' s' where e: "enforce_budget E q ?w4 s2 = Some (es, w', s')" "list_all2 (paged E) (spans ?w4) (spans w')"
    using enforce_ok [OF queue_inv [OF note_rehydration_inv [OF w3_inv]]] by metis
  ultimately have "serves E w' i (span_anchor p) t" using enforce_serves by blast
  moreover have "serve_fault E q elapsed w s ref_id i None None =
      Some (Ok (Some \<lparr>rh_id = i, rh_anchor = span_anchor p, rh_partial = False, rh_evicted = es\<rparr>), w', s')"
    unfolding serve_fault_def Let_def w2_def [symmetric]
    using assms(3,4,6) x res pi \<open>k = i\<close> \<open>a = span_anchor p\<close> e(1) by (simp add: finish_rehydration_def split_once_absent)
  ultimately show ?thesis by blast
qed

lemma rehydrate_exact:
  assumes "ws_inv w" and "sequence w < u64_max" and "35 \<notin> set ref_id" and "ids_at (evicted_refs w) ref_id = [i]"
    and "find_span i w = Some p" and "span_body p = Evicted c m" and "blob_held E s c t"
  shows "\<exists>es w' s'. rehydrate_ref E q elapsed w s ref_id None None =
      Some (Ok (Some \<lparr>rh_id = i, rh_anchor = span_anchor p, rh_partial = False, rh_evicted = es\<rparr>), w', s') \<and>
    serves E w' i (span_anchor p) t"
proof -
  define w0 where "w0 = refresh_rates (upd_tel (\<lambda>l. l\<lparr>lookups := sat_add (lookups l) 1\<rparr>) w)"
  define w1 where "w1 = upd_tel (\<lambda>l. l\<lparr>faults := sat_add (faults l) 1\<rparr>) w0"
  note W = rehydrate_counters [OF assms(1) w0_def w1_def]
  have "bt_get (evicted_refs w) ref_id = Some [i]" using assms(4) by (auto simp: ids_at_def split: option.splits)
  moreover have "lookup_of ref_id = Some (ref_id, None)" using assms(3) by (simp add: lookup_of_def split_once_absent)
  ultimately have "rehydrate_ref E q elapsed w s ref_id None None = serve_fault E q elapsed w1 s ref_id i None None"
    unfolding rehydrate_ref_def Let_def w0_def [symmetric] w1_def [symmetric] W(3) by simp
  moreover have "find_span i w1 = Some p" using assms(5) W(5) by (simp add: find_span_def)
  ultimately show ?thesis using serve_fault_exact [OF W(4) _ _ assms(6,7,3)] assms(2) W(7) by simp
qed

text \<open>A put that fits the limits of the store survives its own commit.\<close>

lemma evict_fits_limits: "within_limits E s \<Longrightarrow> within_limits E (evict E s)"
proof -
  assume a: "within_limits E s"
  have "evict_prefixes (config s) (state s) = state s"
    using a by (simp add: evict_prefixes_def within_limits_def evict_prefix_fits)
  moreover have "evict_bytes E (max_bytes (config s)) (state s) = state s"
    using a by (subst evict_bytes.simps) (simp add: within_limits_def)
  ultimately show ?thesis using a by (simp add: evict_def Let_def within_limits_def compact_order_facts)
qed

lemma store_blob_held:
  assumes "blob_storable E s t" and "within_limits E (snd (put_blob E s t ct))" and "store_blob E s t ct = (r, s')"
  shows "blob_held E s' r t"
proof -
  let ?s = "snd (put_blob E s t ct)"
  have h: "blob_held E ?s (fst (put_blob E s t ct)) t" using rs.put_holds [OF assms(1), of ct] by (simp add: store_blob_deferred_def)
  have r: "r = fst (put_blob E s t ct)" "s' = persist E (evict E ?s)"
    using assms(3) by (auto simp: store_blob_def split_beta persist_evicted_def Let_def)
  have "blob_held E (evict E ?s) r t"
    using h evict_fits [OF assms(2)] evict_order_frame [of E ?s] unfolding r(1) blob_held_def plain_store_def by metis
  then show ?thesis unfolding r(2) using evict_fits_limits [OF assms(2)] by (intro persist_fits) simp_all
qed

lemma find_index_exists: "\<exists>x\<in>set xs. P x \<Longrightarrow> \<exists>v. find_index P xs = Some v"
  by (induction xs) auto

lemma evict_span_Some:
  assumes "ws_inv w" and "p \<in> set (spans w)" and "span_body p = Resident t"
  obtains v e w' s' where "evict_span E q w s (span_id p) = Some (Some e, w', s')" "page_out_at E q w s v = Some (e, w', s')"
    "v < length (spans w)" "spans w ! v = p"
proof -
  let ?P = "\<lambda>p'. span_id p' = span_id p \<and> is_resident p'"
  have "\<exists>p'\<in>set (spans w). ?P p'" using assms(2,3) by (intro bexI [of _ p]) (simp_all add: is_resident_def)
  from find_index_exists [OF this] obtain v where v: "find_index ?P (spans w) = Some v" ..
  note f = find_index_Some [OF v]
  moreover have "inj_on span_id (set (spans w))" using assms(1) by (simp add: ws_inv_def distinct_map)
  ultimately have "spans w ! v = p" using assms(2) by (simp add: inj_on_def)
  moreover obtain e w' s' where p: "page_out_at E q w s v = Some (e, w', s')" using page_out_total f by (metis prod_cases3)
  ultimately show thesis using that [of e w' s' v] f v by (simp add: evict_span_def)
qed

section \<open>Properties\<close>

text \<open>C19: Integrating the delta between two texts into the old one gives the new one, byte for byte, with
  or without a final newline; the acknowledgement a client sees therefore determines the text.\<close>

theorem delta_roundtrip:
  assumes "length old \<le> u64_max"
  shows "integrate_delta old (delta_between old new) = Some new"
proof -
  define xs where "xs = split_exact_lines old"
  define ys where "ys = split_exact_lines new"
  define pre where "pre = length (takeWhile (\<lambda>(l, r). l = r) (zip xs ys))"
  define suf where "suf = length (takeWhile (\<lambda>(l, r). l = r) (zip (rev (drop pre xs)) (rev (drop pre ys))))"
  note P = common_prefix [OF pre_def] and S = common_suffix [OF suf_def]
  have le: "pre \<le> length xs - suf" "pre \<le> length ys - suf" using P S by auto
  have d: "delta_between old new = \<lparr>delta_start = pre + 1, delta_removed = drop pre (take (length xs - suf) xs),
      delta_inserted = drop pre (take (length ys - suf) ys)\<rparr>"
    by (simp add: delta_between_def Let_def flip: xs_def ys_def pre_def suf_def)
  have len: "length (drop pre (take (length xs - suf) xs)) = length xs - suf - pre" by simp
  have "length xs \<le> u64_max" using split_exact_length [of old] assms by (simp add: xs_def)
  moreover have "drop (length xs - suf) xs = drop (length ys - suf) ys"
  proof -
    have "length xs - suf = pre + (length xs - pre - suf)" "length ys - suf = pre + (length ys - pre - suf)" using le P S by auto
    then show ?thesis using S by (metis drop_drop add.commute length_drop)
  qed
  then have "take pre xs @ drop pre (take (length ys - suf) ys) @ drop (length xs - suf) xs = ys"
    using P splice_join [OF le(2), of ys] by simp
  then have "concat (take pre xs @ drop pre (take (length ys - suf) ys) @ drop (length xs - suf) xs) = new" by (simp add: ys_def)
  moreover have "pre + (length xs - (suf + pre)) = length xs - suf" using le by simp
  ultimately show ?thesis
    by (simp add: integrate_delta_def d checked_sub_def checked_add_def flip: xs_def)
qed

theorem delta_roundtrip_witness:
  "integrate_delta (lit ''ab'') (delta_between (lit ''ab'') (lit ''cd'')) = Some (lit ''cd'')"
  using delta_roundtrip [of "lit ''ab''" "lit ''cd''"] by (simp add: lit_def u64_max_def)

text \<open>No operation on a working set panics: the \<open>expect\<close>, \<open>panic!\<close> and \<open>unreachable!\<close> of the paging code
  cannot be reached from a new set, whatever the sequence of operations and whatever happens to
  the store in between, as long as the 64-bit sequence counter has not saturated.\<close>

theorem working_set_never_panics:
  assumes "ws_run E q w" and "sequence w < u64_max"
  shows "admit E q w s t a \<noteq> None \<and> evict_span E q w s i \<noteq> None \<and>
    rehydrate_ref E q elapsed w s ref_id start stop \<noteq> None"
  using admit_ok [OF ws_run_inv [OF assms(1)] assms(2), of E q s t a] evict_span_total [of E q w s i]
    rehydrate_ok [OF ws_run_inv [OF assms(1)] assms(2), of E q elapsed s ref_id start stop] by auto

theorem working_set_never_panics_witness:
  "admit sample_io id (new_working_set 10) (with_config default_config) (lit ''abc'')
     \<lparr>anchor_path = lit ''f'', anchor_symbol = None, anchor_start = 1, anchor_end = 1\<rparr> \<noteq> None"
  using working_set_never_panics [OF ws_run.start, of 10] by (simp add: new_working_set_def u64_max_def)

text \<open>C18: The index of evicted references is exact in every run: each evicted span is listed under the
  reference of its marker, each listed identifier is an evicted span, identifiers are unique,
  the queue of prefetch hints stays within its bound, and there are never more faults than
  lookups.\<close>

theorem working_set_invariant:
  assumes "ws_run E q w"
  shows "distinct (map span_id (spans w)) \<and>
    (\<forall>p\<in>set (spans w). \<forall>r m. span_body p = Evicted r m \<longrightarrow> span_id p \<in> set (ids_at (evicted_refs w) r)) \<and>
    (\<forall>r. \<forall>i\<in>set (ids_at (evicted_refs w) r). \<exists>p\<in>set (spans w). span_id p = i \<and> \<not> is_resident p) \<and>
    length (prefetch_hints w) \<le> MAX_QUEUED_PREFETCH_HINTS \<and> faults (telemetry w) \<le> lookups (telemetry w)"
proof -
  have w: "ws_inv w" by (rule ws_run_inv [OF assms])
  then have ix: "index_ok (evicted_refs w) (evicted_pairs (spans w))" by (simp add: ws_inv_def)
  have "span_id p \<in> set (ids_at (evicted_refs w) r)" if "p \<in> set (spans w)" "span_body p = Evicted r m" for p r m
  proof -
    have "(span_id p, r) \<in> evicted_pairs (spans w)" using that by (force simp: evicted_pairs_def)
    then show ?thesis using ix by (simp add: index_ok_def)
  qed
  moreover have "\<exists>p\<in>set (spans w). span_id p = i \<and> \<not> is_resident p" if "i \<in> set (ids_at (evicted_refs w) r)" for i r
  proof -
    have "i \<in> fst ` evicted_pairs (spans w)" using ix that by (simp add: index_ok_def)
    then show ?thesis by (force simp: evicted_pairs_def is_resident_def split: SpanBody.splits)
  qed
  ultimately show ?thesis using w by (simp add: ws_inv_def)
qed

theorem working_set_invariant_witness:
  "length (prefetch_hints (new_working_set 10)) \<le> MAX_QUEUED_PREFETCH_HINTS"
  using working_set_invariant [OF ws_run.start] by blast

text \<open>What an admission guarantees in every run: an invalid line window is refused and changes nothing;
  otherwise the set serves the admitted text at its anchor, inline or behind the reference of
  its hash. Unless the text was resident already, in which case nothing visible changes, the
  set then fits its budget or holds no span that a marker could shrink. A delta is answered
  only when it costs less than the text, and it is the delta from the text shown before.\<close>

theorem admit_serves:
  assumes "ws_run E q w" and "sequence w < u64_max"
  shows "\<exists>res w' s'. admit E q w s t a = Some (res, w', s') \<and>
    (case res of
       Inl e \<Rightarrow> e = InvalidSpanWindow (anchor_start a) (anchor_end a) \<and> (anchor_start a = 0 \<or> anchor_end a < anchor_start a) \<and> w' = w \<and> s' = s
     | Inr adm \<Rightarrow> 0 < anchor_start a \<and> anchor_start a \<le> anchor_end a \<and> admitted E q w t a adm w')"
  using admit_ok [OF ws_run_inv [OF assms(1)] assms(2), of E q s t a] by blast

theorem admit_serves_witness:
  "\<exists>adm w' s'. admit sample_io id (new_working_set 10) (with_config default_config) (lit ''abc'')
     \<lparr>anchor_path = lit ''f'', anchor_symbol = None, anchor_start = 1, anchor_end = 1\<rparr> = Some (Ok adm, w', s') \<and>
     serves sample_io w' (adm_id adm) \<lparr>anchor_path = lit ''f'', anchor_symbol = None, anchor_start = 1, anchor_end = 1\<rparr> (lit ''abc'')"
proof -
  let ?a = "\<lparr>anchor_path = lit ''f'', anchor_symbol = None, anchor_start = 1, anchor_end = 1\<rparr>"
  have "sequence (new_working_set 10) < u64_max" by (simp add: new_working_set_def u64_max_def)
  from admit_serves [OF ws_run.start this, of sample_io id "with_config default_config" "lit ''abc''" ?a]
  show ?thesis
  proof (elim exE conjE)
    fix res w' s'
    assume "admit sample_io id (new_working_set 10) (with_config default_config) (lit ''abc'') ?a = Some (res, w', s')"
      "case res of
         Inl e \<Rightarrow> e = InvalidSpanWindow (anchor_start ?a) (anchor_end ?a) \<and> (anchor_start ?a = 0 \<or> anchor_end ?a < anchor_start ?a) \<and>
           w' = new_working_set 10 \<and> s' = with_config default_config
       | Inr adm \<Rightarrow> 0 < anchor_start ?a \<and> anchor_start ?a \<le> anchor_end ?a \<and> admitted sample_io id (new_working_set 10) (lit ''abc'') ?a adm w'"
    then show ?thesis by (cases res) (auto simp: admitted_def)
  qed
qed

text \<open>C17: Paging out and in is the identity on the text: when a resident span is evicted, its text can be
  stored and fits the store, and no other span is listed under the same reference, then a
  fault on the returned reference restores that span with exactly its text, inline or, if the
  budget sends it straight out again, behind the reference of the same text.\<close>

theorem evict_rehydrate_roundtrip:
  assumes "ws_run E q w" and "sequence w < u64_max" and "p \<in> set (spans w)" and "span_body p = Resident t"
    and "blob_storable E s t" and "within_limits E (snd (put_blob E s t Unknown))"
    and "ids_at (evicted_refs w) (blob_ref_of (sha256_hex E t)) = []"
  shows "\<exists>e w1 s1 es w2 s2. evict_span E q w s (span_id p) = Some (Some e, w1, s1) \<and>
    rehydrate_ref E q elapsed w1 s1 (ev_ref e) None None =
      Some (Ok (Some \<lparr>rh_id = span_id p, rh_anchor = span_anchor p, rh_partial = False, rh_evicted = es\<rparr>), w2, s2) \<and>
    serves E w2 (span_id p) (span_anchor p) t"
proof -
  have w: "ws_inv w" by (rule ws_run_inv [OF assms(1)])
  obtain v e w1 s1 where ev: "evict_span E q w s (span_id p) = Some (Some e, w1, s1)" "page_out_at E q w s v = Some (e, w1, s1)"
    and v: "v < length (spans w)" "spans w ! v = p" using evict_span_Some [OF w assms(3,4)] .
  have w1: "ws_inv w1" by (rule page_out_inv [OF ev(2) w])
  show ?thesis
  proof (rule page_out_Some [OF ev(2)])
    fix bytes r
    assume b: "span_body (spans w ! v) = Resident bytes" and st: "store_blob E s bytes Unknown = (r, s1)" "ev_ref e = r"
      and sp: "spans w1 = (spans w)[v := (spans w ! v)\<lparr>span_body := Evicted r (format_ref_line q r (span_anchor (spans w ! v)))\<rparr>]"
      and ix: "evicted_refs w1 = bt_insert r (ids_at (evicted_refs w) r @ [span_id (spans w ! v)]) (evicted_refs w)"
      and sq: "sequence w1 = sequence w"
    have t: "bytes = t" using b v(2) assms(4) by simp
    have held: "blob_held E s1 r t" using store_blob_held [OF assms(5,6)] st(1) t by simp
    have r: "r = blob_ref_of (sha256_hex E t)" "35 \<notin> set r"
      using held hash_facts(1) [OF sha256_hex_full] by (auto simp: blob_held_def blob_ref_of_def blob_lits)
    have ids: "ids_at (evicted_refs w1) r = [span_id p]" using assms(7) v(2) r(1) by (simp add: ix ids_at_insert)
    let ?p = "p\<lparr>span_body := Evicted r (format_ref_line q r (span_anchor p))\<rparr>"
    have "?p \<in> set (spans w1)" using v by (simp add: sp set_update_memI)
    moreover have "bt_get (evicted_refs w1) r = Some [span_id p]" using ids by (auto simp: ids_at_def split: option.splits)
    then obtain p' c m where p': "find_span (span_id p) w1 = Some p'" "p' \<in> set (spans w1)" "span_id p' = span_id p"
      using indexed_span [OF w1, of r "span_id p"] by auto
    ultimately have "p' = ?p" using w1 by (simp add: ws_inv_def distinct_map inj_on_def)
    then show ?thesis using rehydrate_exact [OF w1 _ r(2) ids p'(1) _ held, of _ q elapsed] ev(1) st(2) sq assms(2) by auto
  qed
qed

lemma sample_put_fits: "within_limits sample_io (snd (put_blob sample_io (with_config default_config) (lit ''abc'') ct))"
proof -
  define s where "s = snd (put_blob sample_io (with_config default_config) (lit ''abc'') ct)"
  have b: "blobs (state s) = [(blob_ref_of (sha256_hex sample_io (lit ''abc'')), Inline (lit ''abc''))]"
    by (simp add: s_def put_blob_fields(2) [OF sample_io_ok]) (simp add: with_config_def empty_state_def)
  have f: "files (state s) = []" "units (state s) = []" "search_hits (state s) = []"
    by (simp_all add: s_def put_blob_def register_blob_def Let_def remember_ref_def track_ref_class_def log_event_def
        store_alias_deferred_def with_config_def empty_state_def split: option.split)
  have c: "config s = default_config" by (simp add: s_def put_blob_fields(4) [OF sample_io_ok]) (simp add: with_config_def)
  have "blen (lit ''abc'') = 3" "strip_prefix BLOB_MARKER_PREFIX (lit ''abc'') = None" by code_simp+
  then have "within_limits sample_io s"
    by (simp add: within_limits_def b f c default_config_def approx_bytes_def saturating_usize_sum_def sat_add_def
        blob_value_len_def parse_blob_marker_def u64_max_def)
  then show ?thesis by (simp only: s_def)
qed

theorem evict_rehydrate_roundtrip_witness:
  "\<exists>w e w1 s1 rh w2 s2. evict_span sample_io id w (with_config default_config) 1 = Some (Some e, w1, s1) \<and>
     rehydrate_ref sample_io id 0 w1 s1 (ev_ref e) None None = Some (Ok (Some rh), w2, s2) \<and>
     serves sample_io w2 1 \<lparr>anchor_path = lit ''f'', anchor_symbol = None, anchor_start = 1, anchor_end = 1\<rparr> (lit ''abc'')"
proof -
  note [simp del] = One_nat_def
  let ?a = "\<lparr>anchor_path = lit ''f'', anchor_symbol = None, anchor_start = 1, anchor_end = 1\<rparr>"
  let ?p = "\<lparr>span_id = 1, last_touched = 1, span_anchor = ?a, span_body = Resident (lit ''abc'')\<rparr>"
  let ?w = "snd (push_resident (new_working_set 10) (lit ''abc'') ?a)"
  have w: "spans ?w = [?p]" "evicted_refs ?w = []" "sequence ?w = 1" "budget_tokens ?w = 10"
    by (simp_all add: push_resident_def new_working_set_def Let_def sat_add_def u64_max_def note_admission_def)
  have "count_tokens (active_model sample_io) (lit ''abc'') \<le> 10" by code_simp
  then have fits: "enforce_budget sample_io id ?w (with_config default_config) = Some ([], ?w, with_config default_config)"
    by (subst enforce_budget.simps) (simp add: used_tokens_def w visible_tokens_def visible_text_def)
  obtain r where "admit sample_io id (new_working_set 10) (with_config default_config) (lit ''abc'') ?a = Some (r, ?w, with_config default_config)"
    using fits by (simp add: admit_def admit_full_def split_beta new_working_set_def Let_def)
  then have run: "ws_run sample_io id ?w"
    using ws_run.admit [OF ws_run.start, of 10] by (simp add: new_working_set_def u64_max_def)
  have st: "blob_storable sample_io (with_config default_config) (lit ''abc'')"
    using sample_io_ok plain_start abc_plain by (simp add: blob_storable_def)
  have "sequence ?w < u64_max" "?p \<in> set (spans ?w)" "span_body ?p = Resident (lit ''abc'')"
    "ids_at (evicted_refs ?w) (blob_ref_of (sha256_hex sample_io (lit ''abc''))) = []"
    by (simp_all add: w u64_max_def ids_at_def bt_get_def)
  from evict_rehydrate_roundtrip [OF run this(1,2,3) st sample_put_fits this(4), of 0] show ?thesis by auto blast
qed

end
