(* ===== verification/FetchGuard.thy ===== *)
theory FetchGuard
  imports Prelude "HOL-Library.Word"
begin

unbundle bit_operations_syntax

text \<open>
  The guard against server-side request forgery (\<open>fetch_guard.rs\<close>): the URL is split, the host
  is checked against the deny and allow lists, and every address it stands for is checked
  before one is pinned. Name resolution is an argument. The parser of IP literals is the one
  of the standard library, on the characters of the host; octets and segments are machine
  words. The texts of the refusals are the constructors of a data type.
\<close>

section \<open>Addresses\<close>

datatype Ipv4Addr = Ipv4 "8 word" "8 word" "8 word" "8 word"
datatype Ipv6Addr = Ipv6 "16 word" "16 word" "16 word" "16 word" "16 word" "16 word" "16 word" "16 word"
datatype IpAddr = V4 Ipv4Addr | V6 Ipv6Addr

datatype BlockReason = Unspecified | Loopback | PrivateRfc1918 | LinkLocal | Broadcast | CarrierGradeNat | IetfProtocol
  | Multicast | Reserved | BenchmarkDocumentation | UniqueLocal

definition is_private :: "8 word \<Rightarrow> 8 word \<Rightarrow> bool" where
  "is_private a b \<longleftrightarrow> a = 10 \<or> a = 172 \<and> 16 \<le> b \<and> b \<le> 31 \<or> a = 192 \<and> b = 168"

fun blocked_ipv4_reason :: "Ipv4Addr \<Rightarrow> BlockReason option" where
  "blocked_ipv4_reason (Ipv4 a b c d) =
     (if (a = 0 \<and> b = 0 \<and> c = 0 \<and> d = 0) \<or> a = 0 then Some Unspecified
      else if a = 127 then Some Loopback
      else if is_private a b then Some PrivateRfc1918
      else if a = 169 \<and> b = 254 then Some LinkLocal
      else if a = 255 \<and> b = 255 \<and> c = 255 \<and> d = 255 then Some Broadcast
      else if a = 100 \<and> b AND 0xC0 = 64 then Some CarrierGradeNat
      else if a = 192 \<and> b = 0 \<and> c = 0 then Some IetfProtocol
      else if 224 \<le> a \<and> a < 240 then Some Multicast
      else if 240 \<le> a then Some Reserved
      else if a = 198 \<and> (b = 18 \<or> b = 19) then Some BenchmarkDocumentation
      else None)"

text \<open>\<open>::ffff:a.b.c.d\<close>.\<close>

definition high_byte :: "16 word \<Rightarrow> 8 word" where "high_byte w = ucast (drop_bit 8 w)"
definition low_byte :: "16 word \<Rightarrow> 8 word" where "low_byte w = ucast w"

fun to_ipv4_mapped :: "Ipv6Addr \<Rightarrow> Ipv4Addr option" where
  "to_ipv4_mapped (Ipv6 a b c d e f g h) =
     (if a = 0 \<and> b = 0 \<and> c = 0 \<and> d = 0 \<and> e = 0 \<and> f = 0xffff
      then Some (Ipv4 (high_byte g) (low_byte g) (high_byte h) (low_byte h)) else None)"

definition blocked_ipv6_reason :: "Ipv6Addr \<Rightarrow> BlockReason option" where
  "blocked_ipv6_reason ip =
     (case to_ipv4_mapped ip of
        Some mapped \<Rightarrow> blocked_ipv4_reason mapped
      | None \<Rightarrow>
        (case ip of Ipv6 a b c d e f g h \<Rightarrow>
           if ip = Ipv6 0 0 0 0 0 0 0 0 then Some Unspecified
           else if ip = Ipv6 0 0 0 0 0 0 0 1 then Some Loopback
           else if a AND 0xffc0 = 0xfe80 then Some LinkLocal
           else if a AND 0xfe00 = 0xfc00 then Some UniqueLocal
           else None))"

definition blocked_ip_reason :: "IpAddr \<Rightarrow> BlockReason option" where
  "blocked_ip_reason ip = (case ip of V4 v4 \<Rightarrow> blocked_ipv4_reason v4 | V6 v6 \<Rightarrow> blocked_ipv6_reason v6)"

section \<open>IP literals\<close>

definition digit_value :: "nat \<Rightarrow> uchar \<Rightarrow> nat option" where
  "digit_value radix c =
     (let v = (if 48 \<le> c \<and> c \<le> 57 then c - 48 else if 97 \<le> c \<and> c \<le> 102 then c - 87
               else if 65 \<le> c \<and> c \<le> 70 then c - 55 else 99)
      in if v < radix then Some v else None)"

text \<open>The digits at the front, at most \<open>limit\<close> of them: more digits are an error.\<close>

fun digit_run :: "nat \<Rightarrow> rstr \<Rightarrow> nat list \<times> rstr" where
  "digit_run radix [] = ([], [])"
| "digit_run radix (c # s) =
     (case digit_value radix c of
        None \<Rightarrow> ([], c # s)
      | Some v \<Rightarrow> (case digit_run radix s of (vs, r) \<Rightarrow> (v # vs, r)))"

definition read_number :: "nat \<Rightarrow> nat \<Rightarrow> bool \<Rightarrow> nat \<Rightarrow> rstr \<Rightarrow> (nat \<times> rstr) option" where
  "read_number radix limit zero_prefix bound s =
     (let (vs, r) = digit_run radix s; n = foldl (\<lambda>acc v. acc * radix + v) 0 vs
      in if vs = [] \<or> limit < length vs \<or> (\<not> zero_prefix \<and> hd vs = 0 \<and> 1 < length vs) \<or> bound \<le> n
         then None else Some (n, r))"

definition read_separator :: "uchar \<Rightarrow> nat \<Rightarrow> (rstr \<Rightarrow> ('a \<times> rstr) option) \<Rightarrow> rstr \<Rightarrow> ('a \<times> rstr) option" where
  "read_separator sep index inner s =
     (if index = 0 then inner s else case s of [] \<Rightarrow> None | c # r \<Rightarrow> if c = sep then inner r else None)"

definition read_octet :: "nat \<Rightarrow> rstr \<Rightarrow> (nat \<times> rstr) option" where
  "read_octet index = read_separator 46 index (read_number 10 3 False 256)"

definition read_ipv4_addr :: "rstr \<Rightarrow> (Ipv4Addr \<times> rstr) option" where
  "read_ipv4_addr s =
     Option.bind (read_octet 0 s) (\<lambda>(a, s). Option.bind (read_octet 1 s) (\<lambda>(b, s).
     Option.bind (read_octet 2 s) (\<lambda>(c, s). map_option (\<lambda>(d, s).
       (Ipv4 (word_of_nat a) (word_of_nat b) (word_of_nat c) (word_of_nat d), s)) (read_octet 3 s))))"

fun v4_groups :: "Ipv4Addr \<Rightarrow> nat list" where
  "v4_groups (Ipv4 a b c d) = [unat a * 256 + unat b, unat c * 256 + unat d]"

text \<open>Up to \<open>left\<close> more groups; an embedded IPv4 address takes two and ends the reading.\<close>

fun read_groups :: "nat \<Rightarrow> nat \<Rightarrow> rstr \<Rightarrow> nat list \<times> bool \<times> rstr" where
  "read_groups 0 index s = ([], False, s)"
| "read_groups (Suc left) index s =
     (case (if left = 0 then None else read_separator 58 index read_ipv4_addr s) of
        Some (v4, r) \<Rightarrow> (v4_groups v4, True, r)
      | None \<Rightarrow>
        (case read_separator 58 index (read_number 16 4 True 65536) s of
           None \<Rightarrow> ([], False, s)
         | Some (g, r) \<Rightarrow> (case read_groups left (Suc index) r of (gs, v4, r') \<Rightarrow> (g # gs, v4, r'))))"

definition ipv6_of :: "nat list \<Rightarrow> Ipv6Addr" where
  "ipv6_of gs = (let w = (\<lambda>i. word_of_nat (gs ! i)) in Ipv6 (w 0) (w 1) (w 2) (w 3) (w 4) (w 5) (w 6) (w 7))"

definition read_ipv6_addr :: "rstr \<Rightarrow> (Ipv6Addr \<times> rstr) option" where
  "read_ipv6_addr s =
     (case read_groups 8 0 s of
        (head, head_v4, r) \<Rightarrow>
          if length head = 8 then Some (ipv6_of head, r)
          else if head_v4 then None
          else (case r of
            c # c' # r \<Rightarrow>
              if c = 58 \<and> c' = 58 then
                (case read_groups (8 - (length head + 1)) 0 r of
                   (tail, v4, r) \<Rightarrow> Some (ipv6_of (head @ replicate (8 - length head - length tail) 0 @ tail), r))
              else None
          | _ \<Rightarrow> None))"

definition parse_ip :: "rstr \<Rightarrow> IpAddr option" where
  "parse_ip s =
     (case read_ipv4_addr s of
        Some (v4, r) \<Rightarrow> if r = [] then Some (V4 v4) else None
      | None \<Rightarrow> (case read_ipv6_addr s of Some (v6, r) \<Rightarrow> if r = [] then Some (V6 v6) else None | None \<Rightarrow> None))"

section \<open>Authorities\<close>

record FetchTarget =
  target_host :: rstr
  target_port :: nat
  pinned_ip :: "IpAddr option"

datatype InvalidUrl = NotHttp | NoHost | HasUserinfo | UnterminatedIpv6 | MalformedAuthority | UnbracketedIpv6 | InvalidPort

datatype FetchBlocked = UrlRefused InvalidUrl | HostDenied rstr | AddressBlocked rstr IpAddr BlockReason
  | ResolveFailed rstr rstr | ResolvedNothing rstr

fun blocked_code :: "FetchBlocked \<Rightarrow> rstr" where
  "blocked_code (UrlRefused e) = lit ''invalid_url''"
| "blocked_code (HostDenied h) = lit ''fetch_blocked''"
| "blocked_code (AddressBlocked h ip r) = lit ''fetch_blocked''"
| "blocked_code (ResolveFailed h e) = lit ''fetch_failed''"
| "blocked_code (ResolvedNothing h) = lit ''fetch_failed''"

definition fetch_authority :: "rstr \<Rightarrow> FetchBlocked + (rstr \<times> nat)" where
  "fetch_authority url =
     (case (case strip_prefix (lit ''https://'') url of
              Some rest \<Rightarrow> Some (rest, 443)
            | None \<Rightarrow> map_option (\<lambda>rest. (rest, 80)) (strip_prefix (lit ''http://'') url)) of
        None \<Rightarrow> Err (UrlRefused NotHttp)
      | Some (rest, default_port) \<Rightarrow>
          let authority = trim (takeWhile (\<lambda>c. c \<noteq> 47 \<and> c \<noteq> 63 \<and> c \<noteq> 35) rest)
          in if authority = [] then Err (UrlRefused NoHost) else Ok (authority, default_port))"

definition reject_userinfo :: "rstr \<Rightarrow> FetchBlocked + unit" where
  "reject_userinfo authority = (if 64 \<in> set authority then Err (UrlRefused HasUserinfo) else Ok ())"

definition parse_port :: "rstr \<Rightarrow> FetchBlocked + nat" where
  "parse_port s =
     (case parse_usize s of
        Some n \<Rightarrow> if n \<le> 65535 then Ok n else Err (UrlRefused InvalidPort)
      | None \<Rightarrow> Err (UrlRefused InvalidPort))"

definition parse_bracketed_ipv6_authority :: "rstr \<Rightarrow> nat \<Rightarrow> FetchBlocked + (rstr \<times> nat)" where
  "parse_bracketed_ipv6_authority authority default_port =
     (case split_once 93 (tl authority) of
        None \<Rightarrow> Err (UrlRefused UnterminatedIpv6)
      | Some (host, after) \<Rightarrow>
          let named = [91] @ to_ascii_lowercase host @ [93] in
          (case after of
             [] \<Rightarrow> Ok (named, default_port)
           | c # port_text \<Rightarrow>
               if c = 58 then map_sum id (Pair named) (parse_port port_text)
               else Err (UrlRefused MalformedAuthority)))"

definition parse_hostname_authority :: "rstr \<Rightarrow> nat \<Rightarrow> FetchBlocked + (rstr \<times> nat)" where
  "parse_hostname_authority authority default_port =
     (case split_once 58 authority of
        Some (host, port_text) \<Rightarrow>
          if 58 \<notin> set port_text then map_sum id (Pair (to_ascii_lowercase host)) (parse_port port_text)
          else Err (UrlRefused UnbracketedIpv6)
      | None \<Rightarrow> Ok (to_ascii_lowercase authority, default_port))"

definition parse_host_port :: "rstr \<Rightarrow> FetchBlocked + (rstr \<times> nat)" where
  "parse_host_port url =
     (case fetch_authority url of
        Inl e \<Rightarrow> Err e
      | Inr (authority, default_port) \<Rightarrow>
        (case reject_userinfo authority of
           Inl e \<Rightarrow> Err e
         | Inr u \<Rightarrow>
             if starts_with authority [91] then parse_bracketed_ipv6_authority authority default_port
             else parse_hostname_authority authority default_port))"

section \<open>The decision\<close>

definition host_matches :: "rstr \<Rightarrow> rstr \<Rightarrow> bool" where
  "host_matches host pattern =
     (let p = to_ascii_lowercase (trim pattern)
      in p \<noteq> [] \<and> (host = p \<or> ends_with host ([46] @ p)))"

definition host_is_listed :: "rstr \<Rightarrow> rstr list \<Rightarrow> bool" where
  "host_is_listed host patterns = list_ex (host_matches host) patterns"

definition trim_brackets :: "rstr \<Rightarrow> rstr" where
  "trim_brackets s = (let bracket = (\<lambda>c. c = 91 \<or> c = 93) in rev (dropWhile bracket (rev (dropWhile bracket s))))"

text \<open>\<open>resolve\<close> gives the addresses of a host at a port, or the error of the resolver.\<close>

type_synonym resolver = "rstr \<Rightarrow> nat \<Rightarrow> rstr + IpAddr list"

definition check_addresses :: "rstr \<Rightarrow> IpAddr list \<Rightarrow> FetchBlocked option" where
  "check_addresses host ips =
     map_option (\<lambda>ip. AddressBlocked host ip (the (blocked_ip_reason ip))) (find (\<lambda>ip. blocked_ip_reason ip \<noteq> None) ips)"

definition validate_fetch_target :: "resolver \<Rightarrow> rstr \<Rightarrow> rstr list \<Rightarrow> rstr list \<Rightarrow> FetchBlocked + FetchTarget" where
  "validate_fetch_target resolve url allow_hosts deny_hosts =
     (case parse_host_port url of
        Inl e \<Rightarrow> Err e
      | Inr (host, port) \<Rightarrow>
          let target = (\<lambda>ip. \<lparr>target_host = host, target_port = port, pinned_ip = ip\<rparr>) in
          if host_is_listed host deny_hosts then Err (HostDenied host)
          else if host_is_listed host allow_hosts then Ok (target None)
          else case parse_ip (trim_brackets host) of
            Some ip \<Rightarrow>
              (case blocked_ip_reason ip of
                 Some why \<Rightarrow> Err (AddressBlocked host ip why)
               | None \<Rightarrow> Ok (target None))
          | None \<Rightarrow>
              (case resolve host port of
                 Inl e \<Rightarrow> Err (ResolveFailed host e)
               | Inr [] \<Rightarrow> Err (ResolvedNothing host)
               | Inr (ip # ips) \<Rightarrow>
                   (case check_addresses host (ip # ips) of
                      Some e \<Rightarrow> Err e
                    | None \<Rightarrow> Ok (target (Some ip)))))"

section \<open>The output of the transfer\<close>

definition FETCH_META_MARKER :: rstr where "FETCH_META_MARKER = lit ''__TOKENZERO_FETCH_META__''"

text \<open>\<open>rsplit_once\<close>: the text before and after the last occurrence of a pattern.\<close>

fun rsplit_once :: "rstr \<Rightarrow> rstr \<Rightarrow> (rstr \<times> rstr) option" where
  "rsplit_once pat [] = None"
| "rsplit_once pat (c # s) =
     (case rsplit_once pat s of
        Some (before, after) \<Rightarrow> Some (c # before, after)
      | None \<Rightarrow> map_option (Pair []) (strip_prefix pat (c # s)))"

definition split_fetch_meta :: "rstr \<Rightarrow> rstr \<times> nat option \<times> rstr option" where
  "split_fetch_meta out =
     (case rsplit_once ([10] @ FETCH_META_MARKER @ [32]) out of
        None \<Rightarrow> (out, None, None)
      | Some (body, meta) \<Rightarrow>
          let meta = trim meta;
              (code_text, redirect) = (case split_once 32 meta of Some p \<Rightarrow> p | None \<Rightarrow> (meta, []));
              redirect = trim redirect;
              code = (case parse_usize code_text of Some n \<Rightarrow> if n \<le> 65535 then Some n else None | None \<Rightarrow> None)
          in (body, code, if redirect = [] then None else Some redirect))"

section \<open>Address ranges\<close>

text \<open>The blocks the guard refuses, as a network and a prefix length.\<close>

definition v4_number :: "Ipv4Addr \<Rightarrow> nat" where
  "v4_number ip = (case ip of Ipv4 a b c d \<Rightarrow> unat a * 2 ^ 24 + unat b * 2 ^ 16 + unat c * 2 ^ 8 + unat d)"

definition in_cidr :: "nat \<Rightarrow> Ipv4Addr \<times> nat \<Rightarrow> bool" where
  "in_cidr n = (\<lambda>(net, len). n div 2 ^ (32 - len) = v4_number net div 2 ^ (32 - len))"

definition blocked_cidrs :: "(Ipv4Addr \<times> nat) list" where
  "blocked_cidrs = [(Ipv4 0 0 0 0, 8), (Ipv4 10 0 0 0, 8), (Ipv4 100 64 0 0, 10), (Ipv4 127 0 0 0, 8), (Ipv4 169 254 0 0, 16),
     (Ipv4 172 16 0 0, 12), (Ipv4 192 0 0 0, 24), (Ipv4 192 168 0 0, 16), (Ipv4 198 18 0 0, 15), (Ipv4 224 0 0 0, 4), (Ipv4 240 0 0 0, 4)]"

lemma octet_eq: "(x :: 8 word) = y \<longleftrightarrow> unat x = unat y"
  by (simp add: word_unat_eq_iff)

lemma octet_le: "(x :: 8 word) \<le> y \<longleftrightarrow> unat x \<le> unat y" "(x :: 8 word) < y \<longleftrightarrow> unat x < unat y"
  by (simp_all add: word_le_nat_alt word_less_nat_alt)

lemma octet_bound: "unat (x :: 8 word) < 256"
  using unsigned_less [of x] by simp

lemma cgnat_mask: "(b :: 8 word) AND 0xC0 = 64 \<longleftrightarrow> unat b div 64 = 1"
proof -
  have "n AND 192 = push_bit 6 (drop_bit 6 n AND 3)" for n :: nat
  proof -
    have "n AND push_bit 6 m = push_bit 6 (drop_bit 6 n AND m)" for m by (rule bit_eqI) (auto simp: bit_simps)
    from this [of 3] show ?thesis by (simp add: push_bit_eq_mult)
  qed
  moreover have "n AND 3 = n" if "n < 4" for n :: nat
    using that take_bit_eq_mask [of 2 n] take_bit_nat_eq_self [of n 2] by (simp add: mask_eq_exp_minus_1)
  moreover have "unat b div 64 < 4" using octet_bound [of b] by simp
  ultimately have "unat b AND 192 = 64 * (unat b div 64)" by (simp add: push_bit_eq_mult drop_bit_eq_div)
  then show ?thesis by (simp add: octet_eq unsigned_and_eq)
qed

lemma cidr_lines:
  assumes "a < 256" "b < 256" "c < 256" "d < 256"
  shows "(a * 16777216 + b * 65536 + c * 256 + d) div 16777216 = (a :: nat)"
    "(a * 16777216 + b * 65536 + c * 256 + d) div 4194304 = a * 4 + b div 64"
    "(a * 16777216 + b * 65536 + c * 256 + d) div 65536 = a * 256 + b"
    "(a * 16777216 + b * 65536 + c * 256 + d) div 1048576 = a * 16 + b div 16"
    "(a * 16777216 + b * 65536 + c * 256 + d) div 256 = a * 65536 + b * 256 + c"
    "(a * 16777216 + b * 65536 + c * 256 + d) div 131072 = a * 128 + b div 2"
    "(a * 16777216 + b * 65536 + c * 256 + d) div 268435456 = a div 16"
  using assms by linarith+

lemma mixed_radix:
  fixes a b x y k :: nat
  assumes "x < k" "y < k"
  shows "(a * k + x = b * k + y) = (a = b \<and> x = y)"
proof
  assume e: "a * k + x = b * k + y"
  have "(a * k + x) div k = a" "(b * k + y) div k = b" using assms by simp_all
  then show "a = b \<and> x = y" using e by simp
qed simp

lemma cidr_list:
  "list_ex (in_cidr n) blocked_cidrs \<longleftrightarrow> n div 16777216 = 0 \<or> n div 16777216 = 10 \<or> n div 4194304 = 401 \<or> n div 16777216 = 127 \<or>
     n div 65536 = 43518 \<or> n div 1048576 = 2753 \<or> n div 256 = 12582912 \<or> n div 65536 = 49320 \<or> n div 131072 = 25353 \<or>
     n div 268435456 = 14 \<or> n div 268435456 = 15"
  by (simp add: blocked_cidrs_def in_cidr_def v4_number_def)

lemma not_None_if: "((if c then Some x else y) \<noteq> None) = (c \<or> y \<noteq> None)" "(\<exists>z. (if c then Some x else y) = Some z) = (c \<or> (\<exists>z. y = Some z))"
  by simp_all

section \<open>Literals\<close>

text \<open>How an IPv4 address is printed.\<close>

fun show_ipv4 :: "Ipv4Addr \<Rightarrow> rstr" where
  "show_ipv4 (Ipv4 a b c d) = show_nat (unat a) @ [46] @ show_nat (unat b) @ [46] @ show_nat (unat c) @ [46] @ show_nat (unat d)"

definition no_digit_first :: "rstr \<Rightarrow> bool" where
  "no_digit_first r \<longleftrightarrow> (case r of [] \<Rightarrow> True | c # r' \<Rightarrow> digit_value 10 c = None)"

lemma digit_run_stop: "no_digit_first r \<Longrightarrow> digit_run 10 r = ([], r)"
  by (cases r) (auto simp: no_digit_first_def)

lemma digit_value_digit: "v < 10 \<Longrightarrow> digit_value 10 (48 + v) = Some v"
  by (simp add: digit_value_def)

lemma read_octet_show:
  assumes "n < 256" and "no_digit_first r"
  shows "read_number 10 3 False 256 (show_nat n @ r) = Some (n, r)"
proof -
  consider "n < 10" | "10 \<le> n" "n < 100" | "100 \<le> n" by linarith
  then show ?thesis
  proof cases
    case 1
    then have "show_nat n = [48 + n]" by (simp add: show_nat.simps [of n])
    then show ?thesis using 1 assms digit_run_stop [OF assms(2)] digit_value_digit [of n] by (simp add: read_number_def)
  next
    case 2
    then have "show_nat n = [48 + n div 10, 48 + n mod 10]" by (simp add: show_nat.simps [of n] show_nat.simps [of "n div 10"])
    then show ?thesis using 2 assms digit_run_stop [OF assms(2)] digit_value_digit [of "n div 10"] digit_value_digit [of "n mod 10"]
      by (simp add: read_number_def)
  next
    case 3
    have d: "n div 10 div 10 < 10" "n div 10 mod 10 < 10" "n mod 10 < 10" "0 < n div 10 div 10" using 3 assms(1) by simp_all
    have "show_nat n = [48 + n div 10 div 10, 48 + n div 10 mod 10, 48 + n mod 10]"
      using 3 d(1) by (simp add: show_nat.simps [of n] show_nat.simps [of "n div 10"] show_nat.simps [of "n div 10 div 10"] div_less_iff_less_mult)
    moreover have "(n div 10 div 10 * 10 + n div 10 mod 10) * 10 + n mod 10 = n" by simp
    ultimately show ?thesis using assms d digit_run_stop [OF assms(2)] digit_value_digit [OF d(1)] digit_value_digit [OF d(2)] digit_value_digit [OF d(3)]
      by (simp add: read_number_def)
  qed
qed

lemma dot_first: "no_digit_first (46 # r)"
  by (simp add: no_digit_first_def digit_value_def)

lemma read_ipv4_show: "no_digit_first r \<Longrightarrow> read_ipv4_addr (show_ipv4 ip @ r) = Some (ip, r)"
  by (cases ip) (simp add: read_ipv4_addr_def read_octet_def read_separator_def read_octet_show octet_bound dot_first)

lemma parse_ip_show: "parse_ip (show_ipv4 ip) = Some (V4 ip)"
  using read_ipv4_show [of "[]" ip] by (simp add: parse_ip_def no_digit_first_def)

lemma show_ipv4_chars: "c \<in> set (show_ipv4 ip) \<Longrightarrow> c = 46 \<or> 48 \<le> c \<and> c \<le> 57"
  by (cases ip) (auto dest!: show_nat_digits simp: is_ascii_digit_def)

lemma show_ipv4_neq_Nil: "show_ipv4 ip \<noteq> []"
  by (cases ip) simp

lemma dropWhile_none: "(\<And>c. c \<in> set s \<Longrightarrow> \<not> P c) \<Longrightarrow> dropWhile P s = s"
  by (cases s) auto

lemma split_once_none: "d \<notin> set s \<Longrightarrow> split_once d s = None"
  by simp

lemma trim_none: "(\<And>c. c \<in> set s \<Longrightarrow> \<not> P c) \<Longrightarrow> rev (dropWhile P (rev (dropWhile P s))) = s"
  using dropWhile_none [of s P] dropWhile_none [of "rev s" P] by simp

lemma literal_authority:
  "parse_host_port (lit ''http://'' @ show_ipv4 ip @ [47] @ path) = Ok (show_ipv4 ip, 80)"
proof -
  let ?h = "show_ipv4 ip"
  have no: "c \<in> set ?h \<Longrightarrow> c \<noteq> 47 \<and> c \<noteq> 63 \<and> c \<noteq> 35 \<and> c \<noteq> 64 \<and> c \<noteq> 58 \<and> c \<noteq> 91 \<and> \<not> is_whitespace c \<and> ascii_lower c = c" for c
    using show_ipv4_chars [of c ip] by (auto simp: is_whitespace_def ascii_lower_def)
  have "strip_prefix (lit ''https://'') (lit ''http://'' @ ?h @ [47] @ path) = None"
    by (simp add: strip_prefix_def starts_with_def lit_def)
  moreover have "strip_prefix (lit ''http://'') (lit ''http://'' @ ?h @ [47] @ path) = Some (?h @ [47] @ path)"
    by (simp add: strip_prefix_def starts_with_def)
  moreover have "takeWhile (\<lambda>c. c \<noteq> 47 \<and> c \<noteq> 63 \<and> c \<noteq> 35) (?h @ [47] @ path) = ?h" using no by (simp add: takeWhile_append2)
  moreover have "trim ?h = ?h" unfolding trim_def trim_start_def trim_end_def by (rule trim_none) (use no in blast)
  ultimately have "fetch_authority (lit ''http://'' @ ?h @ [47] @ path) = Ok (?h, 80)"
    by (simp add: fetch_authority_def show_ipv4_neq_Nil)
  moreover have "64 \<notin> set ?h" "58 \<notin> set ?h" using no [of 64] no [of 58] by blast+
  moreover have "\<not> starts_with ?h [91]" using no [of 91] by (cases ?h) (auto simp: starts_with_def)
  moreover have "to_ascii_lowercase ?h = ?h" using no by (simp add: to_ascii_lowercase_def map_idI)
  ultimately show ?thesis by (simp add: parse_host_port_def reject_userinfo_def parse_hostname_authority_def split_once_none)
qed

lemma literal_brackets: "trim_brackets (show_ipv4 ip) = show_ipv4 ip"
proof -
  have "c \<in> set (show_ipv4 ip) \<Longrightarrow> \<not> (c = 91 \<or> c = 93)" for c using show_ipv4_chars [of c ip] by auto
  then show ?thesis unfolding trim_brackets_def Let_def by (rule trim_none)
qed

section \<open>Splitting at the last marker\<close>

lemma trim_end_space: "trim_end (s @ [32]) = trim_end s"
  by (simp add: trim_end_def is_whitespace_def)

lemma trim_end_trimmed: "s \<noteq> [] \<Longrightarrow> \<not> is_whitespace (last s) \<Longrightarrow> trim_end s = s"
  by (cases s rule: rev_cases) (simp_all add: trim_end_def)

lemma trim_end_last_ok: "trim_end s \<noteq> [] \<Longrightarrow> \<not> is_whitespace (last (trim_end s))"
  using hd_dropWhile [of is_whitespace "rev s"] by (simp add: trim_end_def last_rev)

lemma rsplit_once_absent: "x \<notin> set s \<Longrightarrow> rsplit_once (x # pat) s = None"
  by (induction s) (auto simp: strip_prefix_def starts_with_def)

lemma rsplit_once_last:
  assumes "x \<notin> set pat" and "x \<notin> set after"
  shows "rsplit_once (x # pat) (before @ (x # pat) @ after) = Some (before, after)"
proof (induction before)
  case Nil
  show ?case using rsplit_once_absent [of x "pat @ after" pat] assms by (simp add: strip_prefix_def starts_with_def)
qed simp

section \<open>Properties\<close>

text \<open>The guard refuses exactly the addresses of these blocks.\<close>

theorem blocked_ipv4_exact:
  "blocked_ipv4_reason ip \<noteq> None \<longleftrightarrow> list_ex (in_cidr (v4_number ip)) blocked_cidrs"
proof -
  obtain a b c d where ip: "ip = Ipv4 a b c d" by (cases ip)
  define A B C D where "A = unat a" and "B = unat b" and "C = unat c" and "D = unat d"
  note bounds = octet_bound [of a, folded A_def] octet_bound [of b, folded B_def] octet_bound [of c, folded C_def] octet_bound [of d, folded D_def]
  have "v4_number ip = A * 16777216 + B * 65536 + C * 256 + D" by (simp add: v4_number_def ip A_def B_def C_def D_def)
  then have "list_ex (in_cidr (v4_number ip)) blocked_cidrs \<longleftrightarrow> A = 0 \<or> A = 10 \<or> A * 4 + B div 64 = 401 \<or> A = 127 \<or>
      A * 256 + B = 43518 \<or> A * 16 + B div 16 = 2753 \<or> A * 65536 + B * 256 + C = 12582912 \<or> A * 256 + B = 49320 \<or>
      A * 128 + B div 2 = 25353 \<or> A div 16 = 14 \<or> A div 16 = 15"
    unfolding cidr_list using cidr_lines [OF bounds] by (simp only:)
  moreover have "blocked_ipv4_reason ip \<noteq> None \<longleftrightarrow> A = 0 \<or> A = 10 \<or> A = 100 \<and> B div 64 = 1 \<or> A = 127 \<or> A = 169 \<and> B = 254 \<or>
      A = 172 \<and> 16 \<le> B \<and> B \<le> 31 \<or> A = 192 \<and> B = 0 \<and> C = 0 \<or> A = 192 \<and> B = 168 \<or> A = 198 \<and> (B = 18 \<or> B = 19) \<or> 224 \<le> A"
  proof -
    have "(blocked_ipv4_reason ip \<noteq> None) = ((A = 0 \<and> B = 0 \<and> C = 0 \<and> D = 0) \<or> A = 0 \<or> A = 127 \<or> (A = 10 \<or> A = 172 \<and> 16 \<le> B \<and> B \<le> 31 \<or>
        A = 192 \<and> B = 168) \<or> A = 169 \<and> B = 254 \<or> A = 255 \<and> B = 255 \<and> C = 255 \<and> D = 255 \<or> A = 100 \<and> B div 64 = 1 \<or>
        A = 192 \<and> B = 0 \<and> C = 0 \<or> 224 \<le> A \<and> A < 240 \<or> 240 \<le> A \<or> A = 198 \<and> (B = 18 \<or> B = 19))"
      by (simp add: ip is_private_def cgnat_mask [unfolded octet_eq, simplified] octet_eq octet_le not_None_if flip: A_def B_def C_def D_def)
    then show ?thesis by (cases "224 \<le> A") auto
  qed
  moreover have "(A * 4 + B div 64 = 401) = (A = 100 \<and> B div 64 = 1)" "(A * 256 + B = 43518) = (A = 169 \<and> B = 254)"
    "(A * 256 + B = 49320) = (A = 192 \<and> B = 168)" "(A * 65536 + (B * 256 + C) = 12582912) = (A = 192 \<and> B * 256 + C = 0)"
    using mixed_radix [of "B div 64" 4 1 A 100] mixed_radix [of B 256 254 A 169] mixed_radix [of B 256 168 A 192]
      mixed_radix [of "B * 256 + C" 65536 0 A 192] bounds by simp_all
  moreover have "(A * 16 + B div 16 = 2753) = (A = 172 \<and> B div 16 = 1)" "(A * 128 + B div 2 = 25353) = (A = 198 \<and> B div 2 = 9)"
    using mixed_radix [of "B div 16" 16 1 A 172] mixed_radix [of "B div 2" 128 9 A 198] bounds by simp_all
  moreover have "(B div 16 = 1) = (16 \<le> B \<and> B \<le> 31)" "(B div 2 = 9) = (B = 18 \<or> B = 19)" "(A div 16 = 14 \<or> A div 16 = 15) = (224 \<le> A)"
    using bounds(1) by linarith+
  ultimately show ?thesis by (simp add: add.assoc)
qed

text \<open>C22: What an accepted target guarantees: its host is not denied, and unless the host was explicitly
  allowed, either the host is an address literal that no rule refuses, or it resolved, every
  one of its addresses passes the rules, and the connection is pinned to the first of them.\<close>

theorem accepted_target_safe:
  assumes "validate_fetch_target resolve url allow deny = Ok target"
  shows "parse_host_port url = Ok (target_host target, target_port target) \<and> \<not> host_is_listed (target_host target) deny \<and>
    (host_is_listed (target_host target) allow \<and> pinned_ip target = None \<or>
     (\<exists>ip. parse_ip (trim_brackets (target_host target)) = Some ip \<and> blocked_ip_reason ip = None \<and> pinned_ip target = None) \<or>
     (\<exists>ip ips. resolve (target_host target) (target_port target) = Ok (ip # ips) \<and> pinned_ip target = Some ip \<and>
        (\<forall>x \<in> set (ip # ips). blocked_ip_reason x = None)))"
proof -
  obtain host port where hp: "parse_host_port url = Ok (host, port)"
    using assms by (cases "parse_host_port url") (auto simp: validate_fetch_target_def)
  show ?thesis using assms
    by (auto simp: validate_fetch_target_def hp Let_def check_addresses_def find_None_iff
        split: if_splits option.splits sum.splits list.splits)
qed

text \<open>A URL that names a refused IPv4 address literally is refused with the reason of the address,
  whatever the resolver answers, unless the host is explicitly allowed.\<close>

theorem literal_url_refused:
  assumes "blocked_ipv4_reason ip = Some why" and "\<not> host_is_listed (show_ipv4 ip) allow"
  shows "validate_fetch_target resolve (lit ''http://'' @ show_ipv4 ip @ [47] @ path) allow deny =
    Err (if host_is_listed (show_ipv4 ip) deny then HostDenied (show_ipv4 ip) else AddressBlocked (show_ipv4 ip) (V4 ip) why)"
  using assms by (simp add: validate_fetch_target_def literal_authority [simplified] literal_brackets parse_ip_show blocked_ip_reason_def)

theorem accepted_target_safe_witness:
  "validate_fetch_target (\<lambda>h p. Ok [V4 (Ipv4 93 184 216 34)]) (lit ''https://example.com/x'') [] [] =
     Ok \<lparr>target_host = lit ''example.com'', target_port = 443, pinned_ip = Some (V4 (Ipv4 93 184 216 34))\<rparr> \<and>
   blocked_ip_reason (V4 (Ipv4 93 184 216 34)) = None"
proof -
  have "validate_fetch_target (\<lambda>h p. Ok [V4 (Ipv4 93 184 216 34)]) (lit ''https://example.com/x'') [] [] =
     Ok \<lparr>target_host = lit ''example.com'', target_port = 443, pinned_ip = Some (V4 (Ipv4 93 184 216 34))\<rparr>" by code_simp
  from accepted_target_safe [OF this] this show ?thesis by (auto simp: host_is_listed_def)
qed

theorem literal_url_refused_witness:
  "validate_fetch_target (\<lambda>h p. Ok []) (lit ''http://'' @ show_ipv4 (Ipv4 169 254 169 254) @ [47] @ lit ''latest'') [] [] =
     Err (AddressBlocked (show_ipv4 (Ipv4 169 254 169 254)) (V4 (Ipv4 169 254 169 254)) LinkLocal)"
  using literal_url_refused [of "Ipv4 169 254 169 254" LinkLocal "[]" "\<lambda>h p. Ok []" "lit ''latest''" "[]"]
  by (simp add: is_private_def host_is_listed_def)

text \<open>The metadata line appended to a transfer is read back exactly, whatever the body holds, even a body
  that imitates the line: a status code that fits, and the redirect target when there is one.\<close>

theorem fetch_meta_roundtrip:
  assumes "code \<le> 65535" and "10 \<notin> set redirect" and "trim redirect = redirect"
  shows "split_fetch_meta (body @ [10] @ FETCH_META_MARKER @ [32] @ show_nat code @ [32] @ redirect) =
    (body, Some code, if redirect = [] then None else Some redirect)"
proof -
  let ?p = "FETCH_META_MARKER @ [32]" let ?m = "show_nat code @ [32] @ redirect"
  have m: "10 \<notin> set ?p" by (simp add: FETCH_META_MARKER_def lit_def)
  have digits: "48 \<le> c \<and> c \<le> 57" if "c \<in> set (show_nat code)" for c
    using show_nat_digits [OF that] by (auto simp: is_ascii_digit_def)
  have nd: "10 \<notin> set (show_nat code)" "32 \<notin> set (show_nat code)" using digits [of 10] digits [of 32] by auto
  obtain c r where cr: "show_nat code = c # r" by (cases "show_nat code") auto
  have "\<not> is_whitespace c" using digits [of c] cr by (auto simp: is_whitespace_def)
  then have start: "trim_start (show_nat code @ x) = show_nat code @ x" for x by (simp add: trim_start_def cr)
  have r: "rsplit_once ([10] @ FETCH_META_MARKER @ [32]) (body @ [10] @ FETCH_META_MARKER @ [32] @ ?m) = Some (body, ?m)"
    using rsplit_once_last [OF m, of ?m body] nd(1) assms(2) by simp
  have "code \<le> u64_max" using assms(1) by (simp add: u64_max_def)
  then have code: "parse_usize (show_nat code) = Some code" by simp
  show ?thesis
  proof (cases "redirect = []")
    case True
    have "\<not> is_whitespace (last (show_nat code))" using digits [of "last (show_nat code)"] by (auto simp: is_whitespace_def)
    then have "trim (show_nat code @ [32]) = show_nat code" using start [of "[32]"] by (simp add: trim_def trim_end_space trim_end_trimmed)
    then show ?thesis using r code True nd(2) assms(1,3) by (simp add: split_fetch_meta_def split_once_none)
  next
    case False
    have "\<not> is_whitespace (last redirect)" using trim_end_last_ok [of "trim_start redirect"] assms(3) False by (simp add: trim_def)
    then have "trim ?m = ?m" using start [of "[32] @ redirect"] False by (simp add: trim_def trim_end_trimmed)
    then show ?thesis using r code False nd(2) assms(1,3) by (simp add: split_fetch_meta_def)
  qed
qed

theorem fetch_meta_roundtrip_witness:
  "split_fetch_meta (lit ''x'' @ [10] @ FETCH_META_MARKER @ [32] @ show_nat 301 @ [32] @ lit ''http://a/'') =
     (lit ''x'', Some 301, Some (lit ''http://a/''))"
proof -
  have "10 \<notin> set (lit ''http://a/'')" "trim (lit ''http://a/'') = lit ''http://a/''" "lit ''http://a/'' \<noteq> []" by code_simp+
  then show ?thesis using fetch_meta_roundtrip [of 301 "lit ''http://a/''" "lit ''x''"] by simp
qed

text \<open>The deny list does not cover the absolute spelling of a name: a host with a final dot, which
  resolvers treat as the same name, never matches a pattern that has no final dot.\<close>

theorem deny_list_misses_absolute_name:
  assumes "to_ascii_lowercase (trim pattern) = p" and "p \<noteq> []" and "last p \<noteq> 46"
  shows "\<not> host_matches (host @ [46]) pattern"
proof -
  have "last x = 46" if "ends_with (host @ [46]) x" "x \<noteq> []" for x
  proof -
    from that(1) have "last (drop (length (host @ [46]) - length x) (host @ [46])) = last x" by (simp only: ends_with_def)
    moreover have "length (host @ [46]) - length x < length (host @ [46])" using that(2) by simp
    ultimately show ?thesis by (metis last_drop last_snoc)
  qed
  moreover have "host @ [46] \<noteq> p" using assms(3) by (metis last_snoc)
  ultimately show ?thesis using assms by (force simp: host_matches_def Let_def)
qed

theorem deny_list_misses_absolute_name_witness:
  "\<not> host_matches (lit ''evil.com'' @ [46]) (lit ''evil.com'') \<and>
   validate_fetch_target (\<lambda>h p. Ok [V4 (Ipv4 93 184 216 34)]) (lit ''http://evil.com./'') [] [lit ''evil.com''] =
     Ok \<lparr>target_host = lit ''evil.com.'', target_port = 80, pinned_ip = Some (V4 (Ipv4 93 184 216 34))\<rparr>"
proof -
  have "to_ascii_lowercase (trim (lit ''evil.com'')) = lit ''evil.com''" "lit ''evil.com'' \<noteq> []" "last (lit ''evil.com'') \<noteq> 46"
    by code_simp+
  moreover have "validate_fetch_target (\<lambda>h p. Ok [V4 (Ipv4 93 184 216 34)]) (lit ''http://evil.com./'') [] [lit ''evil.com''] =
      Ok \<lparr>target_host = lit ''evil.com.'', target_port = 80, pinned_ip = Some (V4 (Ipv4 93 184 216 34))\<rparr>" by code_simp
  ultimately show ?thesis using deny_list_misses_absolute_name by blast
qed

text \<open>IPv6 is checked less than IPv4: the multicast block, and the forms that embed an IPv4 address
  other than the mapped one (compatible, translated and 6to4), pass even for addresses that
  the IPv4 rules refuse.\<close>

lemma ipv6_unchecked_forms:
  "blocked_ipv6_reason (Ipv6 0xff02 0 0 0 0 0 0 1) = None"
  "blocked_ipv6_reason (Ipv6 0 0 0 0 0 0 0x7f00 1) = None"
  "blocked_ipv6_reason (Ipv6 0x64 0xff9b 0 0 0 0 0xa9fe 0xa9fe) = None"
  "blocked_ipv6_reason (Ipv6 0x2002 0x7f00 1 0 0 0 0 0) = None"
  by code_simp+

end
