(* ===== verification/CachePolicies.thy ===== *)
theory CachePolicies
  imports Complex_Main OrdMap "HOL-Library.Word" "HOL-Library.Multiset" "HOL-Library.Product_Lexorder"
begin

text \<open>
  The pricing policies of the engine: whether a payload is admitted as an exact reference
  (\<open>admission.rs\<close>), whether content is cached, compressed or kept inline
  (\<open>cache_crossover.rs\<close>), and which prompt spans are evicted and when
  (\<open>eviction_scheduler.rs\<close>). Costs the code holds in \<open>u128\<close> are 128-bit words, whose sums and
  products wrap as in the release builds.
\<close>

type_synonym u128 = "128 word"

datatype CacheProvider = Anthropic | OpenAi | Gemini

section \<open>Admission of exact references\<close>

definition ADMISSION_BYTES_PER_TOKEN :: nat where "ADMISSION_BYTES_PER_TOKEN = 4"
definition DEFAULT_CAPSULE_EXACT_REF_THRESHOLD_BYTES :: nat where "DEFAULT_CAPSULE_EXACT_REF_THRESHOLD_BYTES = 40 * 1024"

datatype AdmissionPolicy = ByteThreshold | HorizonCost

datatype AdmissionReason = AboveByteThreshold | BelowByteThreshold | RefAdmittedByHorizon | InlineCheaperThanRef
  | NoExpectedReuse | ExpansionAlways | EstimatesMissing

record AdmissionDecision =
  ad_policy :: AdmissionPolicy
  admit_exact_ref :: bool
  ad_reason :: AdmissionReason
  payload_bytes :: nat
  expansion_probability_milli :: nat
  horizon :: nat
  handling_cost_tokens :: nat

record AdmissionEstimator =
  exact_ref_threshold_bytes :: nat
  default_expansion_probability_milli :: nat
  default_horizon :: nat

definition default_estimator :: AdmissionEstimator where
  "default_estimator = \<lparr>exact_ref_threshold_bytes = DEFAULT_CAPSULE_EXACT_REF_THRESHOLD_BYTES,
     default_expansion_probability_milli = 100, default_horizon = 1\<rparr>"

definition decide_threshold :: "AdmissionEstimator \<Rightarrow> nat \<Rightarrow> AdmissionDecision" where
  "decide_threshold est bytes =
     (let admit = exact_ref_threshold_bytes est < bytes
      in \<lparr>ad_policy = ByteThreshold, admit_exact_ref = admit,
          ad_reason = (if admit then AboveByteThreshold else BelowByteThreshold), payload_bytes = bytes,
          expansion_probability_milli = 0, horizon = 1, handling_cost_tokens = 0\<rparr>)"

definition horizon_verdict :: "nat \<Rightarrow> nat \<Rightarrow> nat \<Rightarrow> nat \<Rightarrow> bool \<times> AdmissionReason" where
  "horizon_verdict bytes p h handling =
     (let payload_tokens = (word_of_nat (bytes div ADMISSION_BYTES_PER_TOKEN) :: u128) in
      if h = 0 then (False, NoExpectedReuse)
      else if 1000 \<le> p then (False, ExpansionAlways)
      else if word_of_nat handling * 1000 < word_of_nat (1000 - p) * word_of_nat h * payload_tokens
      then (True, RefAdmittedByHorizon) else (False, InlineCheaperThanRef))"

definition decide_horizon_cost :: "nat \<Rightarrow> nat option \<Rightarrow> nat option \<Rightarrow> nat \<Rightarrow> AdmissionDecision" where
  "decide_horizon_cost bytes p h handling =
     (case (p, h) of
        (Some p, Some h) \<Rightarrow>
          let p = min p 1000; (admit, reason) = horizon_verdict bytes p h handling
          in \<lparr>ad_policy = HorizonCost, admit_exact_ref = admit, ad_reason = reason, payload_bytes = bytes,
              expansion_probability_milli = p, horizon = h, handling_cost_tokens = handling\<rparr>
      | _ \<Rightarrow>
          \<lparr>ad_policy = HorizonCost, admit_exact_ref = False, ad_reason = EstimatesMissing, payload_bytes = bytes,
           expansion_probability_milli = (case p of None \<Rightarrow> 0 | Some p \<Rightarrow> p), horizon = (case h of None \<Rightarrow> 0 | Some h \<Rightarrow> h),
           handling_cost_tokens = handling\<rparr>)"

section \<open>Compress or cache\<close>

definition TOKEN_COST_PPM_SCALE :: nat where "TOKEN_COST_PPM_SCALE = 1000000"
definition MAX_ID_BYTES :: nat where "MAX_ID_BYTES = 1024"

datatype CacheContentClass = Stable | Churn
datatype CacheCrossoverAction = CacheStable | Compress | KeepInline
datatype CacheCrossoverReason = CachedStableCheaperOrEqual | CompressionStrictlyBeatsCache | BelowCacheableFloor
  | ChurnIsNotCacheable | CompressionNotAdmitted

record CacheCrossoverInput =
  provider :: CacheProvider
  policy_id :: rstr
  token_unit_id :: rstr
  content_class :: CacheContentClass
  original_tokens :: nat
  compressed_tokens :: nat
  compression_admission_id :: "rstr option"
  common_overhead_tokens :: nat
  cached_read_multiplier_ppm :: nat
  min_cacheable :: nat
  suffix_size_tokens :: nat
  compaction_cost_tokens :: nat
  remaining_reuse_horizon :: nat

record EmissionCrossoverConfig =
  emission_multiplier_ppm :: nat
  emission_horizon :: nat
  emission_floor :: nat

definition default_emission :: EmissionCrossoverConfig where
  "default_emission = \<lparr>emission_multiplier_ppm = TOKEN_COST_PPM_SCALE, emission_horizon = 1, emission_floor = 1000\<rparr>"

record CacheCrossoverReceipt =
  receipt_input :: CacheCrossoverInput
  action :: CacheCrossoverAction
  cross_reason :: CacheCrossoverReason
  cache_eligible :: bool
  inline_total :: u128
  compressed_total :: u128
  cached_total :: u128
  inline_projected :: u128
  compressed_projected :: u128
  cached_projected :: u128

datatype CacheCrossoverError = InvalidPolicyId | InvalidTokenUnitId | InvalidCompressionAdmissionId | EmptyContent
  | InvalidCachedReadMultiplier | InvalidCacheableFloor | InvalidSuffixSize | InvalidReuseHorizon

definition bad_id :: "rstr \<Rightarrow> bool" where
  "bad_id s \<longleftrightarrow> s = [] \<or> MAX_ID_BYTES < blen s"

definition validate_input :: "CacheCrossoverInput \<Rightarrow> CacheCrossoverError + unit" where
  "validate_input i =
     (if bad_id (policy_id i) then Err InvalidPolicyId
      else if bad_id (token_unit_id i) then Err InvalidTokenUnitId
      else if (case compression_admission_id i of None \<Rightarrow> False | Some a \<Rightarrow> bad_id a) then Err InvalidCompressionAdmissionId
      else if original_tokens i = 0 then Err EmptyContent
      else if \<not> (1 \<le> cached_read_multiplier_ppm i \<and> cached_read_multiplier_ppm i \<le> TOKEN_COST_PPM_SCALE)
      then Err InvalidCachedReadMultiplier
      else if min_cacheable i = 0 then Err InvalidCacheableFloor
      else if original_tokens i < suffix_size_tokens i then Err InvalidSuffixSize
      else if remaining_reuse_horizon i = 0 then Err InvalidReuseHorizon
      else Ok ())"

definition smaller_inline_action :: "u128 \<Rightarrow> u128 \<Rightarrow> CacheCrossoverAction" where
  "smaller_inline_action inline compressed = (if compressed < inline then Compress else KeepInline)"

definition choose_action ::
    "CacheContentClass \<Rightarrow> bool \<Rightarrow> bool \<Rightarrow> u128 \<Rightarrow> u128 \<Rightarrow> u128 \<Rightarrow> CacheCrossoverAction \<times> CacheCrossoverReason" where
  "choose_action cls admitted eligible inline compressed cached =
     (if cls = Stable \<and> \<not> admitted \<and> eligible then (CacheStable, CompressionNotAdmitted)
      else if \<not> admitted then (KeepInline, CompressionNotAdmitted)
      else if cls = Churn then (smaller_inline_action inline compressed, ChurnIsNotCacheable)
      else if \<not> eligible then (smaller_inline_action inline compressed, BelowCacheableFloor)
      else if compressed < cached then (Compress, CompressionStrictlyBeatsCache)
      else (CacheStable, CachedStableCheaperOrEqual))"

definition decide_cache_crossover :: "CacheCrossoverInput \<Rightarrow> CacheCrossoverError + CacheCrossoverReceipt" where
  "decide_cache_crossover i =
     (case validate_input i of
        Inl e \<Rightarrow> Err e
      | Inr u \<Rightarrow>
          let scale = (word_of_nat TOKEN_COST_PPM_SCALE :: u128);
              overhead = word_of_nat (common_overhead_tokens i) * scale;
              h = word_of_nat (remaining_reuse_horizon i);
              suf = word_of_nat (suffix_size_tokens i);
              compaction = word_of_nat (compaction_cost_tokens i);
              original = word_of_nat (original_tokens i);
              compressed = word_of_nat (compressed_tokens i);
              multiplier = word_of_nat (cached_read_multiplier_ppm i);
              pre = original - suf;
              inline_t = overhead + original * scale;
              compressed_t = overhead + (compaction + compressed) * scale;
              cached_t = overhead + suf * scale + pre * multiplier;
              inline_p = overhead + h * original * scale;
              compressed_p = overhead + compaction * scale + h * compressed * scale;
              cached_p = overhead + h * (suf * scale + pre * multiplier);
              eligible = (content_class i = Stable \<and> word_of_nat (min_cacheable i) \<le> pre);
              (act, why) = choose_action (content_class i) (compression_admission_id i \<noteq> None) eligible inline_p compressed_p cached_p
          in Ok \<lparr>receipt_input = i, action = act, cross_reason = why, cache_eligible = eligible,
                 inline_total = inline_t, compressed_total = compressed_t, cached_total = cached_t,
                 inline_projected = inline_p, compressed_projected = compressed_p, cached_projected = cached_p\<rparr>)"

section \<open>Scheduled evictions\<close>

definition OPENAI_MAX_RETENTION_SECONDS :: nat where "OPENAI_MAX_RETENTION_SECONDS = 24 * 60 * 60"

datatype PrefixTier = System | Tools | Messages

record CacheBreakpoint =
  ttl_seconds :: nat
  minimum_requests :: nat
  write_multiplier :: real

fun provider_breakpoints :: "CacheProvider \<Rightarrow> CacheBreakpoint list" where
  "provider_breakpoints Anthropic = [\<lparr>ttl_seconds = 300, minimum_requests = 2, write_multiplier = 5 / 4\<rparr>,
     \<lparr>ttl_seconds = 3600, minimum_requests = 3, write_multiplier = 2\<rparr>]"
| "provider_breakpoints OpenAi = [\<lparr>ttl_seconds = OPENAI_MAX_RETENTION_SECONDS, minimum_requests = 2, write_multiplier = 1\<rparr>]"
| "provider_breakpoints Gemini = [\<lparr>ttl_seconds = 3600, minimum_requests = 2, write_multiplier = 1\<rparr>]"

fun elapsed_scan :: "nat \<Rightarrow> nat list \<Rightarrow> nat list" where
  "elapsed_scan elapsed [] = []"
| "elapsed_scan elapsed (gap # gaps) = (let e = sat_add elapsed gap in e # elapsed_scan e gaps)"

definition retained_requests :: "nat list \<Rightarrow> CacheBreakpoint \<Rightarrow> nat" where
  "retained_requests gaps b = sat_add 1 (length (takeWhile (\<lambda>e. e \<le> ttl_seconds b) (elapsed_scan 0 gaps)))"

definition ttl_from_gaps :: "CacheProvider \<Rightarrow> nat list \<Rightarrow> CacheBreakpoint option" where
  "ttl_from_gaps p gaps = find (\<lambda>b. minimum_requests b \<le> retained_requests gaps b) (provider_breakpoints p)"

record EvictionCandidate =
  ec_id :: rstr
  tier :: PrefixTier
  prefix_tokens :: nat
  prefix_rewrite_cost_tokens :: nat
  expected_remaining_requests :: nat
  read_savings_tokens :: nat

datatype EvictionDecisionKind = Evict | PreserveProtectedTier | PreserveNegativeExpectedValue | PreserveNoViableTtl

record EvictionDecision =
  candidate :: EvictionCandidate
  dec_kind :: EvictionDecisionKind
  dec_ttl :: "nat option"
  breakpoint_at :: "nat option"
  expected_read_savings_tokens :: nat

record EvictionBatch =
  batch_at :: nat
  batch_ttl :: nat
  candidate_ids :: "rstr list"

record EvictionSchedule =
  decisions :: "EvictionDecision list"
  batches :: "EvictionBatch list"

text \<open>The \<open>expect\<close> on the lifetime is \<open>None\<close> here when there is none.\<close>

definition decide_eviction :: "CacheBreakpoint option \<Rightarrow> nat \<Rightarrow> EvictionCandidate \<Rightarrow> EvictionDecision option" where
  "decide_eviction b now c =
     (let savings = sat_mul (expected_remaining_requests c) (read_savings_tokens c);
          kind = (if tier c \<noteq> Messages then PreserveProtectedTier
                  else if b = None then PreserveNoViableTtl
                  else if savings \<le> prefix_rewrite_cost_tokens c then PreserveNegativeExpectedValue
                  else Evict);
          mk = (\<lambda>ttl. \<lparr>candidate = c, dec_kind = kind, dec_ttl = ttl, breakpoint_at = map_option (sat_add now) ttl,
                       expected_read_savings_tokens = savings\<rparr>)
      in if kind = Evict then map_option (\<lambda>b. mk (Some (ttl_seconds b))) b else Some (mk None))"

definition group_decision :: "EvictionDecision \<Rightarrow> (nat \<times> nat, rstr list) btree \<Rightarrow> (nat \<times> nat, rstr list) btree" where
  "group_decision d m =
     (case (breakpoint_at d, dec_ttl d) of
        (Some moment, Some ttl) \<Rightarrow>
          bt_insert (moment, ttl) ((case bt_get m (moment, ttl) of None \<Rightarrow> [] | Some ids \<Rightarrow> ids) @ [ec_id (candidate d)]) m
      | _ \<Rightarrow> m)"

definition batch_of :: "(nat \<times> nat) \<times> rstr list \<Rightarrow> EvictionBatch" where
  "batch_of = (\<lambda>((moment, ttl), ids). \<lparr>batch_at = moment, batch_ttl = ttl, candidate_ids = sort ids\<rparr>)"

definition schedule_evictions :: "CacheProvider \<Rightarrow> nat \<Rightarrow> nat list \<Rightarrow> EvictionCandidate list \<Rightarrow> EvictionSchedule option" where
  "schedule_evictions p now gaps cands =
     (case those (map (decide_eviction (ttl_from_gaps p gaps) now) cands) of
        None \<Rightarrow> None
      | Some ds \<Rightarrow> Some \<lparr>decisions = ds, batches = map batch_of (fold group_decision ds [])\<rparr>)"

record EvictionReplayItem =
  item_candidate :: EvictionCandidate
  observed_remaining_requests :: nat

record EvictionReplayReport =
  naive_billed_tokens :: nat
  scheduled_billed_tokens :: nat
  saved_billed_tokens :: nat
  schedule :: EvictionSchedule

definition uncached_cost :: "EvictionReplayItem \<Rightarrow> nat" where
  "uncached_cost it = sat_mul (observed_remaining_requests it) (prefix_tokens (item_candidate it))"

definition scheduled_cost :: "EvictionReplayItem \<Rightarrow> EvictionDecision \<Rightarrow> nat" where
  "scheduled_cost it d =
     (if dec_kind d = Evict then
        sat_add (prefix_rewrite_cost_tokens (item_candidate it))
          (sat_mul (observed_remaining_requests it) (prefix_tokens (item_candidate it) - read_savings_tokens (item_candidate it)))
      else uncached_cost it)"

definition simulate_eviction_replay :: "CacheProvider \<Rightarrow> nat \<Rightarrow> nat list \<Rightarrow> EvictionReplayItem list \<Rightarrow> EvictionReplayReport option" where
  "simulate_eviction_replay p now gaps replay =
     (case schedule_evictions p now gaps (map item_candidate replay) of
        None \<Rightarrow> None
      | Some sch \<Rightarrow>
          let (naive, scheduled) = fold (\<lambda>(it, d) (n, s). (sat_add n (uncached_cost it), sat_add s (scheduled_cost it d)))
                (zip replay (decisions sch)) (0, 0)
          in Some \<lparr>naive_billed_tokens = naive, scheduled_billed_tokens = scheduled,
                   saved_billed_tokens = naive - scheduled, schedule = sch\<rparr>)"

record EvictionSavingsLedger =
  recorded_event_ids :: "rstr set"
  ledger_saved_tokens :: nat

definition record_once :: "EvictionSavingsLedger \<Rightarrow> rstr \<Rightarrow> nat \<Rightarrow> bool \<times> EvictionSavingsLedger" where
  "record_once l event saved =
     (if event \<in> recorded_event_ids l then (False, l)
      else (True, l\<lparr>recorded_event_ids := insert event (recorded_event_ids l),
                    ledger_saved_tokens := sat_add (ledger_saved_tokens l) saved\<rparr>))"

section \<open>Exact costs\<close>

lemma u128_of_nat: "n < 2 ^ 128 \<Longrightarrow> unat (word_of_nat n :: u128) = n"
  by (simp add: unat_of_nat)

lemma u128_less: "m < 2 ^ 128 \<Longrightarrow> n < 2 ^ 128 \<Longrightarrow> ((word_of_nat m :: u128) < word_of_nat n) = (m < n)"
  by (simp add: word_less_nat_alt u128_of_nat)

lemma u128_le: "m < 2 ^ 128 \<Longrightarrow> n < 2 ^ 128 \<Longrightarrow> ((word_of_nat m :: u128) \<le> word_of_nat n) = (m \<le> n)"
  by (simp add: word_le_nat_alt u128_of_nat)

text \<open>The projected costs as the documentation states them, without a width.\<close>

definition inline_cost :: "CacheCrossoverInput \<Rightarrow> nat" where
  "inline_cost i = (common_overhead_tokens i + remaining_reuse_horizon i * original_tokens i) * TOKEN_COST_PPM_SCALE"

definition compressed_cost :: "CacheCrossoverInput \<Rightarrow> nat" where
  "compressed_cost i = (common_overhead_tokens i + compaction_cost_tokens i + remaining_reuse_horizon i * compressed_tokens i) * TOKEN_COST_PPM_SCALE"

definition cached_cost :: "CacheCrossoverInput \<Rightarrow> nat" where
  "cached_cost i = common_overhead_tokens i * TOKEN_COST_PPM_SCALE + remaining_reuse_horizon i *
     (suffix_size_tokens i * TOKEN_COST_PPM_SCALE + (original_tokens i - suffix_size_tokens i) * cached_read_multiplier_ppm i)"

definition action_cost :: "CacheCrossoverInput \<Rightarrow> CacheCrossoverAction \<Rightarrow> nat" where
  "action_cost i act = (case act of CacheStable \<Rightarrow> cached_cost i | Compress \<Rightarrow> compressed_cost i | KeepInline \<Rightarrow> inline_cost i)"

lemma cached_le_inline:
  assumes "cached_read_multiplier_ppm i \<le> TOKEN_COST_PPM_SCALE" and "suffix_size_tokens i \<le> original_tokens i"
  shows "cached_cost i \<le> inline_cost i"
proof -
  let ?n = "original_tokens i - suffix_size_tokens i"
  have "suffix_size_tokens i * TOKEN_COST_PPM_SCALE + ?n * cached_read_multiplier_ppm i \<le> (suffix_size_tokens i + ?n) * TOKEN_COST_PPM_SCALE"
    using assms(1) by (simp add: add_mult_distrib)
  then have "suffix_size_tokens i * TOKEN_COST_PPM_SCALE + ?n * cached_read_multiplier_ppm i \<le> original_tokens i * TOKEN_COST_PPM_SCALE"
    using assms(2) by simp
  then have "remaining_reuse_horizon i * (suffix_size_tokens i * TOKEN_COST_PPM_SCALE + ?n * cached_read_multiplier_ppm i) \<le>
      remaining_reuse_horizon i * (original_tokens i * TOKEN_COST_PPM_SCALE)" by (rule mult_le_mono2)
  then show ?thesis by (simp add: cached_cost_def inline_cost_def add_mult_distrib mult.assoc)
qed

lemma validate_input_Ok:
  assumes "validate_input i = Ok u"
  shows "cached_read_multiplier_ppm i \<le> TOKEN_COST_PPM_SCALE" "suffix_size_tokens i \<le> original_tokens i" "0 < remaining_reuse_horizon i"
  using assms by (auto simp: validate_input_def split: if_splits)

lemma crossover_words:
  assumes "decide_cache_crossover i = Ok r"
  shows "inline_projected r = word_of_nat (inline_cost i)" "compressed_projected r = word_of_nat (compressed_cost i)"
    "cached_projected r = word_of_nat (cached_cost i)"
    "(action r, cross_reason r) = choose_action (content_class i) (compression_admission_id i \<noteq> None) (cache_eligible r)
       (inline_projected r) (compressed_projected r) (cached_projected r)"
    "cache_eligible r \<Longrightarrow> content_class i = Stable"
    "cached_read_multiplier_ppm i \<le> TOKEN_COST_PPM_SCALE" "suffix_size_tokens i \<le> original_tokens i"
proof -
  have "validate_input i \<noteq> Err e" for e using assms by (auto simp: decide_cache_crossover_def)
  then obtain u where v: "validate_input i = Ok u" by (cases "validate_input i") auto
  note V = validate_input_Ok [OF v]
  show "cached_read_multiplier_ppm i \<le> TOKEN_COST_PPM_SCALE" "suffix_size_tokens i \<le> original_tokens i" using V by auto
  define d where "d = original_tokens i - suffix_size_tokens i"
  have pre: "(word_of_nat (original_tokens i) - word_of_nat (suffix_size_tokens i) :: u128) = word_of_nat d"
    using V(2) by (simp add: of_nat_diff d_def)
  note U = assms [unfolded decide_cache_crossover_def v sum.case Let_def pre]
  from U show "inline_projected r = word_of_nat (inline_cost i)" "compressed_projected r = word_of_nat (compressed_cost i)"
    "cached_projected r = word_of_nat (cached_cost i)"
    unfolding inline_cost_def compressed_cost_def cached_cost_def d_def [symmetric] by (auto simp: split_beta algebra_simps)
  from U show "(action r, cross_reason r) = choose_action (content_class i) (compression_admission_id i \<noteq> None) (cache_eligible r)
       (inline_projected r) (compressed_projected r) (cached_projected r)" "cache_eligible r \<Longrightarrow> content_class i = Stable"
    by (auto simp: split_beta)
qed

lemma horizon_verdict_exact:
  assumes "handling * 1000 < 2 ^ 128" and "1000 * h * (bytes div 4) < 2 ^ 128"
  shows "fst (horizon_verdict bytes p h handling) \<longleftrightarrow> 0 < h \<and> p < 1000 \<and> handling * 1000 < (1000 - p) * h * (bytes div 4)"
proof -
  have "(1000 - p) * h * (bytes div 4) \<le> 1000 * h * (bytes div 4)" by (intro mult_le_mono) simp_all
  then have "(1000 - p) * h * (bytes div 4) < 2 ^ 128" using assms(2) by linarith
  from u128_less [OF assms(1) this]
  have "((word_of_nat handling :: u128) * 1000 < word_of_nat (1000 - p) * word_of_nat h * word_of_nat (bytes div 4)) =
      (handling * 1000 < (1000 - p) * h * (bytes div 4))" by (simp del: of_nat_diff)
  then show ?thesis by (simp add: horizon_verdict_def ADMISSION_BYTES_PER_TOKEN_def Let_def del: of_nat_diff)
qed

section \<open>The schedule\<close>

lemma decide_eviction_Some:
  "\<exists>d. decide_eviction b now c = Some d \<and> candidate d = c \<and>
     (dec_kind d = Evict \<longleftrightarrow> tier c = Messages \<and> b \<noteq> None \<and>
        prefix_rewrite_cost_tokens c < sat_mul (expected_remaining_requests c) (read_savings_tokens c)) \<and>
     (dec_kind d = Evict \<longleftrightarrow> dec_ttl d \<noteq> None) \<and> breakpoint_at d = map_option (sat_add now) (dec_ttl d)"
  by (cases b) (auto simp: decide_eviction_def Let_def)

lemma those_map_total:
  assumes "\<And>x. \<exists>y. f x = Some y"
  shows "those (map f xs) = Some (map (the \<circ> f) xs)"
proof (induction xs)
  case (Cons x xs)
  obtain y where "f x = Some y" using assms by blast
  then show ?case using Cons by simp
qed simp

lemma schedule_Some:
  "schedule_evictions p now gaps cands = Some \<lparr>decisions = map (the \<circ> decide_eviction (ttl_from_gaps p gaps) now) cands,
     batches = map batch_of (fold group_decision (map (the \<circ> decide_eviction (ttl_from_gaps p gaps) now) cands) [])\<rparr>"
proof -
  have "\<exists>d. decide_eviction (ttl_from_gaps p gaps) now c = Some d" for c using decide_eviction_Some by blast
  from those_map_total [of "decide_eviction (ttl_from_gaps p gaps) now", OF this] show ?thesis by (simp add: schedule_evictions_def)
qed

text \<open>The identifiers held by a grouping.\<close>

definition grouped_ids :: "(nat \<times> nat, rstr list) btree \<Rightarrow> rstr multiset" where
  "grouped_ids m = (\<Sum>e\<in>#mset m. mset (snd e))"

lemma bt_insert_absent:
  assumes "bt_get m k = None"
  shows "mset (bt_insert k v m) = add_mset (k, v) (mset m)"
  using assms by (induction k v m rule: bt_insert.induct) (auto simp: bt_get_def split: if_splits)

lemma bt_insert_present:
  assumes "bt_wf m" and "bt_get m k = Some u"
  shows "add_mset (k, u) (mset (bt_insert k v m)) = add_mset (k, v) (mset m)"
  using assms
proof (induction k v m rule: bt_insert.induct)
  case (2 k v k' v' m)
  have wf: "bt_wf m" "\<forall>e\<in>set m. k' < fst e" using "2.prems"(1) by (auto simp: bt_wf_def)
  show ?case
  proof (cases "k = k'")
    case True
    then show ?thesis using "2.prems" by (simp add: bt_get_def)
  next
    case False
    then have g: "bt_get m k = Some u" using "2.prems"(2) by (simp add: bt_get_def)
    then have "(k, u) \<in> set m" by (simp add: bt_get_def map_of_SomeD)
    then have "k' < k" using wf(2) by auto
    then have lt: "\<not> k < k'" "k \<noteq> k'" by auto
    have "add_mset (k, u) (mset (bt_insert k v m)) = add_mset (k, v) (mset m)" by (rule "2.IH" [OF lt wf(1) g])
    then show ?thesis using lt by (simp add: add_mset_commute)
  qed
qed (simp add: bt_get_def)

lemma grouped_ids_insert:
  assumes "bt_wf m"
  shows "grouped_ids (bt_insert k ((case bt_get m k of None \<Rightarrow> [] | Some ids \<Rightarrow> ids) @ [i]) m) = add_mset i (grouped_ids m)"
proof (cases "bt_get m k")
  case None
  then show ?thesis by (simp add: grouped_ids_def bt_insert_absent)
next
  case (Some u)
  have "grouped_ids (bt_insert k (u @ [i]) m) + mset u = add_mset i (grouped_ids m + mset u)"
    using arg_cong [where f = "\<lambda>M. \<Sum>e\<in>#M. mset (snd e)", OF bt_insert_present [OF assms Some, of "u @ [i]"]]
    by (simp add: grouped_ids_def ac_simps)
  then show ?thesis using Some by simp
qed

lemma group_decision_ids:
  assumes "bt_wf m" and "breakpoint_at d = map_option f (dec_ttl d)"
  shows "bt_wf (group_decision d m) \<and>
    grouped_ids (group_decision d m) = (if dec_ttl d = None then {#} else {#ec_id (candidate d)#}) + grouped_ids m"
  using assms by (cases "dec_ttl d") (simp_all add: group_decision_def bt_wf_insert grouped_ids_insert del: bt_insert.simps)

lemma group_fold_ids:
  assumes "bt_wf m" and "\<forall>d\<in>set ds. breakpoint_at d = map_option f (dec_ttl d)"
  shows "grouped_ids (fold group_decision ds m) = mset (map (ec_id \<circ> candidate) (filter (\<lambda>d. dec_ttl d \<noteq> None) ds)) + grouped_ids m"
  using assms
proof (induction ds arbitrary: m)
  case (Cons d ds)
  then have d: "bt_wf (group_decision d m)"
    "grouped_ids (group_decision d m) = (if dec_ttl d = None then {#} else {#ec_id (candidate d)#}) + grouped_ids m"
    using group_decision_ids [of m d f] by auto
  show ?case using Cons.IH [OF d(1)] Cons.prems(2) d(2) by simp
qed simp

lemma batches_ids: "mset (concat (map candidate_ids (map batch_of m))) = grouped_ids m"
  by (induction m) (auto simp: grouped_ids_def batch_of_def)

section \<open>Replay\<close>

lemma sat_mul_exact: "a * b \<le> u64_max \<Longrightarrow> sat_mul a b = a * b"
  by (simp add: sat_mul_def)

lemma scheduled_cost_le:
  assumes "decide_eviction b now (item_candidate it) = Some d"
    and "observed_remaining_requests it = expected_remaining_requests (item_candidate it)"
    and "read_savings_tokens (item_candidate it) \<le> prefix_tokens (item_candidate it)"
    and "observed_remaining_requests it * prefix_tokens (item_candidate it) \<le> u64_max"
  shows "scheduled_cost it d \<le> uncached_cost it"
proof (cases "dec_kind d = Evict")
  case True
  let ?n = "observed_remaining_requests it" let ?c = "item_candidate it"
  have "prefix_rewrite_cost_tokens ?c < sat_mul ?n (read_savings_tokens ?c)"
    using decide_eviction_Some [of b now ?c] assms(1,2) True by auto
  also have "\<dots> \<le> ?n * read_savings_tokens ?c" by (simp add: sat_mul_def)
  finally have "prefix_rewrite_cost_tokens ?c + ?n * (prefix_tokens ?c - read_savings_tokens ?c) \<le>
      ?n * (read_savings_tokens ?c + (prefix_tokens ?c - read_savings_tokens ?c))" by (simp add: add_mult_distrib2)
  then have "prefix_rewrite_cost_tokens ?c + ?n * (prefix_tokens ?c - read_savings_tokens ?c) \<le> ?n * prefix_tokens ?c" using assms(3) by simp
  then show ?thesis using True assms(4) by (simp add: scheduled_cost_def uncached_cost_def sat_mul_exact sat_add_def sat_mul_def)
qed (simp add: scheduled_cost_def)

lemma replay_fold_le:
  assumes "\<forall>(it, d)\<in>set xs. scheduled_cost it d \<le> uncached_cost it" and "s \<le> n"
  shows "snd (fold (\<lambda>(it, d) (n, s). (sat_add n (uncached_cost it), sat_add s (scheduled_cost it d))) xs (n, s)) \<le>
    fst (fold (\<lambda>(it, d) (n, s). (sat_add n (uncached_cost it), sat_add s (scheduled_cost it d))) xs (n, s))"
  using assms
proof (induction xs arbitrary: n s)
  case (Cons x xs)
  obtain it d where x: "x = (it, d)" by fastforce
  have "sat_add s (scheduled_cost it d) \<le> sat_add n (uncached_cost it)" using Cons.prems x by (intro sat_add_mono) auto
  then show ?case using Cons.IH Cons.prems(1) x by simp
qed simp

section \<open>Properties\<close>

text \<open>The crossover decision is optimal over the complete projected costs, as long as they fit 128 bits:
  with an admitted compression the chosen action costs no more than keeping the content
  inline, compressing it and, when it may be cached, caching it; without one it never
  compresses. Content is cached only when it is eligible.\<close>

theorem crossover_optimal:
  assumes "decide_cache_crossover i = Ok r" and "inline_cost i < 2 ^ 128" and "compressed_cost i < 2 ^ 128"
  shows "unat (inline_projected r) = inline_cost i \<and> unat (compressed_projected r) = compressed_cost i \<and>
    unat (cached_projected r) = cached_cost i \<and> (action r = CacheStable \<longrightarrow> cache_eligible r) \<and>
    (compression_admission_id i = None \<longrightarrow> action r \<noteq> Compress) \<and>
    (compression_admission_id i \<noteq> None \<longrightarrow> action_cost i (action r) \<le> inline_cost i \<and>
       action_cost i (action r) \<le> compressed_cost i \<and> (cache_eligible r \<longrightarrow> action_cost i (action r) \<le> cached_cost i))"
proof -
  note W = crossover_words [OF assms(1)]
  have le: "cached_cost i \<le> inline_cost i" by (rule cached_le_inline [OF W(6,7)])
  then have cached: "cached_cost i < 2 ^ 128" using assms(2) by linarith
  note less = u128_less [OF assms(3,2)] u128_less [OF assms(3) cached]
  have "(action r = CacheStable \<longrightarrow> cache_eligible r) \<and> (compression_admission_id i = None \<longrightarrow> action r \<noteq> Compress) \<and>
    (compression_admission_id i \<noteq> None \<longrightarrow> action_cost i (action r) \<le> inline_cost i \<and>
       action_cost i (action r) \<le> compressed_cost i \<and> (cache_eligible r \<longrightarrow> action_cost i (action r) \<le> cached_cost i))"
    using W(4,5) less le unfolding W(1,2,3)
    by (cases "content_class i") (auto simp: choose_action_def smaller_inline_action_def action_cost_def split: if_splits)
  then show ?thesis using W(1,2,3) assms(2,3) cached by (simp add: u128_of_nat)
qed

definition sample_crossover :: CacheCrossoverInput where
  "sample_crossover = \<lparr>provider = Anthropic, policy_id = lit ''p'', token_unit_id = lit ''u'', content_class = Stable, original_tokens = 4000,
     compressed_tokens = 1000, compression_admission_id = Some (lit ''c''), common_overhead_tokens = 10,
     cached_read_multiplier_ppm = 100000, min_cacheable = 1024, suffix_size_tokens = 100, compaction_cost_tokens = 0,
     remaining_reuse_horizon = 3\<rparr>"

theorem crossover_optimal_witness:
  "\<exists>r. decide_cache_crossover sample_crossover = Ok r \<and> action_cost sample_crossover (action r) \<le> compressed_cost sample_crossover"
proof -
  have "validate_input sample_crossover = Ok ()" by code_simp
  then obtain r where r: "decide_cache_crossover sample_crossover = Ok r" by (auto simp: decide_cache_crossover_def Let_def split_beta)
  have "inline_cost sample_crossover < 2 ^ 128" "compressed_cost sample_crossover < 2 ^ 128"
    by (simp_all add: inline_cost_def compressed_cost_def sample_crossover_def TOKEN_COST_PPM_SCALE_def)
  from crossover_optimal [OF r this] r show ?thesis by (auto simp: sample_crossover_def)
qed

text \<open>The inputs are not bounded, and the costs wrap silently: with a horizon and a size of \<open>2 ^ 61\<close> the
  projected cost of keeping the content inline is computed as nothing, and the decision keeps
  it inline although compression is admitted and vastly cheaper.\<close>

lemma crossover_wraps:
  defines "i \<equiv> sample_crossover\<lparr>content_class := Churn, original_tokens := 2 ^ 61, compressed_tokens := 1,
    common_overhead_tokens := 0, remaining_reuse_horizon := 2 ^ 61\<rparr>"
  shows "map_sum id action (decide_cache_crossover i) = Ok KeepInline" "compressed_cost i < inline_cost i"
proof -
  show "compressed_cost i < inline_cost i"
    by (simp add: compressed_cost_def inline_cost_def i_def sample_crossover_def TOKEN_COST_PPM_SCALE_def)
  have "bad_id (lit ''p'') = False" "bad_id (lit ''u'') = False" "bad_id (lit ''c'') = False" by code_simp+
  then have "validate_input i = Ok ()" by (simp add: validate_input_def i_def sample_crossover_def TOKEN_COST_PPM_SCALE_def)
  then obtain r where r: "decide_cache_crossover i = Ok r" by (simp add: decide_cache_crossover_def Let_def split_beta)
  have "inline_cost i = 15625 * 2 ^ 128" by (simp add: inline_cost_def i_def sample_crossover_def TOKEN_COST_PPM_SCALE_def)
  then have "unat (word_of_nat (inline_cost i) :: u128) = 0" by (simp only: unat_of_nat) simp
  then have "\<not> (word_of_nat (compressed_cost i) :: u128) < word_of_nat (inline_cost i)" by (simp only: word_less_nat_alt)
  moreover have "content_class i = Churn" "compression_admission_id i \<noteq> None" by (simp_all add: i_def sample_crossover_def)
  ultimately have "action r = KeepInline"
    using crossover_words(4) [OF r] unfolding crossover_words(1,2,3) [OF r] by (simp add: choose_action_def smaller_inline_action_def)
  then show "map_sum id action (decide_cache_crossover i) = Ok KeepInline" using r by simp
qed

text \<open>The horizon-cost rule admits an exact reference exactly when carrying and occasionally expanding it
  costs less than repeating the payload over the expected reads: with both estimates present
  and in range of the arithmetic, when the handling cost is below the expected saving.\<close>

theorem admission_exact:
  assumes "handling * 1000 < 2 ^ 128" and "1000 * h * (bytes div 4) < 2 ^ 128"
  shows "admit_exact_ref (decide_horizon_cost bytes (Some p) (Some h) handling) \<longleftrightarrow>
    handling * 1000 + min p 1000 * h * (bytes div 4) < 1000 * h * (bytes div 4)"
proof -
  let ?n = "h * (bytes div 4)" let ?p = "min p 1000"
  have "admit_exact_ref (decide_horizon_cost bytes (Some p) (Some h) handling) \<longleftrightarrow>
      0 < h \<and> ?p < 1000 \<and> handling * 1000 < (1000 - ?p) * ?n"
    using horizon_verdict_exact [OF assms, of ?p] by (simp add: decide_horizon_cost_def Let_def split_beta mult.assoc)
  moreover have "(1000 - ?p) * ?n + ?p * ?n = 1000 * ?n" by (metis add_mult_distrib le_add_diff_inverse2 min.cobounded2)
  moreover have "(1000 - ?p) * ?n = 0" if "h = 0 \<or> \<not> ?p < 1000" using that by auto
  ultimately show ?thesis by (auto simp: mult.assoc)
qed

theorem admission_exact_witness:
  "admit_exact_ref (decide_horizon_cost 4000 (Some 100) (Some 3) 50)"
  using admission_exact [of 50 3 4000 100] by simp

text \<open>Scheduling never fails, decides every candidate, and evicts exactly the message spans for which a
  cache lifetime is viable and the expected savings exceed the rewrite; system and tool
  prefixes are never evicted. The batches hold the evicted identifiers and no others.\<close>

theorem schedule_evictions_sound:
  "\<exists>sch. schedule_evictions p now gaps cands = Some sch \<and> map candidate (decisions sch) = cands \<and>
     (\<forall>d\<in>set (decisions sch). dec_kind d = Evict \<longleftrightarrow>
        tier (candidate d) = Messages \<and> ttl_from_gaps p gaps \<noteq> None \<and>
        prefix_rewrite_cost_tokens (candidate d) <
          sat_mul (expected_remaining_requests (candidate d)) (read_savings_tokens (candidate d))) \<and>
     mset (concat (map candidate_ids (batches sch))) =
       mset (map (ec_id \<circ> candidate) (filter (\<lambda>d. dec_kind d = Evict) (decisions sch)))"
proof -
  define ds where "ds = map (the \<circ> decide_eviction (ttl_from_gaps p gaps) now) cands"
  have d: "candidate d = c \<and> (dec_kind d = Evict \<longleftrightarrow> tier c = Messages \<and> ttl_from_gaps p gaps \<noteq> None \<and>
        prefix_rewrite_cost_tokens c < sat_mul (expected_remaining_requests c) (read_savings_tokens c)) \<and>
      (dec_kind d = Evict \<longleftrightarrow> dec_ttl d \<noteq> None) \<and> breakpoint_at d = map_option (sat_add now) (dec_ttl d)"
    if "d = the (decide_eviction (ttl_from_gaps p gaps) now c)" for d c
    using decide_eviction_Some [of "ttl_from_gaps p gaps" now c] that by auto
  have "map candidate ds = cands" using d by (simp add: ds_def map_idI)
  moreover have each: "breakpoint_at x = map_option (sat_add now) (dec_ttl x) \<and> (dec_kind x = Evict) = (dec_ttl x \<noteq> None)" if "x \<in> set ds" for x
  proof -
    obtain c where x: "x = the (decide_eviction (ttl_from_gaps p gaps) now c)" using \<open>x \<in> set ds\<close> by (auto simp: ds_def)
    show ?thesis using d [OF x] by blast
  qed
  then have all: "\<forall>x\<in>set ds. breakpoint_at x = map_option (sat_add now) (dec_ttl x)" by blast
  have "filter (\<lambda>x. dec_kind x = Evict) ds = filter (\<lambda>x. dec_ttl x \<noteq> None) ds" using each by (intro filter_cong) auto
  then have "mset (concat (map candidate_ids (map batch_of (fold group_decision ds [])))) =
      mset (map (ec_id \<circ> candidate) (filter (\<lambda>d. dec_kind d = Evict) ds))"
    using group_fold_ids [OF _ all, of "[]"] unfolding batches_ids by (simp add: grouped_ids_def)
  moreover have "\<forall>x\<in>set ds. dec_kind x = Evict \<longleftrightarrow> tier (candidate x) = Messages \<and> ttl_from_gaps p gaps \<noteq> None \<and>
      prefix_rewrite_cost_tokens (candidate x) < sat_mul (expected_remaining_requests (candidate x)) (read_savings_tokens (candidate x))"
  proof
    fix x assume "x \<in> set ds"
    then obtain c where x: "x = the (decide_eviction (ttl_from_gaps p gaps) now c)" by (auto simp: ds_def)
    then have "candidate x = c" using d by blast
    then show "dec_kind x = Evict \<longleftrightarrow> tier (candidate x) = Messages \<and> ttl_from_gaps p gaps \<noteq> None \<and>
      prefix_rewrite_cost_tokens (candidate x) < sat_mul (expected_remaining_requests (candidate x)) (read_savings_tokens (candidate x))"
      using d [OF x] by simp
  qed
  ultimately show ?thesis using schedule_Some [of p now gaps cands] by (simp add: ds_def)
qed

theorem schedule_evictions_sound_witness:
  "\<exists>sch. schedule_evictions Anthropic 0 [10] [\<lparr>ec_id = lit ''a'', tier = Messages, prefix_tokens = 100, prefix_rewrite_cost_tokens = 10,
       expected_remaining_requests = 5, read_savings_tokens = 9\<rparr>] = Some sch \<and> length (decisions sch) = 1"
  using schedule_evictions_sound [of Anthropic 0 "[10]" "[\<lparr>ec_id = lit ''a'', tier = Messages, prefix_tokens = 100,
    prefix_rewrite_cost_tokens = 10, expected_remaining_requests = 5, read_savings_tokens = 9\<rparr>]"]
  by (metis (no_types, lifting) One_nat_def length_Cons length_map list.size(3))

text \<open>When the future is as predicted, the schedule never bills more than doing nothing: if each candidate
  is read as often as expected, saves at most its own size, and the bill of each fits 64 bits.\<close>

theorem replay_never_worse:
  assumes "simulate_eviction_replay p now gaps replay = Some rep"
    and "\<forall>it\<in>set replay. observed_remaining_requests it = expected_remaining_requests (item_candidate it) \<and>
      read_savings_tokens (item_candidate it) \<le> prefix_tokens (item_candidate it) \<and>
      observed_remaining_requests it * prefix_tokens (item_candidate it) \<le> u64_max"
  shows "scheduled_billed_tokens rep \<le> naive_billed_tokens rep"
proof -
  let ?f = "the \<circ> decide_eviction (ttl_from_gaps p gaps) now"
  have "scheduled_cost it (?f (item_candidate it)) \<le> uncached_cost it" if "it \<in> set replay" for it
    using that assms(2) decide_eviction_Some [of "ttl_from_gaps p gaps" now "item_candidate it"]
    by (intro scheduled_cost_le [where b = "ttl_from_gaps p gaps" and now = now]) auto
  then have "\<forall>(it, d)\<in>set (zip replay (map ?f (map item_candidate replay))). scheduled_cost it d \<le> uncached_cost it"
    by (auto simp: set_zip)
  from replay_fold_le [OF this, of 0 0] show ?thesis using assms(1)
    by (auto simp: simulate_eviction_replay_def schedule_Some Let_def split_beta)
qed

theorem replay_never_worse_witness:
  "\<exists>rep. simulate_eviction_replay OpenAi 0 [10] [\<lparr>item_candidate = \<lparr>ec_id = lit ''a'', tier = Messages, prefix_tokens = 100,
       prefix_rewrite_cost_tokens = 10, expected_remaining_requests = 5, read_savings_tokens = 9\<rparr>, observed_remaining_requests = 5\<rparr>] = Some rep \<and>
     scheduled_billed_tokens rep \<le> naive_billed_tokens rep"
proof -
  let ?r = "[\<lparr>item_candidate = \<lparr>ec_id = lit ''a'', tier = Messages, prefix_tokens = 100,
       prefix_rewrite_cost_tokens = 10, expected_remaining_requests = 5, read_savings_tokens = 9\<rparr>, observed_remaining_requests = 5\<rparr>]"
  obtain rep where "simulate_eviction_replay OpenAi 0 [10] ?r = Some rep"
    by (simp add: simulate_eviction_replay_def schedule_Some Let_def split_beta)
  from replay_never_worse [OF this] this show ?thesis by (simp add: u64_max_def)
qed

text \<open>Recording a saving is idempotent per event: a retry changes nothing and says so.\<close>

lemma record_once_idempotent:
  "record_once (snd (record_once l e n)) e m = (False, snd (record_once l e n))"
  by (simp add: record_once_def)

end
