(* ===== verification/Residency.thy ===== *)
theory Residency
  imports CachePolicies "HOL-Library.Sublist"
begin

text \<open>
  The planner that proposes which objects stay resident (\<open>frontier.rs\<close>) and the ledger of what a
  session has already been shown (\<open>exposure.rs\<close>), with the append-only policy over the
  histories sent to a provider. Sums of \<open>u64\<close> wrap, as in the release builds; the threshold
  is a real number.
\<close>

section \<open>Frontier plans\<close>

record FrontierPlanObject =
  object_root :: rstr
  size_bytes :: nat
  demand_weight :: nat
  valid :: bool
  resident :: bool
  estimated_latency_ms :: nat
  expected_invalidations :: nat

record FrontierBudgets =
  capacity_bytes :: nat
  latency_budget_ms :: nat
  invalidation_budget :: nat

record FrontierPlan =
  plan_tier :: rstr
  plan_capacity :: nat
  threshold :: real
  objects :: "FrontierPlanObject list"
  resident_bytes :: nat
  resident_valid_weight :: nat
  total_demand_weight :: nat
  budget_violations :: "rstr list"

definition wrapping_sum :: "nat list \<Rightarrow> nat" where
  "wrapping_sum ns = sum_list ns mod 2 ^ 64"

definition density :: "FrontierPlanObject \<Rightarrow> nat" where
  "density b = (if size_bytes b = 0 then u64_max else demand_weight b div size_bytes b)"

text \<open>Decreasing density, then the root; the sort is stable.\<close>

definition frontier_candidates :: "FrontierPlanObject list \<Rightarrow> (nat \<times> FrontierPlanObject) list" where
  "frontier_candidates objs =
     sort_key (\<lambda>(i, b). (u64_max - density b, object_root b))
       (filter (\<lambda>(i, b). valid b \<and> 0 < demand_weight b) (enumerate 0 objs))"

fun frontier_select ::
    "FrontierBudgets \<Rightarrow> (nat \<times> FrontierPlanObject) list \<Rightarrow> nat list \<Rightarrow> nat \<Rightarrow> nat \<Rightarrow> nat \<Rightarrow> nat list \<times> nat \<times> nat \<times> nat" where
  "frontier_select g [] picked bytes lat stale = (picked, bytes, lat, stale)"
| "frontier_select g ((i, b) # cs) picked bytes lat stale =
     (let bytes' = sat_add bytes (size_bytes b);
          lat' = sat_add lat (estimated_latency_ms b);
          stale' = sat_add stale (expected_invalidations b)
      in if bytes' \<le> capacity_bytes g \<and> lat' \<le> latency_budget_ms g \<and> stale' \<le> invalidation_budget g
         then frontier_select g cs (picked @ [i]) bytes' lat' stale'
         else frontier_select g cs picked bytes lat stale)"

definition mark_resident :: "nat \<Rightarrow> FrontierPlanObject list \<Rightarrow> FrontierPlanObject list" where
  "mark_resident i objs = objs[i := (objs ! i)\<lparr>resident := True\<rparr>]"

definition plan_frontier_resident_set :: "rstr \<Rightarrow> real \<Rightarrow> FrontierPlanObject list \<Rightarrow> FrontierBudgets \<Rightarrow> FrontierPlan" where
  "plan_frontier_resident_set tr thr objs g =
     (let violations =
            (if capacity_bytes g < wrapping_sum (map size_bytes objs) then [lit ''capacity''] else []) @
            (if latency_budget_ms g < wrapping_sum (map estimated_latency_ms objs) then [lit ''latency''] else []) @
            (if invalidation_budget g < wrapping_sum (map expected_invalidations objs) then [lit ''invalidations''] else []);
          (picked, bytes, lat, stale) = frontier_select g (frontier_candidates objs) [] 0 0 0;
          planned = fold mark_resident picked objs
      in \<lparr>plan_tier = tr, plan_capacity = capacity_bytes g, threshold = max 0 (min 1 thr), objects = planned,
          resident_bytes = bytes,
          resident_valid_weight = wrapping_sum (map demand_weight (filter (\<lambda>b. resident b \<and> valid b) planned)),
          total_demand_weight = wrapping_sum (map demand_weight planned), budget_violations = violations\<rparr>)"

section \<open>Exposure\<close>

record ExposureRow =
  row_ref :: rstr
  row_span :: "rstr option"
  first_exposure_turn :: nat
  row_byte_len :: nat
  reexpansions :: nat

record DynamicEnvelopeExclusion =
  message_indexes :: "nat list"

datatype ProviderHistoryRewrite = Truncated nat nat | RewroteMessage nat nat rstr rstr

definition common_prefix_len :: "'a list \<Rightarrow> 'a list \<Rightarrow> nat" where
  "common_prefix_len xs ys = length (takeWhile (\<lambda>(x, y). x = y) (zip xs ys))"

definition check_history :: "DynamicEnvelopeExclusion \<Rightarrow> rstr list \<Rightarrow> rstr list \<Rightarrow> ProviderHistoryRewrite + nat" where
  "check_history env previous nxt =
     (if length nxt < length previous then Err (Truncated (length previous) (length nxt))
      else let lcp = common_prefix_len previous nxt in
        case find (\<lambda>i. i \<notin> set (message_indexes env) \<and> previous ! i \<noteq> nxt ! i) [lcp..<length previous] of
          Some i \<Rightarrow> Err (RewroteMessage i lcp (previous ! i) (nxt ! i))
        | None \<Rightarrow> Ok lcp)"

record SessionExposureLedger =
  rows :: "((rstr \<times> rstr option) \<times> ExposureRow) list"
  ledger_turn :: nat
  provider_history :: "rstr list"
  history_policy :: DynamicEnvelopeExclusion

definition new_exposure_ledger :: SessionExposureLedger where
  "new_exposure_ledger = \<lparr>rows = [], ledger_turn = 0, provider_history = [], history_policy = \<lparr>message_indexes = []\<rparr>\<rparr>"

definition next_turn :: "SessionExposureLedger \<Rightarrow> nat \<times> SessionExposureLedger" where
  "next_turn l = (let t = sat_add (ledger_turn l) 1 in (t, l\<lparr>ledger_turn := t\<rparr>))"

definition exposure :: "SessionExposureLedger \<Rightarrow> rstr \<Rightarrow> rstr option \<Rightarrow> ExposureRow option" where
  "exposure l r sp = map_of (rows l) (r, sp)"

definition record_exposure :: "SessionExposureLedger \<Rightarrow> rstr \<Rightarrow> rstr option \<Rightarrow> nat \<Rightarrow> bool \<times> SessionExposureLedger" where
  "record_exposure l r sp n =
     (if map_of (rows l) (r, sp) \<noteq> None then (False, l)
      else (True, l\<lparr>rows := ((r, sp), \<lparr>row_ref = r, row_span = sp, first_exposure_turn = ledger_turn l,
              row_byte_len = n, reexpansions = 0\<rparr>) # rows l\<rparr>))"

definition record_reexpansion :: "SessionExposureLedger \<Rightarrow> rstr \<Rightarrow> rstr option \<Rightarrow> nat option \<times> SessionExposureLedger" where
  "record_reexpansion l r sp =
     (case map_of (rows l) (r, sp) of
        None \<Rightarrow> (None, l)
      | Some row \<Rightarrow>
          let n = sat_add (reexpansions row) 1
          in (Some n, l\<lparr>rows := map (\<lambda>(k, x). if k = (r, sp) then (k, row\<lparr>reexpansions := n\<rparr>) else (k, x)) (rows l)\<rparr>))"

definition set_history_policy :: "SessionExposureLedger \<Rightarrow> DynamicEnvelopeExclusion \<Rightarrow> SessionExposureLedger" where
  "set_history_policy l p = l\<lparr>history_policy := p\<rparr>"

definition record_provider_history ::
    "SessionExposureLedger \<Rightarrow> rstr list \<Rightarrow> (ProviderHistoryRewrite + nat) \<times> SessionExposureLedger" where
  "record_provider_history l h =
     (case check_history (history_policy l) (provider_history l) h of
        Inl e \<Rightarrow> (Err e, l)
      | Inr lcp \<Rightarrow> (Ok lcp, l\<lparr>provider_history := h\<rparr>))"

definition exposure_len :: "SessionExposureLedger \<Rightarrow> nat" where
  "exposure_len l = length (rows l)"

section \<open>Selection within the budgets\<close>

lemma sat_add_below: "sat_add a b \<le> n \<Longrightarrow> n < u64_max \<Longrightarrow> sat_add a b = a + b"
  by (simp add: sat_add_def min_def split: if_splits)

lemma frontier_select_facts:
  assumes "capacity_bytes g < u64_max" "latency_budget_ms g < u64_max" "invalidation_budget g < u64_max"
    and "bytes \<le> capacity_bytes g" "lat \<le> latency_budget_ms g" "stale \<le> invalidation_budget g"
    and "frontier_select g cs picked bytes lat stale = (picked', bytes', lat', stale')"
  shows "\<exists>xs. subseq xs cs \<and> picked' = picked @ map fst xs \<and>
    bytes' = bytes + (\<Sum>x\<leftarrow>xs. size_bytes (snd x)) \<and> bytes' \<le> capacity_bytes g \<and>
    lat' = lat + (\<Sum>x\<leftarrow>xs. estimated_latency_ms (snd x)) \<and> lat' \<le> latency_budget_ms g \<and>
    stale' = stale + (\<Sum>x\<leftarrow>xs. expected_invalidations (snd x)) \<and> stale' \<le> invalidation_budget g"
  using assms(4-)
proof (induction cs arbitrary: picked bytes lat stale)
  case Nil
  then show ?case by (intro exI [of _ "[]"]) auto
next
  case (Cons c cs)
  obtain i b where c: "c = (i, b)" by fastforce
  let ?bytes = "sat_add bytes (size_bytes b)" let ?lat = "sat_add lat (estimated_latency_ms b)"
  let ?stale = "sat_add stale (expected_invalidations b)"
  show ?case
  proof (cases "?bytes \<le> capacity_bytes g \<and> ?lat \<le> latency_budget_ms g \<and> ?stale \<le> invalidation_budget g")
    case True
    then have e: "?bytes = bytes + size_bytes b" "?lat = lat + estimated_latency_ms b" "?stale = stale + expected_invalidations b"
      using assms(1-3) sat_add_below by blast+
    have "frontier_select g cs (picked @ [i]) ?bytes ?lat ?stale = (picked', bytes', lat', stale')"
      using Cons.prems(4) True by (simp add: c Let_def)
    from Cons.IH [OF _ _ _ this] True obtain xs where "subseq xs cs" "picked' = picked @ [i] @ map fst xs"
      "bytes' = ?bytes + (\<Sum>x\<leftarrow>xs. size_bytes (snd x))" "bytes' \<le> capacity_bytes g"
      "lat' = ?lat + (\<Sum>x\<leftarrow>xs. estimated_latency_ms (snd x))" "lat' \<le> latency_budget_ms g"
      "stale' = ?stale + (\<Sum>x\<leftarrow>xs. expected_invalidations (snd x))" "stale' \<le> invalidation_budget g" by auto
    then show ?thesis using e by (intro exI [of _ "c # xs"]) (simp add: c)
  next
    case False
    then have "frontier_select g cs picked bytes lat stale = (picked', bytes', lat', stale')"
      using Cons.prems(4) by (simp only: c frontier_select.simps Let_def if_False)
    from Cons.IH [OF Cons.prems(1-3) this] obtain xs where "subseq xs cs" "picked' = picked @ map fst xs"
      "bytes' = bytes + (\<Sum>x\<leftarrow>xs. size_bytes (snd x))" "bytes' \<le> capacity_bytes g"
      "lat' = lat + (\<Sum>x\<leftarrow>xs. estimated_latency_ms (snd x))" "lat' \<le> latency_budget_ms g"
      "stale' = stale + (\<Sum>x\<leftarrow>xs. expected_invalidations (snd x))" "stale' \<le> invalidation_budget g" by auto
    then show ?thesis by (intro exI [of _ xs]) auto
  qed
qed

lemma mark_all:
  assumes "\<forall>i\<in>set is. i < length objs"
  shows "length (fold mark_resident is objs) = length objs"
    "j < length objs \<Longrightarrow> fold mark_resident is objs ! j = (if j \<in> set is then (objs ! j)\<lparr>resident := True\<rparr> else objs ! j)"
  using assms
proof (induction "is" arbitrary: objs)
  case (Cons i "is")
  case 1
  then show ?case using Cons(1) [of "mark_resident i objs"] by (simp add: mark_resident_def)
next
  case (Cons i "is")
  case 2
  then show ?case using Cons(2) [of "mark_resident i objs"] by (auto simp: mark_resident_def nth_list_update)
qed simp_all

lemma indexed_candidates:
  assumes "xs = frontier_candidates objs"
  shows "distinct (map fst xs)" "(i, b) \<in> set xs \<Longrightarrow> i < length objs \<and> b = objs ! i \<and> valid b \<and> 0 < demand_weight b"
proof -
  have "distinct (map fst (enumerate 0 objs))" by (simp add: map_fst_enumerate)
  then have "distinct (map fst (filter (\<lambda>(i, b). valid b \<and> 0 < demand_weight b) (enumerate 0 objs)))" by (rule distinct_map_filter)
  then show "distinct (map fst xs)" unfolding assms frontier_candidates_def
    by (metis (no_types, lifting) distinct_map distinct_sort set_sort)
  show "(i, b) \<in> set xs \<Longrightarrow> i < length objs \<and> b = objs ! i \<and> valid b \<and> 0 < demand_weight b"
    by (auto simp: assms frontier_candidates_def in_set_enumerate_eq)
qed

lemma sum_filter_marked:
  fixes f :: "FrontierPlanObject \<Rightarrow> nat"
  assumes "\<forall>b\<in>set objs. \<not> resident b" and "distinct (map fst xs)" and "\<forall>(i, b)\<in>set xs. i < length objs \<and> b = objs ! i"
    and "\<And>b. f (b\<lparr>resident := True\<rparr>) = f b"
  shows "sum_list (map f (filter resident (fold mark_resident (map fst xs) objs))) = (\<Sum>x\<leftarrow>xs. f (snd x))"
proof -
  let ?is = "map fst xs" let ?m = "fold mark_resident ?is objs"
  have bound: "\<forall>i\<in>set ?is. i < length objs" using assms(3) by auto
  note M = mark_all [OF bound]
  have "filter resident ?m = map ((!) ?m) (filter (\<lambda>i. resident (?m ! i)) [0..<length ?m])"
    by (metis (no_types, lifting) comp_apply filter_cong filter_map map_nth)
  then have "sum_list (map f (filter resident ?m)) = (\<Sum>i\<leftarrow>filter (\<lambda>i. resident (?m ! i)) [0..<length ?m]. f (?m ! i))" by (simp add: comp_def)
  also have "\<dots> = (\<Sum>i\<in>set (filter (\<lambda>i. resident (?m ! i)) [0..<length ?m]). f (?m ! i))" by (simp add: sum_list_distinct_conv_sum_set)
  also have "\<dots> = (\<Sum>i\<in>set ?is. f (objs ! i))"
  proof (rule sum.cong)
    show "set (filter (\<lambda>i. resident (?m ! i)) [0..<length ?m]) = set ?is"
      using M bound assms(1) by (auto split: if_splits simp del: set_map)
    show "f (?m ! i) = f (objs ! i)" if "i \<in> set ?is" for i using that M(2) [of i] bound assms(4) by simp
  qed
  also have "\<dots> = (\<Sum>i\<leftarrow>?is. f (objs ! i))" by (rule sum_list_distinct_conv_sum_set [OF assms(2), symmetric])
  also have "\<dots> = (\<Sum>x\<leftarrow>xs. f (snd x))" using assms(3) by (auto simp: comp_def intro!: arg_cong [of _ _ sum_list] map_cong)
  finally show ?thesis .
qed

section \<open>Histories\<close>

lemma common_prefix_agree:
  "i < common_prefix_len xs ys \<Longrightarrow> xs ! i = ys ! i" "common_prefix_len xs ys \<le> length xs" "common_prefix_len xs ys \<le> length ys"
proof -
  let ?z = "zip xs ys" let ?p = "\<lambda>(x, y). x = y"
  have len: "common_prefix_len xs ys \<le> length ?z" unfolding common_prefix_len_def by (rule length_takeWhile_le)
  then show "common_prefix_len xs ys \<le> length xs" "common_prefix_len xs ys \<le> length ys" by simp_all
  assume i: "i < common_prefix_len xs ys"
  then have "?p (takeWhile ?p ?z ! i)" unfolding common_prefix_len_def using nth_mem set_takeWhileD by metis
  moreover have "takeWhile ?p ?z ! i = ?z ! i" using i unfolding common_prefix_len_def by (rule takeWhile_nth)
  ultimately show "xs ! i = ys ! i" using i len by simp
qed

lemma common_prefix_all: "xs = take (length xs) ys \<Longrightarrow> common_prefix_len xs ys = length xs"
proof (induction xs arbitrary: ys)
  case (Cons x xs)
  then show ?case by (cases ys) (auto simp: common_prefix_len_def)
qed (simp add: common_prefix_len_def)

section \<open>Properties\<close>

text \<open>When no object is marked resident beforehand, a plan keeps every budget: the sizes, latencies and
  invalidations of its resident objects add up to at most their budgets, the reported size is
  the exact sum, and only valid, demanded objects are resident.\<close>

theorem frontier_plan_within_budgets:
  assumes "capacity_bytes g < u64_max" "latency_budget_ms g < u64_max" "invalidation_budget g < u64_max"
    and "\<forall>b\<in>set objs. \<not> resident b" and "plan = plan_frontier_resident_set tr thr objs g"
  shows "resident_bytes plan = sum_list (map size_bytes (filter resident (objects plan))) \<and> resident_bytes plan \<le> capacity_bytes g \<and>
    sum_list (map estimated_latency_ms (filter resident (objects plan))) \<le> latency_budget_ms g \<and>
    sum_list (map expected_invalidations (filter resident (objects plan))) \<le> invalidation_budget g \<and>
    (\<forall>b\<in>set (objects plan). resident b \<longrightarrow> valid b \<and> 0 < demand_weight b)"
proof -
  obtain picked bytes lat stale where sel: "frontier_select g (frontier_candidates objs) [] 0 0 0 = (picked, bytes, lat, stale)"
    by (metis prod_cases4)
  from frontier_select_facts [OF assms(1-3) _ _ _ sel] obtain xs where xs: "subseq xs (frontier_candidates objs)" "picked = map fst xs"
    "bytes = (\<Sum>x\<leftarrow>xs. size_bytes (snd x))" "bytes \<le> capacity_bytes g"
    "(\<Sum>x\<leftarrow>xs. estimated_latency_ms (snd x)) \<le> latency_budget_ms g" "(\<Sum>x\<leftarrow>xs. expected_invalidations (snd x)) \<le> invalidation_budget g" by auto
  have plan: "objects plan = fold mark_resident (map fst xs) objs" "resident_bytes plan = bytes"
    by (simp_all add: assms(5) plan_frontier_resident_set_def sel xs(2) Let_def)
  have d: "distinct (map fst xs)" using xs(1) indexed_candidates(1) [OF refl] by (metis subseq_map subseq_conv_nths distinct_nthsI)
  have sub: "set xs \<subseteq> set (frontier_candidates objs)" using xs(1) by (metis subseq_conv_nths set_nths_subset)
  then have ix: "\<forall>(i, b)\<in>set xs. i < length objs \<and> b = objs ! i" using indexed_candidates(2) [OF refl] by fastforce
  note S = sum_filter_marked [OF assms(4) d ix]
  have ok: "\<forall>(i, b)\<in>set xs. valid b \<and> 0 < demand_weight b" using sub indexed_candidates(2) [OF refl] by fastforce
  have bound: "\<forall>i\<in>set (map fst xs). i < length objs" using ix by auto
  have "valid b \<and> 0 < demand_weight b" if mem: "b \<in> set (objects plan)" and res: "resident b" for b
  proof -
    obtain j where j: "j < length objs" "b = fold mark_resident (map fst xs) objs ! j"
      using mem mark_all(1) [OF bound] unfolding plan(1) in_set_conv_nth by auto
    then have "b = (if j \<in> set (map fst xs) then (objs ! j)\<lparr>resident := True\<rparr> else objs ! j)" using mark_all(2) [OF bound] by simp
    then have "j \<in> set (map fst xs)" "b = (objs ! j)\<lparr>resident := True\<rparr>" using res assms(4) j(1) by (auto split: if_splits)
    then obtain x where "(j, x) \<in> set xs" "x = objs ! j" using ix by auto
    then show ?thesis using ok \<open>b = (objs ! j)\<lparr>resident := True\<rparr>\<close> by auto
  qed
  then show ?thesis using S [of size_bytes] S [of estimated_latency_ms] S [of expected_invalidations] xs(3-6) plan by simp
qed

definition sample_object :: "bool \<Rightarrow> nat \<Rightarrow> FrontierPlanObject" where
  "sample_object res n = \<lparr>object_root = lit ''a'', size_bytes = n, demand_weight = 5, valid = True, resident = res,
     estimated_latency_ms = 1, expected_invalidations = 0\<rparr>"

theorem frontier_plan_within_budgets_witness:
  "resident_bytes (plan_frontier_resident_set [] 1 [sample_object False 10] \<lparr>capacity_bytes = 20, latency_budget_ms = 5, invalidation_budget = 1\<rparr>) \<le> 20"
  using frontier_plan_within_budgets [of "\<lparr>capacity_bytes = 20, latency_budget_ms = 5, invalidation_budget = 1\<rparr>" "[sample_object False 10]" _ "[]" 1, OF _ _ _ _ refl]
  by (simp add: u64_max_def sample_object_def)

text \<open>A mark the caller already set is never cleared: an object that is too large for the budget but came in
  as resident stays resident in the proposal, is not counted in the reported size, and counts
  towards the reported weight.\<close>

theorem frontier_keeps_stale_residents:
  assumes "g = \<lparr>capacity_bytes = c, latency_budget_ms = l, invalidation_budget = v\<rparr>" and "c < n" and "n < u64_max"
    and "plan = plan_frontier_resident_set tr thr [sample_object True n] g"
  shows "objects plan = [sample_object True n] \<and> resident_bytes plan = 0 \<and> resident_valid_weight plan = 5"
proof -
  have "frontier_candidates [sample_object True n] = [(0, sample_object True n)]"
    by (simp add: frontier_candidates_def sample_object_def)
  then show ?thesis using assms
    by (simp add: plan_frontier_resident_set_def Let_def sat_add_def sample_object_def wrapping_sum_def)
qed

theorem frontier_keeps_stale_residents_witness:
  "\<exists>plan. plan = plan_frontier_resident_set [] 1 [sample_object True 50] \<lparr>capacity_bytes = 20, latency_budget_ms = 5, invalidation_budget = 1\<rparr> \<and>
     objects plan = [sample_object True 50] \<and> resident_bytes plan = 0"
  using frontier_keeps_stale_residents [OF refl _ _ refl, of 20 50 "[]" 1 5 1] by (simp add: u64_max_def)

text \<open>The append-only policy accepts a history exactly when it is at least as long as the previous one and
  agrees with it outside the declared segments; with none declared, exactly when it extends
  it. It answers the length of the common prefix, and otherwise names the first message that
  was rewritten, or the truncation.\<close>

theorem history_policy_exact:
  "(case check_history env previous nxt of
      Inr lcp \<Rightarrow> length previous \<le> length nxt \<and> lcp = common_prefix_len previous nxt \<and>
        (\<forall>i<length previous. i \<in> set (message_indexes env) \<or> previous ! i = nxt ! i)
    | Inl (Truncated m n) \<Rightarrow> m = length previous \<and> n = length nxt \<and> n < m
    | Inl (RewroteMessage i lcp old new) \<Rightarrow> length previous \<le> length nxt \<and> i < length previous \<and> old = previous ! i \<and> new = nxt ! i \<and>
        old \<noteq> new \<and> i \<notin> set (message_indexes env) \<and>
        (\<forall>j<i. j \<in> set (message_indexes env) \<or> previous ! j = nxt ! j)) \<and>
   (message_indexes env = [] \<longrightarrow> (\<exists>lcp. check_history env previous nxt = Ok lcp) = prefix previous nxt)"
proof (cases "length nxt < length previous")
  case True
  then have "\<not> prefix previous nxt" using prefix_length_le by fastforce
  then show ?thesis using True by (simp add: check_history_def)
next
  case False
  let ?lcp = "common_prefix_len previous nxt"
  let ?P = "\<lambda>i. i \<notin> set (message_indexes env) \<and> previous ! i \<noteq> nxt ! i"
  have low: "i < ?lcp \<Longrightarrow> \<not> ?P i" for i using common_prefix_agree(1) by blast
  show ?thesis
  proof (cases "find ?P [?lcp..<length previous]")
    case None
    then have all: "i < length previous \<Longrightarrow> \<not> ?P i" for i using low [of i] by (auto simp: find_None_iff)
    have "message_indexes env = [] \<Longrightarrow> previous = take (length previous) nxt" using all False by (intro nth_equalityI) auto
    then have "message_indexes env = [] \<Longrightarrow> prefix previous nxt" by (metis take_is_prefix)
    then show ?thesis using None False all by (auto simp: check_history_def)
  next
    case (Some i)
    then obtain k where k: "k < length previous - ?lcp" "i = ?lcp + k" "?P i" "\<forall>j<k. \<not> ?P (?lcp + j)"
      by (auto simp: find_Some_iff)
    have first: "j < i \<Longrightarrow> \<not> ?P j" for j using low [of j] k(2,4) by (cases "j < ?lcp") (auto dest: spec [of _ "j - ?lcp"])
    have i: "i < length previous" using k(1,2) by simp
    then have "prefix previous nxt \<Longrightarrow> previous ! i = nxt ! i" by (auto simp: prefix_def nth_append)
    then have "\<not> prefix previous nxt" using k(3) by blast
    then show ?thesis using Some False k(3) i first by (auto simp: check_history_def)
  qed
qed

theorem history_policy_exact_witness:
  "\<exists>lcp. check_history \<lparr>message_indexes = []\<rparr> [lit ''a''] [lit ''a'', lit ''b''] = Ok lcp"
  using history_policy_exact [where env = "\<lparr>message_indexes = []\<rparr>" and previous = "[lit ''a'']" and nxt = "[lit ''a'', lit ''b'']"]
  by simp

text \<open>First exposure is recorded once and re-expansions are counted on it.\<close>

lemma record_exposure_once:
  "exposure (snd (record_exposure l r sp n)) r sp \<noteq> None"
  "record_exposure (snd (record_exposure l r sp n)) r sp m = (False, snd (record_exposure l r sp n))"
  by (auto simp: record_exposure_def exposure_def)

end
