(* ===== verification/Kernel.thy ===== *)
theory Kernel
  imports Capsule SourceFiles
begin

text \<open>
  The token engine the kernel consumes (\<open>tokenzero-kernel/src/lib.rs\<close>): measuring and certifying
  counts, projecting a payload into a byte budget behind an exact handle, and compressing it
  into a token budget. The byte-pair encodings of \<open>tiktoken\<close> and the content-addressed store
  are the record \<open>kernel_env\<close>; a handle is its printed form. Cancellation and the environment
  of the process are arguments.
\<close>

section \<open>Accounts\<close>

record TokenAccounting =
  ta_tokenizer :: rstr
  billed :: nat
  ta_visible :: nat
  cached :: nat
  certified :: bool

record AccountMass =
  mass_raw :: nat
  mass_visible :: nat
  mass_recovered :: nat
  mass_spent :: nat

definition account_mass :: "TokenAccounting \<Rightarrow> AccountMass" where
  "account_mass t = \<lparr>mass_raw = billed t, mass_visible = ta_visible t, mass_recovered = cached t,
     mass_spent = sat_add (ta_visible t) (cached t)\<rparr>"

datatype TiktokenTokenizer = Cl100kBase | O200kBase | O200kHarmony | P50kBase | R50kBase | P50kEdit | Gpt2

datatype EngineErrorKind = CancelledKind | BudgetKind | InvalidInputKind | CorruptKind

record EngineError =
  error_kind :: EngineErrorKind
  error_message :: rstr
  error_retryable :: bool

definition engine_error :: "EngineErrorKind \<Rightarrow> rstr \<Rightarrow> EngineError" where
  "engine_error k m = \<lparr>error_kind = k, error_message = m, error_retryable = False\<rparr>"

record ZeroObjectMetadata =
  meta_handle :: rstr
  meta_byte_len :: nat
  meta_media_type :: rstr
  meta_producer :: rstr
  meta_contract :: rstr
  meta_selection :: "rstr option"

text \<open>\<open>bpe_for_model\<close> counts the tokens of a text when the model has an encoding.\<close>

record ('c, 'o) kernel_env =
  get_tokenizer :: "rstr \<Rightarrow> TiktokenTokenizer option"
  bpe_for_model :: "rstr \<Rightarrow> (rstr \<Rightarrow> nat) option"
  cas_put :: "'c \<Rightarrow> byte list \<Rightarrow> (rstr + rstr) \<times> 'c"
  cas_publish :: "'c \<Rightarrow> ZeroObjectMetadata \<Rightarrow> (rstr + unit) \<times> 'c"
  cas_expand :: "'c \<Rightarrow> rstr \<Rightarrow> 'o \<Rightarrow> rstr + byte list"

section \<open>Tokenizer identities\<close>

text \<open>The panic of the source on an identity that fails the preflight is \<open>None\<close>.\<close>

definition seal_tokenizer_id :: "rstr \<Rightarrow> rstr option" where
  "seal_tokenizer_id tid = (case preflight_tokenizer_id tid of Inr u \<Rightarrow> Some tid | Inl e \<Rightarrow> None)"

definition estimator_tokenizer_id :: "rstr option \<Rightarrow> rstr" where
  "estimator_tokenizer_id model_id =
     the (seal_tokenizer_id (case Option.bind model_id tokenizer_metadata of
       Some m \<Rightarrow> lit ''estimator:tokenzero-'' @ family_name (family m)
     | None \<Rightarrow> LEXICAL_ESTIMATOR_ID))"

fun encoding_name :: "TiktokenTokenizer option \<Rightarrow> rstr" where
  "encoding_name (Some Cl100kBase) = lit ''cl100k_base''"
| "encoding_name (Some O200kBase) = lit ''o200k_base''"
| "encoding_name (Some O200kHarmony) = lit ''o200k_harmony''"
| "encoding_name (Some P50kBase) = lit ''p50k_base''"
| "encoding_name (Some R50kBase) = lit ''r50k_base''"
| "encoding_name (Some P50kEdit) = lit ''p50k_edit''"
| "encoding_name (Some Gpt2) = lit ''gpt2''"
| "encoding_name None = lit ''unknown''"

definition tiktoken_tokenizer_id :: "('c, 'o) kernel_env \<Rightarrow> rstr \<Rightarrow> rstr" where
  "tiktoken_tokenizer_id K model = the (seal_tokenizer_id (lit ''tiktoken:'' @ encoding_name (get_tokenizer K model)))"

definition sealed_accounting :: "rstr \<Rightarrow> nat \<Rightarrow> bool \<Rightarrow> TokenAccounting" where
  "sealed_accounting tid n exact =
     \<lparr>ta_tokenizer = the (seal_tokenizer_id tid), billed = n, ta_visible = n, cached = 0, certified = exact\<rparr>"

definition active_model_of_env :: "(rstr \<Rightarrow> rstr option) \<Rightarrow> rstr option" where
  "active_model_of_env env =
     (case List.map_filter env (map lit [''TOKENZERO_MODEL'', ''OMP_MODEL'', ''OPENAI_MODEL'']) of
        [] \<Rightarrow> None
      | v # vs \<Rightarrow> if trim v = [] then None else Some (trim v))"

section \<open>Measuring\<close>

definition kernel_count :: "('c, 'o) kernel_env \<Rightarrow> rstr option \<Rightarrow> byte list \<Rightarrow> TokenAccounting" where
  "kernel_count K model_id bytes =
     (case (from_utf8 bytes, model_id, Option.bind model_id (bpe_for_model K)) of
        (Some t, Some model, Some bpe) \<Rightarrow> sealed_accounting (tiktoken_tokenizer_id K model) (bpe t) True
      | (Some t, _, _) \<Rightarrow> sealed_accounting (estimator_tokenizer_id model_id) (count_tokens_for_model t model_id) False
      | (None, _, _) \<Rightarrow> sealed_accounting BYTES_ESTIMATOR_ID (length bytes) False)"

abbreviation text_count :: "('c, 'o) kernel_env \<Rightarrow> rstr option \<Rightarrow> rstr \<Rightarrow> TokenAccounting" where
  "text_count K model_id t \<equiv> kernel_count K model_id (as_bytes t)"

definition cancelled_check :: "bool \<Rightarrow> EngineError + unit" where
  "cancelled_check c = (if c then Err (engine_error CancelledKind (lit ''TokenZero operation cancelled'')) else Ok ())"

definition measure_tokens :: "('c, 'o) kernel_env \<Rightarrow> rstr option \<Rightarrow> bool \<Rightarrow> byte list \<Rightarrow> EngineError + TokenAccounting" where
  "measure_tokens K model_id c bytes = map_sum id (\<lambda>u. kernel_count K model_id bytes) (cancelled_check c)"

definition certify :: "('c, 'o) kernel_env \<Rightarrow> rstr option \<Rightarrow> bool \<Rightarrow> byte list \<Rightarrow> TokenAccounting \<Rightarrow> EngineError + (bool \<times> TokenAccounting)" where
  "certify K model_id c bytes claimed =
     map_sum id (\<lambda>u. let r = kernel_count K model_id bytes in (r = claimed, r)) (cancelled_check c)"

text \<open>Longest character prefix within the budget, from the longest down; the empty one when none fits.\<close>

fun longest_prefix :: "('c, 'o) kernel_env \<Rightarrow> rstr option \<Rightarrow> nat \<Rightarrow> rstr \<Rightarrow> nat \<Rightarrow> (rstr \<times> TokenAccounting) option" where
  "longest_prefix K model_id n t 0 = (let a = text_count K model_id [] in if billed a \<le> n then Some ([], a) else None)"
| "longest_prefix K model_id n t (Suc k) =
     (let a = text_count K model_id (take (Suc k) t)
      in if billed a \<le> n then Some (take (Suc k) t, a) else longest_prefix K model_id n t k)"

definition clamp_visible_to_budget ::
    "('c, 'o) kernel_env \<Rightarrow> rstr option \<Rightarrow> rstr \<Rightarrow> nat \<Rightarrow> rstr \<times> TokenAccounting \<times> bool" where
  "clamp_visible_to_budget K model_id t n =
     (let a = text_count K model_id t in
      if billed a \<le> n then (t, a, False)
      else case longest_prefix K model_id n t (length t) of
        Some (p, a) \<Rightarrow> (p, a, length p \<noteq> length t)
      | None \<Rightarrow> ([], text_count K model_id [], True))"

section \<open>Exact storage\<close>

definition cas_error :: "rstr \<Rightarrow> EngineError" where
  "cas_error e = engine_error CorruptKind (lit ''ZeroHandle CAS: '' @ e)"

definition store_exact ::
    "('c, 'o) kernel_env \<Rightarrow> 'c \<Rightarrow> byte list \<Rightarrow> rstr \<Rightarrow> (EngineError + rstr) \<times> 'c" where
  "store_exact K c bytes media =
     (case cas_put K c bytes of
        (Inl e, c) \<Rightarrow> (Err (cas_error e), c)
      | (Inr h, c) \<Rightarrow>
        (case cas_publish K c \<lparr>meta_handle = h, meta_byte_len = length bytes, meta_media_type = media,
            meta_producer = lit ''TokenZero'', meta_contract = lit ''ZeroKernel.TokenEngine'', meta_selection = from_utf8 bytes\<rparr> of
           (Inl e, c) \<Rightarrow> (Err (cas_error e), c)
         | (Inr u, c) \<Rightarrow> (Ok h, c)))"

definition kernel_expand :: "('c, 'o) kernel_env \<Rightarrow> bool \<Rightarrow> 'c \<Rightarrow> rstr \<Rightarrow> 'o \<Rightarrow> EngineError + byte list" where
  "kernel_expand K cancel c h opts =
     (case cancelled_check cancel of
        Inl e \<Rightarrow> Err e
      | Inr u \<Rightarrow> map_sum cas_error id (cas_expand K c h opts))"

section \<open>Projection\<close>

text \<open>\<open>String::from_utf8_lossy\<close>: a maximal part of an ill-formed sequence becomes one replacement
  character; a well-formed input is returned as it is.\<close>

definition cont_byte :: "byte \<Rightarrow> bool" where "cont_byte b \<longleftrightarrow> 0x80 \<le> b \<and> b \<le> 0xBF"

definition second_byte :: "byte \<Rightarrow> byte \<Rightarrow> bool" where
  "second_byte a b \<longleftrightarrow>
     (if a = 0xE0 then 0xA0 \<le> b \<and> b \<le> 0xBF else if a = 0xED then 0x80 \<le> b \<and> b \<le> 0x9F
      else if a = 0xF0 then 0x90 \<le> b \<and> b \<le> 0xBF else if a = 0xF4 then 0x80 \<le> b \<and> b \<le> 0x8F else cont_byte b)"

definition chunk_len :: "byte list \<Rightarrow> nat \<times> bool" where
  "chunk_len bs =
     (let a = hd bs; ok = (\<lambda>i p. i < length bs \<and> p (bs ! i)) in
      if a < 0x80 then (1, True)
      else if a < 0xC2 \<or> 0xF4 < a then (1, False)
      else if \<not> ok 1 (second_byte a) then (1, False)
      else if a < 0xE0 then (2, True)
      else if \<not> ok 2 cont_byte then (2, False)
      else if a < 0xF0 then (3, True)
      else if \<not> ok 3 cont_byte then (3, False)
      else (4, True))"

lemma chunk_len_pos: "0 < fst (chunk_len bs)"
  by (simp add: chunk_len_def Let_def)

function lossy_loop :: "byte list \<Rightarrow> rstr" where
  "lossy_loop [] = []"
| "lossy_loop (b # bs) =
     (let n = fst (chunk_len (b # bs))
      in (if snd (chunk_len (b # bs)) then utf8_value (take n (b # bs)) else 0xFFFD) # lossy_loop (drop n (b # bs)))"
  by pat_completeness auto
termination
  by (relation "measure length") (use chunk_len_pos in auto)

definition from_utf8_lossy :: "byte list \<Rightarrow> rstr" where
  "from_utf8_lossy bs = (case from_utf8 bs of Some t \<Rightarrow> t | None \<Rightarrow> lossy_loop bs)"

fun boundary_at_most :: "rstr \<Rightarrow> nat \<Rightarrow> nat" where
  "boundary_at_most s 0 = 0"
| "boundary_at_most s (Suc n) = (if is_char_boundary s (Suc n) then Suc n else boundary_at_most s n)"

text \<open>A slice that is not on a boundary panics: \<open>None\<close>.\<close>

definition bounded_utf8 :: "rstr \<Rightarrow> rstr \<Rightarrow> nat \<Rightarrow> rstr option" where
  "bounded_utf8 source marker limit =
     (if limit = 0 then Some []
      else if limit \<le> blen marker then byte_slice marker 0 (boundary_at_most marker limit)
      else let head_limit = limit - blen marker;
               stop = boundary_at_most source (min (blen source) head_limit)
           in map_option (\<lambda>s. s @ marker) (byte_slice source 0 stop))"

definition exact_marker :: "rstr \<Rightarrow> rstr" where
  "exact_marker h = [10] @ lit ''exact: '' @ h"

record ProjectionResult =
  pr_visible :: rstr
  visible_source_bytes :: nat
  pr_exact :: "rstr option"
  pr_accounting :: TokenAccounting

definition inline_projection :: "byte list \<Rightarrow> rstr \<Rightarrow> TokenAccounting \<Rightarrow> ProjectionResult" where
  "inline_projection bytes t a = \<lparr>pr_visible = t, visible_source_bytes = length bytes, pr_exact = None, pr_accounting = a\<rparr>"

definition handle_projection ::
    "('c, 'o) kernel_env \<Rightarrow> rstr option \<Rightarrow> byte list \<Rightarrow> nat \<Rightarrow> rstr \<Rightarrow> ProjectionResult option" where
  "handle_projection K model_id bytes limit h =
     (let marker = exact_marker h; raw = kernel_count K model_id bytes in
      case bounded_utf8 (from_utf8_lossy bytes) marker limit of
        None \<Rightarrow> None
      | Some visible \<Rightarrow>
          let source_bytes = (case strip_suffix marker visible of None \<Rightarrow> 0 | Some s \<Rightarrow> blen s);
              n = text_count K model_id visible
          in case from_utf8 bytes of
               Some t \<Rightarrow>
                 if billed raw < ta_visible n then Some (inline_projection bytes t raw)
                 else Some \<lparr>pr_visible = visible, visible_source_bytes = source_bytes, pr_exact = Some h,
                        pr_accounting = raw\<lparr>ta_visible := ta_visible n, certified := certified raw \<and> certified n\<rparr>\<rparr>
             | None \<Rightarrow>
                 Some \<lparr>pr_visible = visible, visible_source_bytes = source_bytes, pr_exact = Some h,
                        pr_accounting = raw\<lparr>ta_visible := ta_visible n, certified := certified raw \<and> certified n\<rparr>\<rparr>)"

definition kernel_project ::
    "('c, 'o) kernel_env \<Rightarrow> rstr option \<Rightarrow> bool \<Rightarrow> 'c \<Rightarrow> byte list \<Rightarrow> rstr \<Rightarrow> nat \<Rightarrow>
     ((EngineError + ProjectionResult) \<times> 'c) option" where
  "kernel_project K model_id cancel c bytes media limit =
     (case cancelled_check cancel of
        Inl e \<Rightarrow> Some (Err e, c)
      | Inr u \<Rightarrow>
        (case if length bytes \<le> limit then from_utf8 bytes else None of
           Some t \<Rightarrow> Some (Ok (inline_projection bytes t (kernel_count K model_id bytes)), c)
         | None \<Rightarrow>
             if limit < 80 then Some (Err (engine_error BudgetKind
               (lit ''visible output budget is too small for an exact ZeroHandle'')), c)
             else case store_exact K c bytes media of
               (Inl e, c) \<Rightarrow> Some (Err e, c)
             | (Inr h, c) \<Rightarrow> map_option (\<lambda>r. (Ok r, c)) (handle_projection K model_id bytes limit h)))"

section \<open>Compression\<close>

record CompressionResult =
  cr_visible :: rstr
  cr_exact :: rstr
  truncated :: bool
  omitted_tokens :: nat
  cr_accounting :: TokenAccounting

definition passthrough_compression :: "rstr \<Rightarrow> rstr \<Rightarrow> TokenAccounting \<Rightarrow> CompressionResult" where
  "passthrough_compression t h raw =
     \<lparr>cr_visible = t, cr_exact = h, truncated = False, omitted_tokens = 0, cr_accounting = raw\<lparr>ta_visible := billed raw\<rparr>\<rparr>"

fun best_digest ::
    "('c, 'o) kernel_env \<Rightarrow> rstr option \<Rightarrow> nat \<Rightarrow> (Mode \<Rightarrow> rstr + Capsule) \<Rightarrow> Mode list \<Rightarrow> Capsule \<Rightarrow> nat \<Rightarrow> Capsule" where
  "best_digest K model_id raw mk [] best cost = best"
| "best_digest K model_id raw mk (m # ms) best cost =
     (case mk m of
        Inl e \<Rightarrow> best_digest K model_id raw mk ms best cost
      | Inr alt \<Rightarrow>
          let n = billed (text_count K model_id (capsule_text alt))
          in if n < raw \<and> n < cost then best_digest K model_id raw mk ms alt n
             else best_digest K model_id raw mk ms best cost)"

definition finish_compression ::
    "('c, 'o) kernel_env \<Rightarrow> rstr option \<Rightarrow> rstr \<Rightarrow> rstr \<Rightarrow> TokenAccounting \<Rightarrow> nat \<Rightarrow> Capsule \<Rightarrow> CompressionResult" where
  "finish_compression K model_id t h raw max_tokens capsule =
     (if billed raw < billed (text_count K model_id (capsule_text capsule)) then passthrough_compression t h raw
      else
        let (visible, a, cut) = clamp_visible_to_budget K model_id (capsule_text capsule) max_tokens;
            n = min (billed a) max_tokens
        in if billed raw < n then passthrough_compression t h raw
           else \<lparr>cr_visible = visible, cr_exact = h, truncated = cut, omitted_tokens = billed raw - n,
                 cr_accounting = raw\<lparr>ta_visible := n, certified := certified raw \<and> certified a\<rparr>\<rparr>)"

definition kernel_compress ::
    "'j serde \<Rightarrow> rstr option \<Rightarrow> ('c, 'o) kernel_env \<Rightarrow> rstr option \<Rightarrow> bool \<Rightarrow> 'c \<Rightarrow> byte list \<Rightarrow> rstr \<Rightarrow> rstr \<Rightarrow> nat \<Rightarrow> rstr option \<Rightarrow>
     (EngineError + CompressionResult) \<times> 'c" where
  "kernel_compress J active K model_id cancel c bytes media mode_text max_tokens label =
     (case cancelled_check cancel of
        Inl e \<Rightarrow> (Err e, c)
      | Inr u \<Rightarrow>
        if max_tokens = 0 then (Err (engine_error InvalidInputKind (lit ''compression max_tokens must be positive'')), c)
        else case from_utf8 bytes of
          None \<Rightarrow> (Err (engine_error InvalidInputKind (lit ''compression input must be UTF-8'')), c)
        | Some t \<Rightarrow>
          (case if mode_text = [] then Ok Auto else mode_from_str mode_text of
             Inl e \<Rightarrow> (Err (engine_error InvalidInputKind e), c)
           | Inr mode \<Rightarrow>
             let raw = kernel_count K model_id bytes in
             (case store_exact K c bytes media of
                (Inl e, c) \<Rightarrow> (Err e, c)
              | (Inr h, c) \<Rightarrow>
                let mk = (\<lambda>m. make_capsule_with_recovery_ref J active t (billed raw) m max_tokens label (Some h)) in
                (case mk mode of
                   Inl e \<Rightarrow> (Err (engine_error BudgetKind e), c)
                 | Inr capsule \<Rightarrow>
                     let capsule = (if (512 < length bytes \<or> 20 < length (str_lines t)) \<and> mode = Auto
                           then best_digest K model_id (billed raw) mk [Dedupe, Structured] capsule
                                  (billed (text_count K model_id (capsule_text capsule)))
                           else capsule)
                     in (Ok (finish_compression K model_id t h raw max_tokens capsule), c)))))"

section \<open>Identities and counts\<close>

lemma estimator_id_sealed: "preflight_tokenizer_id (estimator_tokenizer_id model_id) = Ok ()"
proof -
  have f: "preflight_tokenizer_id (lit ''estimator:tokenzero-'' @ family_name f) = Ok ()" for f
    by (cases f; simp only: family_name.simps; code_simp)
  have l: "preflight_tokenizer_id LEXICAL_ESTIMATOR_ID = Ok ()" by code_simp
  show ?thesis
    by (cases "Option.bind model_id tokenizer_metadata") (simp_all add: estimator_tokenizer_id_def seal_tokenizer_id_def f l)
qed

lemma tiktoken_id_sealed: "preflight_tokenizer_id (tiktoken_tokenizer_id K model) = Ok ()"
proof -
  have "preflight_tokenizer_id (lit ''tiktoken:'' @ encoding_name (Some e)) = Ok ()" for e
    by (cases e; simp only: encoding_name.simps; code_simp)
  moreover have "preflight_tokenizer_id (lit ''tiktoken:'' @ encoding_name None) = Ok ()" by code_simp
  ultimately have "preflight_tokenizer_id (lit ''tiktoken:'' @ encoding_name e) = Ok ()" for e by (cases e) auto
  then show ?thesis by (simp add: tiktoken_tokenizer_id_def seal_tokenizer_id_def)
qed

lemma kernel_count_cases:
  obtains tid n exact where "kernel_count K m b = sealed_accounting tid n exact" "preflight_tokenizer_id tid = Ok ()"
    "exact \<longleftrightarrow> from_utf8 b \<noteq> None \<and> Option.bind m (bpe_for_model K) \<noteq> None"
proof -
  have "preflight_tokenizer_id BYTES_ESTIMATOR_ID = Ok ()" by code_simp
  then show ?thesis
    using that estimator_id_sealed [of m] tiktoken_id_sealed [of K]
    by (cases "from_utf8 b"; cases m; cases "Option.bind m (bpe_for_model K)") (auto simp: kernel_count_def)
qed

lemma kernel_count_accounts [simp]: "ta_visible (kernel_count K m b) = billed (kernel_count K m b)"
    "cached (kernel_count K m b) = 0"
  by (rule kernel_count_cases [of K m b], simp add: sealed_accounting_def)+

text \<open>Every count the engine reports carries an identity that passes the honesty preflight, so the
  panic that guards identities is unreachable; the count is certified exactly for UTF-8 input
  with an encoding for the model, and recomputation certifies exactly the engine's own account.\<close>

theorem kernel_count_honest:
  "preflight_tokenizer_id (ta_tokenizer (kernel_count K m b)) = Ok () \<and>
   (certified (kernel_count K m b) \<longleftrightarrow> from_utf8 b \<noteq> None \<and> Option.bind m (bpe_for_model K) \<noteq> None) \<and>
   (certify K m False b claimed = Ok (True, claimed) \<longleftrightarrow> measure_tokens K m False b = Ok claimed) \<and>
   mass_spent (account_mass (kernel_count K m b)) = sat_add (billed (kernel_count K m b)) 0"
  by (rule kernel_count_cases [of K m b])
    (auto simp: sealed_accounting_def seal_tokenizer_id_def certify_def measure_tokens_def cancelled_check_def
      account_mass_def Let_def)

section \<open>Clamping\<close>

lemma longest_prefix_Some:
  "longest_prefix K m n t k = Some (p, a) \<Longrightarrow>
     p = take (length p) t \<and> a = text_count K m p \<and> billed a \<le> n \<and>
     (\<forall>j. length p < j \<and> j \<le> k \<and> j \<le> length t \<longrightarrow> n < billed (text_count K m (take j t)))"
proof (induction k)
  case (Suc k)
  show ?case
  proof (cases "billed (text_count K m (take (Suc k) t)) \<le> n")
    case True
    with Suc.prems have "p = take (Suc k) t" "a = text_count K m p" by (auto simp: Let_def)
    with True show ?thesis by (auto simp: min_def)
  next
    case False
    with Suc.prems have IH: "longest_prefix K m n t k = Some (p, a)" by (simp add: Let_def)
    have "n < billed (text_count K m (take j t))" if j: "length p < j" "j \<le> Suc k" "j \<le> length t" for j
      using Suc.IH [OF IH] j False by (cases "j = Suc k") auto
    with Suc.IH [OF IH] show ?thesis by blast
  qed
qed (auto simp: Let_def split: if_splits)

lemma longest_prefix_None:
  "longest_prefix K m n t k = None \<Longrightarrow> j \<le> k \<Longrightarrow> n < billed (text_count K m (take j t))"
  by (induction k) (auto simp: Let_def le_Suc_eq split: if_splits)

lemma clamp_cases:
  assumes "clamp_visible_to_budget K m t n = (p, a, shorter)"
  shows "p = take (length p) t" "a = text_count K m p" "billed a \<le> n \<or> p = [] \<and> shorter" "shorter \<longrightarrow> n < billed (text_count K m t)"
    "\<not> shorter \<Longrightarrow> p = t"
    "length p < j \<Longrightarrow> j \<le> length t \<Longrightarrow> n < billed (text_count K m (take j t))"
proof -
  consider (fits) "billed (text_count K m t) \<le> n" "p = t" "a = text_count K m t" "\<not> shorter"
    | (some) "n < billed (text_count K m t)" "longest_prefix K m n t (length t) = Some (p, a)" "shorter \<longleftrightarrow> length p \<noteq> length t"
    | (none) "n < billed (text_count K m t)" "longest_prefix K m n t (length t) = None" "p = []" "a = text_count K m []" "shorter"
    using assms by (auto simp: clamp_visible_to_budget_def Let_def split: if_splits option.splits)
  then have "p = take (length p) t \<and> a = text_count K m p \<and> (billed a \<le> n \<or> p = [] \<and> shorter) \<and>
    (shorter \<longrightarrow> n < billed (text_count K m t)) \<and> (\<not> shorter \<longrightarrow> p = t) \<and>
    (length p < j \<and> j \<le> length t \<longrightarrow> n < billed (text_count K m (take j t)))"
  proof cases
    case some
    from longest_prefix_Some [OF some(2)] have f: "p = take (length p) t" "a = text_count K m p" "billed a \<le> n"
      "length p < j \<and> j \<le> length t \<longrightarrow> n < billed (text_count K m (take j t))" by auto
    from f(1) some(3) have "\<not> shorter \<longrightarrow> p = t" by auto
    with f some show ?thesis by blast
  next
    case none
    then show ?thesis using longest_prefix_None [OF none(2)] by auto
  qed auto
  then show "p = take (length p) t" "a = text_count K m p" "billed a \<le> n \<or> p = [] \<and> shorter" "shorter \<longrightarrow> n < billed (text_count K m t)"
    "\<not> shorter \<Longrightarrow> p = t"
    "length p < j \<Longrightarrow> j \<le> length t \<Longrightarrow> n < billed (text_count K m (take j t))"
    by blast+
qed

text \<open>Clamping returns the longest character prefix that the tokenizer counts within the budget, for
  any counter, monotone or not; only when not even the empty text fits is the result empty
  without fitting.\<close>

theorem clamp_longest_prefix:
  assumes "clamp_visible_to_budget K m t n = (p, a, shorter)"
  shows "p = take (length p) t \<and> a = text_count K m p \<and> (shorter \<longleftrightarrow> n < billed (text_count K m t)) \<and>
    (\<forall>j. length p < j \<and> j \<le> length t \<longrightarrow> n < billed (text_count K m (take j t))) \<and>
    (billed a \<le> n \<or> (\<forall>j \<le> length t. n < billed (text_count K m (take j t))))"
proof -
  note c = clamp_cases [OF assms]
  have shorter: "shorter \<longleftrightarrow> n < billed (text_count K m t)" if le: "billed a \<le> n \<or> shorter" using c(2,4,5) le by (cases shorter) auto
  have all: "n < billed (text_count K m (take j t))" if "\<not> billed a \<le> n" "j \<le> length t" for j
  proof (cases j)
    case 0
    with that c(2,3) show ?thesis by auto
  next
    case (Suc i)
    with that c(3) c(6) [of j] show ?thesis by auto
  qed
  have "\<not> billed a \<le> n \<Longrightarrow> \<not> shorter \<Longrightarrow> n < billed (text_count K m t)" using all [of "length t"] by simp
  moreover have "\<not> billed a \<le> n \<Longrightarrow> shorter" using c(3) by blast
  ultimately show ?thesis using c all shorter by blast
qed

text \<open>A sample engine without encodings, whose store names an object by its position.\<close>

definition sample_engine :: "(byte list list, unit) kernel_env" where
  "sample_engine = \<lparr>get_tokenizer = (\<lambda>m. None), bpe_for_model = (\<lambda>m. None),
     cas_put = (\<lambda>c b. (Ok (lit ''zero:'' @ replicate (length c) 48), c @ [b])), cas_publish = (\<lambda>c md. (Ok (), c)),
     cas_expand = (\<lambda>c h u. if length h - 5 < length c then Ok (c ! (length h - 5)) else Err (lit ''missing''))\<rparr>"

theorem clamp_longest_prefix_witness:
  "clamp_visible_to_budget sample_engine None (lit ''a b c'') 2 =
     (take 4 (lit ''a b c''), text_count sample_engine None (take 4 (lit ''a b c'')), True) \<and>
   2 < billed (text_count sample_engine None (lit ''a b c''))"
proof -
  have c: "clamp_visible_to_budget sample_engine None (lit ''a b c'') 2 =
     (take 4 (lit ''a b c''), text_count sample_engine None (take 4 (lit ''a b c'')), True)" by code_simp
  show ?thesis using c clamp_longest_prefix [OF c] by blast
qed

section \<open>Projection\<close>

lemma boundary_at_most: "boundary_at_most s n \<le> n \<and> is_char_boundary s (boundary_at_most s n)"
  by (induction n) (auto simp: is_char_boundary_def, cases s, auto)

lemma slice_at_boundary:
  "\<exists>k. byte_slice s 0 (boundary_at_most s n) = Some (take k s) \<and> blen (take k s) \<le> n"
proof -
  obtain a b where ab: "split_bytes (boundary_at_most s n) s = Some (a, b)"
    using boundary_at_most [of s n] by (auto simp: is_char_boundary_def)
  then have s: "s = a @ b" "blen a = boundary_at_most s n" by (simp_all add: split_bytes_iff)
  then have "byte_slice s 0 (boundary_at_most s n) = Some a" by (auto simp: byte_slice_iff)
  moreover have "a = take (length a) s" using s(1) by simp
  ultimately show ?thesis using s(2) boundary_at_most [of s n] by metis
qed

lemma bounded_utf8_shape:
  "\<exists>j k. bounded_utf8 source marker limit = Some (take k source @ take j marker) \<and>
     (k = 0 \<or> take j marker = marker) \<and> blen (take k source) + blen (take j marker) \<le> limit"
proof (cases "limit \<le> blen marker")
  case True
  obtain j where "byte_slice marker 0 (boundary_at_most marker limit) = Some (take j marker)"
    "blen (take j marker) \<le> limit" using slice_at_boundary by blast
  moreover have "bounded_utf8 source marker 0 = Some (take 0 source @ take 0 marker)" by (simp add: bounded_utf8_def)
  ultimately have "bounded_utf8 source marker limit = Some (take 0 source @ take (if limit = 0 then 0 else j) marker)"
    "blen (take 0 source) + blen (take (if limit = 0 then 0 else j) marker) \<le> limit"
    using True by (simp_all add: bounded_utf8_def)
  then show ?thesis by blast
next
  case False
  define l where "l = min (blen source) (limit - blen marker)"
  obtain k where "byte_slice source 0 (boundary_at_most source l) = Some (take k source)" "blen (take k source) \<le> l"
    using slice_at_boundary by blast
  moreover from this have "blen (take k source) \<le> limit - blen marker" by (simp add: l_def)
  ultimately have "bounded_utf8 source marker limit = Some (take k source @ take (length marker) marker)"
    "blen (take k source) + blen (take (length marker) marker) \<le> limit"
    using False by (simp_all add: bounded_utf8_def l_def Let_def le_diff_conv2)
  then show ?thesis by (metis take_all order_refl)
qed

lemma strip_marker:
  assumes "k = 0 \<or> take j marker = marker" "marker \<noteq> []"
  shows "(case strip_suffix marker (take k s @ take j marker) of None \<Rightarrow> 0 | Some x \<Rightarrow> blen x) = blen (take k s)"
proof (cases "take j marker = marker")
  case True
  then have "strip_suffix marker (take k s @ take j marker) = Some (take k s)" by (simp add: strip_suffix_iff)
  then show ?thesis by simp
next
  case False
  with assms have k: "k = 0" by blast
  have "strip_suffix marker (take j marker) = None"
  proof (rule ccontr)
    assume "strip_suffix marker (take j marker) \<noteq> None"
    then obtain x where "take j marker = x @ marker" by (auto simp: strip_suffix_iff)
    then have "length (take j marker) = length x + length marker" by simp
    then have "length marker \<le> j" by simp
    with False show False by simp
  qed
  with k show ?thesis by simp
qed

text \<open>What a projection shows: the whole text, or a prefix of the (lossily decoded) source followed
  by the marker of its exact handle, within the byte limit.\<close>

definition projection_shape :: "byte list \<Rightarrow> nat \<Rightarrow> ProjectionResult \<Rightarrow> bool" where
  "projection_shape bytes limit p \<longleftrightarrow>
     (case pr_exact p of
        None \<Rightarrow> from_utf8 bytes = Some (pr_visible p) \<and> visible_source_bytes p = length bytes
      | Some h \<Rightarrow> blen (pr_visible p) \<le> limit \<and>
          (\<exists>j k. pr_visible p = take k (from_utf8_lossy bytes) @ take j (exact_marker h) \<and>
             (k = 0 \<or> take j (exact_marker h) = exact_marker h) \<and>
             visible_source_bytes p = blen (take k (from_utf8_lossy bytes))))"

definition projection_accounts :: "('c, 'o) kernel_env \<Rightarrow> rstr option \<Rightarrow> byte list \<Rightarrow> ProjectionResult \<Rightarrow> bool" where
  "projection_accounts K m bytes p \<longleftrightarrow>
     billed (pr_accounting p) = billed (kernel_count K m bytes) \<and>
     ta_visible (pr_accounting p) = billed (text_count K m (pr_visible p)) \<and>
     (from_utf8 bytes \<noteq> None \<longrightarrow> ta_visible (pr_accounting p) \<le> billed (pr_accounting p))"

lemma inline_projection_ok:
  "from_utf8 bytes = Some t \<Longrightarrow> projection_shape bytes limit (inline_projection bytes t (kernel_count K m bytes)) \<and>
     projection_accounts K m bytes (inline_projection bytes t (kernel_count K m bytes))"
  using from_utf8_sound [of bytes t] by (auto simp: projection_shape_def projection_accounts_def inline_projection_def)

lemma handle_projection_ok:
  "\<exists>p. handle_projection K m bytes limit h = Some p \<and> projection_shape bytes limit p \<and> projection_accounts K m bytes p"
proof -
  define marker where "marker = exact_marker h"
  have ne: "marker \<noteq> []" by (simp add: marker_def exact_marker_def)
  obtain j k where vis: "bounded_utf8 (from_utf8_lossy bytes) marker limit = Some (take k (from_utf8_lossy bytes) @ take j marker)"
    and jk: "k = 0 \<or> take j marker = marker" "blen (take k (from_utf8_lossy bytes)) + blen (take j marker) \<le> limit"
    using bounded_utf8_shape by blast
  define v where "v = take k (from_utf8_lossy bytes) @ take j marker"
  define n where "n = billed (text_count K m v)"
  define p where "p = \<lparr>pr_visible = v, visible_source_bytes = blen (take k (from_utf8_lossy bytes)), pr_exact = Some h,
     pr_accounting = (kernel_count K m bytes)\<lparr>ta_visible := n,
       certified := certified (kernel_count K m bytes) \<and> certified (text_count K m v)\<rparr>\<rparr>"
  have shape: "projection_shape bytes limit p"
    using jk by (auto simp: projection_shape_def p_def v_def marker_def [symmetric])
  have eq: "handle_projection K m bytes limit h =
    (case from_utf8 bytes of Some t \<Rightarrow> if billed (kernel_count K m bytes) < n then Some (inline_projection bytes t (kernel_count K m bytes)) else Some p
     | None \<Rightarrow> Some p)"
    using vis strip_marker [OF jk(1) ne]
    by (simp add: handle_projection_def marker_def [symmetric] Let_def v_def p_def n_def split: option.split)
  show ?thesis
  proof (cases "from_utf8 bytes")
    case None
    with eq shape show ?thesis by (auto simp: projection_accounts_def p_def n_def)
  next
    case (Some t)
    show ?thesis
    proof (cases "billed (kernel_count K m bytes) < n")
      case True
      with eq Some inline_projection_ok [OF Some] show ?thesis by auto
    next
      case False
      with eq Some shape show ?thesis by (auto simp: projection_accounts_def p_def n_def)
    qed
  qed
qed

lemma project_ok:
  "\<exists>res c'. kernel_project K m cancel c bytes media limit = Some (res, c') \<and>
     (case res of
        Inr p \<Rightarrow> projection_shape bytes limit p \<and> projection_accounts K m bytes p
      | Inl e \<Rightarrow> (error_kind e = CancelledKind \<and> cancel \<and> c' = c) \<or>
          (error_kind e = BudgetKind \<and> limit < 80 \<and> c' = c \<and> (limit < length bytes \<or> from_utf8 bytes = None)) \<or>
          store_exact K c bytes media = (Err e, c'))"
proof (cases cancel)
  case True
  then show ?thesis by (simp add: kernel_project_def cancelled_check_def engine_error_def)
next
  case nc: False
  define fits where "fits = (if length bytes \<le> limit then from_utf8 bytes else None)"
  show ?thesis
  proof (cases fits)
    case (Some t)
    then have "from_utf8 bytes = Some t" by (auto simp: fits_def split: if_splits)
    with Some nc inline_projection_ok [of bytes t limit K m] show ?thesis
      by (simp add: kernel_project_def cancelled_check_def fits_def [symmetric])
  next
    case None
    then have out: "limit < length bytes \<or> from_utf8 bytes = None" by (auto simp: fits_def split: if_splits)
    show ?thesis
    proof (cases "limit < 80")
      case True
      with None nc out show ?thesis
        by (auto simp: kernel_project_def cancelled_check_def fits_def [symmetric] engine_error_def)
    next
      case False
      obtain r c' where st: "store_exact K c bytes media = (r, c')" by fastforce
      show ?thesis
      proof (cases r)
        case (Inl e)
        with None nc False st show ?thesis
          by (simp add: kernel_project_def cancelled_check_def fits_def [symmetric])
      next
        case (Inr h)
        with None nc False st handle_projection_ok [of K m bytes limit h] show ?thesis
          by (auto simp: kernel_project_def cancelled_check_def fits_def [symmetric])
      qed
    qed
  qed
qed

text \<open>A projection never panics; what it shows is the whole text or a prefix with the marker of the
  exact handle within the byte limit; its account counts exactly what it shows, and for UTF-8
  input it never costs more than the payload. The only errors are cancellation, a limit under
  80 bytes for a payload that must be stored, and a failing store.\<close>

theorem project_never_worse:
  "\<exists>res c'. kernel_project K m cancel c bytes media limit = Some (res, c') \<and>
     (case res of
        Inr p \<Rightarrow> projection_shape bytes limit p \<and> projection_accounts K m bytes p
      | Inl e \<Rightarrow> (error_kind e = CancelledKind \<and> cancel \<and> c' = c) \<or>
          (error_kind e = BudgetKind \<and> limit < 80 \<and> c' = c \<and> (limit < length bytes \<or> from_utf8 bytes = None)) \<or>
          store_exact K c bytes media = (Err e, c'))"
  by (rule project_ok)

section \<open>Compression\<close>

text \<open>What a compression shows: the whole text at its own cost, or a character prefix of the capsule
  within the token budget; the omitted tokens are what the account saves, and the account never
  exceeds the payload.\<close>

definition compression_ok :: "('c, 'o) kernel_env \<Rightarrow> rstr option \<Rightarrow> byte list \<Rightarrow> nat \<Rightarrow> CompressionResult \<Rightarrow> bool" where
  "compression_ok K m bytes max_tokens r \<longleftrightarrow>
     billed (cr_accounting r) = billed (kernel_count K m bytes) \<and>
     ta_visible (cr_accounting r) \<le> billed (cr_accounting r) \<and>
     omitted_tokens r = billed (cr_accounting r) - ta_visible (cr_accounting r) \<and>
     (from_utf8 bytes = Some (cr_visible r) \<and> \<not> truncated r \<and> omitted_tokens r = 0 \<or>
      ta_visible (cr_accounting r) \<le> max_tokens \<and>
      (ta_visible (cr_accounting r) = billed (text_count K m (cr_visible r)) \<or> cr_visible r = [] \<and> truncated r))"

lemma finish_compression_exact [simp]: "cr_exact (finish_compression K m t h a n x) = h"
  by (simp add: finish_compression_def passthrough_compression_def Let_def split: prod.splits)

lemma finish_compression_ok:
  assumes "from_utf8 bytes = Some t"
  shows "compression_ok K m bytes n (finish_compression K m t h (kernel_count K m bytes) n capsule)"
proof -
  obtain p a shorter where cl: "clamp_visible_to_budget K m (capsule_text capsule) n = (p, a, shorter)"
    using prod_cases3 by blast
  note c = clamp_cases [OF cl]
  show ?thesis
    using assms c(2,3)
    by (auto simp: finish_compression_def cl Let_def compression_ok_def passthrough_compression_def)
qed

lemma kernel_compress_cases:
  assumes "kernel_compress J active K m cancel c bytes media mode_text n label = (res, c')"
  obtains (rejected) e where "res = Err e" "c' = c"
      "error_kind e = CancelledKind \<and> cancel \<or>
       error_kind e = InvalidInputKind \<and> (n = 0 \<or> from_utf8 bytes = None \<or> mode_text \<noteq> [] \<and> isl (mode_from_str mode_text))"
  | (unstored) e where "res = Err e" "store_exact K c bytes media = (Err e, c')"
  | (built) t h mode where "from_utf8 bytes = Some t" "n \<noteq> 0" "\<not> cancel" "store_exact K c bytes media = (Ok h, c')"
      "mode = Auto \<and> mode_text = [] \<or> mode_from_str mode_text = Ok mode"
      "case make_capsule_with_recovery_ref J active t (billed (kernel_count K m bytes)) mode n label (Some h) of
         Inl e \<Rightarrow> res = Err (engine_error BudgetKind e)
       | Inr _ \<Rightarrow> \<exists>capsule. res = Ok (finish_compression K m t h (kernel_count K m bytes) n capsule)"
proof -
  consider "cancel" | "\<not> cancel" "n = 0" | "\<not> cancel" "n \<noteq> 0" "from_utf8 bytes = None"
    | t where "\<not> cancel" "n \<noteq> 0" "from_utf8 bytes = Some t" by (cases "from_utf8 bytes") auto
  then show thesis
  proof cases
    case (4 t)
    define mode where "mode = (if mode_text = [] then Ok Auto else mode_from_str mode_text)"
    obtain r c1 where st: "store_exact K c bytes media = (r, c1)" by fastforce
    show thesis
    proof (cases mode)
      case (Inl e)
      with assms 4 have r: "res = Err (engine_error InvalidInputKind e)" "c' = c"
        by (auto simp: kernel_compress_def cancelled_check_def mode_def [symmetric])
      from Inl have "mode_text \<noteq> []" "isl (mode_from_str mode_text)" by (auto simp: mode_def split: if_splits)
      with r rejected show thesis by (auto simp: engine_error_def)
    next
      case md: (Inr md)
      then have md': "md = Auto \<and> mode_text = [] \<or> mode_from_str mode_text = Ok md" by (auto simp: mode_def split: if_splits)
      show thesis
      proof (cases r)
        case (Inl e)
        with assms 4 md st have "res = Err e" "c' = c1"
          by (auto simp: kernel_compress_def cancelled_check_def mode_def [symmetric] Let_def)
        with st Inl unstored show thesis by blast
      next
        case (Inr h)
        from assms 4 md st Inr
        have "c' = c1" "case make_capsule_with_recovery_ref J active t (billed (kernel_count K m bytes)) md n label (Some h) of
           Inl e \<Rightarrow> res = Err (engine_error BudgetKind e)
         | Inr _ \<Rightarrow> \<exists>capsule. res = Ok (finish_compression K m t h (kernel_count K m bytes) n capsule)"
          by (auto simp: kernel_compress_def cancelled_check_def mode_def [symmetric] Let_def split: sum.splits)
        with 4 st Inr md' built show thesis by blast
      qed
    qed
  qed (use assms rejected in \<open>auto simp: kernel_compress_def cancelled_check_def engine_error_def\<close>)
qed

text \<open>C20: Compression never costs more than the payload, fits the token budget or is the payload itself,
  and reports exactly what it omits; a request is refused only when it is cancelled or malformed,
  when the store fails, or when no capsule of the payload can be built.\<close>

theorem compress_never_worse:
  assumes "kernel_compress J active K m cancel c bytes media mode_text n label = (res, c')"
  shows "case res of
      Inr r \<Rightarrow> compression_ok K m bytes n r \<and> store_exact K c bytes media = (Ok (cr_exact r), c')
    | Inl e \<Rightarrow> (case error_kind e of
          CancelledKind \<Rightarrow> cancel
        | InvalidInputKind \<Rightarrow> c' = c \<and> (n = 0 \<or> from_utf8 bytes = None \<or> mode_text \<noteq> [] \<and> isl (mode_from_str mode_text))
        | CorruptKind \<Rightarrow> store_exact K c bytes media = (Err e, c')
        | BudgetKind \<Rightarrow> \<exists>t h mode x. from_utf8 bytes = Some t \<and> store_exact K c bytes media = (Ok h, c') \<and>
            make_capsule_with_recovery_ref J active t (billed (kernel_count K m bytes)) mode n label (Some h) = Err x)"
  using assms
proof (cases rule: kernel_compress_cases)
  case (unstored e)
  then have "error_kind e = CorruptKind"
    by (auto simp: store_exact_def cas_error_def engine_error_def split: prod.splits sum.splits)
  with unstored show ?thesis by simp
next
  case (built t h mode)
  show ?thesis
  proof (cases "make_capsule_with_recovery_ref J active t (billed (kernel_count K m bytes)) mode n label (Some h)")
    case (Inl x)
    with built have "res = Err (engine_error BudgetKind x)" by simp
    with built Inl show ?thesis by (auto simp: engine_error_def)
  next
    case (Inr x)
    with built obtain capsule where "res = Ok (finish_compression K m t h (kernel_count K m bytes) n capsule)" by auto
    with built finish_compression_ok [OF built(1), of K m n h capsule] show ?thesis by simp
  qed
qed auto

theorem compress_never_worse_witness:
  "\<exists>r c'. kernel_compress no_json None sample_engine None False [] (as_bytes (lit ''a b'')) [] [] 1 None = (Ok r, c') \<and>
     compression_ok sample_engine None (as_bytes (lit ''a b'')) 1 r"
proof -
  let ?run = "kernel_compress no_json None sample_engine None False [] (as_bytes (lit ''a b'')) [] [] 1 None"
  have "\<not> isl (fst ?run)" by code_simp
  then obtain r c' where r: "?run = (Ok r, c')" by (cases ?run; cases "fst ?run") auto
  show ?thesis using r compress_never_worse [OF r] by auto
qed

section \<open>Exact recovery through the handle\<close>

text \<open>The promise of the content-addressed store: an object that was put and described is read
  back whole.\<close>

definition cas_keeps :: "('c, 'o) kernel_env \<Rightarrow> 'o \<Rightarrow> bool" where
  "cas_keeps K whole \<longleftrightarrow>
     (\<forall>c b h c1 md c2. cas_put K c b = (Ok h, c1) \<longrightarrow> cas_publish K c1 md = (Ok (), c2) \<longrightarrow> cas_expand K c2 h whole = Ok b)"

lemma store_exact_expands:
  "cas_keeps K whole \<Longrightarrow> store_exact K c bytes media = (Ok h, c') \<Longrightarrow> kernel_expand K False c' h whole = Ok bytes"
  by (auto simp: cas_keeps_def store_exact_def kernel_expand_def cancelled_check_def split: prod.splits sum.splits)

text \<open>C21: Nothing is lost: whatever projection or compression hides, expanding the handle they return
  gives back the payload byte for byte, and a projection without a handle shows it all.\<close>

theorem kernel_results_recoverable:
  assumes "cas_keeps K whole"
  shows "(kernel_project K m cancel c bytes media limit = Some (Ok p, c1) \<longrightarrow>
      (case pr_exact p of Some h \<Rightarrow> kernel_expand K False c1 h whole = Ok bytes | None \<Rightarrow> as_bytes (pr_visible p) = bytes)) \<and>
    (kernel_compress J active K m cancel c bytes media mode_text n label = (Ok r, c2) \<longrightarrow>
      kernel_expand K False c2 (cr_exact r) whole = Ok bytes)"
proof (intro conjI impI)
  assume run: "kernel_project K m cancel c bytes media limit = Some (Ok p, c1)"
  have h: "pr_exact p = None \<or> store_exact K c bytes media = (Ok (the (pr_exact p)), c1)"
    using run by (auto simp: kernel_project_def handle_projection_def inline_projection_def cancelled_check_def Let_def
        split: option.splits sum.splits prod.splits if_splits)
  have "projection_shape bytes limit p"
  proof -
    from project_ok [of K m cancel c bytes media limit] run show ?thesis by auto
  qed
  then show "case pr_exact p of Some h \<Rightarrow> kernel_expand K False c1 h whole = Ok bytes | None \<Rightarrow> as_bytes (pr_visible p) = bytes"
    using h store_exact_expands [OF assms]
    by (cases "pr_exact p") (auto simp: projection_shape_def dest: from_utf8_sound)
next
  assume "kernel_compress J active K m cancel c bytes media mode_text n label = (Ok r, c2)"
  then have "store_exact K c bytes media = (Ok (cr_exact r), c2)"
  proof (cases rule: kernel_compress_cases)
    case (built t h mode)
    then show ?thesis by (auto split: sum.splits)
  qed auto
  then show "kernel_expand K False c2 (cr_exact r) whole = Ok bytes" by (rule store_exact_expands [OF assms])
qed

theorem kernel_results_recoverable_witness:
  "\<exists>p c1. kernel_project sample_engine None False [] (replicate 90 0xFF) [] 80 = Some (Ok p, c1) \<and> pr_exact p = Some (lit ''zero:'') \<and>
     kernel_expand sample_engine False c1 (lit ''zero:'') () = Ok (replicate 90 0xFF)"
proof -
  have k: "cas_keeps sample_engine ()"
    by (auto simp: cas_keeps_def sample_engine_def)
  let ?run = "kernel_project sample_engine None False [] (replicate 90 0xFF) [] 80"
  have run: "map_option (map_prod (map_sum id pr_exact) id) ?run = Some (Ok (Some (lit ''zero:'')), [replicate 90 0xFF])" by code_simp
  then obtain p where p: "?run = Some (Ok p, [replicate 90 0xFF])" "pr_exact p = Some (lit ''zero:'')"
    by (cases ?run; cases "fst (the ?run)") auto
  from kernel_results_recoverable [OF k, THEN conjunct1, rule_format, OF p(1)] p(2)
  have "kernel_expand sample_engine False [replicate 90 0xFF] (lit ''zero:'') () = Ok (replicate 90 0xFF)" by simp
  with p show ?thesis by blast
qed

text \<open>The source bytes a projection claims to show are counted on the lossily decoded text: for
  bytes that are not UTF-8 every replacement character counts three, so the claim can exceed the
  payload itself.\<close>

lemma visible_source_bytes_overcounts:
  "map_option visible_source_bytes (handle_projection sample_engine None (replicate 10 0xFF) 80 (lit ''zero:'')) = Some 30"
  by code_simp

end
