(* ===== verification/Representations.thy ===== *)
theory Representations
  imports OrdMap "HOL-Library.Sublist"
begin

text \<open>
  Representation economics (\<open>tokenzero-core/src/representation_economics.rs\<close>): the Pareto
  frontier of stored representations, the segmentation of a source into priced candidates by
  dynamic programming (with one tokenizer and with a weighted set of them), overfetch accounts,
  the value of a cached asset and the decision surface of a capsule. Semantic interrupts and
  canonical JSON belong to \<open>zero-abi\<close> and are arguments. The lemmas show that the frontier is
  sound and complete and that a returned plan is a cheapest cover of the source.
\<close>

section \<open>Representations\<close>

datatype RepresentationKind = RawBytes | ChunkManifest | CompressedBytes | SyntaxTree | SemanticIr | ClaimBundle
  | ProofBundle | Delta | ModelRendering

record RepresentationResources =
  stored_bytes :: nat
  wire_bytes :: nat
  source_tokens :: nat
  shown_tokens :: nat
  expansion_work :: nat
  verification_work :: nat
  latency_micros :: nat
  metadata_bytes :: nat

definition dominates_or_equal :: "RepresentationResources \<Rightarrow> RepresentationResources \<Rightarrow> bool" where
  "dominates_or_equal a b \<longleftrightarrow>
     stored_bytes a \<le> stored_bytes b \<and> wire_bytes a \<le> wire_bytes b \<and> source_tokens a \<le> source_tokens b \<and>
     shown_tokens a \<le> shown_tokens b \<and> expansion_work a \<le> expansion_work b \<and>
     verification_work a \<le> verification_work b \<and> latency_micros a \<le> latency_micros b \<and>
     metadata_bytes a \<le> metadata_bytes b"

definition strictly_better_than :: "RepresentationResources \<Rightarrow> RepresentationResources \<Rightarrow> bool" where
  "strictly_better_than a b \<longleftrightarrow> dominates_or_equal a b \<and> a \<noteq> b"

record RepresentationRecord =
  representation_root :: rstr
  rep_semantic_root :: rstr
  rep_adapter_root :: rstr
  rep_kind :: RepresentationKind
  rep_exact :: bool
  rep_resources :: RepresentationResources

definition pareto_frontier :: "RepresentationRecord list \<Rightarrow> RepresentationRecord list" where
  "pareto_frontier rs =
     sort_key representation_root
       (filter (\<lambda>c. \<not> (\<exists>r\<in>set rs. representation_root r \<noteq> representation_root c \<and>
            rep_semantic_root r = rep_semantic_root c \<and> rep_adapter_root r = rep_adapter_root c \<and>
            (\<not> rep_exact c \<or> rep_exact r) \<and> strictly_better_than (rep_resources r) (rep_resources c))) rs)"

section \<open>Segmentation\<close>

record SegmentCandidate =
  seg_start :: nat
  seg_end :: nat
  additive_cost :: nat
  boundary_kind :: rstr

record SegmentationPlan =
  total_cost :: nat
  segments :: "SegmentCandidate list"

text \<open>A candidate as the search sees it: start, end and price. A cell of the table holds the best
  price of reaching its position, with the position and the candidate it was reached by.\<close>

type_synonym edge = "nat \<times> nat \<times> nat"
type_synonym cell = "(nat \<times> nat option \<times> nat option) option"

definition SEG_OVERFLOW :: rstr where "SEG_OVERFLOW = lit ''segmentation cost overflow''"
definition SEG_UNCOVERED :: rstr where "SEG_UNCOVERED = lit ''candidate boundaries do not cover the source''"
definition SEG_EMPTY :: rstr where "SEG_EMPTY = lit ''segmentation length must be positive''"

fun relax :: "nat \<Rightarrow> nat \<Rightarrow> nat \<Rightarrow> (nat \<times> edge) list \<Rightarrow> cell list \<Rightarrow> rstr + cell list" where
  "relax n p cost [] best = Ok best"
| "relax n p cost ((i, s, e, w) # es) best =
     (if s \<noteq> p \<or> e \<le> s \<or> n < e then relax n p cost es best
      else case checked_add cost w of
        None \<Rightarrow> Err SEG_OVERFLOW
      | Some reached \<Rightarrow>
          relax n p cost es
            (if (case best ! e of None \<Rightarrow> True | Some (current, _, _) \<Rightarrow> reached < current)
             then best[e := Some (reached, Some p, Some i)] else best))"

fun relax_all :: "nat \<Rightarrow> edge list \<Rightarrow> nat list \<Rightarrow> cell list \<Rightarrow> rstr + cell list" where
  "relax_all n E [] best = Ok best"
| "relax_all n E (p # ps) best =
     (case best ! p of
        None \<Rightarrow> relax_all n E ps best
      | Some (cost, _, _) \<Rightarrow>
          (case relax n p cost (enumerate 0 E) best of Inl e \<Rightarrow> Err e | Inr best \<Rightarrow> relax_all n E ps best))"

text \<open>The walk back is a loop; an index out of range (a panic) and a walk without end are both
  \<open>None\<close>.\<close>

partial_function (option) walk_back :: "nat \<Rightarrow> cell list \<Rightarrow> nat \<Rightarrow> nat list \<Rightarrow> (rstr + nat list) option" where
  "walk_back m best position acc =
     (if position = 0 then Some (Ok acc)
      else if length best \<le> position then None
      else case best ! position of
        None \<Rightarrow> Some (Err (lit ''segmentation predecessor missing''))
      | Some (c, previous, candidate) \<Rightarrow>
          (case previous of
             None \<Rightarrow> Some (Err (lit ''segmentation predecessor missing''))
           | Some q \<Rightarrow>
               (case candidate of
                  None \<Rightarrow> Some (Err (lit ''segmentation candidate missing''))
                | Some i \<Rightarrow> if m \<le> i then None else walk_back m best q (i # acc))))"

declare walk_back.simps [code]

definition segment_search :: "nat \<Rightarrow> edge list \<Rightarrow> (rstr + (nat \<times> nat list)) option" where
  "segment_search n E =
     (if n = 0 then Some (Err SEG_EMPTY)
      else case relax_all n E [0..<n] ((replicate (n + 1) None)[0 := Some (0, None, None)]) of
        Inl e \<Rightarrow> Some (Err e)
      | Inr best \<Rightarrow>
          (case best ! n of
             None \<Rightarrow> Some (Err SEG_UNCOVERED)
           | Some (reached, _, _) \<Rightarrow> map_option (map_sum id (Pair reached)) (walk_back (length E) best n [])))"

definition edge_of :: "SegmentCandidate \<Rightarrow> edge" where
  "edge_of c = (seg_start c, seg_end c, additive_cost c)"

definition optimal_segmentation :: "nat \<Rightarrow> SegmentCandidate list \<Rightarrow> (rstr + SegmentationPlan) option" where
  "optimal_segmentation n cs =
     map_option (map_sum id (\<lambda>(total, is). \<lparr>total_cost = total, segments = map ((!) cs) is\<rparr>))
       (segment_search n (map edge_of cs))"

section \<open>Several tokenizers\<close>

record TokenizerCost =
  cost_tokenizer_root :: rstr
  cost_tokens :: nat

record TokenizerWeight =
  weight_tokenizer_root :: rstr
  weight_ppm :: nat

record MultiTokenizerSegmentCandidate =
  mt_segment :: SegmentCandidate
  tokenizer_costs :: "TokenizerCost list"

record MultiTokenizerSegmentationPlan =
  mt_total_cost :: nat
  mt_segments :: "MultiTokenizerSegmentCandidate list"

definition u128_max :: nat where "u128_max = 2 ^ 128 - 1"

fun weight_map :: "TokenizerWeight list \<Rightarrow> (rstr, nat) btree \<Rightarrow> rstr + (rstr, nat) btree" where
  "weight_map [] m = Ok m"
| "weight_map (w # ws) m =
     (if weight_tokenizer_root w = [] \<or> weight_ppm w = 0 \<or> bt_contains m (weight_tokenizer_root w)
      then Err (lit ''tokenizer weights require unique roots and positive weights'')
      else weight_map ws (bt_insert (weight_tokenizer_root w) (weight_ppm w) m))"

definition cost_map :: "TokenizerCost list \<Rightarrow> (rstr, nat) btree" where
  "cost_map cs = fold (\<lambda>c. bt_insert (cost_tokenizer_root c) (cost_tokens c)) cs []"

fun weighted_loop :: "(rstr, nat) btree \<Rightarrow> (rstr \<times> nat) list \<Rightarrow> nat \<Rightarrow> rstr + nat" where
  "weighted_loop costs [] acc = Ok acc"
| "weighted_loop costs ((root, w) # ws) acc =
     (case bt_get costs root of
        None \<Rightarrow> Err (lit ''validated tokenizer cost disappeared'')
      | Some tokens \<Rightarrow>
          let t = acc + (min (tokens * w) u128_max + 999999) div 1000000
          in if u128_max < t then Err (lit ''multi-tokenizer cost overflow'') else weighted_loop costs ws t)"

definition effective_cost :: "(rstr, nat) btree \<Rightarrow> MultiTokenizerSegmentCandidate \<Rightarrow> rstr + nat" where
  "effective_cost weights c =
     (let costs = cost_map (tokenizer_costs c) in
      if length costs \<noteq> length (tokenizer_costs c) \<or> bt_keys costs \<noteq> bt_keys weights
      then Err (lit ''every segment requires exactly one cost per tokenizer'')
      else case weighted_loop costs weights 0 of
        Inl e \<Rightarrow> Err e
      | Inr weighted \<Rightarrow>
          if u64_max < weighted then Err (lit ''multi-tokenizer cost does not fit u64'')
          else case checked_add (additive_cost (mt_segment c)) weighted of
            None \<Rightarrow> Err (lit ''multi-tokenizer cost overflow'')
          | Some t \<Rightarrow> Ok t)"

fun effective_costs :: "(rstr, nat) btree \<Rightarrow> MultiTokenizerSegmentCandidate list \<Rightarrow> rstr + nat list" where
  "effective_costs weights [] = Ok []"
| "effective_costs weights (c # cs) =
     (case effective_cost weights c of
        Inl e \<Rightarrow> Err e
      | Inr t \<Rightarrow> (case effective_costs weights cs of Inl e \<Rightarrow> Err e | Inr ts \<Rightarrow> Ok (t # ts)))"

definition mt_edge :: "MultiTokenizerSegmentCandidate \<Rightarrow> nat \<Rightarrow> edge" where
  "mt_edge c t = (seg_start (mt_segment c), seg_end (mt_segment c), t)"

definition optimal_multi_tokenizer_segmentation ::
    "nat \<Rightarrow> MultiTokenizerSegmentCandidate list \<Rightarrow> TokenizerWeight list \<Rightarrow> (rstr + MultiTokenizerSegmentationPlan) option" where
  "optimal_multi_tokenizer_segmentation n cs ws =
     (if ws = [] then Some (Err (lit ''multi-tokenizer segmentation requires at least one tokenizer''))
      else case weight_map ws [] of
        Inl e \<Rightarrow> Some (Err e)
      | Inr weights \<Rightarrow>
          (case effective_costs weights cs of
             Inl e \<Rightarrow> Some (Err e)
           | Inr ts \<Rightarrow>
               map_option (map_sum id (\<lambda>(total, is). \<lparr>mt_total_cost = total, mt_segments = map ((!) cs) is\<rparr>))
                 (segment_search n (map2 mt_edge cs ts))))"

section \<open>Accounts and the decision surface\<close>

record OverfetchAccounting =
  evidence_bytes :: nat
  returned_bytes :: nat
  sufficient_bytes :: "nat option"

definition overfetch_bytes :: "OverfetchAccounting \<Rightarrow> nat option" where
  "overfetch_bytes a = map_option (\<lambda>s. returned_bytes a - s) (sufficient_bytes a)"

definition validate_overfetch :: "OverfetchAccounting \<Rightarrow> rstr + unit" where
  "validate_overfetch a =
     (if evidence_bytes a < returned_bytes a then Err (lit ''returned evidence exceeds available evidence'')
      else if (case sufficient_bytes a of None \<Rightarrow> False | Some s \<Rightarrow> returned_bytes a < s)
      then Err (lit ''sufficient evidence exceeds returned evidence'') else Ok ())"

text \<open>The products and the sum are taken at 128 bits.\<close>

definition cache_asset_has_positive_value :: "nat \<Rightarrow> nat \<Rightarrow> nat \<Rightarrow> nat \<Rightarrow> nat \<Rightarrow> bool" where
  "cache_asset_has_positive_value demand saved storage hazard maintenance \<longleftrightarrow>
     (storage + hazard * maintenance mod 2 ^ 128) mod 2 ^ 128 < demand * saved mod 2 ^ 128"

record 'i interrupt_abi =
  interrupt_validate :: "'i \<Rightarrow> rstr + unit"
  interrupt_capsule_root :: "'i \<Rightarrow> rstr"
  interrupt_json :: "'i \<Rightarrow> rstr + rstr"

definition render_semantic_interrupt :: "'i interrupt_abi \<Rightarrow> 'i \<Rightarrow> rstr + rstr" where
  "render_semantic_interrupt A i = (case interrupt_validate A i of Inl e \<Rightarrow> Err e | Inr u \<Rightarrow> interrupt_json A i)"

record 'i CapsuleDecisionSurface =
  surface_capsule_root :: rstr
  representation_frontier :: "RepresentationRecord list"
  surface_interrupt :: "'i option"

record RenderedDecisionSurface =
  surface_root :: rstr
  surface_json :: rstr

definition render_capsule_decision_surface ::
    "'i interrupt_abi \<Rightarrow> ('i CapsuleDecisionSurface \<Rightarrow> rstr) \<Rightarrow> (byte list \<Rightarrow> rstr) \<Rightarrow> rstr \<Rightarrow>
     RepresentationRecord list \<Rightarrow> 'i option \<Rightarrow> rstr + RenderedDecisionSurface" where
  "render_capsule_decision_surface A canonical_json sha root cs interrupt =
     (if root = [] \<or> cs = [] then
        Err (lit ''decision surface requires a capsule root and representation candidates'')
      else case (case interrupt of
            None \<Rightarrow> Ok ()
          | Some i \<Rightarrow> (case interrupt_validate A i of
                Inl e \<Rightarrow> Err e
              | Inr u \<Rightarrow> if interrupt_capsule_root A i \<noteq> root
                         then Err (lit ''decision surface interrupt belongs to another capsule'') else Ok ())) of
        Inl e \<Rightarrow> Err e
      | Inr u \<Rightarrow>
          let json = canonical_json \<lparr>surface_capsule_root = root, representation_frontier = pareto_frontier cs,
                       surface_interrupt = interrupt\<rparr>
          in Ok \<lparr>surface_root = sha (as_bytes json), surface_json = json\<rparr>)"

section \<open>Dominance\<close>

text \<open>What a frontier relies on: a strict order. In a finite set every element is then maximal or
  below a maximal one.\<close>

locale dominance =
  fixes better :: "'a \<Rightarrow> 'a \<Rightarrow> bool"
  assumes irrefl: "\<not> better x x"
    and trans: "better x y \<Longrightarrow> better y z \<Longrightarrow> better x z"
begin

lemma asym: "better x y \<Longrightarrow> \<not> better y x"
  using irrefl trans by blast

lemma maximal_above:
  assumes "finite S" "x \<in> S"
  obtains m where "m \<in> S" "m = x \<or> better m x" "\<forall>y\<in>S. \<not> better y m"
proof -
  have "\<exists>m\<in>S. (m = x \<or> better m x) \<and> (\<forall>y\<in>S. \<not> better y m)"
    using assms
  proof (induction "card {y \<in> S. better y x}" arbitrary: x rule: less_induct)
    case less
    show ?case
    proof (cases "\<exists>y\<in>S. better y x")
      case True
      then obtain y where y: "y \<in> S" "better y x" by blast
      have "{z \<in> S. better z y} \<subset> {z \<in> S. better z x}"
        using y trans irrefl by blast
      with less.prems(1) have "card {z \<in> S. better z y} < card {z \<in> S. better z x}"
        by (intro psubset_card_mono) auto
      from less.hyps [OF this less.prems(1) y(1)] y(2) show ?thesis using trans by blast
    qed (use less.prems in blast)
  qed
  with that show thesis by blast
qed

end

definition rep_better :: "RepresentationRecord \<Rightarrow> RepresentationRecord \<Rightarrow> bool" where
  "rep_better a b \<longleftrightarrow>
     rep_semantic_root a = rep_semantic_root b \<and> rep_adapter_root a = rep_adapter_root b \<and>
     (\<not> rep_exact b \<or> rep_exact a) \<and> strictly_better_than (rep_resources a) (rep_resources b)"

lemma dominates_refl [simp]: "dominates_or_equal a a"
  by (simp add: dominates_or_equal_def)

lemma dominates_trans: "dominates_or_equal a b \<Longrightarrow> dominates_or_equal b c \<Longrightarrow> dominates_or_equal a c"
  by (auto simp: dominates_or_equal_def)

lemma dominates_antisym:
  "dominates_or_equal a b \<Longrightarrow> dominates_or_equal b a \<Longrightarrow> a = (b :: RepresentationResources)"
  by (auto simp: dominates_or_equal_def intro!: RepresentationResources.equality)

interpretation res: dominance strictly_better_than
  by unfold_locales (auto simp: strictly_better_than_def dest: dominates_trans dominates_antisym)

interpretation rep: dominance rep_better
  by unfold_locales (auto simp: rep_better_def res.irrefl dest: res.trans)

lemma frontier_set:
  "set (pareto_frontier rs) =
     {c \<in> set rs. \<forall>r\<in>set rs. rep_better r c \<longrightarrow> representation_root r = representation_root c}"
  by (auto simp: pareto_frontier_def rep_better_def)

text \<open>The frontier is sound and complete: it holds records of the input in the order of their roots;
  a record of the frontier is beaten by no record of another root; and every record left out is
  beaten, at equal meaning and at least equal exactness, by one the frontier keeps.\<close>

theorem pareto_frontier_complete:
  "sorted (map representation_root (pareto_frontier rs)) \<and> set (pareto_frontier rs) \<subseteq> set rs \<and>
   (\<forall>c\<in>set (pareto_frontier rs). \<forall>r\<in>set rs. rep_better r c \<longrightarrow> representation_root r = representation_root c) \<and>
   (\<forall>c\<in>set rs. c \<notin> set (pareto_frontier rs) \<longrightarrow> (\<exists>m\<in>set (pareto_frontier rs). rep_better m c))"
proof (intro conjI ballI impI)
  show "sorted (map representation_root (pareto_frontier rs))" by (simp add: pareto_frontier_def)
  fix c assume c: "c \<in> set rs" "c \<notin> set (pareto_frontier rs)"
  then obtain r where r: "r \<in> set rs" "rep_better r c" by (auto simp: frontier_set)
  obtain m where m: "m \<in> set rs" "m = r \<or> rep_better m r" "\<forall>y\<in>set rs. \<not> rep_better y m"
    using rep.maximal_above [OF finite_set r(1)] by blast
  then have "m \<in> set (pareto_frontier rs)" by (simp add: frontier_set)
  with m r show "\<exists>m\<in>set (pareto_frontier rs). rep_better m c" using rep.trans by blast
qed (auto simp: frontier_set)

section \<open>The table\<close>

text \<open>A chain of candidates from one position to another, and its price.\<close>

fun tiles :: "nat \<Rightarrow> edge list \<Rightarrow> nat \<Rightarrow> bool" where
  "tiles a [] b \<longleftrightarrow> a = b"
| "tiles a ((s, e, w) # es) b \<longleftrightarrow> s = a \<and> s < e \<and> tiles e es b"

definition price :: "edge list \<Rightarrow> nat" where
  "price es = sum_list (map (\<lambda>(s, e, w). w) es)"

lemma price_simps [simp]: "price [] = 0" "price ((s, e, w) # es) = w + price es" "price (es @ fs) = price es + price fs"
  by (simp_all add: price_def)

lemma tiles_snoc: "tiles a (es @ [(s, e, w)]) b \<longleftrightarrow> tiles a es s \<and> s < e \<and> b = e"
  by (induction es arbitrary: a) auto

lemma tiles_le: "tiles a es b \<Longrightarrow> a \<le> b"
  by (induction es arbitrary: a) force+

text \<open>The table after the candidates of the positions before \<open>p\<close>, and the first \<open>k\<close> of position
  \<open>p\<close>, have been relaxed: every filled cell is explained by a relaxed candidate from a filled
  cell, and no relaxed candidate improves a cell.\<close>

definition relaxed :: "nat \<Rightarrow> nat \<Rightarrow> nat \<Rightarrow> nat \<Rightarrow> bool" where
  "relaxed p k i s \<longleftrightarrow> s < p \<or> s = p \<and> i < k"

definition explained :: "edge list \<Rightarrow> nat \<Rightarrow> cell list \<Rightarrow> nat \<Rightarrow> bool" where
  "explained E p best q \<longleftrightarrow>
     (\<forall>c pr ix. best ! q = Some (c, pr, ix) \<longrightarrow>
        (\<exists>s i w c' x. pr = Some s \<and> ix = Some i \<and> s \<le> p \<and> s < q \<and> i < length E \<and> E ! i = (s, q, w) \<and>
           best ! s = Some (c', x) \<and> c = c' + w))"

definition improved :: "nat \<Rightarrow> edge list \<Rightarrow> nat \<Rightarrow> nat \<Rightarrow> cell list \<Rightarrow> bool" where
  "improved n E p k best \<longleftrightarrow>
     (\<forall>i s e w c x. i < length E \<and> E ! i = (s, e, w) \<and> s < e \<and> e \<le> n \<and> relaxed p k i s \<and> best ! s = Some (c, x) \<longrightarrow>
        (\<exists>c' y. best ! e = Some (c', y) \<and> c' \<le> c + w))"

lemma improvedD:
  "improved n E p k best \<Longrightarrow> i < length E \<Longrightarrow> E ! i = (s, e, w) \<Longrightarrow> s < e \<Longrightarrow> e \<le> n \<Longrightarrow> relaxed p k i s \<Longrightarrow>
     best ! s = Some (c, x) \<Longrightarrow> \<exists>c' y. best ! e = Some (c', y) \<and> c' \<le> c + w"
  unfolding improved_def by blast

definition table :: "nat \<Rightarrow> edge list \<Rightarrow> nat \<Rightarrow> nat \<Rightarrow> cell list \<Rightarrow> bool" where
  "table n E p k best \<longleftrightarrow> length best = n + 1 \<and> best ! 0 = Some (0, None, None) \<and>
     (\<forall>q. 0 < q \<and> q \<le> n \<longrightarrow> explained E p best q) \<and> improved n E p k best"

lemma table_update:
  assumes t: "table n E p k best" and cost: "best ! p = Some (cost, x)"
    and i: "k < length E" "E ! k = (p, e, w)" "p < e" "e \<le> n"
    and better: "\<And>c y. best ! e = Some (c, y) \<Longrightarrow> cost + w < c"
  shows "table n E p (Suc k) (best[e := Some (cost + w, Some p, Some k)])"
proof -
  let ?b = "best[e := Some (cost + w, Some p, Some k)]"
  have len: "length best = n + 1" and im: "improved n E p k best" using t by (simp_all add: table_def)
  have same: "?b ! q = best ! q" if "q \<noteq> e" for q using that by simp
  have new: "?b ! e = Some (cost + w, Some p, Some k)" using len i by simp
  have ex: "explained E p ?b q" if q: "0 < q" "q \<le> n" for q
  proof (cases "q = e")
    case True
    then show ?thesis using new same [of p] cost i by (auto simp: explained_def)
  next
    case False
    have "explained E p best q" using t q by (simp add: table_def)
    moreover have "?b ! s = best ! s" if "s \<le> p" for s using that i by (intro same) simp
    ultimately show ?thesis unfolding explained_def same [OF False] by metis
  qed
  have im': "\<exists>c' y. ?b ! e' = Some (c', y) \<and> c' \<le> c + w'"
    if h: "j < length E" "E ! j = (s, e', w')" "s < e'" "e' \<le> n" "relaxed p (Suc k) j s" "?b ! s = Some (c, z)"
    for j s e' w' c z
  proof -
    have "s \<le> p" using h(5) by (auto simp: relaxed_def)
    then have s: "best ! s = Some (c, z)" using h(6) i same [of s] by simp
    show ?thesis
    proof (cases "j = k \<and> s = p")
      case True
      with h i s cost new show ?thesis by auto
    next
      case False
      with h(5) have "relaxed p k j s" by (auto simp: relaxed_def)
      then obtain c' y where c': "best ! e' = Some (c', y)" "c' \<le> c + w'"
        using improvedD [OF im h(1-4) _ s] by blast
      show ?thesis
      proof (cases "e' = e")
        case True
        with c' better have "cost + w \<le> c + w'" by fastforce
        with True new show ?thesis by simp
      qed (use c' same in simp)
    qed
  qed
  have "?b ! 0 = Some (0, None, None)" using t i same [of 0] by (simp add: table_def)
  then show ?thesis using len ex im' unfolding table_def improved_def by auto
qed

lemma table_skip:
  assumes t: "table n E p k best" and i: "k < length E" "E ! k = (s, e, w)"
    and ok: "s \<noteq> p \<or> e \<le> s \<or> n < e \<or>
      (\<exists>cost x c y. best ! p = Some (cost, x) \<and> best ! e = Some (c, y) \<and> c \<le> cost + w)"
  shows "table n E p (Suc k) best"
proof -
  have im: "improved n E p k best" using t by (simp add: table_def)
  have new: "\<exists>c' y. best ! e' = Some (c', y) \<and> c' \<le> c + w'"
    if h: "j < length E" "E ! j = (s', e', w')" "s' < e'" "e' \<le> n" "relaxed p (Suc k) j s'" "best ! s' = Some (c, z)"
    for j s' e' w' c z
  proof (cases "j = k \<and> s' = p")
    case True
    with h i ok show ?thesis by auto
  next
    case False
    with h(5) have "relaxed p k j s'" by (auto simp: relaxed_def)
    then show ?thesis using improvedD [OF im h(1-4) _ h(6)] by blast
  qed
  have "improved n E p (Suc k) best"
    unfolding improved_def by (intro allI impI, elim conjE, rule new)
  with t show ?thesis by (simp add: table_def)
qed

text \<open>Relaxing the candidates of one position either completes the position or meets a chain that
  costs more than a 64-bit price.\<close>

lemma table_chain:
  assumes "table n E p k best" "q \<le> n" "best ! q = Some (c, x)"
  shows "\<exists>es. set es \<subseteq> set E \<and> tiles 0 es q \<and> price es = c"
  using assms(2,3)
proof (induction q arbitrary: c x rule: less_induct)
  case (less q)
  show ?case
  proof (cases "q = 0")
    case True
    with less.prems assms(1) have "c = 0" by (simp add: table_def)
    with True show ?thesis by (intro exI [of _ "[]"]) simp
  next
    case False
    obtain pr ix where x: "x = (pr, ix)" by fastforce
    have "explained E p best q" using False assms(1) less.prems by (auto simp: table_def)
    with less.prems x obtain s i w c' y where e: "s < q" "i < length E" "E ! i = (s, q, w)"
      "best ! s = Some (c', y)" "c = c' + w" unfolding explained_def by blast
    with less.prems less.IH [of s c' y] obtain es where es: "set es \<subseteq> set E" "tiles 0 es s" "price es = c'" by auto
    have "(s, q, w) \<in> set E" using e(2,3) nth_mem by metis
    with es e have "set (es @ [(s, q, w)]) \<subseteq> set E \<and> tiles 0 (es @ [(s, q, w)]) q \<and> price (es @ [(s, q, w)]) = c"
      by (simp add: tiles_snoc)
    then show ?thesis by blast
  qed
qed

definition too_dear :: "nat \<Rightarrow> edge list \<Rightarrow> bool" where
  "too_dear n E \<longleftrightarrow> (\<exists>es q. set es \<subseteq> set E \<and> tiles 0 es q \<and> q \<le> n \<and> u64_max < price es)"

lemma relax_table:
  assumes "table n E p k best" "best ! p = Some (cost, x)" "p < n" "es = drop k (enumerate 0 E)" "k \<le> length E"
  shows "case relax n p cost es best of
      Inl e \<Rightarrow> e = SEG_OVERFLOW \<and> too_dear n E
    | Inr b \<Rightarrow> table n E p (length E) b \<and> b ! p = Some (cost, x)"
  using assms
proof (induction es arbitrary: k best)
  case Nil
  then have "k = length E" by (metis drop_eq_Nil le_antisym length_enumerate)
  with Nil show ?case by simp
next
  case (Cons f es)
  have k: "k < length E"
  proof (rule ccontr)
    assume "\<not> k < length E"
    then have "drop k (enumerate 0 E) = []" by simp
    with Cons.prems(4) show False by simp
  qed
  obtain s e w where E: "E ! k = (s, e, w)" by (cases "E ! k") auto
  have hd: "drop k (enumerate 0 E) = (k, E ! k) # drop (Suc k) (enumerate 0 E)"
    using k by (simp add: Cons_nth_drop_Suc [symmetric] nth_enumerate_eq)
  with Cons.prems(4) E have f: "f = (k, s, e, w)" and es: "es = drop (Suc k) (enumerate 0 E)" by simp_all
  show ?case
  proof (cases "s \<noteq> p \<or> e \<le> s \<or> n < e")
    case True
    then have "table n E p (Suc k) best" using Cons.prems(1) k E by (intro table_skip) auto
    from Cons.IH [OF this Cons.prems(2,3) es] k True show ?thesis by (simp add: f)
  next
    case False
    then have se: "s = p" "p < e" "e \<le> n" by auto
    show ?thesis
    proof (cases "cost + w \<le> u64_max")
      case over: False
      obtain ch where ch: "set ch \<subseteq> set E" "tiles 0 ch p" "price ch = cost"
        using table_chain [OF Cons.prems(1) _ Cons.prems(2)] Cons.prems(3) by auto
      have "E ! k \<in> set E" using k by simp
      with E se have "(p, e, w) \<in> set E" by simp
      with ch se over have "set (ch @ [(p, e, w)]) \<subseteq> set E \<and> tiles 0 (ch @ [(p, e, w)]) e \<and>
          e \<le> n \<and> u64_max < price (ch @ [(p, e, w)])"
        by (simp add: tiles_snoc)
      then have "too_dear n E" unfolding too_dear_def by blast
      with False over show ?thesis by (simp add: f checked_add_def)
    next
      case fits: True
      define upd where "upd = (case best ! e of None \<Rightarrow> True | Some (current, _, _) \<Rightarrow> cost + w < current)"
      define best' where "best' = (if upd then best[e := Some (cost + w, Some p, Some k)] else best)"
      have t: "table n E p (Suc k) best'"
      proof (cases upd)
        case True
        then have "\<And>c y. best ! e = Some (c, y) \<Longrightarrow> cost + w < c" by (auto simp: upd_def)
        from table_update [OF Cons.prems(1,2) k _ se(2,3) this] E se True show ?thesis by (simp add: best'_def)
      next
        case False
        then obtain c y where "best ! e = Some (c, y)" "c \<le> cost + w"
          by (cases "best ! e") (auto simp: upd_def split: prod.splits)
        with Cons.prems(1,2) k E have "table n E p (Suc k) best" by (intro table_skip) auto
        with False show ?thesis by (simp add: best'_def)
      qed
      have "best' ! p = Some (cost, x)" using Cons.prems(2) se by (simp add: best'_def)
      from Cons.IH [OF t this Cons.prems(3) es] k False fits show ?thesis
        by (simp add: f checked_add_def best'_def upd_def)
    qed
  qed
qed

lemma table_next: "table n E p (length E) best \<Longrightarrow> table n E (Suc p) 0 best"
proof -
  assume t: "table n E p (length E) best"
  have "relaxed (Suc p) 0 i s \<Longrightarrow> i < length E \<Longrightarrow> relaxed p (length E) i s" for i s
    by (auto simp: relaxed_def)
  moreover have "explained E (Suc p) best q" if "explained E p best q" for q
    using that unfolding explained_def by (metis le_SucI)
  ultimately show ?thesis using t unfolding table_def improved_def by blast
qed

lemma table_none: "table n E p 0 best \<Longrightarrow> best ! p = None \<Longrightarrow> table n E (Suc p) 0 best"
proof -
  assume t: "table n E p 0 best" and none: "best ! p = None"
  have "table n E p (length E) best"
  proof -
    have "relaxed p 0 i s" if "relaxed p (length E) i s" "best ! s = Some z" for i s z
      using that none by (auto simp: relaxed_def)
    with t show ?thesis unfolding table_def improved_def by blast
  qed
  then show ?thesis by (rule table_next)
qed

lemma relax_all_table:
  "table n E p 0 best \<Longrightarrow> p \<le> n \<Longrightarrow>
     (case relax_all n E [p..<n] best of Inl e \<Rightarrow> e = SEG_OVERFLOW \<and> too_dear n E | Inr b \<Rightarrow> table n E n 0 b)"
proof (induction "n - p" arbitrary: p best)
  case (Suc m)
  then have p: "[p..<n] = p # [Suc p..<n]" "p < n" "m = n - Suc p" by (simp_all add: upt_rec)
  show ?case
  proof (cases "best ! p")
    case None
    with Suc p show ?thesis using table_none [OF Suc.prems(1) None] by simp
  next
    case (Some a)
    obtain cost x where a: "a = (cost, x)" by (cases a)
    from relax_table [OF Suc.prems(1) _ p(2), of cost x "enumerate 0 E"] Some a
    have r: "case relax n p cost (enumerate 0 E) best of
        Inl e \<Rightarrow> e = SEG_OVERFLOW \<and> too_dear n E | Inr b \<Rightarrow> table n E p (length E) b \<and> b ! p = Some (cost, x)" by simp
    obtain x1 x2 where x: "x = (x1, x2)" by fastforce
    show ?thesis
    proof (cases "relax n p cost (enumerate 0 E) best")
      case (Inl e)
      with r Some a x p(1) show ?thesis by simp
    next
      case (Inr b)
      with r have "table n E (Suc p) 0 b" using table_next by simp
      with Suc.hyps(1) [of "Suc p" b] p Inr Some a x show ?thesis by simp
    qed
  qed
qed simp

text \<open>No chain is cheaper than the cell it ends in.\<close>

lemma table_optimal:
  assumes t: "table n E n 0 best"
  shows "set es \<subseteq> set E \<Longrightarrow> tiles 0 es q \<Longrightarrow> q \<le> n \<Longrightarrow> \<exists>c x. best ! q = Some (c, x) \<and> c \<le> price es"
proof (induction es arbitrary: q rule: rev_induct)
  case Nil
  with t show ?case by (auto simp: table_def)
next
  case (snoc f es)
  obtain s e w where f: "f = (s, e, w)" by (cases f) auto
  with snoc.prems have h: "tiles 0 es s" "s < e" "q = e" "e \<le> n" by (simp_all add: tiles_snoc)
  with snoc.IH [of s] snoc.prems obtain c x where c: "best ! s = Some (c, x)" "c \<le> price es" by auto
  obtain i where "i < length E" "E ! i = (s, e, w)" using snoc.prems f by (auto simp: in_set_conv_nth)
  with t h c(1) obtain c' y where "best ! e = Some (c', y)" "c' \<le> c + w"
    unfolding table_def improved_def relaxed_def by (meson less_le_trans)
  with c h f show ?case by force
qed

section \<open>Walking back\<close>

lemma walk_back_ok:
  assumes t: "table n E p k best"
  shows "q \<le> n \<Longrightarrow> best ! q = Some (c, x) \<Longrightarrow>
    \<exists>is. walk_back (length E) best q acc = Some (Ok (is @ acc)) \<and> list_all (\<lambda>i. i < length E) is \<and>
      tiles 0 (map ((!) E) is) q \<and> price (map ((!) E) is) = c"
proof (induction q arbitrary: c x acc rule: less_induct)
  case (less q)
  show ?case
  proof (cases "q = 0")
    case True
    with less.prems t have "c = 0" by (simp add: table_def)
    with True show ?thesis by (intro exI [of _ "[]"]) (simp add: walk_back.simps)
  next
    case False
    obtain pr ix where x: "x = (pr, ix)" by fastforce
    have "explained E p best q" using False t less.prems by (auto simp: table_def)
    with less.prems x obtain s i w c' y where e: "pr = Some s" "ix = Some i" "s < q" "i < length E" "E ! i = (s, q, w)"
      "best ! s = Some (c', y)" "c = c' + w" unfolding explained_def by blast
    with less.IH [of s c' y "i # acc"] less.prems obtain ks where ks:
      "walk_back (length E) best s (i # acc) = Some (Ok (ks @ i # acc))" "list_all (\<lambda>i. i < length E) ks"
      "tiles 0 (map ((!) E) ks) s" "price (map ((!) E) ks) = c'" by auto
    have "length best = n + 1" using t by (simp add: table_def)
    with False e ks(1) less.prems x have "walk_back (length E) best q acc = Some (Ok ((ks @ [i]) @ acc))"
      by (subst walk_back.simps) simp
    moreover have "tiles 0 (map ((!) E) (ks @ [i])) q" "price (map ((!) E) (ks @ [i])) = c"
      using ks e by (simp_all add: tiles_snoc)
    ultimately show ?thesis using ks(2) e(4) by (intro exI [of _ "ks @ [i]"]) simp
  qed
qed

lemma table_start:
  "0 < n \<Longrightarrow> table n E 0 0 ((replicate (n + 1) None)[0 := Some (0, None, None)])"
  by (auto simp: table_def explained_def improved_def relaxed_def nth_list_update)

definition cheapest :: "nat \<Rightarrow> edge list \<Rightarrow> nat \<Rightarrow> edge list \<Rightarrow> bool" where
  "cheapest n E t es \<longleftrightarrow> set es \<subseteq> set E \<and> tiles 0 es n \<and> price es = t \<and>
     (\<forall>fs. set fs \<subseteq> set E \<and> tiles 0 fs n \<longrightarrow> t \<le> price fs)"

lemma segment_search_ok:
  "\<exists>r. segment_search n E = Some r \<and>
     (case r of
        Inl e \<Rightarrow> e = SEG_EMPTY \<and> n = 0 \<or> e = SEG_OVERFLOW \<and> too_dear n E \<or>
               e = SEG_UNCOVERED \<and> (\<nexists>es. set es \<subseteq> set E \<and> tiles 0 es n)
      | Inr (t, is) \<Rightarrow> list_all (\<lambda>i. i < length E) is \<and> cheapest n E t (map ((!) E) is))"
proof (cases "n = 0")
  case False
  define start where "start = (replicate (n + 1) (None :: cell))[0 := Some (0, None, None)]"
  have r: "case relax_all n E [0..<n] start of Inl e \<Rightarrow> e = SEG_OVERFLOW \<and> too_dear n E | Inr b \<Rightarrow> table n E n 0 b"
    using relax_all_table [of n E 0 start] table_start [of n E] False by (simp add: start_def)
  show ?thesis
  proof (cases "relax_all n E [0..<n] start")
    case (Inl e)
    with r False show ?thesis by (simp add: segment_search_def start_def)
  next
    case (Inr best)
    with r have t: "table n E n 0 best" by simp
    show ?thesis
    proof (cases "best ! n")
      case None
      with table_optimal [OF t, of _ n] have "\<nexists>es. set es \<subseteq> set E \<and> tiles 0 es n" by fastforce
      with None Inr False show ?thesis by (simp add: segment_search_def start_def)
    next
      case (Some a)
      obtain c x where a: "a = (c, x)" by (cases a)
      obtain x1 x2 where x: "x = (x1, x2)" by fastforce
      from walk_back_ok [OF t, of n c x "[]"] Some a obtain ks where ks:
        "walk_back (length E) best n [] = Some (Ok ks)" "list_all (\<lambda>i. i < length E) ks"
        "tiles 0 (map ((!) E) ks) n" "price (map ((!) E) ks) = c" by auto
      have "set (map ((!) E) ks) \<subseteq> set E" using ks(2) by (auto simp: list_all_iff)
      moreover have "c \<le> price fs" if "set fs \<subseteq> set E" "tiles 0 fs n" for fs
        using table_optimal [OF t that] Some a by auto
      ultimately have "cheapest n E c (map ((!) E) ks)" using ks by (simp add: cheapest_def)
      with ks Some a x Inr False show ?thesis by (simp add: segment_search_def start_def)
    qed
  qed
qed (simp add: segment_search_def)

lemma segment_search_total: "\<exists>r. segment_search n E = Some r"
  using segment_search_ok [of n E] by blast

lemma segment_search_Ok:
  "segment_search n E = Some (Ok (t, is)) \<Longrightarrow> list_all (\<lambda>i. i < length E) is \<and> cheapest n E t (map ((!) E) is)"
  using segment_search_ok [of n E] by auto

text \<open>C23: The segmentation always returns, without a panic. A plan is a cheapest cover of the source by
  candidates, at the price it reports; it is refused exactly for an empty source, when no chain
  of candidates covers it, or when some chain costs more than a 64-bit price.\<close>

theorem segmentation_optimal:
  "\<exists>r. optimal_segmentation n cs = Some r \<and>
     (case r of
        Inl e \<Rightarrow> e = SEG_EMPTY \<and> n = 0 \<or> e = SEG_OVERFLOW \<and> too_dear n (map edge_of cs) \<or>
               e = SEG_UNCOVERED \<and> (\<nexists>es. set es \<subseteq> edge_of ` set cs \<and> tiles 0 es n)
      | Inr plan \<Rightarrow> set (segments plan) \<subseteq> set cs \<and>
          cheapest n (map edge_of cs) (total_cost plan) (map edge_of (segments plan)))"
proof -
  obtain r where r: "segment_search n (map edge_of cs) = Some r"
    "case r of
        Inl e \<Rightarrow> e = SEG_EMPTY \<and> n = 0 \<or> e = SEG_OVERFLOW \<and> too_dear n (map edge_of cs) \<or>
               e = SEG_UNCOVERED \<and> (\<nexists>es. set es \<subseteq> set (map edge_of cs) \<and> tiles 0 es n)
      | Inr (t, is) \<Rightarrow> list_all (\<lambda>i. i < length (map edge_of cs)) is \<and>
          cheapest n (map edge_of cs) t (map ((!) (map edge_of cs)) is)"
    using segment_search_ok [of n "map edge_of cs"] by blast
  show ?thesis
  proof (cases r)
    case (Inr tis)
    obtain t ks where tk: "tis = (t, ks)" by fastforce
    with r(2) Inr have "list_all (\<lambda>i. i < length cs) ks"
      "cheapest n (map edge_of cs) t (map ((!) (map edge_of cs)) ks)" by simp_all
    moreover from this(1) have "map ((!) (map edge_of cs)) ks = map edge_of (map ((!) cs) ks)"
      by (auto simp: list_all_iff)
    ultimately show ?thesis using r(1) Inr tk by (auto simp: optimal_segmentation_def list_all_iff)
  qed (use r in \<open>simp add: optimal_segmentation_def\<close>)
qed

definition sample_segment :: "nat \<Rightarrow> nat \<Rightarrow> nat \<Rightarrow> SegmentCandidate" where
  "sample_segment a b w = \<lparr>seg_start = a, seg_end = b, additive_cost = w, boundary_kind = []\<rparr>"

theorem segmentation_optimal_witness:
  "\<exists>plan. optimal_segmentation 2 [sample_segment 0 2 9, sample_segment 0 1 3, sample_segment 1 2 4] = Some (Ok plan) \<and>
     total_cost plan = 7 \<and> cheapest 2 [(0, 2, 9), (0, 1, 3), (1, 2, 4)] 7 (map edge_of (segments plan))"
proof -
  let ?cs = "[sample_segment 0 2 9, sample_segment 0 1 3, sample_segment 1 2 4]"
  have "map_option (map_sum id total_cost) (optimal_segmentation 2 ?cs) = Some (Ok 7)" by code_simp
  then obtain plan where plan: "optimal_segmentation 2 ?cs = Some (Ok plan)" "total_cost plan = 7"
    by (cases "optimal_segmentation 2 ?cs"; cases "the (optimal_segmentation 2 ?cs)") auto
  moreover have "map edge_of ?cs = [(0, 2, 9), (0, 1, 3), (1, 2, 4)]" by code_simp
  ultimately show ?thesis using segmentation_optimal [of 2 ?cs] by auto
qed

section \<open>Weighted prices\<close>

definition weighted_price :: "TokenizerWeight list \<Rightarrow> MultiTokenizerSegmentCandidate \<Rightarrow> nat" where
  "weighted_price ws c = additive_cost (mt_segment c) +
     (\<Sum>w\<leftarrow>ws. (the (bt_get (cost_map (tokenizer_costs c)) (weight_tokenizer_root w)) * weight_ppm w + 999999) div 1000000)"

definition u64_costs :: "TokenizerWeight list \<Rightarrow> MultiTokenizerSegmentCandidate list \<Rightarrow> bool" where
  "u64_costs ws cs \<longleftrightarrow> (\<forall>w\<in>set ws. weight_ppm w \<le> u64_max) \<and>
     (\<forall>c\<in>set cs. \<forall>k\<in>set (tokenizer_costs c). cost_tokens k \<le> u64_max)"

lemma sum_bt_insert:
  "k \<notin> set (bt_keys m) \<Longrightarrow> (\<Sum>x\<leftarrow>bt_insert k v m. f x) = f (k, v) + (\<Sum>x\<leftarrow>m. f x :: nat)"
  by (induction k v m rule: bt_insert.induct) (auto simp: bt_keys_def)

lemma set_bt_insert: "set (bt_insert k v m) \<subseteq> Set.insert (k, v) (set m)"
  by (induction k v m rule: bt_insert.induct) auto

lemma weight_map_Ok:
  "weight_map ws m = Ok weights \<Longrightarrow>
     (\<Sum>x\<leftarrow>weights. f x) = (\<Sum>x\<leftarrow>m. f x) + (\<Sum>w\<leftarrow>ws. f (weight_tokenizer_root w, weight_ppm w) :: nat) \<and>
     set weights \<subseteq> set m \<union> (\<lambda>w. (weight_tokenizer_root w, weight_ppm w)) ` set ws"
proof (induction ws m rule: weight_map.induct)
  case (2 w ws m)
  from 2(2) have ne: "\<not> (weight_tokenizer_root w = [] \<or> weight_ppm w = 0 \<or> bt_contains m (weight_tokenizer_root w))"
    and rest: "weight_map ws (bt_insert (weight_tokenizer_root w) (weight_ppm w) m) = Ok weights"
    by (auto split: if_splits)
  from ne have "weight_tokenizer_root w \<notin> set (bt_keys m)" by (simp add: bt_contains_iff)
  with 2(1) [OF ne rest] sum_bt_insert [of "weight_tokenizer_root w" m f "weight_ppm w"]
    set_bt_insert [of "weight_tokenizer_root w" "weight_ppm w" m]
  show ?case by auto
qed simp

lemma weighted_loop_Ok:
  assumes "\<And>k v. bt_get costs k = Some v \<Longrightarrow> v \<le> u64_max"
  shows "weighted_loop costs ws acc = Ok t \<Longrightarrow> \<forall>x\<in>set ws. snd x \<le> u64_max \<Longrightarrow>
    t = acc + (\<Sum>x\<leftarrow>ws. (the (bt_get costs (fst x)) * snd x + 999999) div 1000000)"
proof (induction ws arbitrary: acc)
  case (Cons x ws)
  obtain root w where x: "x = (root, w)" by fastforce
  from Cons.prems x obtain tokens where tk: "bt_get costs root = Some tokens" by (auto split: option.splits)
  have "tokens * w \<le> u64_max * u64_max" using assms [OF tk] Cons.prems(2) x by (intro mult_le_mono) auto
  also have "\<dots> \<le> u128_max" by (simp add: u64_max_def u128_max_def)
  finally have "min (tokens * w) u128_max = tokens * w" by simp
  with Cons.prems x tk have "weighted_loop costs ws (acc + (tokens * w + 999999) div 1000000) = Ok t"
    by (auto simp: Let_def split: if_splits)
  from Cons.IH [OF this] Cons.prems(2) x tk show ?case by simp
qed simp

lemma weighted_loop_complete:
  "fst ` set ws \<subseteq> dom (bt_get costs) \<Longrightarrow> weighted_loop costs ws acc \<noteq> Err (lit ''validated tokenizer cost disappeared'')"
  by (induction costs ws acc rule: weighted_loop.induct) (auto simp: Let_def split: option.splits)

lemma cost_map_bound:
  assumes "\<forall>k\<in>set cs. cost_tokens k \<le> u64_max" "bt_get (cost_map cs) k = Some v"
  shows "v \<le> u64_max"
proof -
  have "\<forall>x\<in>set m. snd x \<le> u64_max \<Longrightarrow> \<forall>k\<in>set cs. cost_tokens k \<le> u64_max \<Longrightarrow>
      \<forall>x\<in>set (fold (\<lambda>c. bt_insert (cost_tokenizer_root c) (cost_tokens c)) cs m). snd x \<le> u64_max" for m cs
  proof (induction cs arbitrary: m)
    case (Cons c cs)
    have "\<forall>x\<in>set (bt_insert (cost_tokenizer_root c) (cost_tokens c) m). snd x \<le> u64_max"
      using Cons.prems set_bt_insert [of "cost_tokenizer_root c" "cost_tokens c" m] by fastforce
    with Cons show ?case by simp
  qed simp
  from this [of "[]" cs] assms(1) have "\<forall>x\<in>set (cost_map cs). snd x \<le> u64_max" by (simp add: cost_map_def)
  moreover have "(k, v) \<in> set (cost_map cs)" using assms(2) by (simp add: bt_get_def map_of_SomeD)
  ultimately show ?thesis by auto
qed

lemma effective_cost_Ok:
  assumes "effective_cost weights c = Ok t" "weight_map ws [] = Ok weights" "u64_costs ws [c]"
  shows "t = weighted_price ws c"
proof -
  define costs where "costs = cost_map (tokenizer_costs c)"
  have b: "bt_get costs k = Some v \<Longrightarrow> v \<le> u64_max" for k v
    using assms(3) cost_map_bound unfolding costs_def u64_costs_def by auto
  have ws: "\<forall>x\<in>set weights. snd x \<le> u64_max"
    using weight_map_Ok [OF assms(2), of "\<lambda>_. 0"] assms(3) by (fastforce simp: u64_costs_def)
  from assms(1) obtain weighted where w: "weighted_loop costs weights 0 = Ok weighted"
    "t = additive_cost (mt_segment c) + weighted"
    unfolding effective_cost_def costs_def [symmetric] checked_add_def Let_def
    by (auto split: if_splits sum.splits)
  from weighted_loop_Ok [OF b w(1) ws] w(2)
    weight_map_Ok [OF assms(2), of "\<lambda>x. (the (bt_get costs (fst x)) * snd x + 999999) div 1000000"]
  show ?thesis by (simp add: weighted_price_def costs_def)
qed

lemma effective_costs_Ok:
  "effective_costs weights cs = Ok ts \<Longrightarrow> weight_map ws [] = Ok weights \<Longrightarrow> u64_costs ws cs \<Longrightarrow> ts = map (weighted_price ws) cs"
proof (induction cs arbitrary: ts)
  case (Cons c cs)
  from Cons.prems(1) obtain t ts' where t: "effective_cost weights c = Ok t" "effective_costs weights cs = Ok ts'" "ts = t # ts'"
    by (auto split: sum.splits)
  moreover have "u64_costs ws [c]" "u64_costs ws cs" using Cons.prems(3) by (auto simp: u64_costs_def)
  ultimately show ?case using Cons effective_cost_Ok by auto
qed simp

lemma map2_with_image: "map2 f xs (map g xs) = map (\<lambda>x. f x (g x)) xs"
  by (induction xs) auto

definition weighted_edges :: "TokenizerWeight list \<Rightarrow> MultiTokenizerSegmentCandidate list \<Rightarrow> edge list" where
  "weighted_edges ws cs = map (\<lambda>c. mt_edge c (weighted_price ws c)) cs"

text \<open>With several tokenizers the search returns as well, and a plan is a cheapest cover when every
  candidate costs its own price plus the weighted, rounded-up count of every tokenizer, whatever
  the order the weights and the counts are given in.\<close>

theorem multi_segmentation_optimal:
  assumes "u64_costs ws cs"
  shows "\<exists>r. optimal_multi_tokenizer_segmentation n cs ws = Some r \<and>
    (\<forall>plan. r = Ok plan \<longrightarrow> set (mt_segments plan) \<subseteq> set cs \<and>
       cheapest n (weighted_edges ws cs) (mt_total_cost plan) (weighted_edges ws (mt_segments plan)))"
proof (cases "weight_map ws []")
  case (Inr weights)
  show ?thesis
  proof (cases "effective_costs weights cs")
    case ts: (Inr ts)
    have E: "map2 mt_edge cs ts = weighted_edges ws cs"
      using effective_costs_Ok [OF ts Inr assms] by (simp add: weighted_edges_def map2_with_image)
    obtain r where r: "segment_search n (weighted_edges ws cs) = Some r" using segment_search_total by blast
    show ?thesis
    proof (cases r)
      case (Inl e)
      with r Inr ts E show ?thesis by (simp add: optimal_multi_tokenizer_segmentation_def)
    next
      case tk: (Inr tk)
      obtain t ks where k: "tk = (t, ks)" by fastforce
      with r tk have "segment_search n (weighted_edges ws cs) = Some (Ok (t, ks))" by simp
      from segment_search_Ok [OF this] have ks: "list_all (\<lambda>i. i < length cs) ks"
        "cheapest n (weighted_edges ws cs) t (map ((!) (weighted_edges ws cs)) ks)" by (simp_all add: weighted_edges_def)
      from ks(1) have "map ((!) (weighted_edges ws cs)) ks = weighted_edges ws (map ((!) cs) ks)"
        by (auto simp: weighted_edges_def list_all_iff)
      moreover have "set (map ((!) cs) ks) \<subseteq> set cs" using ks(1) by (auto simp: list_all_iff)
      ultimately show ?thesis using ks(2) r tk k Inr ts E by (simp add: optimal_multi_tokenizer_segmentation_def)
    qed
  qed (use Inr in \<open>simp add: optimal_multi_tokenizer_segmentation_def\<close>)
qed (simp add: optimal_multi_tokenizer_segmentation_def)

definition sample_mt :: "nat \<Rightarrow> nat \<Rightarrow> nat \<Rightarrow> MultiTokenizerSegmentCandidate" where
  "sample_mt a b tokens = \<lparr>mt_segment = sample_segment a b 1,
     tokenizer_costs = [\<lparr>cost_tokenizer_root = lit ''t'', cost_tokens = tokens\<rparr>]\<rparr>"

theorem multi_segmentation_optimal_witness:
  "\<exists>plan. optimal_multi_tokenizer_segmentation 2 [sample_mt 0 2 9, sample_mt 0 1 2, sample_mt 1 2 3]
       [\<lparr>weight_tokenizer_root = lit ''t'', weight_ppm = 1500000\<rparr>] = Some (Ok plan) \<and> mt_total_cost plan = 10 \<and>
     cheapest 2 [(0, 2, 15), (0, 1, 4), (1, 2, 6)] 10
       (weighted_edges [\<lparr>weight_tokenizer_root = lit ''t'', weight_ppm = 1500000\<rparr>] (mt_segments plan))"
proof -
  let ?cs = "[sample_mt 0 2 9, sample_mt 0 1 2, sample_mt 1 2 3]"
  let ?ws = "[\<lparr>weight_tokenizer_root = lit ''t'', weight_ppm = 1500000\<rparr>]"
  let ?run = "optimal_multi_tokenizer_segmentation 2 ?cs ?ws"
  have u: "u64_costs ?ws ?cs" by (simp add: u64_costs_def sample_mt_def u64_max_def)
  have "map_option (map_sum id mt_total_cost) ?run = Some (Ok 10)" by code_simp
  then obtain plan where plan: "?run = Some (Ok plan)" "mt_total_cost plan = 10"
    by (cases ?run; cases "the ?run") auto
  moreover have "weighted_edges ?ws ?cs = [(0, 2, 15), (0, 1, 4), (1, 2, 6)]" by code_simp
  ultimately show ?thesis using multi_segmentation_optimal [OF u, of 2] by auto
qed

theorem pareto_frontier_complete_witness:
  "\<exists>a b. rep_better a b \<and> representation_root a \<noteq> representation_root b \<and>
     set (pareto_frontier [b, a]) = {a} \<and> b \<notin> set (pareto_frontier [b, a])"
proof -
  define r where "r = (\<lambda>n. \<lparr>stored_bytes = n, wire_bytes = n, source_tokens = n, shown_tokens = n, expansion_work = n,
     verification_work = n, latency_micros = n, metadata_bytes = (n::nat)\<rparr>)"
  define a where "a = \<lparr>representation_root = lit ''a'', rep_semantic_root = [], rep_adapter_root = [], rep_kind = RawBytes,
     rep_exact = True, rep_resources = r 1\<rparr>"
  define b where "b = \<lparr>representation_root = lit ''b'', rep_semantic_root = [], rep_adapter_root = [], rep_kind = RawBytes,
     rep_exact = True, rep_resources = r 2\<rparr>"
  have ab: "rep_better a b" by (simp add: rep_better_def strictly_better_than_def dominates_or_equal_def a_def b_def r_def)
  have ne: "representation_root a \<noteq> representation_root b" by (simp add: a_def b_def)
  have "b \<notin> set (pareto_frontier [b, a])" using ab ne frontier_set [of "[b, a]"] by auto
  moreover have "a \<in> set (pareto_frontier [b, a])"
    using pareto_frontier_complete [of "[b, a]"] calculation rep.irrefl by auto
  moreover have "set (pareto_frontier [b, a]) \<subseteq> {a, b}" using pareto_frontier_complete [of "[b, a]"] by auto
  ultimately show ?thesis using ab ne by blast
qed

section \<open>Values\<close>

lemma u64_product: "a \<le> u64_max \<Longrightarrow> b \<le> u64_max \<Longrightarrow> c \<le> u64_max \<Longrightarrow> c + a * b < 2 ^ 128"
proof -
  assume "a \<le> u64_max" "b \<le> u64_max" "c \<le> u64_max"
  then have "c + a * b \<le> u64_max + u64_max * u64_max" by (intro add_mono mult_le_mono)
  also have "\<dots> < 2 ^ 128" by (simp add: u64_max_def)
  finally show ?thesis .
qed

text \<open>The 128-bit arithmetic of the asset value never wraps on 64-bit rates: the answer is the exact
  comparison of the work saved with the cost of keeping.\<close>

theorem cache_asset_value_exact:
  assumes "demand \<le> u64_max" "saved \<le> u64_max" "storage \<le> u64_max" "hazard \<le> u64_max" "maintenance \<le> u64_max"
  shows "cache_asset_has_positive_value demand saved storage hazard maintenance \<longleftrightarrow>
    storage + hazard * maintenance < demand * saved"
  using u64_product [OF assms(1,2), of 0] u64_product [OF assms(4,5), of 0] u64_product [OF assms(4,5,3)]
  by (simp add: cache_asset_has_positive_value_def)

theorem cache_asset_value_exact_witness: "cache_asset_has_positive_value u64_max u64_max 0 u64_max (u64_max - 1)"
  using cache_asset_value_exact [of u64_max u64_max 0 u64_max "u64_max - 1"] by (simp add: u64_max_def)

lemma surface_frontier_bound:
  "render_capsule_decision_surface A json sha root cs i = Ok s \<Longrightarrow>
     surface_root s = sha (as_bytes (surface_json s)) \<and>
     surface_json s = json \<lparr>surface_capsule_root = root, representation_frontier = pareto_frontier cs, surface_interrupt = i\<rparr> \<and>
     (\<forall>x. i = Some x \<longrightarrow> interrupt_validate A x = Ok () \<and> interrupt_capsule_root A x = root)"
  by (auto simp: render_capsule_decision_surface_def Let_def split: if_splits option.splits sum.splits)

end
