(* ===== verification/LivePareto.thy ===== *)
theory LivePareto
  imports Representations
begin

text \<open>
  The live Pareto decision (\<open>tokenzero-core/src/live_pareto.rs\<close>): candidates with protected
  outcomes, verifier and freshness, the dominance between them, the decision over a set of
  candidates and its validation and decoding. Canonical JSON and SHA-256 belong to \<open>zero-abi\<close>
  and \<open>serde_json\<close> and are the record \<open>live_abi\<close>; error messages are constructors. The lemmas show
  that only comparable fresh evidence dominates, that the frontier is exactly the maximal fresh
  candidates, that nothing is hidden, and that a decision passes its own validation and decodes
  from its canonical form.
\<close>

section \<open>Protected outcomes\<close>

definition LIVE_PARETO_CONTRACT_VERSION :: nat where "LIVE_PARETO_CONTRACT_VERSION = 1"
definition LIVE_PARETO_MAX_CANDIDATES :: nat where "LIVE_PARETO_MAX_CANDIDATES = 1024"
definition LIVE_PARETO_MAX_METRICS :: nat where "LIVE_PARETO_MAX_METRICS = 128"
definition LIVE_PARETO_MAX_ID_BYTES :: nat where "LIVE_PARETO_MAX_ID_BYTES = 128"
definition LIVE_PARETO_MAX_CANONICAL_BYTES :: nat where "LIVE_PARETO_MAX_CANONICAL_BYTES = 1048576"
definition LIVE_DOMAIN :: "byte list" where "LIVE_DOMAIN = lit ''tokenzero.live_pareto.v1'' @ [0]"

datatype MetricOrder = AtLeast | AtMost | ExactOrder

record ProtectedOutcome =
  metric_id :: rstr
  metric_order :: MetricOrder
  baseline_value :: int
  candidate_value :: int

datatype LiveError = InvalidMetricId rstr | MetricRegresses rstr | InvalidVerifierId rstr | InvalidVerifierVersion rstr
  | InvalidCandidateId rstr | ControlInCandidateId | EmptyRoots | VectorTooLong | DuplicateMetric rstr | VectorUnsorted
  | VersionMismatch | CanonicalTooLong | EntriesOutOfBounds | CanonicalMismatch | DigestMismatch rstr rstr
  | FrontierUnsorted | EntriesUnsorted | BindingMismatch rstr | IneligibleInFrontier rstr | FrontierDisagrees
  | NoCandidates | TooManyCandidates nat | DuplicateCandidate rstr | BodyTooLong | BytesTooLong | BadJson rstr | NotCanonical

text \<open>\<open>char::is_control\<close>: general category Cc.\<close>

definition is_control :: "uchar \<Rightarrow> bool" where
  "is_control c \<longleftrightarrow> c < 32 \<or> 127 \<le> c \<and> c < 160"

definition live_id_ok :: "rstr \<Rightarrow> bool" where
  "live_id_ok s \<longleftrightarrow> s \<noteq> [] \<and> blen s \<le> LIVE_PARETO_MAX_ID_BYTES \<and> \<not> list_ex is_control s"

definition candidate_no_worse_than_baseline :: "ProtectedOutcome \<Rightarrow> bool" where
  "candidate_no_worse_than_baseline p \<longleftrightarrow>
     (case metric_order p of
        AtLeast \<Rightarrow> baseline_value p \<le> candidate_value p
      | AtMost \<Rightarrow> candidate_value p \<le> baseline_value p
      | ExactOrder \<Rightarrow> candidate_value p = baseline_value p)"

definition validate_outcome :: "ProtectedOutcome \<Rightarrow> LiveError + unit" where
  "validate_outcome p =
     (if \<not> live_id_ok (metric_id p) then Err (InvalidMetricId (metric_id p))
      else if \<not> candidate_no_worse_than_baseline p then Err (MetricRegresses (metric_id p)) else Ok ())"

definition no_worse_than :: "ProtectedOutcome \<Rightarrow> ProtectedOutcome \<Rightarrow> bool" where
  "no_worse_than a b \<longleftrightarrow>
     metric_id a = metric_id b \<and> metric_order a = metric_order b \<and>
     (case metric_order a of
        AtLeast \<Rightarrow> candidate_value b \<le> candidate_value a
      | AtMost \<Rightarrow> candidate_value a \<le> candidate_value b
      | ExactOrder \<Rightarrow> candidate_value a = candidate_value b)"

definition outcome_strictly_better :: "ProtectedOutcome \<Rightarrow> ProtectedOutcome \<Rightarrow> bool" where
  "outcome_strictly_better a b \<longleftrightarrow>
     metric_id a = metric_id b \<and> metric_order a = metric_order b \<and>
     (case metric_order a of
        AtLeast \<Rightarrow> candidate_value b < candidate_value a
      | AtMost \<Rightarrow> candidate_value a < candidate_value b
      | ExactOrder \<Rightarrow> False)"

section \<open>Candidates\<close>

record VerifierIdentity =
  verifier_id :: rstr
  verifier_version :: rstr

definition validate_verifier :: "VerifierIdentity \<Rightarrow> LiveError + unit" where
  "validate_verifier v =
     (if \<not> live_id_ok (verifier_id v) then Err (InvalidVerifierId (verifier_id v))
      else if \<not> live_id_ok (verifier_version v) then Err (InvalidVerifierVersion (verifier_version v)) else Ok ())"

datatype EvidenceFreshness = Fresh | Stale | UnknownEvidence | Missing

record LiveCandidate =
  lc_id :: rstr
  lc_semantic_root :: rstr
  lc_adapter_root :: rstr
  lc_verifier :: VerifierIdentity
  lc_freshness :: EvidenceFreshness
  lc_vector :: "ProtectedOutcome list"
  lc_resources :: RepresentationResources
  lc_exact :: bool

fun validate_vector :: "ProtectedOutcome list \<Rightarrow> rstr list \<Rightarrow> rstr option \<Rightarrow> LiveError + unit" where
  "validate_vector [] seen prev = Ok ()"
| "validate_vector (m # ms) seen prev =
     (case validate_outcome m of
        Inl e \<Rightarrow> Err e
      | Inr u \<Rightarrow>
          if metric_id m \<in> set seen then Err (DuplicateMetric (metric_id m))
          else if (case prev of None \<Rightarrow> False | Some p \<Rightarrow> metric_id m \<le> p) then Err VectorUnsorted
          else validate_vector ms (metric_id m # seen) (Some (metric_id m)))"

definition validate_candidate :: "LiveCandidate \<Rightarrow> LiveError + unit" where
  "validate_candidate c =
     (if lc_id c = [] \<or> LIVE_PARETO_MAX_ID_BYTES < blen (lc_id c) then Err (InvalidCandidateId (lc_id c))
      else if list_ex is_control (lc_id c) then Err ControlInCandidateId
      else if lc_semantic_root c = [] \<or> lc_adapter_root c = [] then Err EmptyRoots
      else case validate_verifier (lc_verifier c) of
        Inl e \<Rightarrow> Err e
      | Inr u \<Rightarrow>
          if LIVE_PARETO_MAX_METRICS < length (lc_vector c) then Err VectorTooLong
          else validate_vector (lc_vector c) [] None)"

definition protected_comparable :: "LiveCandidate \<Rightarrow> LiveCandidate \<Rightarrow> bool" where
  "protected_comparable a b \<longleftrightarrow>
     length (lc_vector a) = length (lc_vector b) \<and>
     list_all (\<lambda>(x, y). metric_id x = metric_id y \<and> metric_order x = metric_order y \<and> baseline_value x = baseline_value y)
       (zip (lc_vector a) (lc_vector b))"

definition live_dominates :: "LiveCandidate \<Rightarrow> LiveCandidate \<Rightarrow> bool" where
  "live_dominates a b \<longleftrightarrow>
     (if lc_freshness a \<noteq> Fresh \<or> lc_vector a = [] then False
      else if lc_id a = lc_id b then False
      else if lc_semantic_root a \<noteq> lc_semantic_root b \<or> lc_adapter_root a \<noteq> lc_adapter_root b then False
      else if lc_verifier a \<noteq> lc_verifier b then False
      else if \<not> protected_comparable a b then False
      else if lc_exact b \<and> \<not> lc_exact a then False
      else if \<not> list_all (\<lambda>(x, y). no_worse_than x y) (zip (lc_vector a) (lc_vector b)) then False
      else if \<not> dominates_or_equal (lc_resources a) (lc_resources b) then False
      else lc_exact a \<and> \<not> lc_exact b \<or> strictly_better_than (lc_resources a) (lc_resources b) \<or>
        list_ex (\<lambda>(x, y). outcome_strictly_better x y) (zip (lc_vector a) (lc_vector b)))"

section \<open>Decisions\<close>

text \<open>The fields an entry copies from its candidate are kept together.\<close>

record LiveEntry =
  le_candidate :: LiveCandidate
  le_binding_digest :: rstr
  in_frontier :: bool
  le_reasons :: "rstr list"

record LiveParetoBody =
  body_version :: nat
  body_frontier_ids :: "rstr list"
  body_entries :: "LiveEntry list"

record LiveParetoDecision =
  contract_version :: nat
  decision_digest :: rstr
  frontier_ids :: "rstr list"
  live_entries :: "LiveEntry list"
  live_canonical_json :: rstr

text \<open>\<open>canon_value\<close> parses bytes as JSON and prints the value canonically; \<open>body_of_value\<close> reads the
  decision body of the parsed value.\<close>

record live_abi =
  canon_candidate :: "LiveCandidate \<Rightarrow> rstr"
  canon_body :: "LiveParetoBody \<Rightarrow> rstr"
  sha_hex :: "byte list \<Rightarrow> rstr"
  canon_value :: "byte list \<Rightarrow> rstr + rstr"
  body_of_value :: "byte list \<Rightarrow> rstr + LiveParetoBody"

definition binding_digest :: "live_abi \<Rightarrow> LiveCandidate \<Rightarrow> rstr" where
  "binding_digest A c = sha_hex A (as_bytes (canon_candidate A c))"

definition expected_digest :: "live_abi \<Rightarrow> rstr \<Rightarrow> rstr" where
  "expected_digest A body = sha_hex A (LIVE_DOMAIN @ as_bytes body)"

fun validate_entries :: "live_abi \<Rightarrow> LiveEntry list \<Rightarrow> rstr option \<Rightarrow> rstr list \<Rightarrow> LiveError + rstr list" where
  "validate_entries A [] prev flagged = Ok flagged"
| "validate_entries A (e # es) prev flagged =
     (let c = le_candidate e in
      if (case prev of None \<Rightarrow> False | Some p \<Rightarrow> lc_id c \<le> p) then Err EntriesUnsorted
      else case validate_candidate c of
        Inl x \<Rightarrow> Err x
      | Inr u \<Rightarrow>
          if binding_digest A c \<noteq> le_binding_digest e then Err (BindingMismatch (lc_id c))
          else if in_frontier e \<and> (lc_freshness c \<noteq> Fresh \<or> lc_vector c = []) then Err (IneligibleInFrontier (lc_id c))
          else validate_entries A es (Some (lc_id c)) (if in_frontier e then flagged @ [lc_id c] else flagged))"

definition validate_decision :: "live_abi \<Rightarrow> LiveParetoDecision \<Rightarrow> LiveError + unit" where
  "validate_decision A d =
     (if contract_version d \<noteq> LIVE_PARETO_CONTRACT_VERSION then Err VersionMismatch
      else if LIVE_PARETO_MAX_CANONICAL_BYTES < blen (live_canonical_json d) then Err CanonicalTooLong
      else if live_entries d = [] \<or> LIVE_PARETO_MAX_CANDIDATES < length (live_entries d) then Err EntriesOutOfBounds
      else
        let canonical = canon_body A \<lparr>body_version = contract_version d, body_frontier_ids = frontier_ids d,
              body_entries = live_entries d\<rparr> in
        if canonical \<noteq> live_canonical_json d then Err CanonicalMismatch
        else if expected_digest A canonical \<noteq> decision_digest d then
          Err (DigestMismatch (expected_digest A canonical) (decision_digest d))
        else if \<not> sorted_wrt (<) (frontier_ids d) then Err FrontierUnsorted
        else case validate_entries A (live_entries d) None [] of
          Inl e \<Rightarrow> Err e
        | Inr flagged \<Rightarrow> if flagged \<noteq> frontier_ids d then Err FrontierDisagrees else Ok ())"

definition from_canonical_bytes :: "live_abi \<Rightarrow> byte list \<Rightarrow> LiveError + LiveParetoDecision" where
  "from_canonical_bytes A bytes =
     (if LIVE_PARETO_MAX_CANONICAL_BYTES < length bytes then Err BytesTooLong
      else case canon_value A bytes of
        Inl e \<Rightarrow> Err (BadJson e)
      | Inr canonical \<Rightarrow>
          if as_bytes canonical \<noteq> bytes then Err NotCanonical
          else case body_of_value A bytes of
            Inl e \<Rightarrow> Err (BadJson e)
          | Inr body \<Rightarrow>
              let d = \<lparr>contract_version = body_version body, decision_digest = expected_digest A canonical,
                    frontier_ids = body_frontier_ids body, live_entries = body_entries body, live_canonical_json = canonical\<rparr>
              in case validate_decision A d of Inl e \<Rightarrow> Err e | Inr u \<Rightarrow> Ok d)"

fun validate_all :: "LiveCandidate list \<Rightarrow> rstr list \<Rightarrow> LiveError + unit" where
  "validate_all [] seen = Ok ()"
| "validate_all (c # cs) seen =
     (case validate_candidate c of
        Inl e \<Rightarrow> Err e
      | Inr u \<Rightarrow> if lc_id c \<in> set seen then Err (DuplicateCandidate (lc_id c)) else validate_all cs (lc_id c # seen))"

definition first_dominator :: "nat \<Rightarrow> LiveCandidate \<Rightarrow> LiveCandidate list \<Rightarrow> LiveCandidate option" where
  "first_dominator i c cs = map_option snd (find (\<lambda>(j, other). j \<noteq> i \<and> live_dominates other c) (enumerate 0 cs))"

definition note_dominator :: "rstr \<Rightarrow> rstr \<Rightarrow> (rstr, rstr) btree \<Rightarrow> (rstr, rstr) btree" where
  "note_dominator k by_whom m =
     (case bt_get m k of
        None \<Rightarrow> bt_insert k by_whom m
      | Some cur \<Rightarrow> if by_whom < cur then bt_insert k by_whom m else m)"

definition dominated_by :: "LiveCandidate list \<Rightarrow> (rstr, rstr) btree" where
  "dominated_by cs =
     fold (\<lambda>(i, c) m.
        if lc_freshness c \<noteq> Fresh then m
        else case first_dominator i c cs of None \<Rightarrow> m | Some d \<Rightarrow> note_dominator (lc_id c) (lc_id d) m)
       (enumerate 0 cs) []"

fun freshness_reasons :: "EvidenceFreshness \<Rightarrow> rstr list" where
  "freshness_reasons Stale = [lit ''stale_evidence'']"
| "freshness_reasons UnknownEvidence = [lit ''unknown_evidence'']"
| "freshness_reasons Missing = [lit ''missing_evidence'']"
| "freshness_reasons Fresh = []"

definition live_entry :: "live_abi \<Rightarrow> (rstr, rstr) btree \<Rightarrow> LiveCandidate \<Rightarrow> LiveEntry" where
  "live_entry A dominated c =
     (let reasons = freshness_reasons (lc_freshness c);
          reasons = (if lc_vector c = [] \<and> lc_freshness c = Fresh \<and> lit ''missing_evidence'' \<notin> set reasons
                     then reasons @ [lit ''missing_evidence''] else reasons);
          winner = bt_get dominated (lc_id c);
          reasons = (case winner of None \<Rightarrow> reasons | Some d \<Rightarrow> reasons @ [lit ''dominated_by:'' @ d])
      in \<lparr>le_candidate = c, le_binding_digest = binding_digest A c,
          in_frontier = (lc_freshness c = Fresh \<and> winner = None \<and> lc_vector c \<noteq> []), le_reasons = reasons\<rparr>)"

definition decide_live_pareto :: "live_abi \<Rightarrow> LiveCandidate list \<Rightarrow> LiveError + LiveParetoDecision" where
  "decide_live_pareto A cs =
     (if cs = [] then Err NoCandidates
      else if LIVE_PARETO_MAX_CANDIDATES < length cs then Err (TooManyCandidates (length cs))
      else case validate_all cs [] of
        Inl e \<Rightarrow> Err e
      | Inr u \<Rightarrow>
          let by_id = sort_key lc_id cs;
              dominated = dominated_by by_id;
              es = map (live_entry A dominated) by_id;
              front = sort (map (lc_id \<circ> le_candidate) (filter in_frontier es));
              body = canon_body A \<lparr>body_version = LIVE_PARETO_CONTRACT_VERSION, body_frontier_ids = front, body_entries = es\<rparr>;
              d = \<lparr>contract_version = LIVE_PARETO_CONTRACT_VERSION, decision_digest = expected_digest A body,
                   frontier_ids = front, live_entries = es, live_canonical_json = body\<rparr>
          in if LIVE_PARETO_MAX_CANONICAL_BYTES < blen body then Err BodyTooLong
             else case validate_decision A d of Inl e \<Rightarrow> Err e | Inr u \<Rightarrow> Ok d)"

section \<open>Dominance is a strict order\<close>

definition live_better :: "LiveCandidate \<Rightarrow> LiveCandidate \<Rightarrow> bool" where
  "live_better a b \<longleftrightarrow>
     lc_freshness a = Fresh \<and> lc_vector a \<noteq> [] \<and>
     lc_semantic_root a = lc_semantic_root b \<and> lc_adapter_root a = lc_adapter_root b \<and> lc_verifier a = lc_verifier b \<and>
     (lc_exact b \<longrightarrow> lc_exact a) \<and>
     list_all2 (\<lambda>x y. baseline_value x = baseline_value y \<and> no_worse_than x y) (lc_vector a) (lc_vector b) \<and>
     dominates_or_equal (lc_resources a) (lc_resources b) \<and>
     (lc_exact a \<and> \<not> lc_exact b \<or> strictly_better_than (lc_resources a) (lc_resources b) \<or>
      (\<exists>i<length (lc_vector a). outcome_strictly_better (lc_vector a ! i) (lc_vector b ! i)))"

lemma no_worse_same: "no_worse_than x y \<Longrightarrow> metric_id x = metric_id y \<and> metric_order x = metric_order y"
  by (simp add: no_worse_than_def)

lemma vector_no_worse:
  "protected_comparable a b \<and> list_all (\<lambda>(x, y). no_worse_than x y) (zip (lc_vector a) (lc_vector b)) \<longleftrightarrow>
     list_all2 (\<lambda>x y. baseline_value x = baseline_value y \<and> no_worse_than x y) (lc_vector a) (lc_vector b)"
  unfolding protected_comparable_def list_all2_iff list_all_iff by (auto dest: no_worse_same)

lemma vector_strictly:
  "length xs = length ys \<Longrightarrow> list_ex (\<lambda>(x, y). outcome_strictly_better x y) (zip xs ys) \<longleftrightarrow>
     (\<exists>i<length xs. outcome_strictly_better (xs ! i) (ys ! i))"
  by (auto simp: list_ex_length)

lemma live_dominates_iff: "live_dominates a b \<longleftrightarrow> lc_id a \<noteq> lc_id b \<and> live_better a b"
proof (cases "protected_comparable a b \<and> list_all (\<lambda>(x, y). no_worse_than x y) (zip (lc_vector a) (lc_vector b))")
  case True
  then have "list_all2 (\<lambda>x y. baseline_value x = baseline_value y \<and> no_worse_than x y) (lc_vector a) (lc_vector b)"
    "length (lc_vector a) = length (lc_vector b)"
    by (simp_all only: vector_no_worse) (auto dest: list_all2_lengthD)
  with True show ?thesis by (auto simp: live_dominates_def live_better_def vector_strictly)
next
  case False
  then show ?thesis using vector_no_worse [of a b] by (auto simp: live_dominates_def live_better_def)
qed

lemma no_worse_trans: "no_worse_than x y \<Longrightarrow> no_worse_than y z \<Longrightarrow> no_worse_than x z"
  by (auto simp: no_worse_than_def split: MetricOrder.splits)

lemma strictly_no_worse: "outcome_strictly_better x y \<Longrightarrow> no_worse_than y z \<Longrightarrow> outcome_strictly_better x z"
  by (auto simp: no_worse_than_def outcome_strictly_better_def split: MetricOrder.splits)

lemma no_worse_strictly: "no_worse_than x y \<Longrightarrow> outcome_strictly_better y z \<Longrightarrow> outcome_strictly_better x z"
  by (auto simp: no_worse_than_def outcome_strictly_better_def split: MetricOrder.splits)

lemma strictly_dominates:
  "strictly_better_than a b \<Longrightarrow> dominates_or_equal b c \<Longrightarrow> strictly_better_than a c"
  "dominates_or_equal a b \<Longrightarrow> strictly_better_than b c \<Longrightarrow> strictly_better_than a c"
  unfolding strictly_better_than_def using dominates_trans dominates_antisym by blast+

lemma live_better_trans:
  assumes ab: "live_better a b" and bc: "live_better b c"
  shows "live_better a c"
proof -
  let ?V = "\<lambda>x y. baseline_value x = baseline_value y \<and> no_worse_than x y"
  have l: "list_all2 ?V (lc_vector a) (lc_vector b)" "list_all2 ?V (lc_vector b) (lc_vector c)"
    using ab bc by (simp_all add: live_better_def)
  then have len: "length (lc_vector a) = length (lc_vector b)" "length (lc_vector b) = length (lc_vector c)"
    by (auto dest: list_all2_lengthD)
  have V: "list_all2 ?V (lc_vector a) (lc_vector c)"
    by (rule list_all2_trans [OF _ l]) (auto intro: no_worse_trans)
  have s1: "outcome_strictly_better (lc_vector a ! i) (lc_vector c ! i)"
    if "i < length (lc_vector a)" "outcome_strictly_better (lc_vector a ! i) (lc_vector b ! i)" for i
    using that list_all2_nthD [OF l(2), of i] len strictly_no_worse by auto
  have s2: "outcome_strictly_better (lc_vector a ! i) (lc_vector c ! i)"
    if "i < length (lc_vector b)" "outcome_strictly_better (lc_vector b ! i) (lc_vector c ! i)" for i
    using that list_all2_nthD [OF l(1), of i] len no_worse_strictly by auto
  have "lc_exact a \<and> \<not> lc_exact c \<or> strictly_better_than (lc_resources a) (lc_resources c) \<or>
      (\<exists>i<length (lc_vector a). outcome_strictly_better (lc_vector a ! i) (lc_vector c ! i))"
    using ab bc s1 s2 len strictly_dominates unfolding live_better_def by metis
  then show ?thesis using ab bc V dominates_trans unfolding live_better_def by auto
qed

interpretation lp: dominance live_better
proof
  show "\<not> live_better x x" for x
    by (auto simp: live_better_def strictly_better_than_def outcome_strictly_better_def split: MetricOrder.splits)
qed (rule live_better_trans)

section \<open>The table of dominators\<close>

lemma find_indexed:
  "(\<And>j. j < length xs \<Longrightarrow> P (n + j, xs ! j) = Q (xs ! j)) \<Longrightarrow> map_option snd (find P (enumerate n xs)) = find Q xs"
proof (induction xs arbitrary: n)
  case (Cons x xs)
  have "P (n, x) = Q x" using Cons.prems [of 0] by simp
  moreover have "P (Suc n + j, xs ! j) = Q (xs ! j)" if "j < length xs" for j using Cons.prems [of "Suc j"] that by simp
  ultimately show ?case using Cons.IH [of "Suc n"] by simp
qed simp

lemma first_dominator_find:
  "i < length cs \<Longrightarrow> first_dominator i (cs ! i) cs = find (\<lambda>d. live_dominates d (cs ! i)) cs"
  unfolding first_dominator_def by (rule find_indexed) (auto simp: live_dominates_iff)

lemma fold_dominators:
  fixes cs :: "LiveCandidate list" and xs :: "(nat \<times> LiveCandidate) list"
  defines "F \<equiv> \<lambda>(i, c) m. if lc_freshness c \<noteq> Fresh then m
        else case first_dominator i c cs of None \<Rightarrow> m | Some d \<Rightarrow> note_dominator (lc_id c) (lc_id d) m"
  assumes "distinct (map (\<lambda>x. lc_id (snd x)) xs)"
  shows "bt_get m k = None \<or> k \<notin> (\<lambda>x. lc_id (snd x)) ` set xs \<Longrightarrow>
    bt_get (fold F xs m) k = None \<longleftrightarrow>
      bt_get m k = None \<and> (\<forall>(i, c)\<in>set xs. lc_id c = k \<longrightarrow> lc_freshness c \<noteq> Fresh \<or> first_dominator i c cs = None)"
  using assms(2)
proof (induction xs arbitrary: m)
  case (Cons x xs)
  obtain i c where x: "x = (i, c)" by fastforce
  have F: "bt_get (F x m) k = (if lc_id c = k \<and> lc_freshness c = Fresh \<and> bt_get m k = None
      then map_option lc_id (first_dominator i c cs) else bt_get m k)"
    if "lc_id c = k \<longrightarrow> bt_get m k = None"
    using that by (auto simp: F_def x note_dominator_def split: option.splits)
  from Cons.prems have m: "lc_id c = k \<longrightarrow> bt_get m k = None" and d: "distinct (map (\<lambda>x. lc_id (snd x)) xs)"
    and k: "lc_id c = k \<longrightarrow> k \<notin> (\<lambda>x. lc_id (snd x)) ` set xs" by (auto simp: x)
  from Cons.prems have "bt_get (F x m) k = None \<or> k \<notin> (\<lambda>x. lc_id (snd x)) ` set xs"
    using F [OF m] k by (auto simp: x)
  from Cons.IH [OF this d] F [OF m] k m show ?case by (auto simp: x)
qed simp

lemma dominated_by_None:
  assumes "distinct (map lc_id cs)" "c \<in> set cs"
  shows "bt_get (dominated_by cs) (lc_id c) = None \<longleftrightarrow> lc_freshness c \<noteq> Fresh \<or> (\<forall>d\<in>set cs. \<not> live_dominates d c)"
proof -
  have "map (\<lambda>x. lc_id (snd x)) (enumerate 0 cs) = map lc_id (map snd (enumerate 0 cs))"
    by (simp only: map_map comp_def)
  then have "map (\<lambda>x. lc_id (snd x)) (enumerate 0 cs) = map lc_id cs" unfolding map_snd_enumerate .
  with assms(1) have d: "distinct (map (\<lambda>x. lc_id (snd x)) (enumerate 0 cs))" by simp
  have "bt_get (dominated_by cs) (lc_id c) = None \<longleftrightarrow>
    (\<forall>(i, c')\<in>set (enumerate 0 cs). lc_id c' = lc_id c \<longrightarrow> lc_freshness c' \<noteq> Fresh \<or> first_dominator i c' cs = None)"
    unfolding dominated_by_def using fold_dominators [OF d, of "[]" "lc_id c" cs] by simp
  also have "\<dots> \<longleftrightarrow> (\<forall>i<length cs. lc_id (cs ! i) = lc_id c \<longrightarrow> lc_freshness (cs ! i) \<noteq> Fresh \<or> first_dominator i (cs ! i) cs = None)"
    by (auto simp: in_set_enumerate_eq)
  also have "\<dots> \<longleftrightarrow> (\<forall>i<length cs. lc_id (cs ! i) = lc_id c \<longrightarrow> lc_freshness (cs ! i) \<noteq> Fresh \<or> (\<forall>d\<in>set cs. \<not> live_dominates d (cs ! i)))"
    by (simp add: first_dominator_find find_None_iff Ball_def)
  also have "\<dots> \<longleftrightarrow> (\<forall>c'\<in>set cs. lc_id c' = lc_id c \<longrightarrow> lc_freshness c' \<noteq> Fresh \<or> (\<forall>d\<in>set cs. \<not> live_dominates d c'))"
    by (simp only: all_set_conv_all_nth [of cs "\<lambda>c'. lc_id c' = lc_id c \<longrightarrow> _ c'"])
  also have "\<dots> \<longleftrightarrow> lc_freshness c \<noteq> Fresh \<or> (\<forall>d\<in>set cs. \<not> live_dominates d c)"
    using assms by (auto simp: distinct_map inj_on_def)
  finally show ?thesis .
qed

section \<open>Building and validating decisions\<close>

lemma validate_all_Ok:
  "validate_all cs seen = Ok u \<longleftrightarrow>
     (\<forall>c\<in>set cs. validate_candidate c = Ok ()) \<and> distinct (map lc_id cs) \<and> set (map lc_id cs) \<inter> set seen = {}"
proof (induction cs seen rule: validate_all.induct)
  case (2 c cs seen)
  show ?case
  proof (cases "validate_candidate c")
    case (Inr v)
    with 2 [of v] show ?thesis by auto
  qed simp
qed simp

lemma validate_entries_Ok:
  assumes "\<forall>e\<in>set es. validate_candidate (le_candidate e) = Ok () \<and> le_binding_digest e = binding_digest A (le_candidate e) \<and>
      (in_frontier e \<longrightarrow> lc_freshness (le_candidate e) = Fresh \<and> lc_vector (le_candidate e) \<noteq> [])"
    and "sorted_wrt (<) (map (lc_id \<circ> le_candidate) es)"
    and "\<forall>p. prev = Some p \<longrightarrow> (\<forall>e\<in>set es. p < lc_id (le_candidate e))"
  shows "validate_entries A es prev flagged = Ok (flagged @ map (lc_id \<circ> le_candidate) (filter in_frontier es))"
  using assms
proof (induction es arbitrary: prev flagged)
  case (Cons e es)
  have "validate_entries A es (Some (lc_id (le_candidate e))) fl = Ok (fl @ map (lc_id \<circ> le_candidate) (filter in_frontier es))" for fl
    using Cons.prems by (intro Cons.IH) auto
  moreover have "\<not> (case prev of None \<Rightarrow> False | Some p \<Rightarrow> lc_id (le_candidate e) \<le> p)"
    using Cons.prems(3) by (auto split: option.splits)
  ultimately show ?case using Cons.prems(1) by (auto simp: Let_def)
qed simp

lemma sorted_by_id:
  assumes "distinct (map lc_id cs)"
  shows "sorted_wrt (<) (map lc_id (sort_key lc_id cs))"
proof -
  have "distinct (map lc_id (sort_key lc_id cs))"
    using assms by (simp add: distinct_map)
  moreover have "sorted (map lc_id (sort_key lc_id cs))" by simp
  ultimately show ?thesis by (simp add: strict_sorted_iff)
qed

definition live_decision :: "live_abi \<Rightarrow> LiveCandidate list \<Rightarrow> LiveParetoDecision" where
  "live_decision A cs =
     (let es = map (live_entry A (dominated_by (sort_key lc_id cs))) (sort_key lc_id cs);
          front = sort (map (lc_id \<circ> le_candidate) (filter in_frontier es));
          body = canon_body A \<lparr>body_version = LIVE_PARETO_CONTRACT_VERSION, body_frontier_ids = front, body_entries = es\<rparr>
      in \<lparr>contract_version = LIVE_PARETO_CONTRACT_VERSION, decision_digest = expected_digest A body,
          frontier_ids = front, live_entries = es, live_canonical_json = body\<rparr>)"

lemma live_entry_simps [simp]:
  "le_candidate (live_entry A m c) = c" "le_binding_digest (live_entry A m c) = binding_digest A c"
  "in_frontier (live_entry A m c) \<longleftrightarrow> lc_freshness c = Fresh \<and> bt_get m (lc_id c) = None \<and> lc_vector c \<noteq> []"
  by (simp_all add: live_entry_def Let_def)

lemma live_decision_sorted:
  assumes "distinct (map lc_id cs)"
  shows "sorted_wrt (<) (map (lc_id \<circ> le_candidate) (live_entries (live_decision A cs)))"
    "frontier_ids (live_decision A cs) = map (lc_id \<circ> le_candidate) (filter in_frontier (live_entries (live_decision A cs)))"
    "sorted_wrt (<) (frontier_ids (live_decision A cs))"
proof -
  let ?es = "live_entries (live_decision A cs)"
  have m: "map (lc_id \<circ> le_candidate) ?es = map lc_id (sort_key lc_id cs)"
    by (simp add: live_decision_def Let_def)
  show a: "sorted_wrt (<) (map (lc_id \<circ> le_candidate) ?es)" unfolding m by (rule sorted_by_id [OF assms])
  then have f: "sorted_wrt (<) (map (lc_id \<circ> le_candidate) (filter in_frontier ?es))"
    unfolding sorted_wrt_map by (rule sorted_wrt_filter)
  then have "sort (map (lc_id \<circ> le_candidate) (filter in_frontier ?es)) = map (lc_id \<circ> le_candidate) (filter in_frontier ?es)"
    by (intro sort_key_id_if_sorted) (simp add: strict_sorted_iff)
  then show b: "frontier_ids (live_decision A cs) = map (lc_id \<circ> le_candidate) (filter in_frontier ?es)"
    by (simp add: live_decision_def Let_def)
  from f b show "sorted_wrt (<) (frontier_ids (live_decision A cs))" by simp
qed

lemma live_decision_valid:
  assumes "validate_all cs [] = Ok ()" "cs \<noteq> []" "length cs \<le> LIVE_PARETO_MAX_CANDIDATES"
    "blen (live_canonical_json (live_decision A cs)) \<le> LIVE_PARETO_MAX_CANONICAL_BYTES"
  shows "validate_decision A (live_decision A cs) = Ok ()"
proof -
  let ?d = "live_decision A cs"
  from assms(1) have v: "\<forall>c\<in>set cs. validate_candidate c = Ok ()" "distinct (map lc_id cs)"
    by (simp_all add: validate_all_Ok)
  have es: "live_entries ?d = map (live_entry A (dominated_by (sort_key lc_id cs))) (sort_key lc_id cs)"
    by (simp add: live_decision_def Let_def)
  have "validate_entries A (live_entries ?d) None [] = Ok ([] @ map (lc_id \<circ> le_candidate) (filter in_frontier (live_entries ?d)))"
  proof (rule validate_entries_Ok)
    show "sorted_wrt (<) (map (lc_id \<circ> le_candidate) (live_entries ?d))" by (rule live_decision_sorted(1) [OF v(2)])
  qed (use v in \<open>auto simp: es\<close>)
  then have ve: "validate_entries A (live_entries ?d) None [] = Ok (frontier_ids ?d)"
    using live_decision_sorted(2) [OF v(2)] by simp
  have len: "live_entries ?d \<noteq> []" "length (live_entries ?d) \<le> LIVE_PARETO_MAX_CANDIDATES"
  proof -
    have "length (live_entries ?d) = length cs" unfolding es by simp
    with assms(2,3) show "live_entries ?d \<noteq> []" "length (live_entries ?d) \<le> LIVE_PARETO_MAX_CANDIDATES" by auto
  qed
  have body: "contract_version ?d = LIVE_PARETO_CONTRACT_VERSION"
    "canon_body A \<lparr>body_version = LIVE_PARETO_CONTRACT_VERSION, body_frontier_ids = frontier_ids ?d, body_entries = live_entries ?d\<rparr> =
     live_canonical_json ?d" "decision_digest ?d = expected_digest A (live_canonical_json ?d)"
    by (simp_all add: live_decision_def Let_def)
  show ?thesis
    unfolding validate_decision_def using ve len body assms(4) live_decision_sorted(3) [OF v(2)] by (simp add: Let_def)
qed

lemma decide_cases:
  "decide_live_pareto A cs =
     (if cs = [] then Err NoCandidates
      else if LIVE_PARETO_MAX_CANDIDATES < length cs then Err (TooManyCandidates (length cs))
      else case validate_all cs [] of
        Inl e \<Rightarrow> Err e
      | Inr u \<Rightarrow> if LIVE_PARETO_MAX_CANONICAL_BYTES < blen (live_canonical_json (live_decision A cs)) then Err BodyTooLong
                else Ok (live_decision A cs))"
proof -
  have "decide_live_pareto A cs =
     (if cs = [] then Err NoCandidates
      else if LIVE_PARETO_MAX_CANDIDATES < length cs then Err (TooManyCandidates (length cs))
      else case validate_all cs [] of
        Inl e \<Rightarrow> Err e
      | Inr u \<Rightarrow> if LIVE_PARETO_MAX_CANONICAL_BYTES < blen (live_canonical_json (live_decision A cs)) then Err BodyTooLong
                else case validate_decision A (live_decision A cs) of Inl e \<Rightarrow> Err e | Inr u \<Rightarrow> Ok (live_decision A cs))"
    unfolding decide_live_pareto_def live_decision_def Let_def by simp
  then show ?thesis using live_decision_valid [of cs A] by (auto split: sum.splits)
qed

lemma decide_Ok:
  "decide_live_pareto A cs = Ok d \<Longrightarrow>
     d = live_decision A cs \<and> validate_all cs [] = Ok () \<and> cs \<noteq> [] \<and> length cs \<le> LIVE_PARETO_MAX_CANDIDATES \<and>
     blen (live_canonical_json d) \<le> LIVE_PARETO_MAX_CANONICAL_BYTES"
  by (auto simp: decide_cases split: if_splits sum.splits)

text \<open>C28: The decision hides nothing and claims no more than comparable fresh evidence supports: its
  entries are the candidates in the order of their identities; the frontier is exactly the fresh
  candidates with evidence that no candidate dominates; and every other fresh candidate with
  evidence is dominated by one of the frontier.\<close>

theorem live_frontier_exact:
  assumes "decide_live_pareto A cs = Ok d"
  shows "map le_candidate (live_entries d) = sort_key lc_id cs \<and>
    frontier_ids d = map lc_id (filter (\<lambda>c. lc_freshness c = Fresh \<and> lc_vector c \<noteq> [] \<and> \<not> (\<exists>r\<in>set cs. live_dominates r c))
      (sort_key lc_id cs)) \<and>
    (\<forall>c\<in>set cs. lc_freshness c = Fresh \<and> lc_vector c \<noteq> [] \<and> lc_id c \<notin> set (frontier_ids d) \<longrightarrow>
      (\<exists>m\<in>set cs. lc_id m \<in> set (frontier_ids d) \<and> live_dominates m c))"
proof -
  from decide_Ok [OF assms] have d: "d = live_decision A cs" and v: "validate_all cs [] = Ok ()" by blast+
  from v have dis: "distinct (map lc_id cs)" by (simp add: validate_all_Ok)
  then have dis': "distinct (map lc_id (sort_key lc_id cs))" by (simp add: distinct_map)
  have es: "live_entries d = map (live_entry A (dominated_by (sort_key lc_id cs))) (sort_key lc_id cs)"
    by (simp add: d live_decision_def Let_def)
  let ?keep = "\<lambda>c. lc_freshness c = Fresh \<and> lc_vector c \<noteq> [] \<and> \<not> (\<exists>r\<in>set cs. live_dominates r c)"
  have "filter (in_frontier \<circ> live_entry A (dominated_by (sort_key lc_id cs))) (sort_key lc_id cs) = filter ?keep (sort_key lc_id cs)"
    by (rule filter_cong) (use dominated_by_None [OF dis'] in auto)
  then have f: "frontier_ids d = map lc_id (filter ?keep (sort_key lc_id cs))"
    unfolding d live_decision_sorted(2) [OF dis] es [unfolded d] by (simp add: filter_map comp_def)
  have "\<exists>m\<in>set cs. lc_id m \<in> set (frontier_ids d) \<and> live_dominates m c"
    if c: "c \<in> set cs" "lc_freshness c = Fresh" "lc_vector c \<noteq> []" "lc_id c \<notin> set (frontier_ids d)" for c
  proof -
    from c f obtain r where r: "r \<in> set cs" "live_dominates r c" by auto
    obtain m where m: "m \<in> set cs" "m = r \<or> live_better m r" "\<forall>y\<in>set cs. \<not> live_better y m"
      using lp.maximal_above [OF finite_set r(1)] by blast
    then have "live_better m c" using r(2) lp.trans by (auto simp: live_dominates_iff)
    moreover from this have "lc_id m \<noteq> lc_id c"
      using dis m(1) c(1) lp.irrefl by (metis distinct_map inj_onD)
    ultimately have mc: "live_dominates m c" by (simp add: live_dominates_iff)
    have "?keep m" using mc m(3) by (auto simp: live_dominates_iff live_better_def)
    with m(1) f have "lc_id m \<in> set (frontier_ids d)" by auto
    with m(1) mc show ?thesis by blast
  qed
  moreover have "map le_candidate (live_entries d) = sort_key lc_id cs" by (simp add: es comp_def)
  ultimately show ?thesis using f by blast
qed

text \<open>A decision fails only for its input: no candidates, too many of them, an invalid or repeated
  candidate, or a canonical body over the bound. The validation that ends the construction never
  rejects what was built.\<close>

theorem decide_fails_only_for_input:
  assumes "decide_live_pareto A cs = Err e"
  shows "e = NoCandidates \<and> cs = [] \<or>
    e = TooManyCandidates (length cs) \<and> LIVE_PARETO_MAX_CANDIDATES < length cs \<or>
    e = BodyTooLong \<and> validate_all cs [] = Ok () \<or>
    (\<exists>c\<in>set cs. validate_candidate c = Err e \<or> e = DuplicateCandidate (lc_id c))"
proof -
  have "validate_all cs seen = Err e \<Longrightarrow> \<exists>c\<in>set cs. validate_candidate c = Err e \<or> e = DuplicateCandidate (lc_id c)" for cs seen
    by (induction cs seen rule: validate_all.induct) (auto split: sum.splits if_splits)
  with assms show ?thesis by (auto simp: decide_cases split: if_splits sum.splits)
qed

definition decision_body :: "LiveParetoDecision \<Rightarrow> LiveParetoBody" where
  "decision_body d = \<lparr>body_version = contract_version d, body_frontier_ids = frontier_ids d, body_entries = live_entries d\<rparr>"

text \<open>The canonical form carries the whole decision: when JSON reads back what it printed, decoding
  the canonical form gives back the decision itself.\<close>

theorem decision_roundtrip:
  assumes "decide_live_pareto A cs = Ok d"
    and "canon_value A (as_bytes (live_canonical_json d)) = Ok (live_canonical_json d)"
    and "body_of_value A (as_bytes (live_canonical_json d)) = Ok (decision_body d)"
  shows "from_canonical_bytes A (as_bytes (live_canonical_json d)) = Ok d"
proof -
  from decide_Ok [OF assms(1)] have d: "d = live_decision A cs" "validate_all cs [] = Ok ()" "cs \<noteq> []"
    "length cs \<le> LIVE_PARETO_MAX_CANDIDATES" "blen (live_canonical_json d) \<le> LIVE_PARETO_MAX_CANONICAL_BYTES" by auto
  have v: "validate_decision A d = Ok ()" using live_decision_valid d by blast
  have j: "decision_digest d = expected_digest A (live_canonical_json d)"
    by (simp add: d(1) live_decision_def Let_def)
  have rebuilt: "\<lparr>contract_version = body_version (decision_body d), decision_digest = expected_digest A (live_canonical_json d),
      frontier_ids = body_frontier_ids (decision_body d), live_entries = body_entries (decision_body d),
      live_canonical_json = live_canonical_json d\<rparr> = d"
    using j by (simp add: decision_body_def)
  have "\<not> LIVE_PARETO_MAX_CANONICAL_BYTES < length (as_bytes (live_canonical_json d))"
    using d(5) by (simp add: length_as_bytes)
  then show ?thesis unfolding from_canonical_bytes_def using assms(2,3) rebuilt v by (simp add: Let_def)
qed

text \<open>A validated decision is bound by its canonical form: another validated decision with the same
  form is the same decision, whenever canonical JSON is injective.\<close>

lemma validated_decision_bound:
  assumes "validate_decision A d = Ok ()" "validate_decision A d' = Ok ()" "inj (canon_body A)"
    "live_canonical_json d = live_canonical_json d'"
  shows "d = d'"
proof -
  have b: "contract_version x = LIVE_PARETO_CONTRACT_VERSION \<and>
      canon_body A \<lparr>body_version = contract_version x, body_frontier_ids = frontier_ids x, body_entries = live_entries x\<rparr> =
        live_canonical_json x \<and> decision_digest x = expected_digest A (live_canonical_json x)"
    if "validate_decision A x = Ok ()" for x
    using that by (auto simp: validate_decision_def Let_def split: if_splits)
  from b [OF assms(1)] b [OF assms(2)] assms(4) have
    "canon_body A \<lparr>body_version = contract_version d, body_frontier_ids = frontier_ids d, body_entries = live_entries d\<rparr> =
     canon_body A \<lparr>body_version = contract_version d', body_frontier_ids = frontier_ids d', body_entries = live_entries d'\<rparr>" by metis
  from injD [OF assms(3) this] have "frontier_ids d = frontier_ids d'" "live_entries d = live_entries d'" by auto
  with b [OF assms(1)] b [OF assms(2)] assms(4) show ?thesis by (intro LiveParetoDecision.equality) auto
qed

section \<open>A sample\<close>

definition sample_candidate :: "rstr \<Rightarrow> int \<Rightarrow> EvidenceFreshness \<Rightarrow> LiveCandidate" where
  "sample_candidate k v f = \<lparr>lc_id = k, lc_semantic_root = lit ''s'', lc_adapter_root = lit ''a'',
     lc_verifier = \<lparr>verifier_id = lit ''v'', verifier_version = lit ''1''\<rparr>, lc_freshness = f,
     lc_vector = [\<lparr>metric_id = lit ''acc'', metric_order = AtLeast, baseline_value = 80, candidate_value = v\<rparr>],
     lc_resources = \<lparr>stored_bytes = 1, wire_bytes = 1, source_tokens = 1, shown_tokens = 1, expansion_work = 1,
       verification_work = 1, latency_micros = 1, metadata_bytes = 1\<rparr>, lc_exact = True\<rparr>"

definition sample_abi :: "LiveParetoBody \<Rightarrow> live_abi" where
  "sample_abi b = \<lparr>canon_candidate = (\<lambda>c. []), canon_body = (\<lambda>b. []), sha_hex = (\<lambda>bs. []),
     canon_value = (\<lambda>bs. Ok []), body_of_value = (\<lambda>bs. Ok b)\<rparr>"

definition no_body :: LiveParetoBody where
  "no_body = \<lparr>body_version = 1, body_frontier_ids = [], body_entries = []\<rparr>"

abbreviation (input) sample_live :: "LiveCandidate list" where
  "sample_live \<equiv> [sample_candidate (lit ''b'') 90 Fresh, sample_candidate (lit ''a'') 85 Fresh, sample_candidate (lit ''c'') 99 Stale]"

theorem live_frontier_exact_witness:
  "\<exists>d. decide_live_pareto (sample_abi no_body) sample_live = Ok d \<and> frontier_ids d = [lit ''b''] \<and>
     map (lc_id \<circ> le_candidate) (live_entries d) = [lit ''a'', lit ''b'', lit ''c'']"
proof -
  let ?run = "decide_live_pareto (sample_abi no_body) sample_live"
  have r: "map_sum id frontier_ids ?run = Ok [lit ''b'']" by code_simp
  then obtain d where d: "?run = Ok d" "frontier_ids d = [lit ''b'']" by (cases ?run) auto
  have "map le_candidate (live_entries d) = sort_key lc_id sample_live" using live_frontier_exact [OF d(1)] by blast
  then have "map lc_id (map le_candidate (live_entries d)) = map lc_id (sort_key lc_id sample_live)" by simp
  also have "\<dots> = [lit ''a'', lit ''b'', lit ''c'']" by code_simp
  finally show ?thesis using d by simp
qed

theorem decide_fails_only_for_input_witness:
  "decide_live_pareto (sample_abi no_body) [sample_candidate (lit ''a'') 79 Fresh] = Err (MetricRegresses (lit ''acc'')) \<and>
   validate_candidate (sample_candidate (lit ''a'') 79 Fresh) = Err (MetricRegresses (lit ''acc''))"
proof -
  have r: "decide_live_pareto (sample_abi no_body) [sample_candidate (lit ''a'') 79 Fresh] = Err (MetricRegresses (lit ''acc''))"
    by code_simp
  show ?thesis using r decide_fails_only_for_input [OF r] by auto
qed

lemma sample_decision: "live_decision (sample_abi b) cs = live_decision (sample_abi b') cs"
    "live_canonical_json (live_decision (sample_abi b) cs) = []"
proof -
  have "live_entry (sample_abi b) = live_entry (sample_abi b')"
    by (intro ext) (simp add: live_entry_def binding_digest_def sample_abi_def)
  then show "live_decision (sample_abi b) cs = live_decision (sample_abi b') cs"
    unfolding live_decision_def by (simp add: expected_digest_def sample_abi_def Let_def)
qed (simp add: live_decision_def sample_abi_def Let_def)

theorem decision_roundtrip_witness:
  "\<exists>A d. decide_live_pareto A sample_live = Ok d \<and> from_canonical_bytes A (as_bytes (live_canonical_json d)) = Ok d"
proof -
  let ?d = "live_decision (sample_abi no_body) sample_live"
  let ?A = "sample_abi (decision_body ?d)"
  have same: "live_decision ?A sample_live = ?d" by (rule sample_decision)
  have "\<not> isl (decide_live_pareto ?A sample_live)"
  proof -
    have "validate_all sample_live [] = Ok ()" by code_simp
    then show ?thesis unfolding decide_cases by (simp add: sample_decision LIVE_PARETO_MAX_CANDIDATES_def)
  qed
  then obtain d where d: "decide_live_pareto ?A sample_live = Ok d" by (cases "decide_live_pareto ?A sample_live") auto
  then have "d = ?d" using decide_Ok same by metis
  have c: "canon_value ?A bs = Ok []" "body_of_value ?A bs = Ok (decision_body ?d)" for bs
    by (simp_all add: sample_abi_def)
  have "live_canonical_json d = []" unfolding \<open>d = ?d\<close> by (rule sample_decision)
  with c \<open>d = ?d\<close> have "from_canonical_bytes ?A (as_bytes (live_canonical_json d)) = Ok d"
    by (intro decision_roundtrip [OF d]) simp_all
  with d show ?thesis by blast
qed

end
