(* ===== verification/Framing.thy ===== *)
theory Framing
  imports SourceFiles
begin

text \<open>
  The canonical byte framing that digests are taken over (\<open>put_bytes\<close>, \<open>put_string\<close> and their
  relatives in \<open>model_artifacts.rs\<close> and \<open>output_novelty.rs\<close>): big-endian counters, length-prefixed
  fields, fixed-width digests and counted lists. The locale \<open>prefix_code\<close> is what the digests
  rely on: a framed value at the head of a byte string can be read in one way only. A length is
  a \<open>usize\<close> of 64 bits, so its conversion to \<open>u64\<close> cannot fail and has no error branch here.
\<close>

section \<open>Frames\<close>

text \<open>\<open>to_be_bytes\<close> at a width in bytes.\<close>

primrec be_bytes :: "nat \<Rightarrow> nat \<Rightarrow> byte list" where
  "be_bytes 0 x = []"
| "be_bytes (Suc k) x = be_bytes k (x div 256) @ [x mod 256]"

definition put_bytes :: "byte list \<Rightarrow> byte list" where
  "put_bytes bs = be_bytes 8 (length bs) @ bs"

definition put_string :: "rstr \<Rightarrow> byte list" where
  "put_string s = put_bytes (as_bytes s)"

definition put_counted :: "('a \<Rightarrow> byte list) \<Rightarrow> 'a list \<Rightarrow> byte list" where
  "put_counted enc xs = be_bytes 8 (length xs) @ concat (map enc xs)"

section \<open>Unambiguous reading\<close>

locale prefix_code =
  fixes enc :: "'a \<Rightarrow> byte list"
    and ok :: "'a \<Rightarrow> bool"
  assumes dec: "ok x \<Longrightarrow> ok y \<Longrightarrow> enc x @ s = enc y @ t \<Longrightarrow> x = y \<and> s = t"
begin

lemma enc_inj: "ok x \<Longrightarrow> ok y \<Longrightarrow> enc x = enc y \<Longrightarrow> x = y"
  using dec [of x y "[]" "[]"] by simp

lemma dec_list:
  "length xs = length ys \<Longrightarrow> list_all ok xs \<Longrightarrow> list_all ok ys \<Longrightarrow> concat (map enc xs) @ s = concat (map enc ys) @ t \<Longrightarrow>
     xs = ys \<and> s = t"
proof (induction xs ys rule: list_induct2)
  case (Cons x xs y ys)
  then have "x = y \<and> concat (map enc xs) @ s = concat (map enc ys) @ t"
    by (intro dec) auto
  with Cons show ?case by simp
qed simp

end

lemma length_be_bytes [simp]: "length (be_bytes k x) = k"
  by (induction k arbitrary: x) auto

lemma be_bytes_inj: "x < 256 ^ k \<Longrightarrow> y < 256 ^ k \<Longrightarrow> be_bytes k x = be_bytes k y \<Longrightarrow> x = y"
proof (induction k arbitrary: x y)
  case (Suc k)
  then have "x div 256 = y div 256" "x mod 256 = y mod 256" by (auto simp: less_mult_imp_div_less)
  then show ?case by (metis div_mult_mod_eq)
qed simp

lemma prefix_code_width:
  assumes "\<And>x. ok x \<Longrightarrow> length (enc x) = n" and "\<And>x y. ok x \<Longrightarrow> ok y \<Longrightarrow> enc x = enc y \<Longrightarrow> x = y"
  shows "prefix_code enc ok"
proof
  fix x y s t assume "ok x" "ok y" "enc x @ s = enc y @ t"
  with assms show "x = y \<and> s = t" by (simp add: append_eq_append_conv)
qed

interpretation u64: prefix_code "be_bytes 8" "\<lambda>n. n \<le> u64_max"
  by (rule prefix_code_width [where n = 8]) (auto simp: u64_max_def intro: be_bytes_inj [where k = 8])

interpretation u32: prefix_code "be_bytes 4" "\<lambda>n. n < 2 ^ 32"
  by (rule prefix_code_width [where n = 4]) (auto intro: be_bytes_inj [where k = 4])

interpretation u16: prefix_code "be_bytes 2" "\<lambda>n. n < 2 ^ 16"
  by (rule prefix_code_width [where n = 2]) (auto intro: be_bytes_inj [where k = 2])

interpretation digest: prefix_code "\<lambda>d. d" "\<lambda>d. length d = 32"
  by (rule prefix_code_width) auto

interpretation framed: prefix_code put_bytes "\<lambda>bs. length bs \<le> u64_max"
proof
  fix x y s t :: "byte list"
  assume l: "length x \<le> u64_max" "length y \<le> u64_max" and e: "put_bytes x @ s = put_bytes y @ t"
  from u64.dec [OF l, of "x @ s" "y @ t"] e show "x = y \<and> s = t" by (simp add: put_bytes_def)
qed

interpretation string: prefix_code put_string "\<lambda>s. valid_str s \<and> blen s \<le> u64_max"
proof
  fix x y :: rstr and s t
  assume ok: "valid_str x \<and> blen x \<le> u64_max" "valid_str y \<and> blen y \<le> u64_max" and e: "put_string x @ s = put_string y @ t"
  from framed.dec [of "as_bytes x" "as_bytes y" s t] ok e have "as_bytes x = as_bytes y" "s = t"
    by (simp_all add: put_string_def length_as_bytes)
  moreover from this ok have "Some x = Some y" by (metis from_utf8_as_bytes)
  ultimately show "x = y \<and> s = t" by simp
qed

context prefix_code
begin

lemma counted: "prefix_code (put_counted enc) (\<lambda>xs. list_all ok xs \<and> length xs \<le> u64_max)"
proof
  fix xs ys s t
  assume ok: "list_all ok xs \<and> length xs \<le> u64_max" "list_all ok ys \<and> length ys \<le> u64_max"
    and e: "put_counted enc xs @ s = put_counted enc ys @ t"
  have "length xs = length ys \<and> concat (map enc xs) @ s = concat (map enc ys) @ t"
    using ok e by (intro u64.dec) (auto simp: put_counted_def)
  with ok show "xs = ys \<and> s = t" by (intro dec_list) auto
qed

end

interpretation strings: prefix_code "put_counted put_string" "\<lambda>xs. list_all (\<lambda>s. valid_str s \<and> blen s \<le> u64_max) xs \<and> length xs \<le> u64_max"
  by (rule string.counted)

interpretation digests: prefix_code "put_counted (\<lambda>d. d)" "\<lambda>xs. list_all (\<lambda>d. length d = 32) xs \<and> length xs \<le> u64_max"
  by (rule digest.counted)

end
