(* ===== verification/ModelArtifacts.thy ===== *)
theory ModelArtifacts
  imports Framing OrdMap
begin

text \<open>
  Provider-locked tokenizer identities and exact model artifacts
  (\<open>tokenzero-core/src/model_artifacts.rs\<close>): verified identities, exact token maps, bounded token
  pages, model capsules with their formation receipts, and the append-only slots. SHA-256, the
  hexadecimal digest parser and the reference parser belong to \<open>zero-abi\<close> and \<open>zero-ref\<close> and are
  the record \<open>model_abi\<close>; a tokenizer adapter is the record \<open>tokenizer_adapter\<close>; a digest is its
  32 bytes. The lemmas show that a token map reconstructs its source, that byte and token ranges
  invert each other, that pages expand to exactly their bytes, that a capsule digest binds every
  field up to a hash collision, and that slots are never rewritten.
\<close>

section \<open>Identities\<close>

definition MAX_TOKEN_PAGE_TOKENS :: nat where "MAX_TOKEN_PAGE_TOKENS = 4096"
definition MAX_TOKEN_PAGE_BYTES :: nat where "MAX_TOKEN_PAGE_BYTES = 1048576"
definition MAX_CAPSULE_EVIDENCE_REFS :: nat where "MAX_CAPSULE_EVIDENCE_REFS = 4096"
definition MAX_CAPSULE_TOKEN_PAGES :: nat where "MAX_CAPSULE_TOKEN_PAGES = 4096"
definition MAX_CAPSULE_RENDER_BYTES :: nat where "MAX_CAPSULE_RENDER_BYTES = 16 * 1048576"
definition MAX_IDENTITY_FIELD_BYTES :: nat where "MAX_IDENTITY_FIELD_BYTES = 1024"

type_synonym digest = "byte list"

datatype ModelArtifactError = EmptyProvider | EmptyModel | IdentityFieldTooLong | InvalidTokenizerRevisionDigest
  | TokenizerRevisionDigestMismatch rstr rstr | IdentityDigestMismatch | TokenizerAdapterFailed rstr
  | EmptyTokenBytes nat | TokenBytesMismatch nat nat | TokenBytesLengthMismatch nat nat | LengthOverflow
  | InvalidTokenRange nat nat nat | TokenBoundaryRequired nat | InvalidSourceAnchor rstr | NoncanonicalSourceAnchor
  | SourceAnchorMustBeWholeBlob | SourceDigestMismatch rstr rstr | EmptyTokenPage | TokenPageTokenLimit nat
  | TokenPageByteLimit nat | TokenizerIdentityMismatch | CapsuleEvidenceLimit nat | CapsulePageLimit nat
  | CapsuleRenderByteLimit nat | InvalidEvidenceRef rstr | NoncanonicalEvidenceRef rstr | EmptyConstructorIdentity
  | EmptyDependencyRoot | EmptyCausalKey | CapsuleReceiptPayloadMismatch rstr rstr | CapsuleCausalKeyRewrite rstr
  | UnsupportedReceiptVersion nat

record parsed_ref =
  ref_hash :: rstr
  ref_whole :: bool
  ref_text :: rstr

record model_abi =
  abi_sha :: sha
  abi_from_hex :: "rstr \<Rightarrow> digest option"
  abi_parse_ref :: "rstr \<Rightarrow> rstr + parsed_ref"

record ProviderLock =
  lock_provider :: rstr
  lock_model :: rstr
  tokenizer_revision_digest :: rstr

record ExactTokenizerIdentity =
  provider_lock :: ProviderLock
  identity_digest :: digest

definition validate_provider_lock :: "model_abi \<Rightarrow> ProviderLock \<Rightarrow> ModelArtifactError + unit" where
  "validate_provider_lock A l =
     (if lock_provider l = [] then Err EmptyProvider
      else if lock_model l = [] then Err EmptyModel
      else if MAX_IDENTITY_FIELD_BYTES < blen (lock_provider l) \<or> MAX_IDENTITY_FIELD_BYTES < blen (lock_model l)
      then Err IdentityFieldTooLong
      else case abi_from_hex A (tokenizer_revision_digest l) of
        None \<Rightarrow> Err InvalidTokenizerRevisionDigest | Some d \<Rightarrow> Ok ())"

definition tokenizer_identity_digest :: "model_abi \<Rightarrow> ProviderLock \<Rightarrow> ModelArtifactError + digest" where
  "tokenizer_identity_digest A l =
     (case abi_from_hex A (tokenizer_revision_digest l) of
        None \<Rightarrow> Err InvalidTokenizerRevisionDigest
      | Some d \<Rightarrow> Ok (abi_sha A (lit ''TOKENZERO-EXACT-TOKENIZER-IDENTITY-V1'' @ put_string (lock_provider l) @
          put_string (lock_model l) @ d)))"

definition new_identity :: "model_abi \<Rightarrow> ProviderLock \<Rightarrow> byte list \<Rightarrow> ModelArtifactError + ExactTokenizerIdentity" where
  "new_identity A l manifest =
     (case validate_provider_lock A l of
        Inl e \<Rightarrow> Err e
      | Inr u \<Rightarrow>
          let actual = hex (abi_sha A manifest) in
          if actual \<noteq> tokenizer_revision_digest l
          then Err (TokenizerRevisionDigestMismatch (tokenizer_revision_digest l) actual)
          else case tokenizer_identity_digest A l of
            Inl e \<Rightarrow> Err e
          | Inr d \<Rightarrow> Ok \<lparr>provider_lock = l, identity_digest = d\<rparr>)"

text \<open>Reading an identity back from its wire form.\<close>

definition identity_from_wire :: "model_abi \<Rightarrow> ExactTokenizerIdentity \<Rightarrow> ModelArtifactError + ExactTokenizerIdentity" where
  "identity_from_wire A w =
     (case validate_provider_lock A (provider_lock w) of
        Inl e \<Rightarrow> Err e
      | Inr u \<Rightarrow>
          (case tokenizer_identity_digest A (provider_lock w) of
             Inl e \<Rightarrow> Err e
           | Inr d \<Rightarrow> if identity_digest w \<noteq> d then Err IdentityDigestMismatch
                     else Ok \<lparr>provider_lock = provider_lock w, identity_digest = identity_digest w\<rparr>))"

text \<open>\<open>None\<close> is the panic of an identity without a valid revision digest.\<close>

definition ledger_identity :: "model_abi \<Rightarrow> ExactTokenizerIdentity \<Rightarrow> (rstr \<times> digest) option" where
  "ledger_identity A i =
     map_option (\<lambda>rev. (lock_provider (provider_lock i) @ lit ''/'' @ lock_model (provider_lock i) @ lit ''@'' @
         hex (identity_digest i), rev))
       (abi_from_hex A (tokenizer_revision_digest (provider_lock i)))"

section \<open>Exact token maps\<close>

record TokenPiece =
  token_id :: nat
  piece_bytes :: "byte list"

record tokenizer_adapter =
  adapter_identity :: ExactTokenizerIdentity
  adapter_encode :: "byte list \<Rightarrow> rstr + nat list"
  adapter_token_bytes :: "nat \<Rightarrow> rstr + byte list"

record ExactTokenMap =
  tm_tokenizer :: digest
  tm_source :: digest
  tm_tokens :: "TokenPiece list"
  tm_digest :: digest

definition put_token :: "TokenPiece \<Rightarrow> byte list" where
  "put_token t = be_bytes 4 (token_id t) @ put_bytes (piece_bytes t)"

definition put_tokens :: "TokenPiece list \<Rightarrow> byte list" where
  "put_tokens ts = put_counted put_token ts"

definition token_map_digest :: "model_abi \<Rightarrow> digest \<Rightarrow> digest \<Rightarrow> TokenPiece list \<Rightarrow> digest" where
  "token_map_digest A gauge source ts =
     abi_sha A (lit ''TOKENZERO-EXACT-TOKEN-MAP-V1'' @ gauge @ source @ put_tokens ts)"

fun check_pieces :: "byte list \<Rightarrow> nat \<Rightarrow> nat \<Rightarrow> TokenPiece list \<Rightarrow> ModelArtifactError + nat" where
  "check_pieces source index cursor [] = Ok cursor"
| "check_pieces source index cursor (t # ts) =
     (if piece_bytes t = [] then Err (EmptyTokenBytes index)
      else case checked_add cursor (length (piece_bytes t)) of
        None \<Rightarrow> Err LengthOverflow
      | Some stop \<Rightarrow>
          if \<not> (stop \<le> length source \<and> drop cursor (take stop source) = piece_bytes t)
          then Err (TokenBytesMismatch index cursor)
          else check_pieces source (index + 1) stop ts)"

definition from_token_pieces ::
    "model_abi \<Rightarrow> ExactTokenizerIdentity \<Rightarrow> byte list \<Rightarrow> TokenPiece list \<Rightarrow> ModelArtifactError + ExactTokenMap" where
  "from_token_pieces A i source ts =
     (case check_pieces source 0 0 ts of
        Inl e \<Rightarrow> Err e
      | Inr cursor \<Rightarrow>
          if cursor \<noteq> length source then Err (TokenBytesLengthMismatch (length source) cursor)
          else Ok \<lparr>tm_tokenizer = identity_digest i, tm_source = abi_sha A source, tm_tokens = ts,
                  tm_digest = token_map_digest A (identity_digest i) (abi_sha A source) ts\<rparr>)"

fun decode_pieces :: "tokenizer_adapter \<Rightarrow> nat list \<Rightarrow> ModelArtifactError + TokenPiece list" where
  "decode_pieces T [] = Ok []"
| "decode_pieces T (k # ks) =
     (case adapter_token_bytes T k of
        Inl e \<Rightarrow> Err (TokenizerAdapterFailed e)
      | Inr bs \<Rightarrow>
          (case decode_pieces T ks of
             Inl e \<Rightarrow> Err e
           | Inr ts \<Rightarrow> Ok (\<lparr>token_id = k, piece_bytes = bs\<rparr> # ts)))"

definition tokenize :: "model_abi \<Rightarrow> tokenizer_adapter \<Rightarrow> byte list \<Rightarrow> ModelArtifactError + ExactTokenMap" where
  "tokenize A T source =
     (case adapter_encode T source of
        Inl e \<Rightarrow> Err (TokenizerAdapterFailed e)
      | Inr ks \<Rightarrow>
          (case decode_pieces T ks of
             Inl e \<Rightarrow> Err e
           | Inr ts \<Rightarrow> from_token_pieces A (adapter_identity T) source ts))"

definition token_count :: "ExactTokenMap \<Rightarrow> nat" where
  "token_count m = length (tm_tokens m)"

fun sum_lengths :: "nat \<Rightarrow> TokenPiece list \<Rightarrow> ModelArtifactError + nat" where
  "sum_lengths n [] = Ok n"
| "sum_lengths n (t # ts) =
     (case checked_add n (length (piece_bytes t)) of None \<Rightarrow> Err LengthOverflow | Some n \<Rightarrow> sum_lengths n ts)"

definition checked_byte_len :: "ExactTokenMap \<Rightarrow> ModelArtifactError + nat" where
  "checked_byte_len m = sum_lengths 0 (tm_tokens m)"

definition map_byte_len :: "ExactTokenMap \<Rightarrow> nat" where
  "map_byte_len m = (case checked_byte_len m of Inl e \<Rightarrow> u64_max | Inr n \<Rightarrow> n)"

definition reconstruct :: "ExactTokenMap \<Rightarrow> byte list" where
  "reconstruct m = concat (map piece_bytes (tm_tokens m))"

definition byte_range_for_tokens :: "ExactTokenMap \<Rightarrow> nat \<Rightarrow> nat \<Rightarrow> ModelArtifactError + (nat \<times> nat)" where
  "byte_range_for_tokens m start stop =
     (if stop < start \<or> token_count m < stop then Err (InvalidTokenRange start stop (token_count m))
      else case sum_lengths 0 (take start (tm_tokens m)) of
        Inl e \<Rightarrow> Err e
      | Inr a \<Rightarrow>
          (case sum_lengths 0 (drop start (take stop (tm_tokens m))) of
             Inl e \<Rightarrow> Err e
           | Inr n \<Rightarrow> (case checked_add a n of None \<Rightarrow> Err LengthOverflow | Some b \<Rightarrow> Ok (a, b))))"

fun boundary_loop :: "nat \<Rightarrow> nat \<Rightarrow> nat \<Rightarrow> TokenPiece list \<Rightarrow> ModelArtifactError + nat" where
  "boundary_loop offset index cursor [] = Err (TokenBoundaryRequired offset)"
| "boundary_loop offset index cursor (t # ts) =
     (case checked_add cursor (length (piece_bytes t)) of
        None \<Rightarrow> Err LengthOverflow
      | Some c \<Rightarrow>
          if c = offset then Ok (index + 1)
          else if offset < c then Err (TokenBoundaryRequired offset)
          else boundary_loop offset (index + 1) c ts)"

definition token_boundary :: "ExactTokenMap \<Rightarrow> nat \<Rightarrow> ModelArtifactError + nat" where
  "token_boundary m offset = (if offset = 0 then Ok 0 else boundary_loop offset 0 0 (tm_tokens m))"

definition token_range_for_bytes :: "ExactTokenMap \<Rightarrow> nat \<Rightarrow> nat \<Rightarrow> ModelArtifactError + (nat \<times> nat)" where
  "token_range_for_bytes m start stop =
     (if stop < start then Err (TokenBoundaryRequired start)
      else case token_boundary m start of
        Inl e \<Rightarrow> Err e
      | Inr a \<Rightarrow> (case token_boundary m stop of Inl e \<Rightarrow> Err e | Inr b \<Rightarrow> Ok (a, b)))"

section \<open>Token pages\<close>

record TokenPage =
  tp_tokenizer :: digest
  tp_map :: digest
  tp_anchor :: rstr
  token_start :: nat
  token_end :: nat
  byte_start :: nat
  byte_end :: nat
  tp_tokens :: "TokenPiece list"
  tp_digest :: digest

definition token_page_digest ::
    "model_abi \<Rightarrow> digest \<Rightarrow> digest \<Rightarrow> rstr \<Rightarrow> nat \<Rightarrow> nat \<Rightarrow> nat \<Rightarrow> nat \<Rightarrow> TokenPiece list \<Rightarrow> digest" where
  "token_page_digest A gauge m anchor ts te bs be toks =
     abi_sha A (lit ''TOKENZERO-TOKEN-PAGE-V1'' @ gauge @ m @ put_string anchor @ be_bytes 8 ts @ be_bytes 8 te @
       be_bytes 8 bs @ be_bytes 8 be @ put_tokens toks)"

definition new_page :: "model_abi \<Rightarrow> ExactTokenMap \<Rightarrow> rstr \<Rightarrow> nat \<Rightarrow> nat \<Rightarrow> ModelArtifactError + TokenPage" where
  "new_page A m anchor start stop =
     (case abi_parse_ref A anchor of
        Inl e \<Rightarrow> Err (InvalidSourceAnchor e)
      | Inr p \<Rightarrow>
          if ref_text p \<noteq> anchor then Err NoncanonicalSourceAnchor
          else if \<not> ref_whole p then Err SourceAnchorMustBeWholeBlob
          else if ref_hash p \<noteq> hex (tm_source m) then Err (SourceDigestMismatch (hex (tm_source m)) (ref_hash p))
          else if start = stop then Err EmptyTokenPage
          else case byte_range_for_tokens m start stop of
            Inl e \<Rightarrow> Err e
          | Inr (a, b) \<Rightarrow>
              if MAX_TOKEN_PAGE_TOKENS < stop - start then Err (TokenPageTokenLimit (stop - start))
              else if MAX_TOKEN_PAGE_BYTES < b - a then Err (TokenPageByteLimit (b - a))
              else let toks = drop start (take stop (tm_tokens m)) in
                Ok \<lparr>tp_tokenizer = tm_tokenizer m, tp_map = tm_digest m, tp_anchor = anchor, token_start = start,
                    token_end = stop, byte_start = a, byte_end = b, tp_tokens = toks,
                    tp_digest = token_page_digest A (tm_tokenizer m) (tm_digest m) anchor start stop a b toks\<rparr>)"

definition expand_page :: "TokenPage \<Rightarrow> byte list" where
  "expand_page p = concat (map piece_bytes (tp_tokens p))"

section \<open>Receipts and slots\<close>

definition MODEL_CAPSULE_RECEIPT_VERSION :: nat where "MODEL_CAPSULE_RECEIPT_VERSION = 1"

type_synonym CapsuleCausalKey = rstr

definition new_causal_key :: "rstr \<Rightarrow> ModelArtifactError + CapsuleCausalKey" where
  "new_causal_key anchor = (if anchor = [] then Err EmptyCausalKey else Ok anchor)"

definition from_source_root :: "digest \<Rightarrow> CapsuleCausalKey" where
  "from_source_root rt = lit ''tz://blob/'' @ hex rt"

definition causal_contract_root :: "model_abi \<Rightarrow> CapsuleCausalKey \<Rightarrow> digest" where
  "causal_contract_root A k = abi_sha A (lit ''TOKENZERO-CAPSULE-CONTRACT-V1'' @ put_string k)"

record ModelCapsuleFormationReceipt =
  receipt_version :: nat
  constructor_identity :: rstr
  contract_root :: digest
  dependency_roots :: "rstr list"
  payload_root :: digest
  receipt_epoch :: nat

definition new_receipt :: "rstr \<Rightarrow> digest \<Rightarrow> rstr list \<Rightarrow> digest \<Rightarrow> nat \<Rightarrow> ModelArtifactError + ModelCapsuleFormationReceipt" where
  "new_receipt constructor rt deps payload epoch =
     (if constructor = [] then Err EmptyConstructorIdentity
      else if list_ex (\<lambda>r. r = []) deps then Err EmptyDependencyRoot
      else Ok \<lparr>receipt_version = MODEL_CAPSULE_RECEIPT_VERSION, constructor_identity = constructor, contract_root = rt,
             dependency_roots = deps, payload_root = payload, receipt_epoch = epoch\<rparr>)"

definition validate_receipt :: "ModelCapsuleFormationReceipt \<Rightarrow> ModelArtifactError + unit" where
  "validate_receipt r =
     (if receipt_version r \<noteq> MODEL_CAPSULE_RECEIPT_VERSION then Err (UnsupportedReceiptVersion (receipt_version r))
      else if constructor_identity r = [] then Err EmptyConstructorIdentity
      else if list_ex (\<lambda>r. r = []) (dependency_roots r) then Err EmptyDependencyRoot else Ok ())"

definition verify_payload :: "ModelCapsuleFormationReceipt \<Rightarrow> digest \<Rightarrow> bool" where
  "verify_payload r rt \<longleftrightarrow> payload_root r = rt"

definition receipt_bytes :: "ModelCapsuleFormationReceipt \<Rightarrow> byte list" where
  "receipt_bytes r = lit ''TOKENZERO-MODEL-CAPSULE-FORMATION-RECEIPT-V1'' @ be_bytes 2 (receipt_version r) @
     put_string (constructor_identity r) @ contract_root r @ put_counted put_string (dependency_roots r) @
     payload_root r @ be_bytes 8 (receipt_epoch r)"

definition formation_receipt_digest :: "model_abi \<Rightarrow> ModelCapsuleFormationReceipt \<Rightarrow> digest" where
  "formation_receipt_digest A r = abi_sha A (receipt_bytes r)"

definition receipt_digest :: "model_abi \<Rightarrow> ModelCapsuleFormationReceipt \<Rightarrow> ModelArtifactError + digest" where
  "receipt_digest A r = (case validate_receipt r of Inl e \<Rightarrow> Err e | Inr u \<Rightarrow> Ok (formation_receipt_digest A r))"

section \<open>Model capsules\<close>

record ModelCapsule =
  mc_source_root :: digest
  mc_model_profile :: digest
  mc_tokenizer :: digest
  evidence_refs :: "rstr list"
  token_page_digests :: "digest list"
  mc_stable_prefix :: "byte list"
  mc_dynamic_tail :: "byte list"
  stable_prefix_tokens :: nat
  dynamic_tail_tokens :: nat
  causal_key :: CapsuleCausalKey
  formation_receipt :: ModelCapsuleFormationReceipt
  mc_digest :: digest

text \<open>\<open>Vec::dedup\<close>: equal neighbours are merged.\<close>

definition sort_dedup :: "'a :: linorder list \<Rightarrow> 'a list" where
  "sort_dedup xs = remdups_adj (sort xs)"

fun check_refs :: "model_abi \<Rightarrow> rstr list \<Rightarrow> ModelArtifactError + unit" where
  "check_refs A [] = Ok ()"
| "check_refs A (r # rs) =
     (case abi_parse_ref A r of
        Inl e \<Rightarrow> Err (InvalidEvidenceRef e)
      | Inr p \<Rightarrow> if ref_text p \<noteq> r then Err (NoncanonicalEvidenceRef r) else check_refs A rs)"

definition render_payload_digest :: "model_abi \<Rightarrow> byte list \<Rightarrow> byte list \<Rightarrow> digest" where
  "render_payload_digest A prefix_bytes tail_bytes = abi_sha A (prefix_bytes @ tail_bytes)"

definition capsule_contract_root :: "model_abi \<Rightarrow> digest \<Rightarrow> digest \<Rightarrow> digest \<Rightarrow> digest" where
  "capsule_contract_root A source profile gauge =
     abi_sha A (lit ''TOKENZERO-MODEL-CAPSULE-CONTRACT-V1'' @ source @ profile @ gauge)"

text \<open>What a capsule digest is taken over.\<close>

record capsule_body =
  cb_source :: digest
  cb_profile :: digest
  cb_tokenizer :: digest
  cb_refs :: "rstr list"
  cb_pages :: "digest list"
  cb_prefix_map :: digest
  cb_tail_map :: digest
  cb_prefix :: "byte list"
  cb_tail :: "byte list"
  cb_prefix_tokens :: nat
  cb_tail_tokens :: nat
  cb_key :: CapsuleCausalKey
  cb_receipt :: ModelCapsuleFormationReceipt

definition capsule_bytes :: "model_abi \<Rightarrow> capsule_body \<Rightarrow> byte list" where
  "capsule_bytes A b = lit ''TOKENZERO-MODEL-CAPSULE-V1'' @ cb_source b @ cb_profile b @ cb_tokenizer b @
     put_counted put_string (cb_refs b) @ put_counted (\<lambda>d. d) (cb_pages b) @ cb_prefix_map b @ cb_tail_map b @
     put_bytes (cb_prefix b) @ put_bytes (cb_tail b) @ be_bytes 8 (cb_prefix_tokens b) @ be_bytes 8 (cb_tail_tokens b) @
     put_string (cb_key b) @ formation_receipt_digest A (cb_receipt b)"

definition model_capsule_digest :: "model_abi \<Rightarrow> capsule_body \<Rightarrow> digest" where
  "model_capsule_digest A b = abi_sha A (capsule_bytes A b)"

definition capsule_of :: "model_abi \<Rightarrow> capsule_body \<Rightarrow> ModelCapsule" where
  "capsule_of A b = \<lparr>mc_source_root = cb_source b, mc_model_profile = cb_profile b, mc_tokenizer = cb_tokenizer b,
     evidence_refs = cb_refs b, token_page_digests = cb_pages b, mc_stable_prefix = cb_prefix b,
     mc_dynamic_tail = cb_tail b, stable_prefix_tokens = cb_prefix_tokens b, dynamic_tail_tokens = cb_tail_tokens b,
     causal_key = cb_key b, formation_receipt = cb_receipt b, mc_digest = model_capsule_digest A b\<rparr>"

definition new_capsule ::
    "model_abi \<Rightarrow> digest \<Rightarrow> digest \<Rightarrow> ExactTokenizerIdentity \<Rightarrow> rstr list \<Rightarrow> TokenPage list \<Rightarrow> ExactTokenMap \<Rightarrow>
     ExactTokenMap \<Rightarrow> ModelArtifactError + ModelCapsule" where
  "new_capsule A source profile gauge refs pages pre tail =
     (if tm_tokenizer pre \<noteq> identity_digest gauge \<or> tm_tokenizer tail \<noteq> identity_digest gauge \<or>
         list_ex (\<lambda>p. tp_tokenizer p \<noteq> identity_digest gauge) pages then Err TokenizerIdentityMismatch
      else if MAX_CAPSULE_EVIDENCE_REFS < length refs then Err (CapsuleEvidenceLimit (length refs))
      else case check_refs A refs of
        Inl e \<Rightarrow> Err e
      | Inr u \<Rightarrow>
          if MAX_CAPSULE_TOKEN_PAGES < length pages then Err (CapsulePageLimit (length pages))
          else
            let rs = sort_dedup refs; ds = sort_dedup (map tp_digest pages);
                prefix_bytes = reconstruct pre; tail_bytes = reconstruct tail in
            (case checked_add (length prefix_bytes) (length tail_bytes) of
               None \<Rightarrow> Err LengthOverflow
             | Some n \<Rightarrow>
                 if MAX_CAPSULE_RENDER_BYTES < n then Err (CapsuleRenderByteLimit n)
                 else case new_receipt (lit ''tokenzero-core.model-capsule.v1'')
                     (capsule_contract_root A source profile (identity_digest gauge))
                     (rs @ map (\<lambda>d. lit ''tz://capsule-page/'' @ hex d) ds @ [hex (tm_digest pre)] @ [hex (tm_digest tail)])
                     (render_payload_digest A prefix_bytes tail_bytes) 0 of
                   Inl e \<Rightarrow> Err e
                 | Inr receipt \<Rightarrow>
                     Ok (capsule_of A \<lparr>cb_source = source, cb_profile = profile, cb_tokenizer = identity_digest gauge,
                       cb_refs = rs, cb_pages = ds, cb_prefix_map = tm_digest pre, cb_tail_map = tm_digest tail,
                       cb_prefix = prefix_bytes, cb_tail = tail_bytes, cb_prefix_tokens = token_count pre,
                       cb_tail_tokens = token_count tail, cb_key = from_source_root source, cb_receipt = receipt\<rparr>)))"

definition from_formed ::
    "model_abi \<Rightarrow> CapsuleCausalKey \<Rightarrow> ModelCapsuleFormationReceipt \<Rightarrow> digest \<Rightarrow> digest \<Rightarrow> digest \<Rightarrow> rstr list \<Rightarrow> digest list \<Rightarrow>
     byte list \<Rightarrow> digest \<Rightarrow> nat \<Rightarrow> byte list \<Rightarrow> digest \<Rightarrow> nat \<Rightarrow> ModelArtifactError + ModelCapsule" where
  "from_formed A key receipt source profile gauge refs pages prefix_bytes prefix_map prefix_tokens tail_bytes tail_map tail_tokens =
     (if MAX_CAPSULE_EVIDENCE_REFS < length refs then Err (CapsuleEvidenceLimit (length refs))
      else case check_refs A refs of
        Inl e \<Rightarrow> Err e
      | Inr u \<Rightarrow>
          if MAX_CAPSULE_TOKEN_PAGES < length pages then Err (CapsulePageLimit (length pages))
          else
            (case checked_add (length prefix_bytes) (length tail_bytes) of
               None \<Rightarrow> Err LengthOverflow
             | Some n \<Rightarrow>
                 if MAX_CAPSULE_RENDER_BYTES < n then Err (CapsuleRenderByteLimit n)
                 else
                   let rt = render_payload_digest A prefix_bytes tail_bytes in
                   if \<not> verify_payload receipt rt then Err (CapsuleReceiptPayloadMismatch (hex (payload_root receipt)) (hex rt))
                   else Ok (capsule_of A \<lparr>cb_source = source, cb_profile = profile, cb_tokenizer = gauge,
                     cb_refs = sort_dedup refs, cb_pages = sort_dedup pages, cb_prefix_map = prefix_map, cb_tail_map = tail_map,
                     cb_prefix = prefix_bytes, cb_tail = tail_bytes, cb_prefix_tokens = prefix_tokens,
                     cb_tail_tokens = tail_tokens, cb_key = key, cb_receipt = receipt\<rparr>)))"

definition payload_digest :: "model_abi \<Rightarrow> byte list \<Rightarrow> digest" where
  "payload_digest A bs = abi_sha A bs"

definition absent_model_profile_digest :: "model_abi \<Rightarrow> digest" where
  "absent_model_profile_digest A = abi_sha A (lit ''TOKENZERO-ABSENT-MODEL-PROFILE-V1'')"

definition absent_tokenizer_digest :: "model_abi \<Rightarrow> digest" where
  "absent_tokenizer_digest A = abi_sha A (lit ''TOKENZERO-ABSENT-TOKENIZER-V1'')"

definition render_capsule :: "ModelCapsule \<Rightarrow> byte list" where
  "render_capsule c = mc_stable_prefix c @ mc_dynamic_tail c"

text \<open>The sum of two 64-bit counters wraps in release builds.\<close>

definition total_tokens :: "ModelCapsule \<Rightarrow> nat" where
  "total_tokens c = (stable_prefix_tokens c + dynamic_tail_tokens c) mod 2 ^ 64"

type_synonym AppendOnlyCapsuleSlots = "(CapsuleCausalKey \<times> digest) list"

definition record_slot :: "AppendOnlyCapsuleSlots \<Rightarrow> ModelCapsule \<Rightarrow> (ModelArtifactError + unit) \<times> AppendOnlyCapsuleSlots" where
  "record_slot formed c =
     (case find (\<lambda>(k, _). k = causal_key c) formed of
        Some (_, previous) \<Rightarrow>
          if previous \<noteq> mc_digest c then (Err (CapsuleCausalKeyRewrite (causal_key c)), formed) else (Ok (), formed)
      | None \<Rightarrow> (Ok (), formed @ [(causal_key c, mc_digest c)]))"

section \<open>Identities read back\<close>

lemma new_identity_Ok:
  assumes "new_identity A l manifest = Ok i"
  shows "provider_lock i = l" "tokenizer_revision_digest l = hex (abi_sha A manifest)"
    "identity_from_wire A i = Ok i" "ledger_identity A i \<noteq> None"
proof -
  from assms obtain d where d: "validate_provider_lock A l = Ok ()" "tokenizer_identity_digest A l = Ok d"
    "i = \<lparr>provider_lock = l, identity_digest = d\<rparr>" "tokenizer_revision_digest l = hex (abi_sha A manifest)"
    by (auto simp: new_identity_def Let_def split: sum.splits if_splits)
  then show "provider_lock i = l" "tokenizer_revision_digest l = hex (abi_sha A manifest)" by simp_all
  show "identity_from_wire A i = Ok i" using d by (simp add: identity_from_wire_def)
  show "ledger_identity A i \<noteq> None"
    using d(2,3) by (auto simp: ledger_identity_def tokenizer_identity_digest_def split: option.splits)
qed

section \<open>Maps and their ranges\<close>

definition plen :: "TokenPiece list \<Rightarrow> nat" where
  "plen ts = length (concat (map piece_bytes ts))"

lemma plen_simps [simp]: "plen [] = 0" "plen (t # ts) = length (piece_bytes t) + plen ts" "plen (ts @ us) = plen ts + plen us"
  by (simp_all add: plen_def)

lemma plen_take_mono: "a \<le> b \<Longrightarrow> plen (take a ts) \<le> plen (take b ts)"
  by (metis le_add1 plen_simps(3) take_add le_add_diff_inverse)

lemma sum_lengths_eq:
  "n \<le> u64_max \<Longrightarrow> sum_lengths n ts = (if n + plen ts \<le> u64_max then Ok (n + plen ts) else Err LengthOverflow)"
  by (induction n ts rule: sum_lengths.induct) (auto simp: checked_add_def split: option.splits)

definition exact_map :: "ExactTokenMap \<Rightarrow> byte list \<Rightarrow> bool" where
  "exact_map m source \<longleftrightarrow> reconstruct m = source \<and> list_all (\<lambda>t. piece_bytes t \<noteq> []) (tm_tokens m) \<and> length source \<le> u64_max"

lemma check_pieces_Ok:
  "check_pieces source i c ts = Ok c' \<Longrightarrow> c \<le> length source \<Longrightarrow> c \<le> u64_max \<Longrightarrow>
     c' = c + plen ts \<and> c' \<le> length source \<and> c' \<le> u64_max \<and>
     take c' source = take c source @ concat (map piece_bytes ts) \<and> list_all (\<lambda>t. piece_bytes t \<noteq> []) ts"
proof (induction source i c ts rule: check_pieces.induct)
  case (2 source i c t ts)
  let ?n = "c + length (piece_bytes t)"
  from 2(2) have h: "piece_bytes t \<noteq> []" "?n \<le> u64_max" "?n \<le> length source" "drop c (take ?n source) = piece_bytes t"
    and rest: "check_pieces source (i + 1) ?n ts = Ok c'"
    by (auto simp: checked_add_def split: if_splits)
  have s: "take ?n source = take c source @ piece_bytes t"
    using h(4) by (metis take_add append_take_drop_id drop_take add_diff_cancel_left')
  have "checked_add c (length (piece_bytes t)) = Some ?n" "\<not> \<not> (?n \<le> length source \<and> drop c (take ?n source) = piece_bytes t)"
    using h by (simp_all add: checked_add_def)
  from 2(1) [OF h(1) this rest h(3,2)] have "c' = ?n + plen ts \<and> c' \<le> length source \<and> c' \<le> u64_max \<and>
     take c' source = take ?n source @ concat (map piece_bytes ts) \<and> list_all (\<lambda>t. piece_bytes t \<noteq> []) ts" .
  with s h(1) show ?case by auto
qed simp

lemma from_pieces_Ok:
  "from_token_pieces A i source ts = Ok m \<Longrightarrow>
     tm_tokens m = ts \<and> tm_tokenizer m = identity_digest i \<and> tm_source m = abi_sha A source \<and>
     tm_digest m = token_map_digest A (identity_digest i) (abi_sha A source) ts \<and> exact_map m source"
  using check_pieces_Ok [of source 0 0 ts "length source"]
  by (auto simp: from_token_pieces_def exact_map_def reconstruct_def split: sum.splits if_splits)

lemma tokenize_Ok:
  assumes "tokenize A T source = Ok m"
  shows "exact_map m source" "tm_source m = abi_sha A source" "tm_tokenizer m = identity_digest (adapter_identity T)"
    "adapter_encode T source = Ok (map token_id (tm_tokens m))"
proof -
  from assms obtain ks ts where k: "adapter_encode T source = Ok ks" "decode_pieces T ks = Ok ts"
    "from_token_pieces A (adapter_identity T) source ts = Ok m" by (auto simp: tokenize_def split: sum.splits)
  have "decode_pieces T ks = Ok ts \<Longrightarrow> map token_id ts = ks" for ks ts
    by (induction T ks arbitrary: ts rule: decode_pieces.induct) (auto split: sum.splits)
  with k from_pieces_Ok [OF k(3)] show "exact_map m source" "tm_source m = abi_sha A source"
    "tm_tokenizer m = identity_digest (adapter_identity T)" "adapter_encode T source = Ok (map token_id (tm_tokens m))"
    by auto
qed

lemma boundary_loop_Ok:
  "list_all (\<lambda>t. piece_bytes t \<noteq> []) ts \<Longrightarrow> 0 < k \<Longrightarrow> k \<le> length ts \<Longrightarrow> c + plen (take k ts) \<le> u64_max \<Longrightarrow>
     boundary_loop (c + plen (take k ts)) i c ts = Ok (i + k)"
proof (induction ts arbitrary: c i k)
  case (Cons t ts)
  obtain j where k: "k = Suc j" using Cons.prems(2) by (cases k) auto
  show ?case
  proof (cases "j = 0")
    case True
    with Cons.prems k show ?thesis by (simp add: checked_add_def)
  next
    case False
    obtain u us where ts: "ts = u # us" using Cons.prems(3) k False by (cases ts) auto
    have "0 < plen (take j ts)" using False Cons.prems(1) ts by (cases j) auto
    moreover have "boundary_loop (c + length (piece_bytes t) + plen (take j ts)) (i + 1) (c + length (piece_bytes t)) ts = Ok (i + 1 + j)"
      using Cons.prems k False by (intro Cons.IH) auto
    ultimately show ?thesis using Cons.prems(4) k by (simp add: checked_add_def add.assoc)
  qed
qed simp

lemma token_boundary_Ok:
  assumes "exact_map m source" "k \<le> token_count m"
  shows "token_boundary m (plen (take k (tm_tokens m))) = Ok k"
proof (cases "k = 0")
  case False
  have ne: "list_all (\<lambda>t. piece_bytes t \<noteq> []) (tm_tokens m)" using assms(1) by (simp add: exact_map_def)
  have "plen (take k (tm_tokens m)) \<le> plen (tm_tokens m)" using plen_take_mono [of k "length (tm_tokens m)" "tm_tokens m"] assms(2)
    by (simp add: token_count_def)
  also have "\<dots> \<le> u64_max" using assms(1) by (simp add: exact_map_def reconstruct_def plen_def)
  finally have "boundary_loop (0 + plen (take k (tm_tokens m))) 0 0 (tm_tokens m) = Ok (0 + k)"
    using ne False assms(2) by (intro boundary_loop_Ok) (auto simp: token_count_def)
  moreover have "plen (take k (tm_tokens m)) \<noteq> 0"
    using ne False assms(2) by (cases "tm_tokens m"; cases k) (auto simp: token_count_def)
  ultimately show ?thesis by (simp add: token_boundary_def)
qed (simp add: token_boundary_def)

lemma byte_range_Ok:
  assumes "exact_map m source" "a \<le> b" "b \<le> token_count m"
  shows "byte_range_for_tokens m a b = Ok (plen (take a (tm_tokens m)), plen (take b (tm_tokens m)))"
    "concat (map piece_bytes (drop a (take b (tm_tokens m)))) =
       drop (plen (take a (tm_tokens m))) (take (plen (take b (tm_tokens m))) source)"
    "plen (take b (tm_tokens m)) \<le> length source"
proof -
  let ?ts = "tm_tokens m"
  have split: "take b ?ts = take a ?ts @ drop a (take b ?ts)" using assms(2)
    by (metis append_take_drop_id min_absorb1 take_take)
  have src: "source = concat (map piece_bytes (take a ?ts)) @ concat (map piece_bytes (drop a (take b ?ts))) @
      concat (map piece_bytes (drop b ?ts))"
  proof -
    have "source = concat (map piece_bytes (take b ?ts @ drop b ?ts))" using assms(1) by (simp add: exact_map_def reconstruct_def)
    then show ?thesis by (subst (asm) split) simp
  qed
  have pb: "plen (take b ?ts) = plen (take a ?ts) + plen (drop a (take b ?ts))" by (subst split) simp
  have "length source \<le> u64_max" using assms(1) by (simp add: exact_map_def)
  with src have le: "plen (take a ?ts) + plen (drop a (take b ?ts)) \<le> u64_max" by (simp add: plen_def)
  show "byte_range_for_tokens m a b = Ok (plen (take a ?ts), plen (take b ?ts))"
    using assms le by (simp add: byte_range_for_tokens_def sum_lengths_eq checked_add_def pb)
  show "concat (map piece_bytes (drop a (take b ?ts))) = drop (plen (take a ?ts)) (take (plen (take b ?ts)) source)"
    unfolding pb by (subst src) (simp add: plen_def)
  show "plen (take b ?ts) \<le> length source" unfolding pb by (subst src) (simp add: plen_def)
qed

text \<open>The byte offsets between tokens, the ends included.\<close>

definition token_boundaries :: "ExactTokenMap \<Rightarrow> nat set" where
  "token_boundaries m = set (map (\<lambda>k. plen (take k (tm_tokens m))) [0..<Suc (token_count m)])"

lemma token_boundaries_iff: "x \<in> token_boundaries m \<longleftrightarrow> (\<exists>k \<le> token_count m. x = plen (take k (tm_tokens m)))"
proof -
  have "token_boundaries m = (\<lambda>k. plen (take k (tm_tokens m))) ` {..token_count m}"
    unfolding token_boundaries_def by (simp only: set_map set_upt atLeast0LessThan lessThan_Suc_atMost)
  then show ?thesis by auto
qed

lemma boundary_loop_Err:
  "c + plen ts \<le> u64_max \<Longrightarrow> (\<And>k. 0 < k \<Longrightarrow> k \<le> length ts \<Longrightarrow> x \<noteq> c + plen (take k ts)) \<Longrightarrow>
     boundary_loop x i c ts = Err (TokenBoundaryRequired x)"
proof (induction ts arbitrary: c i)
  case (Cons t ts)
  have "x \<noteq> c + length (piece_bytes t)" using Cons.prems(2) [of 1] by simp
  moreover have "x \<noteq> c + length (piece_bytes t) + plen (take k ts)" if "0 < k" "k \<le> length ts" for k
    using Cons.prems(2) [of "Suc k"] that by (simp add: add.assoc)
  moreover have "c + length (piece_bytes t) + plen ts \<le> u64_max" using Cons.prems(1) by simp
  ultimately show ?case using Cons.IH [of "c + length (piece_bytes t)" "i + 1"] by (simp add: checked_add_def)
qed simp

lemma token_boundary_Err:
  assumes "exact_map m source" "x \<notin> token_boundaries m"
  shows "token_boundary m x = Err (TokenBoundaryRequired x)"
proof -
  have "x \<noteq> plen (take k (tm_tokens m))" if "k \<le> token_count m" for k
    using assms(2) that by (auto simp: token_boundaries_iff)
  moreover have "0 + plen (tm_tokens m) \<le> u64_max" using assms(1) by (simp add: exact_map_def reconstruct_def plen_def)
  moreover have "x \<noteq> 0" using calculation(1) [of 0] by simp
  ultimately show ?thesis using boundary_loop_Err [of 0 "tm_tokens m" x 0] by (simp add: token_boundary_def token_count_def)
qed

lemma token_boundary_iff:
  assumes "exact_map m source"
  shows "token_boundary m x = Ok k \<longleftrightarrow> k \<le> token_count m \<and> x = plen (take k (tm_tokens m))"
proof
  assume k: "token_boundary m x = Ok k"
  then have "x \<in> token_boundaries m" using token_boundary_Err [OF assms, of x] by (cases "x \<in> token_boundaries m") auto
  then obtain j where "j \<le> token_count m" "x = plen (take j (tm_tokens m))" by (auto simp: token_boundaries_iff)
  with k token_boundary_Ok [OF assms, of j] show "k \<le> token_count m \<and> x = plen (take k (tm_tokens m))" by simp
qed (use token_boundary_Ok [OF assms, of k] in simp)

lemma ranges_inverse:
  assumes m: "exact_map m source"
  shows "byte_range_for_tokens m a b = Ok (x, y) \<longleftrightarrow> token_range_for_bytes m x y = Ok (a, b)"
proof
  assume br: "byte_range_for_tokens m a b = Ok (x, y)"
  then have ab: "a \<le> b" "b \<le> token_count m" by (auto simp: byte_range_for_tokens_def split: if_splits)
  with br byte_range_Ok(1) [OF m ab] have "x = plen (take a (tm_tokens m))" "y = plen (take b (tm_tokens m))" by simp_all
  with ab plen_take_mono [OF ab(1), of "tm_tokens m"] show "token_range_for_bytes m x y = Ok (a, b)"
    using token_boundary_Ok [OF m] by (simp add: token_range_for_bytes_def)
next
  assume "token_range_for_bytes m x y = Ok (a, b)"
  then have "x \<le> y" "token_boundary m x = Ok a" "token_boundary m y = Ok b"
    by (auto simp: token_range_for_bytes_def split: if_splits sum.splits)
  then have k: "x \<le> y" "a \<le> token_count m" "x = plen (take a (tm_tokens m))" "b \<le> token_count m" "y = plen (take b (tm_tokens m))"
    by (simp_all add: token_boundary_iff [OF m])
  have "a \<le> b"
  proof (rule ccontr)
    assume "\<not> a \<le> b"
    then have "x = y" using k plen_take_mono [of b a "tm_tokens m"] by simp
    then have "Ok a = (Ok b :: ModelArtifactError + nat)" using k token_boundary_Ok [OF m] by metis
    with \<open>\<not> a \<le> b\<close> show False by simp
  qed
  then show "byte_range_for_tokens m a b = Ok (x, y)" using byte_range_Ok(1) [OF m] k by simp
qed

text \<open>C25: A token map the adapter produces reconstructs its source byte for byte, and its two range
  functions are inverse to each other in both directions. Every range of tokens has a range of bytes, which selects the
  bytes those tokens decode to; a range outside the map is an invalid range; and a range of bytes that is reversed or does not
  begin and end between tokens is refused with the first offending offset.\<close>

theorem token_map_exact:
  assumes "tokenize A T source = Ok m"
  shows "reconstruct m = source \<and> checked_byte_len m = Ok (length source) \<and>
    (\<forall>a b x y. byte_range_for_tokens m a b = Ok (x, y) \<longleftrightarrow> token_range_for_bytes m x y = Ok (a, b)) \<and>
    (\<forall>a b. if a \<le> b \<and> b \<le> token_count m
       then \<exists>x y. byte_range_for_tokens m a b = Ok (x, y) \<and>
         concat (map piece_bytes (drop a (take b (tm_tokens m)))) = drop x (take y source)
       else byte_range_for_tokens m a b = Err (InvalidTokenRange a b (token_count m))) \<and>
    (\<forall>x y. if x \<le> y \<and> x \<in> token_boundaries m \<and> y \<in> token_boundaries m
       then \<exists>a b. token_range_for_bytes m x y = Ok (a, b)
       else token_range_for_bytes m x y =
         Err (TokenBoundaryRequired (if y < x \<or> x \<notin> token_boundaries m then x else y)))"
proof -
  have m: "exact_map m source" using tokenize_Ok [OF assms] by blast
  have bytes: "checked_byte_len m = Ok (length source)" "reconstruct m = source"
    using m by (auto simp: checked_byte_len_def sum_lengths_eq exact_map_def reconstruct_def plen_def)
  have ranges: "if a \<le> b \<and> b \<le> token_count m
       then \<exists>x y. byte_range_for_tokens m a b = Ok (x, y) \<and>
         concat (map piece_bytes (drop a (take b (tm_tokens m)))) = drop x (take y source)
       else byte_range_for_tokens m a b = Err (InvalidTokenRange a b (token_count m))" for a b
    using byte_range_Ok [OF m, of a b] by (auto simp: byte_range_for_tokens_def)
  have offsets: "if x \<le> y \<and> x \<in> token_boundaries m \<and> y \<in> token_boundaries m
       then \<exists>a b. token_range_for_bytes m x y = Ok (a, b)
       else token_range_for_bytes m x y = Err (TokenBoundaryRequired (if y < x \<or> x \<notin> token_boundaries m then x else y))" for x y
  proof -
    have found: "\<exists>k. token_boundary m z = Ok k" if "z \<in> token_boundaries m" for z
      using that by (auto simp: token_boundaries_iff token_boundary_iff [OF m])
    show ?thesis
      using found [of x] found [of y] token_boundary_Err [OF m, of x] token_boundary_Err [OF m, of y]
      by (auto simp: token_range_for_bytes_def split: sum.split)
  qed
  show ?thesis
    by (intro conjI allI bytes ranges offsets ranges_inverse [OF m])
qed

text \<open>A token page expands to exactly the bytes of the source it is anchored to, within the limits
  of a page.\<close>

theorem token_page_exact:
  assumes "tokenize A T source = Ok m" and "new_page A m anchor start stop = Ok p"
  shows "expand_page p = drop (byte_start p) (take (byte_end p) source) \<and> byte_start p \<le> byte_end p \<and>
    byte_end p \<le> length source \<and> 0 < length (tp_tokens p) \<and> length (tp_tokens p) \<le> MAX_TOKEN_PAGE_TOKENS \<and>
    length (expand_page p) \<le> MAX_TOKEN_PAGE_BYTES \<and>
    (\<exists>r. abi_parse_ref A anchor = Ok r \<and> ref_hash r = hex (abi_sha A source) \<and> ref_whole r \<and> ref_text r = tp_anchor p)"
proof -
  have m: "exact_map m source" "tm_source m = abi_sha A source" using tokenize_Ok [OF assms(1)] by blast+
  from assms(2) obtain r x y where r: "abi_parse_ref A anchor = Ok r" "ref_text r = anchor" "ref_whole r"
    "ref_hash r = hex (tm_source m)" "start \<noteq> stop" "byte_range_for_tokens m start stop = Ok (x, y)"
    "stop - start \<le> MAX_TOKEN_PAGE_TOKENS" "y - x \<le> MAX_TOKEN_PAGE_BYTES" "tp_anchor p = anchor" "byte_start p = x" "byte_end p = y"
    "tp_tokens p = drop start (take stop (tm_tokens m))"
    by (auto simp: new_page_def Let_def split: sum.splits if_splits)
  then have ss: "start \<le> stop" "stop \<le> token_count m" by (auto simp: byte_range_for_tokens_def split: if_splits)
  note b = byte_range_Ok [OF m(1) ss]
  from b(1) r(6) have xy: "x = plen (take start (tm_tokens m))" "y = plen (take stop (tm_tokens m))" by simp_all
  then have le: "x \<le> y" "y \<le> length source" using plen_take_mono [OF ss(1)] b(3) by simp_all
  have e: "expand_page p = drop x (take y source)" using b(2) r(12) xy by (simp add: expand_page_def)
  with le r(8) have "length (expand_page p) \<le> MAX_TOKEN_PAGE_BYTES" by simp
  moreover have "length (tp_tokens p) = stop - start" using r(12) ss by (simp add: token_count_def)
  ultimately show ?thesis using e le r ss m(2) by auto
qed

section \<open>Digests bind their contents\<close>

definition str_ok :: "rstr \<Rightarrow> bool" where
  "str_ok s \<longleftrightarrow> valid_str s \<and> blen s \<le> u64_max"

definition receipt_ok :: "ModelCapsuleFormationReceipt \<Rightarrow> bool" where
  "receipt_ok r \<longleftrightarrow> receipt_version r < 2 ^ 16 \<and> str_ok (constructor_identity r) \<and> length (contract_root r) = 32 \<and>
     list_all str_ok (dependency_roots r) \<and> length (dependency_roots r) \<le> u64_max \<and> length (payload_root r) = 32 \<and>
     receipt_epoch r \<le> u64_max"

definition body_ok :: "capsule_body \<Rightarrow> bool" where
  "body_ok b \<longleftrightarrow> list_all (\<lambda>d. length d = 32) [cb_source b, cb_profile b, cb_tokenizer b, cb_prefix_map b, cb_tail_map b] \<and>
     list_all str_ok (cb_refs b) \<and> length (cb_refs b) \<le> u64_max \<and>
     list_all (\<lambda>d. length d = 32) (cb_pages b) \<and> length (cb_pages b) \<le> u64_max \<and>
     length (cb_prefix b) \<le> u64_max \<and> length (cb_tail b) \<le> u64_max \<and>
     cb_prefix_tokens b \<le> u64_max \<and> cb_tail_tokens b \<le> u64_max \<and> str_ok (cb_key b) \<and> receipt_ok (cb_receipt b)"

lemma str_ok_eta: "str_ok = (\<lambda>s. valid_str s \<and> blen s \<le> u64_max)"
  by (simp add: fun_eq_iff str_ok_def)

lemma strings_dec:
  "list_all str_ok xs \<Longrightarrow> length xs \<le> u64_max \<Longrightarrow> list_all str_ok ys \<Longrightarrow> length ys \<le> u64_max \<Longrightarrow>
     put_counted put_string xs @ s = put_counted put_string ys @ t \<Longrightarrow> xs = ys \<and> s = t"
  using strings.dec [of xs ys s t] by (simp add: str_ok_eta)

lemma string_dec: "str_ok x \<Longrightarrow> str_ok y \<Longrightarrow> put_string x @ s = put_string y @ t \<Longrightarrow> x = y \<and> s = t"
  using string.dec [of x y s t] by (simp add: str_ok_def)

lemma digests_dec:
  "list_all (\<lambda>d. length d = 32) xs \<Longrightarrow> length xs \<le> u64_max \<Longrightarrow> list_all (\<lambda>d. length d = 32) ys \<Longrightarrow> length ys \<le> u64_max \<Longrightarrow>
     put_counted (\<lambda>d. d) xs @ s = put_counted (\<lambda>d. d) ys @ t \<Longrightarrow> xs = ys \<and> s = t"
  using digests.dec [of xs ys s t] by simp

lemma receipt_okD:
  assumes "receipt_ok r"
  shows "receipt_version r < 2 ^ 16" "str_ok (constructor_identity r)" "length (contract_root r) = 32"
    "list_all str_ok (dependency_roots r)" "length (dependency_roots r) \<le> u64_max" "length (payload_root r) = 32"
    "receipt_epoch r \<le> u64_max"
  using assms by (simp_all add: receipt_ok_def)

lemma receipt_bytes_inj:
  assumes "receipt_ok r" "receipt_ok q" "receipt_bytes r = receipt_bytes q"
  shows "r = q"
proof -
  note w = receipt_okD [OF assms(1)] and v = receipt_okD [OF assms(2)]
  note e0 = assms(3) [unfolded receipt_bytes_def same_append_eq]
  note e1 = u16.dec [OF w(1) v(1) e0]
  note e2 = string_dec [OF w(2) v(2) conjunct2 [OF e1]]
  note e3 = digest.dec [OF w(3) v(3) conjunct2 [OF e2]]
  note e4 = strings_dec [OF w(4,5) v(4,5) conjunct2 [OF e3]]
  note e5 = digest.dec [OF w(6) v(6) conjunct2 [OF e4]]
  note e6 = u64.enc_inj [OF w(7) v(7) conjunct2 [OF e5]]
  from e1 e2 e3 e4 e5 e6 show ?thesis by (cases r, cases q) simp
qed

lemma body_okD:
  assumes "body_ok b"
  shows "length (cb_source b) = 32" "length (cb_profile b) = 32" "length (cb_tokenizer b) = 32"
    "list_all str_ok (cb_refs b)" "length (cb_refs b) \<le> u64_max" "list_all (\<lambda>d. length d = 32) (cb_pages b)"
    "length (cb_pages b) \<le> u64_max" "length (cb_prefix_map b) = 32" "length (cb_tail_map b) = 32"
    "length (cb_prefix b) \<le> u64_max" "length (cb_tail b) \<le> u64_max" "cb_prefix_tokens b \<le> u64_max"
    "cb_tail_tokens b \<le> u64_max" "str_ok (cb_key b)" "receipt_ok (cb_receipt b)"
  using assms by (simp_all add: body_ok_def)

lemma capsule_bytes_inj:
  assumes "body_ok b" "body_ok c" "capsule_bytes A b = capsule_bytes A c"
  shows "formation_receipt_digest A (cb_receipt b) = formation_receipt_digest A (cb_receipt c) \<and>
    (cb_receipt b = cb_receipt c \<longrightarrow> b = c)"
proof -
  note w = body_okD [OF assms(1)] and v = body_okD [OF assms(2)]
  note e0 = assms(3) [unfolded capsule_bytes_def same_append_eq]
  note e1 = digest.dec [OF w(1) v(1) e0]
  note e2 = digest.dec [OF w(2) v(2) conjunct2 [OF e1]]
  note e3 = digest.dec [OF w(3) v(3) conjunct2 [OF e2]]
  note e4 = strings_dec [OF w(4,5) v(4,5) conjunct2 [OF e3]]
  note e5 = digests_dec [OF w(6,7) v(6,7) conjunct2 [OF e4]]
  note e6 = digest.dec [OF w(8) v(8) conjunct2 [OF e5]]
  note e7 = digest.dec [OF w(9) v(9) conjunct2 [OF e6]]
  note e8 = framed.dec [OF w(10) v(10) conjunct2 [OF e7]]
  note e9 = framed.dec [OF w(11) v(11) conjunct2 [OF e8]]
  note e10 = u64.dec [OF w(12) v(12) conjunct2 [OF e9]]
  note e11 = u64.dec [OF w(13) v(13) conjunct2 [OF e10]]
  note e12 = string_dec [OF w(14) v(14) conjunct2 [OF e11]]
  show ?thesis
    using e1 [THEN conjunct1] e2 [THEN conjunct1] e3 [THEN conjunct1] e4 [THEN conjunct1] e5 [THEN conjunct1]
      e6 [THEN conjunct1] e7 [THEN conjunct1] e8 [THEN conjunct1] e9 [THEN conjunct1] e10 [THEN conjunct1]
      e11 [THEN conjunct1] e12
    by (cases b, cases c) simp
qed

text \<open>C26: The digest of a capsule binds every field it is taken over, the causal key and the whole
  formation receipt included: two capsules with the same digest have the same contents, unless the very bytes
  that were hashed, of the two capsules or of their two receipts, are a collision of SHA-256.\<close>

theorem capsule_digest_binds:
  assumes "body_ok b" and "body_ok c" and "mc_digest (capsule_of A b) = mc_digest (capsule_of A c)"
  shows "b = c \<or>
    capsule_bytes A b \<noteq> capsule_bytes A c \<and> abi_sha A (capsule_bytes A b) = abi_sha A (capsule_bytes A c) \<or>
    receipt_bytes (cb_receipt b) \<noteq> receipt_bytes (cb_receipt c) \<and>
      abi_sha A (receipt_bytes (cb_receipt b)) = abi_sha A (receipt_bytes (cb_receipt c))"
proof (cases "capsule_bytes A b = capsule_bytes A c")
  case True
  note e = capsule_bytes_inj [OF assms(1,2) True]
  show ?thesis
  proof (cases "receipt_bytes (cb_receipt b) = receipt_bytes (cb_receipt c)")
    case True
    then have "cb_receipt b = cb_receipt c" using receipt_bytes_inj body_okD(15) assms(1,2) by blast
    with e show ?thesis by simp
  next
    case False
    with e show ?thesis by (simp add: formation_receipt_digest_def)
  qed
next
  case False
  with assms(3) show ?thesis by (simp add: capsule_of_def model_capsule_digest_def)
qed

text \<open>The two constructors agree: what \<open>new\<close> forms from token maps is what \<open>from_formed\<close> accepts
  when it is given back the receipt, the key and the rendered halves, and the receipt names the
  payload that the capsule renders.\<close>

theorem capsule_constructors_agree:
  assumes "new_capsule A source profile gauge refs pages pre tail = Ok c"
  shows "from_formed A (causal_key c) (formation_receipt c) source profile (identity_digest gauge) refs (map tp_digest pages)
      (mc_stable_prefix c) (tm_digest pre) (stable_prefix_tokens c) (mc_dynamic_tail c) (tm_digest tail) (dynamic_tail_tokens c) = Ok c \<and>
    render_capsule c = reconstruct pre @ reconstruct tail \<and> length (render_capsule c) \<le> MAX_CAPSULE_RENDER_BYTES \<and>
    verify_payload (formation_receipt c) (abi_sha A (render_capsule c)) \<and> validate_receipt (formation_receipt c) = Ok ()"
  using assms
  by (auto simp: new_capsule_def from_formed_def Let_def new_receipt_def verify_payload_def capsule_of_def render_capsule_def
      render_payload_digest_def validate_receipt_def checked_add_def split: if_splits sum.splits option.splits)

section \<open>Slots\<close>

lemma find_map_of: "find (\<lambda>(k, _). k = x) f = map_option (Pair x) (map_of f x)"
  by (induction f) auto

text \<open>The slots refine a map that is written once per key: recording a capsule adds its digest when
  the key is new, never changes a key that is there, keeps one entry per key, and fails exactly
  when the key already names another digest.\<close>

theorem record_slot_refines:
  "let (r, f') = record_slot f c; k = causal_key c in
     map_of f' = (if map_of f k = None then (map_of f)(k \<mapsto> mc_digest c) else map_of f) \<and>
     (r = Ok () \<longleftrightarrow> map_of f' k = Some (mc_digest c)) \<and>
     (r = Ok () \<or> r = Err (CapsuleCausalKeyRewrite k) \<and> f' = f) \<and>
     distinct (map fst f') = distinct (map fst f) \<and> (\<exists>xs. f' = f @ xs)"
proof (cases "map_of f (causal_key c)")
  case None
  then have n: "causal_key c \<notin> fst ` set f" by (simp add: map_of_eq_None_iff)
  then have "map_of (f @ [(causal_key c, d)]) = (map_of f)(causal_key c \<mapsto> d)" for d
    using None by (auto simp: fun_eq_iff map_add_def split: option.splits)
  with None n show ?thesis by (simp add: record_slot_def find_map_of)
next
  case (Some d)
  then show ?thesis by (simp add: record_slot_def find_map_of)
qed

section \<open>Examples\<close>

definition sample_model_abi :: model_abi where
  "sample_model_abi = \<lparr>abi_sha = (\<lambda>bs. take 31 (map (\<lambda>b. b mod 256) bs @ replicate 31 0) @ [length bs mod 256]),
     abi_from_hex = (\<lambda>s. None),
     abi_parse_ref = (\<lambda>s. Ok \<lparr>ref_hash = s, ref_whole = True, ref_text = s\<rparr>)\<rparr>"

definition sample_identity :: ExactTokenizerIdentity where
  "sample_identity = \<lparr>provider_lock = \<lparr>lock_provider = lit ''p'', lock_model = lit ''m'', tokenizer_revision_digest = []\<rparr>,
     identity_digest = replicate 32 7\<rparr>"

definition sample_adapter :: tokenizer_adapter where
  "sample_adapter = \<lparr>adapter_identity = sample_identity, adapter_encode = (\<lambda>bs. Ok [1, 0, 0]),
     adapter_token_bytes = (\<lambda>k. if k = 0 then Ok (lit ''ab'') else if k = 1 then Ok (lit ''c'') else Err [])\<rparr>"

definition sample_map :: ExactTokenMap where
  "sample_map = (case tokenize sample_model_abi sample_adapter (lit ''cabab'') of Inr m \<Rightarrow> m
     | Inl e \<Rightarrow> \<lparr>tm_tokenizer = [], tm_source = [], tm_tokens = [], tm_digest = []\<rparr>)"

definition sample_page :: TokenPage where
  "sample_page = (case new_page sample_model_abi sample_map (hex (tm_source sample_map)) 1 3 of Inr p \<Rightarrow> p
     | Inl e \<Rightarrow> \<lparr>tp_tokenizer = [], tp_map = [], tp_anchor = [], token_start = 0, token_end = 0, byte_start = 0, byte_end = 0,
         tp_tokens = [], tp_digest = []\<rparr>)"

lemma sample_map_Ok: "tokenize sample_model_abi sample_adapter (lit ''cabab'') = Ok sample_map"
  by code_simp

lemma sample_page_Ok: "new_page sample_model_abi sample_map (hex (tm_source sample_map)) 1 3 = Ok sample_page"
  by code_simp

definition sample_body :: capsule_body where
  "sample_body = \<lparr>cb_source = replicate 32 1, cb_profile = replicate 32 2, cb_tokenizer = replicate 32 7, cb_refs = [lit ''r''],
     cb_pages = [replicate 32 3], cb_prefix_map = replicate 32 4, cb_tail_map = replicate 32 5, cb_prefix = [1, 2], cb_tail = [3],
     cb_prefix_tokens = 2, cb_tail_tokens = 1, cb_key = lit ''k'',
     cb_receipt = \<lparr>receipt_version = 1, constructor_identity = lit ''c'', contract_root = replicate 32 1, dependency_roots = [],
       payload_root = replicate 32 0, receipt_epoch = 0\<rparr>\<rparr>"

definition sample_capsule :: ModelCapsule where
  "sample_capsule = (case new_capsule sample_model_abi (replicate 32 1) (replicate 32 2) sample_identity [lit ''r''] []
       sample_map sample_map of Inr c \<Rightarrow> c | Inl e \<Rightarrow> capsule_of sample_model_abi sample_body)"

lemma sample_capsule_Ok:
  "new_capsule sample_model_abi (replicate 32 1) (replicate 32 2) sample_identity [lit ''r''] []
     sample_map sample_map = Ok sample_capsule"
  by code_simp

lemma sample_body_ok: "body_ok sample_body"
  by code_simp

theorem token_map_exact_witness:
  "reconstruct sample_map = lit ''cabab'' \<and> token_range_for_bytes sample_map 1 5 = Ok (1, 3) \<and>
   token_range_for_bytes sample_map 1 4 = Err (TokenBoundaryRequired 4)"
proof -
  note M = token_map_exact [OF sample_map_Ok]
  note inverse = M [THEN conjunct2, THEN conjunct2, THEN conjunct1]
    and refused = M [THEN conjunct2, THEN conjunct2, THEN conjunct2, THEN conjunct2, THEN spec, THEN spec, of 1 4]
  have "byte_range_for_tokens sample_map 1 3 = Ok (1, 5)" by code_simp
  then have "token_range_for_bytes sample_map 1 5 = Ok (1, 3)" using inverse by blast
  moreover have "1 \<in> token_boundaries sample_map" "4 \<notin> token_boundaries sample_map" by code_simp+
  then have "token_range_for_bytes sample_map 1 4 = Err (TokenBoundaryRequired 4)" using refused by simp
  ultimately show ?thesis using M [THEN conjunct1] by blast
qed

theorem token_page_exact_witness: "expand_page sample_page = drop (byte_start sample_page) (take (byte_end sample_page) (lit ''cabab''))"
  using token_page_exact [OF sample_map_Ok sample_page_Ok] by simp

text \<open>The sample hash sees the first bytes and the length only, so a capsule for another profile has the same digest, and the
  bytes that collide are those of the two capsules.\<close>

definition other_body :: capsule_body where
  "other_body = sample_body\<lparr>cb_profile := replicate 32 9\<rparr>"

lemma other_body_ok: "body_ok other_body"
  by code_simp

theorem capsule_digest_binds_witness:
  "capsule_bytes sample_model_abi sample_body \<noteq> capsule_bytes sample_model_abi other_body \<and>
   abi_sha sample_model_abi (capsule_bytes sample_model_abi sample_body) = abi_sha sample_model_abi (capsule_bytes sample_model_abi other_body)"
proof -
  have "mc_digest (capsule_of sample_model_abi sample_body) = mc_digest (capsule_of sample_model_abi other_body)" by code_simp
  from capsule_digest_binds [OF sample_body_ok other_body_ok this] show ?thesis
    by (simp add: other_body_def sample_body_def)
qed

theorem capsule_constructors_agree_witness:
  "validate_receipt (formation_receipt sample_capsule) = Ok () \<and> render_capsule sample_capsule = reconstruct sample_map @ reconstruct sample_map"
  using capsule_constructors_agree [OF sample_capsule_Ok] by simp

end
