(* ===== verification/OutputNovelty.thy ===== *)
theory OutputNovelty
  imports ModelArtifacts
begin

text \<open>
  Fieldwise coding receipts for output effects (\<open>tokenzero-core/src/output_novelty.rs\<close>): the
  validation of the caller's fields, their canonical framing, the exact token maps of the whole
  and of each field, and the totals by role. A client of \<open>ModelArtifacts\<close> (token maps) and of
  \<open>Framing\<close>. The lemmas show that the length announced is the length framed, that the framing
  can be read in one way only, and that the totals partition the payload.
\<close>

section \<open>Fields\<close>

definition OUTPUT_NOVELTY_SCHEMA :: rstr where "OUTPUT_NOVELTY_SCHEMA = lit ''tokenzero.output-novelty/v1''"
definition MAX_OUTPUT_NOVELTY_FIELDS :: nat where "MAX_OUTPUT_NOVELTY_FIELDS = 256"
definition MAX_OUTPUT_NOVELTY_FIELD_NAME_BYTES :: nat where "MAX_OUTPUT_NOVELTY_FIELD_NAME_BYTES = 128"
definition MAX_OUTPUT_NOVELTY_BYTES :: nat where "MAX_OUTPUT_NOVELTY_BYTES = 16 * 1048576"
definition ENCODING_DOMAIN :: "byte list" where "ENCODING_DOMAIN = lit ''TOKENZERO-OUTPUT-NOVELTY-V1'' @ [0]"

datatype OutputNoveltyFieldRole = Referenced | Reused | Novel | Deterministic

fun role_str :: "OutputNoveltyFieldRole \<Rightarrow> rstr" where
  "role_str Referenced = lit ''referenced''"
| "role_str Reused = lit ''reused''"
| "role_str Novel = lit ''novel''"
| "role_str Deterministic = lit ''deterministic''"

datatype OutputSelectionOrigin = CallerSupplied

datatype OutputNoveltyError = NoveltyArtifact ModelArtifactError | ZeroIdentity rstr | EmptyFields
  | TooManyFields nat nat | InvalidFieldName rstr | DuplicateFieldName rstr | EmptyNovelField rstr
  | EncodedByteLimit nat nat | NoveltyLengthOverflow | AccountingOverflow | EncodingMismatch

record OutputNoveltyField =
  nf_name :: rstr
  nf_role :: OutputNoveltyFieldRole
  nf_bytes :: "byte list"

definition field_char_ok :: "nat \<times> byte \<Rightarrow> bool" where
  "field_char_ok = (\<lambda>(i, b). 97 \<le> b \<and> b \<le> 122 \<or> is_ascii_digit b \<and> 0 < i \<or> 0 < i \<and> b \<in> {95, 45, 46})"

definition validate_field_name :: "rstr \<Rightarrow> OutputNoveltyError + unit" where
  "validate_field_name name =
     (if name \<noteq> [] \<and> blen name \<le> MAX_OUTPUT_NOVELTY_FIELD_NAME_BYTES \<and> list_all field_char_ok (enumerate 0 (as_bytes name))
      then Ok () else Err (InvalidFieldName name))"

definition new_field :: "rstr \<Rightarrow> OutputNoveltyFieldRole \<Rightarrow> byte list \<Rightarrow> OutputNoveltyError + OutputNoveltyField" where
  "new_field name r bs =
     (case validate_field_name name of
        Inl e \<Rightarrow> Err e
      | Inr u \<Rightarrow> if r = Novel \<and> bs = [] then Err (EmptyNovelField name)
                else Ok \<lparr>nf_name = name, nf_role = r, nf_bytes = bs\<rparr>)"

section \<open>Receipts\<close>

record OutputNoveltyFieldReceipt =
  fr_name :: rstr
  fr_role :: OutputNoveltyFieldRole
  fr_payload_digest :: digest
  fr_payload_bytes :: nat
  fr_tokens :: nat

text \<open>The three counters of a role are kept together.\<close>

record role_totals =
  rt_fields :: nat
  rt_bytes :: nat
  rt_tokens :: nat

record OutputNoveltyTotals =
  referenced_totals :: role_totals
  reused_totals :: role_totals
  novel_totals :: role_totals
  deterministic_totals :: role_totals

definition no_totals :: role_totals where
  "no_totals = \<lparr>rt_fields = 0, rt_bytes = 0, rt_tokens = 0\<rparr>"

definition default_totals :: OutputNoveltyTotals where
  "default_totals = \<lparr>referenced_totals = no_totals, reused_totals = no_totals, novel_totals = no_totals,
     deterministic_totals = no_totals\<rparr>"

text \<open>The field counter is a \<open>u32\<close>, the two others are \<open>u64\<close>.\<close>

definition add_totals :: "role_totals \<Rightarrow> nat \<Rightarrow> nat \<Rightarrow> OutputNoveltyError + role_totals" where
  "add_totals t bs toks =
     (if 2 ^ 32 \<le> rt_fields t + 1 then Err AccountingOverflow
      else case checked_add (rt_bytes t) bs of
        None \<Rightarrow> Err AccountingOverflow
      | Some b \<Rightarrow>
          (case checked_add (rt_tokens t) toks of
             None \<Rightarrow> Err AccountingOverflow
           | Some k \<Rightarrow> Ok \<lparr>rt_fields = rt_fields t + 1, rt_bytes = b, rt_tokens = k\<rparr>))"

fun role_of :: "OutputNoveltyFieldRole \<Rightarrow> OutputNoveltyTotals \<Rightarrow> role_totals" where
  "role_of Referenced t = referenced_totals t"
| "role_of Reused t = reused_totals t"
| "role_of Novel t = novel_totals t"
| "role_of Deterministic t = deterministic_totals t"

fun with_role :: "OutputNoveltyFieldRole \<Rightarrow> role_totals \<Rightarrow> OutputNoveltyTotals \<Rightarrow> OutputNoveltyTotals" where
  "with_role Referenced r t = t\<lparr>referenced_totals := r\<rparr>"
| "with_role Reused r t = t\<lparr>reused_totals := r\<rparr>"
| "with_role Novel r t = t\<lparr>novel_totals := r\<rparr>"
| "with_role Deterministic r t = t\<lparr>deterministic_totals := r\<rparr>"

definition totals_add :: "OutputNoveltyTotals \<Rightarrow> OutputNoveltyFieldRole \<Rightarrow> nat \<Rightarrow> nat \<Rightarrow> OutputNoveltyError + OutputNoveltyTotals" where
  "totals_add t r bs toks =
     (case add_totals (role_of r t) bs toks of Inl e \<Rightarrow> Err e | Inr x \<Rightarrow> Ok (with_role r x t))"

record OutputNoveltyReceipt =
  nr_schema :: rstr
  nr_origin :: OutputSelectionOrigin
  nr_authority :: digest
  nr_effect :: digest
  nr_verification :: digest
  nr_tokenizer :: digest
  nr_encoding :: digest
  nr_total_bytes :: nat
  nr_total_tokens :: nat
  nr_fields :: "OutputNoveltyFieldReceipt list"
  nr_totals :: OutputNoveltyTotals

record OutputNoveltyCoding =
  nc_fields :: "OutputNoveltyField list"
  nc_encoded :: "byte list"
  nc_receipt :: OutputNoveltyReceipt

section \<open>Framing\<close>

fun encoded_len_loop :: "nat \<Rightarrow> OutputNoveltyField list \<Rightarrow> OutputNoveltyError + nat" where
  "encoded_len_loop n [] = Ok n"
| "encoded_len_loop n (f # fs) =
     (case checked_add n (8 + blen (nf_name f)) of
        None \<Rightarrow> Err NoveltyLengthOverflow
      | Some a \<Rightarrow>
          (case checked_add a (8 + blen (role_str (nf_role f))) of
             None \<Rightarrow> Err NoveltyLengthOverflow
           | Some b \<Rightarrow>
               (case checked_add b (8 + length (nf_bytes f)) of
                  None \<Rightarrow> Err NoveltyLengthOverflow
                | Some c \<Rightarrow> encoded_len_loop c fs)))"

definition encoded_len :: "OutputNoveltyField list \<Rightarrow> OutputNoveltyError + nat" where
  "encoded_len fs =
     (case checked_add (length ENCODING_DOMAIN) (3 * 32) of
        None \<Rightarrow> Err NoveltyLengthOverflow
      | Some n \<Rightarrow>
          (case checked_add n (8 + blen (show_nat (length fs))) of
             None \<Rightarrow> Err NoveltyLengthOverflow
           | Some m \<Rightarrow> encoded_len_loop m fs))"

definition put_field :: "OutputNoveltyField \<Rightarrow> byte list" where
  "put_field f = put_string (nf_name f) @ put_string (role_str (nf_role f)) @ put_bytes (nf_bytes f)"

fun encode_loop :: "byte list \<Rightarrow> OutputNoveltyField list \<Rightarrow> OutputNoveltyError + byte list" where
  "encode_loop out [] = Ok out"
| "encode_loop out (f # fs) =
     (let out = out @ put_field f in
      if MAX_OUTPUT_NOVELTY_BYTES < length out then Err (EncodedByteLimit (length out) MAX_OUTPUT_NOVELTY_BYTES)
      else encode_loop out fs)"

definition encode_head :: "digest \<Rightarrow> digest \<Rightarrow> digest \<Rightarrow> nat \<Rightarrow> byte list" where
  "encode_head authority effect verification n =
     ENCODING_DOMAIN @ authority @ effect @ verification @ put_string (show_nat n)"

definition encode_fields :: "digest \<Rightarrow> digest \<Rightarrow> digest \<Rightarrow> OutputNoveltyField list \<Rightarrow> OutputNoveltyError + byte list" where
  "encode_fields authority effect verification fs =
     encode_loop (encode_head authority effect verification (length fs)) fs"

section \<open>Encoding\<close>

definition ZERO_DIGEST :: digest where "ZERO_DIGEST = replicate 32 0"

fun check_identities :: "(rstr \<times> digest) list \<Rightarrow> OutputNoveltyError + unit" where
  "check_identities [] = Ok ()"
| "check_identities ((name, d) # xs) = (if d = ZERO_DIGEST then Err (ZeroIdentity name) else check_identities xs)"

fun check_fields :: "rstr list \<Rightarrow> OutputNoveltyField list \<Rightarrow> OutputNoveltyError + unit" where
  "check_fields names [] = Ok ()"
| "check_fields names (f # fs) =
     (case validate_field_name (nf_name f) of
        Inl e \<Rightarrow> Err e
      | Inr u \<Rightarrow>
          if nf_name f \<in> set names then Err (DuplicateFieldName (nf_name f))
          else if nf_role f = Novel \<and> nf_bytes f = [] then Err (EmptyNovelField (nf_name f))
          else check_fields (nf_name f # names) fs)"

fun field_receipts ::
    "model_abi \<Rightarrow> tokenizer_adapter \<Rightarrow> OutputNoveltyTotals \<Rightarrow> OutputNoveltyField list \<Rightarrow>
     OutputNoveltyError + (OutputNoveltyTotals \<times> OutputNoveltyFieldReceipt list)" where
  "field_receipts A T t [] = Ok (t, [])"
| "field_receipts A T t (f # fs) =
     (case tokenize A T (nf_bytes f) of
        Inl e \<Rightarrow> Err (NoveltyArtifact e)
      | Inr m \<Rightarrow>
          (case totals_add t (nf_role f) (length (nf_bytes f)) (token_count m) of
             Inl e \<Rightarrow> Err e
           | Inr t \<Rightarrow>
               (case field_receipts A T t fs of
                  Inl e \<Rightarrow> Err e
                | Inr (t, rs) \<Rightarrow>
                    Ok (t, \<lparr>fr_name = nf_name f, fr_role = nf_role f, fr_payload_digest = abi_sha A (nf_bytes f),
                            fr_payload_bytes = length (nf_bytes f), fr_tokens = token_count m\<rparr> # rs))))"

definition encode_output ::
    "model_abi \<Rightarrow> tokenizer_adapter \<Rightarrow> digest \<Rightarrow> digest \<Rightarrow> digest \<Rightarrow> OutputNoveltyField list \<Rightarrow>
     OutputNoveltyError + OutputNoveltyCoding" where
  "encode_output A T authority effect verification fs =
     (case check_identities [(lit ''classification authority'', authority), (lit ''selected effect'', effect),
          (lit ''verification receipt'', verification)] of
        Inl e \<Rightarrow> Err e
      | Inr u \<Rightarrow>
     if fs = [] then Err EmptyFields
     else if MAX_OUTPUT_NOVELTY_FIELDS < length fs then Err (TooManyFields (length fs) MAX_OUTPUT_NOVELTY_FIELDS)
     else case check_fields [] fs of
        Inl e \<Rightarrow> Err e
      | Inr u \<Rightarrow>
     (case encoded_len fs of
        Inl e \<Rightarrow> Err e
      | Inr n \<Rightarrow>
     if MAX_OUTPUT_NOVELTY_BYTES < n then Err (EncodedByteLimit n MAX_OUTPUT_NOVELTY_BYTES)
     else case encode_fields authority effect verification fs of
        Inl e \<Rightarrow> Err e
      | Inr encoded \<Rightarrow>
     (case tokenize A T encoded of
        Inl e \<Rightarrow> Err (NoveltyArtifact e)
      | Inr m \<Rightarrow>
     (case field_receipts A T default_totals fs of
        Inl e \<Rightarrow> Err e
      | Inr (t, rs) \<Rightarrow>
          Ok \<lparr>nc_fields = fs, nc_encoded = encoded, nc_receipt =
            \<lparr>nr_schema = OUTPUT_NOVELTY_SCHEMA, nr_origin = CallerSupplied, nr_authority = authority, nr_effect = effect,
             nr_verification = verification, nr_tokenizer = identity_digest (adapter_identity T),
             nr_encoding = abi_sha A encoded, nr_total_bytes = length encoded, nr_total_tokens = token_count m,
             nr_fields = rs, nr_totals = t\<rparr>\<rparr>))))"

definition reconstruct_fields :: "OutputNoveltyCoding \<Rightarrow> OutputNoveltyError + OutputNoveltyField list" where
  "reconstruct_fields c =
     (case encode_fields (nr_authority (nc_receipt c)) (nr_effect (nc_receipt c)) (nr_verification (nc_receipt c)) (nc_fields c) of
        Inl e \<Rightarrow> Err e
      | Inr encoded \<Rightarrow> if encoded \<noteq> nc_encoded c then Err EncodingMismatch else Ok (nc_fields c))"

section \<open>The announced length\<close>

lemma length_put_bytes [simp]: "length (put_bytes bs) = 8 + length bs"
  by (simp add: put_bytes_def)

lemma length_put_string [simp]: "length (put_string s) = 8 + blen s"
  by (simp add: put_string_def length_as_bytes)

lemma length_put_field: "length (put_field f) = 24 + blen (nf_name f) + blen (role_str (nf_role f)) + length (nf_bytes f)"
  by (simp add: put_field_def)

lemma encoded_len_loop_Ok: "encoded_len_loop n fs = Ok m \<Longrightarrow> m = n + length (concat (map put_field fs))"
proof (induction fs arbitrary: n)
  case (Cons f fs)
  then have "encoded_len_loop (n + length (put_field f)) fs = Ok m"
    by (auto simp: checked_add_def length_put_field ac_simps split: if_splits option.splits)
  with Cons.IH show ?case by fastforce
qed simp

lemma encoded_len_Ok:
  assumes "encoded_len fs = Ok n" "length a = 32" "length e = 32" "length v = 32"
  shows "n = length (encode_head a e v (length fs) @ concat (map put_field fs))"
  using assms
  by (auto simp: encoded_len_def encode_head_def ENCODING_DOMAIN_def checked_add_def lit_def split: if_splits dest!: encoded_len_loop_Ok)

lemma encode_loop_Ok: "encode_loop out fs = Ok bs \<Longrightarrow> bs = out @ concat (map put_field fs)"
  by (induction out fs rule: encode_loop.induct) (auto simp: Let_def split: if_splits)

lemma encode_loop_fits:
  "length (out @ concat (map put_field fs)) \<le> MAX_OUTPUT_NOVELTY_BYTES \<Longrightarrow> encode_loop out fs = Ok (out @ concat (map put_field fs))"
  by (induction out fs rule: encode_loop.induct) (auto simp: Let_def)

section \<open>The totals\<close>

definition role_fields :: "OutputNoveltyFieldRole \<Rightarrow> OutputNoveltyFieldReceipt list \<Rightarrow> OutputNoveltyFieldReceipt list" where
  "role_fields r rs = filter (\<lambda>f. fr_role f = r) rs"

lemma role_of_with_role: "role_of q (with_role r x t) = (if q = r then x else role_of q t)"
  by (cases q; cases r) auto

lemma field_receipts_Ok:
  "field_receipts A T t fs = Ok (t', rs) \<Longrightarrow>
     map (\<lambda>r. (fr_name r, fr_role r, fr_payload_digest r, fr_payload_bytes r)) rs =
       map (\<lambda>f. (nf_name f, nf_role f, abi_sha A (nf_bytes f), length (nf_bytes f))) fs \<and>
     rt_fields (role_of q t') = rt_fields (role_of q t) + length (role_fields q rs) \<and>
     rt_bytes (role_of q t') = rt_bytes (role_of q t) + sum_list (map fr_payload_bytes (role_fields q rs)) \<and>
     rt_tokens (role_of q t') = rt_tokens (role_of q t) + sum_list (map fr_tokens (role_fields q rs))"
proof (induction A T t fs arbitrary: t' rs rule: field_receipts.induct)
  case (2 A T t f fs)
  from 2(2) obtain m x vs where h: "tokenize A T (nf_bytes f) = Ok m"
    "totals_add t (nf_role f) (length (nf_bytes f)) (token_count m) = Ok x" "field_receipts A T x fs = Ok (t', vs)"
    "rs = \<lparr>fr_name = nf_name f, fr_role = nf_role f, fr_payload_digest = abi_sha A (nf_bytes f),
                            fr_payload_bytes = length (nf_bytes f), fr_tokens = token_count m\<rparr> # vs"
    by (auto split: sum.splits)
  from h(2) obtain y where y: "add_totals (role_of (nf_role f) t) (length (nf_bytes f)) (token_count m) = Ok y" "x = with_role (nf_role f) y t"
    by (auto simp: totals_add_def split: sum.splits)
  from y(1) have "rt_fields y = rt_fields (role_of (nf_role f) t) + 1" "rt_bytes y = rt_bytes (role_of (nf_role f) t) + length (nf_bytes f)"
    "rt_tokens y = rt_tokens (role_of (nf_role f) t) + token_count m"
    by (auto simp: add_totals_def checked_add_def split: if_splits option.splits)
  with 2(1) [OF h(1,2,3)] show ?case by (auto simp: h(4) y(2) role_fields_def role_of_with_role)
qed (auto simp: role_fields_def)

lemma encode_output_Ok:
  assumes "encode_output A T a e v fs = Ok c"
  shows "nc_fields c = fs" "nc_encoded c = encode_head a e v (length fs) @ concat (map put_field fs)"
    "nr_authority (nc_receipt c) = a" "nr_effect (nc_receipt c) = e" "nr_verification (nc_receipt c) = v"
    "check_fields [] fs = Ok ()" "encode_fields a e v fs = Ok (nc_encoded c)" "fs \<noteq> []" "length fs \<le> MAX_OUTPUT_NOVELTY_FIELDS"
    "field_receipts A T default_totals fs = Ok (nr_totals (nc_receipt c), nr_fields (nc_receipt c))"
    "nr_total_bytes (nc_receipt c) = length (nc_encoded c)" "nr_encoding (nc_receipt c) = abi_sha A (nc_encoded c)"
    "\<exists>n. encoded_len fs = Ok n \<and> n \<le> MAX_OUTPUT_NOVELTY_BYTES"
    "\<exists>m. tokenize A T (nc_encoded c) = Ok m \<and> nr_total_tokens (nc_receipt c) = token_count m"
proof -
  from assms obtain n bs m t rs where h: "check_fields [] fs = Ok ()" "fs \<noteq> []" "length fs \<le> MAX_OUTPUT_NOVELTY_FIELDS"
    "encoded_len fs = Ok n" "n \<le> MAX_OUTPUT_NOVELTY_BYTES" "encode_fields a e v fs = Ok bs" "tokenize A T bs = Ok m"
    "field_receipts A T default_totals fs = Ok (t, rs)"
    "c = \<lparr>nc_fields = fs, nc_encoded = bs, nc_receipt =
            \<lparr>nr_schema = OUTPUT_NOVELTY_SCHEMA, nr_origin = CallerSupplied, nr_authority = a, nr_effect = e,
             nr_verification = v, nr_tokenizer = identity_digest (adapter_identity T),
             nr_encoding = abi_sha A bs, nr_total_bytes = length bs, nr_total_tokens = token_count m,
             nr_fields = rs, nr_totals = t\<rparr>\<rparr>"
    by (auto simp: encode_output_def split: sum.splits if_splits)
  then show "nc_encoded c = encode_head a e v (length fs) @ concat (map put_field fs)"
    by (simp add: encode_fields_def encode_loop_Ok)
  from h show "nc_fields c = fs" "nr_authority (nc_receipt c) = a" "nr_effect (nc_receipt c) = e" "nr_verification (nc_receipt c) = v"
    "check_fields [] fs = Ok ()" "encode_fields a e v fs = Ok (nc_encoded c)" "fs \<noteq> []" "length fs \<le> MAX_OUTPUT_NOVELTY_FIELDS"
    "field_receipts A T default_totals fs = Ok (nr_totals (nc_receipt c), nr_fields (nc_receipt c))"
    "nr_total_bytes (nc_receipt c) = length (nc_encoded c)" "nr_encoding (nc_receipt c) = abi_sha A (nc_encoded c)"
    "\<exists>n. encoded_len fs = Ok n \<and> n \<le> MAX_OUTPUT_NOVELTY_BYTES"
    "\<exists>m. tokenize A T (nc_encoded c) = Ok m \<and> nr_total_tokens (nc_receipt c) = token_count m"
    by simp_all
qed

section \<open>Exactness and unambiguous reading\<close>

text \<open>A coding reconstructs the caller's fields, its announced length is the length of the frame and
  within the limit, and its totals partition the receipts of the fields by role.\<close>

theorem output_coding_exact:
  assumes "encode_output A T a e v fs = Ok c" and "length a = 32" and "length e = 32" and "length v = 32"
  shows "reconstruct_fields c = Ok fs \<and> encoded_len fs = Ok (nr_total_bytes (nc_receipt c)) \<and>
    nr_total_bytes (nc_receipt c) = length (nc_encoded c) \<and> length (nc_encoded c) \<le> MAX_OUTPUT_NOVELTY_BYTES \<and>
    nr_encoding (nc_receipt c) = abi_sha A (nc_encoded c) \<and>
    (\<forall>r. let t = role_of r (nr_totals (nc_receipt c)); gs = role_fields r (nr_fields (nc_receipt c)) in
       rt_fields t = length (filter (\<lambda>f. nf_role f = r) fs) \<and>
       rt_bytes t = sum_list (map (length \<circ> nf_bytes) (filter (\<lambda>f. nf_role f = r) fs)) \<and>
       rt_tokens t = sum_list (map fr_tokens gs))"
proof -
  note h = encode_output_Ok [OF assms(1)]
  obtain n where n: "encoded_len fs = Ok n" "n \<le> MAX_OUTPUT_NOVELTY_BYTES" using h(13) by blast
  then have len: "n = length (nc_encoded c)" using encoded_len_Ok [OF n(1) assms(2-4)] h(2) by simp
  have r: "reconstruct_fields c = Ok fs" using h by (simp add: reconstruct_fields_def)
  have "let t = role_of r (nr_totals (nc_receipt c)); gs = role_fields r (nr_fields (nc_receipt c)) in
       rt_fields t = length (filter (\<lambda>f. nf_role f = r) fs) \<and>
       rt_bytes t = sum_list (map (length \<circ> nf_bytes) (filter (\<lambda>f. nf_role f = r) fs)) \<and>
       rt_tokens t = sum_list (map fr_tokens gs)" for r
  proof -
    let ?rs = "nr_fields (nc_receipt c)"
    note f = field_receipts_Ok [OF h(10), of r]
    have z: "role_of r default_totals = no_totals" by (cases r) (simp_all add: default_totals_def)
    have "map (\<lambda>r. (fr_role r, fr_payload_bytes r)) ?rs = map (\<lambda>f. (nf_role f, length (nf_bytes f))) fs"
      using arg_cong [OF conjunct1 [OF f], of "map (\<lambda>(n, r, d, b). (r, b))"] by (simp add: comp_def)
    then have "filter (\<lambda>p. fst p = r) (map (\<lambda>r. (fr_role r, fr_payload_bytes r)) ?rs) =
        filter (\<lambda>p. fst p = r) (map (\<lambda>f. (nf_role f, length (nf_bytes f))) fs)" by simp
    then have m: "map (\<lambda>r. (fr_role r, fr_payload_bytes r)) (role_fields r ?rs) =
        map (\<lambda>f. (nf_role f, length (nf_bytes f))) (filter (\<lambda>f. nf_role f = r) fs)"
      by (simp add: filter_map comp_def role_fields_def)
    have "length (role_fields r ?rs) = length (filter (\<lambda>f. nf_role f = r) fs)"
      using arg_cong [OF m, of length] by simp
    moreover have "map fr_payload_bytes (role_fields r ?rs) = map (length \<circ> nf_bytes) (filter (\<lambda>f. nf_role f = r) fs)"
      using arg_cong [OF m, of "map snd"] by (simp add: comp_def)
    ultimately show ?thesis using f z by (simp add: no_totals_def)
  qed
  with r n len h(11,12) show ?thesis by simp
qed

definition field_fits :: "OutputNoveltyField \<Rightarrow> bool" where
  "field_fits f \<longleftrightarrow> str_ok (nf_name f) \<and> length (nf_bytes f) \<le> u64_max"

lemma role_str_ok: "str_ok (role_str r)"
  by (cases r; simp only: role_str.simps; code_simp)

lemma role_str_inj: "role_str r = role_str q \<Longrightarrow> r = q"
  by (cases r; cases q) (simp_all add: lit_def)

interpretation nfield: prefix_code put_field field_fits
proof
  fix f g :: OutputNoveltyField and s t
  assume f: "field_fits f" and g: "field_fits g" and e: "put_field f @ s = put_field g @ t"
  note e0 = e [unfolded put_field_def append_assoc]
  have ok: "str_ok (nf_name f)" "str_ok (nf_name g)" "length (nf_bytes f) \<le> u64_max" "length (nf_bytes g) \<le> u64_max"
    using f g by (simp_all add: field_fits_def)
  note e1 = string_dec [OF ok(1,2) e0]
  note e2 = string_dec [OF role_str_ok role_str_ok conjunct2 [OF e1]]
  note e3 = framed.dec [OF ok(3,4) conjunct2 [OF e2]]
  show "f = g \<and> s = t" using e1 [THEN conjunct1] role_str_inj [OF conjunct1 [OF e2]] e3 by (cases f, cases g) simp
qed

lemma show_nat_inj: "n \<le> u64_max \<Longrightarrow> m \<le> u64_max \<Longrightarrow> show_nat n = show_nat m \<Longrightarrow> n = m"
  by (metis option.inject parse_show_nat)

lemma blen_low: "list_all (\<lambda>c. c < 128) s \<Longrightarrow> blen s = length s \<and> valid_str s"
  by (induction s) (auto simp: valid_str_def is_scalar_def len_utf8_def)

lemma show_nat_ascii: "list_all (\<lambda>c. c < 128) (show_nat n)"
  using show_nat_digits [of _ n] by (force simp: list_all_iff is_ascii_digit_def)

lemma length_show_nat: "length (show_nat n) \<le> n + 1"
proof (induction n rule: show_nat.induct)
  case (1 n)
  then show ?case by (subst show_nat.simps) auto
qed

lemma show_nat_ok: "n \<le> MAX_OUTPUT_NOVELTY_FIELDS \<Longrightarrow> str_ok (show_nat n)"
  using blen_low [OF show_nat_ascii [of n]] length_show_nat [of n]
  by (simp add: str_ok_def MAX_OUTPUT_NOVELTY_FIELDS_def u64_max_def)

lemma check_fields_Ok:
  "check_fields names fs = Ok () \<Longrightarrow>
     list_all (\<lambda>f. blen (nf_name f) \<le> MAX_OUTPUT_NOVELTY_FIELD_NAME_BYTES \<and> (nf_role f = Novel \<longrightarrow> nf_bytes f \<noteq> [])) fs \<and>
     distinct (map nf_name fs) \<and> set (map nf_name fs) \<inter> set names = {}"
  by (induction names fs rule: check_fields.induct) (auto simp: validate_field_name_def split: if_splits sum.splits)

lemma field_in_concat: "f \<in> set fs \<Longrightarrow> length (nf_bytes f) \<le> length (concat (map put_field fs))"
  by (induction fs) (auto simp: length_put_field)

lemma encoded_fields_fit:
  assumes "encode_output A T a e v fs = Ok c" "length a = 32" "length e = 32" "length v = 32" "list_all (\<lambda>f. valid_str (nf_name f)) fs"
  shows "list_all field_fits fs"
proof -
  note h = encode_output_Ok [OF assms(1)]
  obtain n where n: "encoded_len fs = Ok n" "n \<le> MAX_OUTPUT_NOVELTY_BYTES" using h(13) by blast
  then have "length (concat (map put_field fs)) \<le> MAX_OUTPUT_NOVELTY_BYTES" using encoded_len_Ok [OF n(1) assms(2-4)] by simp
  with check_fields_Ok [OF h(6)] assms(5) show ?thesis
    by (fastforce simp: list_all_iff field_fits_def str_ok_def MAX_OUTPUT_NOVELTY_BYTES_def MAX_OUTPUT_NOVELTY_FIELD_NAME_BYTES_def
        u64_max_def dest: field_in_concat)
qed

text \<open>The coded bytes can be read in one way only: two codings with the same bytes, whoever tokenized
  them, have the same three identities and the same fields in the same order.\<close>

theorem output_coding_unambiguous:
  assumes "encode_output A T a e v fs = Ok c" and "encode_output B U a' e' v' gs = Ok d"
    and "length a = 32" and "length e = 32" and "length v = 32" and "length a' = 32" and "length e' = 32" and "length v' = 32"
    and "list_all (\<lambda>f. valid_str (nf_name f)) fs" and "list_all (\<lambda>f. valid_str (nf_name f)) gs"
    and "nc_encoded c = nc_encoded d"
  shows "a = a' \<and> e = e' \<and> v = v' \<and> fs = gs"
proof -
  note h = encode_output_Ok [OF assms(1)] and k = encode_output_Ok [OF assms(2)]
  note e0 = assms(11) [unfolded h(2) k(2) encode_head_def append_assoc same_append_eq]
  note e1 = digest.dec [OF assms(3,6) e0]
  note e2 = digest.dec [OF assms(4,7) conjunct2 [OF e1]]
  note e3 = digest.dec [OF assms(5,8) conjunct2 [OF e2]]
  note e4 = string_dec [OF show_nat_ok [OF h(9)] show_nat_ok [OF k(9)] conjunct2 [OF e3]]
  have "length fs = length gs"
    using show_nat_inj conjunct1 [OF e4] h(9) k(9) by (simp add: MAX_OUTPUT_NOVELTY_FIELDS_def u64_max_def)
  then have "fs = gs \<and> [] = ([] :: byte list)"
    using encoded_fields_fit [OF assms(1,3-5,9)] encoded_fields_fit [OF assms(2,6-8,10)] conjunct2 [OF e4]
    by (intro nfield.dec_list) auto
  with e1 e2 e3 show ?thesis by blast
qed

section \<open>What can fail\<close>

lemma sum_positive_lengths: "list_all (\<lambda>t. piece_bytes t \<noteq> []) ts \<Longrightarrow> length ts \<le> length (concat (map piece_bytes ts))"
  by (induction ts) (auto simp flip: length_greater_0_conv)

lemma token_count_le: "tokenize A T bs = Ok m \<Longrightarrow> token_count m \<le> length bs"
  using tokenize_Ok(1) [of A T bs m] sum_positive_lengths [of "tm_tokens m"]
  by (auto simp: exact_map_def token_count_def reconstruct_def)

lemma field_receipts_fail:
  "field_receipts A T t fs = Err x \<Longrightarrow>
     (\<And>q. rt_fields (role_of q t) + length fs < 2 ^ 32) \<Longrightarrow>
     (\<And>q. rt_bytes (role_of q t) + sum_list (map (length \<circ> nf_bytes) fs) \<le> u64_max) \<Longrightarrow>
     (\<And>q. rt_tokens (role_of q t) + sum_list (map (length \<circ> nf_bytes) fs) \<le> u64_max) \<Longrightarrow> \<exists>y. x = NoveltyArtifact y"
proof (induction A T t fs rule: field_receipts.induct)
  case (2 A T t f fs)
  show ?case
  proof (cases "tokenize A T (nf_bytes f)")
    case (Inl y)
    with 2(2) show ?thesis by auto
  next
    case (Inr m)
    note le = token_count_le [OF Inr]
    have "\<exists>z. add_totals (role_of (nf_role f) t) (length (nf_bytes f)) (token_count m) = Ok z \<and>
        rt_fields z = rt_fields (role_of (nf_role f) t) + 1 \<and> rt_bytes z = rt_bytes (role_of (nf_role f) t) + length (nf_bytes f) \<and>
        rt_tokens z = rt_tokens (role_of (nf_role f) t) + token_count m"
      using 2(3) [of "nf_role f"] 2(4) [of "nf_role f"] 2(5) [of "nf_role f"] le by (simp add: add_totals_def checked_add_def)
    then obtain z where z: "totals_add t (nf_role f) (length (nf_bytes f)) (token_count m) = Ok (with_role (nf_role f) z t)"
      "rt_fields z = rt_fields (role_of (nf_role f) t) + 1" "rt_bytes z = rt_bytes (role_of (nf_role f) t) + length (nf_bytes f)"
      "rt_tokens z = rt_tokens (role_of (nf_role f) t) + token_count m" by (auto simp: totals_add_def)
    let ?u = "with_role (nf_role f) z t"
    have rest: "field_receipts A T ?u fs = Err x" using 2(2) Inr z(1) by (auto split: sum.splits)
    have "rt_fields (role_of q ?u) + length fs < 2 ^ 32" for q
      using 2(3) [of q] z(2) by (auto simp: role_of_with_role)
    moreover have "rt_bytes (role_of q ?u) + sum_list (map (length \<circ> nf_bytes) fs) \<le> u64_max" for q
      using 2(4) [of q] z(3) by (auto simp: role_of_with_role comp_def)
    moreover have "rt_tokens (role_of q ?u) + sum_list (map (length \<circ> nf_bytes) fs) \<le> u64_max" for q
      using 2(5) [of q] z(4) le by (auto simp: role_of_with_role comp_def)
    ultimately show ?thesis using 2(1) [OF Inr z(1) rest] by blast
  qed
qed simp

text \<open>The accounting cannot overflow and the frame cannot outgrow its announced length: once the fields
  are accepted, only the tokenizer can make the coding fail.\<close>

theorem output_coding_fails_only_in_tokenizer:
  assumes "check_identities [(lit ''classification authority'', a), (lit ''selected effect'', e), (lit ''verification receipt'', v)] = Ok ()"
    and "length a = 32" and "length e = 32" and "length v = 32" and "fs \<noteq> []" and "length fs \<le> MAX_OUTPUT_NOVELTY_FIELDS"
    and "check_fields [] fs = Ok ()" and "encoded_len fs = Ok n" and "n \<le> MAX_OUTPUT_NOVELTY_BYTES"
  shows "(\<exists>c. encode_output A T a e v fs = Ok c) \<or> (\<exists>y. encode_output A T a e v fs = Err (NoveltyArtifact y))"
proof -
  let ?bs = "encode_head a e v (length fs) @ concat (map put_field fs)"
  have len: "n = length ?bs" using encoded_len_Ok [OF assms(8,2-4)] by simp
  then have enc: "encode_fields a e v fs = Ok ?bs" using assms(9) unfolding encode_fields_def by (intro encode_loop_fits) simp
  have "sum_list (map (length \<circ> nf_bytes) fs) \<le> length (concat (map put_field fs))" by (induction fs) (auto simp: length_put_field)
  then have le: "sum_list (map (length \<circ> nf_bytes) fs) \<le> u64_max" using len assms(9) by (simp add: MAX_OUTPUT_NOVELTY_BYTES_def u64_max_def)
  have z: "role_of q default_totals = no_totals" for q by (cases q) (simp_all add: default_totals_def)
  have "\<exists>y. x = NoveltyArtifact y" if "field_receipts A T default_totals fs = Err x" for x
    using field_receipts_fail [OF that] assms(6) le by (simp add: z no_totals_def MAX_OUTPUT_NOVELTY_FIELDS_def)
  then show ?thesis using assms(1,5-9) enc
    by (cases "tokenize A T ?bs"; cases "field_receipts A T default_totals fs") (auto simp: encode_output_def)
qed

section \<open>Examples\<close>

definition sample_fields :: "OutputNoveltyField list" where
  "sample_fields = [\<lparr>nf_name = lit ''edit'', nf_role = Novel, nf_bytes = [1, 2, 3]\<rparr>, \<lparr>nf_name = lit ''op'', nf_role = Deterministic, nf_bytes = []\<rparr>]"

definition sample_frame :: "byte list" where
  "sample_frame = encode_head (replicate 32 1) (replicate 32 2) (replicate 32 3) 2 @ concat (map put_field sample_fields)"

definition frame_adapter :: tokenizer_adapter where
  "frame_adapter = \<lparr>adapter_identity = sample_identity,
     adapter_encode = (\<lambda>bs. Ok (case bs of [] \<Rightarrow> [] | b # _ \<Rightarrow> if b = 1 then [1] else [0])),
     adapter_token_bytes = (\<lambda>k. Ok (if k = 1 then [1, 2, 3] else sample_frame))\<rparr>"

definition sample_coding :: OutputNoveltyCoding where
  "sample_coding = (case encode_output sample_model_abi frame_adapter (replicate 32 1) (replicate 32 2) (replicate 32 3) sample_fields of
     Inr c \<Rightarrow> c | Inl e \<Rightarrow> \<lparr>nc_fields = [], nc_encoded = [], nc_receipt = \<lparr>nr_schema = [], nr_origin = CallerSupplied, nr_authority = [],
       nr_effect = [], nr_verification = [], nr_tokenizer = [], nr_encoding = [], nr_total_bytes = 0, nr_total_tokens = 0, nr_fields = [],
       nr_totals = default_totals\<rparr>\<rparr>)"

lemma sample_coding_Ok:
  "encode_output sample_model_abi frame_adapter (replicate 32 1) (replicate 32 2) (replicate 32 3) sample_fields = Ok sample_coding"
  by code_simp

theorem output_coding_exact_witness:
  "reconstruct_fields sample_coding = Ok sample_fields \<and> rt_bytes (novel_totals (nr_totals (nc_receipt sample_coding))) = 3"
proof -
  have l: "length (replicate 32 (x :: nat)) = 32" for x by simp
  have "sum_list (map (length \<circ> nf_bytes) (filter (\<lambda>f. nf_role f = Novel) sample_fields)) = 3" by code_simp
  with output_coding_exact [OF sample_coding_Ok l l l] show ?thesis
    by (simp add: Let_def) (metis role_of.simps(3))
qed

theorem output_coding_unambiguous_witness: "nc_encoded sample_coding = nc_encoded sample_coding \<and> sample_fields = sample_fields"
proof -
  have l: "length (replicate 32 (x :: nat)) = 32" for x by simp
  have v: "list_all (\<lambda>f. valid_str (nf_name f)) sample_fields" by code_simp
  show ?thesis using output_coding_unambiguous [OF sample_coding_Ok sample_coding_Ok l l l l l l v v refl] by simp
qed

theorem output_coding_fails_only_in_tokenizer_witness:
  "(\<exists>c. encode_output sample_model_abi sample_adapter (replicate 32 1) (replicate 32 2) (replicate 32 3) sample_fields = Ok c) \<or>
   (\<exists>y. encode_output sample_model_abi sample_adapter (replicate 32 1) (replicate 32 2) (replicate 32 3) sample_fields = Err (NoveltyArtifact y))"
proof -
  have l: "length (replicate 32 (x :: nat)) = 32" for x by simp
  have h: "check_identities [(lit ''classification authority'', replicate 32 1), (lit ''selected effect'', replicate 32 2),
      (lit ''verification receipt'', replicate 32 3)] = Ok ()" "sample_fields \<noteq> []" "length sample_fields \<le> MAX_OUTPUT_NOVELTY_FIELDS"
    "check_fields [] sample_fields = Ok ()" "encoded_len sample_fields = Ok 208" "(208::nat) \<le> MAX_OUTPUT_NOVELTY_BYTES" by code_simp+
  from output_coding_fails_only_in_tokenizer [OF h(1) l l l h(2-6)] show ?thesis .
qed

end
