(* ===== verification/DecisionView.thy ===== *)
theory DecisionView
  imports ModelArtifacts "HOL-Library.Product_Lexorder" "HOL-Library.Multiset"
begin

text \<open>
  Decision Views and their stable prefix (\<open>tokenzero-core/src/decision_view.rs\<close>): sections made
  from token maps, capsules and pages, the ordering of commutative runs, rendering with its exact
  token geometry, and the comparison of prefixes. A client of \<open>ModelArtifacts\<close>. The lemmas show
  that a permutation of a commutative run renders the same view, that the other sections keep
  their places, and that the stable prefix is what precedes every volatile section.
\<close>

section \<open>Sections\<close>

definition MAX_DECISION_VIEW_SECTIONS :: nat where "MAX_DECISION_VIEW_SECTIONS = 1024"
definition MAX_DECISION_VIEW_BYTES :: nat where "MAX_DECISION_VIEW_BYTES = 16 * 1048576"
definition MAX_DECISION_VIEW_RECOVERY_REFS :: nat where "MAX_DECISION_VIEW_RECOVERY_REFS = 4096"
definition MAX_DECISION_VIEW_METADATA_ITEMS :: nat where "MAX_DECISION_VIEW_METADATA_ITEMS = 1024"
definition MAX_MARKER_FIELD_BYTES :: nat where "MAX_MARKER_FIELD_BYTES = 16384"
definition MAX_SURVIVAL_SCORE_BPS :: nat where "MAX_SURVIVAL_SCORE_BPS = 10000"

definition RENDERER_CONTRACT :: "byte list" where
  "RENDERER_CONTRACT = lit ''tokenzero.decision-view.renderer.v3; framing=section-kind+decimal-byte-length+lf+payload+lf; '' @
     lit ''order=commutative-score-descending-run-sorted,else-caller-preserved; '' @
     lit ''commutative=survival-score-bps-u32-max-10000-within-maximal-runs-of-same-stability-class; tie=kind+payload; '' @
     lit ''noncommutative=verbatim-caller-order; '' @
     lit ''stable=system-tool,project-capsule,task-family-capsule,typed-effect-schema; '' @
     lit ''volatile=locus-evidence,working-tree-delta,user-task,uncertainty-coverage,recovery-routes; '' @
     lit ''metadata=candidate-choices,supported-decisions,completeness-grade,baseline-escape''"

datatype DecisionViewSectionKind = StableSystemToolContract | StableProjectCapsule | StableTaskFamilyCapsule
  | StableTypedEffectSchema | VolatileLocusEvidence | VolatileWorkingTreeDelta | VolatileUserTask
  | VolatileUncertaintyCoverage | VolatileRecoveryRoutes

fun kind_str :: "DecisionViewSectionKind \<Rightarrow> rstr" where
  "kind_str StableSystemToolContract = lit ''stable_system_tool_contract''"
| "kind_str StableProjectCapsule = lit ''stable_project_capsule''"
| "kind_str StableTaskFamilyCapsule = lit ''stable_task_family_capsule''"
| "kind_str StableTypedEffectSchema = lit ''stable_typed_effect_schema''"
| "kind_str VolatileLocusEvidence = lit ''volatile_locus_evidence''"
| "kind_str VolatileWorkingTreeDelta = lit ''volatile_working_tree_delta''"
| "kind_str VolatileUserTask = lit ''volatile_user_task''"
| "kind_str VolatileUncertaintyCoverage = lit ''volatile_uncertainty_coverage''"
| "kind_str VolatileRecoveryRoutes = lit ''volatile_recovery_routes''"

definition is_stable :: "DecisionViewSectionKind \<Rightarrow> bool" where
  "is_stable k \<longleftrightarrow> k \<in> {StableSystemToolContract, StableProjectCapsule, StableTaskFamilyCapsule, StableTypedEffectSchema}"

datatype DecisionViewError = ViewArtifact ModelArtifactError | TooManySections nat nat | TooManyRecoveryRefs nat nat
  | ViewByteLimit nat nat | ViewLengthOverflow | StableSectionAfterVolatile nat
  | ViewTokenizerMismatch DecisionViewSectionKind | ToolSchemaDigestMismatch | CapsuleSourceRootMismatch
  | CapsuleModelProfileMismatch | InvalidRecoveryRef rstr | NoncanonicalRecoveryRef rstr | EmptyMarkerCode
  | MarkerFieldTooLong | EmptyChoiceId | ChoiceFieldTooLong | TooManyMetadataItems nat nat
  | SurvivalScoreOutOfRange nat nat | PrefixNotTokenAligned nat

datatype DecisionUncertaintyKind = ExactEvidence | SoundOverapproximation | PartialCoverage | Heuristic | UnknownCoverage

fun uncertainty_str :: "DecisionUncertaintyKind \<Rightarrow> rstr" where
  "uncertainty_str ExactEvidence = lit ''exact''"
| "uncertainty_str SoundOverapproximation = lit ''sound_overapproximation''"
| "uncertainty_str PartialCoverage = lit ''partial_coverage''"
| "uncertainty_str Heuristic = lit ''heuristic''"
| "uncertainty_str UnknownCoverage = lit ''unknown''"

record DecisionUncertaintyMarker =
  um_kind :: DecisionUncertaintyKind
  um_code :: rstr
  um_message :: rstr
  um_recovery_refs :: "rstr list"

record DecisionViewSection =
  sec_kind :: DecisionViewSectionKind
  sec_payload :: "byte list"
  sec_tokenizer :: "digest option"
  sec_tool_schema :: "digest option"
  sec_source_root :: "digest option"
  sec_model_profile :: "digest option"
  sec_score :: "nat option"

fun view_refs_loop :: "model_abi \<Rightarrow> rstr list \<Rightarrow> DecisionViewError + unit" where
  "view_refs_loop A [] = Ok ()"
| "view_refs_loop A (r # rs) =
     (case abi_parse_ref A r of
        Inl e \<Rightarrow> Err (InvalidRecoveryRef e)
      | Inr p \<Rightarrow> if ref_text p \<noteq> r then Err (NoncanonicalRecoveryRef r) else view_refs_loop A rs)"

definition validate_refs :: "model_abi \<Rightarrow> rstr list \<Rightarrow> DecisionViewError + unit" where
  "validate_refs A rs =
     (if MAX_DECISION_VIEW_RECOVERY_REFS < length rs then Err (TooManyRecoveryRefs (length rs) MAX_DECISION_VIEW_RECOVERY_REFS)
      else view_refs_loop A rs)"

definition new_marker ::
    "model_abi \<Rightarrow> DecisionUncertaintyKind \<Rightarrow> rstr \<Rightarrow> rstr \<Rightarrow> rstr list \<Rightarrow> DecisionViewError + DecisionUncertaintyMarker" where
  "new_marker A k code message refs =
     (if code = [] then Err EmptyMarkerCode
      else if MAX_MARKER_FIELD_BYTES < blen code \<or> MAX_MARKER_FIELD_BYTES < blen message then Err MarkerFieldTooLong
      else case validate_refs A refs of
        Inl e \<Rightarrow> Err e
      | Inr u \<Rightarrow> Ok \<lparr>um_kind = k, um_code = code, um_message = message, um_recovery_refs = refs\<rparr>)"

section \<open>Bounded writers\<close>

definition ensure_view_bound :: "nat \<Rightarrow> DecisionViewError + unit" where
  "ensure_view_bound n = (if MAX_DECISION_VIEW_BYTES < n then Err (ViewByteLimit n MAX_DECISION_VIEW_BYTES) else Ok ())"

text \<open>\<open>checked_add\<close> over several lengths.\<close>

fun checked_sum :: "nat \<Rightarrow> nat list \<Rightarrow> nat option" where
  "checked_sum n [] = Some n"
| "checked_sum n (k # ks) = (case checked_add n k of None \<Rightarrow> None | Some m \<Rightarrow> checked_sum m ks)"

definition append_parts :: "byte list \<Rightarrow> byte list list \<Rightarrow> DecisionViewError + byte list" where
  "append_parts out parts =
     (case checked_sum (length out) (map length parts) of
        None \<Rightarrow> Err ViewLengthOverflow
      | Some n \<Rightarrow> (case ensure_view_bound n of Inl e \<Rightarrow> Err e | Inr u \<Rightarrow> Ok (out @ concat parts)))"

definition append_bounded :: "byte list \<Rightarrow> byte list \<Rightarrow> DecisionViewError + byte list" where
  "append_bounded out v = append_parts out [v]"

definition put_record :: "rstr \<Rightarrow> byte list \<Rightarrow> byte list \<Rightarrow> DecisionViewError + byte list" where
  "put_record label v out = append_parts out [as_bytes (label @ lit '' '' @ show_nat (length v) @ [10]), v, [10]]"

fun write_all :: "(byte list \<Rightarrow> DecisionViewError + byte list) list \<Rightarrow> byte list \<Rightarrow> DecisionViewError + byte list" where
  "write_all [] out = Ok out"
| "write_all (f # fs) out = (case f out of Inl e \<Rightarrow> Err e | Inr out \<Rightarrow> write_all fs out)"

definition put_count :: "rstr \<Rightarrow> nat \<Rightarrow> byte list \<Rightarrow> DecisionViewError + byte list" where
  "put_count label n out = append_bounded out (as_bytes (label @ lit '' '' @ show_nat n @ [10]))"

definition put_refs :: "rstr list \<Rightarrow> byte list \<Rightarrow> DecisionViewError + byte list" where
  "put_refs rs = write_all (put_count (lit ''recovery_refs'') (length rs) # map (\<lambda>r. put_record (lit ''recovery_ref'') (as_bytes r)) rs)"

definition put_digests :: "digest list \<Rightarrow> byte list \<Rightarrow> DecisionViewError + byte list" where
  "put_digests ds =
     write_all (put_count (lit ''token_page_digests'') (length ds) # map (\<lambda>d. put_record (lit ''token_page_digest'') (as_bytes (hex d))) ds)"

section \<open>Constructors of sections\<close>

definition plain_section :: "DecisionViewSectionKind \<Rightarrow> byte list \<Rightarrow> DecisionViewSection" where
  "plain_section k bs = \<lparr>sec_kind = k, sec_payload = bs, sec_tokenizer = None, sec_tool_schema = None, sec_source_root = None,
     sec_model_profile = None, sec_score = None\<rparr>"

definition volatile_locus_evidence :: "TokenPage \<Rightarrow> DecisionViewError + DecisionViewSection" where
  "volatile_locus_evidence p =
     (case write_all [put_record (lit ''source_anchor'') (as_bytes (tp_anchor p)),
        put_record (lit ''tokenizer_identity'') (as_bytes (hex (tp_tokenizer p))),
        put_record (lit ''token_map'') (as_bytes (hex (tp_map p))),
        (\<lambda>out. Ok (out @ as_bytes (lit ''token_range '' @ show_nat (token_start p) @ lit '' '' @ show_nat (token_end p) @ [10] @
           lit ''byte_range '' @ show_nat (byte_start p) @ lit '' '' @ show_nat (byte_end p) @ [10]))),
        put_record (lit ''exact_bytes'') (expand_page p)] (lit ''TOKENZERO-LOCUS-EVIDENCE-V1'' @ [10]) of
        Inl e \<Rightarrow> Err e
      | Inr bs \<Rightarrow> Ok ((plain_section VolatileLocusEvidence bs)\<lparr>sec_tokenizer := Some (tp_tokenizer p)\<rparr>))"

definition volatile_uncertainty_coverage :: "DecisionUncertaintyMarker \<Rightarrow> DecisionViewError + DecisionViewSection" where
  "volatile_uncertainty_coverage m =
     (case write_all [(\<lambda>out. Ok (out @ as_bytes (lit ''kind '' @ uncertainty_str (um_kind m) @ [10]))),
        put_record (lit ''code'') (as_bytes (um_code m)), put_record (lit ''message'') (as_bytes (um_message m)),
        put_refs (um_recovery_refs m)] (lit ''TOKENZERO-UNCERTAINTY-MARKER-V1'' @ [10]) of
        Inl e \<Rightarrow> Err e
      | Inr bs \<Rightarrow> Ok (plain_section VolatileUncertaintyCoverage bs))"

definition volatile_recovery_routes :: "model_abi \<Rightarrow> rstr list \<Rightarrow> DecisionViewError + DecisionViewSection" where
  "volatile_recovery_routes A rs =
     (case validate_refs A rs of
        Inl e \<Rightarrow> Err e
      | Inr u \<Rightarrow>
          (case put_refs rs (lit ''TOKENZERO-RECOVERY-ROUTES-V1'' @ [10]) of
             Inl e \<Rightarrow> Err e
           | Inr bs \<Rightarrow> Ok (plain_section VolatileRecoveryRoutes bs)))"

definition section_from_map :: "DecisionViewSectionKind \<Rightarrow> ExactTokenMap \<Rightarrow> DecisionViewError + DecisionViewSection" where
  "section_from_map k m =
     (case checked_byte_len m of
        Inl e \<Rightarrow> Err (ViewArtifact e)
      | Inr n \<Rightarrow>
          if MAX_DECISION_VIEW_BYTES < n then Err (ViewByteLimit n MAX_DECISION_VIEW_BYTES)
          else Ok ((plain_section k (reconstruct m))\<lparr>sec_tokenizer := Some (tm_tokenizer m),
            sec_tool_schema := (if k = StableTypedEffectSchema then Some (tm_source m) else None)\<rparr>))"

definition section_from_capsule :: "DecisionViewSectionKind \<Rightarrow> ModelCapsule \<Rightarrow> DecisionViewError + DecisionViewSection" where
  "section_from_capsule k c =
     (case write_all [put_record (lit ''source_root'') (as_bytes (hex (mc_source_root c))),
        put_record (lit ''model_profile'') (as_bytes (hex (mc_model_profile c))),
        put_record (lit ''tokenizer_identity'') (as_bytes (hex (mc_tokenizer c))),
        put_refs (evidence_refs c), put_digests (token_page_digests c),
        put_record (lit ''rendered_capsule'') (render_capsule c)] (lit ''TOKENZERO-MODEL-CAPSULE-SECTION-V1'' @ [10]) of
        Inl e \<Rightarrow> Err e
      | Inr bs \<Rightarrow> Ok ((plain_section k bs)\<lparr>sec_tokenizer := Some (mc_tokenizer c), sec_source_root := Some (mc_source_root c),
          sec_model_profile := Some (mc_model_profile c)\<rparr>))"

definition stable_system_tool_contract :: "ExactTokenMap \<Rightarrow> DecisionViewError + DecisionViewSection" where
  "stable_system_tool_contract = section_from_map StableSystemToolContract"

definition stable_typed_effect_schema :: "ExactTokenMap \<Rightarrow> DecisionViewError + DecisionViewSection" where
  "stable_typed_effect_schema = section_from_map StableTypedEffectSchema"

definition stable_project_capsule :: "ModelCapsule \<Rightarrow> DecisionViewError + DecisionViewSection" where
  "stable_project_capsule = section_from_capsule StableProjectCapsule"

definition stable_task_family_capsule :: "ModelCapsule \<Rightarrow> DecisionViewError + DecisionViewSection" where
  "stable_task_family_capsule = section_from_capsule StableTaskFamilyCapsule"

definition volatile_working_tree_delta :: "ExactTokenMap \<Rightarrow> DecisionViewError + DecisionViewSection" where
  "volatile_working_tree_delta = section_from_map VolatileWorkingTreeDelta"

definition volatile_user_task :: "ExactTokenMap \<Rightarrow> DecisionViewError + DecisionViewSection" where
  "volatile_user_task = section_from_map VolatileUserTask"

definition with_survival_score_bps :: "DecisionViewSection \<Rightarrow> nat \<Rightarrow> DecisionViewError + DecisionViewSection" where
  "with_survival_score_bps s score =
     (if MAX_SURVIVAL_SCORE_BPS < score then Err (SurvivalScoreOutOfRange score MAX_SURVIVAL_SCORE_BPS)
      else Ok (s\<lparr>sec_score := Some score\<rparr>))"

section \<open>Identity, geometry and metadata\<close>

record DecisionViewIdentity =
  vi_source_root :: digest
  vi_model_profile :: digest
  vi_tokenizer :: digest
  vi_tool_schema :: digest
  vi_renderer :: digest

definition decision_view_renderer_contract_digest :: "model_abi \<Rightarrow> digest" where
  "decision_view_renderer_contract_digest A = abi_sha A RENDERER_CONTRACT"

definition new_view_identity :: "model_abi \<Rightarrow> digest \<Rightarrow> digest \<Rightarrow> ExactTokenizerIdentity \<Rightarrow> digest \<Rightarrow> DecisionViewIdentity" where
  "new_view_identity A source profile gauge schema =
     \<lparr>vi_source_root = source, vi_model_profile = profile, vi_tokenizer = identity_digest gauge, vi_tool_schema = schema,
      vi_renderer = decision_view_renderer_contract_digest A\<rparr>"

definition put_identity :: "DecisionViewIdentity \<Rightarrow> byte list" where
  "put_identity i = vi_source_root i @ vi_model_profile i @ vi_tokenizer i @ vi_tool_schema i @ vi_renderer i"

datatype PrefixComparison = PrefixIdentical | IdentityChanged | PrefixBytesChanged

record StablePrefixGeometry =
  sg_identity :: DecisionViewIdentity
  sg_bytes :: "byte list"
  sg_bytes_digest :: digest
  breakpoint_after_bytes :: nat
  breakpoint_after_tokens :: nat
  sg_digest :: digest

definition stable_prefix_geometry_digest :: "model_abi \<Rightarrow> DecisionViewIdentity \<Rightarrow> digest \<Rightarrow> nat \<Rightarrow> nat \<Rightarrow> byte list \<Rightarrow> digest" where
  "stable_prefix_geometry_digest A i d nbytes ntokens bs =
     abi_sha A (lit ''TOKENZERO-STABLE-PREFIX-GEOMETRY-V1'' @ put_identity i @ d @ be_bytes 8 nbytes @ be_bytes 8 ntokens @ put_bytes bs)"

definition new_geometry :: "model_abi \<Rightarrow> DecisionViewIdentity \<Rightarrow> byte list \<Rightarrow> nat \<Rightarrow> StablePrefixGeometry" where
  "new_geometry A i bs ntokens =
     \<lparr>sg_identity = i, sg_bytes = bs, sg_bytes_digest = abi_sha A bs, breakpoint_after_bytes = length bs,
      breakpoint_after_tokens = ntokens,
      sg_digest = stable_prefix_geometry_digest A i (abi_sha A bs) (length bs) ntokens bs\<rparr>"

definition compare_prefix :: "StablePrefixGeometry \<Rightarrow> StablePrefixGeometry \<Rightarrow> PrefixComparison" where
  "compare_prefix g h =
     (if sg_identity g \<noteq> sg_identity h then IdentityChanged
      else if sg_bytes g = sg_bytes h then PrefixIdentical else PrefixBytesChanged)"

record CandidateChoice =
  choice_id :: rstr
  choice_description :: rstr

definition new_choice :: "rstr \<Rightarrow> rstr \<Rightarrow> DecisionViewError + CandidateChoice" where
  "new_choice i d =
     (if i = [] then Err EmptyChoiceId
      else if MAX_MARKER_FIELD_BYTES < blen i \<or> MAX_MARKER_FIELD_BYTES < blen d then Err ChoiceFieldTooLong
      else Ok \<lparr>choice_id = i, choice_description = d\<rparr>)"

datatype CompletenessGrade = Proved | BoundedComplete | Observed | UnknownGrade

fun grade_str :: "CompletenessGrade \<Rightarrow> rstr" where
  "grade_str Proved = lit ''Proved''"
| "grade_str BoundedComplete = lit ''BoundedComplete''"
| "grade_str Observed = lit ''Observed''"
| "grade_str UnknownGrade = lit ''Unknown''"

fun grade_join :: "CompletenessGrade \<Rightarrow> CompletenessGrade \<Rightarrow> CompletenessGrade" where
  "grade_join a b =
     (if a = UnknownGrade \<or> b = UnknownGrade then UnknownGrade
      else if a = Observed \<or> b = Observed then Observed
      else if a = BoundedComplete \<or> b = BoundedComplete then BoundedComplete
      else Proved)"

record DecisionViewMetadata =
  candidate_choices :: "CandidateChoice list"
  supported_decisions :: "rstr list"
  completeness_grade :: CompletenessGrade
  baseline_escape :: bool

definition default_metadata :: DecisionViewMetadata where
  "default_metadata = \<lparr>candidate_choices = [], supported_decisions = [], completeness_grade = UnknownGrade, baseline_escape = False\<rparr>"

definition new_metadata ::
    "CandidateChoice list \<Rightarrow> rstr list \<Rightarrow> CompletenessGrade \<Rightarrow> bool \<Rightarrow> DecisionViewError + DecisionViewMetadata" where
  "new_metadata cs ds g b =
     (if MAX_DECISION_VIEW_METADATA_ITEMS < length cs \<or> MAX_DECISION_VIEW_METADATA_ITEMS < length ds
      then Err (TooManyMetadataItems (max (length cs) (length ds)) MAX_DECISION_VIEW_METADATA_ITEMS)
      else Ok \<lparr>candidate_choices = cs, supported_decisions = ds, completeness_grade = g, baseline_escape = b\<rparr>)"

definition put_choices :: "CandidateChoice list \<Rightarrow> byte list \<Rightarrow> DecisionViewError + byte list" where
  "put_choices cs =
     write_all (put_count (lit ''candidate_choices'') (length cs) #
       concat (map (\<lambda>c. [put_record (lit ''choice_id'') (as_bytes (choice_id c)),
         put_record (lit ''choice_description'') (as_bytes (choice_description c))]) cs))"

definition put_strings :: "rstr \<Rightarrow> rstr list \<Rightarrow> byte list \<Rightarrow> DecisionViewError + byte list" where
  "put_strings label vs = write_all (put_count label (length vs) # map (\<lambda>v. put_record (lit ''item'') (as_bytes v)) vs)"

definition metadata_digest :: "model_abi \<Rightarrow> DecisionViewMetadata \<Rightarrow> DecisionViewError + digest" where
  "metadata_digest A m =
     (case write_all [put_choices (candidate_choices m), put_strings (lit ''supported_decisions'') (supported_decisions m),
         (\<lambda>out. append_bounded out (as_bytes (grade_str (completeness_grade m))))] (lit ''TOKENZERO-DECISION-VIEW-METADATA-V1'') of
        Inl e \<Rightarrow> Err e
      | Inr bs \<Rightarrow> Ok (abi_sha A (bs @ [if baseline_escape m then 1 else 0])))"

section \<open>Order\<close>

text \<open>The comparison: score descending, then the name of the kind, then the payload.\<close>

definition run_key :: "DecisionViewSection \<Rightarrow> int \<times> rstr \<times> byte list" where
  "run_key s = (- int (case sec_score s of None \<Rightarrow> 0 | Some n \<Rightarrow> n), kind_str (sec_kind s), sec_payload s)"

definition in_run :: "bool \<Rightarrow> DecisionViewSection \<Rightarrow> bool" where
  "in_run c s \<longleftrightarrow> sec_score s \<noteq> None \<and> is_stable (sec_kind s) = c"

function sort_commutative_runs :: "DecisionViewSection list \<Rightarrow> DecisionViewSection list" where
  "sort_commutative_runs [] = []"
| "sort_commutative_runs (s # ss) =
     (if sec_score s = None then s # sort_commutative_runs ss
      else let c = is_stable (sec_kind s) in
        sort_key run_key (s # takeWhile (in_run c) ss) @ sort_commutative_runs (dropWhile (in_run c) ss))"
  by pat_completeness auto
termination by (relation "measure length") (auto simp: less_Suc_eq_le length_dropWhile_le)

section \<open>Rendering\<close>

fun stable_first :: "bool \<Rightarrow> nat \<Rightarrow> DecisionViewSection list \<Rightarrow> DecisionViewError + unit" where
  "stable_first saw i [] = Ok ()"
| "stable_first saw i (s # ss) =
     (if is_stable (sec_kind s) then if saw then Err (StableSectionAfterVolatile i) else stable_first saw (i + 1) ss
      else stable_first True (i + 1) ss)"

definition append_section :: "byte list \<Rightarrow> DecisionViewSection \<Rightarrow> DecisionViewError + byte list" where
  "append_section out s =
     append_parts out [as_bytes (lit ''section '' @ kind_str (sec_kind s) @ lit '' '' @ show_nat (length (sec_payload s)) @ [10]),
       sec_payload s, [10]]"

definition differs :: "digest option \<Rightarrow> digest \<Rightarrow> bool" where
  "differs d e \<longleftrightarrow> d \<noteq> None \<and> d \<noteq> Some e"

definition check_section :: "DecisionViewIdentity \<Rightarrow> DecisionViewSection \<Rightarrow> DecisionViewError + unit" where
  "check_section i s =
     (if differs (sec_tokenizer s) (vi_tokenizer i) then Err (ViewTokenizerMismatch (sec_kind s))
      else if differs (sec_tool_schema s) (vi_tool_schema i) then Err ToolSchemaDigestMismatch
      else if differs (sec_source_root s) (vi_source_root i) then Err CapsuleSourceRootMismatch
      else if differs (sec_model_profile s) (vi_model_profile i) then Err CapsuleModelProfileMismatch else Ok ())"

fun render_loop ::
    "DecisionViewIdentity \<Rightarrow> byte list \<Rightarrow> nat \<Rightarrow> DecisionViewSection list \<Rightarrow> DecisionViewError + (byte list \<times> nat)" where
  "render_loop i out boundary [] = Ok (out, boundary)"
| "render_loop i out boundary (s # ss) =
     (case check_section i s of
        Inl e \<Rightarrow> Err e
      | Inr u \<Rightarrow>
          (case append_section out s of
             Inl e \<Rightarrow> Err e
           | Inr out \<Rightarrow>
               let boundary = (if is_stable (sec_kind s) then length out else boundary) in
               if MAX_DECISION_VIEW_BYTES < length out then Err (ViewByteLimit (length out) MAX_DECISION_VIEW_BYTES)
               else render_loop i out boundary ss))"

record DecisionView =
  dv_identity :: DecisionViewIdentity
  dv_section_kinds :: "DecisionViewSectionKind list"
  dv_rendered :: "byte list"
  dv_token_map :: digest
  dv_total_tokens :: nat
  dv_volatile_bytes :: nat
  dv_volatile_tokens :: nat
  dv_stable_prefix :: StablePrefixGeometry
  dv_metadata :: DecisionViewMetadata
  dv_digest :: digest

definition put_section_id :: "DecisionViewSection \<Rightarrow> byte list" where
  "put_section_id s = put_string (kind_str (sec_kind s)) @ [if sec_score s = None then 0 else 1] @
     be_bytes 4 (case sec_score s of None \<Rightarrow> 0 | Some n \<Rightarrow> n)"

definition decision_view_digest ::
    "model_abi \<Rightarrow> digest \<Rightarrow> digest \<Rightarrow> DecisionViewSection list \<Rightarrow> nat \<Rightarrow> nat \<Rightarrow> byte list \<Rightarrow> digest \<Rightarrow> digest" where
  "decision_view_digest A g m ss total_toks volatile_toks rendered meta =
     abi_sha A (lit ''TOKENZERO-DECISION-VIEW-IDENTITY-V1'' @ g @ m @ put_counted put_section_id ss @ be_bytes 8 total_toks @
       be_bytes 8 volatile_toks @ put_bytes rendered @ meta)"

definition VIEW_HEAD :: "byte list" where "VIEW_HEAD = lit ''TOKENZERO-DECISION-VIEW-V1'' @ [10]"

fun prefix_error :: "ModelArtifactError \<Rightarrow> DecisionViewError" where
  "prefix_error (TokenBoundaryRequired n) = PrefixNotTokenAligned n"
| "prefix_error e = ViewArtifact e"

definition finish_view ::
    "model_abi \<Rightarrow> tokenizer_adapter \<Rightarrow> DecisionViewIdentity \<Rightarrow> DecisionViewSection list \<Rightarrow> DecisionViewMetadata \<Rightarrow>
     byte list \<Rightarrow> nat \<Rightarrow> DecisionViewError + DecisionView" where
  "finish_view A T i ordered meta rendered boundary =
     (case tokenize A T rendered of
        Inl e \<Rightarrow> Err (ViewArtifact e)
      | Inr m \<Rightarrow>
     (case token_range_for_bytes m 0 boundary of
        Inl e \<Rightarrow> Err (prefix_error e)
      | Inr (_, breakpoint) \<Rightarrow>
     (case checked_sub (token_count m) breakpoint of
        None \<Rightarrow> Err ViewLengthOverflow
      | Some volatile_toks \<Rightarrow>
          let g = new_geometry A i (take boundary rendered) breakpoint in
          (case metadata_digest A meta of
             Inl e \<Rightarrow> Err e
           | Inr md \<Rightarrow>
               Ok \<lparr>dv_identity = i, dv_section_kinds = map sec_kind ordered, dv_rendered = rendered, dv_token_map = tm_digest m,
                   dv_total_tokens = token_count m, dv_volatile_bytes = length rendered - boundary,
                   dv_volatile_tokens = volatile_toks, dv_stable_prefix = g, dv_metadata = meta,
                   dv_digest = decision_view_digest A (sg_digest g) (tm_digest m) ordered (token_count m) volatile_toks rendered md\<rparr>))))"

definition render_with_metadata ::
    "model_abi \<Rightarrow> tokenizer_adapter \<Rightarrow> DecisionViewIdentity \<Rightarrow> DecisionViewSection list \<Rightarrow> DecisionViewMetadata \<Rightarrow>
     DecisionViewError + DecisionView" where
  "render_with_metadata A T i ss meta =
     (if MAX_DECISION_VIEW_SECTIONS < length ss then Err (TooManySections (length ss) MAX_DECISION_VIEW_SECTIONS)
      else if identity_digest (adapter_identity T) \<noteq> vi_tokenizer i then Err (ViewTokenizerMismatch StableSystemToolContract)
      else case stable_first False 0 ss of
        Inl e \<Rightarrow> Err e
      | Inr u \<Rightarrow>
          (let ordered = sort_commutative_runs ss in
           case render_loop i VIEW_HEAD (length VIEW_HEAD) ordered of
             Inl e \<Rightarrow> Err e
           | Inr (rendered, boundary) \<Rightarrow> finish_view A T i ordered meta rendered boundary))"

definition render_view ::
    "model_abi \<Rightarrow> tokenizer_adapter \<Rightarrow> DecisionViewIdentity \<Rightarrow> DecisionViewSection list \<Rightarrow> DecisionViewError + DecisionView" where
  "render_view A T i ss = render_with_metadata A T i ss default_metadata"

section \<open>What a view shows of a section\<close>

definition view_of :: "DecisionViewSection \<Rightarrow> DecisionViewSectionKind \<times> nat option \<times> byte list" where
  "view_of s = (sec_kind s, sec_score s, sec_payload s)"

definition ALL_KINDS :: "DecisionViewSectionKind list" where
  "ALL_KINDS = [StableSystemToolContract, StableProjectCapsule, StableTaskFamilyCapsule, StableTypedEffectSchema, VolatileLocusEvidence,
     VolatileWorkingTreeDelta, VolatileUserTask, VolatileUncertaintyCoverage, VolatileRecoveryRoutes]"

lemma kind_str_inj: "kind_str k = kind_str l \<Longrightarrow> k = l"
proof -
  have "distinct (map kind_str ALL_KINDS)" by code_simp
  then have "inj_on kind_str (set ALL_KINDS)" by (simp only: distinct_map)
  moreover have "x \<in> set ALL_KINDS" for x by (cases x) (simp_all add: ALL_KINDS_def)
  ultimately show "kind_str k = kind_str l \<Longrightarrow> k = l" by (meson inj_onD)
qed

lemma run_key_view: "in_run c s \<Longrightarrow> in_run d t \<Longrightarrow> run_key s = run_key t \<Longrightarrow> view_of s = view_of t"
  using kind_str_inj [of "sec_kind s" "sec_kind t"] by (auto simp: in_run_def run_key_def view_of_def simp del: kind_str.simps)

lemma runs_view:
  "map run_key xs = map run_key ys \<Longrightarrow> list_all (in_run c) xs \<Longrightarrow> list_all (in_run c) ys \<Longrightarrow> map view_of xs = map view_of ys"
proof (induction xs arbitrary: ys)
  case (Cons x xs)
  then obtain y ys' where y: "ys = y # ys'" "run_key x = run_key y" "map run_key xs = map run_key ys'" by (cases ys) auto
  moreover have "view_of x = view_of y" using Cons.prems(2,3) y(1,2) by (intro run_key_view [of c x c y]) simp_all
  ultimately show ?case using Cons.IH [of ys'] Cons.prems(2,3) by simp
qed simp

lemma sort_run_view:
  assumes "list_all (in_run c) xs" "mset ys = mset xs"
  shows "map view_of (sort_key run_key xs) = map view_of (sort_key run_key ys)"
proof (rule runs_view)
  have "set ys = set xs" using assms(2) by (metis set_mset_mset)
  then show "list_all (in_run c) (sort_key run_key xs)" "list_all (in_run c) (sort_key run_key ys)"
    using assms(1) by (simp_all add: list_all_iff)
  have "mset (map run_key (sort_key run_key xs)) = mset (map run_key (sort_key run_key ys))" using assms(2) by simp
  then show "map run_key (sort_key run_key xs) = map run_key (sort_key run_key ys)"
    using properties_for_sort [OF _ sorted_sort_key [of run_key xs]] properties_for_sort [OF _ sorted_sort_key [of run_key ys]] by metis
qed

lemma mset_sort_runs [simp]: "mset (sort_commutative_runs ss) = mset ss"
proof (induction ss rule: sort_commutative_runs.induct)
  case (2 s ss)
  have "mset (takeWhile P ss) + mset (dropWhile P ss) = mset ss" for P by (metis mset_append takeWhile_dropWhile_id)
  with 2 show ?case by (auto simp: Let_def)
qed simp

lemma set_sort_runs [simp]: "set (sort_commutative_runs ss) = set ss"
  by (metis mset_sort_runs set_mset_mset)

lemma sort_runs_run:
  assumes "list_all (in_run c) run" "run \<noteq> []"
  shows "sort_commutative_runs (run @ post) =
    sort_key run_key (run @ takeWhile (in_run c) post) @ sort_commutative_runs (dropWhile (in_run c) post)"
proof -
  obtain r rs where r: "run = r # rs" using assms(2) by (cases run) auto
  then obtain n where "sec_score r = Some n" "is_stable (sec_kind r) = c" "\<forall>x\<in>set rs. in_run c x"
    using assms(1) by (auto simp: in_run_def list_all_iff)
  then show ?thesis using r by (simp add: Let_def takeWhile_append2 dropWhile_append2)
qed

lemma run_permuted_here:
  assumes "list_all (in_run c) run" "mset run' = mset run"
  shows "map view_of (sort_commutative_runs (run @ post)) = map view_of (sort_commutative_runs (run' @ post))"
proof (cases "run = []")
  case False
  then have ne: "run' \<noteq> []" using assms(2) by auto
  have all': "list_all (in_run c) run'" using assms by (metis list_all_iff set_mset_mset)
  have t: "list_all (in_run c) (run @ takeWhile (in_run c) post)"
    using assms(1) by (auto simp: list_all_iff dest: set_takeWhileD)
  have "mset (run' @ takeWhile (in_run c) post) = mset (run @ takeWhile (in_run c) post)" using assms(2) by simp
  from sort_run_view [OF t this] show ?thesis
    by (simp add: sort_runs_run [OF assms(1) False] sort_runs_run [OF all' ne])
qed (use assms in simp)

lemma run_permuted:
  assumes "list_all (in_run c) run" "mset run' = mset run"
  shows "map view_of (sort_commutative_runs (pre @ run @ post)) = map view_of (sort_commutative_runs (pre @ run' @ post))"
proof (induction "length pre" arbitrary: pre rule: less_induct)
  case less
  show ?case
  proof (cases pre)
    case Nil
    then show ?thesis using run_permuted_here [OF assms] by simp
  next
    case (Cons s p)
    show ?thesis
    proof (cases "sec_score s = None")
      case True
      then show ?thesis using less [of p] Cons by simp
    next
      case False
      define d where "d = is_stable (sec_kind s)"
      have s: "in_run d s" using False by (simp add: in_run_def d_def)
      have step: "sort_commutative_runs (pre @ ys) = sort_key run_key (s # takeWhile (in_run d) (p @ ys)) @
          sort_commutative_runs (dropWhile (in_run d) (p @ ys))" for ys
        using False Cons by (auto simp: Let_def d_def)
      have all': "list_all (in_run c) run'" using assms by (metis list_all_iff set_mset_mset)
      consider (inside) "list_all (in_run d) p" "c = d \<or> run = []" | (other) "list_all (in_run d) p" "c \<noteq> d" "run \<noteq> []"
        | (later) "\<not> list_all (in_run d) p" by blast
      then show ?thesis
      proof cases
        case inside
        have "list_all (in_run d) (s # p @ run)" using inside assms(1) s by auto
        moreover have "mset (s # p @ run') = mset (s # p @ run)" using assms(2) by simp
        ultimately show ?thesis using run_permuted_here [of d "s # p @ run" "s # p @ run'" post] Cons by simp
      next
        case other
        have no: "takeWhile (in_run d) (ys @ post) = [] \<and> dropWhile (in_run d) (ys @ post) = ys @ post"
          if "list_all (in_run c) ys" "ys \<noteq> []" for ys
          using that other(2) by (cases ys) (auto simp: in_run_def)
        have "\<forall>x\<in>set p. in_run d x" using other(1) by (simp add: list_all_iff)
        moreover have "run' \<noteq> []" using assms(2) other(3) by auto
        ultimately show ?thesis using no [OF assms(1) other(3)] no [OF all'] run_permuted_here [OF assms]
          by (simp add: step takeWhile_append2 dropWhile_append2)
      next
        case later
        then obtain x where "x \<in> set p" "\<not> in_run d x" by (auto simp: list_all_iff)
        then have w: "takeWhile (in_run d) (p @ ys) = takeWhile (in_run d) p" "dropWhile (in_run d) (p @ ys) = dropWhile (in_run d) p @ ys" for ys
          by (simp_all add: takeWhile_append1 dropWhile_append1)
        have "length (dropWhile (in_run d) p) < length pre" using Cons length_dropWhile_le [of "in_run d" p] by simp
        from less [OF this] show ?thesis by (simp add: step w)
      qed
    qed
  qed
qed

section \<open>Rendering looks at the view of a section only\<close>

lemma view_of_eq: "view_of s = view_of t \<longleftrightarrow> sec_kind s = sec_kind t \<and> sec_score s = sec_score t \<and> sec_payload s = sec_payload t"
  by (simp add: view_of_def)

lemma append_section_cong: "view_of s = view_of t \<Longrightarrow> append_section out s = append_section out t"
  by (simp add: view_of_eq append_section_def)

lemma render_loop_cong:
  "map view_of ss = map view_of ts \<Longrightarrow> \<forall>t\<in>set ts. check_section i t = Ok () \<Longrightarrow> render_loop i out b ss = Ok res \<Longrightarrow>
     render_loop i out b ts = Ok res"
proof (induction ss arbitrary: ts out b)
  case (Cons s ss)
  then obtain t ts' where t: "ts = t # ts'" "view_of s = view_of t" "map view_of ss = map view_of ts'" by (cases ts) auto
  have a: "append_section out s = append_section out t" "is_stable (sec_kind s) = is_stable (sec_kind t)"
    using append_section_cong [OF t(2)] t(2) by (simp_all add: view_of_eq)
  show ?case using Cons.prems(2,3) Cons.IH [OF t(3)] t(1) a by (auto simp: Let_def split: sum.splits if_splits)
qed simp

lemma render_loop_checks: "render_loop i out b ss = Ok res \<Longrightarrow> \<forall>s\<in>set ss. check_section i s = Ok ()"
  by (induction i out b ss rule: render_loop.induct) (auto simp: Let_def split: sum.splits if_splits)

lemma map_view_cong:
  assumes "map view_of ss = map view_of ts" "\<And>s t. view_of s = view_of t \<Longrightarrow> f s = f t"
  shows "map f ss = map f ts"
proof (rule nth_equalityI)
  show len: "length (map f ss) = length (map f ts)" using map_eq_imp_length_eq [OF assms(1)] by simp
  fix n assume n: "n < length (map f ss)"
  then have "view_of (ss ! n) = view_of (ts ! n)" using arg_cong [OF assms(1), of "\<lambda>xs. xs ! n"] len by simp
  from assms(2) [OF this] n len show "map f ss ! n = map f ts ! n" by simp
qed

lemma finish_view_cong:
  assumes "map view_of ss = map view_of ts"
  shows "finish_view A T i ss meta rendered b = finish_view A T i ts meta rendered b"
proof -
  have "map sec_kind ss = map sec_kind ts" using assms by (rule map_view_cong) (simp add: view_of_eq)
  moreover have "map put_section_id ss = map put_section_id ts" using assms by (rule map_view_cong) (simp add: view_of_eq put_section_id_def)
  moreover have "length ss = length ts" using assms by (rule map_eq_imp_length_eq)
  ultimately have "map sec_kind ss = map sec_kind ts" "decision_view_digest A g m ss = decision_view_digest A g m ts" for g m
    by (simp_all add: fun_eq_iff decision_view_digest_def put_counted_def)
  then show ?thesis unfolding finish_view_def by (simp only:)
qed

lemma stable_first_cong:
  "map (is_stable \<circ> sec_kind) ss = map (is_stable \<circ> sec_kind) ts \<Longrightarrow> stable_first saw n ss = stable_first saw n ts"
proof (induction ss arbitrary: ts saw n)
  case (Cons s ss)
  then show ?case by (cases ts) auto
qed simp

text \<open>C24: The order in which the caller gives a run of commutative sections does not matter: when a view
  renders, every permutation of a run of scored sections of one stability class renders the same
  view, with the same bytes, geometry and digests.\<close>

theorem commutative_run_invariance:
  assumes "render_with_metadata A T i (pre @ run @ post) meta = Ok v" and "mset run' = mset run"
    and "list_all (\<lambda>s. sec_score s \<noteq> None \<and> is_stable (sec_kind s) = c) run"
  shows "render_with_metadata A T i (pre @ run' @ post) meta = Ok v"
proof -
  have run: "list_all (in_run c) run" using assms(3) by (simp add: list_all_iff in_run_def)
  have sets: "set run' = set run" and len: "length run' = length run" using assms(2) by (metis set_mset_mset, metis size_mset)
  let ?ss = "pre @ run @ post" and ?ts = "pre @ run' @ post"
  from assms(1) obtain rendered b where h: "length ?ss \<le> MAX_DECISION_VIEW_SECTIONS" "identity_digest (adapter_identity T) = vi_tokenizer i"
    "stable_first False 0 ?ss = Ok ()" "render_loop i VIEW_HEAD (length VIEW_HEAD) (sort_commutative_runs ?ss) = Ok (rendered, b)"
    "finish_view A T i (sort_commutative_runs ?ss) meta rendered b = Ok v"
    by (auto simp: render_with_metadata_def Let_def split: sum.splits if_splits)
  have views: "map view_of (sort_commutative_runs ?ss) = map view_of (sort_commutative_runs ?ts)" by (rule run_permuted [OF run assms(2)])
  have "\<forall>t\<in>set (sort_commutative_runs ?ts). check_section i t = Ok ()" using render_loop_checks [OF h(4)] sets by simp
  from render_loop_cong [OF views this h(4)] have r: "render_loop i VIEW_HEAD (length VIEW_HEAD) (sort_commutative_runs ?ts) = Ok (rendered, b)" .
  have "map (is_stable \<circ> sec_kind) run = replicate (length run) c" "map (is_stable \<circ> sec_kind) run' = replicate (length run) c"
    using run sets len by (auto simp: map_replicate_const in_run_def list_all_iff intro!: replicate_eqI)
  then have "map (is_stable \<circ> sec_kind) ?ss = map (is_stable \<circ> sec_kind) ?ts" by simp
  from stable_first_cong [OF this] h(3) have "stable_first False 0 ?ts = Ok ()" by simp
  then show ?thesis using h(1,2,5) r len finish_view_cong [OF views] by (simp add: render_with_metadata_def Let_def)
qed

section \<open>The others keep their places\<close>

lemma length_sort_runs [simp]: "length (sort_commutative_runs ss) = length ss"
  by (metis mset_sort_runs size_mset)

lemma sort_runs_fixed:
  "n < length ss \<Longrightarrow> (sec_score (ss ! n) = None \<longrightarrow> sort_commutative_runs ss ! n = ss ! n) \<and>
     is_stable (sec_kind (sort_commutative_runs ss ! n)) = is_stable (sec_kind (ss ! n))"
proof (induction ss arbitrary: n rule: sort_commutative_runs.induct)
  case (2 s ss)
  show ?case
  proof (cases "sec_score s")
    case None
    with 2 show ?thesis by (cases n) auto
  next
    case (Some k)
    define c where "c = is_stable (sec_kind s)"
    define run where "run = s # takeWhile (in_run c) ss"
    have e: "sort_commutative_runs (s # ss) = sort_key run_key run @ sort_commutative_runs (dropWhile (in_run c) ss)"
      "s # ss = run @ dropWhile (in_run c) ss" using Some by (simp_all add: c_def run_def Let_def)
    have run: "list_all (in_run c) run" using Some by (auto simp: run_def in_run_def c_def list_all_iff dest: set_takeWhileD)
    show ?thesis
    proof (cases "n < length run")
      case True
      have "(s # ss) ! n = run ! n" using True by (subst e(2)) (simp only: nth_append if_True)
      then have "(s # ss) ! n \<in> set run" using True by simp
      moreover have "sort_commutative_runs (s # ss) ! n = sort_key run_key run ! n"
        using True by (subst e(1)) (simp only: nth_append length_sort if_True)
      then have "sort_commutative_runs (s # ss) ! n \<in> set run" using True nth_mem [of n "sort_key run_key run"] by simp
      ultimately have "(s # ss) ! n \<in> set run" "sort_commutative_runs (s # ss) ! n \<in> set run" by blast+
      then show ?thesis using run by (auto simp: list_all_iff in_run_def)
    next
      case False
      have "length (s # ss) = length run + length (dropWhile (in_run c) ss)" by (subst e(2)) (rule length_append)
      then have "n - length run < length (dropWhile (in_run c) ss)" using 2(3) False by simp
      moreover have "(s # ss) ! n = dropWhile (in_run c) ss ! (n - length run)"
        using False by (subst e(2)) (simp only: nth_append if_False)
      moreover have "sort_commutative_runs (s # ss) ! n = sort_commutative_runs (dropWhile (in_run c) ss) ! (n - length run)"
        using False by (subst e(1)) (simp only: nth_append length_sort if_False)
      ultimately show ?thesis using 2(2) [OF _ c_def, of "n - length run"] Some by simp
    qed
  qed
qed simp

text \<open>Ordering is a permutation that keeps the meaning: unscored sections stay exactly where the caller
  put them, and every place keeps its stability class, so stable sections still come first.\<close>

theorem order_keeps_semantic_sections:
  assumes "n < length ss"
  shows "(sec_score (ss ! n) = None \<longrightarrow> sort_commutative_runs ss ! n = ss ! n) \<and>
    is_stable (sec_kind (sort_commutative_runs ss ! n)) = is_stable (sec_kind (ss ! n)) \<and>
    mset (sort_commutative_runs ss) = mset ss"
  using sort_runs_fixed [OF assms] by simp

section \<open>The stable prefix\<close>

definition section_frame :: "DecisionViewSection \<Rightarrow> byte list" where
  "section_frame s = as_bytes (lit ''section '' @ kind_str (sec_kind s) @ lit '' '' @ show_nat (length (sec_payload s)) @ [10]) @
     sec_payload s @ [10]"

abbreviation stable_section :: "DecisionViewSection \<Rightarrow> bool" where
  "stable_section s \<equiv> is_stable (sec_kind s)"

lemma checked_sum_Some: "checked_sum n ks = Some m \<Longrightarrow> m = n + sum_list ks"
  by (induction n ks rule: checked_sum.induct) (auto simp: checked_add_def split: if_splits)

lemma append_parts_Ok: "append_parts out ps = Ok out' \<Longrightarrow> out' = out @ concat ps \<and> length out' \<le> MAX_DECISION_VIEW_BYTES"
  using checked_sum_Some [of "length out" "map length ps"]
  by (auto simp: append_parts_def ensure_view_bound_def length_concat split: option.splits if_splits)

lemma append_section_Ok:
  "append_section out s = Ok out' \<Longrightarrow> out' = out @ section_frame s \<and> length out' \<le> MAX_DECISION_VIEW_BYTES"
  using append_parts_Ok unfolding append_section_def section_frame_def by fastforce

lemma render_loop_Ok:
  "render_loop i out b ss = Ok (r, b') \<Longrightarrow> r = out @ concat (map section_frame ss) \<and>
     (length out \<le> MAX_DECISION_VIEW_BYTES \<longrightarrow> length r \<le> MAX_DECISION_VIEW_BYTES) \<and>
     (list_all (\<lambda>s. \<not> stable_section s) ss \<longrightarrow> b' = b)"
proof (induction i out b ss rule: render_loop.induct)
  case (2 i out b s ss)
  from 2(2) obtain out1 where a: "check_section i s = Ok ()" "append_section out s = Ok out1" "length out1 \<le> MAX_DECISION_VIEW_BYTES"
    "render_loop i out1 (if stable_section s then length out1 else b) ss = Ok (r, b')"
    by (auto simp: Let_def split: sum.splits if_splits)
  note c = append_section_Ok [OF a(2)]
  have n: "\<not> MAX_DECISION_VIEW_BYTES < length out1" using a(3) by simp
  from 2(1) [OF a(1,2) refl n a(4)] c show ?case by auto
qed simp

lemma render_loop_boundary:
  "render_loop i out (length out) (st @ vo) = Ok (r, b) \<Longrightarrow> list_all stable_section st \<Longrightarrow> list_all (\<lambda>s. \<not> stable_section s) vo \<Longrightarrow>
     b = length (out @ concat (map section_frame st))"
proof (induction st arbitrary: out)
  case Nil
  then show ?case using render_loop_Ok by fastforce
next
  case (Cons s st)
  from Cons.prems(1,2) obtain out1 where a: "append_section out s = Ok out1" "render_loop i out1 (length out1) (st @ vo) = Ok (r, b)"
    by (auto simp: Let_def split: sum.splits if_splits)
  with Cons.IH [OF a(2)] Cons.prems(2,3) append_section_Ok [OF a(1)] show ?case by simp
qed

lemma stable_first_iff:
  "stable_first True n ss = Ok () \<longleftrightarrow> list_all (\<lambda>s. \<not> stable_section s) ss"
  "stable_first False n ss = Ok () \<longleftrightarrow> list_all (\<lambda>s. \<not> stable_section s) (dropWhile stable_section ss)"
proof -
  show t: "stable_first True n ss = Ok () \<longleftrightarrow> list_all (\<lambda>s. \<not> stable_section s) ss" for n ss
    by (induction ss arbitrary: n) auto
  show "stable_first False n ss = Ok () \<longleftrightarrow> list_all (\<lambda>s. \<not> stable_section s) (dropWhile stable_section ss)"
    by (induction ss arbitrary: n) (auto simp: t)
qed

lemma filter_takeWhile:
  "list_all (\<lambda>s. \<not> P s) (dropWhile P ss) \<Longrightarrow> filter P ss = takeWhile P ss \<and> filter (\<lambda>s. \<not> P s) ss = dropWhile P ss"
proof -
  assume d: "list_all (\<lambda>s. \<not> P s) (dropWhile P ss)"
  have t: "list_all P (takeWhile P ss)" by (auto simp: list_all_iff dest: set_takeWhileD)
  have "filter Q ss = filter Q (takeWhile P ss) @ filter Q (dropWhile P ss)" for Q by (metis filter_append takeWhile_dropWhile_id)
  from this [of P] this [of "\<lambda>s. \<not> P s"] d t show ?thesis by (simp add: list_all_iff)
qed

lemma boundary_loop_sound:
  "boundary_loop offset n c ts = Ok k \<Longrightarrow> \<exists>j\<le>length ts. k = n + j \<and> c + plen (take j ts) = offset"
proof (induction offset n c ts rule: boundary_loop.induct)
  case (2 offset n c t ts)
  show ?case
  proof (cases "c + length (piece_bytes t) = offset")
    case True
    with 2(2) show ?thesis by (intro exI [of _ 1]) (auto simp: checked_add_def split: if_splits)
  next
    case False
    with 2(2) have a: "checked_add c (length (piece_bytes t)) = Some (c + length (piece_bytes t))" "\<not> offset < c + length (piece_bytes t)"
      "boundary_loop offset (n + 1) (c + length (piece_bytes t)) ts = Ok k" by (auto simp: checked_add_def split: if_splits)
    from 2(1) [OF a(1) False a(2,3)] obtain j where "j \<le> length ts" "k = n + 1 + j" "c + length (piece_bytes t) + plen (take j ts) = offset"
      by blast
    then show ?thesis by (intro exI [of _ "Suc j"]) simp
  qed
qed simp

lemma token_boundary_sound:
  assumes "exact_map m source" "token_boundary m n = Ok k"
  shows "k \<le> token_count m \<and> concat (map piece_bytes (take k (tm_tokens m))) = take n source"
proof -
  have k: "k \<le> length (tm_tokens m) \<and> plen (take k (tm_tokens m)) = n"
    using assms(2) boundary_loop_sound [of n 0 0 "tm_tokens m" k] by (auto simp: token_boundary_def split: if_splits)
  have "source = concat (map piece_bytes (take k (tm_tokens m))) @ concat (map piece_bytes (drop k (tm_tokens m)))"
    using assms(1) by (simp add: exact_map_def reconstruct_def flip: concat_append map_append)
  then have "take n source = concat (map piece_bytes (take k (tm_tokens m)))" using k plen_def by (metis append_eq_conv_conj)
  with k show ?thesis by (simp add: token_count_def)
qed

lemma finish_view_Ok:
  assumes "finish_view A T i ordered meta rendered b = Ok v"
  obtains m k where "tokenize A T rendered = Ok m" "token_boundary m b = Ok k" "dv_identity v = i" "dv_section_kinds v = map sec_kind ordered"
    "dv_rendered v = rendered" "dv_total_tokens v = token_count m" "dv_volatile_tokens v = token_count m - k"
    "dv_stable_prefix v = new_geometry A i (take b rendered) k" "dv_volatile_bytes v = length rendered - b"
proof -
  from assms obtain m a k where h: "tokenize A T rendered = Ok m" "token_range_for_bytes m 0 b = Ok (a, k)"
    "dv_identity v = i" "dv_section_kinds v = map sec_kind ordered" "dv_rendered v = rendered" "dv_total_tokens v = token_count m"
    "dv_volatile_tokens v = token_count m - k" "dv_stable_prefix v = new_geometry A i (take b rendered) k"
    "dv_volatile_bytes v = length rendered - b"
    by (auto simp: finish_view_def checked_sub_def Let_def split: sum.splits option.splits if_splits)
  moreover have "token_boundary m b = Ok k" using h(2) by (auto simp: token_range_for_bytes_def split: sum.splits if_splits)
  ultimately show thesis using that by blast
qed

lemma render_Ok:
  assumes "render_with_metadata A T i ss meta = Ok v"
  obtains b where "stable_first False 0 ss = Ok ()"
    "render_loop i VIEW_HEAD (length VIEW_HEAD) (sort_commutative_runs ss) = Ok (dv_rendered v, b)"
    "finish_view A T i (sort_commutative_runs ss) meta (dv_rendered v) b = Ok v"
proof -
  from assms obtain rendered b where h: "stable_first False 0 ss = Ok ()"
    "render_loop i VIEW_HEAD (length VIEW_HEAD) (sort_commutative_runs ss) = Ok (rendered, b)"
    "finish_view A T i (sort_commutative_runs ss) meta rendered b = Ok v"
    by (auto simp: render_with_metadata_def Let_def split: sum.splits if_splits)
  moreover have "dv_rendered v = rendered" using h(3) by (rule finish_view_Ok)
  ultimately show thesis using that by simp
qed

lemma stable_first_sorted: "stable_first False 0 ss = Ok () \<Longrightarrow> stable_first False 0 (sort_commutative_runs ss) = Ok ()"
proof -
  have "map (is_stable \<circ> sec_kind) (sort_commutative_runs ss) = map (is_stable \<circ> sec_kind) ss"
    by (rule nth_equalityI) (simp_all add: sort_runs_fixed)
  then show "stable_first False 0 ss = Ok () \<Longrightarrow> ?thesis" using stable_first_cong by metis
qed

lemma view_geometry:
  assumes "render_with_metadata A T i ss meta = Ok v"
  shows "let ordered = sort_commutative_runs ss; g = dv_stable_prefix v in
    sg_bytes g = VIEW_HEAD @ concat (map section_frame (filter stable_section ordered)) \<and>
    dv_rendered v = sg_bytes g @ concat (map section_frame (filter (\<lambda>s. \<not> stable_section s) ordered)) \<and>
    breakpoint_after_bytes g = length (sg_bytes g) \<and> dv_volatile_bytes v = length (dv_rendered v) - breakpoint_after_bytes g \<and>
    length (dv_rendered v) \<le> MAX_DECISION_VIEW_BYTES \<and> breakpoint_after_tokens g + dv_volatile_tokens v = dv_total_tokens v \<and>
    (\<exists>m. tokenize A T (dv_rendered v) = Ok m \<and> token_count m = dv_total_tokens v \<and>
       concat (map piece_bytes (take (breakpoint_after_tokens g) (tm_tokens m))) = sg_bytes g)"
proof -
  let ?o = "sort_commutative_runs ss"
  obtain b where h: "stable_first False 0 ss = Ok ()" "render_loop i VIEW_HEAD (length VIEW_HEAD) ?o = Ok (dv_rendered v, b)"
    "finish_view A T i ?o meta (dv_rendered v) b = Ok v" using render_Ok [OF assms] by blast
  obtain m k where f: "tokenize A T (dv_rendered v) = Ok m" "token_boundary m b = Ok k" "dv_total_tokens v = token_count m"
    "dv_volatile_tokens v = token_count m - k" "dv_stable_prefix v = new_geometry A i (take b (dv_rendered v)) k"
    "dv_volatile_bytes v = length (dv_rendered v) - b" using finish_view_Ok [OF h(3)] by metis
  have d: "list_all (\<lambda>s. \<not> stable_section s) (dropWhile stable_section ?o)"
    using stable_first_sorted [OF h(1)] stable_first_iff(2) by blast
  note w = filter_takeWhile [OF d]
  have t: "list_all stable_section (takeWhile stable_section ?o)" by (auto simp: list_all_iff dest: set_takeWhileD)
  have "render_loop i VIEW_HEAD (length VIEW_HEAD) (takeWhile stable_section ?o @ dropWhile stable_section ?o) = Ok (dv_rendered v, b)"
    using h(2) by simp
  from render_loop_boundary [OF this t d] w have b: "b = length (VIEW_HEAD @ concat (map section_frame (filter stable_section ?o)))" by simp
  have "length VIEW_HEAD \<le> MAX_DECISION_VIEW_BYTES" by code_simp
  with render_loop_Ok [OF h(2)]
  have r: "dv_rendered v = VIEW_HEAD @ concat (map section_frame ?o)" "length (dv_rendered v) \<le> MAX_DECISION_VIEW_BYTES" by blast+
  have c: "concat (map section_frame ?o) = concat (map section_frame (filter stable_section ?o)) @
      concat (map section_frame (filter (\<lambda>s. \<not> stable_section s) ?o))"
    using w by (metis concat_append map_append takeWhile_dropWhile_id)
  note e = token_boundary_sound [OF tokenize_Ok(1) [OF f(1)] f(2)]
  have g: "sg_bytes (dv_stable_prefix v) = VIEW_HEAD @ concat (map section_frame (filter stable_section ?o))"
    using f(5) r(1) b c by (simp add: new_geometry_def)
  then show ?thesis using e f r b c by (simp add: Let_def new_geometry_def)
qed

text \<open>The geometry of a rendered view: its bytes are the head, the frames of the stable sections and the
  frames of the volatile ones, in the final order; the stable prefix is the first two of these;
  it ends at a token boundary, the tokens before the breakpoint decode to exactly the prefix, and
  prefix and volatile tokens add up.\<close>

theorem view_geometry_exact:
  assumes "render_with_metadata A T i ss meta = Ok v"
  shows "let ordered = sort_commutative_runs ss; g = dv_stable_prefix v in
    sg_bytes g = VIEW_HEAD @ concat (map section_frame (filter stable_section ordered)) \<and>
    dv_rendered v = sg_bytes g @ concat (map section_frame (filter (\<lambda>s. \<not> stable_section s) ordered)) \<and>
    breakpoint_after_bytes g = length (sg_bytes g) \<and> dv_volatile_bytes v = length (dv_rendered v) - breakpoint_after_bytes g \<and>
    length (dv_rendered v) \<le> MAX_DECISION_VIEW_BYTES \<and> breakpoint_after_tokens g + dv_volatile_tokens v = dv_total_tokens v \<and>
    (\<exists>m. tokenize A T (dv_rendered v) = Ok m \<and> token_count m = dv_total_tokens v \<and>
       concat (map piece_bytes (take (breakpoint_after_tokens g) (tm_tokens m))) = sg_bytes g)"
  by (rule view_geometry [OF assms])

lemma sort_runs_split:
  "list_all stable_section st \<Longrightarrow> list_all (\<lambda>s. \<not> stable_section s) vo \<Longrightarrow>
     sort_commutative_runs (st @ vo) = sort_commutative_runs st @ sort_commutative_runs vo"
proof (induction st rule: sort_commutative_runs.induct)
  case (2 s st)
  show ?case
  proof (cases "sec_score s")
    case None
    with 2 show ?thesis by simp
  next
    case (Some n)
    have c: "is_stable (sec_kind s)" using 2(3) by simp
    have vo: "takeWhile (in_run True) vo = []" "dropWhile (in_run True) vo = vo" using 2(4) by (cases vo; simp add: in_run_def)+
    show ?thesis
    proof (cases "\<forall>x\<in>set st. in_run True x")
      case True
      then show ?thesis using Some c vo
        by (simp add: Let_def takeWhile_append2 dropWhile_append2 takeWhile_eq_all_conv [THEN iffD2] dropWhile_eq_Nil_conv [THEN iffD2])
    next
      case False
      then obtain x where "x \<in> set st" "\<not> in_run True x" by blast
      moreover have "list_all stable_section (dropWhile (in_run True) st)" using 2(3) by (auto simp: list_all_iff dest: set_dropWhileD)
      ultimately show ?thesis using Some c 2(2) [OF _ refl] 2(4) by (simp add: Let_def takeWhile_append1 dropWhile_append1)
    qed
  qed
qed simp

text \<open>Changing only volatile sections, their number and their order included, keeps the stable prefix: the
  two views have byte-identical prefixes under the same identity, so the comparison reports
  identity, whatever tokenizer run produced them.\<close>

theorem prefix_survives_volatile_change:
  assumes "render_with_metadata A T i (st @ vo) meta = Ok v" and "render_with_metadata A U i (st @ vo') meta' = Ok w"
    and "list_all stable_section st" and "list_all (\<lambda>s. \<not> stable_section s) vo" and "list_all (\<lambda>s. \<not> stable_section s) vo'"
  shows "compare_prefix (dv_stable_prefix v) (dv_stable_prefix w) = PrefixIdentical \<and>
    sg_bytes (dv_stable_prefix v) = VIEW_HEAD @ concat (map section_frame (sort_commutative_runs st)) \<and>
    breakpoint_after_bytes (dv_stable_prefix v) = breakpoint_after_bytes (dv_stable_prefix w)"
proof -
  have prefix: "sg_bytes (dv_stable_prefix x) = VIEW_HEAD @ concat (map section_frame (sort_commutative_runs st)) \<and>
      breakpoint_after_bytes (dv_stable_prefix x) = length (sg_bytes (dv_stable_prefix x)) \<and> sg_identity (dv_stable_prefix x) = i"
    if r: "render_with_metadata A X i (st @ ys) me = Ok x" and ys: "list_all (\<lambda>s. \<not> stable_section s) ys" for X ys me x
  proof -
    have "filter stable_section (sort_commutative_runs (st @ ys)) = sort_commutative_runs st"
      using assms(3) ys by (simp add: sort_runs_split list_all_iff)
    moreover obtain b where "finish_view A X i (sort_commutative_runs (st @ ys)) me (dv_rendered x) b = Ok x" using render_Ok [OF r] by blast
    then have "sg_identity (dv_stable_prefix x) = i" by (rule finish_view_Ok) (simp add: new_geometry_def)
    ultimately show ?thesis using view_geometry [OF r] by (simp add: Let_def)
  qed
  from prefix [OF assms(1,4)] prefix [OF assms(2,5)] show ?thesis by (simp add: compare_prefix_def)
qed

section \<open>Grades\<close>

text \<open>Joining grades is a semilattice with the unknown grade at its bottom: the order and the repetition of
  declarations do not matter, and no join upgrades.\<close>

interpretation grade: semilattice grade_join
proof
  fix a b c :: CompletenessGrade
  show "grade_join (grade_join a b) c = grade_join a (grade_join b c)" by (cases a; cases b; cases c) simp_all
  show "grade_join a b = grade_join b a" by (cases a; cases b) simp_all
  show "grade_join a a = a" by (cases a) simp_all
qed

lemma grade_join_unknown: "grade_join UnknownGrade a = UnknownGrade"
  by simp

section \<open>Examples\<close>

definition split_adapter :: "byte list \<Rightarrow> byte list \<Rightarrow> tokenizer_adapter" where
  "split_adapter p r = \<lparr>adapter_identity = sample_identity, adapter_encode = (\<lambda>bs. Ok [0, 1]),
     adapter_token_bytes = (\<lambda>k. Ok (if k = 0 then p else r))\<rparr>"

definition sample_view_identity :: DecisionViewIdentity where
  "sample_view_identity = \<lparr>vi_source_root = replicate 32 1, vi_model_profile = replicate 32 2, vi_tokenizer = replicate 32 7,
     vi_tool_schema = replicate 32 4, vi_renderer = replicate 32 5\<rparr>"

definition contract_section :: DecisionViewSection where
  "contract_section = plain_section StableSystemToolContract [1]"

definition task_section :: "nat \<Rightarrow> DecisionViewSection" where
  "task_section n = (plain_section VolatileUserTask [n])\<lparr>sec_score := Some n\<rparr>"

definition sample_view :: DecisionView where
  "sample_view = (case render_with_metadata sample_model_abi
       (split_adapter (VIEW_HEAD @ section_frame contract_section) (section_frame (task_section 7) @ section_frame (task_section 5)))
       sample_view_identity ([contract_section] @ [task_section 5, task_section 7] @ []) default_metadata of
     Inr v \<Rightarrow> v | Inl e \<Rightarrow> \<lparr>dv_identity = sample_view_identity, dv_section_kinds = [], dv_rendered = [], dv_token_map = [], dv_total_tokens = 0,
       dv_volatile_bytes = 0, dv_volatile_tokens = 0, dv_stable_prefix = new_geometry sample_model_abi sample_view_identity [] 0,
       dv_metadata = default_metadata, dv_digest = []\<rparr>)"

lemma sample_view_Ok:
  "render_with_metadata sample_model_abi
     (split_adapter (VIEW_HEAD @ section_frame contract_section) (section_frame (task_section 7) @ section_frame (task_section 5)))
     sample_view_identity ([contract_section] @ [task_section 5, task_section 7] @ []) default_metadata = Ok sample_view"
  by code_simp

theorem commutative_run_invariance_witness:
  "render_with_metadata sample_model_abi
     (split_adapter (VIEW_HEAD @ section_frame contract_section) (section_frame (task_section 7) @ section_frame (task_section 5)))
     sample_view_identity ([contract_section] @ [task_section 7, task_section 5] @ []) default_metadata = Ok sample_view"
  by (rule commutative_run_invariance [OF sample_view_Ok, where c = False])
    (simp_all add: task_section_def plain_section_def is_stable_def)

theorem order_keeps_semantic_sections_witness:
  "sort_commutative_runs [task_section 5, contract_section, task_section 7] ! 1 = contract_section"
  using order_keeps_semantic_sections [of 1 "[task_section 5, contract_section, task_section 7]"]
  by (simp add: contract_section_def plain_section_def)

theorem view_geometry_exact_witness:
  "sg_bytes (dv_stable_prefix sample_view) = VIEW_HEAD @ section_frame contract_section \<and>
   breakpoint_after_tokens (dv_stable_prefix sample_view) + dv_volatile_tokens sample_view = dv_total_tokens sample_view"
proof -
  have "filter stable_section (sort_commutative_runs [task_section 5, task_section 7]) = []"
    unfolding filter_empty_conv set_sort_runs by (simp add: task_section_def plain_section_def is_stable_def)
  then have f: "filter stable_section (sort_commutative_runs ([contract_section] @ [task_section 5, task_section 7] @ [])) = [contract_section]"
    by (simp add: contract_section_def plain_section_def is_stable_def del: sort_commutative_runs.simps(2))
      (subst sort_commutative_runs.simps(2), simp add: is_stable_def del: sort_commutative_runs.simps(2))
  note g = view_geometry_exact [OF sample_view_Ok, unfolded Let_def]
  from g have "breakpoint_after_tokens (dv_stable_prefix sample_view) + dv_volatile_tokens sample_view = dv_total_tokens sample_view" by blast
  moreover from g have "sg_bytes (dv_stable_prefix sample_view) = VIEW_HEAD @ concat (map section_frame (filter stable_section
      (sort_commutative_runs ([contract_section] @ [task_section 5, task_section 7] @ []))))" by blast
  then have "sg_bytes (dv_stable_prefix sample_view) = VIEW_HEAD @ section_frame contract_section"
    unfolding f by (simp only: list.map concat.simps append_Nil2)
  ultimately show ?thesis by blast
qed

theorem prefix_survives_volatile_change_witness:
  "compare_prefix (dv_stable_prefix sample_view) (dv_stable_prefix sample_view) = PrefixIdentical"
proof -
  have h: "list_all stable_section [contract_section]" "list_all (\<lambda>s. \<not> stable_section s) ([task_section 5, task_section 7] @ [])" by code_simp+
  show ?thesis using prefix_survives_volatile_change [OF sample_view_Ok sample_view_Ok h(1,2,2)] by blast
qed

end
