(* ===== verification/ProviderCache.thy ===== *)
theory ProviderCache
  imports DecisionView
begin

text \<open>
  Provider-cache facts (\<open>tokenzero-core/src/provider_cache.rs\<close>): the evaluation of a provider's
  policy over the stable prefix of a Decision View, and what the provider reported. The wire
  forms are the records that deserialisation fills in before it checks them; a rejected wire form
  carries the error the deserialiser raises. The lemmas show that exactly the well-formed values
  have a wire form, and that hits come from telemetry only.
\<close>

section \<open>Eligibility\<close>

definition MAX_POLICY_ID_BYTES :: nat where "MAX_POLICY_ID_BYTES = 1024"
definition MAX_REASON_BYTES :: nat where "MAX_REASON_BYTES = 16384"

datatype ProviderCacheError = EmptyPolicyId | PolicyIdTooLong | EmptyIneligibilityReason | IneligibilityReasonTooLong

datatype ProviderCacheEligibilityStatus = NotEvaluated | Eligible | Ineligible

record ProviderCacheEligibility =
  el_status :: ProviderCacheEligibilityStatus
  el_policy_id :: "rstr option"
  el_prefix_digest :: "digest option"
  el_breakpoint :: "nat option"
  el_reason :: "rstr option"

datatype wire_error = MissingField rstr | CustomError rstr | RejectedFact ProviderCacheError

definition validate_policy_id :: "rstr \<Rightarrow> ProviderCacheError + rstr" where
  "validate_policy_id p =
     (if p = [] then Err EmptyPolicyId else if MAX_POLICY_ID_BYTES < blen p then Err PolicyIdTooLong else Ok p)"

definition not_evaluated :: ProviderCacheEligibility where
  "not_evaluated = \<lparr>el_status = NotEvaluated, el_policy_id = None, el_prefix_digest = None, el_breakpoint = None, el_reason = None\<rparr>"

definition eligible :: "rstr \<Rightarrow> StablePrefixGeometry \<Rightarrow> ProviderCacheError + ProviderCacheEligibility" where
  "eligible policy g =
     (case validate_policy_id policy of
        Inl e \<Rightarrow> Err e
      | Inr p \<Rightarrow> Ok \<lparr>el_status = Eligible, el_policy_id = Some p, el_prefix_digest = Some (sg_digest g),
          el_breakpoint = Some (breakpoint_after_tokens g), el_reason = None\<rparr>)"

definition ineligible :: "rstr \<Rightarrow> rstr \<Rightarrow> ProviderCacheError + ProviderCacheEligibility" where
  "ineligible policy why =
     (case validate_policy_id policy of
        Inl e \<Rightarrow> Err e
      | Inr p \<Rightarrow>
          if why = [] then Err EmptyIneligibilityReason
          else if MAX_REASON_BYTES < blen why then Err IneligibilityReasonTooLong
          else Ok \<lparr>el_status = Ineligible, el_policy_id = Some p, el_prefix_digest = None, el_breakpoint = None, el_reason = Some why\<rparr>)"

text \<open>Deserialisation. The wire form has the fields of the value, unchecked.\<close>

definition eligibility_from_wire :: "ProviderCacheEligibility \<Rightarrow> wire_error + ProviderCacheEligibility" where
  "eligibility_from_wire w =
     (case el_status w of
        NotEvaluated \<Rightarrow>
          if el_policy_id w \<noteq> None \<or> el_prefix_digest w \<noteq> None \<or> el_breakpoint w \<noteq> None \<or> el_reason w \<noteq> None
          then Err (CustomError (lit ''not_evaluated provider eligibility carries fields''))
          else Ok not_evaluated
      | Eligible \<Rightarrow>
          (case el_policy_id w of
             None \<Rightarrow> Err (MissingField (lit ''policy_id''))
           | Some p \<Rightarrow>
          (case validate_policy_id p of
             Inl e \<Rightarrow> Err (RejectedFact e)
           | Inr p \<Rightarrow>
          (case el_prefix_digest w of
             None \<Rightarrow> Err (MissingField (lit ''prefix_geometry_digest''))
           | Some d \<Rightarrow>
          (case el_breakpoint w of
             None \<Rightarrow> Err (MissingField (lit ''breakpoint_after_tokens''))
           | Some b \<Rightarrow>
               if el_reason w \<noteq> None then Err (CustomError (lit ''eligible provider eligibility carries an ineligibility reason''))
               else Ok \<lparr>el_status = Eligible, el_policy_id = Some p, el_prefix_digest = Some d, el_breakpoint = Some b, el_reason = None\<rparr>))))
      | Ineligible \<Rightarrow>
          if el_prefix_digest w \<noteq> None \<or> el_breakpoint w \<noteq> None
          then Err (CustomError (lit ''ineligible provider eligibility carries prefix geometry''))
          else
          (case el_policy_id w of
             None \<Rightarrow> Err (MissingField (lit ''policy_id''))
           | Some p \<Rightarrow>
          (case el_reason w of
             None \<Rightarrow> Err (MissingField (lit ''reason''))
           | Some why \<Rightarrow> (case ineligible p why of Inl e \<Rightarrow> Err (RejectedFact e) | Inr x \<Rightarrow> Ok x))))"

definition is_evaluated :: "ProviderCacheEligibility \<Rightarrow> bool" where
  "is_evaluated e \<longleftrightarrow> el_status e \<noteq> NotEvaluated"

definition is_eligible :: "ProviderCacheEligibility \<Rightarrow> bool" where
  "is_eligible e \<longleftrightarrow> el_status e = Eligible"

section \<open>Telemetry\<close>

text \<open>The count of a reported hit is a \<open>NonZeroU64\<close>.\<close>

datatype ProviderCacheTelemetry = Unavailable | ReportedHit nat | ReportedMiss | ReportedUnknown | Expired

datatype ProviderCacheTelemetryStatusWire = WUnavailable | WReportedHit | WReportedMiss | WReportedUnknown | WExpired

record ProviderCacheTelemetryWire =
  tw_status :: ProviderCacheTelemetryStatusWire
  tw_cached :: "nat option"

fun telemetry_of :: "ProviderCacheTelemetryStatusWire \<Rightarrow> nat option \<Rightarrow> wire_error + ProviderCacheTelemetry" where
  "telemetry_of WUnavailable None = Ok Unavailable"
| "telemetry_of WReportedHit (Some n) = Ok (ReportedHit n)"
| "telemetry_of WReportedMiss None = Ok ReportedMiss"
| "telemetry_of WReportedUnknown None = Ok ReportedUnknown"
| "telemetry_of WExpired None = Ok Expired"
| "telemetry_of WReportedHit None = Err (MissingField (lit ''cached_input_tokens''))"
| "telemetry_of _ (Some n) = Err (CustomError (lit ''non-hit provider telemetry carries cached input tokens''))"

text \<open>Zero does not deserialise as a \<open>NonZeroU64\<close>.\<close>

definition telemetry_from_wire :: "ProviderCacheTelemetryWire \<Rightarrow> wire_error + ProviderCacheTelemetry" where
  "telemetry_from_wire w =
     (if tw_cached w = Some 0 then Err (CustomError (lit ''invalid value: integer `0`, expected a nonzero u64''))
      else telemetry_of (tw_status w) (tw_cached w))"

fun telemetry_to_wire :: "ProviderCacheTelemetry \<Rightarrow> ProviderCacheTelemetryWire" where
  "telemetry_to_wire Unavailable = \<lparr>tw_status = WUnavailable, tw_cached = None\<rparr>"
| "telemetry_to_wire (ReportedHit n) = \<lparr>tw_status = WReportedHit, tw_cached = Some n\<rparr>"
| "telemetry_to_wire ReportedMiss = \<lparr>tw_status = WReportedMiss, tw_cached = None\<rparr>"
| "telemetry_to_wire ReportedUnknown = \<lparr>tw_status = WReportedUnknown, tw_cached = None\<rparr>"
| "telemetry_to_wire Expired = \<lparr>tw_status = WExpired, tw_cached = None\<rparr>"

definition from_reported_cached_tokens :: "nat option \<Rightarrow> ProviderCacheTelemetry" where
  "from_reported_cached_tokens c =
     (case c of None \<Rightarrow> Unavailable | Some n \<Rightarrow> if n = 0 then ReportedMiss else ReportedHit n)"

fun is_reported_hit :: "ProviderCacheTelemetry \<Rightarrow> bool" where
  "is_reported_hit (ReportedHit n) = True"
| "is_reported_hit _ = False"

fun is_reported_miss :: "ProviderCacheTelemetry \<Rightarrow> bool" where
  "is_reported_miss ReportedMiss = True"
| "is_reported_miss _ = False"

fun is_hit_rate_observation :: "ProviderCacheTelemetry \<Rightarrow> bool" where
  "is_hit_rate_observation (ReportedHit n) = True"
| "is_hit_rate_observation ReportedMiss = True"
| "is_hit_rate_observation _ = False"

fun cached_input_tokens :: "ProviderCacheTelemetry \<Rightarrow> nat option" where
  "cached_input_tokens (ReportedHit n) = Some n"
| "cached_input_tokens ReportedMiss = Some 0"
| "cached_input_tokens _ = None"

section \<open>Well-formed facts\<close>

definition policy_ok :: "rstr option \<Rightarrow> bool" where
  "policy_ok p \<longleftrightarrow> (case p of None \<Rightarrow> False | Some p \<Rightarrow> p \<noteq> [] \<and> blen p \<le> MAX_POLICY_ID_BYTES)"

fun eligibility_ok :: "ProviderCacheEligibility \<Rightarrow> bool" where
  "eligibility_ok e =
     (case el_status e of
        NotEvaluated \<Rightarrow> el_policy_id e = None \<and> el_prefix_digest e = None \<and> el_breakpoint e = None \<and> el_reason e = None
      | Eligible \<Rightarrow> policy_ok (el_policy_id e) \<and> el_prefix_digest e \<noteq> None \<and> el_breakpoint e \<noteq> None \<and> el_reason e = None
      | Ineligible \<Rightarrow> policy_ok (el_policy_id e) \<and> el_prefix_digest e = None \<and> el_breakpoint e = None \<and>
          (case el_reason e of None \<Rightarrow> False | Some why \<Rightarrow> why \<noteq> [] \<and> blen why \<le> MAX_REASON_BYTES))"

lemma validate_policy_id_iff: "validate_policy_id p = Ok q \<longleftrightarrow> q = p \<and> policy_ok (Some p)"
  by (auto simp: validate_policy_id_def policy_ok_def)

lemma eligible_ok: "eligible p g = Ok e \<Longrightarrow> eligibility_ok e"
  by (auto simp: eligible_def validate_policy_id_iff split: sum.splits)

lemma ineligible_ok: "ineligible p why = Ok e \<Longrightarrow> eligibility_ok e"
  by (auto simp: ineligible_def validate_policy_id_iff split: sum.splits if_splits)

text \<open>C29: Eligibility is well typed on both ways in: the three constructors make well-formed facts, and the
  deserialiser accepts exactly the well-formed wire forms and returns them unchanged, so an
  eligible fact always carries a policy and a prefix, and nothing else does.\<close>

theorem eligibility_well_typed:
  "(eligibility_from_wire w = Ok e \<longleftrightarrow> e = w \<and> eligibility_ok w) \<and> eligibility_ok not_evaluated \<and>
   (case eligible p g of Inl x \<Rightarrow> \<not> policy_ok (Some p) | Inr y \<Rightarrow> eligibility_ok y \<and> is_eligible y \<and> el_prefix_digest y = Some (sg_digest g)) \<and>
   (case ineligible p why of Inl x \<Rightarrow> True | Inr y \<Rightarrow> eligibility_ok y \<and> \<not> is_eligible y \<and> is_evaluated y)"
proof (intro conjI)
  show "eligibility_from_wire w = Ok e \<longleftrightarrow> e = w \<and> eligibility_ok w"
    by (cases w; cases "el_status w")
      (auto simp: eligibility_from_wire_def not_evaluated_def ineligible_def validate_policy_id_def policy_ok_def
        split: option.splits sum.splits if_splits)
  show "eligibility_ok not_evaluated" by (simp add: not_evaluated_def)
  show "case eligible p g of Inl x \<Rightarrow> \<not> policy_ok (Some p)
      | Inr y \<Rightarrow> eligibility_ok y \<and> is_eligible y \<and> el_prefix_digest y = Some (sg_digest g)"
    by (auto simp: eligible_def validate_policy_id_def policy_ok_def is_eligible_def)
  show "case ineligible p why of Inl x \<Rightarrow> True | Inr y \<Rightarrow> eligibility_ok y \<and> \<not> is_eligible y \<and> is_evaluated y"
    by (auto simp: ineligible_def validate_policy_id_def policy_ok_def is_eligible_def is_evaluated_def)
qed

text \<open>Telemetry round trips, and it is never inferred: what the provider counted is what is read back, an
  absent count is no observation, and only a positive count is a hit.\<close>

theorem telemetry_roundtrip:
  "cached_input_tokens (from_reported_cached_tokens c) = c \<and>
   (is_reported_hit (from_reported_cached_tokens c) \<longleftrightarrow> (\<exists>n>0. c = Some n)) \<and>
   (is_hit_rate_observation (from_reported_cached_tokens c) \<longleftrightarrow> c \<noteq> None) \<and>
   telemetry_from_wire (telemetry_to_wire (from_reported_cached_tokens c)) = Ok (from_reported_cached_tokens c) \<and>
   (telemetry_from_wire w = Ok t \<longleftrightarrow> w = telemetry_to_wire t \<and> t \<noteq> ReportedHit 0)"
proof (intro conjI)
  show "telemetry_from_wire w = Ok t \<longleftrightarrow> w = telemetry_to_wire t \<and> t \<noteq> ReportedHit 0"
    by (cases w; cases "tw_status w"; cases "tw_cached w"; cases t) (auto simp: telemetry_from_wire_def)
qed (cases c; auto simp: from_reported_cached_tokens_def telemetry_from_wire_def)+

end
