(* ===== verification/MemoryVerbs.thy ===== *)
theory MemoryVerbs
  imports WorkingSetProps
begin

text \<open>
  The named memory verbs (\<open>tokenzero-recovery/src/memory_verbs.rs\<close>): a policy surface over the
  working set of \<open>WorkingSet\<close>. Writing the recovery store to disk is a parameter, \<open>session_disk\<close>:
  what \<open>persist_pending\<close> returns and whether the identity of the snapshot or of the journal
  changed; it is absent when the store has no persistence path. \<open>None\<close> is a panic, as in the
  working set. The relation \<open>verb_call\<close> is the contract: the primitive a verb calls, with which
  arguments of the request. The lemmas show that a verb never panics, succeeds exactly when that call reports a change,
  and changes nothing visible when it reports failure.
\<close>

section \<open>Verbs\<close>

datatype MemoryVerb = Store | CommitSession | UpdateCapsule | ForgetVisible | PromoteAnchor | LinkRefs

definition ALL_VERBS :: "MemoryVerb list" where
  "ALL_VERBS = [Store, CommitSession, UpdateCapsule, ForgetVisible, PromoteAnchor, LinkRefs]"

fun verb_str :: "MemoryVerb \<Rightarrow> rstr" where
  "verb_str Store = lit ''store''"
| "verb_str CommitSession = lit ''commit_session''"
| "verb_str UpdateCapsule = lit ''update_capsule''"
| "verb_str ForgetVisible = lit ''forget_visible''"
| "verb_str PromoteAnchor = lit ''promote_anchor''"
| "verb_str LinkRefs = lit ''link_refs''"

fun substrate_target :: "MemoryVerb \<Rightarrow> rstr" where
  "substrate_target Store = lit ''working_set.admit''"
| "substrate_target CommitSession = lit ''recovery_store.persist''"
| "substrate_target UpdateCapsule = lit ''working_set.rewrite_render''"
| "substrate_target ForgetVisible = lit ''working_set.evict''"
| "substrate_target PromoteAnchor = lit ''working_set.touch''"
| "substrate_target LinkRefs = lit ''working_set.evicted_refs''"

record MemoryVerbRequest =
  req_verb :: MemoryVerb
  req_ref_ids :: "rstr list"
  req_payload :: "rstr option"
  req_label :: "rstr option"

record MemoryVerbEffect =
  eff_verb :: MemoryVerb
  eff_substrate :: rstr
  eff_applied :: bool

datatype MemoryVerbError = UnknownVerb rstr | NotApplied rstr rstr | VerbRecovery WorkingSetError

definition from_name :: "rstr \<Rightarrow> MemoryVerbError + MemoryVerb" where
  "from_name name =
     (if name = lit ''store'' then Ok Store
      else if name = lit ''commit_session'' then Ok CommitSession
      else if name = lit ''update_capsule'' then Ok UpdateCapsule
      else if name = lit ''forget_visible'' then Ok ForgetVisible
      else if name = lit ''promote_anchor'' then Ok PromoteAnchor
      else if name = lit ''link_refs'' then Ok LinkRefs
      else Err (UnknownVerb name))"

definition describe_memory_verb :: "MemoryVerbRequest \<Rightarrow> MemoryVerbEffect" where
  "describe_memory_verb r = \<lparr>eff_verb = req_verb r, eff_substrate = substrate_target (req_verb r), eff_applied = False\<rparr>"

definition not_applied :: "MemoryVerb \<Rightarrow> rstr \<Rightarrow> MemoryVerbError" where
  "not_applied v why = NotApplied (verb_str v) why"

definition require_visible_admit :: "MemoryVerb \<Rightarrow> Admission \<Rightarrow> MemoryVerbError + unit" where
  "require_visible_admit v a =
     (if adm_response a = AlreadyResident then Err (not_applied v (lit ''already resident; no visible working-set mutation''))
      else Ok ())"

text \<open>The payload and the label, checked in this order by \<open>store\<close> and by \<open>update_capsule\<close>.\<close>

definition payload_label :: "MemoryVerbRequest \<Rightarrow> MemoryVerbError + (rstr \<times> rstr)" where
  "payload_label r =
     (case req_payload r of
        None \<Rightarrow> Err (not_applied (req_verb r) (lit ''payload is required''))
      | Some t \<Rightarrow>
          if t = [] then Err (not_applied (req_verb r) (lit ''payload must be non-empty''))
          else case req_label r of
            None \<Rightarrow> Err (not_applied (req_verb r) (lit ''label (span path) is required''))
          | Some path \<Rightarrow>
              if path = [] then Err (not_applied (req_verb r) (lit ''label (span path) must be non-empty''))
              else Ok (t, path))"

definition payload_anchor :: "MemoryVerbRequest \<Rightarrow> MemoryVerbError + (rstr \<times> SpanAnchor)" where
  "payload_anchor r =
     (case payload_label r of
        Inl e \<Rightarrow> Err e
      | Inr (t, path) \<Rightarrow>
          Ok (t, \<lparr>anchor_path = path, anchor_symbol = None, anchor_start = 1, anchor_end = max (length (str_lines t)) 1\<rparr>))"

definition request_span_id :: "MemoryVerbRequest \<Rightarrow> MemoryVerbError + nat" where
  "request_span_id r =
     (case req_ref_ids r of
        [] \<Rightarrow> Err (not_applied (req_verb r) (lit ''ref_ids[0] span id is required''))
      | raw # _ \<Rightarrow>
          (case parse_usize raw of
             None \<Rightarrow> Err (not_applied (req_verb r) (lit ''ref_ids[0] is not a span id: '' @ raw))
           | Some i \<Rightarrow> Ok i))"

definition link_pair :: "MemoryVerbRequest \<Rightarrow> MemoryVerbError + (rstr \<times> rstr)" where
  "link_pair r =
     (case req_ref_ids r of
        src # al # _ \<Rightarrow>
          if src \<noteq> [] \<and> al \<noteq> [] then Ok (src, al)
          else Err (not_applied (req_verb r) (lit ''link_refs requires non-empty ref_ids[0] source and ref_ids[1] alias''))
      | _ \<Rightarrow> Err (not_applied (req_verb r) (lit ''link_refs requires non-empty ref_ids[0] source and ref_ids[1] alias'')))"

section \<open>Application\<close>

type_synonym session_disk = "RecoveryStore \<Rightarrow> (StoreError + unit) \<times> RecoveryStore \<times> bool"

type_synonym verb_result = "((MemoryVerbError + MemoryVerbEffect) \<times> WorkingSet \<times> RecoveryStore) option"

definition applied_effect :: "MemoryVerb \<Rightarrow> MemoryVerbEffect" where
  "applied_effect v = \<lparr>eff_verb = v, eff_substrate = substrate_target v, eff_applied = True\<rparr>"

definition after_admission ::
    "MemoryVerb \<Rightarrow> ((WorkingSetError + Admission) \<times> WorkingSet \<times> RecoveryStore) option \<Rightarrow> verb_result" where
  "after_admission v res =
     map_option (\<lambda>(r, w, s).
       (case r of
          Inl e \<Rightarrow> Err (VerbRecovery e)
        | Inr a \<Rightarrow> (case require_visible_admit v a of Inl e \<Rightarrow> Err e | Inr u \<Rightarrow> Ok (applied_effect v)), w, s)) res"

definition apply_memory_verb ::
    "io \<Rightarrow> quote_fn \<Rightarrow> session_disk option \<Rightarrow> WorkingSet \<Rightarrow> RecoveryStore \<Rightarrow> MemoryVerbRequest \<Rightarrow> verb_result" where
  "apply_memory_verb E q sd w s r =
     (let v = req_verb r in
      case v of
        Store \<Rightarrow>
          (case payload_anchor r of
             Inl e \<Rightarrow> Some (Err e, w, s)
           | Inr (t, a) \<Rightarrow> after_admission v (admit E q w s t a))
      | CommitSession \<Rightarrow>
          (case sd of
             None \<Rightarrow> Some (Err (not_applied v (lit ''commit_session requires a recovery persist path'')), w, s)
           | Some pending_write \<Rightarrow>
               (case pending_write s of
                  (Inl e, s', changed) \<Rightarrow> Some (Err (VerbRecovery (WorkingSetStore e)), w, s')
                | (Inr u, s', changed) \<Rightarrow>
                    if \<not> changed then Some (Err (not_applied v (lit ''commit_session persist did not mutate the recovery store'')), w, s')
                    else Some (Ok (applied_effect v), w, s')))
      | UpdateCapsule \<Rightarrow>
          (case payload_label r of
             Inl e \<Rightarrow> Some (Err e, w, s)
           | Inr (t, label) \<Rightarrow>
               (case anchor_for_path w label of
                  None \<Rightarrow> Some (Err (not_applied v (lit ''no capsule at '' @ label)), w, s)
                | Some a \<Rightarrow> after_admission v (rewrite_render E q w s t a)))
      | ForgetVisible \<Rightarrow>
          (case request_span_id r of
             Inl e \<Rightarrow> Some (Err e, w, s)
           | Inr i \<Rightarrow>
               map_option (\<lambda>(e, w, s).
                 (case e of
                    None \<Rightarrow> Err (not_applied v (lit ''forget_visible did not page out span '' @ show_nat i))
                  | Some x \<Rightarrow> Ok (applied_effect v), w, s)) (evict_span E q w s i))
      | PromoteAnchor \<Rightarrow>
          (case request_span_id r of
             Inl e \<Rightarrow> Some (Err e, w, s)
           | Inr i \<Rightarrow>
               (case touch w i of
                  (hit, w') \<Rightarrow>
                    Some (if hit then Ok (applied_effect v)
                          else Err (not_applied v (lit ''promote_anchor did not touch span '' @ show_nat i)), w', s)))
      | LinkRefs \<Rightarrow>
          (case link_pair r of
             Inl e \<Rightarrow> Some (Err e, w, s)
           | Inr (src, al) \<Rightarrow>
               (case link_refs E w s src al of
                  (res, w', s') \<Rightarrow>
                    Some (case res of
                        Inl e \<Rightarrow> Err (VerbRecovery e)
                      | Inr linked \<Rightarrow> if linked then Ok (applied_effect v)
                          else Err (not_applied v (lit ''link_refs did not record '' @ src @ lit '' -> '' @ al)), w', s'))))"

section \<open>Names\<close>

text \<open>Verb names are exactly the six names the verbs print: the parser inverts the printer and
  refuses everything else.\<close>

theorem verb_name_roundtrip:
  "(from_name name = Ok v \<longleftrightarrow> name = verb_str v) \<and>
   (from_name name = Err (UnknownVerb name) \<longleftrightarrow> name \<notin> set (map verb_str ALL_VERBS))"
  by (cases v) (auto simp: from_name_def ALL_VERBS_def lit_def)

section \<open>Steps\<close>

lemma admit_answers:
  assumes "ws_run E q w" "sequence w < u64_max"
  obtains r w' s' where "admit E q w s t a = Some (r, w', s')" "ws_run E q w'"
proof -
  obtain r w' s' where "admit E q w s t a = Some (r, w', s')" using admit_ok [OF ws_run_inv [OF assms(1)] assms(2), of E q s t a] by blast
  with ws_run.admit [OF assms this] that show thesis by blast
qed

lemma rewrite_answers:
  assumes "ws_run E q w" "sequence w < u64_max"
  obtains r w' s' where "rewrite_render E q w s t a = Some (r, w', s')" "ws_run E q w'"
proof -
  let ?f = "\<lambda>l. l\<lparr>render_rewrites := sat_add (render_rewrites l) 1\<rparr>"
  have "ws_inv (upd_tel ?f w)" using ws_run_inv [OF assms(1)] by (rule ws_inv_upd) simp_all
  from admit_ok [OF this, of E q s t a] obtain r w' s' where "rewrite_render E q w s t a = Some (r, w', s')"
    using assms(2) by (auto simp: rewrite_render_def)
  with ws_run.rewrite [OF assms this] that show thesis by blast
qed

lemma verb_answers:
  assumes "ws_run E q w" and "sequence w < u64_max"
  shows "\<exists>res w' s'. apply_memory_verb E q sd w s r = Some (res, w', s') \<and> ws_run E q w'"
proof (cases "req_verb r")
  case Store
  show ?thesis
  proof (cases "payload_anchor r")
    case (Inr p)
    obtain t a where p: "p = (t, a)" by (cases p)
    obtain r' w' s' where "admit E q w s t a = Some (r', w', s')" "ws_run E q w'" using admit_answers [OF assms] by blast
    then show ?thesis using Store Inr p by (simp add: apply_memory_verb_def after_admission_def)
  qed (use assms Store in \<open>simp add: apply_memory_verb_def\<close>)
next
  case CommitSession
  then show ?thesis using assms by (auto simp: apply_memory_verb_def split: option.splits prod.splits sum.splits)
next
  case UpdateCapsule
  show ?thesis
  proof (cases "payload_label r")
    case (Inr p)
    obtain t l where p: "p = (t, l)" by (cases p)
    show ?thesis
    proof (cases "anchor_for_path w l")
      case (Some a)
      obtain r' w' s' where "rewrite_render E q w s t a = Some (r', w', s')" "ws_run E q w'" using rewrite_answers [OF assms] by blast
      then show ?thesis using UpdateCapsule Inr p Some by (simp add: apply_memory_verb_def after_admission_def)
    qed (use assms UpdateCapsule Inr p in \<open>simp add: apply_memory_verb_def\<close>)
  qed (use assms UpdateCapsule in \<open>simp add: apply_memory_verb_def\<close>)
next
  case ForgetVisible
  show ?thesis
  proof (cases "request_span_id r")
    case (Inr i)
    obtain e w' s' where "evict_span E q w s i = Some (e, w', s')" using evict_span_total [of E q w s i] by blast
    with ws_run.evict [OF assms(1) this] show ?thesis using ForgetVisible Inr by (simp add: apply_memory_verb_def)
  qed (use assms ForgetVisible in \<open>simp add: apply_memory_verb_def\<close>)
next
  case PromoteAnchor
  then show ?thesis using assms ws_run.touch [OF assms(1)]
    by (auto simp: apply_memory_verb_def split: sum.splits prod.splits)
next
  case LinkRefs
  then show ?thesis using assms ws_run.link [OF assms(1)]
    by (auto simp: apply_memory_verb_def split: sum.splits prod.splits)
qed

text \<open>What a verb promises, stated over the fields of the request: the one primitive of the substrate it calls, with which arguments,
  and that the primitive reported a change.\<close>

inductive verb_call ::
    "io \<Rightarrow> quote_fn \<Rightarrow> session_disk option \<Rightarrow> MemoryVerbRequest \<Rightarrow> WorkingSet \<Rightarrow> RecoveryStore \<Rightarrow> WorkingSet \<Rightarrow> RecoveryStore \<Rightarrow> bool"
  for E q sd r where
  store: "\<lbrakk>req_verb r = Store; req_payload r = Some t; t \<noteq> []; req_label r = Some p; p \<noteq> [];
     admit E q w s t \<lparr>anchor_path = p, anchor_symbol = None, anchor_start = 1, anchor_end = max 1 (length (str_lines t))\<rparr> = Some (Ok a, w', s');
     adm_response a \<noteq> AlreadyResident\<rbrakk> \<Longrightarrow> verb_call E q sd r w s w' s'"
| commit: "\<lbrakk>req_verb r = CommitSession; sd = Some pending_write; pending_write s = (Ok (), s', True)\<rbrakk> \<Longrightarrow> verb_call E q sd r w s w s'"
| update: "\<lbrakk>req_verb r = UpdateCapsule; req_payload r = Some t; t \<noteq> []; req_label r = Some p; p \<noteq> []; anchor_for_path w p = Some anchor;
     rewrite_render E q w s t anchor = Some (Ok a, w', s'); adm_response a \<noteq> AlreadyResident\<rbrakk> \<Longrightarrow> verb_call E q sd r w s w' s'"
| forget: "\<lbrakk>req_verb r = ForgetVisible; req_ref_ids r = raw # rest; parse_usize raw = Some i;
     evict_span E q w s i = Some (Some gone, w', s')\<rbrakk> \<Longrightarrow> verb_call E q sd r w s w' s'"
| promote: "\<lbrakk>req_verb r = PromoteAnchor; req_ref_ids r = raw # rest; parse_usize raw = Some i; touch w i = (True, w')\<rbrakk> \<Longrightarrow>
     verb_call E q sd r w s w' s"
| link: "\<lbrakk>req_verb r = LinkRefs; req_ref_ids r = src # al # rest; src \<noteq> []; al \<noteq> []; link_refs E w s src al = (Ok True, w', s')\<rbrakk> \<Longrightarrow>
     verb_call E q sd r w s w' s'"

lemma after_admission_Ok:
  "after_admission v res = Some (Ok eff, w', s') \<longleftrightarrow>
     eff = applied_effect v \<and> (\<exists>a. res = Some (Ok a, w', s') \<and> adm_response a \<noteq> AlreadyResident)"
proof (cases res)
  case (Some x)
  obtain r v1 s1 where "x = (r, v1, s1)" by (cases x)
  then show ?thesis using Some by (cases r) (auto simp: after_admission_def require_visible_admit_def)
qed (simp add: after_admission_def)

lemma payload_label_Ok:
  "payload_label r = Ok (t, p) \<longleftrightarrow> req_payload r = Some t \<and> t \<noteq> [] \<and> req_label r = Some p \<and> p \<noteq> []"
  by (auto simp: payload_label_def split: option.splits)

lemma payload_anchor_Ok:
  "payload_anchor r = Ok (t, a) \<longleftrightarrow> (\<exists>p. payload_label r = Ok (t, p) \<and>
     a = \<lparr>anchor_path = p, anchor_symbol = None, anchor_start = 1, anchor_end = max 1 (length (str_lines t))\<rparr>)"
  by (auto simp: payload_anchor_def max.commute split: sum.splits)

lemma request_span_id_Ok: "request_span_id r = Ok i \<longleftrightarrow> (\<exists>raw rest. req_ref_ids r = raw # rest \<and> parse_usize raw = Some i)"
  by (auto simp: request_span_id_def split: list.splits option.splits)

lemma link_pair_Ok: "link_pair r = Ok (src, al) \<longleftrightarrow> (\<exists>rest. req_ref_ids r = src # al # rest) \<and> src \<noteq> [] \<and> al \<noteq> []"
  by (auto simp: link_pair_def split: list.splits)

lemma applied_verb_iff:
  "apply_memory_verb E q sd w s r = Some (Ok eff, w', s') \<longleftrightarrow> eff = applied_effect (req_verb r) \<and> verb_call E q sd r w s w' s'"
proof (cases "req_verb r")
  case Store
  have "apply_memory_verb E q sd w s r = Some (Ok eff, w', s') \<longleftrightarrow>
      (\<exists>t a. payload_anchor r = Ok (t, a) \<and> after_admission Store (admit E q w s t a) = Some (Ok eff, w', s'))"
    by (auto simp: apply_memory_verb_def Store split: sum.splits)
  then show ?thesis by (auto simp: verb_call.simps Store after_admission_Ok payload_anchor_Ok payload_label_Ok)
next
  case CommitSession
  then show ?thesis by (auto simp: apply_memory_verb_def verb_call.simps split: option.splits prod.splits sum.splits if_splits)
next
  case UpdateCapsule
  have "apply_memory_verb E q sd w s r = Some (Ok eff, w', s') \<longleftrightarrow>
      (\<exists>t p a. payload_label r = Ok (t, p) \<and> anchor_for_path w p = Some a \<and>
        after_admission UpdateCapsule (rewrite_render E q w s t a) = Some (Ok eff, w', s'))"
    by (auto simp: apply_memory_verb_def UpdateCapsule split: sum.splits option.splits)
  then show ?thesis by (auto simp: verb_call.simps UpdateCapsule after_admission_Ok payload_label_Ok)
next
  case ForgetVisible
  have "apply_memory_verb E q sd w s r = Some (Ok eff, w', s') \<longleftrightarrow> eff = applied_effect ForgetVisible \<and>
      (\<exists>i x. request_span_id r = Ok i \<and> evict_span E q w s i = Some (Some x, w', s'))"
    by (auto simp: apply_memory_verb_def ForgetVisible split: sum.splits option.splits)
  then show ?thesis by (auto simp: verb_call.simps ForgetVisible request_span_id_Ok)
next
  case PromoteAnchor
  have "apply_memory_verb E q sd w s r = Some (Ok eff, w', s') \<longleftrightarrow> eff = applied_effect PromoteAnchor \<and>
      s' = s \<and> (\<exists>i. request_span_id r = Ok i \<and> touch w i = (True, w'))"
    by (auto simp: apply_memory_verb_def PromoteAnchor split: sum.splits prod.splits if_splits)
  then show ?thesis by (auto simp: verb_call.simps PromoteAnchor request_span_id_Ok)
next
  case LinkRefs
  have "apply_memory_verb E q sd w s r = Some (Ok eff, w', s') \<longleftrightarrow> eff = applied_effect LinkRefs \<and>
      (\<exists>src al. link_pair r = Ok (src, al) \<and> link_refs E w s src al = (Ok True, w', s'))"
    by (auto simp: apply_memory_verb_def LinkRefs split: sum.splits prod.splits if_splits)
  then show ?thesis by (auto simp: verb_call.simps LinkRefs link_pair_Ok)
qed

section \<open>Failures\<close>

definition same_view :: "WorkingSet \<Rightarrow> WorkingSet \<Rightarrow> bool" where
  "same_view w w' \<longleftrightarrow> map span_id (spans w') = map span_id (spans w) \<and> map span_body (spans w') = map span_body (spans w) \<and>
     map span_anchor (spans w') = map span_anchor (spans w) \<and> evicted_refs w' = evicted_refs w \<and> budget_tokens w' = budget_tokens w"

lemma same_view_refl [simp]: "same_view w w"
  by (simp add: same_view_def)

lemma same_view_lines: "same_view w w' \<Longrightarrow> visible_lines w' = visible_lines w"
proof -
  assume "same_view w w'"
  then have "map (\<lambda>b. case b of Resident t \<Rightarrow> t | Evicted r m \<Rightarrow> m) (map span_body (spans w')) =
      map (\<lambda>b. case b of Resident t \<Rightarrow> t | Evicted r m \<Rightarrow> m) (map span_body (spans w))" by (simp only: same_view_def)
  moreover have "visible_text = (\<lambda>p. case span_body p of Resident t \<Rightarrow> t | Evicted r m \<Rightarrow> m)" by (simp add: fun_eq_iff visible_text_def)
  ultimately show ?thesis by (simp add: visible_lines_def comp_def)
qed

lemma same_view_touch_at: "v < length (spans w) \<Longrightarrow> same_view w (upd_tel f (touch_at v w))"
  by (simp add: same_view_def touch_at_def Let_def map_update list_update_same_conv)

lemma admit_full_response: "admit_full E q w s t a = Some (r, w', s') \<Longrightarrow> \<exists>adm. r = Ok adm \<and> adm_response adm = Full"
  by (auto simp: admit_full_def split: prod.splits option.splits)

lemma admit_invisible:
  assumes "admit E q w s t a = Some (r, w', s')" "case r of Inl e \<Rightarrow> True | Inr adm \<Rightarrow> adm_response adm = AlreadyResident"
  shows "same_view w w' \<and> s' = s"
proof (cases "anchor_start a = 0 \<or> anchor_end a < anchor_start a")
  case False
  have full: "admit_full E q w1 s1 t a \<noteq> Some (r, w', s')" for w1 s1 using admit_full_response [of E q w1 s1 t a r w' s'] assms(2) by auto
  then obtain v previous where v: "find_index (\<lambda>p. anchor_eq (span_anchor p) a) (spans w) = Some v" "span_body (spans w ! v) = Resident previous"
    "previous = t \<or> count_tokens (active_model E) (acknowledgement (delta_between previous t)) < count_tokens (active_model E) t"
    using assms(1) False by (auto simp: admit_def Let_def split: option.splits SpanBody.splits prod.splits if_splits)
  then have "previous = t" using assms False by (auto simp: admit_def Let_def split: if_splits)
  then show ?thesis using assms(1) False v same_view_touch_at find_index_Some [OF v(1)] by (auto simp: admit_def Let_def)
qed (use assms in \<open>auto simp: admit_def\<close>)

lemma after_admission_Err:
  assumes "after_admission v res = Some (Err e, w', s')"
  obtains r where "res = Some (r, w', s')" "case r of Inl e \<Rightarrow> True | Inr adm \<Rightarrow> adm_response adm = AlreadyResident"
proof -
  from assms obtain r where r: "res = Some (r, w', s')" and "(case r of Inl e \<Rightarrow> Err (VerbRecovery e)
      | Inr a \<Rightarrow> (case require_visible_admit v a of Inl e \<Rightarrow> Err e | Inr u \<Rightarrow> Ok (applied_effect v))) = Err e"
    by (auto simp: after_admission_def)
  then have "case r of Inl e \<Rightarrow> True | Inr adm \<Rightarrow> adm_response adm = AlreadyResident"
    by (auto simp: require_visible_admit_def split: sum.splits if_splits)
  with r that show thesis by blast
qed

lemma failed_verb_same_view:
  assumes "apply_memory_verb E q sd w s r = Some (Err e, w', s')"
  shows "same_view w w' \<and> (req_verb r = CommitSession \<or> s' = s)"
proof (cases "req_verb r")
  case Store
  then show ?thesis using assms
    by (auto simp: apply_memory_verb_def split: sum.splits elim!: after_admission_Err dest: admit_invisible)
next
  case CommitSession
  then show ?thesis using assms by (auto simp: apply_memory_verb_def split: option.splits prod.splits sum.splits if_splits)
next
  case UpdateCapsule
  have up: "same_view (upd_tel f w) w' \<Longrightarrow> same_view w w'" for f by (simp add: same_view_def)
  show ?thesis using assms UpdateCapsule
    by (auto simp: apply_memory_verb_def rewrite_render_def split: sum.splits option.splits elim!: after_admission_Err dest!: admit_invisible up)
next
  case ForgetVisible
  then show ?thesis using assms
    by (auto simp: apply_memory_verb_def evict_span_def split: sum.splits option.splits)
next
  case PromoteAnchor
  then show ?thesis using assms
    by (auto simp: apply_memory_verb_def touch_def Let_def split: sum.splits if_splits)
next
  case LinkRefs
  then show ?thesis using assms
    by (auto simp: apply_memory_verb_def link_refs_def Let_def split: sum.splits if_splits option.splits)
qed

text \<open>A verb that reports failure changed nothing visible: the spans keep their identifiers, their
  anchors and their bodies, the index of evicted references and the budget are as before, and
  except for the write to disk of \<open>commit_session\<close> so is the recovery store.\<close>

theorem failed_verb_is_invisible:
  assumes "apply_memory_verb E q sd w s r = Some (Err e, w', s')"
  shows "map span_id (spans w') = map span_id (spans w) \<and> map span_body (spans w') = map span_body (spans w) \<and>
     map span_anchor (spans w') = map span_anchor (spans w) \<and> visible_lines w' = visible_lines w \<and>
     evicted_refs w' = evicted_refs w \<and> budget_tokens w' = budget_tokens w \<and> (req_verb r = CommitSession \<or> s' = s)"
  using failed_verb_same_view [OF assms] same_view_lines [of w w'] by (simp add: same_view_def)

text \<open>C27: A verb is one call of the substrate. From a reachable working set it never panics and leads to a reachable one. It
  reports success, with the verb and the primitive it names, exactly when the primitive of that verb, called with the arguments of the
  request, reports a change, and then the state is the one that call returns. When it reports failure no
  such call changes anything, and the spans, their texts, the index of evicted references, the budget and, but for the write of a session, the
  recovery store are as before.\<close>

theorem memory_verb_refines_run:
  assumes "ws_run E q w" and "sequence w < u64_max"
  shows "\<exists>res w' s'. apply_memory_verb E q sd w s r = Some (res, w', s') \<and> ws_run E q w' \<and>
    (case res of
       Inr eff \<Rightarrow> eff = \<lparr>eff_verb = req_verb r, eff_substrate = substrate_target (req_verb r), eff_applied = True\<rparr> \<and>
         verb_call E q sd r w s w' s'
     | Inl e \<Rightarrow> (\<forall>v t. \<not> verb_call E q sd r w s v t) \<and> same_view w w' \<and> (req_verb r = CommitSession \<or> s' = s))"
proof -
  obtain res w' s' where a: "apply_memory_verb E q sd w s r = Some (res, w', s')" "ws_run E q w'"
    using verb_answers [OF assms] by blast
  show ?thesis
  proof (cases res)
    case (Inl e)
    have "\<not> verb_call E q sd r w s v t" for v t
      using applied_verb_iff [of E q sd w s r "applied_effect (req_verb r)" v t] a(1) Inl by auto
    then show ?thesis using a Inl failed_verb_same_view [of E q sd w s r e w' s'] by auto
  next
    case (Inr eff)
    then show ?thesis using a applied_verb_iff [of E q sd w s r eff w' s'] by (auto simp: applied_effect_def)
  qed
qed

theorem memory_verb_refines_run_witness:
  "\<exists>w' s'. apply_memory_verb sample_io id None (new_working_set 10) (with_config default_config)
     \<lparr>req_verb = Store, req_ref_ids = [], req_payload = Some (lit ''abc''), req_label = Some (lit ''f'')\<rparr> =
       Some (Ok \<lparr>eff_verb = Store, eff_substrate = lit ''working_set.admit'', eff_applied = True\<rparr>, w', s') \<and>
     ws_run sample_io id w' \<and>
     verb_call sample_io id None \<lparr>req_verb = Store, req_ref_ids = [], req_payload = Some (lit ''abc''), req_label = Some (lit ''f'')\<rparr>
       (new_working_set 10) (with_config default_config) w' s'"
proof -
  let ?r = "\<lparr>req_verb = Store, req_ref_ids = [], req_payload = Some (lit ''abc''), req_label = Some (lit ''f'')\<rparr>"
  let ?w = "new_working_set 10" and ?s = "with_config default_config"
  let ?a = "\<lparr>anchor_path = lit ''f'', anchor_symbol = None, anchor_start = 1, anchor_end = max 1 (length (str_lines (lit ''abc'')))\<rparr>"
  have fresh: "sequence ?w < u64_max" by (simp add: new_working_set_def u64_max_def)
  obtain res w' s' where admitted: "admit sample_io id ?w ?s (lit ''abc'') ?a = Some (res, w', s')"
    using admit_answers [OF ws_run.start fresh] by blast
  then have "admit_full sample_io id ?w ?s (lit ''abc'') ?a = Some (res, w', s')"
    by (simp add: admit_def new_working_set_def)
  then obtain adm where "res = Ok adm" "adm_response adm = Full" using admit_full_response by blast
  then have called: "verb_call sample_io id None ?r ?w ?s w' s'"
    using admitted by (intro verb_call.store [of _ "lit ''abc''" "lit ''f''" _ _ _ _ adm]) (simp_all add: lit_def)
  obtain res2 w2 s2 where applied: "apply_memory_verb sample_io id None ?w ?s ?r = Some (res2, w2, s2)" "ws_run sample_io id w2"
    and promise: "case res2 of
       Inr eff \<Rightarrow> eff = \<lparr>eff_verb = req_verb ?r, eff_substrate = substrate_target (req_verb ?r), eff_applied = True\<rparr> \<and>
         verb_call sample_io id None ?r ?w ?s w2 s2
     | Inl e \<Rightarrow> (\<forall>v t. \<not> verb_call sample_io id None ?r ?w ?s v t) \<and> same_view ?w w2 \<and> (req_verb ?r = CommitSession \<or> s2 = ?s)"
    using memory_verb_refines_run [OF ws_run.start fresh, of sample_io id None ?s ?r] by blast
  then show ?thesis using called by (cases res2) auto
qed

theorem failed_verb_is_invisible_witness:
  "\<exists>e w' s'. apply_memory_verb sample_io id None (new_working_set 10) (with_config default_config)
     \<lparr>req_verb = PromoteAnchor, req_ref_ids = [lit ''7''], req_payload = None, req_label = None\<rparr> = Some (Err e, w', s') \<and>
     visible_lines w' = visible_lines (new_working_set 10)"
proof -
  let ?r = "\<lparr>req_verb = PromoteAnchor, req_ref_ids = [lit ''7''], req_payload = None, req_label = None\<rparr>"
  have "request_span_id ?r = Ok 7" by code_simp
  then have "\<exists>e w' s'. apply_memory_verb sample_io id None (new_working_set 10) (with_config default_config) ?r = Some (Err e, w', s')"
    by (simp add: apply_memory_verb_def touch_def find_span_def new_working_set_def)
  then obtain e w' s' where h: "apply_memory_verb sample_io id None (new_working_set 10) (with_config default_config) ?r = Some (Err e, w', s')"
    by blast
  with failed_verb_is_invisible [OF h] show ?thesis by blast
qed

end
