(* ===== verification/EntityNovelty.thy ===== *)
theory EntityNovelty
  imports OrdMap SessionAliases
begin

text \<open>
  The shared entity novelty record (\<open>tokenzero-recovery/src/entity_novelty.rs\<close>): validation,
  merging of identifiers, references, and the pointer file per scope. The directory of pointer
  files is a map from paths to contents, a missing path being \<open>NotFound\<close>; the JSON encoding, the
  clock, the failures of the file system and SHA-256 are the record \<open>novelty_io\<close>. The lemmas show
  that merging is set union on validated records, and that a merged record is read back.
\<close>

section \<open>Records\<close>

definition ENTITY_NOVELTY_SCHEMA_VERSION :: rstr where "ENTITY_NOVELTY_SCHEMA_VERSION = lit ''zerostack.entity-novelty''"
definition ENTITY_NOVELTY_RECORD_TYPE :: rstr where "ENTITY_NOVELTY_RECORD_TYPE = lit ''entity-novelty''"
definition ENTITY_NOVELTY_REL_DIR :: rstr where "ENTITY_NOVELTY_REL_DIR = lit ''shared/entity-novelty/v1''"
definition PRODUCING_ENGINES :: "rstr list" where
  "PRODUCING_ENGINES = [lit ''tokenzero'', lit ''fszero'', lit ''graphzero'']"

record EntityNoveltyRecord =
  en_schema_version :: rstr
  en_record_type :: rstr
  en_scope_key :: rstr
  en_entity_ids :: "rstr list"
  en_producing_engine :: rstr
  en_updated_at :: rstr
  en_cas_digest :: "rstr option"

datatype NoveltyError = NoveltySchema rstr | NoveltyRecordType rstr | NoveltyScope rstr | NoveltyEngine rstr | NoveltyEntityId rstr
  | DuplicateId rstr | ForbiddenScheme rstr | NoveltyIo rstr | NoveltyJson rstr

definition prefixed_scope :: "rstr \<Rightarrow> rstr \<Rightarrow> bool" where
  "prefixed_scope pre scope \<longleftrightarrow> (case strip_prefix pre scope of None \<Rightarrow> False | Some s \<Rightarrow> s \<noteq> [])"

definition validate_scope_key :: "rstr \<Rightarrow> NoveltyError + unit" where
  "validate_scope_key scope =
     (if scope = lit ''global'' \<or> prefixed_scope (lit ''session:'') scope \<or> prefixed_scope (lit ''repo:'') scope \<or>
         prefixed_scope (lit ''workspace:'') scope then Ok () else Err (NoveltyScope scope))"

definition validate_engine :: "rstr \<Rightarrow> NoveltyError + unit" where
  "validate_engine engine = (if engine \<in> set PRODUCING_ENGINES then Ok () else Err (NoveltyEngine engine))"

definition is_ascii_uppercase :: "uchar \<Rightarrow> bool" where
  "is_ascii_uppercase c \<longleftrightarrow> 65 \<le> c \<and> c \<le> 90"

definition validate_entity_id :: "rstr \<Rightarrow> NoveltyError + unit" where
  "validate_entity_id h =
     (if str_contains h (lit ''://'') then Err (NoveltyEntityId h)
      else if blen h \<noteq> 64 \<or> \<not> list_all is_ascii_hexdigit (as_bytes h) then Err (NoveltyEntityId h)
      else if list_ex is_ascii_uppercase (as_bytes h) then Err (NoveltyEntityId h)
      else Ok ())"

definition empty_record :: "rstr \<Rightarrow> rstr \<Rightarrow> rstr \<Rightarrow> NoveltyError + EntityNoveltyRecord" where
  "empty_record now scope engine =
     (case validate_scope_key scope of
        Inl e \<Rightarrow> Err e
      | Inr u \<Rightarrow>
          (case validate_engine engine of
             Inl e \<Rightarrow> Err e
           | Inr u \<Rightarrow>
               Ok \<lparr>en_schema_version = ENTITY_NOVELTY_SCHEMA_VERSION, en_record_type = ENTITY_NOVELTY_RECORD_TYPE,
                   en_scope_key = scope, en_entity_ids = [], en_producing_engine = engine, en_updated_at = now, en_cas_digest = None\<rparr>))"

definition entity_ref :: "rstr \<Rightarrow> NoveltyError + rstr" where
  "entity_ref i = (case validate_entity_id i of Inl e \<Rightarrow> Err e | Inr u \<Rightarrow> Ok (lit ''gz://entity/'' @ i))"

definition knows :: "EntityNoveltyRecord \<Rightarrow> rstr \<Rightarrow> bool" where
  "knows r i \<longleftrightarrow> i \<in> set (en_entity_ids r)"

text \<open>A \<open>BTreeSet\<close> is its elements in order.\<close>

definition bt_set :: "rstr list \<Rightarrow> rstr list" where
  "bt_set xs = remdups_adj (sort xs)"

fun insert_ids :: "rstr list \<Rightarrow> rstr list \<Rightarrow> NoveltyError + rstr list" where
  "insert_ids acc [] = Ok acc"
| "insert_ids acc (i # is) =
     (case validate_entity_id i of Inl e \<Rightarrow> Err e | Inr u \<Rightarrow> insert_ids (bt_set (to_ascii_lowercase i # acc)) is)"

definition merge_ids :: "rstr \<Rightarrow> EntityNoveltyRecord \<Rightarrow> rstr list \<Rightarrow> rstr \<Rightarrow> NoveltyError + (nat \<times> EntityNoveltyRecord)" where
  "merge_ids now r is engine =
     (case validate_engine engine of
        Inl e \<Rightarrow> Err e
      | Inr u \<Rightarrow>
          (let known = bt_set (en_entity_ids r) in
           case insert_ids known is of
             Inl e \<Rightarrow> Err e
           | Inr all_ids \<Rightarrow>
               Ok (length all_ids - length known,
                   r\<lparr>en_entity_ids := all_ids, en_producing_engine := engine, en_updated_at := now\<rparr>)))"

fun check_ids :: "rstr list \<Rightarrow> rstr list \<Rightarrow> NoveltyError + unit" where
  "check_ids seen [] = Ok ()"
| "check_ids seen (i # is) =
     (case validate_entity_id i of
        Inl e \<Rightarrow> Err e
      | Inr u \<Rightarrow> if i \<in> set seen then Err (DuplicateId i) else check_ids (i # seen) is)"

definition validate_record :: "EntityNoveltyRecord \<Rightarrow> NoveltyError + unit" where
  "validate_record r =
     (if en_schema_version r \<noteq> ENTITY_NOVELTY_SCHEMA_VERSION then Err (NoveltySchema (en_schema_version r))
      else if en_record_type r \<noteq> ENTITY_NOVELTY_RECORD_TYPE then Err (NoveltyRecordType (en_record_type r))
      else case validate_scope_key (en_scope_key r) of
        Inl e \<Rightarrow> Err e
      | Inr u \<Rightarrow>
     (case validate_engine (en_producing_engine r) of
        Inl e \<Rightarrow> Err e
      | Inr u \<Rightarrow>
     (case check_ids [] (en_entity_ids r) of
        Inl e \<Rightarrow> Err e
      | Inr u \<Rightarrow>
          (case en_cas_digest r of None \<Rightarrow> Ok () | Some d \<Rightarrow> validate_entity_id d))))"

section \<open>Pointer files\<close>

record novelty_io =
  nv_sha_hex :: "rstr \<Rightarrow> rstr"
  nv_now :: rstr
  nv_decode :: "byte list \<Rightarrow> rstr + EntityNoveltyRecord"
  nv_encode :: "EntityNoveltyRecord \<Rightarrow> rstr + byte list"
  nv_read_error :: "rstr \<Rightarrow> rstr option"
  nv_dir_error :: "rstr \<Rightarrow> rstr option"
  nv_write_error :: "rstr \<Rightarrow> rstr option"

type_synonym novelty_dir = "rstr \<rightharpoonup> byte list"

definition scope_digest :: "novelty_io \<Rightarrow> rstr \<Rightarrow> rstr" where
  "scope_digest N scope = nv_sha_hex N scope"

text \<open>\<open>Path::join\<close> with a relative path.\<close>

definition path_join :: "rstr \<Rightarrow> rstr \<Rightarrow> rstr" where
  "path_join a b = (if a = [] \<or> List.last a = 47 then a @ b else a @ lit ''/'' @ b)"

definition entity_novelty_path :: "novelty_io \<Rightarrow> rstr \<Rightarrow> rstr \<Rightarrow> rstr" where
  "entity_novelty_path N rt scope = path_join (path_join rt ENTITY_NOVELTY_REL_DIR) (scope_digest N scope @ lit ''.json'')"

definition read_entity_novelty :: "novelty_io \<Rightarrow> novelty_dir \<Rightarrow> rstr \<Rightarrow> rstr \<Rightarrow> NoveltyError + EntityNoveltyRecord" where
  "read_entity_novelty N fs rt scope =
     (let path = entity_novelty_path N rt scope in
      case nv_read_error N path of
        Some e \<Rightarrow> Err (NoveltyIo e)
      | None \<Rightarrow>
          (case fs path of
             None \<Rightarrow> empty_record (nv_now N) scope (lit ''tokenzero'')
           | Some bs \<Rightarrow>
               (case nv_decode N bs of
                  Inl e \<Rightarrow> Err (NoveltyJson e)
                | Inr r \<Rightarrow>
                    (case validate_record r of
                       Inl e \<Rightarrow> Err e
                     | Inr u \<Rightarrow>
                         if en_scope_key r \<noteq> scope
                         then Err (NoveltyScope (lit ''file scope_key '' @ en_scope_key r @ lit '' != requested '' @ scope))
                         else Ok r))))"

definition write_entity_novelty ::
    "novelty_io \<Rightarrow> novelty_dir \<Rightarrow> rstr \<Rightarrow> EntityNoveltyRecord \<Rightarrow> (NoveltyError + rstr) \<times> novelty_dir" where
  "write_entity_novelty N fs rt r =
     (case validate_record r of
        Inl e \<Rightarrow> (Err e, fs)
      | Inr u \<Rightarrow>
          (let path = entity_novelty_path N rt (en_scope_key r) in
           case nv_dir_error N path of
             Some e \<Rightarrow> (Err (NoveltyIo e), fs)
           | None \<Rightarrow>
               (case nv_encode N r of
                  Inl e \<Rightarrow> (Err (NoveltyJson e), fs)
                | Inr bs \<Rightarrow>
                    (case nv_write_error N path of
                       Some e \<Rightarrow> (Err (NoveltyIo e), fs)
                     | None \<Rightarrow> (Ok path, fs(path \<mapsto> bs))))))"

definition with_digest :: "EntityNoveltyRecord \<Rightarrow> rstr option \<Rightarrow> NoveltyError + EntityNoveltyRecord" where
  "with_digest r d =
     (case d of
        None \<Rightarrow> Ok r
      | Some d \<Rightarrow>
          (case validate_entity_id d of
             Inl e \<Rightarrow> Err e | Inr u \<Rightarrow> Ok (r\<lparr>en_cas_digest := Some (to_ascii_lowercase d)\<rparr>)))"

definition merge_entity_novelty ::
    "novelty_io \<Rightarrow> novelty_dir \<Rightarrow> rstr \<Rightarrow> rstr \<Rightarrow> rstr list \<Rightarrow> rstr \<Rightarrow> rstr option \<Rightarrow>
     (NoveltyError + EntityNoveltyRecord) \<times> novelty_dir" where
  "merge_entity_novelty N fs rt scope is engine d =
     (case read_entity_novelty N fs rt scope of
        Inl e \<Rightarrow> (Err e, fs)
      | Inr r \<Rightarrow>
          (case merge_ids (nv_now N) r is engine of
             Inl e \<Rightarrow> (Err e, fs)
           | Inr (added, r) \<Rightarrow>
               (case with_digest r d of
                  Inl e \<Rightarrow> (Err e, fs)
                | Inr r \<Rightarrow>
                    (case write_entity_novelty N fs rt r of
                       (Inl e, fs') \<Rightarrow> (Err e, fs')
                     | (Inr path, fs') \<Rightarrow> (Ok r, fs')))))"

definition parse_entity_ref :: "rstr \<Rightarrow> NoveltyError + rstr" where
  "parse_entity_ref reference =
     (case strip_prefix (lit ''gz://entity/'') reference of
        Some rest \<Rightarrow> (case validate_entity_id rest of Inl e \<Rightarrow> Err e | Inr u \<Rightarrow> Ok (to_ascii_lowercase rest))
      | None \<Rightarrow>
          if starts_with reference (lit ''tz://entity/'') \<or> starts_with reference (lit ''fz://entity/'')
          then Err (ForbiddenScheme reference)
          else case validate_entity_id reference of Inl e \<Rightarrow> Err e | Inr u \<Rightarrow> Ok (to_ascii_lowercase reference))"

section \<open>Identifiers\<close>

lemma utf8_char_low: "list_all (\<lambda>b. b < 128) (utf8_char c) \<Longrightarrow> c < 128"
  by (auto simp: utf8_char_def split: if_splits)

lemma as_bytes_low: "list_all (\<lambda>b. b < 128) (as_bytes s) \<Longrightarrow> as_bytes s = s"
proof (induction s)
  case (Cons c s)
  then have "c < 128" "as_bytes s = s" using utf8_char_low [of c] by (auto simp: as_bytes_def)
  then show ?case by (simp add: as_bytes_def utf8_char_def)
qed (simp add: as_bytes_def)

lemma validate_entity_id_Ok:
  assumes "validate_entity_id h = Ok ()"
  shows "length h = 64" "list_all is_ascii_hexdigit h" "\<not> list_ex is_ascii_uppercase h" "to_ascii_lowercase h = h"
proof -
  from assms have b: "blen h = 64" "list_all is_ascii_hexdigit (as_bytes h)" "\<not> list_ex is_ascii_uppercase (as_bytes h)"
    by (auto simp: validate_entity_id_def split: if_splits)
  from b(2) have "list_all (\<lambda>b. b < 128) (as_bytes h)" by (auto simp: list_all_iff is_ascii_hexdigit_def is_ascii_digit_def)
  then have e: "as_bytes h = h" by (rule as_bytes_low)
  with b show "length h = 64" "list_all is_ascii_hexdigit h" "\<not> list_ex is_ascii_uppercase h" by (auto simp flip: length_as_bytes)
  then show "to_ascii_lowercase h = h"
    unfolding to_ascii_lowercase_def by (intro map_idI) (auto simp: ascii_lower_def list_ex_iff is_ascii_uppercase_def)
qed

lemma validate_entity_id_cases: "validate_entity_id h = Ok () \<or> validate_entity_id h = Err (NoveltyEntityId h)"
  by (simp add: validate_entity_id_def)

lemma sorted_remdups_strict: "sorted (xs :: 'a :: linorder list) \<Longrightarrow> sorted_wrt (<) (remdups_adj xs)"
  by (induction xs rule: remdups_adj.induct) (auto simp: le_less)

lemma bt_set_simps: "set (bt_set xs) = set xs" "sorted_wrt (<) (bt_set xs)"
  by (simp_all add: bt_set_def sorted_remdups_strict)

lemma insert_ids_Ok:
  "insert_ids acc is = Ok out \<Longrightarrow> sorted_wrt (<) acc \<Longrightarrow>
     set out = set acc \<union> set is \<and> sorted_wrt (<) out \<and> list_all (\<lambda>i. validate_entity_id i = Ok ()) is"
proof (induction acc "is" rule: insert_ids.induct)
  case (2 acc i "is")
  then have "validate_entity_id i = Ok ()" by (auto split: sum.splits)
  with 2 show ?case using validate_entity_id_Ok(4) [of i] bt_set_simps [of "i # acc"] by auto
qed simp

lemma check_ids_iff: "check_ids seen is = Ok () \<longleftrightarrow> list_all (\<lambda>i. validate_entity_id i = Ok ()) is \<and> distinct is \<and> set is \<inter> set seen = {}"
  by (induction seen "is" rule: check_ids.induct) (auto split: sum.splits)

lemma validate_record_iff:
  "validate_record r = Ok () \<longleftrightarrow> en_schema_version r = ENTITY_NOVELTY_SCHEMA_VERSION \<and> en_record_type r = ENTITY_NOVELTY_RECORD_TYPE \<and>
     validate_scope_key (en_scope_key r) = Ok () \<and> validate_engine (en_producing_engine r) = Ok () \<and>
     list_all (\<lambda>i. validate_entity_id i = Ok ()) (en_entity_ids r) \<and> distinct (en_entity_ids r) \<and>
     (\<forall>d. en_cas_digest r = Some d \<longrightarrow> validate_entity_id d = Ok ())"
  using check_ids_iff [of "[]" "en_entity_ids r"]
  by (auto simp: validate_record_def split: sum.splits option.splits)

lemma merge_ids_Ok:
  assumes "merge_ids now r is engine = Ok (n, r')"
  shows "set (en_entity_ids r') = set (en_entity_ids r) \<union> set is" "sorted_wrt (<) (en_entity_ids r')"
    "n = card (set is - set (en_entity_ids r))" "list_all (\<lambda>i. validate_entity_id i = Ok ()) is" "validate_engine engine = Ok ()"
    "en_scope_key r' = en_scope_key r" "en_cas_digest r' = en_cas_digest r" "en_producing_engine r' = engine"
    "en_schema_version r' = en_schema_version r" "en_record_type r' = en_record_type r"
proof -
  from assms obtain ys where y: "insert_ids (bt_set (en_entity_ids r)) is = Ok ys" "n = length ys - length (bt_set (en_entity_ids r))"
    "r' = r\<lparr>en_entity_ids := ys, en_producing_engine := engine, en_updated_at := now\<rparr>" "validate_engine engine = Ok ()"
    by (auto simp: merge_ids_def Let_def split: sum.splits)
  note i = insert_ids_Ok [OF y(1) bt_set_simps(2)]
  then show "set (en_entity_ids r') = set (en_entity_ids r) \<union> set is" "sorted_wrt (<) (en_entity_ids r')"
    "list_all (\<lambda>i. validate_entity_id i = Ok ()) is" "validate_engine engine = Ok ()"
    "en_scope_key r' = en_scope_key r" "en_cas_digest r' = en_cas_digest r" "en_producing_engine r' = engine"
    "en_schema_version r' = en_schema_version r" "en_record_type r' = en_record_type r"
    using y bt_set_simps(1) by simp_all
  have "length ys = card (set (en_entity_ids r) \<union> set is)" "length (bt_set (en_entity_ids r)) = card (set (en_entity_ids r))"
    using i bt_set_simps [of "en_entity_ids r"] by (simp_all add: sorted_lt_distinct flip: distinct_card)
  moreover have "card (set (en_entity_ids r) \<union> (set is - set (en_entity_ids r))) = card (set (en_entity_ids r)) + card (set is - set (en_entity_ids r))"
    by (rule card_Un_disjoint) auto
  ultimately show "n = card (set is - set (en_entity_ids r))" using y(2) by simp
qed

lemma validate_merged:
  assumes "validate_record r = Ok ()" "merge_ids now r is engine = Ok (n, r')"
  shows "validate_record r' = Ok ()"
proof -
  note m = merge_ids_Ok [OF assms(2)]
  have "list_all (\<lambda>i. validate_entity_id i = Ok ()) (en_entity_ids r')"
    using m(1,4) assms(1) by (auto simp: validate_record_iff list_all_iff)
  moreover have "distinct (en_entity_ids r')" using m(2) by (rule sorted_lt_distinct)
  ultimately show ?thesis using assms(1) m(5) by (simp add: validate_record_iff m(6-10))
qed

text \<open>Merging refines the union of sets: on a validated record the identifiers afterwards are the old
  ones and the new ones, in strict order, the number returned is the number of identifiers that
  were not known, and the record stays valid.\<close>

theorem merge_ids_is_union:
  assumes "validate_record r = Ok ()" and "merge_ids now r is engine = Ok (n, r')"
  shows "{i. knows r' i} = {i. knows r i} \<union> set is \<and> n = card (set is - {i. knows r i}) \<and>
    sorted_wrt (<) (en_entity_ids r') \<and> validate_record r' = Ok () \<and> en_scope_key r' = en_scope_key r \<and>
    en_cas_digest r' = en_cas_digest r \<and> en_producing_engine r' = engine"
proof -
  note m = merge_ids_Ok [OF assms(2)]
  have "{i. knows r' i} = set (en_entity_ids r')" "{i. knows r i} = set (en_entity_ids r)" by (simp_all add: knows_def)
  then show ?thesis using m validate_merged [OF assms] by simp
qed

section \<open>Files\<close>

lemma read_valid:
  assumes "read_entity_novelty N fs rt scope = Ok r"
  shows "validate_record r = Ok () \<and> en_scope_key r = scope"
proof -
  have "validate_engine (lit ''tokenzero'') = Ok ()" by (simp add: validate_engine_def PRODUCING_ENGINES_def)
  then show ?thesis using assms
    by (auto simp: read_entity_novelty_def Let_def empty_record_def validate_record_iff split: option.splits sum.splits if_splits)
qed

lemma with_digest_Ok:
  "with_digest r d = Ok r' \<Longrightarrow> validate_record r = Ok () \<Longrightarrow>
     validate_record r' = Ok () \<and> en_scope_key r' = en_scope_key r \<and> en_entity_ids r' = en_entity_ids r"
  by (auto simp: with_digest_def validate_record_iff validate_entity_id_Ok(4) split: option.splits sum.splits)

lemma merge_entity_novelty_Ok:
  assumes "merge_entity_novelty N fs rt scope is engine d = (Ok r, fs')"
  obtains r0 n r1 bs where "read_entity_novelty N fs rt scope = Ok r0" "merge_ids (nv_now N) r0 is engine = Ok (n, r1)"
    "with_digest r1 d = Ok r" "validate_record r = Ok ()" "en_scope_key r = scope" "nv_encode N r = Ok bs"
    "fs' = fs(entity_novelty_path N rt scope \<mapsto> bs)"
proof -
  from assms obtain r0 n r1 path where h: "read_entity_novelty N fs rt scope = Ok r0" "merge_ids (nv_now N) r0 is engine = Ok (n, r1)"
    "with_digest r1 d = Ok r" "write_entity_novelty N fs rt r = (Ok path, fs')"
    by (auto simp: merge_entity_novelty_def split: sum.splits prod.splits)
  have v: "validate_record r1 = Ok ()" "en_scope_key r1 = scope"
    using read_valid [OF h(1)] validate_merged [OF _ h(2)] merge_ids_Ok(6) [OF h(2)] by simp_all
  note w = with_digest_Ok [OF h(3) v(1)]
  then obtain bs where "nv_encode N r = Ok bs" "fs' = fs(entity_novelty_path N rt scope \<mapsto> bs)"
    using h(4) v(2) by (auto simp: write_entity_novelty_def Let_def split: sum.splits option.splits)
  then show thesis using that h(1-3) w v(2) by simp
qed

text \<open>A merge that succeeds is read back: the record returned is the record the next reader of the scope
  gets, every identifier known before or given is known, and no other path changed. A merge that
  fails leaves every file as it was. The hypothesis on the encoding is that JSON decodes to what
  was encoded.\<close>

theorem merge_novelty_roundtrip:
  assumes "merge_entity_novelty N fs rt scope is engine d = (res, fs')"
    and "\<And>r bs. nv_encode N r = Ok bs \<Longrightarrow> nv_decode N bs = Ok r"
  shows "case res of
      Inl e \<Rightarrow> fs' = fs
    | Inr r \<Rightarrow> read_entity_novelty N fs' rt scope = Ok r \<and> (\<forall>path. path \<noteq> entity_novelty_path N rt scope \<longrightarrow> fs' path = fs path) \<and>
        (\<exists>r0. read_entity_novelty N fs rt scope = Ok r0 \<and> {i. knows r i} = {i. knows r0 i} \<union> set is)"
proof (cases res)
  case (Inl e)
  then show ?thesis using assms(1)
    by (auto simp: merge_entity_novelty_def write_entity_novelty_def Let_def split: sum.splits prod.splits option.splits)
next
  case (Inr r)
  from assms(1) Inr obtain r0 n r1 bs where h: "read_entity_novelty N fs rt scope = Ok r0" "merge_ids (nv_now N) r0 is engine = Ok (n, r1)"
    "with_digest r1 d = Ok r" "validate_record r = Ok ()" "en_scope_key r = scope" "nv_encode N r = Ok bs"
    "fs' = fs(entity_novelty_path N rt scope \<mapsto> bs)" using merge_entity_novelty_Ok by metis
  have "nv_read_error N (entity_novelty_path N rt scope) = None"
    using h(1) by (auto simp: read_entity_novelty_def Let_def split: option.splits)
  then have "read_entity_novelty N fs' rt scope = Ok r"
    using h assms(2) [OF h(6)] by (simp add: read_entity_novelty_def Let_def)
  moreover have "set (en_entity_ids r) = set (en_entity_ids r1)"
    using with_digest_Ok [OF h(3)] validate_merged [OF _ h(2)] read_valid [OF h(1)] by simp
  then have "{i. knows r i} = {i. knows r0 i} \<union> set is" using merge_ids_Ok(1) [OF h(2)] by (auto simp: knows_def)
  ultimately show ?thesis using Inr h(1,7) by auto
qed

text \<open>References: the reference of an identifier parses back to it, and only 64 lowercase hexadecimal
  digits are ever accepted. Uppercase digits are refused before they could be normalised.\<close>

theorem entity_ref_roundtrip:
  "(case entity_ref i of Inl e \<Rightarrow> e = NoveltyEntityId i | Inr reference \<Rightarrow> parse_entity_ref reference = Ok i) \<and>
   (case parse_entity_ref reference of
      Inl e \<Rightarrow> True
    | Inr i \<Rightarrow> length i = 64 \<and> list_all is_ascii_hexdigit i \<and> \<not> list_ex is_ascii_uppercase i \<and>
        (reference = i \<or> reference = lit ''gz://entity/'' @ i))"
proof
  show "case entity_ref i of Inl e \<Rightarrow> e = NoveltyEntityId i | Inr reference \<Rightarrow> parse_entity_ref reference = Ok i"
  proof (cases "validate_entity_id i")
    case (Inl e)
    then show ?thesis using validate_entity_id_cases [of i] by (simp add: entity_ref_def)
  next
    case (Inr u)
    then show ?thesis using validate_entity_id_Ok(4) [of i]
      by (simp add: entity_ref_def parse_entity_ref_def strip_prefix_def starts_with_def)
  qed
  show "case parse_entity_ref reference of Inl e \<Rightarrow> True
    | Inr i \<Rightarrow> length i = 64 \<and> list_all is_ascii_hexdigit i \<and> \<not> list_ex is_ascii_uppercase i \<and>
        (reference = i \<or> reference = lit ''gz://entity/'' @ i)"
  proof (cases "strip_prefix (lit ''gz://entity/'') reference")
    case None
    show ?thesis
      by (cases "validate_entity_id reference") (use None validate_entity_id_Ok [of reference] in \<open>auto simp: parse_entity_ref_def\<close>)
  next
    case (Some rest)
    then have "reference = lit ''gz://entity/'' @ rest"
      by (auto simp: strip_prefix_def starts_with_def split: if_splits) (metis append_take_drop_id)
    then show ?thesis
      by (cases "validate_entity_id rest") (use Some validate_entity_id_Ok [of rest] in \<open>auto simp: parse_entity_ref_def\<close>)
  qed
qed

section \<open>Examples\<close>

definition sample_novelty :: "rstr list \<Rightarrow> EntityNoveltyRecord" where
  "sample_novelty is = \<lparr>en_schema_version = ENTITY_NOVELTY_SCHEMA_VERSION, en_record_type = ENTITY_NOVELTY_RECORD_TYPE,
     en_scope_key = lit ''global'', en_entity_ids = is, en_producing_engine = lit ''tokenzero'', en_updated_at = lit ''now'', en_cas_digest = None\<rparr>"

definition sample_novelty_io :: novelty_io where
  "sample_novelty_io = \<lparr>nv_sha_hex = (\<lambda>s. s), nv_now = lit ''now'', nv_decode = (\<lambda>bs. Ok (sample_novelty [replicate 64 97])),
     nv_encode = (\<lambda>r. if r = sample_novelty [replicate 64 97] then Ok [1] else Err []), nv_read_error = (\<lambda>p. None),
     nv_dir_error = (\<lambda>p. None), nv_write_error = (\<lambda>p. None)\<rparr>"

theorem merge_ids_is_union_witness:
  "knows (sample_novelty [replicate 64 97, replicate 64 98]) (replicate 64 97) \<and>
   {i. knows (sample_novelty [replicate 64 97, replicate 64 98]) i} = {i. knows (sample_novelty [replicate 64 98]) i} \<union> set [replicate 64 97]"
proof -
  have h: "validate_record (sample_novelty [replicate 64 98]) = Ok ()"
    "merge_ids (lit ''now'') (sample_novelty [replicate 64 98]) [replicate 64 97] (lit ''tokenzero'') =
       Ok (1, sample_novelty [replicate 64 97, replicate 64 98])" by code_simp+
  from merge_ids_is_union [OF h] show ?thesis by (simp add: sample_novelty_def knows_def)
qed

theorem merge_novelty_roundtrip_witness:
  "\<exists>fs'. merge_entity_novelty sample_novelty_io Map.empty (lit ''r'') (lit ''global'') [replicate 64 97] (lit ''tokenzero'') None =
      (Ok (sample_novelty [replicate 64 97]), fs') \<and>
    read_entity_novelty sample_novelty_io fs' (lit ''r'') (lit ''global'') = Ok (sample_novelty [replicate 64 97])"
proof -
  let ?m = "merge_entity_novelty sample_novelty_io Map.empty (lit ''r'') (lit ''global'') [replicate 64 97] (lit ''tokenzero'') None"
  have e: "nv_encode sample_novelty_io r = Ok bs \<Longrightarrow> nv_decode sample_novelty_io bs = Ok r" for r bs
    by (auto simp: sample_novelty_io_def split: if_splits)
  have f: "fst ?m = Ok (sample_novelty [replicate 64 97])" by code_simp
  have "?m = (Ok (sample_novelty [replicate 64 97]), snd ?m)" using f by (metis prod.collapse)
  from merge_novelty_roundtrip [OF this e] this show ?thesis by auto
qed

end
