(* ===== verification/TokenClasses.thy ===== *)
theory TokenClasses
  imports Complex_Main Prelude
begin

text \<open>
  Class-typed token counts (\<open>tokenzero-core/src/token_classes.rs\<close>) and the savings ratio of
  \<open>tokens.rs\<close>. The accounting class is a phantom parameter, here a type of one value per class, so
  mixing classes is a type error of HOL as it is one of Rust. Ratios are real numbers instead of
  64-bit floats.
\<close>

section \<open>Classes and counts\<close>

datatype Visible = VisibleClass
datatype Raw = RawClass
datatype BilledIn = BilledInClass
datatype BilledOut = BilledOutClass
datatype Cached = CachedClass

datatype 'c Tok = Tok (tok_get: nat)

definition tok_new :: "nat \<Rightarrow> 'c Tok" where "tok_new n = Tok n"

definition tok_zero :: "'c Tok" where "tok_zero = tok_new 0"

definition tok_is_zero :: "'c Tok \<Rightarrow> bool" where "tok_is_zero t \<longleftrightarrow> tok_get t = 0"

definition tok_checked_add :: "'c Tok \<Rightarrow> 'c Tok \<Rightarrow> 'c Tok option" where
  "tok_checked_add a b = map_option tok_new (checked_add (tok_get a) (tok_get b))"

definition tok_saturating_add :: "'c Tok \<Rightarrow> 'c Tok \<Rightarrow> 'c Tok" where
  "tok_saturating_add a b = tok_new (sat_add (tok_get a) (tok_get b))"

definition tok_saturating_sub :: "'c Tok \<Rightarrow> 'c Tok \<Rightarrow> 'c Tok" where
  "tok_saturating_sub a b = tok_new (tok_get a - tok_get b)"

definition tok_cast :: "'c Tok \<Rightarrow> 'd Tok" where
  "tok_cast t = tok_new (tok_get t)"

definition tok_add :: "'c Tok \<Rightarrow> 'c Tok \<Rightarrow> 'c Tok" where
  "tok_add a b = tok_saturating_add a b"

definition tok_sub :: "'c Tok \<Rightarrow> 'c Tok \<Rightarrow> 'c Tok" where
  "tok_sub a b = tok_saturating_sub a b"

definition tok_sum :: "'c Tok list \<Rightarrow> 'c Tok" where
  "tok_sum ts = foldl tok_add tok_zero ts"

definition savings_ratio_u64 :: "nat \<Rightarrow> nat \<Rightarrow> real" where
  "savings_ratio_u64 raw used = (if raw = 0 then 0 else 1 - real used / real raw)"

definition savings_ratio :: "nat \<Rightarrow> nat \<Rightarrow> real" where
  "savings_ratio raw used = savings_ratio_u64 raw used"

definition savings_ratio_typed :: "Raw Tok \<Rightarrow> Visible Tok \<Rightarrow> real" where
  "savings_ratio_typed raw visible = savings_ratio_u64 (tok_get raw) (tok_get visible)"

section \<open>Sums saturate once\<close>

lemma tok_get_sum: "tok_get (foldl tok_add t ts) = (if ts = [] then tok_get t else min (tok_get t + sum_list (map tok_get ts)) u64_max)"
proof (induction ts arbitrary: t)
  case (Cons a ts)
  show ?case using Cons.IH [of "tok_add t a"]
    by (auto simp: tok_add_def tok_saturating_add_def tok_new_def sat_add_def min_def split: if_splits)
qed simp

text \<open>A sum of counts is the true sum clipped once at the end of the range, so it depends neither on the
  order nor on the grouping of the summands.\<close>

theorem tok_sum_exact: "tok_get (tok_sum ts) = min (sum_list (map tok_get ts)) u64_max"
  using tok_get_sum [of tok_zero ts] by (auto simp: tok_sum_def tok_zero_def tok_new_def)

text \<open>The ratio is positive exactly when fewer tokens were spent than the raw content has, and it never
  exceeds one: spending more than the raw content is reported as a loss.\<close>

theorem savings_ratio_sign:
  "savings_ratio_typed raw visible \<le> 1 \<and>
   (0 < savings_ratio_typed raw visible \<longleftrightarrow> tok_get visible < tok_get raw) \<and>
   (savings_ratio_typed raw visible < 0 \<longleftrightarrow> 0 < tok_get raw \<and> tok_get raw < tok_get visible)"
  by (auto simp: savings_ratio_typed_def savings_ratio_u64_def field_simps)

end
