(* ===== verification/ActionCache.thy ===== *)
theory ActionCache
  imports OrdMap SessionAliases
begin

text \<open>
  The segmented action cache (\<open>tokenzero-recovery/src/action_cache.rs\<close>): entries with a tombstone and
  a cold state, tenancy by world, serve pins, the eviction slack guard and the planning of blob
  eviction. The directory of segments is an ordered map from keys to what reading the segment
  gives (an entry, or the error of recovery, parsing or the schema stamp); the pins are the list
  of keys with a serve file. Write failures are a parameter, and so is the time. The lemmas show
  that planning never loses a valid entry, that a blob may be deleted only when no entry can be
  served, and, on interleavings of a reader with a planner, that a served artifact is never
  released.
\<close>

section \<open>Entries and keys\<close>

definition ACTIONCACHE_GC_GRACE_SECS :: nat where "ACTIONCACHE_GC_GRACE_SECS = 60"

record ActionCacheEntry =
  ac_key :: rstr
  ac_ref :: rstr
  ac_bookmark :: "rstr option"
  ac_dep_closure :: "rstr option"
  ac_class :: rstr
  ac_verified :: bool
  ac_world :: "rstr option"
  ac_tombstone :: bool
  ac_tombstoned_at :: "nat option"
  ac_cold :: bool
  ac_cold_since :: "nat option"

datatype ActionCacheError = AcIo rstr | AcJson rstr | AcSchema rstr | InvalidKey rstr
  | EvictionRefused nat nat nat int | InvalidDemandMass

record BlobEvictionPlan =
  plan_ref :: rstr
  cold_keys :: "rstr list"
  waiting_grace :: "rstr list"
  may_delete_blob :: bool

definition lower_hex64 :: "rstr \<Rightarrow> bool" where
  "lower_hex64 s \<longleftrightarrow> blen s = 64 \<and> list_all (\<lambda>b. is_ascii_hexdigit b \<and> \<not> (65 \<le> b \<and> b \<le> 90)) (as_bytes s)"

definition validate_key :: "rstr \<Rightarrow> ActionCacheError + unit" where
  "validate_key key = (if lower_hex64 key then Ok () else Err (InvalidKey key))"

definition artifact_full_hash :: "rstr \<Rightarrow> rstr option" where
  "artifact_full_hash r =
     (case strip_prefix (lit ''tz://blob/'') r of
        None \<Rightarrow> None
      | Some rest \<Rightarrow> if lower_hex64 rest then Some rest else None)"

definition world_matches :: "rstr option \<Rightarrow> rstr option \<Rightarrow> bool" where
  "world_matches entry_world resolver_world \<longleftrightarrow>
     (case (entry_world, resolver_world) of
        (None, _) \<Rightarrow> True
      | (Some e, Some r) \<Rightarrow> e = r
      | (Some _, None) \<Rightarrow> False)"

section \<open>The slack guard\<close>

definition ppm_of :: "nat \<Rightarrow> nat \<Rightarrow> nat" where
  "ppm_of n d = (if d = 0 then u64_max else sat_mul n 1000000 div d)"

definition retained_floor :: "nat \<Rightarrow> nat option" where
  "retained_floor demanded = (if demanded * 99 \<le> u64_max then Some (demanded * 99 div 100) else None)"

record EvictionSlackGuard =
  resident_mass :: nat
  demanded_mass :: nat

definition new_guard :: "nat \<Rightarrow> nat \<Rightarrow> ActionCacheError + EvictionSlackGuard" where
  "new_guard resident demanded =
     (if demanded = 0 then Err InvalidDemandMass else Ok \<lparr>resident_mass = resident, demanded_mass = demanded\<rparr>)"

definition i64_of :: "nat \<Rightarrow> int" where
  "i64_of n = (if int n \<le> 2 ^ 63 - 1 then int n else 2 ^ 63 - 1)"

definition slack_ppm :: "EvictionSlackGuard \<Rightarrow> int" where
  "slack_ppm g =
     (let floor = (case retained_floor (demanded_mass g) of None \<Rightarrow> u64_max | Some f \<Rightarrow> f)
      in i64_of (ppm_of (resident_mass g) (demanded_mass g)) - i64_of (ppm_of floor (demanded_mass g)))"

definition guard_eviction :: "EvictionSlackGuard \<Rightarrow> nat \<Rightarrow> ActionCacheError + unit" where
  "guard_eviction g w =
     (case retained_floor (demanded_mass g) of
        None \<Rightarrow> Err (EvictionRefused (resident_mass g) (demanded_mass g) w (slack_ppm g))
      | Some floor \<Rightarrow>
          if resident_mass g - w < floor then Err (EvictionRefused (resident_mass g) (demanded_mass g) w (slack_ppm g))
          else Ok ())"

section \<open>The index\<close>

record ActionCacheIndex =
  ac_segments :: "(rstr, ActionCacheError + ActionCacheEntry) btree"
  ac_serves :: "rstr list"

record cache_io =
  tilde_root :: bool
  write_error :: "rstr \<Rightarrow> ActionCacheError option"

definition load_raw :: "ActionCacheIndex \<Rightarrow> rstr \<Rightarrow> ActionCacheError + ActionCacheEntry option" where
  "load_raw I key =
     (case validate_key key of
        Inl e \<Rightarrow> Err e
      | Inr u \<Rightarrow>
          (case bt_get (ac_segments I) key of
             None \<Rightarrow> Ok None
           | Some (Inl e) \<Rightarrow> Err e
           | Some (Inr e) \<Rightarrow> Ok (Some e)))"

definition ac_get :: "ActionCacheIndex \<Rightarrow> rstr \<Rightarrow> ActionCacheError + ActionCacheEntry option" where
  "ac_get I key =
     (case validate_key key of
        Inl e \<Rightarrow> Err e
      | Inr u \<Rightarrow>
          (case bt_get (ac_segments I) key of
             None \<Rightarrow> Ok None
           | Some (Inl e) \<Rightarrow> Err e
           | Some (Inr e) \<Rightarrow> if ac_tombstone e then Ok None else Ok (Some e)))"

definition ac_put :: "cache_io \<Rightarrow> ActionCacheIndex \<Rightarrow> ActionCacheEntry \<Rightarrow> (ActionCacheError + unit) \<times> ActionCacheIndex" where
  "ac_put D I e =
     (case validate_key (ac_key e) of
        Inl x \<Rightarrow> (Err x, I)
      | Inr u \<Rightarrow>
     if ac_ref e = [] then (Err (AcIo (lit ''actioncache artifact_ref must be non-empty'')), I)
     else if tilde_root D then (Err (AcIo (lit ''unexpanded ~ store path'')), I)
     else case load_raw I (ac_key e) of
        Inl x \<Rightarrow> (Err x, I)
      | Inr existing \<Rightarrow>
          if (case existing of None \<Rightarrow> False | Some x \<Rightarrow> \<not> ac_tombstone x \<and> ac_world x \<noteq> ac_world e) then (Ok (), I)
          else case write_error D (ac_key e) of
            Some x \<Rightarrow> (Err x, I)
          | None \<Rightarrow> (Ok (), I\<lparr>ac_segments := bt_insert (ac_key e) (Inr e) (ac_segments I)\<rparr>))"

text \<open>An update of the live entry of a key, as the three operations below share it.\<close>

definition update_live ::
    "cache_io \<Rightarrow> ActionCacheIndex \<Rightarrow> rstr \<Rightarrow> (ActionCacheEntry \<Rightarrow> bool option) \<Rightarrow> (ActionCacheEntry \<Rightarrow> ActionCacheEntry) \<Rightarrow>
     (ActionCacheError + bool) \<times> ActionCacheIndex" where
  "update_live D I key early f =
     (case ac_get I key of
        Inl x \<Rightarrow> (Err x, I)
      | Inr None \<Rightarrow> (Ok False, I)
      | Inr (Some e) \<Rightarrow>
          (case early e of
             Some b \<Rightarrow> (Ok b, I)
           | None \<Rightarrow> (case ac_put D I (f e) of (Inl x, I') \<Rightarrow> (Err x, I') | (Inr u, I') \<Rightarrow> (Ok True, I'))))"

definition tombstone_at :: "cache_io \<Rightarrow> ActionCacheIndex \<Rightarrow> rstr \<Rightarrow> nat \<Rightarrow> (ActionCacheError + bool) \<times> ActionCacheIndex" where
  "tombstone_at D I key now = update_live D I key (\<lambda>e. None) (\<lambda>e. e\<lparr>ac_tombstone := True, ac_tombstoned_at := Some now\<rparr>)"

definition mark_l3_loss :: "cache_io \<Rightarrow> ActionCacheIndex \<Rightarrow> rstr \<Rightarrow> nat \<Rightarrow> (ActionCacheError + bool) \<times> ActionCacheIndex" where
  "mark_l3_loss D I key now =
     update_live D I key (\<lambda>e. if ac_cold e then Some True else None) (\<lambda>e. e\<lparr>ac_cold := True, ac_cold_since := Some now\<rparr>)"

definition complete_refetch :: "cache_io \<Rightarrow> ActionCacheIndex \<Rightarrow> rstr \<Rightarrow> (ActionCacheError + bool) \<times> ActionCacheIndex" where
  "complete_refetch D I key =
     update_live D I key (\<lambda>e. if ac_cold e then None else Some False) (\<lambda>e. e\<lparr>ac_cold := False, ac_cold_since := None\<rparr>)"

definition resolve :: "ActionCacheIndex \<Rightarrow> rstr \<Rightarrow> rstr option \<Rightarrow> ActionCacheError + ActionCacheEntry option" where
  "resolve I key world =
     (case ac_get I key of
        Inl x \<Rightarrow> Err x
      | Inr None \<Rightarrow> Ok None
      | Inr (Some e) \<Rightarrow> if \<not> world_matches (ac_world e) world then Ok None else Ok (Some e))"

text \<open>
  \<open>Drop for ServedArtifact\<close>: the pin is one file per key. \<open>serve\<close> runs here without interference,
  so that its second look sees what the first saw; the interleavings are below.
\<close>

definition drop_serve :: "ActionCacheIndex \<Rightarrow> rstr \<Rightarrow> ActionCacheIndex" where
  "drop_serve I key = I\<lparr>ac_serves := removeAll key (ac_serves I)\<rparr>"

definition serve :: "ActionCacheIndex \<Rightarrow> rstr \<Rightarrow> (ActionCacheError + ActionCacheEntry option) \<times> ActionCacheIndex" where
  "serve I key =
     (case ac_get I key of
        Inl x \<Rightarrow> (Err x, I)
      | Inr None \<Rightarrow> (Ok None, I)
      | Inr (Some e) \<Rightarrow>
          if ac_cold e then (Ok None, I)
          else
            (let I' = I\<lparr>ac_serves := key # ac_serves I\<rparr> in
             case ac_get I' key of
               Inl x \<Rightarrow> (Err x, drop_serve I' key)
             | Inr None \<Rightarrow> (Ok None, drop_serve I' key)
             | Inr (Some fresh) \<Rightarrow> if \<not> ac_cold fresh then (Ok (Some fresh), I') else (Ok None, drop_serve I' key)))"

definition has_in_flight_serve :: "ActionCacheIndex \<Rightarrow> rstr \<Rightarrow> bool" where
  "has_in_flight_serve I key \<longleftrightarrow> lower_hex64 key \<and> key \<in> set (ac_serves I)"

definition all_keys :: "ActionCacheIndex \<Rightarrow> rstr list" where
  "all_keys I = filter lower_hex64 (bt_keys (ac_segments I))"

fun keys_loop :: "ActionCacheIndex \<Rightarrow> rstr \<Rightarrow> bool \<Rightarrow> rstr list \<Rightarrow> ActionCacheError + rstr list" where
  "keys_loop I r inc [] = Ok []"
| "keys_loop I r inc (k # ks) =
     (case load_raw I k of
        Inl x \<Rightarrow> Err x
      | Inr e \<Rightarrow>
          (case keys_loop I r inc ks of
             Inl x \<Rightarrow> Err x
           | Inr rest \<Rightarrow>
               Ok (case e of
                     None \<Rightarrow> rest
                   | Some e \<Rightarrow> if ac_ref e \<noteq> r \<or> ac_tombstone e \<and> \<not> inc then rest else k # rest)))"

definition keys_for_artifact :: "ActionCacheIndex \<Rightarrow> rstr \<Rightarrow> bool \<Rightarrow> ActionCacheError + rstr list" where
  "keys_for_artifact I r inc = (case keys_loop I r inc (all_keys I) of Inl x \<Rightarrow> Err x | Inr ks \<Rightarrow> Ok (sort ks))"

section \<open>Eviction\<close>

fun mark_cold_keys ::
    "cache_io \<Rightarrow> ActionCacheIndex \<Rightarrow> nat \<Rightarrow> rstr list \<Rightarrow> (ActionCacheError + rstr list) \<times> ActionCacheIndex" where
  "mark_cold_keys D I now [] = (Ok [], I)"
| "mark_cold_keys D I now (k # ks) =
     (case mark_l3_loss D I k now of
        (Inl x, I) \<Rightarrow> (Err x, I)
      | (Inr b, I) \<Rightarrow>
          (case mark_cold_keys D I now ks of
             (Inl x, I) \<Rightarrow> (Err x, I)
           | (Inr rest, I) \<Rightarrow> (Ok (if b then k # rest else rest), I)))"

definition released :: "nat \<Rightarrow> nat \<Rightarrow> ActionCacheEntry \<Rightarrow> bool" where
  "released now grace e \<longleftrightarrow>
     (case (if ac_tombstone e then ac_tombstoned_at e else ac_cold_since e) of
        None \<Rightarrow> False | Some t \<Rightarrow> grace \<le> now - t)"

fun grace_loop :: "ActionCacheIndex \<Rightarrow> nat \<Rightarrow> nat \<Rightarrow> rstr list \<Rightarrow> bool \<Rightarrow> ActionCacheError + (bool \<times> rstr list)" where
  "grace_loop I now grace [] may = Ok (may, [])"
| "grace_loop I now grace (k # ks) may =
     (case load_raw I k of
        Inl x \<Rightarrow> Err x
      | Inr None \<Rightarrow> grace_loop I now grace ks may
      | Inr (Some e) \<Rightarrow>
          if \<not> ac_tombstone e \<and> \<not> ac_cold e then grace_loop I now grace ks False
          else if released now grace e then grace_loop I now grace ks may
          else (case grace_loop I now grace ks False of Inl x \<Rightarrow> Err x | Inr (m, ws) \<Rightarrow> Ok (m, k # ws)))"

definition prepare_blob_eviction ::
    "cache_io \<Rightarrow> ActionCacheIndex \<Rightarrow> rstr \<Rightarrow> nat \<Rightarrow> nat \<Rightarrow> EvictionSlackGuard \<Rightarrow> nat \<Rightarrow>
     (ActionCacheError + BlobEvictionPlan) \<times> ActionCacheIndex" where
  "prepare_blob_eviction D I r now grace slack w =
     (case guard_eviction slack w of
        Inl x \<Rightarrow> (Err x, I)
      | Inr u \<Rightarrow>
     (case keys_for_artifact I r False of
        Inl x \<Rightarrow> (Err x, I)
      | Inr live \<Rightarrow>
     (case mark_cold_keys D I now live of
        (Inl x, I) \<Rightarrow> (Err x, I)
      | (Inr cold, I) \<Rightarrow>
     (case keys_for_artifact I r True of
        Inl x \<Rightarrow> (Err x, I)
      | Inr ks \<Rightarrow>
          (case grace_loop I now grace ks (\<not> list_ex (\<lambda>k. k \<in> set (ac_serves I)) ks) of
             Inl x \<Rightarrow> (Err x, I)
           | Inr (may, waiting) \<Rightarrow>
               (Ok \<lparr>plan_ref = r, cold_keys = cold, waiting_grace = waiting, may_delete_blob = may\<rparr>, I))))))"

fun protects_loop :: "ActionCacheIndex \<Rightarrow> rstr \<Rightarrow> nat \<Rightarrow> nat \<Rightarrow> rstr list \<Rightarrow> ActionCacheError + bool" where
  "protects_loop I h now grace [] = Ok False"
| "protects_loop I h now grace (k # ks) =
     (case load_raw I k of
        Inl x \<Rightarrow> Err x
      | Inr None \<Rightarrow> protects_loop I h now grace ks
      | Inr (Some e) \<Rightarrow>
          if artifact_full_hash (ac_ref e) \<noteq> Some h then protects_loop I h now grace ks
          else if \<not> ac_tombstone e \<and> \<not> ac_cold e then Ok True
          else if released now grace e then protects_loop I h now grace ks
          else Ok True)"

definition protects_hash :: "ActionCacheIndex \<Rightarrow> rstr \<Rightarrow> nat \<Rightarrow> nat \<Rightarrow> ActionCacheError + bool" where
  "protects_hash I h now grace = protects_loop I h now grace (all_keys I)"

definition action_cache_protects_hash :: "ActionCacheIndex \<Rightarrow> nat \<Rightarrow> rstr \<Rightarrow> bool" where
  "action_cache_protects_hash I now h =
     (case protects_hash I h now ACTIONCACHE_GC_GRACE_SECS of Inl x \<Rightarrow> True | Inr b \<Rightarrow> b)"

fun live_loop :: "ActionCacheIndex \<Rightarrow> rstr list \<Rightarrow> ActionCacheError + rstr list" where
  "live_loop I [] = Ok []"
| "live_loop I (k # ks) =
     (case ac_get I k of
        Inl x \<Rightarrow> Err x
      | Inr e \<Rightarrow>
          (case live_loop I ks of
             Inl x \<Rightarrow> Err x
           | Inr rest \<Rightarrow> Ok (if e \<noteq> None then k # rest else rest)))"

definition live_keys :: "ActionCacheIndex \<Rightarrow> ActionCacheError + rstr list" where
  "live_keys I = live_loop I (all_keys I)"

fun refs_loop :: "ActionCacheIndex \<Rightarrow> rstr list \<Rightarrow> ActionCacheError + rstr list" where
  "refs_loop I [] = Ok []"
| "refs_loop I (k # ks) =
     (case ac_get I k of
        Inl x \<Rightarrow> Err x
      | Inr e \<Rightarrow>
          (case refs_loop I ks of
             Inl x \<Rightarrow> Err x
           | Inr rest \<Rightarrow> Ok (case e of None \<Rightarrow> rest | Some e \<Rightarrow> ac_ref e # rest)))"

definition live_artifact_refs :: "ActionCacheIndex \<Rightarrow> ActionCacheError + rstr list" where
  "live_artifact_refs I =
     (case live_keys I of
        Inl x \<Rightarrow> Err x
      | Inr ks \<Rightarrow> (case refs_loop I ks of Inl x \<Rightarrow> Err x | Inr rs \<Rightarrow> Ok (remdups_adj (sort rs))))"

text \<open>
  The race of a reader with a planner over one key, one file operation a step. The reader looks, writes
  the pin, looks again and holds or gives up, and drops. The planner reads the entry; a live warm one it cools, reads again for the
  check of the world and writes back; then it checks the pin, checks the grace, and has the permission to delete. It may give up and start over
  at any point before that.
\<close>

definition warm :: "ActionCacheIndex \<Rightarrow> rstr \<Rightarrow> bool" where
  "warm I k \<longleftrightarrow> (case ac_get I k of Inr (Some e) \<Rightarrow> \<not> ac_cold e | _ \<Rightarrow> False)"

definition cool :: "nat \<Rightarrow> ActionCacheEntry \<Rightarrow> ActionCacheEntry" where
  "cool now e = e\<lparr>ac_cold := True, ac_cold_since := Some now\<rparr>"

datatype reader = RIdle | RSeen | RPinned | RHolds

datatype planner = PIdle | PRead ActionCacheEntry | PChecked ActionCacheEntry | PMarked | PUnpinned | PGranted

inductive reader_step :: "rstr \<Rightarrow> ActionCacheIndex \<times> reader \<Rightarrow> ActionCacheIndex \<times> reader \<Rightarrow> bool" for k where
  look: "warm I k \<Longrightarrow> reader_step k (I, RIdle) (I, RSeen)"
| pin: "reader_step k (I, RSeen) (I\<lparr>ac_serves := k # ac_serves I\<rparr>, RPinned)"
| hold: "warm I k \<Longrightarrow> reader_step k (I, RPinned) (I, RHolds)"
| give_up: "\<not> warm I k \<Longrightarrow> reader_step k (I, RPinned) (drop_serve I k, RIdle)"
| release: "reader_step k (I, RHolds) (drop_serve I k, RIdle)"

inductive planner_step :: "cache_io \<Rightarrow> rstr \<Rightarrow> ActionCacheIndex \<times> planner \<Rightarrow> ActionCacheIndex \<times> planner \<Rightarrow> bool" for D k where
  settled: "ac_get I k = Ok e \<Longrightarrow> (case e of None \<Rightarrow> True | Some x \<Rightarrow> ac_cold x) \<Longrightarrow> planner_step D k (I, PIdle) (I, PMarked)"
| read: "ac_get I k = Ok (Some e) \<Longrightarrow> \<not> ac_cold e \<Longrightarrow> planner_step D k (I, PIdle) (I, PRead (cool now e))"
| foreign: "\<not> tilde_root D \<Longrightarrow> load_raw I k = Ok (Some x) \<Longrightarrow> \<not> ac_tombstone x \<Longrightarrow> ac_world x \<noteq> ac_world e \<Longrightarrow>
    planner_step D k (I, PRead e) (I, PMarked)"
| own: "\<not> tilde_root D \<Longrightarrow> load_raw I k = Ok x \<Longrightarrow> (case x of None \<Rightarrow> True | Some y \<Rightarrow> ac_tombstone y \<or> ac_world y = ac_world e) \<Longrightarrow>
    planner_step D k (I, PRead e) (I, PChecked e)"
| write_back: "write_error D k = None \<Longrightarrow>
    planner_step D k (I, PChecked e) (I\<lparr>ac_segments := bt_insert k (Inr e) (ac_segments I)\<rparr>, PMarked)"
| unpinned: "k \<notin> set (ac_serves I) \<Longrightarrow> planner_step D k (I, PMarked) (I, PUnpinned)"
| grant: "load_raw I k = Ok (Some e) \<Longrightarrow> ac_tombstone e \<or> ac_cold e \<Longrightarrow> released now grace e \<Longrightarrow>
    planner_step D k (I, PUnpinned) (I, PGranted)"
| retry: "p \<noteq> PGranted \<Longrightarrow> planner_step D k (I, p) (I, PIdle)"

inductive race_step ::
    "cache_io \<Rightarrow> rstr \<Rightarrow> ActionCacheIndex \<times> reader \<times> planner \<Rightarrow> ActionCacheIndex \<times> reader \<times> planner \<Rightarrow> bool"
    for D k where
  reader: "reader_step k (I, s) (I', s') \<Longrightarrow> race_step D k (I, s, p) (I', s', p)"
| planner: "planner_step D k (I, p) (I', p') \<Longrightarrow> race_step D k (I, s, p) (I', s, p')"

definition ac_wf :: "ActionCacheIndex \<Rightarrow> bool" where
  "ac_wf I \<longleftrightarrow> bt_wf (ac_segments I) \<and>
     list_all (\<lambda>(k, v). case v of Inl x \<Rightarrow> True | Inr e \<Rightarrow> ac_key e = k \<and> lower_hex64 k \<and> ac_ref e \<noteq> []) (ac_segments I)"

section \<open>Reading and writing one entry\<close>

lemma validate_key_simps [simp]:
  "validate_key k = Inr u \<longleftrightarrow> lower_hex64 k"
  "validate_key k = Inl x \<longleftrightarrow> \<not> lower_hex64 k \<and> x = InvalidKey k"
  by (auto simp: validate_key_def)

lemma load_raw_Some: "load_raw I k = Ok (Some e) \<longleftrightarrow> lower_hex64 k \<and> bt_get (ac_segments I) k = Some (Inr e)"
  by (auto simp: load_raw_def validate_key_def split: option.splits sum.splits)

lemma ac_get_Some:
  "ac_get I k = Ok (Some e) \<longleftrightarrow> lower_hex64 k \<and> bt_get (ac_segments I) k = Some (Inr e) \<and> \<not> ac_tombstone e"
  by (auto simp: ac_get_def validate_key_def split: option.splits sum.splits)

lemma warm_iff:
  "warm I k \<longleftrightarrow> (\<exists>e. lower_hex64 k \<and> bt_get (ac_segments I) k = Some (Inr e) \<and> \<not> ac_tombstone e \<and> \<not> ac_cold e)"
  using ac_get_Some [of I k] by (auto simp: warm_def split: sum.splits option.splits)

lemma ac_wf_entry:
  assumes "ac_wf I" "bt_get (ac_segments I) k = Some (Inr e)"
  shows "ac_key e = k" "lower_hex64 k" "ac_ref e \<noteq> []"
  using assms map_of_SomeD [of "ac_segments I" k "Inr e"]
  by (force simp: ac_wf_def bt_get_def list_all_iff)+

lemma ac_segments_insert: "set (bt_insert k v m) \<subseteq> insert (k, v) (set m)"
  by (induction k v m rule: bt_insert.induct) auto

lemma ac_wf_insert:
  assumes "ac_wf I" "lower_hex64 (ac_key e)" "ac_ref e \<noteq> []"
  shows "ac_wf (I\<lparr>ac_segments := bt_insert (ac_key e) (Inr e) (ac_segments I)\<rparr>)"
  using assms ac_segments_insert [of "ac_key e" "Inr e" "ac_segments I"]
  by (auto simp: ac_wf_def bt_wf_insert list_all_iff)

lemma ac_put_cases:
  "ac_put D I e = (r, I') \<Longrightarrow>
     I' = I \<or> (I' = I\<lparr>ac_segments := bt_insert (ac_key e) (Inr e) (ac_segments I)\<rparr> \<and> r = Ok () \<and>
              lower_hex64 (ac_key e) \<and> ac_ref e \<noteq> [])"
  by (auto simp: ac_put_def split: sum.splits if_splits option.splits)

text \<open>Rewriting an entry over itself in its own world is never skipped.\<close>

lemma ac_put_same_world:
  assumes "bt_get (ac_segments I) (ac_key e) = Some (Inr x)" "ac_world x = ac_world e"
    and "ac_put D I e = (Ok u, I')"
  shows "I' = I\<lparr>ac_segments := bt_insert (ac_key e) (Inr e) (ac_segments I)\<rparr>"
  using assms by (auto simp: ac_put_def load_raw_Some split: sum.splits if_splits option.splits)

lemma update_live_cases:
  assumes wf: "ac_wf I" and f: "\<And>e. ac_key (f e) = ac_key e" "\<And>e. ac_ref (f e) = ac_ref e" "\<And>e. ac_world (f e) = ac_world e"
    and u: "update_live D I k early f = (r, I')"
  shows "I' = I \<and> (\<forall>b. r = Ok b \<longrightarrow> (\<forall>e. ac_get I k = Ok (Some e) \<longrightarrow> early e = Some b)) \<or>
    (\<exists>e. ac_get I k = Ok (Some e) \<and> early e = None \<and> r = Ok True \<and>
         I' = I\<lparr>ac_segments := bt_insert k (Inr (f e)) (ac_segments I)\<rparr> \<and> ac_wf I')"
proof (cases "\<exists>e. ac_get I k = Ok (Some e) \<and> early e = None")
  case False
  with u show ?thesis by (auto simp: update_live_def split: sum.splits option.splits)
next
  case True
  then obtain e where e: "ac_get I k = Ok (Some e)" "early e = None" by blast
  then have seg: "bt_get (ac_segments I) k = Some (Inr e)" by (simp add: ac_get_Some)
  note ent = ac_wf_entry [OF wf seg]
  obtain q J where q: "ac_put D I (f e) = (q, J)" by fastforce
  show ?thesis
  proof (cases q)
    case (Inl x)
    with q ac_put_cases [OF q] have "J = I" by auto
    with u e q Inl show ?thesis by (auto simp: update_live_def)
  next
    case (Inr v)
    have J: "J = I\<lparr>ac_segments := bt_insert k (Inr (f e)) (ac_segments I)\<rparr>"
      using ac_put_same_world [of I "f e" e D v J] q Inr seg f ent by simp
    have "ac_wf J" using ac_wf_insert [OF wf, of "f e"] ent f J by simp
    with u e q Inr J show ?thesis by (auto simp: update_live_def)
  qed
qed

lemma mark_l3_loss_cases:
  assumes "ac_wf I" "mark_l3_loss D I k now = (r, I')"
  shows "I' = I \<and> (\<forall>b. r = Ok b \<longrightarrow> \<not> warm I k) \<or>
    (\<exists>e. bt_get (ac_segments I) k = Some (Inr e) \<and> \<not> ac_tombstone e \<and> \<not> ac_cold e \<and> r = Ok True \<and>
         I' = I\<lparr>ac_segments := bt_insert k (Inr (cool now e)) (ac_segments I)\<rparr> \<and> ac_wf I')"
  using update_live_cases [OF assms(1) _ _ _ assms(2) [unfolded mark_l3_loss_def]]
  by (auto simp: warm_iff ac_get_Some cool_def split: if_splits)

lemma mark_l3_loss_not_warm:
  assumes "ac_wf I" "mark_l3_loss D I k now = (Ok b, I')"
  shows "\<not> warm I' k"
  using mark_l3_loss_cases [OF assms] by (auto simp: warm_iff cool_def)

lemma mark_l3_loss_wf: "ac_wf I \<Longrightarrow> mark_l3_loss D I k now = (r, I') \<Longrightarrow> ac_wf I' \<and> ac_serves I' = ac_serves I"
  using mark_l3_loss_cases [of I D k now r I'] by auto

section \<open>What planning keeps\<close>

text \<open>Every segment is as it was, or a live warm entry that has gone cold at \<open>now\<close>.\<close>

definition kept :: "nat \<Rightarrow> (ActionCacheError + ActionCacheEntry) option \<Rightarrow> (ActionCacheError + ActionCacheEntry) option \<Rightarrow> bool" where
  "kept now a b \<longleftrightarrow> b = a \<or> (\<exists>e. a = Some (Inr e) \<and> \<not> ac_tombstone e \<and> \<not> ac_cold e \<and> b = Some (Inr (cool now e)))"

lemma kept_trans: "kept now a b \<Longrightarrow> kept now b c \<Longrightarrow> kept now a c"
  by (auto simp: kept_def cool_def)

lemma mark_l3_loss_kept:
  assumes "ac_wf I" "mark_l3_loss D I k now = (r, I')"
  shows "kept now (bt_get (ac_segments I) j) (bt_get (ac_segments I') j)"
  using mark_l3_loss_cases [OF assms] by (auto simp: kept_def)

lemma mark_cold_keys_kept:
  "mark_cold_keys D I now ks = (r, I') \<Longrightarrow> ac_wf I \<Longrightarrow>
     ac_wf I' \<and> ac_serves I' = ac_serves I \<and> (\<forall>j. kept now (bt_get (ac_segments I) j) (bt_get (ac_segments I') j))"
proof (induction ks arbitrary: I r)
  case (Cons k ks)
  obtain q J where q: "mark_l3_loss D I k now = (q, J)" by fastforce
  note J = mark_l3_loss_wf [OF Cons.prems(2) q] mark_l3_loss_kept [OF Cons.prems(2) q]
  show ?case
  proof (cases q)
    case (Inl x)
    with Cons.prems q J show ?thesis by auto
  next
    case (Inr b)
    obtain q' where "mark_cold_keys D J now ks = (q', I')"
      using Cons.prems q Inr by (auto split: prod.splits sum.splits)
    from Cons.IH [OF this] J show ?thesis by (auto intro: kept_trans)
  qed
qed (simp add: kept_def)

lemma prepare_kept:
  assumes "ac_wf I" "prepare_blob_eviction D I r now grace slack w = (q, I')"
  shows "ac_wf I' \<and> ac_serves I' = ac_serves I \<and> (\<forall>j. kept now (bt_get (ac_segments I) j) (bt_get (ac_segments I') j))"
proof -
  have "I' = I \<or> (\<exists>ks p. mark_cold_keys D I now ks = (p, I'))"
    using assms(2) by (auto simp: prepare_blob_eviction_def split: sum.splits prod.splits)
  then show ?thesis
  proof
    assume "I' = I"
    with assms(1) show ?thesis by (simp add: kept_def)
  qed (use mark_cold_keys_kept assms(1) in blast)
qed

section \<open>What a plan promises\<close>

lemma keys_loop_set:
  "keys_loop I r inc ks = Ok out \<Longrightarrow>
     set out = {k \<in> set ks. \<exists>e. load_raw I k = Ok (Some e) \<and> ac_ref e = r \<and> (ac_tombstone e \<longrightarrow> inc)}"
proof (induction ks arbitrary: out)
  case (Cons k ks)
  then obtain e rest where r: "load_raw I k = Ok e" "keys_loop I r inc ks = Ok rest"
    by (auto split: sum.splits)
  note Cons.IH [OF r(2)]
  with Cons.prems r show ?case by (cases e) (auto split: if_splits)
qed simp

lemma keys_for_artifact_set:
  assumes "keys_for_artifact I r inc = Ok ks"
  shows "set ks = {k. \<exists>e. lower_hex64 k \<and> bt_get (ac_segments I) k = Some (Inr e) \<and> ac_ref e = r \<and> (ac_tombstone e \<longrightarrow> inc)}"
  using assms bt_get_Some_key [of "ac_segments I"]
  by (auto simp: keys_for_artifact_def all_keys_def load_raw_Some dest!: keys_loop_set split: sum.splits)

lemma grace_loop_may:
  "grace_loop I now grace ks may = Ok (True, ws) \<Longrightarrow>
     may \<and> (\<forall>k \<in> set ks. \<forall>e. load_raw I k = Ok (Some e) \<longrightarrow> (ac_tombstone e \<or> ac_cold e) \<and> released now grace e)"
proof (induction ks arbitrary: may ws)
  case (Cons k ks)
  then show ?case by (fastforce split: sum.splits option.splits if_splits)
qed simp

lemma guard_eviction_floor:
  "guard_eviction g w = Ok () \<longleftrightarrow> demanded_mass g * 99 \<le> u64_max \<and> demanded_mass g * 99 div 100 \<le> resident_mass g - w"
  by (auto simp: guard_eviction_def retained_floor_def split: if_splits)

lemma serve_not_warm: "\<not> warm I k \<Longrightarrow> fst (serve I k) \<noteq> Ok (Some e)"
  by (auto simp: serve_def warm_def Let_def split: sum.splits option.splits if_splits)

lemma prepare_may_delete:
  assumes "prepare_blob_eviction D I r now grace slack w = (Ok plan, I')" "may_delete_blob plan"
    and "lower_hex64 k" "bt_get (ac_segments I') k = Some (Inr e)" "ac_ref e = r"
  shows "(ac_tombstone e \<or> ac_cold e) \<and> released now grace e \<and> k \<notin> set (ac_serves I')"
proof -
  obtain ks ws where ks: "keys_for_artifact I' r True = Ok ks"
    and g: "grace_loop I' now grace ks (\<not> list_ex (\<lambda>k. k \<in> set (ac_serves I')) ks) = Ok (True, ws)"
    using assms(1,2) by (auto simp: prepare_blob_eviction_def split: sum.splits prod.splits)
  have k: "k \<in> set ks" using keys_for_artifact_set [OF ks] assms(3-5) by auto
  have "load_raw I' k = Ok (Some e)" using assms(3,4) by (simp add: load_raw_Some)
  with grace_loop_may [OF g] k show ?thesis by (auto simp: list_ex_iff)
qed

lemma prepare_guard:
  "prepare_blob_eviction D I r now grace slack w = (Ok plan, I') \<Longrightarrow> guard_eviction slack w = Ok ()"
  by (auto simp: prepare_blob_eviction_def split: sum.splits)

lemma prepare_refused:
  assumes "u64_max < demanded_mass slack * 99 \<or> resident_mass slack - w < demanded_mass slack * 99 div 100"
  shows "prepare_blob_eviction D I r now grace slack w =
    (Err (EvictionRefused (resident_mass slack) (demanded_mass slack) w (slack_ppm slack)), I)"
  using assms by (auto simp: prepare_blob_eviction_def guard_eviction_def retained_floor_def)

lemma not_warm_kept: "kept now (bt_get (ac_segments I) k) (bt_get (ac_segments J) k) \<Longrightarrow> \<not> warm I k \<Longrightarrow> \<not> warm J k"
  by (auto simp: kept_def warm_iff cool_def)

lemma mark_cold_keys_not_warm:
  "mark_cold_keys D I now ks = (Ok out, I') \<Longrightarrow> ac_wf I \<Longrightarrow> k \<in> set ks \<Longrightarrow> \<not> warm I' k"
proof (induction ks arbitrary: I out)
  case (Cons a ks)
  then obtain b J rest where J: "mark_l3_loss D I a now = (Ok b, J)" and rest: "mark_cold_keys D J now ks = (Ok rest, I')"
    by (auto split: prod.splits sum.splits)
  have wf: "ac_wf J" using mark_l3_loss_wf [OF Cons.prems(2) J] by simp
  show ?case
  proof (cases "k \<in> set ks")
    case True
    then show ?thesis using Cons.IH [OF rest wf] by blast
  next
    case False
    then have "\<not> warm J k" using mark_l3_loss_not_warm [OF Cons.prems(2) J] Cons.prems(3) by simp
    then show ?thesis using mark_cold_keys_kept [OF rest wf] not_warm_kept by blast
  qed
qed simp

lemma keys_loop_readable: "(\<exists>out. keys_loop I r inc ks = Ok out) \<longleftrightarrow> (\<forall>k \<in> set ks. \<exists>e. load_raw I k = Ok e)"
  by (induction ks) (auto split: sum.splits)

lemma keys_for_artifact_readable:
  "(\<exists>ks. keys_for_artifact I r inc = Ok ks) \<longleftrightarrow> (\<forall>k \<in> set (all_keys I). \<exists>e. load_raw I k = Ok e)"
  using keys_loop_readable [of I r inc "all_keys I"] by (auto simp: keys_for_artifact_def split: sum.splits)

lemma mark_cold_keys_cold:
  "(\<And>k. k \<in> set ks \<Longrightarrow> \<exists>e. ac_get I k = Ok (Some e) \<and> ac_cold e) \<Longrightarrow> mark_cold_keys D I now ks = (Ok ks, I)"
proof (induction ks)
  case (Cons k ks)
  then obtain e where "ac_get I k = Ok (Some e)" "ac_cold e" by auto
  with Cons show ?case by (simp add: mark_l3_loss_def update_live_def)
qed simp

lemma grace_loop_released:
  "(\<And>k. k \<in> set ks \<Longrightarrow> \<exists>e. load_raw I k = Ok (Some e) \<and> (ac_tombstone e \<or> ac_cold e) \<and> released now grace e) \<Longrightarrow>
     grace_loop I now grace ks may = Ok (may, [])"
proof (induction ks)
  case (Cons k ks)
  then obtain e where "load_raw I k = Ok (Some e)" "ac_tombstone e \<or> ac_cold e" "released now grace e" by auto
  with Cons show ?case by auto
qed simp

text \<open>The stamps are no later than \<open>now\<close>.\<close>

definition stamped :: "nat \<Rightarrow> ActionCacheEntry \<Rightarrow> bool" where
  "stamped now e \<longleftrightarrow>
     (case (if ac_tombstone e then ac_tombstoned_at e else if ac_cold e then ac_cold_since e else Some now) of
        None \<Rightarrow> False | Some t \<Rightarrow> t \<le> now)"

lemma stamped_cool: "\<not> ac_tombstone e \<Longrightarrow> stamped now (cool now e)"
  by (simp add: stamped_def cool_def)

lemma stamped_released: "stamped now e \<Longrightarrow> ac_tombstone e \<or> ac_cold e \<Longrightarrow> now + grace \<le> later \<Longrightarrow> released later grace e"
  by (auto simp: stamped_def released_def split: option.splits if_splits)

text \<open>A second plan on an index whose entries for the artifact have all been cold for long enough.\<close>

lemma prepare_grants:
  assumes g: "guard_eviction slack w = Ok ()" and rd: "\<forall>k \<in> set (all_keys J). \<exists>e. load_raw J k = Ok e"
    and ents: "\<And>k e. lower_hex64 k \<Longrightarrow> bt_get (ac_segments J) k = Some (Inr e) \<Longrightarrow> ac_ref e = r \<Longrightarrow>
      (ac_tombstone e \<or> ac_cold e) \<and> released now grace e \<and> k \<notin> set (ac_serves J)"
  shows "\<exists>plan. prepare_blob_eviction D J r now grace slack w = (Ok plan, J) \<and> may_delete_blob plan \<and> waiting_grace plan = []"
proof -
  obtain live ks where live: "keys_for_artifact J r False = Ok live" and ks: "keys_for_artifact J r True = Ok ks"
    using rd keys_for_artifact_readable by metis
  have m: "mark_cold_keys D J now live = (Ok live, J)"
    by (rule mark_cold_keys_cold) (use keys_for_artifact_set [OF live] ents in \<open>auto simp: ac_get_Some\<close>)
  have np: "\<not> list_ex (\<lambda>k. k \<in> set (ac_serves J)) ks"
    using keys_for_artifact_set [OF ks] ents by (auto simp: list_ex_iff)
  have "grace_loop J now grace ks True = Ok (True, [])"
    by (rule grace_loop_released) (use keys_for_artifact_set [OF ks] ents in \<open>auto simp: load_raw_Some\<close>)
  with g live ks m np show ?thesis by (simp add: prepare_blob_eviction_def)
qed

lemma prepare_parts:
  assumes "prepare_blob_eviction D I r now grace slack w = (Ok plan, J)"
  obtains live cold ks where "keys_for_artifact I r False = Ok live" "mark_cold_keys D I now live = (Ok cold, J)"
    "keys_for_artifact J r True = Ok ks"
  using assms by (auto simp: prepare_blob_eviction_def split: sum.splits prod.splits)

section \<open>The race\<close>

text \<open>Without interference the planner's first steps are \<open>mark_l3_loss\<close>.\<close>

lemma mark_l3_loss_steps:
  assumes "ac_wf I" and "mark_l3_loss D I k now = (Ok b, I')"
  shows "(planner_step D k)\<^sup>*\<^sup>* (I, PIdle) (I', PMarked)"
proof -
  obtain x where x: "ac_get I k = Ok x" using assms(2) by (cases "ac_get I k") (auto simp: mark_l3_loss_def update_live_def)
  show ?thesis
  proof (cases "case x of None \<Rightarrow> True | Some e \<Rightarrow> ac_cold e")
    case True
    then have "I' = I" using assms(2) x by (auto simp: mark_l3_loss_def update_live_def split: option.splits)
    with planner_step.settled [OF x True, of D] show ?thesis by blast
  next
    case False
    then obtain e where e: "ac_get I k = Ok (Some e)" "\<not> ac_cold e" using x by (auto split: option.splits)
    then have key: "ac_key e = k" using ac_wf_entry(1) [OF assms(1)] by (auto simp: ac_get_Some)
    have raw: "load_raw I k = Ok (Some e)" "\<not> ac_tombstone e" using e(1) by (simp_all add: ac_get_Some load_raw_Some)
    obtain u where "ac_put D I (cool now e) = (Ok u, I')"
      using assms(2) e by (auto simp: mark_l3_loss_def update_live_def cool_def split: prod.splits sum.splits)
    then have put: "\<not> tilde_root D" "write_error D k = None" "I' = I\<lparr>ac_segments := bt_insert k (Inr (cool now e)) (ac_segments I)\<rparr>"
      using raw key by (auto simp: ac_put_def cool_def split: sum.splits if_splits option.splits)
    have "planner_step D k (I, PRead (cool now e)) (I, PChecked (cool now e))"
      by (rule planner_step.own [OF put(1) raw(1)]) (simp add: cool_def)
    then show ?thesis
      using planner_step.read [OF e, of D now] planner_step.write_back [OF put(2), of I "cool now e"] put(3)
      by (meson converse_rtranclp_into_rtranclp rtranclp.rtrancl_refl)
  qed
qed

text \<open>Only the planner writes segments, so what it read is still there when it writes back.\<close>

definition cooling :: "ActionCacheIndex \<Rightarrow> rstr \<Rightarrow> ActionCacheEntry \<Rightarrow> bool" where
  "cooling I k e \<longleftrightarrow> (\<exists>e0 now. ac_get I k = Ok (Some e0) \<and> e = cool now e0)"

fun planner_inv :: "ActionCacheIndex \<Rightarrow> rstr \<Rightarrow> planner \<Rightarrow> bool" where
  "planner_inv I k PIdle = True"
| "planner_inv I k (PRead e) = cooling I k e"
| "planner_inv I k (PChecked e) = cooling I k e"
| "planner_inv I k p = (\<not> warm I k)"

definition race_inv :: "rstr \<Rightarrow> ActionCacheIndex \<times> reader \<times> planner \<Rightarrow> bool" where
  "race_inv k x = (case x of (I, s, p) \<Rightarrow>
     ac_wf I \<and> planner_inv I k p \<and> (s \<in> {RPinned, RHolds} \<longrightarrow> k \<in> set (ac_serves I)) \<and>
     (p \<in> {PUnpinned, PGranted} \<longrightarrow> s \<noteq> RHolds))"

lemma ac_get_serves [simp]: "ac_get (I\<lparr>ac_serves := ss\<rparr>) k = ac_get I k" and load_raw_serves [simp]: "load_raw (I\<lparr>ac_serves := ss\<rparr>) k = load_raw I k"
proof -
  have "ac_segments (I\<lparr>ac_serves := ss\<rparr>) = ac_segments I" by simp
  note same = this
  show "ac_get (I\<lparr>ac_serves := ss\<rparr>) k = ac_get I k" "load_raw (I\<lparr>ac_serves := ss\<rparr>) k = load_raw I k"
    unfolding ac_get_def load_raw_def same by (rule refl)+
qed

lemma warm_serves [simp]: "warm (I\<lparr>ac_serves := ss\<rparr>) k = warm I k" "ac_wf (I\<lparr>ac_serves := ss\<rparr>) = ac_wf I"
  by (simp_all add: warm_iff ac_wf_def)

lemma planner_inv_serves [simp]: "planner_inv (I\<lparr>ac_serves := ss\<rparr>) k p = planner_inv I k p"
  by (cases p) (simp_all add: cooling_def)

lemma planner_inv_warm: "planner_inv I k p \<Longrightarrow> warm I k \<Longrightarrow> p \<notin> {PMarked, PUnpinned, PGranted}"
  by (cases p) auto

lemma reader_keeps:
  assumes "reader_step k (I, s) (I', s')" and "race_inv k (I, s, p)"
  shows "race_inv k (I', s', p)"
  using assms(1)
proof (cases rule: reader_step.cases)
  case hold
  with assms(2) planner_inv_warm [of I k p] show ?thesis by (auto simp: race_inv_def)
qed (use assms(2) in \<open>auto simp: race_inv_def drop_serve_def\<close>)

lemma write_back_cools:
  assumes "ac_wf I" "cooling I k e"
  shows "ac_wf (I\<lparr>ac_segments := bt_insert k (Inr e) (ac_segments I)\<rparr>) \<and>
    \<not> warm (I\<lparr>ac_segments := bt_insert k (Inr e) (ac_segments I)\<rparr>) k"
proof -
  obtain e0 now where e: "ac_get I k = Ok (Some e0)" "e = cool now e0" using assms(2) by (auto simp: cooling_def)
  then have "ac_key e = k" "lower_hex64 k" "ac_ref e \<noteq> []" using ac_wf_entry [OF assms(1), of k e0] by (auto simp: ac_get_Some cool_def)
  with ac_wf_insert [OF assms(1), of e] e(2) show ?thesis by (auto simp: warm_iff cool_def)
qed

lemma planner_keeps:
  assumes "planner_step D k (I, p) (I', p')" and "race_inv k (I, s, p)"
  shows "race_inv k (I', s, p')"
  using assms(1)
proof (cases rule: planner_step.cases)
  case (settled e)
  then have "\<not> warm I k" by (auto simp: warm_def split: option.splits)
  with settled assms(2) show ?thesis by (auto simp: race_inv_def)
next
  case (read e now)
  with assms(2) show ?thesis by (auto simp: race_inv_def cooling_def)
next
  case (foreign x e)
  then have "cooling I k e" using assms(2) by (auto simp: race_inv_def)
  with foreign show ?thesis by (auto simp: cooling_def load_raw_Some ac_get_Some cool_def)
next
  case (write_back e)
  with assms(2) write_back_cools [of I k e] show ?thesis by (auto simp: race_inv_def)
next
  case unpinned
  with assms(2) show ?thesis by (auto simp: race_inv_def)
qed (use assms(2) in \<open>auto simp: race_inv_def\<close>)

lemma race_inv_step: "race_step D k x y \<Longrightarrow> race_inv k x \<Longrightarrow> race_inv k y"
  by (induction rule: race_step.induct) (auto intro: reader_keeps planner_keeps)

lemma race_inv_reach: "(race_step D k)\<^sup>*\<^sup>* x y \<Longrightarrow> race_inv k x \<Longrightarrow> race_inv k y"
  by (induction rule: rtranclp_induct) (auto intro: race_inv_step)

section \<open>Tenancy and layers\<close>

lemma refetch_restores:
  assumes "ac_wf I" and "mark_l3_loss D I k now = (Ok True, J)" and "complete_refetch D J k = (Ok True, I')"
    and "ac_get I k = Ok (Some e)" "\<not> ac_cold e"
  shows "ac_get I' k = Ok (Some (e\<lparr>ac_cold_since := None\<rparr>)) \<and>
    (\<forall>j. j \<noteq> k \<longrightarrow> bt_get (ac_segments I') j = bt_get (ac_segments I) j)"
proof -
  have J: "J = I\<lparr>ac_segments := bt_insert k (Inr (cool now e)) (ac_segments I)\<rparr>" "ac_wf J"
    using mark_l3_loss_cases [OF assms(1,2)] assms(4,5) by (auto simp: warm_iff ac_get_Some)
  show ?thesis
    using update_live_cases [OF J(2) _ _ _ assms(3) [unfolded complete_refetch_def]] J assms(4,5)
    by (auto simp: cool_def ac_get_Some split: if_splits)
qed

text \<open>A put keeps every entry of the other keys, and another world's live entry of its own key.\<close>

lemma ac_put_tenancy:
  assumes "ac_put D I e = (q, I')" "ac_get I k = Ok (Some x)" "k \<noteq> ac_key e \<or> ac_world x \<noteq> ac_world e"
  shows "ac_get I' k = Ok (Some x)"
proof (cases "k = ac_key e")
  case True
  with assms have "load_raw I (ac_key e) = Ok (Some x)" "\<not> ac_tombstone x" "ac_world x \<noteq> ac_world e"
    by (auto simp: load_raw_Some ac_get_Some)
  with assms(1) have "I' = I" by (auto simp: ac_put_def split: sum.splits if_splits)
  with assms(2) show ?thesis by simp
next
  case False
  with ac_put_cases [OF assms(1)] assms(2) show ?thesis by (auto simp: ac_get_Some)
qed

lemma resolve_scoped: "resolve I k world = Ok (Some e) \<Longrightarrow> ac_world e = None \<or> ac_world e = world"
  by (auto simp: resolve_def world_matches_def split: sum.splits option.splits if_splits)

text \<open>The sweep's question agrees with the plan: what a plan releases is no longer protected.\<close>

lemma protects_loop_False:
  "(\<And>k. k \<in> set ks \<Longrightarrow> \<exists>x. load_raw I k = Ok x \<and>
      (\<forall>e. x = Some e \<and> artifact_full_hash (ac_ref e) = Some h \<longrightarrow> (ac_tombstone e \<or> ac_cold e) \<and> released now grace e)) \<Longrightarrow>
     protects_loop I h now grace ks = Ok False"
proof (induction ks)
  case (Cons k ks)
  then obtain x where "load_raw I k = Ok x"
    "\<forall>e. x = Some e \<and> artifact_full_hash (ac_ref e) = Some h \<longrightarrow> (ac_tombstone e \<or> ac_cold e) \<and> released now grace e"
    by (meson list.set_intros(1))
  with Cons show ?case by (auto split: option.splits)
qed simp

lemma artifact_full_hash_ref: "artifact_full_hash r = Some h \<Longrightarrow> r = lit ''tz://blob/'' @ h"
  by (auto simp: artifact_full_hash_def strip_prefix_iff split: option.splits if_splits)

section \<open>Properties\<close>

text \<open>An index with one warm entry, and a disk that never fails.\<close>

definition sample_key :: rstr where "sample_key = replicate 64 48"

definition sample_entry :: ActionCacheEntry where
  "sample_entry = \<lparr>ac_key = sample_key, ac_ref = lit ''tz://blob/'' @ sample_key, ac_bookmark = None, ac_dep_closure = None,
     ac_class = lit ''read'', ac_verified = True, ac_world = Some (lit ''w''), ac_tombstone = False, ac_tombstoned_at = None,
     ac_cold = False, ac_cold_since = None\<rparr>"

definition sample_index :: ActionCacheIndex where
  "sample_index = \<lparr>ac_segments = [(sample_key, Inr sample_entry)], ac_serves = []\<rparr>"

definition sample_cache_io :: cache_io where
  "sample_cache_io = \<lparr>tilde_root = False, write_error = \<lambda>k. None\<rparr>"

definition sample_guard :: EvictionSlackGuard where
  "sample_guard = \<lparr>resident_mass = 100, demanded_mass = 100\<rparr>"

definition sample_cold :: ActionCacheIndex where
  "sample_cold = \<lparr>ac_segments = [(sample_key, Inr (cool 5 sample_entry))], ac_serves = []\<rparr>"

lemma sample_wf: "ac_wf sample_index" "lower_hex64 sample_key"
  by code_simp+

lemma sample_first: "prepare_blob_eviction sample_cache_io sample_index (ac_ref sample_entry) 5 60 sample_guard 1 =
    (Ok \<lparr>plan_ref = ac_ref sample_entry, cold_keys = [sample_key], waiting_grace = [sample_key], may_delete_blob = False\<rparr>, sample_cold)"
  by code_simp

lemma sample_second: "prepare_blob_eviction sample_cache_io sample_cold (ac_ref sample_entry) 65 60 sample_guard 1 =
    (Ok \<lparr>plan_ref = ac_ref sample_entry, cold_keys = [sample_key], waiting_grace = [], may_delete_blob = True\<rparr>, sample_cold)"
  by code_simp

lemma sample_get: "ac_get sample_index sample_key = Ok (Some sample_entry)"
  by code_simp

text \<open>C30: A blob may be deleted only when it is safe. If a plan for an artifact grants the deletion, then
  every readable entry that refers to it is tombstoned or marked cold, its grace has run out, no
  serve is in flight, a serve would return nothing, and the retained mass stays at or above
  99 percent of the demanded mass.
\<close>

theorem eviction_plan_safe:
  assumes "prepare_blob_eviction D I r now grace slack w = (Ok plan, I')" "may_delete_blob plan"
    and "lower_hex64 k" "bt_get (ac_segments I') k = Some (Inr e)" "ac_ref e = r"
  shows "(ac_tombstone e \<or> ac_cold e) \<and> released now grace e \<and> \<not> has_in_flight_serve I' k \<and>
    fst (serve I' k) = Ok None \<and> demanded_mass slack * 99 div 100 \<le> resident_mass slack - w"
proof -
  note p = prepare_may_delete [OF assms]
  have "fst (serve I' k) = Ok None"
    using p assms(3,4) by (auto simp: serve_def ac_get_def validate_key_def)
  with p prepare_guard [OF assms(1)] show ?thesis
    by (auto simp: guard_eviction_floor has_in_flight_serve_def)
qed

theorem eviction_plan_safe_witness:
  "released 65 60 (cool 5 sample_entry) \<and> \<not> has_in_flight_serve sample_cold sample_key \<and> fst (serve sample_cold sample_key) = Ok None"
  using eviction_plan_safe [OF sample_second _ sample_wf(2), of "cool 5 sample_entry"]
  by (simp add: sample_cold_def bt_get_def cool_def)

text \<open>
  Planning an eviction never loses validity. Whatever the plan's outcome, the index stays well
  formed, no pin is touched, every live entry is still live, and it is the same entry or the same
  entry newly marked cold; a plan that the slack guard refuses changes nothing at all.
\<close>

theorem eviction_keeps_validity:
  assumes "ac_wf I" "prepare_blob_eviction D I r now grace slack w = (q, I')"
  shows "ac_wf I' \<and> ac_serves I' = ac_serves I \<and>
    (\<forall>k e. ac_get I k = Ok (Some e) \<longrightarrow> ac_get I' k = Ok (Some e) \<or> \<not> ac_cold e \<and> ac_get I' k = Ok (Some (cool now e))) \<and>
    (resident_mass slack - w < demanded_mass slack * 99 div 100 \<longrightarrow> I' = I)"
proof -
  have "ac_get I' k = Ok (Some e) \<or> \<not> ac_cold e \<and> ac_get I' k = Ok (Some (cool now e))" if "ac_get I k = Ok (Some e)" for k e
  proof -
    have "kept now (bt_get (ac_segments I) k) (bt_get (ac_segments I') k)" using prepare_kept [OF assms] by blast
    with that show ?thesis by (auto simp: kept_def ac_get_Some cool_def)
  qed
  moreover have "resident_mass slack - w < demanded_mass slack * 99 div 100 \<Longrightarrow> I' = I"
    using assms(2) prepare_refused [of slack w D I r now grace] by auto
  ultimately show ?thesis using prepare_kept [OF assms] by blast
qed

theorem eviction_keeps_validity_witness:
  "ac_wf sample_cold \<and> ac_serves sample_cold = [] \<and> ac_get sample_cold sample_key = Ok (Some (cool 5 sample_entry))"
proof -
  have "ac_get sample_cold sample_key \<noteq> Ok (Some sample_entry)" by code_simp
  with eviction_keeps_validity [OF sample_wf(1) sample_first] sample_get show ?thesis
    by (auto simp: sample_index_def)
qed

text \<open>C31: Evictions make progress. After a plan for an artifact has gone through at time \<open>now\<close> on an index whose entries of that
  artifact carry no stamp later than \<open>now\<close>, planning again once the grace has passed grants the deletion if at that
  time none of the artifact's own keys is being served, whatever other keys are served then, whatever was served at the first
  plan and whatever the disk does, and changes nothing more.
\<close>

theorem eviction_progress:
  assumes "ac_wf I" and p: "prepare_blob_eviction D I r now grace slack w = (Ok plan, J)"
    and st: "\<forall>k e. bt_get (ac_segments I) k = Some (Inr e) \<and> ac_ref e = r \<longrightarrow> stamped now e"
    and free: "\<forall>k e. bt_get (ac_segments J) k = Some (Inr e) \<and> ac_ref e = r \<longrightarrow> k \<notin> set serves"
    and "now + grace \<le> later" and g: "guard_eviction slack' w' = Ok ()"
  shows "\<exists>plan'. prepare_blob_eviction D' (J\<lparr>ac_serves := serves\<rparr>) r later grace slack' w' = (Ok plan', J\<lparr>ac_serves := serves\<rparr>) \<and>
    may_delete_blob plan' \<and> waiting_grace plan' = []"
proof (rule prepare_grants [OF g])
  obtain live cold ks where l: "keys_for_artifact I r False = Ok live" and m: "mark_cold_keys D I now live = (Ok cold, J)"
    and k: "keys_for_artifact J r True = Ok ks" using p by (rule prepare_parts)
  show "\<forall>k \<in> set (all_keys (J\<lparr>ac_serves := serves\<rparr>)). \<exists>e. load_raw (J\<lparr>ac_serves := serves\<rparr>) k = Ok e"
    using k keys_for_artifact_readable [of J r True] by (simp add: all_keys_def)
  note kept = mark_cold_keys_kept [OF m assms(1)]
  fix k e
  assume "lower_hex64 k" "bt_get (ac_segments (J\<lparr>ac_serves := serves\<rparr>)) k = Some (Inr e)" "ac_ref e = r"
  then have a: "lower_hex64 k" "bt_get (ac_segments J) k = Some (Inr e)" "ac_ref e = r" by simp_all
  have kk: "kept now (bt_get (ac_segments I) k) (bt_get (ac_segments J) k)" using kept by blast
  have cold: "ac_tombstone e \<or> ac_cold e"
  proof (rule ccontr)
    assume n: "\<not> (ac_tombstone e \<or> ac_cold e)"
    with kk a(2) have "bt_get (ac_segments I) k = Some (Inr e)" by (auto simp: kept_def cool_def)
    with a n have "k \<in> set live" using keys_for_artifact_set [OF l] by simp
    with mark_cold_keys_not_warm [OF m assms(1)] a n show False by (auto simp: warm_iff)
  qed
  have "stamped now e"
  proof (cases "bt_get (ac_segments I) k = Some (Inr e)")
    case True
    with st a(3) show ?thesis by blast
  next
    case False
    with kk a(2) show ?thesis by (auto simp: kept_def stamped_cool)
  qed
  with cold show "(ac_tombstone e \<or> ac_cold e) \<and> released later grace e \<and> k \<notin> set (ac_serves (J\<lparr>ac_serves := serves\<rparr>))"
    using stamped_released assms(5) free a by simp
qed

theorem eviction_progress_witness:
  "\<exists>plan. prepare_blob_eviction sample_cache_io (sample_cold\<lparr>ac_serves := [replicate 64 49]\<rparr>) (ac_ref sample_entry) 65 60 sample_guard 1 =
       (Ok plan, sample_cold\<lparr>ac_serves := [replicate 64 49]\<rparr>) \<and> may_delete_blob plan \<and> waiting_grace plan = []"
proof (rule eviction_progress [OF sample_wf(1) sample_first])
  show "\<forall>k e. bt_get (ac_segments sample_index) k = Some (Inr e) \<and> ac_ref e = ac_ref sample_entry \<longrightarrow> stamped 5 e"
    by (auto simp: sample_index_def bt_get_def stamped_def sample_entry_def split: if_splits)
  have "sample_key \<noteq> replicate 64 49" by code_simp
  then show "\<forall>k e. bt_get (ac_segments sample_cold) k = Some (Inr e) \<and> ac_ref e = ac_ref sample_entry \<longrightarrow> k \<notin> set [replicate 64 49]"
    by (auto simp: sample_cold_def bt_get_def split: if_splits)
  show "guard_eviction sample_guard 1 = Ok ()" by code_simp
qed simp

text \<open>C32: A reader that holds an artifact and a planner that has the permission to delete it exclude
  each other. From a well-formed index, whatever the interleaving of the reader's steps (look, pin,
  look again, hold or give up, drop) with the planner's (read, read again, write back, check the pin, check the grace,
  retry), no reachable state has the reader holding and the planner granted.
\<close>

theorem held_never_granted:
  assumes "ac_wf I" "(race_step D k)\<^sup>*\<^sup>* (I, RIdle, PIdle) (J, s, p)"
  shows "\<not> (s = RHolds \<and> p = PGranted)"
  using race_inv_reach [OF assms(2)] assms(1) by (auto simp: race_inv_def)

theorem held_never_granted_witness:
  "\<exists>J. (race_step sample_cache_io sample_key)\<^sup>*\<^sup>* (sample_index, RIdle, PIdle) (J, RHolds, PIdle) \<and>
     \<not> (race_step sample_cache_io sample_key)\<^sup>*\<^sup>* (sample_index, RIdle, PIdle) (J, RHolds, PGranted)"
proof -
  let ?J = "sample_index\<lparr>ac_serves := sample_key # ac_serves sample_index\<rparr>"
  have w: "warm sample_index sample_key" by code_simp
  then have h: "reader_step sample_key (?J, RPinned) (?J, RHolds)" by (simp add: reader_step.hold)
  note s = reader_step.look [OF w, THEN race_step.reader, of sample_cache_io PIdle]
    reader_step.pin [of sample_key sample_index, THEN race_step.reader, of sample_cache_io PIdle] h [THEN race_step.reader, of sample_cache_io PIdle]
  from s have "(race_step sample_cache_io sample_key)\<^sup>*\<^sup>* (sample_index, RIdle, PIdle) (?J, RHolds, PIdle)"
    by (meson converse_rtranclp_into_rtranclp rtranclp.rtrancl_refl)
  with held_never_granted [OF sample_wf(1)] show ?thesis by blast
qed

text \<open>
  Worlds are isolated. A put of any entry leaves every live entry of another key or of another
  world readable as it was, and resolution returns an entry only if it is unscoped or of the
  resolver's world.
\<close>

theorem worlds_isolated:
  assumes "ac_put D I e = (q, I')" "ac_get I k = Ok (Some x)" "k \<noteq> ac_key e \<or> ac_world x \<noteq> ac_world e"
  shows "ac_get I' k = Ok (Some x) \<and> (\<forall>world y. resolve I' k world = Ok (Some y) \<longrightarrow> y = x \<and> (ac_world x = None \<or> ac_world x = world))"
proof -
  have g: "ac_get I' k = Ok (Some x)" using assms by (rule ac_put_tenancy)
  then have "resolve I' k world = Ok (Some y) \<Longrightarrow> y = x" for world y by (auto simp: resolve_def split: if_splits)
  with g resolve_scoped [of I' k] show ?thesis by blast
qed

theorem worlds_isolated_witness:
  "ac_get (snd (ac_put sample_cache_io sample_index (sample_entry\<lparr>ac_world := Some (lit ''x'')\<rparr>))) sample_key = Ok (Some sample_entry)"
  using worlds_isolated [OF surjective_pairing sample_get, of "sample_entry\<lparr>ac_world := Some (lit ''x'')\<rparr>" sample_cache_io]
  by (simp add: sample_entry_def lit_def)

text \<open>
  The plan agrees with the sweep. If a plan for \<open>tz://blob/h\<close> grants the deletion, the question the
  sweep asks of the same index, at the same time and grace, is answered no.
\<close>

theorem plan_unprotects:
  assumes p: "prepare_blob_eviction D I r now grace slack w = (Ok plan, J)" "may_delete_blob plan"
    and h: "artifact_full_hash r = Some h"
  shows "protects_hash J h now grace = Ok False"
  unfolding protects_hash_def
proof (rule protects_loop_False)
  fix k
  assume k: "k \<in> set (all_keys J)"
  obtain live cold ks where "keys_for_artifact J r True = Ok ks" using p(1) by (rule prepare_parts)
  then obtain x where x: "load_raw J k = Ok x" using k keys_for_artifact_readable by metis
  have "(ac_tombstone e \<or> ac_cold e) \<and> released now grace e" if "x = Some e" "artifact_full_hash (ac_ref e) = Some h" for e
    using prepare_may_delete [OF p] x that artifact_full_hash_ref [OF that(2)] artifact_full_hash_ref [OF h]
    by (auto simp: load_raw_Some)
  with x show "\<exists>x. load_raw J k = Ok x \<and> (\<forall>e. x = Some e \<and> artifact_full_hash (ac_ref e) = Some h \<longrightarrow>
      (ac_tombstone e \<or> ac_cold e) \<and> released now grace e)" by blast
qed

theorem plan_unprotects_witness: "protects_hash sample_cold sample_key 65 60 = Ok False"
proof (rule plan_unprotects [OF sample_second])
  show "artifact_full_hash (ac_ref sample_entry) = Some sample_key" by code_simp
qed simp

text \<open>
  Two serves of one key share one pin file: when the first guard is dropped the second is still
  held, and the index reports no serve in flight.
\<close>

theorem shared_pin_lost:
  assumes "serve I k = (Ok (Some e), I1)" "serve I1 k = (Ok (Some e'), I2)"
  shows "e' = e \<and> has_in_flight_serve I2 k \<and> \<not> has_in_flight_serve (drop_serve I2 k) k"
proof -
  have one: "ac_get I k = Ok (Some e) \<and> I1 = I\<lparr>ac_serves := k # ac_serves I\<rparr>"
    using assms(1) by (auto simp: serve_def Let_def ac_get_def split: sum.splits option.splits if_splits)
  have two: "ac_get I1 k = Ok (Some e') \<and> I2 = I1\<lparr>ac_serves := k # ac_serves I1\<rparr>"
    using assms(2) by (auto simp: serve_def Let_def ac_get_def split: sum.splits option.splits if_splits)
  from one two show ?thesis by (auto simp: has_in_flight_serve_def drop_serve_def ac_get_Some)
qed

theorem shared_pin_lost_witness:
  "\<exists>J. fst (serve (snd (serve sample_index sample_key)) sample_key) = Ok (Some sample_entry) \<and>
     has_in_flight_serve J sample_key \<and> \<not> has_in_flight_serve (drop_serve J sample_key) sample_key"
proof -
  let ?I = "\<lambda>n. sample_index\<lparr>ac_serves := replicate n sample_key\<rparr>"
  have g: "ac_get (?I n) sample_key = Ok (Some sample_entry)" for n
    using sample_get by (simp add: ac_get_Some)
  have s: "serve (?I n) sample_key = (Ok (Some sample_entry), ?I (Suc n))" for n
    using g [of n] g [of "Suc n"] by (simp add: serve_def Let_def sample_entry_def)
  have "?I 0 = sample_index" by (simp add: sample_index_def)
  with s [of 0] s [of 1] shared_pin_lost [OF s [of 0], of sample_entry "?I 2"] show ?thesis
    by (auto simp: numeral_2_eq_2)
qed

end
