(* ===== verification/SegmentStore.thy ===== *)
theory SegmentStore
  imports OrdMap
begin

text \<open>
  The manifest-driven segment store (\<open>tokenzero-recovery/src/segment_store.rs\<close>): append-only data
  files, an index per segment, a checksummed manifest with a backup, sealing, lease renewal,
  eviction and the recovery of a hot segment. The directory is a map from file names to bytes.
  An operation reads it and returns its result with the list of its file effects in order, so
  that a crash is a prefix of that list whose last effect may be torn. JSON, SHA-256, the clock,
  the process id, the pins of the shared store and the outcome of the lock are parameters; a write
  that fails leaves what a crash at that effect leaves.
\<close>

section \<open>Files and effects\<close>

type_synonym fs = "(rstr, byte list) btree"

datatype effect = WriteFile rstr "byte list" | AppendFile rstr "byte list" | RenameFile rstr rstr
  | CopyFile rstr rstr | RemoveFile rstr | SetLen rstr nat

fun apply_effect :: "effect \<Rightarrow> fs \<Rightarrow> fs" where
  "apply_effect (WriteFile f bs) d = bt_insert f bs d"
| "apply_effect (AppendFile f bs) d = (case bt_get d f of None \<Rightarrow> d | Some old \<Rightarrow> bt_insert f (old @ bs) d)"
| "apply_effect (RenameFile f g) d = (case bt_get d f of None \<Rightarrow> d | Some bs \<Rightarrow> bt_insert g bs (bt_remove f d))"
| "apply_effect (CopyFile f g) d = (case bt_get d f of None \<Rightarrow> d | Some bs \<Rightarrow> bt_insert g bs d)"
| "apply_effect (RemoveFile f) d = bt_remove f d"
| "apply_effect (SetLen f n) d = (case bt_get d f of None \<Rightarrow> d | Some bs \<Rightarrow> bt_insert f (take n bs) d)"

definition apply_effects :: "effect list \<Rightarrow> fs \<Rightarrow> fs" where
  "apply_effects es d = fold apply_effect es d"

text \<open>What a crash during an effect may leave: the first \<open>n\<close> bytes are written.\<close>

fun torn :: "nat \<Rightarrow> effect \<Rightarrow> fs \<Rightarrow> fs" where
  "torn n (WriteFile f bs) d = bt_insert f (take n bs) d"
| "torn n (AppendFile f bs) d = apply_effect (AppendFile f (take n bs)) d"
| "torn n (CopyFile f g) d = (case bt_get d f of None \<Rightarrow> d | Some bs \<Rightarrow> bt_insert g (take n bs) d)"
| "torn n e d = d"

inductive crash :: "fs \<Rightarrow> effect list \<Rightarrow> fs \<Rightarrow> bool" where
  crash_now: "crash d es d"
| crash_torn: "crash d (e # es) (torn n e d)"
| crash_later: "crash (apply_effect e d) es d' \<Longrightarrow> crash d (e # es) d'"

inductive_cases crash_NilE: "crash d [] d'"
inductive_cases crash_ConsE: "crash d (e # es) d'"

datatype SegmentStoreError = SegIo rstr | SegJson | InvalidManifest | InvalidIndex rstr | CorruptPayload rstr
  | EntryTooLarge nat nat | SegOverflow | LockTimeout

text \<open>An operation on the directory: its result and its effects.\<close>

type_synonym 'a act = "fs \<Rightarrow> (SegmentStoreError + 'a) \<times> effect list"

definition act_return :: "'a \<Rightarrow> 'a act" where
  "act_return x = (\<lambda>d. (Ok x, []))"

definition act_throw :: "SegmentStoreError \<Rightarrow> 'a act" where
  "act_throw e = (\<lambda>d. (Err e, []))"

definition act_do :: "effect list \<Rightarrow> unit act" where
  "act_do es = (\<lambda>d. (Ok (), es))"

definition act_read :: "(fs \<Rightarrow> SegmentStoreError + 'a) \<Rightarrow> 'a act" where
  "act_read f = (\<lambda>d. (f d, []))"

definition act_bind :: "'a act \<Rightarrow> ('a \<Rightarrow> 'b act) \<Rightarrow> 'b act" where
  "act_bind m k = (\<lambda>d. case m d of
     (Inl e, es) \<Rightarrow> (Inl e, es)
   | (Inr x, es) \<Rightarrow> (case k x (apply_effects es d) of (r, es') \<Rightarrow> (r, es @ es')))"

section \<open>Data\<close>

definition SEGMENT_FORMAT_VERSION :: nat where "SEGMENT_FORMAT_VERSION = 1"
definition MANIFEST_VERSION :: nat where "MANIFEST_VERSION = 1"
definition DEFAULT_SEGMENT_BYTES :: nat where "DEFAULT_SEGMENT_BYTES = 8 * 1024 * 1024"
definition MAGIC :: "byte list" where "MAGIC = as_bytes (lit ''TZSEG001'')"

datatype SegmentMigrationPhase = Legacy | Shadow | Active | Retired

record SegmentDescriptor =
  sd_generation :: nat
  data_file :: rstr
  index_file :: rstr
  written_bytes :: nat
  ref_count :: nat
  index_hash :: rstr
  sealed_at :: "nat option"
  min_lease :: "nat option"

record SegmentManifest =
  manifest_version :: nat
  store_format_version :: nat
  sm_generation :: nat
  segment_bytes :: nat
  sm_phase :: SegmentMigrationPhase
  sm_hot :: SegmentDescriptor
  sm_cold :: "SegmentDescriptor list"
  checksum :: rstr

record SegmentEntry =
  se_ref :: rstr
  se_offset :: nat
  se_len :: nat
  se_sha :: rstr
  se_lease :: nat

type_synonym SegmentIndex = "(rstr, SegmentEntry) btree"

record Meta =
  meta_ref :: rstr
  meta_sha :: rstr
  meta_lease :: nat

record SegmentStore =
  ss_manifest :: SegmentManifest
  hot_index :: SegmentIndex
  cold_indexes :: "(nat, SegmentIndex) btree"
  bytes_override :: "nat option"

record seg_env =
  seg_sha :: "byte list \<Rightarrow> rstr"
  enc_meta :: "Meta \<Rightarrow> byte list"
  dec_meta :: "byte list \<Rightarrow> Meta option"
  enc_index :: "SegmentIndex \<Rightarrow> byte list"
  dec_index :: "byte list \<Rightarrow> SegmentIndex option"
  enc_manifest :: "SegmentManifest \<Rightarrow> byte list"
  dec_manifest :: "byte list \<Rightarrow> SegmentManifest option"
  seg_now :: nat
  seg_pid :: nat
  seg_pinned :: "rstr \<Rightarrow> bool"
  full_lower_hex :: "rstr \<Rightarrow> bool"
  tilde_path :: bool
  lock_free :: bool

text \<open>\<open>to_le_bytes\<close> and \<open>from_le_bytes\<close>.\<close>

primrec le_bytes :: "nat \<Rightarrow> nat \<Rightarrow> byte list" where
  "le_bytes 0 x = []"
| "le_bytes (Suc k) x = (x mod 256) # le_bytes k (x div 256)"

fun le_value :: "byte list \<Rightarrow> nat" where
  "le_value [] = 0"
| "le_value (b # bs) = b + 256 * le_value bs"

section \<open>Names\<close>

definition manifest_file :: rstr where "manifest_file = lit ''recovery.manifest.json''"
definition bak :: "rstr \<Rightarrow> rstr" where "bak p = p @ lit ''.bak''"
definition manifest_tmp :: "seg_env \<Rightarrow> rstr" where "manifest_tmp E = lit ''recovery.manifest.tmp-'' @ show_nat (seg_pid E)"

text \<open>\<open>with_extension(''index.tmp'')\<close> of an index file, whose name ends in \<open>.index\<close>.\<close>

definition index_tmp :: "rstr \<Rightarrow> rstr" where "index_tmp p = p @ lit ''.tmp''"

definition desc :: "nat \<Rightarrow> SegmentDescriptor" where
  "desc g = \<lparr>sd_generation = g, data_file = lit ''recovery.'' @ show_nat g @ lit ''.segment'',
     index_file = lit ''recovery.'' @ show_nat g @ lit ''.segment.index'', written_bytes = 8, ref_count = 0,
     index_hash = [], sealed_at = None, min_lease = None\<rparr>"

definition next_generation :: "nat \<Rightarrow> SegmentStoreError + nat" where
  "next_generation g = (if g + 1 \<le> u64_max then Ok (g + 1) else Err SegOverflow)"

section \<open>Manifest and indexes\<close>

definition seg_checksum :: "seg_env \<Rightarrow> SegmentManifest \<Rightarrow> rstr" where
  "seg_checksum E m = seg_sha E (enc_manifest E (m\<lparr>checksum := []\<rparr>))"

definition load_manifest :: "seg_env \<Rightarrow> rstr \<Rightarrow> fs \<Rightarrow> SegmentStoreError + SegmentManifest" where
  "load_manifest E p d =
     (case bt_get d p of
        None \<Rightarrow> Err (SegIo p)
      | Some bs \<Rightarrow>
          (case dec_manifest E bs of
             None \<Rightarrow> Err SegJson
           | Some m \<Rightarrow>
               if manifest_version m \<noteq> MANIFEST_VERSION \<or> store_format_version m \<noteq> SEGMENT_FORMAT_VERSION
                  \<or> seg_checksum E m \<noteq> checksum m
               then Err InvalidManifest else Ok m))"

definition load_manifest_fallback :: "seg_env \<Rightarrow> fs \<Rightarrow> SegmentStoreError + SegmentManifest" where
  "load_manifest_fallback E d =
     (case load_manifest E manifest_file d of
        Inr m \<Rightarrow> Ok m
      | Inl _ \<Rightarrow> load_manifest E (bak manifest_file) d)"

definition seg_exists :: "fs \<Rightarrow> bool" where
  "seg_exists d \<longleftrightarrow> bt_contains d manifest_file \<or> bt_contains d (bak manifest_file)"

definition load_index :: "seg_env \<Rightarrow> SegmentDescriptor \<Rightarrow> fs \<Rightarrow> SegmentStoreError + SegmentIndex" where
  "load_index E s d =
     (case bt_get d (index_file s) of
        None \<Rightarrow> Err (SegIo (index_file s))
      | Some b \<Rightarrow>
          if seg_sha E b \<noteq> index_hash s then Err (InvalidIndex (index_file s))
          else (case dec_index E b of None \<Rightarrow> Err SegJson | Some i \<Rightarrow> Ok i))"

definition write_index :: "seg_env \<Rightarrow> SegmentDescriptor \<Rightarrow> SegmentIndex \<Rightarrow> SegmentDescriptor act" where
  "write_index E s i =
     (let b = enc_index E i; t = index_tmp (index_file s)
      in act_bind (act_do [WriteFile t b, RenameFile t (index_file s)])
           (\<lambda>_. act_return (s\<lparr>index_hash := seg_sha E b\<rparr>)))"

definition publish :: "seg_env \<Rightarrow> SegmentManifest \<Rightarrow> SegmentManifest act" where
  "publish E m = (\<lambda>d.
     let m' = m\<lparr>checksum := seg_checksum E m\<rparr>
     in (Ok m', WriteFile (manifest_tmp E) (enc_manifest E m') #
           (if bt_contains d manifest_file then [CopyFile manifest_file (bak manifest_file)] else []) @
           [RenameFile (manifest_tmp E) manifest_file]))"

definition refresh_manifest_backup :: "unit act" where
  "refresh_manifest_backup = (\<lambda>d.
     if bt_contains d manifest_file then (Ok (), [CopyFile manifest_file (bak manifest_file)])
     else (Err (SegIo manifest_file), []))"

definition read_entry :: "seg_env \<Rightarrow> rstr \<Rightarrow> SegmentEntry \<Rightarrow> fs \<Rightarrow> SegmentStoreError + byte list" where
  "read_entry E p e d =
     (case bt_get d p of
        None \<Rightarrow> Err (SegIo p)
      | Some content \<Rightarrow>
          let rest = drop (se_offset e) content in
          if length rest < se_len e then Err (SegIo p)
          else if seg_sha E (take (se_len e) rest) \<noteq> se_sha e then Err (CorruptPayload (se_ref e))
          else Ok (take (se_len e) rest))"

section \<open>Recovery of the hot segment\<close>

definition recover_payload_len :: "nat \<Rightarrow> nat \<Rightarrow> nat option" where
  "recover_payload_len dl w = (if dl \<le> w then Some dl else None)"

text \<open>
  The scan of the records from \<open>start\<close>, with the bytes that are still unread: the index so far and
  the end of the last valid record.
\<close>

function recover_loop :: "seg_env \<Rightarrow> nat \<Rightarrow> nat \<Rightarrow> byte list \<Rightarrow> SegmentIndex \<Rightarrow> nat \<Rightarrow> SegmentIndex \<times> nat" where
  "recover_loop E w start rest idx valid =
     (if length rest < 12 then (idx, valid)
      else
        let ml = le_value (take 4 rest); dl = le_value (take 8 (drop 4 rest)); body = drop 12 rest in
        (case recover_payload_len dl w of
           None \<Rightarrow> (idx, valid)
         | Some payload_len \<Rightarrow>
             if 1048576 < ml \<or> u64_max < start + 12 + ml + dl \<or> w < start + 12 + ml + dl then (idx, valid)
             else if length body < ml then (idx, valid)
             else (case dec_meta E (take ml body) of
                None \<Rightarrow> (idx, valid)
              | Some m \<Rightarrow>
                  let b = take payload_len (drop ml body) in
                  if length (drop ml body) < payload_len \<or> seg_sha E b \<noteq> meta_sha m then (idx, valid)
                  else recover_loop E w (start + 12 + ml + dl) (drop payload_len (drop ml body))
                         (bt_insert (meta_ref m)
                            \<lparr>se_ref = meta_ref m, se_offset = start + 12 + ml, se_len = dl, se_sha = meta_sha m, se_lease = meta_lease m\<rparr> idx)
                         (start + 12 + ml + dl))))"
  by pat_completeness auto
termination by (relation "measure (\<lambda>(E, w, start, rest, idx, valid). length rest)") auto

declare recover_loop.simps [simp del]

definition recover :: "seg_env \<Rightarrow> SegmentDescriptor \<Rightarrow> SegmentIndex act" where
  "recover E s = (\<lambda>d.
     case bt_get d (data_file s) of
       None \<Rightarrow> (Err (SegIo (data_file s)), [])
     | Some content \<Rightarrow>
         if length content < 8 then (Err (SegIo (data_file s)), [])
         else if take 8 content \<noteq> MAGIC then (Err (InvalidIndex (data_file s)), [])
         else
           (case recover_loop E (written_bytes s) 8 (drop 8 content) [] 8 of
              (idx, valid) \<Rightarrow>
                act_bind (act_do (if length content \<noteq> valid then [SetLen (data_file s) valid] else []))
                  (\<lambda>_. act_bind (write_index E s idx) (\<lambda>_. act_return idx)) d))"

definition load_or_recover_hot :: "seg_env \<Rightarrow> SegmentDescriptor \<Rightarrow> SegmentIndex act" where
  "load_or_recover_hot E s = (\<lambda>d. case load_index E s d of Inr i \<Rightarrow> (Ok i, []) | Inl _ \<Rightarrow> recover E s d)"

section \<open>Opening\<close>

definition segment_name :: "rstr \<Rightarrow> rstr \<Rightarrow> bool" where
  "segment_name ending name \<longleftrightarrow>
     (case strip_prefix (lit ''recovery.'') name of
        None \<Rightarrow> False
      | Some rest \<Rightarrow> (case strip_suffix ending rest of None \<Rightarrow> False | Some g \<Rightarrow> parse_usize g \<noteq> None))"

definition live_names :: "SegmentManifest \<Rightarrow> rstr list" where
  "live_names m = concat (map (\<lambda>s. [data_file s, index_file s]) (sm_hot m # sm_cold m))"

definition cleanup_orphan_segments :: "SegmentManifest \<Rightarrow> unit act" where
  "cleanup_orphan_segments m = (\<lambda>d.
     (Ok (), map RemoveFile (filter (\<lambda>n. (segment_name (lit ''.segment'') n \<or> segment_name (lit ''.segment.index'') n) \<and>
        n \<notin> set (live_names m)) (bt_keys d))))"

definition locked :: "seg_env \<Rightarrow> 'a act \<Rightarrow> 'a act" where
  "locked E a = (if lock_free E then a else act_throw LockTimeout)"

definition refuse_tilde :: "seg_env \<Rightarrow> 'a act \<Rightarrow> 'a act" where
  "refuse_tilde E a = (if tilde_path E then act_throw (SegIo (lit ''unexpanded ~ store path'')) else a)"

definition seg_open :: "seg_env \<Rightarrow> SegmentStore act" where
  "seg_open E = refuse_tilde E (locked E (
     act_bind (act_read (load_manifest_fallback E)) (\<lambda>m.
     act_bind (cleanup_orphan_segments m) (\<lambda>_.
     act_bind (load_or_recover_hot E (sm_hot m)) (\<lambda>i.
     act_return \<lparr>ss_manifest = m, hot_index = i, cold_indexes = [], bytes_override = None\<rparr>)))))"

definition init_hot :: "seg_env \<Rightarrow> SegmentStore \<Rightarrow> SegmentStore act" where
  "init_hot E st = (\<lambda>d.
     let s = sm_hot (ss_manifest st) in
     if bt_contains d (data_file s) then (Err (SegIo (data_file s)), [])
     else act_bind (act_do [WriteFile (data_file s) MAGIC])
       (\<lambda>_. act_bind (write_index E s (hot_index st))
       (\<lambda>s'. act_return (st\<lparr>ss_manifest := (ss_manifest st)\<lparr>sm_hot := s'\<rparr>\<rparr>))) d)"

definition publish_store :: "seg_env \<Rightarrow> SegmentStore \<Rightarrow> SegmentStore act" where
  "publish_store E st = act_bind (publish E (ss_manifest st)) (\<lambda>m. act_return (st\<lparr>ss_manifest := m\<rparr>))"

definition create_shadow :: "seg_env \<Rightarrow> SegmentStore act" where
  "create_shadow E = refuse_tilde E (locked E (
     act_bind (init_hot E
       \<lparr>ss_manifest = \<lparr>manifest_version = MANIFEST_VERSION, store_format_version = SEGMENT_FORMAT_VERSION, sm_generation = 1,
            segment_bytes = DEFAULT_SEGMENT_BYTES, sm_phase = Shadow, sm_hot = desc 1, sm_cold = [], checksum = []\<rparr>,
         hot_index = [], cold_indexes = [], bytes_override = None\<rparr>)
     (publish_store E)))"

section \<open>Operations\<close>

definition set_segment_bytes :: "nat \<Rightarrow> SegmentStore \<Rightarrow> SegmentStore" where
  "set_segment_bytes n st =
     st\<lparr>ss_manifest := (ss_manifest st)\<lparr>segment_bytes := max n 64\<rparr>, bytes_override := Some (max n 64)\<rparr>"

definition reload :: "seg_env \<Rightarrow> SegmentStore \<Rightarrow> SegmentStore act" where
  "reload E st = (\<lambda>d.
     if seg_exists d then
       act_bind (act_read (load_manifest_fallback E)) (\<lambda>m.
       act_bind (load_or_recover_hot E (sm_hot m)) (\<lambda>i.
       act_return (st\<lparr>hot_index := i,
          ss_manifest := (case bytes_override st of None \<Rightarrow> m | Some n \<Rightarrow> m\<lparr>segment_bytes := n\<rparr>), cold_indexes := []\<rparr>))) d
     else (Ok st, []))"

definition set_phase :: "seg_env \<Rightarrow> SegmentMigrationPhase \<Rightarrow> SegmentStore \<Rightarrow> SegmentStore act" where
  "set_phase E p st = locked E (
     act_bind (reload E st) (\<lambda>st. publish_store E (st\<lparr>ss_manifest := (ss_manifest st)\<lparr>sm_phase := p\<rparr>\<rparr>)))"

definition min_lease_of :: "SegmentIndex \<Rightarrow> nat option" where
  "min_lease_of i = (if i = [] then None else Some (Min (set (map (se_lease \<circ> snd) i))))"

definition seal_inner :: "seg_env \<Rightarrow> SegmentStore \<Rightarrow> SegmentStore act" where
  "seal_inner E st =
     (if hot_index st = [] then act_return st
      else let m = ss_manifest st in
        act_bind (act_read (\<lambda>_. next_generation (sd_generation (sm_hot m)))) (\<lambda>next_segment.
        act_bind (act_read (\<lambda>_. next_generation (sm_generation m))) (\<lambda>next_manifest.
        act_bind (init_hot E (st\<lparr>ss_manifest := m\<lparr>sm_cold := sm_cold m @ [(sm_hot m)\<lparr>sealed_at := Some (seg_now E)\<rparr>],
             sm_hot := desc next_segment\<rparr>, hot_index := []\<rparr>)) (\<lambda>st.
        act_return (st\<lparr>ss_manifest := (ss_manifest st)\<lparr>sm_generation := next_manifest\<rparr>\<rparr>)))))"

definition seal :: "seg_env \<Rightarrow> SegmentStore \<Rightarrow> SegmentStore act" where
  "seal E st = locked E (act_bind (reload E st) (\<lambda>st. act_bind (seal_inner E st) (publish_store E)))"

text \<open>The index of a cold segment, loaded once per handle.\<close>

definition cold_index :: "seg_env \<Rightarrow> SegmentDescriptor \<Rightarrow> SegmentStore \<Rightarrow> (SegmentIndex \<times> SegmentStore) act" where
  "cold_index E s st =
     (case bt_get (cold_indexes st) (sd_generation s) of
        Some i \<Rightarrow> act_return (i, st)
      | None \<Rightarrow> act_bind (act_read (load_index E s))
          (\<lambda>i. act_return (i, st\<lparr>cold_indexes := bt_insert (sd_generation s) i (cold_indexes st)\<rparr>)))"

fun expand_cold :: "seg_env \<Rightarrow> rstr \<Rightarrow> SegmentDescriptor list \<Rightarrow> SegmentStore \<Rightarrow> (byte list option \<times> SegmentStore) act" where
  "expand_cold E r [] st = act_return (None, st)"
| "expand_cold E r (s # ss) st =
     act_bind (cold_index E s st) (\<lambda>(i, st).
       case bt_get i r of
         Some e \<Rightarrow> act_bind (act_read (read_entry E (data_file s) e)) (\<lambda>b. act_return (Some b, st))
       | None \<Rightarrow> expand_cold E r ss st)"

definition seg_expand :: "seg_env \<Rightarrow> rstr \<Rightarrow> SegmentStore \<Rightarrow> (byte list option \<times> SegmentStore) act" where
  "seg_expand E r st = locked E (
     act_bind (reload E st) (\<lambda>st.
       case bt_get (hot_index st) r of
         Some e \<Rightarrow> act_bind (act_read (read_entry E (data_file (sm_hot (ss_manifest st))) e)) (\<lambda>b. act_return (Some b, st))
       | None \<Rightarrow> expand_cold E r (rev (sm_cold (ss_manifest st))) st))"

definition same_payload :: "seg_env \<Rightarrow> byte list \<Rightarrow> SegmentEntry \<Rightarrow> bool" where
  "same_payload E b e \<longleftrightarrow> seg_now E < se_lease e \<and> se_len e = length b \<and> se_sha e = seg_sha E b"

definition with_lease :: "nat \<Rightarrow> SegmentIndex \<Rightarrow> rstr \<Rightarrow> SegmentEntry \<Rightarrow> SegmentIndex" where
  "with_lease lease i r e = bt_insert r (e\<lparr>se_lease := lease\<rparr>) i"

definition renew_hot :: "seg_env \<Rightarrow> rstr \<Rightarrow> nat \<Rightarrow> SegmentEntry \<Rightarrow> SegmentStore \<Rightarrow> SegmentStore act" where
  "renew_hot E r lease e st =
     (if se_lease e < lease then
        let i = with_lease lease (hot_index st) r e; m = ss_manifest st in
        act_bind (write_index E (sm_hot m) i) (\<lambda>s.
        act_bind (act_read (\<lambda>_. next_generation (sm_generation m))) (\<lambda>g.
        publish_store E (st\<lparr>hot_index := i, ss_manifest := m\<lparr>sm_hot := s\<lparr>min_lease := min_lease_of i\<rparr>, sm_generation := g\<rparr>\<rparr>)))
      else act_return st)"

definition renew_cold :: "seg_env \<Rightarrow> rstr \<Rightarrow> nat \<Rightarrow> nat \<Rightarrow> SegmentIndex \<Rightarrow> SegmentEntry \<Rightarrow> SegmentStore \<Rightarrow> SegmentStore act" where
  "renew_cold E r lease n i e st =
     (if se_lease e < lease then
        let i' = with_lease lease i r e; m = ss_manifest st; s = sm_cold m ! n in
        act_bind (write_index E s i') (\<lambda>s'.
        act_bind (act_read (\<lambda>_. next_generation (sm_generation m))) (\<lambda>g.
        publish_store E (st\<lparr>cold_indexes := bt_insert (sd_generation s) i' (cold_indexes st),
          ss_manifest := m\<lparr>sm_cold := (sm_cold m)[n := s'\<lparr>min_lease := min_lease_of i'\<rparr>], sm_generation := g\<rparr>\<rparr>)))
      else act_return st)"

text \<open>The search of the cold segments from the newest; \<open>None\<close> when the payload has to be appended.\<close>

fun put_cold :: "seg_env \<Rightarrow> rstr \<Rightarrow> byte list \<Rightarrow> nat \<Rightarrow> nat \<Rightarrow> SegmentStore \<Rightarrow> (SegmentStore option \<times> SegmentStore) act" where
  "put_cold E r b lease 0 st = act_return (None, st)"
| "put_cold E r b lease (Suc n) st =
     act_bind (cold_index E (sm_cold (ss_manifest st) ! n) st) (\<lambda>(i, st).
       case bt_get i r of
         None \<Rightarrow> put_cold E r b lease n st
       | Some e \<Rightarrow>
           if same_payload E b e then act_bind (renew_cold E r lease n i e st) (\<lambda>st. act_return (Some st, st))
           else put_cold E r b lease n st)"

definition file_len :: "rstr \<Rightarrow> fs \<Rightarrow> SegmentStoreError + nat" where
  "file_len p d = (case bt_get d p of None \<Rightarrow> Err (SegIo p) | Some bs \<Rightarrow> Ok (length bs))"

definition append_entry :: "seg_env \<Rightarrow> Meta \<Rightarrow> byte list \<Rightarrow> SegmentStore \<Rightarrow> SegmentStore act" where
  "append_entry E mt b st =
     (let m = ss_manifest st; s = sm_hot m; mb = enc_meta E mt in
      act_bind (act_read (\<lambda>_. next_generation (sm_generation m))) (\<lambda>next_manifest.
      act_bind (act_read (file_len (data_file s))) (\<lambda>start.
      if 2 ^ 32 \<le> length mb then act_throw SegOverflow
      else if u64_max < start + 12 + length mb then
        act_bind (act_do [AppendFile (data_file s) (le_bytes 4 (length mb) @ le_bytes 8 (length b) @ mb)]) (\<lambda>_. act_throw SegOverflow)
      else
        act_bind (act_do [AppendFile (data_file s) (le_bytes 4 (length mb) @ le_bytes 8 (length b) @ mb @ b)]) (\<lambda>_.
        let i = bt_insert (meta_ref mt) \<lparr>se_ref = meta_ref mt, se_offset = start + 12 + length mb, se_len = length b,
                  se_sha = meta_sha mt, se_lease = meta_lease mt\<rparr> (hot_index st) in
        act_bind (write_index E s i) (\<lambda>s.
        act_bind (act_read (file_len (data_file s))) (\<lambda>n.
        publish_store E (st\<lparr>hot_index := i, ss_manifest := m\<lparr>sm_hot := s\<lparr>written_bytes := n, ref_count := length i,
          min_lease := min_lease_of i\<rparr>, sm_generation := next_manifest\<rparr>\<rparr>)))))))"

definition put_new :: "seg_env \<Rightarrow> rstr \<Rightarrow> byte list \<Rightarrow> nat \<Rightarrow> SegmentStore \<Rightarrow> SegmentStore act" where
  "put_new E r b lease st =
     act_bind (put_cold E r b lease (length (sm_cold (ss_manifest st))) st) (\<lambda>(renewed, st).
       case renewed of
         Some st \<Rightarrow> act_return st
       | None \<Rightarrow>
           let mt = \<lparr>meta_ref = r, meta_sha = seg_sha E b, meta_lease = lease\<rparr>;
               bound = segment_bytes (ss_manifest st);
               size = 12 + length (enc_meta E mt) + length b;
               written = written_bytes (sm_hot (ss_manifest st)) in
           if u64_max < size + 8 then act_throw (EntryTooLarge u64_max bound)
           else if bound < size + 8 then act_throw (EntryTooLarge (size + 8) bound)
           else act_bind (if 8 < written \<and> (u64_max < written + size \<or> bound < written + size) then seal_inner E st else act_return st)
             (append_entry E mt b))"

definition seg_put :: "seg_env \<Rightarrow> rstr \<Rightarrow> byte list \<Rightarrow> nat \<Rightarrow> SegmentStore \<Rightarrow> SegmentStore act" where
  "seg_put E r b lease st =
     (if r = [] then act_throw (SegIo (lit ''empty segment ref''))
      else refuse_tilde E (locked E (
        act_bind (reload E st) (\<lambda>st.
        case bt_get (hot_index st) r of
          Some e \<Rightarrow> if same_payload E b e then renew_hot E r lease e st else put_new E r b lease st
        | None \<Rightarrow> put_new E r b lease st))))"

definition portable_hash :: "seg_env \<Rightarrow> rstr \<Rightarrow> rstr option" where
  "portable_hash E r =
     (case (case strip_prefix (lit ''tz://blob/'') r of
              Some h \<Rightarrow> Some h
            | None \<Rightarrow> (case strip_prefix (lit ''fz://blob/'') r of
                Some h \<Rightarrow> Some h
              | None \<Rightarrow> strip_prefix (lit ''gz://blob/'') r)) of
        None \<Rightarrow> None
      | Some h \<Rightarrow> if full_lower_hex E h then Some h else None)"

definition evictable :: "seg_env \<Rightarrow> nat \<Rightarrow> SegmentIndex \<Rightarrow> bool" where
  "evictable E now i \<longleftrightarrow>
     list_all (\<lambda>(r, e). se_lease e \<le> now) i \<and>
     \<not> list_ex (\<lambda>(r, e). case portable_hash E (se_ref e) of None \<Rightarrow> False | Some h \<Rightarrow> seg_pinned E h) i"

fun evict_scan :: "seg_env \<Rightarrow> nat \<Rightarrow> SegmentDescriptor list \<Rightarrow> fs \<Rightarrow> SegmentStoreError + (SegmentDescriptor list \<times> SegmentDescriptor list)" where
  "evict_scan E now [] d = Ok ([], [])"
| "evict_scan E now (s # ss) d =
     (case load_index E s d of
        Inl e \<Rightarrow> Err e
      | Inr i \<Rightarrow>
          (case evict_scan E now ss d of
             Inl e \<Rightarrow> Err e
           | Inr (keep, gone) \<Rightarrow> if evictable E now i then Ok (keep, s # gone) else Ok (s # keep, gone)))"

definition evict_expired :: "seg_env \<Rightarrow> nat \<Rightarrow> SegmentStore \<Rightarrow> (nat \<times> SegmentStore) act" where
  "evict_expired E now st = locked E (
     act_bind (reload E st) (\<lambda>st.
     act_bind (act_read (evict_scan E now (sm_cold (ss_manifest st)))) (\<lambda>(keep, gone).
     let st = st\<lparr>ss_manifest := (ss_manifest st)\<lparr>sm_cold := keep\<rparr>,
                 cold_indexes := fold (\<lambda>s. bt_remove (sd_generation s)) gone (cold_indexes st)\<rparr> in
     if gone = [] then act_return (0, st)
     else
       act_bind (act_read (\<lambda>_. next_generation (sm_generation (ss_manifest st)))) (\<lambda>g.
       act_bind (publish_store E (st\<lparr>ss_manifest := (ss_manifest st)\<lparr>sm_generation := g\<rparr>\<rparr>)) (\<lambda>st.
       act_bind refresh_manifest_backup (\<lambda>_.
       act_bind (act_do (concat (map (\<lambda>s. [RemoveFile (data_file s), RemoveFile (index_file s)]) gone))) (\<lambda>_.
       act_return (length gone, st))))))))"

text \<open>The legacy store gives its blob references with what each expands to.\<close>

fun put_legacy :: "seg_env \<Rightarrow> (rstr \<times> byte list option) list \<Rightarrow> SegmentStore \<Rightarrow> SegmentStore act" where
  "put_legacy E [] st = act_return st"
| "put_legacy E ((r, found) # rs) st =
     (case found of
        None \<Rightarrow> put_legacy E rs st
      | Some b \<Rightarrow> act_bind (seg_put E r b u64_max st) (put_legacy E rs))"

definition migrate_legacy :: "seg_env \<Rightarrow> (rstr \<times> byte list option) list \<Rightarrow> SegmentStore act" where
  "migrate_legacy E legacy = (\<lambda>d.
     if seg_exists d then seg_open E d
     else act_bind (create_shadow E) (\<lambda>st. act_bind (put_legacy E legacy st) (set_phase E Active)) d)"

end
