(* ===== verification/SegmentProps.thy ===== *)
theory SegmentProps
  imports SegmentStore
begin

text \<open>
  Correctness of the segment store. The abstract state of a directory is the list of the records
  of its hot segment and those of its cold segments; \<open>view\<close> is the map it stands for. \<open>holds\<close> relates a
  directory to it in the weak form that survives crashes (the hot index may be lost, a torn tail
  may follow the records), \<open>clean\<close> in the strong form between operations. The lemmas show that
  reading and opening realise the view, that storing and evicting change it as intended and keep
  \<open>clean\<close>, and that every crash during them leaves a directory that holds the old or the new view.
\<close>

section \<open>The contents of a store\<close>

type_synonym seg_rec = "Meta \<times> byte list"

definition rec_bytes :: "seg_env \<Rightarrow> seg_rec \<Rightarrow> byte list" where
  "rec_bytes E x = (case x of (m, b) \<Rightarrow> le_bytes 4 (length (enc_meta E m)) @ le_bytes 8 (length b) @ enc_meta E m @ b)"

definition rec_ok :: "seg_env \<Rightarrow> seg_rec \<Rightarrow> bool" where
  "rec_ok E x \<longleftrightarrow> (case x of (m, b) \<Rightarrow> meta_sha m = seg_sha E b \<and> length (enc_meta E m) \<le> 1048576 \<and> length b \<le> u64_max)"

definition entry_at :: "seg_env \<Rightarrow> nat \<Rightarrow> seg_rec \<Rightarrow> SegmentEntry" where
  "entry_at E pos x = (case x of (m, b) \<Rightarrow>
     \<lparr>se_ref = meta_ref m, se_offset = pos + 12 + length (enc_meta E m), se_len = length b, se_sha = meta_sha m, se_lease = meta_lease m\<rparr>)"

fun index_from :: "seg_env \<Rightarrow> nat \<Rightarrow> seg_rec list \<Rightarrow> SegmentIndex \<Rightarrow> SegmentIndex" where
  "index_from E pos [] idx = idx"
| "index_from E pos (x # xs) idx =
     index_from E (pos + length (rec_bytes E x)) xs (bt_insert (meta_ref (fst x)) (entry_at E pos x) idx)"

definition recs_bytes :: "seg_env \<Rightarrow> seg_rec list \<Rightarrow> byte list" where
  "recs_bytes E xs = concat (map (rec_bytes E) xs)"

definition rec_lookup :: "seg_rec list \<Rightarrow> rstr \<Rightarrow> byte list option" where
  "rec_lookup xs r = map_of (rev (map (\<lambda>(m, b). (meta_ref m, b)) xs)) r"

text \<open>What JSON guarantees: values survive a round trip. The law is stated for every association list, although the indexes that
  occur are ordered. The lock is free, and the path has no tilde.\<close>

definition env_ok :: "seg_env \<Rightarrow> bool" where
  "env_ok E \<longleftrightarrow> (\<forall>m. dec_meta E (enc_meta E m) = Some m) \<and> (\<forall>i. dec_index E (enc_index E i) = Some i) \<and>
     (\<forall>m. dec_manifest E (enc_manifest E m) = Some m) \<and> lock_free E \<and> \<not> tilde_path E"

section \<open>The scan\<close>

lemma length_MAGIC [simp]: "length MAGIC = 8"
  by (simp add: MAGIC_def as_bytes_def lit_def utf8_char_def)

lemma length_le_bytes [simp]: "length (le_bytes k x) = k"
  by (induction k arbitrary: x) auto

lemma le_value_bytes: "x < 256 ^ k \<Longrightarrow> le_value (le_bytes k x) = x"
proof (induction k arbitrary: x)
  case (Suc k)
  then have "x div 256 < 256 ^ k" by (simp add: less_mult_imp_div_less)
  with Suc.IH show ?case by simp
qed simp

lemma length_rec_bytes: "length (rec_bytes E (m, b)) = 12 + length (enc_meta E m) + length b"
  by (simp add: rec_bytes_def)

lemma recs_bytes_simps [simp]: "recs_bytes E [] = []" "recs_bytes E (x # xs) = rec_bytes E x @ recs_bytes E xs"
  "recs_bytes E (xs @ ys) = recs_bytes E xs @ recs_bytes E ys"
  by (simp_all add: recs_bytes_def)

lemma recover_loop_record:
  assumes ok: "env_ok E" "rec_ok E (m, b)" and w: "start + length (rec_bytes E (m, b)) \<le> w" "w \<le> u64_max"
  shows "recover_loop E w start (rec_bytes E (m, b) @ rest) idx valid =
    recover_loop E w (start + length (rec_bytes E (m, b))) rest (bt_insert (meta_ref m) (entry_at E start (m, b)) idx)
      (start + length (rec_bytes E (m, b)))"
proof -
  have ml: "le_value (le_bytes 4 (length (enc_meta E m))) = length (enc_meta E m)"
    using ok(2) by (intro le_value_bytes) (simp add: rec_ok_def)
  have dl: "le_value (le_bytes 8 (length b)) = length b"
    using ok(2) by (intro le_value_bytes) (simp add: rec_ok_def u64_max_def)
  show ?thesis
    using ok w by (subst recover_loop.simps)
      (simp add: rec_bytes_def ml dl Let_def recover_payload_len_def env_ok_def rec_ok_def entry_at_def add.assoc)
qed

lemma recover_loop_end: "w \<le> u64_max \<Longrightarrow> recover_loop E w w rest idx valid = (idx, valid)"
  by (subst recover_loop.simps) (auto simp: Let_def split: option.splits)

text \<open>The scan finds exactly the records below the written bound, whatever follows them.\<close>

lemma recover_loop_exact:
  assumes "env_ok E" "list_all (rec_ok E) xs" "w = pos + length (recs_bytes E xs)" "w \<le> u64_max"
  shows "recover_loop E w pos (recs_bytes E xs @ rest) idx pos = (index_from E pos xs idx, w)"
  using assms
proof (induction xs arbitrary: pos idx)
  case (Cons x xs)
  obtain m b where x: "x = (m, b)" by fastforce
  from Cons.prems x have "recover_loop E w pos (recs_bytes E (x # xs) @ rest) idx pos =
      recover_loop E w (pos + length (rec_bytes E x)) (recs_bytes E xs @ rest)
        (bt_insert (meta_ref m) (entry_at E pos x) idx) (pos + length (rec_bytes E x))"
    using recover_loop_record [of E m b pos w "recs_bytes E xs @ rest" idx pos] by simp
  with Cons x show ?case by simp
qed (simp add: recover_loop_end)

text \<open>Where the last record of a reference is.\<close>

fun rec_pos :: "seg_env \<Rightarrow> nat \<Rightarrow> seg_rec list \<Rightarrow> rstr \<Rightarrow> SegmentEntry option" where
  "rec_pos E pos [] r = None"
| "rec_pos E pos (x # xs) r =
     (case rec_pos E (pos + length (rec_bytes E x)) xs r of
        Some e \<Rightarrow> Some e
      | None \<Rightarrow> if meta_ref (fst x) = r then Some (entry_at E pos x) else None)"

lemma index_from_get:
  "bt_get (index_from E pos xs idx) r = (case rec_pos E pos xs r of Some e \<Rightarrow> Some e | None \<Rightarrow> bt_get idx r)"
  by (induction xs arbitrary: pos idx) (auto split: option.splits)

lemma rec_lookup_simps [simp]: "rec_lookup [] r = None"
  "rec_lookup (x # xs) r = (case rec_lookup xs r of Some b \<Rightarrow> Some b | None \<Rightarrow> if meta_ref (fst x) = r then Some (snd x) else None)"
  by (simp_all add: rec_lookup_def map_add_def split: prod.splits option.splits)

lemma rec_lookup_snoc: "rec_lookup (xs @ [(m, b)]) r = (if meta_ref m = r then Some b else rec_lookup xs r)"
  by (simp add: rec_lookup_def)

lemma index_from_snoc:
  "index_from E pos (xs @ [x]) idx =
     bt_insert (meta_ref (fst x)) (entry_at E (pos + length (recs_bytes E xs)) x) (index_from E pos xs idx)"
  by (induction xs arbitrary: pos idx) (auto simp: add.assoc)

lemma rec_pos_None: "rec_pos E pos xs r = None \<longleftrightarrow> rec_lookup xs r = None"
  by (induction xs arbitrary: pos) (auto split: option.splits)

lemma rec_pos_Some:
  "rec_pos E pos xs r = Some e \<Longrightarrow> list_all (rec_ok E) xs \<Longrightarrow> length front = pos \<Longrightarrow>
     \<exists>b. rec_lookup xs r = Some b \<and> se_len e = length b \<and> se_sha e = seg_sha E b \<and> se_ref e = r \<and>
       (\<exists>rest. drop (se_offset e) (front @ recs_bytes E xs @ back) = b @ rest)"
proof (induction xs arbitrary: pos front)
  case (Cons x xs)
  obtain m b where x: "x = (m, b)" by fastforce
  show ?case
  proof (cases "rec_pos E (pos + length (rec_bytes E x)) xs r")
    case None
    with Cons.prems x have e: "e = entry_at E pos (m, b)" "meta_ref m = r" by (auto split: if_splits)
    have "drop (se_offset e) (front @ recs_bytes E (x # xs) @ back) = b @ recs_bytes E xs @ back"
      using e x Cons.prems(3) by (simp add: entry_at_def rec_bytes_def)
    moreover have "rec_lookup xs r = None" using None by (simp add: rec_pos_None)
    ultimately show ?thesis using e x Cons.prems(2) by (auto simp: entry_at_def rec_ok_def)
  next
    case (Some e')
    with Cons.prems have "rec_pos E (pos + length (rec_bytes E x)) xs r = Some e" by simp
    from Cons.IH [OF this, of "front @ rec_bytes E x"] Cons.prems show ?thesis by (auto split: option.splits)
  qed
qed simp

section \<open>Names\<close>

abbreviation data_name :: "nat \<Rightarrow> rstr" where "data_name g \<equiv> data_file (desc g)"
abbreviation index_name :: "nat \<Rightarrow> rstr" where "index_name g \<equiv> index_file (desc g)"

definition name_end :: "rstr \<Rightarrow> nat" where "name_end f = last (0 # f)"

lemma name_ends [simp]:
  "name_end (data_name g) = 116" "name_end (index_name g) = 120" "name_end (index_tmp f) = 112"
  "name_end manifest_file = 110" "name_end (bak f) = 107"
  by (simp_all add: name_end_def desc_def index_tmp_def manifest_file_def bak_def lit_def)

lemma name_end_tmp: "name_end (manifest_tmp E) \<le> 57"
proof -
  have "last (show_nat n) \<le> 57" for n
    using show_nat_digits [of "last (show_nat n)" n] by (simp add: is_ascii_digit_def)
  then show ?thesis by (simp add: name_end_def manifest_tmp_def)
qed

lemma names_differ [simp]:
  "data_name g \<noteq> index_name g'" "index_name g' \<noteq> data_name g" "index_tmp f \<noteq> data_name g" "index_tmp f \<noteq> index_name g"
  "data_name g \<noteq> index_tmp f" "index_name g \<noteq> index_tmp f"
  "manifest_file \<noteq> data_name g" "manifest_file \<noteq> index_name g" "manifest_file \<noteq> index_tmp f" "manifest_file \<noteq> bak f'"
  "data_name g \<noteq> manifest_file" "index_name g \<noteq> manifest_file" "index_tmp f \<noteq> manifest_file" "bak f' \<noteq> manifest_file"
  "bak f' \<noteq> data_name g" "bak f' \<noteq> index_name g" "bak f' \<noteq> index_tmp f"
  "data_name g \<noteq> bak f'" "index_name g \<noteq> bak f'" "index_tmp f \<noteq> bak f'"
  using name_ends by (metis numeral_eq_iff verit_eq_simplify(10,12,14) semiring_norm(85-90))+

lemma tmp_differs [simp]:
  "manifest_tmp E \<noteq> data_name g" "manifest_tmp E \<noteq> index_name g" "manifest_tmp E \<noteq> index_tmp f" "manifest_tmp E \<noteq> manifest_file"
  "manifest_tmp E \<noteq> bak f'" "data_name g \<noteq> manifest_tmp E" "index_name g \<noteq> manifest_tmp E" "index_tmp f \<noteq> manifest_tmp E"
  "manifest_file \<noteq> manifest_tmp E" "bak f' \<noteq> manifest_tmp E"
  using name_end_tmp [of E] by (auto dest: arg_cong [where f = name_end])

lemma show_nat_eq: "g \<le> u64_max \<Longrightarrow> g' \<le> u64_max \<Longrightarrow> show_nat g = show_nat g' \<longleftrightarrow> g = g'"
  by (metis option.inject parse_show_nat)

lemma names_inject [simp]:
  "g \<le> u64_max \<Longrightarrow> g' \<le> u64_max \<Longrightarrow> data_name g = data_name g' \<longleftrightarrow> g = g'"
  "g \<le> u64_max \<Longrightarrow> g' \<le> u64_max \<Longrightarrow> index_name g = index_name g' \<longleftrightarrow> g = g'"
  "index_tmp f = index_tmp f' \<longleftrightarrow> f = f'"
  by (simp_all add: desc_def show_nat_eq index_tmp_def)

section \<open>Effects and crashes\<close>

fun touches :: "effect \<Rightarrow> rstr list" where
  "touches (WriteFile f bs) = [f]"
| "touches (AppendFile f bs) = [f]"
| "touches (RenameFile f g) = [f, g]"
| "touches (CopyFile f g) = [g]"
| "touches (RemoveFile f) = [f]"
| "touches (SetLen f n) = [f]"

lemma apply_frame: "f \<notin> set (touches e) \<Longrightarrow> bt_get (apply_effect e d) f = bt_get d f"
  by (cases e) (auto split: option.splits)

lemma torn_frame: "f \<notin> set (touches e) \<Longrightarrow> bt_get (torn n e d) f = bt_get d f"
  by (cases e) (auto split: option.splits)

lemma apply_effects_simps [simp]: "apply_effects [] d = d" "apply_effects (e # es) d = apply_effects es (apply_effect e d)"
  "apply_effects (es @ es') d = apply_effects es' (apply_effects es d)"
  by (simp_all add: apply_effects_def)

lemma effects_frame: "\<forall>e \<in> set es. f \<notin> set (touches e) \<Longrightarrow> bt_get (apply_effects es d) f = bt_get d f"
  by (induction es arbitrary: d) (auto simp: apply_frame)

lemma crash_frame: "crash d es d' \<Longrightarrow> \<forall>e \<in> set es. f \<notin> set (touches e) \<Longrightarrow> bt_get d' f = bt_get d f"
  by (induction rule: crash.induct) (auto simp: apply_frame torn_frame)

lemma crash_append: "crash d (xs @ ys) d' \<longleftrightarrow> crash d xs d' \<or> crash (apply_effects xs d) ys d'"
proof (induction xs arbitrary: d)
  case Nil
  then show ?case by (auto intro: crash.intros elim: crash_NilE)
next
  case (Cons x xs)
  then show ?case by (auto intro: crash.intros elim!: crash_ConsE)
qed

lemma act_bind_Ok: "act_bind m k d = (Ok x, es) \<longleftrightarrow>
    (\<exists>y e1 e2. m d = (Ok y, e1) \<and> k y (apply_effects e1 d) = (Ok x, e2) \<and> es = e1 @ e2)"
  by (auto simp: act_bind_def split: prod.splits sum.splits)

lemma act_bind_eq: "m d = (Ok y, e1) \<Longrightarrow> act_bind m k d = (case k y (apply_effects e1 d) of (r, e2) \<Rightarrow> (r, e1 @ e2))"
  by (simp add: act_bind_def)

lemmas act_simps = act_return_def act_throw_def act_do_def act_read_def

section \<open>What a directory holds\<close>

text \<open>Two indexes that differ in leases only.\<close>

definition agrees :: "SegmentIndex \<Rightarrow> SegmentIndex \<Rightarrow> bool" where
  "agrees i j \<longleftrightarrow> (\<forall>r. map_option (se_lease_update (\<lambda>_. 0)) (bt_get i r) = map_option (se_lease_update (\<lambda>_. 0)) (bt_get j r))"

lemma agrees_refl [simp]: "agrees i i"
  by (simp add: agrees_def)

lemma agrees_insert: "agrees i j \<Longrightarrow> agrees (bt_insert r e i) (bt_insert r e j)"
  by (simp add: agrees_def)

lemma agrees_lease: "agrees i j \<Longrightarrow> bt_get i r = Some e \<Longrightarrow> agrees (with_lease l i r e) j"
  by (auto simp: agrees_def with_lease_def) (metis (no_types, lifting) option.simps(9))

lemma agrees_Some:
  assumes "agrees i j" "bt_get i r = Some e"
  obtains e' where "bt_get j r = Some e'" "se_ref e' = se_ref e" "se_offset e' = se_offset e" "se_len e' = se_len e" "se_sha e' = se_sha e"
proof -
  have "map_option (se_lease_update (\<lambda>_. 0)) (bt_get j r) = Some (e\<lparr>se_lease := 0\<rparr>)"
    using assms(1) [unfolded agrees_def, THEN spec, of r] assms(2) by simp
  then obtain e' where e': "bt_get j r = Some e'" "e'\<lparr>se_lease := 0\<rparr> = e\<lparr>se_lease := 0\<rparr>" by auto
  from arg_cong [OF e'(2), of se_ref] arg_cong [OF e'(2), of se_offset] arg_cong [OF e'(2), of se_len] arg_cong [OF e'(2), of se_sha]
  show ?thesis using e'(1) that by simp
qed

lemma agrees_None: "agrees i j \<Longrightarrow> bt_get i r = None \<Longrightarrow> bt_get j r = None"
  unfolding agrees_def by (metis map_option_is_None)

text \<open>The data file of a segment: the magic, its records, and a tail no index refers to.\<close>

definition seg_data :: "seg_env \<Rightarrow> fs \<Rightarrow> SegmentDescriptor \<Rightarrow> seg_rec list \<Rightarrow> byte list \<Rightarrow> bool" where
  "seg_data E d s xs tail \<longleftrightarrow> bt_get d (data_file s) = Some (MAGIC @ recs_bytes E xs @ tail) \<and> list_all (rec_ok E) xs"

definition seg_written :: "seg_env \<Rightarrow> SegmentDescriptor \<Rightarrow> seg_rec list \<Rightarrow> bool" where
  "seg_written E s xs \<longleftrightarrow> written_bytes s = 8 + length (recs_bytes E xs) \<and> written_bytes s \<le> u64_max"

definition indexed :: "seg_env \<Rightarrow> fs \<Rightarrow> SegmentDescriptor \<Rightarrow> seg_rec list \<Rightarrow> bool" where
  "indexed E d s xs \<longleftrightarrow> (\<exists>tail. seg_data E d s xs tail) \<and>
     (case load_index E s d of Inl _ \<Rightarrow> False | Inr i \<Rightarrow> agrees i (index_from E 8 xs []))"

text \<open>A hot segment may also have lost its index; then the written bound has to be exact.\<close>

definition hot_serves :: "seg_env \<Rightarrow> fs \<Rightarrow> SegmentDescriptor \<Rightarrow> seg_rec list \<Rightarrow> bool" where
  "hot_serves E d s xs \<longleftrightarrow> (\<exists>tail. seg_data E d s xs tail) \<and>
     (case load_index E s d of Inl _ \<Rightarrow> seg_written E s xs | Inr i \<Rightarrow> agrees i (index_from E 8 xs []))"

definition named :: "SegmentDescriptor \<Rightarrow> bool" where
  "named s \<longleftrightarrow> data_file s = data_name (sd_generation s) \<and> index_file s = index_name (sd_generation s) \<and> sd_generation s \<le> u64_max"

definition well_named :: "SegmentManifest \<Rightarrow> bool" where
  "well_named m \<longleftrightarrow> list_all named (sm_hot m # sm_cold m) \<and> list_all (\<lambda>s. sd_generation s < sd_generation (sm_hot m)) (sm_cold m) \<and>
     distinct (map sd_generation (sm_cold m))"

definition holds :: "seg_env \<Rightarrow> fs \<Rightarrow> SegmentManifest \<Rightarrow> seg_rec list \<Rightarrow> seg_rec list list \<Rightarrow> bool" where
  "holds E d m h cs \<longleftrightarrow> load_manifest E manifest_file d = Ok m \<and> well_named m \<and> hot_serves E d (sm_hot m) h \<and>
     list_all2 (indexed E d) (sm_cold m) cs"

text \<open>The abstract store: the newest segment that knows a reference answers.\<close>

fun first_known :: "seg_rec list list \<Rightarrow> rstr \<Rightarrow> byte list option" where
  "first_known [] r = None"
| "first_known (c # cs) r = (case rec_lookup c r of Some b \<Rightarrow> Some b | None \<Rightarrow> first_known cs r)"

definition view :: "seg_rec list \<Rightarrow> seg_rec list list \<Rightarrow> rstr \<Rightarrow> byte list option" where
  "view h cs r = first_known (h # rev cs) r"

lemma read_entry_exact:
  assumes "seg_data E d s xs tail" "agrees i (index_from E 8 xs [])"
  shows "bt_get i r = None \<Longrightarrow> rec_lookup xs r = None"
    and "bt_get i r = Some e \<Longrightarrow> \<exists>b. rec_lookup xs r = Some b \<and> read_entry E (data_file s) e d = Ok b"
proof -
  show "rec_lookup xs r = None" if "bt_get i r = None"
    using agrees_None [OF assms(2) that] by (simp add: index_from_get rec_pos_None split: option.splits)
  assume "bt_get i r = Some e"
  with assms(2) obtain e' where e': "bt_get (index_from E 8 xs []) r = Some e'" and eq: "se_offset e' = se_offset e" "se_len e' = se_len e" "se_sha e' = se_sha e"
    by (rule agrees_Some)
  then have "rec_pos E 8 xs r = Some e'" by (simp add: index_from_get split: option.splits)
  from rec_pos_Some [OF this, of MAGIC tail] assms(1) obtain b rest where
    "rec_lookup xs r = Some b" "se_len e = length b" "se_sha e = seg_sha E b" "drop (se_offset e) (MAGIC @ recs_bytes E xs @ tail) = b @ rest"
    unfolding seg_data_def eq by auto
  then show "\<exists>b. rec_lookup xs r = Some b \<and> read_entry E (data_file s) e d = Ok b"
    using assms(1) by (simp add: read_entry_def seg_data_def)
qed

section \<open>Frames\<close>

lemma load_index_cong: "bt_get d' (index_file s) = bt_get d (index_file s) \<Longrightarrow> load_index E s d' = load_index E s d"
  by (simp add: load_index_def)

lemma indexed_cong:
  "bt_get d' (index_file s) = bt_get d (index_file s) \<Longrightarrow> bt_get d' (data_file s) = bt_get d (data_file s) \<Longrightarrow> indexed E d' s xs = indexed E d s xs"
  "bt_get d' (index_file s) = bt_get d (index_file s) \<Longrightarrow> bt_get d' (data_file s) = bt_get d (data_file s) \<Longrightarrow> hot_serves E d' s xs = hot_serves E d s xs"
  by (simp_all add: indexed_def hot_serves_def seg_data_def load_index_cong [of d' s d])

lemma live_names_cold: "s \<in> set (sm_cold m) \<Longrightarrow> data_file s \<in> set (live_names m) \<and> index_file s \<in> set (live_names m)"
  by (force simp: live_names_def)

lemma live_names_hot: "data_file (sm_hot m) \<in> set (live_names m)" "index_file (sm_hot m) \<in> set (live_names m)"
  by (simp_all add: live_names_def)

definition cold_names :: "SegmentManifest \<Rightarrow> rstr set" where
  "cold_names m = (\<Union>s \<in> set (sm_cold m). {data_file s, index_file s})"

lemma cold_frame:
  assumes "list_all2 (indexed E d) (sm_cold m) cs" "\<And>f. f \<in> cold_names m \<Longrightarrow> bt_get d' f = bt_get d f"
  shows "list_all2 (indexed E d') (sm_cold m) cs"
  using assms(1)
proof (rule list.rel_mono_strong)
  fix s xs
  assume "s \<in> set (sm_cold m)" "indexed E d s xs"
  then show "indexed E d' s xs" using indexed_cong(1) [of d' s d E xs] assms(2) by (force simp: cold_names_def)
qed

lemma load_manifest_cong: "bt_get d' p = bt_get d p \<Longrightarrow> load_manifest E p d' = load_manifest E p d"
  by (simp add: load_manifest_def)

lemma holds_frame:
  assumes h: "holds E d m h cs" and f: "\<And>f. f \<in> insert manifest_file (set (live_names m)) \<Longrightarrow> bt_get d' f = bt_get d f"
  shows "holds E d' m h cs"
proof -
  have "list_all2 (indexed E d) (sm_cold m) cs" using h by (simp add: holds_def)
  then have "list_all2 (indexed E d') (sm_cold m) cs"
  proof (rule cold_frame)
    show "bt_get d' g = bt_get d g" if "g \<in> cold_names m" for g
      using that live_names_cold [of _ m] by (intro f) (auto simp: cold_names_def)
  qed
  moreover have "load_manifest E manifest_file d' = load_manifest E manifest_file d"
    by (rule load_manifest_cong) (rule f, simp)
  moreover have "hot_serves E d' (sm_hot m) h = hot_serves E d (sm_hot m) h"
    by (rule indexed_cong(2); rule f) (use live_names_hot in auto)
  ultimately show ?thesis using h by (simp add: holds_def)
qed

lemma names_of:
  assumes "well_named m"
  shows "f \<in> set (live_names m) \<Longrightarrow> name_end f \<in> {116, 120}" and "f \<in> cold_names m \<Longrightarrow> f \<noteq> data_file (sm_hot m) \<and> f \<noteq> index_file (sm_hot m)"
    and "f \<in> cold_names m \<Longrightarrow> name_end f \<in> {116, 120}"
proof -
  show "name_end f \<in> {116, 120}" if "f \<in> set (live_names m)"
    using that assms by (force simp: live_names_def well_named_def named_def list_all_iff)
  show "name_end f \<in> {116, 120}" if "f \<in> cold_names m"
    using that assms by (force simp: cold_names_def well_named_def named_def list_all_iff)
  show "f \<noteq> data_file (sm_hot m) \<and> f \<noteq> index_file (sm_hot m)" if "f \<in> cold_names m"
  proof -
    from that obtain s where s: "s \<in> set (sm_cold m)" "f = data_file s \<or> f = index_file s" by (auto simp: cold_names_def)
    then have "named s" "named (sm_hot m)" "sd_generation s \<noteq> sd_generation (sm_hot m)" using assms by (auto simp: well_named_def list_all_iff)
    with s(2) show ?thesis by (auto simp: named_def)
  qed
qed

section \<open>Opening and reading\<close>

lemma load_manifest_Some: "load_manifest E p d = Ok m \<Longrightarrow> bt_contains d p"
  by (auto simp: load_manifest_def bt_contains_def split: option.splits)

lemma load_manifest_main: "load_manifest E manifest_file d = Ok m \<Longrightarrow> load_manifest_fallback E d = Ok m \<and> seg_exists d"
  using load_manifest_Some [of E manifest_file d m] by (simp add: load_manifest_fallback_def seg_exists_def)

definition recovery_effects :: "seg_env \<Rightarrow> SegmentDescriptor \<Rightarrow> nat \<Rightarrow> SegmentIndex \<Rightarrow> effect list" where
  "recovery_effects E s n i = (if n \<noteq> written_bytes s then [SetLen (data_file s) (written_bytes s)] else []) @
     [WriteFile (index_tmp (index_file s)) (enc_index E i), RenameFile (index_tmp (index_file s)) (index_file s)]"

lemma recover_eq:
  assumes "env_ok E" "seg_data E d s xs tail" "seg_written E s xs"
  shows "recover E s d = (Ok (index_from E 8 xs []), recovery_effects E s (8 + length (recs_bytes E xs @ tail)) (index_from E 8 xs []))"
proof -
  have "recover_loop E (written_bytes s) 8 (recs_bytes E xs @ tail) [] 8 = (index_from E 8 xs [], written_bytes s)"
    using assms by (intro recover_loop_exact) (simp_all add: seg_data_def seg_written_def)
  with assms(2) show ?thesis
    by (simp add: recover_def seg_data_def recovery_effects_def act_bind_def act_simps write_index_def Let_def)
qed

lemma recovery_effects_frame: "f \<notin> {data_file s, index_file s, index_tmp (index_file s)} \<Longrightarrow>
    bt_get (apply_effects (recovery_effects E s n i) d) f = bt_get d f"
  by (rule effects_frame) (auto simp: recovery_effects_def)

lemma recovery_effects_hot:
  assumes "named s" "seg_data E d s xs tail" "seg_written E s xs"
  shows "bt_get (apply_effects (recovery_effects E s (8 + length (recs_bytes E xs @ tail)) i) d) (data_file s) = Some (MAGIC @ recs_bytes E xs)"
    and "bt_get (apply_effects (recovery_effects E s (8 + length (recs_bytes E xs @ tail)) i) d) (index_file s) = Some (enc_index E i)"
  using assms by (auto simp: recovery_effects_def seg_data_def seg_written_def named_def)

lemma load_or_recover_serves:
  assumes E: "env_ok E" and s: "named s" and h: "hot_serves E d s xs"
  obtains i es where "load_or_recover_hot E s d = (Ok i, es)" "agrees i (index_from E 8 xs [])" "hot_serves E (apply_effects es d) s xs"
    "\<And>f. f \<notin> {data_file s, index_file s, index_tmp (index_file s)} \<Longrightarrow> bt_get (apply_effects es d) f = bt_get d f"
proof (cases "load_index E s d")
  case (Inr i)
  with h that [of i "[]"] show ?thesis by (simp add: load_or_recover_hot_def hot_serves_def)
next
  case (Inl x)
  with h obtain tail where t: "seg_data E d s xs tail" and w: "seg_written E s xs" by (auto simp: hot_serves_def)
  let ?i = "index_from E 8 xs []"
  let ?es = "recovery_effects E s (8 + length (recs_bytes E xs @ tail)) ?i"
  note r = recover_eq [OF E t w] and g = recovery_effects_hot [OF s t w, of ?i]
  have "load_index E s (apply_effects ?es d) = Ok i \<Longrightarrow> i = ?i" for i
    using g(2) E by (auto simp: load_index_def env_ok_def split: if_splits)
  then have "hot_serves E (apply_effects ?es d) s xs"
    using g(1) t w by (auto simp: hot_serves_def seg_data_def split: sum.splits)
  with that [of ?i ?es] r Inl recovery_effects_frame show ?thesis by (simp add: load_or_recover_hot_def)
qed

lemma holds_hot:
  assumes h: "holds E d m h cs" and hot: "hot_serves E d' (sm_hot m) h'"
    and f: "\<And>f. f \<notin> {data_file (sm_hot m), index_file (sm_hot m)} \<Longrightarrow> name_end f \<in> {110, 116, 120} \<Longrightarrow> bt_get d' f = bt_get d f"
  shows "holds E d' m h' cs"
proof -
  have wn: "well_named m" using h by (simp add: holds_def)
  have "list_all2 (indexed E d) (sm_cold m) cs" using h by (simp add: holds_def)
  then have "list_all2 (indexed E d') (sm_cold m) cs"
    by (rule cold_frame) (use names_of(2,3) [OF wn] f in auto)
  moreover have "bt_get d' manifest_file = bt_get d manifest_file"
    by (rule f) (use wn in \<open>auto simp: well_named_def named_def\<close>)
  ultimately show ?thesis using h hot load_manifest_cong [of d' manifest_file d E] by (simp add: holds_def)
qed

lemma reload_holds:
  assumes E: "env_ok E" and h: "holds E d m h cs"
  obtains i es where
    "reload E st d = (Ok (st\<lparr>hot_index := i, ss_manifest := (case bytes_override st of None \<Rightarrow> m | Some n \<Rightarrow> m\<lparr>segment_bytes := n\<rparr>), cold_indexes := []\<rparr>), es)"
    "agrees i (index_from E 8 h [])" "holds E (apply_effects es d) m h cs"
proof -
  have s: "named (sm_hot m)" "hot_serves E d (sm_hot m) h" and lm: "load_manifest E manifest_file d = Ok m"
    using h by (simp_all add: holds_def well_named_def)
  from E s obtain i es where i: "load_or_recover_hot E (sm_hot m) d = (Ok i, es)" "agrees i (index_from E 8 h [])"
      "hot_serves E (apply_effects es d) (sm_hot m) h"
      and f: "\<And>f. f \<notin> {data_file (sm_hot m), index_file (sm_hot m), index_tmp (index_file (sm_hot m))} \<Longrightarrow> bt_get (apply_effects es d) f = bt_get d f"
    by (rule load_or_recover_serves) blast
  have "holds E (apply_effects es d) m h cs" using h i(3) by (rule holds_hot) (rule f, auto)
  with that [of i es] i lm load_manifest_main [OF lm] show ?thesis
    by (simp add: reload_def act_bind_def act_simps)
qed

lemma expand_cold_exact:
  "list_all2 (indexed E d) ss cs \<Longrightarrow> distinct (map sd_generation ss) \<Longrightarrow> (\<And>s. s \<in> set ss \<Longrightarrow> bt_get (cold_indexes st) (sd_generation s) = None) \<Longrightarrow>
     \<exists>st'. expand_cold E r ss st d = (Ok (first_known cs r, st'), [])"
proof (induction ss cs arbitrary: st rule: list_all2_induct)
  case (Cons s ss c cs)
  then obtain i tail where i: "load_index E s d = Ok i" "agrees i (index_from E 8 c [])" "seg_data E d s c tail"
    by (auto simp: indexed_def split: sum.splits)
  let ?st = "st\<lparr>cold_indexes := bt_insert (sd_generation s) i (cold_indexes st)\<rparr>"
  have ci: "cold_index E s st d = (Ok (i, ?st), [])"
    using Cons.prems i by (simp add: cold_index_def act_bind_def act_simps)
  show ?case
  proof (cases "bt_get i r")
    case None
    have "\<exists>st'. expand_cold E r ss ?st d = (Ok (first_known cs r, st'), [])"
      using Cons.prems by (intro Cons.IH) (auto simp: image_iff dest: sym)
    with ci None read_entry_exact(1) [OF i(3,2) None] show ?thesis by (auto simp: act_bind_def)
  next
    case (Some e)
    with ci read_entry_exact(2) [OF i(3,2) Some] show ?thesis by (auto simp: act_bind_def act_simps)
  qed
qed (simp add: act_simps)

lemma seg_expand_holds:
  assumes E: "env_ok E" and h: "holds E d m h cs"
  shows "\<exists>st' es. seg_expand E r st d = (Ok (view h cs r, st'), es) \<and> holds E (apply_effects es d) m h cs"
proof -
  from E h obtain i es where
    rl: "reload E st d = (Ok (st\<lparr>hot_index := i, ss_manifest := (case bytes_override st of None \<Rightarrow> m | Some n \<Rightarrow> m\<lparr>segment_bytes := n\<rparr>), cold_indexes := []\<rparr>), es)"
    and i: "agrees i (index_from E 8 h [])" and h': "holds E (apply_effects es d) m h cs" by (rule reload_holds)
  let ?st = "st\<lparr>hot_index := i, ss_manifest := (case bytes_override st of None \<Rightarrow> m | Some n \<Rightarrow> m\<lparr>segment_bytes := n\<rparr>), cold_indexes := []\<rparr>"
  have st: "sm_hot (ss_manifest ?st) = sm_hot m" "sm_cold (ss_manifest ?st) = sm_cold m" by (simp_all split: option.splits)
  obtain tail where t: "seg_data E (apply_effects es d) (sm_hot m) h tail" using h' by (auto simp: holds_def hot_serves_def)
  have lf: "lock_free E" using E by (simp add: env_ok_def)
  show ?thesis
  proof (cases "bt_get i r")
    case None
    have "list_all2 (indexed E (apply_effects es d)) (rev (sm_cold m)) (rev cs)" "distinct (map sd_generation (sm_cold m))"
      using h' by (simp_all add: holds_def well_named_def)
    then have "\<exists>st'. expand_cold E r (rev (sm_cold m)) ?st (apply_effects es d) = (Ok (first_known (rev cs) r, st'), [])"
      by (intro expand_cold_exact) (simp_all add: rev_map [symmetric])
    with rl None lf h' st read_entry_exact(1) [OF t i None] show ?thesis
      by (auto simp: seg_expand_def locked_def act_bind_def view_def)
  next
    case (Some e)
    from read_entry_exact(2) [OF t i Some] obtain b where "rec_lookup h r = Some b" "read_entry E (data_file (sm_hot m)) e (apply_effects es d) = Ok b" by blast
    with rl Some lf h' st show ?thesis by (auto simp: seg_expand_def locked_def act_bind_def act_simps view_def)
  qed
qed

lemma orphans_not_live: "\<not> segment_name (lit ''.segment'') manifest_file" "\<not> segment_name (lit ''.segment.index'') manifest_file"
  by code_simp+

lemma seg_open_holds:
  assumes E: "env_ok E" and h: "holds E d m h cs"
  shows "\<exists>st es. seg_open E d = (Ok st, es) \<and> ss_manifest st = m \<and> holds E (apply_effects es d) m h cs"
proof -
  have lm: "load_manifest E manifest_file d = Ok m" using h by (simp add: holds_def)
  obtain cu where cu: "cleanup_orphan_segments m d = (Ok (), cu)" "\<forall>e \<in> set cu. set (touches e) \<inter> insert manifest_file (set (live_names m)) = {}"
    using orphans_not_live by (auto simp: cleanup_orphan_segments_def)
  let ?d = "apply_effects cu d"
  have h': "holds E ?d m h cs" using h by (rule holds_frame) (rule effects_frame, use cu(2) in blast)
  then have s: "named (sm_hot m)" "hot_serves E ?d (sm_hot m) h" by (simp_all add: holds_def well_named_def)
  from E s obtain i es where i: "load_or_recover_hot E (sm_hot m) ?d = (Ok i, es)" "agrees i (index_from E 8 h [])"
      "hot_serves E (apply_effects es ?d) (sm_hot m) h"
      and f: "\<And>f. f \<notin> {data_file (sm_hot m), index_file (sm_hot m), index_tmp (index_file (sm_hot m))} \<Longrightarrow> bt_get (apply_effects es ?d) f = bt_get ?d f"
    by (rule load_or_recover_serves) blast
  have "holds E (apply_effects es ?d) m h cs" using h' i(3) by (rule holds_hot) (rule f, auto)
  with E cu i lm load_manifest_main [OF lm] show ?thesis
    by (auto simp: seg_open_def refuse_tilde_def locked_def env_ok_def act_bind_def act_simps)
qed

section \<open>Appending\<close>

text \<open>A directory without a tail, whose hot index is intact.\<close>

definition clean :: "seg_env \<Rightarrow> fs \<Rightarrow> SegmentManifest \<Rightarrow> seg_rec list \<Rightarrow> seg_rec list list \<Rightarrow> bool" where
  "clean E d m h cs \<longleftrightarrow> holds E d m h cs \<and> indexed E d (sm_hot m) h \<and> seg_data E d (sm_hot m) h [] \<and> seg_written E (sm_hot m) h"

text \<open>A handle about to append, whose manifest need not be published yet.\<close>

definition ready :: "seg_env \<Rightarrow> fs \<Rightarrow> SegmentStore \<Rightarrow> seg_rec list \<Rightarrow> seg_rec list list \<Rightarrow> bool" where
  "ready E d st h cs \<longleftrightarrow> (let m = ss_manifest st in
     well_named m \<and> seg_data E d (sm_hot m) h [] \<and> agrees (hot_index st) (index_from E 8 h []) \<and> list_all2 (indexed E d) (sm_cold m) cs \<and>
     manifest_version m = MANIFEST_VERSION \<and> store_format_version m = SEGMENT_FORMAT_VERSION \<and> bt_contains d manifest_file)"

definition append_effects :: "seg_env \<Rightarrow> SegmentDescriptor \<Rightarrow> seg_rec \<Rightarrow> SegmentIndex \<Rightarrow> SegmentManifest \<Rightarrow> effect list" where
  "append_effects E s x i m =
     [AppendFile (data_file s) (rec_bytes E x), WriteFile (index_tmp (index_file s)) (enc_index E i),
      RenameFile (index_tmp (index_file s)) (index_file s), WriteFile (manifest_tmp E) (enc_manifest E m),
      CopyFile manifest_file (bak manifest_file), RenameFile (manifest_tmp E) manifest_file]"

lemma contains_Some: "bt_contains d f \<longleftrightarrow> (\<exists>b. bt_get d f = Some b)"
  by (auto simp: bt_contains_def)

lemma append_entry_effects:
  assumes rd: "ready E d st h cs" and a: "append_entry E mt b st d = (Ok st', es)"
  shows "\<exists>s'. let i = bt_insert (meta_ref mt) (entry_at E (8 + length (recs_bytes E h)) (mt, b)) (hot_index st); m' = ss_manifest st' in
    es = append_effects E (sm_hot (ss_manifest st)) (mt, b) i m' \<and>
    m' = (ss_manifest st)\<lparr>sm_hot := s', sm_generation := sm_generation m', checksum := checksum m'\<rparr> \<and> seg_checksum E m' = checksum m' \<and>
    s' = (sm_hot (ss_manifest st))\<lparr>index_hash := seg_sha E (enc_index E i), written_bytes := 8 + length (recs_bytes E (h @ [(mt, b)])),
      ref_count := length i, min_lease := min_lease_of i\<rparr>"
proof -
  have n: "named (sm_hot (ss_manifest st))" and g: "bt_get d (data_file (sm_hot (ss_manifest st))) = Some (MAGIC @ recs_bytes E h)"
    and c: "bt_contains d manifest_file"
    using rd by (simp_all add: ready_def Let_def well_named_def seg_data_def)
  from c obtain mb where mb: "bt_get d manifest_file = Some mb" by (auto simp: contains_Some)
  show ?thesis
    using a n g mb
    by (auto simp: append_entry_def act_bind_def act_simps Let_def file_len_def write_index_def publish_store_def publish_def
        append_effects_def entry_at_def rec_bytes_def contains_Some named_def seg_checksum_def add.assoc split: sum.splits if_splits prod.splits)
qed

lemma append_effects_get:
  assumes "named s" "bt_get d (data_file s) = Some c" "bt_get d manifest_file = Some mb"
  shows "bt_get (apply_effects (append_effects E s x i m) d) (data_file s) = Some (c @ rec_bytes E x)"
    and "bt_get (apply_effects (append_effects E s x i m) d) (index_file s) = Some (enc_index E i)"
    and "bt_get (apply_effects (append_effects E s x i m) d) manifest_file = Some (enc_manifest E m)"
  using assms by (auto simp: append_effects_def named_def)

lemma append_effects_frame:
  "f \<notin> {data_file s, index_file s, index_tmp (index_file s), manifest_tmp E, bak manifest_file, manifest_file} \<Longrightarrow>
     bt_get (apply_effects (append_effects E s x i m) d) f = bt_get d f"
  by (rule effects_frame) (auto simp: append_effects_def)

lemma load_published:
  assumes "env_ok E" "bt_get d manifest_file = Some (enc_manifest E m)" "seg_checksum E m = checksum m"
    "manifest_version m = MANIFEST_VERSION" "store_format_version m = SEGMENT_FORMAT_VERSION"
  shows "load_manifest E manifest_file d = Ok m"
  using assms by (simp add: load_manifest_def env_ok_def)

lemma append_entry_clean:
  assumes E: "env_ok E" and rd: "ready E d st h cs" and a: "append_entry E mt b st d = (Ok st', es)"
    and x: "rec_ok E (mt, b)" and w: "8 + length (recs_bytes E (h @ [(mt, b)])) \<le> u64_max"
  shows "clean E (apply_effects es d) (ss_manifest st') (h @ [(mt, b)]) cs"
proof -
  let ?m = "ss_manifest st" and ?m' = "ss_manifest st'"
  let ?s = "sm_hot ?m"
  define i where "i = bt_insert (meta_ref mt) (entry_at E (8 + length (recs_bytes E h)) (mt, b)) (hot_index st)"
  from append_entry_effects [OF rd a] obtain s' where es: "es = append_effects E ?s (mt, b) i ?m'"
    and m': "?m' = ?m\<lparr>sm_hot := s', sm_generation := sm_generation ?m', checksum := checksum ?m'\<rparr>" "seg_checksum E ?m' = checksum ?m'"
    and s': "s' = ?s\<lparr>index_hash := seg_sha E (enc_index E i), written_bytes := 8 + length (recs_bytes E (h @ [(mt, b)])),
      ref_count := length i, min_lease := min_lease_of i\<rparr>"
    unfolding Let_def i_def [symmetric] by blast
  have hot: "sm_hot ?m' = s'" "sm_cold ?m' = sm_cold ?m" "manifest_version ?m' = MANIFEST_VERSION" "store_format_version ?m' = SEGMENT_FORMAT_VERSION"
    by (subst m'(1), use rd in \<open>simp add: ready_def Let_def\<close>)+
  from rd have n: "named ?s" and g: "bt_get d (data_file ?s) = Some (MAGIC @ recs_bytes E h)" and ok: "list_all (rec_ok E) h"
    and ag: "agrees (hot_index st) (index_from E 8 h [])" and wn: "well_named ?m" and cold: "list_all2 (indexed E d) (sm_cold ?m) cs"
    by (simp_all add: ready_def Let_def well_named_def seg_data_def)
  obtain mb where mb: "bt_get d manifest_file = Some mb" using rd by (auto simp: ready_def Let_def contains_Some)
  let ?d = "apply_effects es d"
  note get = append_effects_get [OF n g mb, of E "(mt, b)" i ?m', folded es]
  have names: "data_file s' = data_file ?s" "index_file s' = index_file ?s" "sd_generation s' = sd_generation ?s" using s' by simp_all
  have lm: "load_manifest E manifest_file ?d = Ok ?m'" using load_published [OF E get(3) m'(2) hot(3,4)] .
  have wn': "well_named ?m'" using wn hot names by (simp add: well_named_def named_def)
  have dat: "seg_data E ?d s' (h @ [(mt, b)]) []" using get(1) names ok x by (simp add: seg_data_def)
  have li: "load_index E s' ?d = Ok i" using get(2) names s' E by (simp add: load_index_def env_ok_def)
  have ai: "agrees i (index_from E 8 (h @ [(mt, b)]) [])" unfolding i_def index_from_snoc using ag by (simp add: agrees_insert)
  have "list_all2 (indexed E ?d) (sm_cold ?m) cs"
    using cold
  proof (rule cold_frame)
    fix f assume f: "f \<in> cold_names ?m"
    show "bt_get ?d f = bt_get d f"
      unfolding es using names_of(2,3) [OF wn f] name_end_tmp [of E] by (intro append_effects_frame) auto
  qed
  then show ?thesis
    using lm wn' dat li ai hot s' w by (auto simp: clean_def holds_def hot_serves_def indexed_def seg_written_def)
qed

text \<open>A crash in the middle of an append leaves the old records, or exceptionally the new one too.\<close>

lemma append_crash:
  assumes E: "env_ok E" and cl: "clean E d m h cs" and i: "load_index E (sm_hot m) d = Ok i0"
    and x: "rec_ok E (mt, b)"
    and cr: "crash d (butlast (append_effects E (sm_hot m) (mt, b) (bt_insert (meta_ref mt) (entry_at E (8 + length (recs_bytes E h)) (mt, b)) i0) m')) d'"
  shows "holds E d' m h cs \<or> holds E d' m (h @ [(mt, b)]) cs"
proof -
  let ?s = "sm_hot m"
  define i where "i = bt_insert (meta_ref mt) (entry_at E (8 + length (recs_bytes E h)) (mt, b)) i0"
  let ?new = "rec_bytes E (mt, b)" and ?t = "index_tmp (index_file ?s)"
  let ?A = "[AppendFile (data_file ?s) ?new]" and ?W = "[WriteFile ?t (enc_index E i)]" and ?R = "[RenameFile ?t (index_file ?s)]"
    and ?M = "[WriteFile (manifest_tmp E) (enc_manifest E m'), CopyFile manifest_file (bak manifest_file)]"
  from cl have h: "holds E d m h cs" and n: "named ?s" and g: "bt_get d (data_file ?s) = Some (MAGIC @ recs_bytes E h)"
    and ok: "list_all (rec_ok E) h" and sw: "seg_written E ?s h" and ag: "agrees i0 (index_from E 8 h [])"
    using i by (auto simp: clean_def holds_def well_named_def seg_data_def indexed_def)
  have frame: "bt_get d' f = bt_get d f" if "f \<notin> {data_file ?s, index_file ?s}" "name_end f \<in> {110, 116, 120}" for f
    using cr that name_end_tmp [of E] by (elim crash_frame) (auto simp: append_effects_def)
  have old: "holds E d' m h cs" if "bt_get d' (data_file ?s) = Some (MAGIC @ recs_bytes E h @ tail)" "bt_get d' (index_file ?s) = bt_get d (index_file ?s)" for tail
    using h
  proof (rule holds_hot)
    show "hot_serves E d' ?s h" using that ok ag i load_index_cong [OF that(2), of E] by (auto simp: hot_serves_def seg_data_def)
  qed (rule frame)
  have new: "holds E d' m h cs \<or> holds E d' m (h @ [(mt, b)]) cs"
    if "bt_get d' (data_file ?s) = Some (MAGIC @ recs_bytes E h @ ?new)" "bt_get d' (index_file ?s) = Some (enc_index E i)"
  proof (cases "load_index E ?s d'")
    case (Inl z)
    then have "hot_serves E d' ?s h" using that(1) ok sw by (auto simp: hot_serves_def seg_data_def)
    then show ?thesis using holds_hot [OF h _ frame] by blast
  next
    case (Inr j)
    then have "j = i" using that(2) E by (auto simp: load_index_def env_ok_def split: if_splits)
    moreover have "agrees i (index_from E 8 (h @ [(mt, b)]) [])" unfolding i_def index_from_snoc using ag by (simp add: agrees_insert)
    ultimately have "hot_serves E d' ?s (h @ [(mt, b)])" using Inr that(1) ok x by (auto simp: hot_serves_def seg_data_def)
    then show ?thesis using holds_hot [OF h _ frame] by blast
  qed
  have app: "bt_get (apply_effects ?A d) (data_file ?s) = Some (MAGIC @ recs_bytes E h @ ?new)" "bt_get (apply_effects ?A d) (index_file ?s) = bt_get d (index_file ?s)"
    using g n by (auto simp: named_def)
  from cr have "crash d (?A @ ?W @ ?R @ ?M) d'" by (simp add: append_effects_def i_def)
  then consider "crash d ?A d'" | "crash (apply_effects ?A d) ?W d'" | "crash (apply_effects (?A @ ?W) d) ?R d'" | "crash (apply_effects (?A @ ?W @ ?R) d) ?M d'"
    unfolding crash_append by auto
  then show ?thesis
  proof cases
    case 1
    then have "\<exists>tail. bt_get d' (data_file ?s) = Some (MAGIC @ recs_bytes E h @ tail) \<and> bt_get d' (index_file ?s) = bt_get d (index_file ?s)"
      using g n by (elim crash_ConsE crash_NilE) (auto simp: named_def)
    then show ?thesis using old by blast
  next
    case 2
    then have "bt_get d' f = bt_get (apply_effects ?A d) f" if "f \<noteq> ?t" for f using that by (elim crash_frame) auto
    then show ?thesis using app n by (intro disjI1 old [of ?new]) (auto simp: named_def)
  next
    case 3
    then have "d' = apply_effects (?A @ ?W) d \<or> d' = apply_effects (?A @ ?W @ ?R) d"
      by (elim crash_ConsE crash_NilE) auto
    then show ?thesis
    proof
      assume "d' = apply_effects (?A @ ?W) d"
      then show ?thesis using app n by (intro disjI1 old [of ?new]) (auto simp: named_def)
    next
      assume "d' = apply_effects (?A @ ?W @ ?R) d"
      then show ?thesis using app n by (intro new) (auto simp: named_def)
    qed
  next
    case 4
    then have f: "bt_get d' f = bt_get (apply_effects (?A @ ?W @ ?R) d) f" if "name_end f \<in> {116, 120}" for f
      using that name_end_tmp [of E] by (elim crash_frame) auto
    show ?thesis using g n f [of "data_file ?s"] f [of "index_file ?s"] by (intro new) (auto simp: named_def)
  qed
qed

section \<open>Storing a new reference\<close>

definition unknown :: "seg_rec list \<Rightarrow> seg_rec list list \<Rightarrow> rstr \<Rightarrow> bool" where
  "unknown h cs r \<longleftrightarrow> rec_lookup h r = None \<and> list_all (\<lambda>c. rec_lookup c r = None) cs"

lemma agrees_sym: "agrees i j \<Longrightarrow> agrees j i"
  by (simp add: agrees_def)

lemma index_unknown: "agrees i (index_from E 8 c []) \<Longrightarrow> rec_lookup c r = None \<Longrightarrow> bt_get i r = None"
  using rec_pos_None [of E 8 c r] agrees_None [OF agrees_sym, of i "index_from E 8 c []" r] by (simp add: index_from_get)

lemma put_cold_unknown:
  assumes "list_all2 (indexed E d) (sm_cold (ss_manifest st)) cs" "list_all (\<lambda>c. rec_lookup c r = None) cs"
    and "distinct (map sd_generation (sm_cold (ss_manifest st)))" "n \<le> length cs"
    and "\<And>s i. s \<in> set (sm_cold (ss_manifest st)) \<Longrightarrow> bt_get (cold_indexes st) (sd_generation s) = Some i \<Longrightarrow> load_index E s d = Ok i"
  shows "\<exists>ci. put_cold E r b lease n st d = (Ok (None, st\<lparr>cold_indexes := ci\<rparr>), [])"
  using assms
proof (induction n arbitrary: st)
  case 0
  have "st = st\<lparr>cold_indexes := cold_indexes st\<rparr>" by simp
  then show ?case unfolding put_cold.simps act_return_def by metis
next
  case (Suc n)
  let ?s = "sm_cold (ss_manifest st) ! n"
  have n: "n < length (sm_cold (ss_manifest st))" "n < length cs" using Suc.prems(1,4) by (auto dest: list_all2_lengthD)
  then have s: "?s \<in> set (sm_cold (ss_manifest st))" by simp
  have "indexed E d ?s (cs ! n)" using Suc.prems(1) n by (simp add: list_all2_conv_all_nth)
  then obtain i where i: "load_index E ?s d = Ok i" "agrees i (index_from E 8 (cs ! n) [])" by (auto simp: indexed_def split: sum.splits)
  have "rec_lookup (cs ! n) r = None" using Suc.prems(2) n by (simp add: list_all_length)
  then have none: "bt_get i r = None" using i(2) by (rule index_unknown [rotated])
  obtain c1 where ci: "cold_index E ?s st d = (Ok (i, st\<lparr>cold_indexes := c1\<rparr>), [])"
    and c1: "c1 = cold_indexes st \<or> c1 = bt_insert (sd_generation ?s) i (cold_indexes st)"
  proof (cases "bt_get (cold_indexes st) (sd_generation ?s)")
    case None
    with i that show ?thesis by (simp add: cold_index_def act_bind_def act_simps)
  next
    case (Some j)
    with Suc.prems(5) [OF s Some] i that [of "cold_indexes st"] show ?thesis by (simp add: cold_index_def act_simps)
  qed
  have "load_index E s' d = Ok j" if "s' \<in> set (sm_cold (ss_manifest st))" "bt_get c1 (sd_generation s') = Some j" for s' j
  proof (cases "sd_generation s' = sd_generation ?s")
    case True
    then have "s' = ?s" using Suc.prems(3) s that(1) by (metis distinct_map inj_onD)
    with that c1 i Suc.prems(5) [OF s] show ?thesis by auto
  next
    case False
    with that c1 Suc.prems(5) show ?thesis by auto
  qed
  then have "\<exists>ci. put_cold E r b lease n (st\<lparr>cold_indexes := c1\<rparr>) d = (Ok (None, st\<lparr>cold_indexes := c1\<rparr>\<lparr>cold_indexes := ci\<rparr>), [])"
    using Suc.prems by (intro Suc.IH) auto
  with ci none show ?case by (auto simp: act_bind_def)
qed

lemma indexed_sealed [simp]: "indexed E d (s\<lparr>sealed_at := x\<rparr>) h = indexed E d s h"
proof -
  have "load_index E (s\<lparr>sealed_at := x\<rparr>) d = load_index E s d" by (simp add: load_index_def split: option.split)
  then show ?thesis by (simp add: indexed_def seg_data_def)
qed

text \<open>Sealing the hot segment before the append.\<close>

definition seal_effects :: "seg_env \<Rightarrow> nat \<Rightarrow> effect list" where
  "seal_effects E g = [WriteFile (data_name g) MAGIC, WriteFile (index_tmp (index_name g)) (enc_index E []),
     RenameFile (index_tmp (index_name g)) (index_name g)]"

lemma seal_inner_ready:
  assumes E: "env_ok E" and rd: "ready E d st h cs" and ix: "indexed E d (sm_hot (ss_manifest st)) h" and ne: "hot_index st \<noteq> []"
    and s: "seal_inner E st d = (Ok st', es)"
  shows "es = seal_effects E (Suc (sd_generation (sm_hot (ss_manifest st)))) \<and> Suc (sd_generation (sm_hot (ss_manifest st))) \<le> u64_max \<and>
    ready E (apply_effects es d) st' [] (cs @ [h]) \<and> written_bytes (sm_hot (ss_manifest st')) = 8 \<and> segment_bytes (ss_manifest st') = segment_bytes (ss_manifest st)"
proof -
  let ?m = "ss_manifest st"
  let ?g = "Suc (sd_generation (sm_hot ?m))"
  from s ne have g: "?g \<le> u64_max" and es: "es = seal_effects E ?g"
    and st': "\<exists>g2 s2. s2 = desc ?g\<lparr>index_hash := seg_sha E (enc_index E [])\<rparr> \<and>
      ss_manifest st' = ?m\<lparr>sm_cold := sm_cold ?m @ [sm_hot ?m\<lparr>sealed_at := Some (seg_now E)\<rparr>], sm_hot := s2, sm_generation := g2\<rparr> \<and> hot_index st' = []"
    by (auto simp: seal_inner_def act_bind_def act_simps Let_def next_generation_def init_hot_def write_index_def seal_effects_def
        split: sum.splits if_splits prod.splits)
  from rd have wn: "well_named ?m" and cold: "list_all2 (indexed E d) (sm_cold ?m) cs" and mf: "bt_contains d manifest_file"
    and v: "manifest_version ?m = MANIFEST_VERSION" "store_format_version ?m = SEGMENT_FORMAT_VERSION"
    by (simp_all add: ready_def Let_def)
  let ?d = "apply_effects es d"
  have fr: "bt_get ?d f = bt_get d f" if "f \<noteq> data_name ?g" "f \<noteq> index_name ?g" "f \<noteq> index_tmp (index_name ?g)" for f
    unfolding es using that by (intro effects_frame) (auto simp: seal_effects_def)
  have old: "bt_get ?d (data_file t) = bt_get d (data_file t) \<and> bt_get ?d (index_file t) = bt_get d (index_file t)"
    if "t = sm_hot ?m \<or> t \<in> set (sm_cold ?m)" for t
  proof -
    have "named t" "sd_generation t < ?g" using that wn by (auto simp: well_named_def list_all_iff)
    then show ?thesis using g by (auto simp: named_def intro!: fr)
  qed
  have "list_all2 (indexed E ?d) (sm_cold ?m) cs" using cold by (rule cold_frame) (use old in \<open>auto simp: cold_names_def\<close>)
  moreover have "indexed E ?d (sm_hot ?m\<lparr>sealed_at := x\<rparr>) h" for x
    using ix indexed_cong(1) [of ?d "sm_hot ?m" d E h] old [of "sm_hot ?m"] by simp
  moreover have "bt_get ?d (data_name ?g) = Some MAGIC" unfolding es by (simp add: seal_effects_def)
  moreover have "bt_contains ?d manifest_file" using mf fr [of manifest_file] by (simp add: bt_contains_def)
  moreover have "sd_generation (sm_hot ?m) \<notin> sd_generation ` set (sm_cold ?m)" using wn by (force simp: well_named_def list_all_iff)
  ultimately have "ready E ?d st' [] (cs @ [h])"
    using st' wn g v by (auto simp: ready_def Let_def well_named_def named_def desc_def seg_data_def list_all2_appendI list_all_iff less_Suc_eq)
  moreover have "written_bytes (sm_hot (ss_manifest st')) = 8" "segment_bytes (ss_manifest st') = segment_bytes ?m" using st' by (auto simp: desc_def)
  ultimately show ?thesis using es g by blast
qed

lemma index_empty: "agrees [] (index_from E 8 h []) \<Longrightarrow> h = []"
proof (rule ccontr)
  assume a: "agrees [] (index_from E 8 h [])" and "h \<noteq> []"
  then obtain xs x where h: "h = xs @ [x]" by (metis rev_exhaust)
  have "bt_get (index_from E 8 h []) (meta_ref (fst x)) \<noteq> None" unfolding h index_from_snoc by simp
  with agrees_None [OF a] show False by simp
qed

lemma clean_reload:
  assumes E: "env_ok E" and cl: "clean E d m h cs"
  obtains i where "load_index E (sm_hot m) d = Ok i" "agrees i (index_from E 8 h [])"
    "reload E st d = (Ok (st\<lparr>hot_index := i, ss_manifest := (case bytes_override st of None \<Rightarrow> m | Some n \<Rightarrow> m\<lparr>segment_bytes := n\<rparr>), cold_indexes := []\<rparr>), [])"
    "ready E d (st\<lparr>hot_index := i, ss_manifest := (case bytes_override st of None \<Rightarrow> m | Some n \<Rightarrow> m\<lparr>segment_bytes := n\<rparr>), cold_indexes := ci\<rparr>) h cs"
proof -
  have lm: "load_manifest E manifest_file d = Ok m" using cl by (simp add: clean_def holds_def)
  then have v: "manifest_version m = MANIFEST_VERSION" "store_format_version m = SEGMENT_FORMAT_VERSION"
    by (auto simp: load_manifest_def split: option.splits if_splits)
  obtain i where i: "load_index E (sm_hot m) d = Ok i" "agrees i (index_from E 8 h [])"
    using cl by (auto simp: clean_def indexed_def split: sum.splits)
  have "reload E st d = (Ok (st\<lparr>hot_index := i, ss_manifest := (case bytes_override st of None \<Rightarrow> m | Some n \<Rightarrow> m\<lparr>segment_bytes := n\<rparr>), cold_indexes := []\<rparr>), [])"
    using i load_manifest_main [OF lm] by (simp add: reload_def act_bind_def act_simps load_or_recover_hot_def)
  with that i cl v load_manifest_Some [OF lm] show ?thesis
    by (auto simp: ready_def Let_def clean_def holds_def well_named_def split: option.splits)
qed

text \<open>
  The two ways a put of an unknown reference can go: into the hot segment, or into a fresh one
  after sealing it.
\<close>

definition put_record :: "seg_env \<Rightarrow> rstr \<Rightarrow> byte list \<Rightarrow> nat \<Rightarrow> seg_rec" where
  "put_record E r b lease = (\<lparr>meta_ref = r, meta_sha = seg_sha E b, meta_lease = lease\<rparr>, b)"

lemma put_unknown_cases:
  assumes E: "env_ok E" and cl: "clean E d m h cs" and un: "unknown h cs r" and ml: "length (enc_meta E (fst (put_record E r b lease))) \<le> 1048576"
    and put: "seg_put E r b lease st d = (Ok st', es)"
  shows "(\<exists>i. load_index E (sm_hot m) d = Ok i \<and> es = append_effects E (sm_hot m) (put_record E r b lease)
        (bt_insert r (entry_at E (8 + length (recs_bytes E h)) (put_record E r b lease)) i) (ss_manifest st') \<and>
        clean E (apply_effects es d) (ss_manifest st') (h @ [put_record E r b lease]) cs)
    \<or> (\<exists>i s'. es = seal_effects E (Suc (sd_generation (sm_hot m))) @ append_effects E s' (put_record E r b lease) i (ss_manifest st') \<and>
        data_file s' = data_name (Suc (sd_generation (sm_hot m))) \<and> index_file s' = index_name (Suc (sd_generation (sm_hot m))) \<and>
        Suc (sd_generation (sm_hot m)) \<le> u64_max \<and>
        clean E (apply_effects es d) (ss_manifest st') [put_record E r b lease] (cs @ [h]))"
proof -
  let ?m = "case bytes_override st of None \<Rightarrow> m | Some n \<Rightarrow> m\<lparr>segment_bytes := n\<rparr>"
  have hot: "sm_hot ?m = sm_hot m" "sm_cold ?m = sm_cold m" by (simp_all split: option.splits)
  define mt where "mt = \<lparr>meta_ref = r, meta_sha = seg_sha E b, meta_lease = lease\<rparr>"
  have pr: "put_record E r b lease = (mt, b)" by (simp add: put_record_def mt_def)
  let ?size = "12 + length (enc_meta E mt) + length b"
  let ?full = "8 < written_bytes (sm_hot m) \<and> (u64_max < written_bytes (sm_hot m) + ?size \<or> segment_bytes ?m < written_bytes (sm_hot m) + ?size)"
  obtain i where i: "load_index E (sm_hot m) d = Ok i" "agrees i (index_from E 8 h [])"
    and rl: "reload E st d = (Ok (st\<lparr>hot_index := i, ss_manifest := ?m, cold_indexes := []\<rparr>), [])"
    by (rule clean_reload [OF E cl, of st "[]"]) blast
  have none: "bt_get i r = None" using index_unknown [OF i(2)] un by (simp add: unknown_def)
  have cold: "list_all2 (indexed E d) (sm_cold m) cs" "distinct (map sd_generation (sm_cold m))" using cl by (simp_all add: clean_def holds_def well_named_def)
  have "\<exists>ci. put_cold E r b lease (length (sm_cold ?m)) (st\<lparr>hot_index := i, ss_manifest := ?m, cold_indexes := []\<rparr>) d =
      (Ok (None, st\<lparr>hot_index := i, ss_manifest := ?m, cold_indexes := []\<rparr>\<lparr>cold_indexes := ci\<rparr>), [])"
    using cold un hot by (intro put_cold_unknown [where cs = cs]) (simp_all add: unknown_def list_all2_lengthD)
  then obtain ci where ci: "put_cold E r b lease (length (sm_cold ?m)) (st\<lparr>hot_index := i, ss_manifest := ?m, cold_indexes := []\<rparr>) d =
      (Ok (None, st\<lparr>hot_index := i, ss_manifest := ?m, cold_indexes := ci\<rparr>), [])" by auto
  define st1 where "st1 = st\<lparr>hot_index := i, ss_manifest := ?m, cold_indexes := ci\<rparr>"
  have st1: "ss_manifest st1 = ?m" "hot_index st1 = i" by (simp_all add: st1_def)
  have rd: "ready E d st1 h cs" unfolding st1_def by (rule clean_reload [OF E cl, of st ci]) (use i in auto)
  have big: "?size + 8 \<le> u64_max"
    and rest: "act_bind (if ?full then seal_inner E st1 else act_return st1) (append_entry E mt b) d = (Ok st', es)"
    using put E none rl ci hot
    by (auto simp: seg_put_def refuse_tilde_def locked_def env_ok_def act_bind_def act_simps put_new_def Let_def mt_def st1_def split: if_splits prod.splits sum.splits)
  have ok: "rec_ok E (mt, b)" using big ml pr by (simp add: rec_ok_def mt_def)
  have len: "length (rec_bytes E (mt, b)) = ?size" by (simp add: rec_bytes_def)
  have w: "written_bytes (sm_hot m) = 8 + length (recs_bytes E h)" using cl by (simp add: clean_def seg_written_def)
  show ?thesis
  proof (cases ?full)
    case False
    then have a: "append_entry E mt b st1 d = (Ok st', es)" using rest [unfolded if_not_P [OF False]] by (auto simp: act_bind_Ok act_return_def)
    have "8 + length (recs_bytes E (h @ [(mt, b)])) \<le> u64_max" using False big w len by (cases "recs_bytes E h = []") auto
    from append_entry_clean [OF E rd a ok this] append_entry_effects [OF rd a] i hot st1 show ?thesis
      unfolding pr by (auto simp: Let_def mt_def)
  next
    case True
    then obtain st2 e1 e2 where s: "seal_inner E st1 d = (Ok st2, e1)" and a: "append_entry E mt b st2 (apply_effects e1 d) = (Ok st', e2)" and es: "es = e1 @ e2"
      using rest by (auto simp: act_bind_Ok)
    have ne: "hot_index st1 \<noteq> []" using True w i(2) index_empty [of E h] st1 by auto
    have ix: "indexed E d (sm_hot (ss_manifest st1)) h" using cl hot st1 by (simp add: clean_def)
    from seal_inner_ready [OF E rd ix ne s] hot st1 have e1: "e1 = seal_effects E (Suc (sd_generation (sm_hot m)))" "Suc (sd_generation (sm_hot m)) \<le> u64_max"
      and rd2: "ready E (apply_effects e1 d) st2 [] (cs @ [h])" by (simp, simp, metis)
    have "8 + length (recs_bytes E ([] @ [(mt, b)])) \<le> u64_max" using big len by simp
    note c = append_entry_clean [OF E rd2 a ok this]
    from s ne have st2: "data_file (sm_hot (ss_manifest st2)) = data_name (Suc (sd_generation (sm_hot m)))" "index_file (sm_hot (ss_manifest st2)) = index_name (Suc (sd_generation (sm_hot m)))"
      using hot st1 by (auto simp: seal_inner_def act_bind_def act_simps Let_def next_generation_def init_hot_def write_index_def split: sum.splits if_splits prod.splits)
    from append_entry_effects [OF rd2 a] c e1 es st2 show ?thesis unfolding pr by (auto simp: Let_def)
  qed
qed

lemma view_append: "view (h @ [put_record E r b l]) cs q = (if q = r then Some b else view h cs q)"
  "view [put_record E r b l] (cs @ [h]) q = (if q = r then Some b else view h cs q)"
  by (auto simp: view_def put_record_def rec_lookup_snoc split: option.splits)

lemma append_frame_new:
  assumes "f \<noteq> data_file s" "f \<noteq> index_file s" "name_end f \<in> {110, 116, 120}" "crash d (butlast (append_effects E s x i m)) d'"
  shows "bt_get d' f = bt_get d f"
  using assms(4,1-3) name_end_tmp [of E] by (elim crash_frame) (auto simp: append_effects_def)

lemma append_effects_split: "append_effects E s x i m = butlast (append_effects E s x i m) @ [RenameFile (manifest_tmp E) manifest_file]"
  by (simp add: append_effects_def)

lemma crash_end: "crash d es (apply_effects es d)"
  by (induction es arbitrary: d) (auto intro: crash.intros)

lemma crash_rename_last: "crash d (pre @ [RenameFile f g]) d' \<Longrightarrow> crash d pre d' \<or> d' = apply_effects (pre @ [RenameFile f g]) d"
proof -
  assume "crash d (pre @ [RenameFile f g]) d'"
  then have "crash d pre d' \<or> crash (apply_effects pre d) [RenameFile f g] d'" by (simp add: crash_append)
  then show ?thesis by (auto elim!: crash_ConsE crash_NilE intro: crash_end)
qed

lemma put_crash_holds:
  assumes E: "env_ok E" and cl: "clean E d m h cs" and un: "unknown h cs r" and ml: "length (enc_meta E (fst (put_record E r b lease))) \<le> 1048576"
    and put: "seg_put E r b lease st d = (Ok st', es)" and cr: "crash d es d'"
  shows "\<exists>m' h' cs'. holds E d' m' h' cs' \<and> (\<forall>q. view h' cs' q = view h cs q \<or> q = r \<and> view h' cs' q = Some b)"
proof -
  let ?x = "put_record E r b lease"
  from put_unknown_cases [OF E cl un ml put] show ?thesis
  proof (elim disjE exE conjE)
    fix i
    assume i: "load_index E (sm_hot m) d = Ok i" and c: "clean E (apply_effects es d) (ss_manifest st') (h @ [?x]) cs"
      and es: "es = append_effects E (sm_hot m) ?x (bt_insert r (entry_at E (8 + length (recs_bytes E h)) ?x) i) (ss_manifest st')"
    obtain mt where x: "?x = (mt, b)" "meta_ref mt = r" by (simp add: put_record_def)
    have ok: "rec_ok E (mt, b)" using c x by (simp add: clean_def seg_data_def)
    from crash_rename_last [of d "butlast es"] cr es have "crash d (butlast es) d' \<or> d' = apply_effects es d"
      by (metis append_effects_split)
    then show ?thesis
    proof
      assume "crash d (butlast es) d'"
      with append_crash [OF E cl i ok, of "ss_manifest st'" d'] x es show ?thesis
        by (metis view_append(1))
    next
      assume "d' = apply_effects es d"
      with c show ?thesis unfolding clean_def using view_append(1) by metis
    qed
  next
    fix i s'
    let ?g = "Suc (sd_generation (sm_hot m))"
    assume es: "es = seal_effects E ?g @ append_effects E s' ?x i (ss_manifest st')" and g: "?g \<le> u64_max"
      and s': "data_file s' = data_name ?g" "index_file s' = index_name ?g" and c: "clean E (apply_effects es d) (ss_manifest st') [?x] (cs @ [h])"
    have h: "holds E d m h cs" "well_named m" using cl by (simp_all add: clean_def holds_def)
    have old: "f \<noteq> data_name ?g \<and> f \<noteq> index_name ?g \<and> name_end f \<in> {110, 116, 120}" if "f \<in> insert manifest_file (set (live_names m))" for f
      using that h(2) g by (auto simp: live_names_def well_named_def named_def list_all_iff)
    let ?pre = "seal_effects E ?g @ butlast (append_effects E s' ?x i (ss_manifest st'))"
    have "es = ?pre @ [RenameFile (manifest_tmp E) manifest_file]" using es append_effects_split by simp
    with crash_rename_last cr have "crash d ?pre d' \<or> d' = apply_effects es d" by metis
    then show ?thesis
    proof
      assume p: "crash d ?pre d'"
      have "holds E d' m h cs" using h(1)
      proof (rule holds_frame)
        fix f assume "f \<in> insert manifest_file (set (live_names m))"
        from old [OF this] p s' name_end_tmp [of E] show "bt_get d' f = bt_get d f"
          by (elim crash_frame) (auto simp: seal_effects_def append_effects_def)
      qed
      then show ?thesis by blast
    next
      assume "d' = apply_effects es d"
      with c show ?thesis unfolding clean_def using view_append(2) by metis
    qed
  qed
qed

section \<open>Eviction\<close>

definition evictable_at :: "seg_env \<Rightarrow> nat \<Rightarrow> fs \<Rightarrow> SegmentDescriptor \<Rightarrow> bool" where
  "evictable_at E now d s = (case load_index E s d of Inl _ \<Rightarrow> False | Inr i \<Rightarrow> evictable E now i)"

definition survivors :: "seg_env \<Rightarrow> nat \<Rightarrow> fs \<Rightarrow> SegmentDescriptor list \<Rightarrow> seg_rec list list \<Rightarrow> seg_rec list list" where
  "survivors E now d ss cs = map snd (filter (\<lambda>(s, c). \<not> evictable_at E now d s) (zip ss cs))"

text \<open>A segment that has to stay.\<close>

definition needed :: "seg_env \<Rightarrow> nat \<Rightarrow> fs \<Rightarrow> SegmentDescriptor \<Rightarrow> bool" where
  "needed E now d s = (case load_index E s d of Inl _ \<Rightarrow> True | Inr i \<Rightarrow>
     list_ex (\<lambda>(r, e). now < se_lease e \<or> (case portable_hash E (se_ref e) of None \<Rightarrow> False | Some h \<Rightarrow> seg_pinned E h)) i)"

lemma needed_kept: "needed E now d s \<Longrightarrow> \<not> evictable_at E now d s"
  by (fastforce simp: needed_def evictable_at_def evictable_def list_all_iff list_ex_iff split: sum.splits)

lemma evict_scan_exact:
  "list_all2 (indexed E d) ss cs \<Longrightarrow>
     evict_scan E now ss d = Ok (filter (\<lambda>s. \<not> evictable_at E now d s) ss, filter (evictable_at E now d) ss) \<and>
     list_all2 (indexed E d) (filter (\<lambda>s. \<not> evictable_at E now d s) ss) (survivors E now d ss cs)"
proof (induction ss cs rule: list_all2_induct)
  case (Cons s ss c cs)
  then obtain i where "load_index E s d = Ok i" by (auto simp: indexed_def split: sum.splits)
  with Cons show ?case by (simp add: evictable_at_def survivors_def)
qed (simp add: survivors_def)

lemma survivors_view:
  assumes "\<And>s c. (s, c) \<in> set (zip ss cs) \<Longrightarrow> evictable_at E now d s \<Longrightarrow> rec_lookup c q = None" "length ss = length cs"
  shows "view h (survivors E now d ss cs) q = view h cs q"
proof -
  have app: "first_known (xs @ ys) q = (case first_known xs q of Some b \<Rightarrow> Some b | None \<Rightarrow> first_known ys q)" for xs ys
    by (induction xs) (auto split: option.splits)
  have "first_known (rev (survivors E now d ss cs)) q = first_known (rev cs) q"
    using assms(2,1)
  proof (induction ss cs rule: list_induct2)
    case (Cons s ss c cs)
    have "first_known (rev (survivors E now d ss cs)) q = first_known (rev cs) q" by (rule Cons.IH) (use Cons.prems in auto)
    moreover have "evictable_at E now d s \<Longrightarrow> rec_lookup c q = None" using Cons.prems [of s c] by simp
    ultimately show ?case by (auto simp: survivors_def app split: option.splits)
  qed (simp add: survivors_def)
  then show ?thesis by (simp add: view_def split: option.split)
qed

definition evict_effects :: "seg_env \<Rightarrow> SegmentManifest \<Rightarrow> SegmentDescriptor list \<Rightarrow> effect list" where
  "evict_effects E m gone =
     [WriteFile (manifest_tmp E) (enc_manifest E m), CopyFile manifest_file (bak manifest_file), RenameFile (manifest_tmp E) manifest_file] @
     CopyFile manifest_file (bak manifest_file) # concat (map (\<lambda>s. [RemoveFile (data_file s), RemoveFile (index_file s)]) gone)"

lemma evict_effects_eq:
  assumes E: "env_ok E" and cl: "clean E d m h cs" and ev: "evict_expired E now st d = (Ok (n, st'), es)"
  shows "(es = [] \<and> filter (evictable_at E now d) (sm_cold m) = []) \<or>
    (es = evict_effects E (ss_manifest st') (filter (evictable_at E now d) (sm_cold m)) \<and>
     sm_hot (ss_manifest st') = sm_hot m \<and> sm_cold (ss_manifest st') = filter (\<lambda>s. \<not> evictable_at E now d s) (sm_cold m) \<and>
     seg_checksum E (ss_manifest st') = checksum (ss_manifest st') \<and> manifest_version (ss_manifest st') = MANIFEST_VERSION \<and>
     store_format_version (ss_manifest st') = SEGMENT_FORMAT_VERSION)"
proof -
  let ?m = "case bytes_override st of None \<Rightarrow> m | Some n \<Rightarrow> m\<lparr>segment_bytes := n\<rparr>"
  obtain i where rl: "reload E st d = (Ok (st\<lparr>hot_index := i, ss_manifest := ?m, cold_indexes := []\<rparr>), [])"
    and rd: "ready E d (st\<lparr>hot_index := i, ss_manifest := ?m, cold_indexes := []\<rparr>) h cs"
    by (rule clean_reload [OF E cl, of st "[]"]) blast
  from rd have v: "manifest_version ?m = MANIFEST_VERSION" "store_format_version ?m = SEGMENT_FORMAT_VERSION" "bt_contains d manifest_file"
    by (simp_all add: ready_def Let_def)
  have hot: "sm_hot ?m = sm_hot m" "sm_cold ?m = sm_cold m" by (simp_all split: option.splits)
  have sc: "evict_scan E now (sm_cold m) d = Ok (filter (\<lambda>s. \<not> evictable_at E now d s) (sm_cold m), filter (evictable_at E now d) (sm_cold m))"
    using evict_scan_exact [of E d "sm_cold m" cs now] cl by (simp add: clean_def holds_def)
  show ?thesis
    using ev E rl sc hot v
    by (auto simp: evict_expired_def locked_def env_ok_def act_bind_def act_simps Let_def publish_store_def publish_def refresh_manifest_backup_def
        evict_effects_def contains_Some seg_checksum_def split: sum.splits if_splits prod.splits)
qed

lemma evict_crash_holds:
  assumes E: "env_ok E" and cl: "clean E d m h cs" and ev: "evict_expired E now st d = (Ok (n, st'), es)" and cr: "crash d es d'"
  shows "holds E d' m h cs \<or> clean E d' (ss_manifest st') h (survivors E now d (sm_cold m) cs)"
proof -
  let ?m' = "ss_manifest st'" and ?gone = "filter (evictable_at E now d) (sm_cold m)"
  have h: "holds E d m h cs" and wn: "well_named m" using cl by (simp_all add: clean_def holds_def)
  from evict_effects_eq [OF E cl ev] show ?thesis
  proof (elim disjE conjE)
    assume "es = []"
    with cr h show ?thesis by (auto elim: crash_NilE)
  next
    assume es: "es = evict_effects E ?m' ?gone" and m': "sm_hot ?m' = sm_hot m" "sm_cold ?m' = filter (\<lambda>s. \<not> evictable_at E now d s) (sm_cold m)"
      "seg_checksum E ?m' = checksum ?m'" "manifest_version ?m' = MANIFEST_VERSION" "store_format_version ?m' = SEGMENT_FORMAT_VERSION"
    let ?P = "[WriteFile (manifest_tmp E) (enc_manifest E ?m'), CopyFile manifest_file (bak manifest_file)]"
    let ?R = "[RenameFile (manifest_tmp E) manifest_file]"
    let ?Q = "CopyFile manifest_file (bak manifest_file) # concat (map (\<lambda>s. [RemoveFile (data_file s), RemoveFile (index_file s)]) ?gone)"
    have pub: "bt_get (apply_effects (?P @ ?R) d) f = (if f = manifest_file then Some (enc_manifest E ?m') else bt_get d f)"
      if "name_end f \<in> {110, 116, 120}" for f
      using that name_end_tmp [of E] by (auto split: option.splits)
    have "es = (?P @ ?R) @ ?Q" unfolding es evict_effects_def by simp
    from crash_append [THEN iffD1, OF cr [unfolded this]]
    have "crash d (?P @ ?R) d' \<or> crash (apply_effects (?P @ ?R) d) ?Q d'" .
    then consider "crash d ?P d'" | "crash (apply_effects (?P @ ?R) d) ?Q d'"
      using crash_rename_last [of d ?P "manifest_tmp E" manifest_file d'] crash.crash_now by blast
    then show ?thesis
    proof cases
      case 1
      have "holds E d' m h cs" using h
      proof (rule holds_frame)
        fix f assume "f \<in> insert manifest_file (set (live_names m))"
        then have "name_end f \<in> {110, 116, 120}" using names_of(1) [OF wn, of f] by auto
        then show "bt_get d' f = bt_get d f" using 1 name_end_tmp [of E] by (elim crash_frame) auto
      qed
      then show ?thesis ..
    next
      case 2
      have get: "bt_get d' f = (if f = manifest_file then Some (enc_manifest E ?m') else bt_get d f)"
        if "name_end f \<in> {110, 116, 120}" "\<And>s. s \<in> set ?gone \<Longrightarrow> f \<noteq> data_file s \<and> f \<noteq> index_file s" for f
      proof -
        have "\<forall>e \<in> set ?Q. f \<notin> set (touches e)" using that by force
        from crash_frame [OF 2 this] pub [OF that(1)] show ?thesis by metis
      qed
      have gone: "f \<noteq> data_file s \<and> f \<noteq> index_file s" if "s \<in> set ?gone" "t = sm_hot m \<or> t \<in> set (sm_cold ?m')" "f = data_file t \<or> f = index_file t" for f s t
      proof -
        have s: "s \<in> set (sm_cold m)" "named s" using that(1) wn by (auto simp: well_named_def list_all_iff)
        have t: "named t" using that(2) wn m'(2) by (auto simp: well_named_def list_all_iff)
        have "sd_generation s \<noteq> sd_generation t"
        proof (cases "t = sm_hot m")
          case True
          then show ?thesis using s wn by (auto simp: well_named_def list_all_iff)
        next
          case False
          then have "t \<in> set (sm_cold m)" "s \<noteq> t" using that(1,2) m'(2) by auto
          then show ?thesis using s(1) wn by (auto simp: well_named_def distinct_map inj_on_def)
        qed
        with s(2) t that(3) show ?thesis by (auto simp: named_def)
      qed
      have wn': "well_named ?m'" using wn m' by (auto simp: well_named_def list_all_iff distinct_map_filter)
      have mf: "bt_get d' manifest_file = Some (enc_manifest E ?m')"
        using wn by (subst get) (auto simp: well_named_def list_all_iff named_def)
      have same: "bt_get d' f = bt_get d f" if "t = sm_hot m \<or> t \<in> set (sm_cold ?m')" "f = data_file t \<or> f = index_file t" for f t
      proof -
        have "named t" using that(1) wn m'(2) by (auto simp: well_named_def list_all_iff)
        then have "name_end f \<in> {116, 120}" "f \<noteq> manifest_file" using that(2) by (auto simp: named_def)
        with gone [OF _ that] show ?thesis by (subst get) auto
      qed
      have "list_all2 (indexed E d) (sm_cold ?m') (survivors E now d (sm_cold m) cs)"
        using evict_scan_exact [of E d "sm_cold m" cs now] h m'(2) by (simp add: holds_def)
      then have "list_all2 (indexed E d') (sm_cold ?m') (survivors E now d (sm_cold m) cs)"
        by (rule cold_frame) (use same in \<open>auto simp: cold_names_def\<close>)
      moreover have "indexed E d' (sm_hot m) h" "hot_serves E d' (sm_hot m) h" "seg_data E d' (sm_hot m) h []"
        using cl indexed_cong [of d' "sm_hot m" d E h] same [where t = "sm_hot m"] by (simp_all add: clean_def holds_def seg_data_def)
      ultimately show ?thesis using load_published [OF E mf m'(3-5)] wn' m'(1) cl by (simp add: clean_def holds_def)
    qed
  qed
qed

section \<open>A sample environment\<close>

text \<open>Encodings by length-prefixed lists, and a checksum that adds.\<close>

definition p_bind :: "(nat list \<Rightarrow> ('a \<times> nat list) option) \<Rightarrow> ('a \<Rightarrow> nat list \<Rightarrow> 'b option) \<Rightarrow> nat list \<Rightarrow> 'b option" where
  "p_bind p k bs = (case p bs of None \<Rightarrow> None | Some (x, r) \<Rightarrow> k x r)"

fun p_nat :: "nat list \<Rightarrow> (nat \<times> nat list) option" where
  "p_nat [] = None"
| "p_nat (n # r) = Some (n, r)"

definition p_str :: "nat list \<Rightarrow> (rstr \<times> nat list) option" where
  "p_str = p_bind p_nat (\<lambda>n r. if length r < n then None else Some (take n r, drop n r))"

definition e_str :: "rstr \<Rightarrow> nat list" where "e_str s = length s # s"

definition e_opt :: "nat option \<Rightarrow> nat list" where "e_opt x = (case x of None \<Rightarrow> [0, 0] | Some n \<Rightarrow> [1, n])"

definition p_opt :: "nat list \<Rightarrow> (nat option \<times> nat list) option" where
  "p_opt = p_bind p_nat (\<lambda>t. p_bind p_nat (\<lambda>n r. Some (if t = 0 then None else Some n, r)))"

primrec p_many :: "(nat list \<Rightarrow> ('a \<times> nat list) option) \<Rightarrow> nat \<Rightarrow> nat list \<Rightarrow> ('a list \<times> nat list) option" where
  "p_many p 0 bs = Some ([], bs)"
| "p_many p (Suc n) bs = p_bind p (\<lambda>x. p_bind (p_many p n) (\<lambda>xs r. Some (x # xs, r))) bs"

definition e_list :: "('a \<Rightarrow> nat list) \<Rightarrow> 'a list \<Rightarrow> nat list" where "e_list e xs = length xs # concat (map e xs)"

definition p_list :: "(nat list \<Rightarrow> ('a \<times> nat list) option) \<Rightarrow> nat list \<Rightarrow> ('a list \<times> nat list) option" where
  "p_list p = p_bind p_nat (p_many p)"

definition e_meta :: "Meta \<Rightarrow> nat list" where "e_meta m = e_str (meta_ref m) @ e_str (meta_sha m) @ [meta_lease m]"

definition p_meta :: "nat list \<Rightarrow> (Meta \<times> nat list) option" where
  "p_meta = p_bind p_str (\<lambda>a. p_bind p_str (\<lambda>b. p_bind p_nat (\<lambda>c r. Some (\<lparr>meta_ref = a, meta_sha = b, meta_lease = c\<rparr>, r))))"

definition e_entry :: "rstr \<times> SegmentEntry \<Rightarrow> nat list" where
  "e_entry x = (case x of (k, e) \<Rightarrow> e_str k @ e_str (se_ref e) @ [se_offset e, se_len e] @ e_str (se_sha e) @ [se_lease e])"

definition p_entry :: "nat list \<Rightarrow> ((rstr \<times> SegmentEntry) \<times> nat list) option" where
  "p_entry = p_bind p_str (\<lambda>k. p_bind p_str (\<lambda>a. p_bind p_nat (\<lambda>b. p_bind p_nat (\<lambda>c. p_bind p_str (\<lambda>h. p_bind p_nat (\<lambda>l r.
     Some ((k, \<lparr>se_ref = a, se_offset = b, se_len = c, se_sha = h, se_lease = l\<rparr>), r)))))))"

definition e_desc :: "SegmentDescriptor \<Rightarrow> nat list" where
  "e_desc s = [sd_generation s] @ e_str (data_file s) @ e_str (index_file s) @ [written_bytes s, ref_count s] @ e_str (index_hash s) @
     e_opt (sealed_at s) @ e_opt (min_lease s)"

definition p_desc :: "nat list \<Rightarrow> (SegmentDescriptor \<times> nat list) option" where
  "p_desc = p_bind p_nat (\<lambda>g. p_bind p_str (\<lambda>a. p_bind p_str (\<lambda>b. p_bind p_nat (\<lambda>w. p_bind p_nat (\<lambda>n. p_bind p_str (\<lambda>h.
     p_bind p_opt (\<lambda>s. p_bind p_opt (\<lambda>l r. Some (\<lparr>sd_generation = g, data_file = a, index_file = b, written_bytes = w, ref_count = n,
       index_hash = h, sealed_at = s, min_lease = l\<rparr>, r)))))))))"

definition phase_num :: "SegmentMigrationPhase \<Rightarrow> nat" where
  "phase_num p = (case p of Legacy \<Rightarrow> 0 | Shadow \<Rightarrow> 1 | Active \<Rightarrow> 2 | Retired \<Rightarrow> 3)"

definition num_phase :: "nat \<Rightarrow> SegmentMigrationPhase" where
  "num_phase n = (if n = 0 then Legacy else if n = 1 then Shadow else if n = 2 then Active else Retired)"

definition e_manifest :: "SegmentManifest \<Rightarrow> nat list" where
  "e_manifest m = [manifest_version m, store_format_version m, sm_generation m, segment_bytes m, phase_num (sm_phase m)] @ e_desc (sm_hot m) @
     e_list e_desc (sm_cold m) @ e_str (checksum m)"

definition p_manifest :: "nat list \<Rightarrow> (SegmentManifest \<times> nat list) option" where
  "p_manifest = p_bind p_nat (\<lambda>a. p_bind p_nat (\<lambda>b. p_bind p_nat (\<lambda>c. p_bind p_nat (\<lambda>n. p_bind p_nat (\<lambda>p. p_bind p_desc (\<lambda>h.
     p_bind (p_list p_desc) (\<lambda>cs. p_bind p_str (\<lambda>k r. Some (\<lparr>manifest_version = a, store_format_version = b, sm_generation = c,
       segment_bytes = n, sm_phase = num_phase p, sm_hot = h, sm_cold = cs, checksum = k\<rparr>, r)))))))))"

definition sample_env :: seg_env where
  "sample_env = \<lparr>seg_sha = (\<lambda>bs. [sum_list bs + length bs]), enc_meta = e_meta, dec_meta = map_option fst \<circ> p_meta,
     enc_index = e_list e_entry, dec_index = map_option fst \<circ> p_list p_entry, enc_manifest = e_manifest, dec_manifest = map_option fst \<circ> p_manifest,
     seg_now = 5, seg_pid = 7, seg_pinned = (\<lambda>h. False), full_lower_hex = (\<lambda>h. False), tilde_path = False, lock_free = True\<rparr>"

lemma p_str_e [simp]: "p_str (e_str s @ r) = Some (s, r)"
  by (simp add: p_str_def e_str_def p_bind_def)

lemma p_opt_e [simp]: "p_opt (e_opt x @ r) = Some (x, r)"
  by (simp add: p_opt_def e_opt_def p_bind_def split: option.splits)

lemma p_many_e: "(\<And>x r. p (e x @ r) = Some (x, r)) \<Longrightarrow> p_many p (length xs) (concat (map e xs) @ r) = Some (xs, r)"
  by (induction xs) (simp_all add: p_bind_def)

lemma p_list_e: "(\<And>x r. p (e x @ r) = Some (x, r)) \<Longrightarrow> p_list p (e_list e xs @ r) = Some (xs, r)"
  by (simp add: p_list_def e_list_def p_bind_def p_many_e)

lemma p_meta_e: "p_meta (e_meta m @ r) = Some (m, r)"
  by (simp add: p_meta_def e_meta_def p_bind_def)

lemma p_entry_e: "p_entry (e_entry x @ r) = Some (x, r)"
  by (cases x) (simp add: p_entry_def e_entry_def p_bind_def)

lemma p_desc_e [simp]: "p_desc (e_desc s @ r) = Some (s, r)"
  by (simp add: p_desc_def e_desc_def p_bind_def)

lemma p_manifest_e: "p_manifest (e_manifest m @ r) = Some (m, r)"
  by (cases m) (simp add: p_manifest_def e_manifest_def p_bind_def p_list_e phase_num_def num_phase_def split: SegmentMigrationPhase.splits)

lemma sample_env_ok: "env_ok sample_env"
  using p_meta_e [of _ "[]"] p_manifest_e [of _ "[]"] p_list_e [of p_entry e_entry _ "[]", OF p_entry_e]
  by (simp add: env_ok_def sample_env_def)

section \<open>Creation\<close>

lemma create_shadow_clean:
  assumes E: "env_ok E" and new: "\<not> bt_contains d0 (data_name 1)" "\<not> bt_contains d0 manifest_file"
  shows "\<exists>st es. create_shadow E d0 = (Ok st, es) \<and> clean E (apply_effects es d0) (ss_manifest st) [] []"
proof -
  let ?s = "desc 1\<lparr>index_hash := seg_sha E (enc_index E [])\<rparr>"
  let ?m = "\<lparr>manifest_version = MANIFEST_VERSION, store_format_version = SEGMENT_FORMAT_VERSION, sm_generation = 1,
            segment_bytes = DEFAULT_SEGMENT_BYTES, sm_phase = Shadow, sm_hot = ?s, sm_cold = [], checksum = []\<rparr>"
  let ?m' = "?m\<lparr>checksum := seg_checksum E ?m\<rparr>"
  let ?es = "[WriteFile (data_name 1) MAGIC, WriteFile (index_tmp (index_name 1)) (enc_index E []), RenameFile (index_tmp (index_name 1)) (index_name 1),
    WriteFile (manifest_tmp E) (enc_manifest E ?m'), RenameFile (manifest_tmp E) manifest_file]"
  let ?d = "apply_effects ?es d0"
  define st where "st = \<lparr>ss_manifest = ?m', hot_index = [], cold_indexes = [], bytes_override = None\<rparr>"
  have ms: "ss_manifest st = ?m'" by (simp add: st_def)
  have c: "create_shadow E d0 = (Ok st, ?es)"
    using E new by (simp add: st_def create_shadow_def refuse_tilde_def locked_def env_ok_def init_hot_def act_bind_def act_simps Let_def write_index_def
        publish_store_def publish_def bt_contains_def)
  have g: "bt_get ?d (data_name 1) = Some MAGIC" "bt_get ?d (index_name 1) = Some (enc_index E [])" "bt_get ?d manifest_file = Some (enc_manifest E ?m')"
    by simp_all
  have lm: "load_manifest E manifest_file ?d = Ok ?m'" using E g(3) by (intro load_published) (simp_all add: seg_checksum_def)
  have wn: "well_named ?m'" by (simp add: well_named_def named_def desc_def u64_max_def)
  have f: "data_file ?s = data_name 1" "index_file ?s = index_name 1" by simp_all
  have dat: "seg_data E ?d ?s [] []" unfolding seg_data_def f g by simp
  have li: "load_index E ?s ?d = Ok []" unfolding load_index_def f g using E by (simp add: env_ok_def)
  have wr: "seg_written E ?s []" by (simp add: seg_written_def desc_def u64_max_def)
  have "sm_hot ?m' = ?s" "sm_cold ?m' = []" by simp_all
  then have cl: "clean E ?d ?m' [] []" using lm wn dat li wr unfolding clean_def holds_def hot_serves_def indexed_def by auto
  show ?thesis by (rule exI [of _ st], rule exI [of _ ?es], rule conjI, rule c, unfold ms, rule cl)
qed

section \<open>Samples\<close>

definition run_act :: "'a act \<Rightarrow> fs \<Rightarrow> fs" where
  "run_act a d = apply_effects (snd (a d)) d"

definition sample_handle :: SegmentStore where
  "sample_handle = \<lparr>ss_manifest = \<lparr>manifest_version = 1, store_format_version = 1, sm_generation = 1, segment_bytes = 64, sm_phase = Active,
     sm_hot = desc 1, sm_cold = [], checksum = []\<rparr>, hot_index = [], cold_indexes = [], bytes_override = Some 40\<rparr>"

definition sample_put :: "nat \<Rightarrow> nat \<Rightarrow> nat \<Rightarrow> SegmentStore act" where
  "sample_put r b lease = seg_put sample_env [r] [b] lease sample_handle"

definition sample_answer :: "nat \<Rightarrow> fs \<Rightarrow> SegmentStoreError + byte list option" where
  "sample_answer r d = (case fst (seg_expand sample_env [r] sample_handle d) of Inl e \<Rightarrow> Err e | Inr (v, _) \<Rightarrow> Ok v)"

text \<open>A check by evaluation that a directory is clean.\<close>

definition seg_check :: "seg_env \<Rightarrow> fs \<Rightarrow> SegmentDescriptor \<Rightarrow> seg_rec list \<Rightarrow> bool" where
  "seg_check E d s c \<longleftrightarrow> bt_get d (data_file s) = Some (MAGIC @ recs_bytes E c) \<and> list_all (rec_ok E) c \<and>
     load_index E s d = Ok (index_from E 8 c [])"

definition sample_manifest :: "fs \<Rightarrow> SegmentManifest" where
  "sample_manifest d = (case load_manifest sample_env manifest_file d of Inl _ \<Rightarrow> ss_manifest sample_handle | Inr m \<Rightarrow> m)"

definition sample_check :: "fs \<Rightarrow> seg_rec list \<Rightarrow> seg_rec list list \<Rightarrow> bool" where
  "sample_check d h cs \<longleftrightarrow> (case load_manifest sample_env manifest_file d of Inl _ \<Rightarrow> False | Inr m \<Rightarrow>
     well_named m \<and> seg_written sample_env (sm_hot m) h \<and> seg_check sample_env d (sm_hot m) h \<and> list_all2 (seg_check sample_env d) (sm_cold m) cs)"

lemma seg_check_indexed: "seg_check E d s c \<Longrightarrow> indexed E d s c \<and> seg_data E d s c [] \<and> hot_serves E d s c"
  by (auto simp: seg_check_def indexed_def seg_data_def hot_serves_def)

lemma sample_check_clean: "sample_check d h cs \<Longrightarrow> clean sample_env d (sample_manifest d) h cs"
  using seg_check_indexed [of sample_env d]
  by (auto simp: sample_check_def sample_manifest_def clean_def holds_def split: sum.splits elim!: list.rel_mono_strong)

definition sample_record :: "nat \<Rightarrow> nat \<Rightarrow> seg_rec" where
  "sample_record r b = put_record sample_env [r] [b] 10"

text \<open>Directories with given segments, the first of them hot.\<close>

definition sample_segment :: "nat \<Rightarrow> seg_rec list \<Rightarrow> SegmentDescriptor" where
  "sample_segment g c = (let i = index_from sample_env 8 c [] in
     (desc g)\<lparr>written_bytes := 8 + length (recs_bytes sample_env c), ref_count := length i,
       index_hash := seg_sha sample_env (enc_index sample_env i), min_lease := min_lease_of i\<rparr>)"

definition sample_dir :: "nat \<Rightarrow> seg_rec list \<Rightarrow> (nat \<times> seg_rec list) list \<Rightarrow> fs" where
  "sample_dir g h cs =
     (let m = (ss_manifest sample_handle)\<lparr>sm_hot := sample_segment g h, sm_cold := map (\<lambda>(g, c). sample_segment g c) cs\<rparr> in
      (manifest_file, enc_manifest sample_env (m\<lparr>checksum := seg_checksum sample_env m\<rparr>)) #
      concat (map (\<lambda>(g, c). [(data_name g, MAGIC @ recs_bytes sample_env c), (index_name g, enc_index sample_env (index_from sample_env 8 c []))])
        ((g, h) # cs)))"

definition sample_one :: fs where "sample_one = sample_dir 1 [sample_record 1 11] []"
definition sample_two :: fs where "sample_two = sample_dir 2 [sample_record 2 12] [(1, [sample_record 1 11])]"

lemma sample_one_clean: "clean sample_env sample_one (sample_manifest sample_one) [sample_record 1 11] []"
  by (rule sample_check_clean) code_simp

lemma sample_two_clean: "clean sample_env sample_two (sample_manifest sample_two) [sample_record 2 12] [[sample_record 1 11]]"
  by (rule sample_check_clean) code_simp

lemma crash_take: "crash d es (apply_effects (take n es) d)"
  using crash_append [of d "take n es" "drop n es"] crash_end [of d "take n es"] by simp

lemma act_cases: "(case fst (a d) of Inl _ \<Rightarrow> False | Inr _ \<Rightarrow> True) \<Longrightarrow> \<exists>x. a d = (Ok x, snd (a d))"
  by (cases "a d") (auto split: sum.splits)

lemma sample_put_two: "\<exists>st. sample_put 2 12 10 sample_one = (Ok st, snd (sample_put 2 12 10 sample_one))"
  by (rule act_cases) code_simp

section \<open>Properties\<close>

text \<open>C34: The segment store refines a map. On every directory that holds a view, in particular on every
  directory a crash may have left, opening succeeds and every expansion returns exactly what the
  view says, with the hot index rebuilt from the records where it was lost, and the directory
  still holds the view afterwards.
\<close>

theorem segment_store_refines_view:
  assumes "env_ok E" "holds E d m h cs"
  shows "\<exists>st es. seg_open E d = (Ok st, es) \<and>
    (\<forall>q. \<exists>st' es'. seg_expand E q st (apply_effects es d) = (Ok (view h cs q, st'), es') \<and> holds E (apply_effects (es @ es') d) m h cs)"
proof -
  obtain st es where o: "seg_open E d = (Ok st, es)" and h: "holds E (apply_effects es d) m h cs"
    using seg_open_holds [OF assms] by blast
  have "\<exists>st' es'. seg_expand E q st (apply_effects es d) = (Ok (view h cs q, st'), es') \<and> holds E (apply_effects (es @ es') d) m h cs" for q
    using seg_expand_holds [OF assms(1) h, of q st] by simp
  with o show ?thesis by blast
qed

theorem segment_store_refines_view_witness:
  "\<exists>st es. seg_open sample_env sample_two = (Ok st, es) \<and>
     (\<exists>st' es'. seg_expand sample_env [1] st (apply_effects es sample_two) = (Ok (Some [11], st'), es'))"
proof -
  have "holds sample_env sample_two (sample_manifest sample_two) [sample_record 2 12] [[sample_record 1 11]]"
    using sample_two_clean by (simp add: clean_def)
  from segment_store_refines_view [OF sample_env_ok this] show ?thesis
    by (auto simp: view_def sample_record_def put_record_def dest!: spec [where x = "[1]"])
qed

text \<open>C35: On a clean directory, whose indexes are intact and whose hot segment has no torn tail, storing a payload under
  a reference that no segment knows, with a header of at most one MiB, makes it readable and changes no
  other reference, whether it fits the hot segment or the hot segment has to be sealed first; the
  directory is clean again. A reference that some segment knows already is outside the claim.
\<close>

theorem segment_put_expands:
  assumes "env_ok E" "clean E d m h cs" "unknown h cs r" "length (enc_meta E (fst (put_record E r b lease))) \<le> 1048576"
    and "seg_put E r b lease st d = (Ok st', es)"
  shows "(\<exists>h' cs'. clean E (apply_effects es d) (ss_manifest st') h' cs') \<and>
    (\<forall>q st1. \<exists>st2 es2. seg_expand E q st1 (apply_effects es d) = (Ok (if q = r then Some b else view h cs q, st2), es2))"
proof -
  have ex: ?thesis if c: "clean E (apply_effects es d) (ss_manifest st') h' cs'" and v: "\<And>q. view h' cs' q = (if q = r then Some b else view h cs q)" for h' cs'
  proof -
    have "holds E (apply_effects es d) (ss_manifest st') h' cs'" using c by (simp add: clean_def)
    then have "\<exists>st2 es2. seg_expand E q st1 (apply_effects es d) = (Ok (if q = r then Some b else view h cs q, st2), es2)" for q st1
      using seg_expand_holds [OF assms(1), of "apply_effects es d" "ss_manifest st'" h' cs' q st1] v [of q] by auto
    with c show ?thesis by blast
  qed
  from put_unknown_cases [OF assms] show ?thesis
    by (elim disjE exE conjE) (erule ex, rule view_append)+
qed

theorem segment_put_expands_witness:
  "\<exists>st es. seg_expand sample_env [2] sample_handle (run_act (sample_put 2 12 10) sample_one) = (Ok (Some [12], st), es)"
proof -
  have u: "unknown [sample_record 1 11] [] [2]" "length (enc_meta sample_env (fst (put_record sample_env [2] [12] 10))) \<le> 1048576" by code_simp+
  obtain st where "seg_put sample_env [2] [12] 10 sample_handle sample_one = (Ok st, snd (sample_put 2 12 10 sample_one))"
    using sample_put_two by (auto simp: sample_put_def)
  from segment_put_expands [OF sample_env_ok sample_one_clean u this, THEN conjunct2, THEN spec, THEN spec, of "[2]" sample_handle]
  show ?thesis by (simp add: run_act_def)
qed

text \<open>C33: Storing a new reference is crash safe. From a clean directory, whatever prefix of its file effects a put of a reference that no segment
  knows, with a header of at most one MiB, had made, with the last one torn anywhere, the directory can be opened, every other reference
  expands to what it expanded to before, and the new one to its payload or to nothing. The renewal of a lease in a cold segment, and
  a directory that already has a torn tail, are outside the claim.
\<close>

theorem segment_put_crash_safe:
  assumes "env_ok E" "clean E d m h cs" "unknown h cs r" "length (enc_meta E (fst (put_record E r b lease))) \<le> 1048576"
    and "seg_put E r b lease st d = (Ok st', es)" "crash d es d'"
  shows "\<exists>st1 es1. seg_open E d' = (Ok st1, es1) \<and>
    (\<forall>q. \<exists>v st2 es2. seg_expand E q st1 (apply_effects es1 d') = (Ok (v, st2), es2) \<and> (v = view h cs q \<or> q = r \<and> v = Some b))"
proof -
  obtain m' h' cs' where h: "holds E d' m' h' cs'" and v: "\<And>q. view h' cs' q = view h cs q \<or> q = r \<and> view h' cs' q = Some b"
    using put_crash_holds [OF assms] by blast
  obtain st1 es1 where o: "seg_open E d' = (Ok st1, es1)" and h1: "holds E (apply_effects es1 d') m' h' cs'"
    using seg_open_holds [OF assms(1) h] by blast
  have "\<exists>w st2 es2. seg_expand E q st1 (apply_effects es1 d') = (Ok (w, st2), es2) \<and> (w = view h cs q \<or> q = r \<and> w = Some b)" for q
    using seg_expand_holds [OF assms(1) h1, of q st1] v [of q] by metis
  with o show ?thesis by blast
qed

theorem segment_put_crash_safe_witness:
  "\<exists>st1 es1 st2 es2. seg_open sample_env (apply_effects (take 4 (snd (sample_put 2 12 10 sample_one))) sample_one) = (Ok st1, es1) \<and>
     seg_expand sample_env [1] st1 (apply_effects es1 (apply_effects (take 4 (snd (sample_put 2 12 10 sample_one))) sample_one)) = (Ok (Some [11], st2), es2)"
proof -
  have u: "unknown [sample_record 1 11] [] [2]" "length (enc_meta sample_env (fst (put_record sample_env [2] [12] 10))) \<le> 1048576" by code_simp+
  obtain st where "seg_put sample_env [2] [12] 10 sample_handle sample_one = (Ok st, snd (sample_put 2 12 10 sample_one))"
    using sample_put_two by (auto simp: sample_put_def)
  from segment_put_crash_safe [OF sample_env_ok sample_one_clean u this crash_take [of _ _ 4]] show ?thesis
    by (auto simp: view_def sample_record_def put_record_def dest!: spec [where x = "[1]"])
qed

text \<open>C36: Eviction removes only what may go, and is crash safe. Whatever prefix of its effects an eviction
  had made, the directory can be opened, and a reference expands as before whenever each cold
  segment that knows it has an entry whose lease has not expired or whose blob is pinned.
\<close>

theorem segment_eviction_crash_safe:
  assumes E: "env_ok E" and cl: "clean E d m h cs" and ev: "evict_expired E now st d = (Ok (n, st'), es)" and cr: "crash d es d'"
    and q: "list_all (\<lambda>(s, c). rec_lookup c q = None \<or> needed E now d s) (zip (sm_cold m) cs)"
  shows "\<exists>st1 es1 st2 es2. seg_open E d' = (Ok st1, es1) \<and> seg_expand E q st1 (apply_effects es1 d') = (Ok (view h cs q, st2), es2)"
proof -
  have len: "length (sm_cold m) = length cs" using cl list_all2_lengthD [of "indexed E d" "sm_cold m" cs] by (simp add: clean_def holds_def)
  have v: "view h (survivors E now d (sm_cold m) cs) q = view h cs q"
  proof (rule survivors_view)
    show "rec_lookup c q = None" if "(s, c) \<in> set (zip (sm_cold m) cs)" "evictable_at E now d s" for s c
      using q that needed_kept [of E now d s] by (auto simp: list_all_iff)
  qed (rule len)
  obtain m' cs' where h: "holds E d' m' h cs'" and v': "view h cs' q = view h cs q"
    using evict_crash_holds [OF E cl ev cr] v unfolding clean_def by blast
  obtain st1 es1 where o: "seg_open E d' = (Ok st1, es1)" and h1: "holds E (apply_effects es1 d') m' h cs'"
    using seg_open_holds [OF E h] by blast
  from seg_expand_holds [OF E h1, of q st1] o v' show ?thesis by metis
qed

theorem segment_eviction_crash_safe_witness:
  "\<exists>st1 es1 st2 es2. seg_open sample_env (apply_effects (take 5 (snd (evict_expired sample_env 100 sample_handle sample_two))) sample_two) = (Ok st1, es1) \<and>
     seg_expand sample_env [2] st1 (apply_effects es1 (apply_effects (take 5 (snd (evict_expired sample_env 100 sample_handle sample_two))) sample_two)) =
       (Ok (Some [12], st2), es2)"
proof -
  have "\<exists>x. evict_expired sample_env 100 sample_handle sample_two = (Ok x, snd (evict_expired sample_env 100 sample_handle sample_two))"
    by (rule act_cases) code_simp
  then obtain n st where e: "evict_expired sample_env 100 sample_handle sample_two = (Ok (n, st), snd (evict_expired sample_env 100 sample_handle sample_two))"
    by auto
  have q: "list_all (\<lambda>(s, c). rec_lookup c [2] = None \<or> needed sample_env 100 sample_two s) (zip (sm_cold (sample_manifest sample_two)) [[sample_record 1 11]])"
    by code_simp
  from segment_eviction_crash_safe [OF sample_env_ok sample_two_clean e crash_take [of _ _ 5] q] show ?thesis
    by (simp add: view_def sample_record_def put_record_def)
qed

section \<open>What the crash analysis shows\<close>

text \<open>
  Renewing the lease of a reference in a cold segment is not crash safe: the index is replaced before
  the manifest that carries its hash, and a cold index has no recovery. After a crash between the
  two the segment cannot be read any more.
\<close>

theorem cold_renewal_crash_loses_segment:
  "\<exists>d'. crash sample_two (snd (sample_put 1 11 20 sample_two)) d' \<and> sample_answer 1 sample_two = Ok (Some [11]) \<and>
     sample_answer 1 (run_act (seg_open sample_env) d') = Err (InvalidIndex (index_name 1))"
proof (intro exI conjI)
  show "crash sample_two (snd (sample_put 1 11 20 sample_two)) (apply_effects (take 2 (snd (sample_put 1 11 20 sample_two))) sample_two)"
    by (rule crash_take)
  show "sample_answer 1 sample_two = Ok (Some [11])" by code_simp
  show "sample_answer 1 (run_act (seg_open sample_env) (apply_effects (take 2 (snd (sample_put 1 11 20 sample_two))) sample_two)) = Err (InvalidIndex (index_name 1))"
    by code_simp
qed

text \<open>
  The tail of a torn append is not truncated while the index is intact, and later records are
  appended behind it. When the index is lost in a second crash, the scan stops at the torn bytes
  and truncates records whose puts had been acknowledged.
\<close>

definition wide_handle :: SegmentStore where "wide_handle = sample_handle\<lparr>bytes_override := Some 1000\<rparr>"

definition wide_put :: "nat \<Rightarrow> nat \<Rightarrow> SegmentStore act" where "wide_put r b = seg_put sample_env [r] [b] 10 wide_handle"

definition torn_dir :: fs where "torn_dir = torn 5 (hd (snd (wide_put 2 12 sample_one))) sample_one"

theorem torn_tail_loses_acknowledged:
  "\<exists>d1 d3. crash sample_one (snd (wide_put 2 12 sample_one)) d1 \<and>
     (let d2 = run_act (wide_put 3 13) (run_act (seg_open sample_env) d1) in
        crash d2 (snd (wide_put 4 14 d2)) d3 \<and> sample_answer 3 d2 = Ok (Some [13]) \<and> sample_answer 3 (run_act (seg_open sample_env) d3) = Ok None)"
proof -
  let ?es = "snd (wide_put 2 12 sample_one)" and ?d2 = "run_act (wide_put 3 13) (run_act (seg_open sample_env) torn_dir)"
  have "?es \<noteq> []" by code_simp
  then have "?es = hd ?es # tl ?es" by simp
  then have c: "crash sample_one ?es torn_dir" unfolding torn_dir_def by (metis crash.crash_torn)
  have e: "(let d2 = ?d2; d3 = apply_effects (take 3 (snd (wide_put 4 14 d2))) d2
      in sample_answer 3 d2 = Ok (Some [13]) \<and> sample_answer 3 (run_act (seg_open sample_env) d3) = Ok None)"
    by code_simp
  show ?thesis
    by (rule exI [of _ torn_dir], rule exI [of _ "apply_effects (take 3 (snd (wide_put 4 14 ?d2))) ?d2"])
      (use c e crash_take [of ?d2 "snd (wide_put 4 14 ?d2)" 3] in \<open>simp add: Let_def\<close>)
qed

text \<open>
  A put whose payload an older segment still holds is answered from there although a newer
  segment holds another payload under the same reference: the put succeeds, and the reference
  still expands to the newer payload.
\<close>

theorem put_shadowed_by_newer:
  "(\<exists>st. sample_put 1 11 10 (run_act (sample_put 1 13 10) sample_two) = (Ok st, [])) \<and>
   sample_answer 1 (run_act (sample_put 1 11 10) (run_act (sample_put 1 13 10) sample_two)) = Ok (Some [13])"
proof
  let ?r = "sample_put 1 11 10 (run_act (sample_put 1 13 10) sample_two)"
  have "case ?r of (Inr st, []) \<Rightarrow> True | _ \<Rightarrow> False" by code_simp
  then show "\<exists>st. ?r = (Ok st, [])" by (auto split: prod.splits sum.splits list.splits)
  show "sample_answer 1 (run_act (sample_put 1 11 10) (run_act (sample_put 1 13 10) sample_two)) = Ok (Some [13])" by code_simp
qed

end
