(* ===== verification/ShellQuote.thy ===== *)
theory ShellQuote
  imports Views
begin

text \<open>
  Quoting of argument vectors for the shells of three platforms and the splitter that reads a
  command string back (\<open>core/shell_quote.rs\<close>), the display form of an argument vector
  (\<open>core/shell_display.rs\<close>), and the detection of shell syntax. A platform is its tag; the tag of the host,
  fixed when the program is compiled, is the argument \<open>host\<close>. The locale \<open>word_quoting\<close> is the contract between
  a quoting of words and the loop of a splitter: it gives the round trip of a whole command line once, and
  is interpreted for every quoting of the source.
\<close>

section \<open>Platforms and characters\<close>

type_synonym platform = rstr

abbreviation SQ :: uchar where "SQ \<equiv> 39"
abbreviation DQ :: uchar where "DQ \<equiv> 34"
abbreviation BSL :: uchar where "BSL \<equiv> 92"

definition is_ascii_alphabetic :: "uchar \<Rightarrow> bool" where
  "is_ascii_alphabetic c \<longleftrightarrow> 65 \<le> c \<and> c \<le> 90 \<or> 97 \<le> c \<and> c \<le> 122"

definition is_tag :: "platform \<Rightarrow> string list \<Rightarrow> bool" where
  "is_tag p tags \<longleftrightarrow> list_ex (\<lambda>t. p = lit t) tags"

fun peek :: "'a list \<Rightarrow> 'a option" where
  "peek [] = None"
| "peek (x # _) = Some x"

section \<open>Splitting a command string\<close>

definition toggle_quote :: "uchar option \<Rightarrow> uchar \<Rightarrow> bool \<Rightarrow> uchar option \<times> bool" where
  "toggle_quote quot ch single_quote_groups =
     (if Some ch = quot then (None, True)
      else if quot = None \<and> (ch = DQ \<or> ch = SQ) \<and> (ch \<noteq> SQ \<or> single_quote_groups) then (Some ch, True)
      else (quot, False))"

fun split_loop :: "bool \<Rightarrow> bool \<Rightarrow> uchar option \<Rightarrow> uchar option \<Rightarrow> bool \<Rightarrow> bool \<Rightarrow> rstr \<Rightarrow> rstr \<Rightarrow> rstr list" where
  "split_loop keep groups doubled quot escaped started cur [] =
     (let cur = (if escaped then cur @ [BSL] else cur) in if started then [cur] else [])"
| "split_loop keep groups doubled quot escaped started cur (ch # s) =
     (if escaped then split_loop keep groups doubled quot False True (cur @ [ch]) s
      else if ch = BSL \<and> quot \<noteq> Some SQ \<and> \<not> keep then
        (if quot = Some DQ \<and> \<not> list_ex (\<lambda>c. peek s = Some c) [36, 96, DQ, BSL]
         then split_loop keep groups doubled quot False True (cur @ [BSL]) s
         else split_loop keep groups doubled quot True True cur s)
      else if Some ch = quot \<and> doubled = Some ch \<and> peek s = Some ch then
        split_loop keep groups doubled quot False True (cur @ [ch]) (tl s)
      else if snd (toggle_quote quot ch groups) then
        split_loop keep groups doubled (fst (toggle_quote quot ch groups)) False True cur s
      else if quot = None \<and> is_whitespace ch then
        (if started then cur # split_loop keep groups doubled quot False False [] s
         else split_loop keep groups doubled quot False False cur s)
      else split_loop keep groups doubled quot False True (cur @ [ch]) s)"

fun first_windows_cmd_loop :: "bool \<Rightarrow> rstr \<Rightarrow> rstr" where
  "first_windows_cmd_loop quot [] = []"
| "first_windows_cmd_loop quot (ch # s) =
     (if ch = DQ then first_windows_cmd_loop (\<not> quot) s
      else if \<not> quot \<and> is_whitespace ch then []
      else ch # first_windows_cmd_loop quot s)"

definition first_windows_cmd_word :: "rstr \<Rightarrow> rstr option" where
  "first_windows_cmd_word v = (let word = first_windows_cmd_loop False v in if word \<noteq> [] then Some word else None)"

text \<open>\<open>Path::file_stem\<close> of a name without separators: none for the empty name, a dot and two dots.\<close>

definition file_stem :: "rstr \<Rightarrow> rstr option" where
  "file_stem leaf =
     (if leaf = [] \<or> leaf = [46] \<or> leaf = [46, 46] then None
      else let after = takeWhile (\<lambda>c. c \<noteq> 46) (rev leaf); rest = drop (length after) (rev leaf) in
        if rest = [] \<or> tl rest = [] then Some leaf else Some (rev (tl rest)))"

definition windows_shell_host_stem :: "rstr \<Rightarrow> rstr" where
  "windows_shell_host_stem v =
     (let leaf = last (split_on (\<lambda>c. c = BSL \<or> c = 47) v) in
      to_ascii_lowercase (case file_stem leaf of Some stem \<Rightarrow> stem | None \<Rightarrow> leaf))"

definition is_powershell_shell_host :: "rstr \<Rightarrow> bool" where
  "is_powershell_shell_host v \<longleftrightarrow> is_one_of (windows_shell_host_stem v) (lit ''powershell pwsh'')"

definition is_windows_shell_host :: "rstr \<Rightarrow> bool" where
  "is_windows_shell_host v \<longleftrightarrow> is_powershell_shell_host v \<or> windows_shell_host_stem v = lit ''cmd''"

definition runs_powershell :: "rstr \<Rightarrow> bool" where
  "runs_powershell v \<longleftrightarrow> (case first_windows_cmd_word v of None \<Rightarrow> False | Some w \<Rightarrow> is_powershell_shell_host w)"

definition doubled_quote_escape_for_platform :: "rstr \<Rightarrow> platform \<Rightarrow> uchar option" where
  "doubled_quote_escape_for_platform command p =
     (if p = lit ''cmd'' then Some DQ
      else if is_tag p [''powershell'', ''pwsh''] then Some SQ
      else if p = lit ''windows'' then (if runs_powershell command then Some SQ else Some DQ)
      else None)"

definition single_quote_groups_for_platform :: "rstr \<Rightarrow> platform \<Rightarrow> bool" where
  "single_quote_groups_for_platform v p =
     (if p = lit ''cmd'' then False else if p = lit ''windows'' then runs_powershell v else True)"

definition split_command_string_for_platform :: "rstr \<Rightarrow> platform \<Rightarrow> rstr list" where
  "split_command_string_for_platform command p =
     split_loop (is_tag p [''windows'', ''cmd'', ''powershell'', ''pwsh'']) (single_quote_groups_for_platform command p)
       (doubled_quote_escape_for_platform command p) None False False [] command"

definition host_shell_platform :: "bool \<Rightarrow> platform" where
  "host_shell_platform cfg_windows = (if cfg_windows then lit ''windows'' else lit ''posix'')"

definition split_command_string :: "platform \<Rightarrow> rstr \<Rightarrow> rstr list" where
  "split_command_string host command = split_command_string_for_platform command host"

section \<open>Detection of shell syntax\<close>

definition is_posix_env_assignment :: "rstr \<Rightarrow> bool" where
  "is_posix_env_assignment word \<longleftrightarrow>
     (case split_once 61 word of None \<Rightarrow> False
      | Some (name, _) \<Rightarrow>
          (case name of [] \<Rightarrow> False
           | first # chars \<Rightarrow> (first = 95 \<or> is_ascii_alphabetic first) \<and>
               list_all (\<lambda>ch. ch = 95 \<or> is_ascii_alphanumeric ch) chars))"

definition starts_with_posix_env_assignment :: "platform \<Rightarrow> rstr \<Rightarrow> bool" where
  "starts_with_posix_env_assignment host v \<longleftrightarrow>
     (let ws = split_command_string host v in
      1 < length ws \<and> (case peek ws of None \<Rightarrow> False | Some word \<Rightarrow> is_posix_env_assignment word))"

fun syntax_loop :: "bool \<Rightarrow> uchar option \<Rightarrow> bool \<Rightarrow> bool \<Rightarrow> rstr \<Rightarrow> bool" where
  "syntax_loop groups quot escaped at_word_start [] = False"
| "syntax_loop groups quot escaped at_word_start (ch # s) =
     (if escaped then syntax_loop groups quot False False s
      else if ch = BSL \<and> quot \<noteq> Some SQ then syntax_loop groups quot True False s
      else if snd (toggle_quote quot ch groups) then syntax_loop groups (fst (toggle_quote quot ch groups)) False False s
      else if quot \<noteq> Some SQ \<and> ch = 36 \<and>
          (case peek s of None \<Rightarrow> False | Some n \<Rightarrow> n = 40 \<or> n = 123 \<or> n = 95 \<or> is_ascii_alphabetic n) then True
      else if quot = None then
        (if list_ex (\<lambda>c. ch = c) [124, 59, 62, 60, 96, 10] \<or> ch = 38 \<and> peek s = Some 38 then True
         else if ch = 126 \<and> at_word_start \<and>
            (case peek s of None \<Rightarrow> True | Some n \<Rightarrow> n = 47 \<or> is_whitespace n \<or> is_ascii_alphanumeric n) then True
         else syntax_loop groups quot False (is_whitespace ch) s)
      else syntax_loop groups quot False False s)"

definition contains_shell_syntax_with_single_quotes :: "platform \<Rightarrow> rstr \<Rightarrow> bool \<Rightarrow> bool" where
  "contains_shell_syntax_with_single_quotes host v groups \<longleftrightarrow>
     starts_with_posix_env_assignment host v \<or> syntax_loop groups None False True v"

definition contains_shell_syntax :: "platform \<Rightarrow> rstr \<Rightarrow> bool" where
  "contains_shell_syntax host v = contains_shell_syntax_with_single_quotes host v True"

definition is_powershell_variable_start :: "uchar \<Rightarrow> bool" where
  "is_powershell_variable_start ch \<longleftrightarrow> ch = 123 \<or> ch = 95 \<or> ch = 63 \<or> is_ascii_alphabetic ch"

fun first_unquoted_loop :: "uchar option \<Rightarrow> bool \<Rightarrow> rstr \<Rightarrow> rstr" where
  "first_unquoted_loop quot escaped [] = []"
| "first_unquoted_loop quot escaped (ch # s) =
     (if escaped then (if quot = None \<or> quot = Some DQ then [ch] else []) @ first_unquoted_loop quot False s
      else if ch = 96 \<and> quot \<noteq> Some SQ then first_unquoted_loop quot True s
      else if snd (toggle_quote quot ch True) then first_unquoted_loop (fst (toggle_quote quot ch True)) False s
      else if quot = None \<and> is_whitespace ch then []
      else ch # first_unquoted_loop quot False s)"

definition first_unquoted_word :: "rstr \<Rightarrow> rstr option" where
  "first_unquoted_word v = (let word = first_unquoted_loop None False v in if word \<noteq> [] then Some word else None)"

definition POWERSHELL_KEYWORDS :: rstr where
  "POWERSHELL_KEYWORDS = lit ''foreach where if else elseif for while try catch finally param function''"

definition POWERSHELL_VERBS :: rstr where
  "POWERSHELL_VERBS = lit ''add clear convertfrom convertto copy export foreach format get import invoke join move new out pop push remove resolve select set sort split start stop tee test where write''"

definition WINDOWS_SHELL_BUILTINS :: rstr where
  "WINDOWS_SHELL_BUILTINS = lit ''assoc break call cd chdir cls color copy date del dir echo erase exit for ftype if md mkdir mklink move path pause popd prompt pushd rd rem ren rename rmdir set shift start time title type ver verify vol''"

definition is_powershell_command_word :: "rstr \<Rightarrow> bool" where
  "is_powershell_command_word word =
     (let lower = to_ascii_lowercase word in
      case split_once 45 lower of
        Some (verb, noun) \<Rightarrow> noun \<noteq> [] \<and> is_one_of verb POWERSHELL_VERBS
      | None \<Rightarrow> is_one_of lower POWERSHELL_KEYWORDS)"

text \<open>\<open>str::rfind\<close>: the byte index of the last occurrence.\<close>

fun str_rfind :: "rstr \<Rightarrow> rstr \<Rightarrow> nat option" where
  "str_rfind [] n = (if n = [] then Some 0 else None)"
| "str_rfind (c # h) n =
     (case str_rfind h n of Some i \<Rightarrow> Some (len_utf8 c + i)
      | None \<Rightarrow> if starts_with (c # h) n then Some 0 else None)"

fun powershell_loop :: "nat option \<Rightarrow> nat \<Rightarrow> uchar option \<Rightarrow> bool \<Rightarrow> rstr \<Rightarrow> bool" where
  "powershell_loop type_tail index quot escaped [] = False"
| "powershell_loop type_tail index quot escaped (ch # s) =
     (if escaped then powershell_loop type_tail (index + len_utf8 ch) quot False s
      else if ch = 96 \<and> quot \<noteq> Some SQ then powershell_loop type_tail (index + len_utf8 ch) quot True s
      else if snd (toggle_quote quot ch True) then
        powershell_loop type_tail (index + len_utf8 ch) (fst (toggle_quote quot ch True)) False s
      else if quot \<noteq> Some SQ \<and>
          (ch = 36 \<and> (case peek s of None \<Rightarrow> False | Some n \<Rightarrow> is_powershell_variable_start n) \<or>
           ch = 91 \<and> (case type_tail of None \<Rightarrow> False | Some tail \<Rightarrow> index < tail)) then True
      else powershell_loop type_tail (index + len_utf8 ch) quot False s)"

definition looks_like_powershell_syntax :: "rstr \<Rightarrow> bool" where
  "looks_like_powershell_syntax v \<longleftrightarrow>
     (case first_unquoted_word v of None \<Rightarrow> False | Some word \<Rightarrow> is_powershell_command_word word) \<or>
     powershell_loop (str_rfind v (lit '']::'')) 0 None False v"

definition contains_platform_shell_syntax :: "platform \<Rightarrow> rstr \<Rightarrow> platform \<Rightarrow> bool" where
  "contains_platform_shell_syntax host v p \<longleftrightarrow>
     contains_shell_syntax_with_single_quotes host v (single_quote_groups_for_platform v p) \<or>
     is_tag p [''windows'', ''powershell'', ''pwsh''] \<and> looks_like_powershell_syntax v"

definition is_shell_operator_token :: "rstr \<Rightarrow> bool" where
  "is_shell_operator_token arg \<longleftrightarrow>
     list_ex (\<lambda>t. arg = lit t) [''|'', ''||'', ''&&'', '';'', ''>'', ''>>'', ''<'', ''<<'', ''2>'', ''2>>'', ''&>'']"

definition argv_has_shell_operator_tokens :: "rstr list \<Rightarrow> bool" where
  "argv_has_shell_operator_tokens argv \<longleftrightarrow> list_ex is_shell_operator_token argv"

definition is_windows_shell_builtin :: "rstr \<Rightarrow> bool" where
  "is_windows_shell_builtin v \<longleftrightarrow> is_one_of (to_ascii_lowercase v) WINDOWS_SHELL_BUILTINS"

section \<open>Quoting\<close>

definition is_unquoted_safe :: "rstr \<Rightarrow> rstr \<Rightarrow> bool" where
  "is_unquoted_safe v extra \<longleftrightarrow> v \<noteq> [] \<and> list_all (\<lambda>c. is_ascii_alphanumeric c \<or> c \<in> set extra) v"

text \<open>\<open>str::replace\<close> of one character.\<close>

definition replace_char :: "uchar \<Rightarrow> rstr \<Rightarrow> rstr \<Rightarrow> rstr" where
  "replace_char c r v = concat (map (\<lambda>x. if x = c then r else [x]) v)"

definition quote_posix :: "rstr \<Rightarrow> rstr" where
  "quote_posix v =
     (if v = [] then [SQ, SQ]
      else if is_unquoted_safe v (lit ''-_./:@%+='') then v
      else [SQ] @ replace_char SQ [SQ, DQ, SQ, DQ, SQ] v @ [SQ])"

definition quote_windows_cmd :: "rstr \<Rightarrow> rstr" where
  "quote_windows_cmd v =
     (if v = [] then [DQ, DQ]
      else if is_unquoted_safe v (lit ''-_./:'' @ [BSL] @ lit ''@+='') then v
      else [DQ] @ concat (map (\<lambda>ch. if ch = DQ then [DQ, DQ] else if ch = 37 then [37, 37]
             else if ch = 94 then [94, 94] else [ch]) v) @ [DQ])"

definition quote_powershell :: "rstr \<Rightarrow> rstr" where
  "quote_powershell v = [SQ] @ replace_char SQ [SQ, SQ] v @ [SQ]"

definition quote_arg :: "platform \<Rightarrow> rstr \<Rightarrow> rstr" where
  "quote_arg p arg =
     (if is_tag p [''windows'', ''cmd''] then quote_windows_cmd arg
      else if is_tag p [''powershell'', ''pwsh''] then quote_powershell arg
      else quote_posix arg)"

definition quote_for :: "platform \<Rightarrow> rstr list \<Rightarrow> rstr" where
  "quote_for p args = join [32] (map (quote_arg p) args)"

definition shell_display_arg :: "rstr \<Rightarrow> platform \<Rightarrow> rstr" where
  "shell_display_arg arg p =
     (let (quot, replacement, safe) =
        (if is_tag p [''cmd'', ''windows''] then (DQ, [DQ, DQ], lit ''-_./:,=@'' @ [BSL])
         else if is_tag p [''powershell'', ''pwsh''] then (SQ, [SQ, SQ], lit ''-_./:,=@'' @ [BSL])
         else (SQ, [SQ, BSL, SQ, SQ], lit ''-_./:,=@%'')) in
      if is_unquoted_safe arg safe then arg else [quot] @ replace_char quot replacement arg @ [quot])"

definition shell_display_command_from_argv_for_platform :: "rstr list \<Rightarrow> platform \<Rightarrow> rstr" where
  "shell_display_command_from_argv_for_platform argv p = join [32] (map (\<lambda>arg. shell_display_arg arg p) argv)"

definition shell_display_command_from_argv :: "rstr list \<Rightarrow> rstr" where
  "shell_display_command_from_argv argv = shell_display_command_from_argv_for_platform argv (lit ''posix'')"

section \<open>The contract of a quoting\<close>

text \<open>
  \<open>loop started cur rest\<close> is a splitter outside every quote. A quoted word is read as \<open>dec w\<close> when a space
  or the end of the line follows, a space ends a word.
\<close>

locale word_quoting =
  fixes loop :: "bool \<Rightarrow> rstr \<Rightarrow> rstr \<Rightarrow> rstr list"
    and enc :: "rstr \<Rightarrow> rstr"
    and dec :: "rstr \<Rightarrow> rstr"
  assumes word: "rest = [] \<or> hd rest = 32 \<Longrightarrow> loop False [] (enc w @ rest) = loop True (dec w) rest"
    and space: "loop True cur (32 # rest) = cur # loop False [] rest"
    and stop: "loop True cur [] = [cur]" "loop False [] [] = []"
begin

lemma split_join: "loop False [] (join [32] (map enc ws)) = map dec ws"
proof (induction ws)
  case Nil
  show ?case by (simp add: stop)
next
  case (Cons w ws)
  show ?case
  proof (cases "ws = []")
    case True
    then show ?thesis using word [of "[]" w] by (simp add: stop)
  next
    case False
    then show ?thesis using Cons.IH word [of "32 # join [32] (map enc ws)" w] by (simp add: join_Cons space)
  qed
qed

end

section \<open>Words outside and inside quotes\<close>

text \<open>A character that a splitter outside quotes appends to the current word.\<close>

definition plain_char :: "bool \<Rightarrow> uchar \<Rightarrow> bool" where
  "plain_char keep c \<longleftrightarrow> \<not> is_whitespace c \<and> c \<noteq> SQ \<and> c \<noteq> DQ \<and> (c = BSL \<longrightarrow> keep)"

lemma safe_plain:
  assumes "is_unquoted_safe w extra" and "list_all (plain_char keep) extra"
  shows "list_all (plain_char keep) w" "w \<noteq> []"
proof -
  have "plain_char keep c" if "is_ascii_alphanumeric c" for c
    using that by (auto simp: plain_char_def is_ascii_alphanumeric_def is_ascii_digit_def is_whitespace_def)
  then show "list_all (plain_char keep) w"
    using assms by (auto simp: is_unquoted_safe_def list_all_iff)
  show "w \<noteq> []"
    using assms by (simp add: is_unquoted_safe_def)
qed

lemma split_plain:
  assumes "list_all (plain_char keep) w"
  shows "split_loop keep groups doubled None False st cur (w @ rest) =
     split_loop keep groups doubled None False (st \<or> w \<noteq> []) (cur @ w) rest"
  using assms by (induction w arbitrary: st cur) (auto simp: toggle_quote_def plain_char_def)

lemma split_safe:
  assumes "is_unquoted_safe w extra" and "list_all (plain_char keep) extra"
  shows "split_loop keep groups doubled None False False [] (w @ rest) = split_loop keep groups doubled None False True w rest"
  using split_plain [OF safe_plain(1) [OF assms], of groups doubled False "[]"] safe_plain(2) [OF assms] by simp

lemma split_posix_quoted:
  "split_loop False True None (Some SQ) False True cur (replace_char SQ [SQ, DQ, SQ, DQ, SQ] w @ rest) =
   split_loop False True None (Some SQ) False True (cur @ w) rest"
  by (induction w arbitrary: cur) (auto simp: replace_char_def toggle_quote_def)

lemma split_posix_display:
  "split_loop False True None (Some SQ) False True cur (replace_char SQ [SQ, BSL, SQ, SQ] w @ rest) =
   split_loop False True None (Some SQ) False True (cur @ w) rest"
  by (induction w arbitrary: cur) (auto simp: replace_char_def toggle_quote_def)

lemma split_doubled_quoted:
  assumes "q = DQ \<or> q = SQ"
  shows "split_loop True groups (Some q) (Some q) False True cur (replace_char q [q, q] w @ rest) =
     split_loop True groups (Some q) (Some q) False True (cur @ w) rest"
  using assms by (induction w arbitrary: cur) (auto simp: replace_char_def toggle_quote_def)

text \<open>What the quoting for \<open>cmd\<close> makes of a word beside doubling its quotes: percent signs and carets are doubled.\<close>

definition cmd_doubled :: "rstr \<Rightarrow> rstr" where
  "cmd_doubled w = concat (map (\<lambda>c. if c = 37 \<or> c = 94 then [c, c] else [c]) w)"

lemma split_cmd_quoted:
  "split_loop True False (Some DQ) (Some DQ) False True cur
     (concat (map (\<lambda>ch. if ch = DQ then [DQ, DQ] else if ch = 37 then [37, 37] else if ch = 94 then [94, 94] else [ch]) w) @ rest) =
   split_loop True False (Some DQ) (Some DQ) False True (cur @ cmd_doubled w) rest"
  by (induction w arbitrary: cur) (auto simp: cmd_doubled_def toggle_quote_def)

lemma cmd_doubled_safe: "is_unquoted_safe w extra \<Longrightarrow> 37 \<notin> set extra \<Longrightarrow> 94 \<notin> set extra \<Longrightarrow> cmd_doubled w = w"
proof -
  assume *: "is_unquoted_safe w extra" "37 \<notin> set extra" "94 \<notin> set extra"
  have "c \<noteq> 37 \<and> c \<noteq> 94" if "c \<in> set w" for c
    using * that by (auto simp: is_unquoted_safe_def list_all_iff is_ascii_alphanumeric_def is_ascii_digit_def)
  then show ?thesis
    by (induction w) (auto simp: cmd_doubled_def)
qed

lemma closing_quote:
  assumes "rest = [] \<or> hd rest = 32" and "q = DQ \<or> q = SQ"
  shows "split_loop keep groups doubled (Some q) False True cur (q # rest) = split_loop keep groups doubled None False True cur rest"
  using assms by (cases rest) (auto simp: toggle_quote_def)

lemma opening_quote:
  assumes "q = DQ \<or> groups \<and> q = SQ"
  shows "split_loop keep groups doubled None False False [] (q # rest) = split_loop keep groups doubled (Some q) False True [] rest"
  using assms by (auto simp: toggle_quote_def)

lemma split_space: "split_loop keep groups doubled None False True cur (32 # rest) = cur # split_loop keep groups doubled None False False [] rest"
  by (simp add: toggle_quote_def is_whitespace_def)

lemma split_stop:
  "split_loop keep groups doubled None False True cur [] = [cur]" "split_loop keep groups doubled None False False [] [] = []"
  by simp_all

section \<open>Every quoting meets the contract\<close>

interpretation posix_quoting: word_quoting "split_loop False True None None False" quote_posix "\<lambda>w. w"
proof unfold_locales
  fix rest w :: rstr
  assume "rest = [] \<or> hd rest = 32"
  then show "split_loop False True None None False False [] (quote_posix w @ rest) = split_loop False True None None False True w rest"
    by (auto simp: quote_posix_def opening_quote split_posix_quoted closing_quote split_safe plain_char_def is_whitespace_def
        lit_def simp del: split_loop.simps)
qed (simp_all only: split_space split_stop)

interpretation posix_display: word_quoting "split_loop False True None None False" "\<lambda>w. shell_display_arg w (lit ''posix'')" "\<lambda>w. w"
proof unfold_locales
  fix rest w :: rstr
  assume "rest = [] \<or> hd rest = 32"
  then show "split_loop False True None None False False [] (shell_display_arg w (lit ''posix'') @ rest) =
      split_loop False True None None False True w rest"
    by (auto simp: shell_display_arg_def is_tag_def opening_quote split_posix_display closing_quote split_safe plain_char_def
        is_whitespace_def lit_def simp del: split_loop.simps)
qed (simp_all only: split_space split_stop)

interpretation powershell_quoting: word_quoting "split_loop True True (Some SQ) None False" quote_powershell "\<lambda>w. w"
proof unfold_locales
  fix rest w :: rstr
  assume "rest = [] \<or> hd rest = 32"
  then show "split_loop True True (Some SQ) None False False [] (quote_powershell w @ rest) = split_loop True True (Some SQ) None False True w rest"
    by (simp add: quote_powershell_def opening_quote split_doubled_quoted closing_quote del: split_loop.simps)
qed (simp_all only: split_space split_stop)

interpretation cmd_quoting: word_quoting "split_loop True False (Some DQ) None False" quote_windows_cmd cmd_doubled
proof unfold_locales
  fix rest w :: rstr
  assume "rest = [] \<or> hd rest = 32"
  then show "split_loop True False (Some DQ) None False False [] (quote_windows_cmd w @ rest) =
      split_loop True False (Some DQ) None False True (cmd_doubled w) rest"
    by (auto simp: quote_windows_cmd_def opening_quote split_cmd_quoted closing_quote split_safe plain_char_def
        is_whitespace_def lit_def cmd_doubled_safe cmd_doubled_def [of "[]"] simp del: split_loop.simps)
qed (simp_all only: split_space split_stop)

interpretation powershell_display: word_quoting "split_loop True True (Some SQ) None False" "\<lambda>w. shell_display_arg w (lit ''powershell'')" "\<lambda>w. w"
proof unfold_locales
  fix rest w :: rstr
  assume "rest = [] \<or> hd rest = 32"
  then show "split_loop True True (Some SQ) None False False [] (shell_display_arg w (lit ''powershell'') @ rest) =
      split_loop True True (Some SQ) None False True w rest"
    by (auto simp: shell_display_arg_def is_tag_def opening_quote split_doubled_quoted closing_quote split_safe plain_char_def
        is_whitespace_def lit_def simp del: split_loop.simps)
qed (simp_all only: split_space split_stop)

interpretation cmd_display: word_quoting "split_loop True False (Some DQ) None False" "\<lambda>w. shell_display_arg w (lit ''cmd'')" "\<lambda>w. w"
proof unfold_locales
  fix rest w :: rstr
  assume "rest = [] \<or> hd rest = 32"
  then show "split_loop True False (Some DQ) None False False [] (shell_display_arg w (lit ''cmd'') @ rest) =
      split_loop True False (Some DQ) None False True w rest"
    by (auto simp: shell_display_arg_def is_tag_def opening_quote split_doubled_quoted closing_quote split_safe plain_char_def
        is_whitespace_def lit_def simp del: split_loop.simps)
qed (simp_all only: split_space split_stop)

lemma split_for_platform:
  "split_command_string_for_platform v (lit ''posix'') = split_loop False True None None False False [] v"
  "split_command_string_for_platform v (lit ''powershell'') = split_loop True True (Some SQ) None False False [] v"
  "split_command_string_for_platform v (lit ''pwsh'') = split_loop True True (Some SQ) None False False [] v"
  "split_command_string_for_platform v (lit ''cmd'') = split_loop True False (Some DQ) None False False [] v"
  by (simp_all add: split_command_string_for_platform_def is_tag_def single_quote_groups_for_platform_def
      doubled_quote_escape_for_platform_def del: split_loop.simps)

lemma quote_for_platform:
  "quote_for (lit ''posix'') args = join [32] (map quote_posix args)"
  "quote_for (lit ''powershell'') args = join [32] (map quote_powershell args)"
  "quote_for (lit ''pwsh'') args = join [32] (map quote_powershell args)"
  "quote_for (lit ''cmd'') args = join [32] (map quote_windows_cmd args)"
  by (simp_all add: quote_for_def quote_arg_def [abs_def] is_tag_def)

section \<open>Quoted words are not shell syntax\<close>

definition calm_char :: "uchar \<Rightarrow> bool" where
  "calm_char c \<longleftrightarrow> \<not> is_whitespace c \<and> \<not> list_ex (\<lambda>x. c = x) [92, 34, 39, 36, 124, 59, 62, 60, 96, 10, 38, 126]"

lemma safe_calm: "is_unquoted_safe w extra \<Longrightarrow> list_all calm_char extra \<Longrightarrow> list_all calm_char w \<and> w \<noteq> []"
proof -
  assume *: "is_unquoted_safe w extra" "list_all calm_char extra"
  have "calm_char c" if "is_ascii_alphanumeric c" for c
    using that by (auto simp: calm_char_def is_ascii_alphanumeric_def is_ascii_digit_def is_whitespace_def)
  then show ?thesis
    using * by (auto simp: is_unquoted_safe_def list_all_iff)
qed

lemma syntax_calm:
  "list_all calm_char w \<Longrightarrow> w \<noteq> [] \<Longrightarrow> syntax_loop True None False b (w @ rest) = syntax_loop True None False False rest"
proof (induction w arbitrary: b)
  case (Cons c w)
  then show ?case
    by (cases "w = []") (auto simp: calm_char_def toggle_quote_def)
qed simp

lemma syntax_quoted:
  "syntax_loop True (Some SQ) False False (replace_char SQ [SQ, DQ, SQ, DQ, SQ] w @ rest) = syntax_loop True (Some SQ) False False rest"
  by (induction w) (auto simp: replace_char_def toggle_quote_def)

lemma syntax_word: "syntax_loop True None False b (quote_posix w @ rest) = syntax_loop True None False False rest"
proof -
  have open_quote: "syntax_loop True None False b (SQ # t) = syntax_loop True (Some SQ) False False t" for t
    by (simp add: toggle_quote_def)
  have close_quote: "syntax_loop True (Some SQ) False False (SQ # t) = syntax_loop True None False False t" for t
    by (simp add: toggle_quote_def)
  have calm: "list_all calm_char (lit ''-_./:@%+='')"
    by (simp add: lit_def calm_char_def is_whitespace_def)
  show ?thesis
    by (simp add: quote_posix_def open_quote close_quote syntax_quoted syntax_calm safe_calm [OF _ calm] del: syntax_loop.simps)
qed

lemma syntax_join: "\<not> syntax_loop True None False True (join [32] (map quote_posix ws))"
proof (induction ws)
  case (Cons w ws)
  have blank: "syntax_loop True None False False (32 # t) = syntax_loop True None False True t" for t
    by (simp add: toggle_quote_def is_whitespace_def)
  show ?case
    using Cons.IH syntax_word [of True w "[]"] by (simp add: join_Cons syntax_word blank del: syntax_loop.simps(2))
qed simp

section \<open>Properties\<close>

text \<open>C37: quoting and splitting are inverse. A command line that \<open>quote_for\<close> builds for a POSIX shell or for PowerShell splits back
  into exactly the argument vector, whatever characters the arguments hold; for \<open>cmd\<close> the splitter undoes the doubled quotes
  and leaves exactly the doubled percent signs and carets.
\<close>

theorem quote_split_roundtrip:
  "split_command_string_for_platform (quote_for (lit ''posix'') args) (lit ''posix'') = args \<and>
   split_command_string_for_platform (quote_for (lit ''powershell'') args) (lit ''powershell'') = args \<and>
   split_command_string_for_platform (quote_for (lit ''pwsh'') args) (lit ''pwsh'') = args \<and>
   split_command_string_for_platform (quote_for (lit ''cmd'') args) (lit ''cmd'') = map cmd_doubled args"
  by (simp only: split_for_platform quote_for_platform posix_quoting.split_join powershell_quoting.split_join
      cmd_quoting.split_join list.map_ident simp_thms)

text \<open>
  The display form of an argument vector is unambiguous on every platform: the splitter of that platform reads the
  vector back.
\<close>

theorem display_split_roundtrip:
  "split_command_string_for_platform (shell_display_command_from_argv argv) (lit ''posix'') = argv \<and>
   split_command_string_for_platform (shell_display_command_from_argv_for_platform argv (lit ''powershell'')) (lit ''powershell'') = argv \<and>
   split_command_string_for_platform (shell_display_command_from_argv_for_platform argv (lit ''cmd'')) (lit ''cmd'') = argv"
  by (simp only: shell_display_command_from_argv_def shell_display_command_from_argv_for_platform_def split_for_platform
      posix_display.split_join powershell_display.split_join cmd_display.split_join list.map_ident simp_thms)

text \<open>
  A quoted POSIX command line holds no shell syntax, with one exception: several arguments of which the first
  reads as a variable assignment.
\<close>

theorem quoted_line_syntax_exact:
  "contains_shell_syntax (lit ''posix'') (quote_for (lit ''posix'') args) \<longleftrightarrow> 1 < length args \<and> is_posix_env_assignment (hd args)"
proof -
  have "split_command_string (lit ''posix'') (quote_for (lit ''posix'') args) = args"
    by (simp only: split_command_string_def split_for_platform quote_for_platform posix_quoting.split_join list.map_ident)
  moreover have "\<not> syntax_loop True None False True (quote_for (lit ''posix'') args)"
    by (simp only: quote_for_platform syntax_join simp_thms)
  ultimately show ?thesis
    by (cases args) (simp_all add: contains_shell_syntax_def contains_shell_syntax_with_single_quotes_def Let_def
        starts_with_posix_env_assignment_def del: syntax_loop.simps)
qed

text \<open>
  The first argument of a vector may be left unquoted although the shell reads it as an assignment: the vector that runs
  the program \<open>A=1\<close> is printed as a line that runs \<open>ls\<close>.
\<close>

theorem assignment_left_unquoted:
  "quote_for (lit ''posix'') [lit ''A=1'', lit ''ls''] = lit ''A=1 ls'' \<and>
   contains_shell_syntax (lit ''posix'') (quote_for (lit ''posix'') [lit ''A=1'', lit ''ls''])"
  by code_simp

text \<open>
  On the platform \<open>windows\<close> a line whose program is PowerShell is quoted by the rules of \<open>cmd\<close> and split by those of PowerShell:
  a quote inside an argument is lost.
\<close>

theorem windows_powershell_mismatch:
  "split_command_string_for_platform (quote_for (lit ''windows'') [lit ''pwsh'', [97, DQ, 98]]) (lit ''windows'') = [lit ''pwsh'', lit ''ab'']"
  by code_simp

end
