(* ===== verification/ShellSyntax.thy ===== *)
theory ShellSyntax
  imports ShellQuote
begin

text \<open>
  The syntactic half of \<open>core/shell_parse.rs\<close>: the quote cursor, operator features, the split of a command into
  list elements and segments, and the unwrapping of \<open>sh -c\<close>, \<open>cmd /c\<close>, \<open>powershell -command\<close> and \<open>env\<close>. Positions are
  counted in characters; the source counts bytes and cuts at the same places. Loops over the words of a command are
  recursive functions on the words that are left. The unwrapping of nested wrappers recurs with a termination
  proof: every unwrapped command is shorter than the words it came from. The lemmas relate the cuts with the features
  and with the characters of the command.
\<close>

section \<open>Names of commands\<close>

text \<open>\<open>str::rsplit_once\<close> of a character.\<close>

definition rsplit_char_once :: "uchar \<Rightarrow> rstr \<Rightarrow> (rstr \<times> rstr) option" where
  "rsplit_char_once d s = map_option (\<lambda>(a, b). (rev b, rev a)) (split_once d (rev s))"

definition shell_command_basename :: "rstr \<Rightarrow> rstr" where
  "shell_command_basename command =
     (let leaf = last (split_on (\<lambda>c. c = 47 \<or> c = BSL) command);
          stem = (case rsplit_char_once 46 leaf of
                    None \<Rightarrow> leaf
                  | Some (stem, extension) \<Rightarrow>
                      if is_tag (to_ascii_lowercase extension) [''exe'', ''cmd'', ''bat'', ''com''] then stem else leaf)
      in to_ascii_lowercase stem)"

definition is_search_command :: "rstr \<Rightarrow> bool" where
  "is_search_command command \<longleftrightarrow>
     is_tag (shell_command_basename command) [''rg'', ''grep'', ''egrep'', ''fgrep'', ''ag'', ''ack'', ''findstr'']"

definition first_name :: "rstr list \<Rightarrow> rstr" where
  "first_name ws = (case peek ws of None \<Rightarrow> [] | Some w \<Rightarrow> shell_command_basename w)"

section \<open>The arguments of wrappers\<close>

definition nonempty :: "rstr \<Rightarrow> rstr option" where
  "nonempty s = (if s = [] then None else Some s)"

definition shell_command_tail :: "rstr list \<Rightarrow> platform \<Rightarrow> rstr option" where
  "shell_command_tail tail style =
     (if tail = [] then None
      else Some (if length tail = 1 then hd tail
                 else if \<not> is_search_command (hd tail) then join [32] tail
                 else join [32] (map (\<lambda>w. shell_display_arg w style) tail)))"

fun cmd_argument_loop :: "rstr list \<Rightarrow> rstr option" where
  "cmd_argument_loop [] = None"
| "cmd_argument_loop (w # ws) =
     (let low = to_ascii_lowercase w in
      if is_tag low [''/c'', ''/k''] then shell_command_tail ws (lit ''cmd'')
      else if (starts_with low (lit ''/c'') \<or> starts_with low (lit ''/k'')) \<and> 2 < length low then nonempty (trim (drop 2 w))
      else if starts_with low (lit ''/'') then cmd_argument_loop ws
      else None)"

definition cmd_command_argument :: "rstr list \<Rightarrow> rstr option" where
  "cmd_command_argument ws = cmd_argument_loop (tl ws)"

definition POWERSHELL_VAL_OPTIONS :: rstr where
  "POWERSHELL_VAL_OPTIONS = lit ''-configurationname -executionpolicy -inputformat -outputformat -settingsfile -version -windowstyle -workingdirectory''"

definition is_val_opt :: "rstr \<Rightarrow> bool" where
  "is_val_opt w \<longleftrightarrow> contains_any_ws w POWERSHELL_VAL_OPTIONS"

definition is_inline_val :: "rstr \<Rightarrow> bool" where
  "is_inline_val w \<longleftrightarrow> (case split_once 58 w of None \<Rightarrow> False | Some (opt, _) \<Rightarrow> is_val_opt opt)"

fun powershell_argument_loop :: "rstr list \<Rightarrow> rstr option" where
  "powershell_argument_loop [] = None"
| "powershell_argument_loop (w # ws) =
     (let low = to_ascii_lowercase w in
      if is_tag low [''-command'', ''-c''] then shell_command_tail ws (lit ''powershell'')
      else if starts_with low (lit ''-command:'') then nonempty (trim (drop 9 w))
      else if is_tag low [''-encodedcommand'', ''-enc'', ''-e'', ''-file'', ''-f''] then None
      else if is_inline_val low \<or> starts_with low (lit ''-'') \<and> \<not> is_val_opt low then powershell_argument_loop ws
      else if is_val_opt low then powershell_argument_loop (tl ws)
      else None)"

definition powershell_command_argument :: "rstr list \<Rightarrow> rstr option" where
  "powershell_command_argument ws = powershell_argument_loop (tl ws)"

definition has_c :: "rstr \<Rightarrow> bool" where
  "has_c w \<longleftrightarrow>
     (case strip_prefix (lit ''-'') w of None \<Rightarrow> False
      | Some f \<Rightarrow> f \<noteq> [] \<and> \<not> starts_with f (lit ''-'') \<and> list_ex (\<lambda>ch. ch = 99) f)"

fun shell_c_loop :: "rstr list \<Rightarrow> rstr option" where
  "shell_c_loop [] = None"
| "shell_c_loop (w # ws) =
     (if is_tag w [''-c'', ''--command''] then peek ws
      else case strip_prefix (lit ''--command='') w of
        Some cmd \<Rightarrow> Some cmd
      | None \<Rightarrow>
          if is_tag w [''-o'', ''+o'', ''-O'', ''+O''] then shell_c_loop (tl ws)
          else if has_c w then peek ws
          else if w = lit ''--'' \<or> \<not> starts_with w (lit ''-'') \<and> \<not> starts_with w (lit ''+'') then None
          else shell_c_loop ws)"

definition shell_c_command_argument :: "rstr list \<Rightarrow> rstr option" where
  "shell_c_command_argument ws = shell_c_loop (tl ws)"

text \<open>How far an option of \<open>env\<close> moves the index; \<open>None\<close> where the source returns false.\<close>

definition advance_env_option :: "rstr \<Rightarrow> nat option" where
  "advance_env_option word =
     (if is_tag word [''-u'', ''--unset'', ''-C'', ''--chdir'', ''--argv0'', ''-S'', ''--split-string''] then Some 2
      else if is_tag word [''-i'', ''--ignore-environment'', ''-0'', ''--null'', ''--debug''] \<or>
        list_ex (\<lambda>p. starts_with word (lit p)) [''--unset='', ''--chdir='', ''--argv0='', ''--split-string=''] \<or>
        \<not> starts_with word (lit ''-'') \<and> (case split_once 61 word of None \<Rightarrow> False | Some (k, _) \<Rightarrow> k \<noteq> []) then Some 1
      else None)"

lemma advance_env_option_pos: "advance_env_option w = Some n \<Longrightarrow> 0 < n"
  by (auto simp: advance_env_option_def split: if_splits)

function env_split_loop :: "rstr list \<Rightarrow> rstr list option" where
  "env_split_loop ws =
     (case ws of [] \<Rightarrow> None
      | w # rest \<Rightarrow>
          if w = lit ''--'' then None
          else if is_tag w [''-S'', ''--split-string''] then map_option split_shell_words (peek rest)
          else case strip_prefix (lit ''--split-string='') w of
            Some v \<Rightarrow> Some (split_shell_words v)
          | None \<Rightarrow> (case advance_env_option w of None \<Rightarrow> None | Some n \<Rightarrow> env_split_loop (drop n ws)))"
  by pat_completeness auto
termination
  by (relation "measure length") (auto dest: advance_env_option_pos)

declare env_split_loop.simps [simp del]

definition env_split_string_words :: "rstr list \<Rightarrow> rstr list option" where
  "env_split_string_words ws = env_split_loop (tl ws)"

function env_index_loop :: "rstr list \<Rightarrow> nat \<Rightarrow> nat option" where
  "env_index_loop ws idx =
     (if idx < length ws then
        let w = ws ! idx in
        if w = lit ''--'' then (if idx + 1 < length ws then Some (idx + 1) else None)
        else case advance_env_option w of
          Some n \<Rightarrow> env_index_loop ws (idx + n)
        | None \<Rightarrow> if \<not> starts_with w (lit ''-'') then Some idx else None
      else None)"
  by pat_completeness auto
termination
  by (relation "measure (\<lambda>(ws, idx). length ws - idx)") (auto dest: advance_env_option_pos)

declare env_index_loop.simps [simp del]

definition env_wrapped_command_index :: "rstr list \<Rightarrow> nat option" where
  "env_wrapped_command_index ws = env_index_loop ws 1"

lemma env_index_bounds: "env_index_loop ws idx = Some i \<Longrightarrow> idx \<le> i \<and> i < length ws"
proof (induction ws idx rule: env_index_loop.induct)
  case (1 ws idx)
  have *: "idx < length ws"
    using 1(2) env_index_loop.simps [of ws idx] by (auto split: if_splits)
  consider "i = idx + 1" "idx + 1 < length ws" | "i = idx"
    | n where "ws ! idx \<noteq> lit ''--''" "advance_env_option (ws ! idx) = Some n" "env_index_loop ws (idx + n) = Some i"
    using 1(2) * env_index_loop.simps [of ws idx] by (auto simp: Let_def split: if_splits option.splits)
  then show ?case
    using * 1(1) [OF * refl] by cases auto
qed

section \<open>The size of unwrapped words\<close>

definition words_size :: "rstr list \<Rightarrow> nat" where
  "words_size ws = sum_list (map (\<lambda>w. length w + 1) ws)"

lemma words_size_simps [simp]:
  "words_size [] = 0" "words_size (w # ws) = length w + 1 + words_size ws" "words_size (xs @ ys) = words_size xs + words_size ys"
  by (simp_all add: words_size_def)

lemma words_size_drop: "words_size (drop n ws) \<le> words_size ws"
  by (metis append_take_drop_id le_add2 words_size_simps(3))

lemma words_size_loop: "words_size (shell_words_loop ws cur q s) \<le> words_size ws + length cur + length s + 1"
proof (induction s arbitrary: ws cur q)
  case (Cons ch s)
  show ?case
    using Cons.IH [of ws cur None] Cons.IH [of ws cur "Some ch"] Cons.IH [of "ws @ [cur]" "[]" q] Cons.IH [of ws cur q]
      Cons.IH [of ws "cur @ [ch]" q]
    by (cases q) auto
qed simp

lemma words_size_split: "words_size (split_shell_words v) \<le> length v + 1"
  using words_size_loop [of "[]" "[]" None v] by (simp add: split_shell_words_def)

lemma env_split_size: "env_split_loop ws = Some vs \<Longrightarrow> words_size vs \<le> words_size ws"
proof (induction ws rule: env_split_loop.induct)
  case (1 ws)
  show ?case
  proof (cases ws)
    case Nil
    then show ?thesis
      using 1(2) by (simp add: env_split_loop.simps)
  next
    case (Cons w rest)
    consider v where "peek rest = Some v" "vs = split_shell_words v" | v where "strip_prefix (lit ''--split-string='') w = Some v" "vs = split_shell_words v"
      | n where "advance_env_option w = Some n" "env_split_loop (drop n ws) = Some vs" "w \<noteq> lit ''--''" "\<not> is_tag w [''-S'', ''--split-string'']"
          "strip_prefix (lit ''--split-string='') w = None"
      using 1(2) Cons by (subst (asm) env_split_loop.simps) (auto split: if_splits option.splits)
    then show ?thesis
    proof cases
      case 1
      then show ?thesis
        using words_size_split [of v] Cons by (cases rest) auto
    next
      case 2
      then show ?thesis
        using words_size_split [of v] Cons by (auto simp: strip_prefix_iff)
    next
      case 3
      then show ?thesis
        using "1.IH" [OF Cons 3(3,4,5) 3(1,2)] words_size_drop [of n ws] by simp
    qed
  qed
qed

section \<open>Unwrapping\<close>

function shell_analysis_command_from_words :: "rstr list \<Rightarrow> rstr option" where
  "shell_analysis_command_from_words ws =
     (let first = first_name ws in
      if is_tag first [''sh'', ''bash'', ''zsh''] then shell_c_command_argument ws
      else if first = lit ''cmd'' then cmd_command_argument ws
      else if is_tag first [''powershell'', ''pwsh''] then powershell_command_argument ws
      else if first = lit ''env'' then
        (case (case env_split_string_words ws of
                 None \<Rightarrow> None
               | Some vs \<Rightarrow>
                   if vs = [] then None
                   else case env_wrapped_command_index (lit ''env'' # vs) of
                     None \<Rightarrow> None
                   | Some i \<Rightarrow> shell_analysis_command_from_words (drop i (lit ''env'' # vs))) of
           Some c \<Rightarrow> Some c
         | None \<Rightarrow>
             (case env_wrapped_command_index ws of
                None \<Rightarrow> None | Some i \<Rightarrow> shell_analysis_command_from_words (drop i ws)))
      else None)"
  by pat_completeness auto
termination
proof (relation "measure words_size")
  fix ws vs i and first :: rstr
  assume *: "first = first_name ws" "first = lit ''env''" "env_split_string_words ws = Some vs"
    and i: "env_wrapped_command_index (lit ''env'' # vs) = Some i"
  have i0: "1 \<le> i"
    using i env_index_bounds unfolding env_wrapped_command_index_def by blast
  have "ws \<noteq> []"
    using * by (auto simp: env_split_string_words_def env_split_loop.simps)
  then have "words_size (tl ws) < words_size ws"
    by (cases ws) auto
  moreover have "words_size (drop i (lit ''env'' # vs)) \<le> words_size vs"
    using i0 words_size_drop [of "i - 1" vs] by (cases i) auto
  ultimately show "(drop i (lit ''env'' # vs), ws) \<in> measure words_size"
    using env_split_size [of "tl ws" vs] *(3) by (simp add: env_split_string_words_def)
next
  fix ws i and first :: rstr
  assume "env_wrapped_command_index ws = Some i"
  then have i: "1 \<le> i" "i < length ws"
    using env_index_bounds unfolding env_wrapped_command_index_def by blast+
  then obtain w rest where "ws = w # rest"
    by (cases ws) auto
  then show "(drop i ws, ws) \<in> measure words_size"
    using i words_size_drop [of "i - 1" rest] by (cases i) auto
qed simp

declare shell_analysis_command_from_words.simps [simp del]

definition env_split_string_analysis_command :: "rstr list \<Rightarrow> rstr option" where
  "env_split_string_analysis_command ws =
     (case env_split_string_words ws of
        None \<Rightarrow> None
      | Some vs \<Rightarrow>
          if vs = [] then None
          else case env_wrapped_command_index (lit ''env'' # vs) of
            None \<Rightarrow> None
          | Some i \<Rightarrow> shell_analysis_command_from_words (drop i (lit ''env'' # vs)))"

definition shell_analysis_command :: "rstr \<Rightarrow> rstr" where
  "shell_analysis_command command =
     (case shell_analysis_command_from_words (split_shell_words command) of None \<Rightarrow> command | Some c \<Rightarrow> c)"

section \<open>The quote cursor\<close>

text \<open>
  The position and the character of the next character outside quotes, and what follows it. The cursor is outside quotes and not
  escaped whenever it returns, so the rest of the text is its whole state.
\<close>

fun cursor_loop :: "nat \<Rightarrow> uchar option \<Rightarrow> bool \<Rightarrow> rstr \<Rightarrow> (nat \<times> uchar \<times> rstr) option" where
  "cursor_loop i quot escaped [] = None"
| "cursor_loop i quot escaped (ch # s) =
     (if escaped then cursor_loop (i + 1) quot False s
      else if quot \<noteq> Some SQ \<and> ch = BSL then cursor_loop (i + 1) quot True s
      else if Some ch = quot then cursor_loop (i + 1) None False s
      else if quot = None \<and> (ch = SQ \<or> ch = DQ) then cursor_loop (i + 1) (Some ch) False s
      else if quot = None then Some (i, ch, s)
      else cursor_loop (i + 1) quot False s)"

definition next_unquoted :: "nat \<Rightarrow> rstr \<Rightarrow> (nat \<times> uchar \<times> rstr) option" where
  "next_unquoted i s = cursor_loop i None False s"

lemma cursor_loop_Some: "cursor_loop i q e s = Some (j, ch, t) \<Longrightarrow> \<exists>p. s = p @ ch # t \<and> j = i + length p"
proof (induction i q e s rule: cursor_loop.induct)
  case (2 i q e c s)
  then show ?case
    by (auto split: if_splits intro: exI [of _ "c # _"] exI [of _ "[]"])
qed simp

lemma next_unquoted_Some: "next_unquoted i s = Some (j, ch, t) \<Longrightarrow> \<exists>p. s = p @ ch # t \<and> j = i + length p"
  unfolding next_unquoted_def by (rule cursor_loop_Some)

lemma next_unquoted_length: "next_unquoted i s = Some (j, ch, t) \<Longrightarrow> length t < length s"
  using next_unquoted_Some by fastforce

definition operator_feature :: "uchar \<Rightarrow> uchar option \<Rightarrow> (rstr \<times> nat) option" where
  "operator_feature ch nxt =
     (if ch = 38 \<and> nxt = Some 38 then Some (lit ''and-list'', 1)
      else if ch = 124 \<and> nxt = Some 124 then Some (lit ''or-list'', 1)
      else if ch = 124 then Some (lit ''pipeline'', 0)
      else if ch = 59 then Some (lit ''sequence'', 0)
      else if ch = 62 \<or> ch = 60 then Some (lit ''redirect'', 0)
      else if ch = 36 \<and> nxt = Some 40 then Some (lit ''subshell'', 1)
      else if ch = 96 then Some (lit ''subshell'', 0)
      else None)"

function features_loop :: "rstr list \<Rightarrow> rstr \<Rightarrow> rstr list" where
  "features_loop fs s =
     (case next_unquoted 0 s of
        None \<Rightarrow> fs
      | Some (_, ch, t) \<Rightarrow>
          (case operator_feature ch (peek t) of
             None \<Rightarrow> features_loop fs t
           | Some (f, n) \<Rightarrow> features_loop (if f \<in> set fs then fs else fs @ [f]) (drop n t)))"
  by pat_completeness auto
termination
  by (relation "measure (\<lambda>(fs, s). length s)") (auto dest!: next_unquoted_length)

declare features_loop.simps [simp del]

definition raw_shell_operator_features :: "rstr \<Rightarrow> rstr list" where
  "raw_shell_operator_features command = features_loop [] command"

definition shell_operator_features :: "rstr \<Rightarrow> rstr list" where
  "shell_operator_features command = raw_shell_operator_features (shell_analysis_command command)"

definition has_feature :: "string \<Rightarrow> rstr list \<Rightarrow> bool" where
  "has_feature f fs \<longleftrightarrow> lit f \<in> set fs"

definition can_mask_upstream_status :: "rstr \<Rightarrow> bool" where
  "can_mask_upstream_status command \<longleftrightarrow>
     list_ex (\<lambda>f. is_tag f [''pipeline'', ''sequence'', ''or-list'']) (shell_operator_features command)"

section \<open>Cutting at operators\<close>

text \<open>The length of the separator at a character: \<open>pipes\<close> says whether a single bar separates.\<close>

definition separator_len :: "bool \<Rightarrow> uchar \<Rightarrow> uchar option \<Rightarrow> nat option" where
  "separator_len pipes ch nxt =
     (if ch = 38 \<and> nxt = Some 38 \<or> ch = 124 \<and> nxt = Some 124 then Some 2
      else if ch = 124 then (if pipes then Some 1 else None)
      else if ch = 59 then Some 1
      else None)"

definition push_trimmed :: "rstr \<Rightarrow> rstr list \<Rightarrow> rstr list" where
  "push_trimmed piece rest = (if trim piece = [] then rest else trim piece # rest)"

function cut_loop :: "bool \<Rightarrow> rstr \<Rightarrow> nat \<Rightarrow> nat \<Rightarrow> rstr \<Rightarrow> rstr list" where
  "cut_loop pipes command start i s =
     (case next_unquoted i s of
        None \<Rightarrow> push_trimmed (drop start command) []
      | Some (idx, ch, t) \<Rightarrow>
          (case separator_len pipes ch (peek t) of
             None \<Rightarrow> cut_loop pipes command start (idx + 1) t
           | Some n \<Rightarrow> push_trimmed (take (idx - start) (drop start command))
               (cut_loop pipes command (idx + n) (idx + n) (drop (n - 1) t))))"
  by pat_completeness auto
termination
  by (relation "measure (\<lambda>(pipes, command, start, i, s). length s)") (auto dest!: next_unquoted_length)

declare cut_loop.simps [simp del]

definition split_shell_list_elements :: "rstr \<Rightarrow> rstr list" where
  "split_shell_list_elements command = (let command = shell_analysis_command command in cut_loop False command 0 0 command)"

definition split_shell_segments :: "rstr \<Rightarrow> rstr list" where
  "split_shell_segments command = (let command = shell_analysis_command command in cut_loop True command 0 0 command)"

function or_lhs_loop :: "rstr \<Rightarrow> nat \<Rightarrow> rstr \<Rightarrow> rstr option" where
  "or_lhs_loop command i s =
     (case next_unquoted i s of
        None \<Rightarrow> None
      | Some (idx, ch, t) \<Rightarrow>
          if ch = 124 \<and> peek t = Some 124 then Some (trim (take idx command)) else or_lhs_loop command (idx + 1) t)"
  by pat_completeness auto
termination
  by (relation "measure (\<lambda>(command, i, s). length s)") (auto dest!: next_unquoted_length)

declare or_lhs_loop.simps [simp del]

definition first_or_list_lhs :: "rstr \<Rightarrow> rstr option" where
  "first_or_list_lhs command = (let command = shell_analysis_command command in or_lhs_loop command 0 command)"

definition first_nonempty_shell_segment :: "rstr \<Rightarrow> rstr option" where
  "first_nonempty_shell_segment command = find (\<lambda>s. s \<noteq> []) (split_shell_segments command)"

section \<open>Cuts are trimmed, and agree with the features\<close>

lemma trim_idem [simp]: "trim (trim s) = trim s"
proof (cases "trim_start s")
  case Nil
  then have "trim s = []"
    by (simp add: trim_def trim_end_def)
  moreover have "trim [] = []"
    by (simp add: trim_def trim_start_def trim_end_def)
  ultimately show ?thesis
    by simp
next
  case (Cons c t)
  then have c: "\<not> is_whitespace c"
    unfolding trim_start_def using hd_dropWhile [of is_whitespace s] by auto
  have "trim_end (c # t) = c # drop 1 (trim_end (c # t))"
    using c by (auto simp: trim_end_def dropWhile_append)
  then have "trim_start (trim_end (c # t)) = trim_end (c # t)"
    using c by (metis dropWhile.simps(2) trim_start_def)
  then show ?thesis
    by (simp add: trim_def Cons)
qed

lemma trim_blank: "trim s = [] \<longleftrightarrow> list_all is_whitespace s"
proof -
  have "trim s = [] \<longleftrightarrow> (\<forall>x \<in> set (dropWhile is_whitespace s). is_whitespace x)"
    by (simp add: trim_def trim_end_def trim_start_def)
  also have "\<dots> \<longleftrightarrow> list_all is_whitespace s"
    by (induction s) auto
  finally show ?thesis .
qed

definition clean_piece :: "rstr \<Rightarrow> bool" where
  "clean_piece s \<longleftrightarrow> s \<noteq> [] \<and> trim s = s"

lemma clean_trim: "trim s \<noteq> [] \<Longrightarrow> clean_piece (trim s)"
  by (simp add: clean_piece_def)

lemma cursor_induct:
  assumes "\<And>s. (\<And>j ch t n. next_unquoted 0 s = Some (j, ch, t) \<Longrightarrow> P (drop n t)) \<Longrightarrow> P s"
  shows "P s"
proof (induction s rule: length_induct)
  case (1 s)
  show ?case
  proof (rule assms)
    fix j ch t n
    assume "next_unquoted 0 s = Some (j, ch, t)"
    then have "length (drop n t) < length s"
      using next_unquoted_length by fastforce
    with 1 show "P (drop n t)"
      by blast
  qed
qed

lemma cursor_shift: "cursor_loop (k + i) q e s = map_option (\<lambda>(j, ch, t). (k + j, ch, t)) (cursor_loop i q e s)"
  by (induction i q e s rule: cursor_loop.induct) auto

lemma next_unquoted_shift: "next_unquoted i s = map_option (\<lambda>(j, ch, t). (i + j, ch, t)) (next_unquoted 0 s)"
  unfolding next_unquoted_def using cursor_shift [of i 0 None False s] by simp

lemma cut_loop_step:
  assumes "next_unquoted 0 s = Some (j, ch, t)"
  shows "separator_len pipes ch (peek t) = None \<Longrightarrow> cut_loop pipes command start i s = cut_loop pipes command start (i + j + 1) t"
    and "separator_len pipes ch (peek t) = Some n \<Longrightarrow> cut_loop pipes command start i s =
      push_trimmed (take (i + j - start) (drop start command)) (cut_loop pipes command (i + j + n) (i + j + n) (drop (n - 1) t))"
  by (simp_all add: cut_loop.simps [of pipes command start i s] next_unquoted_shift [of i] assms)

lemma cut_loop_end: "next_unquoted 0 s = None \<Longrightarrow> cut_loop pipes command start i s = push_trimmed (drop start command) []"
  by (simp add: cut_loop.simps [of pipes command start i s] next_unquoted_shift [of i])

lemma cut_loop_clean: "x \<in> set (cut_loop pipes command start i s) \<Longrightarrow> clean_piece x"
proof (induction s arbitrary: start i rule: cursor_induct)
  case (1 s)
  show ?case
  proof (cases "next_unquoted 0 s")
    case None
    then show ?thesis
      using 1(2) by (auto simp: cut_loop_end push_trimmed_def clean_trim split: if_splits)
  next
    case (Some r)
    obtain j ch t where r: "r = (j, ch, t)"
      by (cases r)
    note step = cut_loop_step [OF Some [unfolded r]] and IH = 1(1) [OF Some [unfolded r]]
    show ?thesis
      using 1(2) IH [of _ _ 0] IH [of _ _ "n - 1" for n]
      by (cases "separator_len pipes ch (peek t)") (auto simp: step push_trimmed_def clean_trim split: if_splits)
  qed
qed

lemma split_shell_segments_clean: "x \<in> set (split_shell_segments command) \<Longrightarrow> clean_piece x"
  unfolding split_shell_segments_def Let_def by (rule cut_loop_clean)

lemma split_shell_list_elements_clean: "x \<in> set (split_shell_list_elements command) \<Longrightarrow> clean_piece x"
  unfolding split_shell_list_elements_def Let_def by (rule cut_loop_clean)

lemma features_step:
  assumes "next_unquoted 0 s = Some (j, ch, t)"
  shows "operator_feature ch (peek t) = None \<Longrightarrow> features_loop fs s = features_loop fs t"
    and "operator_feature ch (peek t) = Some (f, n) \<Longrightarrow> features_loop fs s = features_loop (if f \<in> set fs then fs else fs @ [f]) (drop n t)"
  by (simp_all add: features_loop.simps [of fs s] assms)

lemma features_end: "next_unquoted 0 s = None \<Longrightarrow> features_loop fs s = fs"
  by (simp add: features_loop.simps [of fs s])

lemma features_keep: "f \<in> set fs \<Longrightarrow> f \<in> set (features_loop fs s)"
proof (induction s arbitrary: fs rule: cursor_induct)
  case (1 s)
  show ?case
  proof (cases "next_unquoted 0 s")
    case None
    then show ?thesis
      using 1(2) by (simp add: features_end)
  next
    case (Some r)
    obtain j ch t where r: "r = (j, ch, t)"
      by (cases r)
    note step = features_step [OF Some [unfolded r]] and IH = 1(1) [OF Some [unfolded r]]
    show ?thesis
      using 1(2) IH [of fs 0] IH by (cases "operator_feature ch (peek t)") (auto simp: step)
  qed
qed

text \<open>An operator that is read as one character does not hide the next one.\<close>

lemma or_lhs_skip:
  assumes "operator_feature ch (peek t) = Some (f, n)" and "f \<noteq> lit ''or-list''"
  shows "(\<exists>l. or_lhs_loop command i t = Some l) \<longleftrightarrow> (\<exists>l. or_lhs_loop command (i + n) (drop n t) = Some l)"
proof (cases "n = 0")
  case False
  then obtain c t' where t: "t = c # t'" "n = 1" "c = 38 \<or> c = 40"
    using assms by (cases t) (auto simp: operator_feature_def split: if_splits)
  then show ?thesis
    by (subst or_lhs_loop.simps) (auto simp: next_unquoted_def)
qed simp

lemma or_lhs_feature:
  "lit ''or-list'' \<notin> set fs \<Longrightarrow> (\<exists>l. or_lhs_loop command i s = Some l) \<longleftrightarrow> lit ''or-list'' \<in> set (features_loop fs s)"
proof (induction s arbitrary: fs i rule: cursor_induct)
  case (1 s)
  show ?case
  proof (cases "next_unquoted 0 s")
    case None
    then show ?thesis
      using 1(2) by (simp add: features_end or_lhs_loop.simps [of command i s] next_unquoted_shift [of i])
  next
    case (Some r)
    obtain j ch t where r: "r = (j, ch, t)"
      by (cases r)
    note here = Some [unfolded r]
    note step = features_step [OF here] and IH = 1(1) [OF here]
    have lhs: "or_lhs_loop command i s =
        (if ch = 124 \<and> peek t = Some 124 then Some (trim (take (i + j) command)) else or_lhs_loop command (i + j + 1) t)"
      by (simp add: or_lhs_loop.simps [of command i s] next_unquoted_shift [of i] here)
    show ?thesis
    proof (cases "operator_feature ch (peek t)")
      case None
      then have "ch \<noteq> 124"
        by (auto simp: operator_feature_def split: if_splits)
      then show ?thesis
        using IH [of fs "i + j + 1" 0] 1(2) by (simp add: lhs step(1) [OF None])
    next
      case (Some fn)
      obtain f n where fn: "fn = (f, n)"
        by (cases fn)
      note op = Some [unfolded fn]
      show ?thesis
      proof (cases "f = lit ''or-list''")
        case True
        then have "ch = 124 \<and> peek t = Some 124"
          using op by (auto simp: operator_feature_def lit_def split: if_splits)
        then show ?thesis
          using True 1(2) by (simp add: lhs step(2) [OF op] features_keep)
      next
        case False
        then have "\<not> (ch = 124 \<and> peek t = Some 124)"
          using op by (auto simp: operator_feature_def split: if_splits)
        then show ?thesis
          using IH [of "if f \<in> set fs then fs else fs @ [f]" "i + j + 1 + n" n] or_lhs_skip [OF op False, of command "i + j + 1"]
            False 1(2)
          by (auto simp: lhs step(2) [OF op])
      qed
    qed
  qed
qed

lemma or_list_feature: "(\<exists>l. first_or_list_lhs command = Some l) \<longleftrightarrow> has_feature ''or-list'' (shell_operator_features command)"
  unfolding first_or_list_lhs_def Let_def has_feature_def shell_operator_features_def raw_shell_operator_features_def
  by (rule or_lhs_feature) simp

lemma can_mask_iff:
  "can_mask_upstream_status command \<longleftrightarrow>
     (\<exists>f \<in> {''pipeline'', ''sequence'', ''or-list''}. has_feature f (shell_operator_features command))"
  by (auto simp: can_mask_upstream_status_def is_tag_def has_feature_def list_ex_iff)

end
