(* ===== verification/ShellPolicy.thy ===== *)
theory ShellPolicy
  imports ShellSyntax Capsule
begin

text \<open>
  What a finished command means: expected failures and inventory and search commands (\<open>core/render/domain.rs\<close>), the attribution
  of a failure to a segment (\<open>core/shell_parse.rs\<close>), the family of a command (\<open>core/shell_family.rs\<close>), the policy and the status of a
  command (\<open>core/shell_policy/mod.rs\<close>), and the views that show its output. An exit code is an optional integer. JSON is the
  parameter \<open>'j serde\<close>; whether the host is Windows is an argument. The theorems say that an attributed failure never contradicts the
  exit code, that it names a part of the command, and which label a status carries.
\<close>

section \<open>Inventory and search commands\<close>

record InventoryStats =
  inv_files :: nat
  inv_dirs :: nat
  inv_other :: nat
  inv_line_counts :: "rstr list"
  inv_paths :: "rstr list"

definition inventory_line :: "nat \<Rightarrow> (rstr \<Rightarrow> bool) \<Rightarrow> rstr \<Rightarrow> InventoryStats \<Rightarrow> InventoryStats" where
  "inventory_line sample_limit is_file line st =
     (if line = [] \<or> starts_with line (lit ''==='') \<or> starts_with line (lit ''---'') then st
      else let st = (if ends_with line (lit ''/'') then st\<lparr>inv_dirs := inv_dirs st + 1\<rparr>
                     else let st = (if is_file line then st\<lparr>inv_files := inv_files st + 1\<rparr> else st\<lparr>inv_other := inv_other st + 1\<rparr>) in
                       if length (inv_paths st) < sample_limit then st\<lparr>inv_paths := inv_paths st @ [line]\<rparr> else st) in
        (case peek (split_whitespace line) of
           None \<Rightarrow> st
         | Some w \<Rightarrow> if parse_usize w \<noteq> None then st\<lparr>inv_line_counts := inv_line_counts st @ [line]\<rparr> else st))"

definition inventory_stats :: "rstr \<Rightarrow> nat \<Rightarrow> (rstr \<Rightarrow> bool) \<Rightarrow> InventoryStats" where
  "inventory_stats output sample_limit is_file =
     fold (inventory_line sample_limit is_file) (map trim (str_lines output))
       \<lparr>inv_files = 0, inv_dirs = 0, inv_other = 0, inv_line_counts = [], inv_paths = []\<rparr>"

definition segment_is_bare_ls :: "rstr \<Rightarrow> bool" where
  "segment_is_bare_ls lower \<longleftrightarrow>
     list_ex (\<lambda>s. s = lit ''ls'' \<or> starts_with s (lit ''ls -'') \<or> starts_with s (lit ''ls '')) (split_shell_segments lower)"

definition INVENTORY_COMMANDS :: "string list" where
  "INVENTORY_COMMANDS = [''ls'', ''find'', ''tree'', ''dir'', ''gci'', ''get-childitem'', ''sort'', ''wc'', ''head'', ''tail'', ''uniq'',
     ''cut'', ''echo'', ''sort-object'', ''select-object'', ''where-object'', ''measure-object'']"

definition all_segments_inventory_safe :: "rstr \<Rightarrow> bool" where
  "all_segments_inventory_safe command \<longleftrightarrow>
     list_all (\<lambda>s. case peek (split_shell_words s) of None \<Rightarrow> False
        | Some w \<Rightarrow> is_tag (shell_command_basename w) INVENTORY_COMMANDS) (split_shell_segments command)"

definition is_repo_inventory_command :: "rstr \<Rightarrow> bool" where
  "is_repo_inventory_command command \<longleftrightarrow>
     (let lower = to_ascii_lowercase command; has = (\<lambda>n. str_contains lower (lit n)) in
      ((has ''find '' \<or> has '' tree'' \<or> starts_with lower (lit ''tree'')) \<and> (has ''echo'' \<or> has ''wc -l'' \<or> has ''sort'') \<or>
       has ''find . -type f'' \<or> has ''get-childitem'' \<or> has ''gci '' \<or> segment_is_bare_ls lower) \<and>
      all_segments_inventory_safe command)"

definition SEARCH_FILTERS :: "string list" where
  "SEARCH_FILTERS = [''head'', ''tail'', ''sort'', ''uniq'', ''wc'', ''cut'', ''tr'', ''cat'', ''tee'']"

fun search_segments_loop :: "bool \<Rightarrow> rstr list \<Rightarrow> bool" where
  "search_segments_loop any_search [] = any_search"
| "search_segments_loop any_search (s # ss) =
     (case peek (split_shell_words s) of
        None \<Rightarrow> False
      | Some w \<Rightarrow>
          let first = shell_command_basename w in
          if is_search_command first then search_segments_loop True ss
          else if \<not> is_tag first SEARCH_FILTERS then False
          else search_segments_loop any_search ss)"

definition is_search_shell_command :: "rstr \<Rightarrow> bool" where
  "is_search_shell_command command = search_segments_loop False (split_shell_segments command)"

section \<open>Expected failures\<close>

definition is_explicit_false_segment :: "rstr \<Rightarrow> bool" where
  "is_explicit_false_segment segment \<longleftrightarrow>
     (let lower = to_ascii_lowercase segment in lower = lit ''false'' \<or> starts_with lower (lit ''false ''))"

function git_index_loop :: "rstr list \<Rightarrow> nat \<Rightarrow> nat option" where
  "git_index_loop ws i =
     (if i < length ws then
        if is_tag (ws ! i) [''-C'', ''-c'', ''--git-dir'', ''--work-tree'', ''--namespace''] then git_index_loop ws (i + 2)
        else if starts_with (ws ! i) (lit ''-'') then git_index_loop ws (i + 1)
        else Some i
      else None)"
  by pat_completeness auto
termination
  by (relation "measure (\<lambda>(ws, i). length ws - i)") auto

declare git_index_loop.simps [simp del]

definition git_subcommand_index :: "rstr list \<Rightarrow> nat option" where
  "git_subcommand_index ws = git_index_loop ws 1"

definition word_at :: "rstr list \<Rightarrow> nat \<Rightarrow> rstr option" where
  "word_at ws i = (if i < length ws then Some (ws ! i) else None)"

definition is_expected_false_segment :: "rstr \<Rightarrow> rstr \<Rightarrow> rstr \<Rightarrow> bool" where
  "is_expected_false_segment command out err \<longleftrightarrow>
     trim err = [] \<and>
     (let ws = split_shell_words (shell_analysis_command command); first = first_name ws in
      if is_tag first [''test'', ''['', ''[[''] then trim out = []
      else if is_search_command first then trim out = []
      else if first = lit ''command'' then
        word_at ws 1 = Some (lit ''-v'') \<and> 3 \<le> length ws \<and> list_all (\<lambda>w. \<not> starts_with w (lit ''-'')) (drop 2 ws)
      else if is_tag first [''cmp'', ''diff''] then True
      else if first = lit ''git'' then
        (case git_subcommand_index ws of
           None \<Rightarrow> False
         | Some i \<Rightarrow>
             let args = drop (i + 1) ws in
             word_at ws i = Some (lit ''diff'') \<and> list_ex (\<lambda>w. is_tag w [''--quiet'', ''--exit-code'']) args \<and>
             \<not> list_ex (\<lambda>w. w = lit ''--check'') args)
      else False)"

text \<open>\<open>first\<close> selects the first segment of a pipeline, otherwise the last.\<close>

definition is_expected_false_pipeline_edge :: "rstr \<Rightarrow> rstr \<Rightarrow> rstr \<Rightarrow> bool \<Rightarrow> bool" where
  "is_expected_false_pipeline_edge command out err first \<longleftrightarrow>
     (let segments = split_shell_segments command in
      if segments = [] then False
      else let candidate = (if first then hd segments else last segments);
               others = (if first then tl segments else butlast segments) in
        is_expected_false_segment candidate out err \<and> \<not> list_ex is_explicit_false_segment others)"

definition is_expected_false_pipeline_exit :: "rstr \<Rightarrow> rstr \<Rightarrow> rstr \<Rightarrow> bool" where
  "is_expected_false_pipeline_exit command out err = is_expected_false_pipeline_edge command out err False"

type_synonym exit_code = "int option"

definition is_search_no_match :: "rstr \<Rightarrow> rstr \<Rightarrow> rstr \<Rightarrow> exit_code \<Rightarrow> bool" where
  "is_search_no_match command out err code \<longleftrightarrow> code = Some 1 \<and> is_search_shell_command command"

definition is_expected_false_exit :: "rstr \<Rightarrow> rstr \<Rightarrow> rstr \<Rightarrow> exit_code \<Rightarrow> bool" where
  "is_expected_false_exit command out err code =
     (if code \<noteq> Some 1 then False
      else if has_feature ''pipeline'' (shell_operator_features command) then is_expected_false_pipeline_exit command out err
      else is_expected_false_segment command out err)"

definition is_masked_expected_false_or :: "rstr \<Rightarrow> rstr \<Rightarrow> rstr \<Rightarrow> exit_code \<Rightarrow> bool" where
  "is_masked_expected_false_or command out err code \<longleftrightarrow>
     code = Some 0 \<and>
     (case first_or_list_lhs command of
        None \<Rightarrow> False | Some s \<Rightarrow> s \<noteq> [] \<and> is_expected_false_segment s out err)"

definition is_masked_expected_false_pipeline :: "rstr \<Rightarrow> rstr \<Rightarrow> rstr \<Rightarrow> exit_code \<Rightarrow> bool" where
  "is_masked_expected_false_pipeline command out err code \<longleftrightarrow>
     code = Some 0 \<and> trim err = [] \<and> has_feature ''pipeline'' (shell_operator_features command) \<and>
     is_expected_false_pipeline_edge command out err True"

definition looks_env_invocation_failure :: "rstr \<Rightarrow> rstr \<Rightarrow> rstr \<Rightarrow> exit_code \<Rightarrow> bool" where
  "looks_env_invocation_failure cmd out err code =
     (if code = Some 0 then False
      else let ws = split_shell_words cmd in
        if (case peek ws of None \<Rightarrow> True | Some w \<Rightarrow> shell_command_basename w \<noteq> lit ''env'') then False
        else if \<not> list_ex (\<lambda>w. is_tag w [''-C'', ''--chdir''] \<or> starts_with w (lit ''--chdir='')) ws then False
        else let comb = to_ascii_lowercase (out @ [NL] @ err) in
          str_contains comb (lit ''env:'') \<and> contains_any comb (lit ''cannot change directory|not a directory|chdir''))"

section \<open>The family of a command\<close>

definition shell_family_with_combined :: "'j serde \<Rightarrow> rstr \<Rightarrow> rstr \<Rightarrow> rstr \<Rightarrow> rstr" where
  "shell_family_with_combined J command out combined =
     (let analysis = shell_analysis_command command; ws = split_shell_words analysis; first = first_name ws;
          from_git = (if first = lit ''git'' then (case git_subcommand_index ws of None \<Rightarrow> None | Some i \<Rightarrow> word_at ws i) else None);
          second = (case from_git of Some w \<Rightarrow> w | None \<Rightarrow> (case word_at ws 1 of Some w \<Rightarrow> w | None \<Rightarrow> [])) in
      if is_repo_inventory_command command \<or> is_repo_inventory_command analysis then lit ''repo-inventory''
      else if first = lit ''diff'' \<or> first = lit ''git'' \<and> is_tag second [''diff'', ''show''] \<or>
        starts_with combined (lit ''diff --git'') \<or> str_contains combined ([NL] @ lit ''@@ '') then lit ''diff''
      else if is_tag first [''test'', ''['', ''[['', ''cmp''] then lit ''predicate''
      else if first = lit ''cargo'' \<and> is_tag second [''test'', ''build'', ''check'', ''clippy'']
      then (if second = lit ''test'' then lit ''test'' else lit ''build'')
      else if is_search_shell_command command then lit ''search''
      else if is_tag first [''pytest'', ''unittest''] \<or>
        list_ex (\<lambda>n. str_contains command (lit n)) [''python -m pytest'', ''python -m unittest''] then lit ''python-test''
      else if first = lit ''go'' \<and> second = lit ''test'' then lit ''go-test''
      else if is_tag first [''jest'', ''vitest''] \<or> is_tag first [''npm'', ''pnpm'', ''yarn''] \<and> second = lit ''test'' then lit ''test''
      else if is_tag first [''eslint'', ''tsc'', ''ruff'', ''mypy'', ''clippy''] then lit ''lint''
      else if is_tag first [''docker'', ''kubectl''] \<or> looks_status_table combined then lit ''status''
      else if from_str J (trim out) \<noteq> None \<or> str_contains combined (lit ''<testsuite'') \<or>
        list_ex (\<lambda>l. starts_with l (lit ''ok '') \<or> starts_with l (lit ''not ok '')) (str_lines combined) then lit ''structured''
      else if looks_diagnostic combined then lit ''diagnostic''
      else lit ''generic'')"

definition shell_family :: "'j serde \<Rightarrow> rstr \<Rightarrow> rstr \<Rightarrow> rstr \<Rightarrow> rstr" where
  "shell_family J command out err = shell_family_with_combined J command out (out @ [NL] @ err)"

section \<open>Attribution of a failure\<close>

definition strip_segment_negation :: "rstr \<Rightarrow> rstr \<times> bool" where
  "strip_segment_negation segment =
     (let trimmed = trim segment in
      case strip_prefix (lit ''!'') trimmed of
        None \<Rightarrow> (trimmed, False)
      | Some rest \<Rightarrow>
          let rest = trim_start rest in
          if rest \<noteq> [] \<and> \<not> starts_with rest (lit ''='') then (rest, True) else (trimmed, False))"

definition segment_command_name :: "rstr \<Rightarrow> rstr option" where
  "segment_command_name segment =
     (case peek (split_shell_words (shell_analysis_command (fst (strip_segment_negation segment)))) of
        None \<Rightarrow> None
      | Some w \<Rightarrow> nonempty (to_ascii_lowercase (shell_command_basename w)))"

definition NOISE :: rstr where "NOISE = lit ''sh bash zsh command not found such file or directory no''"

definition not_found_actors :: "rstr \<Rightarrow> rstr list" where
  "not_found_actors failure_output =
     filter (\<lambda>token. token \<noteq> [] \<and> \<not> contains_any_ws token NOISE)
       (map (\<lambda>token. to_ascii_lowercase (shell_command_basename (trim token)))
         (concat (map (split_on (\<lambda>c. list_ex (\<lambda>d. c = d) [58, 32, 9, 96, SQ, DQ]))
           (filter (\<lambda>line. str_contains line (lit ''not found'')) (str_lines failure_output)))))"

definition is_nonzero :: "exit_code \<Rightarrow> bool" where
  "is_nonzero code \<longleftrightarrow> (case code of None \<Rightarrow> False | Some c \<Rightarrow> c \<noteq> 0)"

definition is_cd_failure_segment :: "rstr \<Rightarrow> exit_code \<Rightarrow> rstr \<Rightarrow> bool" where
  "is_cd_failure_segment segment code failure_output \<longleftrightarrow>
     starts_with (to_ascii_lowercase segment) (lit ''cd '') \<and> is_nonzero code \<and>
     contains_any failure_output (lit ''can'' @ [SQ] @ lit ''t cd|no such file|not a directory'')"

definition is_command_not_found_segment :: "rstr \<Rightarrow> rstr list \<Rightarrow> bool" where
  "is_command_not_found_segment segment actors \<longleftrightarrow>
     actors \<noteq> [] \<and> (case segment_command_name segment of None \<Rightarrow> False | Some name \<Rightarrow> name \<in> set actors)"

definition suppresses_output :: "rstr \<Rightarrow> bool" where
  "suppresses_output word \<longleftrightarrow>
     is_tag word [''--quiet'', ''--silent''] \<or>
     (case strip_prefix (lit ''-'') word of None \<Rightarrow> False | Some flags \<Rightarrow> 113 \<in> set flags \<or> 115 \<in> set flags)"

definition empty_pipeline_search_failure_segment :: "rstr \<Rightarrow> rstr \<Rightarrow> rstr \<Rightarrow> exit_code \<Rightarrow> rstr option" where
  "empty_pipeline_search_failure_segment command out err code =
     (let features = shell_operator_features command in
      if code \<noteq> Some 1 \<or> trim out \<noteq> [] \<or> trim err \<noteq> [] \<or> \<not> has_feature ''pipeline'' features \<or>
        list_ex (\<lambda>f. is_tag f [''and-list'', ''or-list'']) features then None
      else find (\<lambda>segment.
          let ws = split_shell_words (shell_analysis_command segment) in
          (case peek ws of None \<Rightarrow> False | Some w \<Rightarrow> is_search_command (shell_command_basename w)) \<and>
          \<not> list_ex suppresses_output (tl ws)) (rev (split_shell_segments command)))"

text \<open>\<open>str::to_ascii_uppercase\<close> and \<open>str::trim_end_matches\<close> of a class of characters.\<close>

definition to_ascii_uppercase :: "rstr \<Rightarrow> rstr" where
  "to_ascii_uppercase s = map ascii_upper s"

definition trim_end_matches :: "(uchar \<Rightarrow> bool) \<Rightarrow> rstr \<Rightarrow> rstr" where
  "trim_end_matches p s = rev (dropWhile p (rev s))"

definition line_actor :: "rstr \<Rightarrow> rstr option" where
  "line_actor line =
     (case split_whitespace line of
        [] \<Rightarrow> None
      | first # ws \<Rightarrow>
          let prefixed = ends_with first (lit '':'') \<or>
                (case peek ws of None \<Rightarrow> False | Some second \<Rightarrow> starts_with (to_ascii_uppercase second) (lit ''ERR''));
              actor = to_ascii_lowercase (shell_command_basename (trim_end_matches (\<lambda>c. c = 58) first)) in
          if actor = [] \<or> \<not> prefixed then None else Some actor)"

fun evidence_loop :: "rstr list \<Rightarrow> rstr list \<Rightarrow> rstr option" where
  "evidence_loop segments [] = None"
| "evidence_loop segments (line # ls) =
     (case line_actor line of
        None \<Rightarrow> evidence_loop segments ls
      | Some actor \<Rightarrow>
          (case find (\<lambda>s. segment_command_name s = Some actor) segments of
             Some s \<Rightarrow> Some s | None \<Rightarrow> evidence_loop segments ls))"

definition evidence_named_segment :: "rstr list \<Rightarrow> rstr \<Rightarrow> rstr \<Rightarrow> rstr option" where
  "evidence_named_segment segments out err =
     evidence_loop segments (str_lines (if trim err = [] then out else err))"

definition output_indicated_family :: "rstr \<Rightarrow> rstr \<Rightarrow> rstr option" where
  "output_indicated_family out err =
     (let combined = to_ascii_lowercase (out @ [NL] @ err) in
      if contains_any combined (lit ''test failed|test result: failed|tests failed|assertion failed|panicked at|failures:'')
      then Some (lit ''test'')
      else if contains_any combined (lit ''could not compile|error[e'') then Some (lit ''build'')
      else None)"

definition is_diagnostic_failure_segment :: "'j serde \<Rightarrow> rstr \<Rightarrow> rstr \<Rightarrow> rstr \<Rightarrow> bool" where
  "is_diagnostic_failure_segment J segment out err \<longleftrightarrow>
     is_one_of (shell_family J segment out err) (lit ''test build lint python-test go-test'') \<or>
     str_contains segment (lit ''--check'')"

fun first_some :: "'a option list \<Rightarrow> 'a option" where
  "first_some [] = None"
| "first_some (x # xs) = (case x of Some y \<Rightarrow> Some y | None \<Rightarrow> first_some xs)"

definition diagnostic_attributed_segment :: "'j serde \<Rightarrow> rstr list \<Rightarrow> rstr \<Rightarrow> rstr \<Rightarrow> rstr option" where
  "diagnostic_attributed_segment J segments out err =
     (let negated = (\<lambda>s. snd (strip_segment_negation s)); bare = (\<lambda>s. fst (strip_segment_negation s));
          by_family = (case output_indicated_family out err of
             None \<Rightarrow> None
           | Some fam \<Rightarrow>
               first_some (map (\<lambda>want. find (\<lambda>s. negated s = want \<and> shell_family J (bare s) out err = fam) segments) [True, False])) in
      case by_family of
        Some s \<Rightarrow> Some s
      | None \<Rightarrow>
          first_some (map (\<lambda>want. find (\<lambda>s. negated s = want \<and> is_diagnostic_failure_segment J (bare s) out err) segments) [True, False]))"

definition line_has_structured_masked_failure_evidence :: "rstr \<Rightarrow> bool" where
  "line_has_structured_masked_failure_evidence line \<longleftrightarrow>
     (let t = trim line; low = to_ascii_lowercase t in
      t \<noteq> [] \<and>
      (list_ex (\<lambda>p. starts_with low (lit p)) [''error:'', ''error['', ''warning:'', ''fatal:''] \<or>
       contains_any low (lit ''panic|traceback|command not found|no such file or directory|permission denied|assertion failed|unrecognized option|invalid option'')))"

definition SEARCH_DIAG_PREFIXES :: rstr where
  "SEARCH_DIAG_PREFIXES = lit ''error:|warning:|fatal:|panic|traceback|rg:|grep:|ripgrep:''"

definition SEARCH_DIAG_NEEDLES :: rstr where
  "SEARCH_DIAG_NEEDLES = lit ''regex parse error|unrecognized option|invalid option|permission denied|no such file or directory''"

definition search_stdout_line_is_diagnostic :: "rstr \<Rightarrow> bool" where
  "search_stdout_line_is_diagnostic line \<longleftrightarrow>
     (let low = to_ascii_lowercase (trim_start line) in
      starts_with_any low SEARCH_DIAG_PREFIXES \<or> contains_any low SEARCH_DIAG_NEEDLES)"

definition looks_masked_failure_evidence :: "rstr \<Rightarrow> rstr \<Rightarrow> rstr option \<Rightarrow> bool" where
  "looks_masked_failure_evidence out err head \<longleftrightarrow>
     trim err \<noteq> [] \<and> list_ex line_has_structured_masked_failure_evidence (str_lines err) \<or>
     (case head of None \<Rightarrow> False
      | Some h \<Rightarrow>
          (case peek (split_shell_words (shell_analysis_command h)) of None \<Rightarrow> False | Some w \<Rightarrow> is_search_command w) \<and>
          trim out \<noteq> [] \<and> list_ex search_stdout_line_is_diagnostic (str_lines out)) \<or>
     trim out \<noteq> [] \<and> list_ex line_has_structured_masked_failure_evidence (str_lines out)"

definition masked_or_failure_segment :: "rstr \<Rightarrow> rstr \<Rightarrow> rstr \<Rightarrow> exit_code \<Rightarrow> rstr option" where
  "masked_or_failure_segment cmd out err code =
     (if code \<noteq> Some 0 \<or> is_masked_expected_false_or cmd out err code then None
      else case first_or_list_lhs cmd of
        None \<Rightarrow> None
      | Some lhs \<Rightarrow>
          (let elements = split_shell_list_elements lhs in
           if elements = [] then None
           else let s = trim (last elements) in
             if s = [] \<or> is_expected_false_segment s out err then None
             else case evidence_named_segment (split_shell_segments s) out err of
               Some named \<Rightarrow> Some named
             | None \<Rightarrow> if looks_masked_failure_evidence out err (Some s) then Some s else None))"

definition masked_pipeline_failure_segment :: "rstr \<Rightarrow> rstr \<Rightarrow> rstr \<Rightarrow> exit_code \<Rightarrow> rstr option" where
  "masked_pipeline_failure_segment cmd out err code =
     (if code \<noteq> Some 0 \<or> is_masked_expected_false_pipeline cmd out err code \<or>
        \<not> has_feature ''pipeline'' (shell_operator_features cmd) then None
      else let elements = split_shell_list_elements cmd in
        if elements = [] then None
        else let segments = split_shell_segments (last elements); named = evidence_named_segment segments out err in
          if named = None \<and> \<not> looks_masked_failure_evidence out err (peek segments) then None
          else case named of Some s \<Rightarrow> Some s | None \<Rightarrow> find (\<lambda>s. s \<noteq> []) segments)"

definition failed_segment :: "'j serde \<Rightarrow> rstr \<Rightarrow> rstr \<Rightarrow> rstr \<Rightarrow> exit_code \<Rightarrow> rstr option" where
  "failed_segment J cmd out err code =
     (if is_search_no_match cmd out err code \<or> is_expected_false_exit cmd out err code then None
      else if looks_env_invocation_failure cmd out err code then nonempty (trim cmd)
      else case masked_or_failure_segment cmd out err code of
        Some s \<Rightarrow> Some s
      | None \<Rightarrow>
     (case masked_pipeline_failure_segment cmd out err code of
        Some s \<Rightarrow> Some s
      | None \<Rightarrow>
          let segments = split_shell_segments cmd; combined = to_ascii_lowercase (out @ [NL] @ err);
              fail_out = (if code = Some 0 then to_ascii_lowercase err else combined) in
          if code = Some 0 \<and> \<not> can_mask_upstream_status cmd then None
          else let not_found = not_found_actors fail_out in
            case find (\<lambda>s. is_explicit_false_segment s \<or> is_cd_failure_segment s code fail_out \<or>
                is_command_not_found_segment s not_found) segments of
              Some s \<Rightarrow> Some s
            | None \<Rightarrow>
                if is_nonzero code then
                  first_some [empty_pipeline_search_failure_segment cmd out err code, evidence_named_segment segments out err,
                    if looks_diagnostic combined then diagnostic_attributed_segment J segments out err else None,
                    if segments = [] then None else nonempty (last segments)]
                else None))"

definition MASKING_WARNING :: rstr where
  "MASKING_WARNING = lit ''compound or pipeline syntax can mask upstream failure; inspect refs or rerun with pipefail''"

definition masking_warning :: "'j serde \<Rightarrow> rstr \<Rightarrow> rstr \<Rightarrow> rstr \<Rightarrow> exit_code \<Rightarrow> rstr option" where
  "masking_warning J cmd out err code =
     (if is_repo_inventory_command cmd \<and> code = Some 0 \<and> trim err = [] \<or> looks_env_invocation_failure cmd out err code \<or>
        is_masked_expected_false_or cmd out err code \<or> is_masked_expected_false_pipeline cmd out err code \<or>
        \<not> list_ex (\<lambda>f. is_tag f [''pipeline'', ''sequence'', ''or-list'']) (shell_operator_features cmd) then None
      else let explicit = list_ex is_explicit_false_segment (split_shell_segments cmd) in
        if (if code = Some 0
            then explicit \<or> looks_masked_failure_evidence out err (first_nonempty_shell_segment cmd) \<or>
              failed_segment J cmd out err code \<noteq> None
            else explicit \<or> contains_any (to_ascii_lowercase (out @ [NL] @ err))
              (lit ''not found|no such file|permission denied|unrecognized option|invalid option|usage:|error''))
        then Some MASKING_WARNING else None)"

definition pipeline_rerun_command :: "bool \<Rightarrow> rstr \<Rightarrow> rstr option \<Rightarrow> rstr option" where
  "pipeline_rerun_command cfg_windows command warning =
     (if cfg_windows \<or> warning = None \<or> \<not> has_feature ''pipeline'' (shell_operator_features command) then None
      else let cmd = shell_analysis_command command in
        if trim cmd = [] then None
        else Some (lit ''bash -o pipefail -c '' @ shell_display_arg (trim cmd) (lit ''posix'')))"

definition shell_syntax_summary_for_status :: "rstr \<Rightarrow> rstr \<Rightarrow> rstr \<Rightarrow> exit_code \<Rightarrow> rstr" where
  "shell_syntax_summary_for_status command out err code =
     (let features = (if looks_env_invocation_failure command out err code then raw_shell_operator_features command
                      else shell_operator_features command) in
      if features = [] then lit ''argv/simple'' else join (lit '','') features)"

section \<open>Status and policy\<close>

definition command_succeeded :: "exit_code \<Rightarrow> bool \<Rightarrow> bool \<Rightarrow> bool \<Rightarrow> bool" where
  "command_succeeded code search_no_match expected_false_exit timed_out \<longleftrightarrow>
     \<not> timed_out \<and> (code = Some 0 \<or> search_no_match \<or> expected_false_exit)"

definition command_status_label :: "exit_code \<Rightarrow> bool \<Rightarrow> bool \<Rightarrow> bool \<Rightarrow> rstr" where
  "command_status_label code timed_out success pipeline_masked =
     (if timed_out then lit ''command_timeout''
      else if pipeline_masked then lit ''pipeline_masked''
      else if success then lit ''command_success''
      else if code = None then lit ''command_unknown''
      else lit ''command_failed'')"

record CommandStatus =
  transport_status :: rstr
  command_success :: bool
  cs_exit_code :: exit_code
  cs_pipeline_rerun_command :: "rstr option"
  shell_syntax_summary :: rstr
  status_label :: rstr
  cs_failed_segment :: "rstr option"
  pipeline_masking_warning :: "rstr option"

definition classify_command_status :: "bool \<Rightarrow> 'j serde \<Rightarrow> rstr \<Rightarrow> rstr \<Rightarrow> rstr \<Rightarrow> exit_code \<Rightarrow> bool \<Rightarrow> CommandStatus" where
  "classify_command_status cfg_windows J command out err code timed_out =
     (let no_match = is_search_no_match command out err code; expected = is_expected_false_exit command out err code;
          failed = failed_segment J command out err code; warning = masking_warning J command out err code;
          success = command_succeeded code no_match expected timed_out;
          masked = (\<not> timed_out \<and> code = Some 0 \<and> failed \<noteq> None) in
      \<lparr>transport_status = lit ''ok'', command_success = success, cs_exit_code = code,
       cs_pipeline_rerun_command = pipeline_rerun_command cfg_windows command warning,
       shell_syntax_summary = shell_syntax_summary_for_status command out err code,
       status_label = command_status_label code timed_out success masked, cs_failed_segment = failed,
       pipeline_masking_warning = warning\<rparr>)"

definition is_diagnostic_shell_policy :: "rstr \<Rightarrow> rstr \<Rightarrow> exit_code \<Rightarrow> bool \<Rightarrow> bool" where
  "is_diagnostic_shell_policy fam combined code hazard \<longleftrightarrow>
     is_tag fam [''test'', ''build'', ''lint'', ''python-test'', ''go-test''] \<or> hazard \<or> is_nonzero code \<or> looks_diagnostic combined"

definition MAX_HONORED_HEAD_LINES :: nat where "MAX_HONORED_HEAD_LINES = 256"
definition DEFAULT_SEARCH_SAMPLE_LINES :: nat where "DEFAULT_SEARCH_SAMPLE_LINES = 80"

definition is_suffix_unit :: "uchar \<Rightarrow> bool" where
  "is_suffix_unit c \<longleftrightarrow> list_ex (\<lambda>d. c = d) [107, 75, 109, 77]"

fun requested_loop :: "rstr list \<Rightarrow> nat option" where
  "requested_loop [] = None"
| "requested_loop (word # ws) =
     (if word = lit ''-n'' \<or> word = lit ''--lines''
      then (case peek ws of None \<Rightarrow> None | Some v \<Rightarrow> parse_usize (trim_end_matches is_suffix_unit v))
      else let inline = (case strip_prefix (lit ''-n'') word of Some v \<Rightarrow> Some v | None \<Rightarrow> strip_prefix (lit ''--lines='') word) in
        if inline \<noteq> None \<and> inline \<noteq> Some [] then parse_usize (trim_end_matches is_suffix_unit (the inline))
        else case strip_prefix (lit ''-'') word of
          None \<Rightarrow> None
        | Some digits \<Rightarrow>
            if digits \<noteq> [] \<and> list_all is_ascii_digit digits then parse_usize digits else requested_loop ws)"

definition requested_output_lines :: "rstr \<Rightarrow> (rstr \<times> nat) option" where
  "requested_output_lines command =
     (let ws = split_shell_words command in
      case peek ws of
        None \<Rightarrow> None
      | Some w \<Rightarrow>
          let tool = shell_command_basename w in
          if is_tag tool [''head'', ''tail''] then map_option (\<lambda>n. (tool, n)) (requested_loop (tl ws)) else None)"

definition auto_shell_policy :: "rstr \<Rightarrow> rstr \<Rightarrow> rstr \<Rightarrow> exit_code \<Rightarrow> bool \<Rightarrow> bool \<Rightarrow> bool \<Rightarrow> rstr \<times> rstr" where
  "auto_shell_policy command fam combined code search_no_match expected_false_exit hazard =
     (if is_repo_inventory_command command then (lit ''structured'', lit ''repo inventory command'')
      else if fam = lit ''diff'' then (lit ''diff-aware'', lit ''diff-like output'')
      else if fam = lit ''search'' \<and> \<not> hazard \<and> (code = Some 0 \<or> search_no_match) then (lit ''structured'', lit ''search output'')
      else if expected_false_exit then (lit ''structured'', lit ''expected false predicate exit'')
      else if requested_output_lines command \<noteq> None then (lit ''structured'', lit ''explicit head/tail line request'')
      else if is_diagnostic_shell_policy fam combined code hazard then (lit ''diagnostic'', lit ''failure or diagnostic family'')
      else if is_tag fam [''search'', ''structured'', ''status''] then (lit ''structured'', lit ''structured/status output'')
      else if 3 \<le> repeated_line_count combined \<or> 120 < length (str_lines combined) then (lit ''dedupe'', lit ''repeated or long log'')
      else (lit ''passthrough'', lit ''small low-risk output''))"

record PolicyDecision =
  pd_policy :: rstr
  pd_reason :: rstr
  pd_family :: rstr

definition policy_decision :: "rstr \<Rightarrow> rstr \<times> rstr \<Rightarrow> PolicyDecision" where
  "policy_decision fam p = \<lparr>pd_policy = fst p, pd_reason = snd p, pd_family = fam\<rparr>"

definition decide_shell_policy_with_combined :: "'j serde \<Rightarrow> rstr \<Rightarrow> rstr \<Rightarrow> rstr \<Rightarrow> exit_code \<Rightarrow> Mode \<Rightarrow> rstr \<Rightarrow> PolicyDecision" where
  "decide_shell_policy_with_combined J command out err code mode combined =
     (let fam = shell_family_with_combined J command out combined; requested = effective_policy mode in
      if requested \<noteq> Auto then policy_decision fam (mode_str requested, lit ''explicit user mode'')
      else policy_decision fam (auto_shell_policy command fam combined code (is_search_no_match command out err code)
        (is_expected_false_exit command out err code)
        (failed_segment J command out err code \<noteq> None \<or> masking_warning J command out err code \<noteq> None)))"

definition decide_shell_policy :: "'j serde \<Rightarrow> rstr \<Rightarrow> rstr \<Rightarrow> rstr \<Rightarrow> exit_code \<Rightarrow> Mode \<Rightarrow> PolicyDecision" where
  "decide_shell_policy J command out err code mode = decide_shell_policy_with_combined J command out err code mode (out @ [NL] @ err)"

section \<open>Views of the output\<close>

definition bullet :: "rstr \<Rightarrow> rstr" where
  "bullet v = lit ''- '' @ v @ [NL]"

definition repo_inventory_view :: "rstr \<Rightarrow> rstr \<Rightarrow> rstr" where
  "repo_inventory_view command output =
     (let st = inventory_stats output 20 (\<lambda>line. 47 \<in> set line \<or> 46 \<in> set line) in
      lit ''repo_inventory:'' @ [NL] @ lit ''command: '' @ command @ [NL] @
      lit ''files_seen: '' @ show_nat (inv_files st) @ [NL] @ lit ''dirs_seen: '' @ show_nat (inv_dirs st) @ [NL] @
      (if 0 < inv_other st then lit ''other_entries_seen: '' @ show_nat (inv_other st) @ [NL] else []) @
      concat (map (\<lambda>(label, values, limit).
          if values = [] then [] else label @ lit '':'' @ [NL] @ concat (map bullet (take limit values)))
        [(lit ''linecount_summary'', inv_line_counts st, 12), (lit ''sample_paths'', inv_paths st, 20)]))"

fun context_loop :: "nat option \<Rightarrow> rstr list \<Rightarrow> nat option" where
  "context_loop largest [] = largest"
| "context_loop largest (word # ws) =
     (let flag = trim_start_matches 45 word in
      if (case peek flag of None \<Rightarrow> True | Some c \<Rightarrow> c \<notin> {65, 66, 67}) then context_loop largest ws
      else if \<not> starts_with word (lit ''-'') \<or> starts_with word (lit ''--'') then context_loop largest ws
      else let inline = drop 1 flag;
               v = (if inline = [] then (case peek ws of None \<Rightarrow> None | Some nxt \<Rightarrow> parse_usize nxt) else parse_usize inline) in
        context_loop (case v of None \<Rightarrow> largest
                      | Some v \<Rightarrow> Some (case largest of None \<Rightarrow> v | Some current \<Rightarrow> max current v)) ws)"

definition requested_context_lines :: "rstr \<Rightarrow> nat option" where
  "requested_context_lines command = context_loop None (split_shell_words command)"

text \<open>The product is an unchecked 64-bit one: it wraps in a release build.\<close>

definition search_limit :: "rstr \<Rightarrow> nat" where
  "search_limit command =
     (case requested_context_lines command of
        None \<Rightarrow> DEFAULT_SEARCH_SAMPLE_LINES
      | Some context \<Rightarrow> max DEFAULT_SEARCH_SAMPLE_LINES ((context + 1) mod 2 ^ 64 * 4 mod 2 ^ 64))"

definition search_shell_view :: "rstr \<Rightarrow> rstr \<Rightarrow> rstr \<Rightarrow> rstr" where
  "search_shell_view command out err =
     (let hits = filter (\<lambda>l. l \<noteq> []) (map trim_end (str_lines out));
          diagnostics = filter (\<lambda>l. l \<noteq> [] \<and> looks_critical_line l) (map trim_end (str_lines err));
          limit = search_limit command in
      lit ''search_summary:'' @ [NL] @ lit ''matches_seen: '' @ show_nat (length hits) @ [NL] @
      (if diagnostics \<noteq> [] then lit ''diagnostics:'' @ [NL] @ concat (map bullet (take 6 diagnostics)) else []) @
      (if hits \<noteq> [] then lit ''sample_matches:'' @ [NL] @ concat (map bullet (take limit hits)) @
         (if limit < length hits
          then lit ''... omitted '' @ show_nat (length hits - limit) @ lit '' matches; exact ref available ...'' @ [NL] else [])
       else []))"

text \<open>The shape of a value is the parameter \<open>K\<close>; \<open>None\<close> is the panic of \<open>compact_json\<close>.\<close>

fun abnormal_items :: "'j serde \<Rightarrow> 'j list \<Rightarrow> rstr option" where
  "abnormal_items J [] = Some []"
| "abnormal_items J (v # vs) =
     (if is_abnormal_json J v
      then (case compact_json J v of
              None \<Rightarrow> None | Some c \<Rightarrow> map_option (\<lambda>r. lit ''- abnormal: '' @ c @ [NL] @ r) (abnormal_items J vs))
      else abnormal_items J vs)"

definition json_summary :: "'j serde \<Rightarrow> ('j \<Rightarrow> value_shape) \<Rightarrow> 'j json_view \<Rightarrow> rstr option" where
  "json_summary J K v =
     map_option (\<lambda>r. lit ''json_summary:'' @ [NL] @ r)
       (case v of
          JObject members \<Rightarrow> Some (lit ''type: object'' @ [NL] @ lit ''keys: '' @ show_nat (length members) @ [NL] @
            concat (map (\<lambda>(k, x). lit ''- '' @ k @ lit '': '' @ json_kind (K x) @ [NL]) (take 20 members)))
        | JArray items \<Rightarrow> map_option (\<lambda>r. lit ''type: array'' @ [NL] @ lit ''items: '' @ show_nat (length items) @ [NL] @ r)
            (abnormal_items J (take 20 items))
        | JOther x \<Rightarrow> Some (lit ''type: '' @ json_kind (K x) @ [NL]))"

definition status_summary :: "rstr \<Rightarrow> rstr" where
  "status_summary combined =
     lit ''status_summary:'' @ [NL] @
     concat (map (\<lambda>l. l @ [NL])
       (filter (\<lambda>l. list_ex (\<lambda>n. str_contains (to_ascii_lowercase l) (lit n))
            [''error'', ''failed'', ''crash'', ''pending'', ''terminating'', ''unhealthy''] \<or> starts_with l (lit ''NAME''))
         (take 80 (str_lines combined))))"

definition structured_shell_view :: "'j serde \<Rightarrow> ('j \<Rightarrow> value_shape) \<Rightarrow> rstr \<Rightarrow> rstr \<Rightarrow> rstr \<Rightarrow> rstr option" where
  "structured_shell_view J K command out err =
     (let combined = out @ [NL] @ err in
      if is_repo_inventory_command command then Some (repo_inventory_view command out)
      else if is_search_shell_command command then Some (search_shell_view command out err)
      else case from_str J (trim out) of
        Some v \<Rightarrow> json_summary J K v
      | None \<Rightarrow>
          if looks_status_table combined \<and> 1 < length (str_lines (status_summary combined)) then Some (status_summary combined)
          else case requested_output_lines command of
            Some (tool, count) \<Rightarrow>
              let n = min count MAX_HONORED_HEAD_LINES in
              Some (if tool = lit ''tail'' then summarize_lines combined 0 n [] else summarize_lines combined n 0 [])
          | None \<Rightarrow> Some (summarize_lines combined 40 16 []))"

definition diagnostic_shell_view :: "'j serde \<Rightarrow> rstr option \<Rightarrow> rstr \<Rightarrow> rstr \<Rightarrow> nat \<Rightarrow> rstr" where
  "diagnostic_shell_view J active out err max_visible_tokens =
     (let combined = out @ [NL] @ err; critical = critical_lines combined 3 in
      enforce_token_budget J active (if trim critical = [] then summarize_lines combined 16 12 [] else critical) max_visible_tokens)"

definition stream_tail :: "rstr \<Rightarrow> rstr list" where
  "stream_tail stream = rev (take 12 (rev (filter (\<lambda>l. trim l \<noteq> []) (str_lines stream))))"

definition push_tail :: "rstr \<Rightarrow> rstr \<Rightarrow> rstr \<Rightarrow> rstr" where
  "push_tail label stream view =
     (if stream_tail stream = [] then view
      else (if view = [] then [] else view @ [NL]) @ label @ join [NL] (stream_tail stream) @ [NL])"

definition diagnostic_shell_view_with_tail :: "'j serde \<Rightarrow> rstr option \<Rightarrow> rstr \<Rightarrow> rstr \<Rightarrow> nat \<Rightarrow> rstr" where
  "diagnostic_shell_view_with_tail J active out err max_visible_tokens =
     (let view = push_tail (lit ''# final stderr:'' @ [NL]) err (push_tail (lit ''# final stdout:'' @ [NL]) out []);
          combined = out @ [NL] @ err; critical = critical_lines combined 3;
          view = (if list_ex (\<lambda>l. trim l \<noteq> [] \<and> \<not> list_ex (\<lambda>v. v = l) (str_lines view)) (str_lines critical)
                  then (if view = [] then [] else view @ [NL]) @ lit ''# critical diagnostics:'' @ [NL] @ trim_end critical else view);
          view = (if trim view = [] then summarize_lines combined 16 12 [] else view) in
      enforce_token_budget J active view max_visible_tokens)"

definition show_int :: "int \<Rightarrow> rstr" where
  "show_int k = (if k < 0 then lit ''-'' @ show_nat (nat (- k)) else show_nat (nat k))"

definition shell_stream_output :: "exit_code \<Rightarrow> rstr \<Rightarrow> rstr \<Rightarrow> rstr" where
  "shell_stream_output code out err =
     (let combined = (if err \<noteq> []
            then (if out \<noteq> [] \<and> \<not> ends_with out [NL] then out @ [NL] else out) @ lit ''stderr:'' @ [NL] @ err else out) in
      if combined = [] \<and> code \<noteq> Some 0
      then lit ''exit_code: '' @ (case code of None \<Rightarrow> lit ''null'' | Some k \<Rightarrow> show_int k) else combined)"

definition shell_combined_output :: "rstr \<Rightarrow> exit_code \<Rightarrow> rstr \<Rightarrow> rstr \<Rightarrow> rstr" where
  "shell_combined_output command code out err = shell_stream_output code out err"

definition shell_raw_accounting_output_with_payload :: "rstr \<Rightarrow> rstr \<Rightarrow> rstr" where
  "shell_raw_accounting_output_with_payload command payload =
     lit ''command: '' @ command @ (if payload = [] then [] else [NL] @ payload)"

definition shell_raw_accounting_output :: "rstr \<Rightarrow> exit_code \<Rightarrow> rstr \<Rightarrow> rstr \<Rightarrow> rstr" where
  "shell_raw_accounting_output command code out err =
     shell_raw_accounting_output_with_payload command (shell_stream_output code out err)"

section \<open>An attributed failure is a piece of the command\<close>

lemma find_mem: "find P xs = Some x \<Longrightarrow> x \<in> set xs"
  by (auto simp: find_Some_iff)

lemma evidence_loop_mem: "evidence_loop segments ls = Some s \<Longrightarrow> s \<in> set segments"
  by (induction ls) (auto split: option.splits dest: find_mem)

lemma evidence_named_mem: "evidence_named_segment segments out err = Some s \<Longrightarrow> s \<in> set segments"
  unfolding evidence_named_segment_def by (rule evidence_loop_mem)

lemma diagnostic_attributed_mem: "diagnostic_attributed_segment J segments out err = Some s \<Longrightarrow> s \<in> set segments"
  by (auto simp: diagnostic_attributed_segment_def Let_def split: option.splits dest: find_mem)

lemma empty_pipeline_mem: "empty_pipeline_search_failure_segment cmd out err code = Some s \<Longrightarrow> s \<in> set (split_shell_segments cmd)"
  by (auto simp: empty_pipeline_search_failure_segment_def Let_def split: if_splits dest: find_mem)

lemma nonempty_iff: "nonempty s = Some t \<longleftrightarrow> s = t \<and> t \<noteq> []"
  by (auto simp: nonempty_def)

lemma masked_or_clean: "masked_or_failure_segment cmd out err code = Some s \<Longrightarrow> clean_piece s"
  by (auto simp: masked_or_failure_segment_def Let_def clean_trim split: if_splits option.splits
      dest!: evidence_named_mem split_shell_segments_clean)

lemma masked_pipeline_clean: "masked_pipeline_failure_segment cmd out err code = Some s \<Longrightarrow> clean_piece s"
  by (auto simp: masked_pipeline_failure_segment_def Let_def split: if_splits option.splits
      dest!: evidence_named_mem find_mem split_shell_segments_clean)

lemma last_segments_mem: "segments \<noteq> [] \<Longrightarrow> nonempty (last segments) = Some s \<Longrightarrow> s \<in> set segments"
  by (auto simp: nonempty_iff)

lemma failed_segment_cases:
  assumes "failed_segment J cmd out err code = Some s"
  obtains "looks_env_invocation_failure cmd out err code" "s = trim cmd" "s \<noteq> []"
  | "masked_or_failure_segment cmd out err code = Some s"
  | "masked_pipeline_failure_segment cmd out err code = Some s"
  | "s \<in> set (split_shell_segments cmd)" "code = Some 0 \<longrightarrow> can_mask_upstream_status cmd"
  using assms
  by (auto simp: failed_segment_def Let_def nonempty_iff split: if_splits option.splits
      dest: find_mem evidence_named_mem diagnostic_attributed_mem empty_pipeline_mem last_segments_mem)

lemma masked_or_needs: "masked_or_failure_segment cmd out err code = Some s \<Longrightarrow> has_feature ''or-list'' (shell_operator_features cmd)"
  unfolding or_list_feature [symmetric] by (auto simp: masked_or_failure_segment_def split: if_splits option.splits)

lemma masked_pipeline_needs:
  "masked_pipeline_failure_segment cmd out err code = Some s \<Longrightarrow> has_feature ''pipeline'' (shell_operator_features cmd)"
  by (auto simp: masked_pipeline_failure_segment_def split: if_splits)

lemma first_some_Some: "x \<in> set xs \<Longrightarrow> x \<noteq> None \<Longrightarrow> first_some xs \<noteq> None"
  by (induction xs) (auto split: option.splits)

lemma env_failure_nonempty: "looks_env_invocation_failure cmd out err code \<Longrightarrow> trim cmd \<noteq> []"
proof (rule notI)
  assume env: "looks_env_invocation_failure cmd out err code" and blank: "trim cmd = []"
  then have "list_all is_whitespace cmd"
    by (simp add: trim_blank)
  then have "shell_words_loop [] [] None cmd = []"
  proof (induction cmd)
    case (Cons c s)
    then show ?case
      by (auto simp: is_whitespace_def)
  qed simp
  then show False
    using env by (simp add: looks_env_invocation_failure_def split_shell_words_def split: if_splits)
qed

section \<open>Properties\<close>

text \<open>C38: an attributed failure never contradicts the exit code. A failed segment is a nonblank, trimmed piece; with exit code zero one is only named
  when the command holds a pipeline, a sequence or an or-list that can hide the status of an earlier part, and one is never
  named for an expected failure.
\<close>

theorem failure_never_contradicts_exit:
  assumes "failed_segment J cmd out err code = Some s"
  shows "s \<noteq> [] \<and> trim s = s \<and> (code = Some 0 \<longrightarrow> can_mask_upstream_status cmd) \<and>
     \<not> is_search_no_match cmd out err code \<and> \<not> is_expected_false_exit cmd out err code"
proof -
  have "clean_piece s \<and> (code = Some 0 \<longrightarrow> can_mask_upstream_status cmd)"
    using assms
  proof (cases rule: failed_segment_cases)
    case 1
    then show ?thesis
      by (auto simp: clean_piece_def looks_env_invocation_failure_def)
  next
    case 2
    then show ?thesis
      using masked_or_clean masked_or_needs can_mask_iff by blast
  next
    case 3
    then show ?thesis
      using masked_pipeline_clean masked_pipeline_needs can_mask_iff by blast
  next
    case 4
    then show ?thesis
      using split_shell_segments_clean by blast
  qed
  then show ?thesis
    using assms by (auto simp: clean_piece_def failed_segment_def)
qed

text \<open>
  Every failure is attributed. A command with at least one segment that ends with a nonzero exit code, for which this is not the expected
  answer of a search or a predicate, always names a failed segment.
\<close>

theorem failure_always_attributed:
  assumes "is_nonzero code" and "split_shell_segments cmd \<noteq> []"
    and "\<not> is_search_no_match cmd out err code" and "\<not> is_expected_false_exit cmd out err code"
  shows "\<exists>s. failed_segment J cmd out err code = Some s"
proof -
  have "last (split_shell_segments cmd) \<noteq> []"
    using split_shell_segments_clean last_in_set [OF assms(2)] by (auto simp: clean_piece_def)
  then have last: "nonempty (last (split_shell_segments cmd)) \<noteq> None"
    by (simp add: nonempty_def)
  have "code \<noteq> Some 0"
    using assms(1) by (auto simp: is_nonzero_def)
  then have "failed_segment J cmd out err code \<noteq> None"
    using assms last env_failure_nonempty [of cmd out err code]
    by (auto simp: failed_segment_def Let_def nonempty_def split: option.splits if_splits)
  then show ?thesis
    by blast
qed

text \<open>
  The status of a command agrees with its exit code. It is a success exactly when the command did not time out and ended with zero or with an
  expected one; the label \<open>pipeline_masked\<close> is exactly a zero exit with a failed segment, and a success without that label names no failed
  segment.
\<close>

theorem status_agrees_with_exit:
  "command_success (classify_command_status w J cmd out err code timed_out) =
     (\<not> timed_out \<and> (code = Some 0 \<or> is_search_no_match cmd out err code \<or> is_expected_false_exit cmd out err code)) \<and>
   (status_label (classify_command_status w J cmd out err code timed_out) = lit ''pipeline_masked'') =
     (\<not> timed_out \<and> code = Some 0 \<and> failed_segment J cmd out err code \<noteq> None) \<and>
   (status_label (classify_command_status w J cmd out err code timed_out) = lit ''command_success'') =
     (command_success (classify_command_status w J cmd out err code timed_out) \<and>
      cs_failed_segment (classify_command_status w J cmd out err code timed_out) = None)"
  by (auto simp: classify_command_status_def Let_def command_succeeded_def command_status_label_def failed_segment_def)

text \<open>
  The suggested rerun runs the analysed command. The line that is proposed splits into \<open>bash\<close>, its options and one argument, the
  analysed command itself, whatever quotes it holds.
\<close>

theorem rerun_command_exact:
  assumes "pipeline_rerun_command w cmd warning = Some r"
  shows "split_command_string_for_platform r (lit ''posix'') =
     [lit ''bash'', lit ''-o'', lit ''pipefail'', lit ''-c'', trim (shell_analysis_command cmd)]"
proof -
  let ?args = "[lit ''bash'', lit ''-o'', lit ''pipefail'', lit ''-c'', trim (shell_analysis_command cmd)]"
  have words: "shell_display_arg (lit x) (lit ''posix'') = lit x" if "x \<in> {''bash'', ''-o'', ''pipefail'', ''-c''}" for x
    using that by (auto simp: shell_display_arg_def is_tag_def is_unquoted_safe_def lit_def is_ascii_alphanumeric_def is_ascii_digit_def)
  have head: "lit ''bash -o pipefail -c '' = lit ''bash'' @ [32] @ lit ''-o'' @ [32] @ lit ''pipefail'' @ [32] @ lit ''-c'' @ [32]"
    by (simp add: lit_def)
  have "r = join [32] (map (\<lambda>x. shell_display_arg x (lit ''posix'')) ?args)"
    using assms words by (auto simp: pipeline_rerun_command_def Let_def head split: if_splits)
  then show ?thesis
    by (simp only: split_for_platform posix_display.split_join list.map_ident)
qed

text \<open>
  A listing loses no entry. Every line of an inventory that is not blank and not a rule is counted exactly once, as a directory, a file
  or another entry.
\<close>

theorem inventory_counts_every_entry:
  "inv_files (inventory_stats output n is_file) + inv_dirs (inventory_stats output n is_file) + inv_other (inventory_stats output n is_file) =
   length (filter (\<lambda>l. l \<noteq> [] \<and> \<not> starts_with l (lit ''==='') \<and> \<not> starts_with l (lit ''---'')) (map trim (str_lines output)))"
proof -
  have "inv_files (fold (inventory_line n is_file) ls st) + inv_dirs (fold (inventory_line n is_file) ls st) +
      inv_other (fold (inventory_line n is_file) ls st) = inv_files st + inv_dirs st + inv_other st +
      length (filter (\<lambda>l. l \<noteq> [] \<and> \<not> starts_with l (lit ''==='') \<and> \<not> starts_with l (lit ''---'')) ls)" for ls st
  proof (induction ls arbitrary: st)
    case (Cons l ls)
    have "inv_files (inventory_line n is_file l st) + inv_dirs (inventory_line n is_file l st) + inv_other (inventory_line n is_file l st) =
        inv_files st + inv_dirs st + inv_other st + (if l \<noteq> [] \<and> \<not> starts_with l (lit ''==='') \<and> \<not> starts_with l (lit ''---'') then 1 else 0)"
      by (auto simp: inventory_line_def Let_def split: option.split)
    then show ?case
      using Cons.IH [of "inventory_line n is_file l st"] by auto
  qed simp
  then show ?thesis
    by (simp add: inventory_stats_def)
qed

text \<open>
  Unwrapping a shell forgets what follows it. The analysis of a line that starts a shell with a command keeps that command and drops every later word, operators
  included: a failing second command is not a segment, and a line that also prints a file counts as a pure listing.
\<close>

theorem wrapper_hides_later_segments:
  "split_shell_segments (lit ''bash -c make && false'') = [lit ''make''] \<and>
   failed_segment no_json (lit ''bash -c make && false'') [] [] (Some 1) = Some (lit ''make'') \<and>
   is_repo_inventory_command (lit ''sh -c ls ; cat report.json'')"
  by code_simp

text \<open>
  A program is not recognised as missing when its name contains a noise word such as \<open>no\<close>, \<open>or\<close> or \<open>sh\<close>.
\<close>

theorem missing_program_overlooked:
  "not_found_actors (lit ''sh: cargo: not found'') = [lit ''cargo''] \<and> not_found_actors (lit ''sh: node: not found'') = []"
  by code_simp

text \<open>
  A context request near the largest count wraps around: the sample falls back to the default length.
\<close>

theorem context_request_wraps:
  "search_limit (lit ''grep -A 18446744073709551615 x f'') = 80 \<and> search_limit (lit ''grep -A 100 x f'') = 404"
  by code_simp

section \<open>Examples\<close>

theorem failure_never_contradicts_exit_witness:
  "failed_segment no_json (lit ''false ; ls'') [] [] (Some 0) = Some (lit ''false'') \<and> can_mask_upstream_status (lit ''false ; ls'')"
proof -
  have "failed_segment no_json (lit ''false ; ls'') [] [] (Some 0) = Some (lit ''false'')"
    by code_simp
  then show ?thesis
    using failure_never_contradicts_exit by blast
qed

theorem failure_always_attributed_witness: "\<exists>s. failed_segment no_json (lit ''make'') [] [] (Some 2) = Some s"
  by (rule failure_always_attributed) code_simp+

theorem rerun_command_exact_witness:
  "split_command_string_for_platform (the (pipeline_rerun_command False (lit ''make | tail'') (Some MASKING_WARNING))) (lit ''posix'') =
     [lit ''bash'', lit ''-o'', lit ''pipefail'', lit ''-c'', trim (shell_analysis_command (lit ''make | tail''))]"
proof -
  have "pipeline_rerun_command False (lit ''make | tail'') (Some MASKING_WARNING) = Some (the (pipeline_rerun_command False (lit ''make | tail'') (Some MASKING_WARNING)))"
    by code_simp
  then show ?thesis
    by (rule rerun_command_exact)
qed

end
