(* ===== verification/ShellRender.thy ===== *)
theory ShellRender
  imports ShellPolicy OrdMap
begin

text \<open>
  Rendering of a finished command: the compaction of successful toolchain output (\<open>core/render/noise.rs\<close>) and the choice and
  assembly of the visible text (\<open>render_shell\<close> and its helpers in \<open>core/lib.rs\<close>). The active tokenizer, JSON with the shape of its
  values, and whether the host is Windows are arguments; \<open>None\<close> is the panic of \<open>compact_json\<close> inside the structured view. The theorems say
  that compaction keeps critical lines, and in which sense the visible text respects its budget.
\<close>

section \<open>Lines of known tools\<close>

definition starts_with_blank :: "rstr \<Rightarrow> bool" where
  "starts_with_blank line \<longleftrightarrow> starts_with line [32] \<or> starts_with line [9]"

definition is_num :: "rstr \<Rightarrow> bool" where
  "is_num n \<longleftrightarrow> n \<noteq> [] \<and> list_all is_ascii_digit n"

definition is_critical_continuation_line :: "rstr \<Rightarrow> bool" where
  "is_critical_continuation_line line \<longleftrightarrow>
     starts_with_blank line \<or>
     (let t = trim_start line in
      starts_with_any t (lit ''-->|^|=|note:|help:'') \<or>
      (case split_once 32 t of None \<Rightarrow> False | Some (n, r) \<Rightarrow> is_num n \<and> starts_with (trim_start r) (lit ''|'')))"

definition CARGO_TEST_OK_SUFFIXES :: rstr where "CARGO_TEST_OK_SUFFIXES = lit ''... ok|... ignored''"

definition is_cargo_test_ok_line :: "rstr \<Rightarrow> bool" where
  "is_cargo_test_ok_line t \<longleftrightarrow>
     starts_with t (lit ''test '') \<and> ends_with_any t CARGO_TEST_OK_SUFFIXES \<and> \<not> str_contains t (lit ''FAILED'')"

definition is_pytest_pass_marker :: "rstr \<Rightarrow> bool" where
  "is_pytest_pass_marker t \<longleftrightarrow>
     str_contains t (lit ''::'') \<and> ends_with_any t (lit ''PASSED|XPASS|SKIPPED'') \<and> \<not> contains_any t (lit ''FAILED|ERROR'')"

definition is_pytest_summary_line :: "rstr \<Rightarrow> bool" where
  "is_pytest_summary_line t \<longleftrightarrow>
     starts_with t (lit ''=='') \<and> ends_with t (lit ''=='') \<and> contains_any t (lit '' passed| skipped'') \<and>
     \<not> contains_any t (lit '' failed| error'')"

definition PYTEST_NOISE_PREFIXES :: rstr where
  "PYTEST_NOISE_PREFIXES = lit ''platform |rootdir:|configfile:|cachedir:|plugins:|collected |collecting ''"

definition is_dot :: "uchar \<Rightarrow> bool" where
  "is_dot c \<longleftrightarrow> list_ex (\<lambda>d. c = d) [46, 115, 120, 88]"

definition is_pytest_noise_line :: "rstr \<Rightarrow> bool" where
  "is_pytest_noise_line t \<longleftrightarrow>
     starts_with_any t PYTEST_NOISE_PREFIXES \<or> (t \<noteq> [] \<and> list_all is_dot t) \<or>
     (starts_with t (lit ''=='') \<and> ends_with t (lit ''=='') \<and> str_contains t (lit ''session starts'')) \<or>
     (str_contains t (lit ''::'') \<and> (ends_with_any t (lit ''PASSED|SKIPPED'') \<or> str_contains t (lit '' PASSED ''))) \<or>
     ends_with_any t (lit ''XPASS|SKIPPED'') \<or>
     (case strip_suffix (lit '']'') t of None \<Rightarrow> False
      | Some s \<Rightarrow> let b = trim_end_matches (\<lambda>c. is_ascii_digit c \<or> c = 37 \<or> c = 91) s in b \<noteq> [] \<and> list_all is_dot (trim b))"

definition NPM_SUMMARY_PREFIXES :: rstr where
  "NPM_SUMMARY_PREFIXES = lit ''added |removed |changed |audited |found 0 vulnerabilities|up to date''"

definition is_npm_summary_line :: "rstr \<Rightarrow> bool" where
  "is_npm_summary_line t \<longleftrightarrow> starts_with_any t NPM_SUMMARY_PREFIXES"

definition NPM_NOISE_PREFIXES :: rstr where
  "NPM_NOISE_PREFIXES = lit ''npm http|npm timing|npm verb|npm sill|npm info|run `npm fund`|run '' @ [DQ] @ lit ''npm fund'' @ [DQ]"

definition is_npm_noise_line :: "rstr \<Rightarrow> bool" where
  "is_npm_noise_line t \<longleftrightarrow> starts_with_any t NPM_NOISE_PREFIXES \<or> str_contains t (lit ''packages are looking for funding'')"

definition GIT_PROGRESS_PREFIXES :: rstr where
  "GIT_PROGRESS_PREFIXES = lit ''remote: Enumerating objects|remote: Counting objects|remote: Compressing objects|remote: Total|Receiving objects|Resolving deltas|Counting objects|Compressing objects|Writing objects|Unpacking objects''"

definition git_progress_prefix :: "rstr \<Rightarrow> rstr option" where
  "git_progress_prefix t = find (starts_with t) (pipe_split GIT_PROGRESS_PREFIXES)"

section \<open>Families and the tally\<close>

datatype SuccessFamily = CargoFamily | PytestFamily | NpmInstall | GitTransfer

definition segment_family :: "rstr \<Rightarrow> SuccessFamily option" where
  "segment_family segment =
     (let ws = split_shell_words segment; first = first_name ws in
      if is_tag first [''cargo'', ''rustc'', ''rustup''] then Some CargoFamily
      else if first = lit ''pytest'' then Some PytestFamily
      else if is_tag first [''python'', ''python3''] then (if str_contains segment (lit ''-m pytest'') then Some PytestFamily else None)
      else if is_tag first [''npm'', ''pnpm'', ''yarn''] then
        (if is_tag (case word_at ws 1 of None \<Rightarrow> [] | Some w \<Rightarrow> w)
           [''install'', ''ci'', ''i'', ''add'', ''update'', ''upgrade'', ''audit'', ''dedupe''] then Some NpmInstall else None)
      else if first = lit ''git'' then
        (if is_tag (case git_subcommand_index ws of None \<Rightarrow> [] | Some i \<Rightarrow> (case word_at ws i of None \<Rightarrow> [] | Some w \<Rightarrow> w))
           [''clone'', ''fetch'', ''pull'', ''push'', ''gc'', ''submodule''] then Some GitTransfer else None)
      else None)"

definition add_family :: "rstr \<Rightarrow> SuccessFamily list \<Rightarrow> SuccessFamily list" where
  "add_family segment fs =
     (case segment_family segment of None \<Rightarrow> fs | Some f \<Rightarrow> if f \<in> set fs then fs else fs @ [f])"

definition success_noise_families :: "rstr \<Rightarrow> SuccessFamily list" where
  "success_noise_families command = fold add_family (split_shell_segments command) []"

record NoiseTally =
  nt_compiled :: nat
  nt_fresh :: nat
  nt_downloaded :: nat
  nt_bookkeeping :: nat
  nt_tests_ok :: nat
  nt_pytest_passed :: nat
  nt_git_progress :: nat
  nt_finished_in :: "rstr option"
  nt_summary_lines :: "rstr list"
  nt_last_progress :: "(rstr \<times> rstr) list"

definition empty_tally :: NoiseTally where
  "empty_tally = \<lparr>nt_compiled = 0, nt_fresh = 0, nt_downloaded = 0, nt_bookkeeping = 0, nt_tests_ok = 0, nt_pytest_passed = 0,
     nt_git_progress = 0, nt_finished_in = None, nt_summary_lines = [], nt_last_progress = []\<rparr>"

definition collapsed :: "NoiseTally \<Rightarrow> nat" where
  "collapsed t = nt_compiled t + nt_fresh t + nt_downloaded t + nt_bookkeeping t + nt_tests_ok t + nt_pytest_passed t + nt_git_progress t"

fun tool_label :: "SuccessFamily \<Rightarrow> rstr" where
  "tool_label CargoFamily = lit ''cargo''"
| "tool_label PytestFamily = lit ''pytest''"
| "tool_label NpmInstall = lit ''npm''"
| "tool_label GitTransfer = lit ''git''"

text \<open>\<open>None\<close> where the source returns false and leaves the tally alone.\<close>

definition absorb_pass :: "NoiseTally \<Rightarrow> rstr \<Rightarrow> SuccessFamily \<Rightarrow> NoiseTally option" where
  "absorb_pass t line f =
     (if f = CargoFamily \<and> is_cargo_test_ok_line line then Some (t\<lparr>nt_tests_ok := nt_tests_ok t + 1\<rparr>)
      else if f = PytestFamily \<and> is_pytest_pass_marker line then Some (t\<lparr>nt_pytest_passed := nt_pytest_passed t + 1\<rparr>)
      else None)"

text \<open>\<open>str::rsplit_once\<close> of a string and \<open>str::trim_matches\<close> of a class of characters.\<close>

fun rsplit_once_str :: "rstr \<Rightarrow> rstr \<Rightarrow> (rstr \<times> rstr) option" where
  "rsplit_once_str n [] = None"
| "rsplit_once_str n (c # h) =
     (case rsplit_once_str n h of
        Some (a, b) \<Rightarrow> Some (c # a, b)
      | None \<Rightarrow> map_option (\<lambda>b. ([], b)) (strip_prefix n (c # h)))"

definition trim_matches :: "(uchar \<Rightarrow> bool) \<Rightarrow> rstr \<Rightarrow> rstr" where
  "trim_matches p s = trim_end_matches p (dropWhile p s)"

definition absorb_cargo :: "NoiseTally \<Rightarrow> rstr \<Rightarrow> rstr \<Rightarrow> NoiseTally option" where
  "absorb_cargo t line raw =
     (case strip_prefix (lit ''Finished '') line of
        Some rest \<Rightarrow> Some (t\<lparr>nt_finished_in := map_option snd (rsplit_once_str (lit '' in '') rest)\<rparr>)
      | None \<Rightarrow>
          if starts_with_any line (lit ''Compiling |Checking |Documenting '') then Some (t\<lparr>nt_compiled := nt_compiled t + 1\<rparr>)
          else if starts_with line (lit ''Fresh '') then Some (t\<lparr>nt_fresh := nt_fresh t + 1\<rparr>)
          else if starts_with_any line (lit ''Downloaded |Downloading '') then Some (t\<lparr>nt_downloaded := nt_downloaded t + 1\<rparr>)
          else if starts_with_any line (lit ''Updating |Locking |Adding |Removing |Installing |Blocking |Building |Running |Doc-tests '') \<or>
            starts_with line (lit ''running '') \<and> ends_with line (lit ''tests'') \<or> line = lit ''running 1 test''
          then Some (t\<lparr>nt_bookkeeping := nt_bookkeeping t + 1\<rparr>)
          else if starts_with line (lit ''test result:'') then Some (t\<lparr>nt_summary_lines := nt_summary_lines t @ [raw]\<rparr>)
          else None)"

definition absorb_pytest :: "NoiseTally \<Rightarrow> rstr \<Rightarrow> NoiseTally option" where
  "absorb_pytest t line =
     (if is_pytest_summary_line line
      then Some (t\<lparr>nt_summary_lines := nt_summary_lines t @ [trim_matches (\<lambda>c. c = 61 \<or> c = 32) line]\<rparr>)
      else if is_pytest_noise_line line
      then (if ends_with line (lit ''PASSED'') \<or> str_contains line (lit '' PASSED '') \<or> str_contains line (lit ''::'')
            then Some (t\<lparr>nt_pytest_passed := nt_pytest_passed t + 1\<rparr>)
            else Some (t\<lparr>nt_bookkeeping := nt_bookkeeping t + 1\<rparr>))
      else None)"

fun absorb :: "NoiseTally \<Rightarrow> rstr \<Rightarrow> rstr \<Rightarrow> SuccessFamily \<Rightarrow> NoiseTally option" where
  "absorb t line raw CargoFamily = absorb_cargo t line raw"
| "absorb t line raw PytestFamily = absorb_pytest t line"
| "absorb t line raw NpmInstall =
     (if is_npm_summary_line line then Some (t\<lparr>nt_summary_lines := nt_summary_lines t @ [line]\<rparr>)
      else if is_npm_noise_line line then Some (t\<lparr>nt_bookkeeping := nt_bookkeeping t + 1\<rparr>)
      else None)"
| "absorb t line raw GitTransfer =
     (case git_progress_prefix line of
        None \<Rightarrow> None
      | Some p \<Rightarrow> Some (t\<lparr>nt_git_progress := nt_git_progress t + 1, nt_last_progress := bt_insert p raw (nt_last_progress t)\<rparr>))"

section \<open>The success view\<close>

record noise_state =
  ns_tally :: NoiseTally
  ns_kept :: "rstr list"
  ns_other :: nat
  ns_kept_other :: nat
  ns_critical :: bool

definition visible_line :: "rstr \<Rightarrow> rstr" where
  "visible_line raw = last (split_on (\<lambda>c. c = 13) raw)"

definition noise_step :: "SuccessFamily list \<Rightarrow> rstr \<Rightarrow> noise_state \<Rightarrow> noise_state" where
  "noise_step fs raw st =
     (let line = visible_line raw; trimmed = trim line in
      if trimmed = [] then st\<lparr>ns_critical := False\<rparr>
      else case first_some (map (absorb_pass (ns_tally st) trimmed) fs) of
        Some t \<Rightarrow> st\<lparr>ns_tally := t, ns_critical := False\<rparr>
      | None \<Rightarrow>
          if looks_critical_line line then st\<lparr>ns_critical := True, ns_kept := ns_kept st @ [line]\<rparr>
          else case first_some (map (absorb (ns_tally st) trimmed line) fs) of
            Some t \<Rightarrow> st\<lparr>ns_tally := t, ns_critical := False\<rparr>
          | None \<Rightarrow>
              if ns_critical st \<and> is_critical_continuation_line line then st\<lparr>ns_kept := ns_kept st @ [line]\<rparr>
              else let st = st\<lparr>ns_critical := False, ns_other := ns_other st + 1\<rparr> in
                if ns_kept_other st < 24 then st\<lparr>ns_kept := ns_kept st @ [line], ns_kept_other := ns_kept_other st + 1\<rparr> else st)"

definition noise_start :: noise_state where
  "noise_start = \<lparr>ns_tally = empty_tally, ns_kept = [], ns_other = 0, ns_kept_other = 0, ns_critical = False\<rparr>"

definition noise_run :: "SuccessFamily list \<Rightarrow> rstr \<Rightarrow> rstr \<Rightarrow> noise_state" where
  "noise_run fs out err = fold (noise_step fs) (str_lines out @ str_lines err) noise_start"

definition noise_header :: "SuccessFamily list \<Rightarrow> NoiseTally \<Rightarrow> rstr" where
  "noise_header fs t =
     (let parts = map (\<lambda>(n, label). show_nat n @ [32] @ lit label)
            (filter (\<lambda>(n, label). 0 < n)
              [(nt_compiled t, ''compiled''), (nt_fresh t, ''fresh''), (nt_downloaded t, ''downloaded''), (nt_tests_ok t, ''tests ok''),
               (nt_pytest_passed t, ''passed''), (nt_git_progress t, ''progress lines''), (nt_bookkeeping t, ''bookkeeping'')]) in
      (case peek fs of None \<Rightarrow> lit ''tool'' | Some f \<Rightarrow> tool_label f) @ lit '' ok'' @
      (case nt_finished_in t of None \<Rightarrow> [] | Some time \<Rightarrow> lit '' in '' @ time) @
      (if parts = [] then [] else lit '': '' @ join (lit '', '') parts) @ lit '' [collapsed]'')"

definition success_noise_view :: "rstr \<Rightarrow> rstr \<Rightarrow> rstr \<Rightarrow> rstr option" where
  "success_noise_view command out err =
     (let fs = success_noise_families command in
      if fs = [] then None
      else let st = noise_run fs out err; t = ns_tally st in
        if collapsed t = 0 \<and> nt_summary_lines t = [] \<and> nt_finished_in t = None then None
        else Some (noise_header fs t @
          concat (map (\<lambda>l. [NL] @ l) (nt_summary_lines t @ map snd (nt_last_progress t) @ ns_kept st)) @
          (if ns_kept_other st < ns_other st
           then [NL] @ lit ''... +'' @ show_nat (ns_other st - ns_kept_other st) @ lit '' more lines; exact ref available ...'' else [])))"

section \<open>Inputs and predicates\<close>

record ShellRenderInput =
  in_command :: rstr
  in_stdout :: rstr
  in_stderr :: rstr
  in_exit_code :: exit_code
  in_timed_out :: bool
  in_mode :: Mode
  in_max_visible_tokens :: nat
  in_stdout_ref :: "rstr option"
  in_stderr_ref :: "rstr option"
  in_combined_ref :: "rstr option"

record ShellRender =
  sr_visible :: rstr
  sr_policy :: PolicyDecision
  sr_command_status :: CommandStatus
  sr_omitted_lines :: nat
  sr_output_strategy :: rstr

record 'j render_env =
  re_windows :: bool
  re_json :: "'j serde"
  re_shape :: "'j \<Rightarrow> value_shape"
  re_active :: "rstr option"

definition shell_input_status :: "'j render_env \<Rightarrow> ShellRenderInput \<Rightarrow> CommandStatus" where
  "shell_input_status E i =
     classify_command_status (re_windows E) (re_json E) (in_command i) (in_stdout i) (in_stderr i) (in_exit_code i) (in_timed_out i)"

definition safe_auto_success :: "ShellRenderInput \<Rightarrow> CommandStatus \<Rightarrow> bool" where
  "safe_auto_success i s \<longleftrightarrow>
     effective_policy (in_mode i) = Auto \<and> command_success s \<and> \<not> in_timed_out i \<and> cs_failed_segment s = None \<and>
     pipeline_masking_warning s = None"

definition should_compact_tiny_shell :: "rstr option \<Rightarrow> ShellRenderInput \<Rightarrow> PolicyDecision \<Rightarrow> CommandStatus \<Rightarrow> bool" where
  "should_compact_tiny_shell active i p s \<longleftrightarrow>
     safe_auto_success i s \<and> in_exit_code i = Some 0 \<and> pd_policy p = lit ''passthrough'' \<and> trim (in_stderr i) = [] \<and>
     blen (in_stdout i) \<le> 512 \<and> length (str_lines (in_stdout i)) \<le> 8 \<and> count_tokens active (in_stdout i) \<le> 48"

definition compact_shell_view :: "rstr \<Rightarrow> rstr" where
  "compact_shell_view out = (if trim_end out = [] then lit ''ok'' else trim_end out)"

definition should_compact_repo_inventory_shell :: "rstr option \<Rightarrow> ShellRenderInput \<Rightarrow> PolicyDecision \<Rightarrow> CommandStatus \<Rightarrow> bool" where
  "should_compact_repo_inventory_shell active i p s \<longleftrightarrow>
     safe_auto_success i s \<and> in_exit_code i = Some 0 \<and> pd_policy p = lit ''structured'' \<and> is_repo_inventory_command (in_command i) \<and>
     trim (in_stderr i) = [] \<and> in_combined_ref i \<noteq> None \<and> count_tokens active (in_stdout i) \<le> 160 \<and>
     length (str_lines (in_stdout i)) \<le> 40"

definition looks_like_inventory_file_path :: "rstr \<Rightarrow> bool" where
  "looks_like_inventory_file_path path \<longleftrightarrow>
     47 \<in> set path \<or> BSL \<in> set path \<or> 46 \<in> set (last (split_on (\<lambda>c. c = 47 \<or> c = BSL) path))"

definition compact_inventory_path :: "rstr \<Rightarrow> rstr" where
  "compact_inventory_path path =
     (let trimmed = trim path in
      if trimmed = [] then []
      else let normalized = replace_char BSL [47] trimmed; parts = filter (\<lambda>p. p \<noteq> []) (split_on (\<lambda>c. c = 47) normalized) in
        if length parts \<le> 2 then normalized else join [47] (drop (length parts - 2) parts))"

definition compact_repo_inventory_view :: "rstr \<Rightarrow> rstr \<Rightarrow> rstr" where
  "compact_repo_inventory_view command output =
     (let st = inventory_stats output 3 looks_like_inventory_file_path in
      lit ''repo_inventory'' @ [NL] @ lit ''files_seen: '' @ show_nat (inv_files st) @ [NL] @
      (if 0 < inv_dirs st then lit ''dirs_seen: '' @ show_nat (inv_dirs st) @ [NL] else []) @
      (if 0 < inv_other st then lit ''other_entries_seen: '' @ show_nat (inv_other st) @ [NL] else []) @
      (if inv_paths st \<noteq> [] then lit ''sample_paths:'' @ [NL] @ concat (map (\<lambda>f. bullet (compact_inventory_path f)) (inv_paths st))
       else if trim command \<noteq> [] then lit ''sample_paths: none'' @ [NL] else []))"

definition compact_repo_inventory_shell_capsule :: "ShellRenderInput \<Rightarrow> rstr \<Rightarrow> rstr" where
  "compact_repo_inventory_shell_capsule i body =
     trim_end body @ (case in_combined_ref i of None \<Rightarrow> [] | Some r \<Rightarrow> [NL] @ lit ''combined_ref: '' @ r)"

definition SHELL_SUCCESS_SUMMARY_TOKENS :: nat where "SHELL_SUCCESS_SUMMARY_TOKENS = 200"

definition shell_success_summary_budget :: "nat \<Rightarrow> nat" where
  "shell_success_summary_budget max_tokens =
     (if max_tokens = 0 then SHELL_SUCCESS_SUMMARY_TOKENS else min SHELL_SUCCESS_SUMMARY_TOKENS max_tokens)"

definition should_compact_success_noise :: "ShellRenderInput \<Rightarrow> CommandStatus \<Rightarrow> bool" where
  "should_compact_success_noise i s \<longleftrightarrow> safe_auto_success i s \<and> in_combined_ref i \<noteq> None"

definition should_compact_short_failure_shell :: "rstr option \<Rightarrow> ShellRenderInput \<Rightarrow> PolicyDecision \<Rightarrow> CommandStatus \<Rightarrow> rstr \<Rightarrow> bool" where
  "should_compact_short_failure_shell active i p s combined \<longleftrightarrow>
     effective_policy (in_mode i) = Auto \<and> pd_policy p = lit ''diagnostic'' \<and> \<not> command_success s \<and> in_exit_code i \<noteq> None \<and>
     \<not> in_timed_out i \<and> in_combined_ref i \<noteq> None \<and> (trim (in_stdout i) \<noteq> [] \<or> trim (in_stderr i) \<noteq> []) \<and>
     \<not> has_visible_secret_marker combined \<and> \<not> has_protected_failure_context combined \<and> count_tokens active combined \<le> 160 \<and>
     length (str_lines combined) \<le> 20 \<and> (looks_diagnostic combined \<or> cs_failed_segment s \<noteq> None)"

definition is_shell_diagnostic_boilerplate :: "rstr \<Rightarrow> bool" where
  "is_shell_diagnostic_boilerplate line \<longleftrightarrow>
     starts_with_any (trim_start line) (lit ''+ CategoryInfo|+ FullyQualifiedErrorId|At line:|+ ~|~~~~'')"

definition looks_failure_anchor_line :: "rstr \<Rightarrow> bool" where
  "looks_failure_anchor_line line \<longleftrightarrow>
     contains_any (to_ascii_lowercase line) (lit ''error|failure|failed|panic|traceback|exception|assertion|not ok'')"

fun diagnostic_line_loop :: "rstr option \<Rightarrow> rstr option \<Rightarrow> rstr list \<Rightarrow> rstr" where
  "diagnostic_line_loop critical fallback [] =
     (case critical of Some l \<Rightarrow> l
      | None \<Rightarrow> (case fallback of Some l \<Rightarrow> l | None \<Rightarrow> lit ''diagnostic output omitted; see combined_ref''))"
| "diagnostic_line_loop critical fallback (raw # ls) =
     (let line = trim raw in
      if line = [] \<or> is_shell_diagnostic_boilerplate line then diagnostic_line_loop critical fallback ls
      else if looks_failure_anchor_line line then line
      else if looks_critical_line line
      then diagnostic_line_loop (case critical of None \<Rightarrow> Some line | Some l \<Rightarrow> Some l) fallback ls
      else diagnostic_line_loop critical (case fallback of None \<Rightarrow> Some line | Some l \<Rightarrow> Some l) ls)"

definition compact_diagnostic_shell_view :: "rstr \<Rightarrow> rstr \<Rightarrow> rstr" where
  "compact_diagnostic_shell_view out err = diagnostic_line_loop None None (str_lines out @ str_lines err)"

section \<open>Assembly\<close>

definition push_shell_kv :: "rstr \<Rightarrow> rstr \<Rightarrow> rstr" where
  "push_shell_kv k v = k @ lit '': '' @ v @ [NL]"

definition push_optional_shell_kv :: "rstr \<Rightarrow> rstr option \<Rightarrow> rstr" where
  "push_optional_shell_kv k v = (case v of None \<Rightarrow> [] | Some x \<Rightarrow> push_shell_kv k x)"

definition status_value :: "bool \<Rightarrow> rstr \<Rightarrow> bool \<Rightarrow> rstr \<Rightarrow> rstr" where
  "status_value compact key always_mask v =
     (if compact \<and> key = lit ''pipeline_masking_warning'' \<and> str_contains v (lit ''mask'') then lit ''inspect combined_ref''
      else if compact \<or> always_mask then mask_visible_secrets v else v)"

definition push_shell_status :: "CommandStatus \<Rightarrow> bool \<Rightarrow> rstr" where
  "push_shell_status s compact =
     push_shell_kv (lit ''exit_code'') (case cs_exit_code s of None \<Rightarrow> lit ''null'' | Some k \<Rightarrow> show_int k) @
     concat (map (\<lambda>(key, v, always_mask). push_optional_shell_kv key (map_option (status_value compact key always_mask) v))
       [(lit ''failed_segment'', cs_failed_segment s, False), (lit ''pipeline_masking_warning'', pipeline_masking_warning s, False),
        (lit ''pipeline_rerun_command'', cs_pipeline_rerun_command s, True)])"

definition format_shell_status_header :: "ShellRenderInput \<Rightarrow> PolicyDecision \<Rightarrow> CommandStatus \<Rightarrow> rstr \<Rightarrow> rstr" where
  "format_shell_status_header i p s body =
     lit ''# shell'' @ [NL] @
     push_shell_kv (lit ''command'')
       (if is_tag (pd_policy p) [''exact'', ''passthrough''] then in_command i else mask_visible_secrets (in_command i)) @
     lit ''policy: '' @ pd_policy p @ lit '' ('' @ pd_reason p @ lit '')'' @ [NL] @
     push_shell_kv (lit ''status'') (status_label s) @
     lit ''command_success: '' @ (if command_success s then lit ''true'' else lit ''false'') @ [NL] @
     push_shell_status s False @ push_optional_shell_kv (lit ''combined_ref'') (in_combined_ref i) @ [NL] @ trim_end body"

definition format_minimal_shell_ok :: "rstr option \<Rightarrow> rstr \<Rightarrow> rstr" where
  "format_minimal_shell_ok combined_ref body =
     lit ''# shell ok'' @ (case combined_ref of None \<Rightarrow> [] | Some r \<Rightarrow> [NL] @ lit ''combined_ref: '' @ r) @
     (if trim_end body = [] then [] else [NL] @ trim_end body)"

definition compact_diagnostic_shell_capsule :: "ShellRenderInput \<Rightarrow> CommandStatus \<Rightarrow> rstr \<Rightarrow> rstr" where
  "compact_diagnostic_shell_capsule i s body =
     lit ''# shell'' @ [NL] @ push_shell_kv (lit ''status'') (status_label s) @ push_shell_status s True @
     (if in_stderr i = [] then (if in_stdout i = [] then [] else push_optional_shell_kv (lit ''stdout_ref'') (in_stdout_ref i))
      else push_optional_shell_kv (lit ''stderr_ref'') (in_stderr_ref i)) @
     push_optional_shell_kv (lit ''combined_ref'') (in_combined_ref i) @ [NL] @ trim_end body"

datatype ShellViewCase = CompactTiny | CompactDiagnostic | CompactInventory | PolicyBased

record ShellRenderContext =
  cx_policy :: PolicyDecision
  cx_status :: CommandStatus
  cx_combined :: rstr
  cx_combined_tokens :: nat
  cx_max_tokens :: nat

definition policy_body :: "'j render_env \<Rightarrow> ShellRenderInput \<Rightarrow> ShellRenderContext \<Rightarrow> rstr option" where
  "policy_body E i c =
     (let p = pd_policy (cx_policy c) in
      if is_tag p [''exact'', ''passthrough''] then Some (cx_combined c)
      else if p = lit ''diagnostic'' then
        (if in_exit_code i = Some 0 \<and> pipeline_masking_warning (cx_status c) \<noteq> None
         then Some (diagnostic_shell_view_with_tail (re_json E) (re_active E) (in_stdout i) (in_stderr i) (cx_max_tokens c))
         else Some (diagnostic_shell_view (re_json E) (re_active E) (in_stdout i) (in_stderr i) (cx_max_tokens c)))
      else if p = lit ''structured'' then structured_shell_view (re_json E) (re_shape E) (in_command i) (in_stdout i) (in_stderr i)
      else if p = lit ''dedupe'' then Some (dedupe_lines_impl (cx_combined c) 6 True)
      else if p = lit ''diff-aware'' then Some (diff_summary (cx_combined c) 160)
      else Some (summarize_lines (cx_combined c) 18 12 []))"

text \<open>The body after both compactions, and whether one of them took effect.\<close>

definition compact_success :: "'j render_env \<Rightarrow> ShellRenderInput \<Rightarrow> ShellRenderContext \<Rightarrow> rstr \<Rightarrow> rstr \<times> bool" where
  "compact_success E i c body =
     (let p = pd_policy (cx_policy c); n = count_tokens (re_active E) in
      if should_compact_success_noise i (cx_status c) \<and> p \<noteq> lit ''exact'' then
        let (body, done) =
              (case success_noise_view (in_command i) (in_stdout i) (in_stderr i) of
                 None \<Rightarrow> (body, False)
               | Some view \<Rightarrow>
                   if n view < n body \<or> p = lit ''diagnostic'' \<and> n view * 2 \<le> cx_combined_tokens c then (view, True) else (body, False));
            budget = shell_success_summary_budget (cx_max_tokens c) in
        if is_tag p [''dedupe'', ''passthrough'', ''diagnostic''] \<and> budget < n body then
          let squeezed = summarize_tokens (re_active E) body budget [] in
          if n squeezed < n body then (squeezed, True) else (body, done)
        else (body, done)
      else (body, False))"

definition build_shell_body :: "'j render_env \<Rightarrow> ShellViewCase \<Rightarrow> ShellRenderInput \<Rightarrow> ShellRenderContext \<Rightarrow> (rstr \<times> bool) option" where
  "build_shell_body E vc i c =
     (case vc of
        CompactTiny \<Rightarrow> Some (compact_shell_view (in_stdout i), False)
      | CompactDiagnostic \<Rightarrow> Some (compact_diagnostic_shell_view (in_stdout i) (in_stderr i), False)
      | CompactInventory \<Rightarrow> Some (compact_repo_inventory_view (in_command i) (in_stdout i), False)
      | PolicyBased \<Rightarrow>
          map_option (\<lambda>body.
              let (body, done) = compact_success E i c body in
              (if is_tag (pd_policy (cx_policy c)) [''exact'', ''passthrough''] then body else mask_visible_secrets body, done))
            (policy_body E i c))"

definition finalize_shell_visible :: "'j render_env \<Rightarrow> ShellViewCase \<Rightarrow> ShellRenderInput \<Rightarrow> ShellRenderContext \<Rightarrow> rstr \<Rightarrow> bool \<Rightarrow> rstr \<times> bool" where
  "finalize_shell_visible E vc i c body success_compacted =
     (let enforce = (\<lambda>v. enforce_token_budget (re_json E) (re_active E) v (cx_max_tokens c)); n = count_tokens (re_active E) in
      case vc of
        CompactTiny \<Rightarrow> (body, False)
      | CompactDiagnostic \<Rightarrow> (enforce (compact_diagnostic_shell_capsule i (cx_status c) body), False)
      | CompactInventory \<Rightarrow> (enforce (compact_repo_inventory_shell_capsule i body), False)
      | PolicyBased \<Rightarrow>
          (let vis = format_shell_status_header i (cx_policy c) (cx_status c) body; minimal = format_minimal_shell_ok (in_combined_ref i) body in
           if (cx_combined_tokens c < n vis \<or> success_compacted) \<and> safe_auto_success i (cx_status c) \<and> n minimal < n vis
           then (enforce minimal, True) else (enforce vis, False)))"

definition shell_output_strategy :: "bool \<Rightarrow> bool \<Rightarrow> bool \<Rightarrow> bool \<Rightarrow> bool \<Rightarrow> rstr" where
  "shell_output_strategy cp cd ci sc me =
     (if cp then lit ''compact_adaptive_shell'' else if cd then lit ''compact_diagnostic_shell'' else if ci then lit ''compact_inventory_shell''
      else if sc then lit ''compact_success_shell'' else if me then lit ''minimal_envelope_shell'' else lit ''exact_first_adaptive_shell'')"

definition shell_raw_tokens_with_combined :: "rstr option \<Rightarrow> rstr \<Rightarrow> rstr \<Rightarrow> nat" where
  "shell_raw_tokens_with_combined active command combined =
     count_tokens active (shell_raw_accounting_output_with_payload command combined)"

definition shell_raw_tokens :: "rstr option \<Rightarrow> rstr \<Rightarrow> exit_code \<Rightarrow> rstr \<Rightarrow> rstr \<Rightarrow> nat" where
  "shell_raw_tokens active command code out err = count_tokens active (shell_raw_accounting_output command code out err)"

definition view_case :: "rstr option \<Rightarrow> ShellRenderInput \<Rightarrow> PolicyDecision \<Rightarrow> CommandStatus \<Rightarrow> rstr \<Rightarrow> ShellViewCase" where
  "view_case active i p s combined =
     (if should_compact_tiny_shell active i p s then CompactTiny
      else if should_compact_short_failure_shell active i p s combined then CompactDiagnostic
      else if should_compact_repo_inventory_shell active i p s then CompactInventory
      else PolicyBased)"

definition render_shell :: "'j render_env \<Rightarrow> ShellRenderInput \<Rightarrow> ShellRender option" where
  "render_shell E i =
     (let combined = shell_stream_output (in_exit_code i) (in_stdout i) (in_stderr i); s = shell_input_status E i;
          p = decide_shell_policy_with_combined (re_json E) (in_command i) (in_stdout i) (in_stderr i) (in_exit_code i) (in_mode i) combined;
          vc = view_case (re_active E) i p s combined;
          c = \<lparr>cx_policy = p, cx_status = s, cx_combined = combined,
               cx_combined_tokens = shell_raw_tokens_with_combined (re_active E) (in_command i) combined, cx_max_tokens = in_max_visible_tokens i\<rparr> in
      map_option (\<lambda>(body, sc).
          let (visible, me) = finalize_shell_visible E vc i c body sc in
          \<lparr>sr_visible = visible, sr_policy = p, sr_command_status = s,
           sr_omitted_lines = length (str_lines combined) - length (str_lines visible),
           sr_output_strategy = shell_output_strategy (vc = CompactTiny) (vc = CompactDiagnostic) (vc = CompactInventory) sc me\<rparr>)
        (build_shell_body E vc i c))"

definition render_shell_repeat :: "'j render_env \<Rightarrow> ShellRenderInput \<Rightarrow> nat \<Rightarrow> ShellRender option" where
  "render_shell_repeat E i repeat_seen =
     (let s = shell_input_status E i;
          visible = lit ''# shell ok (unchanged; run '' @ show_nat repeat_seen @ lit '')'' @
            (case in_combined_ref i of None \<Rightarrow> [] | Some r \<Rightarrow> [NL] @ lit ''combined_ref: '' @ r) in
      if 2 \<le> repeat_seen \<and> safe_auto_success i s \<and> in_combined_ref i \<noteq> None \<and>
        count_tokens (re_active E) visible < shell_raw_tokens (re_active E) (in_command i) (in_exit_code i) (in_stdout i) (in_stderr i)
      then let visible = enforce_token_budget (re_json E) (re_active E) visible (in_max_visible_tokens i);
               combined = shell_stream_output (in_exit_code i) (in_stdout i) (in_stderr i) in
        Some \<lparr>sr_visible = visible,
          sr_policy = \<lparr>pd_policy = lit ''passthrough'', pd_reason = lit ''verified unchanged repeat'',
            pd_family = shell_family (re_json E) (in_command i) (in_stdout i) (in_stderr i)\<rparr>,
          sr_command_status = s, sr_omitted_lines = length (str_lines combined) - length (str_lines visible),
          sr_output_strategy = lit ''repeat_unchanged_shell''\<rparr>
      else render_shell E i)"

section \<open>Compaction keeps critical lines\<close>

lemma noise_step_keeps: "x \<in> set (ns_kept st) \<Longrightarrow> x \<in> set (ns_kept (noise_step fs raw st))"
  by (auto simp: noise_step_def Let_def split: option.split)

lemma noise_fold_keeps: "x \<in> set (ns_kept st) \<Longrightarrow> x \<in> set (ns_kept (fold (noise_step fs) ls st))"
  by (induction ls arbitrary: st) (auto simp: noise_step_keeps)

definition passes :: "SuccessFamily list \<Rightarrow> rstr \<Rightarrow> bool" where
  "passes fs line \<longleftrightarrow>
     CargoFamily \<in> set fs \<and> is_cargo_test_ok_line line \<or> PytestFamily \<in> set fs \<and> is_pytest_pass_marker line"

lemma absorb_pass_iff: "first_some (map (absorb_pass t line) fs) = None \<longleftrightarrow> \<not> passes fs line"
  by (induction fs) (auto simp: absorb_pass_def passes_def split: option.splits if_splits)

lemma critical_not_blank: "looks_critical_line line \<Longrightarrow> trim line \<noteq> []"
proof
  assume "looks_critical_line line" and "trim line = []"
  have "list_all (\<lambda>k. list_ex (\<lambda>c. 97 \<le> c \<and> c \<le> 122) k) (pipe_split DIAG_KEYWORDS)"
    by code_simp
  then obtain k c where "str_contains (to_ascii_lowercase line) k" "c \<in> set k" "97 \<le> c" "c \<le> 122"
    using \<open>looks_critical_line line\<close> by (fastforce simp: looks_critical_line_def contains_any_def list_ex_iff list_all_iff)
  then have "c \<in> set (to_ascii_lowercase line)"
    by (auto simp: str_contains_iff)
  then obtain d where "d \<in> set line" "\<not> is_whitespace d"
    using \<open>97 \<le> c\<close> \<open>c \<le> 122\<close> by (auto simp: to_ascii_lowercase_def ascii_lower_def is_whitespace_def split: if_splits)
  then show False
    using \<open>trim line = []\<close> by (auto simp: trim_blank list_all_iff)
qed

lemma noise_run_keeps:
  assumes "raw \<in> set ls" and "looks_critical_line (visible_line raw)" and "\<not> passes fs (trim (visible_line raw))"
  shows "visible_line raw \<in> set (ns_kept (fold (noise_step fs) ls st))"
  using assms(1)
proof (induction ls arbitrary: st)
  case (Cons l ls)
  show ?case
  proof (cases "raw = l")
    case True
    have "visible_line raw \<in> set (ns_kept (noise_step fs raw st))"
      using assms(2,3) absorb_pass_iff [of "ns_tally st" "trim (visible_line raw)" fs]
      by (simp add: noise_step_def Let_def critical_not_blank)
    then show ?thesis
      using True by (simp add: noise_fold_keeps)
  qed (use Cons in simp)
qed simp

lemma concat_lines_contain: "x \<in> set ls \<Longrightarrow> str_contains (a @ concat (map (\<lambda>l. [NL] @ l) ls) @ b) x"
proof -
  assume "x \<in> set ls"
  then obtain us vs where "ls = us @ x # vs"
    by (auto simp: in_set_conv_decomp)
  then have "a @ concat (map (\<lambda>l. [NL] @ l) ls) @ b =
      (a @ concat (map (\<lambda>l. [NL] @ l) us) @ [NL]) @ x @ (concat (map (\<lambda>l. [NL] @ l) vs) @ b)"
    by simp
  then show ?thesis
    unfolding str_contains_iff by blast
qed

lemma render_shell_parts:
  assumes "render_shell E i = Some r"
  obtains combined p s c vc body sc me where "vc = view_case (re_active E) i p s combined"
    and "cx_max_tokens c = in_max_visible_tokens i" and "build_shell_body E vc i c = Some (body, sc)"
    and "sr_visible r = fst (finalize_shell_visible E vc i c body sc)"
    and "sr_output_strategy r = shell_output_strategy (vc = CompactTiny) (vc = CompactDiagnostic) (vc = CompactInventory) sc me"
proof -
  define combined where "combined = shell_stream_output (in_exit_code i) (in_stdout i) (in_stderr i)"
  define p where "p = decide_shell_policy_with_combined (re_json E) (in_command i) (in_stdout i) (in_stderr i) (in_exit_code i) (in_mode i) combined"
  define s where "s = shell_input_status E i"
  define vc where "vc = view_case (re_active E) i p s combined"
  define c where "c = \<lparr>cx_policy = p, cx_status = s, cx_combined = combined,
       cx_combined_tokens = shell_raw_tokens_with_combined (re_active E) (in_command i) combined, cx_max_tokens = in_max_visible_tokens i\<rparr>"
  obtain body sc where b: "build_shell_body E vc i c = Some (body, sc)"
    and r: "r = \<lparr>sr_visible = fst (finalize_shell_visible E vc i c body sc), sr_policy = p, sr_command_status = s,
       sr_omitted_lines = length (str_lines combined) - length (str_lines (fst (finalize_shell_visible E vc i c body sc))),
       sr_output_strategy = shell_output_strategy (vc = CompactTiny) (vc = CompactDiagnostic) (vc = CompactInventory) sc
         (snd (finalize_shell_visible E vc i c body sc))\<rparr>"
    using assms unfolding render_shell_def Let_def combined_def [symmetric] s_def [symmetric] p_def [symmetric] vc_def [symmetric] c_def [symmetric]
    by (auto simp: case_prod_unfold)
  show ?thesis
    by (rule that [OF vc_def _ b]) (simp_all add: c_def r)
qed

section \<open>Properties\<close>

text \<open>C39: compacting a successful run never hides a critical line. Every line of either stream that names an error, a warning or a failure is shown
  verbatim, unless it is the pass marker of a test of the recognised tool.
\<close>

theorem success_view_keeps_critical:
  assumes "success_noise_view command out err = Some v" and "raw \<in> set (str_lines out @ str_lines err)"
    and "looks_critical_line (visible_line raw)" and "\<not> passes (success_noise_families command) (trim (visible_line raw))"
  shows "str_contains v (visible_line raw)"
proof -
  let ?st = "noise_run (success_noise_families command) out err"
  have "visible_line raw \<in> set (ns_kept ?st)"
    unfolding noise_run_def by (rule noise_run_keeps [OF assms(2-4)])
  moreover have "\<exists>b. v = noise_header (success_noise_families command) (ns_tally ?st) @
      concat (map (\<lambda>l. [NL] @ l) (nt_summary_lines (ns_tally ?st) @ map snd (nt_last_progress (ns_tally ?st)) @ ns_kept ?st)) @ b"
    using assms(1) unfolding success_noise_view_def Let_def by (metis option.distinct(1) option.inject)
  ultimately show ?thesis
    using concat_lines_contain [of "visible_line raw"] by (metis Un_iff set_append)
qed

theorem success_view_keeps_critical_witness:
  "\<exists>v. success_noise_view (lit ''git fetch'') (lit ''Counting objects: 3'' @ [NL] @ lit ''warning: x'') [] = Some v \<and> str_contains v (lit ''warning: x'')"
proof -
  have "success_noise_view (lit ''git fetch'') (lit ''Counting objects: 3'' @ [NL] @ lit ''warning: x'') [] \<noteq> None"
    by code_simp
  then obtain v where v: "success_noise_view (lit ''git fetch'') (lit ''Counting objects: 3'' @ [NL] @ lit ''warning: x'') [] = Some v"
    by blast
  have shown: "visible_line (lit ''warning: x'') = lit ''warning: x''"
    by code_simp
  have inside: "lit ''warning: x'' \<in> set (str_lines (lit ''Counting objects: 3'' @ [NL] @ lit ''warning: x'') @ str_lines [])"
    by code_simp
  have "looks_critical_line (lit ''warning: x'')"
    by code_simp
  then have critical: "looks_critical_line (visible_line (lit ''warning: x''))"
    by (simp only: shown)
  have "\<not> passes (success_noise_families (lit ''git fetch'')) (trim (lit ''warning: x''))"
    by code_simp
  then have "\<not> passes (success_noise_families (lit ''git fetch'')) (trim (visible_line (lit ''warning: x'')))"
    by (simp only: shown not_False_eq_True)
  from success_view_keeps_critical [OF v inside critical this] v show ?thesis
    by (auto simp only: shown)
qed

text \<open>
  The visible text of a command fits its token budget, or it is the bare declaration that everything was left out, or it is the
  whole trimmed output of a small successful command of at most 48 tokens.
\<close>

theorem render_within_budget:
  assumes "render_shell E i = Some r"
  shows "count_tokens (re_active E) (sr_visible r) \<le> in_max_visible_tokens i \<or> sr_visible r = VISIBLE_BUDGET_LOSSY_DECLARATION \<or>
     sr_visible r = compact_shell_view (in_stdout i) \<and> sr_output_strategy r = lit ''compact_adaptive_shell'' \<and>
       count_tokens (re_active E) (in_stdout i) \<le> 48"
proof -
  have budget: "count_tokens a (enforce_token_budget J a x n) \<le> n \<or> enforce_token_budget J a x n = VISIBLE_BUDGET_LOSSY_DECLARATION"
    for a J n and x :: rstr
    using enforce_le_or_marker [of a J x n None] by (simp add: enforce_token_budget_def visible_budget_marker_def)
  obtain combined p s c vc body sc me where vc: "vc = view_case (re_active E) i p s combined"
    and c: "cx_max_tokens c = in_max_visible_tokens i" and b: "build_shell_body E vc i c = Some (body, sc)"
    and visible: "sr_visible r = fst (finalize_shell_visible E vc i c body sc)"
    and strategy: "sr_output_strategy r = shell_output_strategy (vc = CompactTiny) (vc = CompactDiagnostic) (vc = CompactInventory) sc me"
    using render_shell_parts [OF assms] .
  show ?thesis
  proof (cases "vc = CompactTiny")
    case True
    then have "count_tokens (re_active E) (in_stdout i) \<le> 48"
      using vc by (auto simp: view_case_def should_compact_tiny_shell_def split: if_splits)
    then show ?thesis
      using True b visible strategy by (simp add: build_shell_body_def finalize_shell_visible_def shell_output_strategy_def)
  next
    case False
    have "\<exists>x. sr_visible r = enforce_token_budget (re_json E) (re_active E) x (in_max_visible_tokens i)"
      using False visible by (cases vc) (auto simp: finalize_shell_visible_def Let_def c)
    then show ?thesis
      using budget by metis
  qed
qed

text \<open>
  The notice of an unchanged repeat is cheaper than what it stands for, and is only given to a verified success with a recovery reference.
\<close>

theorem repeat_notice_cheaper:
  assumes "render_shell_repeat E i k = Some r" and "sr_output_strategy r = lit ''repeat_unchanged_shell''"
  shows "safe_auto_success i (sr_command_status r) \<and> in_combined_ref i \<noteq> None \<and>
     (count_tokens (re_active E) (sr_visible r) < shell_raw_tokens (re_active E) (in_command i) (in_exit_code i) (in_stdout i) (in_stderr i) \<or>
      in_max_visible_tokens i < shell_raw_tokens (re_active E) (in_command i) (in_exit_code i) (in_stdout i) (in_stderr i))"
proof -
  have other: "sr_output_strategy x \<noteq> lit ''repeat_unchanged_shell''" if "render_shell E i = Some x" for x
    by (rule render_shell_parts [OF that]) (simp add: shell_output_strategy_def lit_def)
  have fits: "enforce_token_budget (re_json E) (re_active E) x n = x" if "count_tokens (re_active E) x \<le> n" for x n
    using that by (simp add: enforce_token_budget_def enforce_token_budget_with_ref_def)
  show ?thesis
  proof (cases "render_shell E i = Some r")
    case True
    then show ?thesis
      using other assms(2) by blast
  next
    case False
    define notice where "notice = lit ''# shell ok (unchanged; run '' @ show_nat k @ lit '')'' @
        (case in_combined_ref i of None \<Rightarrow> [] | Some r \<Rightarrow> [NL] @ lit ''combined_ref: '' @ r)"
    from False have "safe_auto_success i (sr_command_status r)" "in_combined_ref i \<noteq> None"
        "count_tokens (re_active E) notice < shell_raw_tokens (re_active E) (in_command i) (in_exit_code i) (in_stdout i) (in_stderr i)"
        "sr_visible r = enforce_token_budget (re_json E) (re_active E) notice (in_max_visible_tokens i)"
      using assms(1) unfolding render_shell_repeat_def Let_def notice_def [symmetric] by (auto split: if_splits)
    then show ?thesis
      using fits [of notice "in_max_visible_tokens i"] by (cases "count_tokens (re_active E) notice \<le> in_max_visible_tokens i") auto
  qed
qed

section \<open>Examples\<close>

definition sample_env :: "unit render_env" where
  "sample_env = \<lparr>re_windows = False, re_json = no_json, re_shape = (\<lambda>_. VNull), re_active = None\<rparr>"

definition sample_input :: ShellRenderInput where
  "sample_input = \<lparr>in_command = lit ''deploy password=hunter2'', in_stdout = [], in_stderr = [], in_exit_code = Some 1, in_timed_out = False,
     in_mode = Auto, in_max_visible_tokens = 100, in_stdout_ref = None, in_stderr_ref = None, in_combined_ref = None\<rparr>"

definition tiny_input :: ShellRenderInput where
  "tiny_input = \<lparr>in_command = lit ''uptime'', in_stdout = lit ''one two three'', in_stderr = [], in_exit_code = Some 0, in_timed_out = False,
     in_mode = Auto, in_max_visible_tokens = 1, in_stdout_ref = None, in_stderr_ref = None, in_combined_ref = None\<rparr>"

text \<open>
  The status header masks the secrets of the command but prints the failed segment as it is: a password that is masked in the line of the command is
  visible below it.
\<close>

theorem failed_segment_leaks_secret:
  assumes "cs_failed_segment s = Some segment"
  shows "str_contains (format_shell_status_header i p s body) (lit ''failed_segment: '' @ segment)"
proof -
  have "push_shell_status s False = push_shell_kv (lit ''exit_code'') (case cs_exit_code s of None \<Rightarrow> lit ''null'' | Some k \<Rightarrow> show_int k) @
      lit ''failed_segment: '' @ segment @ [NL] @
      push_optional_shell_kv (lit ''pipeline_masking_warning'') (pipeline_masking_warning s) @
      push_optional_shell_kv (lit ''pipeline_rerun_command'') (map_option mask_visible_secrets (cs_pipeline_rerun_command s))"
    using assms by (simp add: push_shell_status_def push_optional_shell_kv_def push_shell_kv_def status_value_def option.map_ident lit_def
        split: option.split)
  then show ?thesis
    unfolding format_shell_status_header_def str_contains_iff by (metis append_assoc)
qed

theorem failed_segment_leaks_secret_witness:
  "str_contains (format_shell_status_header sample_input p (shell_input_status sample_env sample_input) body) (lit ''failed_segment: deploy password=hunter2'')"
proof -
  have "failed_segment no_json (lit ''deploy password=hunter2'') [] [] (Some 1) = Some (lit ''deploy password=hunter2'')"
    by code_simp
  then have "cs_failed_segment (shell_input_status sample_env sample_input) = Some (lit ''deploy password=hunter2'')"
    by (simp add: shell_input_status_def classify_command_status_def Let_def sample_env_def sample_input_def)
  from failed_segment_leaks_secret [OF this, of sample_input p body] show ?thesis
    by (simp add: lit_def)
qed

text \<open>
  The output of a small successful command is shown whole although it exceeds the token budget of the caller.
\<close>

theorem tiny_output_ignores_budget:
  assumes "should_compact_tiny_shell (re_active E) i p s" and "build_shell_body E (view_case (re_active E) i p s combined) i c = Some (body, sc)"
  shows "fst (finalize_shell_visible E (view_case (re_active E) i p s combined) i c body sc) = compact_shell_view (in_stdout i)"
  using assms by (simp add: view_case_def build_shell_body_def finalize_shell_visible_def)

definition tiny_policy :: PolicyDecision where
  "tiny_policy = \<lparr>pd_policy = lit ''passthrough'', pd_reason = [], pd_family = lit ''generic''\<rparr>"

definition tiny_status :: CommandStatus where
  "tiny_status = \<lparr>transport_status = lit ''ok'', command_success = True, cs_exit_code = Some 0, cs_pipeline_rerun_command = None,
     shell_syntax_summary = lit ''argv/simple'', status_label = lit ''command_success'', cs_failed_segment = None,
     pipeline_masking_warning = None\<rparr>"

definition tiny_context :: ShellRenderContext where
  "tiny_context = \<lparr>cx_policy = tiny_policy, cx_status = tiny_status, cx_combined = in_stdout tiny_input, cx_combined_tokens = 5,
     cx_max_tokens = in_max_visible_tokens tiny_input\<rparr>"

theorem tiny_output_ignores_budget_witness:
  "in_max_visible_tokens tiny_input <
     count_tokens None (fst (finalize_shell_visible sample_env (view_case None tiny_input tiny_policy tiny_status []) tiny_input tiny_context
       (lit ''one two three'') False))"
proof -
  have tiny: "should_compact_tiny_shell (re_active sample_env) tiny_input tiny_policy tiny_status"
    by code_simp
  then have "build_shell_body sample_env (view_case (re_active sample_env) tiny_input tiny_policy tiny_status []) tiny_input tiny_context =
      Some (compact_shell_view (in_stdout tiny_input), False)"
    by (simp add: view_case_def build_shell_body_def)
  from tiny_output_ignores_budget [OF tiny this] have "fst (finalize_shell_visible sample_env
      (view_case None tiny_input tiny_policy tiny_status []) tiny_input tiny_context (lit ''one two three'') False) = compact_shell_view (in_stdout tiny_input)"
    using tiny by (simp add: view_case_def finalize_shell_visible_def sample_env_def) code_simp
  moreover have "in_max_visible_tokens tiny_input < count_tokens None (compact_shell_view (in_stdout tiny_input))"
    by code_simp
  ultimately show ?thesis
    by simp
qed

end
