(* ===== verification/ReasoningState.thy ===== *)
theory ReasoningState
  imports OutputNovelty DecisionView
begin

text \<open>
  Opaque reasoning state and its replay (\<open>tokenzero-core/src/reasoning_state.rs\<close>): the binding and the
  order of a state, captured envelopes and terminal references, exact replay, the raw decision view
  that is the fallback, the assessment of a continuation, and the headroom plan. The reasoning
  contract is a type of \<open>zero-abi\<close>: a record of its answers. The lemmas show when a replay returns the
  captured bytes, that an assessment agrees with replay and never raises the class of a state, and that
  the fallback returns the rendered view.
\<close>

section \<open>States, statuses and errors\<close>

definition MAX_OPAQUE_REASONING_STATE_BYTES :: nat where "MAX_OPAQUE_REASONING_STATE_BYTES = 16 * 1048576"

datatype OpaqueReasoningStateKind = ProviderReasoningItems | SignedThinkingBlocks | EncryptedReasoningContent
  | ProviderContinuationId | LocalExactStateCartridge | NoState

datatype ReasoningContinuationStatus = StExact | StScopedCertificate | StApproximate | StUnavailable | StExpired
  | StRejected | StIdentityMismatch

definition carries_payload :: "ReasoningContinuationStatus \<Rightarrow> bool" where
  "carries_payload s \<longleftrightarrow> list_ex (\<lambda>t. s = t) [StExact, StScopedCertificate, StApproximate]"

text \<open>The policies that the source distinguishes, and every other one of the enumeration.\<close>

datatype NativeStatePolicy = ExactRequired | ExactIfAvailable | ScopedPolicy | OtherPolicy rstr

datatype 'e ReasoningStateError = ContractRejected 'e | ZeroStateIdentity rstr | MissingSamplerIdentity | EmptyPayload
  | PayloadTooLarge nat nat | UnavailableKindHasPayload | PayloadStatusRequired | ScopedCertificateRequired
  | UnexpectedScopedCertificate | InvalidInitialOrder | MissingParentDigest | InvalidParentDigest | InvalidExpiry
  | InputTokenOverflow | ContractTokenizerMismatch | ContractToolSchemaMismatch
  | NativeStatePolicyMismatch NativeStatePolicy ReasoningContinuationStatus | BindingMismatch | OrderMismatch
  | NotExact ReasoningContinuationStatus | StateHasExpired | ContentDigestMismatch

record 'e reasoning_contract =
  rc_validate :: "'e + unit"
  rc_model :: digest
  rc_backend :: digest
  rc_tokenizer :: digest
  rc_decoder :: digest
  rc_tool_schema :: digest
  rc_identity_digest :: "'e + digest"
  rc_native_state_policy :: NativeStatePolicy
  rc_max_output_tokens :: nat
  rc_reserved_reasoning_tokens :: nat
  rc_reserved_visible_output_tokens :: nat
  rc_reserved_recovery_tokens :: nat
  rc_admitted_input_ceiling :: "nat \<Rightarrow> nat \<Rightarrow> 'e + nat"
  rc_admit_input :: "nat \<Rightarrow> nat \<Rightarrow> nat \<Rightarrow> 'e + nat"

definition nonzero :: "rstr \<Rightarrow> digest \<Rightarrow> 'e ReasoningStateError + unit" where
  "nonzero field d = (if d = ZERO_DIGEST then Err (ZeroStateIdentity field) else Ok ())"

definition validate_expiry :: "nat option \<Rightarrow> 'e ReasoningStateError + unit" where
  "validate_expiry expiry = (if expiry = Some 0 then Err InvalidExpiry else Ok ())"

definition validate_certificate :: "ReasoningContinuationStatus \<Rightarrow> digest option \<Rightarrow> 'e ReasoningStateError + unit" where
  "validate_certificate s certificate =
     (case certificate of
        None \<Rightarrow> if s = StScopedCertificate then Err ScopedCertificateRequired else Ok ()
      | Some d \<Rightarrow> if s = StScopedCertificate then nonzero (lit ''continuation certificate'') d
                 else Err UnexpectedScopedCertificate)"

fun authorized :: "NativeStatePolicy \<Rightarrow> ReasoningContinuationStatus \<Rightarrow> bool" where
  "authorized ExactRequired StExact = True"
| "authorized ExactIfAvailable StExact = True"
| "authorized ExactIfAvailable StApproximate = True"
| "authorized ScopedPolicy StScopedCertificate = True"
| "authorized _ _ = False"

definition validate_native_state_policy :: "NativeStatePolicy \<Rightarrow> ReasoningContinuationStatus \<Rightarrow> 'e ReasoningStateError + unit" where
  "validate_native_state_policy p s = (if authorized p s then Ok () else Err (NativeStatePolicyMismatch p s))"

section \<open>Bindings, orders and references\<close>

record ReasoningStateBinding =
  provider_identity :: digest
  model_identity :: digest
  backend_identity :: digest
  tokenizer_identity :: digest
  decoder_identity :: digest
  tool_schema_digest :: digest
  reasoning_contract_digest :: digest
  native_state_policy :: NativeStatePolicy
  position_identity :: digest
  session_identity :: digest
  sampler_identity_required :: bool
  sampler_identity :: "digest option"

fun all_nonzero :: "(rstr \<times> digest) list \<Rightarrow> 'e ReasoningStateError + unit" where
  "all_nonzero [] = Ok ()"
| "all_nonzero ((field, d) # fs) = (case nonzero field d of Inl e \<Rightarrow> Err e | Inr u \<Rightarrow> all_nonzero fs)"

definition new_binding ::
    "digest \<Rightarrow> 'e reasoning_contract \<Rightarrow> digest \<Rightarrow> digest \<Rightarrow> bool \<Rightarrow> digest option \<Rightarrow> 'e ReasoningStateError + ReasoningStateBinding" where
  "new_binding prov c pos sess required sampler =
     (case rc_validate c of
        Inl e \<Rightarrow> Err (ContractRejected e)
      | Inr u \<Rightarrow>
     (case all_nonzero [(lit ''provider'', prov), (lit ''position'', pos), (lit ''session'', sess)] of
        Inl e \<Rightarrow> Err e
      | Inr u \<Rightarrow>
          if required \<and> sampler = None then Err MissingSamplerIdentity
          else case (case sampler of None \<Rightarrow> Ok () | Some d \<Rightarrow> nonzero (lit ''sampler'') d) of
            Inl e \<Rightarrow> Err e
          | Inr u \<Rightarrow>
              (case rc_identity_digest c of
                 Inl e \<Rightarrow> Err (ContractRejected e)
               | Inr cd \<Rightarrow> Ok \<lparr>provider_identity = prov, model_identity = rc_model c, backend_identity = rc_backend c,
                   tokenizer_identity = rc_tokenizer c, decoder_identity = rc_decoder c, tool_schema_digest = rc_tool_schema c,
                   reasoning_contract_digest = cd, native_state_policy = rc_native_state_policy c, position_identity = pos,
                   session_identity = sess, sampler_identity_required = required, sampler_identity = sampler\<rparr>)))"

record ReasoningStateOrder =
  sequence_index :: nat
  parent_content_digest :: "digest option"

definition new_order :: "nat \<Rightarrow> digest option \<Rightarrow> 'e ReasoningStateError + ReasoningStateOrder" where
  "new_order i parent =
     (case parent of
        None \<Rightarrow> if 1 \<le> i then Err MissingParentDigest else Ok \<lparr>sequence_index = i, parent_content_digest = None\<rparr>
      | Some d \<Rightarrow> if i = 0 then Err InvalidInitialOrder else if d = ZERO_DIGEST then Err InvalidParentDigest
                 else Ok \<lparr>sequence_index = i, parent_content_digest = Some d\<rparr>)"

record OpaqueReasoningStateRef =
  rs_kind :: OpaqueReasoningStateKind
  rs_status :: ReasoningContinuationStatus
  rs_binding :: ReasoningStateBinding
  rs_order :: ReasoningStateOrder
  rs_content_digest :: digest
  rs_byte_len :: nat
  rs_certificate :: "digest option"
  rs_valid_until :: "nat option"

definition unavailable_ref :: "ReasoningStateBinding \<Rightarrow> OpaqueReasoningStateRef" where
  "unavailable_ref b =
     \<lparr>rs_kind = NoState, rs_status = StUnavailable, rs_binding = b, rs_order = \<lparr>sequence_index = 0, parent_content_digest = None\<rparr>,
      rs_content_digest = ZERO_DIGEST, rs_byte_len = 0, rs_certificate = None, rs_valid_until = None\<rparr>"

definition terminal_ref ::
    "OpaqueReasoningStateKind \<Rightarrow> ReasoningContinuationStatus \<Rightarrow> ReasoningStateBinding \<Rightarrow> ReasoningStateOrder \<Rightarrow> digest \<Rightarrow>
     nat option \<Rightarrow> 'e ReasoningStateError + OpaqueReasoningStateRef" where
  "terminal_ref k s b ord d expiry =
     (if k = NoState then Err UnavailableKindHasPayload
      else case nonzero (lit ''content'') d of
        Inl e \<Rightarrow> Err e
      | Inr u \<Rightarrow>
          (case validate_expiry expiry of
             Inl e \<Rightarrow> Err e
           | Inr u \<Rightarrow> Ok \<lparr>rs_kind = k, rs_status = s, rs_binding = b, rs_order = ord, rs_content_digest = d, rs_byte_len = 0,
               rs_certificate = None, rs_valid_until = expiry\<rparr>))"

definition rejected_ref where "rejected_ref k b ord d = terminal_ref k StRejected b ord d None"

definition expired_ref where "expired_ref k b ord d until = terminal_ref k StExpired b ord d (Some until)"

definition identity_mismatch_ref where "identity_mismatch_ref k b ord d = terminal_ref k StIdentityMismatch b ord d None"

section \<open>Envelopes and exact replay\<close>

record OpaqueReasoningStateEnvelope =
  env_reference :: OpaqueReasoningStateRef
  opaque_bytes :: "byte list"

definition capture ::
    "sha \<Rightarrow> OpaqueReasoningStateKind \<Rightarrow> ReasoningContinuationStatus \<Rightarrow> ReasoningStateBinding \<Rightarrow> ReasoningStateOrder \<Rightarrow>
     digest option \<Rightarrow> nat option \<Rightarrow> byte list \<Rightarrow> 'e ReasoningStateError + OpaqueReasoningStateEnvelope" where
  "capture H k s b ord certificate expiry bs =
     (if k = NoState then Err UnavailableKindHasPayload
      else if \<not> carries_payload s then Err PayloadStatusRequired
      else if bs = [] then Err EmptyPayload
      else if MAX_OPAQUE_REASONING_STATE_BYTES < length bs
      then Err (PayloadTooLarge (length bs) MAX_OPAQUE_REASONING_STATE_BYTES)
      else case validate_certificate s certificate of
        Inl e \<Rightarrow> Err e
      | Inr u \<Rightarrow>
     (case validate_native_state_policy (native_state_policy b) s of
        Inl e \<Rightarrow> Err e
      | Inr u \<Rightarrow>
     (case validate_expiry expiry of
        Inl e \<Rightarrow> Err e
      | Inr u \<Rightarrow>
          if u64_max < length bs then Err (PayloadTooLarge (length bs) MAX_OPAQUE_REASONING_STATE_BYTES)
          else Ok \<lparr>env_reference = \<lparr>rs_kind = k, rs_status = s, rs_binding = b, rs_order = ord, rs_content_digest = H bs,
            rs_byte_len = length bs, rs_certificate = certificate, rs_valid_until = expiry\<rparr>, opaque_bytes = bs\<rparr>)))"

definition past :: "nat option \<Rightarrow> nat \<Rightarrow> bool" where
  "past expiry now \<longleftrightarrow> (case expiry of None \<Rightarrow> False | Some e \<Rightarrow> e \<le> now)"

definition exact_replay_bytes ::
    "sha \<Rightarrow> OpaqueReasoningStateEnvelope \<Rightarrow> ReasoningStateBinding \<Rightarrow> ReasoningStateOrder \<Rightarrow> nat \<Rightarrow> 'e ReasoningStateError + byte list" where
  "exact_replay_bytes H env b ord now =
     (let r = env_reference env in
      if rs_status r \<noteq> StExact then Err (NotExact (rs_status r))
      else case validate_native_state_policy (native_state_policy (rs_binding r)) (rs_status r) of
        Inl e \<Rightarrow> Err e
      | Inr u \<Rightarrow>
          if rs_binding r \<noteq> b then Err BindingMismatch
          else if rs_order r \<noteq> ord then Err OrderMismatch
          else if past (rs_valid_until r) now then Err StateHasExpired
          else if H (opaque_bytes env) \<noteq> rs_content_digest r then Err ContentDigestMismatch
          else Ok (opaque_bytes env))"

section \<open>Evidence and raw recovery\<close>

datatype ModelStateUnavailableReason = ProviderUnavailable | StateExpired | StateRejected | IdentityMismatch
  | ScopedEvidenceAbsent | EmpiricalEvidenceAbsent | EmpiricalEvidenceExpired

datatype ModelStateContinuationClass = ClExactNeutral digest | ClScopedCertificate digest digest digest
  | ClEmpirical digest digest digest digest "nat option" | ClUnavailable ModelStateUnavailableReason

datatype ModelStateContinuationKind = ExactNeutral | ScopedCertificate | Empirical | UnavailableState

fun class_kind :: "ModelStateContinuationClass \<Rightarrow> ModelStateContinuationKind" where
  "class_kind (ClExactNeutral _) = ExactNeutral"
| "class_kind (ClScopedCertificate _ _ _) = ScopedCertificate"
| "class_kind (ClEmpirical _ _ _ _ _) = Empirical"
| "class_kind (ClUnavailable _) = UnavailableState"

datatype ModelStateContinuationEvidence = NoEvidence | ScopedEvidence digest digest
  | EmpiricalEvidence digest digest digest "nat option"

datatype ModelStateContinuationError = ZeroContinuation rstr | InvalidEvidenceExpiry | EvidenceStatusMismatch
  | ScopedCertificateMismatch | ViewTokenizerIdentityMismatch | ViewToolSchemaIdentityMismatch | RawByteLengthOverflow
  | DecisionViewIdentityMismatch | DecisionViewDigestMismatch | ExactTokenMapDigestMismatch | RawBaselineIdentityMismatch
  | HubSafepointDigestMismatch | RawByteLengthMismatch | RawBytesDigestMismatch

definition require_continuation_digest :: "rstr \<Rightarrow> digest \<Rightarrow> ModelStateContinuationError + unit" where
  "require_continuation_digest field d = (if d = ZERO_DIGEST then Err (ZeroContinuation field) else Ok ())"

fun require_all :: "(rstr \<times> digest) list \<Rightarrow> ModelStateContinuationError + unit" where
  "require_all [] = Ok ()"
| "require_all ((field, d) # fs) = (case require_continuation_digest field d of Inl e \<Rightarrow> Err e | Inr u \<Rightarrow> require_all fs)"

definition scoped_evidence :: "digest \<Rightarrow> digest \<Rightarrow> ModelStateContinuationError + ModelStateContinuationEvidence" where
  "scoped_evidence c d =
     (case require_all [(lit ''certificate'', c), (lit ''declared scope'', d)] of
        Inl e \<Rightarrow> Err e | Inr u \<Rightarrow> Ok (ScopedEvidence c d))"

definition empirical_evidence :: "digest \<Rightarrow> digest \<Rightarrow> digest \<Rightarrow> nat option \<Rightarrow> ModelStateContinuationError + ModelStateContinuationEvidence" where
  "empirical_evidence f r d until =
     (case require_all [(lit ''frozen distribution'', f), (lit ''evaluation receipt'', r), (lit ''declared scope'', d)] of
        Inl e \<Rightarrow> Err e
      | Inr u \<Rightarrow> if until = Some 0 then Err InvalidEvidenceExpiry else Ok (EmpiricalEvidence f r d until))"

record RawDecisionViewRecoveryRef =
  rr_identity :: DecisionViewIdentity
  rr_view_digest :: digest
  rr_token_map_digest :: digest
  rr_raw_bytes_digest :: digest
  rr_raw_byte_len :: nat
  rr_total_tokens :: nat
  rr_raw_baseline :: digest
  rr_hub_safepoint :: digest

record RawDecisionViewRecoveryEnvelope =
  raw_reference :: RawDecisionViewRecoveryRef
  raw_decision_view_bytes :: "byte list"

definition capture_raw ::
    "sha \<Rightarrow> DecisionView \<Rightarrow> digest \<Rightarrow> digest \<Rightarrow> ModelStateContinuationError + RawDecisionViewRecoveryEnvelope" where
  "capture_raw H v baseline safepoint =
     (case require_all [(lit ''caller raw-baseline identity'', baseline), (lit ''caller hub safepoint'', safepoint)] of
        Inl e \<Rightarrow> Err e
      | Inr u \<Rightarrow>
          let bs = dv_rendered v in
          if u64_max < length bs then Err RawByteLengthOverflow
          else Ok \<lparr>raw_reference = \<lparr>rr_identity = dv_identity v, rr_view_digest = dv_digest v, rr_token_map_digest = dv_token_map v,
            rr_raw_bytes_digest = H bs, rr_raw_byte_len = length bs, rr_total_tokens = dv_total_tokens v,
            rr_raw_baseline = baseline, rr_hub_safepoint = safepoint\<rparr>, raw_decision_view_bytes = bs\<rparr>)"

definition exact_raw_decision_view_bytes ::
    "sha \<Rightarrow> RawDecisionViewRecoveryEnvelope \<Rightarrow> DecisionViewIdentity \<Rightarrow> digest \<Rightarrow> digest \<Rightarrow> digest \<Rightarrow> digest \<Rightarrow>
     ModelStateContinuationError + byte list" where
  "exact_raw_decision_view_bytes H env i vd md baseline safepoint =
     (let r = raw_reference env; bs = raw_decision_view_bytes env in
      if rr_identity r \<noteq> i then Err DecisionViewIdentityMismatch
      else if rr_view_digest r \<noteq> vd then Err DecisionViewDigestMismatch
      else if rr_token_map_digest r \<noteq> md then Err ExactTokenMapDigestMismatch
      else if rr_raw_baseline r \<noteq> baseline then Err RawBaselineIdentityMismatch
      else if rr_hub_safepoint r \<noteq> safepoint then Err HubSafepointDigestMismatch
      else if u64_max < length bs then Err RawByteLengthOverflow
      else if length bs \<noteq> rr_raw_byte_len r then Err RawByteLengthMismatch
      else if H bs \<noteq> rr_raw_bytes_digest r then Err RawBytesDigestMismatch
      else Ok bs)"

section \<open>Assessment\<close>

definition validate_evidence_digests :: "ModelStateContinuationEvidence \<Rightarrow> ModelStateContinuationError + unit" where
  "validate_evidence_digests ev =
     (case ev of
        NoEvidence \<Rightarrow> Ok ()
      | ScopedEvidence c d \<Rightarrow> require_all [(lit ''certificate'', c), (lit ''declared scope'', d)]
      | EmpiricalEvidence f r d until \<Rightarrow>
          (case require_all [(lit ''frozen distribution'', f), (lit ''evaluation receipt'', r), (lit ''declared scope'', d)] of
             Inl e \<Rightarrow> Err e | Inr u \<Rightarrow> if until = Some 0 then Err InvalidEvidenceExpiry else Ok ()))"

definition validate_continuation_evidence_for_state ::
    "OpaqueReasoningStateRef \<Rightarrow> ModelStateContinuationEvidence \<Rightarrow> ModelStateContinuationError + unit" where
  "validate_continuation_evidence_for_state r ev =
     (case validate_evidence_digests ev of
        Inl e \<Rightarrow> Err e
      | Inr u \<Rightarrow>
          (case ev of
             NoEvidence \<Rightarrow> Ok ()
           | EmpiricalEvidence f e d until \<Rightarrow> if rs_status r = StApproximate then Ok () else Err EvidenceStatusMismatch
           | ScopedEvidence c d \<Rightarrow>
               if rs_status r = StScopedCertificate
               then (if rs_certificate r = Some c then Ok () else Err ScopedCertificateMismatch)
               else Err EvidenceStatusMismatch))"

fun unexpired_class ::
    "OpaqueReasoningStateRef \<Rightarrow> nat \<Rightarrow> ReasoningContinuationStatus \<Rightarrow> ModelStateContinuationEvidence \<Rightarrow>
     ModelStateContinuationError + ModelStateContinuationClass" where
  "unexpired_class r now StExact NoEvidence = Ok (ClExactNeutral (rs_content_digest r))"
| "unexpired_class r now StScopedCertificate (ScopedEvidence c d) =
     (if rs_certificate r \<noteq> Some c then Err ScopedCertificateMismatch
      else Ok (ClScopedCertificate (rs_content_digest r) c d))"
| "unexpired_class r now StScopedCertificate NoEvidence = Ok (ClUnavailable ScopedEvidenceAbsent)"
| "unexpired_class r now StApproximate (EmpiricalEvidence f e d until) =
     (if past until now then Ok (ClUnavailable EmpiricalEvidenceExpired)
      else Ok (ClEmpirical (rs_content_digest r) f e d until))"
| "unexpired_class r now StApproximate NoEvidence = Ok (ClUnavailable EmpiricalEvidenceAbsent)"
| "unexpired_class r now StUnavailable NoEvidence = Ok (ClUnavailable ProviderUnavailable)"
| "unexpired_class r now StExpired NoEvidence = Ok (ClUnavailable StateExpired)"
| "unexpired_class r now StRejected NoEvidence = Ok (ClUnavailable StateRejected)"
| "unexpired_class r now StIdentityMismatch NoEvidence = Ok (ClUnavailable IdentityMismatch)"
| "unexpired_class r now _ _ = Err EvidenceStatusMismatch"

record ModelStateContinuationAssessment =
  as_state_reference :: OpaqueReasoningStateRef
  as_class :: ModelStateContinuationClass
  as_raw_recovery :: RawDecisionViewRecoveryRef

definition assess ::
    "OpaqueReasoningStateRef \<Rightarrow> ModelStateContinuationEvidence \<Rightarrow> RawDecisionViewRecoveryRef \<Rightarrow> nat \<Rightarrow>
     ModelStateContinuationError + ModelStateContinuationAssessment" where
  "assess r ev raw now =
     (case validate_continuation_evidence_for_state r ev of
        Inl e \<Rightarrow> Err e
      | Inr u \<Rightarrow>
          if tokenizer_identity (rs_binding r) \<noteq> vi_tokenizer (rr_identity raw) then Err ViewTokenizerIdentityMismatch
          else if tool_schema_digest (rs_binding r) \<noteq> vi_tool_schema (rr_identity raw) then Err ViewToolSchemaIdentityMismatch
          else case (if past (rs_valid_until r) now then Ok (ClUnavailable StateExpired)
                     else unexpired_class r now (rs_status r) ev) of
            Inl e \<Rightarrow> Err e
          | Inr c \<Rightarrow> Ok \<lparr>as_state_reference = r, as_class = c, as_raw_recovery = raw\<rparr>)"

definition assessed_kind :: "ModelStateContinuationAssessment \<Rightarrow> ModelStateContinuationKind" where
  "assessed_kind a = class_kind (as_class a)"

definition unavailable_reason :: "ModelStateContinuationAssessment \<Rightarrow> ModelStateUnavailableReason option" where
  "unavailable_reason a = (case as_class a of ClUnavailable w \<Rightarrow> Some w | _ \<Rightarrow> None)"

definition assessed_scoped_evidence :: "ModelStateContinuationAssessment \<Rightarrow> (digest \<times> digest) option" where
  "assessed_scoped_evidence a = (case as_class a of ClScopedCertificate _ c d \<Rightarrow> Some (c, d) | _ \<Rightarrow> None)"

definition assessed_empirical_evidence :: "ModelStateContinuationAssessment \<Rightarrow> (digest \<times> digest \<times> digest \<times> nat option) option" where
  "assessed_empirical_evidence a = (case as_class a of ClEmpirical _ f e d until \<Rightarrow> Some (f, e, d, until) | _ \<Rightarrow> None)"

section \<open>Headroom\<close>

definition u32_max :: nat where "u32_max = 4294967295"

record DecisionViewHeadroomPlan =
  hp_contract_digest :: digest
  hp_view_digest :: digest
  hp_token_map_digest :: digest
  hp_context_capacity :: nat
  hp_logical_input_tokens :: nat
  hp_max_output_tokens :: nat
  hp_reserved_reasoning_tokens :: nat
  hp_reserved_visible_output_tokens :: nat
  hp_reserved_recovery_tokens :: nat
  hp_reserved_tool_tokens :: nat
  hp_admitted_input_ceiling :: nat
  hp_remaining_input_headroom :: nat

definition plan_headroom ::
    "'e reasoning_contract \<Rightarrow> nat \<Rightarrow> nat \<Rightarrow> DecisionView \<Rightarrow> 'e ReasoningStateError + DecisionViewHeadroomPlan" where
  "plan_headroom c capacity tools v =
     (case rc_validate c of
        Inl e \<Rightarrow> Err (ContractRejected e)
      | Inr u \<Rightarrow>
          if rc_tokenizer c \<noteq> vi_tokenizer (dv_identity v) then Err ContractTokenizerMismatch
          else if rc_tool_schema c \<noteq> vi_tool_schema (dv_identity v) then Err ContractToolSchemaMismatch
          else if u32_max < dv_total_tokens v then Err InputTokenOverflow
          else case rc_admitted_input_ceiling c capacity tools of
            Inl e \<Rightarrow> Err (ContractRejected e)
          | Inr ceiling \<Rightarrow>
         (case rc_admit_input c capacity tools (dv_total_tokens v) of
            Inl e \<Rightarrow> Err (ContractRejected e)
          | Inr remaining \<Rightarrow>
         (case rc_identity_digest c of
            Inl e \<Rightarrow> Err (ContractRejected e)
          | Inr cd \<Rightarrow> Ok \<lparr>hp_contract_digest = cd, hp_view_digest = dv_digest v, hp_token_map_digest = dv_token_map v,
              hp_context_capacity = capacity, hp_logical_input_tokens = dv_total_tokens v,
              hp_max_output_tokens = rc_max_output_tokens c, hp_reserved_reasoning_tokens = rc_reserved_reasoning_tokens c,
              hp_reserved_visible_output_tokens = rc_reserved_visible_output_tokens c,
              hp_reserved_recovery_tokens = rc_reserved_recovery_tokens c, hp_reserved_tool_tokens = tools,
              hp_admitted_input_ceiling = ceiling, hp_remaining_input_headroom = remaining\<rparr>)))"

section \<open>Replay\<close>

lemma past_iff: "past expiry now \<longleftrightarrow> (\<exists>e. expiry = Some e \<and> e \<le> now)"
  by (simp add: past_def split: option.splits)

lemma capture_Ok:
  assumes "capture H k s b ord certificate expiry bs = Ok env"
  shows "env = \<lparr>env_reference = \<lparr>rs_kind = k, rs_status = s, rs_binding = b, rs_order = ord, rs_content_digest = H bs,
       rs_byte_len = length bs, rs_certificate = certificate, rs_valid_until = expiry\<rparr>, opaque_bytes = bs\<rparr>"
    and "authorized (native_state_policy b) s" and "k \<noteq> NoState" and "bs \<noteq> []"
  using assms
  by (auto simp: capture_def validate_native_state_policy_def split: if_splits sum.splits)

lemma exact_replay_iff:
  "exact_replay_bytes H env b ord now = Ok bs \<longleftrightarrow>
     rs_status (env_reference env) = StExact \<and> authorized (native_state_policy b) StExact \<and> rs_binding (env_reference env) = b \<and>
     rs_order (env_reference env) = ord \<and> \<not> past (rs_valid_until (env_reference env)) now \<and>
     H bs = rs_content_digest (env_reference env) \<and> bs = opaque_bytes env"
  by (auto simp: exact_replay_bytes_def Let_def validate_native_state_policy_def)

lemma evidence_class:
  assumes "validate_continuation_evidence_for_state r ev = Ok u"
  shows "\<exists>c. unexpired_class r now (rs_status r) ev = Ok c"
  using assms
  by (cases "rs_status r"; cases ev) (auto simp: validate_continuation_evidence_for_state_def split: sum.splits if_splits)

lemma unexpired_exact: "unexpired_class r now s ev = Ok c \<Longrightarrow> class_kind c = ExactNeutral \<longleftrightarrow> s = StExact"
  by (cases "(r, now, s, ev)" rule: unexpired_class.cases) (auto split: if_splits)

lemma assess_Ok:
  "assess r ev raw now = Ok a \<longleftrightarrow>
     (\<exists>u. validate_continuation_evidence_for_state r ev = Ok u) \<and>
     tokenizer_identity (rs_binding r) = vi_tokenizer (rr_identity raw) \<and>
     tool_schema_digest (rs_binding r) = vi_tool_schema (rr_identity raw) \<and>
     (\<exists>c. (if past (rs_valid_until r) now then Ok (ClUnavailable StateExpired) else unexpired_class r now (rs_status r) ev) = Ok c \<and>
       a = \<lparr>as_state_reference = r, as_class = c, as_raw_recovery = raw\<rparr>)"
  by (auto simp: assess_def split: sum.splits if_splits)

lemma unexpired_later:
  assumes "unexpired_class r t s ev = Ok c" and "t \<le> t'"
  shows "\<exists>c'. unexpired_class r t' s ev = Ok c' \<and> (c' = c \<or> class_kind c' = UnavailableState)"
  using assms by (cases "(r, t, s, ev)" rule: unexpired_class.cases) (auto simp: past_iff split: if_splits)

lemma require_all_iff: "require_all fs = Ok () \<longleftrightarrow> list_all (\<lambda>f. snd f \<noteq> ZERO_DIGEST) fs"
  by (induction fs rule: require_all.induct) (auto simp: require_continuation_digest_def)

lemma capture_raw_Ok:
  assumes "capture_raw H v baseline safepoint = Ok env"
  shows "raw_reference env = \<lparr>rr_identity = dv_identity v, rr_view_digest = dv_digest v, rr_token_map_digest = dv_token_map v,
       rr_raw_bytes_digest = H (dv_rendered v), rr_raw_byte_len = length (dv_rendered v), rr_total_tokens = dv_total_tokens v,
       rr_raw_baseline = baseline, rr_hub_safepoint = safepoint\<rparr>"
    and "raw_decision_view_bytes env = dv_rendered v" and "\<not> u64_max < length (dv_rendered v)"
  using assms unfolding capture_raw_def Let_def by (simp_all split: sum.splits if_splits) auto

section \<open>Properties\<close>

text \<open>
  Replay is exact and never widened. An envelope returns, at a later time, precisely the bytes it captured, and it does so exactly
  when the state was captured as exact, the caller names the same binding and the same place in the order, and the
  state has not expired.
\<close>

theorem replay_exact:
  assumes "(capture H k s b ord certificate expiry bs :: 'e ReasoningStateError + _) = Ok env"
  shows "(exact_replay_bytes H env b' ord' now :: 'e ReasoningStateError + _) = Ok out \<longleftrightarrow>
     out = bs \<and> s = StExact \<and> b' = b \<and> ord' = ord \<and> \<not> past expiry now"
  using capture_Ok [OF assms] by (auto simp: exact_replay_iff)

text \<open>C40: the assessment of a continuation and its replay agree. A captured state is assessed as exact and neutral exactly when its
  bytes can be replayed at that time under its own binding and order, whatever evidence came with it.
\<close>

theorem assessment_agrees_with_replay:
  assumes "(capture H k s b ord certificate expiry bs :: 'e ReasoningStateError + _) = Ok env"
    and "assess (env_reference env) ev raw now = Ok a"
  shows "assessed_kind a = ExactNeutral \<longleftrightarrow> (exact_replay_bytes H env b ord now :: 'e ReasoningStateError + _) = Ok bs"
proof -
  note env = capture_Ok [OF assms(1)]
  show ?thesis
    using env assms(2) unexpired_exact [of "env_reference env" now s ev "as_class a"]
    by (auto simp: assess_Ok exact_replay_iff assessed_kind_def split: if_splits)
qed

text \<open>
  An assessment only degrades. One that succeeds succeeds at every later time too, and keeps its class or becomes unavailable: no
  later assessment with the same evidence claims more.
\<close>

theorem assessment_only_degrades:
  assumes "assess r ev raw t = Ok a" and "t \<le> t'"
  shows "\<exists>a'. assess r ev raw t' = Ok a' \<and> (as_class a' = as_class a \<or> assessed_kind a' = UnavailableState)"
proof (cases "past (rs_valid_until r) t'")
  case True
  then show ?thesis
    using assms by (auto simp: assess_Ok assessed_kind_def)
next
  case False
  then have now: "\<not> past (rs_valid_until r) t"
    using assms(2) by (auto simp: past_iff)
  then obtain c where "unexpired_class r t (rs_status r) ev = Ok c" "as_class a = c"
    using assms(1) by (auto simp: assess_Ok)
  then show ?thesis
    using unexpired_later [OF _ assms(2), of r "rs_status r" ev c] False assms(1) by (auto simp: assess_Ok assessed_kind_def)
qed

text \<open>
  The fallback is exact. The carrier of a raw decision view returns the rendered bytes exactly to a caller that names the view's identity,
  its digests and the two hub identities it was captured with.
\<close>

theorem raw_recovery_exact:
  assumes "capture_raw H v baseline safepoint = Ok env"
  shows "exact_raw_decision_view_bytes H env i vd md baseline' safepoint' = Ok out \<longleftrightarrow>
     out = dv_rendered v \<and> i = dv_identity v \<and> vd = dv_digest v \<and> md = dv_token_map v \<and> baseline' = baseline \<and> safepoint' = safepoint"
  using capture_raw_Ok [OF assms] by (auto simp: exact_raw_decision_view_bytes_def Let_def)

section \<open>Examples\<close>

definition sample_contract :: "rstr reasoning_contract" where
  "sample_contract = \<lparr>rc_validate = Ok (), rc_model = replicate 32 1, rc_backend = replicate 32 2, rc_tokenizer = replicate 32 7,
     rc_decoder = replicate 32 3, rc_tool_schema = replicate 32 4, rc_identity_digest = Ok (replicate 32 6),
     rc_native_state_policy = ExactIfAvailable, rc_max_output_tokens = 10, rc_reserved_reasoning_tokens = 4,
     rc_reserved_visible_output_tokens = 4, rc_reserved_recovery_tokens = 2,
     rc_admitted_input_ceiling = (\<lambda>c t. Ok (c - t - 10)), rc_admit_input = (\<lambda>c t n. Ok (c - t - 10 - n))\<rparr>"

definition sample_binding :: ReasoningStateBinding where
  "sample_binding = projr (new_binding (replicate 32 8) sample_contract (replicate 32 9) (replicate 32 10) False None)"

definition sample_order :: ReasoningStateOrder where
  "sample_order = \<lparr>sequence_index = 1, parent_content_digest = Some (replicate 32 5)\<rparr>"

definition sample_envelope :: OpaqueReasoningStateEnvelope where
  "sample_envelope = projr (capture (abi_sha sample_model_abi) SignedThinkingBlocks StExact sample_binding sample_order None (Some 100) [1, 2, 3]
     :: rstr ReasoningStateError + _)"

definition literal_view :: DecisionView where
  "literal_view = \<lparr>dv_identity = sample_view_identity, dv_section_kinds = [], dv_rendered = VIEW_HEAD, dv_token_map = replicate 32 13,
     dv_total_tokens = 1, dv_volatile_bytes = 0, dv_volatile_tokens = 0,
     dv_stable_prefix = new_geometry sample_model_abi sample_view_identity VIEW_HEAD 1, dv_metadata = default_metadata,
     dv_digest = replicate 32 14\<rparr>"

definition sample_raw :: RawDecisionViewRecoveryEnvelope where
  "sample_raw = projr (capture_raw (abi_sha sample_model_abi) literal_view (replicate 32 11) (replicate 32 12))"

definition sample_assessment :: ModelStateContinuationAssessment where
  "sample_assessment = projr (assess (env_reference sample_envelope) NoEvidence (raw_reference sample_raw) 99)"

lemma sample_capture:
  "(capture (abi_sha sample_model_abi) SignedThinkingBlocks StExact sample_binding sample_order None (Some 100) [1, 2, 3]
     :: rstr ReasoningStateError + _) = Ok sample_envelope"
  by code_simp

lemma sample_capture_raw:
  "capture_raw (abi_sha sample_model_abi) literal_view (replicate 32 11) (replicate 32 12) = Ok sample_raw"
  by code_simp

theorem replay_exact_witness:
  "(exact_replay_bytes (abi_sha sample_model_abi) sample_envelope sample_binding sample_order 99 :: rstr ReasoningStateError + _) = Ok [1, 2, 3]"
  by (rule replay_exact [OF sample_capture, THEN iffD2]) (simp add: past_def)

lemma sample_assess: "assess (env_reference sample_envelope) NoEvidence (raw_reference sample_raw) 99 = Ok sample_assessment"
  by code_simp

theorem assessment_agrees_with_replay_witness: "assessed_kind sample_assessment = ExactNeutral"
proof -
  have "(exact_replay_bytes (abi_sha sample_model_abi) sample_envelope sample_binding sample_order 99 :: rstr ReasoningStateError + _) = Ok [1, 2, 3]"
    by code_simp
  then show ?thesis
    by (rule assessment_agrees_with_replay [OF sample_capture sample_assess, THEN iffD2])
qed

theorem assessment_only_degrades_witness:
  "\<exists>a'. assess (env_reference sample_envelope) NoEvidence (raw_reference sample_raw) 100 = Ok a' \<and>
     (as_class a' = as_class sample_assessment \<or> assessed_kind a' = UnavailableState)"
  by (rule assessment_only_degrades [OF sample_assess]) simp

theorem raw_recovery_exact_witness:
  "exact_raw_decision_view_bytes (abi_sha sample_model_abi) sample_raw (dv_identity literal_view) (dv_digest literal_view)
     (dv_token_map literal_view) (replicate 32 11) (replicate 32 12) = Ok (dv_rendered literal_view)"
  by (rule raw_recovery_exact [OF sample_capture_raw, THEN iffD2]) simp

end
