(* ===== verification/Spec2Isabelle.thy ===== *)
theory Spec2Isabelle
  imports CowFork WorkingSetProps FetchGuard Residency Kernel Representations LivePareto OutputNovelty ProviderCache
    MemoryVerbs EntityNovelty TokenClasses ActionCache SegmentProps ShellRender ReasoningState
begin

text \<open>
  TokenZero: measurement, bounded projection and byte-exact recovery of tool output.

  \<^bold>\<open>The program.\<close> An agent's tools produce more text than its model should read. TokenZero measures
  text in tokens (\<open>tokenzero-core\<close>), shows a bounded view of it, and keeps the exact bytes in a
  recovery store (\<open>tokenzero-recovery\<close>) under references that the model can expand later. The
  engine (\<open>tokenzero-engine\<close>) and the kernel (\<open>tokenzero-kernel\<close>) decide what to show, what to
  cache and what to fetch. The parts meet at references: a capsule names the blob it was cut from,
  the store resolves the name, sessions print shorter aliases of it, the working set and the
  copy-on-write sessions page text out behind it. Identities, digests and receipts of model
  artifacts bind what was shown to what was stored.

  \<^bold>\<open>Conventions.\<close> A string is the list of its code points (\<open>rstr\<close>), its bytes are \<open>as_bytes\<close>, and
  slicing that panics outside a character boundary is an option. Machine integers of 64 bits are
  natural numbers with their bound \<open>u64_max\<close> and checked, saturating or wrapping operations where
  the source has them; addresses are words. Fallible code returns a sum with \<open>Err\<close> on the left;
  a panic is \<open>None\<close>. Mutable state is a record that is returned updated. A \<open>BTreeMap\<close> is an ordered
  association list (\<open>OrdMap\<close>). Third-party code is a parameter: SHA-256, the byte-pair tokenizers, JSON
  (serde), \<open>zero-ref\<close> and \<open>zero-abi\<close>, the file system, name resolution, clocks.

  \<^bold>\<open>Theories and sources.\<close>
  \<^item> \<open>Prelude\<close>, \<open>OrdMap\<close>, \<open>Framing\<close>: strings, UTF-8, arithmetic; ordered maps behind the locale
    \<open>finite_map\<close>; length-prefixed byte framing behind the locale \<open>prefix_code\<close>.
  \<^item> \<open>Tokens\<close> (\<open>core/tokens.rs\<close>): lexical counting equals its reference definition, packing and the
    token budget are bounds on the result. \<open>TokenClasses\<close> (\<open>core/token_classes.rs\<close>): typed counts.
  \<^item> \<open>Views\<close>, \<open>Capsule\<close> (\<open>core/lib.rs\<close>, part of \<open>core/shell_parse.rs\<close>): summaries keep critical lines,
    masking, the omission rule; a capsule never costs more than its payload.
  \<^item> \<open>ShellQuote\<close> (\<open>core/shell_quote.rs\<close>, \<open>shell_display.rs\<close>): quoting and splitting for every shell; one round trip behind the
    locale \<open>word_quoting\<close>. \<open>ShellSyntax\<close> (\<open>shell_parse.rs\<close>): quote cursor, segments, unwrapping of nested shells. \<open>ShellPolicy\<close>
    (\<open>shell_parse.rs\<close>, \<open>render/domain.rs\<close>, \<open>shell_family.rs\<close>, \<open>shell_policy\<close>): which segment failed, status, policy and views; an
    attributed failure never contradicts the exit code. \<open>ShellRender\<close> (\<open>render/noise.rs\<close>, \<open>render_shell\<close> of \<open>core/lib.rs\<close>): the
    compacted view of a success keeps every critical line; the visible text fits its budget, or is the declaration of
    what was left out, or the whole of a small output.
  \<^item> \<open>RefGrammar\<close>, \<open>SessionAliases\<close>, \<open>SourceFiles\<close>, \<open>RecoveryStore\<close> with \<open>StoreProps\<close> and \<open>AliasProps\<close>
    (\<open>recovery/lib.rs\<close>, \<open>session_aliases.rs\<close>, \<open>frecency.rs\<close>): references and fragments, streaming readers,
    storing, eviction, aliases, expansion, merging. What is stored under a reference that is not aliased expands byte for byte, except
    a text that begins with the store's own externalisation marker; what a
    full-hash reference expands to has that hash; limits hold after every store.
  \<^item> \<open>Transparency\<close> (\<open>recovery/transparency.rs\<close>): the Merkle mountain range of the audit log; completeness
    of its proofs and what they bind, up to a hash collision.
  \<^item> \<open>ContextViews\<close> (\<open>context_view.rs\<close>, \<open>prefix_stability.rs\<close>), \<open>BlobSource\<close> and \<open>CowFork\<close> (\<open>cow_fork.rs\<close>):
    budgeted projections; fork, discard and restore of sessions over the locale of blob stores.
  \<^item> \<open>WorkingSet\<close> with \<open>WorkingSetProps\<close> (\<open>working_set.rs\<close>): admission, deltas, paging out and in; the runs
    \<open>ws_run\<close> are the reachable working sets. \<open>MemoryVerbs\<close> (\<open>memory_verbs.rs\<close>): the policy surface;
    the relation \<open>verb_call\<close> says which primitive each verb calls with which arguments, and a verb succeeds exactly when that call reports a change. \<open>EntityNovelty\<close> (\<open>entity_novelty.rs\<close>): merging refines set union.
    \<open>ActionCache\<close> (\<open>action_cache.rs\<close>): entries, tenancy and eviction plans; the race of one reader with one planner on a
    key, a file operation a step (\<open>reader_step\<close>, \<open>planner_step\<close>).
  \<^item> \<open>SegmentStore\<close> with \<open>SegmentProps\<close> (\<open>recovery/segment_store.rs\<close>): the append-only segment files, their
    manifest and its compare-and-swap. An operation is the list of its file effects, a crash keeps a
    prefix of them. From a clean directory a crashed put of a new reference, or a crashed eviction, recovers to the view before
    it or after it; renewals in cold segments and torn tails do not, and are findings.
  \<^item> \<open>ModelArtifacts\<close> (\<open>core/model_artifacts.rs\<close>): identities, exact token maps, pages, capsules, receipts,
    append-only slots. \<open>OutputNovelty\<close> (\<open>output_novelty.rs\<close>), \<open>DecisionView\<close> (\<open>decision_view.rs\<close>) and
    \<open>ProviderCache\<close> (\<open>provider_cache.rs\<close>) are its clients: field coding, the canonical order and the
    stable prefix of views, and the facts about provider caches over that prefix. \<open>ReasoningState\<close>
    (\<open>reasoning_state.rs\<close>): opaque reasoning bytes, when they may be replayed, and the raw view as fallback.
  \<^item> \<open>Representations\<close> (\<open>representation_economics.rs\<close>) and \<open>LivePareto\<close> (\<open>live_pareto.rs\<close>): Pareto frontiers
    behind the locale \<open>dominance\<close>, optimal segmentation, audited decisions.
  \<^item> \<open>FetchGuard\<close> (\<open>engine/fetch_guard.rs\<close>): accepted targets are allow-listed or resolve to unblocked addresses only.
    \<open>CachePolicies\<close> (\<open>admission.rs\<close>, \<open>cache_crossover.rs\<close>, \<open>eviction_scheduler.rs\<close>), \<open>Residency\<close>
    (\<open>frontier.rs\<close>, \<open>exposure.rs\<close>): cheapest actions, plans within budgets, append-only histories.
  \<^item> \<open>Kernel\<close> (\<open>tokenzero-kernel/lib.rs\<close>): counting, projection and compression that never cost more than
    the payload and whose exact form can be expanded.

  \<^bold>\<open>Loops and their bounds.\<close> Recursion follows the data wherever the code iterates over data. An alias chain
  is followed for at most eight steps, the bound of the source. The rewriting of references in
  text advances by at least one byte per round, and its recursion is well founded by the
  remaining length. The budget loop of the working set is a function with a termination proof:
  each round pages one resident span out. The unwrapping of nested shells and of \<open>env\<close> recurs on words that are
  shorter in total. The walk back through the segmentation table may not
  end on an arbitrary table and is a \<open>partial_function\<close> into \<open>option\<close>; that it ends on the tables the search
  builds is part of the theorem on optimal segmentations.

  \<^bold>\<open>Not modelled.\<close> The on-disk snapshot, journal, locks and migration of the recovery
  store, because their behaviour is that of the file system and of \<open>zero-store\<close>; the engine's
  tool orchestration, processes and network transfers; telemetry, the
  command line, installers and audits; the tables of the operation ABI and the JSON schemas;
  protocol atoms, pulse accounting and output filters, which are next in the plan. Ratios and rates that the source keeps as floats are real numbers, so
  rounding is outside the theorems.

  \<^bold>\<open>Plan.\<close> First the persistence-free parts of recovery (done), the core models (done except
  protocol atoms), then the action cache and the segment format of the store (done), the filters, pulse
  accounting, the ledger and the remaining engine policies.
\<close>

end
